(* ===== verification/Prelude.thy ===== *)
theory Prelude
  imports
    Main
    "HOL-Library.Word"
begin

text \<open>
  Shared vocabulary of the development: the machine types of the Rust sources, the
  \<open>Result\<close> type, big-endian integer encoding (\<open>to_be_bytes\<close> / \<open>from_be_bytes\<close>), and the
  operations of slices and iterators that several components use (\<open>position\<close>,
  \<open>rposition\<close>, \<open>chunks\<close>, overwriting a sub-slice), with the lemmas about them.

  Conventions. \<open>u8\<close>, \<open>u16\<close>, \<open>u32\<close>, \<open>u64\<close> and \<open>u128\<close> are words of that width;
  \<open>usize\<close> is \<open>nat\<close>; a slice, a \<open>Vec<u8>\<close> and an array \<open>[u8; N]\<close> are byte lists.
  A function whose Rust body can panic returns an \<open>option\<close>, and \<open>None\<close> is the panic.
\<close>

section \<open>Types\<close>

type_synonym u8 = "8 word"
type_synonym u16 = "16 word"
type_synonym u32 = "32 word"
type_synonym u64 = "64 word"
type_synonym u128 = "128 word"
type_synonym bytes = "u8 list"

text \<open>Time: an \<open>Instant\<close> is a number of clock ticks since an arbitrary origin.\<close>

type_synonym instant = nat
type_synonym duration = nat

datatype ('e, 'a) result = Ok 'a | Err 'e

primrec is_ok :: "('e, 'a) result \<Rightarrow> bool" where
  "is_ok (Ok _) = True"
| "is_ok (Err _) = False"

primrec ok :: "('e, 'a) result \<Rightarrow> 'a option" where
  "ok (Ok x) = Some x"
| "ok (Err _) = None"

primrec and_then :: "('e, 'a) result \<Rightarrow> ('a \<Rightarrow> ('e, 'b) result) \<Rightarrow> ('e, 'b) result" where
  "and_then (Ok x) f = f x"
| "and_then (Err e) f = Err e"

primrec map_err :: "('e \<Rightarrow> 'f) \<Rightarrow> ('e, 'a) result \<Rightarrow> ('f, 'a) result" where
  "map_err f (Ok x) = Ok x"
| "map_err f (Err e) = Err (f e)"

text \<open>The collections the component proofs draw on.\<close>

named_theorems codec_defs \<open>unfolding rules of the codec's thin wrappers\<close>
named_theorems length_simps \<open>lengths of encoded data\<close>

section \<open>Big-endian integers\<close>

fun to_be :: "nat \<Rightarrow> nat \<Rightarrow> bytes" where
  "to_be 0 k = []"
| "to_be (Suc n) k = to_be n (k div 256) @ [of_nat (k mod 256)]"

definition from_be :: "bytes \<Rightarrow> nat" where
  "from_be bs = foldl (\<lambda>a b. a * 256 + unat b) 0 bs"

lemma and_then_Ok: "and_then r f = Ok y \<longleftrightarrow> (\<exists>x. r = Ok x \<and> f x = Ok y)"
  by (cases r) auto

lemma length_to_be [simp, length_simps]: "length (to_be n k) = n"
  by (induction n arbitrary: k) auto

lemma from_be_Nil [simp]: "from_be [] = 0"
  by (simp add: from_be_def)

lemma from_be_snoc [simp]: "from_be (bs @ [b]) = from_be bs * 256 + unat b"
  by (simp add: from_be_def)

lemma unat_u8_less: "unat (b :: u8) < 256"
  using unsigned_less [of b, where ?'a = nat] by simp

lemma from_be_less: "from_be bs < 256 ^ length bs"
proof (induction bs rule: rev_induct)
  case Nil
  show ?case by simp
next
  case (snoc b bs)
  have "unat b < 256" by (rule unat_u8_less)
  moreover have "from_be bs + 1 \<le> 256 ^ length bs" using snoc.IH by simp
  then have "(from_be bs + 1) * 256 \<le> 256 ^ length bs * 256" by (rule mult_le_mono1)
  ultimately show ?case by simp
qed

lemma unat_of_nat_u8: "unat (of_nat k :: u8) = k mod 256"
  by (simp add: unat_of_nat)

lemma of_nat_mod_u8 [simp]: "(of_nat (k mod 256) :: u8) = of_nat k"
  by (simp add: word_unat_eq_iff unat_of_nat_u8)

lemma u8_eq_of_nat: "unat (b :: u8) = n \<Longrightarrow> b = of_nat n"
  using unat_u8_less [of b] by (simp add: word_unat_eq_iff unat_of_nat_u8)

lemma from_be_to_be: "from_be (to_be n k) = k mod 256 ^ n"
proof (induction n arbitrary: k)
  case 0
  show ?case by simp
next
  case (Suc n)
  have "from_be (to_be (Suc n) k) = (k div 256 mod 256 ^ n) * 256 + k mod 256"
    by (simp add: Suc.IH unat_of_nat_u8 del: of_nat_mod_u8)
  also have "\<dots> = k mod (256 * 256 ^ n)"
    by (simp add: mod_mult2_eq algebra_simps)
  finally show ?case by simp
qed

lemma to_be_from_be: "to_be (length bs) (from_be bs) = bs"
proof (induction bs rule: rev_induct)
  case Nil
  show ?case by simp
next
  case (snoc b bs)
  have b: "unat b < 256" by (rule unat_u8_less)
  then have "(from_be bs * 256 + unat b) div 256 = from_be bs"
    and "(from_be bs * 256 + unat b) mod 256 = unat b" by simp_all
  then show ?case by (simp add: snoc.IH del: of_nat_mod_u8)
qed

lemma to_be_eq_iff:
  assumes "j < 256 ^ n" and "k < 256 ^ n"
  shows "to_be n j = to_be n k \<longleftrightarrow> j = k"
proof
  assume "to_be n j = to_be n k"
  then have "from_be (to_be n j) = from_be (to_be n k)" by simp
  with assms show "j = k" by (simp add: from_be_to_be)
qed simp

text \<open>Rust's \<open>uN::to_be_bytes\<close> and \<open>uN::from_be_bytes\<close> at the widths the sources use.\<close>

definition u16_to_be :: "u16 \<Rightarrow> bytes" where
  "u16_to_be w = to_be 2 (unat w)"

definition u16_from_be :: "bytes \<Rightarrow> u16" where
  "u16_from_be bs = of_nat (from_be bs)"

definition u32_to_be :: "u32 \<Rightarrow> bytes" where
  "u32_to_be w = to_be 4 (unat w)"

definition u32_from_be :: "bytes \<Rightarrow> u32" where
  "u32_from_be bs = of_nat (from_be bs)"

definition u64_to_be :: "u64 \<Rightarrow> bytes" where
  "u64_to_be w = to_be 8 (unat w)"

definition u64_from_be :: "bytes \<Rightarrow> u64" where
  "u64_from_be bs = of_nat (from_be bs)"

definition u128_to_be :: "u128 \<Rightarrow> bytes" where
  "u128_to_be w = to_be 16 (unat w)"

definition u128_from_be :: "bytes \<Rightarrow> u128" where
  "u128_from_be bs = of_nat (from_be bs)"

lemma length_uN_to_be [simp, length_simps]:
  "length (u16_to_be a) = 2" "length (u32_to_be b) = 4"
  "length (u64_to_be c) = 8" "length (u128_to_be d) = 16"
  by (simp_all add: u16_to_be_def u32_to_be_def u64_to_be_def u128_to_be_def)

lemma u16_from_to_be [simp]: "u16_from_be (u16_to_be w) = w"
  using unsigned_less [of w, where ?'a = nat] by (simp add: u16_from_be_def u16_to_be_def from_be_to_be)

lemma u32_from_to_be [simp]: "u32_from_be (u32_to_be w) = w"
  using unsigned_less [of w, where ?'a = nat] by (simp add: u32_from_be_def u32_to_be_def from_be_to_be)

lemma u64_from_to_be [simp]: "u64_from_be (u64_to_be w) = w"
  using unsigned_less [of w, where ?'a = nat] by (simp add: u64_from_be_def u64_to_be_def from_be_to_be)

lemma u128_from_to_be [simp]: "u128_from_be (u128_to_be w) = w"
  using unsigned_less [of w, where ?'a = nat] by (simp add: u128_from_be_def u128_to_be_def from_be_to_be)

lemma unat_u16_from_be: "length bs = 2 \<Longrightarrow> unat (u16_from_be bs) = from_be bs"
  using from_be_less [of bs] by (simp add: u16_from_be_def unat_of_nat)

lemma unat_u32_from_be: "length bs = 4 \<Longrightarrow> unat (u32_from_be bs) = from_be bs"
  using from_be_less [of bs] by (simp add: u32_from_be_def unat_of_nat)

lemma unat_u64_from_be: "length bs = 8 \<Longrightarrow> unat (u64_from_be bs) = from_be bs"
  using from_be_less [of bs] by (simp add: u64_from_be_def unat_of_nat)

lemma u16_to_from_be: "length bs = 2 \<Longrightarrow> u16_to_be (u16_from_be bs) = bs"
  using to_be_from_be [of bs] by (simp add: u16_to_be_def unat_u16_from_be)

lemma u32_to_from_be: "length bs = 4 \<Longrightarrow> u32_to_be (u32_from_be bs) = bs"
  using to_be_from_be [of bs] by (simp add: u32_to_be_def unat_u32_from_be)

lemma u64_to_from_be: "length bs = 8 \<Longrightarrow> u64_to_be (u64_from_be bs) = bs"
  using to_be_from_be [of bs] by (simp add: u64_to_be_def unat_u64_from_be)

lemma u16_to_be_eq: "u16_to_be w = [of_nat (unat w div 256), of_nat (unat w)]"
  by (simp add: u16_to_be_def numeral_2_eq_2)

lemma u16_from_be_eq: "u16_from_be [a, b] = of_nat (unat a * 256 + unat b)"
  by (simp add: u16_from_be_def from_be_def)

lemma unat_of_nat_u16_small: "n < 65536 \<Longrightarrow> unat (of_nat n :: u16) = n"
  by (simp add: unat_of_nat)

lemma unat_of_nat_u8_small: "n < 256 \<Longrightarrow> unat (of_nat n :: u8) = n"
  by (simp add: unat_of_nat)

section \<open>Slices\<close>

lemma Cons4_nth_drop:
  "4 \<le> length xs \<Longrightarrow> xs = xs ! 0 # xs ! 1 # xs ! 2 # xs ! 3 # drop 4 xs"
  by (cases xs rule: list.exhaust [case_product list.exhaust])
    (auto simp: neq_Nil_conv Suc_le_length_iff eval_nat_numeral)

text \<open>\<open>dst[off..off + src.len()].copy_from_slice(src)\<close>, for a range inside \<open>dst\<close>.\<close>

definition splice :: "nat \<Rightarrow> 'a list \<Rightarrow> 'a list \<Rightarrow> 'a list" where
  "splice off src dst = take off dst @ src @ drop (off + length src) dst"

lemma length_splice [simp]: "off + length src \<le> length dst \<Longrightarrow> length (splice off src dst) = length dst"
  by (simp add: splice_def)

lemma take_splice_le [simp]: "n \<le> off \<Longrightarrow> off \<le> length dst \<Longrightarrow> take n (splice off src dst) = take n dst"
  by (simp add: splice_def min_def)

lemma drop_splice_ge:
  "off + length src \<le> n \<Longrightarrow> off + length src \<le> length dst \<Longrightarrow> drop n (splice off src dst) = drop n dst"
  by (simp add: splice_def)

lemma slice_splice [simp]:
  "off + length src \<le> length dst \<Longrightarrow> take (length src) (drop off (splice off src dst)) = src"
  by (simp add: splice_def)

text \<open>\<open>slice.iter().position(p)\<close> and \<open>slice.iter().rposition(p)\<close>.\<close>

fun position :: "('a \<Rightarrow> bool) \<Rightarrow> 'a list \<Rightarrow> nat option" where
  "position p [] = None"
| "position p (x # xs) = (if p x then Some 0 else map_option Suc (position p xs))"

fun rposition :: "('a \<Rightarrow> bool) \<Rightarrow> 'a list \<Rightarrow> nat option" where
  "rposition p [] = None"
| "rposition p (x # xs) =
     (case rposition p xs of
        Some i \<Rightarrow> Some (Suc i)
      | None \<Rightarrow> if p x then Some 0 else None)"

lemma find_append:
  "find p (xs @ ys) = (case find p xs of None \<Rightarrow> find p ys | Some x \<Rightarrow> Some x)"
  by (induction xs) auto

lemma position_None_iff: "position p xs = None \<longleftrightarrow> (\<forall>x\<in>set xs. \<not> p x)"
  by (induction xs) auto

lemma rposition_None_iff: "rposition p xs = None \<longleftrightarrow> (\<forall>x\<in>set xs. \<not> p x)"
  by (induction xs) (auto split: option.splits)

lemma position_Some_split:
  "position p xs = Some i \<Longrightarrow>
     i < length xs \<and> p (xs ! i) \<and> (\<forall>x\<in>set (take i xs). \<not> p x)
     \<and> xs = take i xs @ xs ! i # drop (Suc i) xs"
  by (induction xs arbitrary: i) (auto split: if_splits)

lemma rposition_Some_split:
  "rposition p xs = Some i \<Longrightarrow>
     i < length xs \<and> p (xs ! i) \<and> (\<forall>x\<in>set (drop (Suc i) xs). \<not> p x)
     \<and> xs = take i xs @ xs ! i # drop (Suc i) xs"
proof (induction xs arbitrary: i)
  case Nil
  then show ?case by simp
next
  case (Cons x xs)
  then show ?case
    by (auto simp: rposition_None_iff split: option.splits if_splits)
qed

text \<open>\<open>slice.chunks(n)\<close>: consecutive pieces of \<open>n\<close> elements, the last one possibly shorter.\<close>

function chunks :: "nat \<Rightarrow> 'a list \<Rightarrow> 'a list list" where
  "chunks n xs = (if n = 0 \<or> xs = [] then [] else take n xs # chunks n (drop n xs))"
  by pat_completeness auto
termination
  by (relation "measure (\<lambda>(n, xs). length xs)") auto

declare chunks.simps [simp del]

lemma chunks_Nil [simp]: "chunks n [] = []"
  by (simp add: chunks.simps)

lemma concat_chunks: "0 < n \<Longrightarrow> concat (chunks n xs) = xs"
proof (induction n xs rule: chunks.induct)
  case (1 n xs)
  then show ?case by (cases "xs = []") (simp_all add: chunks.simps [of n xs])
qed

lemma length_chunks_le: "c \<in> set (chunks n xs) \<Longrightarrow> 0 < length c \<and> length c \<le> n"
proof (induction n xs rule: chunks.induct)
  case (1 n xs)
  then show ?case by (cases "n = 0 \<or> xs = []") (auto simp: chunks.simps [of n xs])
qed

lemma length_chunks: "0 < n \<Longrightarrow> length (chunks n xs) = (length xs + n - 1) div n"
proof (induction n xs rule: chunks.induct)
  case (1 n xs)
  show ?case
  proof (cases "xs = []")
    case False
    have "length (chunks n xs) = Suc ((length (drop n xs) + n - 1) div n)"
      using 1 False by (simp add: chunks.simps [of n xs])
    also have "\<dots> = (length xs + n - 1) div n"
    proof (cases "n \<le> length xs")
      case True
      then have "length xs + n - 1 = (length (drop n xs) + n - 1) + n" using 1(2) by auto
      then show ?thesis using 1(2) by (simp only: div_add_self2)
    next
      case short: False
      then have "length xs + n - 1 = (length xs - 1) + n" "(length xs - 1) div n = 0"
        using False by (cases xs; simp)+
      then show ?thesis using short 1(2) by (simp only: div_add_self2) simp
    qed
    finally show ?thesis .
  qed (use 1 in simp)
qed

lemma chunks_empty_iff: "chunks n xs = [] \<longleftrightarrow> n = 0 \<or> xs = []"
  by (subst chunks.simps) simp

section \<open>Fallible slicing\<close>

definition split_first_chunk :: "nat \<Rightarrow> 'a list \<Rightarrow> ('a list \<times> 'a list) option" where
  "split_first_chunk n xs = (if n \<le> length xs then Some (take n xs, drop n xs) else None)"

definition checked_sub :: "nat \<Rightarrow> nat \<Rightarrow> nat option" where
  "checked_sub a b = (if b \<le> a then Some (a - b) else None)"

text \<open>\<open>slice.get(..n)\<close> and \<open>slice.get(a..b)\<close>.\<close>

definition get_to :: "nat \<Rightarrow> 'a list \<Rightarrow> 'a list option" where
  "get_to n xs = (if n \<le> length xs then Some (take n xs) else None)"

definition get_range :: "nat \<Rightarrow> nat \<Rightarrow> 'a list \<Rightarrow> 'a list option" where
  "get_range a b xs = (if a \<le> b \<and> b \<le> length xs then Some (take (b - a) (drop a xs)) else None)"

lemmas slice_defs = split_first_chunk_def checked_sub_def get_to_def get_range_def

section \<open>UTF-8\<close>

text \<open>
  \<open>std::str::from_utf8(bytes).is_ok()\<close>: the well-formed byte sequences of the Unicode
  standard (no overlong forms, no surrogates, nothing above U+10FFFF).
\<close>

definition utf8_cont :: "u8 \<Rightarrow> bool" where
  "utf8_cont b \<longleftrightarrow> 0x80 \<le> b \<and> b \<le> 0xBF"

fun utf8_valid :: "bytes \<Rightarrow> bool" where
  "utf8_valid [] = True"
| "utf8_valid (b0 # r) =
     (if b0 \<le> 0x7F then utf8_valid r
      else if 0xC2 \<le> b0 \<and> b0 \<le> 0xDF then
        (case r of b1 # r' \<Rightarrow> utf8_cont b1 \<and> utf8_valid r' | _ \<Rightarrow> False)
      else if 0xE0 \<le> b0 \<and> b0 \<le> 0xEF then
        (case r of
           b1 # b2 # r' \<Rightarrow>
             (if b0 = 0xE0 then 0xA0 \<le> b1 \<and> b1 \<le> 0xBF
              else if b0 = 0xED then 0x80 \<le> b1 \<and> b1 \<le> 0x9F
              else utf8_cont b1)
             \<and> utf8_cont b2 \<and> utf8_valid r'
         | _ \<Rightarrow> False)
      else if 0xF0 \<le> b0 \<and> b0 \<le> 0xF4 then
        (case r of
           b1 # b2 # b3 # r' \<Rightarrow>
             (if b0 = 0xF0 then 0x90 \<le> b1 \<and> b1 \<le> 0xBF
              else if b0 = 0xF4 then 0x80 \<le> b1 \<and> b1 \<le> 0x8F
              else utf8_cont b1)
             \<and> utf8_cont b2 \<and> utf8_cont b3 \<and> utf8_valid r'
         | _ \<Rightarrow> False)
      else False)"

definition from_utf8 :: "bytes \<Rightarrow> bytes option" where
  "from_utf8 bs = (if utf8_valid bs then Some bs else None)"

lemma utf8_valid_ascii: "list_all (\<lambda>b. b \<le> 0x7F) bs \<Longrightarrow> utf8_valid bs"
  by (induction bs) auto

declare utf8_valid.simps(2) [simp del]

end
