(* ===== verification/Net.thy ===== *)
theory Net
  imports Prelude "HOL-Library.Product_Lexorder" "HOL-Library.List_Lexorder" "HOL-Library.Finite_Map"
begin

text \<open>
  Addresses (\<open>std::net::IpAddr\<close>, \<open>SocketAddr\<close>) with the total order Rust derives for them, and the
  ordered set \<open>BTreeSet\<close> as the sorted list of its elements.
\<close>

section \<open>Addresses\<close>

datatype ip_addr = V4 u32 | V6 u128

datatype socket_addr =
    SocketV4 u32 u16
  | SocketV6 (v6_ip: u128) (v6_port: u16) (v6_flowinfo: u32) (v6_scope: u32)

fun socket_ip :: "socket_addr \<Rightarrow> ip_addr" where
  "socket_ip (SocketV4 a _) = V4 a"
| "socket_ip (SocketV6 a _ _ _) = V6 a"

text \<open>The derived orders: the variant first, then the fields from left to right.\<close>

fun ip_rank :: "ip_addr \<Rightarrow> nat \<times> nat" where
  "ip_rank (V4 a) = (0, unat a)"
| "ip_rank (V6 a) = (1, unat a)"

fun socket_rank :: "socket_addr \<Rightarrow> nat \<times> nat \<times> nat \<times> nat \<times> nat" where
  "socket_rank (SocketV4 a p) = (0, unat a, unat p, 0, 0)"
| "socket_rank (SocketV6 a p f s) = (1, unat a, unat p, unat f, unat s)"

lemma ip_rank_inject [simp]: "ip_rank a = ip_rank b \<longleftrightarrow> a = b"
  by (cases a; cases b) (auto simp: word_unat_eq_iff)

lemma socket_rank_inject [simp]: "socket_rank a = socket_rank b \<longleftrightarrow> a = b"
  by (cases a; cases b) (auto simp: word_unat_eq_iff)

instantiation ip_addr :: linorder
begin

definition less_eq_ip_addr :: "ip_addr \<Rightarrow> ip_addr \<Rightarrow> bool" where
  "less_eq_ip_addr a b \<longleftrightarrow> ip_rank a \<le> ip_rank b"

definition less_ip_addr :: "ip_addr \<Rightarrow> ip_addr \<Rightarrow> bool" where
  "less_ip_addr a b \<longleftrightarrow> ip_rank a < ip_rank b"

instance
  by standard (auto simp: less_eq_ip_addr_def less_ip_addr_def less_le_not_le dest: order_antisym)

end

instantiation socket_addr :: linorder
begin

definition less_eq_socket_addr :: "socket_addr \<Rightarrow> socket_addr \<Rightarrow> bool" where
  "less_eq_socket_addr a b \<longleftrightarrow> socket_rank a \<le> socket_rank b"

definition less_socket_addr :: "socket_addr \<Rightarrow> socket_addr \<Rightarrow> bool" where
  "less_socket_addr a b \<longleftrightarrow> socket_rank a < socket_rank b"

instance
  by standard (auto simp: less_eq_socket_addr_def less_socket_addr_def less_le_not_le dest: order_antisym)

end

section \<open>Maps\<close>

text \<open>\<open>HashMap::len\<close> and \<open>values_mut().for_each(f)\<close>.\<close>

abbreviation fmlen :: "('k, 'v) fmap \<Rightarrow> nat" where
  "fmlen m \<equiv> fcard (fmdom m)"

lemma fmlen_upd: "fmlen (fmupd k v m) = (if fmlookup m k = None then Suc (fmlen m) else fmlen m)"
  by (auto simp: fcard_finsert_if fmlookup_dom_iff)

end
