(* ===== verification/Tls_Names.thy ===== *)
theory Tls_Names
  imports Net
begin

text \<open>
  The identity checks of \<^verbatim>\<open>src/crypto/tls.rs\<close>: the subject alternative names of a peer certificate, and
  \<open>matches_hostname\<close> with the wildcard rules of RFC 6125. A certificate is what aws-lc returns for it:
  the decoded \<open>GENERAL_NAME\<close> structures and the strings of the Common Name entries. The parser of
  addresses is that of \<open>std::net\<close>. Strings are their UTF-8 bytes.
\<close>

section \<open>Parsing addresses\<close>

definition to_digit :: "nat \<Rightarrow> u8 \<Rightarrow> nat option" where
  "to_digit radix c =
     (let d = (if 48 \<le> c \<and> c \<le> 57 then Some (unat c - 48)
               else if 97 \<le> c \<and> c \<le> 122 then Some (unat c - 87)
               else if 65 \<le> c \<and> c \<le> 90 then Some (unat c - 55) else None)
      in case d of Some d \<Rightarrow> if d < radix then Some d else None | None \<Rightarrow> None)"

fun read_digits :: "nat \<Rightarrow> nat \<Rightarrow> nat \<Rightarrow> nat \<Rightarrow> nat \<Rightarrow> bytes \<Rightarrow> (nat \<times> nat \<times> bytes) option" where
  "read_digits radix limit max_digits acc n [] = Some (acc, n, [])"
| "read_digits radix limit max_digits acc n (c # cs) =
     (case to_digit radix c of
        None \<Rightarrow> Some (acc, n, c # cs)
      | Some d \<Rightarrow>
          if acc * radix + d \<ge> limit then None
          else if n + 1 > max_digits then None
          else read_digits radix limit max_digits (acc * radix + d) (n + 1) cs)"

definition read_number :: "nat \<Rightarrow> nat \<Rightarrow> nat \<Rightarrow> bool \<Rightarrow> bytes \<Rightarrow> (nat \<times> bytes) option" where
  "read_number radix limit max_digits allow_zero_prefix s =
     (let has_leading_zero = (s \<noteq> [] \<and> s ! 0 = 48)
      in case read_digits radix limit max_digits 0 0 s of
           None \<Rightarrow> None
         | Some (v, n, rest) \<Rightarrow>
             if n = 0 then None
             else if \<not> allow_zero_prefix \<and> has_leading_zero \<and> n > 1 then None
             else Some (v, rest))"

definition read_given_char :: "u8 \<Rightarrow> bytes \<Rightarrow> bytes option" where
  "read_given_char c s = (case s of [] \<Rightarrow> None | x # xs \<Rightarrow> if x = c then Some xs else None)"

definition read_separator :: "u8 \<Rightarrow> nat \<Rightarrow> (bytes \<Rightarrow> ('a \<times> bytes) option) \<Rightarrow> bytes \<Rightarrow> ('a \<times> bytes) option" where
  "read_separator sep index p s =
     (if index > 0 then Option.bind (read_given_char sep s) p else p s)"

fun read_octets :: "nat \<Rightarrow> nat \<Rightarrow> bytes \<Rightarrow> (nat list \<times> bytes) option" where
  "read_octets i 0 s = Some ([], s)"
| "read_octets i (Suc k) s =
     Option.bind (read_separator 46 i (read_number 10 256 3 False) s) (\<lambda>(g, s).
     map_option (apfst (Cons g)) (read_octets (i + 1) k s))"

definition read_ipv4_addr :: "bytes \<Rightarrow> (nat list \<times> bytes) option" where
  "read_ipv4_addr s = read_octets 0 4 s"

text \<open>The groups read, whether an embedded IPv4 address ended them, and the rest of the input.\<close>

function read_groups :: "nat \<Rightarrow> nat \<Rightarrow> bytes \<Rightarrow> nat list \<times> bool \<times> bytes" where
  "read_groups limit i s =
     (if i < limit then
        (case (if i < limit - 1 then read_separator 58 i read_ipv4_addr s else None) of
           Some (octets, s) \<Rightarrow>
             ([octets ! 0 * 256 + octets ! 1, octets ! 2 * 256 + octets ! 3], True, s)
         | None \<Rightarrow>
             (case read_separator 58 i (read_number 16 65536 4 True) s of
                None \<Rightarrow> ([], False, s)
              | Some (g, s) \<Rightarrow> apfst (Cons g) (read_groups limit (i + 1) s)))
      else ([], False, s))"
  by pat_completeness auto
termination
  by (relation "measure (\<lambda>(limit, i, _). limit - i)") auto

declare read_groups.simps [simp del]

definition groups_value :: "nat \<Rightarrow> nat list \<Rightarrow> nat" where
  "groups_value base gs = foldl (\<lambda>v g. v * base + g) 0 gs"

definition read_ipv6_addr :: "bytes \<Rightarrow> (nat list \<times> bytes) option" where
  "read_ipv6_addr s =
     (case read_groups 8 0 s of
        (head, head_ipv4, s) \<Rightarrow>
          if length head = 8 then Some (head, s)
          else if head_ipv4 then None
          else Option.bind (read_given_char 58 s) (\<lambda>s.
               Option.bind (read_given_char 58 s) (\<lambda>s.
                 case read_groups (8 - (length head + 1)) 0 s of
                   (tail, _, s) \<Rightarrow> Some (head @ replicate (8 - length head - length tail) 0 @ tail, s))))"

definition parse_ip_addr :: "bytes \<Rightarrow> ip_addr option" where
  "parse_ip_addr s =
     (case (case read_ipv4_addr s of
              Some (octets, rest) \<Rightarrow> Some (V4 (of_nat (groups_value 256 octets)), rest)
            | None \<Rightarrow>
                map_option (\<lambda>(gs, rest). (V6 (of_nat (groups_value 65536 gs)), rest)) (read_ipv6_addr s)) of
        Some (a, []) \<Rightarrow> Some a
      | _ \<Rightarrow> None)"

section \<open>Subject alternative names\<close>

record other_name_san =
  on_oid :: bytes
  on_value :: bytes

datatype subject_alt_name =
    Dns bytes
  | Ip ip_addr
  | Uri bytes
  | RegisteredId bytes
  | OtherName other_name_san

text \<open>
  A pointer that may be null is an option. An \<open>ASN1_OBJECT\<close> is the result of \<open>OBJ_obj2txt\<close> on it (the
  length it reports and the buffer it fills), an \<open>ASN1_TYPE\<close> the two results of \<open>i2d_ASN1_TYPE\<close>.
\<close>

type_synonym asn1_string = "bytes option"
type_synonym asn1_object = "(int \<times> bytes) option"
type_synonym asn1_type = "(int \<times> int \<times> bytes) option"

datatype general_name =
    GenDns asn1_string
  | GenIpAdd asn1_string
  | GenUri asn1_string
  | GenRid asn1_object
  | GenOtherName "(asn1_object \<times> asn1_type) option"
  | GenUnknown

definition read_asn1_string_utf8 :: "asn1_string \<Rightarrow> bytes option" where
  "read_asn1_string_utf8 s = Option.bind s from_utf8"

definition read_asn1_ip :: "asn1_string \<Rightarrow> ip_addr option" where
  "read_asn1_ip s =
     Option.bind s (\<lambda>b.
       if length b = 4 then Some (V4 (u32_from_be b))
       else if length b = 16 then Some (V6 (u128_from_be b))
       else None)"

definition oid_to_dotted :: "asn1_object \<Rightarrow> bytes option" where
  "oid_to_dotted oid =
     Option.bind oid (\<lambda>(n, buf).
       if n \<le> 0 then None else if nat n \<ge> 256 then None else from_utf8 (take (nat n) buf))"

definition i2d_asn1_type :: "asn1_type \<Rightarrow> bytes option" where
  "i2d_asn1_type v =
     Option.bind v (\<lambda>(len, written, out). if len \<le> 0 then None else if written \<noteq> len then None else Some out)"

definition decode_other_name :: "(asn1_object \<times> asn1_type) option \<Rightarrow> other_name_san option" where
  "decode_other_name n =
     Option.bind n (\<lambda>(type_id, v).
     Option.bind (oid_to_dotted type_id) (\<lambda>oid.
     Option.bind (i2d_asn1_type v) (\<lambda>der. Some \<lparr>on_oid = oid, on_value = der\<rparr>)))"

fun decode_general_name :: "general_name \<Rightarrow> subject_alt_name option" where
  "decode_general_name (GenDns s) = map_option Dns (read_asn1_string_utf8 s)"
| "decode_general_name (GenIpAdd s) = map_option Ip (read_asn1_ip s)"
| "decode_general_name (GenUri s) = map_option Uri (read_asn1_string_utf8 s)"
| "decode_general_name (GenRid oid) = map_option RegisteredId (oid_to_dotted oid)"
| "decode_general_name (GenOtherName n) = map_option OtherName (decode_other_name n)"
| "decode_general_name GenUnknown = None"

record peer_certificate =
  cert_sans :: "general_name option list option"
  cert_common_names :: "asn1_string list option"

text \<open>The loops over names: a closure takes the next decoded name and says whether to go on.\<close>

fun walk :: "('a \<Rightarrow> 'b option) \<Rightarrow> ('b \<Rightarrow> 's \<Rightarrow> 's \<times> bool) \<Rightarrow> 'a list \<Rightarrow> 's \<Rightarrow> 's" where
  "walk decode f [] s = s"
| "walk decode f (x # xs) s =
     (case decode x of
        None \<Rightarrow> walk decode f xs s
      | Some y \<Rightarrow> (case f y s of (s, continue) \<Rightarrow> if continue then walk decode f xs s else s))"

definition walk_sans :: "(subject_alt_name \<Rightarrow> 's \<Rightarrow> 's \<times> bool) \<Rightarrow> peer_certificate \<Rightarrow> 's \<Rightarrow> 's" where
  "walk_sans f c s =
     (case cert_sans c of None \<Rightarrow> s | Some gns \<Rightarrow> walk (\<lambda>gn. Option.bind gn decode_general_name) f gns s)"

definition walk_common_names :: "(bytes \<Rightarrow> 's \<Rightarrow> 's \<times> bool) \<Rightarrow> peer_certificate \<Rightarrow> 's \<Rightarrow> 's" where
  "walk_common_names f c s =
     (case cert_common_names c of None \<Rightarrow> s | Some ns \<Rightarrow> walk read_asn1_string_utf8 f ns s)"

definition subject_alt_names :: "peer_certificate \<Rightarrow> subject_alt_name list" where
  "subject_alt_names c = walk_sans (\<lambda>san out. (out @ [san], True)) c []"

definition common_names :: "peer_certificate \<Rightarrow> bytes list" where
  "common_names c = walk_common_names (\<lambda>cn out. (out @ [cn], True)) c []"

definition dns_names :: "peer_certificate \<Rightarrow> bytes list" where
  "dns_names c = walk_sans (\<lambda>san out. (case san of Dns d \<Rightarrow> out @ [d] | _ \<Rightarrow> out, True)) c []"

definition ip_addresses :: "peer_certificate \<Rightarrow> ip_addr list" where
  "ip_addresses c = walk_sans (\<lambda>san out. (case san of Ip a \<Rightarrow> out @ [a] | _ \<Rightarrow> out, True)) c []"

definition uris :: "peer_certificate \<Rightarrow> bytes list" where
  "uris c = walk_sans (\<lambda>san out. (case san of Uri u \<Rightarrow> out @ [u] | _ \<Rightarrow> out, True)) c []"

definition registered_ids :: "peer_certificate \<Rightarrow> bytes list" where
  "registered_ids c = walk_sans (\<lambda>san out. (case san of RegisteredId u \<Rightarrow> out @ [u] | _ \<Rightarrow> out, True)) c []"

definition other_names :: "peer_certificate \<Rightarrow> other_name_san list" where
  "other_names c = walk_sans (\<lambda>san out. (case san of OtherName u \<Rightarrow> out @ [u] | _ \<Rightarrow> out, True)) c []"

section \<open>Host names\<close>

definition to_ascii_lowercase :: "u8 \<Rightarrow> u8" where
  "to_ascii_lowercase b = (if 65 \<le> b \<and> b \<le> 90 then b + 32 else b)"

definition eq_ignore_ascii_case :: "bytes \<Rightarrow> bytes \<Rightarrow> bool" where
  "eq_ignore_ascii_case a b \<longleftrightarrow> length a = length b \<and> list_all2 (\<lambda>x y. to_ascii_lowercase x = to_ascii_lowercase y) a b"

definition strip_suffix :: "u8 \<Rightarrow> bytes \<Rightarrow> bytes" where
  "strip_suffix c s = (if s \<noteq> [] \<and> last s = c then butlast s else s)"

fun split_on :: "u8 \<Rightarrow> bytes \<Rightarrow> bytes list" where
  "split_on c [] = [[]]"
| "split_on c (x # xs) =
     (if x = c then [] # split_on c xs
      else case split_on c xs of [] \<Rightarrow> [[x]] | l # ls \<Rightarrow> (x # l) # ls)"

fun labels_loop :: "nat \<Rightarrow> nat \<Rightarrow> (bytes \<times> bytes) list \<Rightarrow> bool" where
  "labels_loop n i [] = True"
| "labels_loop n i ((p, e) # ps) =
     (if i = 0 \<and> p = [42] then (if n < 3 then False else labels_loop n (i + 1) ps)
      else if 42 \<in> set p then False
      else if \<not> eq_ignore_ascii_case p e then False
      else labels_loop n (i + 1) ps)"

definition dns_name_matches :: "bytes \<Rightarrow> bytes \<Rightarrow> bool" where
  "dns_name_matches presented expected =
     (if presented = [] \<or> expected = [] then False
      else if 0 \<in> set presented then False
      else
        let presented = strip_suffix 46 presented;
            expected = strip_suffix 46 expected;
            p_labels = split_on 46 presented;
            e_labels = split_on 46 expected
        in if length p_labels \<noteq> length e_labels then False
           else if [] \<in> set p_labels \<or> [] \<in> set e_labels then False
           else labels_loop (length e_labels) 0 (zip p_labels e_labels))"

definition matches_hostname :: "peer_certificate \<Rightarrow> bytes \<Rightarrow> bool \<Rightarrow> bool" where
  "matches_hostname c expected allow_common_name =
     (case parse_ip_addr expected of
        Some ip \<Rightarrow>
          walk_sans (\<lambda>san hit. case san of Ip a \<Rightarrow> if a = ip then (True, False) else (hit, True) | _ \<Rightarrow> (hit, True)) c False
      | None \<Rightarrow>
          (case walk_sans (\<lambda>san (any_dns, hit).
                  case san of
                    Dns name \<Rightarrow> if dns_name_matches name expected then ((True, True), False) else ((True, hit), True)
                  | _ \<Rightarrow> ((any_dns, hit), True)) c (False, False) of
             (any_dns, hit) \<Rightarrow>
               if hit then True
               else if any_dns \<or> \<not> allow_common_name then False
               else walk_common_names
                      (\<lambda>cn cn_hit. if eq_ignore_ascii_case cn expected then (True, False) else (cn_hit, True)) c False))"

section \<open>What the loops compute\<close>

definition decoded :: "('a \<Rightarrow> 'b option) \<Rightarrow> 'a list \<Rightarrow> 'b list" where
  "decoded decode xs = List.map_filter decode xs"

lemma walk_search:
  assumes "\<And>y s. f y s = (if P y then (t, False) else (g y s, True))"
  shows "walk decode f xs s =
    (if \<exists>y\<in>set (decoded decode xs). P y then t else foldl (\<lambda>s y. g y s) s (decoded decode xs))"
  by (induction xs arbitrary: s) (auto simp: decoded_def map_filter_simps assms split: option.splits)

lemma walk_all:
  assumes "\<And>y s. f y s = (g y s, True)"
  shows "walk decode f xs s = foldl (\<lambda>s y. g y s) s (decoded decode xs)"
  by (induction xs arbitrary: s) (auto simp: decoded_def map_filter_simps assms split: option.splits)

lemma foldl_snoc: "foldl (\<lambda>out y. out @ [y]) acc ys = acc @ ys"
  by (induction ys arbitrary: acc) auto

lemma foldl_const: "foldl (\<lambda>s y. s) s ys = s"
  by (induction ys) auto

lemma foldl_flag: "foldl (\<lambda>s y. (fst s \<or> P y, snd s)) (a, h) ys = (a \<or> (\<exists>y\<in>set ys. P y), h)"
  by (induction ys arbitrary: a) auto

lemma subject_alt_names_eq:
  "subject_alt_names c =
     (case cert_sans c of None \<Rightarrow> [] | Some gns \<Rightarrow> decoded (\<lambda>gn. Option.bind gn decode_general_name) gns)"
  by (simp add: subject_alt_names_def walk_sans_def walk_all [where g = "\<lambda>y out. out @ [y]"] foldl_snoc split: option.split)

lemma common_names_eq:
  "common_names c = (case cert_common_names c of None \<Rightarrow> [] | Some ns \<Rightarrow> decoded read_asn1_string_utf8 ns)"
  by (simp add: common_names_def walk_common_names_def walk_all [where g = "\<lambda>y out. out @ [y]"] foldl_snoc split: option.split)

lemma walk_sans_search:
  assumes "\<And>y s. f y s = (if P y then (t, False) else (g y s, True))"
  shows "walk_sans f c s =
    (if \<exists>y\<in>set (subject_alt_names c). P y then t else foldl (\<lambda>s y. g y s) s (subject_alt_names c))"
  by (simp add: walk_sans_def subject_alt_names_eq walk_search [OF assms] split: option.split) blast

lemma walk_common_names_search:
  assumes "\<And>y s. f y s = (if P y then (t, False) else (g y s, True))"
  shows "walk_common_names f c s =
    (if \<exists>y\<in>set (common_names c). P y then t else foldl (\<lambda>s y. g y s) s (common_names c))"
  by (simp add: walk_common_names_def common_names_eq walk_search [OF assms] split: option.split) blast

lemma split_on_nonempty [simp]: "split_on c s \<noteq> []"
  by (induction s) (auto split: list.splits)

lemma labels_loop_rest:
  "0 < i \<Longrightarrow> labels_loop n i ps \<longleftrightarrow> (\<forall>(p, e)\<in>set ps. 42 \<notin> set p \<and> eq_ignore_ascii_case p e)"
  by (induction ps arbitrary: i) (auto split: if_splits)

lemma eq_ignore_ascii_case_map:
  "eq_ignore_ascii_case a b \<longleftrightarrow> map to_ascii_lowercase a = map to_ascii_lowercase b"
  by (auto simp: eq_ignore_ascii_case_def list_all2_conv_all_nth list_eq_iff_nth_eq)

section \<open>The rules of RFC 6125\<close>

text \<open>The labels of a name, without the final dot of a fully qualified one.\<close>

definition dns_labels :: "bytes \<Rightarrow> bytes list" where
  "dns_labels s = split_on 46 (strip_suffix 46 s)"

definition label_matches :: "bytes \<Rightarrow> bytes \<Rightarrow> bool" where
  "label_matches p e \<longleftrightarrow> 42 \<notin> set p \<and> map to_ascii_lowercase p = map to_ascii_lowercase e"

lemma labels_loop_first:
  assumes "length pl = length el" and "pl \<noteq> []"
  shows "labels_loop n 0 (zip pl el) \<longleftrightarrow>
    (if hd pl = [42] then 3 \<le> n else label_matches (hd pl) (hd el)) \<and> list_all2 label_matches (tl pl) (tl el)"
proof -
  obtain p ps e es where "pl = p # ps" "el = e # es" "length ps = length es"
    using assms by (cases pl; cases el) auto
  moreover have "labels_loop n 1 (zip ps es) \<longleftrightarrow> list_all2 label_matches ps es"
    using calculation(3) by (auto simp: labels_loop_rest list_all2_iff label_matches_def eq_ignore_ascii_case_map)
  ultimately show ?thesis by (auto simp: label_matches_def eq_ignore_ascii_case_map split: if_splits)
qed

lemma dns_name_matches_iff:
  "dns_name_matches p e \<longleftrightarrow>
     0 \<notin> set p \<and> [] \<notin> set (dns_labels p) \<and> [] \<notin> set (dns_labels e)
     \<and> (if hd (dns_labels p) = [42] then 3 \<le> length (dns_labels e) else label_matches (hd (dns_labels p)) (hd (dns_labels e)))
     \<and> list_all2 label_matches (tl (dns_labels p)) (tl (dns_labels e))"
proof (cases "p = [] \<or> e = []")
  case True
  then show ?thesis by (auto simp: dns_name_matches_def dns_labels_def strip_suffix_def)
next
  case False
  have ne: "dns_labels p \<noteq> []" "dns_labels e \<noteq> []" by (simp_all add: dns_labels_def)
  have len: "length (dns_labels p) = length (dns_labels e)"
    if "list_all2 label_matches (tl (dns_labels p)) (tl (dns_labels e))"
    using list_all2_lengthD [OF that] ne by (cases "dns_labels p"; cases "dns_labels e") auto
  show ?thesis
    using False len labels_loop_first [OF _ ne(1), of "dns_labels e" "length (dns_labels e)"]
    by (auto simp: dns_name_matches_def Let_def dns_labels_def)
qed

lemma matches_hostname_names:
  "matches_hostname c expected allow_cn \<longleftrightarrow>
     (case parse_ip_addr expected of
        Some ip \<Rightarrow> Ip ip \<in> set (subject_alt_names c)
      | None \<Rightarrow>
          (\<exists>d. Dns d \<in> set (subject_alt_names c) \<and> 0 \<notin> set d
             \<and> [] \<notin> set (dns_labels d) \<and> [] \<notin> set (dns_labels expected)
             \<and> (if hd (dns_labels d) = [42] then 3 \<le> length (dns_labels expected)
                else label_matches (hd (dns_labels d)) (hd (dns_labels expected)))
             \<and> list_all2 label_matches (tl (dns_labels d)) (tl (dns_labels expected)))
          \<or> (allow_cn \<and> (\<nexists>d. Dns d \<in> set (subject_alt_names c))
             \<and> (\<exists>cn. cn \<in> set (common_names c) \<and> map to_ascii_lowercase cn = map to_ascii_lowercase expected)))"
proof (cases "parse_ip_addr expected")
  case None
  define f where "f = (\<lambda>san (any_dns, hit). case san of
      Dns name \<Rightarrow> if dns_name_matches name expected then ((True, True), False) else ((True, hit), True)
    | _ \<Rightarrow> ((any_dns, hit), True))"
  define P where "P = (\<lambda>san. \<exists>d. san = Dns d \<and> dns_name_matches d expected)"
  define g where "g = (\<lambda>san s. (fst s \<or> (\<exists>d. san = Dns d), snd s :: bool))"
  have "f y s = (if P y then ((True, True), False) else (g y s, True))" for y s
    by (cases y; cases s) (auto simp: f_def P_def g_def)
  note F = walk_sans_search [of f P, OF this]
  have G: "foldl (\<lambda>s y. g y s) (False, False) ys = (\<exists>d. Dns d \<in> set ys, False)" for ys
    unfolding g_def foldl_flag by auto
  have C: "walk_common_names (\<lambda>cn cn_hit. if eq_ignore_ascii_case cn expected then (True, False) else (cn_hit, True)) c False
      \<longleftrightarrow> (\<exists>cn\<in>set (common_names c). map to_ascii_lowercase cn = map to_ascii_lowercase expected)"
    by (subst walk_common_names_search [where P = "\<lambda>cn. eq_ignore_ascii_case cn expected" and g = "\<lambda>_ s. s" and t = True])
      (auto simp: foldl_const eq_ignore_ascii_case_map)
  have "matches_hostname c expected allow_cn \<longleftrightarrow>
      (\<exists>san\<in>set (subject_alt_names c). P san)
      \<or> (allow_cn \<and> (\<nexists>d. Dns d \<in> set (subject_alt_names c))
         \<and> (\<exists>cn\<in>set (common_names c). map to_ascii_lowercase cn = map to_ascii_lowercase expected))"
    unfolding matches_hostname_def None option.case f_def [symmetric] C by (simp add: F G)
  then show ?thesis unfolding None option.case P_def dns_name_matches_iff by blast
next
  case (Some ip)
  show ?thesis unfolding matches_hostname_def Some option.case
    by (subst walk_sans_search [where P = "\<lambda>san. san = Ip ip" and g = "\<lambda>_ s. s" and t = True])
      (auto simp: foldl_const split: subject_alt_name.split)
qed

text \<open>The names as the certificate carries them, before anything is decoded.\<close>

definition san_entries :: "peer_certificate \<Rightarrow> general_name list" where
  "san_entries c = (case cert_sans c of None \<Rightarrow> [] | Some gns \<Rightarrow> List.map_filter id gns)"

lemma in_map_filter: "y \<in> set (List.map_filter f xs) \<longleftrightarrow> (\<exists>x \<in> set xs. f x = Some y)"
  by (induction xs) (auto simp: map_filter_simps split: option.splits)

lemma decoded_sans: "y \<in> set (subject_alt_names c) \<longleftrightarrow> (\<exists>gn \<in> set (san_entries c). decode_general_name gn = Some y)"
  by (cases "cert_sans c") (auto simp: subject_alt_names_eq san_entries_def decoded_def in_map_filter bind_eq_Some_conv)

lemma decoded_dns: "decode_general_name gn = Some (Dns d) \<longleftrightarrow> (\<exists>s. gn = GenDns s \<and> read_asn1_string_utf8 s = Some d)"
  by (cases gn) auto

lemma decoded_ip: "decode_general_name gn = Some (Ip a) \<longleftrightarrow> (\<exists>s. gn = GenIpAdd s \<and> read_asn1_ip s = Some a)"
  by (cases gn) auto

text \<open>
  C12: what \<open>matches_hostname\<close> accepts, exactly. A literal address is accepted just when an \<open>iPAddress\<close> entry of the
  certificate holds it in four or sixteen bytes. A name is accepted if some \<open>dNSName\<close> entry decodes to
  text without NUL that has as many labels, all non-empty, equal up to ASCII case and free of \<open>*\<close>, except
  that a leftmost label that is exactly \<open>*\<close> stands for any one label of a name with at least three; or,
  where the caller allows it, if no \<open>dNSName\<close> entry of the certificate decodes and some Common Name is equal up
  to case. The last case is wider than documented: a certificate that does carry \<open>dNSName\<close> entries, none of them
  valid UTF-8, is matched by its Common Name, although the rule is to look at it only if there are none at
  all.
\<close>

theorem matches_hostname_exact:
  "matches_hostname c expected allow_cn \<longleftrightarrow>
     (case parse_ip_addr expected of
        Some ip \<Rightarrow> (\<exists>s. GenIpAdd s \<in> set (san_entries c) \<and> read_asn1_ip s = Some ip)
      | None \<Rightarrow>
          (\<exists>s d. GenDns s \<in> set (san_entries c) \<and> read_asn1_string_utf8 s = Some d \<and> 0 \<notin> set d
             \<and> [] \<notin> set (dns_labels d) \<and> [] \<notin> set (dns_labels expected)
             \<and> (if hd (dns_labels d) = [42] then 3 \<le> length (dns_labels expected)
                else label_matches (hd (dns_labels d)) (hd (dns_labels expected)))
             \<and> list_all2 label_matches (tl (dns_labels d)) (tl (dns_labels expected)))
          \<or> (allow_cn \<and> (\<nexists>s d. GenDns s \<in> set (san_entries c) \<and> read_asn1_string_utf8 s = Some d)
             \<and> (\<exists>cn. cn \<in> set (common_names c) \<and> map to_ascii_lowercase cn = map to_ascii_lowercase expected)))"
  unfolding matches_hostname_names decoded_sans Bex_def decoded_dns decoded_ip
  by (auto split: option.split)

text \<open>A name that starts outside the alphabet of addresses is not an address.\<close>

lemma parse_ip_addr_name:
  assumes "to_digit 16 c = None" and "c \<noteq> 58"
  shows "parse_ip_addr (c # cs) = None"
proof -
  have d: "to_digit 10 c = None" using assms(1) by (auto simp: to_digit_def Let_def split: if_splits option.splits)
  have n: "read_number 10 l m z (c # cs) = None" "read_number 16 l m z (c # cs) = None" for l m z
    using assms(1) d by (simp_all add: read_number_def)
  have "read_octets 0 (Suc k) (c # cs) = None" for k by (simp add: read_separator_def n)
  from this [of 3] have v4: "read_ipv4_addr (c # cs) = None" by (simp add: read_ipv4_addr_def)
  have "read_groups 8 0 (c # cs) = ([], False, c # cs)" by (subst read_groups.simps) (simp add: read_separator_def v4 n)
  then show ?thesis using assms(2) by (simp add: parse_ip_addr_def v4 read_ipv6_addr_def read_given_char_def)
qed

text \<open>An entry that is not UTF-8 leaves the Common Name to decide.\<close>

lemma undecodable_name_falls_back:
  "matches_hostname \<lparr>cert_sans = Some [Some (GenDns (Some [0xff]))], cert_common_names = Some [Some [120]]\<rparr> [120] True"
proof -
  have "parse_ip_addr [120] = None" by (rule parse_ip_addr_name) (simp_all add: to_digit_def)
  moreover have "from_utf8 [0xff] = None" "from_utf8 [120] = Some [120]" by code_simp+
  ultimately show ?thesis
    by (simp add: matches_hostname_def walk_sans_def walk_common_names_def read_asn1_string_utf8_def eq_ignore_ascii_case_map)
qed

end
