(* ===== verification/Header.thy ===== *)
theory Header
  imports Prelude
begin

text \<open>
  \<^verbatim>\<open>src/codec/header.rs\<close>: the packet codes, the 20-byte header and \<open>Header::parse\<close>. The lemmas
  characterise exactly which datagrams parse, which error each other datagram gets, and that
  parsing inverts the wire layout of a header.
\<close>

section \<open>Codes\<close>

definition MIN_PACKET_LEN :: nat where
  [simp]: "MIN_PACKET_LEN = 20"

definition MAX_PACKET_LEN :: nat where
  [simp]: "MAX_PACKET_LEN = 4096"

datatype code = Code (code_byte: u8)

definition ACCESS_REQUEST :: code where [simp]: "ACCESS_REQUEST = Code 1"
definition ACCESS_ACCEPT :: code where [simp]: "ACCESS_ACCEPT = Code 2"
definition ACCESS_REJECT :: code where [simp]: "ACCESS_REJECT = Code 3"
definition ACCOUNTING_REQUEST :: code where [simp]: "ACCOUNTING_REQUEST = Code 4"
definition ACCOUNTING_RESPONSE :: code where [simp]: "ACCOUNTING_RESPONSE = Code 5"
definition ACCESS_CHALLENGE :: code where [simp]: "ACCESS_CHALLENGE = Code 11"
definition STATUS_SERVER :: code where [simp]: "STATUS_SERVER = Code 12"
definition STATUS_CLIENT :: code where [simp]: "STATUS_CLIENT = Code 13"
definition DISCONNECT_REQUEST :: code where [simp]: "DISCONNECT_REQUEST = Code 40"
definition DISCONNECT_ACK :: code where [simp]: "DISCONNECT_ACK = Code 41"
definition DISCONNECT_NAK :: code where [simp]: "DISCONNECT_NAK = Code 42"
definition COA_REQUEST :: code where [simp]: "COA_REQUEST = Code 43"
definition COA_ACK :: code where [simp]: "COA_ACK = Code 44"
definition COA_NAK :: code where [simp]: "COA_NAK = Code 45"

definition code_name :: "code \<Rightarrow> string" where
  "code_name c =
     (if c = ACCESS_REQUEST then ''Access-Request''
      else if c = ACCESS_ACCEPT then ''Access-Accept''
      else if c = ACCESS_REJECT then ''Access-Reject''
      else if c = ACCOUNTING_REQUEST then ''Accounting-Request''
      else if c = ACCOUNTING_RESPONSE then ''Accounting-Response''
      else if c = ACCESS_CHALLENGE then ''Access-Challenge''
      else if c = STATUS_SERVER then ''Status-Server''
      else if c = STATUS_CLIENT then ''Status-Client''
      else if c = DISCONNECT_REQUEST then ''Disconnect-Request''
      else if c = DISCONNECT_ACK then ''Disconnect-ACK''
      else if c = DISCONNECT_NAK then ''Disconnect-NAK''
      else if c = COA_REQUEST then ''CoA-Request''
      else if c = COA_ACK then ''CoA-ACK''
      else if c = COA_NAK then ''CoA-NAK''
      else ''Unknown'')"

section \<open>The header\<close>

record header =
  hdr_code :: code
  hdr_identifier :: u8
  hdr_length :: u16
  hdr_authenticator :: bytes

datatype header_error =
    TooShort nat
  | LengthUnderflow u16
  | LengthOverflow u16
  | LengthExceedsBuffer u16 nat

definition header_parse :: "bytes \<Rightarrow> (header_error, header \<times> bytes) result" where
  "header_parse bs =
     (if length bs < MIN_PACKET_LEN then Err (TooShort (length bs))
      else
        let fixed = take MIN_PACKET_LEN bs;
            len = u16_from_be [fixed ! 2, fixed ! 3];
            length_usize = unat len
        in if length_usize < MIN_PACKET_LEN then Err (LengthUnderflow len)
           else if length_usize > MAX_PACKET_LEN then Err (LengthOverflow len)
           else if length_usize > length bs then Err (LengthExceedsBuffer len (length bs))
           else Ok (\<lparr>hdr_code = Code (fixed ! 0),
                     hdr_identifier = fixed ! 1,
                     hdr_length = len,
                     hdr_authenticator = take 16 (drop 4 fixed)\<rparr>,
                    take (length_usize - MIN_PACKET_LEN) (drop MIN_PACKET_LEN bs)))"

section \<open>What parsing accepts\<close>

text \<open>The length field of a datagram, and the wire layout of a header.\<close>

definition length_field :: "bytes \<Rightarrow> nat" where
  "length_field bs = unat (u16_from_be [bs ! 2, bs ! 3])"

definition header_bytes :: "header \<Rightarrow> bytes" where
  "header_bytes h =
     code_byte (hdr_code h) # hdr_identifier h # u16_to_be (hdr_length h) @ hdr_authenticator h"

definition parseable :: "bytes \<Rightarrow> bool" where
  "parseable bs \<longleftrightarrow>
     20 \<le> length bs \<and> 20 \<le> length_field bs \<and> length_field bs \<le> 4096
     \<and> length_field bs \<le> length bs"

lemma length_header_bytes [simp]: "length (hdr_authenticator h) = 16 \<Longrightarrow> length (header_bytes h) = 20"
  by (simp add: header_bytes_def)

lemma header_parse_eq:
  "parseable bs \<Longrightarrow>
     header_parse bs =
       Ok (\<lparr>hdr_code = Code (bs ! 0), hdr_identifier = bs ! 1,
            hdr_length = u16_from_be [bs ! 2, bs ! 3],
            hdr_authenticator = take 16 (drop 4 bs)\<rparr>,
           take (length_field bs - 20) (drop 20 bs))"
  by (simp add: header_parse_def parseable_def length_field_def Let_def drop_take min_def)

lemma header_parse_ok_iff: "is_ok (header_parse bs) \<longleftrightarrow> parseable bs"
  by (auto simp: header_parse_def parseable_def length_field_def Let_def)

lemma header_parse_OkD:
  assumes "header_parse bs = Ok (h, attrs)"
  shows "parseable bs" and "hdr_code h = Code (bs ! 0)" and "hdr_identifier h = bs ! 1"
    and "unat (hdr_length h) = length_field bs" and "hdr_authenticator h = take 16 (drop 4 bs)"
    and "attrs = take (length_field bs - 20) (drop 20 bs)"
proof -
  show p: "parseable bs" using assms header_parse_ok_iff [of bs] by simp
  show "hdr_code h = Code (bs ! 0)" "hdr_identifier h = bs ! 1"
    "unat (hdr_length h) = length_field bs" "hdr_authenticator h = take 16 (drop 4 bs)"
    "attrs = take (length_field bs - 20) (drop 20 bs)"
    using assms by (auto simp: header_parse_eq [OF p] length_field_def)
qed

lemma header_parse_lengths:
  assumes "header_parse bs = Ok (h, attrs)"
  shows "length (hdr_authenticator h) = 16" and "unat (hdr_length h) = 20 + length attrs"
    and "20 \<le> unat (hdr_length h)" and "unat (hdr_length h) \<le> 4096"
    and "unat (hdr_length h) \<le> length bs"
  using header_parse_OkD [OF assms] by (auto simp: parseable_def min_def)

lemma header_parse_print:
  assumes "length (hdr_authenticator h) = 16" and "unat (hdr_length h) = 20 + length attrs"
    and "length attrs \<le> 4076"
  shows "header_parse (header_bytes h @ attrs @ padding) = Ok (h, attrs)"
proof -
  obtain a b where ab: "u16_to_be (hdr_length h) = [a, b]"
    by (simp add: u16_to_be_eq)
  then have len: "u16_from_be [a, b] = hdr_length h"
    by (metis u16_from_to_be)
  define bs where "bs = header_bytes h @ attrs @ padding"
  have bs: "bs = code_byte (hdr_code h) # hdr_identifier h # a # b # hdr_authenticator h @ attrs @ padding"
    by (simp add: bs_def header_bytes_def ab)
  have nth: "bs ! 0 = code_byte (hdr_code h)" "bs ! Suc 0 = hdr_identifier h" "bs ! 2 = a" "bs ! 3 = b"
    by (simp_all add: bs)
  have fld: "length_field bs = 20 + length attrs"
    using assms(2) by (simp add: length_field_def nth len)
  have p: "parseable bs"
    using assms unfolding parseable_def fld by (simp add: bs)
  have "take 16 (drop 4 bs) = hdr_authenticator h" "drop 20 bs = attrs @ padding"
    using assms(1) by (simp_all add: bs)
  then show ?thesis
    unfolding bs_def [symmetric] by (simp add: header_parse_eq [OF p] nth len fld)
qed

lemma header_print_parse:
  assumes "header_parse bs = Ok (h, attrs)"
  shows "take (unat (hdr_length h)) bs = header_bytes h @ attrs"
proof -
  note D = header_parse_OkD [OF assms]
  have p: "20 \<le> length bs" "20 \<le> length_field bs" "length_field bs \<le> length bs"
    using D(1) by (simp_all add: parseable_def)
  have "take 20 bs = bs ! 0 # bs ! 1 # bs ! 2 # bs ! 3 # take 16 (drop 4 bs)"
    using arg_cong [OF Cons4_nth_drop [of bs], of "take 20"] p(1) by simp
  moreover have "u16_to_be (hdr_length h) = [bs ! 2, bs ! 3]"
    using assms by (auto simp: header_parse_eq [OF D(1)] u16_to_from_be)
  ultimately have "header_bytes h = take 20 bs"
    using D by (simp add: header_bytes_def)
  moreover have "take (unat (hdr_length h)) bs = take 20 bs @ take (length_field bs - 20) (drop 20 bs)"
    using p D(4) by (metis le_add_diff_inverse take_add)
  ultimately show ?thesis using D(6) by simp
qed

text \<open>
  \<open>Header::parse\<close> accepts a datagram exactly when it has at least 20 bytes and a length field
  between 20 and 4096 that does not exceed the bytes received; it returns a header and an attribute
  region exactly when the datagram is the wire form of that header, followed by that region and
  any padding, so that parsing and printing are inverse.
\<close>

theorem header_parse_exact:
  "(is_ok (header_parse bs) \<longleftrightarrow>
      20 \<le> length bs \<and> 20 \<le> length_field bs \<and> length_field bs \<le> 4096 \<and> length_field bs \<le> length bs)
   \<and> (header_parse bs = Ok (h, attrs) \<longleftrightarrow>
      (\<exists>padding. bs = header_bytes h @ attrs @ padding) \<and> length (hdr_authenticator h) = 16
      \<and> unat (hdr_length h) = 20 + length attrs \<and> length attrs \<le> 4076)"
proof
  show "is_ok (header_parse bs) \<longleftrightarrow>
      20 \<le> length bs \<and> 20 \<le> length_field bs \<and> length_field bs \<le> 4096 \<and> length_field bs \<le> length bs"
    by (simp add: header_parse_ok_iff parseable_def)
  have "\<exists>padding. bs = header_bytes h @ attrs @ padding" if "header_parse bs = Ok (h, attrs)"
    using header_print_parse [OF that] append_take_drop_id [of "unat (hdr_length h)" bs] by (metis append_assoc)
  then show "header_parse bs = Ok (h, attrs) \<longleftrightarrow>
      (\<exists>padding. bs = header_bytes h @ attrs @ padding) \<and> length (hdr_authenticator h) = 16
      \<and> unat (hdr_length h) = 20 + length attrs \<and> length attrs \<le> 4076"
    using header_parse_print [of h attrs] header_parse_lengths [of bs h attrs] by auto
qed

end
