(* ===== verification/Wire_Types.thy ===== *)
theory Wire_Types
  imports Prelude
begin

unbundle bit_operations_syntax

text \<open>
  \<^verbatim>\<open>crates/radius-tokio-dict/src/typed.rs\<close>: the wire-type markers with their \<open>decode\<close>
  functions, the \<open>IntoWire\<close> encoders (\<open>write_value\<close> appends to the output buffer), the tagged
  forms of RFC 2868, and the attribute handles. A Rust handle carries its wire type as a
  phantom type parameter; here it carries that type's \<open>decode\<close>. The locale \<open>wire_codec\<close> is the
  contract between an encoder and a decoder; every wire type interprets it.
\<close>

section \<open>Decoders\<close>

definition decode_WText :: "bytes \<Rightarrow> bytes option" where
  "decode_WText bs = from_utf8 bs"

definition decode_WBytes :: "bytes \<Rightarrow> bytes option" where
  "decode_WBytes bs = Some bs"

definition decode_WByte :: "bytes \<Rightarrow> u8 option" where
  "decode_WByte bs = (case bs of [b] \<Rightarrow> Some b | _ \<Rightarrow> None)"

text \<open>\<open>bytes.try_into().ok()\<close> into an array of \<open>n\<close> octets.\<close>

definition try_into_array :: "nat \<Rightarrow> bytes \<Rightarrow> bytes option" where
  "try_into_array n bs = (if length bs = n then Some bs else None)"

definition decode_WShort :: "bytes \<Rightarrow> u16 option" where
  "decode_WShort bs = map_option u16_from_be (try_into_array 2 bs)"

definition decode_WInteger :: "bytes \<Rightarrow> u32 option" where
  "decode_WInteger bs = map_option u32_from_be (try_into_array 4 bs)"

definition decode_WInteger64 :: "bytes \<Rightarrow> u64 option" where
  "decode_WInteger64 bs = map_option u64_from_be (try_into_array 8 bs)"

definition decode_WSigned :: "bytes \<Rightarrow> int option" where
  "decode_WSigned bs = map_option (\<lambda>a. sint (u32_from_be a)) (try_into_array 4 bs)"

text \<open>An \<open>Ipv4Addr\<close> is its 32-bit value and an \<open>Ipv6Addr\<close> its 128-bit value, octets big-endian.\<close>

definition decode_WIpv4 :: "bytes \<Rightarrow> u32 option" where
  "decode_WIpv4 bs = (case try_into_array 4 bs of None \<Rightarrow> None | Some octets \<Rightarrow> Some (u32_from_be octets))"

definition decode_WIpv6 :: "bytes \<Rightarrow> u128 option" where
  "decode_WIpv6 bs = (case try_into_array 16 bs of None \<Rightarrow> None | Some octets \<Rightarrow> Some (u128_from_be octets))"

definition decode_WEther :: "bytes \<Rightarrow> bytes option" where
  "decode_WEther bs = try_into_array 6 bs"

definition decode_WIfid :: "bytes \<Rightarrow> bytes option" where
  "decode_WIfid bs = try_into_array 8 bs"

section \<open>Tagged values\<close>

record 'v tagged =
  tagged_tag :: "u8 option"
  tagged_value :: 'v

definition tagged_new :: "u8 \<Rightarrow> 'v \<Rightarrow> 'v tagged" where
  "tagged_new t v = \<lparr>tagged_tag = Some (t AND 0x1F), tagged_value = v\<rparr>"

definition untagged :: "'v \<Rightarrow> 'v tagged" where
  "untagged v = \<lparr>tagged_tag = None, tagged_value = v\<rparr>"

definition split_tag :: "bytes \<Rightarrow> u8 option \<times> bytes" where
  "split_tag bs =
     (case bs of
        t # rest \<Rightarrow> if t \<le> 0x1F then (Some t, rest) else (None, bs)
      | [] \<Rightarrow> (None, bs))"

definition decode_WTaggedText :: "bytes \<Rightarrow> bytes tagged option" where
  "decode_WTaggedText bs =
     (let (t, rest) = split_tag bs
      in map_option (\<lambda>v. \<lparr>tagged_tag = t, tagged_value = v\<rparr>) (from_utf8 rest))"

definition decode_WTaggedInteger :: "bytes \<Rightarrow> u32 tagged option" where
  "decode_WTaggedInteger bs =
     (case try_into_array 4 bs of
        None \<Rightarrow> None
      | Some octets \<Rightarrow>
          if octets ! 0 \<le> 0x1F
          then Some \<lparr>tagged_tag = Some (octets ! 0),
                     tagged_value = u32_from_be [0, octets ! 1, octets ! 2, octets ! 3]\<rparr>
          else Some \<lparr>tagged_tag = None, tagged_value = u32_from_be octets\<rparr>)"

section \<open>Encoders\<close>

definition write_WText :: "bytes \<Rightarrow> bytes \<Rightarrow> bytes" where
  "write_WText s out = out @ s"

definition write_WBytes :: "bytes \<Rightarrow> bytes \<Rightarrow> bytes" where
  "write_WBytes s out = out @ s"

definition write_WByte :: "u8 \<Rightarrow> bytes \<Rightarrow> bytes" where
  "write_WByte b out = out @ [b]"

definition write_WShort :: "u16 \<Rightarrow> bytes \<Rightarrow> bytes" where
  "write_WShort v out = out @ u16_to_be v"

definition write_WInteger :: "u32 \<Rightarrow> bytes \<Rightarrow> bytes" where
  "write_WInteger v out = out @ u32_to_be v"

definition write_WInteger64 :: "u64 \<Rightarrow> bytes \<Rightarrow> bytes" where
  "write_WInteger64 v out = out @ u64_to_be v"

definition write_WSigned :: "int \<Rightarrow> bytes \<Rightarrow> bytes" where
  "write_WSigned v out = out @ u32_to_be (of_int v)"

definition write_WIpv4 :: "u32 \<Rightarrow> bytes \<Rightarrow> bytes" where
  "write_WIpv4 a out = out @ u32_to_be a"

definition write_WIpv6 :: "u128 \<Rightarrow> bytes \<Rightarrow> bytes" where
  "write_WIpv6 a out = out @ u128_to_be a"

definition write_WEther :: "bytes \<Rightarrow> bytes \<Rightarrow> bytes" where
  "write_WEther a out = out @ a"

definition write_WIfid :: "bytes \<Rightarrow> bytes \<Rightarrow> bytes" where
  "write_WIfid a out = out @ a"

definition write_WTaggedText :: "bytes tagged \<Rightarrow> bytes \<Rightarrow> bytes" where
  "write_WTaggedText v out =
     (let out = (case tagged_tag v of Some t \<Rightarrow> out @ [t AND 0x1F] | None \<Rightarrow> out)
      in out @ tagged_value v)"

definition write_WTaggedInteger :: "u32 tagged \<Rightarrow> bytes \<Rightarrow> bytes" where
  "write_WTaggedInteger v out =
     (case tagged_tag v of
        Some t \<Rightarrow>
          let bs = u32_to_be (tagged_value v)
          in (out @ [t AND 0x1F]) @ take 3 (drop 1 bs)
      | None \<Rightarrow> out @ u32_to_be (tagged_value v))"

section \<open>Attribute handles\<close>

record 'v attr =
  attr_code :: u8
  attr_decode :: "bytes \<Rightarrow> 'v option"

record 'v vsa_attr =
  vsa_vendor :: u32
  vsa_vendor_type :: u8
  vsa_decode :: "bytes \<Rightarrow> 'v option"

record 'v tlv_attr =
  tlv_parent :: u8
  tlv_child :: u8
  tlv_decode :: "bytes \<Rightarrow> 'v option"

record 'v vsa_tlv_attr =
  vsa_tlv_vendor :: u32
  vsa_tlv_parent :: u8
  vsa_tlv_child :: u8
  vsa_tlv_decode :: "bytes \<Rightarrow> 'v option"

section \<open>The codec contract\<close>

locale wire_codec =
  fixes "write" :: "'w \<Rightarrow> bytes \<Rightarrow> bytes"
    and decode :: "bytes \<Rightarrow> 'v option"
    and view :: "'w \<Rightarrow> 'v"
    and good :: "'w \<Rightarrow> bool"
  assumes write_appends: "write v out = out @ write v []"
    and decode_write: "good v \<Longrightarrow> decode (write v []) = Some (view v)"
begin

text \<open>What is decoded behind any prefix is the value that was written.\<close>

lemma decode_written_suffix:
  assumes "good v"
  shows "decode (drop (length out) (write v out)) = Some (view v)"
  using decode_write [OF assms] by (subst write_appends) simp

lemma length_write: "length (write v out) = length out + length (write v [])"
  by (subst write_appends) simp

text \<open>Writing loses nothing: values with equal wire forms have equal views.\<close>

lemma write_inj_view: "good v \<Longrightarrow> good w \<Longrightarrow> write v [] = write w [] \<Longrightarrow> view v = view w"
  by (metis decode_write option.inject)

end

lemma length_try_into_array: "try_into_array n bs = Some a \<longleftrightarrow> a = bs \<and> length bs = n"
  by (auto simp: try_into_array_def)

interpretation wtext: wire_codec write_WText decode_WText "\<lambda>s. s" utf8_valid
  by unfold_locales (simp_all add: write_WText_def decode_WText_def from_utf8_def)

interpretation wbytes: wire_codec write_WBytes decode_WBytes "\<lambda>s. s" "\<lambda>_. True"
  by unfold_locales (simp_all add: write_WBytes_def decode_WBytes_def)

interpretation wbyte: wire_codec write_WByte decode_WByte "\<lambda>s. s" "\<lambda>_. True"
  by unfold_locales (simp_all add: write_WByte_def decode_WByte_def)

interpretation wshort: wire_codec write_WShort decode_WShort "\<lambda>s. s" "\<lambda>_. True"
  by unfold_locales (simp_all add: write_WShort_def decode_WShort_def try_into_array_def)

interpretation winteger: wire_codec write_WInteger decode_WInteger "\<lambda>s. s" "\<lambda>_. True"
  by unfold_locales (simp_all add: write_WInteger_def decode_WInteger_def try_into_array_def)

interpretation winteger64: wire_codec write_WInteger64 decode_WInteger64 "\<lambda>s. s" "\<lambda>_. True"
  by unfold_locales (simp_all add: write_WInteger64_def decode_WInteger64_def try_into_array_def)

interpretation wsigned: wire_codec write_WSigned decode_WSigned "\<lambda>s. s"
  "\<lambda>v. - 2147483648 \<le> v \<and> v < 2147483648"
  by unfold_locales
    (simp_all add: write_WSigned_def decode_WSigned_def try_into_array_def
       signed_of_int signed_take_bit_int_eq_self)

interpretation wipv4: wire_codec write_WIpv4 decode_WIpv4 "\<lambda>s. s" "\<lambda>_. True"
  by unfold_locales (simp_all add: write_WIpv4_def decode_WIpv4_def try_into_array_def)

interpretation wipv6: wire_codec write_WIpv6 decode_WIpv6 "\<lambda>s. s" "\<lambda>_. True"
  by unfold_locales (simp_all add: write_WIpv6_def decode_WIpv6_def try_into_array_def)

interpretation wether: wire_codec write_WEther decode_WEther "\<lambda>s. s" "\<lambda>s. length s = 6"
  by unfold_locales (simp_all add: write_WEther_def decode_WEther_def try_into_array_def)

interpretation wifid: wire_codec write_WIfid decode_WIfid "\<lambda>s. s" "\<lambda>s. length s = 8"
  by unfold_locales (simp_all add: write_WIfid_def decode_WIfid_def try_into_array_def)

text \<open>
  The tagged forms round trip up to masking the tag to five bits. An untagged value has to be
  distinguishable from a tagged one: its first octet must exceed \<open>0x1F\<close>. A tagged integer
  keeps 24 bits.
\<close>

definition mask_tag :: "'v tagged \<Rightarrow> 'v tagged" where
  "mask_tag v = v\<lparr>tagged_tag := map_option (\<lambda>t. t AND 0x1F) (tagged_tag v)\<rparr>"

definition good_tagged_text :: "bytes tagged \<Rightarrow> bool" where
  "good_tagged_text v \<longleftrightarrow>
     utf8_valid (tagged_value v)
     \<and> (tagged_tag v = None \<longrightarrow> (case tagged_value v of [] \<Rightarrow> True | b # _ \<Rightarrow> \<not> b \<le> 0x1F))"

definition good_tagged_integer :: "u32 tagged \<Rightarrow> bool" where
  "good_tagged_integer v \<longleftrightarrow>
     (case tagged_tag v of
        Some _ \<Rightarrow> unat (tagged_value v) < 0x1000000
      | None \<Rightarrow> 0x20000000 \<le> unat (tagged_value v))"

lemma and_1F_le: "(t :: u8) AND 0x1F \<le> 0x1F"
  by (rule word_and_le1)

lemma to_be_4:
  "to_be 4 k = [of_nat (k div 16777216), of_nat (k div 65536), of_nat (k div 256), of_nat k]"
proof -
  have four: "(4 :: nat) = Suc (Suc (Suc (Suc 0)))" by simp
  show ?thesis unfolding four by (simp flip: div_mult2_eq)
qed

lemma u32_to_be_eq:
  "u32_to_be w =
     [of_nat (unat w div 16777216), of_nat (unat w div 65536), of_nat (unat w div 256), of_nat (unat w)]"
  by (simp only: u32_to_be_def to_be_4)

interpretation wtagged_text: wire_codec write_WTaggedText decode_WTaggedText mask_tag good_tagged_text
  by unfold_locales
    (auto simp: write_WTaggedText_def decode_WTaggedText_def mask_tag_def good_tagged_text_def
       split_tag_def from_utf8_def Let_def and_1F_le split: option.splits list.splits)

lemma u32_high_octet: "0x20000000 \<le> unat (w :: u32) \<Longrightarrow> \<not> (u32_to_be w ! 0) \<le> 0x1F"
proof -
  assume "0x20000000 \<le> unat w"
  moreover have "unat w < 4294967296" using unsigned_less [of w, where ?'a = nat] by simp
  ultimately have "32 \<le> unat w div 16777216" "unat w div 16777216 < 256" by simp_all
  then show ?thesis
    by (simp add: u32_to_be_eq word_le_nat_alt unat_of_nat_u8)
qed

lemma u32_low_octets:
  "unat (w :: u32) < 0x1000000 \<Longrightarrow> 0 # take 3 (drop 1 (u32_to_be w)) = u32_to_be w"
  by (simp add: u32_to_be_eq)

interpretation wtagged_integer: wire_codec write_WTaggedInteger decode_WTaggedInteger mask_tag good_tagged_integer
proof (unfold_locales, goal_cases)
  case (1 v out)
  show ?case by (simp add: write_WTaggedInteger_def Let_def split: option.splits)
next
  case (2 v)
  show ?case
  proof (cases "tagged_tag v")
    case None
    with 2 show ?thesis
      by (simp add: good_tagged_integer_def write_WTaggedInteger_def decode_WTaggedInteger_def
          try_into_array_def u32_high_octet mask_tag_def)
  next
    case (Some t)
    let ?bs = "u32_to_be (tagged_value v)"
    have "take 3 (drop 1 ?bs) = [?bs ! 1, ?bs ! 2, ?bs ! 3]"
      by (simp add: u32_to_be_eq)
    with Some 2 u32_low_octets [of "tagged_value v"] show ?thesis
      by (auto simp: good_tagged_integer_def write_WTaggedInteger_def decode_WTaggedInteger_def
          try_into_array_def mask_tag_def and_1F_le Let_def)
  qed
qed

end
