(* ===== verification/Attributes.thy ===== *)
theory Attributes
  imports Wire_Types
begin

text \<open>
  \<^verbatim>\<open>src/codec/attributes.rs\<close>: the TLV iterator over the attribute region, the accessors of one
  raw attribute (plain, vendor-specific, nested TLV, vendor TLV), and the first/contains scans.
  The iterator is modelled as a state machine (\<open>attr_next\<close>); \<open>items\<close> is the sequence a \<open>for\<close> loop
  over it sees. The lemmas show that iteration terminates, loses no byte, stops at the first
  malformed slot, and inverts the TLV encoding.
\<close>

section \<open>Raw attributes\<close>

definition MIN_ATTRIBUTE_LEN :: nat where
  [simp]: "MIN_ATTRIBUTE_LEN = 2"

datatype attribute_error =
    TruncatedHeader nat
  | AttrLengthUnderflow u8
  | LengthExceedsRemaining u8 nat

record raw_attribute =
  tlv :: bytes

definition attribute_type :: "raw_attribute \<Rightarrow> u8" where
  "attribute_type r = tlv r ! 0"

definition wire_len :: "raw_attribute \<Rightarrow> u8" where
  "wire_len r = tlv r ! 1"

definition raw_value :: "raw_attribute \<Rightarrow> bytes" where
  "raw_value r = drop 2 (tlv r)"

section \<open>The iterator\<close>

type_synonym item = "(attribute_error, raw_attribute) result"

record attributes_iter =
  iter_rest :: bytes
  iter_halted :: bool

definition attr_next :: "attributes_iter \<Rightarrow> item option \<times> attributes_iter" where
  "attr_next it =
     (if iter_halted it \<or> iter_rest it = [] then (None, it)
      else if length (iter_rest it) < MIN_ATTRIBUTE_LEN then
        (Some (Err (TruncatedHeader (length (iter_rest it)))), it\<lparr>iter_halted := True\<rparr>)
      else
        let len = iter_rest it ! 1
        in if unat len < MIN_ATTRIBUTE_LEN then
             (Some (Err (AttrLengthUnderflow len)), it\<lparr>iter_halted := True\<rparr>)
           else if unat len > length (iter_rest it) then
             (Some (Err (LengthExceedsRemaining len (length (iter_rest it)))), it\<lparr>iter_halted := True\<rparr>)
           else
             (Some (Ok \<lparr>tlv = take (unat len) (iter_rest it)\<rparr>), it\<lparr>iter_rest := drop (unat len) (iter_rest it)\<rparr>))"

definition attr_iter :: "bytes \<Rightarrow> attributes_iter" where
  "attr_iter attrs = \<lparr>iter_rest = attrs, iter_halted = False\<rparr>"

text \<open>What a \<open>for\<close> loop sees: \<open>next\<close> is called until it returns \<open>None\<close>.\<close>

function drain :: "attributes_iter \<Rightarrow> item list" where
  "drain it = (case attr_next it of (None, _) \<Rightarrow> [] | (Some x, it') \<Rightarrow> x # drain it')"
  by pat_completeness auto
termination
  by (relation "measure (\<lambda>it. length (iter_rest it) + (if iter_halted it then 0 else 1))")
    (auto simp: attr_next_def Let_def not_less split: if_splits)

declare drain.simps [simp del]

definition items :: "bytes \<Rightarrow> item list" where
  "items attrs = drain (attr_iter attrs)"

section \<open>Typed access to one attribute\<close>

definition raw_get :: "raw_attribute \<Rightarrow> 'v attr \<Rightarrow> 'v option" where
  "raw_get r a = (if attribute_type r = attr_code a then attr_decode a (raw_value r) else None)"

definition raw_matches :: "raw_attribute \<Rightarrow> 'v attr \<Rightarrow> bool" where
  "raw_matches r a \<longleftrightarrow> attribute_type r = attr_code a"

definition raw_get_vsa :: "raw_attribute \<Rightarrow> 'v vsa_attr \<Rightarrow> 'v option" where
  "raw_get_vsa r a =
     (if attribute_type r \<noteq> 26 then None
      else case split_first_chunk 4 (raw_value r) of
        None \<Rightarrow> None
      | Some (pen_bytes, rest) \<Rightarrow>
          if u32_from_be pen_bytes \<noteq> vsa_vendor a then None
          else (case split_first_chunk 2 rest of
            None \<Rightarrow> None
          | Some (vhdr, data) \<Rightarrow>
              if vhdr ! 0 \<noteq> vsa_vendor_type a then None
              else (case checked_sub (unat (vhdr ! 1)) 2 of
                None \<Rightarrow> None
              | Some data_len \<Rightarrow>
                  (case get_to data_len data of
                     None \<Rightarrow> None
                   | Some d \<Rightarrow> vsa_decode a d))))"

definition raw_matches_vsa :: "raw_attribute \<Rightarrow> 'v vsa_attr \<Rightarrow> bool" where
  "raw_matches_vsa r a =
     (if attribute_type r \<noteq> 26 then False
      else case split_first_chunk 4 (raw_value r) of
        None \<Rightarrow> False
      | Some (pen_bytes, rest) \<Rightarrow>
          if u32_from_be pen_bytes \<noteq> vsa_vendor a then False
          else (case split_first_chunk 2 rest of
            None \<Rightarrow> False
          | Some (vhdr, data) \<Rightarrow>
              if vhdr ! 0 \<noteq> vsa_vendor_type a then False
              else (case checked_sub (unat (vhdr ! 1)) 2 of
                None \<Rightarrow> False
              | Some data_len \<Rightarrow> length data \<ge> data_len)))"

definition tlv_children :: "raw_attribute \<Rightarrow> attributes_iter" where
  "tlv_children r = attr_iter (raw_value r)"

definition vsa_tlv_children :: "raw_attribute \<Rightarrow> u32 \<Rightarrow> u8 \<Rightarrow> attributes_iter option" where
  "vsa_tlv_children r vendor vendor_type =
     (if attribute_type r \<noteq> 26 then None
      else case split_first_chunk 4 (raw_value r) of
        None \<Rightarrow> None
      | Some (pen_bytes, rest) \<Rightarrow>
          if u32_from_be pen_bytes \<noteq> vendor then None
          else (case split_first_chunk 2 rest of
            None \<Rightarrow> None
          | Some (vhdr, data) \<Rightarrow>
              if vhdr ! 0 \<noteq> vendor_type then None
              else (case checked_sub (unat (vhdr ! 1)) 2 of
                None \<Rightarrow> None
              | Some data_len \<Rightarrow>
                  (case get_to data_len data of
                     None \<Rightarrow> None
                   | Some d \<Rightarrow> Some (attr_iter d)))))"

text \<open>The child scans of \<open>get_tlv\<close> and \<open>matches_tlv\<close>: the first child of the type decides.\<close>

fun first_child :: "item list \<Rightarrow> u8 \<Rightarrow> (bytes \<Rightarrow> 'v option) \<Rightarrow> 'v option" where
  "first_child [] child dec = None"
| "first_child (Err _ # xs) child dec = None"
| "first_child (Ok c # xs) child dec =
     (if attribute_type c = child then dec (raw_value c) else first_child xs child dec)"

fun any_child :: "item list \<Rightarrow> u8 \<Rightarrow> bool" where
  "any_child [] child = False"
| "any_child (Err _ # xs) child = False"
| "any_child (Ok c # xs) child = (if attribute_type c = child then True else any_child xs child)"

definition raw_get_tlv :: "raw_attribute \<Rightarrow> 'v tlv_attr \<Rightarrow> 'v option" where
  "raw_get_tlv r a =
     (if attribute_type r \<noteq> tlv_parent a then None
      else first_child (drain (tlv_children r)) (tlv_child a) (tlv_decode a))"

definition raw_matches_tlv :: "raw_attribute \<Rightarrow> 'v tlv_attr \<Rightarrow> bool" where
  "raw_matches_tlv r a =
     (if attribute_type r \<noteq> tlv_parent a then False
      else any_child (drain (tlv_children r)) (tlv_child a))"

definition raw_get_vsa_tlv :: "raw_attribute \<Rightarrow> 'v vsa_tlv_attr \<Rightarrow> 'v option" where
  "raw_get_vsa_tlv r a =
     (case vsa_tlv_children r (vsa_tlv_vendor a) (vsa_tlv_parent a) of
        None \<Rightarrow> None
      | Some inner \<Rightarrow> first_child (drain inner) (vsa_tlv_child a) (vsa_tlv_decode a))"

definition raw_matches_vsa_tlv :: "raw_attribute \<Rightarrow> 'v vsa_tlv_attr \<Rightarrow> bool" where
  "raw_matches_vsa_tlv r a =
     (case vsa_tlv_children r (vsa_tlv_vendor a) (vsa_tlv_parent a) of
        None \<Rightarrow> False
      | Some inner \<Rightarrow> any_child (drain inner) (vsa_tlv_child a))"

section \<open>Scans over the attribute region\<close>

text \<open>
  The scans share two loop shapes: return the first \<open>Some\<close>, giving up on a malformed slot
  (\<open>slot.ok()?\<close>), and answer whether some slot before the first malformed one matches.
\<close>

fun scan_first :: "(raw_attribute \<Rightarrow> 'v option) \<Rightarrow> item list \<Rightarrow> 'v option" where
  "scan_first f [] = None"
| "scan_first f (Err _ # xs) = None"
| "scan_first f (Ok r # xs) = (case f r of Some v \<Rightarrow> Some v | None \<Rightarrow> scan_first f xs)"

fun scan_any :: "(raw_attribute \<Rightarrow> bool) \<Rightarrow> item list \<Rightarrow> bool" where
  "scan_any p [] = False"
| "scan_any p (Err _ # xs) = False"
| "scan_any p (Ok r # xs) = (if p r then True else scan_any p xs)"

definition first :: "bytes \<Rightarrow> 'v attr \<Rightarrow> 'v option" where
  "first attrs a = scan_first (\<lambda>r. raw_get r a) (items attrs)"

definition first_vsa :: "bytes \<Rightarrow> 'v vsa_attr \<Rightarrow> 'v option" where
  "first_vsa attrs a = scan_first (\<lambda>r. raw_get_vsa r a) (items attrs)"

definition first_tlv :: "bytes \<Rightarrow> 'v tlv_attr \<Rightarrow> 'v option" where
  "first_tlv attrs a = scan_first (\<lambda>r. raw_get_tlv r a) (items attrs)"

definition first_vsa_tlv :: "bytes \<Rightarrow> 'v vsa_tlv_attr \<Rightarrow> 'v option" where
  "first_vsa_tlv attrs a = scan_first (\<lambda>r. raw_get_vsa_tlv r a) (items attrs)"

definition contains :: "bytes \<Rightarrow> 'v attr \<Rightarrow> bool" where
  "contains attrs a = scan_any (\<lambda>r. raw_matches r a) (items attrs)"

definition contains_vsa :: "bytes \<Rightarrow> 'v vsa_attr \<Rightarrow> bool" where
  "contains_vsa attrs a = scan_any (\<lambda>r. raw_matches_vsa r a) (items attrs)"

definition contains_tlv :: "bytes \<Rightarrow> 'v tlv_attr \<Rightarrow> bool" where
  "contains_tlv attrs a = scan_any (\<lambda>r. raw_matches_tlv r a) (items attrs)"

definition contains_vsa_tlv :: "bytes \<Rightarrow> 'v vsa_tlv_attr \<Rightarrow> bool" where
  "contains_vsa_tlv attrs a = scan_any (\<lambda>r. raw_matches_vsa_tlv r a) (items attrs)"

fun first_raw_items :: "item list \<Rightarrow> u8 \<Rightarrow> (attribute_error, raw_attribute option) result" where
  "first_raw_items [] typ = Ok None"
| "first_raw_items (Err e # xs) typ = Err e"
| "first_raw_items (Ok r # xs) typ =
     (if attribute_type r = typ then Ok (Some r) else first_raw_items xs typ)"

definition first_raw :: "bytes \<Rightarrow> u8 \<Rightarrow> (attribute_error, raw_attribute option) result" where
  "first_raw attrs typ = first_raw_items (items attrs) typ"

definition contains_raw :: "bytes \<Rightarrow> u8 \<Rightarrow> bool" where
  "contains_raw attrs typ = scan_any (\<lambda>r. attribute_type r = typ) (items attrs)"

definition user_name :: "bytes \<Rightarrow> bytes option" where
  "user_name attrs =
     (case ok (first_raw attrs 1) of Some (Some r) \<Rightarrow> Some (raw_value r) | _ \<Rightarrow> None)"

definition state_attr :: "bytes \<Rightarrow> bytes option" where
  "state_attr attrs =
     (case ok (first_raw attrs 24) of Some (Some r) \<Rightarrow> Some (raw_value r) | _ \<Rightarrow> None)"

definition split_realm :: "bytes \<Rightarrow> bytes \<times> bytes option" where
  "split_realm raw =
     (case rposition (\<lambda>b. b = 0x40) raw of
        Some i \<Rightarrow> (take i raw, Some (drop (i + 1) raw))
      | None \<Rightarrow>
     (case position (\<lambda>b. b = 0x5C) raw of
        Some i \<Rightarrow> (drop (i + 1) raw, Some (take i raw))
      | None \<Rightarrow>
     (case position (\<lambda>b. b = 0x25) raw of
        Some i \<Rightarrow> (take i raw, Some (drop (i + 1) raw))
      | None \<Rightarrow> (raw, None))))"

definition user_name_realm :: "bytes \<Rightarrow> (bytes \<times> bytes option) option" where
  "user_name_realm attrs = map_option split_realm (user_name attrs)"

section \<open>Iteration\<close>

lemma attr_next_fused: "attr_next it = (None, it') \<Longrightarrow> it' = it \<and> attr_next it' = (None, it')"
  by (auto simp: attr_next_def Let_def split: if_splits)

lemma drain_halted [simp]: "iter_halted it \<Longrightarrow> drain it = []"
  by (simp add: drain.simps [of it] attr_next_def)

lemma items_Nil [simp]: "items [] = []"
  by (simp add: items_def attr_iter_def drain.simps attr_next_def)

lemma items_eq:
  "items bs =
     (if bs = [] then []
      else if length bs < 2 then [Err (TruncatedHeader (length bs))]
      else if unat (bs ! 1) < 2 then [Err (AttrLengthUnderflow (bs ! 1))]
      else if unat (bs ! 1) > length bs then [Err (LengthExceedsRemaining (bs ! 1) (length bs))]
      else Ok \<lparr>tlv = take (unat (bs ! 1)) bs\<rparr> # items (drop (unat (bs ! 1)) bs))"
  by (simp add: items_def attr_iter_def drain.simps [of "\<lparr>iter_rest = bs, iter_halted = False\<rparr>"]
      attr_next_def Let_def)

lemma drain_tlv_children: "drain (tlv_children r) = items (raw_value r)"
  by (simp add: tlv_children_def items_def)

text \<open>Induction along the walk: one case per outcome of a slot.\<close>

lemma items_induct [case_names Nil Truncated Underflow Exceeds Slot]:
  assumes "P []"
    and "\<And>bs. bs \<noteq> [] \<Longrightarrow> length bs < 2 \<Longrightarrow> items bs = [Err (TruncatedHeader (length bs))] \<Longrightarrow> P bs"
    and "\<And>bs. 2 \<le> length bs \<Longrightarrow> unat (bs ! 1) < 2 \<Longrightarrow>
           items bs = [Err (AttrLengthUnderflow (bs ! 1))] \<Longrightarrow> P bs"
    and "\<And>bs. 2 \<le> length bs \<Longrightarrow> 2 \<le> unat (bs ! 1) \<Longrightarrow> length bs < unat (bs ! 1) \<Longrightarrow>
           items bs = [Err (LengthExceedsRemaining (bs ! 1) (length bs))] \<Longrightarrow> P bs"
    and "\<And>bs. 2 \<le> length bs \<Longrightarrow> 2 \<le> unat (bs ! 1) \<Longrightarrow> unat (bs ! 1) \<le> length bs \<Longrightarrow>
           items bs = Ok \<lparr>tlv = take (unat (bs ! 1)) bs\<rparr> # items (drop (unat (bs ! 1)) bs) \<Longrightarrow>
           P (drop (unat (bs ! 1)) bs) \<Longrightarrow> P bs"
  shows "P bs"
proof (induction bs rule: length_induct)
  case (1 bs)
  show ?case
  proof (cases "bs = [] \<or> length bs < 2 \<or> unat (bs ! 1) < 2 \<or> unat (bs ! 1) > length bs")
    case True
    then show ?thesis
      using assms(1-4) items_eq [of bs] by (metis leI)
  next
    case False
    then have "length (drop (unat (bs ! 1)) bs) < length bs" by auto
    with 1 have "P (drop (unat (bs ! 1)) bs)" by blast
    with False show ?thesis
      using assms(5) [of bs] items_eq [of bs] by (simp add: not_less)
  qed
qed

definition wf_raw :: "raw_attribute \<Rightarrow> bool" where
  "wf_raw r \<longleftrightarrow> 2 \<le> length (tlv r) \<and> length (tlv r) \<le> 255 \<and> unat (wire_len r) = length (tlv r)"

text \<open>The TLV encoding of one attribute (\<open>PacketBuffer::add_attribute\<close> writes exactly this).\<close>

definition encode_attr :: "u8 \<Rightarrow> bytes \<Rightarrow> bytes" where
  "encode_attr typ val = typ # of_nat (2 + length val) # val"

lemma encode_attr_sel [simp]:
  "attribute_type \<lparr>tlv = encode_attr t v\<rparr> = t" "raw_value \<lparr>tlv = encode_attr t v\<rparr> = v"
  "length (encode_attr t v) = 2 + length v"
  by (simp_all add: encode_attr_def attribute_type_def raw_value_def)

lemma wire_len_encode_attr: "length v \<le> 253 \<Longrightarrow> unat (wire_len \<lparr>tlv = encode_attr t v\<rparr>) = 2 + length v"
  by (simp add: encode_attr_def wire_len_def unat_of_nat_u8_small del: of_nat_Suc of_nat_add)

lemma wf_raw_encode_attr: "length v \<le> 253 \<Longrightarrow> wf_raw \<lparr>tlv = encode_attr t v\<rparr>"
  using wire_len_encode_attr [of v t] by (simp add: wf_raw_def)

lemma length_value: "wf_raw r \<Longrightarrow> length (raw_value r) = length (tlv r) - 2"
  by (simp add: raw_value_def)

lemma length_value_le: "wf_raw r \<Longrightarrow> length (raw_value r) \<le> 253"
  by (auto simp: wf_raw_def raw_value_def)

lemma wf_raw_eq_encode:
  assumes "wf_raw r"
  shows "tlv r = encode_attr (attribute_type r) (raw_value r)"
proof -
  obtain t l v where r: "tlv r = t # l # v"
    using assms by (auto simp: wf_raw_def Suc_le_length_iff numeral_2_eq_2)
  have "unat l = 2 + length v" using assms by (simp add: wf_raw_def wire_len_def r)
  then have "l = of_nat (2 + length v)" by (rule u8_eq_of_nat)
  then show ?thesis by (simp add: r encode_attr_def attribute_type_def raw_value_def)
qed

lemma items_wf_raw: "Ok r \<in> set (items bs) \<Longrightarrow> wf_raw r"
proof (induction bs rule: items_induct)
  case (Slot bs)
  have "unat (bs ! 1) < 256" by (rule unat_u8_less)
  with Slot show ?case by (auto simp: wf_raw_def wire_len_def min_def)
qed auto

lemma items_encode_attr_append:
  assumes "length v \<le> 253"
  shows "items (encode_attr t v @ bs) = Ok \<lparr>tlv = encode_attr t v\<rparr> # items bs"
proof -
  have "unat ((encode_attr t v @ bs) ! 1) = 2 + length v"
    using wire_len_encode_attr [OF assms, of t] by (simp add: wire_len_def encode_attr_def)
  then show ?thesis by (subst items_eq) (simp add: encode_attr_def)
qed

fun encode_attrs :: "(u8 \<times> bytes) list \<Rightarrow> bytes" where
  "encode_attrs [] = []"
| "encode_attrs ((t, v) # as) = encode_attr t v @ encode_attrs as"

lemma encode_attrs_append [simp]: "encode_attrs (as @ bs) = encode_attrs as @ encode_attrs bs"
  by (induction as rule: encode_attrs.induct) auto

definition good_attrs :: "(u8 \<times> bytes) list \<Rightarrow> bool" where
  "good_attrs as \<longleftrightarrow> list_all (\<lambda>(t, v). length v \<le> 253) as"

lemma good_attrs_simps [simp]:
  "good_attrs []" "good_attrs ((t, v) # as) \<longleftrightarrow> length v \<le> 253 \<and> good_attrs as"
  "good_attrs (as @ bs) \<longleftrightarrow> good_attrs as \<and> good_attrs bs"
  by (simp_all add: good_attrs_def)

abbreviation raw_of :: "u8 \<times> bytes \<Rightarrow> raw_attribute" where
  "raw_of a \<equiv> \<lparr>tlv = encode_attr (fst a) (snd a)\<rparr>"

text \<open>Iterating an encoded list yields exactly its attributes, then whatever follows.\<close>

lemma items_encode_attrs_append:
  "good_attrs as \<Longrightarrow> items (encode_attrs as @ bs) = map (\<lambda>a. Ok (raw_of a)) as @ items bs"
  by (induction as rule: encode_attrs.induct) (simp_all add: items_encode_attr_append)

text \<open>
  The walk loses nothing: the slots it yields, in order, are a prefix of the region; the rest is
  empty, or malformed and reported by exactly one error, which is the last item.
\<close>

lemma items_decompose:
  "\<exists>as tail. good_attrs as \<and> bs = encode_attrs as @ tail
     \<and> items bs = map (\<lambda>a. Ok (raw_of a)) as @ items tail
     \<and> (tail = [] \<or> (\<exists>e. items tail = [Err e]))"
proof (induction bs rule: items_induct)
  case Nil
  then show ?case by (intro exI [of _ "[]"]) auto
next
  case (Slot bs)
  let ?n = "unat (bs ! 1)" and ?r = "\<lparr>tlv = take (unat (bs ! 1)) bs\<rparr>"
  obtain as tail where as: "good_attrs as" "drop ?n bs = encode_attrs as @ tail"
    "items (drop ?n bs) = map (\<lambda>a. Ok (raw_of a)) as @ items tail"
    "tail = [] \<or> (\<exists>e. items tail = [Err e])"
    using Slot.IH by blast
  have "wf_raw ?r" using Slot.hyps by (auto intro: items_wf_raw [of _ bs])
  then have r: "take ?n bs = encode_attr (attribute_type ?r) (raw_value ?r)" "length (raw_value ?r) \<le> 253"
    using wf_raw_eq_encode [of ?r] length_value_le [of ?r] by simp_all
  let ?as = "(attribute_type ?r, raw_value ?r) # as"
  have "bs = encode_attrs ?as @ tail"
    using as(2) r(1) append_take_drop_id [of ?n bs] by simp
  moreover have "items bs = map (\<lambda>a. Ok (raw_of a)) ?as @ items tail"
    using Slot.hyps(4) as(3) r(1) by simp
  ultimately show ?case using as(1,4) r(2) by (intro exI [of _ ?as] exI [of _ tail]) simp
qed (auto intro: exI [of _ "[]"])

section \<open>The scans\<close>

lemma scan_first_skip:
  "\<forall>r\<in>set rs. f r = None \<Longrightarrow> scan_first f (map Ok rs @ xs) = scan_first f xs"
  by (induction rs) auto

lemma scan_any_append:
  "scan_any p (map Ok rs @ xs) \<longleftrightarrow> (\<exists>r\<in>set rs. p r) \<or> scan_any p xs"
  by (induction rs) auto

lemma scan_first_SomeD:
  "scan_first f xs = Some v \<Longrightarrow>
     \<exists>rs r ys. xs = map Ok rs @ Ok r # ys \<and> (\<forall>q\<in>set rs. f q = None) \<and> f r = Some v"
proof (induction f xs rule: scan_first.induct)
  case (3 f r xs)
  show ?case
  proof (cases "f r")
    case None
    with 3 obtain rs q ys where "xs = map Ok rs @ Ok q # ys" "\<forall>q\<in>set rs. f q = None" "f q = Some v"
      by auto
    with None show ?thesis by (intro exI [of _ "r # rs"] exI [of _ q] exI [of _ ys]) simp
  next
    case (Some w)
    with "3.prems" show ?thesis
      by (intro exI [of _ "[]"] exI [of _ r] exI [of _ xs]) simp
  qed
qed auto

text \<open>An accessor that only succeeds on matching attributes finds nothing the presence test misses.\<close>

lemma scan_first_imp_any:
  assumes "scan_first f xs = Some v" and "\<And>r w. f r = Some w \<Longrightarrow> p r"
  shows "scan_any p xs"
  using scan_first_SomeD [OF assms(1)] assms(2) by (auto simp: scan_any_append)

lemma first_child_imp_any: "first_child xs c dec = Some v \<Longrightarrow> any_child xs c"
  by (induction xs c dec rule: first_child.induct) (auto split: if_splits)

lemma get_imp_matches:
  "raw_get r a = Some v \<Longrightarrow> raw_matches r a"
  "raw_get_vsa r b = Some v \<Longrightarrow> raw_matches_vsa r b"
  "raw_get_tlv r c = Some v \<Longrightarrow> raw_matches_tlv r c"
  "raw_get_vsa_tlv r d = Some v \<Longrightarrow> raw_matches_vsa_tlv r d"
  by (auto simp: raw_get_def raw_matches_def raw_get_vsa_def raw_matches_vsa_def raw_get_tlv_def
      raw_matches_tlv_def raw_get_vsa_tlv_def raw_matches_vsa_tlv_def get_to_def
      intro: first_child_imp_any split: if_splits option.splits)

lemma first_raw_Ok_None:
  "first_raw_items xs t = Ok None \<longleftrightarrow> (\<forall>x\<in>set xs. \<exists>r. x = Ok r \<and> attribute_type r \<noteq> t)"
  by (induction xs t rule: first_raw_items.induct) auto

lemma first_raw_encode_attrs:
  assumes "good_attrs as"
  shows "first_raw (encode_attrs as) t = Ok (map_option raw_of (find (\<lambda>a. fst a = t) as))"
  using assms items_encode_attrs_append [OF assms, of "[]"] unfolding first_raw_def
  by (induction as) (auto simp: items_encode_attr_append)

lemma contains_raw_iff_first_raw:
  "contains_raw attrs t \<longleftrightarrow> (\<exists>r. first_raw attrs t = Ok (Some r))"
proof -
  have "scan_any (\<lambda>r. attribute_type r = t) xs \<longleftrightarrow> (\<exists>r. first_raw_items xs t = Ok (Some r))" for xs
    by (induction xs t rule: first_raw_items.induct) auto
  then show ?thesis by (simp add: contains_raw_def first_raw_def)
qed

section \<open>Realms\<close>

text \<open>
  Splitting a user name into user and realm keeps every byte but the one separator, and the
  separator chosen is the last \<open>@\<close>, else the first backslash, else the first \<open>%\<close>.
\<close>

lemma split_realm_at:
  assumes "0x40 \<in> set raw"
  shows "\<exists>u r. split_realm raw = (u, Some r) \<and> raw = u @ 0x40 # r \<and> 0x40 \<notin> set r"
proof -
  obtain i where i: "rposition (\<lambda>b. b = 0x40) raw = Some i"
    using assms rposition_None_iff [of "\<lambda>b. b = 0x40" raw] by (cases "rposition (\<lambda>b. b = 0x40) raw") auto
  then have "split_realm raw = (take i raw, Some (drop (Suc i) raw))"
    by (simp add: split_realm_def)
  with rposition_Some_split [OF i] show ?thesis by metis
qed

lemma split_realm_backslash:
  assumes "0x40 \<notin> set raw" and "0x5C \<in> set raw"
  shows "\<exists>u r. split_realm raw = (u, Some r) \<and> raw = r @ 0x5C # u \<and> 0x5C \<notin> set r"
proof -
  have no_at: "rposition (\<lambda>b. b = 0x40) raw = None"
    using assms(1) by (auto simp: rposition_None_iff)
  obtain i where i: "position (\<lambda>b. b = 0x5C) raw = Some i"
    using assms(2) position_None_iff [of "\<lambda>b. b = 0x5C" raw] by (cases "position (\<lambda>b. b = 0x5C) raw") auto
  then have "split_realm raw = (drop (Suc i) raw, Some (take i raw))"
    by (simp add: split_realm_def no_at)
  with position_Some_split [OF i] show ?thesis by metis
qed

lemma split_realm_percent:
  assumes "0x40 \<notin> set raw" and "0x5C \<notin> set raw" and "0x25 \<in> set raw"
  shows "\<exists>u r. split_realm raw = (u, Some r) \<and> raw = u @ 0x25 # r \<and> 0x25 \<notin> set u"
proof -
  have none: "rposition (\<lambda>b. b = 0x40) raw = None" "position (\<lambda>b. b = 0x5C) raw = None"
    using assms(1,2) by (auto simp: rposition_None_iff position_None_iff)
  obtain i where i: "position (\<lambda>b. b = 0x25) raw = Some i"
    using assms(3) position_None_iff [of "\<lambda>b. b = 0x25" raw] by (cases "position (\<lambda>b. b = 0x25) raw") auto
  then have "split_realm raw = (take i raw, Some (drop (Suc i) raw))"
    by (simp add: split_realm_def none)
  with position_Some_split [OF i] show ?thesis by metis
qed

lemma split_realm_none:
  "0x40 \<notin> set raw \<Longrightarrow> 0x5C \<notin> set raw \<Longrightarrow> 0x25 \<notin> set raw \<Longrightarrow> split_realm raw = (raw, None)"
  by (auto simp: split_realm_def rposition_None_iff position_None_iff split: option.splits
      dest!: rposition_Some_split position_Some_split)

section \<open>What the walk and the split guarantee\<close>

lemma encode_attr_inject: "encode_attr t v = encode_attr t' v' \<longleftrightarrow> t = t' \<and> v = v'"
  by (auto simp: encode_attr_def)

lemma map_raw_of_inject: "map (\<lambda>a. Ok (raw_of a) :: item) as = map (\<lambda>a. Ok (raw_of a)) bs \<longleftrightarrow> as = bs"
  by (subst inj_map_eq_map) (auto intro!: injI simp: encode_attr_inject)

text \<open>
  The attribute iterator is exact. It yields a list of attributes without error exactly when
  the region is the concatenation of their TLV encodings, each with a value of at most 253 bytes;
  on any other region it yields the longest well-formed prefix, in order, then exactly one error,
  and stops.
\<close>

theorem attribute_walk_exact:
  "(items bs = map (\<lambda>a. Ok (raw_of a)) as \<longleftrightarrow> good_attrs as \<and> bs = encode_attrs as)
   \<and> (\<exists>pre tail es. good_attrs pre \<and> bs = encode_attrs pre @ tail
        \<and> items bs = map (\<lambda>a. Ok (raw_of a)) pre @ es
        \<and> (tail = [] \<and> es = [] \<or> tail \<noteq> [] \<and> (\<exists>e. es = [Err e])))"
proof -
  obtain pre tail where d: "good_attrs pre" "bs = encode_attrs pre @ tail"
    "items bs = map (\<lambda>a. Ok (raw_of a)) pre @ items tail" "tail = [] \<or> (\<exists>e. items tail = [Err e])"
    using items_decompose [of bs] by blast
  have "tail = [] \<and> items tail = [] \<or> tail \<noteq> [] \<and> (\<exists>e. items tail = [Err e])"
    using d(4) by (cases "tail = []") auto
  with d(1-3) have second: "\<exists>pre tail es. good_attrs pre \<and> bs = encode_attrs pre @ tail
        \<and> items bs = map (\<lambda>a. Ok (raw_of a)) pre @ es
        \<and> (tail = [] \<and> es = [] \<or> tail \<noteq> [] \<and> (\<exists>e. es = [Err e]))" by blast
  have "good_attrs as \<and> bs = encode_attrs as" if eq: "items bs = map (\<lambda>a. Ok (raw_of a)) as"
  proof (cases "tail = []")
    case True
    then have "map (\<lambda>a. Ok (raw_of a) :: item) as = map (\<lambda>a. Ok (raw_of a)) pre" using eq d(3) by simp
    then have "as = pre" by (simp only: map_raw_of_inject)
    then show ?thesis using d(1,2) True by simp
  next
    case False
    then obtain e where "items tail = [Err e]" using d(4) by blast
    then have "Err e \<in> set (items bs)" by (simp add: d(3))
    then show ?thesis by (auto simp: eq)
  qed
  moreover have "items (encode_attrs as) = map (\<lambda>a. Ok (raw_of a)) as" if "good_attrs as"
    using items_encode_attrs_append [OF that, of "[]"] by simp
  ultimately show ?thesis using second by blast
qed

text \<open>
  \<open>user_name_realm\<close> splits the User-Name without losing a byte: at the last \<open>@\<close> if there is one,
  else at the first backslash (realm first), else at the first \<open>%\<close>, else not at all.
\<close>

theorem user_name_realm_splits:
  "case user_name_realm attrs of
     None \<Rightarrow> user_name attrs = None
   | Some (u, r) \<Rightarrow> (\<exists>raw. user_name attrs = Some raw
       \<and> (case r of
            None \<Rightarrow> u = raw \<and> set raw \<inter> {0x40, 0x5C, 0x25} = {}
          | Some realm \<Rightarrow>
              if 0x40 \<in> set raw then raw = u @ 0x40 # realm \<and> 0x40 \<notin> set realm
              else if 0x5C \<in> set raw then raw = realm @ 0x5C # u \<and> 0x5C \<notin> set realm
              else raw = u @ 0x25 # realm \<and> 0x25 \<notin> set u))"
proof (cases "user_name attrs")
  case None
  then show ?thesis by (simp add: user_name_realm_def)
next
  case (Some raw)
  then have e: "user_name_realm attrs = Some (split_realm raw)" by (simp add: user_name_realm_def)
  consider "0x40 \<in> set raw" | "0x40 \<notin> set raw" "0x5C \<in> set raw"
    | "0x40 \<notin> set raw" "0x5C \<notin> set raw" "0x25 \<in> set raw"
    | "0x40 \<notin> set raw" "0x5C \<notin> set raw" "0x25 \<notin> set raw" by blast
  then show ?thesis
    using split_realm_at [of raw] split_realm_backslash [of raw] split_realm_percent [of raw] split_realm_none [of raw]
    by cases (auto simp: e Some)
qed

end
