(* ===== verification/Packet_Buffer.thy ===== *)
theory Packet_Buffer
  imports Header Attributes
begin

text \<open>
  \<^verbatim>\<open>src/codec/mod.rs\<close>: \<open>PacketBuffer\<close>, the owner of a packet's bytes, its append operations with
  their roll-back on error, and \<open>TlvWriter\<close>. Closures that write a value are functions from the
  output buffer to the extended one; \<open>appends\<close> is their documented contract (the closure is
  handed the buffer "to extend"), and the crate's own closures are shown to satisfy it. The
  invariant \<open>wf_pb\<close> says that the buffer always holds a parseable packet of at most 4096 bytes.
\<close>

section \<open>Errors and state\<close>

definition MAX_ATTRIBUTE_VALUE_LEN :: nat where
  [simp]: "MAX_ATTRIBUTE_VALUE_LEN = 255 - 2"

definition VENDOR_SPECIFIC :: u8 where
  [simp]: "VENDOR_SPECIFIC = 26"

datatype codec_error =
    PacketTooLarge nat nat
  | AttributeValueTooLong nat
  | WrongPacketType
  | ReservedAttribute u8
  | PasswordTooLong nat

record packet_buffer =
  inner :: bytes

type_synonym writer = "bytes \<Rightarrow> bytes"
type_synonym tlv_build = "bytes \<Rightarrow> bytes \<times> (codec_error, unit) result"

section \<open>The TLV writer\<close>

definition write_child :: "u8 \<Rightarrow> writer \<Rightarrow> tlv_build" where
  "write_child sub_type write_value out =
     (let header_pos = length out;
          out1 = out @ [sub_type] @ [0];
          val_start = length out1;
          out2 = write_value out1;
          val_len = length out2 - val_start
      in if val_len > MAX_ATTRIBUTE_VALUE_LEN
         then (take header_pos out2, Err (AttributeValueTooLong val_len))
         else (out2[header_pos + 1 := of_nat (val_len + 2)], Ok ()))"

definition tlv_add :: "'v tlv_attr \<Rightarrow> writer \<Rightarrow> tlv_build" where
  "tlv_add a write_value = write_child (tlv_child a) write_value"

definition tlv_add_vsa :: "'v vsa_tlv_attr \<Rightarrow> writer \<Rightarrow> tlv_build" where
  "tlv_add_vsa a write_value = write_child (vsa_tlv_child a) write_value"

definition tlv_add_raw :: "u8 \<Rightarrow> bytes \<Rightarrow> tlv_build" where
  "tlv_add_raw sub_type val out =
     (if length val > MAX_ATTRIBUTE_VALUE_LEN
      then (out, Err (AttributeValueTooLong (length val)))
      else (out @ [sub_type] @ [of_nat (length val + 2)] @ val, Ok ()))"

text \<open>A build closure runs several writer calls, stopping at the first error (\<open>?\<close>).\<close>

fun tlv_seq :: "tlv_build list \<Rightarrow> tlv_build" where
  "tlv_seq [] out = (out, Ok ())"
| "tlv_seq (b # bs) out =
     (case b out of (out', Ok _) \<Rightarrow> tlv_seq bs out' | (out', Err e) \<Rightarrow> (out', Err e))"

section \<open>Construction and views\<close>

definition with_capacity :: "code \<Rightarrow> u8 \<Rightarrow> nat \<Rightarrow> packet_buffer" where
  "with_capacity c identifier capacity =
     \<lparr>inner = [code_byte c] @ [identifier] @ u16_to_be (of_nat MIN_PACKET_LEN) @ replicate 16 0\<rparr>"

definition pb_new :: "code \<Rightarrow> u8 \<Rightarrow> packet_buffer" where
  "pb_new c identifier = with_capacity c identifier MAX_PACKET_LEN"

definition from_bytes :: "bytes \<Rightarrow> (header_error, packet_buffer) result" where
  "from_bytes bs =
     (case header_parse bs of
        Err e \<Rightarrow> Err e
      | Ok (h, _) \<Rightarrow> Ok \<lparr>inner = take (unat (hdr_length h)) bs\<rparr>)"

definition reset :: "packet_buffer \<Rightarrow> code \<Rightarrow> u8 \<Rightarrow> packet_buffer" where
  "reset pb c identifier =
     pb\<lparr>inner := [] @ [code_byte c] @ [identifier] @ u16_to_be (of_nat MIN_PACKET_LEN) @ replicate 16 0\<rparr>"

definition as_bytes :: "packet_buffer \<Rightarrow> bytes" where
  [simp]: "as_bytes pb = inner pb"

text \<open>\<open>header()\<close> panics when the bytes do not parse.\<close>

definition pb_header :: "packet_buffer \<Rightarrow> header option" where
  "pb_header pb = map_option fst (ok (header_parse (inner pb)))"

definition attributes :: "packet_buffer \<Rightarrow> bytes" where
  "attributes pb = drop MIN_PACKET_LEN (inner pb)"

definition pb_attributes_iter :: "packet_buffer \<Rightarrow> attributes_iter" where
  "pb_attributes_iter pb = attr_iter (attributes pb)"

section \<open>Appending attributes\<close>

definition add_attribute ::
    "packet_buffer \<Rightarrow> u8 \<Rightarrow> bytes \<Rightarrow> packet_buffer \<times> (codec_error, unit) result" where
  "add_attribute pb t val =
     (if length val > MAX_ATTRIBUTE_VALUE_LEN then (pb, Err (AttributeValueTooLong (length val)))
      else
        let added = 2 + length val
        in if length (inner pb) + added > MAX_PACKET_LEN
           then (pb, Err (PacketTooLarge (length (inner pb)) added))
           else (pb\<lparr>inner := inner pb @ [t] @ [of_nat added] @ val\<rparr>, Ok ()))"

definition add_attribute_with ::
    "packet_buffer \<Rightarrow> u8 \<Rightarrow> writer \<Rightarrow> packet_buffer \<times> (codec_error, unit) result" where
  "add_attribute_with pb t write_value =
     (let header_pos = length (inner pb)
      in if header_pos + 2 > MAX_PACKET_LEN then (pb, Err (PacketTooLarge header_pos 2))
         else
           let out1 = inner pb @ [t] @ [0];
               val_start = length out1;
               out2 = write_value out1;
               val_len = length out2 - val_start
           in if val_len > MAX_ATTRIBUTE_VALUE_LEN
              then (pb\<lparr>inner := take header_pos out2\<rparr>, Err (AttributeValueTooLong val_len))
              else if length out2 > MAX_PACKET_LEN
              then (pb\<lparr>inner := take header_pos out2\<rparr>, Err (PacketTooLarge header_pos (2 + val_len)))
              else (pb\<lparr>inner := out2[header_pos + 1 := of_nat (val_len + 2)]\<rparr>, Ok ()))"

definition pb_add ::
    "packet_buffer \<Rightarrow> 'v attr \<Rightarrow> writer \<Rightarrow> packet_buffer \<times> (codec_error, unit) result" where
  "pb_add pb a write_value = add_attribute_with pb (attr_code a) write_value"

definition u8_saturating :: "nat \<Rightarrow> u8" where
  "u8_saturating n = (if n \<le> 255 then of_nat n else 255)"

definition vsa_writer :: "u32 \<Rightarrow> u8 \<Rightarrow> writer \<Rightarrow> writer" where
  "vsa_writer vendor vendor_type write_value out =
     (let out1 = out @ u32_to_be vendor @ [vendor_type];
          len_pos = length out1;
          out2 = out1 @ [0];
          val_start = length out2;
          out3 = write_value out2;
          vsa_len = length out3 - val_start + 2
      in out3[len_pos := u8_saturating vsa_len])"

definition pb_add_vsa ::
    "packet_buffer \<Rightarrow> 'v vsa_attr \<Rightarrow> writer \<Rightarrow> packet_buffer \<times> (codec_error, unit) result" where
  "pb_add_vsa pb a write_value =
     add_attribute_with pb VENDOR_SPECIFIC (vsa_writer (vsa_vendor a) (vsa_vendor_type a) write_value)"

text \<open>
  \<open>add_tlv\<close> and \<open>add_vsa_tlv\<close> run the build closure inside \<open>add_attribute_with\<close> and keep its error
  in \<open>child_err\<close>, which is examined only when \<open>add_attribute_with\<close> itself succeeded.
\<close>

definition add_tlv ::
    "packet_buffer \<Rightarrow> u8 \<Rightarrow> tlv_build \<Rightarrow> packet_buffer \<times> (codec_error, unit) result" where
  "add_tlv pb parent_type build =
     (let snapshot = length (inner pb)
      in case add_attribute_with pb parent_type (\<lambda>out. fst (build out)) of
           (pb', Err e) \<Rightarrow> (pb', Err e)
         | (pb', Ok _) \<Rightarrow>
             (case snd (build (inner pb @ [parent_type] @ [0])) of
                Err e \<Rightarrow> (pb'\<lparr>inner := take snapshot (inner pb')\<rparr>, Err e)
              | Ok _ \<Rightarrow> (pb', Ok ())))"

definition add_vsa_tlv ::
    "packet_buffer \<Rightarrow> u32 \<Rightarrow> u8 \<Rightarrow> tlv_build \<Rightarrow> packet_buffer \<times> (codec_error, unit) result" where
  "add_vsa_tlv pb vendor vendor_type build =
     (let snapshot = length (inner pb)
      in case add_attribute_with pb VENDOR_SPECIFIC
                (vsa_writer vendor vendor_type (\<lambda>out. fst (build out))) of
           (pb', Err e) \<Rightarrow> (pb', Err e)
         | (pb', Ok _) \<Rightarrow>
             (case snd (build (inner pb @ [VENDOR_SPECIFIC] @ [0] @ u32_to_be vendor @ [vendor_type] @ [0])) of
                Err e \<Rightarrow> (pb'\<lparr>inner := take snapshot (inner pb')\<rparr>, Err e)
              | Ok _ \<Rightarrow> (pb', Ok ())))"

section \<open>In-place updates\<close>

text \<open>\<open>patch_length\<close> panics when the size does not fit \<open>u16\<close>.\<close>

definition patch_length :: "packet_buffer \<Rightarrow> packet_buffer option" where
  "patch_length pb =
     (if length (inner pb) \<le> 65535
      then Some (pb\<lparr>inner := splice 2 (u16_to_be (of_nat (length (inner pb)))) (inner pb)\<rparr>)
      else None)"

definition set_authenticator :: "packet_buffer \<Rightarrow> bytes \<Rightarrow> packet_buffer" where
  "set_authenticator pb auth = pb\<lparr>inner := splice 4 auth (inner pb)\<rparr>"

definition set_identifier :: "packet_buffer \<Rightarrow> u8 \<Rightarrow> packet_buffer" where
  "set_identifier pb identifier = pb\<lparr>inner := (inner pb)[1 := identifier]\<rparr>"

definition truncate_attributes_to :: "packet_buffer \<Rightarrow> nat \<Rightarrow> packet_buffer" where
  "truncate_attributes_to pb new_len = pb\<lparr>inner := take (MIN_PACKET_LEN + new_len) (inner pb)\<rparr>"

section \<open>Writers\<close>

definition appends :: "writer \<Rightarrow> bool" where
  "appends w \<longleftrightarrow> (\<forall>out. \<exists>v. w out = out @ v)"

definition build_appends :: "tlv_build \<Rightarrow> bool" where
  "build_appends b \<longleftrightarrow> appends (\<lambda>out. fst (b out))"

text \<open>The bytes a writer adds behind a given buffer.\<close>

definition written :: "writer \<Rightarrow> bytes \<Rightarrow> bytes" where
  "written w out = drop (length out) (w out)"

lemma appendsD: "appends w \<Longrightarrow> w out = out @ written w out"
  unfolding appends_def written_def by (metis append_eq_conv_conj)

lemma appendsI: "(\<And>out. \<exists>v. w out = out @ v) \<Longrightarrow> appends w"
  by (simp add: appends_def)

lemma wire_codec_appends: "wire_codec w dec view good \<Longrightarrow> appends (w v)"
  by (rule appendsI) (metis wire_codec.write_appends)

lemma wire_codec_written: "wire_codec w dec view good \<Longrightarrow> written (w v) out = w v []"
  unfolding written_def by (subst wire_codec.write_appends) simp_all

lemma list_update_append_head:
  "(xs @ [a, b] @ v)[Suc (length xs) := c] = xs @ [a, c] @ v"
  by (simp add: list_update_append)

lemma vsa_writer_eq:
  assumes "appends w"
  shows "vsa_writer vendor vt w out =
    (let v = written w (out @ u32_to_be vendor @ [vt, 0])
     in out @ u32_to_be vendor @ [vt, u8_saturating (length v + 2)] @ v)"
  using appendsD [OF assms, of "out @ u32_to_be vendor @ [vt, 0]"]
  by (simp add: vsa_writer_def Let_def list_update_append)

lemma vsa_writer_appends: "appends w \<Longrightarrow> appends (vsa_writer vendor vt w)"
  by (rule appendsI) (simp add: vsa_writer_eq Let_def)

lemma write_child_eq:
  assumes "appends w"
  shows "write_child st w out =
    (let v = written w (out @ [st, 0])
     in if length v > 253 then (out, Err (AttributeValueTooLong (length v)))
        else (out @ encode_attr st v, Ok ()))"
  using appendsD [OF assms, of "out @ [st, 0]"]
  by (simp add: write_child_def Let_def list_update_append encode_attr_def add.commute)

lemma write_child_appends: "appends w \<Longrightarrow> build_appends (write_child st w)"
  unfolding build_appends_def by (rule appendsI) (simp add: write_child_eq Let_def)

lemma tlv_add_raw_eq:
  "tlv_add_raw st v out =
     (if length v > 253 then (out, Err (AttributeValueTooLong (length v)))
      else (out @ encode_attr st v, Ok ()))"
  by (simp add: tlv_add_raw_def encode_attr_def add.commute)

lemma tlv_add_raw_appends: "build_appends (tlv_add_raw st v)"
  unfolding build_appends_def by (rule appendsI) (simp add: tlv_add_raw_eq)

lemma tlv_seq_appends: "\<forall>b\<in>set bs. build_appends b \<Longrightarrow> build_appends (tlv_seq bs)"
proof (induction bs)
  case Nil
  show ?case by (simp add: build_appends_def appends_def)
next
  case (Cons b bs)
  then have b: "appends (\<lambda>out. fst (b out))" and bs: "appends (\<lambda>out. fst (tlv_seq bs out))"
    by (simp_all add: build_appends_def)
  have "\<exists>v. fst (tlv_seq (b # bs) out) = out @ v" for out
  proof -
    obtain out' r where br: "b out = (out', r)" by (cases "b out")
    obtain v where v: "out' = out @ v" using b br unfolding appends_def by (metis fst_conv)
    obtain v' where v': "fst (tlv_seq bs out') = out' @ v'" using bs unfolding appends_def by blast
    show ?thesis using br v v' by (cases r) auto
  qed
  then show ?case unfolding build_appends_def by (rule appendsI)
qed

section \<open>The append operations, exactly\<close>

lemma add_attribute_eq:
  "add_attribute pb t v =
     (if length v > 253 then (pb, Err (AttributeValueTooLong (length v)))
      else if length (inner pb) + (2 + length v) > 4096
      then (pb, Err (PacketTooLarge (length (inner pb)) (2 + length v)))
      else (pb\<lparr>inner := inner pb @ encode_attr t v\<rparr>, Ok ()))"
  by (simp add: add_attribute_def Let_def encode_attr_def)

lemma add_attribute_with_eq:
  assumes "appends w"
  shows "add_attribute_with pb t w =
    (let v = written w (inner pb @ [t, 0])
     in if length (inner pb) + 2 > 4096 then (pb, Err (PacketTooLarge (length (inner pb)) 2))
        else if length v > 253 then (pb, Err (AttributeValueTooLong (length v)))
        else if length (inner pb) + (2 + length v) > 4096
        then (pb, Err (PacketTooLarge (length (inner pb)) (2 + length v)))
        else (pb\<lparr>inner := inner pb @ encode_attr t v\<rparr>, Ok ()))"
  using appendsD [OF assms, of "inner pb @ [t, 0]"]
  by (simp add: add_attribute_with_def Let_def list_update_append encode_attr_def add.commute)

section \<open>The invariant\<close>

definition wf_pb :: "packet_buffer \<Rightarrow> bool" where
  "wf_pb pb \<longleftrightarrow> parseable (inner pb) \<and> length (inner pb) \<le> 4096"

lemma parseable_append: "parseable bs \<Longrightarrow> parseable (bs @ x)"
  by (simp add: parseable_def length_field_def nth_append)

lemma wf_pb_length: "wf_pb pb \<Longrightarrow> 20 \<le> length (inner pb) \<and> length (inner pb) \<le> 4096"
  by (simp add: wf_pb_def parseable_def)

lemma wf_pb_header: "wf_pb pb \<Longrightarrow> \<exists>h. pb_header pb = Some h"
  by (auto simp: wf_pb_def pb_header_def header_parse_eq)

lemma pb_header_eq:
  "wf_pb pb \<Longrightarrow> pb_header pb =
     Some \<lparr>hdr_code = Code (inner pb ! 0), hdr_identifier = inner pb ! 1,
           hdr_length = u16_from_be [inner pb ! 2, inner pb ! 3],
           hdr_authenticator = take 16 (drop 4 (inner pb))\<rparr>"
  by (simp add: wf_pb_def pb_header_def header_parse_eq)

lemma fresh_length_field:
  "length_field ([c] @ [i] @ u16_to_be (of_nat 20) @ x) = 20"
  by (simp add: length_field_def u16_to_be_eq u16_from_be_eq)

lemma wf_pb_with_capacity: "wf_pb (with_capacity c i n)"
  using fresh_length_field [of "code_byte c" i "replicate 16 0"]
  by (simp add: wf_pb_def with_capacity_def parseable_def)

lemma wf_pb_new: "wf_pb (pb_new c i)"
  by (simp add: pb_new_def wf_pb_with_capacity)

lemma reset_eq_new: "reset pb c i = pb\<lparr>inner := inner (pb_new c i)\<rparr>"
  by (simp add: reset_def pb_new_def with_capacity_def)

lemma wf_pb_reset: "wf_pb (reset pb c i)"
  using wf_pb_new [of c i] by (simp add: reset_eq_new wf_pb_def)

lemma wf_pb_from_bytes:
  assumes "from_bytes bs = Ok pb"
  shows "wf_pb pb"
proof -
  obtain h a where h: "header_parse bs = Ok (h, a)" and pb: "inner pb = take (unat (hdr_length h)) bs"
    using assms by (auto simp: from_bytes_def split: result.splits)
  note D = header_parse_OkD [OF h] and L = header_parse_lengths [OF h]
  have "length_field (inner pb) = length_field bs"
    using L by (simp add: length_field_def pb)
  then show ?thesis
    using D L by (simp add: wf_pb_def parseable_def pb)
qed

section \<open>The append contract\<close>

text \<open>
  Every operation that adds an attribute either appends exactly one well-formed TLV within the
  protocol limits, or reports an error and leaves the buffer as it was.
\<close>

definition appended :: "u8 \<Rightarrow> packet_buffer \<Rightarrow> packet_buffer \<Rightarrow> bool" where
  "appended t pb pb' \<longleftrightarrow>
     (\<exists>v. length v \<le> 253 \<and> pb' = pb\<lparr>inner := inner pb @ encode_attr t v\<rparr> \<and> length (inner pb') \<le> 4096)"

lemma appendedI [intro]:
  "length v \<le> 253 \<Longrightarrow> length (inner pb) + length v \<le> 4094 \<Longrightarrow>
     appended t pb (pb\<lparr>inner := inner pb @ encode_attr t v\<rparr>)"
  unfolding appended_def by (intro exI conjI) (assumption, rule refl, simp)

locale attr_appender =
  fixes op :: "'x \<Rightarrow> packet_buffer \<Rightarrow> packet_buffer \<times> (codec_error, unit) result"
    and valid :: "'x \<Rightarrow> bool"
    and type_of :: "'x \<Rightarrow> u8"
  assumes op_ok: "valid x \<Longrightarrow> op x pb = (pb', Ok u) \<Longrightarrow> appended (type_of x) pb pb'"
    and op_err: "valid x \<Longrightarrow> op x pb = (pb', Err e) \<Longrightarrow> pb' = pb"
begin

lemma op_extends:
  assumes "valid x"
  shows "\<exists>as. good_attrs as \<and> length as \<le> 1 \<and> (\<forall>a\<in>set as. fst a = type_of x)
    \<and> inner (fst (op x pb)) = inner pb @ encode_attrs as
    \<and> (is_ok (snd (op x pb)) \<longleftrightarrow> as \<noteq> [])"
proof (cases "op x pb")
  case (Pair pb' r)
  show ?thesis
  proof (cases r)
    case (Ok u)
    with Pair op_ok [OF assms, of pb pb' u] obtain v
      where "length v \<le> 253" "pb' = pb\<lparr>inner := inner pb @ encode_attr (type_of x) v\<rparr>"
      by (auto simp: appended_def)
    with Pair Ok show ?thesis by (intro exI [of _ "[(type_of x, v)]"]) simp
  next
    case (Err e)
    with Pair op_err [OF assms, of pb pb' e] show ?thesis by (intro exI [of _ "[]"]) simp
  qed
qed

lemma op_wf:
  assumes "valid x" and "wf_pb pb"
  shows "wf_pb (fst (op x pb))"
proof (cases "op x pb")
  case (Pair pb' r)
  show ?thesis
  proof (cases r)
    case (Ok u)
    with Pair op_ok [OF assms(1), of pb pb' u] assms(2) show ?thesis
      by (auto simp: appended_def wf_pb_def parseable_append)
  next
    case (Err e)
    with Pair op_err [OF assms(1), of pb pb' e] assms(2) show ?thesis by simp
  qed
qed

lemma op_attributes:
  assumes "valid x" and "20 \<le> length (inner pb)"
  shows "\<exists>as. good_attrs as \<and> length as \<le> 1 \<and> (\<forall>a\<in>set as. fst a = type_of x)
    \<and> attributes (fst (op x pb)) = attributes pb @ encode_attrs as"
  using op_extends [OF assms(1), of pb] assms(2) by (auto simp: attributes_def)

lemma op_header:
  assumes "valid x" and "wf_pb pb"
  shows "pb_header (fst (op x pb)) = pb_header pb"
proof -
  obtain as where as: "inner (fst (op x pb)) = inner pb @ encode_attrs as"
    using op_extends [OF assms(1)] by blast
  have "20 \<le> length (inner pb)" "inner pb \<noteq> []" using wf_pb_length [OF assms(2)] by auto
  then show ?thesis
    using pb_header_eq [OF op_wf [OF assms]] pb_header_eq [OF assms(2)]
    by (simp add: as nth_append)
qed

end

interpretation add_attribute_op: attr_appender "\<lambda>(t, v) pb. add_attribute pb t v" "\<lambda>_. True" fst
  by unfold_locales (auto simp: add_attribute_eq not_less split: if_splits)

interpretation add_with_op: attr_appender "\<lambda>(t, w) pb. add_attribute_with pb t w" "\<lambda>(t, w). appends w" fst
  by unfold_locales (auto simp: add_attribute_with_eq Let_def not_less split: if_splits)

interpretation add_op: attr_appender "\<lambda>(a, w) pb. pb_add pb a w" "\<lambda>(a, w). appends w" "\<lambda>(a, w). attr_code a"
  by unfold_locales (auto simp: pb_add_def add_attribute_with_eq Let_def not_less split: if_splits)

interpretation add_vsa_op: attr_appender "\<lambda>(a, w) pb. pb_add_vsa pb a w" "\<lambda>(a, w). appends w" "\<lambda>_. VENDOR_SPECIFIC"
  by unfold_locales
    (auto simp: pb_add_vsa_def add_attribute_with_eq [OF vsa_writer_appends] Let_def not_less split: if_splits)

lemma take_inner_self: "pb\<lparr>inner := take (length (inner pb)) (inner pb)\<rparr> = pb"
  by simp

interpretation add_tlv_op: attr_appender "\<lambda>(t, b) pb. add_tlv pb t b" "\<lambda>(t, b). build_appends b" fst
  by unfold_locales
    (auto simp: add_tlv_def build_appends_def add_attribute_with_eq Let_def not_less
       split: if_splits result.splits)

interpretation add_vsa_tlv_op: attr_appender
  "\<lambda>(vendor, t, b) pb. add_vsa_tlv pb vendor t b" "\<lambda>(vendor, t, b). build_appends b" "\<lambda>_. VENDOR_SPECIFIC"
  by unfold_locales
    (auto simp: add_vsa_tlv_def build_appends_def add_attribute_with_eq [OF vsa_writer_appends] Let_def not_less
       split: if_splits result.splits)

section \<open>In-place updates keep the invariant\<close>

lemma patch_length_eq:
  assumes "4 \<le> length (inner pb)" and "length (inner pb) \<le> 65535"
  shows "patch_length pb =
    Some (pb\<lparr>inner := take 2 (inner pb) @ u16_to_be (of_nat (length (inner pb))) @ drop 4 (inner pb)\<rparr>)"
  using assms by (simp add: patch_length_def splice_def)

lemma length_field_patched:
  assumes "length a = 2" and "n < 65536"
  shows "length_field (a @ u16_to_be (of_nat n) @ b) = n"
proof -
  have "length_field (a @ u16_to_be w @ b) = unat w" for w
  proof -
    have "length_field (a @ u16_to_be w @ b) = unat (u16_from_be (u16_to_be w))"
      using assms(1) by (simp add: length_field_def nth_append u16_to_be_eq)
    then show ?thesis by simp
  qed
  with assms(2) show ?thesis by (simp add: unat_of_nat_u16_small)
qed

lemma wf_pb_patch_length:
  assumes "wf_pb pb"
  shows "\<exists>pb'. patch_length pb = Some pb' \<and> wf_pb pb' \<and> length (inner pb') = length (inner pb)
    \<and> length_field (inner pb') = length (inner pb)
    \<and> take 2 (inner pb') = take 2 (inner pb) \<and> drop 4 (inner pb') = drop 4 (inner pb)"
  using wf_pb_length [OF assms] length_field_patched [of "take 2 (inner pb)" "length (inner pb)"]
  by (auto simp: patch_length_eq wf_pb_def parseable_def)

lemma set_authenticator_eq:
  "length auth = 16 \<Longrightarrow> inner (set_authenticator pb auth) = take 4 (inner pb) @ auth @ drop 20 (inner pb)"
  by (simp add: set_authenticator_def splice_def)

lemma wf_pb_set_authenticator:
  assumes "wf_pb pb" and "length auth = 16"
  shows "wf_pb (set_authenticator pb auth)"
proof -
  have "20 \<le> length (inner pb)" using wf_pb_length [OF assms(1)] by simp
  with assms show ?thesis
    by (simp add: wf_pb_def parseable_def length_field_def set_authenticator_eq nth_append)
qed

lemma wf_pb_set_identifier: "wf_pb pb \<Longrightarrow> wf_pb (set_identifier pb i)"
  by (simp add: wf_pb_def parseable_def length_field_def set_identifier_def)

lemma wf_pb_truncate:
  assumes "wf_pb pb" and "length_field (inner pb) \<le> 20 + n"
  shows "wf_pb (truncate_attributes_to pb n)"
  using assms wf_pb_length [OF assms(1)]
  by (auto simp: wf_pb_def parseable_def length_field_def truncate_attributes_to_def)

section \<open>Typed attributes are found again\<close>

lemma scan_first_added:
  assumes "good_attrs as" and "length v \<le> 253" and "\<not> scan_any p (items (encode_attrs as))"
    and "\<And>r w. f r = Some w \<Longrightarrow> p r"
  shows "scan_first f (items (encode_attrs as @ encode_attr t v)) = f \<lparr>tlv = encode_attr t v\<rparr>"
proof -
  have "items (encode_attrs as) = map Ok (map raw_of as) @ []"
    using items_encode_attrs_append [OF assms(1), of "[]"] by simp
  then have no: "\<not> (\<exists>r\<in>set (map raw_of as). p r)"
    using assms(3) by (simp only: scan_any_append) blast
  have "\<forall>r\<in>set (map raw_of as). f r = None"
  proof
    fix r assume "r \<in> set (map raw_of as)"
    then show "f r = None" using no assms(4) [of r] by (cases "f r") blast+
  qed
  moreover have "items (encode_attrs as @ encode_attr t v) = map Ok (map raw_of as) @ [Ok \<lparr>tlv = encode_attr t v\<rparr>]"
    using items_encode_attrs_append [OF assms(1)] items_encode_attr_append [OF assms(2), of t "[]"] by simp
  ultimately show ?thesis
    using scan_first_skip [of "map raw_of as" f] by (simp split: option.splits)
qed

lemma raw_get_vsa_envelope:
  assumes "length d \<le> 247"
  shows "raw_get_vsa \<lparr>tlv = encode_attr 26 (u32_to_be (vsa_vendor a) @ [vsa_vendor_type a, u8_saturating (length d + 2)] @ d)\<rparr> a
    = vsa_decode a d"
proof -
  have "unat (u8_saturating (length d + 2)) = length d + 2"
    using assms unat_of_nat_u8_small [of "length d + 2"] by (simp add: u8_saturating_def)
  then show ?thesis
    by (simp add: raw_get_vsa_def split_first_chunk_def checked_sub_def get_to_def)
qed

context wire_codec
begin

lemma add_then_first:
  assumes "good v" and "attr_decode a = decode" and "20 \<le> length (inner pb)"
    and "attributes pb = encode_attrs as" and "good_attrs as" and "\<not> contains (attributes pb) a"
    and "pb_add pb a (write v) = (pb', Ok u)"
  shows "first (attributes pb') a = Some (view v)"
proof -
  have w: "appends (write v)" "\<And>out. written (write v) out = write v []"
    using wire_codec_appends [OF wire_codec_axioms] wire_codec_written [OF wire_codec_axioms] by auto
  have l: "length (write v []) \<le> 253" and pb': "pb' = pb\<lparr>inner := inner pb @ encode_attr (attr_code a) (write v [])\<rparr>"
    using assms(7) by (auto simp: pb_add_def add_attribute_with_eq [OF w(1)] w(2) Let_def split: if_splits)
  then have "attributes pb' = encode_attrs as @ encode_attr (attr_code a) (write v [])"
    using assms(3,4) by (simp add: attributes_def)
  then have "first (attributes pb') a = raw_get \<lparr>tlv = encode_attr (attr_code a) (write v [])\<rparr> a"
    using scan_first_added [OF assms(5) l, where f = "\<lambda>r. raw_get r a" and p = "\<lambda>r. raw_matches r a", OF _ get_imp_matches(1)] assms(4,6)
    by (simp add: first_def contains_def)
  then show ?thesis using decode_write [OF assms(1)] assms(2) by (simp add: raw_get_def)
qed

lemma add_then_first_vsa:
  assumes "good v" and "vsa_decode a = decode" and "20 \<le> length (inner pb)"
    and "attributes pb = encode_attrs as" and "good_attrs as" and "\<not> contains_vsa (attributes pb) a"
    and "pb_add_vsa pb a (write v) = (pb', Ok u)"
  shows "first_vsa (attributes pb') a = Some (view v)"
proof -
  have w: "appends (write v)" "\<And>out. written (write v) out = write v []"
    using wire_codec_appends [OF wire_codec_axioms] wire_codec_written [OF wire_codec_axioms] by auto
  let ?d = "u32_to_be (vsa_vendor a) @ [vsa_vendor_type a, u8_saturating (length (write v []) + 2)] @ write v []"
  have d: "written (vsa_writer (vsa_vendor a) (vsa_vendor_type a) (write v)) out = ?d" for out
  proof -
    have "vsa_writer (vsa_vendor a) (vsa_vendor_type a) (write v) out = out @ ?d"
      by (simp add: vsa_writer_eq [OF w(1)] w(2) Let_def)
    then show ?thesis by (simp add: written_def [of "vsa_writer _ _ _"])
  qed
  have l: "length ?d \<le> 253" and pb': "pb' = pb\<lparr>inner := inner pb @ encode_attr 26 ?d\<rparr>"
    using assms(7)
    by (auto simp: pb_add_vsa_def add_attribute_with_eq [OF vsa_writer_appends [OF w(1)]] d Let_def split: if_splits)
  then have "attributes pb' = encode_attrs as @ encode_attr 26 ?d"
    using assms(3,4) by (simp add: attributes_def)
  then have "first_vsa (attributes pb') a = raw_get_vsa \<lparr>tlv = encode_attr 26 ?d\<rparr> a"
    using scan_first_added [OF assms(5) l, where f = "\<lambda>r. raw_get_vsa r a" and p = "\<lambda>r. raw_matches_vsa r a", OF _ get_imp_matches(2)] assms(4,6)
    by (simp add: first_vsa_def contains_vsa_def)
  also have "\<dots> = vsa_decode a (write v [])" by (rule raw_get_vsa_envelope) (use l in simp)
  finally show ?thesis using decode_write [OF assms(1)] assms(2) by simp
qed

end

text \<open>
  What is added is found: for each of the wire types (every instance of \<open>wire_codec\<close>), adding a
  typed attribute to a well-formed packet that has none of this type, when it succeeds, makes
  \<open>first\<close> return exactly the value that was added.
\<close>

theorem typed_attribute_found:
  assumes "wire_codec w dec view good" and "good v" and "attr_decode a = dec" and "wf_pb pb"
    and "attributes pb = encode_attrs as" and "good_attrs as" and "\<not> contains (attributes pb) a"
    and "pb_add pb a (w v) = (pb', Ok u)"
  shows "first (attributes pb') a = Some (view v)"
  using wire_codec.add_then_first [OF assms(1-3) _ assms(5-8)] wf_pb_length [OF assms(4)] by simp

theorem typed_attribute_found_witness:
  "first (attributes (fst (pb_add (pb_new (Code 1) 7) \<lparr>attr_code = 69, attr_decode = decode_WTaggedInteger\<rparr>
      (write_WTaggedInteger \<lparr>tagged_tag = Some 0x21, tagged_value = 513\<rparr>)))) \<lparr>attr_code = 69, attr_decode = decode_WTaggedInteger\<rparr>
   = Some \<lparr>tagged_tag = Some 1, tagged_value = 513\<rparr>"
proof -
  let ?a = "\<lparr>attr_code = 69, attr_decode = decode_WTaggedInteger\<rparr>" and ?v = "\<lparr>tagged_tag = Some 0x21, tagged_value = 513\<rparr>"
  let ?r = "pb_add (pb_new (Code 1) 7) ?a (write_WTaggedInteger ?v)"
  have "first (attributes (fst ?r)) ?a = Some (mask_tag ?v)"
  proof (rule typed_attribute_found [OF wtagged_integer.wire_codec_axioms _ _ wf_pb_new, where as = "[]" and u = "()"])
    show "?r = (fst ?r, Ok ())"
      using wire_codec_appends [OF wtagged_integer.wire_codec_axioms, of ?v]
        wire_codec_written [OF wtagged_integer.wire_codec_axioms, of ?v]
      by (simp add: pb_add_def add_attribute_with_eq Let_def pb_new_def with_capacity_def write_WTaggedInteger_def)
  qed (simp_all add: good_tagged_integer_def pb_new_def with_capacity_def attributes_def contains_def)
  then show ?thesis by (simp add: mask_tag_def)
qed

section \<open>Sequences of additions\<close>

datatype 'v pb_op =
    AddAttribute u8 bytes
  | AddAttributeWith u8 writer
  | Add "'v attr" writer
  | AddVsa "'v vsa_attr" writer
  | AddTlv u8 tlv_build
  | AddVsaTlv u32 u8 tlv_build

fun pb_apply :: "'v pb_op \<Rightarrow> packet_buffer \<Rightarrow> packet_buffer \<times> (codec_error, unit) result" where
  "pb_apply (AddAttribute t v) pb = add_attribute pb t v"
| "pb_apply (AddAttributeWith t w) pb = add_attribute_with pb t w"
| "pb_apply (Add a w) pb = pb_add pb a w"
| "pb_apply (AddVsa a w) pb = pb_add_vsa pb a w"
| "pb_apply (AddTlv t b) pb = add_tlv pb t b"
| "pb_apply (AddVsaTlv vendor t b) pb = add_vsa_tlv pb vendor t b"

fun op_appends :: "'v pb_op \<Rightarrow> bool" where
  "op_appends (AddAttribute t v) = True"
| "op_appends (AddAttributeWith t w) = appends w"
| "op_appends (Add a w) = appends w"
| "op_appends (AddVsa a w) = appends w"
| "op_appends (AddTlv t b) = build_appends b"
| "op_appends (AddVsaTlv vendor t b) = build_appends b"

fun op_type :: "'v pb_op \<Rightarrow> u8" where
  "op_type (AddAttribute t v) = t"
| "op_type (AddAttributeWith t w) = t"
| "op_type (Add a w) = attr_code a"
| "op_type (AddVsa a w) = VENDOR_SPECIFIC"
| "op_type (AddTlv t b) = t"
| "op_type (AddVsaTlv vendor t b) = VENDOR_SPECIFIC"

fun pb_build :: "'v pb_op list \<Rightarrow> packet_buffer \<Rightarrow> packet_buffer \<times> (codec_error, unit) result list" where
  "pb_build [] pb = (pb, [])"
| "pb_build (x # xs) pb =
     (case pb_apply x pb of (pb', r) \<Rightarrow> (case pb_build xs pb' of (pb'', rs) \<Rightarrow> (pb'', r # rs)))"

lemma pb_apply_ok:
  fixes x :: "'v pb_op"
  assumes "op_appends x" "pb_apply x pb = (pb', Ok u)"
  shows "appended (op_type x) pb pb'"
proof (cases x)
  case (AddAttribute t v)
  then show ?thesis using assms add_attribute_op.op_ok [where x = "(t, v)" and pb = pb and pb' = pb'] by simp
next
  case (AddAttributeWith t w)
  then show ?thesis using assms add_with_op.op_ok [where x = "(t, w)" and pb = pb and pb' = pb'] by simp
next
  case (Add a w)
  then show ?thesis using assms add_op.op_ok [where x = "(a, w)" and pb = pb and pb' = pb'] by simp
next
  case (AddVsa a w)
  then show ?thesis using assms add_vsa_op.op_ok [where x = "(a, w)" and pb = pb and pb' = pb'] by simp
next
  case (AddTlv t b)
  then show ?thesis using assms add_tlv_op.op_ok [where x = "(t, b)" and pb = pb and pb' = pb'] by simp
next
  case (AddVsaTlv vendor t b)
  then show ?thesis using assms add_vsa_tlv_op.op_ok [where x = "(vendor, t, b)" and pb = pb and pb' = pb'] by simp
qed

lemma pb_apply_err:
  fixes x :: "'v pb_op"
  assumes "op_appends x" "pb_apply x pb = (pb', Err e)"
  shows "pb' = pb"
proof (cases x)
  case (AddAttribute t v)
  then show ?thesis using assms add_attribute_op.op_err [where x = "(t, v)" and pb = pb and pb' = pb'] by simp
next
  case (AddAttributeWith t w)
  then show ?thesis using assms add_with_op.op_err [where x = "(t, w)" and pb = pb and pb' = pb'] by simp
next
  case (Add a w)
  then show ?thesis using assms add_op.op_err [where x = "(a, w)" and pb = pb and pb' = pb'] by simp
next
  case (AddVsa a w)
  then show ?thesis using assms add_vsa_op.op_err [where x = "(a, w)" and pb = pb and pb' = pb'] by simp
next
  case (AddTlv t b)
  then show ?thesis using assms add_tlv_op.op_err [where x = "(t, b)" and pb = pb and pb' = pb'] by simp
next
  case (AddVsaTlv vendor t b)
  then show ?thesis using assms add_vsa_tlv_op.op_err [where x = "(vendor, t, b)" and pb = pb and pb' = pb'] by simp
qed

interpretation any_op: attr_appender pb_apply op_appends op_type
  by unfold_locales (fact pb_apply_ok, fact pb_apply_err)

definition accepted :: "'v pb_op list \<Rightarrow> (codec_error, unit) result list \<Rightarrow> 'v pb_op list" where
  "accepted ops rs = map fst (filter (\<lambda>(x, r). is_ok r) (zip ops rs))"

text \<open>
  C24: whatever sequence of additions of all six kinds is applied to a packet buffer, including
  additions that fail half-way, the buffer stays a well-formed packet with an unchanged header, and
  its attribute region grows by exactly one well-formed attribute of the right type for every
  addition that reported success, in order, and by nothing for the others.
\<close>

theorem packet_build_sound:
  assumes "wf_pb pb" and "list_all op_appends ops" and "pb_build ops pb = (pb', rs)"
  shows "wf_pb pb' \<and> pb_header pb' = pb_header pb \<and> length rs = length ops
    \<and> (\<exists>as. good_attrs as \<and> attributes pb' = attributes pb @ encode_attrs as
         \<and> map fst as = map op_type (accepted ops rs))"
  using assms
proof (induction ops arbitrary: pb rs)
  case Nil
  then show ?case by (auto simp: accepted_def intro!: exI [of _ "[]"])
next
  case (Cons x xs)
  obtain p1 r where p1: "pb_apply x pb = (p1, r)" by (cases "pb_apply x pb")
  obtain rs1 where rs1: "pb_build xs p1 = (pb', rs1)" "rs = r # rs1"
    using Cons.prems(3) p1 by (auto split: prod.splits)
  have v: "op_appends x" and vs: "list_all op_appends xs" using Cons.prems(2) by simp_all
  have wf: "wf_pb p1" "pb_header p1 = pb_header pb"
    using any_op.op_wf [OF v Cons.prems(1)] any_op.op_header [OF v Cons.prems(1)] p1 by simp_all
  have len: "20 \<le> length (inner pb)" using wf_pb_length [OF Cons.prems(1)] by simp
  obtain bs where bs: "good_attrs bs" "length bs \<le> 1" "\<forall>a\<in>set bs. fst a = op_type x"
    "inner p1 = inner pb @ encode_attrs bs" "is_ok r \<longleftrightarrow> bs \<noteq> []"
    using any_op.op_extends [OF v, of pb] p1 by auto
  then have h: "attributes p1 = attributes pb @ encode_attrs bs" using len by (simp add: attributes_def)
  have "map fst bs = (if is_ok r then [op_type x] else [])" using bs(2,3,5) by (cases bs) auto
  moreover obtain as where "wf_pb pb'" "pb_header pb' = pb_header p1" "length rs1 = length xs"
    "good_attrs as" "attributes pb' = attributes p1 @ encode_attrs as" "map fst as = map op_type (accepted xs rs1)"
    using Cons.IH [OF wf(1) vs rs1(1)] by blast
  ultimately show ?case
    using wf(2) h bs(1) rs1(2) by (auto simp: accepted_def intro!: exI [of _ "bs @ as"])
qed

theorem packet_build_sound_witness:
  "let ops = [AddAttribute 1 [0x62, 0x6F, 0x62], AddAttribute 1 (replicate 254 0), AddTlv 173 (tlv_add_raw 1 [9]),
              Add \<lparr>attr_code = 5, attr_decode = decode_WInteger\<rparr> (write_WInteger 7)];
       res = pb_build ops (pb_new (Code 1) 7)
   in wf_pb (fst res) \<and> pb_header (fst res) = pb_header (pb_new (Code 1) 7) \<and> length (snd res) = length ops
      \<and> (\<exists>as. good_attrs as \<and> attributes (fst res) = attributes (pb_new (Code 1) 7) @ encode_attrs as
         \<and> map fst as = map op_type (accepted ops (snd res)))"
  unfolding Let_def
  by (rule packet_build_sound [OF wf_pb_new])
    (simp_all add: tlv_add_raw_appends wire_codec_appends [OF winteger.wire_codec_axioms])

end
