(* ===== verification/Eap_Codec.thy ===== *)
theory Eap_Codec
  imports Packet_Buffer
begin

text \<open>
  \<^verbatim>\<open>src/codec/eap.rs\<close>: reassembly of the EAP-Message attributes of a packet and the EAP packet
  header (RFC 3748 section 4): writers for the four EAP codes and the parser. The lemmas show
  that parsing inverts writing and which buffers parse.
\<close>

section \<open>Reassembly\<close>

definition EAP_MESSAGE :: u8 where [simp]: "EAP_MESSAGE = 79"

text \<open>\<open>iter.map_while(Result::ok)\<close>: the slots before the first malformed one.\<close>

fun map_while_ok :: "('e, 'a) result list \<Rightarrow> 'a list" where
  "map_while_ok [] = []"
| "map_while_ok (Err _ # xs) = []"
| "map_while_ok (Ok x # xs) = x # map_while_ok xs"

definition fragments :: "bytes \<Rightarrow> bytes list" where
  "fragments attrs =
     map raw_value (filter (\<lambda>raw. attribute_type raw = EAP_MESSAGE) (map_while_ok (items attrs)))"

definition reassemble_into :: "bytes \<Rightarrow> bytes \<Rightarrow> bytes \<times> nat" where
  "reassemble_into attrs out =
     (let start = length out;
          out' = foldl (\<lambda>out fragment. out @ fragment) out (fragments attrs)
      in (out', length out' - start))"

definition reassemble :: "bytes \<Rightarrow> bytes" where
  "reassemble attrs = fst (reassemble_into attrs [])"

section \<open>EAP packets\<close>

datatype eap_code = EapCode (eap_code_byte: u8)

definition EAP_REQUEST :: eap_code where [simp]: "EAP_REQUEST = EapCode 1"
definition EAP_RESPONSE :: eap_code where [simp]: "EAP_RESPONSE = EapCode 2"
definition EAP_SUCCESS :: eap_code where [simp]: "EAP_SUCCESS = EapCode 3"
definition EAP_FAILURE :: eap_code where [simp]: "EAP_FAILURE = EapCode 4"

datatype eap_type = EapType (eap_type_byte: u8)

definition IDENTITY :: eap_type where [simp]: "IDENTITY = EapType 1"
definition NOTIFICATION :: eap_type where [simp]: "NOTIFICATION = EapType 2"
definition NAK :: eap_type where [simp]: "NAK = EapType 3"
definition MD5_CHALLENGE :: eap_type where [simp]: "MD5_CHALLENGE = EapType 4"
definition OTP :: eap_type where [simp]: "OTP = EapType 5"
definition GTC :: eap_type where [simp]: "GTC = EapType 6"
definition EAP_TLS :: eap_type where [simp]: "EAP_TLS = EapType 13"
definition SIM :: eap_type where [simp]: "SIM = EapType 18"
definition TTLS :: eap_type where [simp]: "TTLS = EapType 21"
definition AKA :: eap_type where [simp]: "AKA = EapType 23"
definition PEAP :: eap_type where [simp]: "PEAP = EapType 25"
definition MSCHAPV2 :: eap_type where [simp]: "MSCHAPV2 = EapType 26"
definition FAST :: eap_type where [simp]: "FAST = EapType 43"
definition AKA_PRIME :: eap_type where [simp]: "AKA_PRIME = EapType 50"

datatype packet_error = ShortHeader | LengthTooSmall | EapLengthExceedsBuffer | PayloadTooLong nat

definition write_with_type ::
    "bytes \<Rightarrow> eap_code \<Rightarrow> u8 \<Rightarrow> eap_type \<Rightarrow> bytes \<Rightarrow> bytes \<times> (packet_error, u16) result" where
  "write_with_type out c i t type_data =
     (let total = 4 + 1 + length type_data
      in if total > 65535 then (out, Err (PayloadTooLong total))
         else
           let len = of_nat total
           in (out @ [eap_code_byte c] @ [i] @ u16_to_be len @ [eap_type_byte t] @ type_data, Ok len))"

definition eap_write_request ::
    "bytes \<Rightarrow> u8 \<Rightarrow> eap_type \<Rightarrow> bytes \<Rightarrow> bytes \<times> (packet_error, u16) result" where
  "eap_write_request out i t type_data = write_with_type out EAP_REQUEST i t type_data"

definition eap_write_response ::
    "bytes \<Rightarrow> u8 \<Rightarrow> eap_type \<Rightarrow> bytes \<Rightarrow> bytes \<times> (packet_error, u16) result" where
  "eap_write_response out i t type_data = write_with_type out EAP_RESPONSE i t type_data"

definition write_terminal :: "bytes \<Rightarrow> eap_code \<Rightarrow> u8 \<Rightarrow> bytes \<times> u16" where
  "write_terminal out c i = (out @ [eap_code_byte c] @ [i] @ u16_to_be 4, 4)"

definition write_success :: "bytes \<Rightarrow> u8 \<Rightarrow> bytes \<times> u16" where
  "write_success out i = write_terminal out EAP_SUCCESS i"

definition write_failure :: "bytes \<Rightarrow> u8 \<Rightarrow> bytes \<times> u16" where
  "write_failure out i = write_terminal out EAP_FAILURE i"

record eap_packet =
  eap_code :: eap_code
  eap_identifier :: u8
  eap_payload :: bytes

definition eap_parse :: "bytes \<Rightarrow> (packet_error, eap_packet) result" where
  "eap_parse buf =
     (if length buf < 4 then Err ShortHeader
      else
        let len = unat (u16_from_be [buf ! 2, buf ! 3])
        in if len < 4 then Err LengthTooSmall
           else if len > length buf then Err EapLengthExceedsBuffer
           else Ok \<lparr>eap_code = EapCode (buf ! 0), eap_identifier = buf ! 1,
                    eap_payload = take (len - 4) (drop 4 buf)\<rparr>)"

definition eap_length :: "eap_packet \<Rightarrow> u16" where
  "eap_length p = of_nat (4 + length (eap_payload p))"

definition eap_typ :: "eap_packet \<Rightarrow> eap_type option" where
  "eap_typ p = (case eap_payload p of [] \<Rightarrow> None | b # _ \<Rightarrow> Some (EapType b))"

definition eap_type_data :: "eap_packet \<Rightarrow> bytes" where
  "eap_type_data p = (if 1 \<le> length (eap_payload p) then drop 1 (eap_payload p) else [])"

section \<open>Facts\<close>

lemma map_while_ok_map [simp]: "map_while_ok (map (\<lambda>a. Ok (f a)) xs) = map f xs"
  by (induction xs) auto

lemma foldl_append_concat: "foldl (\<lambda>out f. out @ f) out fs = out @ concat fs"
  by (induction fs arbitrary: out) auto

lemma reassemble_eq: "reassemble attrs = concat (fragments attrs)"
  by (simp add: reassemble_def reassemble_into_def Let_def foldl_append_concat)

lemma reassemble_into_eq:
  "reassemble_into attrs out = (out @ reassemble attrs, length (reassemble attrs))"
  by (simp add: reassemble_eq reassemble_into_def Let_def foldl_append_concat)

lemma fragments_encode_attrs:
  assumes "good_attrs as"
  shows "fragments (encode_attrs as) = map snd (filter (\<lambda>a. fst a = 79) as)"
proof -
  have "items (encode_attrs as) = map (\<lambda>a. Ok (raw_of a)) as"
    using items_encode_attrs_append [OF assms, of "[]"] by simp
  then show ?thesis by (simp add: fragments_def filter_map o_def)
qed

text \<open>The wire form of an EAP packet, and that parsing reads it back whatever follows it.\<close>

definition eap_bytes :: "eap_packet \<Rightarrow> bytes" where
  "eap_bytes p = eap_code_byte (eap_code p) # eap_identifier p # u16_to_be (eap_length p) @ eap_payload p"

lemma eap_parse_bytes:
  assumes "length (eap_payload p) \<le> 65531"
  shows "eap_parse (eap_bytes p @ trailing) = Ok p"
proof -
  have "unat (eap_length p) = 4 + length (eap_payload p)"
    using assms unat_of_nat_u16_small [of "4 + length (eap_payload p)"] by (simp add: eap_length_def)
  moreover obtain a b where "u16_to_be (eap_length p) = [a, b]"
    and "u16_from_be [a, b] = eap_length p"
    by (metis u16_from_to_be u16_to_be_eq)
  ultimately show ?thesis
    by (simp add: eap_parse_def eap_bytes_def Let_def)
qed

lemma eap_parse_Ok_bytes:
  assumes "eap_parse buf = Ok p"
  shows "\<exists>trailing. buf = eap_bytes p @ trailing" and "length (eap_payload p) \<le> 65531"
proof -
  let ?w = "u16_from_be [buf ! 2, buf ! 3]"
  have len: "4 \<le> length buf" "4 \<le> unat ?w" "unat ?w \<le> length buf"
    and p: "p = \<lparr>eap_code = EapCode (buf ! 0), eap_identifier = buf ! 1,
                 eap_payload = take (unat ?w - 4) (drop 4 buf)\<rparr>"
    using assms by (auto simp: eap_parse_def Let_def split: if_splits)
  have w: "unat ?w < 65536" using unsigned_less [of ?w, where ?'a = nat] by simp
  have n: "length (eap_payload p) = unat ?w - 4" using len by (simp add: p)
  then have "eap_length p = of_nat (unat ?w)" using len(2) by (simp add: eap_length_def)
  then have "eap_length p = ?w" by simp
  then have "u16_to_be (eap_length p) = [buf ! 2, buf ! 3]" by (simp add: u16_to_from_be)
  then have "eap_bytes p = buf ! 0 # buf ! 1 # buf ! 2 # buf ! 3 # take (unat ?w - 4) (drop 4 buf)"
    by (simp add: eap_bytes_def p)
  then have "buf = eap_bytes p @ drop (unat ?w - 4) (drop 4 buf)"
    using Cons4_nth_drop [OF len(1)] by (metis append_Cons append_take_drop_id)
  then show "\<exists>trailing. buf = eap_bytes p @ trailing" by blast
  show "length (eap_payload p) \<le> 65531" using n w by simp
qed

lemma write_with_type_eq:
  "length d \<le> 65530 \<Longrightarrow>
     write_with_type out c i t d =
       (out @ eap_bytes \<lparr>eap_code = c, eap_identifier = i, eap_payload = eap_type_byte t # d\<rparr>,
        Ok (of_nat (5 + length d)))"
  by (simp add: write_with_type_def Let_def eap_bytes_def eap_length_def)

lemma write_with_type_too_long:
  "65530 < length d \<Longrightarrow> write_with_type out c i t d = (out, Err (PayloadTooLong (5 + length d)))"
  by (simp add: write_with_type_def Let_def)

lemma write_terminal_eq:
  "write_terminal out c i =
     (out @ eap_bytes \<lparr>eap_code = c, eap_identifier = i, eap_payload = []\<rparr>, 4)"
  by (simp add: write_terminal_def eap_bytes_def eap_length_def)

text \<open>
  EAP packets are parsed exactly: \<open>Packet::parse\<close> returns a packet exactly when the buffer starts
  with that packet's wire form, whatever follows it; and what \<open>write_request\<close> or \<open>write_response\<close>
  appends is the wire form of a packet with the code, identifier, type and data it was given, or
  nothing when the data does not fit the length field.
\<close>

theorem eap_codec_exact:
  "(eap_parse buf = Ok p \<longleftrightarrow> (\<exists>trailing. buf = eap_bytes p @ trailing) \<and> length (eap_payload p) \<le> 65531)
   \<and> (case write_with_type out c i t d of
        (out', Ok n) \<Rightarrow> length d \<le> 65530 \<and> (\<exists>q. out' = out @ eap_bytes q \<and> eap_parse (drop (length out) out') = Ok q
            \<and> eap_code q = c \<and> eap_identifier q = i \<and> eap_payload q = eap_type_byte t # d \<and> eap_length q = n)
      | (out', Err e) \<Rightarrow> 65530 < length d \<and> out' = out \<and> e = PayloadTooLong (5 + length d))"
proof
  show "eap_parse buf = Ok p \<longleftrightarrow> (\<exists>trailing. buf = eap_bytes p @ trailing) \<and> length (eap_payload p) \<le> 65531"
    using eap_parse_Ok_bytes [of buf p] eap_parse_bytes [of p] by blast
  let ?q = "\<lparr>eap_code = c, eap_identifier = i, eap_payload = eap_type_byte t # d\<rparr>"
  show "case write_with_type out c i t d of
        (out', Ok n) \<Rightarrow> length d \<le> 65530 \<and> (\<exists>q. out' = out @ eap_bytes q \<and> eap_parse (drop (length out) out') = Ok q
            \<and> eap_code q = c \<and> eap_identifier q = i \<and> eap_payload q = eap_type_byte t # d \<and> eap_length q = n)
      | (out', Err e) \<Rightarrow> 65530 < length d \<and> out' = out \<and> e = PayloadTooLong (5 + length d)"
  proof (cases "length d \<le> 65530")
    case True
    then have "eap_parse (eap_bytes ?q) = Ok ?q" using eap_parse_bytes [of ?q "[]"] by simp
    then show ?thesis
      using True by (auto simp: write_with_type_eq eap_length_def intro!: exI [of _ ?q])
  next
    case False
    then show ?thesis by (simp add: write_with_type_too_long)
  qed
qed

end
