(* ===== verification/Eap_Framing.thy ===== *)
theory Eap_Framing
  imports Eap_Codec
begin

text \<open>
  \<^verbatim>\<open>crates/radius-tokio-eap/src/framing.rs\<close> and \<^verbatim>\<open>error.rs\<close>: the flags/length framing of EAP-TLS and
  the methods built on it, the fragmenter and the reassembler. \<open>None\<close> is a panic. The theorems show
  that fragmenting a message, encoding the fragments, parsing and reassembling them yields the
  message for every fragment size, and that a reassembler whose owner takes
  completed messages never buffers more than its configured maximum.
\<close>

unbundle bit_operations_syntax

section \<open>Errors and flags\<close>

datatype eap_error =
    Framing string
  | ReassemblyOverflow u32 nat nat
  | MissingTotalLength
  | EapPacketError packet_error
  | TlsError string

datatype flags = Flags (flags_byte: u8)

definition FLAG_L :: u8 where [simp]: "FLAG_L = 0x80"
definition FLAG_M :: u8 where [simp]: "FLAG_M = 0x40"
definition FLAG_S :: u8 where [simp]: "FLAG_S = 0x20"

definition length_included :: "flags \<Rightarrow> bool" where
  "length_included f \<longleftrightarrow> flags_byte f AND FLAG_L \<noteq> 0"

definition more_fragments :: "flags \<Rightarrow> bool" where
  "more_fragments f \<longleftrightarrow> flags_byte f AND FLAG_M \<noteq> 0"

definition start_flag :: "flags \<Rightarrow> bool" where
  "start_flag f \<longleftrightarrow> flags_byte f AND FLAG_S \<noteq> 0"

definition reserved_bits :: "flags \<Rightarrow> u8" where
  "reserved_bits f = flags_byte f AND 0x1F"

section \<open>Frames\<close>

record frame =
  frame_flags :: flags
  total_length :: "u32 option"
  payload :: bytes

definition frame_parse :: "bytes \<Rightarrow> (eap_error, frame) result" where
  "frame_parse type_data =
     (case type_data of
        [] \<Rightarrow> Err (Framing ''missing flags byte'')
      | b # rest \<Rightarrow>
          if length_included (Flags b) then
            (if length rest < 4 then Err (Framing ''L bit set but fewer than 4 length bytes follow'')
             else Ok \<lparr>frame_flags = Flags b,
                      total_length = Some (u32_from_be [rest ! 0, rest ! 1, rest ! 2, rest ! 3]),
                      payload = drop 4 rest\<rparr>)
          else Ok \<lparr>frame_flags = Flags b, total_length = None, payload = rest\<rparr>)"

definition frame_encode :: "bytes \<Rightarrow> flags \<Rightarrow> u32 option \<Rightarrow> bytes \<Rightarrow> bytes \<times> nat" where
  "frame_encode out f tot pl =
     (let start = length out;
          final_flags = (if tot \<noteq> None then flags_byte f OR FLAG_L else flags_byte f AND NOT FLAG_L);
          out' = out @ [final_flags] @ (case tot of Some n \<Rightarrow> u32_to_be n | None \<Rightarrow> []) @ pl
      in (out', length out' - start))"

section \<open>Reassembly\<close>

record reassembler =
  re_buf :: bytes
  re_expected :: "u32 option"
  single_fragment_complete :: bool
  max_total_length :: u32

definition DEFAULT_MAX_TOTAL_LENGTH :: u32 where [simp]: "DEFAULT_MAX_TOTAL_LENGTH = 64 * 1024"

definition re_with_max_total_length :: "u32 \<Rightarrow> reassembler" where
  "re_with_max_total_length m =
     \<lparr>re_buf = [], re_expected = None, single_fragment_complete = False, max_total_length = m\<rparr>"

definition re_new :: reassembler where
  "re_new = re_with_max_total_length DEFAULT_MAX_TOTAL_LENGTH"

definition re_reset :: "reassembler \<Rightarrow> reassembler" where
  "re_reset r = r\<lparr>re_buf := [], re_expected := None, single_fragment_complete := False\<rparr>"

definition is_complete :: "reassembler \<Rightarrow> bool" where
  "is_complete r =
     (case re_expected r of
        Some n \<Rightarrow> length (re_buf r) = unat n
      | None \<Rightarrow> re_buf r \<noteq> [] \<and> single_fragment_complete r)"

definition re_take :: "reassembler \<Rightarrow> reassembler \<times> bytes" where
  "re_take r = (r\<lparr>re_buf := [], re_expected := None, single_fragment_complete := False\<rparr>, re_buf r)"

text \<open>The L-bit checks that open \<open>push\<close>; \<open>None\<close> is the panic of \<open>expect\<close>.\<close>

definition push_header :: "reassembler \<Rightarrow> frame \<Rightarrow> (eap_error, reassembler) result option" where
  "push_header r fr =
     (let already = re_expected r \<noteq> None \<or> re_buf r \<noteq> []
      in if length_included (frame_flags fr) then
           (if already
            then Some (Err (Framing ''L bit set on a non-initial fragment of an in-progress message''))
            else case total_length fr of
              None \<Rightarrow> None
            | Some tot \<Rightarrow>
                if tot > max_total_length r then Some (Err (ReassemblyOverflow tot 0 (unat tot)))
                else Some (Ok (r\<lparr>re_expected := Some tot\<rparr>)))
         else if more_fragments (frame_flags fr) \<and> \<not> already then Some (Err MissingTotalLength)
         else Some (Ok r))"

definition push_fits :: "reassembler \<Rightarrow> frame \<Rightarrow> (eap_error, unit) result" where
  "push_fits r fr =
     (case re_expected r of
        Some expected \<Rightarrow>
          if length (re_buf r) + length (payload fr) > unat expected
          then Err (ReassemblyOverflow expected (length (re_buf r)) (length (payload fr)))
          else Ok ()
      | None \<Rightarrow>
          if length (payload fr) > unat (max_total_length r)
          then Err (ReassemblyOverflow (max_total_length r) 0 (length (payload fr)))
          else Ok ())"

definition push :: "reassembler \<Rightarrow> frame \<Rightarrow> (reassembler \<times> (eap_error, bool) result) option" where
  "push r fr =
     (case push_header r fr of
        None \<Rightarrow> None
      | Some (Err e) \<Rightarrow> Some (r, Err e)
      | Some (Ok r) \<Rightarrow>
          (case push_fits r fr of
             Err e \<Rightarrow> Some (r, Err e)
           | Ok _ \<Rightarrow>
               let r = r\<lparr>re_buf := re_buf r @ payload fr\<rparr>;
                   r = (if re_expected r = None \<and> \<not> more_fragments (frame_flags fr)
                        then r\<lparr>single_fragment_complete := True\<rparr> else r)
               in Some (r, Ok (is_complete r))))"

section \<open>Fragmentation\<close>

record fragmenter =
  fg_bytes :: bytes
  fg_offset :: nat
  frame_mtu :: nat
  extra_flags :: u8
  emitted_first :: bool

definition fragmenter_new :: "bytes \<Rightarrow> nat \<Rightarrow> u8 \<Rightarrow> fragmenter option" where
  "fragmenter_new tls_bytes mtu extra =
     (if mtu > 0
      then Some \<lparr>fg_bytes = tls_bytes, fg_offset = 0, frame_mtu = mtu, extra_flags = extra, emitted_first = False\<rparr>
      else None)"

type_synonym fragment = "flags \<times> u32 option \<times> bytes"

definition u32_saturating :: "nat \<Rightarrow> u32" where
  "u32_saturating n = (if n < 2 ^ 32 then of_nat n else -1)"

definition fragmenter_next :: "fragmenter \<Rightarrow> fragmenter \<times> fragment option" where
  "fragmenter_next f =
     (if fg_offset f \<ge> length (fg_bytes f) \<and> emitted_first f then (f, None)
      else
        let remaining = length (fg_bytes f) - fg_offset f;
            tk = min remaining (frame_mtu f);
            slice = take tk (drop (fg_offset f) (fg_bytes f));
            offset = fg_offset f + tk;
            flags_byte = (if emitted_first f then 0 else extra_flags f);
            multi_fragment = length (fg_bytes f) > frame_mtu f;
            is_first = \<not> emitted_first f;
            more_to_come = offset < length (fg_bytes f);
            flags_byte = (if more_to_come then flags_byte OR FLAG_M else flags_byte);
            (flags_byte, tot) =
              (if is_first \<and> multi_fragment
               then (flags_byte OR FLAG_L, Some (u32_saturating (length (fg_bytes f))))
               else (flags_byte, None))
        in (f\<lparr>fg_offset := offset, emitted_first := True\<rparr>, Some (Flags flags_byte, tot, slice)))"

text \<open>What iterating to the end yields.\<close>

function fragments_of :: "fragmenter \<Rightarrow> fragment list" where
  "fragments_of f =
     (if frame_mtu f = 0 then []
      else case fragmenter_next f of
        (f', None) \<Rightarrow> []
      | (f', Some x) \<Rightarrow> x # fragments_of f')"
  by pat_completeness auto
termination
  by (relation "measure (\<lambda>f. (length (fg_bytes f) - fg_offset f) + (if emitted_first f then 0 else 1))")
    (auto simp: fragmenter_next_def Let_def split: if_splits)

declare fragments_of.simps [simp del]

section \<open>Flags as bits\<close>

lemma flag_bits:
  "length_included (Flags b) \<longleftrightarrow> bit b 7" "more_fragments (Flags b) \<longleftrightarrow> bit b 6" "start_flag (Flags b) \<longleftrightarrow> bit b 5"
  using and_exp_eq_0_iff_not_bit [of b 7] and_exp_eq_0_iff_not_bit [of b 6] and_exp_eq_0_iff_not_bit [of b 5]
  by (simp_all add: length_included_def more_fragments_def start_flag_def)

lemma bit_flag_consts:
  "bit (0x80 :: u8) n \<longleftrightarrow> n = 7" "bit (0x40 :: u8) n \<longleftrightarrow> n = 6"
  using bit_exp_iff [of 7 n, where ?'a = u8] bit_exp_iff [of 6 n, where ?'a = u8] by auto

lemma flag_updates:
  "bit (b OR 0x80 :: u8) n \<longleftrightarrow> bit b n \<or> n = 7" "bit (b OR 0x40 :: u8) n \<longleftrightarrow> bit b n \<or> n = 6"
  "n < 8 \<Longrightarrow> bit (b AND NOT 0x80 :: u8) n \<longleftrightarrow> bit b n \<and> n \<noteq> 7"
  unfolding bit_or_iff bit_and_iff bit_not_iff bit_flag_consts by (auto simp: possible_bit_word)

text \<open>Parsing inverts encoding, with the L bit set according to the presence of the length.\<close>

lemma frame_parse_encode:
  "\<exists>f'. frame_parse (fst (frame_encode [] f tot pl)) = Ok \<lparr>frame_flags = f', total_length = tot, payload = pl\<rparr>
     \<and> (length_included f' \<longleftrightarrow> tot \<noteq> None) \<and> (more_fragments f' \<longleftrightarrow> more_fragments f)
     \<and> (start_flag f' \<longleftrightarrow> start_flag f)"
proof (cases tot)
  case None
  let ?b = "flags_byte f AND NOT 0x80"
  have "\<not> length_included (Flags ?b)" "more_fragments (Flags ?b) \<longleftrightarrow> more_fragments f" "start_flag (Flags ?b) \<longleftrightarrow> start_flag f"
    unfolding flag_bits by (cases f; simp only: flag_bits flag_updates flags.sel; simp)+
  then show ?thesis using None by (intro exI [of _ "Flags ?b"]) (simp add: frame_encode_def frame_parse_def)
next
  case (Some n)
  let ?b = "flags_byte f OR 0x80"
  have b: "length_included (Flags ?b)" "more_fragments (Flags ?b) \<longleftrightarrow> more_fragments f" "start_flag (Flags ?b) \<longleftrightarrow> start_flag f"
    unfolding flag_bits by (cases f; simp only: flag_bits flag_updates flags.sel; simp)+
  obtain x y z w where n: "u32_to_be n = [x, y, z, w]"
    using Cons4_nth_drop [of "u32_to_be n"] that by simp
  then have "u32_from_be [x, y, z, w] = n" by (metis u32_from_to_be)
  then show ?thesis using Some b n by (intro exI [of _ "Flags ?b"]) (simp add: frame_encode_def frame_parse_def)
qed

section \<open>Fragmenting and reassembling\<close>

definition wire_fragment :: "fragment \<Rightarrow> bytes" where
  "wire_fragment x = (case x of (f, tot, pl) \<Rightarrow> fst (frame_encode [] f tot pl))"

text \<open>Parse and push a sequence of frames; \<open>None\<close> when one of them is refused.\<close>

fun feed :: "reassembler \<Rightarrow> bytes list \<Rightarrow> (reassembler \<times> bool list) option" where
  "feed r [] = Some (r, [])"
| "feed r (w # ws) =
     (case frame_parse w of
        Err _ \<Rightarrow> None
      | Ok fr \<Rightarrow>
          (case push r fr of
             Some (r', Ok b) \<Rightarrow> map_option (\<lambda>(r'', bs). (r'', b # bs)) (feed r' ws)
           | _ \<Rightarrow> None))"

lemma push_continue:
  assumes "re_expected r = Some e" and "\<not> length_included (frame_flags fr)"
    and "length (re_buf r) + length (payload fr) \<le> unat e"
  shows "push r fr = Some (r\<lparr>re_buf := re_buf r @ payload fr\<rparr>, Ok (length (re_buf r) + length (payload fr) = unat e))"
  using assms by (simp add: push_def push_header_def push_fits_def is_complete_def Let_def)

lemma feed_continue:
  assumes "re_expected r = Some e" and "length (re_buf r) + length pl \<le> unat e"
  shows "feed r (wire_fragment (f, None, pl) # ws) =
    map_option (\<lambda>(r', bs). (r', (length (re_buf r) + length pl = unat e) # bs)) (feed (r\<lparr>re_buf := re_buf r @ pl\<rparr>) ws)"
proof -
  obtain f' where f': "frame_parse (fst (frame_encode [] f None pl)) = Ok \<lparr>frame_flags = f', total_length = None, payload = pl\<rparr>"
    "\<not> length_included f'" using frame_parse_encode [of f None pl] by auto
  show ?thesis
    using push_continue [OF assms(1), of "\<lparr>frame_flags = f', total_length = None, payload = pl\<rparr>"] assms(2) f'
    by (simp add: wire_fragment_def)
qed

lemma fragments_of_rest:
  assumes "emitted_first f" and "0 < frame_mtu f" and "fg_offset f < length (fg_bytes f)"
  shows "\<exists>fl. fragments_of f = (fl, None, take (frame_mtu f) (drop (fg_offset f) (fg_bytes f)))
    # fragments_of (f\<lparr>fg_offset := min (length (fg_bytes f)) (fg_offset f + frame_mtu f)\<rparr>)"
proof -
  have same: "f\<lparr>fg_offset := x, emitted_first := True\<rparr> = f\<lparr>fg_offset := x\<rparr>" for x using assms(1) by (cases f) simp
  show ?thesis using assms by (subst fragments_of.simps) (auto simp: fragmenter_next_def Let_def min_def same)
qed

lemma fragments_of_done:
  "emitted_first f \<Longrightarrow> length (fg_bytes f) \<le> fg_offset f \<Longrightarrow> fragments_of f = []"
  by (subst fragments_of.simps) (simp add: fragmenter_next_def)

lemma feed_rest:
  assumes "emitted_first f" and "0 < frame_mtu f" and "fg_offset f < length (fg_bytes f)"
    and "re_expected r = Some e" and "unat e = length (fg_bytes f)" and "re_buf r = take (fg_offset f) (fg_bytes f)"
  shows "\<exists>k. feed r (map wire_fragment (fragments_of f)) = Some (r\<lparr>re_buf := fg_bytes f\<rparr>, replicate k False @ [True])"
  using assms
proof (induction "length (fg_bytes f) - fg_offset f" arbitrary: f r rule: less_induct)
  case less
  let ?n = "length (fg_bytes f)" and ?o = "fg_offset f" and ?m = "frame_mtu f"
  let ?pl = "take ?m (drop ?o (fg_bytes f))" and ?f = "f\<lparr>fg_offset := min ?n (?o + ?m)\<rparr>"
  let ?r = "r\<lparr>re_buf := re_buf r @ ?pl\<rparr>"
  obtain fl where fl: "fragments_of f = (fl, None, ?pl) # fragments_of ?f"
    using fragments_of_rest [OF less.prems(1-3)] by blast
  have buf: "re_buf r @ ?pl = take (min ?n (?o + ?m)) (fg_bytes f)"
    using less.prems(3,6) by (simp add: take_add min_def)
  have len: "length (re_buf r) + length ?pl = min ?n (?o + ?m)"
    using arg_cong [OF buf, of length] by simp
  have step: "feed r (map wire_fragment (fragments_of f)) =
      map_option (\<lambda>(r', bs). (r', (min ?n (?o + ?m) = ?n) # bs)) (feed ?r (map wire_fragment (fragments_of ?f)))"
    using feed_continue [OF less.prems(4), of ?pl fl "map wire_fragment (fragments_of ?f)"] len less.prems(5)
    by (simp add: fl)
  show ?case
  proof (cases "?n \<le> ?o + ?m")
    case True
    then have "fragments_of ?f = []" using less.prems(1) by (intro fragments_of_done) simp_all
    then show ?thesis using step True buf by (intro exI [of _ 0]) (simp add: min_def)
  next
    case False
    have "\<exists>k. feed ?r (map wire_fragment (fragments_of ?f)) = Some (?r\<lparr>re_buf := fg_bytes ?f\<rparr>, replicate k False @ [True])"
      by (rule less.hyps) (use less.prems False buf in \<open>auto simp: min_def\<close>)
    then obtain k where "feed ?r (map wire_fragment (fragments_of ?f)) = Some (?r\<lparr>re_buf := fg_bytes ?f\<rparr>, replicate k False @ [True])"
      by blast
    then show ?thesis using step False by (intro exI [of _ "Suc k"]) (simp add: min_def)
  qed
qed

lemma unat_u32_saturating: "n < 2 ^ 32 \<Longrightarrow> unat (u32_saturating n) = n"
  by (simp add: u32_saturating_def unat_of_nat)

lemma feed_single:
  assumes "\<not> more_fragments fl" and "pl \<noteq> []" and "length pl \<le> unat m"
  shows "feed (re_with_max_total_length m) [wire_fragment (fl, None, pl)] =
    Some ((re_with_max_total_length m)\<lparr>re_buf := pl, single_fragment_complete := True\<rparr>, [True])"
proof -
  obtain f' where f': "frame_parse (fst (frame_encode [] fl None pl)) = Ok \<lparr>frame_flags = f', total_length = None, payload = pl\<rparr>"
    "\<not> length_included f'" "\<not> more_fragments f'" using frame_parse_encode [of fl None pl] assms(1) by auto
  then show ?thesis
    using assms by (simp add: wire_fragment_def push_def push_header_def push_fits_def is_complete_def
        re_with_max_total_length_def Let_def)
qed

lemma feed_first:
  assumes "tot \<le> m" and "length pl < unat tot"
  shows "feed (re_with_max_total_length m) (wire_fragment (fl, Some tot, pl) # ws) =
    map_option (\<lambda>(r, bs). (r, False # bs)) (feed ((re_with_max_total_length m)\<lparr>re_expected := Some tot, re_buf := pl\<rparr>) ws)"
proof -
  obtain f' where f': "frame_parse (fst (frame_encode [] fl (Some tot) pl)) = Ok \<lparr>frame_flags = f', total_length = Some tot, payload = pl\<rparr>"
    "length_included f'" using frame_parse_encode [of fl "Some tot" pl] by auto
  then show ?thesis
    using assms(2) leD [OF assms(1)] by (auto simp: wire_fragment_def push_def push_header_def push_fits_def is_complete_def
        re_with_max_total_length_def Let_def not_less)
qed

lemma fragments_of_first:
  assumes "fragmenter_new bs mtu extra = Some f" and "bs \<noteq> []" and "\<not> bit extra 6"
  shows "if length bs \<le> mtu then \<exists>fl. fragments_of f = [(fl, None, bs)] \<and> \<not> more_fragments fl
    else \<exists>fl. fragments_of f = (fl, Some (u32_saturating (length bs)), take mtu bs)
           # fragments_of (f\<lparr>fg_offset := mtu, emitted_first := True\<rparr>)"
proof -
  have f: "f = \<lparr>fg_bytes = bs, fg_offset = 0, frame_mtu = mtu, extra_flags = extra, emitted_first = False\<rparr>" "0 < mtu"
    using assms(1) by (auto simp: fragmenter_new_def split: if_splits)
  have "\<not> more_fragments (Flags extra)" using assms(3) by (simp add: flag_bits)
  then show ?thesis
    using f fragments_of_done [of "f\<lparr>fg_offset := length bs, emitted_first := True\<rparr>"]
    by (subst fragments_of.simps; subst (2) fragments_of.simps) (auto simp: fragmenter_next_def Let_def min_def)
qed

lemma fragments_reassembled:
  assumes "fragmenter_new bs mtu extra = Some f" and "bs \<noteq> []" and "length bs \<le> unat m" and "\<not> bit extra 6"
  shows "\<exists>r k. feed (re_with_max_total_length m) (map wire_fragment (fragments_of f)) = Some (r, replicate k False @ [True])
    \<and> re_take r = (re_with_max_total_length m, bs)"
proof (cases "length bs \<le> mtu")
  case True
  then obtain fl where fl: "fragments_of f = [(fl, None, bs)]" "\<not> more_fragments fl"
    using fragments_of_first [OF assms(1,2,4)] by auto
  have "feed (re_with_max_total_length m) (map wire_fragment (fragments_of f)) =
      Some ((re_with_max_total_length m)\<lparr>re_buf := bs, single_fragment_complete := True\<rparr>, replicate 0 False @ [True])"
    using feed_single [OF fl(2) assms(2,3)] by (simp add: fl(1))
  then show ?thesis by (intro exI) (erule conjI, simp add: re_take_def re_with_max_total_length_def)
next
  case False
  let ?t = "u32_saturating (length bs)" and ?f = "f\<lparr>fg_offset := mtu, emitted_first := True\<rparr>"
  let ?r = "(re_with_max_total_length m)\<lparr>re_expected := Some ?t, re_buf := take mtu bs\<rparr>"
  obtain fl where fl: "fragments_of f = (fl, Some ?t, take mtu bs) # fragments_of ?f"
    using fragments_of_first [OF assms(1,2,4)] False by auto
  have f: "fg_bytes f = bs" "frame_mtu f = mtu" "0 < mtu"
    using assms(1) by (auto simp: fragmenter_new_def split: if_splits)
  have "unat m < 2 ^ 32" using unsigned_less [of m, where ?'a = nat] by simp
  then have t: "unat ?t = length bs" using unat_u32_saturating [of "length bs"] assms(3) by simp
  then have le: "?t \<le> m" using assms(3) by (simp add: word_le_nat_alt)
  obtain k where k: "feed ?r (map wire_fragment (fragments_of ?f)) = Some (?r\<lparr>re_buf := fg_bytes ?f\<rparr>, replicate k False @ [True])"
    using feed_rest [of ?f ?r ?t] f False t by auto
  have "feed (re_with_max_total_length m) (map wire_fragment (fragments_of f)) =
      Some (?r\<lparr>re_buf := bs\<rparr>, replicate (Suc k) False @ [True])"
    using feed_first [OF le, of "take mtu bs" fl "map wire_fragment (fragments_of ?f)"] k t False f(1) by (simp add: fl)
  then show ?thesis by (intro exI) (erule conjI, simp add: re_take_def re_with_max_total_length_def)
qed

text \<open>
  C26: fragmentation is lossless: for every non-empty message that fits the reassembler's maximum,
  every positive fragment size and every set of extra flags that does not use the M bit, the
  fragments, encoded to bytes, parsed and pushed in order, are all accepted, the reassembler
  reports completion exactly at the last one, and taking the result yields the message.
\<close>

theorem fragment_reassemble:
  assumes "fragmenter_new bs mtu extra = Some f" and "bs \<noteq> []" and "length bs \<le> unat m" and "\<not> bit extra 6"
  shows "\<exists>r k. feed (re_with_max_total_length m) (map wire_fragment (fragments_of f)) = Some (r, replicate k False @ [True])
    \<and> re_take r = (re_with_max_total_length m, bs)"
  using assms by (rule fragments_reassembled)

theorem fragment_reassemble_witness:
  "\<exists>r k. feed (re_with_max_total_length 65536) (map wire_fragment (fragments_of
       \<lparr>fg_bytes = [1, 2, 3, 4, 5], fg_offset = 0, frame_mtu = 2, extra_flags = 0x20, emitted_first = False\<rparr>))
     = Some (r, replicate k False @ [True])
    \<and> re_take r = (re_with_max_total_length 65536, [1, 2, 3, 4, 5])"
  by (rule fragment_reassemble [where mtu = 2 and extra = "0x20"]) (simp_all add: fragmenter_new_def)

section \<open>The buffer is bounded\<close>

text \<open>
  The state between pushes when the owner takes every completed message: outside a message the buffer is
  empty, inside one it holds no more than the announced total, which is within the maximum.
\<close>

definition re_inv :: "reassembler \<Rightarrow> bool" where
  "re_inv r \<longleftrightarrow>
     (case re_expected r of
        Some n \<Rightarrow> n \<le> max_total_length r \<and> length (re_buf r) \<le> unat n
      | None \<Rightarrow> re_buf r = [])"

text \<open>
  An owner that is given any byte strings: it skips what is not a frame, goes on after a refused one, and
  takes each message as soon as it is complete. \<open>None\<close> is a panic.
\<close>

fun owner_run :: "reassembler \<Rightarrow> bytes list \<Rightarrow> (reassembler \<times> bytes list) option" where
  "owner_run r [] = Some (r, [])"
| "owner_run r (d # ds) =
     (case frame_parse d of
        Err _ \<Rightarrow> owner_run r ds
      | Ok fr \<Rightarrow>
          (case push r fr of
             None \<Rightarrow> None
           | Some (r', Ok True) \<Rightarrow> map_option (apsnd (Cons (snd (re_take r')))) (owner_run (fst (re_take r')) ds)
           | Some (r', _) \<Rightarrow> owner_run r' ds))"

text \<open>
  When a frame is refused: inside a message, if it announces a total again or its payload exceeds what is
  left; outside one, if its payload exceeds the total it announces or that total the maximum, and without
  a total, if more fragments are to follow or its payload exceeds the maximum.
\<close>

definition refused :: "reassembler \<Rightarrow> frame \<Rightarrow> bool" where
  "refused r fr \<longleftrightarrow>
     (case (re_expected r, total_length fr) of
        (Some n, Some _) \<Rightarrow> True
      | (Some n, None) \<Rightarrow> unat n < length (re_buf r) + length (payload fr)
      | (None, Some tot) \<Rightarrow> max_total_length r < tot \<or> unat tot < length (payload fr)
      | (None, None) \<Rightarrow> more_fragments (frame_flags fr) \<or> unat (max_total_length r) < length (payload fr))"

lemma frame_parse_total: "frame_parse d = Ok fr \<Longrightarrow> length_included (frame_flags fr) \<longleftrightarrow> total_length fr \<noteq> None"
  by (auto simp: frame_parse_def split: list.splits if_splits)

lemma push_inv:
  assumes "re_inv r" and "frame_parse d = Ok fr"
  obtains r' res where "push r fr = Some (r', res)" "max_total_length r' = max_total_length r"
    "length (re_buf r') \<le> unat (max_total_length r)"
    "is_ok res \<longleftrightarrow> \<not> refused r fr" "re_buf r' = (if refused r fr then re_buf r else re_buf r @ payload fr)"
    "\<And>b. res = Ok b \<Longrightarrow> b \<longleftrightarrow> is_complete r'" "res \<noteq> Ok True \<Longrightarrow> re_inv r'"
proof -
  note fr = frame_parse_total [OF assms(2)]
  have "\<exists>r' res. push r fr = Some (r', res) \<and> max_total_length r' = max_total_length r
    \<and> length (re_buf r') \<le> unat (max_total_length r)
    \<and> (is_ok res \<longleftrightarrow> \<not> refused r fr) \<and> re_buf r' = (if refused r fr then re_buf r else re_buf r @ payload fr)
    \<and> (\<forall>b. res = Ok b \<longrightarrow> (b \<longleftrightarrow> is_complete r')) \<and> (res \<noteq> Ok True \<longrightarrow> re_inv r')"
  proof (cases "re_expected r")
    case None
    then show ?thesis
      using assms(1) fr
      by (auto simp: re_inv_def refused_def push_def push_header_def push_fits_def Let_def is_complete_def
          word_le_nat_alt word_less_nat_alt not_less not_le split: option.splits if_splits)
  next
    case (Some n)
    then have "n \<le> max_total_length r" "length (re_buf r) \<le> unat n"
      using assms(1) by (simp_all add: re_inv_def)
    then show ?thesis
      using Some fr
      by (auto simp: re_inv_def refused_def push_def push_header_def push_fits_def Let_def is_complete_def
          word_le_nat_alt not_less not_le split: option.splits if_splits)
  qed
  then show ?thesis using that by blast
qed

lemma re_inv_take: "re_inv (fst (re_take r))" "max_total_length (fst (re_take r)) = max_total_length r" "snd (re_take r) = re_buf r"
  by (simp_all add: re_inv_def re_take_def re_reset_def)

lemma re_inv_new: "re_inv (re_with_max_total_length mx)"
  by (simp add: re_inv_def re_with_max_total_length_def)

lemma re_inv_bound: "re_inv r \<Longrightarrow> length (re_buf r) \<le> unat (max_total_length r)"
  by (auto simp: re_inv_def word_le_nat_alt split: option.splits)

lemma owner_run_inv:
  "re_inv r \<Longrightarrow> \<exists>r' msgs. owner_run r ds = Some (r', msgs) \<and> re_inv r' \<and> max_total_length r' = max_total_length r
     \<and> list_all (\<lambda>m. length m \<le> unat (max_total_length r)) msgs"
proof (induction ds arbitrary: r)
  case (Cons d ds)
  show ?case
  proof (cases "frame_parse d")
    case (Err e)
    then show ?thesis using Cons by simp
  next
    case (Ok fr)
    obtain r' res where p: "push r fr = Some (r', res)" "max_total_length r' = max_total_length r"
      "length (re_buf r') \<le> unat (max_total_length r)" "res \<noteq> Ok True \<Longrightarrow> re_inv r'"
      using push_inv [OF Cons.prems Ok] by metis
    show ?thesis
    proof (cases "res = Ok True")
      case True
      then show ?thesis using Cons.IH [OF re_inv_take(1), of r'] Ok p by (auto simp: re_inv_take)
    next
      case False
      then have "owner_run r (d # ds) = owner_run r' ds" using Ok p(1) by (cases res) auto
      then show ?thesis using Cons.IH [OF p(4) [OF False]] p(2) by simp
    qed
  qed
qed simp

text \<open>
  C36: the reassembler is bounded and refuses exactly what it must. Whatever byte strings it was given, with
  each completed message taken at once, it has not panicked, its buffer and every message that came out are
  within the configured maximum, and this is how it treats the next frame: the frame is refused just
  when \<open>refused\<close> says so, with the buffer unchanged; otherwise the payload is appended, still within the
  maximum, and the call reports whether the message is complete.
\<close>

theorem reassembler_bounded:
  "\<exists>r msgs. owner_run (re_with_max_total_length mx) ds = Some (r, msgs)
    \<and> length (re_buf r) \<le> unat mx \<and> list_all (\<lambda>m. length m \<le> unat mx) msgs
    \<and> (\<forall>d fr. frame_parse d = Ok fr \<longrightarrow>
         (\<exists>r' res. push r fr = Some (r', res)
            \<and> (case res of
                 Err e \<Rightarrow> refused r fr \<and> re_buf r' = re_buf r
               | Ok b \<Rightarrow> \<not> refused r fr \<and> re_buf r' = re_buf r @ payload fr \<and> length (re_buf r') \<le> unat mx
                   \<and> (b \<longleftrightarrow> is_complete r'))))"
proof -
  have mx: "max_total_length (re_with_max_total_length mx) = mx" by (simp add: re_with_max_total_length_def)
  obtain r msgs where r: "owner_run (re_with_max_total_length mx) ds = Some (r, msgs)" "re_inv r" "max_total_length r = mx"
    "list_all (\<lambda>m. length m \<le> unat mx) msgs"
    using owner_run_inv [OF re_inv_new, of mx ds] unfolding mx by blast
  have "\<exists>r' res. push r fr = Some (r', res)
      \<and> (case res of
           Err e \<Rightarrow> refused r fr \<and> re_buf r' = re_buf r
         | Ok b \<Rightarrow> \<not> refused r fr \<and> re_buf r' = re_buf r @ payload fr \<and> length (re_buf r') \<le> unat mx \<and> (b \<longleftrightarrow> is_complete r'))"
    if f: "frame_parse d = Ok fr" for d fr
  proof -
    obtain r' res where p: "push r fr = Some (r', res)" "length (re_buf r') \<le> unat (max_total_length r)"
      "is_ok res \<longleftrightarrow> \<not> refused r fr" "re_buf r' = (if refused r fr then re_buf r else re_buf r @ payload fr)"
      "\<And>b. res = Ok b \<Longrightarrow> b \<longleftrightarrow> is_complete r'"
      using push_inv [OF r(2) f] by metis
    show ?thesis using p r(3) by (cases res) auto
  qed
  then show ?thesis using r re_inv_bound [OF r(2)] by blast
qed

theorem reassembler_bounded_witness:
  "\<exists>r msgs fr r' res. owner_run re_new [[0], [0x40, 1], [0, 7]] = Some (r, msgs) \<and> list_all (\<lambda>m. length m \<le> 65536) msgs
    \<and> frame_parse [0x80, 0, 0, 0, 5, 7, 8] = Ok fr \<and> push r fr = Some (r', res)"
proof -
  obtain fr where f: "frame_parse [0x80, 0, 0, 0, 5, 7, 8] = Ok fr"
    by (cases "length_included (Flags 0x80)") (simp_all add: frame_parse_def)
  then show ?thesis
    using reassembler_bounded [of DEFAULT_MAX_TOTAL_LENGTH "[[0], [0x40, 1], [0, 7]]"] unfolding re_new_def by fastforce
qed

end
