(* ===== verification/Tls.thy ===== *)
theory Tls
  imports Tls_Names Eap_Framing "HOL-Library.While_Combinator"
begin

text \<open>
  \<open>TlsConnection\<close> of \<^verbatim>\<open>src/crypto/tls.rs\<close> over aws-lc's libssl. The library is a record of functions on the
  state of an \<open>SSL\<close> object with its two memory BIOs; each definition takes it as an argument. C integers
  are \<open>int\<close>, the results of \<open>SSL_get_error\<close> a datatype, and the thread's error queue is read from the
  state. \<open>toy_ssl\<close> is an instance for the witnesses.
\<close>

section \<open>The library\<close>

datatype ssl_error =
    SSL_ERROR_NONE
  | SSL_ERROR_WANT_READ
  | SSL_ERROR_WANT_WRITE
  | SSL_ERROR_ZERO_RETURN
  | SSL_ERROR_OTHER

record ('ctx, 'ssl) libssl =
  SSL_new :: "'ctx \<Rightarrow> 'ssl option"
  BIO_new :: "'ctx \<Rightarrow> bool \<times> bool"
  SSL_set_tlsext_host_name :: "'ssl \<Rightarrow> bytes \<Rightarrow> 'ssl \<times> int"
  SSL_accept :: "'ssl \<Rightarrow> 'ssl \<times> int"
  SSL_connect :: "'ssl \<Rightarrow> 'ssl \<times> int"
  SSL_get_error :: "'ssl \<Rightarrow> int \<Rightarrow> ssl_error"
  SSL_read :: "'ssl \<Rightarrow> nat \<Rightarrow> 'ssl \<times> int \<times> bytes"
  SSL_write :: "'ssl \<Rightarrow> bytes \<Rightarrow> 'ssl \<times> int"
  BIO_write :: "'ssl \<Rightarrow> bytes \<Rightarrow> 'ssl \<times> int"
  BIO_read :: "'ssl \<Rightarrow> nat \<Rightarrow> 'ssl \<times> int \<times> bytes"
  BIO_mem_contents :: "'ssl \<Rightarrow> int \<times> bytes option"
  BIO_reset :: "'ssl \<Rightarrow> 'ssl \<times> int"
  SSL_pending :: "'ssl \<Rightarrow> int"
  SSL_received_shutdown :: "'ssl \<Rightarrow> bool"
  SSL_get_peer_certificate :: "'ssl \<Rightarrow> peer_certificate option"
  SSL_export_keying_material :: "'ssl \<Rightarrow> nat \<Rightarrow> bytes \<Rightarrow> bytes option \<Rightarrow> int \<times> bytes"
  SSL_shutdown :: "'ssl \<Rightarrow> 'ssl \<times> int"
  SSL_version :: "'ssl \<Rightarrow> int"
  TLS1_3_VERSION :: int
  SSL_key_update_queued :: "'ssl \<Rightarrow> bool"
  SSL_key_update :: "'ssl \<Rightarrow> 'ssl \<times> int"
  ERR_messages :: "'ssl \<Rightarrow> string list"

text \<open>A length passed as \<open>c_int::try_from(len).unwrap_or(c_int::MAX)\<close>.\<close>

definition c_int_len :: "nat \<Rightarrow> nat" where
  "c_int_len n = min n (2 ^ 31 - 1)"

section \<open>Errors\<close>

datatype tls_error =
    TlsInit string
  | TlsPem string
  | TlsKeyMismatch
  | TlsHandshake string
  | TlsIo string
  | TlsSsl string

fun tls_error_string :: "tls_error \<Rightarrow> string" where
  "tls_error_string (TlsInit what) = ''tls init failed: '' @ what"
| "tls_error_string (TlsPem what) = ''tls pem parse failed: '' @ what"
| "tls_error_string TlsKeyMismatch = ''tls cert/key mismatch''"
| "tls_error_string (TlsHandshake msg) = ''tls handshake failed: '' @ msg"
| "tls_error_string (TlsIo msg) = ''tls io failed: '' @ msg"
| "tls_error_string (TlsSsl msg) = ''tls error: '' @ msg"

fun join :: "string \<Rightarrow> string list \<Rightarrow> string" where
  "join sep [] = []"
| "join sep [x] = x"
| "join sep (x # xs) = x @ sep @ join sep xs"

definition pop_err :: "string \<Rightarrow> string list \<Rightarrow> string" where
  "pop_err prefix messages =
     (if messages = [] then prefix @ '': (no libssl error in queue)''
      else prefix @ '': '' @ join ''; '' messages)"

section \<open>Contexts and connections\<close>

record 'ctx tls_context =
  ctx_inner :: 'ctx
  ctx_is_client :: bool
  ctx_requires_client_certificate :: bool

record ('ctx, 'ssl) tls_connection =
  conn_ssl :: 'ssl
  conn_handshake_done :: bool
  conn_expected_server_name :: "bytes option"
  conn_context :: "'ctx tls_context"

datatype handshake_state = NeedsRead | NeedsWrite | Established

definition tls_new :: "('ctx, 'ssl) libssl \<Rightarrow> 'ctx tls_context \<Rightarrow> (tls_error, ('ctx, 'ssl) tls_connection) result" where
  "tls_new L ctx =
     (case SSL_new L (ctx_inner ctx) of
        None \<Rightarrow> Err (TlsInit ''SSL_new'')
      | Some ssl \<Rightarrow>
          (case BIO_new L (ctx_inner ctx) of
             (rbio, wbio) \<Rightarrow>
               if \<not> rbio then Err (TlsInit ''BIO_new(rbio)'')
               else if \<not> wbio then Err (TlsInit ''BIO_new(wbio)'')
               else Ok \<lparr>conn_ssl = ssl, conn_handshake_done = False, conn_expected_server_name = None, conn_context = ctx\<rparr>))"

definition tls_accept :: "('ctx, 'ssl) libssl \<Rightarrow> 'ctx tls_context \<Rightarrow> (tls_error, ('ctx, 'ssl) tls_connection) result" where
  "tls_accept L ctx = (if ctx_is_client ctx then Err (TlsInit ''server context required'') else tls_new L ctx)"

definition tls_connect ::
    "('ctx, 'ssl) libssl \<Rightarrow> 'ctx tls_context \<Rightarrow> bytes \<Rightarrow> (tls_error, ('ctx, 'ssl) tls_connection) result" where
  "tls_connect L ctx expected_name =
     (if \<not> ctx_is_client ctx then Err (TlsInit ''client context required'')
      else if expected_name = [] then Err (TlsInit ''server identity required'')
      else if 0 \<in> set expected_name then Err (TlsInit ''invalid server identity'')
      else
        (case tls_new L ctx of
           Err e \<Rightarrow> Err e
         | Ok c \<Rightarrow>
             if parse_ip_addr expected_name = None then
               (case SSL_set_tlsext_host_name L (conn_ssl c) expected_name of
                  (ssl, r) \<Rightarrow>
                    if r \<noteq> 1 then Err (TlsSsl (pop_err ''SSL_set_tlsext_host_name'' (ERR_messages L ssl)))
                    else Ok (c\<lparr>conn_ssl := ssl, conn_expected_server_name := Some expected_name\<rparr>))
             else Ok (c\<lparr>conn_expected_server_name := Some expected_name\<rparr>)))"

definition received_close_notify :: "('ctx, 'ssl) libssl \<Rightarrow> ('ctx, 'ssl) tls_connection \<Rightarrow> bool" where
  "received_close_notify L c = SSL_received_shutdown L (conn_ssl c)"

type_synonym ('ctx, 'ssl, 'a) tls_call = "('ctx, 'ssl) tls_connection \<times> (tls_error, 'a) result"

definition feed_input :: "('ctx, 'ssl) libssl \<Rightarrow> bytes \<Rightarrow> ('ctx, 'ssl) tls_connection \<Rightarrow> ('ctx, 'ssl, nat) tls_call" where
  "feed_input L bs c =
     (if bs = [] then (c, Ok 0)
      else case BIO_write L (conn_ssl c) (take (c_int_len (length bs)) bs) of
        (ssl, n) \<Rightarrow>
          (c\<lparr>conn_ssl := ssl\<rparr>,
           if n < 0 then Err (TlsIo (pop_err ''BIO_write(rbio)'' (ERR_messages L ssl))) else Ok (nat n)))"

text \<open>The bytes written to the caller's buffer of the given size.\<close>

definition take_output :: "('ctx, 'ssl) libssl \<Rightarrow> nat \<Rightarrow> ('ctx, 'ssl) tls_connection \<Rightarrow> ('ctx, 'ssl, bytes) tls_call" where
  "take_output L len c =
     (if len = 0 then (c, Ok [])
      else case BIO_read L (conn_ssl c) (c_int_len len) of
        (ssl, n, d) \<Rightarrow> (c\<lparr>conn_ssl := ssl\<rparr>, if n < 0 then Ok [] else Ok (take (nat n) d)))"

definition pending_output :: "('ctx, 'ssl) libssl \<Rightarrow> ('ctx, 'ssl) tls_connection \<Rightarrow> bytes" where
  "pending_output L c =
     (case BIO_mem_contents L (conn_ssl c) of
        (r, contents) \<Rightarrow> if r \<noteq> 1 then [] else (case contents of None \<Rightarrow> [] | Some bs \<Rightarrow> bs))"

definition consume_output :: "('ctx, 'ssl) libssl \<Rightarrow> ('ctx, 'ssl) tls_connection \<Rightarrow> ('ctx, 'ssl, unit) tls_call" where
  "consume_output L c =
     (case BIO_reset L (conn_ssl c) of
        (ssl, r) \<Rightarrow>
          (c\<lparr>conn_ssl := ssl\<rparr>,
           if r \<noteq> 1 then Err (TlsIo (pop_err ''BIO_reset(wbio)'' (ERR_messages L ssl))) else Ok ()))"

definition conn_peer_certificate :: "('ctx, 'ssl) libssl \<Rightarrow> ('ctx, 'ssl) tls_connection \<Rightarrow> peer_certificate option" where
  "conn_peer_certificate L c =
     (if \<not> conn_handshake_done c then None else SSL_get_peer_certificate L (conn_ssl c))"

definition tls_process :: "('ctx, 'ssl) libssl \<Rightarrow> ('ctx, 'ssl) tls_connection \<Rightarrow> ('ctx, 'ssl, handshake_state) tls_call" where
  "tls_process L c =
     (if conn_handshake_done c then (c, Ok Established)
      else
        let (ssl, r) = (if ctx_is_client (conn_context c) then SSL_connect L (conn_ssl c) else SSL_accept L (conn_ssl c));
            c = c\<lparr>conn_ssl := ssl\<rparr>
        in if r = 1 then
             let c = c\<lparr>conn_handshake_done := True\<rparr>
             in (case conn_expected_server_name c of
                   None \<Rightarrow> (c, Ok Established)
                 | Some expected \<Rightarrow>
                     if \<not> (case conn_peer_certificate L c of None \<Rightarrow> False | Some peer \<Rightarrow> matches_hostname peer expected False)
                     then (c\<lparr>conn_handshake_done := False\<rparr>, Err (TlsHandshake ''server certificate identity mismatch''))
                     else (c, Ok Established))
           else
             (c, case SSL_get_error L ssl r of
                   SSL_ERROR_WANT_READ \<Rightarrow> Ok NeedsRead
                 | SSL_ERROR_WANT_WRITE \<Rightarrow> Ok NeedsWrite
                 | _ \<Rightarrow> Err (TlsHandshake (pop_err ''TLS handshake'' (ERR_messages L ssl)))))"

definition is_handshaking :: "('ctx, 'ssl) tls_connection \<Rightarrow> bool" where
  "is_handshaking c \<longleftrightarrow> \<not> conn_handshake_done c"

definition tls_read :: "('ctx, 'ssl) libssl \<Rightarrow> nat \<Rightarrow> ('ctx, 'ssl) tls_connection \<Rightarrow> ('ctx, 'ssl, bytes) tls_call" where
  "tls_read L len c =
     (if len = 0 then (c, Ok [])
      else if \<not> conn_handshake_done c then (c, Ok [])
      else case SSL_read L (conn_ssl c) (c_int_len len) of
        (ssl, n, d) \<Rightarrow>
          (c\<lparr>conn_ssl := ssl\<rparr>,
           if n > 0 then Ok (take (nat n) d)
           else case SSL_get_error L ssl n of
             SSL_ERROR_WANT_READ \<Rightarrow> Ok []
           | SSL_ERROR_WANT_WRITE \<Rightarrow> Ok []
           | SSL_ERROR_ZERO_RETURN \<Rightarrow> Ok []
           | SSL_ERROR_NONE \<Rightarrow> Ok []
           | _ \<Rightarrow> Err (TlsIo (pop_err ''SSL_read'' (ERR_messages L ssl)))))"

definition tls_write :: "('ctx, 'ssl) libssl \<Rightarrow> bytes \<Rightarrow> ('ctx, 'ssl) tls_connection \<Rightarrow> ('ctx, 'ssl, nat) tls_call" where
  "tls_write L bs c =
     (if bs = [] then (c, Ok 0)
      else if \<not> conn_handshake_done c then (c, Ok 0)
      else case SSL_write L (conn_ssl c) (take (c_int_len (length bs)) bs) of
        (ssl, n) \<Rightarrow>
          (c\<lparr>conn_ssl := ssl\<rparr>,
           if n > 0 then Ok (nat n)
           else case SSL_get_error L ssl n of
             SSL_ERROR_WANT_READ \<Rightarrow> Ok 0
           | SSL_ERROR_WANT_WRITE \<Rightarrow> Ok 0
           | _ \<Rightarrow> Err (TlsIo (pop_err ''SSL_write'' (ERR_messages L ssl)))))"

definition has_plaintext_pending :: "('ctx, 'ssl) libssl \<Rightarrow> ('ctx, 'ssl) tls_connection \<Rightarrow> bool" where
  "has_plaintext_pending L c \<longleftrightarrow> SSL_pending L (conn_ssl c) > 0"

definition conn_export_keying_material ::
    "('ctx, 'ssl) libssl \<Rightarrow> bytes \<Rightarrow> bytes option \<Rightarrow> nat \<Rightarrow> ('ctx, 'ssl) tls_connection \<Rightarrow> (tls_error, bytes) result" where
  "conn_export_keying_material L label context len c =
     (if \<not> conn_handshake_done c
      then Err (TlsHandshake ''export_keying_material called before handshake completion'')
      else case SSL_export_keying_material L (conn_ssl c) len label context of
        (r, out) \<Rightarrow>
          if r = 1 then Ok out
          else Err (TlsSsl (pop_err ''SSL_export_keying_material'' (ERR_messages L (conn_ssl c)))))"

definition tls_shutdown :: "('ctx, 'ssl) libssl \<Rightarrow> ('ctx, 'ssl) tls_connection \<Rightarrow> ('ctx, 'ssl) tls_connection \<times> bool" where
  "tls_shutdown L c =
     (case SSL_shutdown L (conn_ssl c) of
        (ssl, r) \<Rightarrow>
          (c\<lparr>conn_ssl := ssl\<rparr>,
           if r \<ge> 0 then True
           else SSL_get_error L ssl r = SSL_ERROR_WANT_READ \<or> SSL_get_error L ssl r = SSL_ERROR_WANT_WRITE))"

definition is_tls13 :: "('ctx, 'ssl) libssl \<Rightarrow> ('ctx, 'ssl) tls_connection \<Rightarrow> bool" where
  "is_tls13 L c \<longleftrightarrow> SSL_version L (conn_ssl c) \<ge> TLS1_3_VERSION L"

definition request_key_update :: "('ctx, 'ssl) libssl \<Rightarrow> ('ctx, 'ssl) tls_connection \<Rightarrow> ('ctx, 'ssl, bool) tls_call" where
  "request_key_update L c =
     (if SSL_version L (conn_ssl c) < TLS1_3_VERSION L then (c, Ok False)
      else if SSL_key_update_queued L (conn_ssl c) then (c, Ok False)
      else case SSL_key_update L (conn_ssl c) of
        (ssl, r) \<Rightarrow>
          (c\<lparr>conn_ssl := ssl\<rparr>,
           if r \<noteq> 1 then Err (TlsSsl (pop_err ''SSL_key_update'' (ERR_messages L ssl))) else Ok True))"

section \<open>Runs of a connection\<close>

datatype tls_op =
    OpFeed bytes
  | OpTakeOutput nat
  | OpConsume
  | OpProcess
  | OpRead nat
  | OpWrite bytes
  | OpShutdown
  | OpKeyUpdate

fun tls_apply :: "('ctx, 'ssl) libssl \<Rightarrow> tls_op \<Rightarrow> ('ctx, 'ssl) tls_connection \<Rightarrow> ('ctx, 'ssl) tls_connection" where
  "tls_apply L (OpFeed bs) c = fst (feed_input L bs c)"
| "tls_apply L (OpTakeOutput n) c = fst (take_output L n c)"
| "tls_apply L OpConsume c = fst (consume_output L c)"
| "tls_apply L OpProcess c = fst (tls_process L c)"
| "tls_apply L (OpRead n) c = fst (tls_read L n c)"
| "tls_apply L (OpWrite bs) c = fst (tls_write L bs c)"
| "tls_apply L OpShutdown c = fst (tls_shutdown L c)"
| "tls_apply L OpKeyUpdate c = fst (request_key_update L c)"

inductive tls_reaches :: "('ctx, 'ssl) libssl \<Rightarrow> ('ctx, 'ssl) tls_connection \<Rightarrow> ('ctx, 'ssl) tls_connection \<Rightarrow> bool"
  for L c0 where
  reach_start: "tls_reaches L c0 c0"
| reach_op: "tls_reaches L c0 c \<Longrightarrow> tls_reaches L c0 (tls_apply L opn c)"

text \<open>Only \<open>process\<close> ends the handshake; no operation changes the expected name or the context.\<close>

lemma tls_apply_fields:
  "conn_expected_server_name (tls_apply L opn c) = conn_expected_server_name c"
  "conn_context (tls_apply L opn c) = conn_context c"
  "opn \<noteq> OpProcess \<Longrightarrow> conn_handshake_done (tls_apply L opn c) = conn_handshake_done c"
  by (cases opn; auto simp: feed_input_def take_output_def consume_output_def tls_process_def tls_read_def tls_write_def
      tls_shutdown_def request_key_update_def Let_def split: prod.splits option.splits)+

lemma tls_process_done:
  assumes "\<not> conn_handshake_done c" and "conn_handshake_done (fst (tls_process L c))"
  shows "snd (tls_process L c) = Ok Established"
    and "conn_expected_server_name c = Some name \<Longrightarrow>
      \<exists>peer. conn_peer_certificate L (fst (tls_process L c)) = Some peer \<and> matches_hostname peer name False"
  using assms by (auto simp: tls_process_def Let_def split: prod.splits option.splits if_splits)

lemma tls_connect_new:
  "tls_connect L ctx name = Ok c \<Longrightarrow> \<not> conn_handshake_done c \<and> conn_expected_server_name c = Some name"
  by (auto simp: tls_connect_def tls_new_def split: if_splits option.splits prod.splits result.splits)

definition server_identified :: "('ctx, 'ssl) libssl \<Rightarrow> ('ctx, 'ssl) tls_connection \<Rightarrow> bytes \<Rightarrow> ('ctx, 'ssl) tls_connection \<Rightarrow> bool" where
  "server_identified L c0 name c \<longleftrightarrow>
     (\<exists>c1 peer. tls_reaches L c0 c1 \<and> tls_process L c1 = (tls_apply L OpProcess c1, Ok Established)
        \<and> conn_peer_certificate L (tls_apply L OpProcess c1) = Some peer \<and> matches_hostname peer name False)"

lemma tls_reaches_identified:
  assumes "tls_reaches L c0 c" and "\<not> conn_handshake_done c0" and "conn_expected_server_name c0 = Some name"
  shows "conn_expected_server_name c = Some name \<and> (conn_handshake_done c \<longrightarrow> server_identified L c0 name c)"
  using assms
proof (induction rule: tls_reaches.induct)
  case (reach_op c opn)
  then have name: "conn_expected_server_name c = Some name" by simp
  have "server_identified L c0 name (tls_apply L opn c)" if d: "conn_handshake_done (tls_apply L opn c)"
  proof (cases "conn_handshake_done c")
    case True
    then show ?thesis using reach_op by (simp add: server_identified_def)
  next
    case False
    then have [simp]: "opn = OpProcess" using d tls_apply_fields(3) by metis
    obtain c' r where p: "tls_process L c = (c', r)" by (cases "tls_process L c")
    then show ?thesis
      using tls_process_done [of c L] False d name reach_op(1) unfolding server_identified_def by auto
  qed
  then show ?case using name tls_apply_fields(1) [of L opn c] by simp
qed auto

text \<open>
  A client exchanges data only with the server it named. Take a connection from \<open>connect\<close> with a
  server name, and any sequence of operations on it. As long as no call of \<open>process\<close> has reported
  \<open>Established\<close> with a peer certificate that matches the name, \<open>read\<close> returns nothing, \<open>write\<close> accepts
  nothing, and no keys are exported; libssl is not even asked.
\<close>

theorem tls_client_identity:
  assumes "tls_connect L ctx name = Ok c0" and "tls_reaches L c0 c"
    and "\<not> (\<exists>c1 peer. tls_reaches L c0 c1 \<and> tls_process L c1 = (tls_apply L OpProcess c1, Ok Established)
        \<and> conn_peer_certificate L (tls_apply L OpProcess c1) = Some peer \<and> matches_hostname peer name False)"
  shows "tls_read L n c = (c, Ok []) \<and> tls_write L bs c = (c, Ok 0) \<and> conn_peer_certificate L c = None
    \<and> conn_export_keying_material L label context len c
      = Err (TlsHandshake ''export_keying_material called before handshake completion'')"
proof -
  have "\<not> conn_handshake_done c"
    using tls_reaches_identified [OF assms(2)] tls_connect_new [OF assms(1)] assms(3) unfolding server_identified_def by blast
  then show ?thesis
    by (simp add: tls_read_def tls_write_def conn_peer_certificate_def conn_export_keying_material_def)
qed

section \<open>A library for the witnesses\<close>

text \<open>
  The state is the plaintext still to be read, the output not yet sent, and whether the handshake is
  over; input is delivered as it is, the handshake ends at the first call, and a server's handshake
  takes all input and answers with one byte.
\<close>

record toy_ssl_state =
  toy_in :: bytes
  toy_out :: bytes
  toy_done :: bool
  toy_cert :: "peer_certificate option"

definition toy_ssl :: "(toy_ssl_state, toy_ssl_state) libssl" where
  "toy_ssl =
     \<lparr>SSL_new = Some, BIO_new = (\<lambda>_. (True, True)),
      SSL_set_tlsext_host_name = (\<lambda>s _. (s, 1)),
      SSL_accept = (\<lambda>s. (s\<lparr>toy_in := [], toy_out := toy_out s @ [7], toy_done := True\<rparr>, 1)),
       SSL_connect = (\<lambda>s. (s\<lparr>toy_done := True\<rparr>, 1)),
      SSL_get_error = (\<lambda>_ _. SSL_ERROR_WANT_READ),
      SSL_read = (\<lambda>s n. (s\<lparr>toy_in := drop n (toy_in s)\<rparr>, int (length (take n (toy_in s))), take n (toy_in s))),
      SSL_write = (\<lambda>s bs. (s\<lparr>toy_out := toy_out s @ bs\<rparr>, int (length bs))),
      BIO_write = (\<lambda>s bs. (s\<lparr>toy_in := toy_in s @ bs\<rparr>, int (length bs))),
      BIO_read = (\<lambda>s n. (s\<lparr>toy_out := drop n (toy_out s)\<rparr>, int (length (take n (toy_out s))), take n (toy_out s))),
      BIO_mem_contents = (\<lambda>s. (1, Some (toy_out s))),
      BIO_reset = (\<lambda>s. (s\<lparr>toy_out := []\<rparr>, 1)),
      SSL_pending = (\<lambda>s. int (length (toy_in s))), SSL_received_shutdown = (\<lambda>_. False),
      SSL_get_peer_certificate = toy_cert,
      SSL_export_keying_material = (\<lambda>s n label context. (1, replicate n (of_nat (length label)))),
      SSL_shutdown = (\<lambda>s. (s, 1)), SSL_version = (\<lambda>_. 3), TLS1_3_VERSION = 4,
      SSL_key_update_queued = (\<lambda>_. False), SSL_key_update = (\<lambda>s. (s, 1)), ERR_messages = (\<lambda>_. [])\<rparr>"

definition toy_ssl_new :: toy_ssl_state where
  "toy_ssl_new = \<lparr>toy_in = [], toy_out = [], toy_done = False, toy_cert = None\<rparr>"

lemma toy_ssl_sel [simp]:
  "SSL_new toy_ssl = Some" "BIO_new toy_ssl x = (True, True)" "SSL_set_tlsext_host_name toy_ssl s name = (s, 1)"
  "SSL_accept toy_ssl s = (s\<lparr>toy_in := [], toy_out := toy_out s @ [7], toy_done := True\<rparr>, 1)" "SSL_connect toy_ssl s = (s\<lparr>toy_done := True\<rparr>, 1)"
  "SSL_get_error toy_ssl s r = SSL_ERROR_WANT_READ"
  "SSL_read toy_ssl s n = (s\<lparr>toy_in := drop n (toy_in s)\<rparr>, int (length (take n (toy_in s))), take n (toy_in s))"
  "SSL_write toy_ssl s bs = (s\<lparr>toy_out := toy_out s @ bs\<rparr>, int (length bs))"
  "BIO_write toy_ssl s bs = (s\<lparr>toy_in := toy_in s @ bs\<rparr>, int (length bs))"
  "BIO_read toy_ssl s n = (s\<lparr>toy_out := drop n (toy_out s)\<rparr>, int (length (take n (toy_out s))), take n (toy_out s))"
  "BIO_mem_contents toy_ssl s = (1, Some (toy_out s))" "BIO_reset toy_ssl s = (s\<lparr>toy_out := []\<rparr>, 1)"
  "SSL_received_shutdown toy_ssl s = False" "SSL_get_peer_certificate toy_ssl = toy_cert"
  "SSL_export_keying_material toy_ssl s n label context = (1, replicate n (of_nat (length label)))"
  "SSL_shutdown toy_ssl s = (s, 1)" "SSL_version toy_ssl s = 3" "TLS1_3_VERSION toy_ssl = 4"
  by (simp_all add: toy_ssl_def)

theorem tls_client_identity_witness:
  "\<exists>c0. tls_connect toy_ssl \<lparr>ctx_inner = toy_ssl_new, ctx_is_client = True, ctx_requires_client_certificate = False\<rparr> [120] = Ok c0
     \<and> tls_read toy_ssl 5 (tls_apply toy_ssl OpProcess (tls_apply toy_ssl (OpFeed [1, 2]) c0))
       = (tls_apply toy_ssl OpProcess (tls_apply toy_ssl (OpFeed [1, 2]) c0), Ok [])"
proof -
  let ?ctx = "\<lparr>ctx_inner = toy_ssl_new, ctx_is_client = True, ctx_requires_client_certificate = False\<rparr>"
  define c0 :: "(toy_ssl_state, toy_ssl_state) tls_connection" where
    "c0 = \<lparr>conn_ssl = toy_ssl_new, conn_handshake_done = False, conn_expected_server_name = Some [120], conn_context = ?ctx\<rparr>"
  have "parse_ip_addr [120] = None" by (rule parse_ip_addr_name) (simp_all add: to_digit_def)
  then have c: "tls_connect toy_ssl ?ctx [120] = Ok c0" by (simp add: tls_connect_def tls_new_def c0_def)
  have cert: "toy_cert (conn_ssl c1) = None" if "tls_reaches toy_ssl c0 c1" for c1
    using that
  proof (induction rule: tls_reaches.induct)
    case reach_start
    then show ?case by (simp add: c0_def toy_ssl_new_def)
  next
    case (reach_op c opn)
    then show ?case
      by (cases opn) (auto simp: feed_input_def take_output_def consume_output_def tls_process_def tls_read_def
          tls_write_def tls_shutdown_def request_key_update_def Let_def split: option.splits prod.splits)
  qed
  have none: "conn_peer_certificate toy_ssl (tls_apply toy_ssl OpProcess c1) = None" if "tls_reaches toy_ssl c0 c1" for c1
    using cert [OF reach_op [OF that, of OpProcess]] by (simp add: conn_peer_certificate_def)
  have r: "tls_reaches toy_ssl c0 (tls_apply toy_ssl OpProcess (tls_apply toy_ssl (OpFeed [1, 2]) c0))"
    by (intro reach_op reach_start)
  have "\<not> (\<exists>c1 peer. tls_reaches toy_ssl c0 c1 \<and> tls_process toy_ssl c1 = (tls_apply toy_ssl OpProcess c1, Ok Established)
      \<and> conn_peer_certificate toy_ssl (tls_apply toy_ssl OpProcess c1) = Some peer \<and> matches_hostname peer [120] False)"
    using none by fastforce
  from tls_client_identity [OF c r this] c show ?thesis by blast
qed

end
