(* ===== verification/Tls_Context.thy ===== *)
theory Tls_Context
  imports Tls
begin

text \<open>
  The building of TLS contexts in \<^verbatim>\<open>src/crypto/tls.rs\<close>. The C library is an argument: what its PEM reader finds
  in an input, and the result of each call given the calls made before. A context is the list of
  calls that configured it, so its configuration can be read off. Reference counts and the release of
  library objects are not modelled.
\<close>

section \<open>The library\<close>

datatype ('cert, 'key, 'name) ctx_call =
    CtxNew bool
  | SetMinProtoTls12
  | MemBuf bytes
  | UseCertificate 'cert
  | UsePrivateKey 'key
  | CheckPrivateKey
  | AddExtraChainCert 'cert
  | StoreNew
  | StackNew
  | StoreAddCert 'cert
  | NameDup 'name
  | StackPush 'name
  | SetCertStore "'cert list"
  | SetClientCaList "'name list"
  | SetVerifyPeerRequired
  | SetVerifyDepth nat
  | SetNoTicket
  | SetNumTickets nat

type_synonym ('cert, 'key, 'name) calls = "('cert, 'key, 'name) ctx_call list"

text \<open>
  \<open>pem_entries\<close> are the certificates of an input in order, \<open>None\<close> for one that does not parse; a read returns
  null there, as it does at the end. \<open>call_ok\<close> is whether a call succeeds after those made before, and
  \<open>error_queue\<close> what the library then reports.
\<close>

record ('cert, 'key, 'name) ctxlib =
  pem_entries :: "bytes \<Rightarrow> 'cert option list"
  pem_key :: "bytes \<Rightarrow> 'key option"
  subject_name :: "'cert \<Rightarrow> 'name option"
  call_ok :: "('cert, 'key, 'name) calls \<Rightarrow> ('cert, 'key, 'name) ctx_call \<Rightarrow> bool"
  error_queue :: "('cert, 'key, 'name) calls \<Rightarrow> string list"

text \<open>One call: it is recorded, and its failure is the error \<open>e\<close> makes of the queue.\<close>

definition ctx_do ::
    "('cert, 'key, 'name) ctxlib \<Rightarrow> ('cert, 'key, 'name) ctx_call \<Rightarrow> (string list \<Rightarrow> tls_error) \<Rightarrow> ('cert, 'key, 'name) calls
      \<Rightarrow> (tls_error, ('cert, 'key, 'name) calls) result" where
  "ctx_do B c e tr = (if call_ok B tr c then Ok (tr @ [c]) else Err (e (error_queue B (tr @ [c]))))"

definition ssl_err :: "string \<Rightarrow> string list \<Rightarrow> tls_error" where
  "ssl_err opn messages = TlsSsl (pop_err opn messages)"

text \<open>\<open>msg.contains(..)\<close>.\<close>

definition str_contains :: "string \<Rightarrow> string \<Rightarrow> bool" where
  "str_contains s t \<longleftrightarrow> (\<exists>i \<in> set [0..<Suc (length s)]. take (length t) (drop i s) = t)"

definition private_key_err :: "string list \<Rightarrow> tls_error" where
  "private_key_err messages =
     (let msg = pop_err ''SSL_CTX_use_PrivateKey'' messages
      in if str_contains msg ''KEY_VALUES_MISMATCH'' then TlsKeyMismatch else TlsSsl msg)"

section \<open>Reading of certificates\<close>

text \<open>The loops read until null.\<close>

fun pem_reads :: "'cert option list \<Rightarrow> 'cert list" where
  "pem_reads [] = []"
| "pem_reads (None # es) = []"
| "pem_reads (Some c # es) = c # pem_reads es"

definition x509_from_pem ::
    "('cert, 'key, 'name) ctxlib \<Rightarrow> bytes \<Rightarrow> ('cert, 'key, 'name) calls \<Rightarrow> (tls_error, ('cert, 'key, 'name) calls \<times> 'cert) result" where
  "x509_from_pem B pem tr =
     and_then (ctx_do B (MemBuf pem) (\<lambda>_. TlsInit ''BIO_new_mem_buf'') tr) (\<lambda>tr.
       case pem_reads (pem_entries B pem) of [] \<Rightarrow> Err (TlsPem ''certificate'') | c # _ \<Rightarrow> Ok (tr, c))"

definition pkey_from_pem ::
    "('cert, 'key, 'name) ctxlib \<Rightarrow> bytes \<Rightarrow> ('cert, 'key, 'name) calls \<Rightarrow> (tls_error, ('cert, 'key, 'name) calls \<times> 'key) result" where
  "pkey_from_pem B pem tr =
     and_then (ctx_do B (MemBuf pem) (\<lambda>_. TlsInit ''BIO_new_mem_buf'') tr) (\<lambda>tr.
       case pem_key B pem of None \<Rightarrow> Err (TlsPem ''private key'') | Some k \<Rightarrow> Ok (tr, k))"

section \<open>Trust anchors\<close>

text \<open>The loop of \<open>install_client_cas\<close>: the certificates go into the store, their subjects onto the stack.\<close>

fun add_cas ::
    "('cert, 'key, 'name) ctxlib \<Rightarrow> 'cert list \<Rightarrow> 'name list \<Rightarrow> ('cert, 'key, 'name) calls
      \<Rightarrow> (tls_error, ('cert, 'key, 'name) calls \<times> 'name list) result" where
  "add_cas B [] names tr = Ok (tr, names)"
| "add_cas B (c # cs) names tr =
     and_then (ctx_do B (StoreAddCert c) (ssl_err ''X509_STORE_add_cert'') tr) (\<lambda>tr.
       case subject_name B c of
         None \<Rightarrow> add_cas B cs names tr
       | Some n \<Rightarrow>
           and_then (ctx_do B (NameDup n) (ssl_err ''X509_NAME_dup'') tr) (\<lambda>tr.
           and_then (ctx_do B (StackPush n) (ssl_err ''OPENSSL_sk_push(X509_NAME)'') tr) (\<lambda>tr.
             add_cas B cs (names @ [n]) tr)))"

definition install_client_cas ::
    "('cert, 'key, 'name) ctxlib \<Rightarrow> bytes \<Rightarrow> ('cert, 'key, 'name) calls \<Rightarrow> (tls_error, ('cert, 'key, 'name) calls) result" where
  "install_client_cas B pem tr =
     and_then (ctx_do B StoreNew (\<lambda>_. TlsInit ''X509_STORE_new'') tr) (\<lambda>tr.
     and_then (ctx_do B StackNew (\<lambda>_. TlsInit ''OPENSSL_sk_new_null(X509_NAME)'') tr) (\<lambda>tr.
     and_then (ctx_do B (MemBuf pem) (\<lambda>_. TlsInit ''BIO_new_mem_buf'') tr) (\<lambda>tr.
     let cas = pem_reads (pem_entries B pem)
     in and_then (add_cas B cas [] tr) (\<lambda>(tr, names).
        if cas = [] then Err (TlsPem ''no CA certificates'')
        else Ok (tr @ [SetCertStore cas, SetClientCaList names])))))"

section \<open>Contexts\<close>

definition MAX_CERT_DEPTH :: nat where
  "MAX_CERT_DEPTH = 5"

text \<open>The loop over the chain, after its leaf.\<close>

fun add_chain ::
    "('cert, 'key, 'name) ctxlib \<Rightarrow> 'cert list \<Rightarrow> ('cert, 'key, 'name) calls \<Rightarrow> (tls_error, ('cert, 'key, 'name) calls) result" where
  "add_chain B [] tr = Ok tr"
| "add_chain B (c # cs) tr =
     and_then (ctx_do B (AddExtraChainCert c) (ssl_err ''SSL_CTX_add_extra_chain_cert'') tr) (add_chain B cs)"

text \<open>The calls whose result the code does not look at are recorded without a test.\<close>

definition context_build ::
    "('cert, 'key, 'name) ctxlib \<Rightarrow> bytes \<Rightarrow> bytes \<Rightarrow> bytes option \<Rightarrow> bool
      \<Rightarrow> (tls_error, ('cert, 'key, 'name) calls tls_context) result" where
  "context_build B cert_chain_pem key_pem client_ca_pem is_client =
     and_then (ctx_do B (CtxNew is_client) (\<lambda>_. TlsInit ''SSL_CTX_new'') []) (\<lambda>tr.
     and_then (ctx_do B SetMinProtoTls12 (ssl_err ''SSL_CTX_set_min_proto_version'') tr) (\<lambda>tr.
     and_then (x509_from_pem B cert_chain_pem tr) (\<lambda>(tr, cert).
     and_then (pkey_from_pem B key_pem tr) (\<lambda>(tr, key).
     and_then (ctx_do B (UseCertificate cert) (ssl_err ''SSL_CTX_use_certificate'') tr) (\<lambda>tr.
     and_then (ctx_do B (UsePrivateKey key) private_key_err tr) (\<lambda>tr.
     and_then (ctx_do B CheckPrivateKey (\<lambda>_. TlsKeyMismatch) tr) (\<lambda>tr.
     and_then (ctx_do B (MemBuf cert_chain_pem) (\<lambda>_. TlsInit ''BIO_new_mem_buf'') tr) (\<lambda>tr.
     and_then (add_chain B (tl (pem_reads (pem_entries B cert_chain_pem))) tr) (\<lambda>tr.
     and_then (case client_ca_pem of
                 None \<Rightarrow> Ok tr
               | Some pem \<Rightarrow>
                   and_then (install_client_cas B pem tr) (\<lambda>tr. Ok (tr @ [SetVerifyPeerRequired, SetVerifyDepth MAX_CERT_DEPTH]))) (\<lambda>tr.
       Ok \<lparr>ctx_inner = tr @ [SetNoTicket, SetNumTickets 0], ctx_is_client = is_client,
           ctx_requires_client_certificate = \<not> is_client \<and> client_ca_pem \<noteq> None\<rparr>))))))))))"

definition context_server ::
    "('cert, 'key, 'name) ctxlib \<Rightarrow> bytes \<Rightarrow> bytes \<Rightarrow> bytes \<Rightarrow> (tls_error, ('cert, 'key, 'name) calls tls_context) result" where
  "context_server B chain key client_ca_pem = context_build B chain key (Some client_ca_pem) False"

definition context_client ::
    "('cert, 'key, 'name) ctxlib \<Rightarrow> bytes \<Rightarrow> bytes \<Rightarrow> bytes \<Rightarrow> (tls_error, ('cert, 'key, 'name) calls tls_context) result" where
  "context_client B chain key server_ca_pem = context_build B chain key (Some server_ca_pem) True"

definition context_server_without_client_auth ::
    "('cert, 'key, 'name) ctxlib \<Rightarrow> bytes \<Rightarrow> bytes \<Rightarrow> (tls_error, ('cert, 'key, 'name) calls tls_context) result" where
  "context_server_without_client_auth B chain key = context_build B chain key None False"

section \<open>What a context is configured with\<close>

lemma ctx_do_Ok: "and_then (ctx_do B c e tr) f = Ok x \<longleftrightarrow> call_ok B tr c \<and> f (tr @ [c]) = Ok x"
  by (simp add: ctx_do_def)

lemma ctx_do_eq_Ok: "ctx_do B c e tr = Ok t \<longleftrightarrow> call_ok B tr c \<and> t = tr @ [c]"
  by (auto simp: ctx_do_def)

definition ca_calls :: "('cert, 'key, 'name) ctxlib \<Rightarrow> 'cert \<Rightarrow> ('cert, 'key, 'name) calls" where
  "ca_calls B c = StoreAddCert c # (case subject_name B c of None \<Rightarrow> [] | Some n \<Rightarrow> [NameDup n, StackPush n])"

lemma add_cas_Ok:
  "add_cas B cs names tr = Ok (tr', names') \<Longrightarrow>
     tr' = tr @ concat (map (ca_calls B) cs) \<and> names' = names @ List.map_filter (subject_name B) cs"
proof (induction cs arbitrary: names tr)
  case (Cons c cs)
  show ?case
  proof (cases "subject_name B c")
    case None
    then show ?thesis using Cons.IH [of names "tr @ [StoreAddCert c]"] Cons.prems
      by (simp add: ctx_do_Ok ca_calls_def map_filter_simps)
  next
    case (Some n)
    then show ?thesis using Cons.IH [of "names @ [n]" "tr @ [StoreAddCert c, NameDup n, StackPush n]"] Cons.prems
      by (simp add: ctx_do_Ok ca_calls_def map_filter_simps)
  qed
qed (simp add: map_filter_simps)

lemma add_chain_Ok: "add_chain B cs tr = Ok tr' \<Longrightarrow> tr' = tr @ map AddExtraChainCert cs"
proof (induction cs arbitrary: tr)
  case (Cons c cs)
  then show ?case using Cons.IH [of "tr @ [AddExtraChainCert c]"] by (simp add: ctx_do_Ok)
qed simp

text \<open>The calls that install the trust anchors and ask for a certificate of the peer.\<close>

definition verify_calls :: "('cert, 'key, 'name) ctxlib \<Rightarrow> bytes \<Rightarrow> ('cert, 'key, 'name) calls" where
  "verify_calls B pem =
     (let cas = pem_reads (pem_entries B pem)
      in [StoreNew, StackNew, MemBuf pem] @ concat (map (ca_calls B) cas)
         @ [SetCertStore cas, SetClientCaList (List.map_filter (subject_name B) cas), SetVerifyPeerRequired, SetVerifyDepth MAX_CERT_DEPTH])"

lemma install_client_cas_Ok:
  assumes "install_client_cas B pem tr = Ok tr'"
  shows "tr' @ [SetVerifyPeerRequired, SetVerifyDepth MAX_CERT_DEPTH] = tr @ verify_calls B pem" and "pem_reads (pem_entries B pem) \<noteq> []"
proof -
  let ?cas = "pem_reads (pem_entries B pem)"
  obtain t names where a: "add_cas B ?cas [] (tr @ [StoreNew, StackNew, MemBuf pem]) = Ok (t, names)" "?cas \<noteq> []"
    "tr' = t @ [SetCertStore ?cas, SetClientCaList names]"
    using assms by (auto simp: install_client_cas_def ctx_do_eq_Ok and_then_Ok Let_def split: if_splits)
  show "tr' @ [SetVerifyPeerRequired, SetVerifyDepth MAX_CERT_DEPTH] = tr @ verify_calls B pem"
    using add_cas_Ok [OF a(1)] a(3) by (simp add: verify_calls_def Let_def)
  show "?cas \<noteq> []" by (rule a(2))
qed

lemma context_build_trace:
  assumes "context_build B chain key ca is_client = Ok ctx"
  shows "\<exists>leaf rest k pre. pem_reads (pem_entries B chain) = leaf # rest \<and> pem_key B key = Some k
    \<and> pre = [CtxNew is_client, SetMinProtoTls12, MemBuf chain, MemBuf key, UseCertificate leaf, UsePrivateKey k]
    \<and> call_ok B pre CheckPrivateKey
    \<and> ctx_inner ctx = pre @ [CheckPrivateKey, MemBuf chain] @ map AddExtraChainCert rest
        @ (case ca of None \<Rightarrow> [] | Some pem \<Rightarrow> verify_calls B pem) @ [SetNoTicket, SetNumTickets 0]
    \<and> (case ca of None \<Rightarrow> True | Some pem \<Rightarrow> pem_reads (pem_entries B pem) \<noteq> [])
    \<and> ctx_is_client ctx = is_client \<and> (ctx_requires_client_certificate ctx \<longleftrightarrow> \<not> is_client \<and> ca \<noteq> None)"
proof -
  obtain leaf rest where c: "pem_reads (pem_entries B chain) = leaf # rest"
    using assms by (cases "pem_reads (pem_entries B chain)")
      (auto simp: context_build_def ctx_do_eq_Ok x509_from_pem_def and_then_Ok)
  obtain k where k: "pem_key B key = Some k"
    using assms c by (cases "pem_key B key") (auto simp: context_build_def ctx_do_eq_Ok x509_from_pem_def pkey_from_pem_def and_then_Ok)
  let ?pre = "[CtxNew is_client, SetMinProtoTls12, MemBuf chain, MemBuf key, UseCertificate leaf, UsePrivateKey k]"
  obtain t1 t2 where t: "call_ok B ?pre CheckPrivateKey" "add_chain B rest (?pre @ [CheckPrivateKey, MemBuf chain]) = Ok t1"
    "(case ca of None \<Rightarrow> Ok t1
      | Some pem \<Rightarrow> and_then (install_client_cas B pem t1) (\<lambda>tr. Ok (tr @ [SetVerifyPeerRequired, SetVerifyDepth MAX_CERT_DEPTH]))) = Ok t2"
    "ctx = \<lparr>ctx_inner = t2 @ [SetNoTicket, SetNumTickets 0], ctx_is_client = is_client,
       ctx_requires_client_certificate = \<not> is_client \<and> ca \<noteq> None\<rparr>"
    using assms c k by (auto simp: context_build_def ctx_do_eq_Ok x509_from_pem_def pkey_from_pem_def and_then_Ok)
  have t2: "t2 = t1 @ (case ca of None \<Rightarrow> [] | Some pem \<Rightarrow> verify_calls B pem)"
    "case ca of None \<Rightarrow> True | Some pem \<Rightarrow> pem_reads (pem_entries B pem) \<noteq> []"
    using t(3) by (auto simp: and_then_Ok install_client_cas_Ok split: option.splits)
  show ?thesis
    by (intro exI [of _ leaf] exI [of _ rest] exI [of _ k] exI [of _ ?pre] conjI)
      (use c k t t2 add_chain_Ok [OF t(2)] in \<open>simp_all\<close>)
qed

text \<open>
  What the calls amount to. Certificates and names go into a store and a stack of their own, which become
  those of the context when they are handed over.
\<close>

record ('cert, 'key, 'name) ssl_config =
  cfg_client :: bool
  cfg_tls12 :: bool
  cfg_leaf :: "'cert option"
  cfg_key :: "'key option"
  cfg_chain :: "'cert list"
  cfg_store :: "'cert list"
  cfg_stack :: "'name list"
  cfg_anchors :: "'cert list"
  cfg_ca_names :: "'name list"
  cfg_peer_required :: bool
  cfg_depth :: "nat option"
  cfg_stateless_tickets :: bool
  cfg_num_tickets :: nat

definition ssl_config_new :: "('cert, 'key, 'name) ssl_config" where
  "ssl_config_new =
     \<lparr>cfg_client = False, cfg_tls12 = False, cfg_leaf = None, cfg_key = None, cfg_chain = [], cfg_store = [], cfg_stack = [],
      cfg_anchors = [], cfg_ca_names = [], cfg_peer_required = False, cfg_depth = None, cfg_stateless_tickets = True,
      cfg_num_tickets = 2\<rparr>"

fun configure :: "('cert, 'key, 'name) ctx_call \<Rightarrow> ('cert, 'key, 'name) ssl_config \<Rightarrow> ('cert, 'key, 'name) ssl_config" where
  "configure (CtxNew client) s = s\<lparr>cfg_client := client\<rparr>"
| "configure SetMinProtoTls12 s = s\<lparr>cfg_tls12 := True\<rparr>"
| "configure (UseCertificate c) s = s\<lparr>cfg_leaf := Some c\<rparr>"
| "configure (UsePrivateKey k) s = s\<lparr>cfg_key := Some k\<rparr>"
| "configure (AddExtraChainCert c) s = s\<lparr>cfg_chain := cfg_chain s @ [c]\<rparr>"
| "configure StoreNew s = s\<lparr>cfg_store := []\<rparr>"
| "configure StackNew s = s\<lparr>cfg_stack := []\<rparr>"
| "configure (StoreAddCert c) s = s\<lparr>cfg_store := cfg_store s @ [c]\<rparr>"
| "configure (StackPush n) s = s\<lparr>cfg_stack := cfg_stack s @ [n]\<rparr>"
| "configure (SetCertStore _) s = s\<lparr>cfg_anchors := cfg_store s, cfg_store := []\<rparr>"
| "configure (SetClientCaList _) s = s\<lparr>cfg_ca_names := cfg_stack s, cfg_stack := []\<rparr>"
| "configure SetVerifyPeerRequired s = s\<lparr>cfg_peer_required := True\<rparr>"
| "configure (SetVerifyDepth n) s = s\<lparr>cfg_depth := Some n\<rparr>"
| "configure SetNoTicket s = s\<lparr>cfg_stateless_tickets := False\<rparr>"
| "configure (SetNumTickets n) s = s\<lparr>cfg_num_tickets := n\<rparr>"
| "configure _ s = s"

definition configured :: "('cert, 'key, 'name) calls \<Rightarrow> ('cert, 'key, 'name) ssl_config" where
  "configured tr = fold configure tr ssl_config_new"

text \<open>Certificate and key of a configuration belong together.\<close>

definition key_fits :: "('cert \<Rightarrow> 'key \<Rightarrow> bool) \<Rightarrow> ('cert, 'key, 'name) ssl_config \<Rightarrow> bool" where
  "key_fits fits s \<longleftrightarrow> (\<exists>c k. cfg_leaf s = Some c \<and> cfg_key s = Some k \<and> fits c k)"

text \<open>
  What the inputs ask for: the entries of a PEM input up to the first that does not parse, and the error or
  the configuration they give.
\<close>

definition readable :: "'cert option list \<Rightarrow> 'cert list" where
  "readable es = map the (takeWhile (\<lambda>e. e \<noteq> None) es)"

definition context_outcome ::
    "('cert, 'key, 'name) ctxlib \<Rightarrow> ('cert \<Rightarrow> 'key \<Rightarrow> bool) \<Rightarrow> bytes \<Rightarrow> bytes \<Rightarrow> bytes option \<Rightarrow> bool
      \<Rightarrow> (tls_error, ('cert, 'key, 'name) ssl_config) result" where
  "context_outcome B fits chain key ca is_client =
     (let certs = readable (pem_entries B chain); anchors = (case ca of None \<Rightarrow> [] | Some pem \<Rightarrow> readable (pem_entries B pem))
      in if certs = [] then Err (TlsPem ''certificate'')
         else if pem_key B key = None then Err (TlsPem ''private key'')
         else if \<not> fits (hd certs) (the (pem_key B key)) then Err TlsKeyMismatch
         else if ca \<noteq> None \<and> anchors = [] then Err (TlsPem ''no CA certificates'')
         else Ok \<lparr>cfg_client = is_client, cfg_tls12 = True, cfg_leaf = Some (hd certs), cfg_key = pem_key B key,
                  cfg_chain = tl certs, cfg_store = [], cfg_stack = [], cfg_anchors = anchors,
                  cfg_ca_names = List.map_filter (subject_name B) anchors, cfg_peer_required = (ca \<noteq> None),
                  cfg_depth = (if ca = None then None else Some 5), cfg_stateless_tickets = False, cfg_num_tickets = 0\<rparr>)"

lemma readable_pem_reads: "pem_reads es = readable es"
  by (induction es rule: pem_reads.induct) (simp_all add: readable_def)

lemma configured_append: "configured (tr @ tr') = fold configure tr' (configured tr)"
  by (simp add: configured_def)

lemma fold_configure_chain: "fold configure (map AddExtraChainCert cs) s = s\<lparr>cfg_chain := cfg_chain s @ cs\<rparr>"
  by (induction cs arbitrary: s) simp_all

lemma fold_configure_cas:
  "fold configure (concat (map (ca_calls B) cs)) s
     = s\<lparr>cfg_store := cfg_store s @ cs, cfg_stack := cfg_stack s @ List.map_filter (subject_name B) cs\<rparr>"
  by (induction cs arbitrary: s) (auto simp: ca_calls_def map_filter_simps split: option.split)

lemma context_build_configured:
  assumes "\<forall>tr. call_ok B tr CheckPrivateKey \<longrightarrow> key_fits fits (configured tr)"
    and "context_build B chain key ca is_client = Ok ctx"
  shows "context_outcome B fits chain key ca is_client = Ok (configured (ctx_inner ctx))"
    and "ctx_is_client ctx = is_client" and "ctx_requires_client_certificate ctx \<longleftrightarrow> \<not> is_client \<and> ca \<noteq> None"
proof -
  obtain leaf rest k pre where t: "readable (pem_entries B chain) = leaf # rest" "pem_key B key = Some k"
    "pre = [CtxNew is_client, SetMinProtoTls12, MemBuf chain, MemBuf key, UseCertificate leaf, UsePrivateKey k]"
    "call_ok B pre CheckPrivateKey"
    "ctx_inner ctx = pre @ [CheckPrivateKey, MemBuf chain] @ map AddExtraChainCert rest
        @ (case ca of None \<Rightarrow> [] | Some pem \<Rightarrow> verify_calls B pem) @ [SetNoTicket, SetNumTickets 0]"
    "case ca of None \<Rightarrow> True | Some pem \<Rightarrow> readable (pem_entries B pem) \<noteq> []"
    using context_build_trace [OF assms(2)] unfolding readable_pem_reads by blast
  have "fits leaf k" using assms(1) t(3,4) by (auto simp: key_fits_def configured_def)
  then show "context_outcome B fits chain key ca is_client = Ok (configured (ctx_inner ctx))"
    using t by (cases ca) (simp_all add: context_outcome_def configured_def ssl_config_new_def fold_configure_chain
        fold_configure_cas verify_calls_def readable_pem_reads MAX_CERT_DEPTH_def Let_def)
  show "ctx_is_client ctx = is_client" and "ctx_requires_client_certificate ctx \<longleftrightarrow> \<not> is_client \<and> ca \<noteq> None"
    using context_build_trace [OF assms(2)] by blast+
qed

text \<open>The library refuses nothing but a key that does not fit, and says so.\<close>

definition refuses_misfits :: "('cert, 'key, 'name) ctxlib \<Rightarrow> ('cert \<Rightarrow> 'key \<Rightarrow> bool) \<Rightarrow> bool" where
  "refuses_misfits B fits \<longleftrightarrow> (\<forall>tr c. \<not> call_ok B tr c \<longrightarrow> \<not> key_fits fits (configured (tr @ [c]))
     \<and> (c = CheckPrivateKey
        \<or> (\<exists>k. c = UsePrivateKey k) \<and> str_contains (pop_err ''SSL_CTX_use_PrivateKey'' (error_queue B (tr @ [c]))) ''KEY_VALUES_MISMATCH''))"

lemma add_cas_accepted: "refuses_misfits B fits \<Longrightarrow> \<exists>r. add_cas B cs names tr = Ok r"
proof (induction cs arbitrary: names tr)
  case (Cons c cs)
  have ok: "call_ok B tr (StoreAddCert c)" "call_ok B tr (NameDup n)" "call_ok B tr (StackPush n)" for tr n
    using Cons.prems by (auto simp: refuses_misfits_def)
  show ?case using Cons.IH [OF Cons.prems] ok by (cases "subject_name B c") (auto simp: ctx_do_def)
qed simp

lemma add_chain_accepted: "refuses_misfits B fits \<Longrightarrow> \<exists>r. add_chain B cs tr = Ok r"
  by (induction cs arbitrary: tr) (auto simp: ctx_do_def refuses_misfits_def)

lemma install_client_cas_accepted:
  assumes "refuses_misfits B fits"
  shows "readable (pem_entries B pem) = [] \<Longrightarrow> install_client_cas B pem tr = Err (TlsPem ''no CA certificates'')"
    and "readable (pem_entries B pem) \<noteq> [] \<Longrightarrow> \<exists>t. install_client_cas B pem tr = Ok t"
proof -
  have ok: "call_ok B tr StoreNew" "call_ok B tr StackNew" "call_ok B tr (MemBuf b)" for tr b
    using assms by (auto simp: refuses_misfits_def)
  obtain r where "add_cas B (pem_reads (pem_entries B pem)) [] (((tr @ [StoreNew]) @ [StackNew]) @ [MemBuf pem]) = Ok r"
    using add_cas_accepted [OF assms] by blast
  then show "readable (pem_entries B pem) = [] \<Longrightarrow> install_client_cas B pem tr = Err (TlsPem ''no CA certificates'')"
    and "readable (pem_entries B pem) \<noteq> [] \<Longrightarrow> \<exists>t. install_client_cas B pem tr = Ok t"
    using ok by (auto simp: install_client_cas_def ctx_do_def readable_pem_reads Let_def split: prod.split)
qed

lemma context_build_refused:
  assumes check: "\<forall>tr. call_ok B tr CheckPrivateKey \<longrightarrow> key_fits fits (configured tr)" and lib: "refuses_misfits B fits"
  shows "(\<exists>ctx. context_build B chain key ca is_client = Ok ctx)
    \<or> (\<exists>e. context_build B chain key ca is_client = Err e \<and> context_outcome B fits chain key ca is_client = Err e)"
proof -
  have ok: "call_ok B tr (CtxNew b)" "call_ok B tr SetMinProtoTls12" "call_ok B tr (MemBuf m)" "call_ok B tr (UseCertificate c)" for tr b m c
    using lib by (auto simp: refuses_misfits_def)
  note build = context_build_def context_outcome_def ctx_do_def x509_from_pem_def pkey_from_pem_def readable_pem_reads Let_def
  consider "readable (pem_entries B chain) = []" | "pem_key B key = None"
    | leaf rest k where "readable (pem_entries B chain) = leaf # rest" "pem_key B key = Some k"
    by (cases "readable (pem_entries B chain)"; cases "pem_key B key") auto
  then show ?thesis
  proof cases
    case 3
    let ?pre = "[CtxNew is_client, SetMinProtoTls12, MemBuf chain, MemBuf key, UseCertificate leaf]"
    have fits: "key_fits fits (configured (?pre @ [UsePrivateKey k])) \<longleftrightarrow> fits leaf k"
      "key_fits fits (configured ((?pre @ [UsePrivateKey k]) @ [CheckPrivateKey])) \<longleftrightarrow> fits leaf k"
      by (simp_all add: key_fits_def configured_def)
    have use: "\<not> fits leaf k \<and> private_key_err (error_queue B (?pre @ [UsePrivateKey k])) = TlsKeyMismatch"
      if "\<not> call_ok B ?pre (UsePrivateKey k)"
      using lib [unfolded refuses_misfits_def, rule_format, OF that] fits(1) by (auto simp: private_key_err_def Let_def)
    have chk: "call_ok B (?pre @ [UsePrivateKey k]) CheckPrivateKey \<longleftrightarrow> fits leaf k"
      using lib check fits unfolding refuses_misfits_def by metis
    obtain t where t: "\<And>tr. add_chain B rest tr = Ok (t tr)" using add_chain_accepted [OF lib] by metis
    have cas: "(\<exists>i. \<forall>tr. install_client_cas B pem tr = Ok (i tr)) \<or> (\<forall>tr. install_client_cas B pem tr = Err (TlsPem ''no CA certificates''))
      \<and> readable (pem_entries B pem) = []" for pem
      using install_client_cas_accepted [OF lib, of pem] by metis
    show ?thesis
    proof (cases "call_ok B ?pre (UsePrivateKey k) \<and> fits leaf k")
      case True
      then show ?thesis using ok chk t 3 cas [of "the ca"] by (cases ca) (auto simp: build)
    qed (use ok chk t 3 use in \<open>auto simp: build\<close>)
  qed (use ok in \<open>auto simp: build split: list.split\<close>)
qed

text \<open>
  C14: a TLS context is hardened, and a bad input refused. When the check of the private key is what the library
  documents, a context that was built has exactly the configuration its inputs ask for: TLS 1.2 at least; as
  leaf and key the first certificate and the key of the input, which belong together; the rest of the chain in
  order; no session tickets; and, where a CA bundle is given, as trust anchors and announced CA names those of
  the bundle's certificates up to the first entry that does not parse, of which there is at least one, a peer
  certificate demanded and its chain at most five deep. Without a bundle no certificate is asked for and
  no depth is set. When the library refuses only keys that do not fit, every other input builds, and an input
  without a certificate, without a key, with a key that does not fit or with a bundle of no certificates is
  the error that names it.
\<close>

theorem context_hardened:
  assumes "\<forall>tr. call_ok B tr CheckPrivateKey \<longrightarrow> key_fits fits (configured tr)"
  shows "(\<forall>ctx. context_build B chain key ca is_client = Ok ctx
      \<longrightarrow> context_outcome B fits chain key ca is_client = Ok (configured (ctx_inner ctx))
        \<and> ctx_is_client ctx = is_client \<and> (ctx_requires_client_certificate ctx \<longleftrightarrow> \<not> is_client \<and> ca \<noteq> None))
    \<and> (refuses_misfits B fits
      \<longrightarrow> and_then (context_build B chain key ca is_client) (\<lambda>ctx. Ok (configured (ctx_inner ctx)))
          = context_outcome B fits chain key ca is_client)"
  using context_build_configured [OF assms] context_build_refused [OF assms, of chain key ca is_client] by fastforce

section \<open>Bundles with an entry that does not parse\<close>

lemma pem_reads_truncated: "pem_reads (map Some cs @ None # es) = cs"
  by (induction cs) simp_all

lemma pem_reads_all: "pem_reads (map Some cs) = cs"
  by (induction cs) simp_all

lemma context_build_total:
  assumes "\<And>tr c. call_ok B tr c" and "pem_reads (pem_entries B chain) \<noteq> []" and "pem_key B key \<noteq> None"
    and "pem_reads (pem_entries B pem) \<noteq> []"
  shows "\<exists>ctx. context_build B chain key (Some pem) is_client = Ok ctx"
proof -
  obtain leaf rest where l: "pem_reads (pem_entries B chain) = leaf # rest" using assms(2) by (cases "pem_reads (pem_entries B chain)") auto
  obtain k where k: "pem_key B key = Some k" using assms(3) by auto
  have lib: "refuses_misfits B (\<lambda>_ _. True)" using assms(1) by (simp add: refuses_misfits_def)
  obtain chain_tr where ch: "\<And>tr. add_chain B rest tr = Ok (chain_tr tr)" using add_chain_accepted [OF lib] by metis
  obtain ca_tr where ca: "\<And>tr. install_client_cas B pem tr = Ok (ca_tr tr)"
    using install_client_cas_accepted(2) [OF lib] assms(4) unfolding readable_pem_reads by metis
  show ?thesis using assms(1) by (simp add: context_build_def ctx_do_def x509_from_pem_def pkey_from_pem_def l k ch ca)
qed

text \<open>
  C39: a trust anchor that does not parse is not an error. When an entry of the bundle after the first
  fails to parse, the context is built all the same, and it trusts only the certificates before that
  entry: it and all that follow are dropped.
\<close>

theorem ca_bundle_truncated:
  assumes "\<forall>tr c. call_ok B tr c" and "pem_reads (pem_entries B chain) \<noteq> []" and "pem_key B key \<noteq> None"
    and "pem_entries B pem = map Some cas @ None # later" and "cas \<noteq> []"
  shows "\<exists>ctx. context_server B chain key pem = Ok ctx \<and> SetCertStore cas \<in> set (ctx_inner ctx)
    \<and> (\<forall>c. StoreAddCert c \<in> set (ctx_inner ctx) \<longrightarrow> c \<in> set cas)"
proof -
  have cas: "pem_reads (pem_entries B pem) = cas" using assms(4) by (simp add: pem_reads_truncated)
  obtain ctx where ctx: "context_build B chain key (Some pem) False = Ok ctx"
    using context_build_total [of B chain key pem False] assms(1-3,5) cas by auto
  have v: "StoreAddCert c \<in> set (verify_calls B pem) \<Longrightarrow> c \<in> set cas" for c
    by (auto simp: verify_calls_def cas ca_calls_def Let_def split: option.splits)
  have "SetCertStore cas \<in> set (verify_calls B pem)" by (simp add: verify_calls_def cas Let_def)
  then show ?thesis using context_build_trace [OF ctx] ctx v by (auto simp: context_server_def)
qed

text \<open>A library whose calls all succeed; certificates, keys and names are bytes of the input.\<close>

definition demo_ctxlib :: "(u8, u8, u8) ctxlib" where
  "demo_ctxlib =
     \<lparr>pem_entries = map (\<lambda>b. if b = 0 then None else Some b), pem_key = (\<lambda>bs. if bs = [] then None else Some (hd bs)),
      subject_name = Some, call_ok = (\<lambda>_ _. True), error_queue = (\<lambda>_. [])\<rparr>"

text \<open>The same with a check of the key: it fits the certificate it is the successor of.\<close>

definition checking_ctxlib :: "(u8, u8, u8) ctxlib" where
  "checking_ctxlib = demo_ctxlib\<lparr>call_ok := \<lambda>tr c. c = CheckPrivateKey \<longrightarrow> key_fits (\<lambda>c k. k = c + 1) (configured tr)\<rparr>"

lemma checking_ctxlib_fits:
  "\<forall>tr. call_ok checking_ctxlib tr CheckPrivateKey \<longrightarrow> key_fits (\<lambda>c k. k = c + 1) (configured tr)"
  "refuses_misfits checking_ctxlib (\<lambda>c k. k = c + 1)"
  by (auto simp: checking_ctxlib_def refuses_misfits_def configured_append)

theorem context_hardened_witness:
  "(\<exists>ctx. context_build checking_ctxlib [1, 2] [2] (Some [5, 6, 0, 7]) False = Ok ctx
      \<and> cfg_anchors (configured (ctx_inner ctx)) = [5, 6] \<and> cfg_peer_required (configured (ctx_inner ctx)))
   \<and> context_build checking_ctxlib [1, 2] [9] (Some [5, 6]) False = Err TlsKeyMismatch"
proof -
  note outcome = context_hardened [OF checking_ctxlib_fits(1), THEN conjunct2, rule_format, OF checking_ctxlib_fits(2)]
  note ev = context_outcome_def checking_ctxlib_def demo_ctxlib_def readable_def Let_def
  from outcome [of "[1, 2]" "[2]" "Some [5, 6, 0, 7]" False] outcome [of "[1, 2]" "[9]" "Some [5, 6]" False]
  show ?thesis by (cases "context_build checking_ctxlib [1, 2] [2] (Some [5, 6, 0, 7]) False";
    cases "context_build checking_ctxlib [1, 2] [9] (Some [5, 6]) False") (auto simp: ev)
qed

theorem ca_bundle_truncated_witness:
  "\<exists>ctx. context_server demo_ctxlib [1] [9] [5, 0, 6] = Ok ctx \<and> SetCertStore [5] \<in> set (ctx_inner ctx)"
  using ca_bundle_truncated [of demo_ctxlib "[1]" "[9]" "[5, 0, 6]" "[5]" "[Some 6]"] by (auto simp: demo_ctxlib_def)

end
