(* ===== verification/Tls_Stream.thy ===== *)
theory Tls_Stream
  imports Tls Header
begin

text \<open>
  \<^verbatim>\<open>src/transport/tls.rs\<close>: TLS over a TCP stream, and the reader of RADIUS frames on top of it. The stream is
  what its calls return: the results of the reads and of the writes to come are lists in the state,
  and a call that finds its list empty does not complete, the value \<open>None\<close>; a deadline turns that into
  an error. The frame reader is stated for any connection with a read operation and a clock.
\<close>

section \<open>The connection\<close>

datatype io_error =
    IoTls tls_error | IoOs string | UnexpectedEof string | TimedOut string | InvalidData string | WriteZero string | IoOther string

definition tls_to_io :: "tls_error \<Rightarrow> io_error" where
  "tls_to_io e = IoTls e"

definition TLS_READ_CHUNK :: nat where
  "TLS_READ_CHUNK = 16 * 1024"

definition IDLE_TIMEOUT :: duration where
  "IDLE_TIMEOUT = 600 * 1000000000"

record ('ctx, 'ssl) async_tls =
  at_tls :: "('ctx, 'ssl) tls_connection"
  at_reads :: "(io_error, bytes) result list"
  at_writes :: "(io_error, nat) result list"
  at_sent :: bytes
  at_flushed :: nat
  at_eof :: bool

type_synonym ('ctx, 'ssl, 'a) io_call = "(('ctx, 'ssl) async_tls \<times> (io_error, 'a) result) option"

definition async_new ::
    "(io_error, bytes) result list \<Rightarrow> (io_error, nat) result list \<Rightarrow> ('ctx, 'ssl) tls_connection \<Rightarrow> ('ctx, 'ssl) async_tls" where
  "async_new reads writes c =
     \<lparr>at_tls = c, at_reads = reads, at_writes = writes, at_sent = [], at_flushed = 0, at_eof = False\<rparr>"

definition async_peer_certificate :: "('ctx, 'ssl) libssl \<Rightarrow> ('ctx, 'ssl) async_tls \<Rightarrow> peer_certificate option" where
  "async_peer_certificate L a = conn_peer_certificate L (at_tls a)"

text \<open>One pass through the body of a loop: it goes on, returns, or waits for the stream.\<close>

datatype ('s, 'r) pass = Again 's | Return 's 'r | Pending

text \<open>The kernel takes some of the bytes offered, at most all of them.\<close>

definition flush_pass ::
    "('ctx, 'ssl) libssl \<Rightarrow> ('ctx, 'ssl) async_tls \<Rightarrow> (('ctx, 'ssl) async_tls, (io_error, unit) result) pass" where
  "flush_pass L a =
     (let pending = pending_output L (at_tls a)
      in if at_flushed a = length pending then
           (case consume_output L (at_tls a) of
              (c, Err e) \<Rightarrow> Return (a\<lparr>at_tls := c\<rparr>) (Err (tls_to_io e))
            | (c, Ok _) \<Rightarrow> Return (a\<lparr>at_tls := c, at_flushed := 0\<rparr>) (Ok ()))
         else
           case at_writes a of
             [] \<Rightarrow> Pending
           | Err e # ws \<Rightarrow> Return (a\<lparr>at_writes := ws\<rparr>) (Err e)
           | Ok n # ws \<Rightarrow>
               let len = min n (length pending - at_flushed a)
               in if len = 0 then Return (a\<lparr>at_writes := ws\<rparr>) (Err (WriteZero ''TLS socket write returned zero''))
                  else Again
                    (a\<lparr>at_writes := ws, at_sent := at_sent a @ take len (drop (at_flushed a) pending), at_flushed := at_flushed a + len\<rparr>))"

lemma flush_pass_writes: "flush_pass L a = Again a' \<Longrightarrow> length (at_writes a') < length (at_writes a)"
  by (auto simp: flush_pass_def Let_def split: if_splits prod.splits result.splits list.splits)

function flush_tls_output :: "('ctx, 'ssl) libssl \<Rightarrow> ('ctx, 'ssl) async_tls \<Rightarrow> ('ctx, 'ssl, unit) io_call" where
  "flush_tls_output L a =
     (case flush_pass L a of Again a' \<Rightarrow> flush_tls_output L a' | Return a' r \<Rightarrow> Some (a', r) | Pending \<Rightarrow> None)"
  by pat_completeness auto
termination
  by (relation "measure (\<lambda>(L, a). length (at_writes a))") (auto dest: flush_pass_writes)

declare flush_tls_output.simps [simp del]

definition receive :: "('ctx, 'ssl) libssl \<Rightarrow> ('ctx, 'ssl) async_tls \<Rightarrow> ('ctx, 'ssl, nat) io_call" where
  "receive L a =
     (case at_reads a of
        [] \<Rightarrow> None
      | Err e # rs \<Rightarrow> Some (a\<lparr>at_reads := rs\<rparr>, Err e)
      | Ok bs # rs \<Rightarrow>
          let input = take TLS_READ_CHUNK bs;
              rs = (if length bs > TLS_READ_CHUNK then Ok (drop TLS_READ_CHUNK bs) # rs else rs)
          in if input = [] then Some (a\<lparr>at_reads := rs, at_eof := True\<rparr>, Ok 0)
             else
               (case feed_input L input (at_tls a) of
                  (c, Err e) \<Rightarrow> Some (a\<lparr>at_reads := rs, at_tls := c\<rparr>, Err (tls_to_io e))
                | (c, Ok _) \<Rightarrow> Some (a\<lparr>at_reads := rs, at_tls := c\<rparr>, Ok (length input))))"

text \<open>What is still to be read decides how often the loops below can run.\<close>

definition reads_left :: "('ctx, 'ssl) async_tls \<Rightarrow> nat" where
  "reads_left a = sum_list (map (\<lambda>r. case r of Ok bs \<Rightarrow> 1 + length bs | Err _ \<Rightarrow> 1) (at_reads a))"

lemma receive_reads: "receive L a = Some (a', r) \<Longrightarrow> reads_left a' < reads_left a"
  by (auto simp: receive_def reads_left_def Let_def TLS_READ_CHUNK_def split: if_splits prod.splits result.splits list.splits)

lemma receive_done: "receive L a = Some (a', r) \<Longrightarrow> conn_handshake_done (at_tls a') = conn_handshake_done (at_tls a)"
  by (auto simp: receive_def Let_def feed_input_def split: if_splits prod.splits result.splits list.splits)

lemma flush_keeps:
  "flush_tls_output L a = Some (a', r) \<Longrightarrow>
     reads_left a' = reads_left a \<and> conn_handshake_done (at_tls a') = conn_handshake_done (at_tls a)"
proof (induction L a rule: flush_tls_output.induct)
  case (1 L a)
  have "reads_left b = reads_left a \<and> conn_handshake_done (at_tls b) = conn_handshake_done (at_tls a)"
    if "flush_pass L a = Again b \<or> flush_pass L a = Return b r" for b
    using that by (auto simp: flush_pass_def Let_def consume_output_def reads_left_def
        split: if_splits prod.splits result.splits list.splits)
  with 1 show ?case by (subst (asm) (2) flush_tls_output.simps) (auto split: pass.splits)
qed

definition handshake_pass ::
    "('ctx, 'ssl) libssl \<Rightarrow> ('ctx, 'ssl) async_tls \<Rightarrow> (('ctx, 'ssl) async_tls, (io_error, unit) result) pass" where
  "handshake_pass L a =
     (case tls_process L (at_tls a) of
        (c, Err e) \<Rightarrow> Return (a\<lparr>at_tls := c\<rparr>) (Err (tls_to_io e))
      | (c, Ok state) \<Rightarrow>
          (case flush_tls_output L (a\<lparr>at_tls := c\<rparr>) of
             None \<Rightarrow> Pending
           | Some (a, Err e) \<Rightarrow> Return a (Err e)
           | Some (a, Ok _) \<Rightarrow>
               if state = Established then Return a (Ok ())
               else
                 (case receive L a of
                    None \<Rightarrow> Pending
                  | Some (a, Err e) \<Rightarrow> Return a (Err e)
                  | Some (a, Ok n) \<Rightarrow>
                      if n = 0 then Return a (Err (UnexpectedEof ''peer closed during TLS handshake'')) else Again a)))"

lemma handshake_pass_reads: "handshake_pass L a = Again a' \<Longrightarrow> reads_left a' < reads_left a"
  by (auto simp: handshake_pass_def reads_left_def dest!: receive_reads flush_keeps
      split: if_splits prod.splits result.splits option.splits)

function handshake_loop :: "('ctx, 'ssl) libssl \<Rightarrow> ('ctx, 'ssl) async_tls \<Rightarrow> ('ctx, 'ssl, unit) io_call" where
  "handshake_loop L a =
     (case handshake_pass L a of Again a' \<Rightarrow> handshake_loop L a' | Return a' r \<Rightarrow> Some (a', r) | Pending \<Rightarrow> None)"
  by pat_completeness auto
termination
  by (relation "measure (\<lambda>(L, a). reads_left a)") (auto dest: handshake_pass_reads)

declare handshake_loop.simps [simp del]

text \<open>A loop that waits until its deadline has elapsed is cancelled.\<close>

definition handshake_with_timeout :: "('ctx, 'ssl) libssl \<Rightarrow> ('ctx, 'ssl) async_tls \<Rightarrow> ('ctx, 'ssl) async_tls \<times> (io_error, unit) result" where
  "handshake_with_timeout L a =
     (case handshake_loop L a of None \<Rightarrow> (a, Err (TimedOut ''TLS handshake timed out'')) | Some ar \<Rightarrow> ar)"

definition read_some_pass ::
    "('ctx, 'ssl) libssl \<Rightarrow> nat \<Rightarrow> ('ctx, 'ssl) async_tls \<Rightarrow> (('ctx, 'ssl) async_tls, (io_error, bytes) result) pass" where
  "read_some_pass L len a =
     (case flush_tls_output L a of
        None \<Rightarrow> Pending
      | Some (a, Err e) \<Rightarrow> Return a (Err e)
      | Some (a, Ok _) \<Rightarrow>
          (case tls_read L len (at_tls a) of
             (c, Err e) \<Rightarrow> Return (a\<lparr>at_tls := c\<rparr>) (Err (tls_to_io e))
           | (c, Ok d) \<Rightarrow>
               let a = a\<lparr>at_tls := c\<rparr>
               in if d \<noteq> [] then Return a (Ok d)
                  else if at_eof a \<or> received_close_notify L (at_tls a) then Return a (Ok [])
                  else
                    (case flush_tls_output L a of
                       None \<Rightarrow> Pending
                     | Some (a, Err e) \<Rightarrow> Return a (Err e)
                     | Some (a, Ok _) \<Rightarrow>
                         (case receive L a of
                            None \<Rightarrow> Pending
                          | Some (a, Err e) \<Rightarrow> Return a (Err e)
                          | Some (a, Ok _) \<Rightarrow> Again a))))"

lemma read_some_pass_reads: "read_some_pass L len a = Again a' \<Longrightarrow> reads_left a' < reads_left a"
  by (auto simp: read_some_pass_def reads_left_def Let_def dest!: receive_reads flush_keeps
      split: if_splits prod.splits result.splits option.splits)

function read_some :: "('ctx, 'ssl) libssl \<Rightarrow> nat \<Rightarrow> ('ctx, 'ssl) async_tls \<Rightarrow> ('ctx, 'ssl, bytes) io_call" where
  "read_some L len a =
     (case read_some_pass L len a of Again a' \<Rightarrow> read_some L len a' | Return a' r \<Rightarrow> Some (a', r) | Pending \<Rightarrow> None)"
  by pat_completeness auto
termination
  by (relation "measure (\<lambda>(L, len, a). reads_left a)") (auto dest: read_some_pass_reads)

declare read_some.simps [simp del]

text \<open>The state of the loop of \<open>write_all\<close> is the connection and the number of bytes written.\<close>

definition write_pass ::
    "('ctx, 'ssl) libssl \<Rightarrow> bytes \<Rightarrow> ('ctx, 'ssl) async_tls \<times> nat \<Rightarrow> (('ctx, 'ssl) async_tls \<times> nat, (io_error, unit) result) pass" where
  "write_pass L bs aw =
     (case aw of (a, wr) \<Rightarrow>
        if wr \<ge> length bs then Return (a, wr) (Ok ())
        else
          (case tls_write L (drop wr bs) (at_tls a) of
             (c, Err e) \<Rightarrow> Return (a\<lparr>at_tls := c\<rparr>, wr) (Err (tls_to_io e))
           | (c, Ok len) \<Rightarrow>
               (case flush_tls_output L (a\<lparr>at_tls := c\<rparr>) of
                  None \<Rightarrow> Pending
                | Some (a, Err e) \<Rightarrow> Return (a, wr) (Err e)
                | Some (a, Ok _) \<Rightarrow>
                    if len = 0 then
                      (case receive L a of
                         None \<Rightarrow> Pending
                       | Some (a, Err e) \<Rightarrow> Return (a, wr) (Err e)
                       | Some (a, Ok n) \<Rightarrow>
                           if n = 0 then Return (a, wr) (Err (UnexpectedEof ''peer closed during TLS write''))
                           else Again (a, wr))
                    else Again (a, wr + len))))"

lemma write_pass_measure:
  "write_pass L bs (a, wr) = Again (a', wr') \<Longrightarrow>
     length bs - wr' < length bs - wr \<or> wr' = wr \<and> reads_left a' < reads_left a"
  by (auto simp: write_pass_def reads_left_def dest!: receive_reads flush_keeps
      split: if_splits prod.splits result.splits option.splits)

function write_loop :: "('ctx, 'ssl) libssl \<Rightarrow> bytes \<Rightarrow> ('ctx, 'ssl) async_tls \<times> nat \<Rightarrow> ('ctx, 'ssl, unit) io_call" where
  "write_loop L bs aw =
     (case write_pass L bs aw of Again aw' \<Rightarrow> write_loop L bs aw' | Return (a', wr) r \<Rightarrow> Some (a', r) | Pending \<Rightarrow> None)"
  by pat_completeness auto
termination
  by (relation "measures [\<lambda>(L, bs, a, wr). length bs - wr, \<lambda>(L, bs, a, wr). reads_left a]")
    (auto dest: write_pass_measure)

declare write_loop.simps [simp del]

definition write_all :: "('ctx, 'ssl) libssl \<Rightarrow> bytes \<Rightarrow> ('ctx, 'ssl) async_tls \<Rightarrow> ('ctx, 'ssl, unit) io_call" where
  "write_all L bs a =
     (case flush_tls_output L a of
        None \<Rightarrow> None
      | Some (a, Err e) \<Rightarrow> Some (a, Err e)
      | Some (a, Ok _) \<Rightarrow> write_loop L bs (a, 0))"

definition shutdown_clean :: "('ctx, 'ssl) libssl \<Rightarrow> ('ctx, 'ssl) async_tls \<Rightarrow> ('ctx, 'ssl) async_tls" where
  "shutdown_clean L a =
     (let a = a\<lparr>at_tls := fst (tls_shutdown L (at_tls a))\<rparr>
      in case flush_tls_output L a of None \<Rightarrow> a | Some (a, _) \<Rightarrow> a)"

section \<open>The frame reader\<close>

record frame_reader =
  fr_buffer :: bytes
  fr_filled :: nat
  fr_target :: nat
  fr_deadline :: instant

definition frame_reader_new :: "instant \<Rightarrow> frame_reader" where
  "frame_reader_new now =
     \<lparr>fr_buffer = replicate MAX_PACKET_LEN 0, fr_filled = 0, fr_target = 4, fr_deadline = now + IDLE_TIMEOUT\<rparr>"

text \<open>
  \<open>rd c n deadline\<close> is a read of at most \<open>n\<close> bytes that gives up at the deadline, and \<open>clock\<close> the time
  after it.
\<close>

type_synonym 'c reader = "'c \<Rightarrow> nat \<Rightarrow> instant \<Rightarrow> ('c \<times> (io_error, bytes) result) option"

text \<open>What becomes of the reader when \<open>d\<close> has been read at the time \<open>now\<close>.\<close>

definition frame_take :: "frame_reader \<Rightarrow> instant \<Rightarrow> bytes \<Rightarrow> (frame_reader, (io_error, bytes option) result) pass" where
  "frame_take fr now d =
     (if d = [] then
        Return fr (if fr_filled fr = 0 then Ok None else Err (UnexpectedEof ''peer closed mid-frame''))
      else
        let fr = fr\<lparr>fr_buffer := splice (fr_filled fr) d (fr_buffer fr), fr_filled := fr_filled fr + length d,
                    fr_deadline := now + IDLE_TIMEOUT\<rparr>
        in if fr_filled fr < fr_target fr then Again fr
           else if fr_target fr = 4 then
             let fr = fr\<lparr>fr_target := unat (u16_from_be [fr_buffer fr ! 2, fr_buffer fr ! 3])\<rparr>
             in if fr_target fr < MIN_PACKET_LEN \<or> fr_target fr > MAX_PACKET_LEN
                then Return fr (Err (InvalidData ''invalid RADIUS stream frame length''))
                else Again fr
           else Return (fr\<lparr>fr_filled := 0, fr_target := 4\<rparr>) (Ok (Some (take (fr_target fr) (fr_buffer fr)))))"

partial_function (option) frame_read ::
    "'c reader \<Rightarrow> ('c \<Rightarrow> instant) \<Rightarrow> frame_reader \<Rightarrow> 'c \<Rightarrow> (frame_reader \<times> 'c \<times> (io_error, bytes option) result) option" where
  "frame_read rd clock fr c =
     Option.bind (rd c (fr_target fr - fr_filled fr) (fr_deadline fr)) (\<lambda>(c, r).
       case r of
         Err e \<Rightarrow> Some (fr, c, Err e)
       | Ok d \<Rightarrow>
           (case frame_take fr (clock c) d of
              Again fr \<Rightarrow> frame_read rd clock fr c
            | Return fr r \<Rightarrow> Some (fr, c, r)
            | Pending \<Rightarrow> None))"

section \<open>What reaches the stream\<close>

text \<open>
  The bytes sent and those that are still to be sent of the output. No pass of the flush loop changes
  their concatenation, so a flush that is cancelled and taken up again neither loses nor repeats a byte.
\<close>

definition promised :: "('ctx, 'ssl) libssl \<Rightarrow> ('ctx, 'ssl) async_tls \<Rightarrow> bytes" where
  "promised L a = at_sent a @ drop (at_flushed a) (pending_output L (at_tls a))"

lemma take_drop_rejoin: "take k (drop f xs) @ drop (f + k) xs = drop f xs"
  by (metis append_take_drop_id drop_drop add.commute)

lemma flush_pass_promised:
  assumes "flush_pass L a = Again a'"
  shows "promised L a' = promised L a \<and> at_tls a' = at_tls a"
proof -
  obtain k where "a' = a\<lparr>at_writes := at_writes a', at_sent := at_sent a @ take k (drop (at_flushed a) (pending_output L (at_tls a))),
      at_flushed := at_flushed a + k\<rparr>"
    using assms by (auto simp: flush_pass_def Let_def split: if_splits prod.splits result.splits list.splits)
  then have "at_sent a' = at_sent a @ take k (drop (at_flushed a) (pending_output L (at_tls a)))"
    "at_flushed a' = at_flushed a + k" "at_tls a' = at_tls a" by (metis async_tls.select_convs async_tls.surjective async_tls.update_convs)+
  then show ?thesis by (simp add: promised_def take_drop_rejoin)
qed

lemma flush_sends:
  "flush_tls_output L a = Some (a', Ok ()) \<Longrightarrow>
     at_sent a' = promised L a \<and> at_flushed a' = 0 \<and> consume_output L (at_tls a) = (at_tls a', Ok ())"
proof (induction L a rule: flush_tls_output.induct)
  case (1 L a)
  show ?case
  proof (cases "flush_pass L a")
    case (Again b)
    then have "flush_tls_output L b = Some (a', Ok ())" using 1(2) by (simp add: flush_tls_output.simps [of L a])
    then show ?thesis using 1(1) [OF Again] flush_pass_promised [OF Again] by simp
  next
    case (Return b r)
    then have "flush_pass L a = Return a' (Ok ())" using 1(2) by (simp add: flush_tls_output.simps [of L a])
    then show ?thesis
      by (auto simp: flush_pass_def promised_def Let_def split: if_splits prod.splits result.splits list.splits)
  next
    case Pending
    then show ?thesis using 1(2) by (simp add: flush_tls_output.simps [of L a])
  qed
qed

text \<open>A handshake that succeeds has been completed by the library.\<close>

lemma handshake_established:
  "handshake_loop L a = Some (a', Ok ()) \<Longrightarrow> conn_handshake_done (at_tls a')"
proof (induction L a rule: handshake_loop.induct)
  case (1 L a)
  show ?case
  proof (cases "handshake_pass L a")
    case (Again b)
    then show ?thesis using 1 by (simp add: handshake_loop.simps [of L a])
  next
    case (Return b r)
    then have "handshake_pass L a = Return a' (Ok ())" using 1(2) by (simp add: handshake_loop.simps [of L a])
    then obtain c b where "tls_process L (at_tls a) = (c, Ok Established)"
      "flush_tls_output L (a\<lparr>at_tls := c\<rparr>) = Some (a', b)"
      by (auto simp: handshake_pass_def split: if_splits prod.splits result.splits option.splits)
    moreover from this(1) have "conn_handshake_done c"
      by (auto simp: tls_process_def Let_def split: if_splits prod.splits option.splits ssl_error.splits)
    ultimately show ?thesis using flush_keeps by fastforce
  next
    case Pending
    then show ?thesis using 1(2) by (simp add: handshake_loop.simps [of L a])
  qed
qed

section \<open>What is said over a connection\<close>

text \<open>
  The plaintext that \<open>read\<close> hands out and that \<open>write\<close> accepts in one operation, and in a run of operations:
  \<open>talked L c0 d w c\<close> when the operations that lead from \<open>c0\<close> to \<open>c\<close> have handed out \<open>d\<close> and accepted \<open>w\<close>.
\<close>

fun tls_got :: "('ctx, 'ssl) libssl \<Rightarrow> tls_op \<Rightarrow> ('ctx, 'ssl) tls_connection \<Rightarrow> bytes" where
  "tls_got L (OpRead n) c = (case snd (tls_read L n c) of Ok d \<Rightarrow> d | Err _ \<Rightarrow> [])"
| "tls_got L _ c = []"

fun tls_put :: "('ctx, 'ssl) libssl \<Rightarrow> tls_op \<Rightarrow> ('ctx, 'ssl) tls_connection \<Rightarrow> bytes" where
  "tls_put L (OpWrite bs) c = (case snd (tls_write L bs c) of Ok n \<Rightarrow> take n bs | Err _ \<Rightarrow> [])"
| "tls_put L _ c = []"

inductive talked :: "('ctx, 'ssl) libssl \<Rightarrow> ('ctx, 'ssl) tls_connection \<Rightarrow> bytes \<Rightarrow> bytes \<Rightarrow> ('ctx, 'ssl) tls_connection \<Rightarrow> bool"
  for L c0 where
  talk_start: "talked L c0 [] [] c0"
| talk_op: "talked L c0 d w c \<Longrightarrow> talked L c0 (d @ tls_got L opn c) (w @ tls_put L opn c) (tls_apply L opn c)"

lemma talked_quiet:
  assumes "talked L c0 d w c"
  shows "talked L c0 d w (fst (feed_input L bs c))" "talked L c0 d w (fst (consume_output L c))"
    "talked L c0 d w (fst (request_key_update L c))"
  using talk_op [OF assms, of "OpFeed bs"] talk_op [OF assms, of OpConsume] talk_op [OF assms, of OpKeyUpdate] by simp_all

lemma talked_read: "talked L c0 d w c \<Longrightarrow> tls_read L n c = (c', Ok e) \<Longrightarrow> talked L c0 (d @ e) w c'"
  using talk_op [of L c0 d w c "OpRead n"] by simp

lemma talked_read_Err: "talked L c0 d w c \<Longrightarrow> tls_read L n c = (c', Err e) \<Longrightarrow> talked L c0 d w c'"
  using talk_op [of L c0 d w c "OpRead n"] by simp

lemma talked_write: "talked L c0 d w c \<Longrightarrow> tls_write L bs c = (c', Ok n) \<Longrightarrow> talked L c0 d (w @ take n bs) c'"
  using talk_op [of L c0 d w c "OpWrite bs"] by simp

lemma talked_write_Err: "talked L c0 d w c \<Longrightarrow> tls_write L bs c = (c', Err e) \<Longrightarrow> talked L c0 d w c'"
  using talk_op [of L c0 d w c "OpWrite bs"] by simp

lemma flush_pass_talked:
  assumes "flush_pass L a = Again a' \<or> flush_pass L a = Return a' r" and "talked L c0 d w (at_tls a)"
  shows "talked L c0 d w (at_tls a')"
  using assms talked_quiet(2) [OF assms(2)]
  by (auto simp: flush_pass_def Let_def split: if_splits prod.splits result.splits list.splits)

lemma flush_talked:
  "flush_tls_output L a = Some (a', r) \<Longrightarrow> talked L c0 d w (at_tls a) \<Longrightarrow> talked L c0 d w (at_tls a')"
proof (induction L a rule: flush_tls_output.induct)
  case (1 L a)
  with flush_pass_talked [of L a _ r] show ?case by (subst (asm) (2) flush_tls_output.simps) (auto split: pass.splits)
qed

lemma receive_talked:
  assumes "receive L a = Some (a', r)" and "talked L c0 d w (at_tls a)"
  shows "talked L c0 d w (at_tls a')"
  using assms talked_quiet(1) [OF assms(2)]
  by (auto simp: receive_def Let_def split: if_splits prod.splits result.splits list.splits) (metis fst_conv)+

lemma read_some_pass_talked:
  assumes "talked L c0 d w (at_tls a)"
  shows "read_some_pass L n a = Again a' \<Longrightarrow> talked L c0 d w (at_tls a')"
    and "read_some_pass L n a = Return a' (Ok e) \<Longrightarrow> talked L c0 (d @ e) w (at_tls a')"
    and "read_some_pass L n a = Return a' (Err x) \<Longrightarrow> talked L c0 d w (at_tls a')"
  using assms by (auto simp: read_some_pass_def Let_def split: if_splits prod.splits result.splits option.splits
      dest!: flush_talked [of L _ _ _ c0 d w] receive_talked [of L _ _ _ c0 d w] dest: talked_read talked_read_Err)

lemma read_some_talked:
  "read_some L n a = Some (a', r) \<Longrightarrow> talked L c0 d w (at_tls a) \<Longrightarrow>
     talked L c0 (d @ (case r of Ok e \<Rightarrow> e | Err _ \<Rightarrow> [])) w (at_tls a')"
proof (induction L n a rule: read_some.induct)
  case (1 L n a)
  note pass = read_some_pass_talked [OF 1(3), of n]
  show ?case
  proof (cases "read_some_pass L n a")
    case (Again b)
    then show ?thesis using 1 pass(1) [OF Again] by (simp add: read_some.simps [of L n a])
  next
    case (Return b x)
    then show ?thesis using 1(2) pass(2,3) by (cases r) (simp_all add: read_some.simps [of L n a])
  next
    case Pending
    then show ?thesis using 1(2) by (simp add: read_some.simps [of L n a])
  qed
qed

text \<open>A write that succeeds has been accepted whole, and one that fails up to some byte.\<close>

lemma write_loop_talked:
  "write_loop L bs (a, wr) = Some (a', r) \<Longrightarrow> talked L c0 d (w @ take wr bs) (at_tls a) \<Longrightarrow>
     \<exists>k. talked L c0 d (w @ take k bs) (at_tls a') \<and> (r = Ok () \<longrightarrow> take k bs = bs)"
proof (induction L bs "(a, wr)" arbitrary: a wr rule: write_loop.induct)
  case (1 L bs a wr)
  have tw: "talked L c0 d (w @ take (wr + len) bs) c" if "tls_write L (drop wr bs) (at_tls a) = (c, Ok len)" for c len
    using talked_write [OF 1(3) that] by (simp add: take_add)
  show ?case
  proof (cases "write_pass L bs (a, wr)")
    case (Again aw)
    obtain b wr' where aw: "aw = (b, wr')" by (cases aw)
    have "talked L c0 d (w @ take wr' bs) (at_tls b)"
      using Again aw tw by (auto simp: write_pass_def split: if_splits prod.splits result.splits option.splits
          dest!: flush_talked [of L _ _ _ c0 d] receive_talked [of L _ _ _ c0 d])
    then show ?thesis using 1(1) [of b wr'] 1(2) Again aw by (simp add: write_loop.simps [of L bs "(a, wr)"])
  next
    case (Return aw x)
    obtain b wr' where aw: "aw = (b, wr')" by (cases aw)
    have r: "b = a'" "x = r" using 1(2) Return aw by (simp_all add: write_loop.simps [of L bs "(a, wr)"])
    show ?thesis
    proof (cases "length bs \<le> wr")
      case True
      then show ?thesis using Return aw r 1(3) by (intro exI [of _ wr]) (auto simp: write_pass_def)
    next
      case False
      then obtain c y where y: "tls_write L (drop wr bs) (at_tls a) = (c, y)" by (cases "tls_write L (drop wr bs) (at_tls a)")
      show ?thesis
      proof (cases y)
        case (Err e)
        then show ?thesis using False y Return aw r talked_write_Err [OF 1(3)] by (intro exI [of _ wr]) (auto simp: write_pass_def)
      next
        case (Ok len)
        have "talked L c0 d (w @ take (wr + len) bs) (at_tls (a\<lparr>at_tls := c\<rparr>))" using tw y Ok by simp
        then show ?thesis using False y Ok Return aw r
          by (intro exI [of _ "wr + len"]) (auto simp: write_pass_def split: if_splits result.splits option.splits prod.splits
              dest!: flush_talked [of L _ _ _ c0 d] receive_talked [of L _ _ _ c0 d])
      qed
    qed
  next
    case Pending
    then show ?thesis using 1(2) by (simp add: write_loop.simps [of L bs "(a, wr)"])
  qed
qed

lemma write_all_talked:
  assumes "write_all L bs a = Some (a', r)" and "talked L c0 d w (at_tls a)"
  shows "\<exists>k. talked L c0 d (w @ take k bs) (at_tls a') \<and> (r = Ok () \<longrightarrow> take k bs = bs)"
proof -
  obtain b x where f: "flush_tls_output L a = Some (b, x)" using assms(1) by (auto simp: write_all_def split: option.splits)
  have t: "talked L c0 d (w @ take 0 bs) (at_tls b)" using flush_talked [OF f assms(2)] by simp
  show ?thesis
  proof (cases x)
    case (Ok u)
    then show ?thesis using write_loop_talked [OF _ t] assms(1) f by (simp add: write_all_def)
  next
    case (Err e)
    then show ?thesis using t assms(1) f by (intro exI [of _ 0]) (auto simp: write_all_def)
  qed
qed

text \<open>
  What a read that is dropped at one of its await points leaves of the connection: it was flushing output,
  before or after it asked for plaintext, or it was waiting for the socket.
\<close>

inductive flush_cancelled :: "('ctx, 'ssl) libssl \<Rightarrow> ('ctx, 'ssl) async_tls \<Rightarrow> ('ctx, 'ssl) async_tls \<Rightarrow> bool"
  for L where
  "flush_cancelled L a a"
| "flush_pass L a = Again b \<Longrightarrow> flush_cancelled L b a' \<Longrightarrow> flush_cancelled L a a'"

inductive read_cancelled :: "('ctx, 'ssl) libssl \<Rightarrow> nat \<Rightarrow> ('ctx, 'ssl) async_tls \<Rightarrow> ('ctx, 'ssl) async_tls \<Rightarrow> bool"
  for L n where
  InFlush: "flush_cancelled L a a' \<Longrightarrow> read_cancelled L n a a'"
| InSecondFlush: "flush_tls_output L a = Some (b, Ok ()) \<Longrightarrow> tls_read L n (at_tls b) = (c, Ok []) \<Longrightarrow>
    flush_cancelled L (b\<lparr>at_tls := c\<rparr>) a' \<Longrightarrow> read_cancelled L n a a'"
| InReceive: "flush_tls_output L a = Some (b, Ok ()) \<Longrightarrow> tls_read L n (at_tls b) = (c, Ok []) \<Longrightarrow>
    flush_tls_output L (b\<lparr>at_tls := c\<rparr>) = Some (a', Ok ()) \<Longrightarrow> read_cancelled L n a a'"
| NextRound: "read_some_pass L n a = Again b \<Longrightarrow> read_cancelled L n b a' \<Longrightarrow> read_cancelled L n a a'"

lemma flush_cancelled_talked: "flush_cancelled L a a' \<Longrightarrow> talked L c0 d w (at_tls a) \<Longrightarrow> talked L c0 d w (at_tls a')"
  by (induction rule: flush_cancelled.induct) (blast intro: flush_pass_talked)+

lemma read_cancelled_talked: "read_cancelled L n a a' \<Longrightarrow> talked L c0 d w (at_tls a) \<Longrightarrow> talked L c0 d w (at_tls a')"
proof (induction rule: read_cancelled.induct)
  case (InSecondFlush a b c a')
  have "talked L c0 d w (at_tls (b\<lparr>at_tls := c\<rparr>))" using talked_read [OF flush_talked [OF InSecondFlush(1,4)] InSecondFlush(2)] by simp
  then show ?case by (rule flush_cancelled_talked [OF InSecondFlush(3)])
next
  case (InReceive a b c a')
  have "talked L c0 d w (at_tls (b\<lparr>at_tls := c\<rparr>))" using talked_read [OF flush_talked [OF InReceive(1,4)] InReceive(2)] by simp
  then show ?case by (rule flush_talked [OF InReceive(3)])
qed (auto dest: flush_cancelled_talked read_some_pass_talked(1))

text \<open>\<open>SSL_read\<close> writes at most as many bytes as the buffer it is given can hold.\<close>

definition bounded_reads :: "('ctx, 'ssl) libssl \<Rightarrow> bool" where
  "bounded_reads L \<longleftrightarrow> (\<forall>s n. length (snd (snd (SSL_read L s n))) \<le> n)"

lemma tls_read_length:
  assumes "bounded_reads L" and "tls_read L n c = (c', Ok d)"
  shows "length d \<le> n"
proof -
  obtain s r e where e: "SSL_read L (conn_ssl c) (c_int_len n) = (s, r, e)" by (metis surj_pair)
  have "length e \<le> c_int_len n" using assms(1) e unfolding bounded_reads_def by (metis snd_conv)
  then show ?thesis using assms(2) e
    by (auto simp: tls_read_def c_int_len_def split: if_splits ssl_error.splits)
qed

lemma read_some_length: "bounded_reads L \<Longrightarrow> read_some L n a = Some (a', Ok d) \<Longrightarrow> length d \<le> n"
proof (induction L n a rule: read_some.induct)
  case (1 L n a)
  show ?case
  proof (cases "read_some_pass L n a")
    case (Again b)
    then show ?thesis using 1 by (simp add: read_some.simps [of L n a])
  next
    case (Return b x)
    then have "read_some_pass L n a = Return a' (Ok d)" using 1(3) by (simp add: read_some.simps [of L n a])
    then show ?thesis
      by (auto simp: read_some_pass_def Let_def dest: tls_read_length [OF 1(2)] split: if_splits prod.splits result.splits option.splits)
  next
    case Pending
    then show ?thesis using 1(3) by (simp add: read_some.simps [of L n a])
  qed
qed

section \<open>Frames\<close>

text \<open>A packet whose length field is its length, and four bytes of a header with a length out of range.\<close>

definition framed :: "bytes \<Rightarrow> bool" where
  "framed p \<longleftrightarrow> MIN_PACKET_LEN \<le> length p \<and> length p \<le> MAX_PACKET_LEN \<and> unat (u16_from_be [p ! 2, p ! 3]) = length p"

definition bad_length :: "bytes \<Rightarrow> bool" where
  "bad_length x \<longleftrightarrow> length x = 4
     \<and> (unat (u16_from_be [x ! 2, x ! 3]) < MIN_PACKET_LEN \<or> MAX_PACKET_LEN < unat (u16_from_be [x ! 2, x ! 3]))"

text \<open>A frame of which bytes are missing.\<close>

definition unfinished :: "bytes \<Rightarrow> bool" where
  "unfinished x \<longleftrightarrow> length x < 4 \<or> length x < unat (u16_from_be [x ! 2, x ! 3])"

text \<open>The reader when it has taken the bytes \<open>x\<close> of the next frame.\<close>

definition reading :: "bytes \<Rightarrow> frame_reader \<Rightarrow> bool" where
  "reading x fr \<longleftrightarrow>
     length (fr_buffer fr) = MAX_PACKET_LEN \<and> fr_filled fr = length x \<and> take (length x) (fr_buffer fr) = x \<and> length x < fr_target fr
     \<and> (fr_target fr = 4
        \<or> 4 \<le> length x \<and> fr_target fr = unat (u16_from_be [x ! 2, x ! 3]) \<and> MIN_PACKET_LEN \<le> fr_target fr \<and> fr_target fr \<le> MAX_PACKET_LEN)"

lemma reading_unfinished: "reading x fr \<Longrightarrow> unfinished x"
  by (auto simp: reading_def unfinished_def)

lemma reading_new: "reading [] (frame_reader_new now)"
  by (simp add: reading_def frame_reader_new_def)

lemma take_splice_end:
  "off + length d \<le> length b \<Longrightarrow> take (off + length d) (splice off d b) = take off b @ d"
  by (simp add: splice_def)

lemma frame_take_reading:
  assumes "reading x fr" and "length d \<le> fr_target fr - length x"
  obtains
    (Ended) "d = []" "frame_take fr now d = Return fr (if x = [] then Ok None else Err (UnexpectedEof ''peer closed mid-frame''))"
  | (More) fr' where "d \<noteq> []" "frame_take fr now d = Again fr'" "reading (x @ d) fr'"
  | (Frame) fr' where "d \<noteq> []" "frame_take fr now d = Return fr' (Ok (Some (x @ d)))" "reading [] fr'" "framed (x @ d)"
  | (Refused) fr' where "d \<noteq> []" "frame_take fr now d = Return fr' (Err (InvalidData ''invalid RADIUS stream frame length''))"
      "bad_length (x @ d)"
proof -
  let ?b = "splice (length x) d (fr_buffer fr)" and ?y = "x @ d"
  have r: "length (fr_buffer fr) = MAX_PACKET_LEN" "fr_filled fr = length x" "take (length x) (fr_buffer fr) = x" "length x < fr_target fr"
    using assms(1) by (auto simp: reading_def)
  have n: "length ?y \<le> fr_target fr" using assms(2) r(4) by simp
  have t: "fr_target fr \<le> MAX_PACKET_LEN" using assms(1) by (auto simp: reading_def)
  have b: "length ?b = MAX_PACKET_LEN" "take (length ?y) ?b = ?y"
    using take_splice_end [of "length x" d "fr_buffer fr"] n t r by simp_all
  have nth: "?b ! i = ?y ! i" if "i < length ?y" for i
    using b(2) nth_take [OF that, of ?b] by simp
  consider "d = []" | "d \<noteq> []" "length ?y < fr_target fr" | "d \<noteq> []" "length ?y = 4" "fr_target fr = 4"
    | "d \<noteq> []" "length ?y = fr_target fr" "fr_target fr \<noteq> 4" using n by fastforce
  then show thesis
  proof cases
    case 1
    then show ?thesis using r Ended by (simp add: frame_take_def)
  next
    case 2
    have h: "4 \<le> length x \<Longrightarrow> ?y ! 2 = x ! 2 \<and> ?y ! 3 = x ! 3" by (simp add: nth_append)
    show ?thesis by (rule More [OF 2(1)]) (use 2 r b h assms(1) in \<open>auto simp: frame_take_def reading_def Let_def\<close>)
  next
    case 3
    have "?b ! 2 = ?y ! 2" "?b ! 3 = ?y ! 3" using nth 3(2) by simp_all
    then show ?thesis using 3 r b More [OF 3(1)] Refused [OF 3(1)]
      by (cases "bad_length ?y") (auto simp: frame_take_def reading_def bad_length_def Let_def)
  next
    case 4
    have h: "4 \<le> length x" "fr_target fr = unat (u16_from_be [x ! 2, x ! 3])" "MIN_PACKET_LEN \<le> fr_target fr"
      using assms(1) 4(3) by (auto simp: reading_def)
    then have "framed ?y" using 4(2) t by (simp add: framed_def nth_append)
    then show ?thesis using 4 r b Frame [OF 4(1)] by (auto simp: frame_take_def reading_def Let_def)
  qed
qed

text \<open>
  The reader on a connection whose reads come to an end, with at most as many bytes as asked for: it reads
  until the frame is complete. \<open>says x c\<close> is any account of the bytes \<open>x\<close> that reads have returned on the way to \<open>c\<close>.
\<close>

lemma frame_read_says:
  assumes reads_end: "\<And>c n dl. \<exists>c' r. rd c n dl = Some (c', r)"
    and reads_short: "\<And>c n dl c' d. rd c n dl = Some (c', Ok d) \<Longrightarrow> length d \<le> n"
    and says_read: "\<And>x c n dl c' d. says x c \<Longrightarrow> rd c n dl = Some (c', Ok d) \<Longrightarrow> says (x @ d) c'"
    and says_failed: "\<And>x c n dl c' e. says x c \<Longrightarrow> rd c n dl = Some (c', Err e) \<Longrightarrow> says x c'"
    and "reading x fr" and "says (u @ x) c"
  shows "\<exists>fr' c' r. frame_read rd clock fr c = Some (fr', c', r)
    \<and> (case r of
         Ok (Some p) \<Rightarrow> framed p \<and> reading [] fr' \<and> says (u @ p) c'
       | Ok None \<Rightarrow> \<exists>c1 n dl. says u c1 \<and> rd c1 n dl = Some (c', Ok [])
       | Err e \<Rightarrow> \<exists>y. says (u @ y) c' \<and> (bad_length y
           \<or> unfinished y \<and> (\<exists>c1 n dl. says (u @ y) c1 \<and> (rd c1 n dl = Some (c', Err e) \<or> y \<noteq> [] \<and> rd c1 n dl = Some (c', Ok [])))))"
  using assms(5,6)
proof (induction "MAX_PACKET_LEN - length x" arbitrary: x fr c rule: less_induct)
  case less
  let ?n = "fr_target fr - fr_filled fr"
  have f: "fr_filled fr = length x" "length x < MAX_PACKET_LEN" using less.prems(1) by (auto simp: reading_def)
  obtain c1 r where r: "rd c ?n (fr_deadline fr) = Some (c1, r)" using reads_end by blast
  show ?case
  proof (cases r)
    case (Err e)
    then show ?thesis using r less.prems(2) says_failed reading_unfinished [OF less.prems(1)] by (subst frame_read.simps) (auto intro!: exI [of _ x])
  next
    case (Ok d)
    have d: "length d \<le> fr_target fr - length x" using reads_short r Ok f by metis
    have s: "says (u @ x @ d) c1" using says_read [OF less.prems(2)] r Ok by simp
    from less.prems(1) d show ?thesis
    proof (cases rule: frame_take_reading [where now = "clock c1"])
      case Ended
      then show ?thesis using r Ok s less.prems(2) reading_unfinished [OF less.prems(1)] by (subst frame_read.simps) (cases "x = []"; fastforce)
    next
      case (More fr')
      have "MAX_PACKET_LEN - length (x @ d) < MAX_PACKET_LEN - length x" using f More(1) by (cases d) auto
      from less.hyps [OF this More(3) s] show ?thesis using r Ok More by (subst frame_read.simps) simp
    next
      case (Frame fr')
      then show ?thesis using r Ok s by (subst frame_read.simps) simp
    next
      case (Refused fr')
      then show ?thesis using r Ok s by (subst frame_read.simps) (auto intro!: exI [of _ "x @ d"])
    qed
  qed
qed

definition demo_frame :: bytes where
  "demo_frame = [2, 7, 0, 20, 1, 2, 3, 4, 5, 6, 7, 8, 9, 10, 11, 12, 13, 14, 15, 16]"

end
