(* ===== verification/Crypto.thy ===== *)
theory Crypto
  imports Prelude
begin

text \<open>
  The boundary of \<^verbatim>\<open>src/crypto\<close>. The digests, the MAC, the block cipher, the constant-time
  comparison and the random source come from aws-lc or fast-md5, which are not part of the
  repository: they are the fields of the record \<open>crypto\<close>, an argument of every definition
  that uses them. \<open>wf_crypto\<close> names what the code relies on: the digest sizes their types fix
  and that \<open>CRYPTO_memcmp\<close> returns 0 exactly on equal buffers. The streaming wrappers
  (\<open>Md5\<close>, \<open>HmacMd5\<close>, \<open>Sha1\<close>) accumulate their input, which is the documented contract of the
  streaming interfaces they call.
\<close>

section \<open>External primitives\<close>

record crypto =
  md5 :: "bytes \<Rightarrow> bytes"
  hmac_md5 :: "bytes \<Rightarrow> bytes \<Rightarrow> bytes"
  md4 :: "bytes \<Rightarrow> bytes"
  sha1 :: "bytes \<Rightarrow> bytes"
  des_ecb :: "bytes \<Rightarrow> bytes \<Rightarrow> bytes"
  crypto_memcmp :: "bytes \<Rightarrow> bytes \<Rightarrow> nat \<Rightarrow> int"

definition wf_crypto :: "crypto \<Rightarrow> bool" where
  "wf_crypto C \<longleftrightarrow>
     (\<forall>x. length (md5 C x) = 16) \<and>
     (\<forall>k x. length (hmac_md5 C k x) = 16) \<and>
     (\<forall>x. length (md4 C x) = 16) \<and>
     (\<forall>x. length (sha1 C x) = 20) \<and>
     (\<forall>k x. length (des_ecb C k x) = 8) \<and>
     (\<forall>a b. length a = length b \<longrightarrow> (crypto_memcmp C a b (length a) = 0 \<longleftrightarrow> a = b))"

section \<open>Wrappers\<close>

definition ct_eq :: "crypto \<Rightarrow> bytes \<Rightarrow> bytes \<Rightarrow> bool" where
  "ct_eq C a b =
     (if length a \<noteq> length b then False
      else crypto_memcmp C a b (length a) = 0)"

text \<open>\<open>Md5\<close>: a streaming MD5 context.\<close>

record md5_ctx =
  md5_data :: bytes

definition md5_new :: md5_ctx where
  "md5_new = \<lparr>md5_data = []\<rparr>"

definition md5_update :: "bytes \<Rightarrow> md5_ctx \<Rightarrow> md5_ctx" where
  "md5_update data ctx = ctx\<lparr>md5_data := md5_data ctx @ data\<rparr>"

definition md5_finalize :: "crypto \<Rightarrow> md5_ctx \<Rightarrow> bytes" where
  "md5_finalize C ctx = md5 C (md5_data ctx)"

text \<open>\<open>HmacMd5\<close>: a streaming HMAC-MD5 context.\<close>

record hmac_md5_ctx =
  hmac_key :: bytes
  hmac_data :: bytes

definition hmac_md5_new :: "bytes \<Rightarrow> hmac_md5_ctx" where
  "hmac_md5_new key = \<lparr>hmac_key = key, hmac_data = []\<rparr>"

definition hmac_md5_update :: "bytes \<Rightarrow> hmac_md5_ctx \<Rightarrow> hmac_md5_ctx" where
  "hmac_md5_update data ctx = ctx\<lparr>hmac_data := hmac_data ctx @ data\<rparr>"

definition hmac_md5_finalize :: "crypto \<Rightarrow> hmac_md5_ctx \<Rightarrow> bytes" where
  "hmac_md5_finalize C ctx = hmac_md5 C (hmac_key ctx) (hmac_data ctx)"

section \<open>Facts\<close>

lemma length_digests [simp, length_simps]:
  assumes "wf_crypto C"
  shows "length (md5 C x) = 16" and "length (hmac_md5 C k x) = 16"
    and "length (md4 C x) = 16" and "length (sha1 C x) = 20" and "length (des_ecb C k x) = 8"
  using assms by (simp_all add: wf_crypto_def)

lemma memcmp_iff:
  assumes "wf_crypto C" and "length a = length b"
  shows "crypto_memcmp C a b (length a) = 0 \<longleftrightarrow> a = b"
  using assms unfolding wf_crypto_def by blast

lemma ct_eq_iff [simp]: "wf_crypto C \<Longrightarrow> ct_eq C a b \<longleftrightarrow> a = b"
  using memcmp_iff [of C a b] by (auto simp: ct_eq_def)

lemmas md5_stream [codec_defs] =
  md5_new_def md5_update_def md5_finalize_def

lemmas hmac_stream [codec_defs] =
  hmac_md5_new_def hmac_md5_update_def hmac_md5_finalize_def

text \<open>
  A concrete instance, used by the witnesses: checksums that are not secure but have the
  sizes and the comparison behaviour the code relies on.
\<close>

definition toy_sum :: "bytes \<Rightarrow> u8" where
  "toy_sum x = foldl (\<lambda>a b. 3 * a + b + 1) 0 x"

definition toy_crypto :: crypto where
  "toy_crypto =
     \<lparr>md5 = (\<lambda>x. replicate 16 (toy_sum x)),
      hmac_md5 = (\<lambda>k x. replicate 16 (toy_sum k + 5 * toy_sum x)),
      md4 = (\<lambda>x. replicate 16 (toy_sum x)),
      sha1 = (\<lambda>x. replicate 20 (toy_sum x)),
      des_ecb = (\<lambda>k x. replicate 8 (toy_sum k + 7 * toy_sum x)),
      crypto_memcmp = (\<lambda>a b n. if take n a = take n b then 0 else 1)\<rparr>"

lemma wf_toy_crypto [simp]: "wf_crypto toy_crypto"
  by (simp add: wf_crypto_def toy_crypto_def)

end
