(* ===== verification/Message_Authenticator.thy ===== *)
theory Message_Authenticator
  imports Crypto Packet_Buffer
begin

text \<open>
  \<^verbatim>\<open>src/codec/authenticator.rs\<close> (Request and Response Authenticator) and
  \<^verbatim>\<open>src/codec/message_authenticator.rs\<close> (attribute 80), with the two request-sealing methods of
  \<open>PacketBuffer\<close> that combine them. The lemmas give \<open>compute\<close> and \<open>verify\<close> as equations over the
  list of attributes of the packet: what the HMAC covers, and exactly when a packet is
  valid, invalid, or carries no Message-Authenticator.
\<close>

section \<open>Authenticators\<close>

text \<open>\<open>random_request_authenticator\<close>: the 16 bytes the random source delivers.\<close>

definition random_request_authenticator :: "bytes \<Rightarrow> bytes" where
  "random_request_authenticator rnd = take 16 rnd"

definition md5_with_substitute :: "crypto \<Rightarrow> bytes \<Rightarrow> bytes \<Rightarrow> bytes \<Rightarrow> bytes" where
  "md5_with_substitute C packet substitute secret =
     (let ctx = md5_new;
          ctx = md5_update (take 4 packet) ctx;
          ctx = md5_update substitute ctx;
          ctx = md5_update (drop MIN_PACKET_LEN packet) ctx;
          ctx = md5_update secret ctx
      in md5_finalize C ctx)"

definition compute_response :: "crypto \<Rightarrow> bytes \<Rightarrow> bytes \<Rightarrow> bytes \<Rightarrow> bytes" where
  "compute_response C packet request_authenticator secret =
     md5_with_substitute C packet request_authenticator secret"

definition verify_response :: "crypto \<Rightarrow> bytes \<Rightarrow> bytes \<Rightarrow> bytes \<Rightarrow> bool" where
  "verify_response C packet request_authenticator secret =
     (if length packet < MIN_PACKET_LEN then False
      else let computed = compute_response C packet request_authenticator secret
           in ct_eq C (take 16 (drop 4 packet)) computed)"

definition compute_zeroed_request :: "crypto \<Rightarrow> bytes \<Rightarrow> bytes \<Rightarrow> bytes" where
  "compute_zeroed_request C packet secret = md5_with_substitute C packet (replicate 16 0) secret"

definition verify_zeroed_request :: "crypto \<Rightarrow> bytes \<Rightarrow> bytes \<Rightarrow> bool" where
  "verify_zeroed_request C packet secret =
     (if length packet < MIN_PACKET_LEN then False
      else let computed = compute_zeroed_request C packet secret
           in ct_eq C (take 16 (drop 4 packet)) computed)"

section \<open>Message-Authenticator\<close>

definition MA_TYPE :: u8 where [simp]: "MA_TYPE = 80"
definition TLV_LEN :: u8 where [simp]: "TLV_LEN = 18"
definition VALUE_LEN :: nat where [simp]: "VALUE_LEN = 16"

datatype verification = Absent | Valid | Invalid

function find_value_offset_from :: "bytes \<Rightarrow> nat \<Rightarrow> nat option" where
  "find_value_offset_from packet offset =
     (if offset < length packet then
        let rest = drop offset packet
        in if length rest < 2 then None
           else
             let len = unat (rest ! 1)
             in if len < 2 \<or> len > length rest then None
                else if rest ! 0 = MA_TYPE \<and> rest ! 1 = TLV_LEN then Some (offset + 2)
                else find_value_offset_from packet (offset + len)
      else None)"
  by pat_completeness auto
termination
  by (relation "measure (\<lambda>(packet, offset). length packet - offset)") auto

definition find_value_offset :: "bytes \<Rightarrow> nat option" where
  "find_value_offset packet =
     (if length packet < MIN_PACKET_LEN then None
      else find_value_offset_from packet MIN_PACKET_LEN)"

function count_value_offsets_from :: "bytes \<Rightarrow> nat \<Rightarrow> nat \<Rightarrow> nat" where
  "count_value_offsets_from packet count offset =
     (if offset < length packet then
        let rest = drop offset packet
        in if length rest < 2 then count
           else
             let len = unat (rest ! 1)
             in if len < 2 \<or> len > length rest then count
                else
                  let count = (if rest ! 0 = MA_TYPE \<and> rest ! 1 = TLV_LEN then count + 1 else count)
                  in count_value_offsets_from packet count (offset + len)
      else count)"
  by pat_completeness auto
termination
  by (relation "measure (\<lambda>(packet, count, offset). length packet - offset)") auto

definition count_value_offsets :: "bytes \<Rightarrow> nat" where
  "count_value_offsets packet =
     (if length packet < MIN_PACKET_LEN then 0
      else count_value_offsets_from packet 0 MIN_PACKET_LEN)"

text \<open>The loop of \<open>compute\<close>: feed every slot to the HMAC, an attribute-80 slot with its value zeroed.\<close>

function ma_feed :: "bytes \<Rightarrow> hmac_md5_ctx \<Rightarrow> hmac_md5_ctx" where
  "ma_feed rest hmac =
     (if rest = [] then hmac
      else if length rest < 2 then hmac_md5_update rest hmac
      else
        let len = unat (rest ! 1)
        in if len < 2 \<or> len > length rest then hmac_md5_update rest hmac
           else
             let slot = take len rest; after = drop len rest
             in if slot ! 0 = MA_TYPE \<and> length slot = unat TLV_LEN
                then ma_feed after (hmac_md5_update (replicate VALUE_LEN 0) (hmac_md5_update (take 2 slot) hmac))
                else ma_feed after (hmac_md5_update slot hmac))"
  by pat_completeness auto
termination
  by (relation "measure (\<lambda>(rest, hmac). length rest)") auto

definition compute :: "crypto \<Rightarrow> bytes \<Rightarrow> bytes \<Rightarrow> bytes \<Rightarrow> bytes" where
  "compute C packet request_authenticator secret =
     (let hmac = hmac_md5_new secret;
          hmac = hmac_md5_update (take 4 packet) hmac;
          hmac = hmac_md5_update request_authenticator hmac;
          hmac = ma_feed (drop MIN_PACKET_LEN packet) hmac
      in hmac_md5_finalize C hmac)"

text \<open>The loop of \<open>verify\<close>; \<open>None\<close> is the early return of \<open>Invalid\<close>.\<close>

fun ma_scan :: "item list \<Rightarrow> nat option \<Rightarrow> nat \<Rightarrow> nat option option" where
  "ma_scan [] value_offset offset = Some value_offset"
| "ma_scan (Err _ # xs) value_offset offset = None"
| "ma_scan (Ok a # xs) value_offset offset =
     (if attribute_type a = MA_TYPE then
        if wire_len a \<noteq> TLV_LEN \<or> value_offset \<noteq> None then None
        else ma_scan xs (Some (offset + 2)) (offset + unat (wire_len a))
      else ma_scan xs value_offset (offset + unat (wire_len a)))"

definition verify :: "crypto \<Rightarrow> bytes \<Rightarrow> bytes \<Rightarrow> bytes \<Rightarrow> verification" where
  "verify C packet request_authenticator secret =
     (if length packet < MIN_PACKET_LEN then Invalid
      else case ma_scan (items (drop MIN_PACKET_LEN packet)) None MIN_PACKET_LEN of
        None \<Rightarrow> Invalid
      | Some None \<Rightarrow> Absent
      | Some (Some offset) \<Rightarrow>
          let computed = compute C packet request_authenticator secret
          in if ct_eq C (take VALUE_LEN (drop offset packet)) computed then Valid else Invalid)"

definition append_zeroed_slot :: "packet_buffer \<Rightarrow> packet_buffer \<times> (codec_error, nat) result" where
  "append_zeroed_slot buf =
     (let value_offset = length (as_bytes buf) + 2
      in case add_attribute buf MA_TYPE (replicate VALUE_LEN 0) of
           (buf', Err e) \<Rightarrow> (buf', Err e)
         | (buf', Ok _) \<Rightarrow> (buf', Ok value_offset))"

definition ma_patch :: "packet_buffer \<Rightarrow> nat \<Rightarrow> bytes \<Rightarrow> packet_buffer" where
  "ma_patch buf value_offset tag =
     (let local = value_offset - MIN_PACKET_LEN
      in buf\<lparr>inner := take MIN_PACKET_LEN (inner buf) @ splice local tag (attributes buf)\<rparr>)"

section \<open>Sealing a request\<close>

definition seal_as_zeroed_request :: "crypto \<Rightarrow> packet_buffer \<Rightarrow> bytes \<Rightarrow> packet_buffer option" where
  "seal_as_zeroed_request C pb secret =
     (case patch_length pb of
        None \<Rightarrow> None
      | Some pb \<Rightarrow>
          let auth = compute_zeroed_request C (as_bytes pb) secret
          in Some (set_authenticator pb auth))"

definition seal_as_random_authenticator_request ::
    "crypto \<Rightarrow> packet_buffer \<Rightarrow> bytes \<Rightarrow> bytes \<Rightarrow> (codec_error, packet_buffer) result option" where
  "seal_as_random_authenticator_request C pb request_authenticator secret =
     (let pb = set_authenticator pb request_authenticator
      in case append_zeroed_slot pb of
           (_, Err e) \<Rightarrow> Some (Err e)
         | (pb, Ok value_off) \<Rightarrow>
             (case patch_length pb of
                None \<Rightarrow> None
              | Some pb \<Rightarrow>
                  let tag = compute C (as_bytes pb) request_authenticator secret
                  in Some (Ok (ma_patch pb value_off tag))))"

section \<open>What the authenticators cover\<close>

declare find_value_offset_from.simps [simp del] count_value_offsets_from.simps [simp del]
  ma_feed.simps [simp del]

lemma md5_with_substitute_eq:
  "md5_with_substitute C packet sub secret =
     md5 C (take 4 packet @ sub @ drop 20 packet @ secret)"
  by (simp add: md5_with_substitute_def Let_def md5_stream)

text \<open>A slot as the HMAC sees it: the value of a Message-Authenticator is zeroed.\<close>

definition zero_ma :: "u8 \<times> bytes \<Rightarrow> u8 \<times> bytes" where
  "zero_ma a = (if fst a = 80 \<and> length (snd a) = 16 then (80, replicate 16 0) else a)"

lemma zero_ma_idem [simp]: "zero_ma (zero_ma a) = zero_ma a"
  by (simp add: zero_ma_def)

lemma hmac_md5_update_append:
  "hmac_md5_update b (hmac_md5_update a ctx) = hmac_md5_update (a @ b) ctx"
  by (simp add: hmac_md5_update_def)

lemma ma_feed_Nil [simp]: "ma_feed [] ctx = ctx"
  by (simp add: ma_feed.simps)

lemma ma_feed_encode_attr:
  assumes "length v \<le> 253"
  shows "ma_feed (encode_attr t v @ bs) ctx =
    ma_feed bs (hmac_md5_update (encode_attr (fst (zero_ma (t, v))) (snd (zero_ma (t, v)))) ctx)"
proof -
  have "unat ((encode_attr t v @ bs) ! 1) = 2 + length v"
    using wire_len_encode_attr [OF assms, of t] by (simp add: wire_len_def encode_attr_def)
  moreover have "(encode_attr t v @ bs) ! 0 = t" "take 2 (encode_attr t v) = [t, of_nat (2 + length v)]"
    by (simp_all add: encode_attr_def)
  ultimately show ?thesis
    by (subst ma_feed.simps)
      (auto simp: Let_def zero_ma_def hmac_md5_update_append encode_attr_def nth_append)
qed

lemma ma_feed_encode_attrs:
  "good_attrs as \<Longrightarrow> ma_feed (encode_attrs as @ bs) ctx = ma_feed bs (hmac_md5_update (encode_attrs (map zero_ma as)) ctx)"
proof (induction as arbitrary: ctx)
  case Nil
  show ?case by (simp add: hmac_md5_update_def)
next
  case (Cons a as)
  obtain t v where a: "a = (t, v)" by (cases a)
  obtain t' v' where z: "zero_ma (t, v) = (t', v')" by (cases "zero_ma (t, v)")
  show ?case using Cons by (simp add: a z ma_feed_encode_attr hmac_md5_update_append)
qed

lemma compute_eq:
  assumes "drop 20 packet = encode_attrs as" and "good_attrs as"
  shows "compute C packet auth secret =
    hmac_md5 C secret (take 4 packet @ auth @ encode_attrs (map zero_ma as))"
  using ma_feed_encode_attrs [OF assms(2), of "[]"] assms(1)
  by (simp add: compute_def Let_def hmac_stream)

lemma length_compute [simp]: "wf_crypto C \<Longrightarrow> length (compute C p a s) = 16"
  by (simp add: compute_def Let_def hmac_md5_finalize_def)

lemma length_md5_with_substitute [simp]: "wf_crypto C \<Longrightarrow> length (md5_with_substitute C p a s) = 16"
  by (simp add: md5_with_substitute_eq)

section \<open>What verification accepts\<close>

abbreviation is_ma :: "u8 \<times> bytes \<Rightarrow> bool" where
  "is_ma a \<equiv> fst a = 80"

lemma wire_len_TLV: "length v \<le> 253 \<Longrightarrow> wire_len \<lparr>tlv = encode_attr t v\<rparr> = 18 \<longleftrightarrow> length v = 16"
  using wire_len_encode_attr [of v t] by (auto simp: word_unat_eq_iff)

lemma ma_scan_Err: "Err e \<in> set xs \<Longrightarrow> ma_scan xs vo off = None"
  by (induction xs vo off rule: ma_scan.induct) auto

lemma ma_scan_found:
  "good_attrs as \<Longrightarrow>
     ma_scan (map (\<lambda>a. Ok (raw_of a)) as) (Some k) off =
       (if filter is_ma as = [] then Some (Some k) else None)"
  by (induction as arbitrary: off) (auto simp: wire_len_encode_attr)

lemma ma_scan_eq:
  assumes "good_attrs as"
  shows "ma_scan (map (\<lambda>a. Ok (raw_of a)) as) None off =
    (case filter is_ma as of
       [] \<Rightarrow> Some None
     | [a] \<Rightarrow> if length (snd a) = 16 then Some (Some (off + length (encode_attrs (takeWhile (Not \<circ> is_ma) as)) + 2))
              else None
     | _ \<Rightarrow> None)"
  using assms
proof (induction as arbitrary: off)
  case Nil
  show ?case by simp
next
  case (Cons a as)
  obtain t v where a: "a = (t, v)" by (cases a)
  have v: "length v \<le> 253" and as: "good_attrs as" using Cons.prems by (simp_all add: a)
  show ?case
  proof (cases "t = 80")
    case False
    then show ?thesis
      using Cons.IH [OF as] wire_len_encode_attr [OF v, of t]
      by (simp add: a add.assoc split: list.splits)
  next
    case True
    then show ?thesis
      using ma_scan_found [OF as] wire_len_TLV [OF v, of t]
      by (auto simp: a split: list.splits)
  qed
qed

lemma single_ma_split:
  assumes "filter is_ma as = [(80, v)]"
  shows "\<exists>post. as = takeWhile (Not \<circ> is_ma) as @ (80, v) # post \<and> filter is_ma post = []"
  using assms
proof (induction as)
  case (Cons a as)
  then show ?case by (cases "is_ma a") auto
qed simp

text \<open>Verification of a packet whose attribute region is well formed, as one equation.\<close>

lemma verify_eq:
  assumes "length h = 20" and "good_attrs as"
  shows "verify C (h @ encode_attrs as) auth secret =
    (case filter is_ma as of
       [] \<Rightarrow> Absent
     | [a] \<Rightarrow> if length (snd a) = 16 \<and> ct_eq C (snd a) (compute C (h @ encode_attrs as) auth secret)
              then Valid else Invalid
     | _ \<Rightarrow> Invalid)"
proof -
  have items: "items (encode_attrs as) = map (\<lambda>a. Ok (raw_of a)) as"
    using items_encode_attrs_append [OF assms(2), of "[]"] by simp
  show ?thesis
  proof (cases "\<exists>v. filter is_ma as = [(80, v)]")
    case True
    then obtain v where v: "filter is_ma as = [(80, v)]" by blast
    let ?pre = "takeWhile (Not \<circ> is_ma) as"
    obtain post where "as = ?pre @ (80, v) # post" using single_ma_split [OF v] by blast
    then have "encode_attrs as = encode_attrs ?pre @ encode_attr 80 v @ encode_attrs post"
      by (metis encode_attrs.simps(2) encode_attrs_append)
    then have "take 16 (drop (20 + length (encode_attrs ?pre) + 2) (h @ encode_attrs as)) = v"
      if "length v = 16"
      using that assms(1) by (simp add: encode_attr_def)
    then show ?thesis
      using assms(1) by (simp add: verify_def items ma_scan_eq [OF assms(2)] v Let_def)
  next
    case False
    then have "filter is_ma as \<noteq> [a]" for a
      by (metis (mono_tags, lifting) filter_eq_ConsD prod.collapse)
    then show ?thesis
      using assms(1) by (simp add: verify_def items ma_scan_eq [OF assms(2)] split: list.splits)
  qed
qed

text \<open>A malformed attribute region never verifies.\<close>

lemma verify_malformed:
  assumes "Err e \<in> set (items (drop 20 packet))"
  shows "verify C packet auth secret = Invalid"
  using ma_scan_Err [OF assms] by (simp add: verify_def)

section \<open>Layout of the sealing steps\<close>

text \<open>A buffer as a 20-byte header followed by a list of well-formed attributes.\<close>

definition laid_out :: "packet_buffer \<Rightarrow> bytes \<Rightarrow> (u8 \<times> bytes) list \<Rightarrow> bool" where
  "laid_out pb h as \<longleftrightarrow> inner pb = h @ encode_attrs as \<and> length h = 20 \<and> good_attrs as"

lemma laid_outD:
  assumes "laid_out pb h as"
  shows "inner pb = h @ encode_attrs as" "length h = 20" "good_attrs as"
    "attributes pb = encode_attrs as" "take 20 (inner pb) = h"
  using assms by (simp_all add: laid_out_def attributes_def)

definition with_length :: "bytes \<Rightarrow> nat \<Rightarrow> bytes" where
  "with_length h n = take 2 h @ u16_to_be (of_nat n) @ drop 4 h"

definition with_auth :: "bytes \<Rightarrow> bytes \<Rightarrow> bytes" where
  "with_auth h auth = take 4 h @ auth"

lemma header_edit_simps [simp]:
  "length h = 20 \<Longrightarrow> length (with_length h n) = 20"
  "length h = 20 \<Longrightarrow> length auth = 16 \<Longrightarrow> length (with_auth h auth) = 20"
  "length h = 20 \<Longrightarrow> take 4 (with_auth h auth) = take 4 h"
  "length h = 20 \<Longrightarrow> length auth = 16 \<Longrightarrow> drop 4 (with_auth h auth) = auth"
  by (simp_all add: with_length_def with_auth_def)

lemma length_field_with_length:
  assumes "length h = 20" and "n < 65536"
  shows "length_field (with_length h n @ x) = n"
    and "length_field (with_auth (with_length h n) auth @ x) = n"
proof -
  show "length_field (with_length h n @ x) = n"
    using assms length_field_patched [of "take 2 h" n "drop 4 h @ x"] by (simp add: with_length_def)
  show "length_field (with_auth (with_length h n) auth @ x) = n"
    using assms length_field_patched [of "take 2 h" n "auth @ x"]
    by (simp add: with_length_def with_auth_def)
qed

lemma patch_length_laid_out:
  assumes "laid_out pb h as" and "length (inner pb) \<le> 4096"
  shows "\<exists>pb'. patch_length pb = Some pb' \<and> laid_out pb' (with_length h (length (inner pb))) as"
  using assms by (auto simp: laid_out_def patch_length_eq with_length_def)

lemma set_authenticator_laid_out:
  assumes "laid_out pb h as" and "length auth = 16"
  shows "laid_out (set_authenticator pb auth) (with_auth h auth) as"
  using assms by (simp add: laid_out_def set_authenticator_eq with_auth_def)

lemma set_identifier_laid_out:
  assumes "laid_out pb h as"
  shows "laid_out (set_identifier pb i) (h[1 := i]) as"
  using assms by (simp add: laid_out_def set_identifier_def list_update_append1)

lemma ma_patch_laid_out:
  assumes "laid_out pb h (pre @ (80, z) # post)" and "length z = 16" and "length tag = 16"
    and "off = 20 + length (encode_attrs pre) + 2"
  shows "laid_out (ma_patch pb off tag) h (pre @ (80, tag) # post)"
proof -
  note L = laid_outD [OF assms(1)]
  have "splice (length (encode_attrs pre) + 2) tag (encode_attrs (pre @ (80, z) # post)) =
      encode_attrs (pre @ (80, tag) # post)"
    using assms(2,3) by (simp add: splice_def encode_attr_def)
  then show ?thesis
    using L assms(2-4) by (simp add: laid_out_def ma_patch_def Let_def)
qed

lemma add_attribute_laid_out:
  assumes "laid_out pb h as" and "length v \<le> 253" and "length (inner pb) + length v \<le> 4094"
  shows "\<exists>pb'. add_attribute pb t v = (pb', Ok ()) \<and> laid_out pb' h (as @ [(t, v)])"
  using assms by (auto simp: add_attribute_eq laid_out_def)

lemma append_zeroed_slot_laid_out:
  assumes "laid_out pb h as" and "length (inner pb) \<le> 4078"
  shows "\<exists>pb'. append_zeroed_slot pb = (pb', Ok (length (inner pb) + 2))
    \<and> laid_out pb' h (as @ [(80, replicate 16 0)]) \<and> length (inner pb') = length (inner pb) + 18"
  using assms by (auto simp: append_zeroed_slot_def Let_def add_attribute_eq laid_out_def)

lemma append_zeroed_slot_full:
  "4078 < length (inner pb) \<Longrightarrow>
     append_zeroed_slot pb = (pb, Err (PacketTooLarge (length (inner pb)) 18))"
  by (simp add: append_zeroed_slot_def Let_def add_attribute_eq)

section \<open>Sealed packets verify\<close>

lemma map_zero_ma_slot:
  "length z = 16 \<Longrightarrow> length tag = 16 \<Longrightarrow>
     map zero_ma (pre @ (80, z) # post) = map zero_ma (pre @ (80, tag) # post)"
  by (simp add: zero_ma_def)

lemma verify_patched:
  assumes "wf_crypto C" and "length h = 20" and "length h0 = 20" and "take 4 h = take 4 h0"
    and "good_attrs (pre @ (80, z) # post)" and "length z = 16"
    and "filter is_ma pre = []" and "filter is_ma post = []"
    and "tag = compute C (h0 @ encode_attrs (pre @ (80, z) # post)) auth secret"
  shows "verify C (h @ encode_attrs (pre @ (80, tag) # post)) auth secret = Valid"
proof -
  let ?as = "pre @ (80, z) # post" and ?bs = "pre @ (80, tag) # post"
  have tag: "length tag = 16" using assms(1,9) by simp
  then have good: "good_attrs ?bs" using assms(5) by simp
  have "compute C (h @ encode_attrs ?bs) auth secret =
      hmac_md5 C secret (take 4 h @ auth @ encode_attrs (map zero_ma ?bs))"
    using compute_eq [OF _ good, of "h @ encode_attrs ?bs"] assms(2) by simp
  moreover have "tag = hmac_md5 C secret (take 4 h0 @ auth @ encode_attrs (map zero_ma ?as))"
    using compute_eq [OF _ assms(5), of "h0 @ encode_attrs ?as"] assms(3,9) by simp
  moreover have "map zero_ma ?as = map zero_ma ?bs"
    using assms(6) tag by (rule map_zero_ma_slot)
  ultimately have "compute C (h @ encode_attrs ?bs) auth secret = tag"
    using assms(4) by simp
  then show ?thesis
    using verify_eq [OF assms(2) good, of C auth secret] assms(1,7,8) tag by simp
qed

lemma verify_response_sealed:
  assumes "wf_crypto C" and "length h = 20"
    and "resp = compute_response C (h @ x) auth secret"
  shows "verify_response C (with_auth h resp @ x) auth secret"
proof -
  have "length resp = 16" using assms(1,3) by (simp add: compute_response_def)
  then show ?thesis
    using assms by (simp add: verify_response_def compute_response_def md5_with_substitute_eq Let_def with_auth_def)
qed

lemma verify_zeroed_sealed:
  assumes "wf_crypto C" and "length h = 20"
    and "auth = compute_zeroed_request C (h @ x) secret"
  shows "verify_zeroed_request C (with_auth h auth @ x) secret"
proof -
  have "length auth = 16" using assms(1,3) by (simp add: compute_zeroed_request_def)
  then show ?thesis
    using assms by (simp add: verify_zeroed_request_def compute_zeroed_request_def md5_with_substitute_eq Let_def with_auth_def)
qed

section \<open>The slot counters\<close>

text \<open>The Message-Authenticator slots a walk meets before the first malformed slot.\<close>

definition ma_slots :: "bytes \<Rightarrow> raw_attribute list" where
  "ma_slots bs =
     filter (\<lambda>r. attribute_type r = 80 \<and> wire_len r = 18) (List.map_filter ok (items bs))"

lemma ma_slots_Slot:
  assumes "2 \<le> length bs" and "2 \<le> unat (bs ! 1)" and "unat (bs ! 1) \<le> length bs"
  shows "ma_slots bs =
    (if bs ! 0 = 80 \<and> bs ! 1 = 18 then [\<lparr>tlv = take (unat (bs ! 1)) bs\<rparr>] else [])
    @ ma_slots (drop (unat (bs ! 1)) bs)"
proof -
  have "items bs = Ok \<lparr>tlv = take (unat (bs ! 1)) bs\<rparr> # items (drop (unat (bs ! 1)) bs)"
    using assms by (subst items_eq) auto
  then show ?thesis
    using assms by (simp add: ma_slots_def List.map_filter_simps attribute_type_def wire_len_def)
qed

lemma ma_slots_bad:
  "length bs < 2 \<or> unat (bs ! 1) < 2 \<or> length bs < unat (bs ! 1) \<Longrightarrow> ma_slots bs = []"
  by (auto simp: ma_slots_def items_eq [of bs] List.map_filter_simps)

lemma count_value_offsets_from_eq:
  "count_value_offsets_from packet n off = n + length (ma_slots (drop off packet))"
proof (induction packet n off rule: count_value_offsets_from.induct)
  case (1 packet n off)
  let ?r = "drop off packet"
  show ?case
  proof (cases "off < length packet \<and> 2 \<le> length ?r \<and> 2 \<le> unat (?r ! 1) \<and> unat (?r ! 1) \<le> length ?r")
    case True
    then show ?thesis
      using "1.IH" by (subst count_value_offsets_from.simps)
        (simp add: Let_def not_less ma_slots_Slot [of ?r] add.commute del: nth_drop)
  next
    case False
    then have "ma_slots ?r = []" by (intro ma_slots_bad) (auto simp: not_le)
    moreover have "count_value_offsets_from packet n off = n"
      using False by (subst count_value_offsets_from.simps) (auto simp: Let_def)
    ultimately show ?thesis by simp
  qed
qed

lemma find_value_offset_from_None:
  "find_value_offset_from packet off = None \<longleftrightarrow> ma_slots (drop off packet) = []"
proof (induction packet off rule: find_value_offset_from.induct)
  case (1 packet off)
  let ?r = "drop off packet"
  show ?case
  proof (cases "off < length packet \<and> 2 \<le> length ?r \<and> 2 \<le> unat (?r ! 1) \<and> unat (?r ! 1) \<le> length ?r")
    case True
    then show ?thesis
      using "1.IH" by (subst find_value_offset_from.simps)
        (simp add: Let_def not_less ma_slots_Slot [of ?r] add.commute del: nth_drop)
  next
    case False
    then have "ma_slots ?r = []" by (intro ma_slots_bad) (auto simp: not_le)
    moreover have "find_value_offset_from packet off = None"
      using False by (subst find_value_offset_from.simps) (auto simp: Let_def)
    ultimately show ?thesis by simp
  qed
qed

lemma count_value_offsets_eq:
  "20 \<le> length packet \<Longrightarrow> count_value_offsets packet = length (ma_slots (drop 20 packet))"
  by (simp add: count_value_offsets_def count_value_offsets_from_eq)

lemma ma_slots_encode_attrs:
  "good_attrs as \<Longrightarrow> length (ma_slots (encode_attrs as)) = length (filter (\<lambda>a. is_ma a \<and> length (snd a) = 16) as)"
  using items_encode_attrs_append [of as "[]"]
  by (induction as)
    (auto simp: ma_slots_def items_encode_attr_append List.map_filter_simps wire_len_TLV)

section \<open>Verification, exactly\<close>

lemma verify_Valid_iff:
  assumes "length h = 20" and "good_attrs as" and "wf_crypto C"
  shows "verify C (h @ encode_attrs as) auth secret = Valid \<longleftrightarrow>
    filter is_ma as = [(80, hmac_md5 C secret (take 4 h @ auth @ encode_attrs (map zero_ma as)))]"
proof -
  have c: "compute C (h @ encode_attrs as) auth secret =
      hmac_md5 C secret (take 4 h @ auth @ encode_attrs (map zero_ma as))"
    using compute_eq [OF _ assms(2), of "h @ encode_attrs as"] assms(1) by simp
  show ?thesis
  proof (cases "filter is_ma as")
    case (Cons a as')
    then have "fst a = 80" by (metis (mono_tags, lifting) filter_eq_ConsD)
    then show ?thesis
      using verify_eq [OF assms(1,2), of C auth secret] Cons assms(3)
      by (cases as'; cases a) (auto simp: c)
  qed (simp add: verify_eq [OF assms(1,2)])
qed

lemma verify_Absent_iff:
  assumes "length h = 20" and "good_attrs as"
  shows "verify C (h @ encode_attrs as) auth secret = Absent \<longleftrightarrow> filter is_ma as = []"
  by (simp add: verify_eq [OF assms] split: list.splits)

text \<open>
  \<open>verify\<close> is exact. It reports a valid Message-Authenticator exactly when the packet is a
  header followed by well-formed attributes of which exactly one is a Message-Authenticator and its
  value is the HMAC-MD5 under the secret of the packet with the authenticator substituted and the
  Message-Authenticator zeroed; and an absent one exactly when the attributes are well formed and
  none is a Message-Authenticator. Everything else, malformed packets included, is invalid.
\<close>

theorem ma_verify_exact:
  assumes "wf_crypto C"
  shows "(verify C packet auth secret = Valid \<longleftrightarrow>
      (\<exists>h as. packet = h @ encode_attrs as \<and> length h = 20 \<and> good_attrs as
         \<and> filter is_ma as = [(80, hmac_md5 C secret (take 4 h @ auth @ encode_attrs (map zero_ma as)))]))
    \<and> (verify C packet auth secret = Absent \<longleftrightarrow>
      (\<exists>h as. packet = h @ encode_attrs as \<and> length h = 20 \<and> good_attrs as \<and> filter is_ma as = []))"
proof (cases "\<exists>h as. packet = h @ encode_attrs as \<and> length h = 20 \<and> good_attrs as")
  case True
  then obtain h as where p: "packet = h @ encode_attrs as" "length h = 20" "good_attrs as" by blast
  have unique: "h' = h \<and> as' = as" if "packet = h' @ encode_attrs as'" "length h' = 20" "good_attrs as'" for h' as'
  proof -
    have e: "h' = h" "encode_attrs as' = encode_attrs as" using that p by simp_all
    then have "map (\<lambda>a. Ok (raw_of a) :: item) as' = map (\<lambda>a. Ok (raw_of a)) as"
      using items_encode_attrs_append [OF that(3), of "[]"] items_encode_attrs_append [OF p(3), of "[]"] by simp
    with e(1) show ?thesis by (simp only: map_raw_of_inject)
  qed
  have "verify C packet auth secret = Absent \<longleftrightarrow> filter is_ma as = []"
    unfolding p(1) by (rule verify_Absent_iff [OF p(2,3)])
  then show ?thesis
    using verify_Valid_iff [OF p(2,3) assms, of auth secret] unique p by (metis (no_types, lifting))
next
  case False
  have "verify C packet auth secret = Invalid"
  proof (cases "length packet < 20")
    case short: False
    obtain as tail where d: "good_attrs as" "drop 20 packet = encode_attrs as @ tail"
      "items (drop 20 packet) = map (\<lambda>a. Ok (raw_of a)) as @ items tail" "tail = [] \<or> (\<exists>e. items tail = [Err e])"
      using items_decompose [of "drop 20 packet"] by blast
    have "packet = take 20 packet @ encode_attrs as @ tail" using d(2) by (metis append_take_drop_id)
    then have "tail \<noteq> []" using False short d(1) by (metis append_Nil2 length_take min.absorb2 not_less)
    then obtain e where "items tail = [Err e]" using d(4) by blast
    then have "Err e \<in> set (items (drop 20 packet))" by (simp add: d(3))
    then show ?thesis by (rule verify_malformed)
  qed (simp add: verify_def)
  then show ?thesis using False by auto
qed

theorem ma_verify_exact_witness:
  "verify toy_crypto (replicate 20 0 @ [80, 18] @ hmac_md5 toy_crypto [9] (replicate 4 0 @ [1, 2] @ encode_attrs [(80, replicate 16 0)])) [1, 2] [9] = Valid"
proof -
  define t where "t = hmac_md5 toy_crypto [9] (replicate 4 0 @ [1, 2] @ encode_attrs [(80, replicate 16 0)])"
  have l: "length t = 16" unfolding t_def by (rule length_digests(2) [OF wf_toy_crypto])
  then have "t = hmac_md5 toy_crypto [9] (take 4 (replicate 20 0) @ [1, 2] @ encode_attrs (map zero_ma [(80, t)]))"
    by (simp add: zero_ma_def t_def)
  then have "\<exists>h as. replicate 20 0 @ [80, 18] @ t = h @ encode_attrs as \<and> length h = 20 \<and> good_attrs as
      \<and> filter is_ma as = [(80, hmac_md5 toy_crypto [9] (take 4 h @ [1, 2] @ encode_attrs (map zero_ma as)))]"
    using l by (intro exI [of _ "replicate 20 0"] exI [of _ "[(80, t)]"]) (simp add: encode_attr_def)
  then show ?thesis unfolding t_def [symmetric]
    by (rule iffD2 [OF conjunct1 [OF ma_verify_exact [OF wf_toy_crypto]]])
qed

end
