(* ===== verification/Password.thy ===== *)
theory Password
  imports Crypto
begin

unbundle bit_operations_syntax

text \<open>
  \<^verbatim>\<open>src/crypto/password.rs\<close> and \<^verbatim>\<open>src/crypto/mppe.rs\<close>: hiding of User-Password (RFC 2865 5.2),
  Tunnel-Password (RFC 2868 3.5) and the MS-MPPE keys (RFC 2548 2.4). The block loops are
  recursions over the number of blocks left; an \<open>assert!\<close> that fails is the result \<open>None\<close>. The
  lemmas show that decryption inverts encryption and the reverse, and the sizes on the wire.
\<close>

section \<open>The chain\<close>

definition USER_PASSWORD_MAX :: nat where [simp]: "USER_PASSWORD_MAX = 128"
definition TUNNEL_CIPHERTEXT_MAX :: nat where [simp]: "TUNNEL_CIPHERTEXT_MAX = 240"

datatype password_error = InvalidLength

definition chain_hash :: "crypto \<Rightarrow> bytes \<Rightarrow> bytes \<Rightarrow> bytes" where
  "chain_hash C secret prev = md5_finalize C (md5_update prev (md5_update secret md5_new))"

definition xor_block :: "bytes \<Rightarrow> bytes \<Rightarrow> bytes" where
  "xor_block p b = map2 (XOR) p b"

text \<open>\<open>for i in 0..n\<close>: encrypt block by block, each ciphertext block keying the next.\<close>

fun enc_chain :: "crypto \<Rightarrow> bytes \<Rightarrow> nat \<Rightarrow> bytes \<Rightarrow> bytes \<Rightarrow> bytes" where
  "enc_chain C secret 0 prev plaintext = []"
| "enc_chain C secret (Suc n) prev plaintext =
     (let b = chain_hash C secret prev;
          out = xor_block (take 16 plaintext) b
      in out @ enc_chain C secret n out (drop 16 plaintext))"

fun dec_chain :: "crypto \<Rightarrow> bytes \<Rightarrow> nat \<Rightarrow> bytes \<Rightarrow> bytes \<Rightarrow> bytes" where
  "dec_chain C secret 0 prev ciphertext = []"
| "dec_chain C secret (Suc n) prev ciphertext =
     (let b = chain_hash C secret prev;
          pt = xor_block (take 16 ciphertext) b
      in pt @ dec_chain C secret n (take 16 ciphertext) (drop 16 ciphertext))"

definition div_ceil :: "nat \<Rightarrow> nat \<Rightarrow> nat" where
  "div_ceil a b = (a + b - 1) div b"

section \<open>User-Password\<close>

definition user_password_encrypt :: "crypto \<Rightarrow> bytes \<Rightarrow> bytes \<Rightarrow> bytes \<Rightarrow> bytes option" where
  "user_password_encrypt C password secret authenticator =
     (if length password > USER_PASSWORD_MAX then None
      else
        let block_count = div_ceil (max (length password) 1) 16;
            padded_len = block_count * 16;
            plaintext = password @ replicate (padded_len - length password) 0
        in Some (enc_chain C secret block_count authenticator plaintext))"

definition user_password_decrypt ::
    "crypto \<Rightarrow> bytes \<Rightarrow> bytes \<Rightarrow> bytes \<Rightarrow> (password_error, bytes) result" where
  "user_password_decrypt C ciphertext secret authenticator =
     (if ciphertext = [] \<or> length ciphertext mod 16 \<noteq> 0 \<or> length ciphertext > USER_PASSWORD_MAX
      then Err InvalidLength
      else
        let block_count = length ciphertext div 16;
            plaintext = dec_chain C secret block_count authenticator ciphertext;
            trimmed_len = (case rposition (\<lambda>b. b \<noteq> 0) plaintext of None \<Rightarrow> 0 | Some pos \<Rightarrow> pos + 1)
        in Ok (take trimmed_len plaintext))"

section \<open>Tunnel-Password\<close>

definition generate_salt :: "bytes \<Rightarrow> bytes" where
  "generate_salt rnd = [rnd ! 0 OR 0x80, rnd ! 1]"

definition tunnel_seed :: "crypto \<Rightarrow> bytes \<Rightarrow> bytes \<Rightarrow> bytes \<Rightarrow> bytes" where
  "tunnel_seed C secret authenticator salt =
     md5_finalize C (md5_update salt (md5_update authenticator (md5_update secret md5_new)))"

definition tunnel_password_encrypt_with_salt ::
    "crypto \<Rightarrow> bytes \<Rightarrow> bytes \<Rightarrow> bytes \<Rightarrow> bytes \<Rightarrow> bytes option" where
  "tunnel_password_encrypt_with_salt C password secret authenticator salt =
     (if \<not> length password < TUNNEL_CIPHERTEXT_MAX then None
      else
        let plaintext_len = div_ceil (1 + length password) 16 * 16;
            plaintext = of_nat (length password) # password
                        @ replicate (plaintext_len - (1 + length password)) 0;
            first = tunnel_seed C secret authenticator salt;
            out = xor_block (take 16 plaintext) first
        in Some (out @ enc_chain C secret (plaintext_len div 16 - 1) out (drop 16 plaintext)))"

definition tunnel_password_encrypt ::
    "crypto \<Rightarrow> bytes \<Rightarrow> bytes \<Rightarrow> bytes \<Rightarrow> bytes \<Rightarrow> (bytes \<times> bytes) option" where
  "tunnel_password_encrypt C rnd password secret authenticator =
     (let salt = generate_salt rnd
      in map_option (Pair salt) (tunnel_password_encrypt_with_salt C password secret authenticator salt))"

definition tunnel_password_decrypt ::
    "crypto \<Rightarrow> bytes \<Rightarrow> bytes \<Rightarrow> bytes \<Rightarrow> bytes \<Rightarrow> (password_error, bytes) result" where
  "tunnel_password_decrypt C ciphertext secret authenticator salt =
     (if ciphertext = [] \<or> length ciphertext mod 16 \<noteq> 0 \<or> length ciphertext > TUNNEL_CIPHERTEXT_MAX
      then Err InvalidLength
      else
        let block_count = length ciphertext div 16;
            first = tunnel_seed C secret authenticator salt;
            pt0 = xor_block (take 16 ciphertext) first;
            plaintext = pt0 @ dec_chain C secret (block_count - 1) (take 16 ciphertext) (drop 16 ciphertext);
            plen = unat (plaintext ! 0)
        in if 1 + plen > length plaintext then Err InvalidLength
           else Ok (take plen (drop 1 plaintext)))"

section \<open>MS-MPPE keys\<close>

datatype mppe_error = MppeTooShort nat | BadSalt | BadLength nat | InvalidKeyLength

definition mppe_key_decrypt :: "crypto \<Rightarrow> bytes \<Rightarrow> bytes \<Rightarrow> bytes \<Rightarrow> (mppe_error, bytes) result" where
  "mppe_key_decrypt C val secret request_authenticator =
     (if length val < 18 then Err (MppeTooShort (length val))
      else if val ! 0 AND 0x80 = 0 then Err BadSalt
      else
        let ciphertext = drop 2 val
        in if length ciphertext mod 16 \<noteq> 0 \<or> length ciphertext > 240
           then Err (BadLength (length ciphertext))
           else map_err (\<lambda>_. InvalidKeyLength)
                  (tunnel_password_decrypt C ciphertext secret request_authenticator [val ! 0, val ! 1]))"

section \<open>The chain is a bijection\<close>

lemma length_chain_hash [simp]: "wf_crypto C \<Longrightarrow> length (chain_hash C s p) = 16"
  by (simp add: chain_hash_def md5_stream)

lemma length_tunnel_seed [simp]: "wf_crypto C \<Longrightarrow> length (tunnel_seed C s a t) = 16"
  by (simp add: tunnel_seed_def md5_stream)

lemma length_xor_block [simp]: "length (xor_block p b) = min (length p) (length b)"
  by (simp add: xor_block_def)

lemma xor_block_involution [simp]: "length p \<le> length b \<Longrightarrow> xor_block (xor_block p b) b = p"
  unfolding xor_block_def by (rule nth_equalityI) (auto simp: xor.assoc)

lemma length_enc_chain: "wf_crypto C \<Longrightarrow> length pt = 16 * n \<Longrightarrow> length (enc_chain C s n prev pt) = 16 * n"
  by (induction n arbitrary: prev pt) (simp_all add: Let_def)

lemma length_dec_chain: "wf_crypto C \<Longrightarrow> length ct = 16 * n \<Longrightarrow> length (dec_chain C s n prev ct) = 16 * n"
  by (induction n arbitrary: prev ct) (simp_all add: Let_def)

lemma dec_enc_chain:
  "wf_crypto C \<Longrightarrow> length pt = 16 * n \<Longrightarrow> dec_chain C s n prev (enc_chain C s n prev pt) = pt"
  by (induction n arbitrary: prev pt) (simp_all add: Let_def)

lemma enc_dec_chain:
  "wf_crypto C \<Longrightarrow> length ct = 16 * n \<Longrightarrow> enc_chain C s n prev (dec_chain C s n prev ct) = ct"
  by (induction n arbitrary: prev ct) (simp_all add: Let_def)

section \<open>User-Password round trip\<close>

definition user_blocks :: "bytes \<Rightarrow> nat" where
  "user_blocks pw = div_ceil (max (length pw) 1) 16"

definition user_padded :: "bytes \<Rightarrow> bytes" where
  "user_padded pw = pw @ replicate (user_blocks pw * 16 - length pw) 0"

text \<open>A password without its trailing NUL bytes, which padding makes invisible.\<close>

definition strip_nuls :: "bytes \<Rightarrow> bytes" where
  "strip_nuls pw = rev (dropWhile (\<lambda>b. b = 0) (rev pw))"

lemma div_ceil_mult: "0 < b \<Longrightarrow> a \<le> div_ceil a b * b \<and> div_ceil a b * b < a + b"
proof -
  assume "0 < b"
  let ?x = "a + b - 1"
  have "?x = ?x div b * b + ?x mod b" by simp
  moreover have "?x mod b < b" using \<open>0 < b\<close> by simp
  ultimately show ?thesis using \<open>0 < b\<close> unfolding div_ceil_def by linarith
qed

lemma user_blocks_bounds:
  "length pw \<le> 128 \<Longrightarrow> length pw \<le> user_blocks pw * 16 \<and> 1 \<le> user_blocks pw \<and> user_blocks pw \<le> 8"
  unfolding user_blocks_def div_ceil_def by (cases "length pw") auto

lemma length_user_padded: "length pw \<le> 128 \<Longrightarrow> length (user_padded pw) = 16 * user_blocks pw"
  using user_blocks_bounds [of pw] by (simp add: user_padded_def)

lemma user_password_encrypt_eq:
  "length pw \<le> 128 \<Longrightarrow>
     user_password_encrypt C pw s a = Some (enc_chain C s (user_blocks pw) a (user_padded pw))"
  by (simp add: user_password_encrypt_def Let_def user_blocks_def user_padded_def)

lemma user_password_encrypt_length:
  assumes "wf_crypto C" and "user_password_encrypt C pw s a = Some ct"
  shows "length ct = 16 * user_blocks pw" and "ct \<noteq> []" and "length ct \<le> 128" and "length ct mod 16 = 0"
proof -
  have len: "length pw \<le> 128" using assms(2) by (auto simp: user_password_encrypt_def split: if_splits)
  then have ct: "ct = enc_chain C s (user_blocks pw) a (user_padded pw)"
    using assms(2) by (simp add: user_password_encrypt_eq)
  show *: "length ct = 16 * user_blocks pw"
    unfolding ct by (rule length_enc_chain [OF assms(1) length_user_padded [OF len]])
  show "ct \<noteq> []" "length ct \<le> 128" "length ct mod 16 = 0"
    using * user_blocks_bounds [OF len] by auto
qed

lemma rposition_snoc: "rposition p (xs @ [x]) = (if p x then Some (length xs) else rposition p xs)"
  by (induction xs) (auto split: option.splits)

lemma take_trimmed:
  "take (case rposition (\<lambda>b. b \<noteq> 0) pt of None \<Rightarrow> 0 | Some pos \<Rightarrow> pos + 1) pt = strip_nuls pt"
proof (induction pt rule: rev_induct)
  case Nil
  show ?case by (simp add: strip_nuls_def)
next
  case (snoc b pt)
  have "rposition (\<lambda>b. b \<noteq> 0) pt = Some pos \<Longrightarrow> pos < length pt" for pos
    using rposition_Some_split by blast
  with snoc show ?case
    by (auto simp: rposition_snoc strip_nuls_def split: option.splits)
qed

lemma strip_nuls_append_zeros [simp]: "strip_nuls (pw @ replicate n 0) = strip_nuls pw"
  by (induction n) (simp_all add: strip_nuls_def replicate_app_Cons_same)

lemma strip_nuls_id: "pw = [] \<or> last pw \<noteq> 0 \<Longrightarrow> strip_nuls pw = pw"
  by (cases pw rule: rev_cases) (simp_all add: strip_nuls_def)

lemma strip_nuls_decomp: "\<exists>n. pw = strip_nuls pw @ replicate n 0"
proof (induction pw rule: rev_induct)
  case Nil
  show ?case by (simp add: strip_nuls_def)
next
  case (snoc b pw)
  then obtain n where n: "pw = strip_nuls pw @ replicate n 0" by blast
  show ?case
  proof (cases "b = 0")
    case True
    then have "strip_nuls (pw @ [b]) = strip_nuls pw" by (simp add: strip_nuls_def)
    moreover have "pw @ [b] = strip_nuls pw @ replicate (Suc n) 0"
      using n True by (metis append_assoc replicate_append_same replicate_Suc)
    ultimately show ?thesis by metis
  next
    case False
    then show ?thesis by (intro exI [of _ 0]) (simp add: strip_nuls_id)
  qed
qed

lemma user_password_decrypt_eq:
  assumes "ct \<noteq> []" and "length ct mod 16 = 0" and "length ct \<le> 128"
  shows "user_password_decrypt C ct s a = Ok (strip_nuls (dec_chain C s (length ct div 16) a ct))"
  using assms by (simp add: user_password_decrypt_def Let_def take_trimmed [simplified])

lemma user_password_round_trip:
  assumes "wf_crypto C" and "user_password_encrypt C pw s a = Some ct"
  shows "user_password_decrypt C ct s a = Ok (strip_nuls pw)"
proof -
  note L = user_password_encrypt_length [OF assms]
  have len: "length pw \<le> 128" using assms(2) by (auto simp: user_password_encrypt_def split: if_splits)
  have ct: "ct = enc_chain C s (user_blocks pw) a (user_padded pw)"
    using assms(2) len by (simp add: user_password_encrypt_eq)
  have "length ct div 16 = user_blocks pw" using L(1) by simp
  moreover have "dec_chain C s (user_blocks pw) a ct = user_padded pw"
    unfolding ct by (rule dec_enc_chain [OF assms(1) length_user_padded [OF len]])
  ultimately show ?thesis
    using user_password_decrypt_eq [OF L(2) L(4) L(3), of C s a] by (simp add: user_padded_def)
qed

text \<open>Re-encrypting and comparing, as PAP verification does, decides the same as decrypting.\<close>

lemma strip_nuls_eq_extend:
  assumes "strip_nuls x = strip_nuls y" and "length x = length y"
  shows "x = y"
proof -
  obtain m n where mn: "x = strip_nuls x @ replicate m 0" "y = strip_nuls y @ replicate n 0"
    using strip_nuls_decomp by metis
  have "length x = length (strip_nuls x) + m" "length y = length (strip_nuls y) + n"
    using arg_cong [OF mn(1), of length] arg_cong [OF mn(2), of length] by simp_all
  then have "m = n" using assms by simp
  then show ?thesis using mn assms(1) by metis
qed

lemma user_password_encrypt_iff_decrypt:
  assumes "wf_crypto C" and "length pw \<le> 128" and "length ct = 16 * user_blocks pw"
  shows "user_password_encrypt C pw s a = Some ct \<longleftrightarrow> user_password_decrypt C ct s a = Ok (strip_nuls pw)"
proof
  assume "user_password_encrypt C pw s a = Some ct"
  from user_password_round_trip [OF assms(1) this] show "user_password_decrypt C ct s a = Ok (strip_nuls pw)" .
next
  assume dec: "user_password_decrypt C ct s a = Ok (strip_nuls pw)"
  let ?pt = "dec_chain C s (user_blocks pw) a ct"
  have ct: "ct \<noteq> []" "length ct mod 16 = 0" "length ct \<le> 128" "length ct div 16 = user_blocks pw"
    using assms(3) user_blocks_bounds [OF assms(2)] by auto
  have "strip_nuls ?pt = strip_nuls (user_padded pw)"
    using dec user_password_decrypt_eq [OF ct(1-3), of C s a] ct(4) by (simp add: user_padded_def)
  then have "?pt = user_padded pw"
    by (rule strip_nuls_eq_extend) (simp only: length_dec_chain [OF assms(1,3)] length_user_padded [OF assms(2)])
  then have "enc_chain C s (user_blocks pw) a (user_padded pw) = ct"
    using enc_dec_chain [OF assms(1,3), of s a] by simp
  then show "user_password_encrypt C pw s a = Some ct"
    using assms(2) by (simp add: user_password_encrypt_eq)
qed

section \<open>Tunnel-Password and MPPE round trips\<close>

definition tunnel_blocks :: "bytes \<Rightarrow> nat" where
  "tunnel_blocks pw = div_ceil (1 + length pw) 16"

definition tunnel_padded :: "bytes \<Rightarrow> bytes" where
  "tunnel_padded pw =
     of_nat (length pw) # pw @ replicate (tunnel_blocks pw * 16 - (1 + length pw)) 0"

lemma tunnel_blocks_bounds:
  "length pw < 240 \<Longrightarrow> 1 + length pw \<le> tunnel_blocks pw * 16 \<and> 1 \<le> tunnel_blocks pw \<and> tunnel_blocks pw \<le> 15"
  unfolding tunnel_blocks_def div_ceil_def by auto

lemma length_tunnel_padded: "length pw < 240 \<Longrightarrow> length (tunnel_padded pw) = 16 * tunnel_blocks pw"
  using tunnel_blocks_bounds [of pw] by (auto simp: tunnel_padded_def)

lemma tunnel_password_encrypt_eq:
  "length pw < 240 \<Longrightarrow>
     tunnel_password_encrypt_with_salt C pw s a salt =
       Some (let out = xor_block (take 16 (tunnel_padded pw)) (tunnel_seed C s a salt)
             in out @ enc_chain C s (tunnel_blocks pw - 1) out (drop 16 (tunnel_padded pw)))"
  by (simp add: tunnel_password_encrypt_with_salt_def Let_def tunnel_blocks_def tunnel_padded_def)

lemma tunnel_password_encrypt_length:
  assumes "wf_crypto C" and "tunnel_password_encrypt_with_salt C pw s a salt = Some ct"
  shows "length ct = 16 * tunnel_blocks pw" and "16 \<le> length ct" and "length ct \<le> 240"
    and "length ct mod 16 = 0"
proof -
  have len: "length pw < 240"
    using assms(2) by (auto simp: tunnel_password_encrypt_with_salt_def split: if_splits)
  note B = tunnel_blocks_bounds [OF len] and P = length_tunnel_padded [OF len]
  have "length (drop 16 (tunnel_padded pw)) = 16 * (tunnel_blocks pw - 1)" using P by auto
  from length_enc_chain [OF assms(1) this] show *: "length ct = 16 * tunnel_blocks pw"
    using assms(1,2) B P by (auto simp: tunnel_password_encrypt_eq [OF len] Let_def)
  show "16 \<le> length ct" "length ct \<le> 240" "length ct mod 16 = 0" using * B by auto
qed

lemma tunnel_password_round_trip:
  assumes "wf_crypto C" and "tunnel_password_encrypt_with_salt C pw s a salt = Some ct"
  shows "tunnel_password_decrypt C ct s a salt = Ok pw"
proof -
  have len: "length pw < 240"
    using assms(2) by (auto simp: tunnel_password_encrypt_with_salt_def split: if_splits)
  note B = tunnel_blocks_bounds [OF len] and P = length_tunnel_padded [OF len]
    and L = tunnel_password_encrypt_length [OF assms]
  let ?pt = "tunnel_padded pw" and ?k = "tunnel_seed C s a salt"
  let ?out = "xor_block (take 16 ?pt) ?k"
  have out: "length ?out = 16" using assms(1) B P by simp
  have ct: "ct = ?out @ enc_chain C s (tunnel_blocks pw - 1) ?out (drop 16 ?pt)"
    using assms(2) by (simp add: tunnel_password_encrypt_eq [OF len] Let_def)
  have "length (drop 16 ?pt) = 16 * (tunnel_blocks pw - 1)" using P by auto
  then have tail: "dec_chain C s (tunnel_blocks pw - 1) ?out (drop 16 ct) = drop 16 ?pt"
    unfolding ct using dec_enc_chain [OF assms(1)] out by simp
  have head: "xor_block (take 16 ct) ?k = take 16 ?pt" "take 16 ct = ?out"
    unfolding ct using out assms(1) by simp_all
  have whole: "xor_block (take 16 ct) ?k
      @ dec_chain C s (tunnel_blocks pw - 1) (take 16 ct) (drop 16 ct) = ?pt"
    by (metis head tail append_take_drop_id)
  have "length ct div 16 = tunnel_blocks pw" "ct \<noteq> []" using L by auto
  then have "tunnel_password_decrypt C ct s a salt =
      (if 1 + unat (?pt ! 0) > length ?pt then Err InvalidLength else Ok (take (unat (?pt ! 0)) (drop 1 ?pt)))"
    using L unfolding tunnel_password_decrypt_def Let_def by (simp only: whole) simp
  moreover have "unat (?pt ! 0) = length pw"
    using len by (simp add: tunnel_padded_def unat_of_nat_u8_small)
  moreover have "take (length pw) (drop 1 ?pt) = pw" by (simp add: tunnel_padded_def)
  ultimately show ?thesis using B P by simp
qed

lemma generate_salt_top_bit: "(generate_salt rnd) ! 0 AND 0x80 \<noteq> 0"
proof -
  have "bit ((rnd ! 0 OR 0x80) AND 0x80 :: u8) 7"
    by (simp add: bit_simps)
  then show ?thesis by (auto simp: generate_salt_def)
qed

lemma mppe_round_trip:
  assumes "wf_crypto C" and "tunnel_password_encrypt_with_salt C key s a [x, y] = Some ct"
    and "x AND 0x80 \<noteq> 0"
  shows "mppe_key_decrypt C (x # y # ct) s a = Ok key"
  using tunnel_password_round_trip [OF assms(1,2)] tunnel_password_encrypt_length [OF assms(1,2)] assms(3)
  by (simp add: mppe_key_decrypt_def Let_def)

section \<open>The attribute encryptions as round trips\<close>

text \<open>
  A User-Password of at most 128 bytes is encrypted without panic to a non-empty multiple of 16
  bytes, at most 128, that decrypts under the same secret and authenticator to the password up to
  trailing NUL bytes, which the padding makes invisible; a longer one is refused.
\<close>

theorem user_password_recovered:
  assumes "wf_crypto C"
  shows "case user_password_encrypt C pw secret auth of
      None \<Rightarrow> 128 < length pw
    | Some ct \<Rightarrow> length pw \<le> 128 \<and> ct \<noteq> [] \<and> length ct mod 16 = 0 \<and> length ct \<le> 128
        \<and> length pw \<le> length ct \<and> length ct < length pw + 17
        \<and> user_password_decrypt C ct secret auth = Ok (strip_nuls pw)"
proof (cases "length pw \<le> 128")
  case True
  let ?ct = "enc_chain C secret (user_blocks pw) auth (user_padded pw)"
  have ct: "user_password_encrypt C pw secret auth = Some ?ct" using True by (simp add: user_password_encrypt_eq)
  note L = user_password_encrypt_length [OF assms ct]
  have "length pw \<le> length ?ct \<and> length ?ct < length pw + 17"
    using L(1) div_ceil_mult [of 16 "max (length pw) 1"] by (cases pw) (auto simp: user_blocks_def)
  then show ?thesis
    using True L user_password_round_trip [OF assms ct] by (simp add: ct)
next
  case False
  then show ?thesis by (simp add: user_password_encrypt_def)
qed

theorem user_password_recovered_witness:
  "case user_password_encrypt toy_crypto [104, 105] [1] (replicate 16 3) of
      None \<Rightarrow> 128 < length [104, 105 :: u8]
    | Some ct \<Rightarrow> length [104, 105 :: u8] \<le> 128 \<and> ct \<noteq> [] \<and> length ct mod 16 = 0 \<and> length ct \<le> 128
        \<and> length [104, 105 :: u8] \<le> length ct \<and> length ct < length [104, 105 :: u8] + 17
        \<and> user_password_decrypt toy_crypto ct [1] (replicate 16 3) = Ok (strip_nuls [104, 105])"
  by (rule user_password_recovered [OF wf_toy_crypto])

text \<open>
  A Tunnel-Password or MPPE key of at most 239 bytes is encrypted to a ciphertext of at most 240
  bytes that decrypts to exactly that value, trailing NUL bytes included, and with a salt whose top
  bit is set the MPPE decoder recovers it from the salted attribute value; longer values are refused.
\<close>

theorem salted_secret_recovered:
  assumes "wf_crypto C" and "x AND 0x80 \<noteq> 0"
  shows "case tunnel_password_encrypt_with_salt C pw secret auth [x, y] of
      None \<Rightarrow> 240 \<le> length pw
    | Some ct \<Rightarrow> length pw < 240 \<and> 16 \<le> length ct \<and> length ct mod 16 = 0 \<and> length ct \<le> 240
        \<and> tunnel_password_decrypt C ct secret auth [x, y] = Ok pw
        \<and> mppe_key_decrypt C (x # y # ct) secret auth = Ok pw"
proof (cases "tunnel_password_encrypt_with_salt C pw secret auth [x, y]")
  case None
  then show ?thesis using tunnel_password_encrypt_eq [of pw C secret auth "[x, y]"] by (simp add: not_less [symmetric]) force
next
  case (Some ct)
  moreover from Some have "length pw < 240"
    by (auto simp: tunnel_password_encrypt_with_salt_def split: if_splits)
  ultimately show ?thesis
    using tunnel_password_encrypt_length [OF assms(1) Some] tunnel_password_round_trip [OF assms(1) Some]
      mppe_round_trip [OF assms(1) Some assms(2)] by simp
qed

theorem salted_secret_recovered_witness:
  "case tunnel_password_encrypt_with_salt toy_crypto [7, 0, 0] [1] (replicate 16 3) [0x81, 2] of
      None \<Rightarrow> 240 \<le> length [7, 0, 0 :: u8]
    | Some ct \<Rightarrow> length [7, 0, 0 :: u8] < 240 \<and> 16 \<le> length ct \<and> length ct mod 16 = 0 \<and> length ct \<le> 240
        \<and> tunnel_password_decrypt toy_crypto ct [1] (replicate 16 3) [0x81, 2] = Ok [7, 0, 0]
        \<and> mppe_key_decrypt toy_crypto (0x81 # 2 # ct) [1] (replicate 16 3) = Ok [7, 0, 0]"
  by (rule salted_secret_recovered [OF wf_toy_crypto]) simp

end
