(* ===== verification/Reply.thy ===== *)
theory Reply
  imports Message_Authenticator Password Eap_Codec "HOL-Library.Sublist"
begin

text \<open>
  \<^verbatim>\<open>src/codec/encode.rs\<close>: \<open>Reply\<close>, the builder of server replies. \<open>None\<close> is a panic or, for the
  operations that draw salts, a list of random draws that is exhausted before the loop of
  \<open>unique_salt\<close> ends. The lemmas show that a reply built by these operations and sealed carries a
  Response Authenticator and a Message-Authenticator that verify, that EAP-Message fragments
  reassemble to the EAP packet that was added, and that the salt loop ends with a fresh salt.
\<close>

section \<open>State and construction\<close>

definition TUNNEL_PASSWORD :: u8 where [simp]: "TUNNEL_PASSWORD = 69"
definition TUNNEL_PASSWORD_MAX_LEN :: nat where [simp]: "TUNNEL_PASSWORD_MAX_LEN = 239"
definition MS_VENDOR_ID :: u32 where [simp]: "MS_VENDOR_ID = 311"
definition MS_MPPE_SEND_KEY_TYPE :: u8 where [simp]: "MS_MPPE_SEND_KEY_TYPE = 16"
definition MS_MPPE_RECV_KEY_TYPE :: u8 where [simp]: "MS_MPPE_RECV_KEY_TYPE = 17"
definition MS_MPPE_KEY_MAX_LEN :: nat where [simp]: "MS_MPPE_KEY_MAX_LEN = 239"
definition DEFAULT_CAPACITY :: nat where [simp]: "DEFAULT_CAPACITY = 512"

record reply =
  reply_buf :: packet_buffer
  ma_value_offset :: "nat option"

definition reply_with_capacity :: "code \<Rightarrow> u8 \<Rightarrow> nat \<Rightarrow> reply option" where
  "reply_with_capacity c identifier capacity =
     (case append_zeroed_slot (with_capacity c identifier capacity) of
        (_, Err _) \<Rightarrow> None
      | (buf, Ok offset) \<Rightarrow> Some \<lparr>reply_buf = buf, ma_value_offset = Some offset\<rparr>)"

definition reply_new :: "code \<Rightarrow> u8 \<Rightarrow> reply option" where
  "reply_new c identifier = reply_with_capacity c identifier DEFAULT_CAPACITY"

definition reply_from_buffer :: "packet_buffer \<Rightarrow> reply option" where
  "reply_from_buffer buf =
     (case append_zeroed_slot buf of
        (_, Err _) \<Rightarrow> None
      | (buf, Ok offset) \<Rightarrow> Some \<lparr>reply_buf = buf, ma_value_offset = Some offset\<rparr>)"

definition without_message_authenticator :: "reply \<Rightarrow> reply" where
  "without_message_authenticator r =
     (let was = ma_value_offset r; r = r\<lparr>ma_value_offset := None\<rparr>
      in if was \<noteq> None then r\<lparr>reply_buf := truncate_attributes_to (reply_buf r) 0\<rparr> else r)"

section \<open>Adding attributes\<close>

text \<open>Run an append operation of the buffer and keep its outcome.\<close>

definition on_buf ::
    "(packet_buffer \<Rightarrow> packet_buffer \<times> (codec_error, unit) result) \<Rightarrow> reply \<Rightarrow> reply \<times> (codec_error, unit) result" where
  "on_buf f r = (case f (reply_buf r) of (buf, res) \<Rightarrow> (r\<lparr>reply_buf := buf\<rparr>, res))"

definition reply_add_attribute :: "reply \<Rightarrow> u8 \<Rightarrow> bytes \<Rightarrow> reply \<times> (codec_error, unit) result" where
  "reply_add_attribute r t val = on_buf (\<lambda>buf. add_attribute buf t val) r"

definition reply_add_state :: "reply \<Rightarrow> bytes \<Rightarrow> reply \<times> (codec_error, unit) result" where
  "reply_add_state r val = reply_add_attribute r 24 val"

text \<open>\<open>for chunk in ... { buf.add_attribute(TYPE, chunk)?; }\<close>\<close>

fun add_eap_chunks :: "packet_buffer \<Rightarrow> bytes list \<Rightarrow> packet_buffer \<times> (codec_error, unit) result" where
  "add_eap_chunks buf [] = (buf, Ok ())"
| "add_eap_chunks buf (chunk # cs) =
     (case add_attribute buf EAP_MESSAGE chunk of
        (buf', Err e) \<Rightarrow> (buf', Err e)
      | (buf', Ok _) \<Rightarrow> add_eap_chunks buf' cs)"

definition reply_add_eap_message :: "reply \<Rightarrow> bytes \<Rightarrow> reply \<times> (codec_error, unit) result" where
  "reply_add_eap_message r eap = on_buf (\<lambda>buf. add_eap_chunks buf (chunks 253 eap)) r"

definition add_eap_success :: "reply \<Rightarrow> u8 \<Rightarrow> reply \<times> (codec_error, unit) result" where
  "add_eap_success r i =
     reply_add_eap_message r ([eap_code_byte EAP_SUCCESS] @ [i] @ u16_to_be 4)"

definition add_eap_failure :: "reply \<Rightarrow> u8 \<Rightarrow> reply \<times> (codec_error, unit) result" where
  "add_eap_failure r i =
     reply_add_eap_message r ([eap_code_byte EAP_FAILURE] @ [i] @ u16_to_be 4)"

definition reply_add :: "reply \<Rightarrow> 'v attr \<Rightarrow> writer \<Rightarrow> reply \<times> (codec_error, unit) result" where
  "reply_add r a write_value = on_buf (\<lambda>buf. pb_add buf a write_value) r"

definition reply_add_vsa :: "reply \<Rightarrow> 'v vsa_attr \<Rightarrow> writer \<Rightarrow> reply \<times> (codec_error, unit) result" where
  "reply_add_vsa r a write_value = on_buf (\<lambda>buf. pb_add_vsa buf a write_value) r"

definition reply_add_tlv :: "reply \<Rightarrow> u8 \<Rightarrow> tlv_build \<Rightarrow> reply \<times> (codec_error, unit) result" where
  "reply_add_tlv r parent_type build = on_buf (\<lambda>buf. add_tlv buf parent_type build) r"

definition reply_add_vsa_tlv :: "reply \<Rightarrow> u32 \<Rightarrow> u8 \<Rightarrow> tlv_build \<Rightarrow> reply \<times> (codec_error, unit) result" where
  "reply_add_vsa_tlv r vendor vendor_type build = on_buf (\<lambda>buf. add_vsa_tlv buf vendor vendor_type build) r"

section \<open>Salted attributes\<close>

text \<open>The salt a salted attribute carries, tested against a candidate.\<close>

definition salt_used :: "bytes \<Rightarrow> raw_attribute \<Rightarrow> bool" where
  "salt_used candidate a =
     (let val = raw_value a
      in if attribute_type a = TUNNEL_PASSWORD then get_range 1 3 val = Some candidate
         else if attribute_type a = VENDOR_SPECIFIC \<and> length val \<ge> 8 then
           take 4 val = u32_to_be MS_VENDOR_ID
           \<and> (val ! 4 = MS_MPPE_SEND_KEY_TYPE \<or> val ! 4 = MS_MPPE_RECV_KEY_TYPE)
           \<and> take 2 (drop 6 val) = candidate
         else False)"

text \<open>The random source is a list of draws; each call of \<open>generate_salt\<close> consumes one.\<close>

fun unique_salt :: "reply \<Rightarrow> bytes \<Rightarrow> bytes list \<Rightarrow> (bytes \<times> bytes list) option" where
  "unique_salt r candidate draws =
     (if list_ex (salt_used candidate) (List.map_filter ok (items (attributes (reply_buf r)))) then
        (case draws of
           [] \<Rightarrow> None
         | rnd # draws' \<Rightarrow> unique_salt r (generate_salt rnd) draws')
      else Some (candidate, draws))"

declare unique_salt.simps [simp del]

definition generate_unique_salt :: "reply \<Rightarrow> bytes list \<Rightarrow> (bytes \<times> bytes list) option" where
  "generate_unique_salt r draws =
     (case draws of [] \<Rightarrow> None | rnd # draws' \<Rightarrow> unique_salt r (generate_salt rnd) draws')"

definition add_tunnel_password ::
    "crypto \<Rightarrow> reply \<Rightarrow> u8 \<Rightarrow> bytes \<Rightarrow> bytes \<Rightarrow> bytes \<Rightarrow> bytes list
      \<Rightarrow> ((reply \<times> (codec_error, unit) result) \<times> bytes list) option" where
  "add_tunnel_password C r tg password request_authenticator secret draws =
     Option.bind (pb_header (reply_buf r)) (\<lambda>h.
       if hdr_code h \<noteq> ACCESS_ACCEPT then Some ((r, Err WrongPacketType), draws)
       else if length password > TUNNEL_PASSWORD_MAX_LEN
       then Some ((r, Err (AttributeValueTooLong (length password))), draws)
       else
         Option.bind (generate_unique_salt r draws) (\<lambda>(salt, draws).
         Option.bind (tunnel_password_encrypt_with_salt C password secret request_authenticator salt)
           (\<lambda>ciphertext.
             Some (reply_add_attribute r TUNNEL_PASSWORD ([tg] @ salt @ ciphertext), draws))))"

definition write_mppe_key ::
    "crypto \<Rightarrow> reply \<Rightarrow> u8 \<Rightarrow> bytes \<Rightarrow> bytes \<Rightarrow> bytes \<Rightarrow> bytes list
      \<Rightarrow> ((reply \<times> (codec_error, unit) result) \<times> bytes list) option" where
  "write_mppe_key C r vendor_type key request_authenticator secret draws =
     (if length key > MS_MPPE_KEY_MAX_LEN
      then Some ((r, Err (AttributeValueTooLong (length key))), draws)
      else
        Option.bind (generate_unique_salt r draws) (\<lambda>(salt, draws).
        Option.bind (tunnel_password_encrypt_with_salt C key secret request_authenticator salt)
          (\<lambda>ciphertext.
            let vendor_length = of_nat (2 + 2 + length ciphertext)
            in Some (reply_add_attribute r VENDOR_SPECIFIC
                 (u32_to_be MS_VENDOR_ID @ [vendor_type] @ [vendor_length] @ salt @ ciphertext), draws))))"

definition add_mppe_keys ::
    "crypto \<Rightarrow> reply \<Rightarrow> bytes \<Rightarrow> bytes \<Rightarrow> bytes \<Rightarrow> bytes \<Rightarrow> bytes list
      \<Rightarrow> ((reply \<times> (codec_error, unit) result) \<times> bytes list) option" where
  "add_mppe_keys C r send_key recv_key request_authenticator secret draws =
     Option.bind (pb_header (reply_buf r)) (\<lambda>h.
       if hdr_code h \<noteq> ACCESS_ACCEPT then Some ((r, Err WrongPacketType), draws)
       else
         Option.bind (write_mppe_key C r MS_MPPE_SEND_KEY_TYPE send_key request_authenticator secret draws)
           (\<lambda>((r, res), draws).
             case res of
               Err e \<Rightarrow> Some ((r, Err e), draws)
             | Ok _ \<Rightarrow> write_mppe_key C r MS_MPPE_RECV_KEY_TYPE recv_key request_authenticator secret draws))"

section \<open>Sealing\<close>

definition seal_for :: "crypto \<Rightarrow> reply \<Rightarrow> bytes \<Rightarrow> bytes \<Rightarrow> packet_buffer option" where
  "seal_for C r request_authenticator secret =
     Option.bind (patch_length (reply_buf r)) (\<lambda>buf.
       let buf = (case ma_value_offset r of
                    None \<Rightarrow> buf
                  | Some offset \<Rightarrow>
                      ma_patch buf offset (compute C (as_bytes buf) request_authenticator secret));
           resp = compute_response C (as_bytes buf) request_authenticator secret
       in Some (set_authenticator buf resp))"

section \<open>The reply invariant\<close>

text \<open>
  A reply is a packet within the limits whose attributes are well formed, and when the
  Message-Authenticator is kept its recorded offset points at the value of the only attribute 80.
\<close>

definition reply_shape :: "reply \<Rightarrow> bytes \<Rightarrow> (u8 \<times> bytes) list \<Rightarrow> bool" where
  "reply_shape r h as \<longleftrightarrow>
     laid_out (reply_buf r) h as \<and> wf_pb (reply_buf r)
     \<and> (case ma_value_offset r of
          None \<Rightarrow> filter is_ma as = []
        | Some off \<Rightarrow>
            \<exists>pre z post. as = pre @ (80, z) # post \<and> length z = 16
              \<and> filter is_ma pre = [] \<and> filter is_ma post = []
              \<and> off = 20 + length (encode_attrs pre) + 2)"

definition reply_inv :: "reply \<Rightarrow> bool" where
  "reply_inv r \<longleftrightarrow> (\<exists>h as. reply_shape r h as)"

lemma on_buf_eq:
  "on_buf f r = (r\<lparr>reply_buf := fst (f (reply_buf r))\<rparr>, snd (f (reply_buf r)))"
  by (simp add: on_buf_def split: prod.splits)

lemma reply_shape_append:
  assumes "reply_shape r h as" and "good_attrs bs" and "filter is_ma bs = []"
    and "inner buf = inner (reply_buf r) @ encode_attrs bs" and "wf_pb buf"
  shows "reply_shape (r\<lparr>reply_buf := buf\<rparr>) h (as @ bs)"
proof -
  have "laid_out buf h (as @ bs)"
    using assms(1,2,4) by (auto simp: reply_shape_def laid_out_def)
  moreover have "\<exists>pre' z' post'. (pre @ (80, z) # post) @ bs = pre' @ (80, z') # post' \<and> length z' = 16
      \<and> filter is_ma pre' = [] \<and> filter is_ma post' = []
      \<and> 20 + length (encode_attrs pre) + 2 = 20 + length (encode_attrs pre') + 2"
    if "length z = 16" "filter is_ma pre = []" "filter is_ma post = []" for pre z post
    using that assms(3) by (intro exI [of _ pre] exI [of _ z] exI [of _ "post @ bs"]) simp
  ultimately show ?thesis
    using assms(1,3,5) by (auto simp: reply_shape_def split: option.splits)
qed

context attr_appender
begin

lemma on_buf_shape:
  assumes "valid x" and "type_of x \<noteq> 80" and "reply_shape r h as"
  shows "\<exists>bs. reply_shape (fst (on_buf (op x) r)) h (as @ bs) \<and> length bs \<le> 1
    \<and> (\<forall>a\<in>set bs. fst a = type_of x) \<and> (is_ok (snd (on_buf (op x) r)) \<longleftrightarrow> bs \<noteq> [])"
proof -
  obtain bs where bs: "good_attrs bs" "length bs \<le> 1" "\<forall>a\<in>set bs. fst a = type_of x"
    "inner (fst (op x (reply_buf r))) = inner (reply_buf r) @ encode_attrs bs"
    "is_ok (snd (op x (reply_buf r))) \<longleftrightarrow> bs \<noteq> []"
    using op_extends [OF assms(1)] by blast
  have "wf_pb (fst (op x (reply_buf r)))"
    using assms(1,3) op_wf by (simp add: reply_shape_def)
  moreover have "filter is_ma bs = []"
    using bs(3) assms(2) by (auto simp: filter_empty_conv)
  ultimately show ?thesis
    using reply_shape_append [OF assms(3) bs(1) _ bs(4)] bs(2,3,5)
    by (intro exI [of _ bs]) (simp add: on_buf_eq)
qed

lemma on_buf_inv:
  "valid x \<Longrightarrow> type_of x \<noteq> 80 \<Longrightarrow> reply_inv r \<Longrightarrow> reply_inv (fst (on_buf (op x) r))"
  using on_buf_shape unfolding reply_inv_def by blast

end

lemma reply_add_attribute_inv: "t \<noteq> 80 \<Longrightarrow> reply_inv r \<Longrightarrow> reply_inv (fst (reply_add_attribute r t v))"
  using add_attribute_op.on_buf_inv [of "(t, v)" r] by (simp add: reply_add_attribute_def)

lemma reply_add_inv:
  "attr_code a \<noteq> 80 \<Longrightarrow> appends w \<Longrightarrow> reply_inv r \<Longrightarrow> reply_inv (fst (reply_add r a w))"
  using add_op.on_buf_inv [of "(a, w)" r] by (simp add: reply_add_def)

lemma reply_add_vsa_inv: "appends w \<Longrightarrow> reply_inv r \<Longrightarrow> reply_inv (fst (reply_add_vsa r a w))"
  using add_vsa_op.on_buf_inv [of "(a, w)" r] by (simp add: reply_add_vsa_def)

lemma reply_add_tlv_inv:
  "t \<noteq> 80 \<Longrightarrow> build_appends b \<Longrightarrow> reply_inv r \<Longrightarrow> reply_inv (fst (reply_add_tlv r t b))"
  using add_tlv_op.on_buf_inv [of "(t, b)" r] by (simp add: reply_add_tlv_def)

lemma reply_add_vsa_tlv_inv:
  "build_appends b \<Longrightarrow> reply_inv r \<Longrightarrow> reply_inv (fst (reply_add_vsa_tlv r vendor t b))"
  using add_vsa_tlv_op.on_buf_inv [of "(vendor, t, b)" r] by (simp add: reply_add_vsa_tlv_def)

section \<open>EAP-Message fragments\<close>

lemma add_eap_chunks_extends:
  assumes "\<forall>c\<in>set cs. length c \<le> 253"
  shows "\<exists>n. inner (fst (add_eap_chunks buf cs)) = inner buf @ encode_attrs (map (Pair 79) (take n cs))
    \<and> (wf_pb buf \<longrightarrow> wf_pb (fst (add_eap_chunks buf cs)))
    \<and> (is_ok (snd (add_eap_chunks buf cs)) \<longrightarrow> n = length cs)"
  using assms
proof (induction cs arbitrary: buf)
  case Nil
  show ?case by simp
next
  case (Cons c cs)
  show ?case
  proof (cases "length (inner buf) + (2 + length c) > 4096")
    case True
    then show ?thesis using Cons.prems by (intro exI [of _ 0]) (simp add: add_attribute_eq)
  next
    case False
    let ?b = "buf\<lparr>inner := inner buf @ encode_attr 79 c\<rparr>"
    have add: "add_attribute buf 79 c = (?b, Ok ())"
      using False Cons.prems by (simp add: add_attribute_eq)
    then have "wf_pb buf \<Longrightarrow> wf_pb ?b"
      using add_attribute_op.op_wf [where x = "(79, c)" and pb = buf] by simp
    moreover obtain n where "inner (fst (add_eap_chunks ?b cs)) = inner ?b @ encode_attrs (map (Pair 79) (take n cs))
      \<and> (wf_pb ?b \<longrightarrow> wf_pb (fst (add_eap_chunks ?b cs)))
      \<and> (is_ok (snd (add_eap_chunks ?b cs)) \<longrightarrow> n = length cs)"
      using Cons by fastforce
    ultimately show ?thesis using add by (intro exI [of _ "Suc n"]) simp
  qed
qed

lemma add_eap_chunks_ok_iff:
  assumes "\<forall>c\<in>set cs. length c \<le> 253" and "length (inner buf) \<le> 4096"
  shows "is_ok (snd (add_eap_chunks buf cs)) \<longleftrightarrow>
    length (inner buf) + length (encode_attrs (map (Pair 79) cs)) \<le> 4096"
  using assms
  by (induction cs arbitrary: buf) (auto simp: add_attribute_eq)

lemma good_attrs_chunks: "good_attrs (map (Pair t) (take n (chunks 253 eap)))"
  by (auto simp: good_attrs_def list_all_iff dest!: in_set_takeD length_chunks_le)

lemma reply_add_eap_message_shape:
  assumes "reply_shape r h as"
  shows "\<exists>n. reply_shape (fst (reply_add_eap_message r eap)) h (as @ map (Pair 79) (take n (chunks 253 eap)))
    \<and> (is_ok (snd (reply_add_eap_message r eap)) \<longrightarrow> n = length (chunks 253 eap))"
proof -
  have le: "\<forall>c\<in>set (chunks 253 eap). length c \<le> 253" using length_chunks_le by blast
  have "wf_pb (reply_buf r)" using assms by (simp add: reply_shape_def)
  then obtain n where n:
    "inner (fst (add_eap_chunks (reply_buf r) (chunks 253 eap))) =
       inner (reply_buf r) @ encode_attrs (map (Pair 79) (take n (chunks 253 eap)))"
    "wf_pb (fst (add_eap_chunks (reply_buf r) (chunks 253 eap)))"
    "is_ok (snd (add_eap_chunks (reply_buf r) (chunks 253 eap))) \<longrightarrow> n = length (chunks 253 eap)"
    using add_eap_chunks_extends [OF le, of "reply_buf r"] by blast
  have "filter is_ma (map (Pair 79) (take n (chunks 253 eap))) = []"
    by (simp add: filter_empty_conv)
  from reply_shape_append [OF assms good_attrs_chunks this n(1,2)] n(3)
  show ?thesis by (intro exI [of _ n]) (simp add: reply_add_eap_message_def on_buf_eq)
qed

lemma reply_add_eap_message_inv: "reply_inv r \<Longrightarrow> reply_inv (fst (reply_add_eap_message r eap))"
  using reply_add_eap_message_shape unfolding reply_inv_def by blast

lemma map_snd_Pair [simp]: "map snd (map (Pair t) cs) = cs"
  by (simp add: o_def)

lemma reassemble_added:
  assumes "reply_shape r h as" and "filter (\<lambda>a. fst a = 79) as = []"
    and "is_ok (snd (reply_add_eap_message r eap))"
  shows "reassemble (attributes (reply_buf (fst (reply_add_eap_message r eap)))) = eap"
proof -
  let ?as = "as @ map (Pair 79) (chunks 253 eap)"
  have "reply_shape (fst (reply_add_eap_message r eap)) h ?as"
    using reply_add_eap_message_shape [OF assms(1), of eap] assms(3) by auto
  then have L: "laid_out (reply_buf (fst (reply_add_eap_message r eap))) h ?as"
    by (simp add: reply_shape_def)
  have "filter (\<lambda>a. fst a = 79) ?as = map (Pair 79) (chunks 253 eap)"
    using assms(2) by (simp add: filter_map o_def)
  then have "fragments (encode_attrs ?as) = chunks 253 eap"
    using fragments_encode_attrs [OF laid_outD(3) [OF L]] by (simp del: map_map)
  then show ?thesis
    by (simp add: reassemble_eq laid_outD(4) [OF L] concat_chunks del: encode_attrs_append)
qed

section \<open>Construction\<close>

lemma with_capacity_laid_out: "laid_out (with_capacity c i n) (inner (with_capacity c i n)) []"
  by (simp add: laid_out_def with_capacity_def)

lemma length_with_capacity [simp]: "length (inner (with_capacity c i n)) = 20"
  by (simp add: with_capacity_def)

lemma reply_from_buffer_shape:
  assumes "wf_pb buf" and "laid_out buf h as" and "filter is_ma as = []" and "length (inner buf) \<le> 4078"
  shows "\<exists>r. reply_from_buffer buf = Some r \<and> reply_shape r h (as @ [(80, replicate 16 0)])
    \<and> ma_value_offset r = Some (length (inner buf) + 2)"
proof -
  obtain buf' where b: "append_zeroed_slot buf = (buf', Ok (length (inner buf) + 2))"
    "laid_out buf' h (as @ [(80, replicate 16 0)])" "length (inner buf') = length (inner buf) + 18"
    using append_zeroed_slot_laid_out [OF assms(2,4)] by blast
  have "inner buf' = inner buf @ encode_attr 80 (replicate 16 0)"
    using laid_outD(1) [OF b(2)] laid_outD(1) [OF assms(2)] by simp
  then have wf: "wf_pb buf'" using assms(1,4) by (simp add: wf_pb_def parseable_append)
  have "\<exists>pre z post. as @ [(80, replicate 16 0)] = pre @ (80, z) # post \<and> length z = 16
      \<and> filter is_ma pre = [] \<and> filter is_ma post = [] \<and> length (inner buf) + 2 = 20 + length (encode_attrs pre) + 2"
    using assms(3) laid_outD(1,2) [OF assms(2)]
    by (intro exI [of _ as] exI [of _ "replicate 16 0"] exI [of _ "[]"]) simp
  then have "reply_shape \<lparr>reply_buf = buf', ma_value_offset = Some (length (inner buf) + 2)\<rparr> h (as @ [(80, replicate 16 0)])"
    using b wf by (simp add: reply_shape_def)
  then show ?thesis using b(1) by (auto simp: reply_from_buffer_def)
qed

lemma reply_with_capacity_from_buffer:
  "reply_with_capacity c i n = reply_from_buffer (with_capacity c i n)"
  by (simp add: reply_with_capacity_def reply_from_buffer_def)

lemma reply_with_capacity_shape:
  "\<exists>r. reply_with_capacity c i n = Some r
     \<and> reply_shape r (inner (with_capacity c i n)) [(80, replicate 16 0)]
     \<and> ma_value_offset r = Some 22"
  using reply_from_buffer_shape [OF wf_pb_with_capacity with_capacity_laid_out, of c i n]
  by (simp add: reply_with_capacity_from_buffer)

lemma reply_new_inv: "\<exists>r. reply_new c i = Some r \<and> reply_inv r"
  using reply_with_capacity_shape unfolding reply_new_def reply_inv_def by blast

lemma reply_from_buffer_panics: "4078 < length (inner buf) \<Longrightarrow> reply_from_buffer buf = None"
  by (simp add: reply_from_buffer_def append_zeroed_slot_full)

section \<open>A sealed reply verifies\<close>

text \<open>The middle step of \<open>seal_for\<close>: the tag is written into the slot, if there is one.\<close>

definition fill_tag :: "crypto \<Rightarrow> nat option \<Rightarrow> packet_buffer \<Rightarrow> bytes \<Rightarrow> bytes \<Rightarrow> packet_buffer" where
  "fill_tag C slot buf auth secret =
     (case slot of None \<Rightarrow> buf | Some off \<Rightarrow> ma_patch buf off (compute C (inner buf) auth secret))"

lemma seal_for_eq:
  "seal_for C r auth secret =
     map_option (\<lambda>buf. let buf' = fill_tag C (ma_value_offset r) buf auth secret
                     in set_authenticator buf' (compute_response C (inner buf') auth secret))
       (patch_length (reply_buf r))"
  by (cases "ma_value_offset r"; cases "patch_length (reply_buf r)")
    (simp_all add: seal_for_def fill_tag_def Let_def)

definition ma_outcome :: "reply \<Rightarrow> verification" where
  "ma_outcome r = (if ma_value_offset r = None then Absent else Valid)"

lemma fill_tag_laid_out:
  assumes "wf_crypto C" and "reply_shape r h as" and "laid_out buf k as"
  shows "\<exists>as'. laid_out (fill_tag C (ma_value_offset r) buf auth secret) k as'
    \<and> length (encode_attrs as') = length (encode_attrs as)
    \<and> filter (Not \<circ> is_ma) as' = filter (Not \<circ> is_ma) as
    \<and> (\<forall>h. length h = 20 \<and> take 4 h = take 4 k \<longrightarrow>
         verify C (h @ encode_attrs as') auth secret = ma_outcome r)"
proof (cases "ma_value_offset r")
  case None
  then have "filter is_ma as = []" using assms(2) by (simp add: reply_shape_def)
  then show ?thesis
    using None assms(3) verify_eq [OF _ laid_outD(3) [OF assms(3)]]
    by (intro exI [of _ as]) (simp add: fill_tag_def ma_outcome_def)
next
  case (Some off)
  then obtain pre z post where as: "as = pre @ (80, z) # post" "length z = 16"
    "filter is_ma pre = []" "filter is_ma post = []" "off = 20 + length (encode_attrs pre) + 2"
    using assms(2) by (auto simp: reply_shape_def)
  let ?tag = "compute C (inner buf) auth secret"
  have "laid_out (ma_patch buf off ?tag) k (pre @ (80, ?tag) # post)"
    using ma_patch_laid_out [of buf k pre z post ?tag off] assms(1,3) as by simp
  moreover have "verify C (h @ encode_attrs (pre @ (80, ?tag) # post)) auth secret = Valid"
    if "length h = 20" "take 4 h = take 4 k" for h
    using verify_patched [OF assms(1) that(1) laid_outD(2) [OF assms(3)] that(2), of pre z post ?tag auth secret]
      as laid_outD(1,3) [OF assms(3)] by simp
  ultimately show ?thesis
    using as(1,2) assms(1)
    by (intro exI [of _ "pre @ (80, ?tag) # post"]) (simp add: Some fill_tag_def ma_outcome_def)
qed

text \<open>The attributes of the sealed packet are those of the reply, with the tag in the slot.\<close>

lemma seal_for_sealed:
  assumes "wf_crypto C" and "reply_shape r h as"
  shows "\<exists>pb as'. seal_for C r auth secret = Some pb \<and> laid_out pb (take 20 (inner pb)) as'
    \<and> wf_pb pb \<and> length_field (inner pb) = length (inner pb) \<and> take 2 (inner pb) = take 2 h
    \<and> filter (Not \<circ> is_ma) as' = filter (Not \<circ> is_ma) as
    \<and> verify_response C (inner pb) auth secret \<and> verify C (inner pb) auth secret = ma_outcome r"
proof -
  let ?n = "length (inner (reply_buf r))"
  let ?h = "with_length h ?n"
  have L: "laid_out (reply_buf r) h as" and wf: "wf_pb (reply_buf r)"
    using assms(2) by (simp_all add: reply_shape_def)
  have n: "20 \<le> ?n" "?n \<le> 4096" using wf_pb_length [OF wf] by auto
  obtain buf where buf: "patch_length (reply_buf r) = Some buf" "laid_out buf ?h as"
    using patch_length_laid_out [OF L n(2)] by blast
  let ?buf = "fill_tag C (ma_value_offset r) buf auth secret"
  let ?resp = "compute_response C (inner ?buf) auth secret"
  let ?pb = "set_authenticator ?buf ?resp" and ?k = "with_auth ?h ?resp"
  obtain as' where as': "laid_out ?buf ?h as'" "length (encode_attrs as') = length (encode_attrs as)"
    "filter (Not \<circ> is_ma) as' = filter (Not \<circ> is_ma) as"
    "\<And>h. length h = 20 \<Longrightarrow> take 4 h = take 4 ?h \<Longrightarrow> verify C (h @ encode_attrs as') auth secret = ma_outcome r"
    using fill_tag_laid_out [OF assms buf(2)] by blast
  have hlen: "length ?h = 20" using laid_outD(2) [OF L] by simp
  have resp: "length ?resp = 16" using assms(1) by (simp add: compute_response_def)
  have P: "laid_out ?pb ?k as'" by (rule set_authenticator_laid_out [OF as'(1) resp])
  have len: "length (inner ?pb) = ?n" using as'(2) laid_outD(1,2) [OF P] laid_outD(1,2) [OF L] by simp
  have lf: "length_field (inner ?pb) = ?n"
    using length_field_with_length(2) [of h ?n ?resp] laid_outD(1) [OF P] laid_outD(2) [OF L] n by simp
  have "verify_response C (inner ?pb) auth secret"
    using verify_response_sealed [OF assms(1) hlen refl] laid_outD(1) [OF P] laid_outD(1) [OF as'(1)] by simp
  moreover have "verify C (inner ?pb) auth secret = ma_outcome r"
    using as'(4) [of ?k] laid_outD(1) [OF P] hlen resp by simp
  moreover have "wf_pb ?pb" using len lf n by (simp add: wf_pb_def parseable_def)
  moreover have "take 2 (inner ?pb) = take 2 h"
    using laid_outD(1) [OF P] laid_outD(2) [OF L] by (simp add: with_auth_def with_length_def)
  ultimately show ?thesis
    using as'(3) len lf P laid_outD(5) [OF P] by (intro exI [of _ ?pb] exI [of _ as']) (simp add: seal_for_eq buf(1) Let_def)
qed

section \<open>The salt loop\<close>

definition salt_in_use :: "reply \<Rightarrow> bytes \<Rightarrow> bool" where
  "salt_in_use r salt \<longleftrightarrow>
     (\<exists>a\<in>set (List.map_filter ok (items (attributes (reply_buf r)))). salt_used salt a)"

lemma unique_salt_eq:
  "unique_salt r s draws =
     (if salt_in_use r s
      then (case draws of [] \<Rightarrow> None | rnd # ds \<Rightarrow> unique_salt r (generate_salt rnd) ds)
      else Some (s, draws))"
  by (subst unique_salt.simps) (simp add: salt_in_use_def list_ex_iff)

lemma unique_salt_result:
  "unique_salt r s draws = Some (salt, ds) \<Longrightarrow>
     \<not> salt_in_use r salt \<and> (salt = s \<or> salt \<in> generate_salt ` set draws) \<and> suffix ds draws"
proof (induction draws arbitrary: s)
  case Nil
  then show ?case by (subst (asm) unique_salt_eq) (auto split: if_splits)
next
  case (Cons d draws)
  then show ?case
    by (subst (asm) unique_salt_eq) (auto simp: suffix_ConsI split: if_splits)
qed

lemma unique_salt_returns:
  "\<exists>x\<in>set (s # map generate_salt draws). \<not> salt_in_use r x \<Longrightarrow> \<exists>res. unique_salt r s draws = Some res"
proof (induction draws arbitrary: s)
  case Nil
  then show ?case by (subst unique_salt_eq) auto
next
  case (Cons d draws)
  show ?case
  proof (cases "salt_in_use r s")
    case True
    then have "\<exists>x\<in>set (generate_salt d # map generate_salt draws). \<not> salt_in_use r x"
      using Cons.prems by auto
    then show ?thesis using Cons.IH True by (subst unique_salt_eq) auto
  next
    case False
    then show ?thesis by (subst unique_salt_eq) auto
  qed
qed

text \<open>An attribute occupies at most one salt, so fewer than 2048 salts are ever in use.\<close>

definition slot_salt :: "raw_attribute \<Rightarrow> bytes" where
  "slot_salt a = (if attribute_type a = TUNNEL_PASSWORD then take 2 (drop 1 (raw_value a))
                  else take 2 (drop 6 (raw_value a)))"

lemma salt_used_slot_salt: "salt_used s a \<Longrightarrow> s = slot_salt a"
  by (auto simp: salt_used_def slot_salt_def Let_def get_range_def split: if_splits)

lemma salts_in_use_subset:
  "{s. salt_in_use r s} \<subseteq> slot_salt ` set (List.map_filter ok (items (attributes (reply_buf r))))"
  by (auto simp: salt_in_use_def dest: salt_used_slot_salt)

lemma length_items_bound: "2 * length (List.map_filter ok (items bs)) \<le> length bs"
proof (induction bs rule: items_induct)
  case (Slot bs)
  then show ?case by (simp add: List.map_filter_simps)
qed (auto simp: List.map_filter_simps)

lemma card_salts_in_use:
  assumes "length (inner (reply_buf r)) \<le> 4096"
  shows "finite {s. salt_in_use r s}" and "card {s. salt_in_use r s} \<le> 2038"
proof -
  let ?A = "set (List.map_filter ok (items (attributes (reply_buf r))))"
  show "finite {s. salt_in_use r s}"
    using finite_subset [OF salts_in_use_subset] by simp
  have "card {s. salt_in_use r s} \<le> card ?A"
    by (rule order_trans [OF card_mono [OF _ salts_in_use_subset] card_image_le]) simp_all
  also have "\<dots> \<le> length (List.map_filter ok (items (attributes (reply_buf r))))" by (rule card_length)
  finally show "card {s. salt_in_use r s} \<le> 2038"
    using length_items_bound [of "attributes (reply_buf r)"] assms by (simp add: attributes_def)
qed

lemma generate_unique_salt_returns:
  assumes "length (inner (reply_buf r)) \<le> 4096" and "2038 < card (set (map generate_salt draws))"
  shows "\<exists>salt ds. generate_unique_salt r draws = Some (salt, ds) \<and> \<not> salt_in_use r salt
    \<and> length salt = 2 \<and> salt ! 0 AND 0x80 \<noteq> 0 \<and> suffix ds draws"
proof (cases draws)
  case Nil
  with assms(2) show ?thesis by simp
next
  case (Cons d ds)
  have "\<not> set (map generate_salt draws) \<subseteq> {s. salt_in_use r s}"
    using assms(2) card_mono [OF card_salts_in_use(1) [OF assms(1)], of "set (map generate_salt draws)"]
      card_salts_in_use(2) [OF assms(1)] by auto
  then have "\<exists>x\<in>set (generate_salt d # map generate_salt ds). \<not> salt_in_use r x"
    by (auto simp: Cons)
  from unique_salt_returns [OF this] obtain salt ds'
    where salt: "unique_salt r (generate_salt d) ds = Some (salt, ds')" by auto
  then obtain rnd where "salt = generate_salt rnd" using unique_salt_result by blast
  then have "length salt = 2" "salt ! 0 AND 0x80 \<noteq> 0"
    using generate_salt_top_bit [of rnd] by (simp_all add: generate_salt_def)
  then show ?thesis
    using salt unique_salt_result [OF salt] by (simp add: generate_unique_salt_def Cons suffix_ConsI)
qed

lemma without_message_authenticator_attributes:
  "ma_value_offset r = Some off \<Longrightarrow> attributes (reply_buf (without_message_authenticator r)) = []"
  by (simp add: without_message_authenticator_def Let_def truncate_attributes_to_def attributes_def)

lemma without_message_authenticator_kept:
  "ma_value_offset r = None \<Longrightarrow> without_message_authenticator r = r"
  by (simp add: without_message_authenticator_def Let_def)

section \<open>Salted attributes decrypt\<close>

lemma reply_shape_code:
  assumes "reply_shape r h as"
  shows "\<exists>hd. pb_header (reply_buf r) = Some hd \<and> hdr_code hd = Code (h ! 0)"
proof -
  have "wf_pb (reply_buf r)" "inner (reply_buf r) = h @ encode_attrs as" "length h = 20"
    using assms by (simp_all add: reply_shape_def laid_out_def)
  then show ?thesis using pb_header_eq by (simp add: nth_append)
qed

lemma reply_add_attribute_shape:
  assumes "reply_shape r h as" and "t \<noteq> 80" and "length v \<le> 253"
    and "length (inner (reply_buf r)) + length v \<le> 4094"
  shows "\<exists>r'. reply_add_attribute r t v = (r', Ok ()) \<and> reply_shape r' h (as @ [(t, v)])"
proof -
  have L: "laid_out (reply_buf r) h as" and wf: "wf_pb (reply_buf r)"
    using assms(1) by (simp_all add: reply_shape_def)
  obtain buf where buf: "add_attribute (reply_buf r) t v = (buf, Ok ())" "laid_out buf h (as @ [(t, v)])"
    using add_attribute_laid_out [OF L assms(3,4)] by blast
  have "wf_pb buf" using add_attribute_op.op_wf [where x = "(t, v)" and pb = "reply_buf r"] wf buf(1) by simp
  then show ?thesis
    using reply_shape_append [OF assms(1), of "[(t, v)]" buf] buf assms(2,3) laid_outD(1) [OF buf(2)] laid_outD(1) [OF L]
    by (simp add: reply_add_attribute_def on_buf_eq)
qed

text \<open>
  The common part of the two salted attributes: with enough draws the salt is fresh, the
  ciphertext fits, and it decrypts to the plaintext.
\<close>

lemma salted_encrypt:
  assumes "wf_crypto C" and "length (inner (reply_buf r)) \<le> 4096"
    and "2038 < card (set (map generate_salt draws))" and "length pw \<le> 239"
  shows "\<exists>x y ds ct. generate_unique_salt r draws = Some ([x, y], ds) \<and> suffix ds draws
    \<and> \<not> salt_in_use r [x, y] \<and> x AND 0x80 \<noteq> 0
    \<and> tunnel_password_encrypt_with_salt C pw secret auth [x, y] = Some ct
    \<and> 16 \<le> length ct \<and> length ct \<le> 240 \<and> length ct \<le> length pw + 16
    \<and> tunnel_password_decrypt C ct secret auth [x, y] = Ok pw
    \<and> mppe_key_decrypt C (x # y # ct) secret auth = Ok pw"
proof -
  obtain salt ds where s: "generate_unique_salt r draws = Some (salt, ds)" "\<not> salt_in_use r salt"
    "length salt = 2" "salt ! 0 AND 0x80 \<noteq> 0" "suffix ds draws"
    using generate_unique_salt_returns [OF assms(2,3)] by blast
  obtain x y where xy: "salt = [x, y]"
    using s(3) by (auto simp: numeral_2_eq_2 length_Suc_conv)
  have "length pw < 240" using assms(4) by simp
  from tunnel_password_encrypt_eq [OF this]
  obtain ct where ct: "tunnel_password_encrypt_with_salt C pw secret auth [x, y] = Some ct" by blast
  note len = tunnel_password_encrypt_length [OF assms(1) ct]
  have "16 * tunnel_blocks pw \<le> length pw + 16"
    unfolding tunnel_blocks_def div_ceil_def by auto
  then show ?thesis
    using s ct len tunnel_password_round_trip [OF assms(1) ct] mppe_round_trip [OF assms(1) ct]
    by (intro exI [of _ x] exI [of _ y] exI [of _ ds] exI [of _ ct]) (simp add: xy)
qed

lemma write_mppe_key_ok:
  assumes "wf_crypto C" and "reply_shape r h as" and "length key \<le> 239"
    and "length (inner (reply_buf r)) + length key \<le> 4070"
    and "2038 < card (set (map generate_salt draws))"
  shows "\<exists>r' x y ct ds. write_mppe_key C r vt key auth secret draws = Some ((r', Ok ()), ds)
    \<and> reply_shape r' h (as @ [(26, u32_to_be 311 @ vt # of_nat (4 + length ct) # x # y # ct)])
    \<and> suffix ds draws \<and> length ct \<le> 240 \<and> length ct \<le> length key + 16 \<and> \<not> salt_in_use r [x, y]
    \<and> mppe_key_decrypt C (x # y # ct) secret auth = Ok key"
proof -
  have len: "length (inner (reply_buf r)) \<le> 4096" and k: "length key \<le> 239" using assms(3,4) by simp_all
  obtain x y ds ct where e: "generate_unique_salt r draws = Some ([x, y], ds)" "suffix ds draws"
    "\<not> salt_in_use r [x, y]" "tunnel_password_encrypt_with_salt C key secret auth [x, y] = Some ct"
    "length ct \<le> 240" "length ct \<le> length key + 16" "mppe_key_decrypt C (x # y # ct) secret auth = Ok key"
    using salted_encrypt [OF assms(1) len assms(5) k] by blast
  let ?v = "u32_to_be 311 @ vt # of_nat (4 + length ct) # x # y # ct"
  obtain r' where r': "reply_add_attribute r 26 ?v = (r', Ok ())" "reply_shape r' h (as @ [(26, ?v)])"
    using reply_add_attribute_shape [OF assms(2), of 26 ?v] e(5,6) assms(3,4) by auto
  have "write_mppe_key C r vt key auth secret draws = Some ((r', Ok ()), ds)"
    using e k r' by (simp add: write_mppe_key_def Let_def)
  then show ?thesis using e r'(2) by blast
qed

lemma unique_salt_append:
  "unique_salt r s d1 = Some (salt, ds) \<Longrightarrow> unique_salt r s (d1 @ d2) = Some (salt, ds @ d2)"
proof (induction d1 arbitrary: s)
  case Nil
  then show ?case by (subst unique_salt_eq, subst (asm) unique_salt_eq) (auto split: if_splits)
next
  case (Cons d d1)
  show ?case
  proof (cases "salt_in_use r s")
    case True
    then have "unique_salt r s ((d # d1) @ d2) = unique_salt r (generate_salt d) (d1 @ d2)"
      by (subst unique_salt_eq) simp
    moreover have "unique_salt r s (d # d1) = unique_salt r (generate_salt d) d1"
      using True by (subst unique_salt_eq) simp
    ultimately show ?thesis using Cons by simp
  next
    case False
    then show ?thesis
      using Cons.prems by (subst unique_salt_eq, subst (asm) unique_salt_eq) auto
  qed
qed

lemma generate_unique_salt_append:
  "generate_unique_salt r d1 = Some (salt, ds) \<Longrightarrow> generate_unique_salt r (d1 @ d2) = Some (salt, ds @ d2)"
  by (cases d1) (simp_all add: generate_unique_salt_def unique_salt_append)

lemma write_mppe_key_append:
  "write_mppe_key C r vt key auth secret d1 = Some (res, ds) \<Longrightarrow>
     write_mppe_key C r vt key auth secret (d1 @ d2) = Some (res, ds @ d2)"
  using generate_unique_salt_append [of r d1 _ _ d2]
  by (auto simp: write_mppe_key_def bind_eq_Some_conv Let_def split: if_splits)

lemma salt_in_use_mppe:
  assumes "reply_shape r h (as @ [(26, u32_to_be 311 @ vt # n # x # y # ct)])" and "vt = 16 \<or> vt = 17"
  shows "salt_in_use r [x, y]"
proof -
  let ?a = "(26, u32_to_be 311 @ vt # n # x # y # ct) :: u8 \<times> bytes"
  have L: "laid_out (reply_buf r) h (as @ [?a])" using assms(1) by (simp add: reply_shape_def)
  have "items (attributes (reply_buf r)) = map (\<lambda>a. Ok (raw_of a)) (as @ [?a])"
    using items_encode_attrs_append [OF laid_outD(3) [OF L], of "[]"] laid_outD(4) [OF L] by simp
  then have "raw_of ?a \<in> set (List.map_filter ok (items (attributes (reply_buf r))))"
    by (simp add: map_filter_def)
  moreover have "salt_used [x, y] (raw_of ?a)" using assms(2) by (auto simp: salt_used_def Let_def VENDOR_SPECIFIC_def nth_append)
  ultimately show ?thesis unfolding salt_in_use_def by blast
qed

text \<open>A supply of random draws with more distinct salts than a packet can hold, for the witnesses.\<close>

definition many_draws :: "bytes list" where
  "many_draws = map (\<lambda>(a, b). [of_nat a, of_nat b]) (List.product [128..<136] [0..<256])"

lemma many_draws_salts: "2038 < card (set (map generate_salt many_draws))"
proof -
  let ?f = "\<lambda>(a, b). [of_nat a, of_nat b] :: bytes"
  have top: "of_nat a OR 0x80 = (of_nat a :: u8)" if "a \<in> {128..<136}" for a
  proof -
    have "a = 128 \<or> a = 129 \<or> a = 130 \<or> a = 131 \<or> a = 132 \<or> a = 133 \<or> a = 134 \<or> a = 135" using that by auto
    then show ?thesis by (elim disjE) simp_all
  qed
  have "map generate_salt many_draws = many_draws"
    using top by (intro map_idI) (auto simp: many_draws_def generate_salt_def)
  then have "set (map generate_salt many_draws) = ?f ` ({128..<136} \<times> {0..<256})"
    by (simp only: many_draws_def set_map set_product set_upt)
  moreover have "inj_on ?f ({128..<136} \<times> {0..<256})"
    by (auto simp: inj_on_def word_of_nat_eq_iff take_bit_nat_eq_self)
  ultimately show ?thesis by (simp add: card_image)
qed

text \<open>
  C29: a Tunnel-Password of at most 239 bytes added to an Access-Accept with room for it is stored in
  one new attribute with the given tag, under a fresh salt that no other salted attribute of the
  reply uses and whose top bit is set, and the client recovers exactly the password from it. The
  search for the salt ends whenever the random source yields more than 2038 distinct salts, more
  than a packet can contain.
\<close>

theorem tunnel_password_delivered:
  assumes "wf_crypto C" and "reply_shape r h as" and "h ! 0 = 2" and "length pw \<le> 239"
    and "length (inner (reply_buf r)) + length pw \<le> 4075"
    and "2038 < card (set (map generate_salt draws))"
  shows "\<exists>r' x y ct ds. add_tunnel_password C r tg pw auth secret draws = Some ((r', Ok ()), ds)
    \<and> reply_shape r' h (as @ [(69, tg # x # y # ct)]) \<and> x AND 0x80 \<noteq> 0 \<and> \<not> salt_in_use r [x, y]
    \<and> tunnel_password_decrypt C ct secret auth [x, y] = Ok pw"
proof -
  have len: "length (inner (reply_buf r)) \<le> 4096" using assms(5) by simp
  obtain x y ds ct where e: "generate_unique_salt r draws = Some ([x, y], ds)"
    "\<not> salt_in_use r [x, y]" "x AND 0x80 \<noteq> 0"
    "tunnel_password_encrypt_with_salt C pw secret auth [x, y] = Some ct"
    "length ct \<le> 240" "length ct \<le> length pw + 16"
    "tunnel_password_decrypt C ct secret auth [x, y] = Ok pw"
    using salted_encrypt [OF assms(1) len assms(6,4)] by blast
  obtain r' where r': "reply_add_attribute r 69 (tg # x # y # ct) = (r', Ok ())"
    "reply_shape r' h (as @ [(69, tg # x # y # ct)])"
    using reply_add_attribute_shape [OF assms(2), of 69 "tg # x # y # ct"] e(5,6) assms(5) by auto
  have "add_tunnel_password C r tg pw auth secret draws = Some ((r', Ok ()), ds)"
    using reply_shape_code [OF assms(2)] e r' assms(3,4) by (auto simp: add_tunnel_password_def)
  then show ?thesis using e r'(2) by blast
qed

theorem tunnel_password_delivered_witness:
  "\<exists>r r' x y ct ds. reply_new ACCESS_ACCEPT 7 = Some r
    \<and> add_tunnel_password toy_crypto r 1 [112, 119] (replicate 16 3) [5] many_draws = Some ((r', Ok ()), ds)
    \<and> reply_shape r' (inner (with_capacity ACCESS_ACCEPT 7 512)) [(80, replicate 16 0), (69, 1 # x # y # ct)]
    \<and> x AND 0x80 \<noteq> 0 \<and> \<not> salt_in_use r [x, y]
    \<and> tunnel_password_decrypt toy_crypto ct [5] (replicate 16 3) [x, y] = Ok [112, 119]"
proof -
  obtain r where r: "reply_with_capacity ACCESS_ACCEPT 7 512 = Some r"
    "reply_shape r (inner (with_capacity ACCESS_ACCEPT 7 512)) [(80, replicate 16 0)]"
    using reply_with_capacity_shape by blast
  have len: "length (inner (reply_buf r)) = 38"
    using r(2) by (auto simp: reply_shape_def laid_out_def)
  have "inner (with_capacity ACCESS_ACCEPT 7 512) ! 0 = 2" by (simp add: with_capacity_def)
  from tunnel_password_delivered [OF wf_toy_crypto r(2) this _ _ many_draws_salts, of "[112, 119]" 1 "replicate 16 3" "[5]"]
  show ?thesis using r(1) len by (simp add: reply_new_def)
qed

text \<open>
  MPPE keys of at most 239 bytes each, added to an Access-Accept with room for both, are stored
  in two new Microsoft vendor attributes, the send key before the receive key, under two different
  fresh salts, and the client's decoder recovers exactly both keys.
\<close>

theorem mppe_keys_delivered:
  assumes "wf_crypto C" and "reply_shape r h as" and "h ! 0 = 2" and "length sk \<le> 239" and "length rk \<le> 239"
    and "length (inner (reply_buf r)) + length sk + length rk \<le> 4044"
    and "2038 < card (set (map generate_salt d1))" and "2038 < card (set (map generate_salt d2))"
  shows "\<exists>r' x y ct x' y' ct' ds. add_mppe_keys C r sk rk auth secret (d1 @ d2) = Some ((r', Ok ()), ds)
    \<and> reply_shape r' h (as @ [(26, u32_to_be 311 @ 16 # of_nat (4 + length ct) # x # y # ct),
                             (26, u32_to_be 311 @ 17 # of_nat (4 + length ct') # x' # y' # ct')])
    \<and> (x, y) \<noteq> (x', y') \<and> mppe_key_decrypt C (x # y # ct) secret auth = Ok sk
    \<and> mppe_key_decrypt C (x' # y' # ct') secret auth = Ok rk"
proof -
  obtain r1 x y ct ds where w: "write_mppe_key C r 16 sk auth secret d1 = Some ((r1, Ok ()), ds)"
    "reply_shape r1 h (as @ [(26, u32_to_be 311 @ 16 # of_nat (4 + length ct) # x # y # ct)])"
    "length ct \<le> length sk + 16" "mppe_key_decrypt C (x # y # ct) secret auth = Ok sk"
    using write_mppe_key_ok [OF assms(1,2,4) _ assms(7), of 16 auth secret] assms(6) by auto
  have L: "length (inner (reply_buf r1)) = length (inner (reply_buf r)) + length ct + 10"
    using w(2) assms(2) by (simp add: reply_shape_def laid_out_def)
  have "set (map generate_salt d2) \<subseteq> set (map generate_salt (ds @ d2))" by auto
  then have "2038 < card (set (map generate_salt (ds @ d2)))"
    using assms(8) card_mono [of "set (map generate_salt (ds @ d2))"] by (meson List.finite_set le_trans not_less)
  then obtain r2 x' y' ct' ds' where w': "write_mppe_key C r1 17 rk auth secret (ds @ d2) = Some ((r2, Ok ()), ds')"
    "reply_shape r2 h ((as @ [(26, u32_to_be 311 @ 16 # of_nat (4 + length ct) # x # y # ct)])
       @ [(26, u32_to_be 311 @ 17 # of_nat (4 + length ct') # x' # y' # ct')])"
    "\<not> salt_in_use r1 [x', y']" "mppe_key_decrypt C (x' # y' # ct') secret auth = Ok rk"
    using write_mppe_key_ok [OF assms(1) w(2) assms(5), of "ds @ d2" 17 auth secret] L w(3) assms(6) by auto
  have "add_mppe_keys C r sk rk auth secret (d1 @ d2) = Some ((r2, Ok ()), ds')"
    using reply_shape_code [OF assms(2)] assms(3) write_mppe_key_append [OF w(1), of d2] w'(1)
    by (auto simp: add_mppe_keys_def)
  moreover have "(x, y) \<noteq> (x', y')" using salt_in_use_mppe [OF w(2)] w'(3) by auto
  moreover have "reply_shape r2 h (as @ [(26, u32_to_be 311 @ 16 # of_nat (4 + length ct) # x # y # ct),
      (26, u32_to_be 311 @ 17 # of_nat (4 + length ct') # x' # y' # ct')])" using w'(2) by simp
  ultimately show ?thesis using w(4) w'(4) by blast
qed

theorem mppe_keys_delivered_witness:
  "\<exists>r r' x y ct x' y' ct' ds. reply_new ACCESS_ACCEPT 7 = Some r
    \<and> add_mppe_keys toy_crypto r [1, 2] [3] (replicate 16 3) [5] (many_draws @ many_draws) = Some ((r', Ok ()), ds)
    \<and> reply_shape r' (inner (with_capacity ACCESS_ACCEPT 7 512))
        ([(80, replicate 16 0)] @ [(26, u32_to_be 311 @ 16 # of_nat (4 + length ct) # x # y # ct),
           (26, u32_to_be 311 @ 17 # of_nat (4 + length ct') # x' # y' # ct')])
    \<and> (x, y) \<noteq> (x', y') \<and> mppe_key_decrypt toy_crypto (x # y # ct) [5] (replicate 16 3) = Ok [1, 2]
    \<and> mppe_key_decrypt toy_crypto (x' # y' # ct') [5] (replicate 16 3) = Ok [3]"
proof -
  obtain r where r: "reply_with_capacity ACCESS_ACCEPT 7 512 = Some r"
    "reply_shape r (inner (with_capacity ACCESS_ACCEPT 7 512)) [(80, replicate 16 0)]"
    using reply_with_capacity_shape by blast
  have len: "length (inner (reply_buf r)) = 38"
    using r(2) by (auto simp: reply_shape_def laid_out_def)
  have "inner (with_capacity ACCESS_ACCEPT 7 512) ! 0 = 2" by (simp add: with_capacity_def)
  from mppe_keys_delivered [OF wf_toy_crypto r(2) this _ _ _ many_draws_salts many_draws_salts,
      of "[1, 2]" "[3]" "replicate 16 3" "[5]"]
  show ?thesis using r(1) len by (simp add: reply_new_def)
qed

lemma length_encode_pairs: "length (encode_attrs (map (Pair t) cs)) = length (concat cs) + 2 * length cs"
  by (induction cs) simp_all

text \<open>
  An EAP packet is carried whole: adding it to a reply that carries none succeeds exactly when
  the fragments of at most 253 bytes, with two bytes of header each, fit the packet limit, and then
  the receiver reassembles exactly that packet.
\<close>

theorem eap_message_carried:
  assumes "reply_shape r h as" and "filter (\<lambda>a. fst a = 79) as = []"
  shows "case reply_add_eap_message r eap of
      (r', Ok _) \<Rightarrow> length (inner (reply_buf r)) + length eap + 2 * ((length eap + 252) div 253) \<le> 4096
        \<and> reassemble (attributes (reply_buf r')) = eap
    | (r', Err _) \<Rightarrow> 4096 < length (inner (reply_buf r)) + length eap + 2 * ((length eap + 252) div 253)"
proof -
  let ?cs = "chunks 253 eap"
  have cs: "\<forall>c\<in>set ?cs. length c \<le> 253" using length_chunks_le by blast
  have "length (encode_attrs (map (Pair 79) ?cs)) = length eap + 2 * ((length eap + 252) div 253)"
    using length_encode_pairs [of 79 ?cs] by (simp add: concat_chunks length_chunks)
  moreover have "length (inner (reply_buf r)) \<le> 4096" using assms(1) wf_pb_length by (auto simp: reply_shape_def)
  ultimately have ok: "is_ok (snd (reply_add_eap_message r eap)) \<longleftrightarrow>
      length (inner (reply_buf r)) + length eap + 2 * ((length eap + 252) div 253) \<le> 4096"
    using add_eap_chunks_ok_iff [OF cs] by (simp add: reply_add_eap_message_def on_buf_eq add.assoc)
  obtain r' res where res: "reply_add_eap_message r eap = (r', res)" by (cases "reply_add_eap_message r eap")
  show ?thesis
    using ok reassemble_added [OF assms, of eap] by (cases res) (simp_all add: res)
qed

theorem eap_message_carried_witness:
  "\<exists>r. reply_new ACCESS_CHALLENGE 7 = Some r \<and> (case reply_add_eap_message r (replicate 600 1) of
      (r', Ok _) \<Rightarrow> length (inner (reply_buf r)) + length (replicate 600 (1 :: u8)) + 2 * ((length (replicate 600 (1 :: u8)) + 252) div 253) \<le> 4096
        \<and> reassemble (attributes (reply_buf r')) = replicate 600 1
    | (r', Err _) \<Rightarrow> 4096 < length (inner (reply_buf r)) + length (replicate 600 (1 :: u8)) + 2 * ((length (replicate 600 (1 :: u8)) + 252) div 253))"
proof -
  obtain r where r: "reply_with_capacity ACCESS_CHALLENGE 7 512 = Some r"
    "reply_shape r (inner (with_capacity ACCESS_CHALLENGE 7 512)) [(80, replicate 16 0)]"
    using reply_with_capacity_shape by blast
  have "filter (\<lambda>a. fst a = 79) [(80 :: u8, replicate 16 (0 :: u8))] = []" by simp
  from eap_message_carried [OF r(2) this, of "replicate 600 1"] r(1) show ?thesis
    unfolding reply_new_def by (intro exI [of _ r]) simp
qed

text \<open>
  C40: \<open>without_message_authenticator\<close> does not only drop the reserved Message-Authenticator: called
  after attributes were added, it truncates the whole attribute region and silently loses them.
\<close>

theorem without_message_authenticator_loses_attributes:
  assumes "reply_new c i = Some r" and "reply_add_attribute r t v = (r', Ok ())"
  shows "attributes (reply_buf r') = encode_attrs [(80, replicate 16 0), (t, v)]
    \<and> attributes (reply_buf (without_message_authenticator r')) = []"
proof
  have r: "reply_shape r (inner (with_capacity c i 512)) [(80, replicate 16 0)]" "ma_value_offset r = Some 22"
    using reply_with_capacity_shape [of c i 512] assms(1) by (auto simp: reply_new_def)
  then have "attributes (reply_buf r) = encode_attr 80 (replicate 16 0)" "20 \<le> length (inner (reply_buf r))"
    using wf_pb_length [of "reply_buf r"] by (auto simp: reply_shape_def laid_out_def attributes_def)
  moreover have r': "inner (reply_buf r') = inner (reply_buf r) @ encode_attr t v" "ma_value_offset r' = ma_value_offset r"
    using assms(2) by (auto simp: reply_add_attribute_def on_buf_eq add_attribute_eq split: if_splits)
  ultimately show "attributes (reply_buf r') = encode_attrs [(80, replicate 16 0), (t, v)]"
    by (simp add: attributes_def)
  show "attributes (reply_buf (without_message_authenticator r')) = []"
    using without_message_authenticator_attributes r(2) r'(2) by simp
qed

theorem without_message_authenticator_loses_attributes_witness:
  "\<exists>r r'. reply_new ACCESS_ACCEPT 7 = Some r \<and> reply_add_attribute r 18 [72, 105] = (r', Ok ())
    \<and> attributes (reply_buf r') = encode_attrs [(80, replicate 16 0), (18, [72, 105])]
    \<and> attributes (reply_buf (without_message_authenticator r')) = []"
proof -
  obtain r where r: "reply_with_capacity ACCESS_ACCEPT 7 512 = Some r"
    "reply_shape r (inner (with_capacity ACCESS_ACCEPT 7 512)) [(80, replicate 16 0)]"
    using reply_with_capacity_shape by blast
  have "length (inner (reply_buf r)) = 38" using r(2) by (auto simp: reply_shape_def laid_out_def)
  then obtain r' where "reply_add_attribute r 18 [72, 105] = (r', Ok ())"
    using reply_add_attribute_shape [OF r(2), of 18 "[72, 105]"] by auto
  with r(1) show ?thesis
    using without_message_authenticator_loses_attributes [of ACCESS_ACCEPT 7 r 18 "[72, 105]" r'] by (auto simp: reply_new_def)
qed

end
