(* ===== verification/Client_Request.thy ===== *)
theory Client_Request
  imports Reply
begin

text \<open>
  \<^verbatim>\<open>src/codec/request.rs\<close> and \<^verbatim>\<open>src/codec/response.rs\<close>: the builder of outgoing requests and the
  verification of the responses to them. The lemmas show that a request built by these operations
  and sealed carries authenticators that verify, and that a sealed reply whose code answers the
  request is accepted by \<open>Response::verify\<close>, whatever datagram bytes follow it.
\<close>

section \<open>Outgoing requests\<close>

record client_request =
  creq_buf :: packet_buffer
  creq_password :: "bytes option"

definition creq_from_buffer :: "packet_buffer \<Rightarrow> client_request" where
  "creq_from_buffer buf = \<lparr>creq_buf = buf, creq_password = None\<rparr>"

definition creq_new :: "code \<Rightarrow> client_request option" where
  "creq_new c =
     (case append_zeroed_slot (pb_new c 0) of
        (_, Err _) \<Rightarrow> None
      | (buf, Ok _) \<Rightarrow> Some \<lparr>creq_buf = buf, creq_password = None\<rparr>)"

definition creq_access :: "client_request option" where "creq_access = creq_new ACCESS_REQUEST"
definition creq_accounting :: "client_request option" where "creq_accounting = creq_new ACCOUNTING_REQUEST"
definition creq_status_server :: "client_request option" where "creq_status_server = creq_new STATUS_SERVER"
definition creq_coa :: "client_request option" where "creq_coa = creq_new COA_REQUEST"
definition creq_disconnect :: "client_request option" where "creq_disconnect = creq_new DISCONNECT_REQUEST"

definition creq_code :: "client_request \<Rightarrow> code option" where
  "creq_code q = map_option hdr_code (pb_header (creq_buf q))"

definition creq_user_password ::
    "client_request \<Rightarrow> bytes \<Rightarrow> (client_request \<times> (codec_error, unit) result) option" where
  "creq_user_password q plaintext =
     Option.bind (creq_code q) (\<lambda>c.
       if c \<noteq> ACCESS_REQUEST then Some (q, Err WrongPacketType)
       else if length plaintext > 128 then Some (q, Err (PasswordTooLong (length plaintext)))
       else Some (q\<lparr>creq_password := Some plaintext\<rparr>, Ok ()))"

definition check_attribute :: "u8 \<Rightarrow> (codec_error, unit) result" where
  "check_attribute t = (if t = 2 \<or> t = MA_TYPE then Err (ReservedAttribute t) else Ok ())"

text \<open>Guard with \<open>check_attribute\<close>, then run an append operation of the buffer.\<close>

definition on_creq ::
    "(codec_error, unit) result \<Rightarrow> (packet_buffer \<Rightarrow> packet_buffer \<times> (codec_error, unit) result)
      \<Rightarrow> client_request \<Rightarrow> client_request \<times> (codec_error, unit) result" where
  "on_creq guard f q =
     (case guard of
        Err e \<Rightarrow> (q, Err e)
      | Ok _ \<Rightarrow> (case f (creq_buf q) of (buf, res) \<Rightarrow> (q\<lparr>creq_buf := buf\<rparr>, res)))"

definition creq_add_attribute ::
    "client_request \<Rightarrow> u8 \<Rightarrow> bytes \<Rightarrow> client_request \<times> (codec_error, unit) result" where
  "creq_add_attribute q t val = on_creq (check_attribute t) (\<lambda>buf. add_attribute buf t val) q"

definition creq_add ::
    "client_request \<Rightarrow> 'v attr \<Rightarrow> writer \<Rightarrow> client_request \<times> (codec_error, unit) result" where
  "creq_add q a write_value = on_creq (check_attribute (attr_code a)) (\<lambda>buf. pb_add buf a write_value) q"

definition creq_add_vsa ::
    "client_request \<Rightarrow> 'v vsa_attr \<Rightarrow> writer \<Rightarrow> client_request \<times> (codec_error, unit) result" where
  "creq_add_vsa q a write_value = on_creq (Ok ()) (\<lambda>buf. pb_add_vsa buf a write_value) q"

definition creq_add_tlv ::
    "client_request \<Rightarrow> u8 \<Rightarrow> tlv_build \<Rightarrow> client_request \<times> (codec_error, unit) result" where
  "creq_add_tlv q t build = on_creq (check_attribute t) (\<lambda>buf. add_tlv buf t build) q"

definition creq_add_state ::
    "client_request \<Rightarrow> bytes \<Rightarrow> client_request \<times> (codec_error, unit) result" where
  "creq_add_state q st = creq_add_attribute q 24 st"

definition creq_add_eap_message ::
    "client_request \<Rightarrow> bytes \<Rightarrow> client_request \<times> (codec_error, unit) result" where
  "creq_add_eap_message q packet =
     (let previous = length (attributes (creq_buf q))
      in case add_eap_chunks (creq_buf q) (chunks 253 packet) of
           (buf, Err e) \<Rightarrow> (q\<lparr>creq_buf := truncate_attributes_to buf previous\<rparr>, Err e)
         | (buf, Ok _) \<Rightarrow> (q\<lparr>creq_buf := buf\<rparr>, Ok ()))"

definition random_auth_code :: "code \<Rightarrow> bool" where
  "random_auth_code c \<longleftrightarrow> c = ACCESS_REQUEST \<or> c = STATUS_SERVER"

text \<open>\<open>rnd\<close> is what \<open>random_request_authenticator\<close> delivers; the outer \<open>None\<close> is a panic.\<close>

definition creq_seal ::
    "crypto \<Rightarrow> client_request \<Rightarrow> u8 \<Rightarrow> bytes \<Rightarrow> bytes \<Rightarrow> (codec_error, packet_buffer) result option" where
  "creq_seal C q identifier secret rnd =
     (let buf = set_identifier (creq_buf q) identifier
      in Option.bind (creq_code (q\<lparr>creq_buf := buf\<rparr>)) (\<lambda>c.
         let auth = (if random_auth_code c then random_request_authenticator rnd else replicate 16 0)
         in Option.bind
              (case creq_password q of
                 None \<Rightarrow> Some (buf, Ok ())
               | Some plaintext \<Rightarrow>
                   map_option (\<lambda>ciphertext. add_attribute buf 2 ciphertext)
                     (user_password_encrypt C plaintext secret auth))
              (\<lambda>(buf, res). case res of
                 Err e \<Rightarrow> Some (Err e)
               | Ok _ \<Rightarrow>
                   Option.bind (patch_length buf) (\<lambda>buf.
                     let tg = compute C (as_bytes buf) auth secret;
                         buf = ma_patch buf 22 tg
                     in Option.bind (creq_code (q\<lparr>creq_buf := buf\<rparr>)) (\<lambda>c.
                          let auth = (if random_auth_code c then auth
                                      else compute_zeroed_request C (as_bytes buf) secret)
                          in Some (Ok (set_authenticator buf auth)))))))"

section \<open>Responses\<close>

record response =
  resp_header :: header
  resp_packet :: bytes
  resp_request_authenticator :: bytes

definition resp_code :: "response \<Rightarrow> code" where "resp_code r = hdr_code (resp_header r)"
definition resp_identifier :: "response \<Rightarrow> u8" where "resp_identifier r = hdr_identifier (resp_header r)"
definition resp_attributes :: "response \<Rightarrow> bytes" where "resp_attributes r = drop MIN_PACKET_LEN (resp_packet r)"

definition matches_reply :: "code \<Rightarrow> code \<Rightarrow> bool" where
  "matches_reply request response =
     (if request = ACCESS_REQUEST then
        response = ACCESS_ACCEPT \<or> response = ACCESS_REJECT \<or> response = ACCESS_CHALLENGE
      else if request = ACCOUNTING_REQUEST then response = ACCOUNTING_RESPONSE
      else if request = STATUS_SERVER then response = ACCESS_ACCEPT \<or> response = ACCOUNTING_RESPONSE
      else if request = COA_REQUEST then response = COA_ACK \<or> response = COA_NAK
      else if request = DISCONNECT_REQUEST then response = DISCONNECT_ACK \<or> response = DISCONNECT_NAK
      else False)"

text \<open>The attribute loop of \<open>Response::verify\<close>: \<open>False\<close> is its early return.\<close>

fun response_attrs_ok :: "item list \<Rightarrow> bool" where
  "response_attrs_ok [] = True"
| "response_attrs_ok (Err _ # xs) = False"
| "response_attrs_ok (Ok a # xs) =
     (if attribute_type a = MA_TYPE \<and> length (raw_value a) \<noteq> VALUE_LEN then False else response_attrs_ok xs)"

definition response_verify ::
    "crypto \<Rightarrow> bytes \<Rightarrow> code \<Rightarrow> u8 \<Rightarrow> bytes \<Rightarrow> bytes \<Rightarrow> response option" where
  "response_verify C packet request_code identifier request_authenticator secret =
     (case header_parse packet of
        Err _ \<Rightarrow> None
      | Ok (h, attrs) \<Rightarrow>
          if hdr_identifier h \<noteq> identifier \<or> \<not> matches_reply request_code (hdr_code h) then None
          else if \<not> response_attrs_ok (items attrs) then None
          else
            let packet = take (unat (hdr_length h)) packet
            in if \<not> verify_response C packet request_authenticator secret then None
               else
                 let accepted =
                   (case verify C packet request_authenticator secret of
                      Valid \<Rightarrow> True
                    | Absent \<Rightarrow> request_code = ACCOUNTING_REQUEST
                    | Invalid \<Rightarrow> False)
                 in if accepted
                    then Some \<lparr>resp_header = h, resp_packet = packet,
                               resp_request_authenticator = request_authenticator\<rparr>
                    else None)"

section \<open>The request invariant\<close>

text \<open>The Message-Authenticator slot is the first attribute and no other attribute 80 or 2 is present.\<close>

definition creq_shape :: "client_request \<Rightarrow> bytes \<Rightarrow> (u8 \<times> bytes) list \<Rightarrow> bool" where
  "creq_shape q h as \<longleftrightarrow>
     laid_out (creq_buf q) h ((80, replicate 16 0) # as) \<and> wf_pb (creq_buf q)
     \<and> filter (\<lambda>a. fst a = 80 \<or> fst a = 2) as = []
     \<and> (\<forall>pw. creq_password q = Some pw \<longrightarrow> length pw \<le> 128)"

definition creq_inv :: "client_request \<Rightarrow> bool" where
  "creq_inv q \<longleftrightarrow> (\<exists>h as. creq_shape q h as)"

lemma creq_new_shape:
  "\<exists>q. creq_new c = Some q \<and> creq_shape q (inner (pb_new c 0)) [] \<and> creq_password q = None"
proof -
  have n: "length (inner (pb_new c 0)) = 20" by (simp add: pb_new_def)
  have "laid_out (pb_new c 0) (inner (pb_new c 0)) []" using n by (simp add: laid_out_def)
  from append_zeroed_slot_laid_out [OF this] n
  obtain buf where buf: "append_zeroed_slot (pb_new c 0) = (buf, Ok 22)"
    "laid_out buf (inner (pb_new c 0)) [(80, replicate 16 0)]" by auto
  have "wf_pb buf"
    using wf_pb_new [of c 0] laid_outD(1) [OF buf(2)] n by (simp add: wf_pb_def parseable_append)
  then show ?thesis using buf by (simp add: creq_new_def creq_shape_def)
qed

lemma creq_shape_append:
  assumes "creq_shape q h as" and "good_attrs bs" and "filter (\<lambda>a. fst a = 80 \<or> fst a = 2) bs = []"
    and "inner buf = inner (creq_buf q) @ encode_attrs bs" and "wf_pb buf"
  shows "creq_shape (q\<lparr>creq_buf := buf\<rparr>) h (as @ bs)"
  using assms by (simp add: creq_shape_def laid_out_def)

lemma on_creq_Ok:
  "on_creq (Ok u) f q = (q\<lparr>creq_buf := fst (f (creq_buf q))\<rparr>, snd (f (creq_buf q)))"
  by (simp add: on_creq_def split: prod.splits)

context attr_appender
begin

lemma on_creq_inv:
  assumes "valid x" and "creq_inv q" and "is_ok guard \<Longrightarrow> type_of x \<noteq> 80 \<and> type_of x \<noteq> 2"
  shows "creq_inv (fst (on_creq guard (op x) q))"
proof (cases guard)
  case (Err e)
  then show ?thesis using assms(2) by (simp add: on_creq_def)
next
  case (Ok u)
  obtain h as where s: "creq_shape q h as" using assms(2) by (auto simp: creq_inv_def)
  obtain bs where bs: "good_attrs bs" "\<forall>a\<in>set bs. fst a = type_of x"
    "inner (fst (op x (creq_buf q))) = inner (creq_buf q) @ encode_attrs bs"
    using op_extends [OF assms(1)] by blast
  have "filter (\<lambda>a. fst a = 80 \<or> fst a = 2) bs = []"
    using bs(2) assms(3) Ok by (auto simp: filter_empty_conv)
  moreover have "wf_pb (fst (op x (creq_buf q)))"
    using op_wf [OF assms(1)] s by (simp add: creq_shape_def)
  ultimately show ?thesis
    using creq_shape_append [OF s bs(1) _ bs(3)] by (auto simp: Ok on_creq_Ok creq_inv_def)
qed

end

lemma check_attribute_ok: "is_ok (check_attribute t) \<longleftrightarrow> t \<noteq> 80 \<and> t \<noteq> 2"
  by (auto simp: check_attribute_def)

lemma creq_add_attribute_inv: "creq_inv q \<Longrightarrow> creq_inv (fst (creq_add_attribute q t v))"
  using add_attribute_op.on_creq_inv [of q "check_attribute t" "(t, v)"] check_attribute_ok
  by (simp add: creq_add_attribute_def)

lemma creq_add_inv: "appends w \<Longrightarrow> creq_inv q \<Longrightarrow> creq_inv (fst (creq_add q a w))"
  using add_op.on_creq_inv [of "(a, w)" q "check_attribute (attr_code a)"] check_attribute_ok
  by (simp add: creq_add_def)

lemma creq_add_vsa_inv: "appends w \<Longrightarrow> creq_inv q \<Longrightarrow> creq_inv (fst (creq_add_vsa q a w))"
  using add_vsa_op.on_creq_inv [of "(a, w)" q "Ok ()"] by (simp add: creq_add_vsa_def)

lemma creq_add_tlv_inv: "build_appends b \<Longrightarrow> creq_inv q \<Longrightarrow> creq_inv (fst (creq_add_tlv q t b))"
  using add_tlv_op.on_creq_inv [of "(t, b)" q "check_attribute t"] check_attribute_ok
  by (simp add: creq_add_tlv_def)

lemma creq_user_password_inv:
  assumes "creq_inv q" and "creq_user_password q pw = Some (q', res)"
  shows "creq_inv q'"
proof -
  obtain h as where "creq_shape q h as" using assms(1) by (auto simp: creq_inv_def)
  then have "creq_shape q' h as"
    using assms(2) by (auto simp: creq_user_password_def creq_shape_def bind_eq_Some_conv split: if_splits)
  then show ?thesis by (auto simp: creq_inv_def)
qed

text \<open>On failure the fragments already written are rolled back.\<close>

lemma creq_add_eap_message_rollback:
  assumes "creq_inv q" and "creq_add_eap_message q eap = (q', Err e)"
  shows "q' = q"
proof -
  have le: "\<forall>c\<in>set (chunks 253 eap). length c \<le> 253" using length_chunks_le by blast
  obtain buf where buf: "add_eap_chunks (creq_buf q) (chunks 253 eap) = (buf, Err e)"
    "q' = q\<lparr>creq_buf := truncate_attributes_to buf (length (attributes (creq_buf q)))\<rparr>"
    using assms(2) by (auto simp: creq_add_eap_message_def Let_def split: prod.splits result.splits)
  obtain bs where "inner buf = inner (creq_buf q) @ bs"
    using add_eap_chunks_extends [OF le, of "creq_buf q"] buf(1) by auto
  moreover have "20 \<le> length (inner (creq_buf q))"
    using assms(1) by (auto simp: creq_inv_def creq_shape_def dest: wf_pb_length)
  ultimately have "truncate_attributes_to buf (length (attributes (creq_buf q))) = creq_buf q"
    by (simp add: truncate_attributes_to_def attributes_def)
  then show ?thesis using buf(2) by simp
qed

lemma creq_add_eap_message_shape:
  assumes "creq_shape q h as" and "creq_add_eap_message q eap = (q', Ok u)"
  shows "creq_shape q' h (as @ map (Pair 79) (chunks 253 eap))"
proof -
  have le: "\<forall>c\<in>set (chunks 253 eap). length c \<le> 253" using length_chunks_le by blast
  obtain buf where buf: "add_eap_chunks (creq_buf q) (chunks 253 eap) = (buf, Ok u)" "q' = q\<lparr>creq_buf := buf\<rparr>"
    using assms(2) by (auto simp: creq_add_eap_message_def Let_def split: prod.splits result.splits)
  have "wf_pb (creq_buf q)" using assms(1) by (simp add: creq_shape_def)
  then have n: "inner buf = inner (creq_buf q) @ encode_attrs (map (Pair 79) (chunks 253 eap))" "wf_pb buf"
    using add_eap_chunks_extends [OF le, of "creq_buf q"] by (auto simp: buf(1))
  have "filter (\<lambda>a. fst a = 80 \<or> fst a = 2) (map (Pair (79 :: u8)) (chunks 253 eap)) = []"
    by (simp add: filter_empty_conv)
  moreover have "good_attrs (map (Pair 79) (chunks 253 eap))"
    using good_attrs_chunks [of 79 "length (chunks 253 eap)" eap] by simp
  ultimately show ?thesis using creq_shape_append [OF assms(1) _ _ n] buf(2) by simp
qed

lemma creq_add_eap_message_inv:
  assumes "creq_inv q"
  shows "creq_inv (fst (creq_add_eap_message q eap))"
proof (cases "creq_add_eap_message q eap")
  case (Pair q' res)
  then show ?thesis
    using assms creq_add_eap_message_rollback [OF assms, of eap q'] creq_add_eap_message_shape [of q _ _ eap q']
    unfolding creq_inv_def by (cases res) (simp, blast, simp)
qed

text \<open>
  Adding an EAP packet to a client request is all or nothing: on success the request has gained
  exactly the EAP-Message fragments of that packet and the receiver reassembles it; on failure,
  even after some fragments were written, the request is what it was before.
\<close>

theorem request_eap_message_atomic:
  assumes "creq_shape q h as"
  shows "case creq_add_eap_message q eap of
      (q', Err _) \<Rightarrow> q' = q
    | (q', Ok _) \<Rightarrow> creq_shape q' h (as @ map (Pair 79) (chunks 253 eap)) \<and> concat (chunks 253 eap) = eap"
proof -
  obtain q' res where r: "creq_add_eap_message q eap = (q', res)" by (cases "creq_add_eap_message q eap")
  have "creq_inv q" using assms by (auto simp: creq_inv_def)
  then show ?thesis
    using r creq_add_eap_message_rollback [of q eap q'] creq_add_eap_message_shape [OF assms, of eap q']
    by (cases res) (simp_all add: concat_chunks)
qed

theorem request_eap_message_atomic_witness:
  "\<exists>q h. creq_new ACCESS_REQUEST = Some q \<and>
    (case creq_add_eap_message q (replicate 5000 1) of
      (q', Err _) \<Rightarrow> q' = q
    | (q', Ok _) \<Rightarrow> creq_shape q' h ([] @ map (Pair 79) (chunks 253 (replicate 5000 1)))
        \<and> concat (chunks 253 (replicate 5000 1)) = (replicate 5000 1 :: bytes))"
proof -
  obtain q where q: "creq_new ACCESS_REQUEST = Some q" "creq_shape q (inner (pb_new ACCESS_REQUEST 0)) []"
    using creq_new_shape by blast
  from q(1) request_eap_message_atomic [OF q(2), of "replicate 5000 1"] show ?thesis by (intro exI conjI)
qed

section \<open>A sealed request verifies\<close>

lemma laid_out_wf:
  assumes "laid_out pb (with_length h n) as" and "length h = 20" and "n = length (inner pb)" and "n \<le> 4096"
  shows "wf_pb pb"
proof -
  have "length_field (inner pb) = n"
    using length_field_with_length(1) [of h n] laid_outD(1) [OF assms(1)] assms(2,4) by simp
  moreover have "20 \<le> length (inner pb)"
    by (subst laid_outD(1) [OF assms(1)]) (simp add: assms(2))
  ultimately show "wf_pb pb" using assms(3,4) by (simp add: wf_pb_def parseable_def)
qed

lemma creq_code_eq:
  assumes "laid_out buf h as" and "wf_pb buf"
  shows "creq_code (q\<lparr>creq_buf := buf\<rparr>) = Some (Code (h ! 0))"
  using pb_header_eq [OF assms(2)] laid_outD(1,2) [OF assms(1)] by (simp add: creq_code_def nth_append)

text \<open>The attributes the password stage adds, and whether they fit.\<close>

definition password_attrs :: "crypto \<Rightarrow> client_request \<Rightarrow> bytes \<Rightarrow> bytes \<Rightarrow> (u8 \<times> bytes) list" where
  "password_attrs C q secret auth =
     (case creq_password q of
        None \<Rightarrow> []
      | Some pw \<Rightarrow> (case user_password_encrypt C pw secret auth of None \<Rightarrow> [] | Some ct \<Rightarrow> [(2, ct)]))"

definition seal_fits :: "client_request \<Rightarrow> bool" where
  "seal_fits q \<longleftrightarrow>
     (case creq_password q of
        None \<Rightarrow> True
      | Some pw \<Rightarrow> length (inner (creq_buf q)) + 2 + 16 * user_blocks pw \<le> 4096)"

lemma password_stage:
  assumes "wf_crypto C" and "laid_out buf h as" and "wf_pb buf"
    and "length (inner buf) = length (inner (creq_buf q))"
    and "\<And>pw. creq_password q = Some pw \<Longrightarrow> length pw \<le> 128" and "seal_fits q"
  shows "\<exists>buf'. (case creq_password q of
        None \<Rightarrow> Some (buf, Ok ())
      | Some pw \<Rightarrow> map_option (\<lambda>ct. add_attribute buf 2 ct) (user_password_encrypt C pw secret auth))
      = Some (buf', Ok ()) \<and> laid_out buf' h (as @ password_attrs C q secret auth)
    \<and> length (inner buf') \<le> 4096 \<and> filter is_ma (password_attrs C q secret auth) = []"
proof (cases "creq_password q")
  case None
  then show ?thesis using assms(2,3) wf_pb_length by (simp add: password_attrs_def)
next
  case (Some pw)
  then obtain ct where ct: "user_password_encrypt C pw secret auth = Some ct"
    using assms(5) user_password_encrypt_eq by blast
  note len = user_password_encrypt_length [OF assms(1) ct]
  then have fit: "length ct \<le> 253" "length (inner buf) + length ct \<le> 4094"
    using assms(4,6) by (simp_all add: seal_fits_def Some)
  obtain buf' where buf': "add_attribute buf 2 ct = (buf', Ok ())" "laid_out buf' h (as @ [(2, ct)])"
    using add_attribute_laid_out [OF assms(2) fit] by blast
  then show ?thesis
    using fit laid_outD(1) [OF buf'(2)] laid_outD(1) [OF assms(2)]
    by (simp add: Some ct password_attrs_def)
qed

text \<open>The authenticator the Message-Authenticator of a sealed request is computed with.\<close>

definition seal_auth :: "code \<Rightarrow> bytes \<Rightarrow> bytes" where
  "seal_auth c rnd = (if random_auth_code c then take 16 rnd else replicate 16 0)"

lemma seal_auth_eq:
  "(if random_auth_code c then random_request_authenticator rnd else replicate 16 0) = seal_auth c rnd"
  by (simp add: seal_auth_def random_request_authenticator_def)

text \<open>The last stage of \<open>seal\<close>: length, tag and authenticator.\<close>

lemma finish_stage:
  assumes "wf_crypto C" and "laid_out buf h ((80, replicate 16 0) # as)" and "length (inner buf) \<le> 4096"
    and "filter is_ma as = []" and "length a = 16"
  shows "\<exists>buf3 tg a5 pb. patch_length buf = Some buf3 \<and> tg = compute C (inner buf3) a secret
    \<and> creq_code (q\<lparr>creq_buf := ma_patch buf3 22 tg\<rparr>) = Some (Code (h ! 0))
    \<and> a5 = (if random then a else compute_zeroed_request C (inner (ma_patch buf3 22 tg)) secret)
    \<and> pb = set_authenticator (ma_patch buf3 22 tg) a5
    \<and> laid_out pb (with_auth (with_length h (length (inner buf))) a5) ((80, tg) # as)
    \<and> length (inner pb) = length (inner buf) \<and> length a5 = 16
    \<and> verify C (inner pb) a secret = Valid \<and> (\<not> random \<longrightarrow> verify_zeroed_request C (inner pb) secret)"
proof -
  let ?n = "length (inner buf)"
  let ?h = "with_length h ?n"
  have h: "length h = 20" by (rule laid_outD(2) [OF assms(2)])
  obtain buf3 where b3: "patch_length buf = Some buf3" "laid_out buf3 ?h ((80, replicate 16 0) # as)"
    using patch_length_laid_out [OF assms(2,3)] by blast
  define tg where "tg = compute C (inner buf3) a secret"
  let ?b4 = "ma_patch buf3 22 tg"
  have tg: "length tg = 16" using assms(1) by (simp add: tg_def)
  have L4: "laid_out ?b4 ?h ((80, tg) # as)"
    using ma_patch_laid_out [of buf3 ?h "[]" "replicate 16 0" as tg 22] b3(2) tg by simp
  have n4: "?n = length (inner ?b4)"
    using laid_outD(1) [OF L4] laid_outD(1) [OF assms(2)] h tg by simp
  have "wf_pb ?b4" by (rule laid_out_wf [OF L4 h n4 assms(3)])
  from creq_code_eq [OF L4 this, of q]
  have code4: "creq_code (q\<lparr>creq_buf := ?b4\<rparr>) = Some (Code (h ! 0))"
    using h by (simp add: with_length_def nth_append)
  define a5 where "a5 = (if random then a else compute_zeroed_request C (inner ?b4) secret)"
  have a5: "length a5 = 16" using assms(1,5) by (simp add: a5_def compute_zeroed_request_def)
  let ?pb = "set_authenticator ?b4 a5" and ?h5 = "with_auth ?h a5"
  have L5: "laid_out ?pb ?h5 ((80, tg) # as)" by (rule set_authenticator_laid_out [OF L4 a5])
  have "verify C (inner ?pb) a secret = Valid"
    using verify_patched [OF assms(1), of ?h5 ?h "[]" "replicate 16 0" as tg a secret] h a5 assms(4)
      laid_outD(1) [OF L5] laid_outD(1,3) [OF b3(2)] by (simp add: tg_def)
  moreover have "verify_zeroed_request C (inner ?pb) secret" if "\<not> random"
    using verify_zeroed_sealed [OF assms(1), of ?h a5 "encode_attrs ((80, tg) # as)"] that h
      laid_outD(1) [OF L5] laid_outD(1) [OF L4] by (simp add: a5_def)
  moreover have "length (inner ?pb) = ?n" using n4 laid_outD(1,2) [OF L5] laid_outD(1,2) [OF L4] by simp
  ultimately show ?thesis using b3(1) code4 L5 a5 a5_def tg_def by blast
qed

lemma creq_seal_sealed:
  assumes "wf_crypto C" and "creq_shape q h as" and "seal_fits q" and "16 \<le> length rnd"
    and "c = Code (h ! 0)" and "auth = seal_auth c rnd"
  shows "\<exists>pb tg. creq_seal C q i secret rnd = Some (Ok pb)
    \<and> laid_out pb (take 20 (inner pb)) ((80, tg) # as @ password_attrs C q secret auth)
    \<and> wf_pb pb \<and> length_field (inner pb) = length (inner pb) \<and> take 2 (inner pb) = [h ! 0, i]
    \<and> verify C (inner pb) auth secret = Valid
    \<and> (if random_auth_code c then take 16 (drop 4 (inner pb)) = auth
       else verify_zeroed_request C (inner pb) secret)"
proof -
  let ?buf = "set_identifier (creq_buf q) i" and ?h = "h[1 := i]"
  let ?as = "as @ password_attrs C q secret auth"
  have L: "laid_out (creq_buf q) h ((80, replicate 16 0) # as)" and wf: "wf_pb (creq_buf q)"
    and nma: "filter is_ma as = []" and pw: "\<And>pw. creq_password q = Some pw \<Longrightarrow> length pw \<le> 128"
    using assms(2) by (auto simp: creq_shape_def filter_empty_conv)
  have h: "length h = 20" by (rule laid_outD(2) [OF L])
  have a: "length auth = 16" using assms(4,6) by (simp add: seal_auth_def)
  have L1: "laid_out ?buf ?h ((80, replicate 16 0) # as)" and wf1: "wf_pb ?buf"
    using set_identifier_laid_out [OF L] wf_pb_set_identifier [OF wf] by simp_all
  have code1: "creq_code (q\<lparr>creq_buf := ?buf\<rparr>) = Some c"
    using creq_code_eq [OF L1 wf1] h assms(5) by simp
  have "length (inner ?buf) = length (inner (creq_buf q))" by (simp add: set_identifier_def)
  from password_stage [OF assms(1) L1 wf1 this pw assms(3), of secret auth]
  obtain b where b: "(case creq_password q of
        None \<Rightarrow> Some (?buf, Ok ())
      | Some pw \<Rightarrow> map_option (\<lambda>ct. add_attribute ?buf 2 ct) (user_password_encrypt C pw secret auth))
      = Some (b, Ok ())" "laid_out b ?h ((80, replicate 16 0) # ?as)" "length (inner b) \<le> 4096"
      "filter is_ma (password_attrs C q secret auth) = []" by auto
  from finish_stage [OF assms(1) b(2,3) _ a, of secret q "random_auth_code c"] nma b(4)
  obtain buf3 tg a5 pb where f: "patch_length b = Some buf3" "tg = compute C (inner buf3) auth secret"
    "creq_code (q\<lparr>creq_buf := ma_patch buf3 22 tg\<rparr>) = Some c"
    "a5 = (if random_auth_code c then auth else compute_zeroed_request C (inner (ma_patch buf3 22 tg)) secret)"
    "pb = set_authenticator (ma_patch buf3 22 tg) a5"
    "laid_out pb (with_auth (with_length ?h (length (inner b))) a5) ((80, tg) # ?as)"
    "length (inner pb) = length (inner b)" "length a5 = 16"
    "verify C (inner pb) auth secret = Valid" "\<not> random_auth_code c \<longrightarrow> verify_zeroed_request C (inner pb) secret"
    using h assms(5) by auto
  have seal: "creq_seal C q i secret rnd = Some (Ok pb)"
    using code1 b(1) f(1-5)
    by (simp add: creq_seal_def Let_def seal_auth_eq assms(6) [symmetric] cong: option.case_cong if_cong
        split del: if_split)
  let ?h5 = "with_auth (with_length ?h (length (inner b))) a5"
  have lf: "length_field (inner pb) = length (inner pb)"
    using length_field_with_length(2) [of ?h "length (inner b)" a5] laid_outD(1) [OF f(6)] h b(3) f(7) by simp
  moreover have "take 2 (inner pb) = [h ! 0, i]"
  proof -
    have "take 2 (h[1 := i]) = [h ! 0, i]" using h
      by (cases h; cases "tl h") auto
    then show ?thesis using laid_outD(1) [OF f(6)] h by (simp add: with_auth_def with_length_def)
  qed
  moreover have "wf_pb pb" using lf b(3) f(7) laid_outD(1,2) [OF f(6)] by (simp add: wf_pb_def parseable_def)
  moreover have "take 16 (drop 4 (inner pb)) = a5"
    using laid_outD(1) [OF f(6)] h f(8) by (simp add: with_auth_def with_length_def)
  ultimately show ?thesis using seal f(4,6,9,10) laid_outD(5) [OF f(6)] by auto
qed

section \<open>What a response must satisfy\<close>

lemma response_attrs_ok_Err: "Err e \<in> set xs \<Longrightarrow> \<not> response_attrs_ok xs"
  by (induction xs rule: response_attrs_ok.induct) auto

lemma response_attrs_ok_eq:
  "good_attrs as \<Longrightarrow>
     response_attrs_ok (map (\<lambda>a. Ok (raw_of a)) as) \<longleftrightarrow> list_all (\<lambda>a. is_ma a \<longrightarrow> length (snd a) = 16) as"
  by (induction as) auto

lemma verify_response_iff:
  assumes "length h = 20" and "wf_crypto C"
  shows "verify_response C (h @ x) auth secret \<longleftrightarrow> drop 4 h = md5 C (take 4 h @ auth @ x @ secret)"
  using assms by (simp add: verify_response_def compute_response_def md5_with_substitute_eq Let_def)

text \<open>
  What RFC 2865 and RFC 3579 ask of a response with header \<open>h\<close> and attributes \<open>as\<close>: a Response
  Authenticator over the packet with the Request Authenticator in its place, and exactly one
  Message-Authenticator, which only accounting may leave out.
\<close>

definition tag_of :: "crypto \<Rightarrow> header \<Rightarrow> (u8 \<times> bytes) list \<Rightarrow> bytes \<Rightarrow> bytes \<Rightarrow> bytes" where
  "tag_of C h as auth secret =
     hmac_md5 C secret (take 4 (header_bytes h) @ auth @ encode_attrs (map zero_ma as))"

definition authentic_response ::
    "crypto \<Rightarrow> code \<Rightarrow> header \<Rightarrow> (u8 \<times> bytes) list \<Rightarrow> bytes \<Rightarrow> bytes \<Rightarrow> bool" where
  "authentic_response C request_code h as auth secret \<longleftrightarrow>
     hdr_authenticator h = md5 C (take 4 (header_bytes h) @ auth @ encode_attrs as @ secret)
     \<and> (filter is_ma as = [(80, tag_of C h as auth secret)]
        \<or> filter is_ma as = [] \<and> request_code = ACCOUNTING_REQUEST)"

text \<open>A packet on the wire: header, well-formed attributes, and a length field that covers them.\<close>

definition well_framed :: "header \<Rightarrow> (u8 \<times> bytes) list \<Rightarrow> bool" where
  "well_framed h as \<longleftrightarrow>
     length (hdr_authenticator h) = 16 \<and> good_attrs as
     \<and> unat (hdr_length h) = 20 + length (encode_attrs as) \<and> length (encode_attrs as) \<le> 4076"

lemma drop4_header_bytes [simp]: "drop 4 (header_bytes h) = hdr_authenticator h"
  by (simp add: header_bytes_def u16_to_be_eq)

lemma response_authentic_iff:
  assumes "wf_crypto C" and "well_framed h as"
  defines "p \<equiv> header_bytes h @ encode_attrs as"
  shows "authentic_response C rc h as auth secret \<longleftrightarrow>
    response_attrs_ok (items (encode_attrs as)) \<and> verify_response C p auth secret
    \<and> (verify C p auth secret = Valid \<or> verify C p auth secret = Absent \<and> rc = ACCOUNTING_REQUEST)"
proof -
  have h: "length (header_bytes h) = 20" and as: "good_attrs as"
    using assms(2) by (simp_all add: well_framed_def)
  have "items (encode_attrs as) = map (\<lambda>a. Ok (raw_of a)) as"
    using items_encode_attrs_append [OF as, of "[]"] by simp
  moreover have "list_all (\<lambda>a. is_ma a \<longrightarrow> length (snd a) = 16) as \<longleftrightarrow> list_all (\<lambda>a. length (snd a) = 16) (filter is_ma as)"
    by (induction as) auto
  ultimately have "response_attrs_ok (items (encode_attrs as)) \<longleftrightarrow>
      list_all (\<lambda>a. length (snd a) = 16) (filter is_ma as)"
    using response_attrs_ok_eq [OF as] by simp
  then show ?thesis
    using assms(1) unfolding p_def authentic_response_def tag_of_def verify_response_iff [OF h assms(1)]
      verify_Valid_iff [OF h as assms(1)] verify_Absent_iff [OF h as]
    by auto
qed

lemma authentic_responseI:
  assumes "wf_crypto C" and "well_framed h as"
    and "verify_response C (header_bytes h @ encode_attrs as) auth secret"
    and "verify C (header_bytes h @ encode_attrs as) auth secret = Valid
      \<or> verify C (header_bytes h @ encode_attrs as) auth secret = Absent \<and> rc = ACCOUNTING_REQUEST"
  shows "authentic_response C rc h as auth secret"
proof -
  have h: "length (header_bytes h) = 20" and as: "good_attrs as"
    using assms(2) by (simp_all add: well_framed_def)
  show ?thesis
    using assms(1,3,4) verify_response_iff [OF h assms(1)] verify_Valid_iff [OF h as assms(1)] verify_Absent_iff [OF h as]
    by (auto simp: authentic_response_def tag_of_def)
qed

lemma response_verify_framed:
  assumes "wf_crypto C" and "well_framed h as"
  shows "response_verify C (header_bytes h @ encode_attrs as @ trailing) rc i auth secret =
    (if hdr_identifier h = i \<and> matches_reply rc (hdr_code h) \<and> authentic_response C rc h as auth secret
     then Some \<lparr>resp_header = h, resp_packet = header_bytes h @ encode_attrs as,
                resp_request_authenticator = auth\<rparr>
     else None)"
proof -
  have parse: "header_parse (header_bytes h @ encode_attrs as @ trailing) = Ok (h, encode_attrs as)"
    using assms(2) by (intro header_parse_print) (simp_all add: well_framed_def)
  have "take (unat (hdr_length h)) (header_bytes h @ encode_attrs as @ trailing) = header_bytes h @ encode_attrs as"
    using assms(2) by (simp add: well_framed_def)
  then show ?thesis
    using response_authentic_iff [OF assms, of rc auth secret]
    by (auto simp: response_verify_def parse Let_def split: verification.splits)
qed

lemma response_verify_well_framed:
  assumes "response_verify C packet rc i auth secret = Some resp"
  shows "\<exists>h as trailing. packet = header_bytes h @ encode_attrs as @ trailing \<and> well_framed h as"
proof -
  obtain h attrs where p: "header_parse packet = Ok (h, attrs)" and ok: "response_attrs_ok (items attrs)"
    using assms by (auto simp: response_verify_def split: result.splits if_splits)
  obtain as tail where as: "good_attrs as" "attrs = encode_attrs as @ tail"
    "items attrs = map (\<lambda>a. Ok (raw_of a)) as @ items tail" "tail = [] \<or> (\<exists>e. items tail = [Err e])"
    using items_decompose [of attrs] by blast
  have "tail = []"
    using as(3,4) ok response_attrs_ok_Err [of _ "items attrs"] by fastforce
  then have a: "attrs = encode_attrs as" using as(2) by simp
  have "packet = take (unat (hdr_length h)) packet @ drop (unat (hdr_length h)) packet" by simp
  then have "packet = header_bytes h @ encode_attrs as @ drop (unat (hdr_length h)) packet"
    unfolding header_print_parse [OF p] a by simp
  moreover have "well_framed h as"
    using header_parse_lengths [OF p] as(1) a by (simp add: well_framed_def)
  ultimately show ?thesis by blast
qed

text \<open>
  C4: \<open>Response::verify\<close> accepts a datagram exactly when it starts with a well-framed packet that
  carries the identifier of the request, a code that answers it, a Response Authenticator that is
  the MD5 over the packet with the Request Authenticator and the secret, and exactly one
  Message-Authenticator equal to the HMAC (for accounting also none); the response it returns is
  that packet without the bytes behind it.
\<close>

theorem response_verify_spec:
  assumes "wf_crypto C"
  shows "response_verify C packet rc i auth secret = Some resp \<longleftrightarrow>
    (\<exists>h as trailing. packet = header_bytes h @ encode_attrs as @ trailing \<and> well_framed h as
       \<and> hdr_identifier h = i \<and> matches_reply rc (hdr_code h) \<and> authentic_response C rc h as auth secret
       \<and> resp = \<lparr>resp_header = h, resp_packet = header_bytes h @ encode_attrs as,
                 resp_request_authenticator = auth\<rparr>)"
  (is "?L \<longleftrightarrow> ?R")
proof
  assume L: ?L
  then obtain h as trailing where w: "packet = header_bytes h @ encode_attrs as @ trailing" "well_framed h as"
    using response_verify_well_framed by blast
  show ?R
    using L w response_verify_framed [OF assms w(2), of trailing rc i auth secret]
    by (intro exI [of _ h] exI [of _ as] exI [of _ trailing]) (auto split: if_splits)
next
  assume ?R
  then show ?L using response_verify_framed [OF assms] by auto
qed

theorem response_verify_spec_witness:
  "\<forall>resp. response_verify toy_crypto ([2, 7, 0, 20] @ replicate 16 0) ACCESS_REQUEST 7 (replicate 16 3) [5] = Some resp \<longleftrightarrow>
    (\<exists>h as trailing. [2, 7, 0, 20] @ replicate 16 0 = header_bytes h @ encode_attrs as @ trailing \<and> well_framed h as
       \<and> hdr_identifier h = 7 \<and> matches_reply ACCESS_REQUEST (hdr_code h)
       \<and> authentic_response toy_crypto ACCESS_REQUEST h as (replicate 16 3) [5]
       \<and> resp = \<lparr>resp_header = h, resp_packet = header_bytes h @ encode_attrs as,
                 resp_request_authenticator = replicate 16 3\<rparr>)"
  by (intro allI) (rule response_verify_spec [OF wf_toy_crypto])

text \<open>A packet that is laid out and patched is well framed.\<close>

lemma laid_out_well_framed:
  assumes "laid_out pb h as" and "length_field (inner pb) = length (inner pb)" and "length (inner pb) \<le> 4096"
  shows "\<exists>hdr. h = header_bytes hdr \<and> well_framed hdr as \<and> hdr_code hdr = Code (h ! 0) \<and> hdr_identifier hdr = h ! 1"
proof -
  note L = laid_outD [OF assms(1)]
  have p: "parseable (inner pb)" using assms(2,3) L(1,2) by (simp add: parseable_def)
  obtain hdr attrs where hp: "header_parse (inner pb) = Ok (hdr, attrs)"
    using header_parse_eq [OF p] by blast
  note D = header_parse_OkD [OF hp] and N = header_parse_lengths [OF hp]
  have "attrs = encode_attrs as" using D(6) assms(2) L(1,2) by simp
  moreover from this have "header_bytes hdr @ attrs = h @ encode_attrs as"
    using header_print_parse [OF hp] D(4) assms(2) L(1) by simp
  ultimately have "h = header_bytes hdr" by simp
  moreover have "well_framed hdr as"
    using N \<open>attrs = encode_attrs as\<close> L(3) by (simp add: well_framed_def)
  moreover have "inner pb ! 0 = h ! 0" "inner pb ! 1 = h ! 1"
    using L(2) by (simp_all add: L(1) nth_append_left)
  ultimately show ?thesis using D(2,3) by auto
qed

lemma sealed_reply_verifies:
  assumes "wf_crypto C" and "reply_shape r h as" and "matches_reply rc (Code (h ! 0))"
    and "ma_value_offset r \<noteq> None \<or> rc = ACCOUNTING_REQUEST"
  shows "\<exists>pb resp. seal_for C r auth secret = Some pb
    \<and> response_verify C (inner pb @ trailing) rc (h ! 1) auth secret = Some resp
    \<and> resp_packet resp = inner pb \<and> resp_code resp = Code (h ! 0) \<and> resp_identifier resp = h ! 1
    \<and> (\<exists>as'. resp_attributes resp = encode_attrs as' \<and> good_attrs as'
         \<and> filter (Not \<circ> is_ma) as' = filter (Not \<circ> is_ma) as)"
proof -
  obtain pb as' where s: "seal_for C r auth secret = Some pb" "laid_out pb (take 20 (inner pb)) as'"
    "wf_pb pb" "length_field (inner pb) = length (inner pb)" "take 2 (inner pb) = take 2 h"
    "filter (Not \<circ> is_ma) as' = filter (Not \<circ> is_ma) as"
    "verify_response C (inner pb) auth secret" "verify C (inner pb) auth secret = ma_outcome r"
    using seal_for_sealed [OF assms(1,2), of auth secret] by blast
  have len: "length (inner pb) \<le> 4096" using wf_pb_length [OF s(3)] by simp
  obtain hdr where hd: "take 20 (inner pb) = header_bytes hdr" "well_framed hdr as'"
    "hdr_code hdr = Code (take 20 (inner pb) ! 0)" "hdr_identifier hdr = take 20 (inner pb) ! 1"
    using laid_out_well_framed [OF s(2,4) len] by blast
  have h2: "inner pb ! 0 = h ! 0" "inner pb ! 1 = h ! 1"
    using arg_cong [OF s(5), of "\<lambda>x. x ! 0"] arg_cong [OF s(5), of "\<lambda>x. x ! 1"] by simp_all
  have pb: "inner pb = header_bytes hdr @ encode_attrs as'" using laid_outD(1) [OF s(2)] hd(1) by simp
  have "authentic_response C rc hdr as' auth secret"
    using authentic_responseI [OF assms(1) hd(2), of auth secret rc] s(7,8) assms(4)
    by (auto simp: pb ma_outcome_def)
  moreover have fields: "hdr_code hdr = Code (h ! 0)" "hdr_identifier hdr = h ! 1"
    using hd(3,4) h2 by simp_all
  ultimately have "response_verify C (inner pb @ trailing) rc (h ! 1) auth secret =
      Some \<lparr>resp_header = hdr, resp_packet = inner pb, resp_request_authenticator = auth\<rparr>"
    using response_verify_framed [OF assms(1) hd(2), of trailing rc "h ! 1" auth secret] assms(3) by (simp add: pb)
  moreover have "drop 20 (inner pb) = encode_attrs as'" using laid_outD(4) [OF s(2)] by (simp add: attributes_def)
  ultimately show ?thesis
    using s(1,6) laid_outD(3) [OF s(2)] fields
    by (auto simp: resp_code_def resp_identifier_def resp_attributes_def)
qed

text \<open>
  A reply that the server builds with the operations of \<open>Reply\<close> and seals for a request is
  accepted by the client's \<open>Response::verify\<close> for that request, with the reply's own code,
  identifier and attributes, whatever bytes the datagram carries behind it.
\<close>

theorem sealed_reply_accepted:
  assumes "wf_crypto C" and "reply_shape r h as" and "matches_reply rc (Code (h ! 0))"
    and "ma_value_offset r \<noteq> None \<or> rc = ACCOUNTING_REQUEST"
  shows "\<exists>pb resp. seal_for C r auth secret = Some pb
    \<and> response_verify C (inner pb @ trailing) rc (h ! 1) auth secret = Some resp
    \<and> resp_packet resp = inner pb \<and> resp_code resp = Code (h ! 0) \<and> resp_identifier resp = h ! 1
    \<and> (\<exists>as'. resp_attributes resp = encode_attrs as' \<and> good_attrs as'
         \<and> filter (Not \<circ> is_ma) as' = filter (Not \<circ> is_ma) as)"
  by (rule sealed_reply_verifies [OF assms])

theorem sealed_reply_accepted_witness:
  "\<exists>r pb resp. reply_new ACCESS_ACCEPT 7 = Some r \<and> seal_for toy_crypto r (replicate 16 3) [5] = Some pb
    \<and> response_verify toy_crypto (inner pb @ [0, 0]) ACCESS_REQUEST 7 (replicate 16 3) [5] = Some resp
    \<and> resp_packet resp = inner pb \<and> resp_code resp = ACCESS_ACCEPT \<and> resp_identifier resp = 7
    \<and> (\<exists>as'. resp_attributes resp = encode_attrs as' \<and> good_attrs as'
         \<and> filter (Not \<circ> is_ma) as' = filter (Not \<circ> is_ma) [(80, replicate 16 0)])"
proof -
  let ?h = "inner (with_capacity ACCESS_ACCEPT 7 512)"
  obtain r where r: "reply_with_capacity ACCESS_ACCEPT 7 512 = Some r" "reply_shape r ?h [(80, replicate 16 0)]"
    "ma_value_offset r = Some 22"
    using reply_with_capacity_shape by blast
  have h: "?h ! 0 = 2" "?h ! 1 = 7" by (simp_all add: with_capacity_def)
  have "matches_reply ACCESS_REQUEST (Code (?h ! 0))" by (simp add: with_capacity_def matches_reply_def)
  from sealed_reply_accepted [OF wf_toy_crypto r(2) this, of "replicate 16 3" "[5]" "[0, 0]"]
  obtain pb resp where "seal_for toy_crypto r (replicate 16 3) [5] = Some pb"
    "response_verify toy_crypto (inner pb @ [0, 0]) ACCESS_REQUEST 7 (replicate 16 3) [5] = Some resp"
    "resp_packet resp = inner pb" "resp_code resp = ACCESS_ACCEPT" "resp_identifier resp = 7"
    "\<exists>as'. resp_attributes resp = encode_attrs as' \<and> good_attrs as'
         \<and> filter (Not \<circ> is_ma) as' = filter (Not \<circ> is_ma) [(80, replicate 16 0)]"
    using r(3) unfolding h by auto
  then show ?thesis using r(1) unfolding reply_new_def by (intro exI [of _ r] exI [of _ pb] exI [of _ resp]) simp
qed

end
