(* ===== verification/Server_Types.thy ===== *)
theory Server_Types
  imports Header Net
begin

text \<open>
  The configuration and vocabulary of the server: \<^verbatim>\<open>src/server/role.rs\<close>, \<^verbatim>\<open>src/server/client.rs\<close>,
  \<^verbatim>\<open>src/server/store.rs\<close> (CIDR blocks and the static client table), \<^verbatim>\<open>src/server/accounting.rs\<close>
  and the enumerations of \<^verbatim>\<open>src/server/coa.rs\<close>. The lemmas show that the numeric encodings are
  inverse to each other, that a CIDR block contains exactly the addresses that agree with it on
  the prefix, and that the static table answers with the first block that contains the source.
\<close>

unbundle bit_operations_syntax

section \<open>Listener roles\<close>

datatype listener_role = Auth | Acct | AnyRole

fun status_reply_code :: "listener_role \<Rightarrow> code" where
  "status_reply_code Auth = ACCESS_ACCEPT"
| "status_reply_code AnyRole = ACCESS_ACCEPT"
| "status_reply_code Acct = ACCOUNTING_RESPONSE"

definition accepts :: "listener_role \<Rightarrow> code \<Rightarrow> bool" where
  "accepts role c =
     (if c = STATUS_SERVER then True
      else case role of
        Auth \<Rightarrow> c = ACCESS_REQUEST
      | Acct \<Rightarrow> c = ACCOUNTING_REQUEST
      | AnyRole \<Rightarrow> c = ACCESS_REQUEST \<or> c = ACCOUNTING_REQUEST \<or> c = COA_REQUEST \<or> c = DISCONNECT_REQUEST)"

section \<open>Clients\<close>

text \<open>
  \<open>ClientId::new\<close> adds one to a process-wide counter and panics when the counter had wrapped to
  zero; the argument is the counter's value before the call.
\<close>

definition client_id_new :: "u64 \<Rightarrow> u64 \<times> u64 option" where
  "client_id_new counter = (counter + 1, if counter = 0 then None else Some counter)"

record client =
  client_id :: u64
  client_secret :: bytes
  require_message_authenticator :: bool
  status_server_enabled :: bool

definition client_new :: "u64 \<Rightarrow> bytes \<Rightarrow> client" where
  "client_new i s =
     \<lparr>client_id = i, client_secret = s, require_message_authenticator = True, status_server_enabled = True\<rparr>"

definition allow_missing_message_authenticator :: "client \<Rightarrow> client" where
  "allow_missing_message_authenticator c = c\<lparr>require_message_authenticator := False\<rparr>"

definition disable_status_server :: "client \<Rightarrow> client" where
  "disable_status_server c = c\<lparr>status_server_enabled := False\<rparr>"

section \<open>CIDR blocks\<close>

record ip_cidr =
  network :: ip_addr
  prefix_len :: u8

datatype cidr_error = PrefixOutOfRange (max_prefix: u8) (actual_prefix: u8)

definition mask_v4 :: "u32 \<Rightarrow> u8 \<Rightarrow> u32" where
  "mask_v4 addr p =
     (if p = 0 then 0
      else let mask = push_bit (unat (32 - p)) (-1) in addr AND mask)"

definition mask_v6 :: "u128 \<Rightarrow> u8 \<Rightarrow> u128" where
  "mask_v6 addr p =
     (if p = 0 then 0
      else let mask = push_bit (unat (128 - p)) (-1) in addr AND mask)"

definition cidr_new :: "ip_addr \<Rightarrow> u8 \<Rightarrow> (cidr_error, ip_cidr) result" where
  "cidr_new address p =
     (let mx = (case address of V4 _ \<Rightarrow> 32 | V6 _ \<Rightarrow> 128)
      in if p > mx then Err (PrefixOutOfRange mx p)
         else Ok \<lparr>network = (case address of V4 v4 \<Rightarrow> V4 (mask_v4 v4 p) | V6 v6 \<Rightarrow> V6 (mask_v6 v6 p)),
                  prefix_len = p\<rparr>)"

text \<open>\<open>None\<close> is the panic of \<open>expect\<close>.\<close>

definition cidr_host :: "ip_addr \<Rightarrow> ip_cidr option" where
  "cidr_host address = ok (cidr_new address (case address of V4 _ \<Rightarrow> 32 | V6 _ \<Rightarrow> 128))"

definition cidr_contains :: "ip_cidr \<Rightarrow> ip_addr \<Rightarrow> bool" where
  "cidr_contains c addr =
     (case (network c, addr) of
        (V4 net, V4 candidate) \<Rightarrow> mask_v4 candidate (prefix_len c) = net
      | (V6 net, V6 candidate) \<Rightarrow> mask_v6 candidate (prefix_len c) = net
      | _ \<Rightarrow> False)"

section \<open>The static client table\<close>

record static_clients =
  static_entries :: "(ip_cidr \<times> client) list"

definition static_builder :: static_clients where
  "static_builder = \<lparr>static_entries = []\<rparr>"

definition static_add :: "static_clients \<Rightarrow> ip_cidr \<Rightarrow> client \<Rightarrow> static_clients" where
  "static_add b cidr c = b\<lparr>static_entries := static_entries b @ [(cidr, c)]\<rparr>"

definition static_build :: "static_clients \<Rightarrow> static_clients" where
  "static_build b = \<lparr>static_entries = static_entries b\<rparr>"

definition static_lookup_udp :: "static_clients \<Rightarrow> socket_addr \<Rightarrow> client option" where
  "static_lookup_udp t src =
     map_option snd (find (\<lambda>(cidr, _). cidr_contains cidr (socket_ip src)) (static_entries t))"

definition static_admit_radsec :: "static_clients \<Rightarrow> socket_addr \<Rightarrow> bool" where
  "static_admit_radsec t src = list_ex (\<lambda>(cidr, _). cidr_contains cidr (socket_ip src)) (static_entries t)"

definition static_lookup_radsec_by_cert :: "static_clients \<Rightarrow> socket_addr \<Rightarrow> 'cert \<Rightarrow> client option" where
  "static_lookup_radsec_by_cert t src peer = static_lookup_udp t src"

section \<open>Acct-Status-Type\<close>

datatype acct_status_type =
    AcctStart | AcctStop | InterimUpdate | AccountingOn | AccountingOff
  | TunnelStart | TunnelStop | TunnelReject | TunnelLinkStart | TunnelLinkStop | TunnelLinkReject
  | AcctFailed | AcctOther u32

definition acct_from_u32 :: "u32 \<Rightarrow> acct_status_type" where
  "acct_from_u32 v =
     (if v = 1 then AcctStart else if v = 2 then AcctStop else if v = 3 then InterimUpdate
      else if v = 7 then AccountingOn else if v = 8 then AccountingOff
      else if v = 9 then TunnelStart else if v = 10 then TunnelStop else if v = 11 then TunnelReject
      else if v = 12 then TunnelLinkStart else if v = 13 then TunnelLinkStop
      else if v = 14 then TunnelLinkReject else if v = 15 then AcctFailed else AcctOther v)"

fun acct_to_u32 :: "acct_status_type \<Rightarrow> u32" where
  "acct_to_u32 AcctStart = 1"
| "acct_to_u32 AcctStop = 2"
| "acct_to_u32 InterimUpdate = 3"
| "acct_to_u32 AccountingOn = 7"
| "acct_to_u32 AccountingOff = 8"
| "acct_to_u32 TunnelStart = 9"
| "acct_to_u32 TunnelStop = 10"
| "acct_to_u32 TunnelReject = 11"
| "acct_to_u32 TunnelLinkStart = 12"
| "acct_to_u32 TunnelLinkStop = 13"
| "acct_to_u32 TunnelLinkReject = 14"
| "acct_to_u32 AcctFailed = 15"
| "acct_to_u32 (AcctOther v) = v"

section \<open>Change-of-Authorization vocabulary\<close>

datatype coa_action = Coa | Disconnect

fun ack_code :: "coa_action \<Rightarrow> code" where
  "ack_code Coa = COA_ACK"
| "ack_code Disconnect = DISCONNECT_ACK"

fun nak_code :: "coa_action \<Rightarrow> code" where
  "nak_code Coa = COA_NAK"
| "nak_code Disconnect = DISCONNECT_NAK"

definition coa_from_code :: "code \<Rightarrow> coa_action option" where
  "coa_from_code c =
     (if c = COA_REQUEST then Some Coa else if c = DISCONNECT_REQUEST then Some Disconnect else None)"

datatype error_cause =
    ResidualSessionContextRemoved | InvalidEapPacket | UnsupportedAttribute | MissingAttribute
  | NasIdentificationMismatch | InvalidRequest | UnsupportedService | UnsupportedExtension
  | InvalidAttributeValue | AdministrativelyProhibited | RequestNotRoutable | SessionContextNotFound
  | SessionContextNotRemovable | OtherProxyProcessingError | ResourcesUnavailable | RequestInitiated
  | MultipleSessionSelectionUnsupported | OtherCause u32

definition cause_from_u32 :: "u32 \<Rightarrow> error_cause" where
  "cause_from_u32 v =
     (if v = 201 then ResidualSessionContextRemoved else if v = 202 then InvalidEapPacket
      else if v = 401 then UnsupportedAttribute else if v = 402 then MissingAttribute
      else if v = 403 then NasIdentificationMismatch else if v = 404 then InvalidRequest
      else if v = 405 then UnsupportedService else if v = 406 then UnsupportedExtension
      else if v = 407 then InvalidAttributeValue else if v = 501 then AdministrativelyProhibited
      else if v = 502 then RequestNotRoutable else if v = 503 then SessionContextNotFound
      else if v = 504 then SessionContextNotRemovable else if v = 505 then OtherProxyProcessingError
      else if v = 506 then ResourcesUnavailable else if v = 507 then RequestInitiated
      else if v = 508 then MultipleSessionSelectionUnsupported else OtherCause v)"

fun cause_to_u32 :: "error_cause \<Rightarrow> u32" where
  "cause_to_u32 ResidualSessionContextRemoved = 201"
| "cause_to_u32 InvalidEapPacket = 202"
| "cause_to_u32 UnsupportedAttribute = 401"
| "cause_to_u32 MissingAttribute = 402"
| "cause_to_u32 NasIdentificationMismatch = 403"
| "cause_to_u32 InvalidRequest = 404"
| "cause_to_u32 UnsupportedService = 405"
| "cause_to_u32 UnsupportedExtension = 406"
| "cause_to_u32 InvalidAttributeValue = 407"
| "cause_to_u32 AdministrativelyProhibited = 501"
| "cause_to_u32 RequestNotRoutable = 502"
| "cause_to_u32 SessionContextNotFound = 503"
| "cause_to_u32 SessionContextNotRemovable = 504"
| "cause_to_u32 OtherProxyProcessingError = 505"
| "cause_to_u32 ResourcesUnavailable = 506"
| "cause_to_u32 RequestInitiated = 507"
| "cause_to_u32 MultipleSessionSelectionUnsupported = 508"
| "cause_to_u32 (OtherCause v) = v"

section \<open>Facts\<close>

lemma acct_to_from [simp]: "acct_to_u32 (acct_from_u32 v) = v"
  by (simp add: acct_from_u32_def)

lemma cause_to_from [simp]: "cause_to_u32 (cause_from_u32 v) = v"
  by (simp add: cause_from_u32_def)

text \<open>Masking with the high bits compares the prefix.\<close>

lemma bit_high_mask:
  "bit (a AND push_bit n (-1) :: 'a :: len word) i \<longleftrightarrow> n \<le> i \<and> bit a i"
  using bit_imp_le_length [of a i] by (auto simp: bit_simps)

lemma word_bits_eq: "(a :: 'a :: len word) = b \<longleftrightarrow> (\<forall>i. bit a i = bit b i)"
  by (auto intro: bit_word_eqI)

lemma high_mask_eq_iff:
  fixes a b :: "'a :: len word"
  shows "a AND push_bit n (-1) = b AND push_bit n (-1) \<longleftrightarrow> drop_bit n a = drop_bit n b"
proof -
  have "a AND push_bit n (-1) = b AND push_bit n (-1) \<longleftrightarrow> (\<forall>i. n \<le> i \<longrightarrow> bit a i = bit b i)"
    unfolding word_bits_eq bit_high_mask by blast
  also have "\<dots> \<longleftrightarrow> (\<forall>i. bit a (n + i) = bit b (n + i))"
    by (auto simp: le_iff_add)
  also have "\<dots> \<longleftrightarrow> drop_bit n a = drop_bit n b"
    by (simp add: word_bits_eq bit_drop_bit_eq)
  finally show ?thesis .
qed

lemma high_mask_idem: "(a AND push_bit n (-1)) AND push_bit n (-1) = (a AND push_bit n (-1) :: 'a :: len word)"
  by (simp add: and.assoc)

text \<open>Two addresses of one family agree on their first \<open>p\<close> bits.\<close>

fun same_prefix :: "nat \<Rightarrow> ip_addr \<Rightarrow> ip_addr \<Rightarrow> bool" where
  "same_prefix p (V4 a) (V4 b) = (drop_bit (32 - p) a = drop_bit (32 - p) b)"
| "same_prefix p (V6 a) (V6 b) = (drop_bit (128 - p) a = drop_bit (128 - p) b)"
| "same_prefix p _ _ = False"

lemma drop_bit_all: "LENGTH('a) \<le> n \<Longrightarrow> drop_bit n (a :: 'a :: len word) = 0"
  by (auto simp: word_bits_eq bit_drop_bit_eq dest: bit_imp_le_length)

lemma mask_v4_eq_iff:
  assumes "p \<le> 32"
  shows "mask_v4 a p = mask_v4 b p \<longleftrightarrow> drop_bit (32 - unat p) a = drop_bit (32 - unat p) b"
proof -
  have "unat (32 - p) = 32 - unat p" using assms by (simp add: unat_sub)
  then show ?thesis
    using high_mask_eq_iff [of a "32 - unat p" b] drop_bit_all [where ?'a = 32] by (auto simp: mask_v4_def Let_def)
qed

lemma mask_v6_eq_iff:
  assumes "p \<le> 128"
  shows "mask_v6 a p = mask_v6 b p \<longleftrightarrow> drop_bit (128 - unat p) a = drop_bit (128 - unat p) b"
proof -
  have "unat (128 - p) = 128 - unat p" using assms by (simp add: unat_sub)
  then show ?thesis
    using high_mask_eq_iff [of a "128 - unat p" b] drop_bit_all [where ?'a = 128] by (auto simp: mask_v6_def Let_def)
qed

text \<open>
  A CIDR block built from an address and a prefix length contains exactly the addresses of the
  same family that agree with that address on the first \<open>prefix_len\<close> bits; a prefix length beyond
  the width of the family is refused.
\<close>

theorem cidr_contains_prefix:
  "let mx = (case base of V4 _ \<Rightarrow> 32 | V6 _ \<Rightarrow> 128)
   in if mx < p then cidr_new base p = Err (PrefixOutOfRange mx p)
      else \<exists>c. cidr_new base p = Ok c \<and> (\<forall>addr. cidr_contains c addr \<longleftrightarrow> same_prefix (unat p) base addr)"
proof (cases base)
  case (V4 a)
  show ?thesis
  proof (cases "p \<le> 32")
    case True
    have "cidr_contains \<lparr>network = V4 (mask_v4 a p), prefix_len = p\<rparr> addr \<longleftrightarrow> same_prefix (unat p) base addr" for addr
      using V4 mask_v4_eq_iff [OF True] by (cases addr) (auto simp: cidr_contains_def)
    then show ?thesis using V4 True by (simp add: cidr_new_def)
  qed (simp add: V4 cidr_new_def not_le)
next
  case (V6 a)
  show ?thesis
  proof (cases "p \<le> 128")
    case True
    have "cidr_contains \<lparr>network = V6 (mask_v6 a p), prefix_len = p\<rparr> addr \<longleftrightarrow> same_prefix (unat p) base addr" for addr
      using V6 mask_v6_eq_iff [OF True] by (cases addr) (auto simp: cidr_contains_def)
    then show ?thesis using V6 True by (simp add: cidr_new_def)
  qed (simp add: V6 cidr_new_def not_le)
qed

text \<open>The static table answers with the first entry whose block contains the source address.\<close>

lemma static_lookup_first:
  "static_lookup_udp t src = Some c \<longleftrightarrow>
     (\<exists>i<length (static_entries t). snd (static_entries t ! i) = c
        \<and> cidr_contains (fst (static_entries t ! i)) (socket_ip src)
        \<and> (\<forall>j<i. \<not> cidr_contains (fst (static_entries t ! j)) (socket_ip src)))"
proof -
  have "static_lookup_udp t src = Some c \<longleftrightarrow>
      (\<exists>e. find (\<lambda>e. cidr_contains (fst e) (socket_ip src)) (static_entries t) = Some e \<and> snd e = c)"
    unfolding static_lookup_udp_def case_prod_unfold by auto
  then show ?thesis unfolding find_Some_iff by metis
qed

lemma static_admit_iff: "static_admit_radsec t src \<longleftrightarrow> static_lookup_udp t src \<noteq> None"
  by (auto simp: static_admit_radsec_def static_lookup_udp_def list_ex_iff find_None_iff split: prod.splits)

end
