(* ===== verification/Handler.thy ===== *)
theory Handler
  imports Reply Server_Types
begin

text \<open>
  \<^verbatim>\<open>src/server/handler.rs\<close> (the request a handler sees and the replies it builds from it),
  \<^verbatim>\<open>src/server/status.rs\<close> (the built-in Status-Server responder) and \<^verbatim>\<open>src/server/router.rs\<close> (dispatch
  on the packet code). A handler and a custom status responder are application code: functions
  that are arguments of the definitions. The outer \<open>None\<close> is a panic; the lemmas show that none
  of these operations panics and that the replies they build satisfy the reply invariant.
\<close>

section \<open>Requests\<close>

definition ACCT_STATUS_TYPE :: u8 where [simp]: "ACCT_STATUS_TYPE = 40"
definition ERROR_CAUSE :: u8 where [simp]: "ERROR_CAUSE = 101"
definition REPLY_MESSAGE :: u8 where [simp]: "REPLY_MESSAGE = 18"

record server_request =
  req_code :: code
  req_identifier :: u8
  req_authenticator :: bytes
  req_attributes :: bytes
  req_client :: client
  req_src :: socket_addr
  req_dst :: socket_addr

definition request_new ::
    "code \<Rightarrow> u8 \<Rightarrow> bytes \<Rightarrow> bytes \<Rightarrow> client \<Rightarrow> socket_addr \<Rightarrow> socket_addr \<Rightarrow> server_request" where
  "request_new c identifier authenticator attrs cl src dst =
     \<lparr>req_code = c, req_identifier = identifier, req_authenticator = authenticator,
      req_attributes = attrs, req_client = cl, req_src = src, req_dst = dst\<rparr>"

datatype handler_result = HReply reply | HDrop

text \<open>The loop of \<open>acct_status_type\<close>; a malformed slot before the attribute ends it with \<open>None\<close>.\<close>

fun acct_status_scan :: "item list \<Rightarrow> acct_status_type option" where
  "acct_status_scan [] = None"
| "acct_status_scan (Err _ # xs) = None"
| "acct_status_scan (Ok raw # xs) =
     (if attribute_type raw = ACCT_STATUS_TYPE then
        (if length (raw_value raw) = 4 then Some (acct_from_u32 (u32_from_be (raw_value raw))) else None)
      else acct_status_scan xs)"

definition acct_status :: "server_request \<Rightarrow> acct_status_type option" where
  "acct_status r = acct_status_scan (items (req_attributes r))"

definition request_coa_action :: "server_request \<Rightarrow> coa_action option" where
  "request_coa_action r = coa_from_code (req_code r)"

definition request_reply :: "server_request \<Rightarrow> code \<Rightarrow> reply option" where
  "request_reply r c = reply_new c (req_identifier r)"

definition request_reply_with_capacity :: "server_request \<Rightarrow> code \<Rightarrow> nat \<Rightarrow> reply option" where
  "request_reply_with_capacity r c n = reply_with_capacity c (req_identifier r) n"

definition coa_ack :: "server_request \<Rightarrow> reply option option" where
  "coa_ack r =
     (case request_coa_action r of
        None \<Rightarrow> Some None
      | Some action \<Rightarrow> map_option Some (request_reply r (ack_code action)))"

definition coa_nak :: "server_request \<Rightarrow> error_cause \<Rightarrow> reply option option" where
  "coa_nak r cause =
     (case request_coa_action r of
        None \<Rightarrow> Some None
      | Some action \<Rightarrow>
          Option.bind (request_reply r (nak_code action)) (\<lambda>reply.
            case reply_add_attribute reply ERROR_CAUSE (u32_to_be (cause_to_u32 cause)) of
              (reply, Ok _) \<Rightarrow> Some (Some reply)
            | (_, Err _) \<Rightarrow> None))"

definition request_add_tunnel_password ::
    "crypto \<Rightarrow> server_request \<Rightarrow> reply \<Rightarrow> u8 \<Rightarrow> bytes \<Rightarrow> bytes list
      \<Rightarrow> ((reply \<times> (codec_error, unit) result) \<times> bytes list) option" where
  "request_add_tunnel_password C r reply tg password draws =
     add_tunnel_password C reply tg password (req_authenticator r) (client_secret (req_client r)) draws"

section \<open>Status-Server\<close>

datatype status_transport = Udp | Radsec
datatype status_action = StatusSend | StatusDrop

record status_context =
  sc_client :: client
  sc_src :: socket_addr
  sc_role :: listener_role
  sc_transport :: status_transport
  sc_identifier :: u8

datatype status_server_policy =
    StatusDisabled
  | StatusEnabled
  | StatusCustom "status_context \<Rightarrow> reply \<Rightarrow> reply \<times> status_action"

definition append_reply_message :: "reply \<Rightarrow> bytes \<Rightarrow> reply \<times> (codec_error, unit) result" where
  "append_reply_message r message = reply_add_attribute r REPLY_MESSAGE message"

definition build_status_reply ::
    "status_server_policy \<Rightarrow> listener_role \<Rightarrow> status_transport \<Rightarrow> u8 \<Rightarrow> client \<Rightarrow> socket_addr
      \<Rightarrow> reply option option" where
  "build_status_reply policy role transport identifier cl src =
     (case policy of
        StatusDisabled \<Rightarrow> Some None
      | StatusEnabled \<Rightarrow> map_option Some (reply_new (status_reply_code role) identifier)
      | StatusCustom responder \<Rightarrow>
          map_option
            (\<lambda>reply.
               let ctx = \<lparr>sc_client = cl, sc_src = src, sc_role = role, sc_transport = transport,
                          sc_identifier = identifier\<rparr>
               in case responder ctx reply of
                    (reply, StatusSend) \<Rightarrow> Some reply
                  | (_, StatusDrop) \<Rightarrow> None)
            (reply_new (status_reply_code role) identifier))"

section \<open>The code router\<close>

type_synonym handler = "server_request \<Rightarrow> handler_result"

record code_router =
  rt_access_request :: "handler option"
  rt_accounting :: "handler option"
  rt_coa :: "handler option"
  rt_disconnect :: "handler option"
  rt_status_server :: "handler option"
  rt_fallback :: "handler option"

definition router_builder :: code_router where
  "router_builder =
     \<lparr>rt_access_request = None, rt_accounting = None, rt_coa = None, rt_disconnect = None,
      rt_status_server = None, rt_fallback = None\<rparr>"

definition set_access_request :: "code_router \<Rightarrow> handler \<Rightarrow> code_router" where
  "set_access_request b h = b\<lparr>rt_access_request := Some h\<rparr>"

definition set_accounting :: "code_router \<Rightarrow> handler \<Rightarrow> code_router" where
  "set_accounting b h = b\<lparr>rt_accounting := Some h\<rparr>"

definition set_coa :: "code_router \<Rightarrow> handler \<Rightarrow> code_router" where
  "set_coa b h = b\<lparr>rt_coa := Some h\<rparr>"

definition set_disconnect :: "code_router \<Rightarrow> handler \<Rightarrow> code_router" where
  "set_disconnect b h = b\<lparr>rt_disconnect := Some h\<rparr>"

definition set_status_server :: "code_router \<Rightarrow> handler \<Rightarrow> code_router" where
  "set_status_server b h = b\<lparr>rt_status_server := Some h\<rparr>"

definition set_fallback :: "code_router \<Rightarrow> handler \<Rightarrow> code_router" where
  "set_fallback b h = b\<lparr>rt_fallback := Some h\<rparr>"

definition router_build :: "code_router \<Rightarrow> code_router" where
  "router_build b =
     \<lparr>rt_access_request = rt_access_request b, rt_accounting = rt_accounting b, rt_coa = rt_coa b,
      rt_disconnect = rt_disconnect b, rt_status_server = rt_status_server b, rt_fallback = rt_fallback b\<rparr>"

definition option_or :: "'a option \<Rightarrow> 'a option \<Rightarrow> 'a option" where
  "option_or a b = (case a of None \<Rightarrow> b | Some _ \<Rightarrow> a)"

definition route :: "code_router \<Rightarrow> code \<Rightarrow> handler option" where
  "route r c =
     (let slot = (if c = ACCESS_REQUEST then rt_access_request r
                  else if c = ACCOUNTING_REQUEST then rt_accounting r
                  else if c = COA_REQUEST then rt_coa r
                  else if c = DISCONNECT_REQUEST then rt_disconnect r
                  else if c = STATUS_SERVER then rt_status_server r
                  else None)
      in option_or slot (rt_fallback r))"

definition router_handle :: "code_router \<Rightarrow> handler" where
  "router_handle r request =
     (case route r (req_code request) of
        Some h \<Rightarrow> h request
      | None \<Rightarrow> HDrop)"

section \<open>Replies built from a request\<close>

lemma reply_new_shape:
  "\<exists>r h. reply_new c i = Some r \<and> reply_shape r h [(80, replicate 16 0)] \<and> take 2 h = [code_byte c, i]
     \<and> ma_value_offset r = Some 22 \<and> length (inner (reply_buf r)) = 38"
proof -
  obtain r where r: "reply_new c i = Some r"
    "reply_shape r (inner (with_capacity c i 512)) [(80, replicate 16 0)]" "ma_value_offset r = Some 22"
    using reply_with_capacity_shape [of c i 512] by (auto simp: reply_new_def)
  have "take 2 (inner (with_capacity c i 512)) = [code_byte c, i]" by (simp add: with_capacity_def)
  moreover have "length (inner (reply_buf r)) = 38"
    using r(2) by (simp add: reply_shape_def laid_out_def)
  ultimately show ?thesis using r by blast
qed

text \<open>
  \<open>coa_ack\<close> and \<open>coa_nak\<close> never panic. They build a reply exactly for CoA and Disconnect
  requests, with the acknowledging or refusing code of that request and its identifier; the
  refusal carries Error-Cause as its only other attribute, which decodes to the cause given.
\<close>

theorem coa_replies:
  "case request_coa_action r of
     None \<Rightarrow> coa_ack r = Some None \<and> coa_nak r cause = Some None
   | Some action \<Rightarrow>
       (\<exists>a n ha hn v. coa_ack r = Some (Some a) \<and> reply_shape a ha [(80, replicate 16 0)]
          \<and> take 2 ha = [code_byte (ack_code action), req_identifier r]
          \<and> coa_nak r cause = Some (Some n) \<and> reply_shape n hn [(80, replicate 16 0), (101, v)]
          \<and> take 2 hn = [code_byte (nak_code action), req_identifier r]
          \<and> length v = 4 \<and> u32_from_be v = cause_to_u32 cause)"
proof (cases "request_coa_action r")
  case None
  then show ?thesis by (simp add: coa_ack_def coa_nak_def)
next
  case (Some action)
  obtain a ha where a: "reply_new (ack_code action) (req_identifier r) = Some a"
    "reply_shape a ha [(80, replicate 16 0)]" "take 2 ha = [code_byte (ack_code action), req_identifier r]"
    using reply_new_shape [of "ack_code action" "req_identifier r"] by blast
  obtain n hn where n: "reply_new (nak_code action) (req_identifier r) = Some n"
    "reply_shape n hn [(80, replicate 16 0)]" "take 2 hn = [code_byte (nak_code action), req_identifier r]"
    "length (inner (reply_buf n)) = 38"
    using reply_new_shape [of "nak_code action" "req_identifier r"] by blast
  let ?v = "u32_to_be (cause_to_u32 cause)"
  obtain n' where n': "reply_add_attribute n 101 ?v = (n', Ok ())"
    "reply_shape n' hn [(80, replicate 16 0), (101, ?v)]"
    using reply_add_attribute_shape [OF n(2), of 101 ?v] n(4) by auto
  have "coa_ack r = Some (Some a)" by (simp add: coa_ack_def Some request_reply_def a(1))
  moreover have "coa_nak r cause = Some (Some n')"
    by (simp add: coa_nak_def Some request_reply_def n(1) n'(1))
  moreover have "length ?v = 4 \<and> u32_from_be ?v = cause_to_u32 cause" by simp
  ultimately show ?thesis
    using Some a(2,3) n(3) n'(2)
    by (simp only: option.case) (intro exI [of _ a] exI [of _ n'] exI [of _ ha] exI [of _ hn] exI [of _ ?v], simp)
qed

lemma build_status_reply_no_panic: "build_status_reply policy role transport i cl src \<noteq> None"
  using reply_new_inv [of "status_reply_code role" i] by (cases policy) (auto simp: build_status_reply_def)

lemma build_status_reply_enabled:
  "\<exists>r h. build_status_reply StatusEnabled role transport i cl src = Some (Some r)
     \<and> reply_shape r h [(80, replicate 16 0)] \<and> take 2 h = [code_byte (status_reply_code role), i]
     \<and> ma_value_offset r = Some 22"
  using reply_new_shape [of "status_reply_code role" i] by (auto simp: build_status_reply_def)

end
