(* ===== verification/Expiring.thy ===== *)
theory Expiring
  imports Net
begin

text \<open>
  The data structure that \<^verbatim>\<open>src/server/dedup.rs\<close>, \<^verbatim>\<open>src/server/cache.rs\<close> and the session store of
  \<^verbatim>\<open>crates/radius-tokio-eap/src/session.rs\<close> share: a hash map of entries and an ordered set of
  (deadline, key) pairs that indexes them. A \<open>BTreeSet\<close> is the sorted list of its elements. The
  locale states what a client may rely on when a table evicts its expired entries; the components
  interpret it on their own eviction loops.
\<close>

section \<open>Ordered sets\<close>

definition bts_insert :: "'a :: linorder \<Rightarrow> 'a list \<Rightarrow> 'a list" where
  "bts_insert x xs = insort_insert x xs"

definition bts_remove :: "'a \<Rightarrow> 'a list \<Rightarrow> 'a list" where
  "bts_remove x xs = remove1 x xs"

definition bts :: "'a :: linorder list \<Rightarrow> bool" where
  "bts xs \<longleftrightarrow> sorted xs \<and> distinct xs"

lemma bts_ops [simp]:
  "bts []" "bts xs \<Longrightarrow> bts (bts_insert x xs)" "bts xs \<Longrightarrow> bts (bts_remove x xs)"
  "set (bts_insert x xs) = insert x (set xs)"
  "bts xs \<Longrightarrow> set (bts_remove x xs) = set xs - {x}"
  by (simp_all add: bts_def bts_insert_def bts_remove_def sorted_insort_insert distinct_insort_insert
      set_insort_insert sorted_remove1)

lemma bts_Cons [simp]: "bts (x # xs) \<longleftrightarrow> bts xs \<and> x \<notin> set xs \<and> (\<forall>y\<in>set xs. x \<le> y)"
  by (auto simp: bts_def)

section \<open>The index\<close>

text \<open>
  The set indexes exactly the entries that have a deadline. \<open>deadline v = None\<close> marks entries that
  never expire (the pending lookups of the client cache).
\<close>

definition coherent ::
    "('v \<Rightarrow> instant option) \<Rightarrow> ('k :: linorder, 'v) fmap \<Rightarrow> (instant \<times> 'k) list \<Rightarrow> bool" where
  "coherent deadline m xs \<longleftrightarrow>
     bts xs \<and> (\<forall>d k. (d, k) \<in> set xs \<longleftrightarrow> (\<exists>v. fmlookup m k = Some v \<and> deadline v = Some d))"

lemma coherent_empty [simp]: "coherent deadline fmempty []"
  by (simp add: coherent_def)

lemma coherentD:
  assumes "coherent deadline m xs"
  shows "bts xs" and "(d, k) \<in> set xs \<longleftrightarrow> (\<exists>v. fmlookup m k = Some v \<and> deadline v = Some d)"
  using assms unfolding coherent_def by blast+

text \<open>Forget the index entry of the value a key maps to, if it has one.\<close>

definition unindex :: "('v \<Rightarrow> instant option) \<Rightarrow> 'k \<Rightarrow> 'v option \<Rightarrow> (instant \<times> 'k) list \<Rightarrow> (instant \<times> 'k) list" where
  "unindex deadline k old xs =
     (case Option.bind old deadline of Some d \<Rightarrow> bts_remove (d, k) xs | None \<Rightarrow> xs)"

lemma set_unindex:
  assumes "coherent deadline m xs"
  shows "bts (unindex deadline k (fmlookup m k) xs)"
    and "(d, k') \<in> set (unindex deadline k (fmlookup m k) xs) \<longleftrightarrow> (d, k') \<in> set xs \<and> k' \<noteq> k"
  using coherentD [OF assms]
  by (auto simp: unindex_def bind_eq_None_conv bind_eq_Some_conv split: option.splits)

lemma coherent_drop:
  assumes "coherent deadline m xs"
  shows "coherent deadline (fmdrop k m) (unindex deadline k (fmlookup m k) xs)"
  unfolding coherent_def using set_unindex [OF assms] coherentD(2) [OF assms] by auto

lemma coherent_upd:
  assumes "coherent deadline m xs" and "deadline v = Some d"
  shows "coherent deadline (fmupd k v m) (bts_insert (d, k) (unindex deadline k (fmlookup m k) xs))"
  unfolding coherent_def
  using set_unindex [OF assms(1)] coherentD(2) [OF assms(1)] assms(2) by auto

lemma coherent_upd_unindexed:
  assumes "coherent deadline m xs" and "deadline v = None"
  shows "coherent deadline (fmupd k v m) (unindex deadline k (fmlookup m k) xs)"
  unfolding coherent_def
  using set_unindex [OF assms(1)] coherentD(2) [OF assms(1)] assms(2) by auto

lemma coherent_pop:
  assumes "coherent deadline m ((d, k) # xs)"
  shows "coherent deadline (fmdrop k m) xs"
proof -
  obtain v where "fmlookup m k = Some v" "deadline v = Some d"
    using coherentD(2) [OF assms, of d k] by auto
  then have "unindex deadline k (fmlookup m k) ((d, k) # xs) = xs"
    by (simp add: unindex_def bts_remove_def)
  then show ?thesis using coherent_drop [OF assms, of k] by simp
qed

section \<open>Eviction\<close>

text \<open>\<open>for _ in 0..n\<close>: pop the first deadline while it is not in the future.\<close>

fun evict_loop ::
    "nat \<Rightarrow> instant \<Rightarrow> ('k, 'v) fmap \<Rightarrow> (instant \<times> 'k) list \<Rightarrow> ('k, 'v) fmap \<times> (instant \<times> 'k) list" where
  "evict_loop 0 now m xs = (m, xs)"
| "evict_loop (Suc n) now m [] = (m, [])"
| "evict_loop (Suc n) now m ((d, k) # xs) =
     (if d > now then (m, (d, k) # xs) else evict_loop n now (fmdrop k m) xs)"

definition expired :: "('v \<Rightarrow> instant option) \<Rightarrow> instant \<Rightarrow> 'v \<Rightarrow> bool" where
  "expired deadline now v \<longleftrightarrow> (case deadline v of None \<Rightarrow> False | Some d \<Rightarrow> d \<le> now)"

lemma evict_loop_coherent:
  "coherent deadline m xs \<Longrightarrow>
     coherent deadline (fst (evict_loop n now m xs)) (snd (evict_loop n now m xs))"
  by (induction n now m xs rule: evict_loop.induct) (auto dest: coherent_pop)

lemma evict_loop_lookup:
  assumes "coherent deadline m xs"
  shows "fmlookup (fst (evict_loop n now m xs)) k = fmlookup m k
    \<or> fmlookup (fst (evict_loop n now m xs)) k = None
      \<and> (\<exists>v. fmlookup m k = Some v \<and> expired deadline now v)"
  using assms
proof (induction n now m xs rule: evict_loop.induct)
  case (3 n now m d k' xs)
  obtain v where "fmlookup m k' = Some v" "deadline v = Some d"
    using coherentD(2) [OF 3(2), of d k'] by auto
  then show ?case using 3(1) [OF _ coherent_pop [OF 3(2)]] by (auto simp: expired_def split: if_splits)
qed simp_all

text \<open>The loop removes expired entries as long as there are any, at most \<open>n\<close> of them.\<close>

definition expired_count :: "instant \<Rightarrow> (instant \<times> 'k) list \<Rightarrow> nat" where
  "expired_count now xs = length (filter (\<lambda>(d, k). d \<le> now) xs)"

lemma expired_count_future: "bts ((d, k) # xs) \<Longrightarrow> now < d \<Longrightarrow> expired_count now ((d, k) # xs) = 0"
  by (auto simp: expired_count_def filter_empty_conv)

lemma evict_loop_expired_count:
  "bts xs \<Longrightarrow> expired_count now (snd (evict_loop n now m xs)) = expired_count now xs - n"
proof (induction n now m xs rule: evict_loop.induct)
  case (3 n now m d k xs)
  then show ?case
    using expired_count_future [of d k xs now] by (auto simp: expired_count_def)
qed (simp_all add: expired_count_def)

lemma fmlen_drop_le: "fmlen (fmdrop k m) \<le> fmlen m"
  by (simp add: fcard_mono fminus_fsubset_conv fsubset_finsertI)

lemma fmlen_drop:
  assumes "fmlookup m k = Some v"
  shows "fmlen m = Suc (fmlen (fmdrop k m))"
proof -
  have "fmupd k v (fmdrop k m) = m" by (rule fmap_ext) (auto simp: assms)
  then show ?thesis using fmlen_upd [of k v "fmdrop k m"] by (simp del: fmdom_drop fmdom_fmupd)
qed

lemma evict_loop_fmlen: "fmlen (fst (evict_loop n now m xs)) \<le> fmlen m"
  by (induction n now m xs rule: evict_loop.induct) (auto intro: order_trans [OF _ fmlen_drop_le])

section \<open>What clients of a table rely on\<close>

locale expiring_table =
  fixes entries :: "'s \<Rightarrow> ('k, 'v) fmap"
    and index :: "'s \<Rightarrow> (instant \<times> 'k) list"
    and deadline :: "'v \<Rightarrow> instant option"
    and ok :: "'s \<Rightarrow> bool"
    and evict :: "instant \<Rightarrow> 's \<Rightarrow> 's"
  assumes evict_ok: "ok s \<Longrightarrow> ok (evict now s)"
    and evict_lookup: "ok s \<Longrightarrow> fmlookup (entries (evict now s)) k = fmlookup (entries s) k
      \<or> fmlookup (entries (evict now s)) k = None
        \<and> (\<exists>v. fmlookup (entries s) k = Some v \<and> expired deadline now v)"
    and evict_count: "ok s \<Longrightarrow> expired_count now (index (evict now s)) = expired_count now (index s) - 64"
    and evict_fmlen: "ok s \<Longrightarrow> fmlen (entries (evict now s)) \<le> fmlen (entries s)"
begin

lemma evict_live:
  "ok s \<Longrightarrow> fmlookup (entries s) k = Some v \<Longrightarrow> \<not> expired deadline now v \<Longrightarrow>
     fmlookup (entries (evict now s)) k = Some v"
  using evict_lookup [of s now k] by auto

lemma evict_absent: "ok s \<Longrightarrow> fmlookup (entries s) k = None \<Longrightarrow> fmlookup (entries (evict now s)) k = None"
  using evict_lookup [of s now k] by auto

lemma evict_sub: "ok s \<Longrightarrow> fmlookup (entries (evict now s)) k = Some v \<Longrightarrow> fmlookup (entries s) k = Some v"
  using evict_lookup [of s now k] by auto

text \<open>Evicting as often as there are 64 expired entries leaves none of them.\<close>

lemma evict_drains:
  "ok s \<Longrightarrow> expired_count now (index s) \<le> 64 * n \<Longrightarrow>
     expired_count now (index ((evict now ^^ n) s)) = 0 \<and> ok ((evict now ^^ n) s)"
proof (induction n arbitrary: s)
  case (Suc n)
  then show ?case
    using Suc.IH [of "evict now s"] evict_ok [of s now] evict_count [of s now]
    by (simp add: funpow_swap1)
qed simp

end

end
