(* ===== verification/Dedup.thy ===== *)
theory Dedup
  imports Expiring
begin

text \<open>
  \<^verbatim>\<open>src/server/dedup.rs\<close>: the reply cache that answers retransmissions. \<open>hash\<close> is the standard
  library's default hasher, of which only the shard index is used. Instants are arguments: the
  value \<open>Instant::now()\<close> returns inside the call. The lemmas show that a reply stays available for
  the configured time under every interleaving with other keys, and that only bytes inserted under
  the same key, and no longer ago than that time, are ever replayed.
\<close>

unbundle bit_operations_syntax

section \<open>State\<close>

text \<open>\<open>Key\<close> derives the lexicographic order of its fields: source, code, identifier, authenticator.\<close>

type_synonym dedup_key = "socket_addr \<times> u8 \<times> u8 \<times> bytes"

record dedup_entry =
  entry_reply :: bytes
  entry_expires_at :: instant

record reply_shard =
  shard_entries :: "(dedup_key, dedup_entry) fmap"
  shard_expirations :: "(instant \<times> dedup_key) list"

definition reply_shard_default :: reply_shard where
  "reply_shard_default = \<lparr>shard_entries = fmempty, shard_expirations = []\<rparr>"

definition SHARD_COUNT :: nat where [simp]: "SHARD_COUNT = 16"
definition SHARD_MASK :: u64 where [simp]: "SHARD_MASK = of_nat SHARD_COUNT - 1"

record dedup_cache =
  shards :: "reply_shard list"
  ttl :: duration

definition dedup_new :: "duration \<Rightarrow> dedup_cache" where
  "dedup_new t = \<lparr>shards = replicate SHARD_COUNT reply_shard_default, ttl = t\<rparr>"

section \<open>Operations\<close>

definition evict_expired :: "instant \<Rightarrow> reply_shard \<Rightarrow> reply_shard" where
  "evict_expired now sh =
     (case evict_loop 64 now (shard_entries sh) (shard_expirations sh) of
        (entries, expirations) \<Rightarrow> sh\<lparr>shard_entries := entries, shard_expirations := expirations\<rparr>)"

definition shard_for :: "(dedup_key \<Rightarrow> u64) \<Rightarrow> dedup_key \<Rightarrow> nat" where
  "shard_for hash key = unat (hash key AND SHARD_MASK)"

definition shard_lookup :: "instant \<Rightarrow> dedup_key \<Rightarrow> reply_shard \<Rightarrow> reply_shard \<times> bytes option" where
  "shard_lookup now key sh =
     (case fmlookup (shard_entries sh) key of
        None \<Rightarrow> (sh, None)
      | Some entry \<Rightarrow>
          if entry_expires_at entry > now then (sh, Some (entry_reply entry))
          else (sh\<lparr>shard_entries := fmdrop key (shard_entries sh),
                   shard_expirations := bts_remove (entry_expires_at entry, key) (shard_expirations sh)\<rparr>, None))"

definition dedup_lookup ::
    "(dedup_key \<Rightarrow> u64) \<Rightarrow> instant \<Rightarrow> dedup_key \<Rightarrow> dedup_cache \<Rightarrow> dedup_cache \<times> bytes option" where
  "dedup_lookup hash now key c =
     (let idx = shard_for hash key
      in case shard_lookup now key (shards c ! idx) of
           (sh, r) \<Rightarrow> (c\<lparr>shards := (shards c)[idx := sh]\<rparr>, r))"

definition shard_insert :: "instant \<Rightarrow> duration \<Rightarrow> dedup_key \<Rightarrow> bytes \<Rightarrow> reply_shard \<Rightarrow> reply_shard" where
  "shard_insert now t key reply sh =
     (let sh = evict_expired now sh;
          expires_at = now + t;
          previous = fmlookup (shard_entries sh) key;
          sh = sh\<lparr>shard_entries :=
                    fmupd key \<lparr>entry_reply = reply, entry_expires_at = expires_at\<rparr> (shard_entries sh)\<rparr>;
          sh = (case previous of
                  None \<Rightarrow> sh
                | Some e \<Rightarrow> sh\<lparr>shard_expirations := bts_remove (entry_expires_at e, key) (shard_expirations sh)\<rparr>)
      in sh\<lparr>shard_expirations := bts_insert (expires_at, key) (shard_expirations sh)\<rparr>)"

definition dedup_insert ::
    "(dedup_key \<Rightarrow> u64) \<Rightarrow> instant \<Rightarrow> dedup_key \<Rightarrow> bytes \<Rightarrow> dedup_cache \<Rightarrow> dedup_cache" where
  "dedup_insert hash now key reply c =
     (let idx = shard_for hash key
      in c\<lparr>shards := (shards c)[idx := shard_insert now (ttl c) key reply (shards c ! idx)]\<rparr>)"

section \<open>A shard is an expiring table\<close>

definition entry_deadline :: "dedup_entry \<Rightarrow> instant option" where
  "entry_deadline e = Some (entry_expires_at e)"

definition shard_ok :: "reply_shard \<Rightarrow> bool" where
  "shard_ok sh \<longleftrightarrow> coherent entry_deadline (shard_entries sh) (shard_expirations sh)"

lemma evict_expired_fields:
  "shard_entries (evict_expired now sh) = fst (evict_loop 64 now (shard_entries sh) (shard_expirations sh))"
  "shard_expirations (evict_expired now sh) = snd (evict_loop 64 now (shard_entries sh) (shard_expirations sh))"
  by (simp_all add: evict_expired_def split: prod.splits)

interpretation reply_table: expiring_table shard_entries shard_expirations entry_deadline shard_ok evict_expired
  by unfold_locales
    (auto simp: shard_ok_def evict_expired_fields evict_loop_coherent evict_loop_fmlen
      evict_loop_expired_count [OF coherentD(1)] dest: evict_loop_lookup)

lemma shard_ok_default: "shard_ok reply_shard_default"
  by (simp add: shard_ok_def reply_shard_default_def)

lemma unindex_dedup:
  "unindex entry_deadline k old xs = (case old of None \<Rightarrow> xs | Some e \<Rightarrow> bts_remove (entry_expires_at e, k) xs)"
  by (simp add: unindex_def entry_deadline_def split: option.splits)

lemma shard_lookup_ok: "shard_ok sh \<Longrightarrow> shard_ok (fst (shard_lookup now key sh))"
  using coherent_drop [of entry_deadline "shard_entries sh" "shard_expirations sh" key]
  by (auto simp: shard_ok_def shard_lookup_def unindex_dedup split: option.splits)

lemma shard_insert_fields:
  "shard_entries (shard_insert now t key reply sh) =
     fmupd key \<lparr>entry_reply = reply, entry_expires_at = now + t\<rparr> (shard_entries (evict_expired now sh))"
  "shard_expirations (shard_insert now t key reply sh) =
     bts_insert (now + t, key) (unindex entry_deadline key (fmlookup (shard_entries (evict_expired now sh)) key)
       (shard_expirations (evict_expired now sh)))"
  by (simp_all add: shard_insert_def Let_def unindex_dedup split: option.splits)

lemma shard_insert_ok: "shard_ok sh \<Longrightarrow> shard_ok (shard_insert now t key reply sh)"
  using reply_table.evict_ok [of sh now]
  by (simp add: shard_ok_def shard_insert_fields coherent_upd entry_deadline_def)

section \<open>The cache as a map\<close>

definition dedup_ok :: "dedup_cache \<Rightarrow> bool" where
  "dedup_ok c \<longleftrightarrow> length (shards c) = 16 \<and> list_all shard_ok (shards c)"

definition dedup_map :: "(dedup_key \<Rightarrow> u64) \<Rightarrow> dedup_cache \<Rightarrow> dedup_key \<Rightarrow> dedup_entry option" where
  "dedup_map hash c key = fmlookup (shard_entries (shards c ! shard_for hash key)) key"

lemma shard_for_less: "shard_for hash key < 16"
proof -
  have "hash key AND 15 \<le> 15" by (rule word_and_le1)
  then show ?thesis by (simp add: shard_for_def word_le_nat_alt)
qed

lemma dedup_ok_new: "dedup_ok (dedup_new t)"
  by (simp add: dedup_ok_def dedup_new_def shard_ok_default list_all_iff)

lemma dedup_okD: "dedup_ok c \<Longrightarrow> i < 16 \<Longrightarrow> shard_ok (shards c ! i)"
  by (simp add: dedup_ok_def list_all_length)

lemma dedup_ok_update: "dedup_ok c \<Longrightarrow> shard_ok sh \<Longrightarrow> dedup_ok (c\<lparr>shards := (shards c)[i := sh]\<rparr>)"
  by (auto simp: dedup_ok_def list_all_iff dest!: set_update_subset_insert [THEN subsetD])

lemma dedup_ok_lookup: "dedup_ok c \<Longrightarrow> dedup_ok (fst (dedup_lookup hash now key c))"
  using shard_lookup_ok [OF dedup_okD [OF _ shard_for_less], of c now key hash key]
  by (auto simp: dedup_lookup_def Let_def dedup_ok_update split: prod.splits)

lemma dedup_ok_insert: "dedup_ok c \<Longrightarrow> dedup_ok (dedup_insert hash now key reply c)"
  by (simp add: dedup_insert_def Let_def dedup_ok_update shard_insert_ok dedup_okD [OF _ shard_for_less])

lemma ttl_ops [simp]:
  "ttl (dedup_new t) = t" "ttl (fst (dedup_lookup hash now key c)) = ttl c" "ttl (dedup_insert hash now key reply c) = ttl c"
  by (simp_all add: dedup_new_def dedup_lookup_def dedup_insert_def Let_def split: prod.splits)

lemma dedup_map_update:
  assumes "dedup_ok c"
  shows "dedup_map hash (c\<lparr>shards := (shards c)[shard_for hash key := sh]\<rparr>) k =
    (if shard_for hash k = shard_for hash key then fmlookup (shard_entries sh) k else dedup_map hash c k)"
  using assms shard_for_less [of hash key] by (simp add: dedup_map_def dedup_ok_def nth_list_update)

text \<open>A lookup answers from the map and forgets at most the expired entry of its own key.\<close>

lemma dedup_lookup_result:
  "snd (dedup_lookup hash now key c) =
     (case dedup_map hash c key of
        None \<Rightarrow> None
      | Some e \<Rightarrow> if now < entry_expires_at e then Some (entry_reply e) else None)"
  by (simp add: dedup_lookup_def shard_lookup_def dedup_map_def Let_def split: option.splits)

lemma dedup_map_lookup:
  assumes "dedup_ok c"
  shows "dedup_map hash (fst (dedup_lookup hash now key c)) k =
    (if k = key \<and> snd (dedup_lookup hash now key c) = None then None else dedup_map hash c k)"
proof -
  have "dedup_map hash (fst (dedup_lookup hash now key c)) k =
      (if shard_for hash k = shard_for hash key
       then fmlookup (shard_entries (fst (shard_lookup now key (shards c ! shard_for hash key)))) k
       else dedup_map hash c k)"
    using dedup_map_update [OF assms] by (simp add: dedup_lookup_def Let_def split: prod.splits)
  then show ?thesis
    unfolding dedup_lookup_result by (auto simp: shard_lookup_def dedup_map_def split: option.splits)
qed

text \<open>An insertion sets its own key and may forget expired entries of other keys.\<close>

lemma dedup_map_insert_same:
  assumes "dedup_ok c"
  shows "dedup_map hash (dedup_insert hash now key reply c) key =
    Some \<lparr>entry_reply = reply, entry_expires_at = now + ttl c\<rparr>"
  using dedup_map_update [OF assms] by (simp add: dedup_insert_def Let_def shard_insert_fields)

lemma dedup_map_insert_other:
  assumes "dedup_ok c" and "k \<noteq> key"
  shows "dedup_map hash (dedup_insert hash now key reply c) k = dedup_map hash c k
    \<or> dedup_map hash (dedup_insert hash now key reply c) k = None
      \<and> (\<exists>e. dedup_map hash c k = Some e \<and> entry_expires_at e \<le> now)"
proof (cases "shard_for hash k = shard_for hash key")
  case True
  have "shard_ok (shards c ! shard_for hash key)" by (rule dedup_okD [OF assms(1) shard_for_less])
  note ev = reply_table.evict_lookup [OF this, of now k]
  have "dedup_map hash (dedup_insert hash now key reply c) k =
      fmlookup (shard_entries (evict_expired now (shards c ! shard_for hash key))) k"
    using True assms dedup_map_update [OF assms(1)] by (simp add: dedup_insert_def Let_def shard_insert_fields)
  moreover have "dedup_map hash c k = fmlookup (shard_entries (shards c ! shard_for hash key)) k"
    using True by (simp add: dedup_map_def)
  ultimately show ?thesis using ev by (auto simp: expired_def entry_deadline_def)
next
  case False
  then show ?thesis using dedup_map_update [OF assms(1)] by (simp add: dedup_insert_def Let_def)
qed

section \<open>Histories\<close>

datatype dedup_op = Lookup instant dedup_key | Insert instant dedup_key bytes

fun op_time :: "dedup_op \<Rightarrow> instant" where
  "op_time (Lookup now _) = now"
| "op_time (Insert now _ _) = now"

fun dedup_step :: "(dedup_key \<Rightarrow> u64) \<Rightarrow> dedup_cache \<Rightarrow> dedup_op \<Rightarrow> dedup_cache" where
  "dedup_step hash c (Lookup now key) = fst (dedup_lookup hash now key c)"
| "dedup_step hash c (Insert now key reply) = dedup_insert hash now key reply c"

definition dedup_run :: "(dedup_key \<Rightarrow> u64) \<Rightarrow> dedup_cache \<Rightarrow> dedup_op list \<Rightarrow> dedup_cache" where
  "dedup_run hash c ops = foldl (dedup_step hash) c ops"

lemma dedup_run_ok: "dedup_ok c \<Longrightarrow> dedup_ok (dedup_run hash c ops) \<and> ttl (dedup_run hash c ops) = ttl c"
  unfolding dedup_run_def
proof (induction ops arbitrary: c)
  case (Cons opn ops)
  then show ?case by (cases opn) (simp_all add: dedup_ok_lookup dedup_ok_insert)
qed simp

text \<open>Operations before the deadline that do not overwrite the key keep its entry.\<close>

definition leaves :: "dedup_key \<Rightarrow> instant \<Rightarrow> dedup_op \<Rightarrow> bool" where
  "leaves key deadline opn \<longleftrightarrow>
     op_time opn < deadline \<and> (case opn of Lookup _ _ \<Rightarrow> True | Insert _ k _ \<Rightarrow> k \<noteq> key)"

lemma dedup_step_keeps:
  assumes "dedup_ok c" and "dedup_map hash c key = Some e" and "leaves key (entry_expires_at e) opn"
  shows "dedup_map hash (dedup_step hash c opn) key = Some e"
proof (cases opn)
  case (Lookup now k)
  then show ?thesis
    using assms dedup_map_lookup [OF assms(1), of hash now k key] dedup_lookup_result [of hash now key c]
    by (auto simp: leaves_def)
next
  case (Insert now k r)
  then show ?thesis
    using assms dedup_map_insert_other [OF assms(1), of key k hash now r] by (auto simp: leaves_def)
qed

lemma dedup_run_keeps:
  assumes "dedup_ok c" and "dedup_map hash c key = Some e" and "list_all (leaves key (entry_expires_at e)) ops"
  shows "dedup_map hash (dedup_run hash c ops) key = Some e"
  using assms unfolding dedup_run_def
proof (induction ops arbitrary: c)
  case (Cons opn ops)
  have "dedup_ok (dedup_step hash c opn)"
    using Cons.prems(1) by (cases opn) (simp_all add: dedup_ok_lookup dedup_ok_insert)
  then show ?case using Cons dedup_step_keeps [of c hash key e opn] by simp
qed simp

text \<open>
  A cached reply is replayed for the configured time: after inserting a reply at time \<open>t\<close>,
  whatever lookups and insertions of other keys happen before \<open>t + ttl\<close>, in any order and on any
  shard, a lookup of the key before \<open>t + ttl\<close> returns exactly those bytes.
\<close>

theorem reply_replayed:
  assumes "dedup_ok c" and "list_all (leaves key (t + ttl c)) ops" and "now < t + ttl c"
  shows "snd (dedup_lookup hash now key (dedup_run hash (dedup_insert hash t key reply c) ops)) = Some reply"
proof -
  let ?e = "\<lparr>entry_reply = reply, entry_expires_at = t + ttl c\<rparr>"
  have "dedup_map hash (dedup_run hash (dedup_insert hash t key reply c) ops) key = Some ?e"
    by (rule dedup_run_keeps [OF dedup_ok_insert [OF assms(1)] dedup_map_insert_same [OF assms(1)]])
      (use assms(2) in simp)
  then show ?thesis using assms(3) by (simp add: dedup_lookup_result)
qed

theorem reply_replayed_witness:
  "snd (dedup_lookup (\<lambda>_. 3) 9 (SocketV4 1 2, 1, 7, [])
     (dedup_run (\<lambda>_. 3) (dedup_insert (\<lambda>_. 3) 5 (SocketV4 1 2, 1, 7, []) [2, 7] (dedup_new 30))
       [Insert 6 (SocketV4 1 2, 1, 8, []) [3], Lookup 8 (SocketV4 1 2, 1, 7, [])])) = Some [2, 7]"
  by (rule reply_replayed) (simp_all add: dedup_ok_new leaves_def)

text \<open>Every entry of the map was inserted under its key.\<close>

lemma dedup_run_entries:
  assumes "dedup_ok c"
  shows "dedup_map hash (dedup_run hash c ops) key = Some e \<Longrightarrow>
    dedup_map hash c key = Some e
    \<or> (\<exists>t. Insert t key (entry_reply e) \<in> set ops \<and> entry_expires_at e = t + ttl c)"
  using assms unfolding dedup_run_def
proof (induction ops arbitrary: c)
  case (Cons opn ops)
  let ?c = "dedup_step hash c opn"
  have c: "dedup_ok ?c" "ttl ?c = ttl c"
    using Cons.prems(2) by (cases opn; simp add: dedup_ok_lookup dedup_ok_insert)+
  consider (old) "dedup_map hash ?c key = Some e"
    | (new) t where "Insert t key (entry_reply e) \<in> set ops" "entry_expires_at e = t + ttl c"
    using Cons.IH [of ?c] Cons.prems c by auto
  then show ?case
  proof cases
    case old
    then show ?thesis
    proof (cases opn)
      case (Lookup now k)
      then show ?thesis using old dedup_map_lookup [OF Cons.prems(2)] by (auto split: if_splits)
    next
      case (Insert now k r)
      then show ?thesis
        using old dedup_map_insert_same [OF Cons.prems(2)] dedup_map_insert_other [OF Cons.prems(2), of key k hash now r]
        by (cases "k = key") auto
    qed
  qed auto
qed simp

text \<open>
  Nothing else is replayed: when a lookup at time \<open>now\<close> returns bytes, those bytes were inserted
  under exactly this key (source, code, identifier and Request Authenticator) at some time \<open>t\<close> with
  \<open>now < t + ttl\<close>.
\<close>

theorem only_inserted_replayed:
  assumes "snd (dedup_lookup hash now key (dedup_run hash (dedup_new d) ops)) = Some reply"
  shows "\<exists>t. Insert t key reply \<in> set ops \<and> now < t + d"
proof -
  obtain e where e: "dedup_map hash (dedup_run hash (dedup_new d) ops) key = Some e"
    "now < entry_expires_at e" "entry_reply e = reply"
    using assms by (auto simp: dedup_lookup_result split: option.splits if_splits)
  moreover have "dedup_map hash (dedup_new d) key = None"
    using shard_for_less [of hash key] by (simp add: dedup_map_def dedup_new_def reply_shard_default_def)
  ultimately show ?thesis
    using dedup_run_entries [OF dedup_ok_new, of hash d ops key e] by auto
qed

theorem only_inserted_replayed_witness:
  "\<exists>t. Insert t (SocketV4 1 2, 1, 7, []) [2, 7] \<in> set [Insert 5 (SocketV4 1 2, 1, 7, []) [2, 7]] \<and> 9 < t + 30"
proof (rule only_inserted_replayed)
  have "shard_for (\<lambda>_. 0) k = 0" for k by (simp add: shard_for_def)
  then show "snd (dedup_lookup (\<lambda>_. 0) 9 (SocketV4 1 2, 1, 7, [])
      (dedup_run (\<lambda>_. 0) (dedup_new 30) [Insert 5 (SocketV4 1 2, 1, 7, []) [2, 7]])) = Some [2, 7]"
    using dedup_map_insert_same [OF dedup_ok_new, of "\<lambda>_. 0" 5 "(SocketV4 1 2, 1, 7, [])" "[2, 7]" 30]
    by (simp add: dedup_lookup_result dedup_run_def)
qed

end
