(* ===== verification/Pipeline.thy ===== *)
theory Pipeline
  imports Client_Request Handler Dedup
begin

text \<open>
  \<^verbatim>\<open>src/server/pipeline.rs\<close>: validation of an incoming packet and its dispatch through the reply
  cache, the Status-Server responder and the handler. Dispatch is given in two parts, the lookup
  that opens it and the body that runs while the request is reserved, which the step relation of
  \<open>Dispatch\<close> interleaves; \<open>dispatch_validated\<close> is their sequential composition. The lemmas
  characterise exactly which packets are accepted.
\<close>

section \<open>Validation\<close>

datatype validated =
    VOk header bytes
  | MalformedHeader header_error
  | BadRequestAuthenticator code u8
  | MissingMessageAuthenticator code u8
  | BadMessageAuthenticator code u8

definition zeroed_auth_code :: "code \<Rightarrow> bool" where
  "zeroed_auth_code c \<longleftrightarrow> c = ACCOUNTING_REQUEST \<or> c = COA_REQUEST \<or> c = DISCONNECT_REQUEST"

definition verify_request_authenticator :: "crypto \<Rightarrow> code \<Rightarrow> bytes \<Rightarrow> bytes \<Rightarrow> bool" where
  "verify_request_authenticator C c packet secret =
     (if zeroed_auth_code c then verify_zeroed_request C packet secret else True)"

definition ma_substitute :: "code \<Rightarrow> bytes \<Rightarrow> bytes" where
  "ma_substitute c header_auth = (if zeroed_auth_code c then replicate 16 0 else header_auth)"

definition validate :: "crypto \<Rightarrow> bytes \<Rightarrow> client \<Rightarrow> validated" where
  "validate C packet cl =
     (case header_parse packet of
        Err e \<Rightarrow> MalformedHeader e
      | Ok (h, attrs) \<Rightarrow>
          let packet = take (unat (hdr_length h)) packet
          in if \<not> verify_request_authenticator C (hdr_code h) packet (client_secret cl)
             then BadRequestAuthenticator (hdr_code h) (hdr_identifier h)
             else
               let substitute = ma_substitute (hdr_code h) (hdr_authenticator h)
               in case verify C packet substitute (client_secret cl) of
                    Valid \<Rightarrow> VOk h attrs
                  | Absent \<Rightarrow>
                      let strict_required =
                        (if hdr_code h = STATUS_SERVER then True
                         else if hdr_code h = ACCESS_REQUEST then
                           require_message_authenticator cl
                           \<or> list_ex (\<lambda>item. case item of Ok a \<Rightarrow> attribute_type a = 79 | Err _ \<Rightarrow> False) (items attrs)
                         else False)
                      in if strict_required then MissingMessageAuthenticator (hdr_code h) (hdr_identifier h)
                         else VOk h attrs
                  | Invalid \<Rightarrow> BadMessageAuthenticator (hdr_code h) (hdr_identifier h))"

section \<open>Dispatch\<close>

record status_server_context =
  ctx_role :: listener_role
  ctx_transport :: status_transport
  ctx_policy :: status_server_policy

datatype dispatched =
    Replay bytes code u8
  | DReply packet_buffer code u8
  | HandlerDrop code u8
  | StatusServerReply packet_buffer u8 listener_role
  | StatusServerDisabledPerClient u8
  | StatusServerDisabled u8

definition dispatched_bytes :: "dispatched \<Rightarrow> bytes option" where
  "dispatched_bytes d =
     (case d of
        Replay bs _ _ \<Rightarrow> Some bs
      | DReply sealed _ _ \<Rightarrow> Some (as_bytes sealed)
      | StatusServerReply sealed _ _ \<Rightarrow> Some (as_bytes sealed)
      | _ \<Rightarrow> None)"

definition dedup_key_of :: "socket_addr \<Rightarrow> header \<Rightarrow> dedup_key" where
  "dedup_key_of peer h = (peer, code_byte (hdr_code h), hdr_identifier h, hdr_authenticator h)"

text \<open>
  A cache lookup that ends the dispatch on a hit. The handler is application code; \<open>now\<close> are the
  instants the cache reads; \<open>None\<close> is a panic.
\<close>

definition dispatch_lookup ::
    "(dedup_key \<Rightarrow> u64) \<Rightarrow> instant \<Rightarrow> header \<Rightarrow> socket_addr \<Rightarrow> dedup_cache \<Rightarrow> dedup_cache \<times> dispatched option" where
  "dispatch_lookup hash now h peer cache =
     (case dedup_lookup hash now (dedup_key_of peer h) cache of
        (cache, Some cached) \<Rightarrow> (cache, Some (Replay cached (hdr_code h) (hdr_identifier h)))
      | (cache, None) \<Rightarrow> (cache, None))"

definition dispatch_handler ::
    "crypto \<Rightarrow> (dedup_key \<Rightarrow> u64) \<Rightarrow> instant \<Rightarrow> header \<Rightarrow> bytes \<Rightarrow> socket_addr \<Rightarrow> socket_addr \<Rightarrow> client
      \<Rightarrow> handler \<Rightarrow> dedup_cache \<Rightarrow> (dedup_cache \<times> dispatched) option" where
  "dispatch_handler C hash now h attrs peer local cl handle cache =
     (let request = request_new (hdr_code h) (hdr_identifier h) (hdr_authenticator h) attrs cl peer local
      in case handle request of
           HDrop \<Rightarrow> Some (cache, HandlerDrop (hdr_code h) (hdr_identifier h))
         | HReply reply \<Rightarrow>
             (case seal_for C reply (hdr_authenticator h) (client_secret cl) of
                None \<Rightarrow> None
              | Some sealed \<Rightarrow>
                  Some (dedup_insert hash now (dedup_key_of peer h) (as_bytes sealed) cache,
                        DReply sealed (hdr_code h) (hdr_identifier h))))"

definition dispatch_status ::
    "crypto \<Rightarrow> (dedup_key \<Rightarrow> u64) \<Rightarrow> instant \<Rightarrow> header \<Rightarrow> socket_addr \<Rightarrow> client
      \<Rightarrow> status_server_context \<Rightarrow> dedup_cache \<Rightarrow> (dedup_cache \<times> dispatched) option" where
  "dispatch_status C hash now h peer cl ctx cache =
     (if \<not> status_server_enabled cl then Some (cache, StatusServerDisabledPerClient (hdr_identifier h))
      else
        case build_status_reply (ctx_policy ctx) (ctx_role ctx) (ctx_transport ctx) (hdr_identifier h) cl peer of
          None \<Rightarrow> None
        | Some None \<Rightarrow> Some (cache, StatusServerDisabled (hdr_identifier h))
        | Some (Some reply) \<Rightarrow>
            (case seal_for C reply (hdr_authenticator h) (client_secret cl) of
               None \<Rightarrow> None
             | Some sealed \<Rightarrow>
                 Some (dedup_insert hash now (dedup_key_of peer h) (as_bytes sealed) cache,
                       StatusServerReply sealed (hdr_identifier h) (ctx_role ctx))))"

definition dispatch_body ::
    "crypto \<Rightarrow> (dedup_key \<Rightarrow> u64) \<Rightarrow> instant \<Rightarrow> header \<Rightarrow> bytes \<Rightarrow> socket_addr \<Rightarrow> socket_addr \<Rightarrow> client
      \<Rightarrow> handler \<Rightarrow> status_server_context option \<Rightarrow> dedup_cache \<Rightarrow> (dedup_cache \<times> dispatched) option" where
  "dispatch_body C hash now h attrs peer local cl handle status cache =
     (if hdr_code h = STATUS_SERVER then
        (case status of
           Some ctx \<Rightarrow> dispatch_status C hash now h peer cl ctx cache
         | None \<Rightarrow> dispatch_handler C hash now h attrs peer local cl handle cache)
      else dispatch_handler C hash now h attrs peer local cl handle cache)"

definition dispatch_validated ::
    "crypto \<Rightarrow> (dedup_key \<Rightarrow> u64) \<Rightarrow> instant \<Rightarrow> instant \<Rightarrow> instant \<Rightarrow> header \<Rightarrow> bytes \<Rightarrow> socket_addr \<Rightarrow> socket_addr
      \<Rightarrow> client \<Rightarrow> handler \<Rightarrow> dedup_cache \<Rightarrow> status_server_context option \<Rightarrow> (dedup_cache \<times> dispatched) option" where
  "dispatch_validated C hash t1 t2 t3 h attrs peer local cl handle cache status =
     (case dispatch_lookup hash t1 h peer cache of
        (cache, Some hit) \<Rightarrow> Some (cache, hit)
      | (cache, None) \<Rightarrow>
          (case dispatch_lookup hash t2 h peer cache of
             (cache, Some hit) \<Rightarrow> Some (cache, hit)
           | (cache, None) \<Rightarrow> dispatch_body C hash t3 h attrs peer local cl handle status cache))"

section \<open>Which packets are accepted\<close>

definition ma_required :: "client \<Rightarrow> code \<Rightarrow> (u8 \<times> bytes) list \<Rightarrow> bool" where
  "ma_required cl c as \<longleftrightarrow>
     c = STATUS_SERVER
     \<or> c = ACCESS_REQUEST \<and> (require_message_authenticator cl \<or> (\<exists>a\<in>set as. fst a = 79))"

definition authentic_request :: "crypto \<Rightarrow> client \<Rightarrow> header \<Rightarrow> (u8 \<times> bytes) list \<Rightarrow> bool" where
  "authentic_request C cl h as \<longleftrightarrow>
     (zeroed_auth_code (hdr_code h) \<longrightarrow>
        hdr_authenticator h = md5 C (take 4 (header_bytes h) @ replicate 16 0 @ encode_attrs as @ client_secret cl))
     \<and> (filter is_ma as = [(80, tag_of C h as (ma_substitute (hdr_code h) (hdr_authenticator h)) (client_secret cl))]
        \<or> filter is_ma as = [] \<and> \<not> ma_required cl (hdr_code h) as)"

lemma verify_zeroed_iff:
  assumes "length h = 20" and "wf_crypto C"
  shows "verify_zeroed_request C (h @ x) secret \<longleftrightarrow> drop 4 h = md5 C (take 4 h @ replicate 16 0 @ x @ secret)"
  using assms by (simp add: verify_zeroed_request_def compute_zeroed_request_def md5_with_substitute_eq Let_def)

lemma list_ex_eap_iff:
  "good_attrs as \<Longrightarrow>
     list_ex (\<lambda>item. case item of Ok a \<Rightarrow> attribute_type a = 79 | Err _ \<Rightarrow> False) (items (encode_attrs as))
       \<longleftrightarrow> (\<exists>a\<in>set as. fst a = 79)"
  using items_encode_attrs_append [of as "[]"] by (simp add: list_ex_iff)

lemma validate_eq:
  assumes "header_parse packet = Ok (h, attrs)" and "take (unat (hdr_length h)) packet = p"
    and "list_ex (\<lambda>item. case item of Ok a \<Rightarrow> attribute_type a = 79 | Err _ \<Rightarrow> False) (items attrs)
      \<longleftrightarrow> (\<exists>a\<in>set as. fst a = 79)"
  shows "validate C packet cl =
      (if zeroed_auth_code (hdr_code h) \<and> \<not> verify_zeroed_request C p (client_secret cl)
       then BadRequestAuthenticator (hdr_code h) (hdr_identifier h)
       else case verify C p (ma_substitute (hdr_code h) (hdr_authenticator h)) (client_secret cl) of
         Valid \<Rightarrow> VOk h attrs
       | Absent \<Rightarrow> if ma_required cl (hdr_code h) as then MissingMessageAuthenticator (hdr_code h) (hdr_identifier h)
                   else VOk h attrs
       | Invalid \<Rightarrow> BadMessageAuthenticator (hdr_code h) (hdr_identifier h))"
  by (auto simp: validate_def assms Let_def verify_request_authenticator_def ma_required_def split: verification.splits)

lemma authentic_request_iff:
  assumes "wf_crypto C" and "well_framed h as"
  shows "authentic_request C cl h as \<longleftrightarrow>
    (zeroed_auth_code (hdr_code h) \<longrightarrow> verify_zeroed_request C (header_bytes h @ encode_attrs as) (client_secret cl))
    \<and> (verify C (header_bytes h @ encode_attrs as) (ma_substitute (hdr_code h) (hdr_authenticator h)) (client_secret cl) = Valid
       \<or> verify C (header_bytes h @ encode_attrs as) (ma_substitute (hdr_code h) (hdr_authenticator h)) (client_secret cl) = Absent
         \<and> \<not> ma_required cl (hdr_code h) as)"
proof -
  have hb: "length (header_bytes h) = 20" and as: "good_attrs as" using assms(2) by (simp_all add: well_framed_def)
  show ?thesis
    unfolding authentic_request_def tag_of_def verify_zeroed_iff [OF hb assms(1)] drop4_header_bytes
      verify_Valid_iff [OF hb as assms(1)] verify_Absent_iff [OF hb as] ..
qed

lemma validate_framed:
  assumes "wf_crypto C" and "well_framed h as"
  shows "validate C (header_bytes h @ encode_attrs as @ trailing) cl = VOk h (encode_attrs as)
    \<longleftrightarrow> authentic_request C cl h as"
proof -
  have hb: "length (header_bytes h) = 20" and as: "good_attrs as" using assms(2) by (simp_all add: well_framed_def)
  have parse: "header_parse (header_bytes h @ encode_attrs as @ trailing) = Ok (h, encode_attrs as)"
    using assms(2) by (intro header_parse_print) (simp_all add: well_framed_def)
  have p: "take (unat (hdr_length h)) (header_bytes h @ encode_attrs as @ trailing) = header_bytes h @ encode_attrs as"
    using assms(2) by (simp add: well_framed_def)
  let ?p = "header_bytes h @ encode_attrs as" and ?sub = "ma_substitute (hdr_code h) (hdr_authenticator h)"
  let ?v = "verify C ?p ?sub (client_secret cl)" and ?z = "verify_zeroed_request C ?p (client_secret cl)"
  have "validate C (header_bytes h @ encode_attrs as @ trailing) cl =
      (if zeroed_auth_code (hdr_code h) \<and> \<not> ?z then BadRequestAuthenticator (hdr_code h) (hdr_identifier h)
       else case ?v of
         Valid \<Rightarrow> VOk h (encode_attrs as)
       | Absent \<Rightarrow> if ma_required cl (hdr_code h) as then MissingMessageAuthenticator (hdr_code h) (hdr_identifier h)
                   else VOk h (encode_attrs as)
       | Invalid \<Rightarrow> BadMessageAuthenticator (hdr_code h) (hdr_identifier h))"
    by (rule validate_eq [OF parse p list_ex_eap_iff [OF as]])
  then show ?thesis using authentic_request_iff [OF assms, of cl] by (cases ?v) auto
qed

lemma validate_well_framed:
  assumes "validate C packet cl = VOk h attrs"
  shows "\<exists>as trailing. packet = header_bytes h @ encode_attrs as @ trailing \<and> well_framed h as \<and> attrs = encode_attrs as"
proof -
  have p: "header_parse packet = Ok (h, attrs)"
    using assms by (auto simp: validate_def Let_def split: result.splits if_splits verification.splits)
  have "verify C (take (unat (hdr_length h)) packet) (ma_substitute (hdr_code h) (hdr_authenticator h)) (client_secret cl) \<noteq> Invalid"
    using assms by (auto simp: validate_def p Let_def split: if_splits verification.splits)
  moreover have "drop 20 (take (unat (hdr_length h)) packet) = attrs"
    using header_print_parse [OF p] header_parse_lengths [OF p] by simp
  ultimately have ok: "Err e \<notin> set (items attrs)" for e
    using verify_malformed by metis
  obtain as tail where as: "good_attrs as" "attrs = encode_attrs as @ tail"
    "items attrs = map (\<lambda>a. Ok (raw_of a)) as @ items tail" "tail = [] \<or> (\<exists>e. items tail = [Err e])"
    using items_decompose [of attrs] by blast
  have "tail = []" using as(3,4) ok by fastforce
  then have a: "attrs = encode_attrs as" using as(2) by simp
  have "packet = take (unat (hdr_length h)) packet @ drop (unat (hdr_length h)) packet" by simp
  then have "packet = header_bytes h @ encode_attrs as @ drop (unat (hdr_length h)) packet"
    unfolding header_print_parse [OF p] a by simp
  moreover have "well_framed h as"
    using header_parse_lengths [OF p] as(1) a by (simp add: well_framed_def)
  ultimately show ?thesis using a by blast
qed

text \<open>
  C3: the server accepts a datagram exactly when it starts with a well-framed packet whose
  authenticators are right: for accounting, CoA and disconnect requests the Request Authenticator
  is the MD5 over the packet with a zeroed authenticator, and there is exactly one
  Message-Authenticator and it is the HMAC, or there is none and none is required. It is required of
  every Status-Server packet, of every Access-Request from a client that is not exempted, and of
  every Access-Request that carries EAP-Message. The handler then sees exactly the attributes of
  that packet.
\<close>

theorem validate_spec:
  assumes "wf_crypto C"
  shows "validate C packet cl = VOk h attrs \<longleftrightarrow>
    (\<exists>as trailing. packet = header_bytes h @ encode_attrs as @ trailing \<and> well_framed h as
       \<and> attrs = encode_attrs as \<and> authentic_request C cl h as)"
proof
  assume L: "validate C packet cl = VOk h attrs"
  then obtain as trailing where w: "packet = header_bytes h @ encode_attrs as @ trailing" "well_framed h as"
    "attrs = encode_attrs as" using validate_well_framed by blast
  then show "\<exists>as trailing. packet = header_bytes h @ encode_attrs as @ trailing \<and> well_framed h as
      \<and> attrs = encode_attrs as \<and> authentic_request C cl h as"
    using L validate_framed [OF assms w(2), of trailing cl] by blast
next
  assume "\<exists>as trailing. packet = header_bytes h @ encode_attrs as @ trailing \<and> well_framed h as
      \<and> attrs = encode_attrs as \<and> authentic_request C cl h as"
  then show "validate C packet cl = VOk h attrs" using validate_framed [OF assms] by auto
qed

theorem validate_spec_witness:
  "\<forall>h attrs. validate toy_crypto ([4, 7, 0, 20] @ replicate 16 0) (client_new 1 [5]) = VOk h attrs \<longleftrightarrow>
    (\<exists>as trailing. [4, 7, 0, 20] @ replicate 16 0 = header_bytes h @ encode_attrs as @ trailing \<and> well_framed h as
       \<and> attrs = encode_attrs as \<and> authentic_request toy_crypto (client_new 1 [5]) h as)"
  by (intro allI) (rule validate_spec [OF wf_toy_crypto])

section \<open>Requests of the client are accepted\<close>

definition client_code :: "code \<Rightarrow> bool" where
  "client_code c \<longleftrightarrow> random_auth_code c \<or> zeroed_auth_code c"

lemma sealed_packet_validates:
  assumes "wf_crypto C" and "laid_out pb h as" and "length_field (inner pb) = length (inner pb)"
    and "length (inner pb) \<le> 4096" and "c = Code (h ! 0)" and "client_code c"
    and "verify C (inner pb) (if random_auth_code c then drop 4 h else replicate 16 0) (client_secret cl) = Valid"
    and "\<not> random_auth_code c \<Longrightarrow> verify_zeroed_request C (inner pb) (client_secret cl)"
  shows "\<exists>hdr. validate C (inner pb @ trailing) cl = VOk hdr (encode_attrs as) \<and> hdr_code hdr = c
    \<and> hdr_identifier hdr = h ! 1 \<and> hdr_authenticator hdr = drop 4 h"
proof -
  obtain hdr where hd: "h = header_bytes hdr" "well_framed hdr as" "hdr_code hdr = c" "hdr_identifier hdr = h ! 1"
    using laid_out_well_framed [OF assms(2-4)] assms(5) by blast
  have "zeroed_auth_code c \<longleftrightarrow> \<not> random_auth_code c"
    using assms(6) by (auto simp: client_code_def zeroed_auth_code_def random_auth_code_def)
  then have "ma_substitute c (hdr_authenticator hdr) = (if random_auth_code c then drop 4 h else replicate 16 0)"
    using hd(1) by (simp add: ma_substitute_def)
  then have "authentic_request C cl hdr as"
    using authentic_request_iff [OF assms(1) hd(2), of cl] assms(7,8) hd(1,3) laid_outD(1) [OF assms(2)]
      \<open>zeroed_auth_code c \<longleftrightarrow> _\<close> by simp
  then have "validate C (header_bytes hdr @ encode_attrs as @ trailing) cl = VOk hdr (encode_attrs as)"
    using validate_framed [OF assms(1) hd(2)] by blast
  then show ?thesis using hd laid_outD(1) [OF assms(2)] by auto
qed

lemma sealed_request_validates:
  assumes "wf_crypto C" and "creq_shape q h as" and "seal_fits q" and "16 \<le> length rnd"
    and "client_code (Code (h ! 0))"
  shows "\<exists>pb hdr tg. creq_seal C q i (client_secret cl) rnd = Some (Ok pb)
    \<and> validate C (inner pb @ trailing) cl = VOk hdr (encode_attrs
        ((80, tg) # as @ password_attrs C q (client_secret cl) (seal_auth (Code (h ! 0)) rnd)))
    \<and> hdr_code hdr = Code (h ! 0) \<and> hdr_identifier hdr = i
    \<and> (random_auth_code (Code (h ! 0)) \<longrightarrow> hdr_authenticator hdr = seal_auth (Code (h ! 0)) rnd)
    \<and> good_attrs ((80, tg) # as @ password_attrs C q (client_secret cl) (seal_auth (Code (h ! 0)) rnd))"
proof -
  let ?c = "Code (h ! 0)" and ?k = "\<lambda>pb. take 20 (inner pb)"
  let ?as = "\<lambda>tg. (80, tg) # as @ password_attrs C q (client_secret cl) (seal_auth ?c rnd)"
  obtain pb tg where s: "creq_seal C q i (client_secret cl) rnd = Some (Ok pb)"
    "laid_out pb (?k pb) (?as tg)" "wf_pb pb" "length_field (inner pb) = length (inner pb)"
    "take 2 (inner pb) = [h ! 0, i]" "verify C (inner pb) (seal_auth ?c rnd) (client_secret cl) = Valid"
    "if random_auth_code ?c then take 16 (drop 4 (inner pb)) = seal_auth ?c rnd
     else verify_zeroed_request C (inner pb) (client_secret cl)"
    using creq_seal_sealed [OF assms(1-4) refl refl, of i "client_secret cl"] by blast
  have len: "length (inner pb) \<le> 4096" "20 \<le> length (inner pb)" using wf_pb_length [OF s(3)] by auto
  have k: "?k pb ! 0 = h ! 0" "?k pb ! 1 = i"
    using arg_cong [OF s(5), of "\<lambda>x. x ! 0"] arg_cong [OF s(5), of "\<lambda>x. x ! 1"] by simp_all
  have "verify C (inner pb) (if random_auth_code ?c then drop 4 (?k pb) else replicate 16 0) (client_secret cl) = Valid"
    using s(6,7) by (auto simp: seal_auth_def drop_take split: if_splits)
  from sealed_packet_validates [OF assms(1) s(2,4) len(1) _ assms(5) this, of trailing]
  obtain hdr where "validate C (inner pb @ trailing) cl = VOk hdr (encode_attrs (?as tg))" "hdr_code hdr = ?c"
    "hdr_identifier hdr = i" "hdr_authenticator hdr = drop 4 (?k pb)"
    using k s(7) by auto
  moreover have "random_auth_code ?c \<longrightarrow> drop 4 (?k pb) = seal_auth ?c rnd"
    using s(7) by (auto simp: drop_take)
  ultimately show ?thesis using s(1) laid_outD(3) [OF s(2)] by auto
qed

text \<open>
  A request that a client builds with the operations of \<open>Request\<close> and seals is accepted by a
  server that shares the secret, whatever bytes the datagram carries behind it and whatever the
  server's Message-Authenticator policy; the handler sees the request's code, identifier, its
  attributes in order, and the encrypted password.
\<close>

theorem sealed_request_accepted:
  assumes "wf_crypto C" and "creq_shape q h as" and "seal_fits q" and "16 \<le> length rnd"
    and "client_code (Code (h ! 0))"
  shows "\<exists>pb hdr tg. creq_seal C q i (client_secret cl) rnd = Some (Ok pb)
    \<and> validate C (inner pb @ trailing) cl = VOk hdr (encode_attrs
        ((80, tg) # as @ password_attrs C q (client_secret cl) (seal_auth (Code (h ! 0)) rnd)))
    \<and> hdr_code hdr = Code (h ! 0) \<and> hdr_identifier hdr = i"
  using sealed_request_validates [OF assms] by blast

theorem sealed_request_accepted_witness:
  "\<exists>q pb hdr tg. creq_new ACCESS_REQUEST = Some q
    \<and> creq_seal toy_crypto q 7 (client_secret (client_new 1 [5])) (replicate 16 9) = Some (Ok pb)
    \<and> validate toy_crypto (inner pb @ [0]) (client_new 1 [5]) = VOk hdr (encode_attrs
        ((80, tg) # [] @ password_attrs toy_crypto q (client_secret (client_new 1 [5])) (seal_auth ACCESS_REQUEST (replicate 16 9))))
    \<and> hdr_code hdr = ACCESS_REQUEST \<and> hdr_identifier hdr = 7"
proof -
  let ?h = "inner (pb_new ACCESS_REQUEST 0)"
  obtain q where q: "creq_new ACCESS_REQUEST = Some q" "creq_shape q ?h []" "creq_password q = None"
    using creq_new_shape by blast
  have h: "Code (?h ! 0) = ACCESS_REQUEST" by (simp add: pb_new_def with_capacity_def)
  have "client_code (Code (?h ! 0))" by (simp only: h) (simp add: client_code_def random_auth_code_def)
  moreover have "seal_fits q" using q(3) by (simp add: seal_fits_def)
  ultimately obtain pb hdr tg where "creq_seal toy_crypto q 7 (client_secret (client_new 1 [5])) (replicate 16 9) = Some (Ok pb)"
    "validate toy_crypto (inner pb @ [0]) (client_new 1 [5]) = VOk hdr (encode_attrs
        ((80, tg) # [] @ password_attrs toy_crypto q (client_secret (client_new 1 [5])) (seal_auth (Code (?h ! 0)) (replicate 16 9))))"
    "hdr_code hdr = Code (?h ! 0)" "hdr_identifier hdr = 7"
    using sealed_request_accepted [OF wf_toy_crypto q(2), of "replicate 16 9" 7 "client_new 1 [5]" "[0]"] by auto
  with q(1) show ?thesis unfolding h by blast
qed

section \<open>Dispatch outcomes\<close>

lemma dispatch_validated_hit:
  assumes "snd (dedup_lookup hash t1 (dedup_key_of peer h) cache) = Some bs"
  shows "\<exists>cache'. dispatch_validated C hash t1 t2 t3 h attrs peer local cl handle cache status =
    Some (cache', Replay bs (hdr_code h) (hdr_identifier h))"
  using assms by (auto simp: dispatch_validated_def dispatch_lookup_def split: prod.splits)

text \<open>A dispatch that produced bytes left exactly those bytes in the cache for its key.\<close>

lemma dispatch_body_caches:
  assumes "dedup_ok cache"
    and "dispatch_body C hash now h attrs peer local cl handle status cache = Some (cache', d)"
    and "dispatched_bytes d = Some bs"
  shows "cache' = dedup_insert hash now (dedup_key_of peer h) bs cache"
  using assms(2,3)
  by (auto simp: dispatch_body_def dispatch_handler_def dispatch_status_def dispatched_bytes_def Let_def
      split: if_splits option.splits handler_result.splits)

lemma dispatch_lookup_ok: "dedup_ok cache \<Longrightarrow> dedup_ok (fst (dispatch_lookup hash now h peer cache))"
  using dedup_ok_lookup [of cache hash now "dedup_key_of peer h"]
  by (auto simp: dispatch_lookup_def split: prod.splits option.splits)

lemma dispatch_lookup_ttl: "ttl (fst (dispatch_lookup hash now h peer cache)) = ttl cache"
  using ttl_ops(2) [of hash now "dedup_key_of peer h" cache]
  by (auto simp: dispatch_lookup_def simp del: ttl_ops split: prod.splits option.splits)

text \<open>
  C23: a retransmission is answered with the same bytes and without running the handler: once a
  dispatch has sent a reply, then whatever is dispatched for other keys in between, the same packet
  from the same source is replayed byte for byte for as long as the cache keeps replies.
\<close>

theorem retransmission_replayed:
  assumes "dedup_ok cache"
    and "dispatch_validated C hash t1 t2 t3 h attrs peer local cl handle cache status = Some (cache', d)"
    and "dispatched_bytes d = Some bs"
    and "d \<noteq> Replay bs (hdr_code h) (hdr_identifier h)"
    and "list_all (leaves (dedup_key_of peer h) (t3 + ttl cache)) ops" and "t1' < t3 + ttl cache"
  shows "\<exists>cache''. dispatch_validated C hash t1' t2' t3' h attrs' peer local' cl' handle' (dedup_run hash cache' ops) status'
    = Some (cache'', Replay bs (hdr_code h) (hdr_identifier h))"
proof -
  obtain c1 c2 where c: "dispatch_lookup hash t1 h peer cache = (c1, None)"
    "dispatch_lookup hash t2 h peer c1 = (c2, None)"
    "dispatch_body C hash t3 h attrs peer local cl handle status c2 = Some (cache', d)"
    using assms(2-4)
    by (auto simp: dispatch_validated_def dispatch_lookup_def dispatched_bytes_def split: prod.splits option.splits)
  have ok: "dedup_ok c2" "ttl c2 = ttl cache"
    using dispatch_lookup_ok [of cache hash t1 h peer] dispatch_lookup_ok [of c1 hash t2 h peer] assms(1) c(1,2)
      dispatch_lookup_ttl [of hash t1 h peer cache] dispatch_lookup_ttl [of hash t2 h peer c1] by auto
  have "cache' = dedup_insert hash t3 (dedup_key_of peer h) bs c2"
    by (rule dispatch_body_caches [OF ok(1) c(3) assms(3)])
  then have "dedup_map hash (dedup_run hash cache' ops) (dedup_key_of peer h) =
      Some \<lparr>entry_reply = bs, entry_expires_at = t3 + ttl cache\<rparr>"
    using dedup_run_keeps [OF dedup_ok_insert [OF ok(1)] dedup_map_insert_same [OF ok(1)]] ok(2) assms(5) by simp
  then have "snd (dedup_lookup hash t1' (dedup_key_of peer h) (dedup_run hash cache' ops)) = Some bs"
    using assms(6) by (simp add: dedup_lookup_result)
  then show ?thesis by (rule dispatch_validated_hit)
qed

text \<open>A request that is not in the cache reaches the handler, and its reply is sealed and cached.\<close>

lemma dispatch_validated_handled:
  assumes "dedup_ok cache" and "dedup_map hash cache (dedup_key_of peer h) = None"
    and "hdr_code h \<noteq> STATUS_SERVER \<or> status = None"
    and "handle (request_new (hdr_code h) (hdr_identifier h) (hdr_authenticator h) attrs cl peer local) = HReply r"
    and "seal_for C r (hdr_authenticator h) (client_secret cl) = Some sealed"
  shows "\<exists>cache'. dispatch_validated C hash t1 t2 t3 h attrs peer local cl handle cache status =
    Some (cache', DReply sealed (hdr_code h) (hdr_identifier h))"
proof -
  have miss: "\<exists>c'. dispatch_lookup hash t h peer c = (c', None) \<and> dedup_ok c' \<and> dedup_map hash c' (dedup_key_of peer h) = None"
    if "dedup_ok c" "dedup_map hash c (dedup_key_of peer h) = None" for c t
  proof -
    obtain c' res where l: "dedup_lookup hash t (dedup_key_of peer h) c = (c', res)"
      by (cases "dedup_lookup hash t (dedup_key_of peer h) c")
    then have "res = None" using dedup_lookup_result [of hash t "dedup_key_of peer h" c] that(2) by simp
    moreover have "dedup_ok c'" using dedup_ok_lookup [OF that(1), of hash t "dedup_key_of peer h"] l by simp
    moreover have "dedup_map hash c' (dedup_key_of peer h) = None"
      using dedup_map_lookup [OF that(1), of hash t "dedup_key_of peer h" "dedup_key_of peer h"] l that(2) by simp
    ultimately show ?thesis by (simp add: dispatch_lookup_def l)
  qed
  obtain c1 where c1: "dispatch_lookup hash t1 h peer cache = (c1, None)" "dedup_ok c1"
    "dedup_map hash c1 (dedup_key_of peer h) = None" using miss [OF assms(1,2)] by blast
  obtain c2 where c2: "dispatch_lookup hash t2 h peer c1 = (c2, None)" using miss [OF c1(2,3)] by blast
  show ?thesis
    using assms(3-5) by (auto simp: dispatch_validated_def c1(1) c2 dispatch_body_def dispatch_handler_def Let_def)
qed

definition demo_accept :: handler where
  "demo_accept r = (case request_reply r ACCESS_ACCEPT of Some reply \<Rightarrow> HReply reply | None \<Rightarrow> HDrop)"

theorem retransmission_replayed_witness:
  "\<exists>cache' d bs cache''.
     dispatch_validated toy_crypto (\<lambda>_. 3) 10 11 12
       \<lparr>hdr_code = ACCESS_REQUEST, hdr_identifier = 7, hdr_length = 20, hdr_authenticator = replicate 16 1\<rparr>
       [] (SocketV4 1 2) (SocketV4 3 4) (client_new 1 [5]) demo_accept (dedup_new 30) None = Some (cache', d)
   \<and> dispatched_bytes d = Some bs
   \<and> dispatch_validated toy_crypto (\<lambda>_. 3) 40 40 40
       \<lparr>hdr_code = ACCESS_REQUEST, hdr_identifier = 7, hdr_length = 20, hdr_authenticator = replicate 16 1\<rparr>
       [] (SocketV4 1 2) (SocketV4 3 4) (client_new 1 [5]) (\<lambda>_. HDrop)
       (dedup_run (\<lambda>_. 3) cache' [Insert 20 (SocketV4 1 2, 1, 8, []) [3]]) None
     = Some (cache'', Replay bs ACCESS_REQUEST 7)"
proof -
  let ?h = "\<lparr>hdr_code = ACCESS_REQUEST, hdr_identifier = 7, hdr_length = 20, hdr_authenticator = replicate 16 1\<rparr>"
  let ?c = "client_new 1 [5]" and ?p = "SocketV4 1 2" and ?l = "SocketV4 3 4"
  obtain r k where r: "reply_new ACCESS_ACCEPT 7 = Some r" "reply_shape r k [(80, replicate 16 0)]"
    using reply_new_shape [of ACCESS_ACCEPT 7] by blast
  obtain pb where pb: "seal_for toy_crypto r (hdr_authenticator ?h) (client_secret ?c) = Some pb"
    using seal_for_sealed [OF wf_toy_crypto r(2)] by blast
  have "dedup_map (\<lambda>_. 3) (dedup_new 30) (dedup_key_of ?p ?h) = None"
    using shard_for_less [of "\<lambda>_. 3" "dedup_key_of ?p ?h"] by (simp add: dedup_map_def dedup_new_def reply_shard_default_def)
  moreover have "demo_accept (request_new (hdr_code ?h) (hdr_identifier ?h) (hdr_authenticator ?h) [] ?c ?p ?l) = HReply r"
    using r(1) by (simp add: demo_accept_def request_reply_def request_new_def)
  ultimately obtain cache' where d: "dispatch_validated toy_crypto (\<lambda>_. 3) 10 11 12 ?h [] ?p ?l ?c demo_accept (dedup_new 30) None =
      Some (cache', DReply pb ACCESS_REQUEST 7)"
    using dispatch_validated_handled [OF dedup_ok_new, where C = toy_crypto and sealed = pb and h = ?h] pb by fastforce
  moreover have "dispatched_bytes (DReply pb ACCESS_REQUEST 7) = Some (as_bytes pb)" by (simp add: dispatched_bytes_def)
  moreover have "\<exists>cache''. dispatch_validated toy_crypto (\<lambda>_. 3) 40 40 40 ?h [] ?p ?l ?c (\<lambda>_. HDrop)
      (dedup_run (\<lambda>_. 3) cache' [Insert 20 (SocketV4 1 2, 1, 8, []) [3]]) None
    = Some (cache'', Replay (as_bytes pb) (hdr_code ?h) (hdr_identifier ?h))"
    by (rule retransmission_replayed [OF dedup_ok_new d]) (simp_all add: dispatched_bytes_def leaves_def dedup_key_of_def dedup_new_def)
  ultimately show ?thesis by auto
qed

end
