(* ===== verification/Udp_Server.thy ===== *)
theory Udp_Server
  imports Pipeline
begin

text \<open>
  \<^verbatim>\<open>src/server/udp.rs\<close>: the UDP listener. A datagram from a source that the client store knows is given to a
  task of its own. The tasks share the reply cache, so a task is cut where it touches the cache or the
  socket, and \<open>udp_step\<close> lets all tasks, new datagrams and the shutdown signal interleave in any order; the
  gates of \<open>lock_request\<close> only rule out some of these orders. \<open>process_packet\<close> is a task that runs alone.
  The lemmas show that only authentic requests of known clients are answered, and that a shutdown
  loses no packet that was admitted.
\<close>

section \<open>One packet\<close>

definition DEFAULT_DEDUP_TTL :: duration where
  "DEFAULT_DEDUP_TTL = 30 * 1000000000"

definition udp_status_context :: "listener_role \<Rightarrow> status_server_policy \<Rightarrow> status_server_context" where
  "udp_status_context role policy = \<lparr>ctx_role = role, ctx_transport = Udp, ctx_policy = policy\<rparr>"

text \<open>The packets that reach dispatch; all others are dropped with no answer.\<close>

definition admissible :: "crypto \<Rightarrow> listener_role \<Rightarrow> bytes \<Rightarrow> client \<Rightarrow> (header \<times> bytes) option" where
  "admissible C role datagram cl =
     (case validate C datagram cl of
        VOk h attrs \<Rightarrow> if \<not> accepts role (hdr_code h) then None else Some (h, attrs)
      | MalformedHeader _ \<Rightarrow> None
      | BadRequestAuthenticator _ _ \<Rightarrow> None
      | MissingMessageAuthenticator _ _ \<Rightarrow> None
      | BadMessageAuthenticator _ _ \<Rightarrow> None)"

text \<open>The bytes handed to \<open>send_to\<close>, if any; \<open>None\<close> on the outside is a panic of the task.\<close>

definition process_packet ::
    "crypto \<Rightarrow> (dedup_key \<Rightarrow> u64) \<Rightarrow> instant \<Rightarrow> instant \<Rightarrow> instant \<Rightarrow> bytes \<Rightarrow> socket_addr \<Rightarrow> socket_addr \<Rightarrow> client \<Rightarrow> handler
      \<Rightarrow> dedup_cache \<Rightarrow> listener_role \<Rightarrow> status_server_policy \<Rightarrow> (dedup_cache \<times> bytes option) option" where
  "process_packet C hash t1 t2 t3 datagram src dst cl handle cache role policy =
     (case admissible C role datagram cl of
        None \<Rightarrow> Some (cache, None)
      | Some (h, attrs) \<Rightarrow>
          map_option (\<lambda>(cache, outcome). (cache, dispatched_bytes outcome))
            (dispatch_validated C hash t1 t2 t3 h attrs src dst cl handle cache (Some (udp_status_context role policy))))"

section \<open>The listener\<close>

datatype packet_phase =
    Spawned
  | LookedUp header bytes
  | Holding header bytes
  | Answering bytes

record packet_task =
  pt_datagram :: bytes
  pt_src :: socket_addr
  pt_client :: client
  pt_phase :: packet_phase

record udp_listener =
  ul_cache :: dedup_cache
  ul_tasks :: "packet_task list"
  ul_stopping :: bool
  ul_admitted :: "(socket_addr \<times> bytes \<times> client) list"
  ul_sent :: "(socket_addr \<times> bytes) list"

text \<open>Configuration of a listener: its address, the handler, the role and the status policy.\<close>

record udp_config =
  uc_local :: socket_addr
  uc_handler :: handler
  uc_role :: listener_role
  uc_policy :: status_server_policy

definition udp_listener_new :: "duration \<Rightarrow> udp_listener" where
  "udp_listener_new t = \<lparr>ul_cache = dedup_new t, ul_tasks = [], ul_stopping = False, ul_admitted = [], ul_sent = []\<rparr>"

text \<open>
  What a task does until its next await point: the cache, the task if it is not over, and what it sends.
  \<open>sends\<close> says whether \<open>send_to\<close> succeeds.
\<close>

definition task_step ::
    "crypto \<Rightarrow> (dedup_key \<Rightarrow> u64) \<Rightarrow> udp_config \<Rightarrow> instant \<Rightarrow> bool \<Rightarrow> packet_task \<Rightarrow> dedup_cache
      \<Rightarrow> dedup_cache \<times> packet_task option \<times> (socket_addr \<times> bytes) list" where
  "task_step C hash cfg now sends t cache =
     (case pt_phase t of
        Spawned \<Rightarrow>
          (case admissible C (uc_role cfg) (pt_datagram t) (pt_client t) of
             None \<Rightarrow> (cache, None, [])
           | Some (h, attrs) \<Rightarrow>
               (case dedup_lookup hash now (dedup_key_of (pt_src t) h) cache of
                  (cache, Some bs) \<Rightarrow> (cache, Some (t\<lparr>pt_phase := Answering bs\<rparr>), [])
                | (cache, None) \<Rightarrow> (cache, Some (t\<lparr>pt_phase := LookedUp h attrs\<rparr>), [])))
      | LookedUp h attrs \<Rightarrow>
          (case dedup_lookup hash now (dedup_key_of (pt_src t) h) cache of
             (cache, Some bs) \<Rightarrow> (cache, Some (t\<lparr>pt_phase := Answering bs\<rparr>), [])
           | (cache, None) \<Rightarrow> (cache, Some (t\<lparr>pt_phase := Holding h attrs\<rparr>), []))
      | Holding h attrs \<Rightarrow>
          (case dispatch_body C hash now h attrs (pt_src t) (uc_local cfg) (pt_client t) (uc_handler cfg)
              (Some (udp_status_context (uc_role cfg) (uc_policy cfg))) cache of
             None \<Rightarrow> (cache, None, [])
           | Some (cache, outcome) \<Rightarrow>
               (case dispatched_bytes outcome of
                  None \<Rightarrow> (cache, None, [])
                | Some bs \<Rightarrow> (cache, Some (t\<lparr>pt_phase := Answering bs\<rparr>), [])))
      | Answering bs \<Rightarrow> (cache, None, if sends then [(pt_src t, bs)] else []))"

definition replace_task :: "nat \<Rightarrow> packet_task option \<Rightarrow> packet_task list \<Rightarrow> packet_task list" where
  "replace_task i t ts = (case t of Some t' \<Rightarrow> ts[i := t'] | None \<Rightarrow> take i ts @ drop (Suc i) ts)"

definition spawn_task :: "socket_addr \<Rightarrow> bytes \<Rightarrow> client \<Rightarrow> udp_listener \<Rightarrow> udp_listener" where
  "spawn_task src datagram cl l =
     l\<lparr>ul_tasks := ul_tasks l @ [\<lparr>pt_datagram = datagram, pt_src = src, pt_client = cl, pt_phase = Spawned\<rparr>],
       ul_admitted := ul_admitted l @ [(src, datagram, cl)]\<rparr>"

definition run_listener_task ::
    "crypto \<Rightarrow> (dedup_key \<Rightarrow> u64) \<Rightarrow> udp_config \<Rightarrow> nat \<Rightarrow> instant \<Rightarrow> bool \<Rightarrow> udp_listener \<Rightarrow> udp_listener" where
  "run_listener_task C hash cfg i now sends l =
     (case task_step C hash cfg now sends (ul_tasks l ! i) (ul_cache l) of
        (cache, t, out) \<Rightarrow>
          l\<lparr>ul_cache := cache, ul_tasks := replace_task i t (ul_tasks l), ul_sent := ul_sent l @ out\<rparr>)"

text \<open>
  The receive loop and its tasks. \<open>store src r\<close> says that the client store may answer \<open>r\<close> for \<open>src\<close>; its
  table may change while the listener runs. The loop ends when a shutdown or a receive error came;
  then it only waits for its tasks.
\<close>

inductive udp_step ::
    "crypto \<Rightarrow> (dedup_key \<Rightarrow> u64) \<Rightarrow> udp_config \<Rightarrow> (socket_addr \<Rightarrow> client option \<Rightarrow> bool) \<Rightarrow> udp_listener \<Rightarrow> udp_listener \<Rightarrow> bool"
  for C hash cfg store where
  Stop: "\<not> ul_stopping l \<Longrightarrow> udp_step C hash cfg store l (l\<lparr>ul_stopping := True\<rparr>)"
| UnknownSource: "\<not> ul_stopping l \<Longrightarrow> store src None \<Longrightarrow> udp_step C hash cfg store l l"
| Admit: "\<not> ul_stopping l \<Longrightarrow> store src (Some cl) \<Longrightarrow>
    udp_step C hash cfg store l (spawn_task src (take MAX_PACKET_LEN datagram) cl l)"
| Task: "i < length (ul_tasks l) \<Longrightarrow> udp_step C hash cfg store l (run_listener_task C hash cfg i now sends l)"

inductive udp_reaches ::
    "crypto \<Rightarrow> (dedup_key \<Rightarrow> u64) \<Rightarrow> udp_config \<Rightarrow> (socket_addr \<Rightarrow> client option \<Rightarrow> bool) \<Rightarrow> udp_listener \<Rightarrow> udp_listener \<Rightarrow> bool"
  for C hash cfg store l0 where
  Here: "udp_reaches C hash cfg store l0 l0"
| Onward: "udp_reaches C hash cfg store l0 l \<Longrightarrow> udp_step C hash cfg store l l' \<Longrightarrow> udp_reaches C hash cfg store l0 l'"

inductive_cases udp_stepE: "udp_step C hash cfg store l l'"

text \<open>\<open>serve_udp\<close> returns in these states.\<close>

definition udp_returned :: "udp_listener \<Rightarrow> bool" where
  "udp_returned l \<longleftrightarrow> ul_stopping l \<and> ul_tasks l = []"

section \<open>A task that runs alone\<close>

text \<open>The segments of one task, with nothing in between, are \<open>process_packet\<close>.\<close>

fun run_alone ::
    "crypto \<Rightarrow> (dedup_key \<Rightarrow> u64) \<Rightarrow> udp_config \<Rightarrow> instant list \<Rightarrow> packet_task \<Rightarrow> dedup_cache \<Rightarrow> dedup_cache \<times> (socket_addr \<times> bytes) list" where
  "run_alone C hash cfg [] t cache = (cache, [])"
| "run_alone C hash cfg (now # ts) t cache =
     (case task_step C hash cfg now True t cache of
        (cache, None, out) \<Rightarrow> (cache, out)
      | (cache, Some t, out) \<Rightarrow> run_alone C hash cfg ts t cache)"

lemma run_alone_answering: "pt_phase t = Answering bs \<Longrightarrow> run_alone C hash cfg (now # ts) t cache = (cache, [(pt_src t, bs)])"
  by (simp add: task_step_def)

lemma process_packet_alone:
  assumes "process_packet C hash t1 t2 t3 datagram src (uc_local cfg) cl (uc_handler cfg) cache (uc_role cfg) (uc_policy cfg)
      = Some (cache', r)"
  shows "run_alone C hash cfg [t1, t2, t3, t4] \<lparr>pt_datagram = datagram, pt_src = src, pt_client = cl, pt_phase = Spawned\<rparr> cache
    = (cache', case r of None \<Rightarrow> [] | Some bs \<Rightarrow> [(src, bs)])"
proof (cases "admissible C (uc_role cfg) datagram cl")
  case None
  then show ?thesis using assms by (simp add: process_packet_def task_step_def)
next
  case (Some ha)
  obtain h attrs where ha: "ha = (h, attrs)" by (cases ha)
  obtain d where d: "dispatch_validated C hash t1 t2 t3 h attrs src (uc_local cfg) cl (uc_handler cfg) cache
      (Some (udp_status_context (uc_role cfg) (uc_policy cfg))) = Some (cache', d)" "r = dispatched_bytes d"
    using assms Some ha by (auto simp: process_packet_def)
  obtain c1 r1 where l1: "dedup_lookup hash t1 (dedup_key_of src h) cache = (c1, r1)"
    by (cases "dedup_lookup hash t1 (dedup_key_of src h) cache")
  obtain c2 r2 where l2: "dedup_lookup hash t2 (dedup_key_of src h) c1 = (c2, r2)"
    by (cases "dedup_lookup hash t2 (dedup_key_of src h) c1")
  note step = task_step_def Some ha l1 l2
  show ?thesis
  proof (cases r1)
    case (Some bs)
    then show ?thesis using d by (simp add: step dispatch_validated_def dispatch_lookup_def) (auto simp: dispatched_bytes_def)
  next
    case None
    note r1 = this
    show ?thesis
    proof (cases r2)
      case (Some bs)
      then show ?thesis using d r1 by (simp add: step dispatch_validated_def dispatch_lookup_def) (auto simp: dispatched_bytes_def)
    next
      case None
      then show ?thesis using d r1
        by (simp add: step dispatch_validated_def dispatch_lookup_def split: option.splits)
    qed
  qed
qed

section \<open>Only authentic requests are answered\<close>

text \<open>
  \<open>bs\<close> is a reply that the handler or the status responder made for an authentic request with this key: its
  source, code, identifier and Request Authenticator.
\<close>

definition produced ::
    "crypto \<Rightarrow> (dedup_key \<Rightarrow> u64) \<Rightarrow> udp_config \<Rightarrow> (socket_addr \<times> bytes \<times> client) list \<Rightarrow> dedup_key \<Rightarrow> bytes \<Rightarrow> bool" where
  "produced C hash cfg adm key bs \<longleftrightarrow>
     (\<exists>src datagram cl h attrs now cache cache' outcome.
        (src, datagram, cl) \<in> set adm \<and> admissible C (uc_role cfg) datagram cl = Some (h, attrs) \<and> key = dedup_key_of src h
        \<and> dispatch_body C hash now h attrs src (uc_local cfg) cl (uc_handler cfg)
            (Some (udp_status_context (uc_role cfg) (uc_policy cfg))) cache = Some (cache', outcome)
        \<and> dispatched_bytes outcome = Some bs)"

lemma produced_mono: "produced C hash cfg adm key bs \<Longrightarrow> set adm \<subseteq> set adm' \<Longrightarrow> produced C hash cfg adm' key bs"
  unfolding produced_def by blast

definition answers_request ::
    "crypto \<Rightarrow> (dedup_key \<Rightarrow> u64) \<Rightarrow> udp_config \<Rightarrow> (socket_addr \<times> bytes \<times> client) list \<Rightarrow> socket_addr \<Rightarrow> bytes \<Rightarrow> client \<Rightarrow> bytes \<Rightarrow> bool" where
  "answers_request C hash cfg adm src datagram cl bs \<longleftrightarrow>
     (src, datagram, cl) \<in> set adm
     \<and> (\<exists>h attrs. admissible C (uc_role cfg) datagram cl = Some (h, attrs) \<and> produced C hash cfg adm (dedup_key_of src h) bs)"

lemma answers_request_mono:
  "answers_request C hash cfg adm src datagram cl bs \<Longrightarrow> set adm \<subseteq> set adm' \<Longrightarrow> answers_request C hash cfg adm' src datagram cl bs"
  unfolding answers_request_def using produced_mono by blast

definition task_ok :: "crypto \<Rightarrow> (dedup_key \<Rightarrow> u64) \<Rightarrow> udp_config \<Rightarrow> (socket_addr \<times> bytes \<times> client) list \<Rightarrow> packet_task \<Rightarrow> bool" where
  "task_ok C hash cfg adm t \<longleftrightarrow>
     (pt_src t, pt_datagram t, pt_client t) \<in> set adm
     \<and> (case pt_phase t of
          Spawned \<Rightarrow> True
        | LookedUp h attrs \<Rightarrow> admissible C (uc_role cfg) (pt_datagram t) (pt_client t) = Some (h, attrs)
        | Holding h attrs \<Rightarrow> admissible C (uc_role cfg) (pt_datagram t) (pt_client t) = Some (h, attrs)
        | Answering bs \<Rightarrow> answers_request C hash cfg adm (pt_src t) (pt_datagram t) (pt_client t) bs)"

definition cache_ok :: "crypto \<Rightarrow> (dedup_key \<Rightarrow> u64) \<Rightarrow> udp_config \<Rightarrow> (socket_addr \<times> bytes \<times> client) list \<Rightarrow> dedup_cache \<Rightarrow> bool" where
  "cache_ok C hash cfg adm cache \<longleftrightarrow>
     dedup_ok cache \<and> (\<forall>key e. dedup_map hash cache key = Some e \<longrightarrow> produced C hash cfg adm key (entry_reply e))"

lemma cache_okD: "cache_ok C hash cfg adm cache \<Longrightarrow> dedup_map hash cache key = Some e \<Longrightarrow> produced C hash cfg adm key (entry_reply e)"
  unfolding cache_ok_def by blast

lemma cache_ok_lookup:
  assumes "cache_ok C hash cfg adm cache" and "dedup_lookup hash now key cache = (cache', r)"
  shows "cache_ok C hash cfg adm cache'" and "r = Some bs \<Longrightarrow> produced C hash cfg adm key bs"
proof -
  have ok: "dedup_ok cache" using assms(1) by (simp add: cache_ok_def)
  have "dedup_ok cache'" using dedup_ok_lookup [OF ok, of hash now key] assms(2) by simp
  moreover have "dedup_map hash cache' k = Some e \<Longrightarrow> dedup_map hash cache k = Some e" for k e
    using dedup_map_lookup [OF ok, of hash now key k] assms(2) by (auto split: if_splits)
  ultimately show "cache_ok C hash cfg adm cache'" using assms(1) unfolding cache_ok_def by blast
  show "r = Some bs \<Longrightarrow> produced C hash cfg adm key bs"
    using dedup_lookup_result [of hash now key cache] assms(2) by (auto dest: cache_okD [OF assms(1)] split: option.splits if_splits)
qed

lemma cache_ok_insert:
  assumes "cache_ok C hash cfg adm cache" and "produced C hash cfg adm key bs"
  shows "cache_ok C hash cfg adm (dedup_insert hash now key bs cache)"
proof -
  have ok: "dedup_ok cache" using assms(1) by (simp add: cache_ok_def)
  have "produced C hash cfg adm k (entry_reply e)" if "dedup_map hash (dedup_insert hash now key bs cache) k = Some e" for k e
  proof (cases "k = key")
    case True
    then show ?thesis using that assms(2) dedup_map_insert_same [OF ok, of hash now key bs] by auto
  next
    case False
    then have "dedup_map hash cache k = Some e" using that dedup_map_insert_other [OF ok False, of hash now bs] by auto
    then show ?thesis by (rule cache_okD [OF assms(1)])
  qed
  then show ?thesis using dedup_ok_insert [OF ok] by (simp add: cache_ok_def)
qed

lemma dispatch_body_no_bytes:
  "dispatch_body C hash now h attrs peer local cl handle status cache = Some (cache', d) \<Longrightarrow> dispatched_bytes d = None \<Longrightarrow> cache' = cache"
  by (auto simp: dispatch_body_def dispatch_handler_def dispatch_status_def dispatched_bytes_def Let_def
      split: if_splits option.splits handler_result.splits)

lemma task_step_sound:
  assumes "cache_ok C hash cfg adm cache" and "task_ok C hash cfg adm t" and "task_step C hash cfg now sends t cache = (cache', t', out)"
  shows "cache_ok C hash cfg adm cache'" and "t' = Some u \<Longrightarrow> task_ok C hash cfg adm u"
    and "(dst, bs) \<in> set out \<Longrightarrow> dst = pt_src t \<and> answers_request C hash cfg adm dst (pt_datagram t) (pt_client t) bs"
    and "length out + (if t' = None then 0 else 1) \<le> 1"
proof -
  have adm: "(pt_src t, pt_datagram t, pt_client t) \<in> set adm" using assms(2) by (simp add: task_ok_def)
  have key: "cache_ok C hash cfg adm c \<and> (\<forall>b. r = Some b \<longrightarrow> answers_request C hash cfg adm (pt_src t) (pt_datagram t) (pt_client t) b)"
    if "admissible C (uc_role cfg) (pt_datagram t) (pt_client t) = Some (h, attrs)"
      "dedup_lookup hash now (dedup_key_of (pt_src t) h) cache = (c, r)" for h attrs c r
    using cache_ok_lookup [OF assms(1) that(2)] that(1) adm by (auto simp: answers_request_def)
  have body: "cache_ok C hash cfg adm c \<and> (\<forall>b. dispatched_bytes d = Some b \<longrightarrow> answers_request C hash cfg adm (pt_src t) (pt_datagram t) (pt_client t) b)"
    if a: "admissible C (uc_role cfg) (pt_datagram t) (pt_client t) = Some (h, attrs)"
      and b: "dispatch_body C hash now h attrs (pt_src t) (uc_local cfg) (pt_client t) (uc_handler cfg)
        (Some (udp_status_context (uc_role cfg) (uc_policy cfg))) cache = Some (c, d)" for h attrs c d
  proof (cases "dispatched_bytes d")
    case None
    then show ?thesis using dispatch_body_no_bytes [OF b] assms(1) by simp
  next
    case (Some bs)
    have p: "produced C hash cfg adm (dedup_key_of (pt_src t) h) bs" using adm a b Some unfolding produced_def by blast
    have "dedup_ok cache" using assms(1) by (simp add: cache_ok_def)
    then have "c = dedup_insert hash now (dedup_key_of (pt_src t) h) bs cache" using dispatch_body_caches b Some by blast
    then show ?thesis using cache_ok_insert [OF assms(1) p] p a adm Some by (auto simp: answers_request_def)
  qed
  have "cache_ok C hash cfg adm cache' \<and> (\<forall>u. t' = Some u \<longrightarrow> task_ok C hash cfg adm u)
    \<and> (\<forall>dst bs. (dst, bs) \<in> set out \<longrightarrow> dst = pt_src t \<and> answers_request C hash cfg adm dst (pt_datagram t) (pt_client t) bs)
    \<and> length out + (if t' = None then 0 else 1) \<le> 1"
  proof (cases "pt_phase t")
    case Spawned
    then show ?thesis using assms(1,3) adm key
      by (auto simp: task_step_def task_ok_def split: option.splits prod.splits)
  next
    case (LookedUp h attrs)
    then show ?thesis using assms adm key
      by (auto simp: task_step_def task_ok_def split: option.splits prod.splits)
  next
    case (Holding h attrs)
    then show ?thesis using assms adm body
      by (auto simp: task_step_def task_ok_def split: option.splits prod.splits)
  next
    case (Answering bs)
    then show ?thesis using assms by (auto simp: task_step_def task_ok_def)
  qed
  then show "cache_ok C hash cfg adm cache'" "t' = Some u \<Longrightarrow> task_ok C hash cfg adm u"
    "(dst, bs) \<in> set out \<Longrightarrow> dst = pt_src t \<and> answers_request C hash cfg adm dst (pt_datagram t) (pt_client t) bs"
    "length out + (if t' = None then 0 else 1) \<le> 1" by blast+
qed

definition udp_inv ::
    "crypto \<Rightarrow> (dedup_key \<Rightarrow> u64) \<Rightarrow> udp_config \<Rightarrow> (socket_addr \<Rightarrow> client option \<Rightarrow> bool) \<Rightarrow> udp_listener \<Rightarrow> bool" where
  "udp_inv C hash cfg store l \<longleftrightarrow>
     cache_ok C hash cfg (ul_admitted l) (ul_cache l)
     \<and> (\<forall>t \<in> set (ul_tasks l). task_ok C hash cfg (ul_admitted l) t)
     \<and> (\<forall>(dst, bs) \<in> set (ul_sent l). \<exists>datagram cl. answers_request C hash cfg (ul_admitted l) dst datagram cl bs)
     \<and> (\<forall>(src, datagram, cl) \<in> set (ul_admitted l). store src (Some cl))
     \<and> length (ul_sent l) + length (ul_tasks l) \<le> length (ul_admitted l)"

lemma set_replace_task: "set (replace_task i t ts) \<subseteq> set ts \<union> (case t of None \<Rightarrow> {} | Some u \<Rightarrow> {u})"
  using set_update_subset_insert [of ts i] set_take_subset [of i ts] set_drop_subset [of "Suc i" ts]
  by (auto simp: replace_task_def split: option.splits)

lemma length_replace_task:
  "i < length ts \<Longrightarrow> length (replace_task i t ts) + 1 = length ts + (if t = None then 0 else 1)"
  by (auto simp: replace_task_def split: option.splits)

lemma udp_inv_new: "udp_inv C hash cfg store (udp_listener_new t)"
proof -
  have "dedup_map hash (dedup_new t) key = None" for key
    using shard_for_less [of hash key] by (simp add: dedup_map_def dedup_new_def reply_shard_default_def)
  then show ?thesis by (simp add: udp_inv_def udp_listener_new_def cache_ok_def dedup_ok_new)
qed

lemma udp_inv_spawn:
  assumes "udp_inv C hash cfg store l" and "store src (Some cl)"
  shows "udp_inv C hash cfg store (spawn_task src datagram cl l)"
proof -
  have m: "set (ul_admitted l) \<subseteq> set (ul_admitted l @ [(src, datagram, cl)])" by auto
  have "cache_ok C hash cfg (ul_admitted l @ [(src, datagram, cl)]) (ul_cache l)"
    using assms(1) produced_mono [OF _ m] by (auto simp: udp_inv_def cache_ok_def)
  moreover have "task_ok C hash cfg (ul_admitted l @ [(src, datagram, cl)]) t" if "t \<in> set (ul_tasks l)" for t
    using assms(1) that answers_request_mono [OF _ m] by (auto simp: udp_inv_def task_ok_def split: packet_phase.splits)
  moreover have "\<exists>dg c. answers_request C hash cfg (ul_admitted l @ [(src, datagram, cl)]) dst dg c bs"
    if "(dst, bs) \<in> set (ul_sent l)" for dst bs
    using assms(1) that answers_request_mono [OF _ m] unfolding udp_inv_def by blast
  ultimately show ?thesis using assms by (auto simp: udp_inv_def spawn_task_def task_ok_def)
qed

lemma udp_inv_task:
  assumes "udp_inv C hash cfg store l" and "i < length (ul_tasks l)"
  shows "udp_inv C hash cfg store (run_listener_task C hash cfg i now sends l)"
proof -
  obtain cache t out where s: "task_step C hash cfg now sends (ul_tasks l ! i) (ul_cache l) = (cache, t, out)"
    by (cases "task_step C hash cfg now sends (ul_tasks l ! i) (ul_cache l)") auto
  have c: "cache_ok C hash cfg (ul_admitted l) (ul_cache l)" "task_ok C hash cfg (ul_admitted l) (ul_tasks l ! i)"
    using assms by (auto simp: udp_inv_def)
  note sound = task_step_sound [OF c s]
  have "task_ok C hash cfg (ul_admitted l) u" if "u \<in> set (replace_task i t (ul_tasks l))" for u
    using that set_replace_task [of i t "ul_tasks l"] sound(2) assms(1) by (auto simp: udp_inv_def split: option.splits)
  moreover have "length (replace_task i t (ul_tasks l)) + length out \<le> length (ul_tasks l)"
    using length_replace_task [OF assms(2), of t] sound(4) by linarith
  moreover have "\<exists>datagram cl. answers_request C hash cfg (ul_admitted l) dst datagram cl bs" if "(dst, bs) \<in> set out" for dst bs
    using sound(3) [OF that] by blast
  ultimately show ?thesis
    using assms(1) sound(1) by (auto simp: udp_inv_def run_listener_task_def s)
qed

lemma udp_inv_step: "udp_step C hash cfg store l l' \<Longrightarrow> udp_inv C hash cfg store l \<Longrightarrow> udp_inv C hash cfg store l'"
proof (erule udp_stepE, goal_cases)
  case 1
  then show ?case by (simp add: udp_inv_def)
qed (simp_all add: udp_inv_spawn udp_inv_task)

lemma udp_inv_reaches: "udp_reaches C hash cfg store l0 l \<Longrightarrow> udp_inv C hash cfg store l0 \<Longrightarrow> udp_inv C hash cfg store l"
  by (induction rule: udp_reaches.induct) (auto intro: udp_inv_step)

text \<open>What the types of the program guarantee of every reply that a handler or a status policy returns.\<close>

definition proper_replies :: "udp_config \<Rightarrow> bool" where
  "proper_replies cfg \<longleftrightarrow>
     (\<forall>req r. uc_handler cfg req = HReply r \<longrightarrow> reply_inv r)
     \<and> (\<forall>i cl src r. build_status_reply (uc_policy cfg) (uc_role cfg) Udp i cl src = Some (Some r) \<longrightarrow> reply_inv r)"

lemma sealed_response:
  assumes "wf_crypto C" and "reply_inv r" and "seal_for C r auth secret = Some pb"
  shows "verify_response C (as_bytes pb) auth secret"
proof -
  obtain h as where "reply_shape r h as" using assms(2) by (auto simp: reply_inv_def)
  from seal_for_sealed [OF assms(1) this, of auth secret] show ?thesis using assms(3) by auto
qed

lemma dispatch_body_response:
  assumes "wf_crypto C" and "proper_replies cfg" and "dispatched_bytes outcome = Some bs"
    and "dispatch_body C hash now h attrs src (uc_local cfg) cl (uc_handler cfg)
        (Some (udp_status_context (uc_role cfg) (uc_policy cfg))) cache = Some (cache', outcome)"
  shows "verify_response C bs (hdr_authenticator h) (client_secret cl)"
proof -
  obtain r pb where "reply_inv r" "seal_for C r (hdr_authenticator h) (client_secret cl) = Some pb" "bs = as_bytes pb"
    using assms(2-4)
    by (auto simp: dispatch_body_def dispatch_handler_def dispatch_status_def dispatched_bytes_def proper_replies_def
        udp_status_context_def Let_def split: if_splits option.splits handler_result.splits) blast+
  then show ?thesis using sealed_response [OF assms(1)] by simp
qed

lemma admissible_validate:
  "admissible C role datagram cl = Some (h, attrs) \<Longrightarrow> validate C datagram cl = VOk h attrs \<and> accepts role (hdr_code h)"
  by (auto simp: admissible_def split: validated.splits if_splits)

text \<open>
  C15: a UDP listener is no oracle and no amplifier. Under every interleaving of datagrams and tasks,
  each datagram it sends goes to an address that the client store resolved, from which an authentic
  request of a code the listener's role admits had come, and its Response Authenticator is right for
  that request under the secret of a client the store gave for this address; replayed replies
  included. There are never more replies than admitted datagrams.
\<close>

theorem udp_replies_authentic:
  assumes "wf_crypto C" and "proper_replies cfg"
    and "udp_reaches C hash cfg store (udp_listener_new t) l" and "(dst, bs) \<in> set (ul_sent l)"
  shows "\<exists>datagram cl h attrs cl'. (dst, datagram, cl) \<in> set (ul_admitted l) \<and> store dst (Some cl)
      \<and> validate C datagram cl = VOk h attrs \<and> accepts (uc_role cfg) (hdr_code h)
      \<and> store dst (Some cl') \<and> verify_response C bs (hdr_authenticator h) (client_secret cl')
      \<and> length (ul_sent l) \<le> length (ul_admitted l)"
proof -
  have inv: "udp_inv C hash cfg store l" using udp_inv_reaches [OF assms(3) udp_inv_new] .
  have st: "store src (Some c)" if "(src, dg, c) \<in> set (ul_admitted l)" for src dg c
    using inv that by (auto simp: udp_inv_def)
  obtain datagram cl h attrs where a: "(dst, datagram, cl) \<in> set (ul_admitted l)"
    "admissible C (uc_role cfg) datagram cl = Some (h, attrs)" "produced C hash cfg (ul_admitted l) (dedup_key_of dst h) bs"
    using inv assms(4) by (fastforce simp: udp_inv_def answers_request_def)
  obtain dg cl' h' as' now cache cache' outcome where p: "(dst, dg, cl') \<in> set (ul_admitted l)"
    "hdr_authenticator h = hdr_authenticator h'" "dispatched_bytes outcome = Some bs"
    "dispatch_body C hash now h' as' dst (uc_local cfg) cl' (uc_handler cfg)
        (Some (udp_status_context (uc_role cfg) (uc_policy cfg))) cache = Some (cache', outcome)"
    using a(3) by (auto simp: produced_def dedup_key_of_def)
  have "verify_response C bs (hdr_authenticator h) (client_secret cl')"
    using dispatch_body_response [OF assms(1,2) p(3,4)] p(2) by simp
  moreover have "length (ul_sent l) \<le> length (ul_admitted l)" using inv by (simp add: udp_inv_def)
  ultimately show ?thesis using a(1) st [OF a(1)] st [OF p(1)] admissible_validate [OF a(2)] by blast
qed

section \<open>Shutdown\<close>

text \<open>The segments that a task has left; every segment is one less.\<close>

fun phase_work :: "packet_phase \<Rightarrow> nat" where
  "phase_work Spawned = 4"
| "phase_work (LookedUp _ _) = 3"
| "phase_work (Holding _ _) = 2"
| "phase_work (Answering _) = 1"

definition listener_work :: "udp_listener \<Rightarrow> nat" where
  "listener_work l = sum_list (map (phase_work \<circ> pt_phase) (ul_tasks l))"

lemma phase_work_pos: "0 < phase_work p"
  by (cases p) simp_all

lemma task_step_work:
  "task_step C hash cfg now sends t cache = (cache', Some u, out) \<Longrightarrow> phase_work (pt_phase u) < phase_work (pt_phase t)"
  by (cases "pt_phase t") (auto simp: task_step_def split: option.splits prod.splits)

lemma replace_task_work:
  assumes "i < length ts" and "\<And>u. t = Some u \<Longrightarrow> f u < f (ts ! i)" and "0 < f (ts ! i)"
  shows "sum_list (map f (replace_task i t ts)) < sum_list (map (f :: packet_task \<Rightarrow> nat) ts)"
proof -
  have ts: "ts = take i ts @ ts ! i # drop (Suc i) ts" by (rule id_take_nth_drop [OF assms(1)])
  have "sum_list (map f ts) = sum_list (map f (take i ts)) + f (ts ! i) + sum_list (map f (drop (Suc i) ts))"
    by (subst ts) simp
  moreover have "ts[i := u] = take i ts @ u # drop (Suc i) ts" for u by (rule upd_conv_take_nth_drop [OF assms(1)])
  ultimately show ?thesis using assms(2,3) by (auto simp: replace_task_def split: option.splits)
qed

lemma run_listener_task_work:
  assumes "i < length (ul_tasks l)"
  shows "listener_work (run_listener_task C hash cfg i now sends l) < listener_work l"
proof -
  obtain cache t out where s: "task_step C hash cfg now sends (ul_tasks l ! i) (ul_cache l) = (cache, t, out)"
    by (cases "task_step C hash cfg now sends (ul_tasks l ! i) (ul_cache l)") auto
  show ?thesis
    using replace_task_work [OF assms, of t "phase_work \<circ> pt_phase"] task_step_work [of C hash cfg now sends _ _ cache _ out] s
    by (auto simp: listener_work_def run_listener_task_def phase_work_pos)
qed

lemma stopping_step:
  assumes "udp_step C hash cfg store l l'" and "ul_stopping l"
  shows "ul_stopping l'" and "ul_admitted l' = ul_admitted l" and "listener_work l' < listener_work l"
  using assms run_listener_task_work by (auto elim!: udp_stepE simp: run_listener_task_def split: prod.splits)

lemma udp_reaches_first:
  assumes "udp_step C hash cfg store l l1" and "udp_reaches C hash cfg store l1 l2"
  shows "udp_reaches C hash cfg store l l2"
  using assms(2) by (induction rule: udp_reaches.induct) (auto intro: udp_reaches.intros assms(1))

lemma drain_possible:
  assumes "ul_stopping l"
  shows "\<exists>l'. udp_reaches C hash cfg store l l' \<and> udp_returned l'"
  using assms
proof (induction "listener_work l" arbitrary: l rule: less_induct)
  case less
  show ?case
  proof (cases "ul_tasks l = []")
    case True
    then show ?thesis using less.prems udp_reaches.Here by (intro exI [of _ l]) (simp add: udp_returned_def)
  next
    case False
    then have s: "udp_step C hash cfg store l (run_listener_task C hash cfg 0 0 True l)" by (auto intro: udp_step.Task)
    from less.hyps [OF stopping_step(3,1) [OF this less.prems]] obtain l' where
      l': "udp_reaches C hash cfg store (run_listener_task C hash cfg 0 0 True l) l'" "udp_returned l'" by blast
    from udp_reaches_first [OF s l'(1)] show ?thesis using l'(2) by blast
  qed
qed

lemma reaches_stopping:
  "udp_reaches C hash cfg store l l' \<Longrightarrow> ul_stopping l \<Longrightarrow>
     ul_stopping l' \<and> ul_admitted l' = ul_admitted l \<and> listener_work l' \<le> listener_work l"
  by (induction rule: udp_reaches.induct) (auto dest: stopping_step)

lemma work_bound: "listener_work l \<le> 4 * length (ul_tasks l)"
proof -
  have "phase_work p \<le> 4" for p by (cases p) simp_all
  then have "sum_list (map (phase_work \<circ> pt_phase) ts) \<le> 4 * length ts" for ts
    by (induction ts) (auto intro: add_mono)
  then show ?thesis by (simp add: listener_work_def)
qed

text \<open>
  C35: a shutdown drains the UDP listener. Once the signal has come no datagram is admitted any more;
  every further step is work of a task already admitted, of which at most four segments per task are left;
  the listener returns only when all of them are over, and it can always reach that state.
\<close>

theorem udp_shutdown_drains:
  assumes "ul_stopping l"
  shows "(\<exists>l'. udp_reaches C hash cfg store l l' \<and> udp_returned l') \<and> listener_work l \<le> 4 * length (ul_tasks l)
    \<and> (\<forall>l' l''. udp_reaches C hash cfg store l l' \<longrightarrow> udp_step C hash cfg store l' l'' \<longrightarrow>
         ul_stopping l'' \<and> ul_admitted l'' = ul_admitted l \<and> listener_work l'' < listener_work l' \<and> \<not> udp_returned l')"
proof -
  have "\<not> udp_returned l'" if "udp_step C hash cfg store l' l''" "ul_stopping l'" for l' l''
    using that by (auto elim!: udp_stepE simp: udp_returned_def)
  then show ?thesis
    using drain_possible [OF assms] work_bound reaches_stopping [OF _ assms] stopping_step by metis
qed

section \<open>A run\<close>

definition demo_udp_config :: udp_config where
  "demo_udp_config = \<lparr>uc_local = SocketV4 3 4, uc_handler = demo_accept, uc_role = Auth, uc_policy = StatusEnabled\<rparr>"

definition demo_lenient :: client where
  "demo_lenient = allow_missing_message_authenticator (client_new 1 [5])"

definition demo_datagram :: bytes where
  "demo_datagram = [1, 7, 0, 20] @ replicate 16 9"

lemma demo_proper: "proper_replies demo_udp_config"
proof -
  have "reply_inv r" if "reply_new c i = Some r" for c i r
    using reply_new_shape [of c i] that by (auto simp: reply_inv_def)
  then show ?thesis
    by (auto simp: proper_replies_def demo_udp_config_def demo_accept_def request_reply_def build_status_reply_def split: option.splits)
qed

lemma demo_admissible:
  "admissible toy_crypto Auth demo_datagram demo_lenient =
     Some (\<lparr>hdr_code = ACCESS_REQUEST, hdr_identifier = 7, hdr_length = 20, hdr_authenticator = replicate 16 9\<rparr>, [])"
  by code_simp

lemma run_alone_reaches:
  "run_alone C hash cfg ts t (ul_cache l) = (cache', out) \<Longrightarrow> ul_tasks l = [t] \<Longrightarrow>
     \<exists>l'. udp_reaches C hash cfg store l l' \<and> ul_sent l' = ul_sent l @ out \<and> ul_cache l' = cache'"
proof (induction ts arbitrary: t l)
  case Nil
  then show ?case by (intro exI [of _ l]) (simp add: udp_reaches.Here)
next
  case (Cons now ts)
  obtain c u o1 where s: "task_step C hash cfg now True t (ul_cache l) = (c, u, o1)"
    by (cases "task_step C hash cfg now True t (ul_cache l)") auto
  let ?l = "run_listener_task C hash cfg 0 now True l"
  have step: "udp_step C hash cfg store l ?l" using Cons.prems(2) by (auto intro: udp_step.Task)
  have l: "ul_cache ?l = c" "ul_sent ?l = ul_sent l @ o1" "ul_tasks ?l = (case u of None \<Rightarrow> [] | Some v \<Rightarrow> [v])"
    using Cons.prems(2) s by (auto simp: run_listener_task_def replace_task_def split: option.splits)
  show ?case
  proof (cases u)
    case None
    then show ?thesis using l s Cons.prems(1) udp_reaches_first [OF step udp_reaches.Here] by (intro exI [of _ ?l]) simp
  next
    case (Some v)
    have "o1 = []" using s Some by (cases "pt_phase t") (auto simp: task_step_def split: option.splits prod.splits)
    then show ?thesis using Cons.IH [of v ?l] l s Some Cons.prems(1) udp_reaches_first [OF step] by auto
  qed
qed

lemma demo_udp_run:
  "\<exists>l bs. udp_reaches toy_crypto (\<lambda>_. 3) demo_udp_config (\<lambda>src r. r = Some demo_lenient) (udp_listener_new 30) l
     \<and> ul_sent l = [(SocketV4 1 2, bs)]"
proof -
  let ?h = "\<lparr>hdr_code = ACCESS_REQUEST, hdr_identifier = 7, hdr_length = 20, hdr_authenticator = replicate 16 9\<rparr> :: header"
  let ?src = "SocketV4 1 2" and ?cfg = demo_udp_config
  let ?st = "Some (udp_status_context (uc_role ?cfg) (uc_policy ?cfg))"
  obtain r h where r: "reply_new ACCESS_ACCEPT 7 = Some r" "reply_shape r h [(80, replicate 16 0)]" using reply_new_shape by blast
  obtain pb where pb: "seal_for toy_crypto r (hdr_authenticator ?h) (client_secret demo_lenient) = Some pb"
    using seal_for_sealed [OF wf_toy_crypto r(2)] by blast
  have hd: "uc_handler ?cfg (request_new (hdr_code ?h) (hdr_identifier ?h) (hdr_authenticator ?h) [] demo_lenient ?src (uc_local ?cfg)) = HReply r"
    using r(1) by (simp add: demo_udp_config_def demo_accept_def request_reply_def request_new_def)
  have "dedup_map (\<lambda>_. 3) (dedup_new 30) (dedup_key_of ?src ?h) = None" by code_simp
  then obtain cache' where d: "dispatch_validated toy_crypto (\<lambda>_. 3) 1 2 3 ?h [] ?src (uc_local ?cfg) demo_lenient (uc_handler ?cfg) (dedup_new 30) ?st =
      Some (cache', DReply pb (hdr_code ?h) (hdr_identifier ?h))"
    using dispatch_validated_handled [where C = toy_crypto and hash = "\<lambda>_. 3" and h = ?h and attrs = "[]" and peer = ?src
        and local = "uc_local ?cfg" and cl = demo_lenient and handle = "uc_handler ?cfg" and cache = "dedup_new 30" and status = ?st
        and r = r and sealed = pb and ?t1.0 = 1 and ?t2.0 = 2 and ?t3.0 = 3] hd pb dedup_ok_new [of 30]
    by fastforce
  have "admissible toy_crypto (uc_role ?cfg) demo_datagram demo_lenient = Some (?h, [])"
    using demo_admissible by (simp add: demo_udp_config_def)
  then have "process_packet toy_crypto (\<lambda>_. 3) 1 2 3 demo_datagram ?src (uc_local ?cfg) demo_lenient (uc_handler ?cfg) (dedup_new 30)
      (uc_role ?cfg) (uc_policy ?cfg) = Some (cache', Some (as_bytes pb))"
    using d by (simp add: process_packet_def dispatched_bytes_def)
  from process_packet_alone [OF this, of 4] have alone: "run_alone toy_crypto (\<lambda>_. 3) ?cfg [1, 2, 3, 4]
      \<lparr>pt_datagram = demo_datagram, pt_src = ?src, pt_client = demo_lenient, pt_phase = Spawned\<rparr> (dedup_new 30) = (cache', [(?src, as_bytes pb)])"
    by simp
  let ?l = "spawn_task ?src demo_datagram demo_lenient (udp_listener_new 30)"
  have first: "udp_step toy_crypto (\<lambda>_. 3) ?cfg (\<lambda>src r. r = Some demo_lenient) (udp_listener_new 30) ?l"
    using udp_step.Admit [of "udp_listener_new 30" "\<lambda>src r. r = Some demo_lenient" ?src demo_lenient toy_crypto "\<lambda>_. 3" ?cfg demo_datagram]
    by (simp add: udp_listener_new_def demo_datagram_def)
  have l: "ul_cache ?l = dedup_new 30" "ul_sent ?l = []"
    "ul_tasks ?l = [\<lparr>pt_datagram = demo_datagram, pt_src = ?src, pt_client = demo_lenient, pt_phase = Spawned\<rparr>]"
    by (simp_all add: spawn_task_def udp_listener_new_def)
  obtain l' where "udp_reaches toy_crypto (\<lambda>_. 3) ?cfg (\<lambda>src r. r = Some demo_lenient) ?l l'" "ul_sent l' = [] @ [(?src, as_bytes pb)]"
    using run_alone_reaches [OF alone [folded l(1)] l(3), of "\<lambda>src r. r = Some demo_lenient"] unfolding l(2) by blast
  then show ?thesis using udp_reaches_first [OF first] by auto
qed

theorem udp_replies_authentic_witness:
  "\<exists>l bs datagram cl h attrs.
     udp_reaches toy_crypto (\<lambda>_. 3) demo_udp_config (\<lambda>src r. r = Some demo_lenient) (udp_listener_new 30) l
     \<and> ul_sent l = [(SocketV4 1 2, bs)] \<and> (SocketV4 1 2, datagram, cl) \<in> set (ul_admitted l) \<and> cl = demo_lenient
     \<and> validate toy_crypto datagram cl = VOk h attrs \<and> verify_response toy_crypto bs (hdr_authenticator h) (client_secret cl)"
proof -
  obtain l bs where l: "udp_reaches toy_crypto (\<lambda>_. 3) demo_udp_config (\<lambda>src r. r = Some demo_lenient) (udp_listener_new 30) l"
    "ul_sent l = [(SocketV4 1 2, bs)]" using demo_udp_run by blast
  then have "(SocketV4 1 2, bs) \<in> set (ul_sent l)" by simp
  from udp_replies_authentic [OF wf_toy_crypto demo_proper l(1) this] obtain datagram cl h attrs where
    "(SocketV4 1 2, datagram, cl) \<in> set (ul_admitted l)" "cl = demo_lenient" "validate toy_crypto datagram cl = VOk h attrs"
    "verify_response toy_crypto bs (hdr_authenticator h) (client_secret cl)" by auto
  then show ?thesis using l by blast
qed

theorem udp_shutdown_drains_witness:
  "\<exists>l'. udp_reaches toy_crypto (\<lambda>_. 3) demo_udp_config (\<lambda>src r. r = Some demo_lenient)
      ((spawn_task (SocketV4 1 2) demo_datagram demo_lenient (udp_listener_new 30))\<lparr>ul_stopping := True\<rparr>) l' \<and> udp_returned l'"
  using udp_shutdown_drains [of "(spawn_task (SocketV4 1 2) demo_datagram demo_lenient (udp_listener_new 30))\<lparr>ul_stopping := True\<rparr>"]
  by simp

end
