(* ===== verification/Radsec_Server.thy ===== *)
theory Radsec_Server
  imports Tls_Stream Udp_Server
begin

text \<open>
  \<^verbatim>\<open>src/server/radsec.rs\<close>: the RadSec listener. The frame loop is stated for any connection with the operations
  it uses; \<open>tls_ops\<close> are those of \<open>AsyncTls\<close>. A tick is one round of the loop: the instants read in it, and
  whether the revocation signal had fired when it was polled. \<open>conn_step\<close> interleaves connections with
  calls of \<open>close_for\<close>. The lemmas show which frames of a connection are answered, whom a revocation
  reaches, and whom it misses.
\<close>

section \<open>The connection registry\<close>

text \<open>
  One-shot channels are numbers; \<open>cr_fired\<close> are those whose sender was used or dropped, which is when
  the receiver resolves. A \<open>HashMap\<close> is a finite map: the order in which it is drained does not matter.
\<close>

record conn_entry =
  ce_client_id :: u64
  ce_closer :: nat

record conn_registry =
  cr_inner :: "(u64, conn_entry) fmap"
  cr_next :: u64
  cr_channels :: nat
  cr_fired :: "nat fset"

definition conn_registry_default :: conn_registry where
  "conn_registry_default = \<lparr>cr_inner = fmempty, cr_next = 0, cr_channels = 0, cr_fired = {||}\<rparr>"

text \<open>The sender in the entry of a connection, if there is one.\<close>

definition closer_of :: "u64 \<Rightarrow> conn_registry \<Rightarrow> nat fset" where
  "closer_of i r = (case fmlookup (cr_inner r) i of None \<Rightarrow> {||} | Some e \<Rightarrow> {|ce_closer e|})"

definition conn_register :: "u64 \<Rightarrow> conn_registry \<Rightarrow> conn_registry \<times> u64 \<times> nat" where
  "conn_register cid r =
     (let conn_id = cr_next r; ch = cr_channels r
      in (r\<lparr>cr_inner := fmupd conn_id \<lparr>ce_client_id = cid, ce_closer = ch\<rparr> (cr_inner r), cr_next := conn_id + 1,
            cr_channels := ch + 1, cr_fired := cr_fired r |\<union>| closer_of conn_id r\<rparr>, conn_id, ch))"

definition conn_guard_drop :: "u64 \<Rightarrow> conn_registry \<Rightarrow> conn_registry" where
  "conn_guard_drop conn_id r =
     r\<lparr>cr_inner := fmdrop conn_id (cr_inner r), cr_fired := cr_fired r |\<union>| closer_of conn_id r\<rparr>"

definition close_for :: "u64 \<Rightarrow> conn_registry \<Rightarrow> conn_registry \<times> nat" where
  "close_for cid r =
     (let of_client = (\<lambda>i. case fmlookup (cr_inner r) i of None \<Rightarrow> False | Some e \<Rightarrow> ce_client_id e = cid);
          taken = fmfilter of_client (cr_inner r);
          keep = fmfilter (Not \<circ> of_client) (cr_inner r)
      in (r\<lparr>cr_inner := keep, cr_fired := cr_fired r |\<union>| ce_closer |`| fmran taken\<rparr>, fcard (fmdom taken)))"

text \<open>\<open>RadSecRevoker::revoke\<close> and \<open>Server::close_connections_for\<close> of \<^verbatim>\<open>src/server/runtime.rs\<close>.\<close>

definition revoke :: "u64 \<Rightarrow> conn_registry \<Rightarrow> conn_registry \<times> nat" where
  "revoke cid r = close_for cid r"

section \<open>One frame\<close>

record 'c conn_ops =
  co_read :: "'c reader"
  co_clock :: "'c \<Rightarrow> instant"
  co_write :: "bytes \<Rightarrow> 'c \<Rightarrow> ('c \<times> (io_error, unit) result) option"
  co_key_update :: "'c \<Rightarrow> 'c"

text \<open>What a connection task is given: the peer, the local address, the client, and the listener's parameters.\<close>

record radsec_config =
  rc_peer :: socket_addr
  rc_local :: socket_addr
  rc_client :: client
  rc_handler :: handler
  rc_role :: listener_role
  rc_policy :: status_server_policy

record tick =
  tk_now :: instant
  tk_fired :: bool
  tk_t1 :: instant
  tk_t2 :: instant
  tk_t3 :: instant

definition radsec_status_context :: "listener_role \<Rightarrow> status_server_policy \<Rightarrow> status_server_context" where
  "radsec_status_context role policy = \<lparr>ctx_role = role, ctx_transport = Radsec, ctx_policy = policy\<rparr>"

definition frame_admission :: "crypto \<Rightarrow> listener_role \<Rightarrow> bytes \<Rightarrow> client \<Rightarrow> (io_error, header \<times> bytes) result" where
  "frame_admission C role datagram cl =
     (case validate C datagram cl of
        VOk h attrs \<Rightarrow>
          if \<not> accepts role (hdr_code h) then Err (InvalidData ''code not allowed on listener role'') else Ok (h, attrs)
      | MalformedHeader _ \<Rightarrow> Err (InvalidData ''malformed header'')
      | BadRequestAuthenticator _ _ \<Rightarrow> Err (InvalidData ''bad request authenticator'')
      | MissingMessageAuthenticator _ _ \<Rightarrow> Err (InvalidData ''missing message authenticator'')
      | BadMessageAuthenticator _ _ \<Rightarrow> Err (InvalidData ''bad message authenticator''))"

text \<open>\<open>None\<close> is a panic, or a write that never completes.\<close>

definition process_frame ::
    "'c conn_ops \<Rightarrow> crypto \<Rightarrow> (dedup_key \<Rightarrow> u64) \<Rightarrow> radsec_config \<Rightarrow> tick \<Rightarrow> bytes \<Rightarrow> 'c \<Rightarrow> dedup_cache
      \<Rightarrow> ('c \<times> dedup_cache \<times> (io_error, unit) result) option" where
  "process_frame ops C hash cfg tk datagram conn cache =
     (case frame_admission C (rc_role cfg) datagram (rc_client cfg) of
        Err e \<Rightarrow> Some (conn, cache, Err e)
      | Ok (h, attrs) \<Rightarrow>
          (case dispatch_validated C hash (tk_t1 tk) (tk_t2 tk) (tk_t3 tk) h attrs (rc_peer cfg) (rc_local cfg) (rc_client cfg)
              (rc_handler cfg) cache (Some (radsec_status_context (rc_role cfg) (rc_policy cfg))) of
             None \<Rightarrow> None
           | Some (cache, outcome) \<Rightarrow>
               (case dispatched_bytes outcome of
                  None \<Rightarrow> Some (conn, cache, Ok ())
                | Some bs \<Rightarrow> map_option (\<lambda>(conn, r). (conn, cache, r)) (co_write ops bs conn))))"

section \<open>The frame loop\<close>

definition TLS_KEY_UPDATE_INTERVAL :: duration where
  "TLS_KEY_UPDATE_INTERVAL = 3600 * 1000000000"

record 'c frame_loop =
  fl_conn :: 'c
  fl_frames :: frame_reader
  fl_cache :: dedup_cache
  fl_last_key_update :: instant

definition key_update_due :: "'c conn_ops \<Rightarrow> instant \<Rightarrow> 'c frame_loop \<Rightarrow> 'c frame_loop" where
  "key_update_due ops now s =
     (if now - fl_last_key_update s \<ge> TLS_KEY_UPDATE_INTERVAL
      then s\<lparr>fl_conn := co_key_update ops (fl_conn s), fl_last_key_update := now\<rparr> else s)"

text \<open>One round. A read error and a refused frame end the loop; the signal is polled before the stream.\<close>

definition loop_pass ::
    "'c conn_ops \<Rightarrow> crypto \<Rightarrow> (dedup_key \<Rightarrow> u64) \<Rightarrow> radsec_config \<Rightarrow> tick \<Rightarrow> 'c frame_loop
      \<Rightarrow> ('c frame_loop, (io_error, unit) result) pass" where
  "loop_pass ops C hash cfg tk s =
     (let s = key_update_due ops (tk_now tk) s
      in if tk_fired tk then Return s (Ok ())
         else
           case frame_read (co_read ops) (co_clock ops) (fl_frames s) (fl_conn s) of
             None \<Rightarrow> Pending
           | Some (frames, conn, res) \<Rightarrow>
               let s = s\<lparr>fl_conn := conn, fl_frames := frames\<rparr>
               in case res of
                    Err _ \<Rightarrow> Return s (Ok ())
                  | Ok None \<Rightarrow> Return s (Ok ())
                  | Ok (Some frame) \<Rightarrow>
                      (case process_frame ops C hash cfg tk frame conn (fl_cache s) of
                         None \<Rightarrow> Pending
                       | Some (conn, cache, Err _) \<Rightarrow> Return (s\<lparr>fl_conn := conn, fl_cache := cache\<rparr>) (Ok ())
                       | Some (conn, cache, Ok _) \<Rightarrow> Again (s\<lparr>fl_conn := conn, fl_cache := cache\<rparr>)))"

text \<open>The loop over its ticks; with no result it is still running, or was lost to a panic or a stalled write.\<close>

fun run_frame_loop ::
    "'c conn_ops \<Rightarrow> crypto \<Rightarrow> (dedup_key \<Rightarrow> u64) \<Rightarrow> radsec_config \<Rightarrow> tick list \<Rightarrow> 'c frame_loop
      \<Rightarrow> 'c frame_loop \<times> (io_error, unit) result option" where
  "run_frame_loop ops C hash cfg [] s = (s, None)"
| "run_frame_loop ops C hash cfg (tk # tks) s =
     (case loop_pass ops C hash cfg tk s of
        Again s \<Rightarrow> run_frame_loop ops C hash cfg tks s
      | Return s r \<Rightarrow> (s, Some r)
      | Pending \<Rightarrow> (s, None))"

definition frame_loop_start :: "instant \<Rightarrow> 'c \<Rightarrow> dedup_cache \<Rightarrow> 'c frame_loop" where
  "frame_loop_start now conn cache =
     \<lparr>fl_conn = conn, fl_frames = frame_reader_new now, fl_cache = cache, fl_last_key_update = now\<rparr>"

section \<open>A connection\<close>

definition tls_ops :: "('ctx, 'ssl) libssl \<Rightarrow> (('ctx, 'ssl) async_tls \<Rightarrow> instant) \<Rightarrow> ('ctx, 'ssl) async_tls conn_ops" where
  "tls_ops L clock =
     \<lparr>co_read = (\<lambda>a n deadline.
          case read_some L n a of None \<Rightarrow> Some (a, Err (TimedOut ''RadSec read idle timeout'')) | Some ar \<Rightarrow> Some ar),
      co_clock = clock,
      co_write = write_all L,
      co_key_update = (\<lambda>a. a\<lparr>at_tls := fst (request_key_update L (at_tls a))\<rparr>)\<rparr>"

text \<open>Handshake and authorisation; without a client the connection has been given up.\<close>

definition authorise ::
    "('ctx, 'ssl) libssl \<Rightarrow> 'ctx tls_context \<Rightarrow> (io_error, bytes) result list \<Rightarrow> (io_error, nat) result list
      \<Rightarrow> (socket_addr \<Rightarrow> peer_certificate \<Rightarrow> client option) \<Rightarrow> socket_addr
      \<Rightarrow> (io_error, ('ctx, 'ssl) async_tls \<times> client option) result" where
  "authorise L ctx reads writes lookup_radsec_by_cert peer =
     (case tls_accept L ctx of
        Err e \<Rightarrow> Err (tls_to_io e)
      | Ok tls \<Rightarrow>
          (case handshake_with_timeout L (async_new reads writes tls) of
             (conn, Err _) \<Rightarrow> Ok (conn, None)
           | (conn, Ok _) \<Rightarrow>
               (case async_peer_certificate L conn of
                  None \<Rightarrow> Ok (shutdown_clean L conn, None)
                | Some cert \<Rightarrow>
                    (case lookup_radsec_by_cert peer cert of
                       None \<Rightarrow> Ok (shutdown_clean L conn, None)
                     | Some cl \<Rightarrow> Ok (conn, Some cl)))))"

text \<open>
  The task of a connection. \<open>setup\<close> fills in the local address and the listener's parameters for the client
  that was found. The result is \<open>None\<close> while the loop runs; the entry in the registry is removed at the end.
\<close>

definition handle_connection ::
    "('ctx, 'ssl) libssl \<Rightarrow> crypto \<Rightarrow> (dedup_key \<Rightarrow> u64) \<Rightarrow> (('ctx, 'ssl) async_tls \<Rightarrow> instant) \<Rightarrow> 'ctx tls_context
      \<Rightarrow> (io_error, bytes) result list \<Rightarrow> (io_error, nat) result list \<Rightarrow> (socket_addr \<Rightarrow> peer_certificate \<Rightarrow> client option)
      \<Rightarrow> (client \<Rightarrow> radsec_config) \<Rightarrow> socket_addr \<Rightarrow> instant \<Rightarrow> tick list \<Rightarrow> dedup_cache \<Rightarrow> conn_registry
      \<Rightarrow> conn_registry \<times> dedup_cache \<times> (io_error, unit) result option" where
  "handle_connection L C hash clock ctx reads writes lookup_radsec_by_cert setup peer now tks cache registry =
     (case authorise L ctx reads writes lookup_radsec_by_cert peer of
        Err e \<Rightarrow> (registry, cache, Some (Err e))
      | Ok (conn, None) \<Rightarrow> (registry, cache, Some (Ok ()))
      | Ok (conn, Some cl) \<Rightarrow>
          (case conn_register (client_id cl) registry of
             (registry, conn_id, close_rx) \<Rightarrow>
               (case run_frame_loop (tls_ops L clock) C hash (setup cl) tks (frame_loop_start now conn cache) of
                  (s, None) \<Rightarrow> (registry, fl_cache s, None)
                | (s, Some r) \<Rightarrow> (conn_guard_drop conn_id registry, fl_cache s, Some r))))"

lemma authorise_client:
  assumes "authorise L ctx reads writes lk peer = Ok (conn, Some cl)"
  shows "conn_handshake_done (at_tls conn)" and "\<exists>cert. async_peer_certificate L conn = Some cert \<and> lk peer cert = Some cl"
  using assms
  by (auto simp: authorise_def handshake_with_timeout_def dest: handshake_established
      split: result.splits prod.splits option.splits)

text \<open>No frame is answered before the handshake is over and the certificate is mapped to a client.\<close>

lemma handle_connection_authorised:
  assumes "handle_connection L C hash clock ctx reads writes lk setup peer now tks cache registry = (registry', cache', r)"
    and "cache' \<noteq> cache \<or> registry' \<noteq> registry \<or> r = None"
  shows "\<exists>conn cert cl. authorise L ctx reads writes lk peer = Ok (conn, Some cl) \<and> conn_handshake_done (at_tls conn)
    \<and> async_peer_certificate L conn = Some cert \<and> lk peer cert = Some cl"
proof -
  obtain conn cl where "authorise L ctx reads writes lk peer = Ok (conn, Some cl)"
    using assms by (auto simp: handle_connection_def split: result.splits prod.splits option.splits)
  then show ?thesis using authorise_client [of L ctx reads writes lk peer conn cl] by blast
qed

section \<open>The accept loop\<close>

datatype accept_event = ShutdownChanged bool | AcceptedPeer socket_addr bool | AcceptFailed io_error

text \<open>The peers whose connections are given to a task; the flag of an accepted peer is the answer of \<open>admit_radsec\<close>.\<close>

fun serve_radsec :: "accept_event list \<Rightarrow> socket_addr list \<times> (io_error, unit) result option" where
  "serve_radsec [] = ([], None)"
| "serve_radsec (ShutdownChanged b # es) = (if b then ([], Some (Ok ())) else serve_radsec es)"
| "serve_radsec (AcceptedPeer peer admit # es) =
     (if \<not> admit then serve_radsec es else (case serve_radsec es of (ps, r) \<Rightarrow> (peer # ps, r)))"
| "serve_radsec (AcceptFailed e # es) = ([], Some (Err e))"

lemma serve_radsec_admitted: "peer \<in> set (fst (serve_radsec es)) \<Longrightarrow> AcceptedPeer peer True \<in> set es"
  by (induction es rule: serve_radsec.induct) (auto split: if_splits prod.splits)

section \<open>Which frames are answered\<close>

text \<open>
  What a frame comes to: it is refused, its dispatch panics, or it leaves a reply cache and perhaps a reply.
  \<open>frame_answers\<close> are the caches and replies of frames that are dispatched one after the other, one in each
  round, in rounds in which the signal has not fired; \<open>None\<close> when one of them is not.
\<close>

datatype frame_answer = Refused | Panicked | Answered dedup_cache "bytes option"

definition answer ::
    "crypto \<Rightarrow> (dedup_key \<Rightarrow> u64) \<Rightarrow> radsec_config \<Rightarrow> tick \<Rightarrow> dedup_cache \<Rightarrow> bytes \<Rightarrow> frame_answer" where
  "answer C hash cfg tk cache f =
     (case frame_admission C (rc_role cfg) f (rc_client cfg) of
        Err _ \<Rightarrow> Refused
      | Ok (h, attrs) \<Rightarrow>
          (case dispatch_validated C hash (tk_t1 tk) (tk_t2 tk) (tk_t3 tk) h attrs (rc_peer cfg) (rc_local cfg) (rc_client cfg)
              (rc_handler cfg) cache (Some (radsec_status_context (rc_role cfg) (rc_policy cfg))) of
             None \<Rightarrow> Panicked
           | Some (cache', outcome) \<Rightarrow> Answered cache' (dispatched_bytes outcome)))"

fun frame_answers ::
    "crypto \<Rightarrow> (dedup_key \<Rightarrow> u64) \<Rightarrow> radsec_config \<Rightarrow> tick list \<Rightarrow> bytes list \<Rightarrow> dedup_cache \<Rightarrow> (dedup_cache \<times> bytes list) option" where
  "frame_answers C hash cfg tks [] cache = Some (cache, [])"
| "frame_answers C hash cfg [] (f # fs) cache = None"
| "frame_answers C hash cfg (tk # tks) (f # fs) cache =
     (if tk_fired tk then None
      else case answer C hash cfg tk cache f of
        Answered cache' reply \<Rightarrow>
          map_option (\<lambda>(cache2, rs). (cache2, (case reply of None \<Rightarrow> [] | Some bs \<Rightarrow> [bs]) @ rs)) (frame_answers C hash cfg tks fs cache')
      | _ \<Rightarrow> None)"

text \<open>
  Why the loop ends in a round, when \<open>d\<close> was handed out and \<open>w\<close> accepted before it: the signal has fired; no
  further frame is complete, after \<open>x\<close> of it, because its length is out of range, or a read fails, times out
  or finds the end of the stream; the frame \<open>x\<close> is refused; or the write of its reply fails after \<open>y\<close>.
  Why the loop hangs: the dispatch of the frame \<open>x\<close> panics, or the write of its reply does not complete.
\<close>

definition loop_stops ::
    "('ctx, 'ssl) libssl \<Rightarrow> crypto \<Rightarrow> (dedup_key \<Rightarrow> u64) \<Rightarrow> radsec_config \<Rightarrow> tick \<Rightarrow> dedup_cache \<Rightarrow> ('ctx, 'ssl) tls_connection
      \<Rightarrow> bytes \<Rightarrow> bytes \<Rightarrow> bytes \<Rightarrow> bytes \<Rightarrow> dedup_cache \<Rightarrow> ('ctx, 'ssl) async_tls \<Rightarrow> bool" where
  "loop_stops L C hash cfg tk cache c0 d w x y cache' a' \<longleftrightarrow>
     (if tk_fired tk then x = [] \<and> y = [] \<and> cache' = cache
      else y = [] \<and> cache' = cache \<and> bad_length x
        \<or> y = [] \<and> cache' = cache \<and> unfinished x \<and> (\<exists>a n. talked L c0 (d @ x) w (at_tls a)
             \<and> (read_some L n a = None \<and> a' = a \<or> read_some L n a = Some (a', Ok []) \<or> (\<exists>e. read_some L n a = Some (a', Err e))))
        \<or> y = [] \<and> cache' = cache \<and> framed x \<and> answer C hash cfg tk cache x = Refused
        \<or> framed x \<and> (\<exists>bs k a e. answer C hash cfg tk cache x = Answered cache' (Some bs) \<and> y = take k bs
             \<and> talked L c0 (d @ x) w (at_tls a) \<and> write_all L bs a = Some (a', Err e)))"

definition loop_stalls ::
    "('ctx, 'ssl) libssl \<Rightarrow> crypto \<Rightarrow> (dedup_key \<Rightarrow> u64) \<Rightarrow> radsec_config \<Rightarrow> tick \<Rightarrow> dedup_cache \<Rightarrow> ('ctx, 'ssl) tls_connection
      \<Rightarrow> bytes \<Rightarrow> bytes \<Rightarrow> bool" where
  "loop_stalls L C hash cfg tk cache c0 d w \<longleftrightarrow>
     \<not> tk_fired tk \<and> (\<exists>x a. framed x \<and> talked L c0 (d @ x) w (at_tls a)
       \<and> (answer C hash cfg tk cache x = Panicked
          \<or> (\<exists>cache' bs. answer C hash cfg tk cache x = Answered cache' (Some bs) \<and> write_all L bs a = None)))"

lemma process_frame_answer:
  "process_frame ops C hash cfg tk f c cache =
     (case answer C hash cfg tk cache f of
        Refused \<Rightarrow> Some (c, cache, Err (case frame_admission C (rc_role cfg) f (rc_client cfg) of Err e \<Rightarrow> e | Ok _ \<Rightarrow> IoOs ''-''))
      | Panicked \<Rightarrow> None
      | Answered cache' None \<Rightarrow> Some (c, cache', Ok ())
      | Answered cache' (Some bs) \<Rightarrow> map_option (\<lambda>(c, r). (c, cache', r)) (co_write ops bs c))"
  by (auto simp: process_frame_def answer_def split: result.split option.split prod.split)

lemma tls_ops_sel:
  "co_read (tls_ops L clock) a n dl = Some (case read_some L n a of None \<Rightarrow> (a, Err (TimedOut ''RadSec read idle timeout'')) | Some ar \<Rightarrow> ar)"
  "co_write (tls_ops L clock) = write_all L"
  by (simp_all add: tls_ops_def split: option.split)

lemma tls_ops_read:
  assumes "co_read (tls_ops L clock) a n dl = Some (a', r)" and "talked L c0 d w (at_tls a)"
  shows "talked L c0 (d @ (case r of Ok e \<Rightarrow> e | Err _ \<Rightarrow> [])) w (at_tls a')"
  using assms read_some_talked [of L n a a' r c0 d w] by (auto simp: tls_ops_sel split: option.splits)

lemma tls_frame_read:
  assumes "bounded_reads L" and "reading [] fr" and "talked L c0 d w (at_tls a)"
  shows "\<exists>fr' a' r. frame_read (co_read (tls_ops L clock)) (co_clock (tls_ops L clock)) fr a = Some (fr', a', r)
    \<and> (case r of
         Ok (Some p) \<Rightarrow> framed p \<and> reading [] fr' \<and> talked L c0 (d @ p) w (at_tls a')
       | _ \<Rightarrow> \<exists>x. talked L c0 (d @ x) w (at_tls a') \<and> (\<forall>tk C hash cfg cache. \<not> tk_fired tk \<longrightarrow>
           loop_stops L C hash cfg tk cache c0 d w x [] cache a'))"
proof -
  let ?rd = "co_read (tls_ops L clock)" and ?says = "\<lambda>x a. talked L c0 x w (at_tls a)"
  have short: "length e \<le> n" if "?rd c n dl = Some (c', Ok e)" for c n dl c' e
    using that read_some_length [OF assms(1), of n c c' e] by (auto simp: tls_ops_sel split: option.splits)
  have rd: "read_some L n c = Some (c', r) \<or> read_some L n c = None \<and> c' = c \<and> (\<exists>e. r = Err e)" if "?rd c n dl = Some (c', r)" for c n dl c' r
    using that by (auto simp: tls_ops_sel split: option.splits)
  have says: "?says (d @ []) a" using assms(3) by simp
  obtain fr' a' r where fr: "frame_read ?rd (co_clock (tls_ops L clock)) fr a = Some (fr', a', r)" and
    r: "case r of
         Ok (Some p) \<Rightarrow> framed p \<and> reading [] fr' \<and> ?says (d @ p) a'
       | Ok None \<Rightarrow> \<exists>c1 n dl. ?says d c1 \<and> ?rd c1 n dl = Some (a', Ok [])
       | Err e \<Rightarrow> \<exists>y. ?says (d @ y) a' \<and> (bad_length y
           \<or> unfinished y \<and> (\<exists>c1 n dl. ?says (d @ y) c1 \<and> (?rd c1 n dl = Some (a', Err e) \<or> y \<noteq> [] \<and> ?rd c1 n dl = Some (a', Ok []))))"
    using frame_read_says [where rd = ?rd and says = ?says and fr = fr and x = "[]" and u = d and c = a and clock = "co_clock (tls_ops L clock)",
        OF _ short _ _ assms(2) says] tls_ops_read [of L clock _ _ _ _ _ c0 _ w] by (fastforce simp: tls_ops_sel split: option.splits)
  show ?thesis
  proof (cases r)
    case (Ok o')
    show ?thesis
    proof (cases o')
      case None
      then obtain c1 n dl where c1: "?says d c1" "?rd c1 n dl = Some (a', Ok [])" using r Ok by auto
      have "?says (d @ []) a'" using tls_ops_read [OF c1(2,1)] by simp
      then show ?thesis using fr Ok None c1(1) rd [OF c1(2)] by (force simp: loop_stops_def unfinished_def intro!: exI [of _ "[]"])
    qed (use fr r Ok in auto)
  next
    case (Err e)
    then obtain y where y: "?says (d @ y) a'" "bad_length y
        \<or> unfinished y \<and> (\<exists>c1 n dl. ?says (d @ y) c1 \<and> (?rd c1 n dl = Some (a', Err e) \<or> ?rd c1 n dl = Some (a', Ok [])))" using r by auto
    have "bad_length y \<or> unfinished y \<and> (\<exists>c1 n. ?says (d @ y) c1
        \<and> (read_some L n c1 = None \<and> a' = c1 \<or> read_some L n c1 = Some (a', Ok []) \<or> (\<exists>e. read_some L n c1 = Some (a', Err e))))"
      using y(2) rd by blast
    then have "loop_stops L C hash cfg tk cache c0 d w y [] cache a'" if "\<not> tk_fired tk" for C hash cfg tk cache
      using that unfolding loop_stops_def by auto
    then show ?thesis using fr Err y(1) by auto
  qed
qed

text \<open>One round: a frame was answered, the loop ends, or it hangs.\<close>

definition round_talked ::
    "('ctx, 'ssl) libssl \<Rightarrow> crypto \<Rightarrow> (dedup_key \<Rightarrow> u64) \<Rightarrow> radsec_config \<Rightarrow> tick \<Rightarrow> dedup_cache \<Rightarrow> ('ctx, 'ssl) tls_connection
      \<Rightarrow> bytes \<Rightarrow> bytes \<Rightarrow> (('ctx, 'ssl) async_tls frame_loop, (io_error, unit) result) pass \<Rightarrow> bool" where
  "round_talked L C hash cfg tk cache c0 d w out \<longleftrightarrow>
     (case out of
        Again s \<Rightarrow> \<not> tk_fired tk \<and> reading [] (fl_frames s)
          \<and> (\<exists>p reply. framed p \<and> answer C hash cfg tk cache p = Answered (fl_cache s) reply
               \<and> talked L c0 (d @ p) (w @ (case reply of None \<Rightarrow> [] | Some bs \<Rightarrow> bs)) (at_tls (fl_conn s)))
      | Return s r \<Rightarrow> r = Ok () \<and> (\<exists>x y. talked L c0 (d @ x) (w @ y) (at_tls (fl_conn s))
          \<and> loop_stops L C hash cfg tk cache c0 d w x y (fl_cache s) (fl_conn s))
      | Pending \<Rightarrow> loop_stalls L C hash cfg tk cache c0 d w)"

lemma round_stops:
  assumes "talked L c0 (d @ x) (w @ y) (at_tls (fl_conn s))" and "loop_stops L C hash cfg tk cache c0 d w x y (fl_cache s) (fl_conn s)"
  shows "round_talked L C hash cfg tk cache c0 d w (Return s (Ok ()))"
  using assms by (auto simp: round_talked_def)

text \<open>The end of a round in which the frame \<open>p\<close> was read.\<close>

lemma process_frame_talked:
  assumes "\<not> tk_fired tk" and "framed p" and "reading [] (fl_frames s)" and "talked L c0 (d @ p) w (at_tls a)"
  shows "round_talked L C hash cfg tk cache c0 d w
    (case process_frame (tls_ops L clock) C hash cfg tk p a cache of
       None \<Rightarrow> Pending
     | Some (conn, cache, Err _) \<Rightarrow> Return (s\<lparr>fl_conn := conn, fl_cache := cache\<rparr>) (Ok ())
     | Some (conn, cache, Ok _) \<Rightarrow> Again (s\<lparr>fl_conn := conn, fl_cache := cache\<rparr>))"
proof (cases "answer C hash cfg tk cache p")
  case Refused
  have t: "talked L c0 (d @ p) (w @ []) (at_tls (fl_conn (s\<lparr>fl_conn := a, fl_cache := cache\<rparr>)))" using assms(4) by simp
  have "loop_stops L C hash cfg tk cache c0 d w p [] (fl_cache (s\<lparr>fl_conn := a, fl_cache := cache\<rparr>)) (fl_conn (s\<lparr>fl_conn := a, fl_cache := cache\<rparr>))"
    using assms(1,2) Refused by (simp add: loop_stops_def)
  from round_stops [OF t this] Refused show ?thesis by (simp add: process_frame_answer)
next
  case Panicked
  then show ?thesis using assms by (auto simp: process_frame_answer round_talked_def loop_stalls_def)
next
  case (Answered cache' reply)
  show ?thesis
  proof (cases reply)
    case None
    then show ?thesis using assms Answered by (auto simp: process_frame_answer round_talked_def intro!: exI [of _ p])
  next
    case (Some bs)
    have pf: "process_frame (tls_ops L clock) C hash cfg tk p a cache = map_option (\<lambda>(c, r). (c, cache', r)) (write_all L bs a)"
      using Answered Some by (simp add: process_frame_answer tls_ops_sel)
    consider "write_all L bs a = None" | a' r where "write_all L bs a = Some (a', r)" by (cases "write_all L bs a") auto
    then show ?thesis
    proof cases
      case 1
      then show ?thesis using assms Answered Some pf by (auto simp: round_talked_def loop_stalls_def)
    next
      case 2
      obtain k where k: "talked L c0 (d @ p) (w @ take k bs) (at_tls a')" "r = Ok () \<longrightarrow> take k bs = bs"
        using write_all_talked [OF 2 assms(4)] by blast
      show ?thesis
      proof (cases r)
        case (Ok u)
        then show ?thesis using assms Answered Some k 2 pf by (auto simp: round_talked_def intro!: exI [of _ p])
      next
        case (Err e)
        let ?s = "s\<lparr>fl_conn := a', fl_cache := cache'\<rparr>"
        have "loop_stops L C hash cfg tk cache c0 d w p (take k bs) (fl_cache ?s) (fl_conn ?s)"
          using assms Answered Some 2 Err unfolding loop_stops_def by auto
        with round_stops [of L c0 d p w "take k bs" ?s] k(1) Err 2 pf show ?thesis by simp
      qed
    qed
  qed
qed

lemma loop_pass_talked:
  assumes "bounded_reads L" and "reading [] (fl_frames s)" and "talked L c0 d w (at_tls (fl_conn s))"
  shows "round_talked L C hash cfg tk (fl_cache s) c0 d w (loop_pass (tls_ops L clock) C hash cfg tk s)"
proof -
  let ?ops = "tls_ops L clock"
  let ?s = "key_update_due ?ops (tk_now tk) s"
  have ku: "fl_frames ?s = fl_frames s" "fl_cache ?s = fl_cache s" "talked L c0 d w (at_tls (fl_conn ?s))"
    using assms(3) talked_quiet(3) [OF assms(3)] by (simp_all add: key_update_due_def tls_ops_def)
  obtain fr a r' where fr: "frame_read (co_read ?ops) (co_clock ?ops) (fl_frames s) (fl_conn ?s) = Some (fr, a, r')" and
    r': "case r' of
         Ok (Some p) \<Rightarrow> framed p \<and> reading [] fr \<and> talked L c0 (d @ p) w (at_tls a)
       | _ \<Rightarrow> \<exists>x. talked L c0 (d @ x) w (at_tls a) \<and> (\<forall>tk C hash cfg cache. \<not> tk_fired tk \<longrightarrow>
           loop_stops L C hash cfg tk cache c0 d w x [] cache a)"
    using tls_frame_read [OF assms(1,2) ku(3)] by blast
  note pass = loop_pass_def Let_def ku(1,2) fr
  consider "tk_fired tk" | (no_frame) "\<not> tk_fired tk" "\<And>p. r' \<noteq> Ok (Some p)"
    | (frame) p where "\<not> tk_fired tk" "r' = Ok (Some p)" "framed p" "reading [] fr" "talked L c0 (d @ p) w (at_tls a)"
    using r' by (cases r') (auto split: option.splits)
  then show ?thesis
  proof cases
    case 1
    have "loop_stops L C hash cfg tk (fl_cache s) c0 d w [] [] (fl_cache ?s) (fl_conn ?s)" using 1 ku by (simp add: loop_stops_def)
    from round_stops [OF _ this] ku(3) show ?thesis using 1 by (simp add: loop_pass_def Let_def)
  next
    case no_frame
    let ?t = "?s\<lparr>fl_conn := a, fl_frames := fr\<rparr>"
    obtain x where x: "talked L c0 (d @ x) (w @ []) (at_tls (fl_conn ?t))" "loop_stops L C hash cfg tk (fl_cache s) c0 d w x [] (fl_cache ?t) (fl_conn ?t)"
      using r' no_frame ku(2) by (cases r') (auto split: option.splits)
    have "loop_pass ?ops C hash cfg tk s = Return ?t (Ok ())" using no_frame by (cases r') (auto simp: pass split: option.splits)
    then show ?thesis using round_stops [OF x] by simp
  next
    case frame
    have "reading [] (fl_frames (?s\<lparr>fl_conn := a, fl_frames := fr\<rparr>))" using frame(4) by simp
    from process_frame_talked [OF frame(1,3) this frame(5)] show ?thesis using frame(1,2) by (simp add: pass)
  qed
qed

lemma frame_loop_talked:
  assumes "bounded_reads L"
  shows "reading [] (fl_frames s) \<Longrightarrow> talked L c0 d w (at_tls (fl_conn s)) \<Longrightarrow>
    run_frame_loop (tls_ops L clock) C hash cfg tks s = (s', res) \<Longrightarrow>
    \<exists>ps replies cache1 x y. (\<forall>p \<in> set ps. framed p) \<and> frame_answers C hash cfg tks ps (fl_cache s) = Some (cache1, replies)
      \<and> talked L c0 (d @ concat ps @ x) (w @ concat replies @ y) (at_tls (fl_conn s'))
      \<and> (case res of
           None \<Rightarrow> x = [] \<and> y = [] \<and> fl_cache s' = cache1 \<and> (length ps = length tks
             \<or> length ps < length tks \<and> loop_stalls L C hash cfg (tks ! length ps) cache1 c0 (d @ concat ps) (w @ concat replies))
         | Some r \<Rightarrow> r = Ok () \<and> length ps < length tks
             \<and> loop_stops L C hash cfg (tks ! length ps) cache1 c0 (d @ concat ps) (w @ concat replies) x y (fl_cache s') (fl_conn s'))"
proof (induction tks arbitrary: s d w)
  case Nil
  then show ?case by (intro exI [of _ "[]"] exI [of _ "fl_cache s"]) simp
next
  case (Cons tk tks)
  note round = loop_pass_talked [OF assms Cons.prems(1,2), of C hash cfg tk clock]
  show ?case
  proof (cases "loop_pass (tls_ops L clock) C hash cfg tk s")
    case (Again s2)
    then obtain p reply where p: "\<not> tk_fired tk" "reading [] (fl_frames s2)" "framed p"
      "answer C hash cfg tk (fl_cache s) p = Answered (fl_cache s2) reply"
      "talked L c0 (d @ p) (w @ (case reply of None \<Rightarrow> [] | Some bs \<Rightarrow> bs)) (at_tls (fl_conn s2))"
      using round by (auto simp: round_talked_def)
    let ?r = "case reply of None \<Rightarrow> [] | Some bs \<Rightarrow> [bs]"
    have r: "(case reply of None \<Rightarrow> [] | Some bs \<Rightarrow> bs) = concat ?r" by (cases reply) simp_all
    have run: "run_frame_loop (tls_ops L clock) C hash cfg tks s2 = (s', res)" using Cons.prems(3) Again by simp
    obtain ps replies cache1 x y where i: "\<forall>p \<in> set ps. framed p" "frame_answers C hash cfg tks ps (fl_cache s2) = Some (cache1, replies)"
      "talked L c0 ((d @ p) @ concat ps @ x) ((w @ concat ?r) @ concat replies @ y) (at_tls (fl_conn s'))"
      "case res of
           None \<Rightarrow> x = [] \<and> y = [] \<and> fl_cache s' = cache1 \<and> (length ps = length tks
             \<or> length ps < length tks \<and> loop_stalls L C hash cfg (tks ! length ps) cache1 c0 ((d @ p) @ concat ps) ((w @ concat ?r) @ concat replies))
         | Some r \<Rightarrow> r = Ok () \<and> length ps < length tks
             \<and> loop_stops L C hash cfg (tks ! length ps) cache1 c0 ((d @ p) @ concat ps) ((w @ concat ?r) @ concat replies) x y (fl_cache s') (fl_conn s')"
      using Cons.IH [OF p(2) p(5) run] unfolding r by blast
    show ?thesis
      by (rule exI [of _ "p # ps"], rule exI [of _ "?r @ replies"], rule exI [of _ cache1], rule exI [of _ x], rule exI [of _ y])
        (use i p in \<open>auto split: option.splits\<close>)
  next
    case (Return s2 r)
    then obtain x y where "r = Ok ()" "talked L c0 (d @ x) (w @ y) (at_tls (fl_conn s2))"
      "loop_stops L C hash cfg tk (fl_cache s) c0 d w x y (fl_cache s2) (fl_conn s2)"
      using round by (auto simp: round_talked_def)
    moreover have "s' = s2" "res = Some r" using Cons.prems(3) Return by simp_all
    ultimately show ?thesis
      by (intro exI [of _ "[]"] exI [of _ "fl_cache s"] exI [of _ x] exI [of _ y]) auto
  next
    case Pending
    then have "loop_stalls L C hash cfg tk (fl_cache s) c0 d w" using round by (simp add: round_talked_def)
    moreover have "s' = s" "res = None" using Cons.prems(3) Pending by simp_all
    ultimately show ?thesis using Cons.prems(2)
      by (intro exI [of _ "[]"] exI [of _ "fl_cache s"]) simp
  qed
qed

text \<open>
  C16: which frames a RadSec connection answers, for every TLS library whose reads stay within the buffer, and
  however the socket behaves. The plaintext that libssl has handed out is a sequence of well-framed
  packets, each dispatched in turn and once, and the plaintext it has accepted is their replies in the same
  order; what is left over belongs to the last round. The loop ends only in a round in which the revocation
  signal has fired, when no further frame is complete because the stream ends, fails, times out or announces a
  length out of range, at a frame that fails validation or has a code the role does not admit, or when a reply cannot
  be written; then nothing else has reached the handler or the reply cache. It hangs only in a handler that
  panics or in a write that does not complete.
\<close>

theorem radsec_frames_answered:
  assumes "bounded_reads L"
    and "run_frame_loop (tls_ops L clock) C hash cfg tks (frame_loop_start now conn cache) = (s', res)"
  shows "\<exists>ps replies cache1 x y. (\<forall>p \<in> set ps. framed p) \<and> frame_answers C hash cfg tks ps cache = Some (cache1, replies)
    \<and> talked L (at_tls conn) (concat ps @ x) (concat replies @ y) (at_tls (fl_conn s'))
    \<and> (case res of
         None \<Rightarrow> x = [] \<and> y = [] \<and> fl_cache s' = cache1 \<and> (length ps = length tks
           \<or> length ps < length tks \<and> loop_stalls L C hash cfg (tks ! length ps) cache1 (at_tls conn) (concat ps) (concat replies))
       | Some r \<Rightarrow> r = Ok () \<and> length ps < length tks
           \<and> loop_stops L C hash cfg (tks ! length ps) cache1 (at_tls conn) (concat ps) (concat replies) x y (fl_cache s') (fl_conn s'))"
proof -
  have s: "reading [] (fl_frames (frame_loop_start now conn cache))" "fl_cache (frame_loop_start now conn cache) = cache"
    "talked L (at_tls conn) [] [] (at_tls (fl_conn (frame_loop_start now conn cache)))"
    by (simp_all add: frame_loop_start_def reading_new talk_start)
  show ?thesis using frame_loop_talked [OF assms(1) s(1,3) assms(2)] unfolding s(2) append_Nil .
qed

section \<open>Revocation\<close>

text \<open>
  A connection from its authorisation on: the client it was mapped to, then its entry and its channel, and
  its end. Each step is one critical section of the registry; between the lookup of the client and
  \<open>register\<close> other tasks may run.
\<close>

datatype conn_phase = Authorised u64 | Active u64 u64 nat | Gone

record conn_system =
  cs_registry :: conn_registry
  cs_conns :: "conn_phase list"

definition conn_system_new :: conn_system where
  "conn_system_new = \<lparr>cs_registry = conn_registry_default, cs_conns = []\<rparr>"

definition enter_registry :: "nat \<Rightarrow> u64 \<Rightarrow> conn_system \<Rightarrow> conn_system" where
  "enter_registry i cid s =
     (case conn_register cid (cs_registry s) of
        (r, conn_id, ch) \<Rightarrow> s\<lparr>cs_registry := r, cs_conns := (cs_conns s)[i := Active cid conn_id ch]\<rparr>)"

inductive conn_step :: "conn_system \<Rightarrow> conn_system \<Rightarrow> bool" where
  Authorise: "conn_step s (s\<lparr>cs_conns := cs_conns s @ [Authorised cid]\<rparr>)"
| Register: "i < length (cs_conns s) \<Longrightarrow> cs_conns s ! i = Authorised cid \<Longrightarrow> conn_step s (enter_registry i cid s)"
| Close: "conn_step s (s\<lparr>cs_registry := fst (close_for cid (cs_registry s))\<rparr>)"
| Leave: "i < length (cs_conns s) \<Longrightarrow> cs_conns s ! i = Active cid conn_id ch \<Longrightarrow>
    conn_step s (s\<lparr>cs_registry := conn_guard_drop conn_id (cs_registry s), cs_conns := (cs_conns s)[i := Gone]\<rparr>)"

inductive conn_reachable :: "nat \<Rightarrow> conn_system \<Rightarrow> bool" where
  Start: "conn_reachable 0 conn_system_new"
| Step: "conn_reachable n s \<Longrightarrow> conn_step s s' \<Longrightarrow> conn_reachable (Suc n) s'"

inductive_cases conn_stepE: "conn_step s s'"

text \<open>
  Entries and unsignalled active connections correspond to each other. Connection numbers are not
  reused while the counter has not wrapped.
\<close>

definition act :: "conn_system \<Rightarrow> nat \<Rightarrow> u64 \<Rightarrow> u64 \<Rightarrow> nat \<Rightarrow> bool" where
  "act s i cid k ch \<longleftrightarrow> i < length (cs_conns s) \<and> cs_conns s ! i = Active cid k ch"

definition conn_inv :: "conn_system \<Rightarrow> bool" where
  "conn_inv s \<longleftrightarrow>
     cr_next (cs_registry s) = of_nat (cr_channels (cs_registry s))
     \<and> (\<forall>i cid k ch. act s i cid k ch \<longrightarrow>
          ch < cr_channels (cs_registry s) \<and> k = of_nat ch
          \<and> (ch |\<notin>| cr_fired (cs_registry s) \<longrightarrow> fmlookup (cr_inner (cs_registry s)) k = Some \<lparr>ce_client_id = cid, ce_closer = ch\<rparr>))
     \<and> (\<forall>k e. fmlookup (cr_inner (cs_registry s)) k = Some e \<longrightarrow>
          ce_closer e |\<notin>| cr_fired (cs_registry s) \<and> (\<exists>i. act s i (ce_client_id e) k (ce_closer e)))
     \<and> (\<forall>i j c k c' k' ch. act s i c k ch \<longrightarrow> act s j c' k' ch \<longrightarrow> i = j)
     \<and> (\<forall>ch. ch |\<in>| cr_fired (cs_registry s) \<longrightarrow> ch < cr_channels (cs_registry s))"

lemma conn_invI:
  assumes "cr_next (cs_registry s) = of_nat (cr_channels (cs_registry s))"
    and "\<And>i cid k ch. act s i cid k ch \<Longrightarrow> ch < cr_channels (cs_registry s) \<and> k = of_nat ch"
    and "\<And>i cid k ch. act s i cid k ch \<Longrightarrow> ch |\<notin>| cr_fired (cs_registry s) \<Longrightarrow>
      fmlookup (cr_inner (cs_registry s)) k = Some \<lparr>ce_client_id = cid, ce_closer = ch\<rparr>"
    and "\<And>k e. fmlookup (cr_inner (cs_registry s)) k = Some e \<Longrightarrow> ce_closer e |\<notin>| cr_fired (cs_registry s)"
    and "\<And>k e. fmlookup (cr_inner (cs_registry s)) k = Some e \<Longrightarrow> \<exists>i. act s i (ce_client_id e) k (ce_closer e)"
    and "\<And>i j c k c' k' ch. act s i c k ch \<Longrightarrow> act s j c' k' ch \<Longrightarrow> i = j"
    and "\<And>ch. ch |\<in>| cr_fired (cs_registry s) \<Longrightarrow> ch < cr_channels (cs_registry s)"
  shows "conn_inv s"
  unfolding conn_inv_def using assms by blast

lemma conn_invD:
  assumes "conn_inv s"
  shows "cr_next (cs_registry s) = of_nat (cr_channels (cs_registry s))"
    and "act s i cid k ch \<Longrightarrow> ch < cr_channels (cs_registry s) \<and> k = of_nat ch"
    and "act s i cid k ch \<Longrightarrow> ch |\<notin>| cr_fired (cs_registry s) \<Longrightarrow>
      fmlookup (cr_inner (cs_registry s)) k = Some \<lparr>ce_client_id = cid, ce_closer = ch\<rparr>"
    and "fmlookup (cr_inner (cs_registry s)) k = Some e \<Longrightarrow> ce_closer e |\<notin>| cr_fired (cs_registry s)"
    and "fmlookup (cr_inner (cs_registry s)) k = Some e \<Longrightarrow> \<exists>i. act s i (ce_client_id e) k (ce_closer e)"
    and "act s i c k ch \<Longrightarrow> act s j c' k' ch \<Longrightarrow> i = j"
    and "ch |\<in>| cr_fired (cs_registry s) \<Longrightarrow> ch < cr_channels (cs_registry s)"
  using assms unfolding conn_inv_def by blast+

lemma act_fun: "act s i c k ch \<Longrightarrow> act s i c' k' ch' \<Longrightarrow> c = c' \<and> k = k' \<and> ch = ch'"
  by (simp add: act_def)

lemma unat_of_nat_u64: "a < 2 ^ 64 \<Longrightarrow> unat (of_nat a :: u64) = a"
  by (simp add: unat_of_nat)

lemma of_nat_64_inj: "a < 2 ^ 64 \<Longrightarrow> b < 2 ^ 64 \<Longrightarrow> of_nat a = (of_nat b :: u64) \<Longrightarrow> a = b"
  using unat_of_nat_u64 [of a] unat_of_nat_u64 [of b] by metis

text \<open>An entry determines its connection, and a channel its entry.\<close>

lemma entry_unique:
  assumes "conn_inv s" and "fmlookup (cr_inner (cs_registry s)) k = Some e" and "fmlookup (cr_inner (cs_registry s)) k' = Some e'"
    and "ce_closer e = ce_closer e'"
  shows "k = k' \<and> e = e'"
proof -
  obtain i j where "act s i (ce_client_id e) k (ce_closer e)" "act s j (ce_client_id e') k' (ce_closer e)"
    using conn_invD(5) [OF assms(1)] assms(2-4) by metis
  then have "k = k'" using conn_invD(6) [OF assms(1)] act_fun by metis
  then show ?thesis using assms(2,3) by simp
qed

lemma close_for_registry:
  "fmlookup (cr_inner (fst (close_for cid r))) k =
     (case fmlookup (cr_inner r) k of Some e \<Rightarrow> if ce_client_id e = cid then None else Some e | None \<Rightarrow> None)"
  "ch |\<in>| cr_fired (fst (close_for cid r)) \<longleftrightarrow>
     ch |\<in>| cr_fired r \<or> (\<exists>k e. fmlookup (cr_inner r) k = Some e \<and> ce_client_id e = cid \<and> ce_closer e = ch)"
  "cr_next (fst (close_for cid r)) = cr_next r" "cr_channels (fst (close_for cid r)) = cr_channels r"
proof -
  show "ch |\<in>| cr_fired (fst (close_for cid r)) \<longleftrightarrow>
      ch |\<in>| cr_fired r \<or> (\<exists>k e. fmlookup (cr_inner r) k = Some e \<and> ce_client_id e = cid \<and> ce_closer e = ch)"
    by (force simp: close_for_def Let_def fmlookup_image_iff fmlookup_dom_iff split: option.splits)
qed (auto simp: close_for_def Let_def split: option.splits)

lemma conn_inv_authorise: "conn_inv s \<Longrightarrow> conn_inv (s\<lparr>cs_conns := cs_conns s @ [Authorised cid]\<rparr>)"
proof -
  have "act (s\<lparr>cs_conns := cs_conns s @ [Authorised cid]\<rparr>) i c k ch = act s i c k ch" for i c k ch
    by (auto simp: act_def nth_append)
  then show "conn_inv s \<Longrightarrow> conn_inv (s\<lparr>cs_conns := cs_conns s @ [Authorised cid]\<rparr>)" by (simp add: conn_inv_def)
qed

lemma conn_inv_close:
  assumes "conn_inv s"
  shows "conn_inv (s\<lparr>cs_registry := fst (close_for cid (cs_registry s))\<rparr>)" (is "conn_inv ?s")
proof (rule conn_invI)
  have a: "act ?s i c k ch = act s i c k ch" for i c k ch by (simp add: act_def)
  show "cr_next (cs_registry ?s) = of_nat (cr_channels (cs_registry ?s))"
    using conn_invD(1) [OF assms] by (simp add: close_for_registry)
  show "act ?s i c k ch \<Longrightarrow> ch < cr_channels (cs_registry ?s) \<and> k = of_nat ch" for i c k ch
    using conn_invD(2) [OF assms] by (simp add: a close_for_registry)
  show "fmlookup (cr_inner (cs_registry ?s)) k = Some \<lparr>ce_client_id = c, ce_closer = ch\<rparr>"
    if "act ?s i c k ch" "ch |\<notin>| cr_fired (cs_registry ?s)" for i c k ch
    using conn_invD(3) [OF assms, of i c k ch] that by (force simp: a close_for_registry)
  show "ce_closer e |\<notin>| cr_fired (cs_registry ?s)" if "fmlookup (cr_inner (cs_registry ?s)) k = Some e" for k e
  proof -
    have e: "fmlookup (cr_inner (cs_registry s)) k = Some e" "ce_client_id e \<noteq> cid"
      using that by (auto simp: close_for_registry split: option.splits if_splits)
    then show ?thesis using conn_invD(4) [OF assms e(1)] entry_unique [OF assms e(1)] by (auto simp: close_for_registry)
  qed
  show "\<exists>i. act ?s i (ce_client_id e) k (ce_closer e)" if "fmlookup (cr_inner (cs_registry ?s)) k = Some e" for k e
    using that conn_invD(5) [OF assms] by (auto simp: a close_for_registry split: option.splits if_splits)
  show "act ?s i c k ch \<Longrightarrow> act ?s j c' k' ch \<Longrightarrow> i = j" for i j c k c' k' ch using conn_invD(6) [OF assms] by (simp add: a)
  show "ch |\<in>| cr_fired (cs_registry ?s) \<Longrightarrow> ch < cr_channels (cs_registry ?s)" for ch
    using conn_invD(7) [OF assms] conn_invD(2,5) [OF assms] by (auto simp: close_for_registry) blast
qed

lemma conn_inv_register:
  assumes "conn_inv s" and "cr_channels (cs_registry s) < 2 ^ 64" and "i < length (cs_conns s)" and "cs_conns s ! i = Authorised cid"
  shows "conn_inv (enter_registry i cid s)" (is "conn_inv ?s")
proof (rule conn_invI)
  let ?r = "cs_registry s" and ?k = "cr_next (cs_registry s)" and ?ch = "cr_channels (cs_registry s)"
  have fresh: "fmlookup (cr_inner ?r) ?k = None"
  proof (rule ccontr)
    assume "fmlookup (cr_inner ?r) ?k \<noteq> None"
    then obtain e where e: "fmlookup (cr_inner ?r) ?k = Some e" by auto
    then obtain j where "act s j (ce_client_id e) ?k (ce_closer e)" using conn_invD(5) [OF assms(1)] by blast
    then have "ce_closer e < ?ch" "?k = of_nat (ce_closer e)" using conn_invD(2) [OF assms(1)] by blast+
    then show False using conn_invD(1) [OF assms(1)] of_nat_64_inj [of "ce_closer e" ?ch] assms(2) by simp
  qed
  have r: "cr_inner (cs_registry ?s) = fmupd ?k \<lparr>ce_client_id = cid, ce_closer = ?ch\<rparr> (cr_inner ?r)" "cr_next (cs_registry ?s) = ?k + 1"
    "cr_channels (cs_registry ?s) = ?ch + 1" "cr_fired (cs_registry ?s) = cr_fired ?r"
    using fresh by (simp_all add: enter_registry_def conn_register_def Let_def closer_of_def)
  have a: "act ?s j c k ch \<longleftrightarrow> j = i \<and> c = cid \<and> k = ?k \<and> ch = ?ch \<or> act s j c k ch" for j c k ch
    using assms(3,4) by (auto simp: act_def enter_registry_def conn_register_def Let_def nth_list_update)
  have nf: "?ch |\<notin>| cr_fired ?r" using conn_invD(7) [OF assms(1), of ?ch] by auto
  have old: "k \<noteq> ?k" if "fmlookup (cr_inner ?r) k = Some e" for k e using that fresh by auto
  show "cr_next (cs_registry ?s) = of_nat (cr_channels (cs_registry ?s))" using conn_invD(1) [OF assms(1)] by (simp add: r)
  show "act ?s j c k ch \<Longrightarrow> ch < cr_channels (cs_registry ?s) \<and> k = of_nat ch" for j c k ch
    using conn_invD(1,2) [OF assms(1)] by (auto simp: a r less_Suc_eq)
  show "fmlookup (cr_inner (cs_registry ?s)) k = Some \<lparr>ce_client_id = c, ce_closer = ch\<rparr>"
    if "act ?s j c k ch" "ch |\<notin>| cr_fired (cs_registry ?s)" for j c k ch
    using that conn_invD(3) [OF assms(1), of j c k ch] old [of k] unfolding a r by auto
  show "fmlookup (cr_inner (cs_registry ?s)) k = Some e \<Longrightarrow> ce_closer e |\<notin>| cr_fired (cs_registry ?s)" for k e
    using conn_invD(4) [OF assms(1), of k e] nf unfolding r by (auto split: if_splits)
  show "fmlookup (cr_inner (cs_registry ?s)) k = Some e \<Longrightarrow> \<exists>j. act ?s j (ce_client_id e) k (ce_closer e)" for k e
    using conn_invD(5) [OF assms(1), of k e] unfolding a r by (auto split: if_splits)
  show "act ?s j c k ch \<Longrightarrow> act ?s j' c' k' ch \<Longrightarrow> j = j'" for j j' c k c' k' ch
    using conn_invD(6) [OF assms(1), of j c k ch j'] conn_invD(2) [OF assms(1)] unfolding a by (metis less_irrefl)
  show "ch |\<in>| cr_fired (cs_registry ?s) \<Longrightarrow> ch < cr_channels (cs_registry ?s)" for ch
    using conn_invD(7) [OF assms(1), of ch] by (auto simp: r)
qed

lemma conn_inv_leave:
  assumes "conn_inv s" and "cr_channels (cs_registry s) < 2 ^ 64" and "act s i cid k ch"
  shows "conn_inv (s\<lparr>cs_registry := conn_guard_drop k (cs_registry s), cs_conns := (cs_conns s)[i := Gone]\<rparr>)" (is "conn_inv ?s")
proof (rule conn_invI)
  let ?r = "cs_registry s"
  have a: "act ?s j c k' ch' \<longleftrightarrow> j \<noteq> i \<and> act s j c k' ch'" for j c k' ch'
    using assms(3) by (auto simp: act_def nth_list_update)
  have keys: "k' \<noteq> k" if "act s j c k' ch'" "j \<noteq> i" for j c k' ch'
    using that assms(2,3) conn_invD(2) [OF assms(1)] conn_invD(6) [OF assms(1)] of_nat_64_inj [of ch' ch] order.strict_trans by metis
  have r: "cr_inner (cs_registry ?s) = fmdrop k (cr_inner ?r)" "cr_next (cs_registry ?s) = cr_next ?r"
    "cr_channels (cs_registry ?s) = cr_channels ?r" "cr_fired (cs_registry ?s) = cr_fired ?r |\<union>| closer_of k ?r"
    by (simp_all add: conn_guard_drop_def)
  have cl: "c |\<in>| closer_of k ?r \<longleftrightarrow> (\<exists>e. fmlookup (cr_inner ?r) k = Some e \<and> c = ce_closer e)" for c
    by (auto simp: closer_of_def split: option.splits)
  show "cr_next (cs_registry ?s) = of_nat (cr_channels (cs_registry ?s))" using conn_invD(1) [OF assms(1)] unfolding r .
  show "act ?s j c k' ch' \<Longrightarrow> ch' < cr_channels (cs_registry ?s) \<and> k' = of_nat ch'" for j c k' ch'
    using conn_invD(2) [OF assms(1)] unfolding a r by blast
  show "fmlookup (cr_inner (cs_registry ?s)) k' = Some \<lparr>ce_client_id = c, ce_closer = ch'\<rparr>"
    if "act ?s j c k' ch'" "ch' |\<notin>| cr_fired (cs_registry ?s)" for j c k' ch'
    using that conn_invD(3) [OF assms(1), of j c k' ch'] keys [of j c k' ch'] unfolding a r by auto
  show "ce_closer e |\<notin>| cr_fired (cs_registry ?s)" if "fmlookup (cr_inner (cs_registry ?s)) k' = Some e" for k' e
    using that conn_invD(4) [OF assms(1), of k' e] entry_unique [OF assms(1), of k' e k] unfolding r by (auto simp: cl split: if_splits)
  show "\<exists>j. act ?s j (ce_client_id e) k' (ce_closer e)" if "fmlookup (cr_inner (cs_registry ?s)) k' = Some e" for k' e
  proof -
    have e: "k' \<noteq> k" "fmlookup (cr_inner ?r) k' = Some e" using that unfolding r by (auto split: if_splits)
    then obtain j where "act s j (ce_client_id e) k' (ce_closer e)" using conn_invD(5) [OF assms(1)] by blast
    moreover from this have "j \<noteq> i" using e(1) act_fun assms(3) by metis
    ultimately show ?thesis unfolding a by (intro exI [of _ j] conjI)
  qed
  show "act ?s j c k1 ch1 \<Longrightarrow> act ?s j' c' k2 ch1 \<Longrightarrow> j = j'" for j j' c k1 c' k2 ch1
    using conn_invD(6) [OF assms(1)] by (auto simp: a)
  show "ch' |\<in>| cr_fired (cs_registry ?s) \<Longrightarrow> ch' < cr_channels (cs_registry ?s)" for ch'
    using conn_invD(7) [OF assms(1), of ch'] conn_invD(2,5) [OF assms(1)] unfolding r by (auto simp: cl) blast
qed

lemma conn_step_channels: "conn_step s s' \<Longrightarrow> cr_channels (cs_registry s') \<le> Suc (cr_channels (cs_registry s))"
  by (erule conn_stepE) (auto simp: enter_registry_def conn_register_def Let_def close_for_registry conn_guard_drop_def)

lemma conn_inv_step:
  assumes "conn_step s s'" and "conn_inv s" and "cr_channels (cs_registry s) < 2 ^ 64"
  shows "conn_inv s'"
  using assms(1)
proof (cases rule: conn_step.cases)
  case (Leave i cid conn_id ch)
  then show ?thesis using conn_inv_leave [OF assms(2,3), of i cid conn_id ch] by (simp add: act_def)
qed (use assms(2,3) conn_inv_authorise conn_inv_register conn_inv_close in simp_all)

lemma conn_inv_new: "conn_inv conn_system_new"
  by (simp add: conn_inv_def act_def conn_system_new_def conn_registry_default_def)

lemma conn_reachable_inv:
  "conn_reachable n s \<Longrightarrow> n < 2 ^ 64 \<Longrightarrow> conn_inv s \<and> cr_channels (cs_registry s) \<le> n"
proof (induction rule: conn_reachable.induct)
  case Start
  then show ?case by (simp only: conn_inv_new) (simp add: conn_system_new_def conn_registry_default_def)
next
  case (Step n s s')
  have n: "n < 2 ^ 64" using Step.prems by linarith
  then have "conn_inv s" "cr_channels (cs_registry s) \<le> n" using Step.IH by blast+
  moreover from this(2) n have "cr_channels (cs_registry s) < 2 ^ 64" by (rule order.strict_trans1)
  ultimately show ?case using conn_inv_step [OF Step.hyps(2)] conn_step_channels [OF Step.hyps(2)] by simp
qed

text \<open>The connections that a call of \<open>close_for\<close> has to reach.\<close>

definition unsignalled :: "conn_system \<Rightarrow> u64 \<Rightarrow> nat set" where
  "unsignalled s cid = {i. \<exists>k ch. act s i cid k ch \<and> ch |\<notin>| cr_fired (cs_registry s)}"

lemma close_for_count:
  assumes "conn_inv s" and "cr_channels (cs_registry s) < 2 ^ 64"
  shows "snd (close_for cid (cs_registry s)) = card (unsignalled s cid)"
proof -
  let ?m = "cr_inner (cs_registry s)" and ?key = "\<lambda>i. case cs_conns s ! i of Active _ k _ \<Rightarrow> k | _ \<Rightarrow> 0"
  let ?taken = "{k. \<exists>e. fmlookup ?m k = Some e \<and> ce_client_id e = cid}"
  have key: "act s i c k ch \<Longrightarrow> ?key i = k" for i c k ch by (simp add: act_def)
  have "inj_on ?key (unsignalled s cid)"
  proof (rule inj_onI)
    fix i j
    assume "i \<in> unsignalled s cid" "j \<in> unsignalled s cid" and k: "?key i = ?key j"
    then obtain a b ch ch' where a: "act s i cid a ch" "act s j cid b ch'" by (auto simp: unsignalled_def)
    then have "a = b" using k key [OF a(1)] key [OF a(2)] by simp
    then have "ch = ch'"
      using conn_invD(2) [OF assms(1) a(1)] conn_invD(2) [OF assms(1) a(2)] assms(2) of_nat_64_inj [of ch ch'] by simp
    then show "i = j" using conn_invD(6) [OF assms(1)] a by blast
  qed
  moreover have "?key ` unsignalled s cid = ?taken"
  proof (intro equalityI subsetI)
    fix k
    assume "k \<in> ?key ` unsignalled s cid"
    then obtain i a ch where "act s i cid a ch" "ch |\<notin>| cr_fired (cs_registry s)" "k = ?key i" by (auto simp: unsignalled_def)
    then show "k \<in> ?taken" using conn_invD(3) [OF assms(1)] key by fastforce
  next
    fix k
    assume "k \<in> ?taken"
    then obtain e where e: "fmlookup ?m k = Some e" "ce_client_id e = cid" by blast
    then obtain i where i: "act s i cid k (ce_closer e)" using conn_invD(5) [OF assms(1) e(1)] by blast
    then have "i \<in> unsignalled s cid" using conn_invD(4) [OF assms(1) e(1)] by (auto simp: unsignalled_def)
    then show "k \<in> ?key ` unsignalled s cid" using key [OF i] by force
  qed
  moreover have "fset (fmdom (fmfilter (\<lambda>i. case fmlookup ?m i of None \<Rightarrow> False | Some e \<Rightarrow> ce_client_id e = cid) ?m)) = ?taken"
    by (auto simp: fmlookup_dom_iff split: option.splits)
  ultimately show ?thesis by (simp add: close_for_def Let_def fcard.rep_eq card_image [symmetric] del: fmdom_filter)
qed

text \<open>
  C17: revocation is exact on registered connections. Under every interleaving of connections that
  come and go with revocations (before the 64-bit counter of connections wraps), \<open>close_for\<close> fires the
  signal of every connection registered for the client, changes that of no other client, and
  returns the number of connections it reached.
\<close>

theorem revocation_exact:
  assumes "conn_reachable n s" and "n < 2 ^ 64" and "close_for cid (cs_registry s) = (r, m)"
  shows "m = card (unsignalled s cid)
    \<and> (\<forall>i c k ch. act s i c k ch \<longrightarrow> (ch |\<in>| cr_fired r \<longleftrightarrow> c = cid \<or> ch |\<in>| cr_fired (cs_registry s)))"
proof -
  have inv: "conn_inv s" "cr_channels (cs_registry s) \<le> n" using conn_reachable_inv [OF assms(1,2)] by blast+
  have "cr_channels (cs_registry s) < 2 ^ 64" using inv(2) assms(2) by (rule order.strict_trans1)
  then have "m = card (unsignalled s cid)" using close_for_count [OF inv(1), of cid] assms(3) by simp
  moreover have "ch |\<in>| cr_fired r \<longleftrightarrow> c = cid \<or> ch |\<in>| cr_fired (cs_registry s)" if a: "act s i c k ch" for i c k ch
  proof -
    have "c = cid" if e: "fmlookup (cr_inner (cs_registry s)) k' = Some e" "ce_client_id e = cid" "ce_closer e = ch" for k' e
    proof -
      obtain j where "act s j cid k' ch" using conn_invD(5) [OF inv(1) e(1)] e(2,3) by blast
      then show ?thesis using conn_invD(6) [OF inv(1) a] a act_fun by metis
    qed
    moreover have "ch |\<in>| cr_fired (cs_registry s) \<or> (\<exists>k' e. fmlookup (cr_inner (cs_registry s)) k' = Some e \<and> ce_client_id e = cid \<and> ce_closer e = ch)"
      if "c = cid"
      using conn_invD(3) [OF inv(1) a] that by force
    ultimately show ?thesis using close_for_registry(2) [of ch cid "cs_registry s"] assms(3) by auto
  qed
  ultimately show ?thesis by blast
qed

text \<open>
  C38: revocation misses a connection between its authorisation and its registration. If the client was
  looked up before \<open>close_for\<close> and the connection registers after it, then it is active for the revoked
  client and its signal has not fired, so its frames go on being answered.
\<close>

theorem revocation_race:
  assumes "conn_reachable n s" and "n < 2 ^ 64" and "i < length (cs_conns s)" and "cs_conns s ! i = Authorised cid"
  shows "\<exists>s1 s2 k ch. conn_step s s1 \<and> cs_registry s1 = fst (close_for cid (cs_registry s)) \<and> conn_step s1 s2
    \<and> act s2 i cid k ch \<and> ch |\<notin>| cr_fired (cs_registry s2)"
proof -
  let ?s1 = "s\<lparr>cs_registry := fst (close_for cid (cs_registry s))\<rparr>"
  let ?s2 = "enter_registry i cid ?s1"
  have inv: "conn_inv s" "cr_channels (cs_registry s) \<le> n" using conn_reachable_inv [OF assms(1,2)] by blast+
  have b: "cr_channels (cs_registry ?s1) < 2 ^ 64" using order.strict_trans1 [OF inv(2) assms(2)] by (simp add: close_for_registry)
  have i: "i < length (cs_conns ?s1)" "cs_conns ?s1 ! i = Authorised cid" using assms(3,4) by simp_all
  have inv2: "conn_inv ?s2" by (rule conn_inv_register [OF conn_inv_close [OF inv(1)] b i])
  have a: "act ?s2 i cid (cr_next (cs_registry ?s1)) (cr_channels (cs_registry ?s1))"
    using assms(3) by (simp add: act_def enter_registry_def conn_register_def Let_def)
  have "fmlookup (cr_inner (cs_registry ?s2)) (cr_next (cs_registry ?s1)) = Some \<lparr>ce_client_id = cid, ce_closer = cr_channels (cs_registry ?s1)\<rparr>"
    by (simp add: enter_registry_def conn_register_def Let_def)
  from conn_invD(4) [OF inv2 this] have "cr_channels (cs_registry ?s1) |\<notin>| cr_fired (cs_registry ?s2)" by simp
  moreover have "conn_step ?s1 ?s2" by (rule conn_step.Register [OF i])
  ultimately show ?thesis using a conn_step.Close [of s cid] by (intro exI [of _ ?s1] exI [of _ ?s2]) auto
qed

section \<open>Runs\<close>

text \<open>A connection past its handshake, with plaintext to be read, over the library of the witnesses.\<close>

definition demo_stream :: "bytes \<Rightarrow> (io_error, nat) result list \<Rightarrow> bytes \<Rightarrow> (toy_ssl_state, toy_ssl_state) async_tls" where
  "demo_stream inp writes sent =
     \<lparr>at_tls = \<lparr>conn_ssl = toy_ssl_new\<lparr>toy_in := inp\<rparr>, conn_handshake_done = True, conn_expected_server_name = None,
        conn_context = \<lparr>ctx_inner = toy_ssl_new, ctx_is_client = False, ctx_requires_client_certificate = True\<rparr>\<rparr>,
      at_reads = [], at_writes = writes, at_sent = sent, at_flushed = 0, at_eof = False\<rparr>"

lemma bounded_toy: "bounded_reads toy_ssl"
  by (simp add: bounded_reads_def)

lemma demo_flush: "flush_tls_output toy_ssl (demo_stream inp ws sent) = Some (demo_stream inp ws sent, Ok ())"
  by (subst flush_tls_output.simps) (simp add: flush_pass_def pending_output_def consume_output_def demo_stream_def toy_ssl_new_def)

lemma demo_read:
  assumes "inp \<noteq> []" and "0 < n" and "n \<le> 4096"
  shows "read_some toy_ssl n (demo_stream inp ws sent) = Some (demo_stream (drop n inp) ws sent, Ok (take n inp))"
proof -
  have "tls_read toy_ssl n (at_tls (demo_stream inp ws sent)) = (at_tls (demo_stream (drop n inp) ws sent), Ok (take n inp))"
    using assms by (simp add: tls_read_def demo_stream_def toy_ssl_new_def c_int_len_def min_def)
  moreover have "(demo_stream inp ws sent)\<lparr>at_tls := at_tls (demo_stream (drop n inp) ws sent)\<rparr> = demo_stream (drop n inp) ws sent"
    by (simp add: demo_stream_def)
  ultimately show ?thesis using assms by (subst read_some.simps) (simp add: read_some_pass_def demo_flush)
qed

lemma demo_write_all:
  assumes "bs \<noteq> []" and "length bs \<le> 4096"
  shows "write_all toy_ssl bs (demo_stream inp (Ok 4096 # ws) sent) = Some (demo_stream inp ws (sent @ bs), Ok ())"
proof -
  let ?a = "demo_stream inp (Ok 4096 # ws) sent"
  let ?c = "(at_tls ?a)\<lparr>conn_ssl := toy_ssl_new\<lparr>toy_in := inp, toy_out := bs\<rparr>\<rparr>"
  let ?b = "?a\<lparr>at_tls := ?c\<rparr>"
  have w: "tls_write toy_ssl bs (at_tls ?a) = (?c, Ok (length bs))"
    using assms by (simp add: tls_write_def demo_stream_def toy_ssl_new_def c_int_len_def)
  have f1: "flush_pass toy_ssl ?b = Again (?b\<lparr>at_writes := ws, at_sent := sent @ bs, at_flushed := length bs\<rparr>)"
    using assms by (simp add: flush_pass_def pending_output_def demo_stream_def toy_ssl_new_def Let_def)
  have f2: "flush_pass toy_ssl (?b\<lparr>at_writes := ws, at_sent := sent @ bs, at_flushed := length bs\<rparr>) = Return (demo_stream inp ws (sent @ bs)) (Ok ())"
    by (simp add: flush_pass_def pending_output_def consume_output_def demo_stream_def toy_ssl_new_def Let_def)
  have fl: "flush_tls_output toy_ssl ?b = Some (demo_stream inp ws (sent @ bs), Ok ())"
    by (subst flush_tls_output.simps, subst f1) (simp add: flush_tls_output.simps f2)
  have "write_pass toy_ssl bs (?a, 0) = Again (demo_stream inp ws (sent @ bs), length bs)"
    using assms w fl by (simp add: write_pass_def)
  moreover have "write_pass toy_ssl bs (demo_stream inp ws (sent @ bs), length bs) = Return (demo_stream inp ws (sent @ bs), length bs) (Ok ())"
    by (simp add: write_pass_def)
  ultimately have "write_loop toy_ssl bs (?a, 0) = Some (demo_stream inp ws (sent @ bs), Ok ())"
    by (subst write_loop.simps) (simp add: write_loop.simps)
  then show ?thesis by (simp add: write_all_def demo_flush)
qed

lemma demo_read_frame:
  assumes "framed p" and "reading [] fr"
  shows "\<exists>fr'. reading [] fr' \<and> frame_read (co_read (tls_ops toy_ssl clock)) ck fr (demo_stream (p @ r) ws sent)
    = Some (fr', demo_stream r ws sent, Ok (Some p))"
proof -
  let ?rd = "co_read (tls_ops toy_ssl clock)" and ?h = "take 4 p"
  have p: "20 \<le> length p" "length p \<le> 4096" "unat (u16_from_be [p ! 2, p ! 3]) = length p" using assms(1) by (simp_all add: framed_def)
  have h: "length ?h = 4" "?h ! 2 = p ! 2" "?h ! 3 = p ! 3" "\<not> framed ?h" using p by (simp_all add: framed_def)
  have t: "fr_target fr = 4" "fr_filled fr = 0" using assms(2) by (auto simp: reading_def)
  have r1: "?rd (demo_stream (p @ r) ws sent) 4 dl = Some (demo_stream (drop 4 p @ r) ws sent, Ok ?h)" for dl
    using demo_read [of "p @ r" 4 ws sent] p by (cases p) (auto simp: tls_ops_sel)
  have r2: "?rd (demo_stream (drop 4 p @ r) ws sent) (length p - 4) dl = Some (demo_stream r ws sent, Ok (drop 4 p))" for dl
    using demo_read [of "drop 4 p @ r" "length p - 4" ws sent] p by (auto simp: tls_ops_sel)
  have "length ?h \<le> fr_target fr - length []" using t by simp
  from assms(2) this show ?thesis
  proof (cases rule: frame_take_reading [where now = "ck (demo_stream (drop 4 p @ r) ws sent)"])
    case (More fr1)
    have t1: "fr_target fr1 = length p" "fr_filled fr1 = 4" using More(3) h p by (auto simp: reading_def)
    have "length (drop 4 p) \<le> fr_target fr1 - length ([] @ ?h)" using t1 h by simp
    with More(3) have "\<exists>fr2. frame_take fr1 (ck (demo_stream r ws sent)) (drop 4 p) = Return fr2 (Ok (Some p)) \<and> reading [] fr2"
    proof (cases rule: frame_take_reading [of "[] @ ?h" fr1 "drop 4 p" "ck (demo_stream r ws sent)"])
      case (More fr2)
      then show ?thesis using reading_unfinished [OF More(3)] p by (auto simp: unfinished_def)
    qed (use p in \<open>auto simp: bad_length_def\<close>)
    then obtain fr2 where fr2: "frame_take fr1 (ck (demo_stream r ws sent)) (drop 4 p) = Return fr2 (Ok (Some p))" "reading [] fr2" by blast
    have "frame_read ?rd ck fr1 (demo_stream (drop 4 p @ r) ws sent) = Some (fr2, demo_stream r ws sent, Ok (Some p))"
      by (subst frame_read.simps) (simp add: t1 r2 fr2)
    then show ?thesis using fr2 by (subst frame_read.simps) (simp add: t r1 More)
  qed (use h p in \<open>auto simp: bad_length_def\<close>)
qed

definition demo_radsec_config :: radsec_config where
  "demo_radsec_config = \<lparr>rc_peer = SocketV4 1 2, rc_local = SocketV4 3 4, rc_client = demo_lenient, rc_handler = demo_accept,
     rc_role = Auth, rc_policy = StatusEnabled\<rparr>"

definition demo_tick :: tick where
  "demo_tick = \<lparr>tk_now = 0, tk_fired = False, tk_t1 = 1, tk_t2 = 2, tk_t3 = 3\<rparr>"

lemma demo_frame_admission:
  "frame_admission toy_crypto Auth demo_datagram demo_lenient =
     Ok (\<lparr>hdr_code = ACCESS_REQUEST, hdr_identifier = 7, hdr_length = 20, hdr_authenticator = replicate 16 9\<rparr>, [])"
  "frame_admission toy_crypto Auth demo_frame demo_lenient = Err (InvalidData ''code not allowed on listener role'')"
  by code_simp+

lemma demo_answers:
  "\<exists>cache' bs. answer toy_crypto (\<lambda>_. 3) demo_radsec_config demo_tick (dedup_new 30) demo_datagram = Answered cache' (Some bs)
     \<and> bs \<noteq> [] \<and> length bs \<le> 4096"
  "answer toy_crypto (\<lambda>_. 3) demo_radsec_config demo_tick cache demo_frame = Refused"
proof -
  let ?h = "\<lparr>hdr_code = ACCESS_REQUEST, hdr_identifier = 7, hdr_length = 20, hdr_authenticator = replicate 16 9\<rparr> :: header"
  let ?src = "SocketV4 1 2" and ?cfg = demo_radsec_config
  let ?st = "Some (radsec_status_context Auth StatusEnabled)"
  have cfg: "rc_role ?cfg = Auth" "rc_client ?cfg = demo_lenient" "rc_peer ?cfg = ?src" "rc_local ?cfg = SocketV4 3 4"
    "rc_handler ?cfg = demo_accept" "rc_policy ?cfg = StatusEnabled" by (simp_all add: demo_radsec_config_def)
  obtain r h where r: "reply_new ACCESS_ACCEPT 7 = Some r" "reply_shape r h [(80, replicate 16 0)]" using reply_new_shape by blast
  obtain pb where pb: "seal_for toy_crypto r (hdr_authenticator ?h) (client_secret demo_lenient) = Some pb" "wf_pb pb"
    using seal_for_sealed [OF wf_toy_crypto r(2)] by blast
  have ne: "as_bytes pb \<noteq> []" "length (as_bytes pb) \<le> 4096" using wf_pb_length [OF pb(2)] by auto
  have hd: "demo_accept (request_new (hdr_code ?h) (hdr_identifier ?h) (hdr_authenticator ?h) [] demo_lenient ?src (SocketV4 3 4)) = HReply r"
    using r(1) by (simp add: demo_accept_def request_reply_def request_new_def)
  have "dedup_map (\<lambda>_. 3) (dedup_new 30) (dedup_key_of ?src ?h) = None" by code_simp
  then obtain cache' where d: "dispatch_validated toy_crypto (\<lambda>_. 3) 1 2 3 ?h [] ?src (SocketV4 3 4) demo_lenient demo_accept (dedup_new 30) ?st =
      Some (cache', DReply pb (hdr_code ?h) (hdr_identifier ?h))"
    using dispatch_validated_handled [where C = toy_crypto and hash = "\<lambda>_. 3" and h = ?h and attrs = "[]" and peer = ?src
        and local = "SocketV4 3 4" and cl = demo_lenient and handle = demo_accept and cache = "dedup_new 30" and status = ?st
        and r = r and sealed = pb and ?t1.0 = 1 and ?t2.0 = 2 and ?t3.0 = 3] hd pb(1) dedup_ok_new [of 30]
    by fastforce
  have tk: "\<not> tk_fired demo_tick" "tk_t1 demo_tick = 1" "tk_t2 demo_tick = 2" "tk_t3 demo_tick = 3" by (simp_all add: demo_tick_def)
  have "answer toy_crypto (\<lambda>_. 3) ?cfg demo_tick (dedup_new 30) demo_datagram = Answered cache' (Some (as_bytes pb))"
    unfolding answer_def cfg tk demo_frame_admission result.case prod.case d by (simp add: dispatched_bytes_def)
  then show "\<exists>cache' bs. answer toy_crypto (\<lambda>_. 3) ?cfg demo_tick (dedup_new 30) demo_datagram = Answered cache' (Some bs)
     \<and> bs \<noteq> [] \<and> length bs \<le> 4096" using ne by blast
  show "answer toy_crypto (\<lambda>_. 3) ?cfg demo_tick cache demo_frame = Refused" by (simp add: answer_def cfg demo_frame_admission)
qed

text \<open>A run that answers a request, and ends at a frame that is not one.\<close>

lemma demo_run:
  "\<exists>s'. run_frame_loop (tls_ops toy_ssl (\<lambda>_. 0)) toy_crypto (\<lambda>_. 3) demo_radsec_config [demo_tick, demo_tick]
      (frame_loop_start 0 (demo_stream (demo_datagram @ demo_frame) [Ok 4096] []) (dedup_new 30)) = (s', Some (Ok ()))
    \<and> at_sent (fl_conn s') \<noteq> []"
proof -
  let ?ops = "tls_ops toy_ssl (\<lambda>_. 0)"
  let ?s = "frame_loop_start 0 (demo_stream (demo_datagram @ demo_frame) [Ok 4096] []) (dedup_new 30)"
  obtain cache' bs where bs: "answer toy_crypto (\<lambda>_. 3) demo_radsec_config demo_tick (dedup_new 30) demo_datagram = Answered cache' (Some bs)"
    "bs \<noteq> []" "length bs \<le> 4096" using demo_answers(1) by blast
  have framed: "framed demo_frame" "framed demo_datagram"
    by (simp_all add: framed_def demo_frame_def demo_datagram_def u16_from_be_def from_be_def)
  have ku: "key_update_due ?ops 0 s = s" if "fl_last_key_update s = 0" for s using that by (simp add: key_update_due_def TLS_KEY_UPDATE_INTERVAL_def)
  have tk: "\<not> tk_fired demo_tick" "tk_now demo_tick = 0" by (simp_all add: demo_tick_def)
  have s: "fl_frames ?s = frame_reader_new 0" "fl_conn ?s = demo_stream (demo_datagram @ demo_frame) [Ok 4096] []"
    "fl_cache ?s = dedup_new 30" "fl_last_key_update ?s = 0" by (simp_all add: frame_loop_start_def)
  obtain fr where fr: "reading [] fr" "frame_read (co_read ?ops) (co_clock ?ops) (frame_reader_new 0) (demo_stream (demo_datagram @ demo_frame) [Ok 4096] [])
      = Some (fr, demo_stream demo_frame [Ok 4096] [], Ok (Some demo_datagram))"
    using demo_read_frame [OF framed(2) reading_new] by blast
  let ?t = "?s\<lparr>fl_conn := demo_stream demo_frame [] bs, fl_frames := fr, fl_cache := cache'\<rparr>"
  have 1: "loop_pass ?ops toy_crypto (\<lambda>_. 3) demo_radsec_config demo_tick ?s = Again ?t"
    using fr(2) bs demo_write_all [OF bs(2,3), of demo_frame "[]" "[]"] s tk
    by (simp add: loop_pass_def ku process_frame_answer tls_ops_sel Let_def)
  obtain fr2 where fr2: "frame_read (co_read ?ops) (co_clock ?ops) fr (demo_stream (demo_frame @ []) [] bs) = Some (fr2, demo_stream [] [] bs, Ok (Some demo_frame))"
    using demo_read_frame [OF framed(1) fr(1)] by blast
  have 2: "loop_pass ?ops toy_crypto (\<lambda>_. 3) demo_radsec_config demo_tick ?t = Return (?t\<lparr>fl_conn := demo_stream [] [] bs, fl_frames := fr2\<rparr>) (Ok ())"
    using fr2 demo_answers(2) s tk by (simp add: loop_pass_def ku process_frame_answer tls_ops_sel Let_def)
  show ?thesis using bs(2) by (simp add: 1 2) (simp add: demo_stream_def)
qed

theorem radsec_frames_answered_witness:
  "\<exists>s' ps replies cache1 x y. run_frame_loop (tls_ops toy_ssl (\<lambda>_. 0)) toy_crypto (\<lambda>_. 3) demo_radsec_config [demo_tick, demo_tick]
      (frame_loop_start 0 (demo_stream (demo_datagram @ demo_frame) [Ok 4096] []) (dedup_new 30)) = (s', Some (Ok ()))
    \<and> at_sent (fl_conn s') \<noteq> []
    \<and> frame_answers toy_crypto (\<lambda>_. 3) demo_radsec_config [demo_tick, demo_tick] ps (dedup_new 30) = Some (cache1, replies)
    \<and> talked toy_ssl (at_tls (demo_stream (demo_datagram @ demo_frame) [Ok 4096] [])) (concat ps @ x) (concat replies @ y) (at_tls (fl_conn s'))"
proof -
  obtain s' where s': "run_frame_loop (tls_ops toy_ssl (\<lambda>_. 0)) toy_crypto (\<lambda>_. 3) demo_radsec_config [demo_tick, demo_tick]
      (frame_loop_start 0 (demo_stream (demo_datagram @ demo_frame) [Ok 4096] []) (dedup_new 30)) = (s', Some (Ok ()))" "at_sent (fl_conn s') \<noteq> []"
    using demo_run by blast
  from radsec_frames_answered [OF bounded_toy s'(1)] s' show ?thesis by blast
qed

definition demo_system :: conn_system where
  "demo_system = conn_system_new\<lparr>cs_conns := [Authorised 7]\<rparr>"

lemma demo_system_reachable: "conn_reachable 1 demo_system" "conn_reachable 2 (enter_registry 0 7 demo_system)"
proof -
  show 1: "conn_reachable 1 demo_system"
    using conn_reachable.Step [OF conn_reachable.Start conn_step.Authorise [of conn_system_new 7]] by (simp add: demo_system_def conn_system_new_def)
  have "conn_step demo_system (enter_registry 0 7 demo_system)" by (rule conn_step.Register) (simp_all add: demo_system_def)
  from conn_reachable.Step [OF 1 this] show "conn_reachable 2 (enter_registry 0 7 demo_system)" by (simp add: numeral_2_eq_2)
qed

theorem revocation_exact_witness:
  "\<exists>r m. close_for 7 (cs_registry (enter_registry 0 7 demo_system)) = (r, m)
    \<and> m = card (unsignalled (enter_registry 0 7 demo_system) 7) \<and> act (enter_registry 0 7 demo_system) 0 7 0 0 \<and> 0 |\<in>| cr_fired r"
proof -
  obtain r m where c: "close_for 7 (cs_registry (enter_registry 0 7 demo_system)) = (r, m)" by (cases "close_for 7 (cs_registry (enter_registry 0 7 demo_system))")
  have a: "act (enter_registry 0 7 demo_system) 0 7 0 0"
    by (simp add: act_def enter_registry_def conn_register_def demo_system_def conn_system_new_def conn_registry_default_def Let_def)
  show ?thesis using revocation_exact [OF demo_system_reachable(2) _ c] c a by auto
qed

theorem revocation_race_witness:
  "\<exists>s1 s2 k ch. conn_step demo_system s1 \<and> cs_registry s1 = fst (close_for 7 (cs_registry demo_system)) \<and> conn_step s1 s2
    \<and> act s2 0 7 k ch \<and> ch |\<notin>| cr_fired (cs_registry s2)"
  by (rule revocation_race [OF demo_system_reachable(1)]) (simp_all add: demo_system_def)

end
