(* ===== verification/Exchange.thy ===== *)
theory Exchange
  imports Client_Request Net
begin

text \<open>
  \<^verbatim>\<open>src/exchange.rs\<close>: the registry that pairs outgoing requests with their responses. The state is
  the content of the registry's mutex together with the one-shot channels it hands out (a channel
  is named by its index); every method runs under the lock, so a run of the system is a sequence
  of steps. The lemmas show that identifiers are never shared by two requests in flight, that
  every request is answered at most once and only by a verified response, and that closing
  the registry ends every wait.
\<close>

section \<open>Configuration and errors\<close>

record client_config =
  initial_timeout :: duration
  max_retries :: u8
  backoff_multiplier :: u32
  max_in_flight_per_target :: nat
  connect_timeout :: duration

text \<open>Durations are in nanoseconds.\<close>

definition default_client_config :: client_config where
  "default_client_config =
     \<lparr>initial_timeout = 1000000000, max_retries = 2, backoff_multiplier = 2,
      max_in_flight_per_target = 16, connect_timeout = 30 * 1000000000\<rparr>"

datatype client_error = Io string | Codec codec_error | Timeout | InFlightLimit | IdentifierExhausted | Closed

section \<open>State\<close>

text \<open>A one-shot channel: whether the receiver is still there, and what was sent.\<close>

record channel =
  rx_alive :: bool
  sent :: "(client_error, response) result option"

record pending =
  pend_sender :: "nat option"
  pend_code :: code
  pend_authenticator :: bytes
  pend_secret :: bytes

record peer =
  next_identifier :: u8
  pending_map :: "(u8, pending) fmap"

record registry =
  peers :: "(socket_addr, peer) fmap"
  closed :: bool
  channels :: "channel list"

record lease =
  lease_peer :: socket_addr
  lease_identifier :: u8

record registration =
  reg_lease :: lease
  reg_receiver :: nat
  reg_packet :: packet_buffer

definition empty_peer :: peer where
  "empty_peer = \<lparr>next_identifier = 0, pending_map = fmempty\<rparr>"

definition registry_default :: registry where
  "registry_default = \<lparr>peers = fmempty, closed = False, channels = []\<rparr>"

section \<open>Operations\<close>

definition send :: "registry \<Rightarrow> nat \<Rightarrow> (client_error, response) result \<Rightarrow> registry" where
  "send s ch msg =
     (if rx_alive (channels s ! ch)
      then s\<lparr>channels := (channels s)[ch := (channels s ! ch)\<lparr>sent := Some msg\<rparr>]\<rparr>
      else s)"

text \<open>\<open>(0..=u8::MAX).map(|offset| next.wrapping_add(offset)).find(...)\<close>\<close>

definition free_identifier :: "peer \<Rightarrow> u8 option" where
  "free_identifier target =
     find (\<lambda>identifier. fmlookup (pending_map target) identifier = None)
       (map (\<lambda>offset. next_identifier target + of_nat offset) [0..<256])"

text \<open>The outer \<open>None\<close> is the panic of \<open>packet.header()\<close>.\<close>

definition register ::
    "registry \<Rightarrow> socket_addr \<Rightarrow> bytes \<Rightarrow> nat \<Rightarrow> (u8 \<Rightarrow> (codec_error, packet_buffer) result)
      \<Rightarrow> (registry \<times> (client_error, registration) result) option" where
  "register s peer secret limit build =
     (if closed s then Some (s, Err Closed)
      else
        let target = (case fmlookup (peers s) peer of Some t \<Rightarrow> t | None \<Rightarrow> empty_peer);
            s = s\<lparr>peers := fmupd peer target (peers s)\<rparr>
        in if fmlen (pending_map target) \<ge> limit then Some (s, Err InFlightLimit)
           else case free_identifier target of
             None \<Rightarrow> Some (s, Err IdentifierExhausted)
           | Some identifier \<Rightarrow>
               (case build identifier of
                  Err e \<Rightarrow> Some (s, Err (Codec e))
                | Ok packet \<Rightarrow>
                    (case pb_header packet of
                       None \<Rightarrow> None
                     | Some h \<Rightarrow>
                         let ch = length (channels s);
                             p = \<lparr>pend_sender = Some ch, pend_code = hdr_code h,
                                  pend_authenticator = hdr_authenticator h, pend_secret = secret\<rparr>;
                             target = target\<lparr>next_identifier := identifier + 1,
                                             pending_map := fmupd identifier p (pending_map target)\<rparr>
                         in Some
                           (s\<lparr>peers := fmupd peer target (peers s),
                              channels := channels s @ [\<lparr>rx_alive = True, sent = None\<rparr>]\<rparr>,
                            Ok \<lparr>reg_lease = \<lparr>lease_peer = peer, lease_identifier = identifier\<rparr>,
                                reg_receiver = ch, reg_packet = packet\<rparr>))))"

definition get_pending :: "registry \<Rightarrow> socket_addr \<Rightarrow> u8 \<Rightarrow> pending option" where
  "get_pending s peer identifier =
     Option.bind (fmlookup (peers s) peer) (\<lambda>target. fmlookup (pending_map target) identifier)"

definition set_pending :: "registry \<Rightarrow> socket_addr \<Rightarrow> u8 \<Rightarrow> pending \<Rightarrow> registry" where
  "set_pending s peer identifier p =
     (case fmlookup (peers s) peer of
        None \<Rightarrow> s
      | Some target \<Rightarrow>
          s\<lparr>peers := fmupd peer (target\<lparr>pending_map := fmupd identifier p (pending_map target)\<rparr>) (peers s)\<rparr>)"

definition deliver :: "crypto \<Rightarrow> registry \<Rightarrow> socket_addr \<Rightarrow> bytes \<Rightarrow> registry \<times> bool" where
  "deliver C s peer packet =
     (case header_parse packet of
        Err _ \<Rightarrow> (s, False)
      | Ok (h, _) \<Rightarrow>
          (case get_pending s peer (hdr_identifier h) of
             None \<Rightarrow> (s, False)
           | Some p \<Rightarrow>
               (case pend_sender p of
                  None \<Rightarrow> (s, False)
                | Some ch \<Rightarrow>
                    (case response_verify C packet (pend_code p) (hdr_identifier h)
                            (pend_authenticator p) (pend_secret p) of
                       None \<Rightarrow> (s, False)
                     | Some response \<Rightarrow>
                         (send (set_pending s peer (hdr_identifier h) (p\<lparr>pend_sender := None\<rparr>)) ch (Ok response),
                          True)))))"

text \<open>
  The two nested \<open>values_mut\<close> loops of \<open>close\<close> visit every pending request once; the maps are
  walked in key order here, and since every channel has one sender the order does not matter.
\<close>

definition sender_list :: "registry \<Rightarrow> nat list" where
  "sender_list s =
     concat (map (\<lambda>(_, target). List.map_filter (\<lambda>(_, p). pend_sender p) (sorted_list_of_fmap (pending_map target)))
       (sorted_list_of_fmap (peers s)))"

definition take_senders :: "peer \<Rightarrow> peer" where
  "take_senders target = target\<lparr>pending_map := fmmap (\<lambda>p. p\<lparr>pend_sender := None\<rparr>) (pending_map target)\<rparr>"

definition close :: "registry \<Rightarrow> registry" where
  "close s =
     (let s = s\<lparr>closed := True\<rparr>;
          s' = foldl (\<lambda>s ch. send s ch (Err Closed)) s (sender_list s)
      in s'\<lparr>peers := fmmap take_senders (peers s)\<rparr>)"

definition is_active :: "registry \<Rightarrow> lease \<Rightarrow> bool" where
  "is_active s l =
     (case Option.bind (get_pending s (lease_peer l) (lease_identifier l)) pend_sender of
        None \<Rightarrow> False
      | Some ch \<Rightarrow> rx_alive (channels s ! ch))"

definition drop_lease :: "registry \<Rightarrow> lease \<Rightarrow> registry" where
  "drop_lease s l =
     (case fmlookup (peers s) (lease_peer l) of
        None \<Rightarrow> s
      | Some target \<Rightarrow>
          s\<lparr>peers := fmupd (lease_peer l)
             (target\<lparr>pending_map := fmdrop (lease_identifier l) (pending_map target)\<rparr>) (peers s)\<rparr>)"

text \<open>The caller drops its receiver.\<close>

definition drop_receiver :: "registry \<Rightarrow> nat \<Rightarrow> registry" where
  "drop_receiver s ch = s\<lparr>channels := (channels s)[ch := (channels s ! ch)\<lparr>rx_alive := False\<rparr>]\<rparr>"

section \<open>How the operations act on the pending requests\<close>

lemma get_pending_channels [simp]:
  "get_pending (s\<lparr>channels := cs\<rparr>) = get_pending s" "get_pending (s\<lparr>closed := b\<rparr>) = get_pending s"
  by (simp_all add: fun_eq_iff get_pending_def)

lemma send_fields [simp]:
  "peers (send s ch m) = peers s" "closed (send s ch m) = closed s"
  "get_pending (send s ch m) = get_pending s" "length (channels (send s ch m)) = length (channels s)"
  by (simp_all add: send_def)

lemma channels_send:
  "ch < length (channels s) \<Longrightarrow> channels (send s ch m) ! k =
     (if k = ch \<and> rx_alive (channels s ! ch) then (channels s ! ch)\<lparr>sent := Some m\<rparr> else channels s ! k)"
  by (simp add: send_def nth_list_update)

lemma get_pending_set_pending:
  assumes "get_pending s peer i \<noteq> None"
  shows "get_pending (set_pending s peer i p) peer' i' =
    (if peer' = peer \<and> i' = i then Some p else get_pending s peer' i')"
  using assms by (auto simp: set_pending_def get_pending_def split: option.splits)

lemma set_pending_fields [simp]:
  "closed (set_pending s peer i p) = closed s" "channels (set_pending s peer i p) = channels s"
  by (simp_all add: set_pending_def split: option.splits)

lemma get_pending_drop_lease:
  "get_pending (drop_lease s l) peer i =
     (if peer = lease_peer l \<and> i = lease_identifier l then None else get_pending s peer i)"
  by (auto simp: drop_lease_def get_pending_def split: option.splits)

lemma drop_lease_fields [simp]: "closed (drop_lease s l) = closed s" "channels (drop_lease s l) = channels s"
  by (simp_all add: drop_lease_def split: option.splits)

lemma drop_receiver_fields [simp]:
  "closed (drop_receiver s ch) = closed s" "get_pending (drop_receiver s ch) = get_pending s"
  "length (channels (drop_receiver s ch)) = length (channels s)"
  by (simp_all add: drop_receiver_def)

lemma get_pending_close: "get_pending (close s) peer i = map_option (\<lambda>p. p\<lparr>pend_sender := None\<rparr>) (get_pending s peer i)"
proof -
  have "get_pending (s'\<lparr>peers := fmmap take_senders (peers s)\<rparr>) peer i =
      map_option (\<lambda>p. p\<lparr>pend_sender := None\<rparr>) (get_pending s peer i)" for s' :: registry
    by (cases "fmlookup (peers s) peer") (simp_all add: get_pending_def take_senders_def)
  then show ?thesis by (simp add: close_def Let_def)
qed

lemma foldl_send_fields [simp]:
  "closed (foldl (\<lambda>s ch. send s ch m) s chs) = closed s"
  "length (channels (foldl (\<lambda>s ch. send s ch m) s chs)) = length (channels s)"
  by (induction chs arbitrary: s) simp_all

lemma channels_foldl_send:
  assumes "\<forall>ch\<in>set chs. ch < length (channels s)"
  shows "channels (foldl (\<lambda>s ch. send s ch m) s chs) ! k =
    (if k \<in> set chs \<and> rx_alive (channels s ! k) then (channels s ! k)\<lparr>sent := Some m\<rparr> else channels s ! k)"
  using assms
proof (induction chs arbitrary: s)
  case (Cons ch chs)
  then have "ch < length (channels s)" by simp
  then show ?case using Cons by (auto simp: channels_send)
qed simp

lemma map_filter_set: "set (List.map_filter f xs) = {y. \<exists>x\<in>set xs. f x = Some y}"
  by (induction xs) (auto simp: List.map_filter_simps split: option.splits)

lemma set_sorted_list_of_fmap: "(k, v) \<in> set (sorted_list_of_fmap m) \<longleftrightarrow> fmlookup m k = Some v"
  by (auto simp: sorted_list_of_fmap_def fmlookup_dom_iff)

lemma set_sender_list:
  "ch \<in> set (sender_list s) \<longleftrightarrow> (\<exists>peer i p. get_pending s peer i = Some p \<and> pend_sender p = Some ch)"
  unfolding sender_list_def get_pending_def bind_eq_Some_conv
  by (fastforce simp: map_filter_set set_sorted_list_of_fmap split: prod.splits)

lemma channels_close:
  assumes "\<And>peer i p ch. get_pending s peer i = Some p \<Longrightarrow> pend_sender p = Some ch \<Longrightarrow> ch < length (channels s)"
  shows "channels (close s) ! k =
    (if (\<exists>peer i p. get_pending s peer i = Some p \<and> pend_sender p = Some k) \<and> rx_alive (channels s ! k)
     then (channels s ! k)\<lparr>sent := Some (Err Closed)\<rparr> else channels s ! k)"
    and "length (channels (close s)) = length (channels s)" and "closed (close s)"
proof -
  let ?s = "s\<lparr>closed := True\<rparr>"
  have "\<forall>ch\<in>set (sender_list ?s). ch < length (channels ?s)"
    using assms by (auto simp: set_sender_list)
  from channels_foldl_send [OF this, of "Err Closed" k]
  show "channels (close s) ! k = (if (\<exists>peer i p. get_pending s peer i = Some p \<and> pend_sender p = Some k)
      \<and> rx_alive (channels s ! k) then (channels s ! k)\<lparr>sent := Some (Err Closed)\<rparr> else channels s ! k)"
    by (auto simp: close_def Let_def set_sender_list)
qed (simp_all add: close_def Let_def)

lemma register_Ok:
  assumes "register s peer secret limit build = Some (s', Ok reg)"
    and "target = (case fmlookup (peers s) peer of Some t \<Rightarrow> t | None \<Rightarrow> empty_peer)"
  shows "\<exists>i h. \<not> closed s \<and> closed s' = closed s \<and> fmlen (pending_map target) < limit
    \<and> free_identifier target = Some i \<and> build i = Ok (reg_packet reg) \<and> pb_header (reg_packet reg) = Some h
    \<and> reg_lease reg = \<lparr>lease_peer = peer, lease_identifier = i\<rparr> \<and> reg_receiver reg = length (channels s)
    \<and> channels s' = channels s @ [\<lparr>rx_alive = True, sent = None\<rparr>]
    \<and> fmlookup (peers s') peer = Some (target\<lparr>next_identifier := i + 1,
        pending_map := fmupd i \<lparr>pend_sender = Some (length (channels s)), pend_code = hdr_code h,
          pend_authenticator = hdr_authenticator h, pend_secret = secret\<rparr> (pending_map target)\<rparr>)
    \<and> (\<forall>q. q \<noteq> peer \<longrightarrow> fmlookup (peers s') q = fmlookup (peers s) q)"
  using assms
  by (auto simp: register_def Let_def not_le split: if_splits option.splits result.splits)

lemma register_Err_pending:
  assumes "register s peer secret limit build = Some (s', Err e)"
  shows "get_pending s' = get_pending s" and "channels s' = channels s" and "closed s' = closed s"
  using assms
  by (auto simp: register_def Let_def get_pending_def empty_peer_def fun_eq_iff
      split: if_splits option.splits result.splits)

lemma free_identifier_free: "free_identifier target = Some i \<Longrightarrow> fmlookup (pending_map target) i = None"
  by (auto simp: free_identifier_def find_Some_iff)

lemma register_Ok_pending:
  assumes "register s peer secret limit build = Some (s', Ok reg)"
  shows "\<exists>i p. reg_lease reg = \<lparr>lease_peer = peer, lease_identifier = i\<rparr> \<and> pend_sender p = Some (length (channels s))
    \<and> get_pending s peer i = None \<and> get_pending s' = (get_pending s)(peer := (get_pending s peer)(i := Some p))
    \<and> channels s' = channels s @ [\<lparr>rx_alive = True, sent = None\<rparr>] \<and> \<not> closed s \<and> \<not> closed s'"
proof -
  define t where "t = (case fmlookup (peers s) peer of Some t \<Rightarrow> t | None \<Rightarrow> empty_peer)"
  have look: "fmlookup (pending_map t) j = get_pending s peer j" for j
    by (simp add: t_def get_pending_def empty_peer_def split: option.splits)
  obtain i and h :: header where r: "\<not> closed s" "closed s' = closed s" "free_identifier t = Some i"
    "reg_lease reg = \<lparr>lease_peer = peer, lease_identifier = i\<rparr>"
    "channels s' = channels s @ [\<lparr>rx_alive = True, sent = None\<rparr>]"
    "fmlookup (peers s') peer = Some (t\<lparr>next_identifier := i + 1,
        pending_map := fmupd i \<lparr>pend_sender = Some (length (channels s)), pend_code = hdr_code h,
          pend_authenticator = hdr_authenticator h, pend_secret = secret\<rparr> (pending_map t)\<rparr>)"
    "\<forall>q. q \<noteq> peer \<longrightarrow> fmlookup (peers s') q = fmlookup (peers s) q"
    using register_Ok [OF assms t_def] by blast
  let ?p = "\<lparr>pend_sender = Some (length (channels s)), pend_code = hdr_code h,
    pend_authenticator = hdr_authenticator h, pend_secret = secret\<rparr>"
  have "get_pending s' = (get_pending s)(peer := (get_pending s peer)(i := Some ?p))"
    using r(6,7) look by (auto simp: fun_eq_iff get_pending_def [of s'] get_pending_def [of s])
  moreover have "get_pending s peer i = None" using free_identifier_free [OF r(3)] look by simp
  ultimately show ?thesis using r(1,2,4,5) by (intro exI [of _ i] exI [of _ ?p]) simp
qed

lemma deliver_cases:
  "deliver C s peer packet = (s, False) \<or>
   (\<exists>i p ch response. get_pending s peer i = Some p \<and> pend_sender p = Some ch
      \<and> response_verify C packet (pend_code p) i (pend_authenticator p) (pend_secret p) = Some response
      \<and> deliver C s peer packet = (send (set_pending s peer i (p\<lparr>pend_sender := None\<rparr>)) ch (Ok response), True))"
  by (auto simp: deliver_def split: result.splits option.splits)

section \<open>Runs\<close>

text \<open>The registry together with the leases that are alive.\<close>

type_synonym ex_state = "registry \<times> lease list"

inductive ex_step :: "crypto \<Rightarrow> ex_state \<Rightarrow> ex_state \<Rightarrow> bool" for C where
  Register: "register s peer secret limit build = Some (s', Ok reg) \<Longrightarrow> ex_step C (s, ls) (s', reg_lease reg # ls)"
| RegisterError: "register s peer secret limit build = Some (s', Err e) \<Longrightarrow> ex_step C (s, ls) (s', ls)"
| Deliver: "deliver C s peer packet = (s', b) \<Longrightarrow> ex_step C (s, ls) (s', ls)"
| Close: "ex_step C (s, ls) (close s, ls)"
| DropLease: "l \<in> set ls \<Longrightarrow> ex_step C (s, ls) (drop_lease s l, remove1 l ls)"
| DropReceiver: "ch < length (channels s) \<Longrightarrow> ex_step C (s, ls) (drop_receiver s ch, ls)"

inductive ex_reachable :: "crypto \<Rightarrow> ex_state \<Rightarrow> bool" for C where
  Init: "ex_reachable C (registry_default, [])"
| Step: "ex_reachable C st \<Longrightarrow> ex_step C st st' \<Longrightarrow> ex_reachable C st'"

definition ex_inv :: "ex_state \<Rightarrow> bool" where
  "ex_inv st \<longleftrightarrow>
     (case st of (s, ls) \<Rightarrow>
       distinct ls
       \<and> (\<forall>peer i. \<lparr>lease_peer = peer, lease_identifier = i\<rparr> \<in> set ls \<longleftrightarrow> get_pending s peer i \<noteq> None)
       \<and> (\<forall>peer i p ch. get_pending s peer i = Some p \<and> pend_sender p = Some ch \<longrightarrow>
            ch < length (channels s) \<and> sent (channels s ! ch) = None \<and> \<not> closed s)
       \<and> (\<forall>peer i p peer' i' p' ch. get_pending s peer i = Some p \<and> get_pending s peer' i' = Some p'
            \<and> pend_sender p = Some ch \<and> pend_sender p' = Some ch \<longrightarrow> peer = peer' \<and> i = i'))"

lemma ex_invI:
  assumes "distinct ls"
    and "\<And>peer i. \<lparr>lease_peer = peer, lease_identifier = i\<rparr> \<in> set ls \<longleftrightarrow> get_pending s peer i \<noteq> None"
    and "\<And>peer i p ch. get_pending s peer i = Some p \<Longrightarrow> pend_sender p = Some ch \<Longrightarrow>
           ch < length (channels s) \<and> sent (channels s ! ch) = None \<and> \<not> closed s"
    and "\<And>peer i p peer' i' p' ch. get_pending s peer i = Some p \<Longrightarrow> get_pending s peer' i' = Some p' \<Longrightarrow>
           pend_sender p = Some ch \<Longrightarrow> pend_sender p' = Some ch \<Longrightarrow> peer = peer' \<and> i = i'"
  shows "ex_inv (s, ls)"
  unfolding ex_inv_def prod.case using assms by blast

lemma ex_invD:
  assumes "ex_inv (s, ls)"
  shows "distinct ls"
    and "\<lparr>lease_peer = peer, lease_identifier = i\<rparr> \<in> set ls \<longleftrightarrow> get_pending s peer i \<noteq> None"
    and "get_pending s peer i = Some p \<Longrightarrow> pend_sender p = Some ch \<Longrightarrow>
           ch < length (channels s) \<and> sent (channels s ! ch) = None \<and> \<not> closed s"
    and "get_pending s peer i = Some p \<Longrightarrow> get_pending s peer' i' = Some p' \<Longrightarrow>
           pend_sender p = Some ch \<Longrightarrow> pend_sender p' = Some ch \<Longrightarrow> peer = peer' \<and> i = i'"
  using assms unfolding ex_inv_def prod.case by blast+

lemma ex_inv_register:
  assumes "ex_inv (s, ls)" and "register s peer secret limit build = Some (s', Ok reg)"
  shows "ex_inv (s', reg_lease reg # ls)"
proof -
  note I = ex_invD [OF assms(1)]
  obtain i p where r: "reg_lease reg = \<lparr>lease_peer = peer, lease_identifier = i\<rparr>"
    "pend_sender p = Some (length (channels s))" "get_pending s peer i = None"
    "get_pending s' = (get_pending s)(peer := (get_pending s peer)(i := Some p))"
    "channels s' = channels s @ [\<lparr>rx_alive = True, sent = None\<rparr>]" "\<not> closed s'"
    using register_Ok_pending [OF assms(2)] by blast
  show ?thesis
  proof (rule ex_invI)
    show "distinct (reg_lease reg # ls)" using I(1) I(2) [of peer i] r(1,3) by simp
  next
    fix q j
    show "\<lparr>lease_peer = q, lease_identifier = j\<rparr> \<in> set (reg_lease reg # ls) \<longleftrightarrow> get_pending s' q j \<noteq> None"
      using I(2) [of q j] r(1,4) by auto
  next
    fix q j a ch
    assume "get_pending s' q j = Some a" "pend_sender a = Some ch"
    then show "ch < length (channels s') \<and> sent (channels s' ! ch) = None \<and> \<not> closed s'"
      using I(3) [of q j a ch] r(2,4-6) by (auto simp: nth_append split: if_splits)
  next
    fix q j a q' j' a' ch
    assume "get_pending s' q j = Some a" "get_pending s' q' j' = Some a'"
      "pend_sender a = Some ch" "pend_sender a' = Some ch"
    then show "q = q' \<and> j = j'"
      using I(3) [of q j a ch] I(3) [of q' j' a' ch] I(4) [of q j a q' j' a' ch] r(2,4)
      by (auto split: if_splits)
  qed
qed

lemma ex_inv_deliver:
  assumes "ex_inv (s, ls)" and "deliver C s peer packet = (s', b)"
  shows "ex_inv (s', ls)"
proof (cases "s' = s")
  case False
  note I = ex_invD [OF assms(1)]
  obtain i p ch resp where d: "get_pending s peer i = Some p" "pend_sender p = Some ch"
    "s' = send (set_pending s peer i (p\<lparr>pend_sender := None\<rparr>)) ch (Ok resp)"
    using deliver_cases [of C s peer packet] assms(2) False by auto
  have ch: "ch < length (channels s)" using I(3) [OF d(1,2)] by simp
  have g: "get_pending s' q j = (if q = peer \<and> j = i then Some (p\<lparr>pend_sender := None\<rparr>) else get_pending s q j)" for q j
    using get_pending_set_pending [of s peer i] d(1,3) by simp
  have c: "sent (channels s' ! k) = sent (channels s ! k)" if "k \<noteq> ch" for k
    using that ch d(3) by (simp add: channels_send)
  show ?thesis
  proof (rule ex_invI)
    fix q j a k
    assume a: "get_pending s' q j = Some a" "pend_sender a = Some k"
    then have a': "get_pending s q j = Some a" "\<not> (q = peer \<and> j = i)" by (auto simp: g split: if_splits)
    then have "k \<noteq> ch" using I(4) [OF a'(1) d(1) a(2)] d(2) by auto
    then show "k < length (channels s') \<and> sent (channels s' ! k) = None \<and> \<not> closed s'"
      using I(3) [OF a'(1) a(2)] c d(3) by simp
  qed (use I(1,2,4) d(1) in \<open>auto simp: g split: if_splits\<close>)
qed (use assms in simp)

lemma ex_inv_close:
  assumes "ex_inv (s, ls)"
  shows "ex_inv (close s, ls)"
  by (rule ex_invI) (use ex_invD(1,2) [OF assms] in \<open>auto simp: get_pending_close\<close>)

lemma ex_inv_drop_lease:
  assumes "ex_inv (s, ls)" and "l \<in> set ls"
  shows "ex_inv (drop_lease s l, remove1 l ls)"
proof -
  note I = ex_invD [OF assms(1)]
  show ?thesis
  proof (rule ex_invI)
    show "distinct (remove1 l ls)" using I(1) by simp
  next
    fix q j
    show "\<lparr>lease_peer = q, lease_identifier = j\<rparr> \<in> set (remove1 l ls) \<longleftrightarrow> get_pending (drop_lease s l) q j \<noteq> None"
      using I(1) I(2) [of q j] by (cases l) (auto simp: get_pending_drop_lease)
  qed (use I(3,4) in \<open>auto simp: get_pending_drop_lease split: if_splits\<close>)
qed

lemma ex_inv_drop_receiver:
  assumes "ex_inv (s, ls)" and "ch < length (channels s)"
  shows "ex_inv (drop_receiver s ch, ls)"
proof -
  note I = ex_invD [OF assms(1)]
  have "sent (channels (drop_receiver s ch) ! k) = sent (channels s ! k)" for k
    using assms(2) by (simp add: drop_receiver_def nth_list_update)
  then show ?thesis by (intro ex_invI) (use I in auto)
qed

lemma ex_inv_step: "ex_step C st st' \<Longrightarrow> ex_inv st \<Longrightarrow> ex_inv st'"
proof (induction rule: ex_step.induct)
  case (RegisterError s peer secret limit build s' e ls)
  then show ?case using register_Err_pending [OF RegisterError.hyps] by (simp add: ex_inv_def)
qed (rule ex_inv_register ex_inv_deliver ex_inv_close ex_inv_drop_lease ex_inv_drop_receiver; assumption)+

lemma ex_inv_reachable: "ex_reachable C st \<Longrightarrow> ex_inv st"
proof (induction rule: ex_reachable.induct)
  case Init
  show ?case by (simp add: ex_inv_def registry_default_def get_pending_def)
qed (rule ex_inv_step)

section \<open>Identifier allocation\<close>

lemma identifiers_from: "set (map (\<lambda>offset. next + of_nat offset) [0..<256]) = (UNIV :: u8 set)"
proof -
  have "x \<in> (\<lambda>offset. next + of_nat offset) ` {0..<256}" for x :: u8
  proof
    show "x = next + of_nat (unat (x - next))" by simp
    show "unat (x - next) \<in> {0..<256}" using unsigned_less [of "x - next", where ?'a = nat] by simp
  qed
  then show ?thesis by (auto simp: image_iff)
qed

lemma card_u8: "card (UNIV :: u8 set) = 256"
  by (simp add: card_word)

lemma free_identifier_None_iff: "free_identifier target = None \<longleftrightarrow> fmlen (pending_map target) = 256"
proof -
  have "free_identifier target = None \<longleftrightarrow> (\<forall>i. fmlookup (pending_map target) i \<noteq> None)"
    unfolding free_identifier_def find_None_iff identifiers_from by simp
  also have "\<dots> \<longleftrightarrow> fset (fmdom (pending_map target)) = UNIV"
    by (auto simp: fmlookup_dom_iff set_eq_iff)
  also have "\<dots> \<longleftrightarrow> card (fset (fmdom (pending_map target))) = card (UNIV :: u8 set)"
    using card_subset_eq [of "UNIV :: u8 set" "fset (fmdom (pending_map target))"] by auto
  finally show ?thesis by (simp add: card_u8 fcard.rep_eq)
qed

lemma free_identifier_first:
  assumes "free_identifier target = Some i"
  shows "\<exists>k<256. i = next_identifier target + of_nat k \<and> fmlookup (pending_map target) i = None
    \<and> (\<forall>j<k. fmlookup (pending_map target) (next_identifier target + of_nat j) \<noteq> None)"
proof -
  have n: "map (\<lambda>offset. next_identifier target + of_nat offset) [0..<256] ! j = next_identifier target + of_nat j"
    if "j < 256" for j using that by (simp del: upt.simps)
  obtain k where k: "k < 256" "fmlookup (pending_map target) (map (\<lambda>offset. next_identifier target + of_nat offset) [0..<256] ! k) = None"
    "i = map (\<lambda>offset. next_identifier target + of_nat offset) [0..<256] ! k"
    "\<forall>j<k. fmlookup (pending_map target) (map (\<lambda>offset. next_identifier target + of_nat offset) [0..<256] ! j) \<noteq> None"
    using assms unfolding free_identifier_def find_Some_iff by auto
  then show ?thesis using n by (intro exI [of _ k]) auto
qed

definition target_of :: "registry \<Rightarrow> socket_addr \<Rightarrow> peer" where
  "target_of s peer = (case fmlookup (peers s) peer of Some t \<Rightarrow> t | None \<Rightarrow> empty_peer)"

text \<open>
  A successful \<open>register\<close> takes the first identifier, counting up from \<open>next_identifier\<close> with
  wrap-around at 256, that no request to the peer holds; it stays within the in-flight limit,
  records the code and authenticator of the packet that was built for that identifier, and the
  search of the next request starts behind it.
\<close>

theorem register_allocates:
  assumes "register s peer secret limit build = Some (s', Ok reg)"
  shows "\<exists>k<256. \<exists>i h. i = next_identifier (target_of s peer) + of_nat k
    \<and> reg_lease reg = \<lparr>lease_peer = peer, lease_identifier = i\<rparr>
    \<and> get_pending s peer i = None
    \<and> (\<forall>j<k. get_pending s peer (next_identifier (target_of s peer) + of_nat j) \<noteq> None)
    \<and> build i = Ok (reg_packet reg) \<and> pb_header (reg_packet reg) = Some h
    \<and> get_pending s' peer i = Some \<lparr>pend_sender = Some (reg_receiver reg), pend_code = hdr_code h,
         pend_authenticator = hdr_authenticator h, pend_secret = secret\<rparr>
    \<and> next_identifier (target_of s' peer) = i + 1
    \<and> fmlen (pending_map (target_of s' peer)) \<le> limit"
proof -
  have look: "fmlookup (pending_map (target_of s peer)) j = get_pending s peer j" for j
    by (simp add: target_of_def get_pending_def empty_peer_def split: option.splits)
  obtain i h where r: "fmlen (pending_map (target_of s peer)) < limit" "free_identifier (target_of s peer) = Some i"
    "build i = Ok (reg_packet reg)" "pb_header (reg_packet reg) = Some h"
    "reg_lease reg = \<lparr>lease_peer = peer, lease_identifier = i\<rparr>" "reg_receiver reg = length (channels s)"
    "fmlookup (peers s') peer = Some ((target_of s peer)\<lparr>next_identifier := i + 1,
        pending_map := fmupd i \<lparr>pend_sender = Some (length (channels s)), pend_code = hdr_code h,
          pend_authenticator = hdr_authenticator h, pend_secret = secret\<rparr> (pending_map (target_of s peer))\<rparr>)"
    using register_Ok [OF assms target_of_def] by blast
  obtain k where k: "k < 256" "i = next_identifier (target_of s peer) + of_nat k"
    "get_pending s peer i = None" "\<forall>j<k. get_pending s peer (next_identifier (target_of s peer) + of_nat j) \<noteq> None"
    using free_identifier_first [OF r(2)] look by auto
  have "fmlen (pending_map (target_of s' peer)) \<le> limit" "next_identifier (target_of s' peer) = i + 1"
    using r(1,7) by (simp_all add: target_of_def [of s'] fmlen_upd del: fmdom_fmupd)
  moreover have "get_pending s' peer i = Some \<lparr>pend_sender = Some (reg_receiver reg), pend_code = hdr_code h,
         pend_authenticator = hdr_authenticator h, pend_secret = secret\<rparr>"
    using r(6,7) by (simp add: get_pending_def)
  ultimately show ?thesis using k r(3-5) by blast
qed

text \<open>
  \<open>register\<close> reports an exhausted identifier space exactly when the registry is open, the limit
  allows more requests, and all 256 identifiers of the peer are in flight; the in-flight limit is
  reported exactly when it is reached.
\<close>

theorem register_refuses:
  assumes "\<not> closed s"
  shows "((\<exists>s'. register s peer secret limit build = Some (s', Err IdentifierExhausted))
       \<longleftrightarrow> 256 < limit \<and> fmlen (pending_map (target_of s peer)) = 256)
    \<and> ((\<exists>s'. register s peer secret limit build = Some (s', Err InFlightLimit))
       \<longleftrightarrow> limit \<le> fmlen (pending_map (target_of s peer)))"
  using assms free_identifier_None_iff [of "target_of s peer"]
  by (auto simp: register_def target_of_def [symmetric] Let_def split: option.splits result.splits)

text \<open>
  C21: in every reachable state no two live leases name the same peer and identifier, and a
  request is pending exactly when its lease is alive; dropping a lease therefore frees its own
  identifier and never that of another request.
\<close>

theorem leases_are_exclusive:
  assumes "ex_reachable C (s, ls)"
  shows "distinct ls \<and> (\<forall>l. l \<in> set ls \<longleftrightarrow> get_pending s (lease_peer l) (lease_identifier l) \<noteq> None)
    \<and> (\<forall>l l'. l \<in> set ls \<and> l' \<in> set (remove1 l ls) \<longrightarrow>
         get_pending (drop_lease s l) (lease_peer l') (lease_identifier l') = get_pending s (lease_peer l') (lease_identifier l'))"
proof (intro conjI allI impI)
  note I = ex_invD [OF ex_inv_reachable [OF assms]]
  show "distinct ls" by (rule I(1))
  show "l \<in> set ls \<longleftrightarrow> get_pending s (lease_peer l) (lease_identifier l) \<noteq> None" for l
    using I(2) [of "lease_peer l" "lease_identifier l"] by (cases l) simp
  fix l l'
  assume "l \<in> set ls \<and> l' \<in> set (remove1 l ls)"
  then have "l' \<noteq> l" using I(1) by auto
  then have "\<not> (lease_peer l' = lease_peer l \<and> lease_identifier l' = lease_identifier l)"
    by (cases l; cases l') auto
  then show "get_pending (drop_lease s l) (lease_peer l') (lease_identifier l') = get_pending s (lease_peer l') (lease_identifier l')"
    by (auto simp: get_pending_drop_lease)
qed

text \<open>
  C22: a request is answered at most once: whatever the system does next, a channel that holds an
  answer keeps that answer.
\<close>

theorem answered_at_most_once:
  assumes "ex_reachable C (s, ls)" and "ex_step C (s, ls) (s', ls')"
    and "ch < length (channels s)" and "sent (channels s ! ch) = Some m"
  shows "ch < length (channels s') \<and> sent (channels s' ! ch) = Some m"
proof -
  note I = ex_invD [OF ex_inv_reachable [OF assms(1)]]
  have no: "pend_sender p \<noteq> Some ch" if "get_pending s peer i = Some p" for peer i p
    using I(3) [OF that] assms(4) by auto
  show ?thesis
    using assms(2)
  proof (cases rule: ex_step.cases)
    case Register
    then show ?thesis using register_Ok_pending assms(3,4) by (fastforce simp: nth_append)
  next
    case RegisterError
    then show ?thesis using register_Err_pending(2) assms(3,4) by auto
  next
    case (Deliver peer packet b)
    then have del: "deliver C s peer packet = (s', b)" by simp
    show ?thesis
    proof (cases "s' = s")
      case False
      then obtain i p k resp where d: "get_pending s peer i = Some p" "pend_sender p = Some k"
        "s' = send (set_pending s peer i (p\<lparr>pend_sender := None\<rparr>)) k (Ok resp)"
        using deliver_cases [of C s peer packet] del by auto
      then have "k \<noteq> ch" "k < length (channels s)" using no I(3) by auto
      then show ?thesis using assms(3,4) d(3) by (simp add: channels_send)
    qed (use assms(3,4) in simp)
  next
    case Close
    then show ?thesis using channels_close(1,2) [of s] no I(3) assms(3,4) by auto
  qed (use assms(3,4) in \<open>auto simp: drop_receiver_def nth_list_update\<close>)
qed

text \<open>
  Closing ends every wait: each pending request whose caller still listens is answered with
  \<open>Closed\<close>, and from then on nothing is delivered and no request is accepted.
\<close>

theorem close_ends_waits:
  assumes "ex_reachable C (s, ls)" and "get_pending s peer i = Some p" and "pend_sender p = Some ch"
    and "rx_alive (channels s ! ch)"
  shows "sent (channels (close s) ! ch) = Some (Err Closed)
    \<and> deliver C (close s) q packet = (close s, False)
    \<and> register (close s) q secret limit build = Some (close s, Err Closed)"
proof (intro conjI)
  note I = ex_invD [OF ex_inv_reachable [OF assms(1)]]
  show "sent (channels (close s) ! ch) = Some (Err Closed)"
    using channels_close(1) [of s ch] I(3) assms(2-4) by auto
  show "register (close s) q secret limit build = Some (close s, Err Closed)"
    using channels_close(3) [of s] I(3) by (simp add: register_def)
  show "deliver C (close s) q packet = (close s, False)"
    using deliver_cases [of C "close s" q packet] by (auto simp: get_pending_close)
qed

section \<open>A concrete run\<close>

abbreviation demo_peer :: socket_addr where
  "demo_peer \<equiv> SocketV4 0x7F000001 1812"

abbreviation demo_build :: "u8 \<Rightarrow> (codec_error, packet_buffer) result" where
  "demo_build \<equiv> \<lambda>i. Ok (pb_new ACCESS_REQUEST i)"

lemma demo_register:
  obtains s reg p where "register registry_default demo_peer [5] 4 demo_build = Some (s, Ok reg)"
    and "ex_reachable toy_crypto (s, [reg_lease reg])" and "get_pending s demo_peer 0 = Some p" and "pend_sender p = Some 0"
    and "channels s = [\<lparr>rx_alive = True, sent = None\<rparr>]"
proof -
  have "[0..<256] = 0 # [1..<256]" by (simp add: upt_conv_Cons)
  then have f: "free_identifier empty_peer = Some 0" by (simp add: free_identifier_def empty_peer_def)
  obtain h where h: "pb_header (pb_new ACCESS_REQUEST 0) = Some h" using wf_pb_header [OF wf_pb_new] by blast
  obtain s reg where r: "register registry_default demo_peer [5] 4 demo_build = Some (s, Ok reg)"
    "get_pending s demo_peer 0 = Some \<lparr>pend_sender = Some 0, pend_code = hdr_code h,
       pend_authenticator = hdr_authenticator h, pend_secret = [5]\<rparr>"
    "channels s = [\<lparr>rx_alive = True, sent = None\<rparr>]"
    using f h by (simp add: register_def registry_default_def Let_def fcard.rep_eq empty_peer_def get_pending_def)
  have "ex_reachable toy_crypto (s, [reg_lease reg])"
    by (rule ex_reachable.Step [OF ex_reachable.Init ex_step.Register [OF r(1)]])
  with r show thesis using that by simp
qed

theorem register_allocates_witness:
  "\<exists>s' reg. register registry_default demo_peer [5] 4 demo_build = Some (s', Ok reg) \<and>
    (\<exists>k<256. \<exists>i h. i = next_identifier (target_of registry_default demo_peer) + of_nat k
    \<and> reg_lease reg = \<lparr>lease_peer = demo_peer, lease_identifier = i\<rparr>
    \<and> get_pending registry_default demo_peer i = None
    \<and> (\<forall>j<k. get_pending registry_default demo_peer (next_identifier (target_of registry_default demo_peer) + of_nat j) \<noteq> None)
    \<and> demo_build i = Ok (reg_packet reg) \<and> pb_header (reg_packet reg) = Some h
    \<and> get_pending s' demo_peer i = Some \<lparr>pend_sender = Some (reg_receiver reg), pend_code = hdr_code h,
         pend_authenticator = hdr_authenticator h, pend_secret = [5]\<rparr>
    \<and> next_identifier (target_of s' demo_peer) = i + 1
    \<and> fmlen (pending_map (target_of s' demo_peer)) \<le> 4)"
proof -
  obtain s and reg :: registration where r: "register registry_default demo_peer [5] 4 demo_build = Some (s, Ok reg)" by (rule demo_register)
  with register_allocates [OF r] show ?thesis by blast
qed

theorem register_refuses_witness:
  "((\<exists>s'. register registry_default demo_peer [5] 0 demo_build = Some (s', Err IdentifierExhausted))
       \<longleftrightarrow> 256 < (0 :: nat) \<and> fmlen (pending_map (target_of registry_default demo_peer)) = 256)
    \<and> ((\<exists>s'. register registry_default demo_peer [5] 0 demo_build = Some (s', Err InFlightLimit))
       \<longleftrightarrow> 0 \<le> fmlen (pending_map (target_of registry_default demo_peer)))"
  by (rule register_refuses) (simp add: registry_default_def)

theorem leases_are_exclusive_witness:
  "\<exists>s l. ex_reachable toy_crypto (s, [l]) \<and>
    distinct [l] \<and> (\<forall>l'. l' \<in> set [l] \<longleftrightarrow> get_pending s (lease_peer l') (lease_identifier l') \<noteq> None)
    \<and> (\<forall>m m'. m \<in> set [l] \<and> m' \<in> set (remove1 m [l]) \<longrightarrow>
         get_pending (drop_lease s m) (lease_peer m') (lease_identifier m') = get_pending s (lease_peer m') (lease_identifier m'))"
proof -
  obtain s and reg :: registration and p :: pending where r: "ex_reachable toy_crypto (s, [reg_lease reg])" by (rule demo_register)
  with leases_are_exclusive [OF r] show ?thesis by blast
qed

theorem answered_at_most_once_witness:
  "\<exists>s ls. ex_reachable toy_crypto (s, ls) \<and> ex_step toy_crypto (s, ls) (close s, ls)
    \<and> 0 < length (channels s) \<and> sent (channels s ! 0) = Some (Err Closed)
    \<and> 0 < length (channels (close s)) \<and> sent (channels (close s) ! 0) = Some (Err Closed)"
proof -
  obtain s and reg :: registration and p :: pending where r: "ex_reachable toy_crypto (s, [reg_lease reg])" "get_pending s demo_peer 0 = Some p"
    "pend_sender p = Some 0" "channels s = [\<lparr>rx_alive = True, sent = None\<rparr>]" by (rule demo_register)
  let ?ls = "[reg_lease reg]"
  have c: "sent (channels (close s) ! 0) = Some (Err Closed)" "length (channels (close s)) = 1"
    using channels_close(1) [of s 0] channels_close(2) [of s] ex_invD(3) [OF ex_inv_reachable [OF r(1)]] r(2-4) by auto
  have R: "ex_reachable toy_crypto (close s, ?ls)" by (rule ex_reachable.Step [OF r(1) ex_step.Close])
  have S: "ex_step toy_crypto (close s, ?ls) (close (close s), ?ls)" by (rule ex_step.Close)
  from answered_at_most_once [OF R S, of 0] c R S show ?thesis
    by (intro exI [of _ "close s"] exI [of _ ?ls]) simp
qed

theorem close_ends_waits_witness:
  "\<exists>s ls. ex_reachable toy_crypto (s, ls) \<and> sent (channels s ! 0) = None
    \<and> sent (channels (close s) ! 0) = Some (Err Closed)
    \<and> deliver toy_crypto (close s) demo_peer [1, 2] = (close s, False)
    \<and> register (close s) demo_peer [5] 4 demo_build = Some (close s, Err Closed)"
proof -
  obtain s and reg :: registration and p :: pending where r: "ex_reachable toy_crypto (s, [reg_lease reg])" "get_pending s demo_peer 0 = Some p"
    "pend_sender p = Some 0" "channels s = [\<lparr>rx_alive = True, sent = None\<rparr>]" by (rule demo_register)
  with close_ends_waits [OF r(1-3), of demo_peer "[1, 2]" "[5]" 4 demo_build] show ?thesis
    by (intro exI [of _ s] exI [of _ "[reg_lease reg]"]) simp
qed

end
