(* ===== verification/Udp_Client.thy ===== *)
theory Udp_Client
  imports Exchange
begin

text \<open>
  \<^verbatim>\<open>src/transport/udp.rs\<close> and the originator of \<^verbatim>\<open>src/server/coa.rs\<close>: one call of \<open>send_with\<close> among everything
  else that uses the same registry. The call is a state machine over its await points; between two of
  its own steps any step of the registry may happen (other calls, and the reader task, whose
  deliveries and closing are \<open>read_reply\<close>), except that nobody else drops what this call owns.
\<close>

section \<open>Waiting times\<close>

definition DURATION_MAX :: duration where
  "DURATION_MAX = (2 ^ 64 - 1) * 1000000000 + 999999999"

definition saturating_mul :: "duration \<Rightarrow> nat \<Rightarrow> duration" where
  "saturating_mul d k = min (d * k) DURATION_MAX"

definition next_wait :: "client_config \<Rightarrow> duration \<Rightarrow> duration" where
  "next_wait cfg wait = saturating_mul wait (max (unat (backoff_multiplier cfg)) 1)"

section \<open>The reader task\<close>

datatype received = Datagram socket_addr bytes | ReceiveError

definition read_reply :: "crypto \<Rightarrow> registry \<Rightarrow> received \<Rightarrow> registry" where
  "read_reply C s r =
     (case r of
        Datagram peer packet \<Rightarrow> fst (deliver C s peer (take (MAX_PACKET_LEN + 1) packet))
      | ReceiveError \<Rightarrow> close s)"

text \<open>The loop of \<open>read_replies\<close>; it ends at the first error.\<close>

fun read_replies :: "crypto \<Rightarrow> registry \<Rightarrow> received list \<Rightarrow> registry" where
  "read_replies C s [] = s"
| "read_replies C s (Datagram peer packet # rs) = read_replies C (read_reply C s (Datagram peer packet)) rs"
| "read_replies C s (ReceiveError # rs) = read_reply C s ReceiveError"

section \<open>One call\<close>

datatype send_phase =
    Sending nat duration
  | Waiting nat duration
  | Finished "(client_error, response) result"

record send_task =
  task_registry :: ex_state
  task_phase :: send_phase
  task_out :: "(socket_addr \<times> bytes) list"

text \<open>On return the call drops its receiver and its lease.\<close>

definition release :: "registration \<Rightarrow> ex_state \<Rightarrow> ex_state" where
  "release reg st =
     (drop_lease (drop_receiver (fst st) (reg_receiver reg)) (reg_lease reg), remove1 (reg_lease reg) (snd st))"

definition send_start :: "client_config \<Rightarrow> ex_state \<Rightarrow> send_task" where
  "send_start cfg st = \<lparr>task_registry = st, task_phase = Sending 0 (initial_timeout cfg), task_out = []\<rparr>"

definition finish :: "registration \<Rightarrow> (client_error, response) result \<Rightarrow> send_task \<Rightarrow> send_task" where
  "finish reg r t = t\<lparr>task_registry := release reg (task_registry t), task_phase := Finished r\<rparr>"

abbreviation own_channel :: "registration \<Rightarrow> send_task \<Rightarrow> channel" where
  "own_channel reg t \<equiv> channels (fst (task_registry t)) ! reg_receiver reg"

inductive send_step :: "client_config \<Rightarrow> registration \<Rightarrow> send_task \<Rightarrow> send_task \<Rightarrow> bool" for cfg reg where
  SendOk: "task_phase t = Sending k w \<Longrightarrow>
    send_step cfg reg t (t\<lparr>task_phase := Waiting k w, task_out := task_out t @ [(lease_peer (reg_lease reg), as_bytes (reg_packet reg))]\<rparr>)"
| SendError: "task_phase t = Sending k w \<Longrightarrow> send_step cfg reg t (finish reg (Err (Io e)) t)"
| Answered: "task_phase t = Waiting k w \<Longrightarrow> sent (own_channel reg t) = Some r \<Longrightarrow> send_step cfg reg t (finish reg r t)"
| SenderGone: "task_phase t = Waiting k w \<Longrightarrow> sent (own_channel reg t) = None \<Longrightarrow>
    (\<forall>peer i p. get_pending (fst (task_registry t)) peer i = Some p \<longrightarrow> pend_sender p \<noteq> Some (reg_receiver reg)) \<Longrightarrow>
    send_step cfg reg t (finish reg (Err Closed) t)"
| Retry: "task_phase t = Waiting k w \<Longrightarrow> sent (own_channel reg t) = None \<Longrightarrow> k < unat (max_retries cfg) \<Longrightarrow>
    send_step cfg reg t (t\<lparr>task_phase := Sending (k + 1) (next_wait cfg w)\<rparr>)"
| GiveUp: "task_phase t = Waiting k w \<Longrightarrow> sent (own_channel reg t) = None \<Longrightarrow> \<not> k < unat (max_retries cfg) \<Longrightarrow>
    send_step cfg reg t (finish reg (Err Timeout) t)"

text \<open>What the rest of the system does meanwhile; the lease and the receiver of an unfinished call are its own.\<close>

inductive env_step :: "crypto \<Rightarrow> registration \<Rightarrow> send_task \<Rightarrow> send_task \<Rightarrow> bool" for C reg where
  Env: "ex_step C (task_registry t) (s', ls') \<Longrightarrow>
    (\<nexists>r. task_phase t = Finished r) \<Longrightarrow> reg_lease reg \<in> set ls' \<Longrightarrow> rx_alive (channels s' ! reg_receiver reg) \<Longrightarrow>
    env_step C reg t (t\<lparr>task_registry := (s', ls')\<rparr>)"

inductive send_reaches :: "crypto \<Rightarrow> client_config \<Rightarrow> registration \<Rightarrow> send_task \<Rightarrow> send_task \<Rightarrow> bool" for C cfg reg t0 where
  Start: "send_reaches C cfg reg t0 t0"
| Own: "send_reaches C cfg reg t0 t \<Longrightarrow> send_step cfg reg t t' \<Longrightarrow> send_reaches C cfg reg t0 t'"
| Other: "send_reaches C cfg reg t0 t \<Longrightarrow> env_step C reg t t' \<Longrightarrow> send_reaches C cfg reg t0 t'"

inductive_cases send_stepE: "send_step cfg reg t t'"
inductive_cases env_stepE: "env_step C reg t t'"

section \<open>The originator of CoA and Disconnect requests\<close>

record coa_config =
  coa_initial_timeout :: duration
  coa_max_retries :: u8
  coa_backoff_multiplier :: u32
  coa_max_in_flight :: nat

definition default_coa_config :: coa_config where
  "default_coa_config =
     \<lparr>coa_initial_timeout = 1000000000, coa_max_retries = 2, coa_backoff_multiplier = 2, coa_max_in_flight = 16\<rparr>"

datatype coa_outcome = Ack bytes | Nak bytes

datatype coa_error =
    CoaIo string | CoaCodec codec_error | CoaTimeout | CoaInFlightLimit | CoaIdentifierExhausted
  | UnexpectedReplyCode code | AuthenticatorMismatch | MessageAuthenticatorInvalid | Cancelled

definition coa_client_config :: "coa_config \<Rightarrow> client_config" where
  "coa_client_config cfg =
     default_client_config\<lparr>initial_timeout := coa_initial_timeout cfg, max_retries := coa_max_retries cfg,
       backoff_multiplier := coa_backoff_multiplier cfg, max_in_flight_per_target := coa_max_in_flight cfg\<rparr>"

fun coa_error_of :: "client_error \<Rightarrow> coa_error" where
  "coa_error_of (Io e) = CoaIo e"
| "coa_error_of (Codec e) = CoaCodec e"
| "coa_error_of Timeout = CoaTimeout"
| "coa_error_of InFlightLimit = CoaInFlightLimit"
| "coa_error_of IdentifierExhausted = CoaIdentifierExhausted"
| "coa_error_of Closed = Cancelled"

definition coa_outcome_of :: "response \<Rightarrow> coa_outcome" where
  "coa_outcome_of r =
     (if resp_code r = COA_ACK \<or> resp_code r = DISCONNECT_ACK then Ack (resp_attributes r) else Nak (resp_attributes r))"

text \<open>What \<open>send_request\<close> makes of the result of the exchange.\<close>

definition coa_result :: "(client_error, response) result \<Rightarrow> (coa_error, coa_outcome) result" where
  "coa_result r = (case r of Ok response \<Rightarrow> Ok (coa_outcome_of response) | Err e \<Rightarrow> Err (coa_error_of e))"

text \<open>The request that it sends: the buffer with its slot is given to the caller's closure.\<close>

definition coa_request ::
    "code \<Rightarrow> (packet_buffer \<Rightarrow> packet_buffer \<times> (codec_error, unit) result) \<Rightarrow> (coa_error, client_request) result" where
  "coa_request c build =
     (case append_zeroed_slot (pb_new c 0) of
        (_, Err e) \<Rightarrow> Err (CoaCodec e)
      | (buf, Ok _) \<Rightarrow>
          (case build buf of
             (_, Err e) \<Rightarrow> Err (CoaCodec e)
           | (buf, Ok _) \<Rightarrow> Ok (creq_from_buffer buf)))"

text \<open>Registration of that request; \<open>rnd\<close> is the random source of the seal, and \<open>None\<close> its panic.\<close>

definition coa_register ::
    "crypto \<Rightarrow> coa_config \<Rightarrow> registry \<Rightarrow> socket_addr \<Rightarrow> bytes \<Rightarrow> code
      \<Rightarrow> (packet_buffer \<Rightarrow> packet_buffer \<times> (codec_error, unit) result) \<Rightarrow> bytes
      \<Rightarrow> (registry \<times> (coa_error, registration) result) option" where
  "coa_register C cfg s target secret c build rnd =
     (case coa_request c build of
        Err e \<Rightarrow> Some (s, Err e)
      | Ok request \<Rightarrow>
          if \<forall>i \<in> set (map of_nat [0..<256]). creq_seal C request i secret rnd \<noteq> None
          then map_option (\<lambda>(s, r). (s, map_err coa_error_of r))
                 (register s target secret (max_in_flight_per_target (coa_client_config cfg)) (\<lambda>i. the (creq_seal C request i secret rnd)))
          else None)"

definition send_coa ::
    "crypto \<Rightarrow> coa_config \<Rightarrow> registry \<Rightarrow> socket_addr \<Rightarrow> bytes
      \<Rightarrow> (packet_buffer \<Rightarrow> packet_buffer \<times> (codec_error, unit) result) \<Rightarrow> bytes
      \<Rightarrow> (registry \<times> (coa_error, registration) result) option" where
  "send_coa C cfg s target secret build rnd = coa_register C cfg s target secret COA_REQUEST build rnd"

definition send_disconnect ::
    "crypto \<Rightarrow> coa_config \<Rightarrow> registry \<Rightarrow> socket_addr \<Rightarrow> bytes
      \<Rightarrow> (packet_buffer \<Rightarrow> packet_buffer \<times> (codec_error, unit) result) \<Rightarrow> bytes
      \<Rightarrow> (registry \<times> (coa_error, registration) result) option" where
  "send_disconnect C cfg s target secret build rnd = coa_register C cfg s target secret DISCONNECT_REQUEST build rnd"

section \<open>What a waiting call owns\<close>

text \<open>The answers that may arrive for a request: the end of the registry, or a verified response.\<close>

definition good_answer :: "crypto \<Rightarrow> header \<Rightarrow> u8 \<Rightarrow> bytes \<Rightarrow> (client_error, response) result \<Rightarrow> bool" where
  "good_answer C h i secret m \<longleftrightarrow>
     m = Err Closed
     \<or> (\<exists>packet resp. m = Ok resp \<and> response_verify C packet (hdr_code h) i (hdr_authenticator h) secret = Some resp)"

definition owned :: "crypto \<Rightarrow> header \<Rightarrow> bytes \<Rightarrow> registration \<Rightarrow> registry \<Rightarrow> bool" where
  "owned C h secret reg s \<longleftrightarrow>
     reg_receiver reg < length (channels s) \<and> rx_alive (channels s ! reg_receiver reg)
     \<and> (\<exists>p. get_pending s (lease_peer (reg_lease reg)) (lease_identifier (reg_lease reg)) = Some p
          \<and> pend_code p = hdr_code h \<and> pend_authenticator p = hdr_authenticator h \<and> pend_secret p = secret
          \<and> (case sent (channels s ! reg_receiver reg) of
               None \<Rightarrow> pend_sender p = Some (reg_receiver reg)
             | Some m \<Rightarrow> pend_sender p = None \<and> good_answer C h (lease_identifier (reg_lease reg)) secret m))"

lemma owned_register:
  assumes "register s target secret limit build = Some (s', Ok reg)"
  shows "\<exists>h. pb_header (reg_packet reg) = Some h \<and> owned C h secret reg s' \<and> lease_peer (reg_lease reg) = target"
  using register_Ok [OF assms refl] by (auto simp: owned_def get_pending_def nth_append)

lemma owned_step:
  assumes "ex_inv (s, ls)" and "owned C h secret reg s" and "ex_step C (s, ls) (s', ls')"
    and "reg_lease reg \<in> set ls'" and "rx_alive (channels s' ! reg_receiver reg)"
  shows "owned C h secret reg s'"
proof -
  note I = ex_invD [OF assms(1)]
  let ?ch = "reg_receiver reg" and ?peer = "lease_peer (reg_lease reg)" and ?i = "lease_identifier (reg_lease reg)"
  obtain p where p: "get_pending s ?peer ?i = Some p" "pend_code p = hdr_code h" "pend_authenticator p = hdr_authenticator h"
    "pend_secret p = secret" and ch: "?ch < length (channels s)" "rx_alive (channels s ! ?ch)"
    and m: "case sent (channels s ! ?ch) of None \<Rightarrow> pend_sender p = Some ?ch
      | Some m \<Rightarrow> pend_sender p = None \<and> good_answer C h ?i secret m"
    using assms(2) by (auto simp: owned_def)
  show ?thesis
    using assms(3)
  proof (cases rule: ex_step.cases)
    case (Register peer secret' limit build reg')
    then show ?thesis
      using register_Ok_pending [OF Register(2)] p ch m by (fastforce simp: owned_def nth_append)
  next
    case RegisterError
    then show ?thesis using register_Err_pending(1,2) assms(2) by (auto simp: owned_def)
  next
    case (Deliver peer packet b)
    show ?thesis
    proof (cases "s' = s")
      case False
      then obtain i q k resp where d: "get_pending s peer i = Some q" "pend_sender q = Some k"
        "response_verify C packet (pend_code q) i (pend_authenticator q) (pend_secret q) = Some resp"
        "s' = send (set_pending s peer i (q\<lparr>pend_sender := None\<rparr>)) k (Ok resp)"
        using deliver_cases [of C s peer packet] Deliver by auto
      have k: "k < length (channels s)" "sent (channels s ! k) = None" using I(3) [OF d(1,2)] by auto
      have g: "get_pending s' = (\<lambda>x y. if x = peer \<and> y = i then Some (q\<lparr>pend_sender := None\<rparr>) else get_pending s x y)"
        using get_pending_set_pending [of s peer i] d(1,4) by (auto simp: fun_eq_iff)
      show ?thesis
      proof (cases "k = ?ch")
        case True
        then have "pend_sender p = Some ?ch" using k(2) m by simp
        then have e: "?peer = peer" "?i = i" using I(4) [OF p(1) d(1)] d(2) True by auto
        then have "q = p" using d(1) p(1) by simp
        then have "good_answer C h ?i secret (Ok resp)" using d(3) p e by (auto simp: good_answer_def)
        moreover have "channels s' ! ?ch = (channels s ! ?ch)\<lparr>sent := Some (Ok resp)\<rparr>" "length (channels s') = length (channels s)"
          using True k(1) ch(2) d(4) by (simp_all add: channels_send)
        ultimately show ?thesis using \<open>q = p\<close> p ch e unfolding owned_def g by simp
      next
        case False
        then have "\<not> (?peer = peer \<and> ?i = i)" using p(1) d(1,2) m by (auto split: option.splits)
        then have "get_pending s' ?peer ?i = Some p" using p(1) unfolding g by auto
        moreover have "channels s' ! ?ch = channels s ! ?ch" "length (channels s') = length (channels s)"
          using False k(1) d(4) by (simp_all add: channels_send)
        ultimately show ?thesis using p(2-4) ch m by (auto simp: owned_def)
      qed
    qed (use assms(2) in simp)
  next
    case Close
    have c: "channels (close s) ! ?ch = (if (\<exists>peer i p. get_pending s peer i = Some p \<and> pend_sender p = Some ?ch)
        then (channels s ! ?ch)\<lparr>sent := Some (Err Closed)\<rparr> else channels s ! ?ch)"
      using channels_close(1) [of s ?ch] I(3) ch(2) by auto
    show ?thesis
    proof (cases "sent (channels s ! ?ch)")
      case None
      then have "\<exists>peer i p. get_pending s peer i = Some p \<and> pend_sender p = Some ?ch" using m p(1) by auto
      then show ?thesis using Close c p ch channels_close(2) [of s] I(3)
        by (simp add: owned_def get_pending_close good_answer_def)
    next
      case (Some x)
      then have "\<nexists>peer i p. get_pending s peer i = Some p \<and> pend_sender p = Some ?ch" using I(3) by fastforce
      then have "channels (close s) ! ?ch = channels s ! ?ch" using c by auto
      then show ?thesis using Close p ch m Some channels_close(2) [of s] I(3)
        by (simp add: owned_def get_pending_close)
    qed
  next
    case (DropLease l)
    then have "l \<noteq> reg_lease reg" using assms(4) I(1) by auto
    then have "\<not> (?peer = lease_peer l \<and> ?i = lease_identifier l)" by (cases l; cases "reg_lease reg") auto
    then show ?thesis using DropLease assms(2) by (auto simp: owned_def get_pending_drop_lease)
  next
    case (DropReceiver k)
    then have "k \<noteq> ?ch" using assms(5) by (auto simp: drop_receiver_def)
    then show ?thesis using DropReceiver assms(2) by (auto simp: owned_def drop_receiver_def)
  qed
qed

section \<open>What a call does\<close>

text \<open>The datagrams sent so far, the wait in progress, and the owned part of the registry.\<close>

definition send_count :: "send_task \<Rightarrow> nat" where
  "send_count t = length (task_out t)"

definition wait_at :: "client_config \<Rightarrow> nat \<Rightarrow> duration" where
  "wait_at cfg k = (next_wait cfg ^^ k) (initial_timeout cfg)"

definition send_inv :: "crypto \<Rightarrow> client_config \<Rightarrow> header \<Rightarrow> bytes \<Rightarrow> registration \<Rightarrow> send_task \<Rightarrow> bool" where
  "send_inv C cfg h secret reg t \<longleftrightarrow>
     ex_inv (task_registry t)
     \<and> task_out t = replicate (send_count t) (lease_peer (reg_lease reg), as_bytes (reg_packet reg))
     \<and> (case task_phase t of
          Sending k w \<Rightarrow> send_count t = k \<and> k \<le> unat (max_retries cfg) \<and> w = wait_at cfg k
            \<and> owned C h secret reg (fst (task_registry t)) \<and> reg_lease reg \<in> set (snd (task_registry t))
        | Waiting k w \<Rightarrow> send_count t = k + 1 \<and> k \<le> unat (max_retries cfg) \<and> w = wait_at cfg k
            \<and> owned C h secret reg (fst (task_registry t)) \<and> reg_lease reg \<in> set (snd (task_registry t))
        | Finished r \<Rightarrow> send_count t \<le> unat (max_retries cfg) + 1 \<and> reg_lease reg \<notin> set (snd (task_registry t))
            \<and> ((\<exists>e. r = Err (Io e)) \<or> r = Err Timeout \<and> send_count t = unat (max_retries cfg) + 1
               \<or> good_answer C h (lease_identifier (reg_lease reg)) secret r))"

lemma ex_inv_release:
  assumes "ex_inv st" and "reg_lease reg \<in> set (snd st)" and "reg_receiver reg < length (channels (fst st))"
  shows "ex_inv (release reg st)" and "reg_lease reg \<notin> set (snd (release reg st))"
proof -
  obtain s ls where st: "st = (s, ls)" by (cases st)
  have "ex_inv (drop_receiver s (reg_receiver reg), ls)" using assms st by (intro ex_inv_drop_receiver) auto
  then show "ex_inv (release reg st)" using assms(2) st unfolding release_def by (auto intro: ex_inv_drop_lease)
  show "reg_lease reg \<notin> set (snd (release reg st))" using ex_invD(1) assms(1) st by (auto simp: release_def)
qed

lemma send_inv_finish:
  assumes "send_inv C cfg h secret reg t" and "\<nexists>r. task_phase t = Finished r"
    and "(\<exists>e. r = Err (Io e)) \<or> r = Err Timeout \<and> send_count t = unat (max_retries cfg) + 1
      \<or> good_answer C h (lease_identifier (reg_lease reg)) secret r"
  shows "send_inv C cfg h secret reg (finish reg r t)"
proof -
  have "owned C h secret reg (fst (task_registry t))" "reg_lease reg \<in> set (snd (task_registry t))" "ex_inv (task_registry t)"
    "send_count t \<le> unat (max_retries cfg) + 1"
    using assms(1,2) by (auto simp: send_inv_def split: send_phase.splits)
  then show ?thesis
    using ex_inv_release [of "task_registry t" reg] assms(1,3)
    by (simp add: send_inv_def finish_def send_count_def owned_def)
qed

lemma send_inv_step:
  assumes "send_inv C cfg h secret reg t" and "send_step cfg reg t t'"
  shows "send_inv C cfg h secret reg t'"
  using assms(2)
proof (cases rule: send_step.cases)
  case (SendOk k w)
  then have "task_out t @ [x] = replicate (k + 1) x" if "task_out t = replicate k x" for x
    using that by (simp add: replicate_append_same)
  then show ?thesis using SendOk assms(1) by (auto simp: send_inv_def send_count_def)
next
  case (SendError k w e)
  then show ?thesis using send_inv_finish [OF assms(1)] by simp
next
  case (Answered k w r)
  then have "good_answer C h (lease_identifier (reg_lease reg)) secret r" using assms(1) by (auto simp: send_inv_def owned_def)
  then show ?thesis using Answered send_inv_finish [OF assms(1)] by simp
next
  case (SenderGone k w)
  then show ?thesis using send_inv_finish [OF assms(1)] by (simp add: good_answer_def)
next
  case (Retry k w)
  moreover have "task_out t = replicate (send_count t) (lease_peer (reg_lease reg), as_bytes (reg_packet reg))"
    using assms(1) by (simp only: send_inv_def)
  ultimately show ?thesis using assms(1) unfolding send_inv_def send_count_def wait_at_def by auto
next
  case (GiveUp k w)
  then have "send_count t = unat (max_retries cfg) + 1" using assms(1) by (simp add: send_inv_def)
  then show ?thesis using GiveUp send_inv_finish [OF assms(1)] by simp
qed

lemma send_inv_env:
  assumes "send_inv C cfg h secret reg t" and "env_step C reg t t'"
  shows "send_inv C cfg h secret reg t'"
  using assms(2)
proof (cases rule: env_step.cases)
  case (Env s' ls')
  obtain s ls where st: "task_registry t = (s, ls)" by (cases "task_registry t")
  have "ex_inv (s, ls)" "owned C h secret reg s" using assms(1) Env(3) st by (auto simp: send_inv_def split: send_phase.splits)
  then have "owned C h secret reg s'" "ex_inv (s', ls')"
    using owned_step Env st ex_inv_step by (auto dest: ex_inv_step)
  then show ?thesis
    using assms(1) Env by (auto simp: send_inv_def send_count_def split: send_phase.splits)
qed

lemma send_reaches_inv:
  assumes "send_reaches C cfg reg t0 t" and "send_inv C cfg h secret reg t0"
  shows "send_inv C cfg h secret reg t"
  using assms by (induction rule: send_reaches.induct) (auto intro: send_inv_step send_inv_env)

lemma send_inv_start:
  assumes "ex_reachable C (s, ls)" and "register s target secret limit build = Some (s', Ok reg)"
    and "pb_header (reg_packet reg) = Some h"
  shows "send_inv C cfg h secret reg (send_start cfg (s', reg_lease reg # ls))"
  using ex_inv_register [OF ex_inv_reachable [OF assms(1)] assms(2)] owned_register [OF assms(2), of C] assms(3)
  by (auto simp: send_inv_def send_start_def send_count_def wait_at_def)

text \<open>
  C20: what a call of \<open>send\<close> does, whatever else uses the registry and whatever arrives. It
  sends the same datagram, to its target only, at most once more than the configured number of
  retries. When it returns, its identifier is free again, and it returned an error of the socket, or a
  timeout after all its attempts, or \<open>Closed\<close>, or a response that verifies against the request it sent.
\<close>

theorem udp_send_sound:
  assumes "ex_reachable C (s, ls)" and "register s target secret (max_in_flight_per_target cfg) build = Some (s', Ok reg)"
    and "pb_header (reg_packet reg) = Some h"
    and "send_reaches C cfg reg (send_start cfg (s', reg_lease reg # ls)) t"
  shows "\<exists>n \<le> unat (max_retries cfg) + 1. task_out t = replicate n (target, as_bytes (reg_packet reg))
    \<and> (\<forall>r. task_phase t = Finished r \<longrightarrow>
        get_pending (fst (task_registry t)) target (lease_identifier (reg_lease reg)) = None
        \<and> ((\<exists>e. r = Err (Io e)) \<or> r = Err Timeout \<and> n = unat (max_retries cfg) + 1 \<or> r = Err Closed
           \<or> (\<exists>packet resp. r = Ok resp \<and>
                response_verify C packet (hdr_code h) (lease_identifier (reg_lease reg)) (hdr_authenticator h) secret = Some resp)))"
proof -
  have I: "send_inv C cfg h secret reg t" using send_reaches_inv [OF assms(4)] send_inv_start [OF assms(1-3)] by blast
  have target: "lease_peer (reg_lease reg) = target" using owned_register [OF assms(2)] by blast
  have free: "get_pending (fst (task_registry t)) target (lease_identifier (reg_lease reg)) = None" if "task_phase t = Finished r" for r
    using I that ex_invD(2) [of "fst (task_registry t)" "snd (task_registry t)" target "lease_identifier (reg_lease reg)"] target
    by (cases "reg_lease reg") (auto simp: send_inv_def)
  show ?thesis
    using I free by (intro exI [of _ "send_count t"]) (auto simp: send_inv_def target good_answer_def split: send_phase.splits)
qed

text \<open>Every own step brings the call closer to its end, and an unfinished call can always step.\<close>

fun send_rank :: "client_config \<Rightarrow> send_phase \<Rightarrow> nat" where
  "send_rank cfg (Sending k w) = 2 * (unat (max_retries cfg) + 1 - k)"
| "send_rank cfg (Waiting k w) = 2 * (unat (max_retries cfg) - k) + 1"
| "send_rank cfg (Finished r) = 0"

lemma send_step_progress:
  assumes "send_inv C cfg h secret reg t"
  shows "send_step cfg reg t t' \<Longrightarrow> send_rank cfg (task_phase t') < send_rank cfg (task_phase t)"
    and "\<nexists>r. task_phase t = Finished r \<Longrightarrow> \<exists>t'. send_step cfg reg t t'"
proof -
  show "send_rank cfg (task_phase t') < send_rank cfg (task_phase t)" if "send_step cfg reg t t'"
    using that assms by (cases rule: send_step.cases) (auto simp: finish_def send_inv_def)
  assume u: "\<nexists>r. task_phase t = Finished r"
  show "\<exists>t'. send_step cfg reg t t'"
  proof (cases "task_phase t")
    case (Waiting k w)
    then show ?thesis
      using send_step.Answered [OF Waiting] send_step.Retry [OF Waiting] send_step.GiveUp [OF Waiting]
      by (cases "sent (own_channel reg t)") blast+
  qed (use u send_step.SendOk in blast)+
qed

text \<open>The waits grow geometrically and saturate.\<close>

lemma wait_at_eq:
  assumes "initial_timeout cfg \<le> DURATION_MAX"
  shows "wait_at cfg k = min (initial_timeout cfg * max (unat (backoff_multiplier cfg)) 1 ^ k) DURATION_MAX"
proof (induction k)
  case (Suc k)
  let ?m = "max (unat (backoff_multiplier cfg)) 1"
  have s: "min (min a M * m) M = min (a * m) M" if "1 \<le> m" for a m M :: nat
  proof (cases "a \<le> M")
    case False
    have "M \<le> M * m" "a \<le> a * m" using mult_le_mono2 [OF that, of M] mult_le_mono2 [OF that, of a] by simp_all
    then show ?thesis using False by (simp only: min.absorb1 min.absorb2)
  qed (simp add: min_def)
  have "wait_at cfg (Suc k) = min (wait_at cfg k * ?m) DURATION_MAX"
    by (simp add: wait_at_def next_wait_def saturating_mul_def)
  also have "\<dots> = min (initial_timeout cfg * ?m ^ Suc k) DURATION_MAX"
    unfolding Suc.IH by (subst s) (simp_all add: ac_simps)
  finally show ?case .
qed (use assms in \<open>simp add: wait_at_def\<close>)

text \<open>The datagrams of the reader are deliveries, so the step relation covers the reader.\<close>

lemma read_reply_step: "ex_step C (s, ls) (read_reply C s r, ls)"
proof (cases r)
  case (Datagram peer packet)
  then show ?thesis
    using ex_step.Deliver [of C s peer "take (MAX_PACKET_LEN + 1) packet"] by (cases "deliver C s peer (take (MAX_PACKET_LEN + 1) packet)") (simp add: read_reply_def)
qed (simp add: read_reply_def ex_step.Close)

text \<open>A verified response to a CoA or Disconnect request is reported as what it is.\<close>

lemma coa_outcome_exact:
  assumes "response_verify C packet c i auth secret = Some resp" and "c = COA_REQUEST \<or> c = DISCONNECT_REQUEST"
  shows "coa_result (Ok resp) = Ok (Ack (resp_attributes resp)) \<longleftrightarrow> resp_code resp = (if c = COA_REQUEST then COA_ACK else DISCONNECT_ACK)"
    and "coa_result (Ok resp) = Ok (Nak (resp_attributes resp)) \<longleftrightarrow> resp_code resp = (if c = COA_REQUEST then COA_NAK else DISCONNECT_NAK)"
proof -
  have "matches_reply c (resp_code resp)"
    using assms(1) by (auto simp: response_verify_def resp_code_def Let_def split: result.splits prod.splits verification.splits if_splits)
  then show "coa_result (Ok resp) = Ok (Ack (resp_attributes resp)) \<longleftrightarrow> resp_code resp = (if c = COA_REQUEST then COA_ACK else DISCONNECT_ACK)"
    "coa_result (Ok resp) = Ok (Nak (resp_attributes resp)) \<longleftrightarrow> resp_code resp = (if c = COA_REQUEST then COA_NAK else DISCONNECT_NAK)"
    using assms(2) by (auto simp: matches_reply_def coa_result_def coa_outcome_of_def)
qed

section \<open>A concrete call\<close>

abbreviation demo_udp_config :: client_config where
  "demo_udp_config \<equiv> default_client_config\<lparr>max_retries := 0, max_in_flight_per_target := 4\<rparr>"

theorem udp_send_sound_witness:
  "\<exists>s (reg :: registration) (t :: send_task). register registry_default demo_peer [5] 4 demo_build = Some (s, Ok reg)
    \<and> task_out t = [(demo_peer, as_bytes (reg_packet reg))] \<and> task_phase t = Finished (Err Timeout)
    \<and> get_pending (fst (task_registry t)) demo_peer (lease_identifier (reg_lease reg)) = None"
proof -
  obtain s and reg :: registration and p :: pending where r: "register registry_default demo_peer [5] 4 demo_build = Some (s, Ok reg)"
    "channels s = [\<lparr>rx_alive = True, sent = None\<rparr>]"
    by (rule demo_register)
  have "reg_receiver reg = 0" using register_Ok [OF r(1) refl] by (auto simp: registry_default_def)
  note r = r(1) this r(2)
  obtain h where h: "pb_header (reg_packet reg) = Some h" using owned_register [OF r(1)] by blast
  let ?t0 = "send_start demo_udp_config (s, [reg_lease reg])"
  let ?t1 = "?t0\<lparr>task_phase := Waiting 0 1000000000, task_out := [(lease_peer (reg_lease reg), as_bytes (reg_packet reg))]\<rparr>"
  let ?t2 = "finish reg (Err Timeout) ?t1"
  have "send_step demo_udp_config reg ?t0 ?t1"
    using send_step.SendOk [of ?t0 0 1000000000 demo_udp_config reg] by (simp add: send_start_def default_client_config_def)
  moreover have "send_step demo_udp_config reg ?t1 ?t2"
    using r(2,3) by (intro send_step.GiveUp [of _ 0 1000000000]) (simp_all add: send_start_def)
  ultimately have "send_reaches toy_crypto demo_udp_config reg ?t0 ?t2"
    by (blast intro: send_reaches.intros)
  from udp_send_sound [OF ex_reachable.Init _ h this, of demo_peer "[5]" demo_build] r(1)
  have "get_pending (fst (task_registry ?t2)) demo_peer (lease_identifier (reg_lease reg)) = None"
    by (auto simp: finish_def)
  moreover have "task_out ?t2 = [(demo_peer, as_bytes (reg_packet reg))]" "task_phase ?t2 = Finished (Err Timeout)"
    using owned_register [OF r(1), of toy_crypto] by (auto simp: finish_def)
  ultimately show ?thesis using r(1) by (intro exI [of _ s] exI [of _ reg] exI [of _ ?t2] conjI)
qed

end
