(* ===== verification/Radsec_Client.thy ===== *)
theory Radsec_Client
  imports Radsec_Server Udp_Client
begin

text \<open>
  \<^verbatim>\<open>src/client/radsec.rs\<close>: the RadSec client. Requests are registered and queued; one driver task writes them
  and reads frames, which it gives to the registry, or refuses when they are CoA or Disconnect
  requests. The driver waits for a command and for a frame at once, so a read may be cancelled at
  every await point; a run of the driver is therefore cut into single reads. The lemmas show that
  cancellation loses and repeats no frame, and that refusals verify at the other end.
\<close>

section \<open>Requests\<close>

definition SECRET :: bytes where
  "SECRET = [114, 97, 100, 115, 101, 99]"

datatype command = Send bytes lease instant | CloseConnection

text \<open>What \<open>send\<close> registers and queues; \<open>rnd\<close> is the random source of the seal, and \<open>None\<close> its panic.\<close>

definition radsec_register ::
    "crypto \<Rightarrow> client_config \<Rightarrow> registry \<Rightarrow> socket_addr \<Rightarrow> client_request \<Rightarrow> bytes
      \<Rightarrow> (registry \<times> (client_error, registration) result) option" where
  "radsec_register C cfg s peer request rnd =
     (if \<forall>i \<in> set (map of_nat [0..<256]). creq_seal C request i SECRET rnd \<noteq> None
      then register s peer SECRET (max_in_flight_per_target cfg) (\<lambda>i. the (creq_seal C request i SECRET rnd))
      else None)"

definition command_of :: "client_config \<Rightarrow> instant \<Rightarrow> registration \<Rightarrow> command" where
  "command_of cfg now reg = Send (as_bytes (reg_packet reg)) (reg_lease reg) (now + initial_timeout cfg)"

text \<open>
  The result of \<open>send\<close>, as its await points decide it: the deadline passed first, the queue was closed, or
  the channel of the request resolved with a message or with its sender gone.
\<close>

datatype send_wait = DeadlineElapsed | QueueClosed | Resolved "(client_error, response) result option"

fun send_result :: "send_wait \<Rightarrow> (client_error, response) result" where
  "send_result DeadlineElapsed = Err Timeout"
| "send_result QueueClosed = Err Closed"
| "send_result (Resolved None) = Err Closed"
| "send_result (Resolved (Some r)) = r"

section \<open>Connecting\<close>

datatype connect_error = ConnectTimeout | ConnectIo io_error

text \<open>
  \<open>tcp\<close> is the result of the TCP connection. The timeout around the whole fires no later than that of the
  handshake, so a handshake that does not complete is a timeout of the former.
\<close>

definition radsec_connect ::
    "('ctx, 'ssl) libssl \<Rightarrow> 'ctx tls_context \<Rightarrow> bytes \<Rightarrow> (io_error, (io_error, bytes) result list \<times> (io_error, nat) result list) result option
      \<Rightarrow> (connect_error, ('ctx, 'ssl) async_tls \<times> peer_certificate) result" where
  "radsec_connect L ctx expected_name tcp =
     (case tls_connect L ctx expected_name of
        Err e \<Rightarrow> Err (ConnectIo (tls_to_io e))
      | Ok tls \<Rightarrow>
          (case tcp of
             None \<Rightarrow> Err ConnectTimeout
           | Some (Err e) \<Rightarrow> Err (ConnectIo e)
           | Some (Ok (reads, writes)) \<Rightarrow>
               (case handshake_loop L (async_new reads writes tls) of
                  None \<Rightarrow> Err ConnectTimeout
                | Some (conn, Err e) \<Rightarrow> Err (ConnectIo e)
                | Some (conn, Ok _) \<Rightarrow>
                    (case async_peer_certificate L conn of
                       None \<Rightarrow> Err (ConnectIo (IoOther ''server certificate missing''))
                     | Some cert \<Rightarrow> Ok (conn, cert)))))"

section \<open>Incoming requests\<close>

datatype driver_error = DIo io_error | DHeader header_error | DCodec codec_error | DInvalid string | DTimedOut string

definition unsupported_dynamic_request :: "crypto \<Rightarrow> bytes \<Rightarrow> (driver_error, packet_buffer option) result option" where
  "unsupported_dynamic_request C packet =
     (case header_parse packet of
        Err e \<Rightarrow> Some (Err (DHeader e))
      | Ok (h, attrs) \<Rightarrow>
          if hdr_code h \<noteq> COA_REQUEST \<and> hdr_code h \<noteq> DISCONNECT_REQUEST then Some (Ok None)
          else
            let c = (if hdr_code h = COA_REQUEST then COA_NAK else DISCONNECT_NAK)
            in if list_ex (\<lambda>item. \<not> is_ok item) (items attrs) \<or> \<not> verify_zeroed_request C packet SECRET
                 \<or> verify C packet (replicate 16 0) SECRET = Invalid
               then Some (Err (DInvalid ''invalid RadSec dynamic-authorization request''))
               else
                 case reply_new c (hdr_identifier h) of
                   None \<Rightarrow> None
                 | Some reply \<Rightarrow>
                     (case reply_add_attribute reply 101 (u32_to_be 406) of
                        (_, Err e) \<Rightarrow> Some (Err (DCodec e))
                      | (reply, Ok _) \<Rightarrow> map_option (\<lambda>pb. Ok (Some pb)) (seal_for C reply (hdr_authenticator h) SECRET)))"

section \<open>The driver\<close>

record 'c driver =
  dr_conn :: 'c
  dr_frames :: frame_reader
  dr_registry :: registry
  dr_handled :: "bytes list"
  dr_result :: "(driver_error, unit) result option"

definition driver_new :: "instant \<Rightarrow> 'c \<Rightarrow> registry \<Rightarrow> 'c driver" where
  "driver_new now conn reg =
     \<lparr>dr_conn = conn, dr_frames = frame_reader_new now, dr_registry = reg, dr_handled = [], dr_result = None\<rparr>"

text \<open>A frame that was read: it is refused with a NAK, or delivered. \<open>None\<close> is a panic.\<close>

definition handle_frame ::
    "'c conn_ops \<Rightarrow> crypto \<Rightarrow> socket_addr \<Rightarrow> bytes \<Rightarrow> 'c driver \<Rightarrow> ('c driver \<times> (driver_error, unit) result) option" where
  "handle_frame ops C peer frame s =
     (let s = s\<lparr>dr_handled := dr_handled s @ [frame]\<rparr>
      in case unsupported_dynamic_request C frame of
           None \<Rightarrow> None
         | Some (Err e) \<Rightarrow> Some (s, Err e)
         | Some (Ok (Some reply)) \<Rightarrow>
             (case co_write ops (as_bytes reply) (dr_conn s) of
                None \<Rightarrow> Some (s, Err (DTimedOut ''RadSec NAK write timed out''))
              | Some (conn, Err e) \<Rightarrow> Some (s\<lparr>dr_conn := conn\<rparr>, Err (DIo e))
              | Some (conn, Ok _) \<Rightarrow> Some (s\<lparr>dr_conn := conn\<rparr>, Ok ()))
         | Some (Ok None) \<Rightarrow> Some (s\<lparr>dr_registry := fst (deliver C (dr_registry s) peer frame)\<rparr>, Ok ()))"

datatype driver_event = Command command instant | QueueDropped | ReadDone

text \<open>
  One event of \<open>run_connection\<close>: a command won the race and the read was dropped, or one read of the frame
  reader completed.
\<close>

definition driver_pass ::
    "'c conn_ops \<Rightarrow> crypto \<Rightarrow> socket_addr \<Rightarrow> driver_event \<Rightarrow> 'c driver \<Rightarrow> ('c driver, (driver_error, unit) result) pass" where
  "driver_pass ops C peer ev s =
     (case ev of
        Command (Send packet lease deadline) now \<Rightarrow>
          if is_active (dr_registry s) lease \<and> now < deadline then
            (case co_write ops packet (dr_conn s) of
               None \<Rightarrow> Return s (Err (DTimedOut ''RadSec write deadline elapsed''))
             | Some (conn, Err e) \<Rightarrow> Return (s\<lparr>dr_conn := conn\<rparr>) (Err (DIo e))
             | Some (conn, Ok _) \<Rightarrow> Again (s\<lparr>dr_conn := conn\<rparr>))
          else Again s
      | Command CloseConnection now \<Rightarrow> Return s (Ok ())
      | QueueDropped \<Rightarrow> Return s (Ok ())
      | ReadDone \<Rightarrow>
          (case co_read ops (dr_conn s) (fr_target (dr_frames s) - fr_filled (dr_frames s)) (fr_deadline (dr_frames s)) of
             None \<Rightarrow> Pending
           | Some (conn, Err e) \<Rightarrow> Return (s\<lparr>dr_conn := conn\<rparr>) (Err (DIo e))
           | Some (conn, Ok d) \<Rightarrow>
               (case frame_take (dr_frames s) (co_clock ops conn) d of
                  Pending \<Rightarrow> Pending
                | Again frames \<Rightarrow> Again (s\<lparr>dr_conn := conn, dr_frames := frames\<rparr>)
                | Return frames (Err e) \<Rightarrow> Return (s\<lparr>dr_conn := conn, dr_frames := frames\<rparr>) (Err (DIo e))
                | Return frames (Ok None) \<Rightarrow> Return (s\<lparr>dr_conn := conn, dr_frames := frames\<rparr>) (Ok ())
                | Return frames (Ok (Some frame)) \<Rightarrow>
                    (case handle_frame ops C peer frame (s\<lparr>dr_conn := conn, dr_frames := frames\<rparr>) of
                       None \<Rightarrow> Pending
                     | Some (s, Err e) \<Rightarrow> Return s (Err e)
                     | Some (s, Ok _) \<Rightarrow> Again s))))"

text \<open>The end of the driver task closes the registry.\<close>

definition driver_end :: "(driver_error, unit) result \<Rightarrow> 'c driver \<Rightarrow> 'c driver" where
  "driver_end r s = s\<lparr>dr_result := Some r, dr_registry := close (dr_registry s)\<rparr>"

text \<open>
  All runs: \<open>partial\<close> relates a connection to what a cancelled read may leave of it, and the other tasks of
  the client change the registry.
\<close>

inductive driver_step :: "'c conn_ops \<Rightarrow> ('c \<Rightarrow> 'c \<Rightarrow> bool) \<Rightarrow> crypto \<Rightarrow> socket_addr \<Rightarrow> 'c driver \<Rightarrow> 'c driver \<Rightarrow> bool"
  for ops partial C peer where
  Pass: "dr_result s = None \<Longrightarrow> driver_pass ops C peer ev s = Again s' \<Longrightarrow> driver_step ops partial C peer s s'"
| End: "dr_result s = None \<Longrightarrow> driver_pass ops C peer ev s = Return s' r \<Longrightarrow> driver_step ops partial C peer s (driver_end r s')"
| Cancelled: "dr_result s = None \<Longrightarrow> partial (dr_conn s) conn \<Longrightarrow> driver_step ops partial C peer s (s\<lparr>dr_conn := conn\<rparr>)"
| Others: "driver_step ops partial C peer s (s\<lparr>dr_registry := reg\<rparr>)"

inductive driver_reaches :: "'c conn_ops \<Rightarrow> ('c \<Rightarrow> 'c \<Rightarrow> bool) \<Rightarrow> crypto \<Rightarrow> socket_addr \<Rightarrow> 'c driver \<Rightarrow> 'c driver \<Rightarrow> bool"
  for ops partial C peer s0 where
  Begin: "driver_reaches ops partial C peer s0 s0"
| Next: "driver_reaches ops partial C peer s0 s \<Longrightarrow> driver_step ops partial C peer s s' \<Longrightarrow> driver_reaches ops partial C peer s0 s'"

section \<open>The server's identity\<close>

text \<open>The stream operations work on the TLS connection only through its operations.\<close>

lemma flush_reaches:
  "flush_tls_output L a = Some (a', r) \<Longrightarrow> tls_reaches L c0 (at_tls a) \<Longrightarrow> tls_reaches L c0 (at_tls a')"
proof (induction L a rule: flush_tls_output.induct)
  case (1 L a)
  have c: "tls_reaches L c0 (fst (consume_output L (at_tls a)))"
    using reach_op [OF 1(3), of OpConsume] by simp
  have "tls_reaches L c0 (at_tls b)" if "flush_pass L a = Again b \<or> flush_pass L a = Return b r" for b
    using that 1(3) c by (auto simp: flush_pass_def Let_def split: if_splits prod.splits result.splits list.splits)
  with 1 show ?case by (subst (asm) (2) flush_tls_output.simps) (auto split: pass.splits)
qed

lemma receive_reaches:
  assumes "receive L a = Some (a', r)" and "tls_reaches L c0 (at_tls a)"
  shows "tls_reaches L c0 (at_tls a')"
proof -
  have "tls_reaches L c0 (fst (feed_input L d (at_tls a)))" for d using reach_op [OF assms(2), of "OpFeed d"] by simp
  then show ?thesis using assms
    by (auto simp: receive_def Let_def split: if_splits prod.splits result.splits list.splits) (metis fst_conv)+
qed

lemma handshake_pass_reaches:
  assumes "handshake_pass L a = Again a' \<or> handshake_pass L a = Return a' r" and "tls_reaches L c0 (at_tls a)"
  shows "tls_reaches L c0 (at_tls a')"
proof -
  obtain c x where p: "tls_process L (at_tls a) = (c, x)" by (cases "tls_process L (at_tls a)")
  have c: "tls_reaches L c0 (at_tls (a\<lparr>at_tls := c\<rparr>))" using reach_op [OF assms(2), of OpProcess] p by simp
  show ?thesis using assms(1) c
    by (auto simp: handshake_pass_def p dest!: receive_reaches [of L _ _ _ c0] flush_reaches [of L _ _ _ c0]
        split: if_splits prod.splits result.splits option.splits)
qed

lemma handshake_loop_reaches:
  "handshake_loop L a = Some (a', r) \<Longrightarrow> tls_reaches L c0 (at_tls a) \<Longrightarrow> tls_reaches L c0 (at_tls a')"
proof (induction L a rule: handshake_loop.induct)
  case (1 L a)
  have "tls_reaches L c0 (at_tls b)" if "handshake_pass L a = Again b \<or> handshake_pass L a = Return b r" for b
    using handshake_pass_reaches [OF that 1(3)] .
  with 1 show ?case by (subst (asm) (2) handshake_loop.simps) (auto split: pass.splits)
qed

lemma radsec_connect_identified:
  assumes "radsec_connect L ctx name tcp = Ok (conn, cert)"
  shows "\<exists>c0. tls_connect L ctx name = Ok c0 \<and> tls_reaches L c0 (at_tls conn) \<and> conn_handshake_done (at_tls conn)
    \<and> server_identified L c0 name (at_tls conn)"
proof -
  obtain c0 reads writes where c: "tls_connect L ctx name = Ok c0" "handshake_loop L (async_new reads writes c0) = Some (conn, Ok ())"
    using assms by (auto simp: radsec_connect_def split: result.splits option.splits prod.splits)
  have r: "tls_reaches L c0 (at_tls conn)" using handshake_loop_reaches [OF c(2), of c0] by (simp add: async_new_def reach_start)
  have d: "conn_handshake_done (at_tls conn)" by (rule handshake_established [OF c(2)])
  show ?thesis using tls_reaches_identified [OF r] tls_connect_new [OF c(1)] c(1) r d by blast
qed

text \<open>
  C13: a RadSec client that \<open>connect\<close> returns talks to the server it was given. On the way there a call of
  \<open>process\<close> on its TLS connection has reported \<open>Established\<close>, and then the certificate of the peer matched
  the expected name; the returned connection is past its handshake. This holds for every
  behaviour of the TLS library and of the socket.
\<close>

theorem radsec_client_identity:
  assumes "radsec_connect L ctx name tcp = Ok (conn, cert)"
  shows "\<exists>c0 c1 peer. tls_connect L ctx name = Ok c0 \<and> tls_reaches L c0 c1
    \<and> tls_process L c1 = (tls_apply L OpProcess c1, Ok Established)
    \<and> conn_peer_certificate L (tls_apply L OpProcess c1) = Some peer \<and> matches_hostname peer name False
    \<and> conn_handshake_done (at_tls conn) \<and> async_peer_certificate L conn = Some cert"
proof -
  have "async_peer_certificate L conn = Some cert"
    using assms by (auto simp: radsec_connect_def split: result.splits option.splits prod.splits)
  then show ?thesis using radsec_connect_identified [OF assms] unfolding server_identified_def by blast
qed

definition demo_cert :: peer_certificate where
  "demo_cert = \<lparr>cert_sans = Some [Some (GenDns (Some [120]))], cert_common_names = None\<rparr>"

lemma demo_name_no_ip: "parse_ip_addr [120] = None"
  by (rule parse_ip_addr_name) (simp_all add: to_digit_def)

lemma demo_cert_matches: "matches_hostname demo_cert [120] False"
proof -
  have "dns_name_matches [120] [120]" by code_simp
  moreover have "read_asn1_string_utf8 (Some [120]) = Some [120]" by code_simp
  ultimately show ?thesis by (simp add: matches_hostname_def demo_name_no_ip walk_sans_def demo_cert_def)
qed

definition demo_client_ctx :: "toy_ssl_state tls_context" where
  "demo_client_ctx = \<lparr>ctx_inner = toy_ssl_new\<lparr>toy_cert := Some demo_cert\<rparr>, ctx_is_client = True, ctx_requires_client_certificate = False\<rparr>"

lemma demo_connect: "\<exists>conn. radsec_connect toy_ssl demo_client_ctx [120] (Some (Ok ([], []))) = Ok (conn, demo_cert)"
proof -
  let ?ssl = "toy_ssl_new\<lparr>toy_cert := Some demo_cert\<rparr>"
  let ?c = "\<lambda>s d. \<lparr>conn_ssl = s, conn_handshake_done = d, conn_expected_server_name = Some [120], conn_context = demo_client_ctx\<rparr>"
  have c: "tls_connect toy_ssl demo_client_ctx [120] = Ok (?c ?ssl False)"
    by (simp add: tls_connect_def tls_new_def demo_client_ctx_def demo_name_no_ip)
  have p: "tls_process toy_ssl (?c ?ssl False) = (?c (?ssl\<lparr>toy_done := True\<rparr>) True, Ok Established)"
    using demo_cert_matches by (simp add: tls_process_def demo_client_ctx_def conn_peer_certificate_def Let_def)
  have f: "flush_pass toy_ssl ((async_new [] [] x)\<lparr>at_tls := ?c (?ssl\<lparr>toy_done := True\<rparr>) True\<rparr>)
      = Return (async_new [] [] (?c (?ssl\<lparr>toy_done := True\<rparr>) True)) (Ok ())" for x
    by (simp add: flush_pass_def async_new_def pending_output_def consume_output_def toy_ssl_new_def Let_def)
  have "handshake_pass toy_ssl (async_new [] [] (?c ?ssl False)) = Return (async_new [] [] (?c (?ssl\<lparr>toy_done := True\<rparr>) True)) (Ok ())"
    using p f [of "?c ?ssl False"] flush_tls_output.simps [of toy_ssl "(async_new [] [] (?c ?ssl False))\<lparr>at_tls := ?c (?ssl\<lparr>toy_done := True\<rparr>) True\<rparr>"]
    by (simp add: handshake_pass_def async_new_def)
  then have "handshake_loop toy_ssl (async_new [] [] (?c ?ssl False)) = Some (async_new [] [] (?c (?ssl\<lparr>toy_done := True\<rparr>) True), Ok ())"
    by (subst handshake_loop.simps) simp
  then show ?thesis by (simp add: radsec_connect_def c async_peer_certificate_def async_new_def conn_peer_certificate_def)
qed

theorem radsec_client_identity_witness:
  "\<exists>conn c0 c1 peer. radsec_connect toy_ssl demo_client_ctx [120] (Some (Ok ([], []))) = Ok (conn, demo_cert)
    \<and> tls_connect toy_ssl demo_client_ctx [120] = Ok c0 \<and> tls_reaches toy_ssl c0 c1
    \<and> conn_peer_certificate toy_ssl (tls_apply toy_ssl OpProcess c1) = Some peer \<and> matches_hostname peer [120] False"
proof -
  obtain conn where c: "radsec_connect toy_ssl demo_client_ctx [120] (Some (Ok ([], []))) = Ok (conn, demo_cert)"
    using demo_connect by blast
  from radsec_client_identity [OF c] show ?thesis using c by blast
qed

section \<open>Refusals\<close>

lemma nak_reply:
  "\<exists>r h r'. reply_new c i = Some r \<and> reply_add_attribute r 101 (u32_to_be 406) = (r', Ok ())
     \<and> reply_shape r' h [(80, replicate 16 0), (101, u32_to_be 406)] \<and> take 2 h = [code_byte c, i] \<and> ma_value_offset r' = Some 22"
proof -
  obtain r h where r: "reply_new c i = Some r" "reply_shape r h [(80, replicate 16 0)]" "take 2 h = [code_byte c, i]"
    "ma_value_offset r = Some 22" "length (inner (reply_buf r)) = 38"
    using reply_new_shape [of c i] by blast
  obtain r' where r': "reply_add_attribute r 101 (u32_to_be 406) = (r', Ok ())"
    "reply_shape r' h [(80, replicate 16 0), (101, u32_to_be 406)]"
    using reply_add_attribute_shape [OF r(2), of 101 "u32_to_be 406"] r(5) by auto
  moreover have "ma_value_offset r' = Some 22"
    using r'(1) r(4) by (auto simp: reply_add_attribute_def on_buf_def split: prod.splits)
  ultimately show ?thesis using r by blast
qed

lemma take_2_nth: "take 2 h = [a, b] \<Longrightarrow> h ! 0 = a \<and> h ! 1 = b"
  by (cases h; cases "tl h") (auto simp: numeral_2_eq_2)

lemma dynamic_nak:
  assumes "wf_crypto C" and "header_parse packet = Ok (h, attrs)"
    and "hdr_code h = COA_REQUEST \<or> hdr_code h = DISCONNECT_REQUEST"
    and "\<not> list_ex (\<lambda>item. \<not> is_ok item) (items attrs)" and "verify_zeroed_request C packet SECRET"
    and "verify C packet (replicate 16 0) SECRET \<noteq> Invalid"
  shows "\<exists>pb resp as'. unsupported_dynamic_request C packet = Some (Ok (Some pb))
    \<and> response_verify C (as_bytes pb) (hdr_code h) (hdr_identifier h) (hdr_authenticator h) SECRET = Some resp
    \<and> resp_code resp = (if hdr_code h = COA_REQUEST then COA_NAK else DISCONNECT_NAK)
    \<and> resp_attributes resp = encode_attrs as' \<and> filter (Not \<circ> is_ma) as' = [(101, u32_to_be 406)]"
proof -
  let ?c = "if hdr_code h = COA_REQUEST then COA_NAK else DISCONNECT_NAK"
  obtain r r' k where r: "reply_new ?c (hdr_identifier h) = Some r" "reply_add_attribute r 101 (u32_to_be 406) = (r', Ok ())"
    "reply_shape r' k [(80, replicate 16 0), (101, u32_to_be 406)]" "take 2 k = [code_byte ?c, hdr_identifier h]"
    "ma_value_offset r' = Some 22" using nak_reply by blast
  have k: "k ! 0 = code_byte ?c" "k ! 1 = hdr_identifier h" using take_2_nth [OF r(4)] by auto
  have cc: "Code (code_byte ?c) = ?c" by simp
  have m: "matches_reply (hdr_code h) (Code (k ! 0))" unfolding k cc using assms(3) by (auto simp: matches_reply_def)
  obtain pb resp as' where s: "seal_for C r' (hdr_authenticator h) SECRET = Some pb"
    "response_verify C (inner pb @ []) (hdr_code h) (k ! 1) (hdr_authenticator h) SECRET = Some resp"
    "resp_code resp = Code (k ! 0)" "resp_attributes resp = encode_attrs as'"
    "filter (Not \<circ> is_ma) as' = filter (Not \<circ> is_ma) [(80, replicate 16 0), (101, u32_to_be 406)]"
    using sealed_reply_verifies [OF assms(1) r(3) m, of "hdr_authenticator h" SECRET "[]"] r(5) by auto
  have "unsupported_dynamic_request C packet = Some (Ok (Some pb))"
    using assms(2-6) r(1,2) s(1) by (auto simp: unsupported_dynamic_request_def Let_def)
  moreover have "filter (Not \<circ> is_ma) as' = [(101, u32_to_be 406)]" using s(5) by simp
  ultimately show ?thesis using s(2-4) unfolding k cc by auto
qed

lemma dynamic_request_no_panic: "wf_crypto C \<Longrightarrow> unsupported_dynamic_request C packet \<noteq> None"
proof (cases "header_parse packet")
  case (Ok ha)
  obtain h attrs where ha: "ha = (h, attrs)" by (cases ha)
  assume wf: "wf_crypto C"
  have "(case reply_new c i of None \<Rightarrow> None
      | Some reply \<Rightarrow> (case reply_add_attribute reply 101 (u32_to_be 406) of
          (_, Err e) \<Rightarrow> Some (Err (DCodec e))
        | (reply, Ok _) \<Rightarrow> map_option (\<lambda>pb. Ok (Some pb)) (seal_for C reply auth SECRET))) \<noteq> None" for c i auth
    using nak_reply [of c i] seal_for_sealed [OF wf, of _ _ _ auth SECRET] by fastforce
  then show ?thesis using Ok ha by (auto simp: unsupported_dynamic_request_def Let_def)
qed (simp add: unsupported_dynamic_request_def)

text \<open>
  A dynamic-authorisation request as RFC 5176 and RFC 6614 ask for it: well-formed attributes, the MD5 over the
  packet with a zeroed authenticator as its authenticator, and at most one Message-Authenticator, which is right.
\<close>

definition authentic_dynamic :: "crypto \<Rightarrow> header \<Rightarrow> (u8 \<times> bytes) list \<Rightarrow> bool" where
  "authentic_dynamic C h as \<longleftrightarrow>
     well_framed h as
     \<and> hdr_authenticator h = md5 C (take 4 (header_bytes h) @ replicate 16 0 @ encode_attrs as @ SECRET)
     \<and> (filter is_ma as = [(80, tag_of C h as (replicate 16 0) SECRET)] \<or> filter is_ma as = [])"

lemma framed_parse:
  assumes "framed p"
  shows "\<exists>h attrs. header_parse p = Ok (h, attrs) \<and> p = header_bytes h @ attrs \<and> hdr_code h = Code (p ! 0)"
proof -
  have "parseable p" using assms by (simp add: framed_def parseable_def length_field_def)
  from header_parse_eq [OF this] obtain h attrs where h: "header_parse p = Ok (h, attrs)" "hdr_code h = Code (p ! 0)"
    "unat (hdr_length h) = length p" using assms by (auto simp: framed_def)
  then show ?thesis using header_print_parse [OF h(1)] by auto
qed

lemma authentic_dynamic_iff:
  assumes "wf_crypto C" and "header_parse p = Ok (h, attrs)" and "p = header_bytes h @ attrs"
  shows "(\<not> list_ex (\<lambda>item. \<not> is_ok item) (items attrs) \<and> verify_zeroed_request C p SECRET \<and> verify C p (replicate 16 0) SECRET \<noteq> Invalid)
    \<longleftrightarrow> (\<exists>as. attrs = encode_attrs as \<and> authentic_dynamic C h as)"
proof -
  have len: "length (hdr_authenticator h) = 16" "unat (hdr_length h) = 20 + length attrs" "length attrs \<le> 4076"
    using header_parse_lengths [OF assms(2)] by auto
  then have hb: "length (header_bytes h) = 20" by (simp add: header_bytes_def u16_to_be_eq)
  have "\<exists>as. good_attrs as \<and> attrs = encode_attrs as" if "\<not> list_ex (\<lambda>item. \<not> is_ok item) (items attrs)"
  proof -
    obtain as tail where as: "good_attrs as" "attrs = encode_attrs as @ tail"
      "items attrs = map (\<lambda>a. Ok (raw_of a)) as @ items tail" "tail = [] \<or> (\<exists>e. items tail = [Err e])"
      using items_decompose [of attrs] by blast
    have "tail = []" using as(3,4) that by auto
    then show ?thesis using as(1,2) by auto
  qed
  moreover have "(\<not> list_ex (\<lambda>item. \<not> is_ok item) (items attrs) \<and> verify_zeroed_request C p SECRET \<and> verify C p (replicate 16 0) SECRET \<noteq> Invalid)
      \<longleftrightarrow> authentic_dynamic C h as" if as: "good_attrs as" "attrs = encode_attrs as" for as
  proof -
    have "\<not> list_ex (\<lambda>item. \<not> is_ok item) (items attrs)"
      using items_encode_attrs_append [OF as(1), of "[]"] as(2) by (simp add: list_ex_iff)
    moreover have "well_framed h as" using len as by (simp add: well_framed_def)
    moreover have "verify C p (replicate 16 0) SECRET \<noteq> Invalid
        \<longleftrightarrow> verify C p (replicate 16 0) SECRET = Valid \<or> verify C p (replicate 16 0) SECRET = Absent"
      by (cases "verify C p (replicate 16 0) SECRET") auto
    ultimately show ?thesis
      using verify_zeroed_iff [OF hb assms(1)] verify_Valid_iff [OF hb as(1) assms(1)] verify_Absent_iff [OF hb as(1)]
      unfolding assms(3) as(2) by (auto simp: authentic_dynamic_def tag_of_def)
  qed
  ultimately show ?thesis by (metis authentic_dynamic_def well_framed_def)
qed

text \<open>
  C19: a CoA or Disconnect request that a RadSec peer sends is refused in a way the peer can rely on. The client
  looks at every frame. If its code is neither, it is not answered but given to the registry. If it is a
  well-formed request whose authenticator is right under the secret of RadSec, and whose Message-Authenticator
  is right or absent, the client writes one reply and goes on: a NAK of the matching kind that carries the
  Error-Cause Unsupported-Extension (406) and nothing else besides its Message-Authenticator, and that verifies
  as the response to that request. Every other such request ends the connection with an error.
\<close>

theorem dynamic_requests_refused:
  assumes "wf_crypto C" and "framed p"
  shows "if Code (p ! 0) \<noteq> COA_REQUEST \<and> Code (p ! 0) \<noteq> DISCONNECT_REQUEST
    then unsupported_dynamic_request C p = Some (Ok None)
      \<and> handle_frame ops C peer p s
        = Some (s\<lparr>dr_handled := dr_handled s @ [p], dr_registry := fst (deliver C (dr_registry s) peer p)\<rparr>, Ok ())
    else (\<exists>h as. p = header_bytes h @ encode_attrs as \<and> authentic_dynamic C h as
        \<and> (\<exists>pb resp as'. unsupported_dynamic_request C p = Some (Ok (Some pb))
            \<and> response_verify C (as_bytes pb) (Code (p ! 0)) (hdr_identifier h) (hdr_authenticator h) SECRET = Some resp
            \<and> resp_code resp = (if Code (p ! 0) = COA_REQUEST then COA_NAK else DISCONNECT_NAK)
            \<and> resp_attributes resp = encode_attrs as' \<and> filter (Not \<circ> is_ma) as' = [(101, u32_to_be 406)]
            \<and> (\<forall>conn. co_write ops (as_bytes pb) (dr_conn s) = Some (conn, Ok ())
                \<longrightarrow> handle_frame ops C peer p s = Some (s\<lparr>dr_handled := dr_handled s @ [p], dr_conn := conn\<rparr>, Ok ()))))
      \<or> (\<nexists>h as. p = header_bytes h @ encode_attrs as \<and> authentic_dynamic C h as)
        \<and> (\<exists>e. handle_frame ops C peer p s = Some (s\<lparr>dr_handled := dr_handled s @ [p]\<rparr>, Err e))"
proof -
  obtain h attrs where h: "header_parse p = Ok (h, attrs)" "p = header_bytes h @ attrs" "hdr_code h = Code (p ! 0)"
    using framed_parse [OF assms(2)] by blast
  note iff = authentic_dynamic_iff [OF assms(1) h(1,2)]
  consider (other) "Code (p ! 0) \<noteq> COA_REQUEST \<and> Code (p ! 0) \<noteq> DISCONNECT_REQUEST"
    | (good) as where "Code (p ! 0) = COA_REQUEST \<or> Code (p ! 0) = DISCONNECT_REQUEST" "attrs = encode_attrs as" "authentic_dynamic C h as"
    | (bad) "Code (p ! 0) = COA_REQUEST \<or> Code (p ! 0) = DISCONNECT_REQUEST" "\<nexists>as. attrs = encode_attrs as \<and> authentic_dynamic C h as"
    by blast
  then show ?thesis
  proof cases
    case other
    have "unsupported_dynamic_request C p = Some (Ok None)" using other h(1,3) by (simp add: unsupported_dynamic_request_def)
    then show ?thesis using other by (simp add: handle_frame_def Let_def)
  next
    case good
    have ok: "\<not> list_ex (\<lambda>item. \<not> is_ok item) (items attrs)" "verify_zeroed_request C p SECRET" "verify C p (replicate 16 0) SECRET \<noteq> Invalid"
      using good(2,3) iff by blast+
    obtain pb resp as' where n: "unsupported_dynamic_request C p = Some (Ok (Some pb))"
      "response_verify C (as_bytes pb) (Code (p ! 0)) (hdr_identifier h) (hdr_authenticator h) SECRET = Some resp"
      "resp_code resp = (if Code (p ! 0) = COA_REQUEST then COA_NAK else DISCONNECT_NAK)"
      "resp_attributes resp = encode_attrs as'" "filter (Not \<circ> is_ma) as' = [(101, u32_to_be 406)]"
      using dynamic_nak [OF assms(1) h(1) _ ok] good(1) unfolding h(3) by blast
    have "handle_frame ops C peer p s = Some (s\<lparr>dr_handled := dr_handled s @ [p], dr_conn := conn\<rparr>, Ok ())"
      if "co_write ops (as_bytes pb) (dr_conn s) = Some (conn, Ok ())" for conn
      using n(1) that by (simp add: handle_frame_def Let_def)
    then show ?thesis using good n h(2) by auto
  next
    case bad
    have "\<nexists>h' as. p = header_bytes h' @ encode_attrs as \<and> authentic_dynamic C h' as"
      using bad(2) h(1) header_parse_print [of _ "encode_attrs _" "[]"] by (fastforce simp: authentic_dynamic_def well_framed_def)
    moreover have "unsupported_dynamic_request C p = Some (Err (DInvalid ''invalid RadSec dynamic-authorization request''))"
      using iff bad h(1,3) by (auto simp: unsupported_dynamic_request_def Let_def)
    ultimately show ?thesis using bad(1) by (auto simp: handle_frame_def Let_def)
  qed
qed

section \<open>Frames\<close>

text \<open>
  Everything that was handed out is a sequence of frames that were handled, and what the reader holds of the next
  one.
\<close>

definition frames_inv :: "('ctx, 'ssl) libssl \<Rightarrow> ('ctx, 'ssl) tls_connection \<Rightarrow> ('ctx, 'ssl) async_tls driver \<Rightarrow> bool" where
  "frames_inv L c0 s \<longleftrightarrow>
     (\<forall>p \<in> set (dr_handled s). framed p)
     \<and> (\<exists>x w. talked L c0 (concat (dr_handled s) @ x) w (at_tls (dr_conn s)) \<and> (dr_result s = None \<longrightarrow> reading x (dr_frames s)))"

lemma frames_invI:
  assumes "\<forall>p \<in> set (dr_handled s). framed p" and "talked L c0 (concat (dr_handled s) @ x) w (at_tls (dr_conn s))"
    and "dr_result s = None \<Longrightarrow> reading x (dr_frames s)"
  shows "frames_inv L c0 s"
  using assms unfolding frames_inv_def by (intro conjI exI [of _ x] exI [of _ w]) simp_all

lemma frames_inv_end:
  assumes "\<forall>p \<in> set (dr_handled s). framed p" and "talked L c0 (concat (dr_handled s) @ x) w (at_tls (dr_conn s))"
  shows "frames_inv L c0 (driver_end r s)"
  by (rule frames_invI [where x = x and w = w]) (use assms in \<open>simp_all add: driver_end_def\<close>)

lemma tls_write_talked:
  assumes "co_write (tls_ops L clock) bs a = Some (a', r)" and "talked L c0 d w (at_tls a)"
  shows "\<exists>w'. talked L c0 d w' (at_tls a')"
  using assms write_all_talked [of L bs a a' r c0 d w] by (auto simp: tls_ops_sel)

lemma handle_frame_talked:
  assumes "handle_frame (tls_ops L clock) C peer f s = Some (s', r)" and "talked L c0 d w (at_tls (dr_conn s))"
  shows "dr_handled s' = dr_handled s @ [f] \<and> dr_frames s' = dr_frames s \<and> dr_result s' = dr_result s
    \<and> (\<exists>w'. talked L c0 d w' (at_tls (dr_conn s')))"
  using assms tls_write_talked [of L clock _ "dr_conn s" _ _ c0 d w]
  by (auto simp: handle_frame_def Let_def split: option.splits result.splits prod.splits)

text \<open>A command, or a read that completes.\<close>

lemma command_pass_inv:
  assumes "frames_inv L c0 s" and "dr_result s = None" and "ev \<noteq> ReadDone"
    and "driver_pass (tls_ops L clock) C peer ev s = Again s' \<or> driver_pass (tls_ops L clock) C peer ev s = Return s' r"
  shows "frames_inv L c0 s' \<and> dr_result s' = None"
proof -
  obtain x w where i: "\<forall>p \<in> set (dr_handled s). framed p" "talked L c0 (concat (dr_handled s) @ x) w (at_tls (dr_conn s))" "reading x (dr_frames s)"
    using assms(1,2) by (auto simp: frames_inv_def)
  have "dr_handled s' = dr_handled s \<and> dr_frames s' = dr_frames s \<and> dr_result s' = None
      \<and> (\<exists>w'. talked L c0 (concat (dr_handled s) @ x) w' (at_tls (dr_conn s')))"
    using assms(2,3,4) i(2) tls_write_talked [OF _ i(2), of clock]
    by (cases ev) (auto simp: driver_pass_def split: command.splits if_splits option.splits result.splits)
  then show ?thesis using i unfolding frames_inv_def by auto
qed

lemma read_pass_inv:
  assumes "bounded_reads L" and "frames_inv L c0 s" and "dr_result s = None"
  shows "driver_pass (tls_ops L clock) C peer ReadDone s = Again s' \<Longrightarrow> frames_inv L c0 s' \<and> dr_result s' = None"
    and "driver_pass (tls_ops L clock) C peer ReadDone s = Return s' r \<Longrightarrow> frames_inv L c0 (driver_end r s')"
proof -
  let ?ops = "tls_ops L clock" and ?fr = "dr_frames s"
  let ?n = "fr_target ?fr - fr_filled ?fr"
  obtain x w where i: "\<forall>p \<in> set (dr_handled s). framed p" "talked L c0 (concat (dr_handled s) @ x) w (at_tls (dr_conn s))" "reading x ?fr"
    using assms(2,3) by (auto simp: frames_inv_def)
  obtain a res where rd: "co_read ?ops (dr_conn s) ?n (fr_deadline ?fr) = Some (a, res)"
    by (metis tls_ops_sel(1) surj_pair)
  have t: "talked L c0 ((concat (dr_handled s) @ x) @ (case res of Ok e \<Rightarrow> e | Err _ \<Rightarrow> [])) w (at_tls a)" by (rule tls_ops_read [OF rd i(2)])
  have both: "(driver_pass ?ops C peer ReadDone s = Again s' \<longrightarrow> frames_inv L c0 s' \<and> dr_result s' = None)
    \<and> (driver_pass ?ops C peer ReadDone s = Return s' r \<longrightarrow> frames_inv L c0 (driver_end r s'))"
  proof (cases res)
    case (Err e)
    then show ?thesis using rd frames_inv_end [of "s\<lparr>dr_conn := a\<rparr>" L c0 x w] i(1) t by (auto simp: driver_pass_def)
  next
    case (Ok d)
    have d: "length d \<le> fr_target ?fr - length x"
      using read_some_length [OF assms(1), of ?n "dr_conn s" a d] rd Ok i(3) by (auto simp: tls_ops_sel reading_def split: option.splits)
    have td: "talked L c0 (concat (dr_handled s) @ x @ d) w (at_tls a)" using t Ok by simp
    from i(3) d show ?thesis
    proof (cases rule: frame_take_reading [where now = "co_clock ?ops a"])
      case Ended
      then show ?thesis using rd Ok frames_inv_end [of "s\<lparr>dr_conn := a\<rparr>" L c0 x w] td i(1) by (auto simp: driver_pass_def split: if_splits)
    next
      case (More fr')
      have "driver_pass ?ops C peer ReadDone s = Again (s\<lparr>dr_conn := a, dr_frames := fr'\<rparr>)" using More rd Ok by (simp add: driver_pass_def)
      moreover have "frames_inv L c0 (s\<lparr>dr_conn := a, dr_frames := fr'\<rparr>)" by (rule frames_invI) (use More td i(1) in simp_all)
      ultimately show ?thesis using assms(3) by auto
    next
      case (Frame fr')
      let ?s = "s\<lparr>dr_conn := a, dr_frames := fr'\<rparr>"
      have p: "driver_pass ?ops C peer ReadDone s = (case handle_frame ?ops C peer (x @ d) ?s of
          None \<Rightarrow> Pending | Some (s, Err e) \<Rightarrow> Return s (Err e) | Some (s, Ok _) \<Rightarrow> Again s)"
        using Frame rd Ok by (simp add: driver_pass_def)
      have "frames_inv L c0 u \<and> frames_inv L c0 (driver_end r u) \<and> dr_result u = None" if hf: "handle_frame ?ops C peer (x @ d) ?s = Some (u, q)" for u q
      proof -
        obtain w' where "dr_handled u = dr_handled s @ [x @ d]" "dr_frames u = fr'" "dr_result u = None"
          "talked L c0 (concat (dr_handled u) @ []) w' (at_tls (dr_conn u))"
          using handle_frame_talked [OF hf, of c0 "concat (dr_handled s) @ x @ d" w] td assms(3) by auto
        then show ?thesis using frames_invI [of u L c0 "[]" w'] frames_inv_end [of u L c0 "[]" w' r] i(1) Frame by auto
      qed
      then show ?thesis unfolding p by (auto split: option.splits result.splits prod.splits)
    next
      case (Refused fr')
      then show ?thesis using rd Ok frames_inv_end [of "s\<lparr>dr_conn := a, dr_frames := fr'\<rparr>" L c0 "x @ d" w] td i(1)
        by (auto simp: driver_pass_def)
    qed
  qed
  then show "driver_pass ?ops C peer ReadDone s = Again s' \<Longrightarrow> frames_inv L c0 s' \<and> dr_result s' = None"
    and "driver_pass ?ops C peer ReadDone s = Return s' r \<Longrightarrow> frames_inv L c0 (driver_end r s')" by auto
qed

lemma frames_inv_reaches:
  assumes "bounded_reads L"
  shows "driver_reaches (tls_ops L clock) (\<lambda>a a'. \<exists>n. read_cancelled L n a a') C peer s0 s \<Longrightarrow> frames_inv L c0 s0 \<Longrightarrow> frames_inv L c0 s"
proof (induction rule: driver_reaches.induct)
  case (Next s s')
  have inv: "frames_inv L c0 s" using Next by blast
  from Next.hyps(2) show ?case
  proof (cases rule: driver_step.cases)
    case (Pass ev)
    then show ?thesis using command_pass_inv [OF inv] read_pass_inv(1) [OF assms inv] by (cases "ev = ReadDone") blast+
  next
    case (End ev t r)
    show ?thesis
    proof (cases "ev = ReadDone")
      case True
      then show ?thesis using End read_pass_inv(2) [OF assms inv] by blast
    next
      case False
      then have "frames_inv L c0 t" using End command_pass_inv [OF inv] by blast
      then show ?thesis using End(1) frames_inv_end [of t L c0] by (auto simp: frames_inv_def)
    qed
  next
    case (Cancelled conn)
    then obtain n where "read_cancelled L n (dr_conn s) conn" by blast
    obtain x w where i: "\<forall>p \<in> set (dr_handled s). framed p" "talked L c0 (concat (dr_handled s) @ x) w (at_tls (dr_conn s))"
      "reading x (dr_frames s)" using inv Cancelled(2) by (auto simp: frames_inv_def)
    from read_cancelled_talked [OF \<open>read_cancelled L n (dr_conn s) conn\<close> i(2)] show ?thesis
      using i Cancelled(1) frames_invI [of s' L c0 x w] by simp
  next
    case (Others reg)
    then show ?thesis using inv by (simp add: frames_inv_def)
  qed
qed

lemma next_frame_handled:
  assumes "wf_crypto C" and "bounded_reads L" and "dr_result s = None" and "reading x (dr_frames s)"
    and "read_some L (fr_target (dr_frames s) - length x) (dr_conn s) = Some (a, Ok d)" and "framed (x @ d)"
  shows "\<exists>s'. driver_step (tls_ops L clock) partial C peer s s' \<and> dr_handled s' = dr_handled s @ [x @ d]"
proof -
  let ?ops = "tls_ops L clock" and ?fr = "dr_frames s"
  have f: "fr_filled ?fr = length x" using assms(4) by (simp add: reading_def)
  have rd: "co_read ?ops (dr_conn s) (fr_target ?fr - fr_filled ?fr) (fr_deadline ?fr) = Some (a, Ok d)"
    using assms(5) f by (simp add: tls_ops_sel)
  have "length d \<le> fr_target ?fr - length x" using read_some_length [OF assms(2,5)] .
  with assms(4) obtain fr' where fr': "frame_take ?fr (co_clock ?ops a) d = Return fr' (Ok (Some (x @ d)))"
  proof (cases rule: frame_take_reading [where now = "co_clock ?ops a"])
    case Ended
    then show ?thesis using assms(6) reading_unfinished [OF assms(4)] by (auto simp: framed_def unfinished_def)
  next
    case (More fr')
    then show ?thesis using assms(6) reading_unfinished [OF More(3)] by (auto simp: framed_def unfinished_def)
  next
    case (Refused fr')
    then show ?thesis using assms(6) by (auto simp: framed_def bad_length_def)
  qed
  let ?s = "s\<lparr>dr_conn := a, dr_frames := fr'\<rparr>"
  have p: "driver_pass ?ops C peer ReadDone s = (case handle_frame ?ops C peer (x @ d) ?s of
      None \<Rightarrow> Pending | Some (s, Err e) \<Rightarrow> Return s (Err e) | Some (s, Ok _) \<Rightarrow> Again s)"
    using fr' rd by (simp add: driver_pass_def)
  have "handle_frame ?ops C peer (x @ d) ?s \<noteq> None"
    using dynamic_request_no_panic [OF assms(1), of "x @ d"]
    by (auto simp: handle_frame_def Let_def split: option.splits result.splits prod.splits)
  then obtain t q where t: "handle_frame ?ops C peer (x @ d) ?s = Some (t, q)" by auto
  have h: "dr_handled t = dr_handled s @ [x @ d]" using handle_frame_talked [OF t talk_start] by simp
  show ?thesis
  proof (cases q)
    case (Ok u)
    then have "driver_step ?ops partial C peer s t" using p t assms(3) by (intro driver_step.Pass) simp_all
    then show ?thesis using h by blast
  next
    case (Err e)
    then have "driver_step ?ops partial C peer s (driver_end (Err e) t)" using p t assms(3) by (intro driver_step.End) simp_all
    then show ?thesis using h by (force simp: driver_end_def)
  qed
qed

text \<open>
  C18: the RadSec client handles every frame of the stream once and in order, although reads are cancelled
  whenever a command wins the race, for every TLS library whose reads stay within the buffer and however the
  socket behaves. After any interleaving of commands, reads that complete, reads that are dropped at one of their
  await points, and other users of the registry, all the plaintext that libssl has handed out is the frames
  handled so far, followed by what the reader holds of the next: no byte is lost, repeated or out of place.
  As long as the driver runs, a read that completes that frame has it handled in the same step.
\<close>

theorem client_frames_once:
  assumes "wf_crypto C" and "bounded_reads L"
    and "driver_reaches (tls_ops L clock) (\<lambda>a a'. \<exists>n. read_cancelled L n a a') C peer (driver_new now conn reg) s"
  shows "\<exists>x w. (\<forall>p \<in> set (dr_handled s). framed p) \<and> talked L (at_tls conn) (concat (dr_handled s) @ x) w (at_tls (dr_conn s))
    \<and> (dr_result s = None \<longrightarrow> reading x (dr_frames s)
        \<and> (\<forall>a d. read_some L (fr_target (dr_frames s) - length x) (dr_conn s) = Some (a, Ok d) \<and> framed (x @ d)
            \<longrightarrow> (\<exists>s'. driver_step (tls_ops L clock) (\<lambda>a a'. \<exists>n. read_cancelled L n a a') C peer s s'
                  \<and> dr_handled s' = dr_handled s @ [x @ d])))"
proof -
  have "frames_inv L (at_tls conn) (driver_new now conn reg)"
    by (rule frames_invI [where x = "[]" and w = "[]"]) (simp_all add: driver_new_def talk_start reading_new)
  from frames_inv_reaches [OF assms(2,3) this] obtain x w where i: "\<forall>p \<in> set (dr_handled s). framed p"
    "talked L (at_tls conn) (concat (dr_handled s) @ x) w (at_tls (dr_conn s))" "dr_result s = None \<longrightarrow> reading x (dr_frames s)"
    unfolding frames_inv_def by auto
  show ?thesis by (rule exI [of _ x], rule exI [of _ w]) (use i next_frame_handled [OF assms(1,2), of s x] in auto)
qed

section \<open>Runs\<close>

definition demo_driver :: "(toy_ssl_state, toy_ssl_state) async_tls driver" where
  "demo_driver = driver_new 0 (demo_stream (demo_frame @ demo_frame) [] []) registry_default"

lemma demo_driver_reads:
  "\<exists>s. driver_reaches (tls_ops toy_ssl (\<lambda>_. 0)) partial toy_crypto (SocketV4 1 2) demo_driver s \<and> dr_result s = None \<and> dr_handled s = []
    \<and> reading (take 4 demo_frame) (dr_frames s) \<and> dr_conn s = demo_stream (drop 4 demo_frame @ demo_frame) [] []"
proof -
  let ?ops = "tls_ops toy_ssl (\<lambda>_. 0)" and ?c = "demo_stream (drop 4 demo_frame @ demo_frame) [] []" and ?h = "take 4 demo_frame"
  have rd: "co_read ?ops (demo_stream (demo_frame @ demo_frame) [] []) 4 dl = Some (?c, Ok ?h)" for dl
    using demo_read [of "demo_frame @ demo_frame" 4 "[]" "[]"] by (simp add: tls_ops_sel demo_frame_def)
  have h: "\<not> framed ?h" "\<not> bad_length ?h" "?h \<noteq> []" by (simp_all add: framed_def bad_length_def demo_frame_def u16_from_be_def from_be_def)
  have "length ?h \<le> fr_target (frame_reader_new 0) - length []" by (simp add: frame_reader_new_def)
  with reading_new obtain fr where fr: "frame_take (frame_reader_new 0) (co_clock ?ops ?c) ?h = Again fr" "reading ?h fr"
    by (cases rule: frame_take_reading [where now = "co_clock ?ops ?c"]) (use h in auto)
  have new: "fr_target (frame_reader_new 0) = 4" "fr_filled (frame_reader_new 0) = 0" by (simp_all add: frame_reader_new_def)
  have n: "dr_frames demo_driver = frame_reader_new 0" "dr_conn demo_driver = demo_stream (demo_frame @ demo_frame) [] []"
    "dr_result demo_driver = None" "dr_handled demo_driver = []" by (simp_all add: demo_driver_def driver_new_def)
  have "driver_pass ?ops toy_crypto (SocketV4 1 2) ReadDone demo_driver = Again (demo_driver\<lparr>dr_conn := ?c, dr_frames := fr\<rparr>)"
    using fr(1) rd by (simp add: driver_pass_def n new)
  from driver_reaches.Next [OF driver_reaches.Begin driver_step.Pass [OF n(3) this, of partial]] show ?thesis
    by (intro exI [of _ "demo_driver\<lparr>dr_conn := ?c, dr_frames := fr\<rparr>"]) (use fr(2) n in simp)
qed

theorem client_frames_once_witness:
  "\<exists>s s'. driver_reaches (tls_ops toy_ssl (\<lambda>_. 0)) (\<lambda>a a'. \<exists>n. read_cancelled toy_ssl n a a') toy_crypto (SocketV4 1 2) demo_driver s
    \<and> dr_handled s = [] \<and> driver_step (tls_ops toy_ssl (\<lambda>_. 0)) (\<lambda>a a'. \<exists>n. read_cancelled toy_ssl n a a') toy_crypto (SocketV4 1 2) s s'
    \<and> dr_handled s' = [demo_frame]"
proof -
  obtain s where s: "driver_reaches (tls_ops toy_ssl (\<lambda>_. 0)) (\<lambda>a a'. \<exists>n. read_cancelled toy_ssl n a a') toy_crypto (SocketV4 1 2) demo_driver s"
    "dr_result s = None" "dr_handled s = []" "reading (take 4 demo_frame) (dr_frames s)" "dr_conn s = demo_stream (drop 4 demo_frame @ demo_frame) [] []"
    using demo_driver_reads by blast
  have f: "framed demo_frame" by (simp add: framed_def demo_frame_def u16_from_be_def from_be_def)
  have t: "fr_target (dr_frames s) = 20" using s(4) by (auto simp: reading_def demo_frame_def u16_from_be_def from_be_def)
  have rd: "read_some toy_ssl 16 (dr_conn s) = Some (demo_stream demo_frame [] [], Ok (drop 4 demo_frame))"
    using demo_read [of "drop 4 demo_frame @ demo_frame" 16 "[]" "[]"] s(5) by (simp add: demo_frame_def)
  from client_frames_once [OF wf_toy_crypto bounded_toy s(1) [unfolded demo_driver_def]] s(2) obtain x where x: "reading x (dr_frames s)"
    "\<And>a d. read_some toy_ssl (fr_target (dr_frames s) - length x) (dr_conn s) = Some (a, Ok d) \<Longrightarrow> framed (x @ d) \<Longrightarrow>
      \<exists>s'. driver_step (tls_ops toy_ssl (\<lambda>_. 0)) (\<lambda>a a'. \<exists>n. read_cancelled toy_ssl n a a') toy_crypto (SocketV4 1 2) s s'
        \<and> dr_handled s' = dr_handled s @ [x @ d]" by blast
  have e: "x = take 4 demo_frame" using x(1) s(4) unfolding reading_def by metis
  have "fr_target (dr_frames s) - length x = 16" using t by (simp add: e demo_frame_def)
  then show ?thesis using x(2) rd f s(1,3) unfolding e by fastforce
qed

text \<open>A CoA request with no attributes.\<close>

definition demo_coa :: bytes where
  "demo_coa = [43, 9, 0, 20] @ md5 toy_crypto ([43, 9, 0, 20] @ replicate 16 0 @ SECRET)"

lemma demo_coa_valid:
  "header_parse demo_coa = Ok (\<lparr>hdr_code = COA_REQUEST, hdr_identifier = 9, hdr_length = 20, hdr_authenticator = drop 4 demo_coa\<rparr>, [])"
  "verify_zeroed_request toy_crypto demo_coa SECRET" "verify toy_crypto demo_coa (replicate 16 0) SECRET = Absent"
  by code_simp+

theorem dynamic_requests_refused_witness:
  "\<exists>pb resp. unsupported_dynamic_request toy_crypto demo_coa = Some (Ok (Some pb))
     \<and> response_verify toy_crypto (as_bytes pb) COA_REQUEST 9 (drop 4 demo_coa) SECRET = Some resp \<and> resp_code resp = COA_NAK"
proof -
  have c: "Code (demo_coa ! 0) = COA_REQUEST" by code_simp
  obtain h :: header where h: "header_parse demo_coa = Ok (h, [])" "hdr_identifier h = 9" "hdr_authenticator h = drop 4 demo_coa"
    using demo_coa_valid(1) by auto
  have f: "framed demo_coa" by code_simp
  have p: "demo_coa = header_bytes h @ []" "hdr_code h = Code (demo_coa ! 0)" using framed_parse [OF f] h(1) by auto
  have "\<not> list_ex (\<lambda>item. \<not> is_ok item) (items [])" by simp
  then obtain as where "[] = encode_attrs as" "authentic_dynamic toy_crypto h as"
    using authentic_dynamic_iff [OF wf_toy_crypto h(1) p(1)] demo_coa_valid(2,3) by auto
  then have a: "\<exists>h as. demo_coa = header_bytes h @ encode_attrs as \<and> authentic_dynamic toy_crypto h as" using p(1) by metis
  have u: "h' = h" if "demo_coa = header_bytes h' @ encode_attrs as" "authentic_dynamic toy_crypto h' as" for h' as
    using that h(1) header_parse_print [of h' "encode_attrs as" "[]"] by (simp add: authentic_dynamic_def well_framed_def)
  from dynamic_requests_refused [OF wf_toy_crypto f] show ?thesis using c a u h(2,3) by (auto split: if_splits) metis
qed

end
