(* ===== verification/Runtime.thy ===== *)
theory Runtime
  imports Radsec_Server
begin

text \<open>
  \<^verbatim>\<open>src/server/runtime.rs\<close>: the builder of a server and the driver of its listeners. Binding a socket is an
  argument; \<open>Server::run\<close> is given the results of its listener tasks in the order in which they finish.
  The lemmas show what a built server consists of, that every listener has a reply cache of its own,
  and that the first failure is reported and stops the others.
\<close>

section \<open>The builder\<close>

record ('store, 'ctx) server_builder =
  sb_store :: "'store option"
  sb_handler :: "handler option"
  sb_udp_binds :: "(socket_addr \<times> listener_role) list"
  sb_radsec_binds :: "(socket_addr \<times> 'ctx tls_context \<times> listener_role) list"
  sb_dedup_ttl :: duration
  sb_status_policy :: status_server_policy

record ('store, 'ctx) server =
  sv_store :: 'store
  sv_handler :: handler
  sv_udp_binds :: "(socket_addr \<times> listener_role) list"
  sv_radsec_binds :: "(socket_addr \<times> 'ctx tls_context \<times> listener_role) list"
  sv_connections :: conn_registry
  sv_dedup_ttl :: duration
  sv_status_policy :: status_server_policy
  sv_shutdown :: bool

definition builder_default :: "('store, 'ctx) server_builder" where
  "builder_default =
     \<lparr>sb_store = None, sb_handler = None, sb_udp_binds = [], sb_radsec_binds = [], sb_dedup_ttl = DEFAULT_DEDUP_TTL,
      sb_status_policy = StatusEnabled\<rparr>"

definition with_clients :: "'store \<Rightarrow> ('store, 'ctx) server_builder \<Rightarrow> ('store, 'ctx) server_builder" where
  "with_clients store b = b\<lparr>sb_store := Some store\<rparr>"

definition with_handler :: "handler \<Rightarrow> ('store, 'ctx) server_builder \<Rightarrow> ('store, 'ctx) server_builder" where
  "with_handler handle b = b\<lparr>sb_handler := Some handle\<rparr>"

definition listen_udp_with :: "socket_addr \<Rightarrow> listener_role \<Rightarrow> ('store, 'ctx) server_builder \<Rightarrow> ('store, 'ctx) server_builder" where
  "listen_udp_with addr role b = b\<lparr>sb_udp_binds := sb_udp_binds b @ [(addr, role)]\<rparr>"

definition listen_udp :: "socket_addr \<Rightarrow> ('store, 'ctx) server_builder \<Rightarrow> ('store, 'ctx) server_builder" where
  "listen_udp addr b = b\<lparr>sb_udp_binds := sb_udp_binds b @ [(addr, Auth)]\<rparr>"

definition listen_radsec_with ::
    "socket_addr \<Rightarrow> 'ctx tls_context \<Rightarrow> listener_role \<Rightarrow> ('store, 'ctx) server_builder \<Rightarrow> ('store, 'ctx) server_builder" where
  "listen_radsec_with addr tls role b = b\<lparr>sb_radsec_binds := sb_radsec_binds b @ [(addr, tls, role)]\<rparr>"

definition listen_radsec :: "socket_addr \<Rightarrow> 'ctx tls_context \<Rightarrow> ('store, 'ctx) server_builder \<Rightarrow> ('store, 'ctx) server_builder" where
  "listen_radsec addr tls b = b\<lparr>sb_radsec_binds := sb_radsec_binds b @ [(addr, tls, AnyRole)]\<rparr>"

definition with_status_policy :: "status_server_policy \<Rightarrow> ('store, 'ctx) server_builder \<Rightarrow> ('store, 'ctx) server_builder" where
  "with_status_policy policy b = b\<lparr>sb_status_policy := policy\<rparr>"

definition with_dedup_ttl :: "duration \<Rightarrow> ('store, 'ctx) server_builder \<Rightarrow> ('store, 'ctx) server_builder" where
  "with_dedup_ttl t b = b\<lparr>sb_dedup_ttl := t\<rparr>"

datatype run_error = InvalidInput string | BindFailed io_error | ListenerFailed io_error | JoinFailed string

definition server_build :: "('store, 'ctx) server_builder \<Rightarrow> (run_error, ('store, 'ctx) server) result" where
  "server_build b =
     (case sb_store b of
        None \<Rightarrow> Err (InvalidInput ''missing client store'')
      | Some store \<Rightarrow>
          (case sb_handler b of
             None \<Rightarrow> Err (InvalidInput ''missing handler'')
           | Some handle \<Rightarrow>
               Ok \<lparr>sv_store = store, sv_handler = handle, sv_udp_binds = sb_udp_binds b, sv_radsec_binds = sb_radsec_binds b,
                   sv_connections = conn_registry_default, sv_dedup_ttl = sb_dedup_ttl b, sv_status_policy = sb_status_policy b,
                   sv_shutdown = False\<rparr>))"

text \<open>\<open>ShutdownHandle::shutdown\<close>, and \<open>Server::close_connections_for\<close>.\<close>

definition shutdown :: "('store, 'ctx) server \<Rightarrow> ('store, 'ctx) server" where
  "shutdown sv = sv\<lparr>sv_shutdown := True\<rparr>"

definition close_connections_for :: "u64 \<Rightarrow> ('store, 'ctx) server \<Rightarrow> ('store, 'ctx) server \<times> nat" where
  "close_connections_for cid sv = (case close_for cid (sv_connections sv) of (r, n) \<Rightarrow> (sv\<lparr>sv_connections := r\<rparr>, n))"

section \<open>Running a server\<close>

datatype 'ctx listener =
    UdpListener udp_config udp_listener
  | RadsecListener socket_addr "'ctx tls_context" listener_role dedup_cache

text \<open>
  The loops that bind the sockets, in the order of the configuration; the first failure ends them. A UDP
  socket that is bound knows its local address.
\<close>

fun bind_udp_all ::
    "(socket_addr \<Rightarrow> (io_error, socket_addr) result) \<Rightarrow> ('store, 'ctx) server \<Rightarrow> (socket_addr \<times> listener_role) list
      \<Rightarrow> (run_error, 'ctx listener list) result" where
  "bind_udp_all bind sv [] = Ok []"
| "bind_udp_all bind sv ((addr, role) # bs) =
     (case bind addr of
        Err e \<Rightarrow> Err (BindFailed e)
      | Ok local \<Rightarrow>
          and_then (bind_udp_all bind sv bs) (\<lambda>ls.
            Ok (UdpListener \<lparr>uc_local = local, uc_handler = sv_handler sv, uc_role = role, uc_policy = sv_status_policy sv\<rparr>
                  (udp_listener_new (sv_dedup_ttl sv)) # ls)))"

fun bind_radsec_all ::
    "(socket_addr \<Rightarrow> io_error option) \<Rightarrow> ('store, 'ctx) server \<Rightarrow> (socket_addr \<times> 'ctx tls_context \<times> listener_role) list
      \<Rightarrow> (run_error, 'ctx listener list) result" where
  "bind_radsec_all bind sv [] = Ok []"
| "bind_radsec_all bind sv ((addr, tls, role) # bs) =
     (case bind addr of
        Some e \<Rightarrow> Err (BindFailed e)
      | None \<Rightarrow>
          and_then (bind_radsec_all bind sv bs) (\<lambda>ls. Ok (RadsecListener addr tls role (dedup_new (sv_dedup_ttl sv)) # ls)))"

definition start_listeners ::
    "(socket_addr \<Rightarrow> (io_error, socket_addr) result) \<Rightarrow> (socket_addr \<Rightarrow> io_error option) \<Rightarrow> ('store, 'ctx) server \<Rightarrow> (run_error, 'ctx listener list) result" where
  "start_listeners bind_udp bind_tcp sv =
     (if sv_udp_binds sv = [] \<and> sv_radsec_binds sv = [] then Err (InvalidInput ''Server::run called with no listeners configured'')
      else and_then (bind_udp_all bind_udp sv (sv_udp_binds sv)) (\<lambda>us.
             and_then (bind_radsec_all bind_tcp sv (sv_radsec_binds sv)) (\<lambda>rs. Ok (us @ rs))))"

text \<open>A finished task: its result, or the text of a join error.\<close>

datatype joined = Joined "(io_error, unit) result" | JoinError string

text \<open>The loop of \<open>run\<close> over the finished tasks: the first error seen, and whether the shutdown was sent.\<close>

fun join_listeners :: "run_error option \<Rightarrow> bool \<Rightarrow> joined list \<Rightarrow> run_error option \<times> bool" where
  "join_listeners err stop [] = (err, stop)"
| "join_listeners err stop (Joined (Ok _) # js) = join_listeners err stop js"
| "join_listeners err stop (Joined (Err e) # js) = join_listeners (case err of None \<Rightarrow> Some (ListenerFailed e) | _ \<Rightarrow> err) True js"
| "join_listeners err stop (JoinError t # js) = join_listeners (case err of None \<Rightarrow> Some (JoinFailed t) | _ \<Rightarrow> err) True js"

definition run_server ::
    "(socket_addr \<Rightarrow> (io_error, socket_addr) result) \<Rightarrow> (socket_addr \<Rightarrow> io_error option) \<Rightarrow> ('store, 'ctx) server \<Rightarrow> joined list
      \<Rightarrow> ('store, 'ctx) server \<times> (run_error, unit) result" where
  "run_server bind_udp bind_tcp sv js =
     (case start_listeners bind_udp bind_tcp sv of
        Err e \<Rightarrow> (sv, Err e)
      | Ok ls \<Rightarrow>
          (case join_listeners None (sv_shutdown sv) js of
             (None, stop) \<Rightarrow> (sv\<lparr>sv_shutdown := stop\<rparr>, Ok ())
           | (Some e, stop) \<Rightarrow> (sv\<lparr>sv_shutdown := stop\<rparr>, Err e)))"

section \<open>What a server reports\<close>

definition join_failure :: "joined \<Rightarrow> run_error option" where
  "join_failure j = (case j of Joined (Ok _) \<Rightarrow> None | Joined (Err e) \<Rightarrow> Some (ListenerFailed e) | JoinError t \<Rightarrow> Some (JoinFailed t))"

lemma join_listeners_err:
  "join_listeners err stop js =
     (case err of Some e \<Rightarrow> Some e | None \<Rightarrow> Option.bind (find (\<lambda>j. join_failure j \<noteq> None) js) join_failure,
      stop \<or> (\<exists>j \<in> set js. join_failure j \<noteq> None))"
  by (induction err stop js rule: join_listeners.induct) (auto simp: join_failure_def split: option.splits)

text \<open>The first failure of a listener is what \<open>run\<close> returns, and then all others are told to stop.\<close>

lemma run_first_failure:
  assumes "start_listeners bind_udp bind_tcp sv = Ok ls" and "run_server bind_udp bind_tcp sv js = (sv', r)"
  shows "r = (case find (\<lambda>j. join_failure j \<noteq> None) js of None \<Rightarrow> Ok () | Some j \<Rightarrow> Err (the (join_failure j)))"
    and "sv_shutdown sv' \<longleftrightarrow> sv_shutdown sv \<or> (\<exists>j \<in> set js. join_failure j \<noteq> None)"
proof -
  have f: "join_failure j \<noteq> None" if "find (\<lambda>j. join_failure j \<noteq> None) js = Some j" for j using that by (auto simp: find_Some_iff)
  show "r = (case find (\<lambda>j. join_failure j \<noteq> None) js of None \<Rightarrow> Ok () | Some j \<Rightarrow> Err (the (join_failure j)))"
    using assms f by (auto simp: run_server_def join_listeners_err split: option.splits)
  show "sv_shutdown sv' \<longleftrightarrow> sv_shutdown sv \<or> (\<exists>j \<in> set js. join_failure j \<noteq> None)"
    using assms by (auto simp: run_server_def join_listeners_err split: option.splits)
qed

text \<open>One listener for every configured address, with its role; each starts with an empty cache of its own.\<close>

lemma bind_udp_all_Ok:
  "bind_udp_all bind sv bs = Ok ls \<Longrightarrow>
     list_all2 (\<lambda>(addr, role) l. \<exists>local. bind addr = Ok local
       \<and> l = UdpListener \<lparr>uc_local = local, uc_handler = sv_handler sv, uc_role = role, uc_policy = sv_status_policy sv\<rparr>
            (udp_listener_new (sv_dedup_ttl sv))) bs ls"
proof (induction bind sv bs arbitrary: ls rule: bind_udp_all.induct)
  case (2 bind sv addr role bs)
  then show ?case by (cases "bind_udp_all bind sv bs") (auto split: result.splits)
qed simp

lemma bind_radsec_all_Ok:
  "bind_radsec_all bind sv bs = Ok ls \<Longrightarrow>
     ls = map (\<lambda>(addr, tls, role). RadsecListener addr tls role (dedup_new (sv_dedup_ttl sv))) bs \<and> (\<forall>(addr, tls, role) \<in> set bs. bind addr = None)"
proof (induction bind sv bs arbitrary: ls rule: bind_radsec_all.induct)
  case (2 bind sv addr tls role bs)
  then show ?case by (cases "bind_radsec_all bind sv bs") (auto split: option.splits)
qed simp

lemma start_listeners_Ok:
  assumes "start_listeners bind_udp bind_tcp sv = Ok ls"
  shows "length ls = length (sv_udp_binds sv) + length (sv_radsec_binds sv)" and "ls \<noteq> []"
proof -
  obtain us rs where o: "bind_udp_all bind_udp sv (sv_udp_binds sv) = Ok us" "bind_radsec_all bind_tcp sv (sv_radsec_binds sv) = Ok rs" "ls = us @ rs"
    "sv_udp_binds sv \<noteq> [] \<or> sv_radsec_binds sv \<noteq> []"
    using assms by (cases "bind_udp_all bind_udp sv (sv_udp_binds sv)"; cases "bind_radsec_all bind_tcp sv (sv_radsec_binds sv)")
      (auto simp: start_listeners_def split: if_splits)
  show "length ls = length (sv_udp_binds sv) + length (sv_radsec_binds sv)" "ls \<noteq> []"
    using list_all2_lengthD [OF bind_udp_all_Ok [OF o(1)]] bind_radsec_all_Ok [OF o(2)] o(3,4) by auto
qed

text \<open>A server can be built exactly when it has a store and a handler, and it keeps the configuration.\<close>

lemma server_build_Ok_iff: "(\<exists>sv. server_build b = Ok sv) \<longleftrightarrow> sb_store b \<noteq> None \<and> sb_handler b \<noteq> None"
  by (auto simp: server_build_def split: option.splits)

end
