(* ===== verification/Dispatch.thy ===== *)
theory Dispatch
  imports Pipeline
begin

text \<open>
  The concurrent part of \<^verbatim>\<open>src/server/dedup.rs\<close> (\<open>lock_request\<close>, \<open>RequestCleanup\<close>) under the tasks
  that run \<open>dispatch_validated\<close> of \<^verbatim>\<open>src/server/pipeline.rs\<close>. Each step is one critical section of the
  code: a cache lookup, the lookup-or-create of the gate of a key, taking the gate's mutex,
  storing the reply, dropping the reservation, and the clean-up that runs after the last owner of
  a gate is gone. A gate is named by a number; a task owns a gate while it waits for or
  holds its mutex, and the map of gates holds weak references. A task may be cancelled at any
  point. The theorems show that two tasks never handle the same request at once, that the handler
  never runs for a request whose reply is cached, and that the map of gates does not leak.
\<close>

section \<open>State\<close>

datatype phase =
    Idle
  | Missed dedup_key
  | Waiting dedup_key nat
  | Locked dedup_key nat
  | Handling dedup_key nat

record race =
  phase_of :: "nat \<Rightarrow> phase"
  gate_map :: "dedup_key \<rightharpoonup> nat"
  next_gate :: nat
  cleanups :: "(nat \<times> dedup_key) list"
  reply_cache :: dedup_cache
  clock :: instant

fun owned :: "phase \<Rightarrow> (dedup_key \<times> nat) option" where
  "owned Idle = None"
| "owned (Missed _) = None"
| "owned (Waiting k g) = Some (k, g)"
| "owned (Locked k g) = Some (k, g)"
| "owned (Handling k g) = Some (k, g)"

fun holds :: "phase \<Rightarrow> nat \<Rightarrow> bool" where
  "holds (Locked _ g) g' = (g = g')"
| "holds (Handling _ g) g' = (g = g')"
| "holds _ _ = False"

definition gate_of :: "phase \<Rightarrow> nat option" where
  "gate_of p = map_option snd (owned p)"

definition alive :: "race \<Rightarrow> nat \<Rightarrow> bool" where
  "alive s g \<longleftrightarrow> (\<exists>t. gate_of (phase_of s t) = Some g)"

definition race_init :: "duration \<Rightarrow> race" where
  "race_init d = \<lparr>phase_of = (\<lambda>_. Idle), gate_map = Map.empty, next_gate = 0, cleanups = [],
                  reply_cache = dedup_new d, clock = 0\<rparr>"

definition set_phase :: "nat \<Rightarrow> phase \<Rightarrow> race \<Rightarrow> race" where
  "set_phase t p s = s\<lparr>phase_of := (phase_of s)(t := p)\<rparr>"

text \<open>\<open>lock_request\<close> up to its \<open>await\<close>: upgrade the weak reference or install a new gate.\<close>

definition take_gate :: "nat \<Rightarrow> dedup_key \<Rightarrow> race \<Rightarrow> race" where
  "take_gate t k s =
     (case gate_map s k of
        Some g \<Rightarrow>
          if alive s g then set_phase t (Waiting k g) s
          else set_phase t (Waiting k (next_gate s))
                 (s\<lparr>gate_map := (gate_map s)(k \<mapsto> next_gate s), next_gate := next_gate s + 1\<rparr>)
      | None \<Rightarrow>
          set_phase t (Waiting k (next_gate s))
            (s\<lparr>gate_map := (gate_map s)(k \<mapsto> next_gate s), next_gate := next_gate s + 1\<rparr>))"

text \<open>Drop what the task owns; the last owner leaves a clean-up to be run.\<close>

definition release_gate :: "nat \<Rightarrow> race \<Rightarrow> race" where
  "release_gate t s =
     (let s' = set_phase t Idle s
      in case owned (phase_of s t) of
           None \<Rightarrow> s'
         | Some (k, g) \<Rightarrow> if alive s' g then s' else s'\<lparr>cleanups := (g, k) # cleanups s'\<rparr>)"

text \<open>\<open>RequestCleanup::drop\<close>: remove the map entry if it still refers to this gate.\<close>

definition run_cleanup :: "nat \<times> dedup_key \<Rightarrow> race \<Rightarrow> race" where
  "run_cleanup c s =
     (case c of (g, k) \<Rightarrow>
       s\<lparr>cleanups := remove1 (g, k) (cleanups s),
         gate_map := (if gate_map s k = Some g then (gate_map s)(k := None) else gate_map s)\<rparr>)"

section \<open>Steps\<close>

inductive race_step :: "(dedup_key \<Rightarrow> u64) \<Rightarrow> race \<Rightarrow> race \<Rightarrow> bool" for hash where
  Tick: "clock s \<le> now \<Longrightarrow> race_step hash s (s\<lparr>clock := now\<rparr>)"
| FirstHit: "phase_of s t = Idle \<Longrightarrow> dedup_lookup hash (clock s) k (reply_cache s) = (c, Some bs) \<Longrightarrow>
    race_step hash s (s\<lparr>reply_cache := c\<rparr>)"
| FirstMiss: "phase_of s t = Idle \<Longrightarrow> dedup_lookup hash (clock s) k (reply_cache s) = (c, None) \<Longrightarrow>
    race_step hash s (set_phase t (Missed k) (s\<lparr>reply_cache := c\<rparr>))"
| TakeGate: "phase_of s t = Missed k \<Longrightarrow> race_step hash s (take_gate t k s)"
| Lock: "phase_of s t = Waiting k g \<Longrightarrow> (\<And>u. \<not> holds (phase_of s u) g) \<Longrightarrow>
    race_step hash s (set_phase t (Locked k g) s)"
| SecondHit: "phase_of s t = Locked k g \<Longrightarrow> dedup_lookup hash (clock s) k (reply_cache s) = (c, Some bs) \<Longrightarrow>
    race_step hash s (release_gate t (s\<lparr>reply_cache := c\<rparr>))"
| SecondMiss: "phase_of s t = Locked k g \<Longrightarrow> dedup_lookup hash (clock s) k (reply_cache s) = (c, None) \<Longrightarrow>
    race_step hash s (set_phase t (Handling k g) (s\<lparr>reply_cache := c\<rparr>))"
| Reply: "phase_of s t = Handling k g \<Longrightarrow>
    race_step hash s (release_gate t (s\<lparr>reply_cache := dedup_insert hash (clock s) k bs (reply_cache s)\<rparr>))"
| NoReply: "phase_of s t = Handling k g \<Longrightarrow> race_step hash s (release_gate t s)"
| Cancel: "race_step hash s (release_gate t s)"
| Cleanup: "c \<in> set (cleanups s) \<Longrightarrow> race_step hash s (run_cleanup c s)"

inductive race_reachable :: "(dedup_key \<Rightarrow> u64) \<Rightarrow> duration \<Rightarrow> race \<Rightarrow> bool" for hash d where
  Init: "race_reachable hash d (race_init d)"
| Step: "race_reachable hash d s \<Longrightarrow> race_step hash s s' \<Longrightarrow> race_reachable hash d s'"

section \<open>The gate invariant\<close>

text \<open>Everything that concerns gates; the cache plays no part in it.\<close>

definition gates_ok :: "race \<Rightarrow> bool" where
  "gates_ok s \<longleftrightarrow>
     (\<forall>t k g. owned (phase_of s t) = Some (k, g) \<longrightarrow> gate_map s k = Some g)
     \<and> (\<forall>t u g. holds (phase_of s t) g \<and> holds (phase_of s u) g \<longrightarrow> t = u)
     \<and> (\<forall>k g. gate_map s k = Some g \<longrightarrow> g < next_gate s)
     \<and> (\<forall>k k' g. gate_map s k = Some g \<and> gate_map s k' = Some g \<longrightarrow> k = k')
     \<and> (\<forall>g k. (g, k) \<in> set (cleanups s) \<longrightarrow> g < next_gate s \<and> \<not> alive s g)
     \<and> (\<forall>k g. gate_map s k = Some g \<longrightarrow> alive s g \<or> (g, k) \<in> set (cleanups s))
     \<and> distinct (cleanups s)"

declare split_paired_All [simp del] split_paired_Ex [simp del]

lemma gate_of_owned: "owned p = Some (k, g) \<Longrightarrow> gate_of p = Some g"
  by (simp add: gate_of_def)

lemma gate_of_phase [simp]:
  "gate_of Idle = None" "gate_of (Missed k) = None" "gate_of (Waiting k g) = Some g"
  by (simp_all add: gate_of_def)

lemma owned_None_gate: "owned p = None \<Longrightarrow> gate_of p = None"
  by (simp add: gate_of_def)

lemma gate_of_SomeE: "gate_of p = Some g \<Longrightarrow> \<exists>k. owned p = Some (k, g)"
  by (cases "owned p") (auto simp: gate_of_def)

lemma holds_owned: "holds p g \<Longrightarrow> \<exists>k. owned p = Some (k, g)"
  by (cases p) auto

lemma gates_okD:
  assumes "gates_ok s"
  shows "owned (phase_of s t) = Some (k, g) \<Longrightarrow> gate_map s k = Some g"
    and "holds (phase_of s t) g \<Longrightarrow> holds (phase_of s u) g \<Longrightarrow> t = u"
    and "gate_map s k = Some g \<Longrightarrow> g < next_gate s"
    and "gate_map s k = Some g \<Longrightarrow> gate_map s k' = Some g \<Longrightarrow> k = k'"
    and "(g, k) \<in> set (cleanups s) \<Longrightarrow> g < next_gate s \<and> \<not> alive s g"
    and "gate_map s k = Some g \<Longrightarrow> alive s g \<or> (g, k) \<in> set (cleanups s)"
    and "distinct (cleanups s)"
  using assms unfolding gates_ok_def by blast+

lemma gates_okI:
  assumes "\<And>t k g. owned (phase_of s t) = Some (k, g) \<Longrightarrow> gate_map s k = Some g"
    and "\<And>t u g. holds (phase_of s t) g \<Longrightarrow> holds (phase_of s u) g \<Longrightarrow> t = u"
    and "\<And>k g. gate_map s k = Some g \<Longrightarrow> g < next_gate s"
    and "\<And>k k' g. gate_map s k = Some g \<Longrightarrow> gate_map s k' = Some g \<Longrightarrow> k = k'"
    and "\<And>g k. (g, k) \<in> set (cleanups s) \<Longrightarrow> g < next_gate s \<and> \<not> alive s g"
    and "\<And>k g. gate_map s k = Some g \<Longrightarrow> alive s g \<or> (g, k) \<in> set (cleanups s)"
    and "distinct (cleanups s)"
  shows "gates_ok s"
  unfolding gates_ok_def using assms by blast

lemma gates_ok_cong:
  "phase_of s = phase_of s' \<Longrightarrow> gate_map s = gate_map s' \<Longrightarrow> next_gate s = next_gate s' \<Longrightarrow>
     cleanups s = cleanups s' \<Longrightarrow> gates_ok s = gates_ok s'"
  by (simp add: gates_ok_def alive_def)

lemma set_phase_fields [simp]:
  "gate_map (set_phase t p s) = gate_map s" "next_gate (set_phase t p s) = next_gate s"
  "cleanups (set_phase t p s) = cleanups s" "phase_of (set_phase t p s) = (phase_of s)(t := p)"
  "reply_cache (set_phase t p s) = reply_cache s" "clock (set_phase t p s) = clock s"
  by (simp_all add: set_phase_def)

lemma alive_set_phase:
  assumes "gate_of (phase_of s t) \<noteq> Some x"
  shows "alive (set_phase t p s) x \<longleftrightarrow> gate_of p = Some x \<or> alive s x"
proof -
  have "alive (set_phase t p s) x \<longleftrightarrow> (\<exists>u. gate_of (if u = t then p else phase_of s u) = Some x)"
    by (simp add: alive_def)
  then show ?thesis using assms unfolding alive_def by metis
qed

text \<open>Changing the phase of a task without changing what it owns.\<close>

lemma alive_set_phase_same:
  "owned p = owned (phase_of s t) \<Longrightarrow> alive (set_phase t p s) g = alive s g"
proof -
  assume "owned p = owned (phase_of s t)"
  then have "gate_of (phase_of (set_phase t p s) u) = gate_of (phase_of s u)" for u by (simp add: gate_of_def)
  then show ?thesis by (simp add: alive_def del: set_phase_fields)
qed

lemma gates_ok_set_phase:
  assumes "gates_ok s" and "owned p = owned (phase_of s t)"
    and "\<And>g u. holds p g \<Longrightarrow> holds (phase_of s u) g \<Longrightarrow> u = t"
  shows "gates_ok (set_phase t p s)"
proof -
  note I = gates_okD [OF assms(1)]
  have own: "owned (phase_of (set_phase t p s) u) = owned (phase_of s u)" for u using assms(2) by simp
  show ?thesis
  proof (rule gates_okI)
    fix u v g
    assume "holds (phase_of (set_phase t p s) u) g" "holds (phase_of (set_phase t p s) v) g"
    then show "u = v" using assms(3) I(2) [of u g v] by (auto split: if_splits)
  next
    fix u k g
    assume "owned (phase_of (set_phase t p s) u) = Some (k, g)"
    then have "owned (phase_of s u) = Some (k, g)" by (simp only: own)
    then show "gate_map (set_phase t p s) k = Some g" using I(1) by simp
  qed (use I(3-7) alive_set_phase_same [OF assms(2)] in auto)
qed

lemma not_alive_owned: "\<not> alive s g \<Longrightarrow> owned (phase_of s t) \<noteq> Some (k, g)"
  by (auto simp: alive_def dest: gate_of_owned)

lemma alive_gate: "gates_ok s \<Longrightarrow> alive s g \<Longrightarrow> \<exists>k. gate_map s k = Some g"
  by (auto simp: alive_def dest!: gate_of_SomeE intro: gates_okD(1))

text \<open>Joining a living gate, and installing a new one.\<close>

lemma gates_ok_join:
  assumes "gates_ok s" and "owned (phase_of s t) = None" and "gate_map s k = Some g" and "alive s g"
  shows "gates_ok (set_phase t (Waiting k g) s)"
proof -
  note I = gates_okD [OF assms(1)]
  have al: "alive (set_phase t (Waiting k g) s) x \<longleftrightarrow> alive s x" for x
    using alive_set_phase [of s t x "Waiting k g"] owned_None_gate [OF assms(2)] assms(4) by auto
  have nh: "\<not> holds (phase_of s t) x" for x using assms(2) holds_owned by fastforce
  show ?thesis
  proof (rule gates_okI)
    fix u j x
    assume "owned (phase_of (set_phase t (Waiting k g) s) u) = Some (j, x)"
    then show "gate_map (set_phase t (Waiting k g) s) j = Some x" using I(1) assms(3) by (auto split: if_splits)
  next
    fix u v x
    assume "holds (phase_of (set_phase t (Waiting k g) s) u) x" "holds (phase_of (set_phase t (Waiting k g) s) v) x"
    then show "u = v" using I(2) [of u x v] by (auto split: if_splits)
  qed (use I(3-7) al in auto)
qed

lemma gates_ok_install:
  assumes "gates_ok s" and "owned (phase_of s t) = None" and "\<And>g. gate_map s k = Some g \<Longrightarrow> \<not> alive s g"
  shows "gates_ok (set_phase t (Waiting k (next_gate s))
    (s\<lparr>gate_map := (gate_map s)(k \<mapsto> next_gate s), next_gate := next_gate s + 1\<rparr>))" (is "gates_ok ?s")
proof -
  note I = gates_okD [OF assms(1)]
  let ?n = "next_gate s"
  have al: "alive ?s x \<longleftrightarrow> alive s x \<or> x = ?n" for x
    using alive_set_phase [of "s\<lparr>gate_map := (gate_map s)(k \<mapsto> ?n), next_gate := ?n + 1\<rparr>" t x "Waiting k ?n"]
      owned_None_gate [OF assms(2)] by (auto simp: alive_def)
  have fresh: "\<not> alive s ?n" using alive_gate [OF assms(1), of ?n] I(3) by blast
  have nokey: "owned (phase_of s u) \<noteq> Some (k, x)" for u x
    using I(1) [of u k x] assms(3) not_alive_owned by blast
  show ?thesis
  proof (rule gates_okI)
    fix u j x
    assume "owned (phase_of ?s u) = Some (j, x)"
    then show "gate_map ?s j = Some x" using I(1) [of u j x] nokey by (auto split: if_splits)
  next
    fix u v x
    assume "holds (phase_of ?s u) x" "holds (phase_of ?s v) x"
    then show "u = v" using I(2) [of u x v] by (auto split: if_splits)
  next
    fix j x
    assume "gate_map ?s j = Some x"
    then show "x < next_gate ?s" using I(3) [of j x] by (auto split: if_splits)
  next
    fix j j' x
    assume "gate_map ?s j = Some x" "gate_map ?s j' = Some x"
    then show "j = j'" using I(3) [of j x] I(3) [of j' x] I(4) [of j x j'] by (auto split: if_splits)
  next
    fix x j
    assume "(x, j) \<in> set (cleanups ?s)"
    then show "x < next_gate ?s \<and> \<not> alive ?s x" using I(5) [of x j] al by auto
  next
    fix j x
    assume "gate_map ?s j = Some x"
    then show "alive ?s x \<or> (x, j) \<in> set (cleanups ?s)" using I(6) [of j x] al by (auto split: if_splits)
  qed (use I(7) in simp)
qed

lemma gates_ok_take_gate:
  assumes "gates_ok s" and "owned (phase_of s t) = None"
  shows "gates_ok (take_gate t k s)"
  using gates_ok_join [OF assms] gates_ok_install [OF assms, of k]
  by (auto simp: take_gate_def split: option.splits)

lemma gates_ok_release:
  assumes "gates_ok s"
  shows "gates_ok (release_gate t s)"
proof (cases "owned (phase_of s t)")
  case None
  then have "gates_ok (set_phase t Idle s)" using gates_ok_set_phase [OF assms, of Idle t] by simp
  then show ?thesis using None by (simp add: release_gate_def)
next
  case (Some kg)
  obtain k g where kg: "owned (phase_of s t) = Some (k, g)" using Some by (cases kg) simp
  note I = gates_okD [OF assms]
  let ?s' = "set_phase t Idle s"
  have mono: "alive ?s' x \<Longrightarrow> alive s x" for x by (auto simp: alive_def split: if_splits)
  have other: "alive ?s' x \<longleftrightarrow> alive s x" if "x \<noteq> g" for x
    using that gate_of_owned [OF kg] alive_set_phase [of s t x Idle] by simp
  have map: "gate_map s k = Some g" by (rule I(1) [OF kg])
  have nc: "(g, j) \<notin> set (cleanups s)" for j using I(5) not_alive_owned kg by blast
  have fields: "phase_of (release_gate t s) = (phase_of s)(t := Idle)" "gate_map (release_gate t s) = gate_map s"
    "next_gate (release_gate t s) = next_gate s" "alive (release_gate t s) = alive ?s'"
    "cleanups (release_gate t s) = (if alive ?s' g then cleanups s else (g, k) # cleanups s)"
    by (auto simp: release_gate_def kg Let_def alive_def fun_eq_iff)
  show ?thesis
  proof (rule gates_okI)
    fix u j x
    assume "owned (phase_of (release_gate t s) u) = Some (j, x)"
    then show "gate_map (release_gate t s) j = Some x" using I(1) by (auto simp: fields split: if_splits)
  next
    fix u v x
    assume "holds (phase_of (release_gate t s) u) x" "holds (phase_of (release_gate t s) v) x"
    then show "u = v" using I(2) [of u x v] by (auto simp: fields split: if_splits)
  next
    fix x j
    assume "(x, j) \<in> set (cleanups (release_gate t s))"
    then show "x < next_gate (release_gate t s) \<and> \<not> alive (release_gate t s) x"
      using I(5) [of x j] I(3) [OF map] mono by (auto simp: fields split: if_splits)
  next
    fix j x
    assume "gate_map (release_gate t s) j = Some x"
    then show "alive (release_gate t s) x \<or> (x, j) \<in> set (cleanups (release_gate t s))"
      using I(6) [of j x] I(4) [of j x k] map other [of x] by (cases "x = g") (auto simp: fields)
  qed (use I(3,4,7) nc in \<open>auto simp: fields\<close>)
qed

lemma gates_ok_cleanup:
  assumes "gates_ok s" and "(g, k) \<in> set (cleanups s)"
  shows "gates_ok (run_cleanup (g, k) s)" (is "gates_ok ?s")
proof -
  note I = gates_okD [OF assms(1)]
  have dead: "\<not> alive s g" using I(5) [OF assms(2)] by simp
  have al: "alive ?s = alive s" by (simp add: fun_eq_iff alive_def run_cleanup_def)
  have fields: "phase_of ?s = phase_of s" "next_gate ?s = next_gate s" "cleanups ?s = remove1 (g, k) (cleanups s)"
    "gate_map ?s = (if gate_map s k = Some g then (gate_map s)(k := None) else gate_map s)"
    by (simp_all add: run_cleanup_def)
  show ?thesis
  proof (rule gates_okI)
    fix u j x
    assume "owned (phase_of ?s u) = Some (j, x)"
    then show "gate_map ?s j = Some x"
      using I(1) [of u j x] not_alive_owned [OF dead, of u k] by (auto simp: fields)
  next
    fix j x
    assume "gate_map ?s j = Some x"
    then show "alive ?s x \<or> (x, j) \<in> set (cleanups ?s)"
      using I(6) [of j x] by (auto simp: fields al set_remove1_eq [OF I(7)] split: if_splits)
  qed (use I(2-5,7) in \<open>auto simp: fields al split: if_splits dest: set_remove1_subset [THEN subsetD]\<close>)
qed

lemma gates_ok_step: "race_step hash s s' \<Longrightarrow> gates_ok s \<Longrightarrow> gates_ok s'"
proof (induction rule: race_step.induct)
  case (FirstMiss s t k c)
  then show ?case
    using gates_ok_set_phase [of "s\<lparr>reply_cache := c\<rparr>" "Missed k" t] gates_ok_cong [of "s\<lparr>reply_cache := c\<rparr>" s] by simp
next
  case (TakeGate s t k)
  then show ?case by (intro gates_ok_take_gate) simp_all
next
  case (Lock s t k g)
  then show ?case by (intro gates_ok_set_phase) auto
next
  case (SecondHit s t k g c bs)
  then show ?case using gates_ok_cong [of "s\<lparr>reply_cache := c\<rparr>" s] by (intro gates_ok_release) simp
next
  case (SecondMiss s t k g c)
  then show ?case
    using gates_ok_cong [of "s\<lparr>reply_cache := c\<rparr>" s] gates_okD(2) [of s _ g t]
    by (intro gates_ok_set_phase) auto
next
  case (Reply s t k g bs)
  then show ?case
    using gates_ok_cong [of "s\<lparr>reply_cache := dedup_insert hash (clock s) k bs (reply_cache s)\<rparr>" s]
    by (intro gates_ok_release) simp
next
  case (Cleanup c s)
  obtain g k where "c = (g, k)" by (cases c)
  then show ?case using Cleanup gates_ok_cleanup [of s g k] by simp
qed (auto intro: gates_ok_release simp: gates_ok_cong [of "_\<lparr>clock := _\<rparr>" _] gates_ok_cong [of "_\<lparr>reply_cache := _\<rparr>" _])

lemma gates_ok_reachable: "race_reachable hash d s \<Longrightarrow> gates_ok s"
proof (induction rule: race_reachable.induct)
  case Init
  show ?case by (simp add: gates_ok_def race_init_def)
qed (rule gates_ok_step)

text \<open>
  C5: whatever the interleaving of retransmissions, cancellations and clean-ups, two tasks never
  handle the same request at the same time.
\<close>

theorem handler_exclusive:
  assumes "race_reachable hash d s" and "phase_of s t = Handling k g" and "phase_of s u = Handling k g'"
  shows "t = u"
proof -
  note I = gates_okD [OF gates_ok_reachable [OF assms(1)]]
  have "gate_map s k = Some g" "gate_map s k = Some g'"
    using I(1) [of t k g] I(1) [of u k g'] assms(2,3) by simp_all
  then show ?thesis using I(2) [of t g u] assms(2,3) by simp
qed

text \<open>
  The map of gates does not leak: an entry of the map is in use by some task or is about to
  be removed by a pending clean-up, so a server without tasks and clean-ups has an empty map.
\<close>

theorem gates_do_not_leak:
  assumes "race_reachable hash d s"
  shows "(gate_map s k = Some g \<longrightarrow>
      (\<exists>t. owned (phase_of s t) = Some (k, g)) \<or> (g, k) \<in> set (cleanups s))
    \<and> ((\<forall>t. owned (phase_of s t) = None) \<and> cleanups s = [] \<longrightarrow> gate_map s = Map.empty)"
proof -
  note I = gates_okD [OF gates_ok_reachable [OF assms]]
  have use: "(\<exists>t. owned (phase_of s t) = Some (j, x)) \<or> (x, j) \<in> set (cleanups s)" if m: "gate_map s j = Some x" for j x
  proof (cases "alive s x")
    case True
    then obtain t j' where o: "owned (phase_of s t) = Some (j', x)"
      unfolding alive_def by (metis gate_of_SomeE)
    then have "j' = j" using I(1) [OF o] I(4) m by blast
    then show ?thesis using o by blast
  next
    case False
    then show ?thesis using I(6) [OF m] by simp
  qed
  moreover have "gate_map s = Map.empty" if "\<forall>t. owned (phase_of s t) = None" "cleanups s = []"
  proof
    fix j
    show "gate_map s j = None" using use [of j] that by (cases "gate_map s j") auto
  qed
  ultimately show ?thesis by blast
qed

section \<open>The handler and the cache\<close>

definition live :: "(dedup_key \<Rightarrow> u64) \<Rightarrow> race \<Rightarrow> dedup_key \<Rightarrow> bool" where
  "live hash s k \<longleftrightarrow> (\<exists>e. dedup_map hash (reply_cache s) k = Some e \<and> clock s < entry_expires_at e)"

definition cache_inv :: "(dedup_key \<Rightarrow> u64) \<Rightarrow> race \<Rightarrow> bool" where
  "cache_inv hash s \<longleftrightarrow>
     dedup_ok (reply_cache s) \<and> (\<forall>t k g. phase_of s t = Handling k g \<longrightarrow> \<not> live hash s k)"

lemma release_fields [simp]:
  "reply_cache (release_gate t s) = reply_cache s" "clock (release_gate t s) = clock s"
  "phase_of (release_gate t s) = (phase_of s)(t := Idle)"
  by (simp_all add: release_gate_def Let_def split: option.splits prod.splits)

lemma take_gate_fields [simp]:
  "reply_cache (take_gate t k s) = reply_cache s" "clock (take_gate t k s) = clock s"
  "u \<noteq> t \<Longrightarrow> phase_of (take_gate t k s) u = phase_of s u"
  "phase_of (take_gate t k s) t \<noteq> Handling k' g"
  by (auto simp: take_gate_def split: option.splits)

lemma run_cleanup_fields [simp]:
  "reply_cache (run_cleanup c s) = reply_cache s" "clock (run_cleanup c s) = clock s"
  "phase_of (run_cleanup c s) = phase_of s"
  by (simp_all add: run_cleanup_def split: prod.splits)

lemma live_lookup:
  assumes "dedup_ok (reply_cache s)" and "dedup_lookup hash (clock s) k (reply_cache s) = (c, r)"
    and "reply_cache s' = c" and "clock s' = clock s"
  shows "live hash s' j \<longleftrightarrow> live hash s j" and "r = None \<Longrightarrow> \<not> live hash s k" and "dedup_ok c"
proof -
  note L = dedup_map_lookup [OF assms(1), of hash "clock s" k] and R = dedup_lookup_result [of hash "clock s" k "reply_cache s"]
  show "live hash s' j \<longleftrightarrow> live hash s j"
    using L [of j] R assms(2-4) by (auto simp: live_def split: option.splits if_splits)
  show "\<not> live hash s k" if "r = None"
    using R assms(2) that by (auto simp: live_def split: option.splits if_splits)
  show "dedup_ok c" using dedup_ok_lookup [OF assms(1), of hash "clock s" k] assms(2) by simp
qed

lemma live_insert_other:
  assumes "dedup_ok (reply_cache s)" and "j \<noteq> k"
    and "reply_cache s' = dedup_insert hash (clock s) k bs (reply_cache s)" and "clock s' = clock s"
  shows "live hash s' j \<longleftrightarrow> live hash s j"
proof (cases "dedup_map hash (reply_cache s') j = dedup_map hash (reply_cache s) j")
  case False
  then show ?thesis
    using dedup_map_insert_other [OF assms(1,2), of hash "clock s" bs] assms(3,4) by (auto simp: live_def)
qed (simp add: live_def assms(4))

lemma cache_inv_step:
  assumes "race_step hash s s'" and "gates_ok s" and "cache_inv hash s"
  shows "cache_inv hash s'"
  using assms
proof (induction rule: race_step.induct)
  case (Tick s now)
  then show ?case by (auto simp: cache_inv_def live_def) (meson le_less_trans)
next
  case (FirstHit s t k c bs)
  then show ?case
    using live_lookup [of s hash k c _ "s\<lparr>reply_cache := c\<rparr>"] by (auto simp: cache_inv_def)
next
  case (FirstMiss s t k c)
  then show ?case
    using live_lookup [of s hash k c _ "set_phase t (Missed k) (s\<lparr>reply_cache := c\<rparr>)"]
    by (auto simp: cache_inv_def split: if_splits)
next
  case (TakeGate s t k)
  then show ?case
    by (auto simp: cache_inv_def live_def) (metis take_gate_fields(3,4))+
next
  case (Lock s t k g)
  then show ?case by (auto simp: cache_inv_def live_def split: if_splits)
next
  case (SecondHit s t k g c bs)
  then show ?case
    using live_lookup [of s hash k c _ "release_gate t (s\<lparr>reply_cache := c\<rparr>)"] by (auto simp: cache_inv_def split: if_splits)
next
  case (SecondMiss s t k g c)
  then show ?case
    using live_lookup [of s hash k c _ "set_phase t (Handling k g) (s\<lparr>reply_cache := c\<rparr>)"]
    by (auto simp: cache_inv_def split: if_splits)
next
  case (Reply s t k g bs)
  let ?s = "release_gate t (s\<lparr>reply_cache := dedup_insert hash (clock s) k bs (reply_cache s)\<rparr>)"
  have "\<not> live hash ?s j" if "phase_of ?s u = Handling j x" for u j x
  proof -
    have u: "phase_of s u = Handling j x" "u \<noteq> t" using that by (auto split: if_splits)
    have "j \<noteq> k"
    proof
      assume "j = k"
      then have "gate_map s k = Some x" "gate_map s k = Some g"
        using gates_okD(1) [OF Reply.prems(1), of u k x] gates_okD(1) [OF Reply.prems(1), of t k g] u(1) Reply.hyps
        by simp_all
      then show False using gates_okD(2) [OF Reply.prems(1), of u g t] u Reply.hyps by simp
    qed
    then show ?thesis
      using live_insert_other [of s j k ?s hash bs] u(1) Reply.prems(2) by (auto simp: cache_inv_def)
  qed
  then show ?case using Reply.prems(2) dedup_ok_insert by (auto simp: cache_inv_def)
next
  case (NoReply s t k g)
  then show ?case by (auto simp: cache_inv_def live_def split: if_splits)
next
  case (Cancel s t)
  then show ?case by (auto simp: cache_inv_def live_def split: if_splits)
next
  case (Cleanup c s)
  then show ?case by (auto simp: cache_inv_def live_def)
qed

text \<open>
  C6: the handler never runs for a request whose reply is in the cache and has not expired, in
  any interleaving; together with the exclusion of concurrent handlers this makes the handler
  answer a request at most once within the cache's time.
\<close>

theorem handler_not_repeated:
  assumes "race_reachable hash d s" and "phase_of s t = Handling k g"
  shows "snd (dedup_lookup hash (clock s) k (reply_cache s)) = None"
proof -
  have "cache_inv hash s"
    using assms(1)
  proof (induction rule: race_reachable.induct)
    case Init
    show ?case by (simp add: cache_inv_def race_init_def dedup_ok_new)
  next
    case (Step s s')
    then show ?case using cache_inv_step gates_ok_reachable by blast
  qed
  then have "\<not> live hash s k" using assms(2) by (auto simp: cache_inv_def)
  then show ?thesis by (auto simp: live_def dedup_lookup_result split: option.splits)
qed

section \<open>A concrete run\<close>

abbreviation demo_key :: dedup_key where
  "demo_key \<equiv> (SocketV4 1 2, 1, 7, [])"

lemma demo_race:
  obtains s where "race_reachable (\<lambda>_. 3) 30 s" and "phase_of s 0 = Handling demo_key 0" and "gate_map s demo_key = Some 0"
    and "\<And>u. u \<noteq> 0 \<Longrightarrow> phase_of s u = Idle"
proof -
  let ?h = "\<lambda>_ :: dedup_key. 3 :: u64"
  have miss: "snd (dedup_lookup ?h t demo_key c) = None" if "dedup_map ?h c demo_key = None" for c t
    using that by (simp add: dedup_lookup_result)
  have m0: "dedup_map ?h (dedup_new 30) demo_key = None"
    using shard_for_less [of ?h demo_key] by (simp add: dedup_map_def dedup_new_def reply_shard_default_def)
  define c1 where "c1 = fst (dedup_lookup ?h 0 demo_key (dedup_new 30))"
  have m1: "dedup_map ?h c1 demo_key = None"
    using m0 by (simp add: c1_def dedup_map_lookup [OF dedup_ok_new])
  define c2 where "c2 = fst (dedup_lookup ?h 0 demo_key c1)"
  have l1: "dedup_lookup ?h 0 demo_key (dedup_new 30) = (c1, None)" using miss [OF m0, of 0] by (simp add: c1_def prod_eq_iff)
  have l2: "dedup_lookup ?h 0 demo_key c1 = (c2, None)" using miss [OF m1, of 0] by (simp add: c2_def prod_eq_iff)
  define s1 where "s1 = set_phase 0 (Missed demo_key) ((race_init 30)\<lparr>reply_cache := c1\<rparr>)"
  have r1: "race_reachable ?h 30 s1"
    unfolding s1_def by (rule race_reachable.Step [OF race_reachable.Init race_step.FirstMiss]) (simp_all add: race_init_def l1)
  define s2 where "s2 = take_gate 0 demo_key s1"
  have s1: "phase_of s1 = (\<lambda>_. Idle)(0 := Missed demo_key)" "gate_map s1 = Map.empty" "next_gate s1 = 0"
    "reply_cache s1 = c1" "clock s1 = 0"
    by (simp_all add: s1_def set_phase_def race_init_def)
  have r2: "race_reachable ?h 30 s2"
    unfolding s2_def by (rule race_reachable.Step [OF r1 race_step.TakeGate]) (simp add: s1)
  have s2: "phase_of s2 = (\<lambda>_. Idle)(0 := Waiting demo_key 0)" "gate_map s2 = [demo_key \<mapsto> 0]" "reply_cache s2 = c1" "clock s2 = 0"
    by (simp_all add: s2_def take_gate_def s1 set_phase_def)
  define s3 where "s3 = set_phase 0 (Locked demo_key 0) s2"
  have r3: "race_reachable ?h 30 s3"
    unfolding s3_def by (rule race_reachable.Step [OF r2 race_step.Lock]) (simp_all add: s2)
  have s3: "phase_of s3 = (\<lambda>_. Idle)(0 := Locked demo_key 0)" "gate_map s3 = [demo_key \<mapsto> 0]" "reply_cache s3 = c1" "clock s3 = 0"
    by (simp_all add: s3_def s2 set_phase_def)
  have "race_reachable ?h 30 (set_phase 0 (Handling demo_key 0) (s3\<lparr>reply_cache := c2\<rparr>))"
    by (rule race_reachable.Step [OF r3 race_step.SecondMiss]) (simp_all add: s3 l2)
  then show thesis using that by (simp add: set_phase_def s3)
qed

theorem handler_exclusive_witness:
  "\<exists>s. race_reachable (\<lambda>_. 3) 30 s \<and> {u. \<exists>g'. phase_of s u = Handling demo_key g'} = {0}"
proof -
  obtain s where s: "race_reachable (\<lambda>_. 3) 30 s" "phase_of s 0 = Handling demo_key 0" by (rule demo_race)
  have "{u. \<exists>g'. phase_of s u = Handling demo_key g'} = {0}"
    using handler_exclusive [OF s] s(2) by auto
  with s(1) show ?thesis by blast
qed

theorem gates_do_not_leak_witness:
  "\<exists>s. race_reachable (\<lambda>_. 3) 30 s \<and> gate_map s demo_key = Some 0
     \<and> ((\<exists>t. owned (phase_of s t) = Some (demo_key, 0)) \<or> (0, demo_key) \<in> set (cleanups s))"
proof -
  obtain s where s: "race_reachable (\<lambda>_. 3) 30 s" "gate_map s demo_key = Some 0" by (rule demo_race)
  with gates_do_not_leak [OF s(1), of demo_key 0] show ?thesis by blast
qed

theorem handler_not_repeated_witness:
  "\<exists>s. race_reachable (\<lambda>_. 3) 30 s \<and> phase_of s 0 = Handling demo_key 0
     \<and> snd (dedup_lookup (\<lambda>_. 3) (clock s) demo_key (reply_cache s)) = None"
proof -
  obtain s where s: "race_reachable (\<lambda>_. 3) 30 s" "phase_of s 0 = Handling demo_key 0" by (rule demo_race)
  with handler_not_repeated [OF s] show ?thesis by blast
qed

end
