(* ===== verification/Client_Cache.thy ===== *)
theory Client_Cache
  imports Expiring Server_Types
begin

text \<open>
  \<^verbatim>\<open>src/server/cache.rs\<close>: the cache in front of a client store, with negative entries, a bounded size
  and one lookup in flight per address. Broadcast channels are numbers. The store behind
  the cache is application code: its answers appear as the value with which a lookup finishes.
  The steps are the critical sections of \<open>lookup_udp\<close>, including the drop of the guard when the
  lookup is cancelled; the theorems show that the capacity is never exceeded, that a second lookup for
  an address is never started while one is in flight, and that a hit returns what the last
  finished lookup of that address answered, no longer than its time to live.
\<close>

section \<open>State\<close>

record cache_config =
  positive_ttl :: duration
  negative_ttl :: duration

definition default_cache_config :: cache_config where
  "default_cache_config = \<lparr>positive_ttl = 30 * 1000000000, negative_ttl = 1 * 1000000000\<rparr>"

datatype slot = Resolved "client option" instant | Pending nat

record cache_state =
  cs_entries :: "(ip_addr, slot) fmap"
  cs_expirations :: "(instant \<times> ip_addr) list"

datatype action = Hit "client option" | Wait nat | Resolve nat | Uncached

record cached_store =
  store_config :: cache_config
  store_state :: cache_state
  store_capacity :: nat

text \<open>\<open>None\<close> is the failed assertion.\<close>

definition cached_with_capacity :: "cache_config \<Rightarrow> nat \<Rightarrow> cached_store option" where
  "cached_with_capacity config capacity =
     (if capacity > 0
      then Some \<lparr>store_config = config, store_state = \<lparr>cs_entries = fmempty, cs_expirations = []\<rparr>,
                 store_capacity = capacity\<rparr>
      else None)"

definition cached_new :: "cache_config \<Rightarrow> cached_store option" where
  "cached_new config = cached_with_capacity config 65536"

definition cached_with_defaults :: "cached_store option" where
  "cached_with_defaults = cached_new default_cache_config"

section \<open>Operations\<close>

definition cs_remove :: "ip_addr \<Rightarrow> cache_state \<Rightarrow> cache_state" where
  "cs_remove key s =
     (let s' = s\<lparr>cs_entries := fmdrop key (cs_entries s)\<rparr>
      in case fmlookup (cs_entries s) key of
           Some (Resolved _ expires_at) \<Rightarrow> s'\<lparr>cs_expirations := bts_remove (expires_at, key) (cs_expirations s')\<rparr>
         | _ \<Rightarrow> s')"

definition cs_evict_first :: "cache_state \<Rightarrow> cache_state" where
  "cs_evict_first s =
     (case cs_expirations s of
        [] \<Rightarrow> s
      | (_, key) # rest \<Rightarrow> s\<lparr>cs_expirations := rest, cs_entries := fmdrop key (cs_entries s)\<rparr>)"

fun cs_evict_loop :: "nat \<Rightarrow> instant \<Rightarrow> cache_state \<Rightarrow> cache_state" where
  "cs_evict_loop 0 now s = s"
| "cs_evict_loop (Suc n) now s =
     (if (case cs_expirations s of [] \<Rightarrow> True | (deadline, _) # _ \<Rightarrow> deadline > now) then s
      else cs_evict_loop n now (cs_evict_first s))"

definition cs_evict_expired :: "instant \<Rightarrow> cache_state \<Rightarrow> cache_state" where
  "cs_evict_expired now s = cs_evict_loop 64 now s"

text \<open>
  The end of \<open>action\<close>, after the hit and the wait have returned. The fresh channel is an argument:
  the number \<open>broadcast::channel\<close> would name.
\<close>

definition cs_miss :: "ip_addr \<Rightarrow> nat \<Rightarrow> nat \<Rightarrow> cache_state \<Rightarrow> cache_state \<times> action" where
  "cs_miss key capacity fresh s =
     (let s = cs_remove key s;
          s = (if fmlen (cs_entries s) \<ge> capacity then cs_evict_first s else s)
      in if fmlen (cs_entries s) \<ge> capacity then (s, Uncached)
         else (s\<lparr>cs_entries := fmupd key (Pending fresh) (cs_entries s)\<rparr>, Resolve fresh))"

definition cs_action :: "ip_addr \<Rightarrow> instant \<Rightarrow> nat \<Rightarrow> nat \<Rightarrow> cache_state \<Rightarrow> cache_state \<times> action" where
  "cs_action key now capacity fresh s =
     (let s = cs_evict_expired now s
      in case fmlookup (cs_entries s) key of
           Some (Resolved v expires_at) \<Rightarrow>
             if expires_at > now then (s, Hit v) else cs_miss key capacity fresh s
         | Some (Pending tx) \<Rightarrow> (s, Wait tx)
         | None \<Rightarrow> cs_miss key capacity fresh s)"

definition cached_invalidate :: "ip_addr \<Rightarrow> cache_state \<Rightarrow> cache_state" where
  "cached_invalidate addr s =
     (case fmlookup (cs_entries s) addr of
        Some (Resolved _ _) \<Rightarrow> cs_remove addr s
      | _ \<Rightarrow> s)"

definition is_pending :: "slot \<Rightarrow> bool" where
  "is_pending sl = (case sl of Pending _ \<Rightarrow> True | Resolved _ _ \<Rightarrow> False)"

definition cached_clear :: "cache_state \<Rightarrow> cache_state" where
  "cached_clear s =
     s\<lparr>cs_entries := fmfilter (\<lambda>k. case fmlookup (cs_entries s) k of Some sl \<Rightarrow> is_pending sl | None \<Rightarrow> False) (cs_entries s),
       cs_expirations := []\<rparr>"

definition pending_lookup_drop :: "ip_addr \<Rightarrow> nat \<Rightarrow> cache_state \<Rightarrow> cache_state" where
  "pending_lookup_drop key tx s =
     (if fmlookup (cs_entries s) key = Some (Pending tx) then cs_remove key s else s)"

definition lookup_ttl :: "cache_config \<Rightarrow> client option \<Rightarrow> duration" where
  "lookup_ttl config v = (if v \<noteq> None then positive_ttl config else negative_ttl config)"

text \<open>The critical section of the resolver after the store has answered.\<close>

definition resolve_store :: "cache_config \<Rightarrow> ip_addr \<Rightarrow> client option \<Rightarrow> instant \<Rightarrow> cache_state \<Rightarrow> cache_state" where
  "resolve_store config key v now s =
     (let expires_at = now + lookup_ttl config v
      in s\<lparr>cs_entries := fmupd key (Resolved v expires_at) (cs_entries s),
           cs_expirations := bts_insert (expires_at, key) (cs_expirations s)\<rparr>)"

section \<open>The cache is an expiring table\<close>

definition slot_deadline :: "slot \<Rightarrow> instant option" where
  "slot_deadline sl = (case sl of Resolved _ d \<Rightarrow> Some d | Pending _ \<Rightarrow> None)"

lemma slot_deadline_simps [simp]: "slot_deadline (Resolved v d) = Some d" "slot_deadline (Pending ch) = None"
  by (simp_all add: slot_deadline_def)

definition cs_ok :: "cache_state \<Rightarrow> bool" where
  "cs_ok s \<longleftrightarrow> coherent slot_deadline (cs_entries s) (cs_expirations s)"

lemma cs_evict_loop_eq:
  "cs_entries (cs_evict_loop n now s) = fst (evict_loop n now (cs_entries s) (cs_expirations s))
   \<and> cs_expirations (cs_evict_loop n now s) = snd (evict_loop n now (cs_entries s) (cs_expirations s))"
proof (induction n arbitrary: s)
  case (Suc n)
  show ?case
  proof (cases "cs_expirations s")
    case (Cons x xs)
    then show ?thesis using Suc [of "cs_evict_first s"] by (cases x) (simp add: cs_evict_first_def)
  qed simp
qed simp

lemmas cs_evict_fields = cs_evict_expired_def cs_evict_loop_eq

interpretation client_table: expiring_table cs_entries cs_expirations slot_deadline cs_ok cs_evict_expired
  by unfold_locales
    (auto simp: cs_ok_def cs_evict_fields evict_loop_coherent evict_loop_fmlen
      evict_loop_expired_count [OF coherentD(1)] dest: evict_loop_lookup)

lemma cs_remove_unindex:
  "cs_remove key s = s\<lparr>cs_entries := fmdrop key (cs_entries s),
     cs_expirations := unindex slot_deadline key (fmlookup (cs_entries s) key) (cs_expirations s)\<rparr>"
  by (simp add: cs_remove_def Let_def unindex_def split: option.splits slot.splits)

lemma cs_ok_remove: "cs_ok s \<Longrightarrow> cs_ok (cs_remove key s)"
  by (simp add: cs_ok_def cs_remove_unindex coherent_drop)

lemma cs_ok_evict_first: "cs_ok s \<Longrightarrow> cs_ok (cs_evict_first s)"
  by (auto simp: cs_ok_def cs_evict_first_def dest: coherent_pop split: list.splits)

text \<open>Eviction of the first deadline removes exactly one resolved entry, if there is one.\<close>

lemma cs_evict_first_lookup:
  assumes "cs_ok s"
  shows "fmlookup (cs_entries (cs_evict_first s)) k = Some (Pending ch) \<longleftrightarrow> fmlookup (cs_entries s) k = Some (Pending ch)"
    and "fmlookup (cs_entries (cs_evict_first s)) k = Some sl \<Longrightarrow> fmlookup (cs_entries s) k = Some sl"
    and "fmlen (cs_entries (cs_evict_first s)) \<le> fmlen (cs_entries s)"
    and "cs_expirations s \<noteq> [] \<Longrightarrow> fmlen (cs_entries s) = Suc (fmlen (cs_entries (cs_evict_first s)))"
proof -
  have *: "\<exists>v. fmlookup (cs_entries s) key = Some (Resolved v d)" if "cs_expirations s = (d, key) # rest" for d key rest
  proof -
    have "(d, key) \<in> set (cs_expirations s)" using that by simp
    then obtain sl where "fmlookup (cs_entries s) key = Some sl" "slot_deadline sl = Some d"
      using coherentD(2) [of slot_deadline "cs_entries s" "cs_expirations s" d key] assms by (auto simp: cs_ok_def)
    then show ?thesis by (cases sl) auto
  qed
  show "fmlookup (cs_entries (cs_evict_first s)) k = Some (Pending ch) \<longleftrightarrow> fmlookup (cs_entries s) k = Some (Pending ch)"
    using * by (auto simp: cs_evict_first_def split: list.splits)
  show "fmlookup (cs_entries (cs_evict_first s)) k = Some sl \<Longrightarrow> fmlookup (cs_entries s) k = Some sl"
    by (auto simp: cs_evict_first_def split: list.splits if_splits)
  show "fmlen (cs_entries (cs_evict_first s)) \<le> fmlen (cs_entries s)"
    by (auto simp: cs_evict_first_def fmlen_drop_le simp del: fmdom_drop split: list.splits)
  show "fmlen (cs_entries s) = Suc (fmlen (cs_entries (cs_evict_first s)))" if "cs_expirations s \<noteq> []"
    using that * fmlen_drop by (fastforce simp: cs_evict_first_def simp del: fmdom_drop split: list.splits)
qed

section \<open>What an access does\<close>

abbreviation look :: "cache_state \<Rightarrow> ip_addr \<Rightarrow> slot option" where
  "look s k \<equiv> fmlookup (cs_entries s) k"

text \<open>Steps that only forget resolved entries.\<close>

definition forgets :: "cache_state \<Rightarrow> cache_state \<Rightarrow> bool" where
  "forgets s s' \<longleftrightarrow>
     (\<forall>k ch. look s' k = Some (Pending ch) \<longleftrightarrow> look s k = Some (Pending ch))
     \<and> (\<forall>k sl. look s' k = Some sl \<longrightarrow> look s k = Some sl)
     \<and> fmlen (cs_entries s') \<le> fmlen (cs_entries s)"

lemma forgets_refl [simp]: "forgets s s"
  by (simp add: forgets_def)

lemma forgets_trans: "forgets s s' \<Longrightarrow> forgets s' s'' \<Longrightarrow> forgets s s''"
  unfolding forgets_def by (metis order_trans)

lemma forgets_evict_first: "cs_ok s \<Longrightarrow> forgets s (cs_evict_first s)"
  unfolding forgets_def using cs_evict_first_lookup by blast

lemma forgets_evict_expired:
  assumes "cs_ok s"
  shows "forgets s (cs_evict_expired now s)"
  unfolding forgets_def
proof (intro conjI allI impI)
  fix k ch
  show "look (cs_evict_expired now s) k = Some (Pending ch) \<longleftrightarrow> look s k = Some (Pending ch)"
    using client_table.evict_lookup [OF assms, of now k] by (auto simp: expired_def)
  fix sl
  show "look (cs_evict_expired now s) k = Some sl \<Longrightarrow> look s k = Some sl"
    by (rule client_table.evict_sub [OF assms])
qed (rule client_table.evict_fmlen [OF assms])

lemma forgets_remove:
  assumes "\<And>ch. look s key \<noteq> Some (Pending ch)"
  shows "forgets s (cs_remove key s)"
  using assms unfolding forgets_def by (auto simp: cs_remove_unindex fmlen_drop_le simp del: fmdom_drop)

lemma cs_miss_cases:
  assumes "cs_ok s" and "\<And>ch. look s key \<noteq> Some (Pending ch)"
  shows "\<exists>s1. cs_ok s1 \<and> forgets s s1 \<and> look s1 key = None
    \<and> (cs_miss key capacity fresh s = (s1, Uncached)
       \<or> fmlen (cs_entries s1) < capacity
         \<and> cs_miss key capacity fresh s = (s1\<lparr>cs_entries := fmupd key (Pending fresh) (cs_entries s1)\<rparr>, Resolve fresh))"
proof -
  let ?r = "cs_remove key s"
  define s1 where "s1 = (if fmlen (cs_entries ?r) \<ge> capacity then cs_evict_first ?r else ?r)"
  have r: "cs_ok ?r" "forgets s ?r" "look ?r key = None"
    using cs_ok_remove [OF assms(1)] forgets_remove [of s key] assms(2) by (auto simp: cs_remove_unindex)
  have "cs_ok s1" "forgets ?r s1"
    using r(1) cs_ok_evict_first forgets_evict_first by (simp_all add: s1_def)
  moreover from this(2) have "look s1 key = None"
    using r(3) by (cases "look s1 key") (auto simp: forgets_def)
  moreover have "forgets s s1" by (rule forgets_trans [OF r(2) \<open>forgets ?r s1\<close>])
  moreover have "cs_miss key capacity fresh s = (if fmlen (cs_entries s1) \<ge> capacity then (s1, Uncached)
      else (s1\<lparr>cs_entries := fmupd key (Pending fresh) (cs_entries s1)\<rparr>, Resolve fresh))"
    by (simp add: cs_miss_def s1_def Let_def)
  ultimately show ?thesis by (intro exI [of _ s1]) auto
qed

lemma cs_action_cases:
  assumes "cs_ok s"
  obtains (Hit) s1 v d where "cs_action key now capacity fresh s = (s1, Hit v)" "cs_ok s1" "forgets s s1"
      "look s key = Some (Resolved v d)" "now < d"
  | (Wait) s1 ch where "cs_action key now capacity fresh s = (s1, Wait ch)" "cs_ok s1" "forgets s s1"
      "look s key = Some (Pending ch)"
  | (Uncached) s1 where "cs_action key now capacity fresh s = (s1, Uncached)" "cs_ok s1" "forgets s s1"
  | (Resolve) s1 where "cs_action key now capacity fresh s =
        (s1\<lparr>cs_entries := fmupd key (Pending fresh) (cs_entries s1)\<rparr>, Resolve fresh)" "cs_ok s1" "forgets s s1"
      "look s1 key = None" "fmlen (cs_entries s1) < capacity"
proof -
  let ?e = "cs_evict_expired now s"
  have e: "cs_ok ?e" "forgets s ?e" using client_table.evict_ok [OF assms] forgets_evict_expired [OF assms] by auto
  have act: "cs_action key now capacity fresh s =
      (case look ?e key of
         Some (Resolved v d) \<Rightarrow> if d > now then (?e, Hit v) else cs_miss key capacity fresh ?e
       | Some (Pending tx) \<Rightarrow> (?e, Wait tx)
       | None \<Rightarrow> cs_miss key capacity fresh ?e)"
    by (simp add: cs_action_def Let_def)
  have sub: "look ?e key = Some sl \<Longrightarrow> look s key = Some sl" for sl using e(2) by (simp add: forgets_def)
  show ?thesis
  proof (cases "\<exists>v d. look ?e key = Some (Resolved v d) \<and> now < d")
    case True
    then obtain v d where "look ?e key = Some (Resolved v d)" "now < d" by blast
    then show ?thesis using that(1) [of ?e v d] e act sub by simp
  next
    case noHit: False
    show ?thesis
    proof (cases "\<exists>ch. look ?e key = Some (Pending ch)")
      case True
      then obtain ch where "look ?e key = Some (Pending ch)" by blast
      then show ?thesis using that(2) [of ?e ch] e act sub by simp
    next
      case False
      then have miss: "cs_action key now capacity fresh s = cs_miss key capacity fresh ?e"
        using noHit act by (auto split: option.splits slot.splits)
      obtain s1 where s1: "cs_ok s1" "forgets ?e s1" "look s1 key = None"
        "cs_miss key capacity fresh ?e = (s1, Uncached)
         \<or> fmlen (cs_entries s1) < capacity
           \<and> cs_miss key capacity fresh ?e = (s1\<lparr>cs_entries := fmupd key (Pending fresh) (cs_entries s1)\<rparr>, Resolve fresh)"
        using cs_miss_cases [OF e(1), of key capacity fresh] False by blast
      have "forgets s s1" by (rule forgets_trans [OF e(2) s1(2)])
      then show ?thesis using that(3) [of s1] that(4) [of s1] s1 miss by auto
    qed
  qed
qed

section \<open>Runs\<close>

text \<open>
  The lookups in flight are the live resolvers; a resolver that has stored its answer still has its
  guard to drop. \<open>finished\<close> records the answers stored so far, the latest first.
\<close>

record cache_run =
  run_state :: cache_state
  resolvers :: "(ip_addr \<times> nat) list"
  guards :: "(ip_addr \<times> nat) list"
  next_channel :: nat
  finished :: "(ip_addr \<times> client option \<times> instant) list"

definition run_init :: "cached_store \<Rightarrow> cache_run" where
  "run_init c = \<lparr>run_state = store_state c, resolvers = [], guards = [], next_channel = 0, finished = []\<rparr>"

definition joined_resolvers :: "action \<Rightarrow> ip_addr \<Rightarrow> (ip_addr \<times> nat) list \<Rightarrow> (ip_addr \<times> nat) list" where
  "joined_resolvers act key rs = (case act of Resolve ch \<Rightarrow> (key, ch) # rs | _ \<Rightarrow> rs)"

inductive cache_step :: "cached_store \<Rightarrow> cache_run \<Rightarrow> cache_run \<Rightarrow> bool" for c where
  Start: "cs_action key now (store_capacity c) (next_channel r) (run_state r) = (s', act) \<Longrightarrow>
    cache_step c r (r\<lparr>run_state := s', resolvers := joined_resolvers act key (resolvers r), next_channel := Suc (next_channel r)\<rparr>)"
| Finish: "(key, ch) \<in> set (resolvers r) \<Longrightarrow>
    cache_step c r (r\<lparr>run_state := resolve_store (store_config c) key v now (run_state r),
      resolvers := remove1 (key, ch) (resolvers r), guards := (key, ch) # guards r,
      finished := (key, v, now + lookup_ttl (store_config c) v) # finished r\<rparr>)"
| DropGuard: "(key, ch) \<in> set (guards r) \<Longrightarrow>
    cache_step c r (r\<lparr>run_state := pending_lookup_drop key ch (run_state r), guards := remove1 (key, ch) (guards r)\<rparr>)"
| CancelLookup: "(key, ch) \<in> set (resolvers r) \<Longrightarrow>
    cache_step c r (r\<lparr>run_state := pending_lookup_drop key ch (run_state r), resolvers := remove1 (key, ch) (resolvers r)\<rparr>)"
| Invalidate: "cache_step c r (r\<lparr>run_state := cached_invalidate addr (run_state r)\<rparr>)"
| Clear: "cache_step c r (r\<lparr>run_state := cached_clear (run_state r)\<rparr>)"

inductive cache_reachable :: "cached_store \<Rightarrow> cache_run \<Rightarrow> bool" for c where
  Init: "cache_reachable c (run_init c)"
| Step: "cache_reachable c r \<Longrightarrow> cache_step c r r' \<Longrightarrow> cache_reachable c r'"

definition answer_of :: "ip_addr \<Rightarrow> (ip_addr \<times> client option \<times> instant) list \<Rightarrow> (client option \<times> instant) option" where
  "answer_of key fs = map_of fs key"

definition run_inv :: "cached_store \<Rightarrow> cache_run \<Rightarrow> bool" where
  "run_inv c r \<longleftrightarrow>
     cs_ok (run_state r) \<and> fmlen (cs_entries (run_state r)) \<le> store_capacity c
     \<and> (\<forall>k ch. look (run_state r) k = Some (Pending ch) \<longleftrightarrow> (k, ch) \<in> set (resolvers r))
     \<and> distinct (resolvers r)
     \<and> (\<forall>k ch. (k, ch) \<in> set (resolvers r) \<union> set (guards r) \<longrightarrow> ch < next_channel r)
     \<and> set (resolvers r) \<inter> set (guards r) = {}
     \<and> (\<forall>k v d. look (run_state r) k = Some (Resolved v d) \<longrightarrow> answer_of k (finished r) = Some (v, d))"

lemma run_invI:
  assumes "cs_ok (run_state r)" and "fmlen (cs_entries (run_state r)) \<le> store_capacity c"
    and "\<And>k ch. look (run_state r) k = Some (Pending ch) \<longleftrightarrow> (k, ch) \<in> set (resolvers r)"
    and "distinct (resolvers r)"
    and "\<And>k ch. (k, ch) \<in> set (resolvers r) \<union> set (guards r) \<Longrightarrow> ch < next_channel r"
    and "set (resolvers r) \<inter> set (guards r) = {}"
    and "\<And>k v d. look (run_state r) k = Some (Resolved v d) \<Longrightarrow> answer_of k (finished r) = Some (v, d)"
  shows "run_inv c r"
  unfolding run_inv_def using assms by blast

lemma run_invD:
  assumes "run_inv c r"
  shows "cs_ok (run_state r)" and "fmlen (cs_entries (run_state r)) \<le> store_capacity c"
    and "look (run_state r) k = Some (Pending ch) \<longleftrightarrow> (k, ch) \<in> set (resolvers r)"
    and "distinct (resolvers r)"
    and "(k, ch) \<in> set (resolvers r) \<union> set (guards r) \<Longrightarrow> ch < next_channel r"
    and "set (resolvers r) \<inter> set (guards r) = {}"
    and "look (run_state r) k = Some (Resolved v d) \<Longrightarrow> answer_of k (finished r) = Some (v, d)"
  using assms unfolding run_inv_def by blast+

text \<open>Forgetting resolved entries keeps the invariant.\<close>

lemma run_inv_forgets:
  assumes "run_inv c r" and "forgets (run_state r) s'" and "cs_ok s'" and "next_channel r \<le> n"
  shows "run_inv c (r\<lparr>run_state := s', next_channel := n\<rparr>)"
proof -
  note I = run_invD [OF assms(1)]
  have f: "look s' k = Some (Pending ch) \<longleftrightarrow> look (run_state r) k = Some (Pending ch)"
    "look s' k = Some sl \<Longrightarrow> look (run_state r) k = Some sl" "fmlen (cs_entries s') \<le> fmlen (cs_entries (run_state r))"
    for k ch sl using assms(2) by (auto simp: forgets_def)
  show ?thesis
  proof (rule run_invI)
    fix k ch
    assume "(k, ch) \<in> set (resolvers (r\<lparr>run_state := s', next_channel := n\<rparr>))
      \<union> set (guards (r\<lparr>run_state := s', next_channel := n\<rparr>))"
    then have "(k, ch) \<in> set (resolvers r) \<union> set (guards r)" by simp
    from I(5) [OF this] assms(4) show "ch < next_channel (r\<lparr>run_state := s', next_channel := n\<rparr>)" by simp
  qed (use I(2-4,6,7) f assms(3) in \<open>auto intro: order_trans\<close>)
qed

lemma run_inv_start:
  assumes "run_inv c r" and "cs_action key now (store_capacity c) (next_channel r) (run_state r) = (s', act)"
  shows "run_inv c (r\<lparr>run_state := s', resolvers := joined_resolvers act key (resolvers r), next_channel := Suc (next_channel r)\<rparr>)"
proof -
  note I = run_invD [OF assms(1)]
  have same: ?thesis if "forgets (run_state r) s'" "cs_ok s'" "\<And>ch. act \<noteq> Resolve ch"
    using run_inv_forgets [OF assms(1) that(1,2), of "Suc (next_channel r)"] that(3)
    by (simp add: joined_resolvers_def split: action.splits)
  show ?thesis
  proof (cases rule: cs_action_cases [OF I(1), of key now "store_capacity c" "next_channel r"])
    case (4 s1)
    note Resolve = this
    then have s': "s' = s1\<lparr>cs_entries := fmupd key (Pending (next_channel r)) (cs_entries s1)\<rparr>"
      and act: "act = Resolve (next_channel r)" using assms(2) by auto
    have f: "look s1 k = Some (Pending ch) \<longleftrightarrow> (k, ch) \<in> set (resolvers r)"
      "look s1 k = Some (Resolved v d) \<Longrightarrow> answer_of k (finished r) = Some (v, d)" for k ch v d
      using Resolve(3) I(3,7) by (auto simp: forgets_def)
    have fresh: "(k, next_channel r) \<notin> set (resolvers r) \<union> set (guards r)" for k using I(5) by blast
    have "coherent slot_deadline (fmupd key (Pending (next_channel r)) (cs_entries s1))
        (unindex slot_deadline key (look s1 key) (cs_expirations s1))"
      using coherent_upd_unindexed [of slot_deadline "cs_entries s1" "cs_expirations s1" "Pending (next_channel r)" key] Resolve(2)
      by (simp add: cs_ok_def)
    then have "cs_ok s'" using Resolve(4) by (simp add: cs_ok_def s' unindex_def)
    moreover have "fmlen (cs_entries s') \<le> store_capacity c"
      using Resolve(4,5) by (simp add: s' fmlen_upd del: fmdom_fmupd)
    moreover have nokey: "(key, ch) \<notin> set (resolvers r)" for ch using f(1) [of key ch] Resolve(4) by simp
    ultimately show ?thesis
    proof (intro run_invI, goal_cases)
      case (3 k ch)
      then show ?case using f(1) [of k ch] nokey [of ch] by (auto simp: s' act joined_resolvers_def)
    next
      case (5 k ch)
      then show ?case using I(5) [of k ch] by (auto simp: act joined_resolvers_def)
    next
      case 6
      then show ?case using I(6) fresh by (auto simp: act joined_resolvers_def)
    next
      case (7 k v d)
      then show ?case using f(2) [of k v d] by (auto simp: s' split: if_splits)
    qed (use I(4) fresh in \<open>auto simp: act joined_resolvers_def\<close>)
  qed (use assms(2) same in auto)
qed

lemma run_inv_finish:
  assumes "run_inv c r" and "(key, ch) \<in> set (resolvers r)"
  shows "run_inv c (r\<lparr>run_state := resolve_store (store_config c) key v now (run_state r),
      resolvers := remove1 (key, ch) (resolvers r), guards := (key, ch) # guards r,
      finished := (key, v, now + lookup_ttl (store_config c) v) # finished r\<rparr>)"
proof -
  note I = run_invD [OF assms(1)]
  let ?s = "run_state r" and ?d = "now + lookup_ttl (store_config c) v"
  have p: "look ?s key = Some (Pending ch)" using I(3) assms(2) by blast
  have only: "(key, ch') \<in> set (resolvers r) \<Longrightarrow> ch' = ch" for ch' using I(3) [of key ch'] p by simp
  have "unindex slot_deadline key (look ?s key) (cs_expirations ?s) = cs_expirations ?s"
    by (simp add: p unindex_def)
  then have "cs_ok (resolve_store (store_config c) key v now ?s)"
    using coherent_upd [of slot_deadline "cs_entries ?s" "cs_expirations ?s" "Resolved v ?d" ?d key] I(1)
    by (simp add: cs_ok_def resolve_store_def Let_def)
  moreover have "fmlen (cs_entries (resolve_store (store_config c) key v now ?s)) \<le> store_capacity c"
    using I(2) p by (simp add: resolve_store_def Let_def fmlen_upd del: fmdom_fmupd)
  ultimately show ?thesis
  proof (intro run_invI, goal_cases)
    case (3 k ch')
    then show ?case using I(3) [of k ch'] only [of ch'] I(4) by (auto simp: resolve_store_def Let_def set_remove1_eq)
  next
    case (5 k ch')
    then show ?case using I(5) [of k ch'] I(5) [of key ch] assms(2) by (auto dest: set_remove1_subset [THEN subsetD])
  next
    case 6
    then show ?case using I(4,6) by (auto simp: set_remove1_eq)
  next
    case (7 k v' d')
    then show ?case using I(7) [of k v' d'] by (auto simp: resolve_store_def Let_def answer_of_def split: if_splits)
  qed (use I(4) in auto)
qed

lemma run_inv_cancel:
  assumes "run_inv c r" and "(key, ch) \<in> set (resolvers r)"
  shows "run_inv c (r\<lparr>run_state := pending_lookup_drop key ch (run_state r), resolvers := remove1 (key, ch) (resolvers r)\<rparr>)"
proof -
  note I = run_invD [OF assms(1)]
  have p: "look (run_state r) key = Some (Pending ch)" using I(3) assms(2) by blast
  have only: "(key, ch') \<in> set (resolvers r) \<Longrightarrow> ch' = ch" for ch' using I(3) [of key ch'] p by simp
  have d: "pending_lookup_drop key ch (run_state r) = cs_remove key (run_state r)" by (simp add: pending_lookup_drop_def p)
  have "fmlen (cs_entries (cs_remove key (run_state r))) \<le> store_capacity c"
    using I(2) fmlen_drop_le [of key "cs_entries (run_state r)"] by (simp add: cs_remove_unindex del: fmdom_drop)
  then show ?thesis
  proof (intro run_invI, goal_cases)
    case (3 k ch')
    then show ?case using I(3) [of k ch'] only [of ch'] I(4) by (auto simp: d cs_remove_unindex set_remove1_eq)
  next
    case (5 k ch')
    then show ?case using I(5) [of k ch'] by (auto dest: set_remove1_subset [THEN subsetD])
  next
    case (7 k v' d')
    then show ?case using I(7) [of k v' d'] by (auto simp: d cs_remove_unindex split: if_splits)
  qed (use cs_ok_remove [OF I(1)] I(4,6) in \<open>auto simp: d set_remove1_eq\<close>)
qed

text \<open>The guard of a lookup that has stored its answer does nothing.\<close>

lemma run_inv_drop_guard:
  assumes "run_inv c r" and "(key, ch) \<in> set (guards r)"
  shows "pending_lookup_drop key ch (run_state r) = run_state r"
    and "run_inv c (r\<lparr>guards := remove1 (key, ch) (guards r)\<rparr>)"
proof -
  note I = run_invD [OF assms(1)]
  show "pending_lookup_drop key ch (run_state r) = run_state r"
    using I(3) [of key ch] I(6) assms(2) by (auto simp: pending_lookup_drop_def)
  show "run_inv c (r\<lparr>guards := remove1 (key, ch) (guards r)\<rparr>)"
    using assms(1) by (auto simp: run_inv_def dest: set_remove1_subset [THEN subsetD])
qed

lemma forgets_invalidate: "forgets s (cached_invalidate addr s)"
  using forgets_remove [of s addr] by (auto simp: cached_invalidate_def split: option.splits slot.splits)

lemma cached_clear_look: "look (cached_clear s) k = (if \<exists>ch. look s k = Some (Pending ch) then look s k else None)"
  by (auto simp: cached_clear_def is_pending_def split: option.splits slot.splits)

lemma forgets_clear: "forgets s (cached_clear s)"
proof -
  have "fmdom (cs_entries (cached_clear s)) |\<subseteq>| fmdom (cs_entries s)"
    by (auto simp: cached_clear_def)
  then have "fmlen (cs_entries (cached_clear s)) \<le> fmlen (cs_entries s)" by (rule fcard_mono)
  then show ?thesis unfolding forgets_def cached_clear_look by auto
qed

lemma cs_ok_clear: "cs_ok (cached_clear s)"
proof -
  have "slot_deadline sl = None" if "look (cached_clear s) k = Some sl" for k sl
    using that by (auto simp: cached_clear_look split: if_splits)
  then show ?thesis unfolding cs_ok_def coherent_def by (auto simp: cached_clear_def)
qed

lemma run_inv_step: "cache_step c r r' \<Longrightarrow> run_inv c r \<Longrightarrow> run_inv c r'"
proof (induction rule: cache_step.induct)
  case (Start key now r s' act)
  then show ?case by (intro run_inv_start)
next
  case (Finish key ch r v now)
  then show ?case by (intro run_inv_finish)
next
  case (DropGuard key ch r)
  then show ?case using run_inv_drop_guard [of c r key ch] by simp
next
  case (CancelLookup key ch r)
  then show ?case by (intro run_inv_cancel)
next
  case (Invalidate r addr)
  have "cs_ok (cached_invalidate addr (run_state r))"
    using cs_ok_remove run_invD(1) [OF Invalidate] by (auto simp: cached_invalidate_def split: option.splits slot.splits)
  then show ?case using run_inv_forgets [OF Invalidate forgets_invalidate, of addr "next_channel r"] by simp
next
  case (Clear r)
  then show ?case using run_inv_forgets [OF Clear forgets_clear cs_ok_clear, of "next_channel r"] by simp
qed

lemma run_inv_reachable:
  assumes "cached_with_capacity config capacity = Some c"
  shows "cache_reachable c r \<Longrightarrow> run_inv c r"
proof (induction rule: cache_reachable.induct)
  case Init
  show ?case using assms by (auto simp: cached_with_capacity_def run_inv_def run_init_def cs_ok_def fcard.rep_eq split: if_splits)
qed (rule run_inv_step)

text \<open>
  The client cache never holds more than its capacity, whatever addresses ask and however
  lookups finish, are cancelled, invalidated or cleared.
\<close>

theorem cache_bounded:
  assumes "cached_with_capacity config capacity = Some c" and "cache_reachable c r"
  shows "fmlen (cs_entries (run_state r)) \<le> capacity"
  using run_invD(2) [OF run_inv_reachable [OF assms]] assms(1) by (auto simp: cached_with_capacity_def split: if_splits)

text \<open>
  C25: single flight: while a cached lookup for an address is in progress, no second one is started
  for it; every other caller is told to wait for that lookup.
\<close>

theorem cache_single_flight:
  assumes "cached_with_capacity config capacity = Some c" and "cache_reachable c r"
    and "(key, ch) \<in> set (resolvers r)"
  shows "(\<forall>ch'. (key, ch') \<in> set (resolvers r) \<longrightarrow> ch' = ch)
    \<and> snd (cs_action key now capacity fresh (run_state r)) = Wait ch"
proof -
  note I = run_invD [OF run_inv_reachable [OF assms(1,2)]]
  have p: "look (run_state r) key = Some (Pending ch)" using I(3) assms(3) by blast
  have "look (cs_evict_expired now (run_state r)) key = Some (Pending ch)"
    using forgets_evict_expired [OF I(1), of now] p by (simp add: forgets_def)
  then have "snd (cs_action key now capacity fresh (run_state r)) = Wait ch"
    by (simp add: cs_action_def Let_def)
  moreover have "ch' = ch" if "(key, ch') \<in> set (resolvers r)" for ch' using I(3) [of key ch'] that p by simp
  ultimately show ?thesis by blast
qed

text \<open>
  A hit is fresh and current: the value it returns is the answer of the latest finished lookup
  for that address, and that answer's time to live has not passed.
\<close>

theorem cache_hit_current:
  assumes "cached_with_capacity config capacity = Some c" and "cache_reachable c r"
    and "cs_action key now capacity fresh (run_state r) = (s', Hit v)"
  shows "\<exists>d. answer_of key (finished r) = Some (v, d) \<and> now < d"
proof -
  note I = run_invD [OF run_inv_reachable [OF assms(1,2)]]
  show ?thesis
    using I(7) [of key v] assms(3) by (cases rule: cs_action_cases [OF I(1), of key now capacity fresh]) auto
qed

section \<open>A concrete run\<close>

abbreviation demo_config :: cache_config where
  "demo_config \<equiv> \<lparr>positive_ttl = 30, negative_ttl = 1\<rparr>"

abbreviation demo_addr :: ip_addr where
  "demo_addr \<equiv> V4 0x7F000001"

text \<open>One lookup is in progress, and then it has stored the answer \<open>None\<close> at time 5.\<close>

lemma demo_cache:
  obtains c r r' where "cached_with_capacity demo_config 2 = Some c" and "cache_reachable c r"
    and "(demo_addr, 0) \<in> set (resolvers r)" and "cache_reachable c r'"
    and "cs_action demo_addr 5 2 9 (run_state r') = (run_state r', Hit None)"
proof -
  let ?s0 = "\<lparr>cs_entries = fmempty, cs_expirations = []\<rparr> :: cache_state"
  let ?s1 = "\<lparr>cs_entries = fmupd demo_addr (Pending 0) fmempty, cs_expirations = []\<rparr> :: cache_state"
  define c where "c = \<lparr>store_config = demo_config, store_state = ?s0, store_capacity = 2\<rparr>"
  define r where "r = (run_init c)\<lparr>run_state := ?s1, resolvers := joined_resolvers (Resolve 0) demo_addr (resolvers (run_init c)),
    next_channel := Suc (next_channel (run_init c))\<rparr>"
  define r' where "r' = r\<lparr>run_state := resolve_store (store_config c) demo_addr None 5 (run_state r),
    resolvers := remove1 (demo_addr, 0) (resolvers r), guards := (demo_addr, 0) # guards r,
    finished := (demo_addr, None, 5 + lookup_ttl (store_config c) None) # finished r\<rparr>"
  have e: "cs_evict_expired now ?s0 = ?s0" for now by (simp add: cs_evict_expired_def numeral_eq_Suc)
  have "cs_remove demo_addr ?s0 = ?s0" by (simp add: cs_remove_def fmdrop_empty)
  then have "cs_action demo_addr 0 2 0 ?s0 = (?s1, Resolve 0)"
    by (simp add: cs_action_def e cs_miss_def Let_def fcard.rep_eq)
  then have "cs_action demo_addr 0 (store_capacity c) (next_channel (run_init c)) (run_state (run_init c)) = (?s1, Resolve 0)"
    by (simp add: c_def run_init_def)
  then have R: "cache_reachable c r"
    unfolding r_def by (intro cache_reachable.Step [OF cache_reachable.Init cache_step.Start])
  have m: "(demo_addr, 0) \<in> set (resolvers r)" by (simp add: r_def joined_resolvers_def)
  have R': "cache_reachable c r'"
    unfolding r'_def by (rule cache_reachable.Step [OF R cache_step.Finish [OF m]])
  have s': "run_state r' = \<lparr>cs_entries = fmupd demo_addr (Resolved None 6) (fmupd demo_addr (Pending 0) fmempty),
      cs_expirations = [(6, demo_addr)]\<rparr>"
    by (simp add: r'_def r_def c_def resolve_store_def lookup_ttl_def Let_def bts_insert_def insort_insert_key_def)
  have "cs_action demo_addr 5 2 9 (run_state r') = (run_state r', Hit None)"
    by (simp add: s' cs_action_def cs_evict_expired_def numeral_eq_Suc Let_def)
  moreover have "cached_with_capacity demo_config 2 = Some c" by (simp add: cached_with_capacity_def c_def)
  ultimately show thesis using that R m R' by blast
qed

theorem cache_bounded_witness:
  "\<exists>c r. cached_with_capacity demo_config 2 = Some c \<and> cache_reachable c r \<and> fmlen (cs_entries (run_state r)) \<le> 2"
proof -
  obtain c and r r' :: cache_run where d: "cached_with_capacity demo_config 2 = Some c" "cache_reachable c r" by (rule demo_cache)
  with cache_bounded [OF d] show ?thesis by blast
qed

theorem cache_single_flight_witness:
  "\<exists>c r. cached_with_capacity demo_config 2 = Some c \<and> cache_reachable c r
    \<and> {ch'. (demo_addr, ch') \<in> set (resolvers r)} = {0} \<and> snd (cs_action demo_addr 7 2 9 (run_state r)) = Wait 0"
proof -
  obtain c and r r' :: cache_run where d: "cached_with_capacity demo_config 2 = Some c" "cache_reachable c r"
    "(demo_addr, 0) \<in> set (resolvers r)" by (rule demo_cache)
  have "{ch'. (demo_addr, ch') \<in> set (resolvers r)} = {0} \<and> snd (cs_action demo_addr 7 2 9 (run_state r)) = Wait 0"
    using cache_single_flight [OF d, of 7 9] d(3) by auto
  with d(1,2) show ?thesis by blast
qed

theorem cache_hit_current_witness:
  "\<exists>c r. cached_with_capacity demo_config 2 = Some c \<and> cache_reachable c r
    \<and> cs_action demo_addr 5 2 9 (run_state r) = (run_state r, Hit None)
    \<and> (\<exists>d. answer_of demo_addr (finished r) = Some (None, d) \<and> 5 < d)"
proof -
  obtain c and r r' :: cache_run where d: "cached_with_capacity demo_config 2 = Some c" "cache_reachable c r'"
    "cs_action demo_addr 5 2 9 (run_state r') = (run_state r', Hit None)" by (rule demo_cache)
  with cache_hit_current [OF d] show ?thesis by blast
qed

end
