(* ===== verification/Eap_Session.thy ===== *)
theory Eap_Session
  imports Eap_Codec Expiring
begin

text \<open>
  \<^verbatim>\<open>crates/radius-tokio-eap/src/session.rs\<close>: EAP sessions and the in-memory session store. The method
  state is a type parameter. Instants are the values \<open>Instant::now()\<close> returns inside the calls. The
  theorems show that the store never exceeds its capacity, that a session that was stored is
  handed out at most once and exactly as it was stored, and never after its idle time.
\<close>

section \<open>Sessions\<close>

text \<open>\<open>SessionId\<close> is an array of 16 bytes, ordered lexicographically.\<close>

type_synonym session_id = bytes

definition session_id_from_bytes :: "bytes \<Rightarrow> session_id option" where
  "session_id_from_bytes bs = (if length bs = 16 then Some bs else None)"

record 'm session =
  session_method :: 'm
  next_eap_id :: u8
  peer_identity :: "bytes option"
  tried_types :: "eap_type list"

definition session_new :: "'m \<Rightarrow> 'm session" where
  "session_new m = \<lparr>session_method = m, next_eap_id = 1, peer_identity = None, tried_types = []\<rparr>"

definition allocate_eap_id :: "'m session \<Rightarrow> 'm session \<times> u8" where
  "allocate_eap_id s = (s\<lparr>next_eap_id := next_eap_id s + 1\<rparr>, next_eap_id s)"

section \<open>The in-memory store\<close>

record 'm stored_session =
  stored :: "'m session"
  stored_expires_at :: instant

record 'm session_table =
  st_entries :: "(session_id, 'm stored_session) fmap"
  st_expirations :: "(instant \<times> session_id) list"

record 'm session_store =
  table :: "'m session_table"
  idle_timeout :: duration
  session_capacity :: nat

definition session_table_new :: "'m session_table" where
  "session_table_new = \<lparr>st_entries = fmempty, st_expirations = []\<rparr>"

definition st_remove :: "session_id \<Rightarrow> 'm session_table \<Rightarrow> 'm session_table \<times> 'm stored_session option" where
  "st_remove i t =
     (case fmlookup (st_entries t) i of
        None \<Rightarrow> (t, None)
      | Some entry \<Rightarrow>
          (t\<lparr>st_entries := fmdrop i (st_entries t),
             st_expirations := bts_remove (stored_expires_at entry, i) (st_expirations t)\<rparr>, Some entry))"

definition st_evict_first :: "'m session_table \<Rightarrow> 'm session_table" where
  "st_evict_first t =
     (case st_expirations t of
        [] \<Rightarrow> t
      | (_, i) # rest \<Rightarrow> t\<lparr>st_expirations := rest, st_entries := fmdrop i (st_entries t)\<rparr>)"

fun st_evict_loop :: "nat \<Rightarrow> instant \<Rightarrow> 'm session_table \<Rightarrow> 'm session_table" where
  "st_evict_loop 0 now t = t"
| "st_evict_loop (Suc n) now t =
     (if (case st_expirations t of [] \<Rightarrow> True | (deadline, _) # _ \<Rightarrow> deadline > now) then t
      else st_evict_loop n now (st_evict_first t))"

definition st_evict_expired :: "instant \<Rightarrow> 'm session_table \<Rightarrow> 'm session_table" where
  "st_evict_expired now t = st_evict_loop 64 now t"

text \<open>\<open>None\<close> is the failed assertion.\<close>

definition store_with_limits :: "duration \<Rightarrow> nat \<Rightarrow> 'm session_store option" where
  "store_with_limits timeout capacity =
     (if capacity > 0
      then Some \<lparr>table = session_table_new, idle_timeout = timeout, session_capacity = capacity\<rparr>
      else None)"

definition store_new :: "'m session_store option" where
  "store_new = store_with_limits (120 * 1000000000) 4096"

definition st_insert ::
    "instant \<Rightarrow> duration \<Rightarrow> nat \<Rightarrow> session_id \<Rightarrow> 'm session \<Rightarrow> 'm session_table \<Rightarrow> 'm session_table" where
  "st_insert now timeout capacity i s t =
     (let t = st_evict_expired now t;
          t = (if fmlen (st_entries t) \<ge> capacity \<and> fmlookup (st_entries t) i = None then st_evict_first t else t);
          expires_at = now + timeout;
          previous = fmlookup (st_entries t) i;
          t = t\<lparr>st_entries := fmupd i \<lparr>stored = s, stored_expires_at = expires_at\<rparr> (st_entries t)\<rparr>;
          t = (case previous of
                 None \<Rightarrow> t
               | Some p \<Rightarrow> t\<lparr>st_expirations := bts_remove (stored_expires_at p, i) (st_expirations t)\<rparr>)
      in t\<lparr>st_expirations := bts_insert (expires_at, i) (st_expirations t)\<rparr>)"

definition session_insert :: "instant \<Rightarrow> session_id \<Rightarrow> 'm session \<Rightarrow> 'm session_store \<Rightarrow> 'm session_store" where
  "session_insert now i s st = st\<lparr>table := st_insert now (idle_timeout st) (session_capacity st) i s (table st)\<rparr>"

definition session_take :: "instant \<Rightarrow> session_id \<Rightarrow> 'm session_store \<Rightarrow> 'm session_store \<times> 'm session option" where
  "session_take now i st =
     (case st_remove i (table st) of
        (t, r) \<Rightarrow>
          (st\<lparr>table := t\<rparr>,
           case r of
             None \<Rightarrow> None
           | Some entry \<Rightarrow> if stored_expires_at entry > now then Some (stored entry) else None))"

section \<open>The table is an expiring table\<close>

definition stored_deadline :: "'m stored_session \<Rightarrow> instant option" where
  "stored_deadline e = Some (stored_expires_at e)"

definition st_ok :: "'m session_table \<Rightarrow> bool" where
  "st_ok t \<longleftrightarrow> coherent stored_deadline (st_entries t) (st_expirations t)"

lemma st_evict_loop_eq:
  "st_entries (st_evict_loop n now t) = fst (evict_loop n now (st_entries t) (st_expirations t))
   \<and> st_expirations (st_evict_loop n now t) = snd (evict_loop n now (st_entries t) (st_expirations t))"
proof (induction n arbitrary: t)
  case (Suc n)
  show ?case
  proof (cases "st_expirations t")
    case (Cons x xs)
    then show ?thesis using Suc [of "st_evict_first t"] by (cases x) (simp add: st_evict_first_def)
  qed simp
qed simp

lemmas st_evict_fields = st_evict_expired_def st_evict_loop_eq

interpretation session_table: expiring_table st_entries st_expirations stored_deadline st_ok st_evict_expired
  by unfold_locales
    (auto simp: st_ok_def st_evict_fields evict_loop_coherent evict_loop_fmlen
      evict_loop_expired_count [OF coherentD(1)] dest: evict_loop_lookup)

lemma unindex_session:
  "unindex stored_deadline k old xs = (case old of None \<Rightarrow> xs | Some e \<Rightarrow> bts_remove (stored_expires_at e, k) xs)"
  by (simp add: unindex_def stored_deadline_def split: option.splits)

lemma st_ok_remove: "st_ok t \<Longrightarrow> st_ok (fst (st_remove i t))"
  using coherent_drop [of stored_deadline "st_entries t" "st_expirations t" i]
  by (auto simp: st_ok_def st_remove_def unindex_session split: option.splits)

lemma st_evict_first_props:
  assumes "st_ok t"
  shows "st_ok (st_evict_first t)"
    and "fmlookup (st_entries (st_evict_first t)) k = Some e \<Longrightarrow> fmlookup (st_entries t) k = Some e"
    and "st_entries t \<noteq> fmempty \<Longrightarrow> fmlen (st_entries t) = Suc (fmlen (st_entries (st_evict_first t)))"
proof -
  show "st_ok (st_evict_first t)"
    using assms by (auto simp: st_ok_def st_evict_first_def dest: coherent_pop split: list.splits)
  show "fmlookup (st_entries (st_evict_first t)) k = Some e \<Longrightarrow> fmlookup (st_entries t) k = Some e"
    by (auto simp: st_evict_first_def split: list.splits if_splits)
  assume "st_entries t \<noteq> fmempty"
  then obtain k e where "fmlookup (st_entries t) k = Some e" by (metis fmap_ext fmempty_lookup not_None_eq)
  then have "(stored_expires_at e, k) \<in> set (st_expirations t)"
    using coherentD(2) [of stored_deadline "st_entries t" "st_expirations t" "stored_expires_at e" k] assms
    by (auto simp: st_ok_def stored_deadline_def)
  then obtain d i rest where x: "st_expirations t = (d, i) # rest" by (cases "st_expirations t") auto
  then obtain e' where "fmlookup (st_entries t) i = Some e'"
    using coherentD(2) [of stored_deadline "st_entries t" "st_expirations t" d i] assms by (auto simp: st_ok_def)
  then show "fmlen (st_entries t) = Suc (fmlen (st_entries (st_evict_first t)))"
    using fmlen_drop x by (simp add: st_evict_first_def del: fmdom_drop)
qed

text \<open>The table an insertion updates: expired entries are gone and there is room.\<close>

definition st_room :: "instant \<Rightarrow> nat \<Rightarrow> session_id \<Rightarrow> 'm session_table \<Rightarrow> 'm session_table" where
  "st_room now capacity i t =
     (let t = st_evict_expired now t
      in if fmlen (st_entries t) \<ge> capacity \<and> fmlookup (st_entries t) i = None then st_evict_first t else t)"

lemma st_room_props:
  assumes "st_ok t" and "fmlen (st_entries t) \<le> capacity" and "0 < capacity"
  shows "st_ok (st_room now capacity i t)"
    and "fmlookup (st_entries (st_room now capacity i t)) k = Some e \<Longrightarrow> fmlookup (st_entries t) k = Some e"
    and "fmlen (st_entries (st_room now capacity i t)) < capacity
      \<or> fmlookup (st_entries (st_room now capacity i t)) i \<noteq> None \<and> fmlen (st_entries (st_room now capacity i t)) \<le> capacity"
proof -
  let ?t = "st_evict_expired now t"
  have e: "st_ok ?t" "fmlen (st_entries ?t) \<le> capacity"
    using session_table.evict_ok [OF assms(1)] session_table.evict_fmlen [OF assms(1), of now] assms(2) by auto
  note F = st_evict_first_props [OF e(1)]
  show "st_ok (st_room now capacity i t)" using e(1) F(1) by (simp add: st_room_def Let_def)
  show "fmlookup (st_entries (st_room now capacity i t)) k = Some e \<Longrightarrow> fmlookup (st_entries t) k = Some e"
    using F(2) [of k e] session_table.evict_sub [OF assms(1), of now k e] by (auto simp: st_room_def Let_def split: if_splits)
  show "fmlen (st_entries (st_room now capacity i t)) < capacity
      \<or> fmlookup (st_entries (st_room now capacity i t)) i \<noteq> None \<and> fmlen (st_entries (st_room now capacity i t)) \<le> capacity"
  proof (cases "fmlen (st_entries ?t) \<ge> capacity \<and> fmlookup (st_entries ?t) i = None")
    case True
    then have "st_entries ?t \<noteq> fmempty" using assms(3) by (auto simp: fcard.rep_eq)
    then show ?thesis using F(3) True e(2) by (simp add: st_room_def Let_def)
  next
    case False
    then show ?thesis using e(2) by (auto simp: st_room_def Let_def)
  qed
qed

lemma st_insert_fields:
  "st_entries (st_insert now timeout capacity i s t) =
     fmupd i \<lparr>stored = s, stored_expires_at = now + timeout\<rparr> (st_entries (st_room now capacity i t))"
  "st_expirations (st_insert now timeout capacity i s t) =
     bts_insert (now + timeout, i) (unindex stored_deadline i (fmlookup (st_entries (st_room now capacity i t)) i)
       (st_expirations (st_room now capacity i t)))"
  by (simp_all add: st_insert_def st_room_def Let_def unindex_session split: option.splits)

section \<open>Histories\<close>

datatype 'm session_op = SInsert instant session_id "'m session" | STake instant session_id

fun session_step :: "'m session_store \<Rightarrow> 'm session_op \<Rightarrow> 'm session_store" where
  "session_step st (SInsert now i s) = session_insert now i s st"
| "session_step st (STake now i) = fst (session_take now i st)"

definition session_run :: "'m session_store \<Rightarrow> 'm session_op list \<Rightarrow> 'm session_store" where
  "session_run st ops = foldl session_step st ops"

text \<open>What the history says about a key: its last operation, if that was an insertion.\<close>

fun last_stored :: "'m session_op list \<Rightarrow> session_id \<Rightarrow> (instant \<times> 'm session) option" where
  "last_stored [] i = None"
| "last_stored (SInsert t j s # ops) i =
     (if last_stored ops i = None \<and> j = i \<and> \<not> (\<exists>t'. STake t' i \<in> set ops) then Some (t, s) else last_stored ops i)"
| "last_stored (STake t j # ops) i = last_stored ops i"

lemma last_stored_snoc:
  "last_stored (ops @ [SInsert t j s]) i = (if j = i then Some (t, s) else last_stored ops i)"
  "last_stored (ops @ [STake t j]) i = (if j = i then None else last_stored ops i)"
  by (induction ops i rule: last_stored.induct) auto

definition store_inv :: "'m session_store \<Rightarrow> 'm session_op list \<Rightarrow> 'm session_store \<Rightarrow> bool" where
  "store_inv st0 ops st \<longleftrightarrow>
     st_ok (table st) \<and> idle_timeout st = idle_timeout st0 \<and> session_capacity st = session_capacity st0
     \<and> fmlen (st_entries (table st)) \<le> session_capacity st0
     \<and> (\<forall>i e. fmlookup (st_entries (table st)) i = Some e \<longrightarrow>
          (\<exists>t. last_stored ops i = Some (t, stored e) \<and> stored_expires_at e = t + idle_timeout st0))"

lemma store_inv_insert:
  assumes "store_inv st0 ops st" and "0 < session_capacity st0"
  shows "store_inv st0 (ops @ [SInsert now i s]) (session_insert now i s st)"
proof -
  let ?t = "st_room now (session_capacity st0) i (table st)"
  have I: "st_ok (table st)" "idle_timeout st = idle_timeout st0" "session_capacity st = session_capacity st0"
    "fmlen (st_entries (table st)) \<le> session_capacity st0"
    and H: "\<And>j e. fmlookup (st_entries (table st)) j = Some e \<Longrightarrow>
      \<exists>t. last_stored ops j = Some (t, stored e) \<and> stored_expires_at e = t + idle_timeout st0"
    using assms(1) by (auto simp: store_inv_def)
  note R = st_room_props [OF I(1,4) assms(2)]
  let ?n = "st_insert now (idle_timeout st0) (session_capacity st0) i s (table st)"
  have "st_ok ?n"
    using R(1) by (simp add: st_ok_def st_insert_fields coherent_upd stored_deadline_def)
  moreover have "fmlen (st_entries ?n) \<le> session_capacity st0"
    using R(3) [of now i] by (auto simp: st_insert_fields fmlen_upd simp del: fmdom_fmupd)
  moreover have "\<exists>t. last_stored (ops @ [SInsert now i s]) j = Some (t, stored e) \<and> stored_expires_at e = t + idle_timeout st0"
    if "fmlookup (st_entries ?n) j = Some e" for j e
    using that H [of j e] R(2) [of now i j e] by (auto simp: st_insert_fields last_stored_snoc split: if_splits)
  ultimately show ?thesis using I(2,3) by (simp add: store_inv_def session_insert_def)
qed

lemma session_take_fields:
  "st_entries (table (fst (session_take now i st))) = fmdrop i (st_entries (table st))"
  "idle_timeout (fst (session_take now i st)) = idle_timeout st"
  "session_capacity (fst (session_take now i st)) = session_capacity st"
  "table (fst (session_take now i st)) = fst (st_remove i (table st))"
proof -
  have "fmdrop i m = m" if "fmlookup m i = None" for m :: "(session_id, 'a stored_session) fmap"
    using that by (intro fmap_ext) auto
  then show "st_entries (table (fst (session_take now i st))) = fmdrop i (st_entries (table st))"
    by (simp add: session_take_def st_remove_def split: option.splits)
qed (simp_all add: session_take_def split: prod.splits)

lemma store_inv_take:
  assumes "store_inv st0 ops st"
  shows "store_inv st0 (ops @ [STake now i]) (fst (session_take now i st))"
proof -
  have "st_ok (table (fst (session_take now i st)))"
    using assms st_ok_remove [of "table st" i] by (simp add: session_take_fields(4) store_inv_def)
  moreover have "fmlen (fmdrop i (st_entries (table st))) \<le> session_capacity st0"
    using assms fmlen_drop_le [of i "st_entries (table st)"] by (simp add: store_inv_def)
  ultimately show ?thesis
    using assms by (auto simp: store_inv_def session_take_fields(1-3) last_stored_snoc simp del: fmdom_drop split: if_splits)
qed

lemma store_inv_run:
  assumes "store_with_limits timeout capacity = Some st0"
  shows "store_inv st0 ops (session_run st0 ops)" and "0 < session_capacity st0"
    and "session_capacity st0 = capacity" and "idle_timeout st0 = timeout"
proof -
  have st0: "st0 = \<lparr>table = session_table_new, idle_timeout = timeout, session_capacity = capacity\<rparr>" "0 < capacity"
    using assms by (auto simp: store_with_limits_def split: if_splits)
  then show cap: "0 < session_capacity st0" "session_capacity st0 = capacity" "idle_timeout st0 = timeout" by simp_all
  show "store_inv st0 ops (session_run st0 ops)"
  proof (induction ops rule: rev_induct)
    case Nil
    show ?case using st0(1) by (simp add: store_inv_def session_run_def session_table_new_def st_ok_def fcard.rep_eq)
  next
    case (snoc opn ops)
    then show ?case
      using store_inv_insert [OF snoc cap(1)] store_inv_take [OF snoc] by (cases opn) (simp_all add: session_run_def)
  qed
qed

text \<open>
  The session store never holds more sessions than its capacity, whatever is inserted and taken.
\<close>

theorem sessions_bounded:
  assumes "store_with_limits timeout capacity = Some st0"
  shows "fmlen (st_entries (table (session_run st0 ops))) \<le> capacity"
  using store_inv_run(1) [OF assms, of ops] store_inv_run(3) [OF assms] by (simp add: store_inv_def)

theorem sessions_bounded_witness:
  "fmlen (st_entries (table (session_run \<lparr>table = session_table_new, idle_timeout = 9, session_capacity = 1\<rparr>
     [SInsert 0 (replicate 16 1) (session_new True), SInsert 1 (replicate 16 2) (session_new False)]))) \<le> 1"
  by (rule sessions_bounded [where timeout = 9]) (simp add: store_with_limits_def)

text \<open>
  A session is handed out exactly as it was last stored under its identifier, only if that was
  less than the idle time ago and it has not been taken since; a second take finds nothing.
\<close>

theorem session_taken_once:
  assumes "store_with_limits timeout capacity = Some st0"
    and "session_take now i (session_run st0 ops) = (st', Some s)"
  shows "(\<exists>t. last_stored ops i = Some (t, s) \<and> now < t + timeout) \<and> snd (session_take now' i st') = None"
proof
  note V = store_inv_run(1) [OF assms(1), of ops] store_inv_run(4) [OF assms(1)]
  obtain e where e: "fmlookup (st_entries (table (session_run st0 ops))) i = Some e" "now < stored_expires_at e" "stored e = s"
    using assms(2) by (auto simp: session_take_def st_remove_def split: option.splits if_splits)
  then show "\<exists>t. last_stored ops i = Some (t, s) \<and> now < t + timeout"
    using V by (fastforce simp: store_inv_def)
  have "fmlookup (st_entries (table st')) i = None"
    using session_take_fields(1) [of now i "session_run st0 ops"] assms(2) by simp
  then show "snd (session_take now' i st') = None" by (simp add: session_take_def st_remove_def)
qed

theorem session_taken_once_witness:
  "let st0 = \<lparr>table = session_table_new, idle_timeout = 9, session_capacity = 1\<rparr>;
       ops = [SInsert 2 (replicate 16 1) (session_new True)];
       st' = fst (session_take 5 (replicate 16 1) (session_run st0 ops))
   in (\<exists>t. last_stored ops (replicate 16 1) = Some (t, session_new True) \<and> 5 < t + 9)
      \<and> snd (session_take 6 (replicate 16 1) st') = None"
proof -
  let ?st0 = "\<lparr>table = session_table_new, idle_timeout = 9, session_capacity = 1\<rparr> :: bool session_store"
  let ?ops = "[SInsert 2 (replicate 16 1) (session_new True)]"
  have i: "store_with_limits 9 1 = Some ?st0" by (simp add: store_with_limits_def)
  have "snd (session_take 5 (replicate 16 1) (session_run ?st0 ?ops)) = Some (session_new True)"
    by (simp add: session_run_def session_take_def session_insert_def st_remove_def st_insert_fields)
  then have "session_take 5 (replicate 16 1) (session_run ?st0 ?ops) =
      (fst (session_take 5 (replicate 16 1) (session_run ?st0 ?ops)), Some (session_new True))"
    by (metis prod.collapse)
  from session_taken_once [OF i this, of 6] show ?thesis unfolding Let_def .
qed

text \<open>
  A session that is inserted can be taken back unchanged until its idle time has passed, whatever
  the store went through before, even when it was full.
\<close>

theorem session_round_trip:
  assumes "now < t + idle_timeout st"
  shows "snd (session_take now i (session_insert t i s st)) = Some s"
  using assms by (simp add: session_take_def session_insert_def st_remove_def st_insert_fields)

theorem session_round_trip_witness:
  "snd (session_take 7 (replicate 16 1) (session_insert 2 (replicate 16 1) (session_new True)
     (session_run \<lparr>table = session_table_new, idle_timeout = 9, session_capacity = 1\<rparr>
       [SInsert 0 (replicate 16 2) (session_new False)]))) = Some (session_new True)"
  by (rule session_round_trip) (simp add: session_run_def session_insert_def)

section \<open>The interface the handlers rely on\<close>

text \<open>
  What an EAP handler relies on from a session store: a taken session was stored and had not expired,
  taking removes it, and inserting makes exactly one session available, possibly forgetting others.
\<close>

definition all_sessions :: "('s \<Rightarrow> session_id \<Rightarrow> ('m session \<times> instant) option) \<Rightarrow> ('m session \<Rightarrow> bool) \<Rightarrow> 's \<Rightarrow> bool" where
  "all_sessions get P st \<longleftrightarrow> (\<forall>i s d. get st i = Some (s, d) \<longrightarrow> P s)"

locale session_provider =
  fixes get :: "'s \<Rightarrow> session_id \<Rightarrow> ('m session \<times> instant) option"
    and ins :: "instant \<Rightarrow> session_id \<Rightarrow> 'm session \<Rightarrow> 's \<Rightarrow> 's"
    and tak :: "instant \<Rightarrow> session_id \<Rightarrow> 's \<Rightarrow> 's \<times> 'm session option"
  assumes get_ins: "get (ins now i s st) j = Some x \<Longrightarrow> j = i \<and> fst x = s \<or> j \<noteq> i \<and> get st j = Some x"
    and get_ins_same: "\<exists>d. get (ins now i s st) i = Some (s, d)"
    and get_tak: "get (fst (tak now i st)) j = (if j = i then None else get st j)"
    and tak_Some: "snd (tak now i st) = Some s \<Longrightarrow> \<exists>d. get st i = Some (s, d) \<and> now < d"
begin

lemma all_sessions_ins: "all_sessions get P st \<Longrightarrow> P s \<Longrightarrow> all_sessions get P (ins now i s st)"
  unfolding all_sessions_def using get_ins by fastforce

lemma all_sessions_tak: "all_sessions get P st \<Longrightarrow> all_sessions get P (fst (tak now i st))"
  unfolding all_sessions_def by (auto simp: get_tak split: if_splits)

lemma all_sessions_taken: "all_sessions get P st \<Longrightarrow> tak now i st = (st', Some s) \<Longrightarrow> P s"
  unfolding all_sessions_def using tak_Some [of now i st s] by auto

end

definition stored_at :: "'m session_store \<Rightarrow> session_id \<Rightarrow> ('m session \<times> instant) option" where
  "stored_at st i = map_option (\<lambda>e. (stored e, stored_expires_at e)) (fmlookup (st_entries (table st)) i)"

lemma st_evict_loop_sub:
  "fmlookup (st_entries (st_evict_loop n now t)) k = Some e \<Longrightarrow> fmlookup (st_entries t) k = Some e"
proof (induction n arbitrary: t)
  case (Suc n)
  have "fmlookup (st_entries (st_evict_first t)) k = Some e \<Longrightarrow> fmlookup (st_entries t) k = Some e"
    by (auto simp: st_evict_first_def split: if_splits list.splits)
  then show ?case using Suc.IH [of "st_evict_first t"] Suc.prems by (simp split: if_splits)
qed simp

lemma st_room_sub:
  assumes "fmlookup (st_entries (st_room now capacity i t)) k = Some e"
  shows "fmlookup (st_entries t) k = Some e"
proof -
  have "fmlookup (st_entries (st_evict_expired now t)) k = Some e"
    using assms by (auto simp: st_room_def Let_def st_evict_first_def split: if_splits list.splits)
  then show ?thesis unfolding st_evict_expired_def by (rule st_evict_loop_sub)
qed

interpretation memory_store: session_provider stored_at session_insert session_take
proof
  fix now i j st s and x :: "'a session \<times> nat"
  show "stored_at (session_insert now i s st) j = Some x \<Longrightarrow> j = i \<and> fst x = s \<or> j \<noteq> i \<and> stored_at st j = Some x"
    using st_room_sub [of now "session_capacity st" i "table st" j]
    by (auto simp: stored_at_def session_insert_def st_insert_fields split: if_splits)
next
  fix now i s and st :: "'a session_store"
  show "\<exists>d. stored_at (session_insert now i s st) i = Some (s, d)"
    by (simp add: stored_at_def session_insert_def st_insert_fields)
next
  fix now i j and st :: "'a session_store"
  show "stored_at (fst (session_take now i st)) j = (if j = i then None else stored_at st j)"
    by (simp add: stored_at_def session_take_fields(1))
next
  fix now i s and st :: "'a session_store"
  show "snd (session_take now i st) = Some s \<Longrightarrow> \<exists>d. stored_at st i = Some (s, d) \<and> now < d"
    by (auto simp: stored_at_def session_take_def st_remove_def split: option.splits prod.splits if_splits)
qed

end
