(* ===== verification/Eap_Method.thy ===== *)
theory Eap_Method
  imports Eap_Framing Eap_Session
begin

text \<open>
  \<^verbatim>\<open>crates/radius-tokio-eap/src/{method,identity,outer}.rs\<close>: the interface of an EAP method and the
  identity exchange. A boxed method is its state together with a table of operations
  \<open>method_ops\<close>, the vtable of \<open>dyn EapMethod\<close>; what \<open>rand::fill_secure\<close> delivers inside a call is an
  argument of that call, and an outer \<open>None\<close> is a panic or a call that does not return. The locale
  \<open>stable_method\<close> is the contract the handlers rely on: a method never changes its type.
\<close>

section \<open>Methods\<close>

datatype method_outcome =
    MContinue bytes
  | MSuccess (msk: bytes) (emsk: bytes)
  | MFailure

type_synonym 'm method_call = "('m \<times> (eap_error, method_outcome) result) option"

record 'm method_ops =
  m_typ :: "'m \<Rightarrow> eap_type"
  m_start :: "bytes \<Rightarrow> bytes \<Rightarrow> 'm \<Rightarrow> 'm method_call"
  m_notify_peer_identity :: "bytes \<Rightarrow> 'm \<Rightarrow> 'm"
  m_authenticated_identity :: "'m \<Rightarrow> bytes option"
  m_notify_request_id :: "u8 \<Rightarrow> 'm \<Rightarrow> 'm"
  m_step :: "bytes \<Rightarrow> bytes \<Rightarrow> bytes \<Rightarrow> 'm \<Rightarrow> 'm method_call"

text \<open>The default bodies of the trait's optional operations.\<close>

definition default_notify_peer_identity :: "bytes \<Rightarrow> 'm \<Rightarrow> 'm" where
  "default_notify_peer_identity i m = m"

definition default_authenticated_identity :: "'m \<Rightarrow> bytes option" where
  "default_authenticated_identity m = None"

definition default_notify_request_id :: "u8 \<Rightarrow> 'm \<Rightarrow> 'm" where
  "default_notify_request_id i m = m"

text \<open>A type-erased factory: the type it is registered for and what \<open>create\<close> returns.\<close>

record 'm dyn_factory =
  fac_typ :: eap_type
  fac_create :: "(eap_error, 'm) result"

definition dyn_factory_new :: "eap_type \<Rightarrow> (eap_error, 'm) result \<Rightarrow> 'm dyn_factory" where
  "dyn_factory_new t create = \<lparr>fac_typ = t, fac_create = create\<rparr>"

locale stable_method =
  fixes ops :: "'m method_ops"
  assumes typ_start: "m_start ops rnd outer m = Some (m', r) \<Longrightarrow> m_typ ops m' = m_typ ops m"
    and typ_step: "m_step ops rnd data outer m = Some (m', r) \<Longrightarrow> m_typ ops m' = m_typ ops m"
    and typ_notify_peer_identity: "m_typ ops (m_notify_peer_identity ops i m) = m_typ ops m"
    and typ_notify_request_id: "m_typ ops (m_notify_request_id ops n m) = m_typ ops m"

section \<open>Identity\<close>

definition write_identity_request :: "bytes \<Rightarrow> u8 \<Rightarrow> bytes \<Rightarrow> bytes \<times> (packet_error, u16) result" where
  "write_identity_request out i display = eap_write_request out i IDENTITY display"

definition parse_identity_response :: "bytes \<Rightarrow> (eap_error, bytes) result" where
  "parse_identity_response pkt_bytes =
     and_then (map_err EapPacketError (eap_parse pkt_bytes)) (\<lambda>pkt.
       if eap_code pkt \<noteq> EAP_RESPONSE then Err (Framing ''EAP packet is not a Response'')
       else if eap_typ pkt \<noteq> Some IDENTITY then Err (Framing ''EAP Response is not Type=Identity'')
       else Ok (eap_type_data pkt))"

definition identity_as_str :: "bytes \<Rightarrow> bytes option" where
  "identity_as_str bs = from_utf8 bs"

end
