(* ===== verification/Eap_Handler.thy ===== *)
theory Eap_Handler
  imports Eap_Method Handler
begin

text \<open>
  \<^verbatim>\<open>crates/radius-tokio-eap/src/handler.rs\<close> and \<^verbatim>\<open>router.rs\<close>: one round of an EAP conversation inside
  RADIUS. The round takes the session named by the State attribute out of the store, runs the method,
  and stores the session again under a fresh random id or ends it. \<open>eap_env\<close> holds what the round
  takes from outside: the two clock readings of the store, the fresh session id and the random
  bytes of the method. The session store is the in-memory one.
\<close>

section \<open>Outcomes\<close>

datatype eap_dispatch =
    DispChallenge (disp_payload: bytes) (disp_identifier: u8) (disp_typ: eap_type) (disp_state: session_id)
  | DispAccept (disp_identifier: u8) (disp_msk: bytes) (disp_peer: "bytes option") (disp_typ: eap_type)
  | DispReject (disp_identifier: u8)
  | DispDrop

record eap_env =
  env_take :: instant
  env_insert :: instant
  env_session_id :: session_id
  env_rnd :: bytes

definition resolve_peer_identity :: "bytes \<Rightarrow> bytes option \<Rightarrow> bytes option" where
  "resolve_peer_identity type_data uname = (if type_data = [] then uname else Some type_data)"

definition commit_outcome ::
    "'m method_ops \<Rightarrow> eap_env \<Rightarrow> 'm session_store \<Rightarrow> method_outcome \<Rightarrow> 'm session \<Rightarrow> u8 \<Rightarrow> eap_type
      \<Rightarrow> 'm session_store \<times> (eap_error, eap_dispatch) result" where
  "commit_outcome ops env store outcome session peer_eap_id method_typ =
     (case outcome of
        MContinue pl \<Rightarrow>
          let (session, eap_id) = allocate_eap_id session;
              (session, eap_id) = (if eap_id = peer_eap_id then allocate_eap_id session else (session, eap_id));
              session = session\<lparr>session_method := m_notify_request_id ops eap_id (session_method session)\<rparr>;
              i = env_session_id env;
              store = session_insert (env_insert env) i session store
          in (store, Ok (DispChallenge pl eap_id method_typ i))
      | MSuccess k _ \<Rightarrow>
          (store, Ok (DispAccept peer_eap_id k (m_authenticated_identity ops (session_method session)) method_typ))
      | MFailure \<Rightarrow> (store, Ok (DispReject peer_eap_id)))"

section \<open>One method\<close>

text \<open>Start of a conversation: the method learns the identity, starts, and its session is stored.\<close>

definition start_session ::
    "'m method_ops \<Rightarrow> eap_env \<Rightarrow> 'm session_store \<Rightarrow> 'm \<Rightarrow> bytes option \<Rightarrow> bytes
      \<Rightarrow> ('m \<Rightarrow> 'm session \<times> eap_type) \<Rightarrow> u8
      \<Rightarrow> ('m session_store \<times> (eap_error, eap_dispatch) result) option" where
  "start_session ops env store m identity outer mk peer_id =
     (let m = (case identity of Some i \<Rightarrow> m_notify_peer_identity ops i m | None \<Rightarrow> m)
      in case m_start ops (env_rnd env) outer m of
           None \<Rightarrow> None
         | Some (m, Err e) \<Rightarrow> Some (store, Err e)
         | Some (m, Ok outcome) \<Rightarrow>
             (case mk m of (session, t) \<Rightarrow> Some (commit_outcome ops env store outcome session peer_id t)))"

definition continue_session ::
    "'m method_ops \<Rightarrow> eap_env \<Rightarrow> 'm session_store \<Rightarrow> 'm session \<Rightarrow> eap_type \<Rightarrow> bytes \<Rightarrow> bytes \<Rightarrow> u8
      \<Rightarrow> ('m session_store \<times> (eap_error, eap_dispatch) result) option" where
  "continue_session ops env store session t type_data outer peer_id =
     (case m_step ops (env_rnd env) type_data outer (session_method session) of
        None \<Rightarrow> None
      | Some (m, Err e) \<Rightarrow> Some (store, Err e)
      | Some (m, Ok outcome) \<Rightarrow>
          Some (commit_outcome ops env store outcome (session\<lparr>session_method := m\<rparr>) peer_id t))"

definition eap_dispatch_round ::
    "'m method_ops \<Rightarrow> (eap_error, 'm) result \<Rightarrow> eap_env \<Rightarrow> 'm session_store \<Rightarrow> session_id option
      \<Rightarrow> bytes \<Rightarrow> bytes option \<Rightarrow> bytes
      \<Rightarrow> ('m session_store \<times> (eap_error, eap_dispatch) result) option" where
  "eap_dispatch_round ops create env store existing eap_buf uname outer =
     (case eap_parse eap_buf of
        Err _ \<Rightarrow> Some (store, Ok DispDrop)
      | Ok pkt \<Rightarrow>
          if eap_code pkt \<noteq> EAP_RESPONSE then Some (store, Ok DispDrop)
          else if eap_typ pkt = Some IDENTITY then
            (case create of
               Err e \<Rightarrow> Some (store, Err e)
             | Ok m \<Rightarrow>
                 let identity = resolve_peer_identity (eap_type_data pkt) uname
                 in start_session ops env store m identity outer
                      (\<lambda>m. ((session_new m)\<lparr>peer_identity := identity\<rparr>, m_typ ops m)) (eap_identifier pkt))
          else
            (case existing of
               None \<Rightarrow> Some (store, Ok DispDrop)
             | Some i \<Rightarrow>
                 (case session_take (env_take env) i store of
                    (store, None) \<Rightarrow> Some (store, Ok DispDrop)
                  | (store, Some session) \<Rightarrow>
                      let t = m_typ ops (session_method session)
                      in if eap_typ pkt \<noteq> Some t then Some (store, Ok (DispReject (eap_identifier pkt)))
                         else continue_session ops env store session t (eap_type_data pkt) outer
                                (eap_identifier pkt))))"

section \<open>Replies\<close>

record accept_context =
  acc_peer_identity :: "bytes option"
  acc_user_name :: "bytes option"
  acc_eap_type :: eap_type
  acc_raw_attributes :: bytes

type_synonym accept_decorator = "accept_context \<Rightarrow> reply \<Rightarrow> reply \<times> (codec_error, unit) result"

definition render_dispatch ::
    "crypto \<Rightarrow> eap_dispatch \<Rightarrow> u8 \<Rightarrow> bytes \<Rightarrow> bytes \<Rightarrow> bytes option \<Rightarrow> bytes \<Rightarrow> accept_decorator option
      \<Rightarrow> bytes list \<Rightarrow> handler_result option" where
  "render_dispatch C outcome radius_identifier req_auth secret uname raw_attributes decorator draws =
     (case outcome of
        DispChallenge pl i t state \<Rightarrow>
          Option.bind (reply_new ACCESS_CHALLENGE radius_identifier) (\<lambda>reply.
            case eap_write_request [] i t pl of
              (_, Err _) \<Rightarrow> Some HDrop
            | (wire, Ok _) \<Rightarrow>
                (case reply_add_eap_message reply wire of
                   (_, Err _) \<Rightarrow> Some HDrop
                 | (reply, Ok _) \<Rightarrow>
                     (case reply_add_state reply state of
                        (_, Err _) \<Rightarrow> Some HDrop
                      | (reply, Ok _) \<Rightarrow> Some (HReply reply))))
      | DispAccept i k peer t \<Rightarrow>
          Option.bind (reply_new ACCESS_ACCEPT radius_identifier) (\<lambda>reply.
            case add_eap_success reply i of
              (_, Err _) \<Rightarrow> Some HDrop
            | (reply, Ok _) \<Rightarrow>
                Option.bind
                  (if length k \<ge> 64
                   then map_option fst (add_mppe_keys C reply (take 32 (drop 32 k)) (take 32 k) req_auth secret draws)
                   else Some (reply, Ok ()))
                  (\<lambda>(reply, res).
                    case res of
                      Err _ \<Rightarrow> Some HDrop
                    | Ok _ \<Rightarrow>
                        (case decorator of
                           None \<Rightarrow> Some (HReply reply)
                         | Some decorate \<Rightarrow>
                             (case decorate \<lparr>acc_peer_identity = peer, acc_user_name = uname,
                                             acc_eap_type = t, acc_raw_attributes = raw_attributes\<rparr> reply of
                                (_, Err _) \<Rightarrow> Some HDrop
                              | (reply, Ok _) \<Rightarrow> Some (HReply reply)))))
      | DispReject i \<Rightarrow>
          Option.bind (reply_new ACCESS_REJECT radius_identifier) (\<lambda>reply.
            case add_eap_failure reply i of
              (_, Err _) \<Rightarrow> Some HDrop
            | (reply, Ok _) \<Rightarrow> Some (HReply reply))
      | DispDrop \<Rightarrow> Some HDrop)"

text \<open>The part of \<open>Handler::handle\<close> that both EAP handlers share: read the request, run the round, render.\<close>

definition eap_request_state :: "server_request \<Rightarrow> session_id option" where
  "eap_request_state r = Option.bind (state_attr (req_attributes r)) session_id_from_bytes"

definition eap_handle_with ::
    "crypto \<Rightarrow> (session_id option \<Rightarrow> bytes \<Rightarrow> bytes option \<Rightarrow> bytes
       \<Rightarrow> ('m session_store \<times> (eap_error, eap_dispatch) result) option)
      \<Rightarrow> accept_decorator option \<Rightarrow> bytes list \<Rightarrow> server_request
      \<Rightarrow> ('m session_store \<times> handler_result) option" where
  "eap_handle_with C dispatch decorator draws request =
     Option.bind
       (dispatch (eap_request_state request) (reassemble (req_attributes request)) (user_name (req_attributes request))
          (req_attributes request))
       (\<lambda>(store, outcome).
         map_option (Pair store)
           (render_dispatch C (case outcome of Ok d \<Rightarrow> d | Err _ \<Rightarrow> DispDrop) (req_identifier request)
              (req_authenticator request) (client_secret (req_client request)) (user_name (req_attributes request))
              (req_attributes request) decorator draws))"

definition eap_handle ::
    "crypto \<Rightarrow> 'm method_ops \<Rightarrow> (eap_error, 'm) result \<Rightarrow> accept_decorator option \<Rightarrow> eap_env \<Rightarrow> bytes list
      \<Rightarrow> 'm session_store \<Rightarrow> server_request \<Rightarrow> ('m session_store \<times> handler_result) option" where
  "eap_handle C ops create decorator env draws store request =
     eap_handle_with C (eap_dispatch_round ops create env store) decorator draws request"

section \<open>The method router\<close>

record 'm eap_router =
  er_methods :: "(u8, 'm dyn_factory) fmap"
  er_preferred :: eap_type

record 'm eap_router_builder =
  eb_methods :: "(u8, 'm dyn_factory) fmap"
  eb_preferred :: "eap_type option"

datatype router_build_error = NoMethods | NoPreferred | PreferredNotRegistered eap_type

definition eap_router_builder_default :: "'m eap_router_builder" where
  "eap_router_builder_default = \<lparr>eb_methods = fmempty, eb_preferred = None\<rparr>"

definition eb_set_preferred :: "'m eap_router_builder \<Rightarrow> eap_type \<Rightarrow> 'm eap_router_builder" where
  "eb_set_preferred b t = b\<lparr>eb_preferred := Some t\<rparr>"

definition eb_register :: "'m eap_router_builder \<Rightarrow> 'm dyn_factory \<Rightarrow> 'm eap_router_builder" where
  "eb_register b f = b\<lparr>eb_methods := fmupd (eap_type_byte (fac_typ f)) f (eb_methods b)\<rparr>"

definition eb_register_typed ::
    "'m eap_router_builder \<Rightarrow> eap_type \<Rightarrow> (eap_error, 'm) result \<Rightarrow> 'm eap_router_builder" where
  "eb_register_typed b t create = eb_register b (dyn_factory_new t create)"

definition eap_router_build :: "'m eap_router_builder \<Rightarrow> (router_build_error, 'm eap_router) result" where
  "eap_router_build b =
     (if eb_methods b = fmempty then Err NoMethods
      else case eb_preferred b of
        None \<Rightarrow> Err NoPreferred
      | Some p \<Rightarrow>
          if fmlookup (eb_methods b) (eap_type_byte p) = None then Err (PreferredNotRegistered p)
          else Ok \<lparr>er_methods = eb_methods b, er_preferred = p\<rparr>)"

definition er_lookup :: "'m eap_router \<Rightarrow> eap_type \<Rightarrow> 'm dyn_factory option" where
  "er_lookup r t = fmlookup (er_methods r) (eap_type_byte t)"

definition er_supports :: "'m eap_router \<Rightarrow> eap_type \<Rightarrow> bool" where
  "er_supports r t \<longleftrightarrow> fmlookup (er_methods r) (eap_type_byte t) \<noteq> None"

text \<open>The types of a Nak that may be offered next.\<close>

definition nak_desired :: "'m eap_router \<Rightarrow> 'm session \<Rightarrow> bytes \<Rightarrow> eap_type list" where
  "nak_desired router session type_data =
     filter (\<lambda>t. eap_type_byte t \<noteq> 0 \<and> er_supports router t \<and> t \<notin> set (tried_types session)) (map EapType type_data)"

definition multi_dispatch_round ::
    "'m method_ops \<Rightarrow> 'm eap_router \<Rightarrow> eap_env \<Rightarrow> 'm session_store \<Rightarrow> session_id option
      \<Rightarrow> bytes \<Rightarrow> bytes option \<Rightarrow> bytes
      \<Rightarrow> ('m session_store \<times> (eap_error, eap_dispatch) result) option" where
  "multi_dispatch_round ops router env store existing eap_buf uname outer =
     (case eap_parse eap_buf of
        Err _ \<Rightarrow> Some (store, Ok DispDrop)
      | Ok pkt \<Rightarrow>
          if eap_code pkt \<noteq> EAP_RESPONSE then Some (store, Ok DispDrop)
          else if eap_typ pkt = Some IDENTITY then
            let t = er_preferred router
            in Option.bind (er_lookup router t) (\<lambda>factory.
                 case fac_create factory of
                   Err e \<Rightarrow> Some (store, Err e)
                 | Ok m \<Rightarrow>
                     let identity = resolve_peer_identity (eap_type_data pkt) uname
                     in start_session ops env store m identity outer
                          (\<lambda>m. ((session_new m)\<lparr>peer_identity := identity, tried_types := [t]\<rparr>, t)) (eap_identifier pkt))
          else
            (case existing of
               None \<Rightarrow> Some (store, Ok DispDrop)
             | Some i \<Rightarrow>
                 (case session_take (env_take env) i store of
                    (store, None) \<Rightarrow> Some (store, Ok DispDrop)
                  | (store, Some session) \<Rightarrow>
                      if eap_typ pkt = Some NAK then
                        (case nak_desired router session (eap_type_data pkt) of
                           [] \<Rightarrow> Some (store, Ok (DispReject (eap_identifier pkt)))
                         | t # _ \<Rightarrow>
                             Option.bind (er_lookup router t) (\<lambda>factory.
                               case fac_create factory of
                                 Err e \<Rightarrow> Some (store, Err e)
                               | Ok m \<Rightarrow>
                                   start_session ops env store m (peer_identity session) outer
                                     (\<lambda>m. (session\<lparr>session_method := m, tried_types := tried_types session @ [t]\<rparr>, t))
                                     (eap_identifier pkt)))
                      else
                        let t = m_typ ops (session_method session)
                        in if eap_typ pkt \<noteq> Some t then Some (store, Ok (DispReject (eap_identifier pkt)))
                           else continue_session ops env store session t (eap_type_data pkt) outer
                                  (eap_identifier pkt))))"

definition multi_eap_handle ::
    "crypto \<Rightarrow> 'm method_ops \<Rightarrow> 'm eap_router \<Rightarrow> accept_decorator option \<Rightarrow> eap_env \<Rightarrow> bytes list
      \<Rightarrow> 'm session_store \<Rightarrow> server_request \<Rightarrow> ('m session_store \<times> handler_result) option" where
  "multi_eap_handle C ops router decorator env draws store request =
     eap_handle_with C (multi_dispatch_round ops router env store) decorator draws request"

section \<open>Rendering\<close>

text \<open>The attributes a reply with an EAP packet carries after the Message-Authenticator slot.\<close>

definition eap_attrs :: "bytes \<Rightarrow> (u8 \<times> bytes) list" where
  "eap_attrs eap = (80, replicate 16 0) # map (Pair 79) (chunks 253 eap)"

lemma reply_add_eap_message_fresh:
  assumes "reply_new c i = Some r" and "reply_add_eap_message r eap = (r', Ok x)"
  shows "reply_shape r' (inner (with_capacity c i 512)) (eap_attrs eap)"
proof -
  have "reply_shape r (inner (with_capacity c i 512)) [(80, replicate 16 0)]"
    using reply_with_capacity_shape [of c i 512] assms(1) by (simp add: reply_new_def)
  from reply_add_eap_message_shape [OF this, of eap] assms(2) show ?thesis by (auto simp: eap_attrs_def)
qed

lemma with_capacity_code: "Code (inner (with_capacity (Code c) i n) ! 0) = Code c"
  by (simp add: with_capacity_def)

lemma reply_fresh_code:
  assumes "reply_shape r (inner (with_capacity (Code c) i n)) as" and "pb_header (reply_buf r) = Some h"
  shows "hdr_code h = Code c"
  using reply_shape_code [OF assms(1)] assms(2) by (simp add: with_capacity_code)

lemma render_challenge:
  assumes "render_dispatch C (DispChallenge pl i t state) rid auth secret un raw dec draws = Some (HReply r)"
    and "length state = 16"
  shows "reply_shape r (inner (with_capacity ACCESS_CHALLENGE rid 512))
      (eap_attrs (eap_bytes \<lparr>eap_code = EAP_REQUEST, eap_identifier = i, eap_payload = eap_type_byte t # pl\<rparr>) @ [(24, state)])"
    and "length pl + 5 \<le> 65535"
proof -
  let ?w = "eap_bytes \<lparr>eap_code = EAP_REQUEST, eap_identifier = i, eap_payload = eap_type_byte t # pl\<rparr>"
  show len: "length pl + 5 \<le> 65535"
    using assms(1) by (auto simp: render_dispatch_def eap_write_request_def write_with_type_def Let_def bind_eq_Some_conv split: if_splits)
  then have w: "eap_write_request [] i t pl = (?w, Ok (of_nat (5 + length pl)))"
    by (simp add: eap_write_request_def write_with_type_def eap_bytes_def eap_length_def Let_def)
  obtain r0 where r0: "reply_new ACCESS_CHALLENGE rid = Some r0" using reply_new_inv by blast
  obtain r1 x where r1: "reply_add_eap_message r0 ?w = (r1, x)" by (cases "reply_add_eap_message r0 ?w")
  obtain r2 y where r2: "reply_add_state r1 state = (r2, y)" by (cases "reply_add_state r1 state")
  have ok: "is_ok x" "is_ok y" "r2 = r"
    using assms(1) r0 r1 r2 w by (auto simp: render_dispatch_def split: result.splits)
  then obtain x' where r: "reply_new ACCESS_CHALLENGE rid = Some r0" "reply_add_eap_message r0 ?w = (r1, Ok x')"
    "fst (reply_add_state r1 state) = r" "is_ok (snd (reply_add_state r1 state))"
    using r0 r1 r2 by (cases x) auto
  have s: "reply_shape r1 (inner (with_capacity ACCESS_CHALLENGE rid 512)) (eap_attrs ?w)"
    by (rule reply_add_eap_message_fresh [OF r(1,2)])
  have "length (inner (reply_buf r1)) + length state \<le> 4094"
    using r(4) assms(2) by (auto simp: reply_add_state_def reply_add_attribute_def on_buf_eq add_attribute_def Let_def split: if_splits)
  then show "reply_shape r (inner (with_capacity ACCESS_CHALLENGE rid 512)) (eap_attrs ?w @ [(24, state)])"
    using reply_add_attribute_shape [OF s, of 24 state] assms(2) r(3) by (auto simp: reply_add_state_def)
qed

lemma reply_add_eap_terminal:
  "\<exists>r0 r1. reply_new c rid = Some r0 \<and> reply_add_eap_message r0 [b, i, 0, 4] = (r1, Ok ())
    \<and> reply_shape r1 (inner (with_capacity c rid 512)) [(80, replicate 16 0), (79, [b, i, 0, 4])]"
proof -
  obtain r0 where r0: "reply_new c rid = Some r0" "reply_shape r0 (inner (with_capacity c rid 512)) [(80, replicate 16 0)]"
    using reply_with_capacity_shape [of c rid 512] by (auto simp: reply_new_def)
  have len: "length (inner (reply_buf r0)) = 38" using r0(2) by (simp add: reply_shape_def laid_out_def)
  have c: "chunks 253 [b, i, 0, 4] = [[b, i, 0, 4]]" by (simp add: chunks.simps)
  obtain r1 where r1: "reply_add_attribute r0 79 [b, i, 0, 4] = (r1, Ok ())"
    "reply_shape r1 (inner (with_capacity c rid 512)) [(80, replicate 16 0), (79, [b, i, 0, 4])]"
    using reply_add_attribute_shape [OF r0(2), of 79 "[b, i, 0, 4]"] len by auto
  then have "reply_add_eap_message r0 [b, i, 0, 4] = (r1, Ok ())"
    unfolding reply_add_eap_message_def c
    by (auto simp: reply_add_attribute_def on_buf_def split: prod.splits result.splits)
  then show ?thesis using r0(1) r1(2) by blast
qed

lemma eap_terminal_bytes: "[eap_code_byte (EapCode b)] @ [i] @ u16_to_be 4 = [b, i, 0, 4]"
  by (simp add: u16_to_be_eq)

lemma render_reject:
  assumes "render_dispatch C (DispReject i) rid auth secret un raw dec draws = Some res"
  shows "\<exists>r. res = HReply r \<and> reply_shape r (inner (with_capacity ACCESS_REJECT rid 512)) [(80, replicate 16 0), (79, [4, i, 0, 4])]"
  using reply_add_eap_terminal [of ACCESS_REJECT rid 4 i] assms
  unfolding render_dispatch_def add_eap_failure_def EAP_FAILURE_def eap_terminal_bytes by auto

text \<open>A reply with the code Access-Accept can only come from an accepting dispatch.\<close>

lemma render_accept_only:
  assumes "render_dispatch C d rid auth secret un raw dec draws = Some (HReply r)"
    and "pb_header (reply_buf r) = Some h" and "hdr_code h = ACCESS_ACCEPT"
    and "\<And>pl i t st. d = DispChallenge pl i t st \<Longrightarrow> length st = 16"
  shows "\<exists>i k peer t. d = DispAccept i k peer t"
proof (cases d)
  case (DispChallenge pl i t st)
  from render_challenge(1) [OF assms(1) [unfolded DispChallenge] assms(4) [OF DispChallenge]]
  have "hdr_code h = ACCESS_CHALLENGE" using reply_fresh_code assms(2) by fastforce
  then show ?thesis using assms(3) by simp
next
  case (DispReject i)
  from render_reject [OF assms(1) [unfolded DispReject]]
  have "hdr_code h = ACCESS_REJECT" using reply_fresh_code assms(2) by fastforce
  then show ?thesis using assms(3) by simp
qed (use assms(1) in \<open>auto simp: render_dispatch_def\<close>)

section \<open>One round\<close>

lemma commit_outcome_accept:
  "commit_outcome ops env store outcome session p t = (store', Ok (DispAccept i k peer t')) \<longleftrightarrow>
     store' = store \<and> i = p \<and> t' = t \<and> (\<exists>e. outcome = MSuccess k e)
     \<and> peer = m_authenticated_identity ops (session_method session)"
  by (cases outcome) (auto simp: commit_outcome_def Let_def split: prod.splits)

lemma start_session_accept:
  assumes "start_session ops env store m identity outer mk p = Some (store', Ok (DispAccept i k peer t))"
  shows "\<exists>m' e. m_start ops (env_rnd env) outer (case identity of Some i \<Rightarrow> m_notify_peer_identity ops i m | None \<Rightarrow> m)
    = Some (m', Ok (MSuccess k e))"
  using assms unfolding start_session_def Let_def
  by (auto simp: commit_outcome_accept split: option.splits prod.splits result.splits)

lemma continue_session_accept:
  assumes "continue_session ops env store session t data outer p = Some (store', Ok (DispAccept i k peer t'))"
  shows "\<exists>m e. m_step ops (env_rnd env) data outer (session_method session) = Some (m, Ok (MSuccess k e))
    \<and> store' = store \<and> peer = m_authenticated_identity ops m \<and> i = p \<and> t' = t"
  using assms unfolding continue_session_def
  by (auto simp: commit_outcome_accept split: option.splits prod.splits result.splits)

text \<open>The shape of a round: nothing happens, a conversation starts, or one continues.\<close>

lemma dispatch_round_cases:
  assumes "eap_dispatch_round ops create env store existing buf un outer = Some (store', res)"
  obtains (quiet) "store' = store \<or> (\<exists>sid r. session_take (env_take env) sid store = (store', r))"
      "res = Ok DispDrop \<or> (\<exists>i. res = Ok (DispReject i)) \<or> (\<exists>e. res = Err e)"
    | (start) pkt m where "eap_parse buf = Ok pkt" "eap_code pkt = EAP_RESPONSE" "eap_typ pkt = Some IDENTITY" "create = Ok m"
      "start_session ops env store m (resolve_peer_identity (eap_type_data pkt) un) outer
        (\<lambda>m. ((session_new m)\<lparr>peer_identity := resolve_peer_identity (eap_type_data pkt) un\<rparr>, m_typ ops m))
        (eap_identifier pkt) = Some (store', res)"
    | (continue) pkt sid st1 session where "eap_parse buf = Ok pkt" "eap_code pkt = EAP_RESPONSE" "existing = Some sid"
      "session_take (env_take env) sid store = (st1, Some session)" "eap_typ pkt = Some (m_typ ops (session_method session))"
      "continue_session ops env st1 session (m_typ ops (session_method session)) (eap_type_data pkt) outer
        (eap_identifier pkt) = Some (store', res)" "eap_typ pkt \<noteq> Some IDENTITY"
proof (cases "eap_parse buf")
  case (Err e)
  then show ?thesis using assms quiet by (simp add: eap_dispatch_round_def)
next
  case pkt: (Ok pkt)
  show ?thesis
  proof (cases "eap_code pkt = EAP_RESPONSE")
    case False
    then show ?thesis using assms quiet pkt by (simp add: eap_dispatch_round_def)
  next
    case resp: True
    show ?thesis
    proof (cases "eap_typ pkt = Some IDENTITY")
      case True
      then show ?thesis
        using assms quiet start [OF pkt resp True] pkt resp
        by (cases create) (simp_all add: eap_dispatch_round_def Let_def, blast)
    next
      case no_id: False
      show ?thesis
      proof (cases existing)
        case None
        then show ?thesis using assms quiet pkt resp no_id by (simp add: eap_dispatch_round_def)
      next
        case (Some sid)
        obtain st1 taken where tk: "session_take (env_take env) sid store = (st1, taken)"
          by (cases "session_take (env_take env) sid store")
        show ?thesis
        proof (cases taken)
          case None
          then have "st1 = store'" "res = Ok DispDrop" using assms pkt resp no_id Some tk by (simp_all add: eap_dispatch_round_def)
          then show ?thesis using quiet tk by blast
        next
          case s: (Some session)
          let ?t = "m_typ ops (session_method session)"
          show ?thesis
          proof (cases "eap_typ pkt = Some ?t")
            case True
            then show ?thesis
              using continue [OF pkt resp Some tk [unfolded s] True] assms pkt resp no_id Some tk s
              by (simp add: eap_dispatch_round_def Let_def)
          next
            case False
            then have "st1 = store'" "res = Ok (DispReject (eap_identifier pkt))"
              using assms pkt resp no_id Some tk s by (simp_all add: eap_dispatch_round_def Let_def)
            then show ?thesis using quiet tk by blast
          qed
        qed
      qed
    qed
  qed
qed

lemma dispatch_round_accept:
  assumes "eap_dispatch_round ops create env store existing buf un outer = Some (store', Ok (DispAccept i k peer t))"
  obtains (identity) pkt m m' e where "eap_parse buf = Ok pkt" "eap_code pkt = EAP_RESPONSE" "eap_typ pkt = Some IDENTITY"
      "create = Ok m" "m_start ops (env_rnd env) outer
        (case resolve_peer_identity (eap_type_data pkt) un of Some i \<Rightarrow> m_notify_peer_identity ops i m | None \<Rightarrow> m)
        = Some (m', Ok (MSuccess k e))"
    | (session) pkt sid session m e where "eap_parse buf = Ok pkt" "eap_code pkt = EAP_RESPONSE"
      "existing = Some sid" "session_take (env_take env) sid store = (store', Some session)"
      "eap_typ pkt = Some (m_typ ops (session_method session))"
      "m_step ops (env_rnd env) (eap_type_data pkt) outer (session_method session) = Some (m, Ok (MSuccess k e))"
      "peer = m_authenticated_identity ops m" "i = eap_identifier pkt"
  using assms
proof (cases rule: dispatch_round_cases)
  case (start pkt m)
  from start_session_accept [OF start(5)] identity [OF start(1-4)] show ?thesis by blast
next
  case (continue pkt sid st1 s)
  from continue_session_accept [OF continue(6)] session [OF continue(1-3) _ continue(5)] continue(4)
  show ?thesis by blast
qed auto

definition issued_id :: "'m session \<Rightarrow> u8 \<Rightarrow> u8" where
  "issued_id session p = (if next_eap_id session = p then next_eap_id session + 1 else next_eap_id session)"

lemma issued_id_fresh: "issued_id session p \<noteq> p"
  by (simp add: issued_id_def)

lemma commit_outcome_continue:
  "commit_outcome ops env store (MContinue pl) session p t =
     (session_insert (env_insert env) (env_session_id env)
        (session\<lparr>next_eap_id := issued_id session p + 1,
                 session_method := m_notify_request_id ops (issued_id session p) (session_method session)\<rparr>) store,
      Ok (DispChallenge pl (issued_id session p) t (env_session_id env)))"
  by (simp add: commit_outcome_def allocate_eap_id_def issued_id_def Let_def)

lemma commit_outcome_challenge:
  assumes "commit_outcome ops env store outcome session p t = (store', Ok (DispChallenge pl i t' s))"
  shows "outcome = MContinue pl \<and> t' = t \<and> s = env_session_id env \<and> i \<noteq> p
    \<and> (\<exists>session'. store' = session_insert (env_insert env) s session' store
      \<and> session_method session' = m_notify_request_id ops i (session_method session)
      \<and> tried_types session' = tried_types session \<and> peer_identity session' = peer_identity session)"
proof (cases outcome)
  case (MContinue pl')
  then have i: "pl' = pl" "t' = t" "s = env_session_id env" "i = issued_id session p"
    and st: "store' = session_insert (env_insert env) s (session\<lparr>next_eap_id := i + 1,
        session_method := m_notify_request_id ops i (session_method session)\<rparr>) store"
    using assms by (auto simp add: commit_outcome_continue)
  show ?thesis
    using MContinue i issued_id_fresh [of session p] st
    by (intro conjI exI [of _ "session\<lparr>next_eap_id := i + 1,
        session_method := m_notify_request_id ops i (session_method session)\<rparr>"]) simp_all
qed (use assms in \<open>simp_all add: commit_outcome_def\<close>)

lemma stored_at_insert:
  "stored_at (session_insert now i s st) i = Some (s, now + idle_timeout st)"
  by (simp add: stored_at_def session_insert_def st_insert_fields)

lemma stored_session_taken:
  assumes "stored_at st sid = Some (s, d)" and "now < d"
  obtains st1 where "session_take now sid st = (st1, Some s)"
  using assms by (auto simp: stored_at_def session_take_def st_remove_def)

lemma start_session_challenge:
  assumes "start_session ops env store m identity outer mk p = Some (store', Ok (DispChallenge pl i t s))"
  shows "\<exists>m' session'. m_start ops (env_rnd env) outer
      (case identity of Some i \<Rightarrow> m_notify_peer_identity ops i m | None \<Rightarrow> m) = Some (m', Ok (MContinue pl))
    \<and> t = snd (mk m') \<and> s = env_session_id env \<and> i \<noteq> p
    \<and> store' = session_insert (env_insert env) s session' store
    \<and> session_method session' = m_notify_request_id ops i (session_method (fst (mk m')))
    \<and> tried_types session' = tried_types (fst (mk m'))"
proof -
  let ?m = "case identity of Some i \<Rightarrow> m_notify_peer_identity ops i m | None \<Rightarrow> m"
  obtain m' outcome where c: "m_start ops (env_rnd env) outer ?m = Some (m', Ok outcome)"
    "commit_outcome ops env store outcome (fst (mk m')) p (snd (mk m')) = (store', Ok (DispChallenge pl i t s))"
    using assms unfolding start_session_def Let_def by (auto split: option.splits prod.splits result.splits)
  show ?thesis using commit_outcome_challenge [OF c(2)] c(1) by auto
qed

lemma continue_session_challenge:
  assumes "continue_session ops env store session t data outer p = Some (store', Ok (DispChallenge pl i t' s))"
  shows "\<exists>m' session'. m_step ops (env_rnd env) data outer (session_method session) = Some (m', Ok (MContinue pl))
    \<and> t' = t \<and> s = env_session_id env \<and> i \<noteq> p
    \<and> store' = session_insert (env_insert env) s session' store
    \<and> session_method session' = m_notify_request_id ops i m'
    \<and> tried_types session' = tried_types session"
proof -
  obtain m' outcome where c: "m_step ops (env_rnd env) data outer (session_method session) = Some (m', Ok outcome)"
    "commit_outcome ops env store outcome (session\<lparr>session_method := m'\<rparr>) p t = (store', Ok (DispChallenge pl i t' s))"
    using assms unfolding continue_session_def by (auto split: option.splits prod.splits result.splits)
  show ?thesis using commit_outcome_challenge [OF c(2)] c(1) by auto
qed

lemma session_insert_idle [simp]: "idle_timeout (session_insert now i s st) = idle_timeout st"
  by (simp add: session_insert_def)

context stable_method
begin

lemma dispatch_round_challenge:
  assumes "eap_dispatch_round ops create env store existing buf un outer = Some (store', Ok (DispChallenge pl i t s))"
  shows "\<exists>pkt session. eap_parse buf = Ok pkt \<and> i \<noteq> eap_identifier pkt \<and> s = env_session_id env
    \<and> stored_at store' s = Some (session, env_insert env + idle_timeout store)
    \<and> t = m_typ ops (session_method session)"
  using assms
proof (cases rule: dispatch_round_cases)
  case (start pkt m)
  then show ?thesis using start_session_challenge [OF start(5)]
    by (auto simp: stored_at_insert session_new_def typ_notify_request_id)
next
  case (continue pkt sid st1 session)
  then show ?thesis
    using continue_session_challenge [OF continue(6)] session_take_fields(2) [of "env_take env" sid store] typ_step
    by (fastforce simp: stored_at_insert typ_notify_request_id)
qed auto

end

text \<open>Where the method state of a stored session comes from, and what else a round may store.\<close>

lemma dispatch_round_source:
  assumes "eap_dispatch_round ops create env store existing buf un outer = Some (store', Ok (DispChallenge pl i t s))"
  shows "\<exists>session m'. stored_at store' s = Some (session, env_insert env + idle_timeout store)
    \<and> session_method session = m_notify_request_id ops i m'
    \<and> ((\<exists>m0 identity. create = Ok m0 \<and> t = m_typ ops m' \<and> m_start ops (env_rnd env) outer
          (case identity of Some i \<Rightarrow> m_notify_peer_identity ops i m0 | None \<Rightarrow> m0) = Some (m', Ok (MContinue pl)))
       \<or> (\<exists>m0 data. m_step ops (env_rnd env) data outer m0 = Some (m', Ok (MContinue pl))))"
  using assms
proof (cases rule: dispatch_round_cases)
  case (start pkt m)
  from start_session_challenge [OF start(5)] obtain m' session' where
    "m_start ops (env_rnd env) outer (case resolve_peer_identity (eap_type_data pkt) un of
        Some i \<Rightarrow> m_notify_peer_identity ops i m | None \<Rightarrow> m) = Some (m', Ok (MContinue pl))"
    "t = m_typ ops m'" "store' = session_insert (env_insert env) s session' store"
    "session_method session' = m_notify_request_id ops i m'" by (auto simp: session_new_def)
  then show ?thesis using start(4) by (intro exI [of _ session'] exI [of _ m']) (auto simp: stored_at_insert)
next
  case (continue pkt sid st1 session)
  from continue_session_challenge [OF continue(6)] obtain m' session' where
    "m_step ops (env_rnd env) (eap_type_data pkt) outer (session_method session) = Some (m', Ok (MContinue pl))"
    "store' = session_insert (env_insert env) s session' st1" "session_method session' = m_notify_request_id ops i m'" by auto
  then show ?thesis
    using session_take_fields(2) [of "env_take env" sid store] continue(4)
    by (intro exI [of _ session'] exI [of _ m']) (auto simp: stored_at_insert)
qed auto

lemma commit_outcome_sub:
  assumes "commit_outcome ops env store outcome session p t = (store', res)" and "stored_at store' j = Some x"
  shows "stored_at store j = Some x \<or> (\<exists>pl i t. res = Ok (DispChallenge pl i t j))"
proof (cases outcome)
  case (MContinue pl)
  then have "store' = session_insert (env_insert env) (env_session_id env)
        (session\<lparr>next_eap_id := issued_id session p + 1,
                 session_method := m_notify_request_id ops (issued_id session p) (session_method session)\<rparr>) store"
    "res = Ok (DispChallenge pl (issued_id session p) t (env_session_id env))"
    using assms(1) by (auto simp: commit_outcome_continue)
  then show ?thesis using memory_store.get_ins assms(2) by blast
qed (use assms in \<open>auto simp: commit_outcome_def\<close>)

lemma start_session_sub:
  assumes "start_session ops env store m identity outer mk p = Some (store', res)" and "stored_at store' j = Some x"
  shows "stored_at store j = Some x \<or> (\<exists>pl i t. res = Ok (DispChallenge pl i t j))"
  using assms(1) commit_outcome_sub [OF _ assms(2)] assms(2) unfolding start_session_def Let_def
  by (auto split: option.splits prod.splits result.splits)

lemma continue_session_sub:
  assumes "continue_session ops env store session t data outer p = Some (store', res)" and "stored_at store' j = Some x"
  shows "stored_at store j = Some x \<or> (\<exists>pl i t. res = Ok (DispChallenge pl i t j))"
  using assms(1) commit_outcome_sub [OF _ assms(2)] assms(2) unfolding continue_session_def
  by (auto split: option.splits prod.splits result.splits)

lemma dispatch_round_sub:
  assumes "eap_dispatch_round ops create env store existing buf un outer = Some (store', res)"
    and "stored_at store' j = Some x"
  shows "stored_at store j = Some x \<or> (\<exists>pl i t. res = Ok (DispChallenge pl i t j))"
proof -
  have take_sub: "stored_at store j = Some x"
    if "session_take (env_take env) sid store = (st1, r)" "stored_at st1 j = Some x" for sid st1 r
    using memory_store.get_tak [of "env_take env" sid store j] that by (auto split: if_splits)
  from assms(1) show ?thesis
  proof (cases rule: dispatch_round_cases)
    case quiet
    then show ?thesis using take_sub assms(2) by auto
  next
    case (start pkt m)
    show ?thesis by (rule start_session_sub [OF start(5) assms(2)])
  next
    case (continue pkt sid st1 session)
    then show ?thesis using continue_session_sub [OF continue(6) assms(2)] take_sub by blast
  qed
qed

lemma eap_handle_accept:
  assumes "eap_handle C ops create dec env draws store req = Some (store', HReply r)"
    and "pb_header (reply_buf r) = Some h" and "hdr_code h = ACCESS_ACCEPT" and "length (env_session_id env) = 16"
    and "stable_method ops"
  shows "\<exists>i k peer t. eap_dispatch_round ops create env store (eap_request_state req) (reassemble (req_attributes req))
      (user_name (req_attributes req)) (req_attributes req) = Some (store', Ok (DispAccept i k peer t))"
proof -
  let ?buf = "reassemble (req_attributes req)" and ?un = "user_name (req_attributes req)" and ?ra = "req_attributes req"
  obtain res where d: "eap_dispatch_round ops create env store (eap_request_state req) ?buf ?un ?ra = Some (store', res)"
    "render_dispatch C (case res of Ok d \<Rightarrow> d | Err _ \<Rightarrow> DispDrop) (req_identifier req) (req_authenticator req)
       (client_secret (req_client req)) ?un ?ra dec draws = Some (HReply r)"
    using assms(1) by (auto simp: eap_handle_def eap_handle_with_def bind_eq_Some_conv)
  show ?thesis
  proof (cases res)
    case (Ok disp)
    have c: "length st = 16" if "disp = DispChallenge pl i t st" for pl i t st
      using stable_method.dispatch_round_challenge [OF assms(5) d(1) [unfolded Ok that]] assms(4) by auto
    have "\<exists>i k peer t. disp = DispAccept i k peer t"
      by (rule render_accept_only [OF _ assms(2,3)]) (use d(2) Ok c in simp_all)
    then show ?thesis using d(1) Ok by blast
  next
    case (Err e)
    then show ?thesis using d(2) by (simp add: render_dispatch_def)
  qed
qed

text \<open>
  An EAP conversation is accepted only by its method. The handler answers with Access-Accept only
  to an EAP-Response, and only if the method itself reported success in this round: either at once
  on the identity response, or for the session stored under the request's State, not yet expired,
  when the response has that session's type and the method's step on its type data succeeded; that
  session is then gone from the store.
\<close>

theorem eap_accept_needs_method_success:
  assumes "eap_handle C ops create dec env draws store req = Some (store', HReply r)"
    and "pb_header (reply_buf r) = Some h" and "hdr_code h = ACCESS_ACCEPT" and "length (env_session_id env) = 16"
    and "stable_method ops"
  shows "\<exists>pkt k e. eap_parse (reassemble (req_attributes req)) = Ok pkt \<and> eap_code pkt = EAP_RESPONSE
    \<and> (eap_typ pkt = Some IDENTITY \<and> (\<exists>m m'. create = Ok m \<and> m_start ops (env_rnd env) (req_attributes req)
          (case resolve_peer_identity (eap_type_data pkt) (user_name (req_attributes req)) of
             Some i \<Rightarrow> m_notify_peer_identity ops i m | None \<Rightarrow> m) = Some (m', Ok (MSuccess k e)))
       \<or> (\<exists>sid session d m. eap_request_state req = Some sid \<and> stored_at store sid = Some (session, d) \<and> env_take env < d
          \<and> eap_typ pkt = Some (m_typ ops (session_method session))
          \<and> m_step ops (env_rnd env) (eap_type_data pkt) (req_attributes req) (session_method session) = Some (m, Ok (MSuccess k e))
          \<and> stored_at store' sid = None))"
proof -
  obtain i k peer t where d: "eap_dispatch_round ops create env store (eap_request_state req) (reassemble (req_attributes req))
      (user_name (req_attributes req)) (req_attributes req) = Some (store', Ok (DispAccept i k peer t))"
    using eap_handle_accept [OF assms] by blast
  then show ?thesis
  proof (cases rule: dispatch_round_accept)
    case (identity pkt m m' e)
    then show ?thesis by blast
  next
    case (session pkt sid session m e)
    have "\<exists>d. stored_at store sid = Some (session, d) \<and> env_take env < d" "stored_at store' sid = None"
      using memory_store.tak_Some [of "env_take env" sid store session] memory_store.get_tak [of "env_take env" sid store sid]
        session(4) by simp_all
    then show ?thesis using session by blast
  qed
qed

section \<open>Method negotiation\<close>

lemma eap_router_build_ok:
  assumes "eap_router_build b = Ok router"
  shows "er_supports router (er_preferred router)" and "er_methods router \<noteq> fmempty"
  using assms by (auto simp: eap_router_build_def er_supports_def split: if_splits option.splits)

text \<open>The types a session has been offered: registered, without repetition.\<close>

definition offers_ok :: "'m eap_router \<Rightarrow> 'm session \<Rightarrow> bool" where
  "offers_ok router s \<longleftrightarrow> distinct (tried_types s) \<and> (\<forall>t\<in>set (tried_types s). er_supports router t)"

lemma offers_bounded:
  assumes "offers_ok router s"
  shows "length (tried_types s) \<le> fmlen (er_methods router)"
proof -
  have "inj eap_type_byte" by (rule injI) (simp add: eap_type.expand)
  then have "card (eap_type_byte ` set (tried_types s)) = card (set (tried_types s))"
    by (meson card_image inj_on_subset subset_UNIV)
  also have "\<dots> = length (tried_types s)" using assms by (simp add: offers_ok_def distinct_card)
  finally have c: "card (eap_type_byte ` set (tried_types s)) = length (tried_types s)" .
  have "eap_type_byte ` set (tried_types s) \<subseteq> fset (fmdom (er_methods router))"
    using assms by (auto simp: offers_ok_def er_supports_def fmlookup_dom_iff)
  from card_mono [OF finite_fset this] c show ?thesis by (simp add: fcard.rep_eq)
qed

lemma nak_desired_fresh:
  assumes "nak_desired router session data = t # ts" and "offers_ok router session"
  shows "offers_ok router (session\<lparr>session_method := m, tried_types := tried_types session @ [t]\<rparr>)"
    and "t \<notin> set (tried_types session)" and "er_supports router t" and "eap_type_byte t \<in> set data"
proof -
  have "t \<in> set (nak_desired router session data)" using assms(1) by simp
  then show t: "t \<notin> set (tried_types session)" "er_supports router t" "eap_type_byte t \<in> set data"
    by (auto simp: nak_desired_def)
  then show "offers_ok router (session\<lparr>session_method := m, tried_types := tried_types session @ [t]\<rparr>)"
    using assms(2) by (auto simp: offers_ok_def)
qed

abbreviation all_offers_ok :: "'m eap_router \<Rightarrow> 'm session_store \<Rightarrow> bool" where
  "all_offers_ok router st \<equiv> all_sessions stored_at (offers_ok router) st"

lemma commit_outcome_offers:
  assumes "all_offers_ok router store" and "offers_ok router session"
  shows "all_offers_ok router (fst (commit_outcome ops env store outcome session p t))"
proof (cases outcome)
  case (MContinue pl)
  show ?thesis unfolding MContinue commit_outcome_continue fst_conv
    by (rule memory_store.all_sessions_ins [OF assms(1)]) (use assms(2) in \<open>simp add: offers_ok_def\<close>)
qed (use assms(1) in \<open>simp_all add: commit_outcome_def\<close>)

lemma start_session_offers:
  assumes "start_session ops env store m identity outer mk p = Some (store', res)"
    and "all_offers_ok router store" and "\<And>m. offers_ok router (fst (mk m))"
  shows "all_offers_ok router store'"
  using assms(1,2) commit_outcome_offers [OF assms(2,3)] unfolding start_session_def Let_def
  by (auto split: option.splits prod.splits result.splits) (metis fst_conv)+

lemma continue_session_offers:
  assumes "continue_session ops env store session t data outer p = Some (store', res)"
    and "all_offers_ok router store" and "offers_ok router session"
  shows "all_offers_ok router store'"
proof -
  have "offers_ok router (session\<lparr>session_method := m\<rparr>)" for m using assms(3) by (simp add: offers_ok_def)
  from commit_outcome_offers [OF assms(2) this] assms(1,2) show ?thesis unfolding continue_session_def
    by (auto split: option.splits prod.splits result.splits) (metis fst_conv)+
qed

lemma multi_round_offers:
  assumes "multi_dispatch_round ops router env store existing buf un outer = Some (store', res)"
    and "all_offers_ok router store" and "er_supports router (er_preferred router)"
  shows "all_offers_ok router store'"
proof (cases "eap_parse buf")
  case (Err e)
  then show ?thesis using assms(1,2) by (simp add: multi_dispatch_round_def)
next
  case pkt: (Ok pkt)
  show ?thesis
  proof (cases "eap_code pkt \<noteq> EAP_RESPONSE \<or> eap_typ pkt \<noteq> Some IDENTITY \<and> existing = None")
    case True
    then show ?thesis using assms(1,2) pkt by (auto simp: multi_dispatch_round_def split: if_splits)
  next
    case no_drop: False
    show ?thesis
    proof (cases "eap_typ pkt = Some IDENTITY")
      case True
      obtain f where f: "er_lookup router (er_preferred router) = Some f"
        using assms(3) by (auto simp: er_lookup_def er_supports_def)
      have o: "offers_ok router (fst ((session_new m)\<lparr>peer_identity := i, tried_types := [er_preferred router]\<rparr>, t))" for m i t
        using assms(3) by (simp add: offers_ok_def)
      show ?thesis
        using assms(1,2) pkt no_drop True f start_session_offers [OF _ assms(2) o]
        by (cases "fac_create f") (auto simp: multi_dispatch_round_def Let_def)
    next
      case False
      then obtain sid where sid: "existing = Some sid" using no_drop by auto
      obtain st1 taken where tk: "session_take (env_take env) sid store = (st1, taken)" by (cases "session_take (env_take env) sid store")
      have st1: "all_offers_ok router st1"
        using memory_store.all_sessions_tak [OF assms(2), of "env_take env" sid] tk by simp
      show ?thesis
      proof (cases taken)
        case None
        then show ?thesis using assms(1) pkt no_drop False sid tk st1 by (simp add: multi_dispatch_round_def)
      next
        case (Some session)
        have s: "offers_ok router session" using memory_store.all_sessions_taken [OF assms(2)] tk Some by blast
        show ?thesis
        proof (cases "eap_typ pkt = Some NAK")
          case nak: True
          show ?thesis
          proof (cases "nak_desired router session (eap_type_data pkt)")
            case Nil
            then show ?thesis using assms(1) pkt no_drop nak sid tk Some st1 by (simp add: multi_dispatch_round_def)
          next
            case (Cons t ts)
            note D = nak_desired_fresh [OF Cons s]
            obtain f where f: "er_lookup router t = Some f" using D(3) by (auto simp: er_lookup_def er_supports_def)
            have o: "offers_ok router (fst (session\<lparr>session_method := m, tried_types := tried_types session @ [t]\<rparr>, t))" for m
              using D(1) by simp
            show ?thesis
              using assms(1) pkt no_drop nak sid tk Some st1 Cons f start_session_offers [OF _ st1 o]
              by (cases "fac_create f") (auto simp: multi_dispatch_round_def)
          qed
        next
          case False
          with assms(1) pkt no_drop \<open>eap_typ pkt \<noteq> Some IDENTITY\<close> sid tk Some st1 show ?thesis
            using continue_session_offers [OF _ st1 s]
            by (auto simp: multi_dispatch_round_def Let_def split: if_splits)
        qed
      qed
    qed
  qed
qed

text \<open>What a round of either handler is given.\<close>

type_synonym eap_round = "eap_env \<times> session_id option \<times> bytes \<times> bytes option \<times> bytes"

section \<open>Witnesses\<close>

text \<open>
  A one-round method for the witnesses: its state is its type, it starts with an empty request, or
  with success when the type is 7, and accepts every answer.
\<close>

definition echo_ops :: "u8 method_ops" where
  "echo_ops =
     \<lparr>m_typ = EapType,
      m_start = (\<lambda>rnd outer m. Some (m, Ok (if m = 7 then MSuccess [] [] else MContinue []))),
      m_notify_peer_identity = default_notify_peer_identity,
      m_authenticated_identity = default_authenticated_identity,
      m_notify_request_id = default_notify_request_id,
      m_step = (\<lambda>rnd data outer m. Some (m, Ok (MSuccess [] [])))\<rparr>"

interpretation echo: stable_method echo_ops
  by unfold_locales (auto simp: echo_ops_def default_notify_peer_identity_def default_notify_request_id_def)

definition demo_env :: eap_env where
  "demo_env = \<lparr>env_take = 5, env_insert = 6, env_session_id = replicate 16 3, env_rnd = replicate 16 8\<rparr>"

definition demo_store :: "'m session_store" where
  "demo_store = \<lparr>table = session_table_new, idle_timeout = 10, session_capacity = 4\<rparr>"

lemma demo_store_new: "store_with_limits 10 4 = Some demo_store"
  by (simp add: store_with_limits_def demo_store_def)

definition demo_eap_request :: "bytes \<Rightarrow> server_request" where
  "demo_eap_request eap = request_new ACCESS_REQUEST 7 (replicate 16 9) (encode_attrs [(79, eap)]) (client_new 1 [5])
     (SocketV4 1 2) (SocketV4 3 4)"

lemma demo_eap_request_sel:
  assumes "length eap \<le> 253"
  shows "reassemble (req_attributes (demo_eap_request eap)) = eap" and "eap_request_state (demo_eap_request eap) = None"
    and "user_name (req_attributes (demo_eap_request eap)) = None" and "req_identifier (demo_eap_request eap) = 7"
proof -
  have g: "good_attrs [(79, eap)]" using assms by simp
  show "reassemble (req_attributes (demo_eap_request eap)) = eap"
    using fragments_encode_attrs [OF g] by (simp add: demo_eap_request_def request_new_def reassemble_eq)
  show "eap_request_state (demo_eap_request eap) = None" "user_name (req_attributes (demo_eap_request eap)) = None"
    "req_identifier (demo_eap_request eap) = 7"
    using first_raw_encode_attrs [OF g, of 24] first_raw_encode_attrs [OF g, of 1]
    by (simp_all add: demo_eap_request_def request_new_def eap_request_state_def state_attr_def user_name_def)
qed

definition identity_bytes :: bytes where
  "identity_bytes = [2, 9, 0, 5, 1]"

lemma identity_bytes_parse:
  "eap_parse identity_bytes = Ok \<lparr>eap_code = EAP_RESPONSE, eap_identifier = 9, eap_payload = [1]\<rparr>"
  by (simp add: identity_bytes_def eap_parse_def u16_from_be_eq)

theorem eap_accept_needs_method_success_witness:
  "\<exists>store' r h pkt k e. eap_handle toy_crypto echo_ops (Ok 7) None demo_env [] demo_store (demo_eap_request identity_bytes)
      = Some (store', HReply r)
    \<and> pb_header (reply_buf r) = Some h \<and> hdr_code h = ACCESS_ACCEPT
    \<and> eap_parse (reassemble (req_attributes (demo_eap_request identity_bytes))) = Ok pkt \<and> eap_code pkt = EAP_RESPONSE
    \<and> eap_typ pkt = Some IDENTITY \<and> m_start echo_ops (env_rnd demo_env) (req_attributes (demo_eap_request identity_bytes)) 7
        = Some (7, Ok (MSuccess k e))"
proof -
  let ?q = "demo_eap_request identity_bytes"
  have l: "length identity_bytes \<le> 253" by (simp add: identity_bytes_def)
  note Q = demo_eap_request_sel [OF l]
  have d: "eap_dispatch_round echo_ops (Ok 7) demo_env demo_store None identity_bytes None outer
      = Some (demo_store, Ok (DispAccept 9 [] None (EapType 7)))" for outer
    by (simp add: eap_dispatch_round_def identity_bytes_parse eap_typ_def eap_type_data_def resolve_peer_identity_def
        start_session_def echo_ops_def commit_outcome_def default_authenticated_identity_def session_new_def)
  obtain r0 r1 where r: "reply_new ACCESS_ACCEPT 7 = Some r0" "reply_add_eap_message r0 [3, 9, 0, 4] = (r1, Ok ())"
    "reply_shape r1 (inner (with_capacity ACCESS_ACCEPT 7 512)) [(80, replicate 16 0), (79, [3, 9, 0, 4])]"
    using reply_add_eap_terminal by blast
  have "add_eap_success r0 9 = (r1, Ok ())"
    using r(2) unfolding add_eap_success_def EAP_SUCCESS_def eap_terminal_bytes .
  then have "render_dispatch toy_crypto (DispAccept 9 [] None (EapType 7)) 7 a s un raw None [] = Some (HReply r1)" for a s un raw
    using r(1) by (simp add: render_dispatch_def)
  then have h: "eap_handle toy_crypto echo_ops (Ok 7) None demo_env [] demo_store ?q = Some (demo_store, HReply r1)"
    using d Q by (simp add: eap_handle_def eap_handle_with_def)
  obtain hd where c: "pb_header (reply_buf r1) = Some hd" "hdr_code hd = ACCESS_ACCEPT"
    using reply_shape_code [OF r(3)] by (auto simp: with_capacity_code)
  have len: "length (env_session_id demo_env) = 16" by (simp add: demo_env_def)
  from eap_accept_needs_method_success [OF h c len echo.stable_method_axioms] show ?thesis
    using h c Q by (auto simp: identity_bytes_parse eap_typ_def eap_type_data_def echo_ops_def)
qed

definition demo_builder :: "u8 eap_router_builder" where
  "demo_builder = eb_set_preferred (eb_register_typed (eb_register_typed eap_router_builder_default
     (EapType 4) (Ok 4)) (EapType 6) (Ok 6)) (EapType 4)"

end
