(* ===== verification/Eap_Conversation.thy ===== *)
theory Eap_Conversation
  imports Eap_Handler "HOL-Library.Sublist"
begin

text \<open>
  The EAP handler seen from the method. A \<open>conversation\<close> is a run of one method as its contract
  describes it: \<open>start\<close> once, then \<open>step\<close> on each message of the peer, each request announced by
  \<open>notify_request_id\<close>. The handler serves many conversations at once, in any order, with requests that
  carry any State; the theorem shows that each session it keeps is a conversation made of rounds it
  served, linked by their State attributes, and that acceptance ends one.
\<close>

section \<open>Conversations\<close>

datatype eap_event =
    EapStarted (ev_identity: "bytes option") (ev_rnd: bytes) (ev_outer: bytes) (ev_reply: bytes) (ev_request_id: u8)
      (ev_state: session_id)
  | EapStepped (ev_previous: session_id) (ev_data: bytes) (ev_rnd: bytes) (ev_outer: bytes) (ev_reply: bytes)
      (ev_request_id: u8) (ev_state: session_id)

definition notified :: "'m method_ops \<Rightarrow> bytes option \<Rightarrow> 'm \<Rightarrow> 'm" where
  "notified ops identity m = (case identity of Some i \<Rightarrow> m_notify_peer_identity ops i m | None \<Rightarrow> m)"

inductive conversation :: "'m method_ops \<Rightarrow> (eap_error, 'm) result \<Rightarrow> eap_event list \<Rightarrow> 'm \<Rightarrow> bool"
  for ops create where
  conv_start: "create = Ok m \<Longrightarrow> m_start ops rnd outer (notified ops identity m) = Some (m', Ok (MContinue pl)) \<Longrightarrow>
    conversation ops create [EapStarted identity rnd outer pl i sid] (m_notify_request_id ops i m')"
| conv_step: "conversation ops create es m \<Longrightarrow> m_step ops rnd data outer m = Some (m', Ok (MContinue pl)) \<Longrightarrow>
    conversation ops create (es @ [EapStepped (ev_state (last es)) data rnd outer pl i sid]) (m_notify_request_id ops i m')"

inductive_cases conversationE: "conversation ops create es m"

lemma conversation_nonempty: "conversation ops create es m \<Longrightarrow> es \<noteq> []"
  by (induction rule: conversation.induct) auto

section \<open>Histories\<close>

text \<open>
  What a round adds to the log of the handler: the event of a challenge it sent. The history of a
  sequence of rounds is the final store and this log; a round that fails is answered with silence.
\<close>

fun round_events :: "eap_round \<Rightarrow> (eap_error, eap_dispatch) result \<Rightarrow> eap_event list" where
  "round_events (env, existing, buf, un, outer) (Ok (DispChallenge pl i t sid)) =
     (case eap_parse buf of
        Err _ \<Rightarrow> []
      | Ok pkt \<Rightarrow>
          if eap_typ pkt = Some IDENTITY
          then [EapStarted (resolve_peer_identity (eap_type_data pkt) un) (env_rnd env) outer pl i sid]
          else (case existing of
                  None \<Rightarrow> []
                | Some prev \<Rightarrow> [EapStepped prev (eap_type_data pkt) (env_rnd env) outer pl i sid]))"
| "round_events _ _ = []"

fun eap_history ::
    "'m method_ops \<Rightarrow> (eap_error, 'm) result \<Rightarrow> 'm session_store \<Rightarrow> eap_round list
      \<Rightarrow> ('m session_store \<times> eap_event list) option" where
  "eap_history ops create store [] = Some (store, [])"
| "eap_history ops create store ((env, existing, buf, un, outer) # rs) =
     Option.bind (eap_dispatch_round ops create env store existing buf un outer) (\<lambda>(store, res).
     map_option (apsnd (append (round_events (env, existing, buf, un, outer) res))) (eap_history ops create store rs))"

text \<open>Every stored session is a conversation of logged events that ended with its State.\<close>

definition conversing :: "'m method_ops \<Rightarrow> (eap_error, 'm) result \<Rightarrow> eap_event list \<Rightarrow> 'm session_store \<Rightarrow> bool" where
  "conversing ops create log store \<longleftrightarrow>
     (\<forall>sid s d. stored_at store sid = Some (s, d) \<longrightarrow>
        (\<exists>es. conversation ops create es (session_method s) \<and> subseq es log \<and> ev_state (last es) = sid))"

lemma conversing_mono: "conversing ops create log store \<Longrightarrow> conversing ops create (log @ xs) store"
  unfolding conversing_def by (meson list_emb_append2 subseq_rev_drop_many)

lemma conversing_taken:
  assumes "conversing ops create log store" and "session_take now sid store = (st', Some s)"
  shows "\<exists>es. conversation ops create es (session_method s) \<and> subseq es log \<and> ev_state (last es) = sid"
proof -
  obtain d where "stored_at store sid = Some (s, d)"
    using memory_store.tak_Some [of now sid store s] assms(2) by auto
  then show ?thesis using assms(1) unfolding conversing_def by blast
qed

lemma conversing_insert:
  assumes "conversing ops create log store" and "store' = session_insert now sid s store"
    and "conversation ops create (es @ [e]) (session_method s)" and "subseq es log" and "ev_state e = sid"
  shows "conversing ops create (log @ [e]) store'"
  unfolding conversing_def
proof (intro allI impI)
  fix j x d
  assume "stored_at store' j = Some (x, d)"
  then have "j = sid \<and> x = s \<or> stored_at store j = Some (x, d)"
    using memory_store.get_ins [of now sid s store j "(x, d)"] assms(2) by auto
  then show "\<exists>es. conversation ops create es (session_method x) \<and> subseq es (log @ [e]) \<and> ev_state (last es) = j"
  proof
    assume "j = sid \<and> x = s"
    then show ?thesis using assms(3-5) by (intro exI [of _ "es @ [e]"]) (auto intro: list_emb_append_mono)
  next
    assume "stored_at store j = Some (x, d)"
    then show ?thesis using conversing_mono [OF assms(1), of "[e]"] unfolding conversing_def by blast
  qed
qed

lemma conversing_take:
  assumes "conversing ops create log store" and "session_take now sid store = (st1, r)"
  shows "conversing ops create log st1"
proof -
  have "stored_at st1 j = (if j = sid then None else stored_at store j)" for j
    using memory_store.get_tak [of now sid store j] assms(2) by simp
  then show ?thesis using assms(1) unfolding conversing_def by (metis option.distinct(1))
qed

text \<open>A store keeps its sessions unless a challenge was sent.\<close>

lemma conversing_unchallenged:
  assumes "conversing ops create log store" and "\<And>j x. stored_at store' j = Some x \<Longrightarrow> stored_at store j = Some x"
  shows "conversing ops create (log @ xs) store'"
  using conversing_mono [OF assms(1), of xs] assms(2) unfolding conversing_def by blast

lemma round_events_unchallenged: "\<nexists>pl i t sid. res = Ok (DispChallenge pl i t sid) \<Longrightarrow> round_events r res = []"
proof (cases res)
  case (Ok d)
  then show "\<nexists>pl i t sid. res = Ok (DispChallenge pl i t sid) \<Longrightarrow> ?thesis" by (cases d; cases r) auto
qed (cases r, simp)

lemma conversing_round:
  assumes C: "conversing ops create log store"
    and R: "eap_dispatch_round ops create env store existing buf un outer = Some (store', res)"
  shows "conversing ops create (log @ round_events (env, existing, buf, un, outer) res) store'"
proof (cases "\<exists>pl i t sid. res = Ok (DispChallenge pl i t sid)")
  case False
  then have "stored_at store j = Some x" if "stored_at store' j = Some x" for j x
    using dispatch_round_sub [OF R that] by blast
  then show ?thesis using conversing_unchallenged [OF C] by blast
next
  case True
  then obtain pl i t sid where res: "res = Ok (DispChallenge pl i t sid)" by blast
  from R [unfolded res] show ?thesis
  proof (cases rule: dispatch_round_cases)
    case (start pkt m)
    let ?id = "resolve_peer_identity (eap_type_data pkt) un"
    from start_session_challenge [OF start(5)] obtain m' session' where
      s: "m_start ops (env_rnd env) outer (notified ops ?id m) = Some (m', Ok (MContinue pl))"
      "store' = session_insert (env_insert env) sid session' store" "session_method session' = m_notify_request_id ops i m'"
      by (auto simp: session_new_def notified_def)
    have "conversation ops create ([] @ [EapStarted ?id (env_rnd env) outer pl i sid]) (session_method session')"
      unfolding s(3) append_Nil by (rule conv_start [OF start(4) s(1)])
    from conversing_insert [OF C s(2) this] show ?thesis using start(1,3) by (simp add: res)
  next
    case (continue pkt prev st1 session)
    from continue_session_challenge [OF continue(6)] obtain m' session' where
      s: "m_step ops (env_rnd env) (eap_type_data pkt) outer (session_method session) = Some (m', Ok (MContinue pl))"
      "store' = session_insert (env_insert env) sid session' st1" "session_method session' = m_notify_request_id ops i m'" by auto
    obtain es where es: "conversation ops create es (session_method session)" "subseq es log" "ev_state (last es) = prev"
      using conversing_taken [OF C continue(4)] by blast
    have "conversation ops create (es @ [EapStepped prev (eap_type_data pkt) (env_rnd env) outer pl i sid]) (session_method session')"
      unfolding s(3) using conv_step [OF es(1) s(1)] es(3) by simp
    from conversing_insert [OF conversing_take [OF C continue(4)] s(2) this es(2)]
    show ?thesis using continue(1,3,7) by (simp add: res)
  qed auto
qed

lemma conversing_history:
  "eap_history ops create store rounds = Some (store', log') \<Longrightarrow> conversing ops create log store \<Longrightarrow>
     conversing ops create (log @ log') store'"
proof (induction rounds arbitrary: store log log')
  case (Cons r rounds)
  obtain env existing buf un outer where r: "r = (env, existing, buf, un, outer)" by (cases r)
  from Cons.prems(1) obtain st1 res log'' where
    R: "eap_dispatch_round ops create env store existing buf un outer = Some (st1, res)"
    "eap_history ops create st1 rounds = Some (store', log'')" "log' = round_events r res @ log''"
    by (auto simp: r bind_eq_Some_conv)
  from Cons.IH [OF R(2) conversing_round [OF Cons.prems(2) R(1)]] show ?case unfolding R(3) r by simp
qed simp

lemma conversing_new: "store_with_limits timeout capacity = Some st0 \<Longrightarrow> conversing ops create [] st0"
  by (auto simp: conversing_def stored_at_def store_with_limits_def session_table_new_def split: if_splits)

lemma accepted_cases:
  assumes "store_with_limits timeout capacity = Some st0"
    and "eap_history ops create st0 rounds = Some (store, log)"
    and "eap_dispatch_round ops create env store existing buf un outer = Some (store', Ok (DispAccept i k peer t))"
  obtains (identity) pkt m0 m e where "eap_parse buf = Ok pkt" "eap_code pkt = EAP_RESPONSE" "eap_typ pkt = Some IDENTITY"
      "create = Ok m0" "m_start ops (env_rnd env) outer (notified ops (resolve_peer_identity (eap_type_data pkt) un) m0)
        = Some (m, Ok (MSuccess k e))"
    | (session) pkt es m0 m e where "eap_parse buf = Ok pkt" "eap_code pkt = EAP_RESPONSE"
      "conversation ops create es m0" "subseq es log" "existing = Some (ev_state (last es))"
      "eap_typ pkt = Some (m_typ ops m0)" "m_step ops (env_rnd env) (eap_type_data pkt) outer m0 = Some (m, Ok (MSuccess k e))"
      "peer = m_authenticated_identity ops m" "i = eap_identifier pkt" "stored_at store' (ev_state (last es)) = None"
  using assms(3)
proof (cases rule: dispatch_round_accept)
  case (identity pkt m m' e)
  then show ?thesis using that(1) unfolding notified_def by blast
next
  case (session pkt sid s m e)
  have "conversing ops create log store"
    using conversing_history [OF assms(2) conversing_new [OF assms(1)]] by simp
  from conversing_taken [OF this session(4)] obtain es where
    es: "conversation ops create es (session_method s)" "subseq es log" "ev_state (last es) = sid" by blast
  have "stored_at store' sid = None"
    using memory_store.get_tak [of "env_take env" sid store sid] session(4) by simp
  then show ?thesis using that(2) session es by blast
qed

text \<open>
  C7: the EAP handler refines the method's own protocol. Start from an empty session store and let any
  sequence of rounds pass, from any number of peers, in any order and with any State. If a round is
  then accepted, the method succeeded either in \<open>start\<close> or in \<open>step\<close> at the end of a complete
  conversation: a first event that started the method, then events each of which stepped it, all of
  them challenges the handler logged, in this order, each answered under the State of the one
  before and the last under the State of the accepted request. The accepted response carries the
  session's type, the keys are the method's, and the State is spent.
\<close>

theorem handler_refines_conversation:
  assumes "store_with_limits timeout capacity = Some st0"
    and "eap_history ops create st0 rounds = Some (store, log)"
    and "eap_dispatch_round ops create env store existing buf un outer = Some (store', Ok (DispAccept i k peer t))"
  shows "\<exists>pkt m e. eap_parse buf = Ok pkt \<and> eap_code pkt = EAP_RESPONSE
    \<and> (eap_typ pkt = Some IDENTITY \<and> (\<exists>m0. create = Ok m0 \<and>
          m_start ops (env_rnd env) outer (notified ops (resolve_peer_identity (eap_type_data pkt) un) m0) = Some (m, Ok (MSuccess k e)))
       \<or> (\<exists>es m0. conversation ops create es m0 \<and> subseq es log \<and> existing = Some (ev_state (last es))
          \<and> eap_typ pkt = Some (m_typ ops m0)
          \<and> m_step ops (env_rnd env) (eap_type_data pkt) outer m0 = Some (m, Ok (MSuccess k e))
          \<and> peer = m_authenticated_identity ops m \<and> i = eap_identifier pkt
          \<and> stored_at store' (ev_state (last es)) = None))"
  using assms by (rule accepted_cases) blast+

section \<open>Rounds that make progress\<close>

lemma start_round:
  assumes "eap_parse buf = Ok pkt" and "eap_code pkt = EAP_RESPONSE" and "eap_typ pkt = Some IDENTITY" and "create = Ok m"
    and "m_start ops (env_rnd env) outer (notified ops (resolve_peer_identity (eap_type_data pkt) un) m) = Some (m', Ok (MContinue pl))"
  obtains store' s i where "eap_dispatch_round ops create env store existing buf un outer
      = Some (store', Ok (DispChallenge pl i (m_typ ops m') (env_session_id env)))"
    "stored_at store' (env_session_id env) = Some (s, env_insert env + idle_timeout store)"
    "session_method s = m_notify_request_id ops i m'" "idle_timeout store' = idle_timeout store"
proof -
  let ?s0 = "(session_new m')\<lparr>peer_identity := resolve_peer_identity (eap_type_data pkt) un\<rparr>"
  let ?i = "issued_id ?s0 (eap_identifier pkt)"
  let ?s = "?s0\<lparr>next_eap_id := ?i + 1, session_method := m_notify_request_id ops ?i m'\<rparr>"
  have "eap_dispatch_round ops create env store existing buf un outer
      = Some (session_insert (env_insert env) (env_session_id env) ?s store, Ok (DispChallenge pl ?i (m_typ ops m') (env_session_id env)))"
    using assms by (simp add: eap_dispatch_round_def start_session_def notified_def commit_outcome_continue session_new_def Let_def)
  then show ?thesis by (rule that [where s = ?s]) (simp_all add: stored_at_insert)
qed

lemma step_round:
  assumes "stored_at store sid = Some (s, d)" and "env_take env < d"
    and "eap_parse buf = Ok pkt" and "eap_code pkt = EAP_RESPONSE" and "eap_typ pkt = Some (m_typ ops (session_method s))"
    and "m_typ ops (session_method s) \<noteq> IDENTITY"
    and "m_step ops (env_rnd env) (eap_type_data pkt) outer (session_method s) = Some (m', Ok (MContinue pl))"
  obtains store' s' i where "eap_dispatch_round ops create env store (Some sid) buf un outer
      = Some (store', Ok (DispChallenge pl i (m_typ ops (session_method s)) (env_session_id env)))"
    "stored_at store' (env_session_id env) = Some (s', env_insert env + idle_timeout store)"
    "session_method s' = m_notify_request_id ops i m'" "idle_timeout store' = idle_timeout store"
proof -
  obtain st1 where t: "session_take (env_take env) sid store = (st1, Some s)" using stored_session_taken [OF assms(1,2)] .
  let ?i = "issued_id (s\<lparr>session_method := m'\<rparr>) (eap_identifier pkt)"
  let ?s = "s\<lparr>next_eap_id := ?i + 1, session_method := m_notify_request_id ops ?i m'\<rparr>"
  have r: "eap_dispatch_round ops create env store (Some sid) buf un outer
      = Some (session_insert (env_insert env) (env_session_id env) ?s st1,
          Ok (DispChallenge pl ?i (m_typ ops (session_method s)) (env_session_id env)))"
    using assms t by (simp add: eap_dispatch_round_def continue_session_def commit_outcome_continue Let_def)
  have "idle_timeout st1 = idle_timeout store" using session_take_fields(2) [of "env_take env" sid store] t by simp
  then show ?thesis by (intro that [where s' = ?s, OF r]) (simp_all add: stored_at_insert)
qed

lemma success_round:
  assumes "stored_at store sid = Some (s, d)" and "env_take env < d"
    and "eap_parse buf = Ok pkt" and "eap_code pkt = EAP_RESPONSE" and "eap_typ pkt = Some (m_typ ops (session_method s))"
    and "m_typ ops (session_method s) \<noteq> IDENTITY"
    and "m_step ops (env_rnd env) (eap_type_data pkt) outer (session_method s) = Some (m', Ok (MSuccess k e))"
  obtains store' where "eap_dispatch_round ops create env store (Some sid) buf un outer
      = Some (store', Ok (DispAccept (eap_identifier pkt) k (m_authenticated_identity ops m') (m_typ ops (session_method s))))"
proof -
  obtain st1 where t: "session_take (env_take env) sid store = (st1, Some s)" using stored_session_taken [OF assms(1,2)] .
  show ?thesis
    by (rule that [of st1]) (use assms t in \<open>simp add: eap_dispatch_round_def continue_session_def commit_outcome_def Let_def\<close>)
qed

theorem handler_refines_conversation_witness:
  "\<exists>store store' m0. eap_history echo_ops (Ok 4) demo_store [(demo_env, None, identity_bytes, None, [])]
      = Some (store, [EapStarted None (replicate 16 8) [] [] 1 (replicate 16 3)])
    \<and> eap_dispatch_round echo_ops (Ok 4) demo_env store (Some (replicate 16 3)) [2, 1, 0, 5, 4] None []
      = Some (store', Ok (DispAccept 1 [] None (EapType 4)))
    \<and> conversation echo_ops (Ok 4) [EapStarted None (replicate 16 8) [] [] 1 (replicate 16 3)] m0
    \<and> stored_at store' (replicate 16 3) = None"
proof -
  define s where "s = (session_new 4)\<lparr>next_eap_id := 2, session_method := (4 :: u8)\<rparr>"
  define st where "st = session_insert 6 (replicate 16 3) s demo_store"
  have rnd: "env_rnd demo_env = replicate 16 8" "env_take demo_env = 5" by (simp_all add: demo_env_def)
  have "eap_dispatch_round echo_ops (Ok 4) demo_env demo_store None identity_bytes None []
      = Some (st, Ok (DispChallenge [] 1 (EapType 4) (replicate 16 3)))"
    by (simp add: eap_dispatch_round_def identity_bytes_parse eap_typ_def eap_type_data_def resolve_peer_identity_def
        start_session_def echo_ops_def commit_outcome_continue issued_id_def session_new_def demo_env_def
        default_notify_request_id_def st_def s_def Let_def)
  then have h: "eap_history echo_ops (Ok 4) demo_store [(demo_env, None, identity_bytes, None, [])]
      = Some (st, [EapStarted None (replicate 16 8) [] [] 1 (replicate 16 3)])"
    using rnd by (simp add: identity_bytes_parse eap_typ_def eap_type_data_def resolve_peer_identity_def)
  have "stored_at st (replicate 16 3) = Some (s, 16)" by (simp add: st_def stored_at_insert demo_store_def)
  then obtain st1 where t: "session_take 5 (replicate 16 3) st = (st1, Some s)"
    by (auto simp: stored_at_def session_take_def st_remove_def)
  have p: "eap_parse [2, 1, 0, 5, 4] = Ok \<lparr>eap_code = EAP_RESPONSE, eap_identifier = 1, eap_payload = [4]\<rparr>"
    by (simp add: eap_parse_def u16_from_be_eq)
  have a: "eap_dispatch_round echo_ops (Ok 4) demo_env st (Some (replicate 16 3)) [2, 1, 0, 5, 4] None []
      = Some (st1, Ok (DispAccept 1 [] None (EapType 4)))"
    using rnd t p by (simp add: eap_dispatch_round_def eap_typ_def eap_type_data_def continue_session_def echo_ops_def
        commit_outcome_def default_authenticated_identity_def s_def session_new_def)
  from handler_refines_conversation [OF demo_store_new h a] p
  obtain es m0 where es: "conversation echo_ops (Ok 4) es m0" "subseq es [EapStarted None (replicate 16 8) [] [] 1 (replicate 16 3)]"
    "stored_at st1 (ev_state (last es)) = None" by (auto simp: eap_typ_def)
  have "es = [EapStarted None (replicate 16 8) [] [] 1 (replicate 16 3)]"
    using es(2) conversation_nonempty [OF es(1)] by (cases es) (auto split: if_splits)
  then show ?thesis using h a es by auto
qed

text \<open>The response with identity \<open>a\<close> that opens the conversations of the other witnesses.\<close>

definition demo_identity :: bytes where
  "demo_identity = [2, 9, 0, 6, 1, 97]"

lemma demo_identity_parse:
  "eap_parse demo_identity = Ok \<lparr>eap_code = EAP_RESPONSE, eap_identifier = 9, eap_payload = [1, 97]\<rparr>"
  by (simp add: demo_identity_def eap_parse_def u16_from_be_eq)

end
