(* ===== verification/Eap_Negotiation.thy ===== *)
theory Eap_Negotiation
  imports Eap_Conversation
begin

text \<open>
  Negotiation of the method in the multi-method handler (\<open>multi_dispatch_round\<close>, \<^verbatim>\<open>handler.rs\<close> of the EAP crate).
  The log of a history records which type each challenge offered and under which State; a negotiation is the
  chain of events that led to a session. The list of types a session keeps is exactly what its chain
  offered, which bounds the chain, and a Nak is answered by the first type of the peer's list that is
  left.
\<close>

section \<open>Rounds\<close>

lemma multi_round_cases:
  assumes "multi_dispatch_round ops router env store existing buf un outer = Some (store', res)"
  obtains (quiet) "store' = store \<or> (\<exists>sid r. session_take (env_take env) sid store = (store', r))"
      "\<And>pl i t sid. res \<noteq> Ok (DispChallenge pl i t sid)"
  | (start) pkt m where "eap_parse buf = Ok pkt" "eap_typ pkt = Some IDENTITY"
      "start_session ops env store m (resolve_peer_identity (eap_type_data pkt) un) outer
        (\<lambda>m. ((session_new m)\<lparr>peer_identity := resolve_peer_identity (eap_type_data pkt) un,
               tried_types := [er_preferred router]\<rparr>, er_preferred router)) (eap_identifier pkt) = Some (store', res)"
  | (nak) pkt prev st1 s t m where "eap_parse buf = Ok pkt" "eap_typ pkt = Some NAK" "existing = Some prev"
      "session_take (env_take env) prev store = (st1, Some s)"
      "start_session ops env st1 m (peer_identity s) outer
        (\<lambda>m. (s\<lparr>session_method := m, tried_types := tried_types s @ [t]\<rparr>, t)) (eap_identifier pkt) = Some (store', res)"
  | (continue) pkt prev st1 s where "eap_parse buf = Ok pkt" "eap_typ pkt \<noteq> Some IDENTITY" "eap_typ pkt \<noteq> Some NAK"
      "existing = Some prev" "session_take (env_take env) prev store = (st1, Some s)"
      "continue_session ops env st1 s (m_typ ops (session_method s)) (eap_type_data pkt) outer (eap_identifier pkt) = Some (store', res)"
proof (cases "eap_parse buf")
  case (Err e)
  then show ?thesis using assms quiet by (auto simp: multi_dispatch_round_def)
next
  case pkt: (Ok pkt)
  note round = assms [unfolded multi_dispatch_round_def pkt result.case]
  show ?thesis
  proof (cases "eap_code pkt \<noteq> EAP_RESPONSE")
    case True
    then show ?thesis using round quiet by auto
  next
    case response: False
    show ?thesis
    proof (cases "eap_typ pkt = Some IDENTITY")
      case True
      then obtain f where f: "er_lookup router (er_preferred router) = Some f"
        using round response by (auto simp: Let_def bind_eq_Some_conv)
      show ?thesis
        using round response True f quiet start [OF pkt True] by (cases "fac_create f") (auto simp: Let_def)
    next
      case not_identity: False
      show ?thesis
      proof (cases existing)
        case None
        then show ?thesis using round response not_identity quiet by auto
      next
        case prev: (Some prev)
        obtain st1 taken where tk: "session_take (env_take env) prev store = (st1, taken)"
          by (cases "session_take (env_take env) prev store")
        show ?thesis
        proof (cases taken)
          case None
          then show ?thesis using round response not_identity prev tk quiet by auto
        next
          case s: (Some s)
          note tk = tk [unfolded s]
          note round = round [unfolded prev option.case tk prod.case]
          show ?thesis
          proof (cases "eap_typ pkt = Some NAK")
            case nak_pkt: True
            show ?thesis
            proof (cases "nak_desired router s (eap_type_data pkt)")
              case Nil
              then show ?thesis using round response not_identity nak_pkt tk quiet by auto
            next
              case (Cons t ts)
              then obtain f where f: "er_lookup router t = Some f"
                using round response not_identity nak_pkt by (auto simp: bind_eq_Some_conv)
              show ?thesis
                using round response not_identity nak_pkt Cons f tk quiet nak [OF pkt nak_pkt prev tk]
                by (cases "fac_create f") auto
            qed
          next
            case False
            then show ?thesis using round response not_identity tk quiet continue [OF pkt not_identity False prev tk]
              by (auto simp: Let_def split: if_splits)
          qed
        qed
      qed
    qed
  qed
qed

section \<open>Negotiations\<close>

datatype offer_event =
    Offered "session_id option" eap_type session_id
  | Continued session_id session_id

fun round_offers :: "eap_round \<Rightarrow> (eap_error, eap_dispatch) result \<Rightarrow> offer_event list" where
  "round_offers (env, existing, buf, un, outer) (Ok (DispChallenge pl i t sid)) =
     (case eap_parse buf of
        Err _ \<Rightarrow> []
      | Ok pkt \<Rightarrow>
          if eap_typ pkt = Some IDENTITY then [Offered None t sid]
          else (case existing of
                  None \<Rightarrow> []
                | Some prev \<Rightarrow> if eap_typ pkt = Some NAK then [Offered (Some prev) t sid] else [Continued prev sid]))"
| "round_offers _ _ = []"

fun multi_history ::
    "'m method_ops \<Rightarrow> 'm eap_router \<Rightarrow> 'm session_store \<Rightarrow> eap_round list \<Rightarrow> ('m session_store \<times> offer_event list) option" where
  "multi_history ops router store [] = Some (store, [])"
| "multi_history ops router store ((env, existing, buf, un, outer) # rs) =
     Option.bind (multi_dispatch_round ops router env store existing buf un outer) (\<lambda>(store, res).
     map_option (apsnd (append (round_offers (env, existing, buf, un, outer) res))) (multi_history ops router store rs))"

text \<open>The events that lead to a State, each under the State of the one before, and the types they offer.\<close>

inductive negotiation :: "offer_event list \<Rightarrow> eap_type list \<Rightarrow> session_id \<Rightarrow> bool" where
  neg_start: "negotiation [Offered None t sid] [t] sid"
| neg_nak: "negotiation es ts prev \<Longrightarrow> negotiation (es @ [Offered (Some prev) t sid]) (ts @ [t]) sid"
| neg_continue: "negotiation es ts prev \<Longrightarrow> negotiation (es @ [Continued prev sid]) ts sid"

definition negotiating :: "offer_event list \<Rightarrow> 'm session_store \<Rightarrow> bool" where
  "negotiating log store \<longleftrightarrow>
     (\<forall>sid s d. stored_at store sid = Some (s, d) \<longrightarrow> (\<exists>es. negotiation es (tried_types s) sid \<and> subseq es log))"

lemma negotiating_taken:
  assumes "negotiating log store" and "session_take now sid store = (st1, Some s)"
  obtains es where "negotiation es (tried_types s) sid" "subseq es log"
proof -
  obtain d where "stored_at store sid = Some (s, d)"
    using memory_store.tak_Some [of now sid store s] assms(2) by auto
  then show ?thesis using assms(1) that unfolding negotiating_def by blast
qed

lemma negotiating_sub:
  assumes "negotiating log store" and "\<And>j x. stored_at store' j = Some x \<Longrightarrow> stored_at store j = Some x"
  shows "negotiating (log @ xs) store'"
proof -
  have "subseq es (log @ xs)" if "subseq es log" for es using that by (rule list_emb_prefix)
  then show ?thesis using assms unfolding negotiating_def by blast
qed

lemma taken_sub: "session_take now sid store = (st1, r) \<Longrightarrow> stored_at st1 j = Some x \<Longrightarrow> stored_at store j = Some x"
  using memory_store.get_tak [of now sid store j] by (auto split: if_splits)

lemma negotiating_insert:
  assumes "negotiating log store" and "negotiation (es @ [e]) (tried_types s) sid" and "subseq es log"
  shows "negotiating (log @ [e]) (session_insert now sid s store)"
  unfolding negotiating_def
proof (intro allI impI)
  fix j x d
  assume "stored_at (session_insert now sid s store) j = Some (x, d)"
  then have "j = sid \<and> x = s \<or> stored_at store j = Some (x, d)"
    using memory_store.get_ins [of now sid s store j "(x, d)"] by auto
  then show "\<exists>es. negotiation es (tried_types x) j \<and> subseq es (log @ [e])"
  proof
    assume "j = sid \<and> x = s"
    then show ?thesis using assms(2,3) by (intro exI [of _ "es @ [e]"]) (auto intro: list_emb_append_mono)
  next
    assume "stored_at store j = Some (x, d)"
    then show ?thesis using assms(1) unfolding negotiating_def by (meson list_emb_prefix)
  qed
qed

lemma negotiating_round:
  assumes N: "negotiating log store"
    and R: "multi_dispatch_round ops router env store existing buf un outer = Some (store', res)"
  shows "negotiating (log @ round_offers (env, existing, buf, un, outer) res) store'"
proof (cases "\<exists>pl i t sid. res = Ok (DispChallenge pl i t sid)")
  case True
  then obtain pl i t sid where res: "res = Ok (DispChallenge pl i t sid)" by blast
  from R [unfolded res] show ?thesis
  proof (cases rule: multi_round_cases)
    case (start pkt m)
    from start_session_challenge [OF start(3)] obtain s' where s': "store' = session_insert (env_insert env) sid s' store"
      "tried_types s' = [t]" by auto
    have "negotiation ([] @ [Offered None t sid]) (tried_types s') sid" unfolding s'(2) append_Nil by (rule neg_start)
    from negotiating_insert [OF N this] show ?thesis using start(1,2) s'(1) by (simp add: res)
  next
    case (nak pkt prev st1 s t' m)
    from start_session_challenge [OF nak(5)] obtain s' where s': "store' = session_insert (env_insert env) sid s' st1"
      "tried_types s' = tried_types s @ [t]" by auto
    obtain es where es: "negotiation es (tried_types s) prev" "subseq es log" by (rule negotiating_taken [OF N nak(4)])
    have "negotiating log st1" using negotiating_sub [where xs = "[]", OF N taken_sub [OF nak(4)]] by simp
    from negotiating_insert [OF this _ es(2)] neg_nak [OF es(1), of t sid] show ?thesis using nak(1-3) s' by (simp add: res)
  next
    case (continue pkt prev st1 s)
    from continue_session_challenge [OF continue(6)] obtain s' where s': "store' = session_insert (env_insert env) sid s' st1"
      "tried_types s' = tried_types s" by auto
    obtain es where es: "negotiation es (tried_types s) prev" "subseq es log" by (rule negotiating_taken [OF N continue(5)])
    have "negotiating log st1" using negotiating_sub [where xs = "[]", OF N taken_sub [OF continue(5)]] by simp
    from negotiating_insert [OF this _ es(2)] neg_continue [OF es(1), of sid] show ?thesis using continue(1-4) s' by (simp add: res)
  qed auto
next
  case False
  have "stored_at store j = Some x" if j: "stored_at store' j = Some x" for j x
    using R
  proof (cases rule: multi_round_cases)
    case quiet
    then show ?thesis using j taken_sub by metis
  next
    case (start pkt m)
    then show ?thesis using start_session_sub [OF start(3) j] False by blast
  next
    case (nak pkt prev st1 s t m)
    then show ?thesis using start_session_sub [OF nak(5) j] False taken_sub [OF nak(4)] by blast
  next
    case (continue pkt prev st1 s)
    then show ?thesis using continue_session_sub [OF continue(6) j] False taken_sub [OF continue(5)] by blast
  qed
  from negotiating_sub [OF N this] show ?thesis by blast
qed

lemma history_invariants:
  assumes "multi_history ops router store rounds = Some (store', log')" and "negotiating log store"
    and "all_offers_ok router store" and "er_supports router (er_preferred router)"
  shows "negotiating (log @ log') store'" and "all_offers_ok router store'"
proof -
  have "negotiating (log @ log') store' \<and> all_offers_ok router store'"
    using assms
  proof (induction rounds arbitrary: store log log')
    case (Cons r rounds)
    obtain env existing buf un outer where r: "r = (env, existing, buf, un, outer)" by (cases r)
    from Cons.prems(1) obtain st1 res log'' where
      R: "multi_dispatch_round ops router env store existing buf un outer = Some (st1, res)"
      "multi_history ops router st1 rounds = Some (store', log'')" "log' = round_offers r res @ log''"
      by (auto simp: r bind_eq_Some_conv)
    from Cons.IH [OF R(2) negotiating_round [OF Cons.prems(2) R(1)] multi_round_offers [OF R(1) Cons.prems(3,4)] Cons.prems(4)]
    show ?case unfolding R(3) r by simp
  qed simp
  then show "negotiating (log @ log') store'" "all_offers_ok router store'" by blast+
qed

section \<open>Negotiation ends\<close>

text \<open>
  The first type of a peer's list that may still be offered: it is not zero, it is registered and it was
  not offered in this negotiation.
\<close>

definition next_offer :: "'m eap_router \<Rightarrow> eap_type list \<Rightarrow> bytes \<Rightarrow> eap_type option" where
  "next_offer router offered wanted =
     map_option EapType
       (List.find (\<lambda>b. b \<noteq> 0 \<and> fmlookup (er_methods router) b \<noteq> None \<and> EapType b \<notin> set offered) wanted)"

lemma next_offer_desired:
  "next_offer router (tried_types s) data = (case nak_desired router s data of [] \<Rightarrow> None | t # ts \<Rightarrow> Some t)"
  by (induction data) (auto simp: next_offer_def nak_desired_def er_supports_def)

text \<open>
  C27: method negotiation ends. After any history of the multi-method handler, the types a stored session
  keeps are exactly those offered by a chain of logged challenges that leads to its State; they are
  distinct and registered, so there are no more of them than methods. A Nak for the session is rejected
  just when none of the types it wants is registered and left; otherwise the first such type is chosen,
  of which there are fewer to come, and if its method can be created and sends a first message, that
  message goes out as a challenge of this type under a fresh session whose list is longer by it.
\<close>

theorem nak_negotiation_terminates:
  assumes "eap_router_build b = Ok router" and "store_with_limits timeout capacity = Some st0"
    and "multi_history ops router st0 rounds = Some (store, log)" and "stored_at store sid = Some (s, d)" and "env_take env < d"
    and "eap_parse buf = Ok pkt" and "eap_code pkt = EAP_RESPONSE" and "eap_typ pkt = Some NAK"
  shows "(\<exists>es. negotiation es (tried_types s) sid \<and> subseq es log)
    \<and> distinct (tried_types s) \<and> length (tried_types s) \<le> fmlen (er_methods router)
    \<and> (case next_offer router (tried_types s) (eap_type_data pkt) of
         None \<Rightarrow> \<exists>store'. multi_dispatch_round ops router env store (Some sid) buf un outer = Some (store', Ok (DispReject (eap_identifier pkt)))
       | Some t \<Rightarrow> length (tried_types s) < fmlen (er_methods router)
           \<and> (\<exists>f. er_lookup router t = Some f \<and>
               (\<forall>m m' pl. fac_create f = Ok m \<longrightarrow>
                  m_start ops (env_rnd env) outer (notified ops (peer_identity s) m) = Some (m', Ok (MContinue pl)) \<longrightarrow>
                  (\<exists>store' i s' d'. multi_dispatch_round ops router env store (Some sid) buf un outer
                       = Some (store', Ok (DispChallenge pl i t (env_session_id env)))
                     \<and> stored_at store' (env_session_id env) = Some (s', d') \<and> tried_types s' = tried_types s @ [t]
                     \<and> session_method s' = m_notify_request_id ops i m'))))"
proof -
  note pref = eap_router_build_ok(1) [OF assms(1)]
  have new: "negotiating [] st0" "all_offers_ok router st0"
    using assms(2)
    by (auto simp: negotiating_def all_sessions_def stored_at_def store_with_limits_def session_table_new_def split: if_splits)
  note H = history_invariants [OF assms(3) new pref]
  have s: "offers_ok router s" using H(2) assms(4) by (auto simp: all_sessions_def)
  have chain: "\<exists>es. negotiation es (tried_types s) sid \<and> subseq es log"
    using H(1) assms(4) unfolding negotiating_def append_Nil by blast
  have b: "distinct (tried_types s)" "length (tried_types s) \<le> fmlen (er_methods router)"
    using s offers_bounded by (auto simp: offers_ok_def)
  obtain st1 where tk: "session_take (env_take env) sid store = (st1, Some s)"
    using stored_session_taken [OF assms(4,5)] .
  have n: "eap_typ pkt \<noteq> Some IDENTITY" using assms(8) by simp
  show ?thesis
  proof (cases "nak_desired router s (eap_type_data pkt)")
    case Nil
    then have "multi_dispatch_round ops router env store (Some sid) buf un outer = Some (st1, Ok (DispReject (eap_identifier pkt)))"
      using assms(6-8) n tk by (simp add: multi_dispatch_round_def)
    then show ?thesis using b chain Nil by (simp add: next_offer_desired)
  next
    case (Cons t ts)
    note D = nak_desired_fresh [OF Cons s]
    have len: "length (tried_types s) < fmlen (er_methods router)"
      using offers_bounded [OF D(1), of undefined] by simp
    obtain f where f: "er_lookup router t = Some f" using D(3) by (auto simp: er_lookup_def er_supports_def)
    have "\<exists>store' i s' d'. multi_dispatch_round ops router env store (Some sid) buf un outer
            = Some (store', Ok (DispChallenge pl i t (env_session_id env)))
        \<and> stored_at store' (env_session_id env) = Some (s', d') \<and> tried_types s' = tried_types s @ [t]
        \<and> session_method s' = m_notify_request_id ops i m'"
      if "fac_create f = Ok m" "m_start ops (env_rnd env) outer (notified ops (peer_identity s) m) = Some (m', Ok (MContinue pl))"
      for m m' pl
      using that assms(6-8) n tk Cons f
      by (simp add: multi_dispatch_round_def start_session_def notified_def commit_outcome_continue stored_at_insert)
    then show ?thesis using b chain len f Cons by (simp add: next_offer_desired)
  qed
qed

theorem nak_negotiation_terminates_witness:
  "\<exists>router store log s store'. eap_router_build demo_builder = Ok router
    \<and> multi_history echo_ops router demo_store [(demo_env, None, identity_bytes, None, [])] = Some (store, log)
    \<and> stored_at store (replicate 16 3) = Some (s, 16) \<and> tried_types s = [EapType 4]
    \<and> multi_dispatch_round echo_ops router demo_env store (Some (replicate 16 3)) [2, 1, 0, 6, 3, 4] None [] = Some (store', Ok (DispReject 1))"
proof -
  let ?b = demo_builder
  define router where "router = \<lparr>er_methods = eb_methods ?b, er_preferred = EapType 4\<rparr>"
  have look: "fmlookup (eb_methods ?b) 4 = Some \<lparr>fac_typ = EapType 4, fac_create = Ok 4\<rparr>" "eb_preferred ?b = Some (EapType 4)"
    by (simp_all add: demo_builder_def eb_set_preferred_def eb_register_typed_def eb_register_def dyn_factory_new_def)
  have "eb_methods ?b \<noteq> fmempty" using look(1) by (metis fmempty_lookup option.distinct(1))
  then have b: "eap_router_build ?b = Ok router" using look by (simp add: eap_router_build_def router_def)
  define s where "s = (session_new 4)\<lparr>tried_types := [EapType 4], next_eap_id := 2, session_method := (4 :: u8)\<rparr>"
  define store where "store = session_insert 6 (replicate 16 3) s demo_store"
  have "multi_dispatch_round echo_ops router demo_env demo_store None identity_bytes None []
      = Some (store, Ok (DispChallenge [] 1 (EapType 4) (replicate 16 3)))"
    using look
    by (simp add: multi_dispatch_round_def identity_bytes_parse eap_typ_def eap_type_data_def resolve_peer_identity_def
        er_lookup_def router_def start_session_def echo_ops_def commit_outcome_continue issued_id_def session_new_def demo_env_def
        default_notify_request_id_def store_def s_def Let_def)
  then obtain log where m: "multi_history echo_ops router demo_store [(demo_env, None, identity_bytes, None, [])] = Some (store, log)"
    by simp
  have st: "stored_at store (replicate 16 3) = Some (s, 16)" by (simp add: store_def stored_at_insert demo_store_def)
  have nak: "eap_parse [2, 1, 0, 6, 3, 4] = Ok \<lparr>eap_code = EAP_RESPONSE, eap_identifier = 1, eap_payload = [3, 4]\<rparr>"
    by (simp add: eap_parse_def u16_from_be_eq)
  have t: "env_take demo_env < 16" by (simp add: demo_env_def)
  have tried: "tried_types s = [EapType 4]" by (simp add: s_def)
  from nak_negotiation_terminates [OF b demo_store_new m st t nak, of None "[]"] b m st tried show ?thesis
    by (auto simp: eap_typ_def eap_type_data_def next_offer_def)
qed

end
