(* ===== verification/Unicode.thy ===== *)
theory Unicode
  imports Prelude
begin

text \<open>
  What the code uses of Rust strings beyond their bytes: \<open>str::chars\<close> on valid UTF-8 and
  \<open>encode_utf16\<close>, with the byte order of \<open>to_le_bytes\<close>. The lemmas show that UTF-8 decoding is inverted
  by encoding, that it yields scalar values only, and that the UTF-16LE bytes determine the string.
\<close>

section \<open>Decoding and encoding\<close>

fun utf8_chars :: "bytes \<Rightarrow> nat list" where
  "utf8_chars [] = []"
| "utf8_chars (b0 # r) =
     (if b0 \<le> 0x7F then unat b0 # utf8_chars r
      else if b0 \<le> 0xDF then
        (case r of
           b1 # r' \<Rightarrow> ((unat b0 - 0xC0) * 64 + (unat b1 - 0x80)) # utf8_chars r'
         | _ \<Rightarrow> [])
      else if b0 \<le> 0xEF then
        (case r of
           b1 # b2 # r' \<Rightarrow>
             ((unat b0 - 0xE0) * 4096 + (unat b1 - 0x80) * 64 + (unat b2 - 0x80)) # utf8_chars r'
         | _ \<Rightarrow> [])
      else
        (case r of
           b1 # b2 # b3 # r' \<Rightarrow>
             ((unat b0 - 0xF0) * 262144 + (unat b1 - 0x80) * 4096 + (unat b2 - 0x80) * 64
               + (unat b3 - 0x80)) # utf8_chars r'
         | _ \<Rightarrow> []))"

definition utf16_units :: "nat \<Rightarrow> u16 list" where
  "utf16_units c =
     (if c < 0x10000 then [of_nat c]
      else [of_nat (0xD800 + (c - 0x10000) div 1024), of_nat (0xDC00 + (c - 0x10000) mod 1024)])"

definition u16_to_le :: "u16 \<Rightarrow> bytes" where
  "u16_to_le w = [of_nat (unat w), of_nat (unat w div 256)]"

definition utf16_le :: "bytes \<Rightarrow> bytes" where
  "utf16_le password = concat (map u16_to_le (concat (map utf16_units (utf8_chars password))))"

declare utf8_chars.simps(2) [simp del]

definition scalar :: "nat \<Rightarrow> bool" where
  "scalar c \<longleftrightarrow> c < 0xD800 \<or> 0xE000 \<le> c \<and> c < 0x110000"

definition utf8_encode :: "nat \<Rightarrow> bytes" where
  "utf8_encode c =
     map of_nat
       (if c < 0x80 then [c]
        else if c < 0x800 then [0xC0 + c div 64, 0x80 + c mod 64]
        else if c < 0x10000 then [0xE0 + c div 4096, 0x80 + c div 64 mod 64, 0x80 + c mod 64]
        else [0xF0 + c div 262144, 0x80 + c div 4096 mod 64, 0x80 + c div 64 mod 64, 0x80 + c mod 64])"

lemma utf8_digits:
  assumes "x < 64" and "y < 64" and "z < (64 :: nat)"
  shows "(h * 64 + x) div 64 = h" "(h * 64 + x) mod 64 = x"
    "(h * 4096 + x * 64 + y) div 4096 = h" "(h * 4096 + x * 64 + y) div 64 mod 64 = x"
    "(h * 4096 + x * 64 + y) mod 64 = y"
    "(h * 262144 + x * 4096 + y * 64 + z) div 262144 = h" "(h * 262144 + x * 4096 + y * 64 + z) div 4096 mod 64 = x"
    "(h * 262144 + x * 4096 + y * 64 + z) div 64 mod 64 = y" "(h * 262144 + x * 4096 + y * 64 + z) mod 64 = z"
proof -
  have dm: "(a * 64 + b) div 64 = a" "(a * 64 + b) mod 64 = b" if "b < 64" for a b :: nat using that by simp_all
  have n3: "h * 4096 + x * 64 + y = (h * 64 + x) * 64 + y" by simp
  have n4: "h * 262144 + x * 4096 + y * 64 + z = ((h * 64 + x) * 64 + y) * 64 + z" by simp
  have q: "n div 4096 = n div 64 div 64" "n div 262144 = n div 64 div 64 div 64" for n :: nat
    by (simp_all flip: div_mult2_eq)
  note D = dm [OF assms(1)] dm [OF assms(2)] dm [OF assms(3)]
  show "(h * 64 + x) div 64 = h" "(h * 64 + x) mod 64 = x"
    "(h * 4096 + x * 64 + y) div 4096 = h" "(h * 4096 + x * 64 + y) div 64 mod 64 = x"
    "(h * 4096 + x * 64 + y) mod 64 = y"
    "(h * 262144 + x * 4096 + y * 64 + z) div 262144 = h" "(h * 262144 + x * 4096 + y * 64 + z) div 4096 mod 64 = x"
    "(h * 262144 + x * 4096 + y * 64 + z) div 64 mod 64 = y" "(h * 262144 + x * 4096 + y * 64 + z) mod 64 = z"
    by (simp_all only: n3 n4 q D)
qed

lemma u8_le: "(a :: u8) \<le> b \<longleftrightarrow> unat a \<le> unat b" by (rule word_le_nat_alt)

lemma utf8_seq2:
  assumes "0xC2 \<le> b0" and "b0 \<le> 0xDF" and "utf8_cont b1"
  shows "let c = (unat b0 - 0xC0) * 64 + (unat b1 - 0x80) in scalar c \<and> utf8_encode c = [b0, b1]"
proof -
  define h x where hx: "h = unat b0 - 0xC0" "x = unat b1 - 0x80"
  have b: "unat b0 = 0xC0 + h" "2 \<le> h" "h < 32" "unat b1 = 0x80 + x" "x < 64"
    using assms by (auto simp: hx utf8_cont_def u8_le)
  have "b0 = of_nat (0xC0 + h)" "b1 = of_nat (0x80 + x)" using b(1,4) u8_eq_of_nat by blast+
  moreover have "0x80 \<le> h * 64 + x" "h * 64 + x < 0x800" using b by linarith+
  ultimately show ?thesis
    unfolding Let_def hx [symmetric] utf8_encode_def scalar_def using utf8_digits(1,2) [OF b(5), of 0 0 h] b by simp
qed

lemma utf8_seq3:
  assumes "0xE0 \<le> b0" and "b0 \<le> 0xEF" and "utf8_cont b2"
    and "if b0 = 0xE0 then 0xA0 \<le> b1 \<and> b1 \<le> 0xBF else if b0 = 0xED then 0x80 \<le> b1 \<and> b1 \<le> 0x9F else utf8_cont b1"
  shows "let c = (unat b0 - 0xE0) * 4096 + (unat b1 - 0x80) * 64 + (unat b2 - 0x80)
    in scalar c \<and> utf8_encode c = [b0, b1, b2]"
proof -
  define h x y where hx: "h = unat b0 - 0xE0" "x = unat b1 - 0x80" "y = unat b2 - 0x80"
  have b: "unat b0 = 0xE0 + h" "h < 16" "unat b1 = 0x80 + x" "x < 64" "unat b2 = 0x80 + y" "y < 64"
    "h = 0 \<Longrightarrow> 32 \<le> x" "h = 13 \<Longrightarrow> x < 32"
    using assms by (auto simp: hx utf8_cont_def u8_le word_unat_eq_iff split: if_splits)
  have "b0 = of_nat (0xE0 + h)" "b1 = of_nat (0x80 + x)" "b2 = of_nat (0x80 + y)" using b u8_eq_of_nat by blast+
  moreover have "0x800 \<le> h * 4096 + x * 64 + y" "h * 4096 + x * 64 + y < 0x10000" using b by (cases h; linarith)+
  moreover have "h * 4096 + x * 64 + y < 0xD800 \<or> 0xE000 \<le> h * 4096 + x * 64 + y"
    using b by (cases "h \<le> 12"; cases "h = 13") auto
  ultimately show ?thesis
    unfolding Let_def hx [symmetric] utf8_encode_def scalar_def using utf8_digits(3-5) [OF b(4,6), of 0 h] b by simp
qed

lemma utf8_seq4:
  assumes "0xF0 \<le> b0" and "b0 \<le> 0xF4" and "utf8_cont b2" and "utf8_cont b3"
    and "if b0 = 0xF0 then 0x90 \<le> b1 \<and> b1 \<le> 0xBF else if b0 = 0xF4 then 0x80 \<le> b1 \<and> b1 \<le> 0x8F else utf8_cont b1"
  shows "let c = (unat b0 - 0xF0) * 262144 + (unat b1 - 0x80) * 4096 + (unat b2 - 0x80) * 64 + (unat b3 - 0x80)
    in scalar c \<and> utf8_encode c = [b0, b1, b2, b3]"
proof -
  define h x y z where hx: "h = unat b0 - 0xF0" "x = unat b1 - 0x80" "y = unat b2 - 0x80" "z = unat b3 - 0x80"
  have b: "unat b0 = 0xF0 + h" "h < 5" "unat b1 = 0x80 + x" "x < 64" "unat b2 = 0x80 + y" "y < 64"
    "unat b3 = 0x80 + z" "z < 64" "h = 0 \<Longrightarrow> 16 \<le> x" "h = 4 \<Longrightarrow> x < 16"
    using assms by (auto simp: hx utf8_cont_def u8_le word_unat_eq_iff split: if_splits)
  have "b0 = of_nat (0xF0 + h)" "b1 = of_nat (0x80 + x)" "b2 = of_nat (0x80 + y)" "b3 = of_nat (0x80 + z)"
    using b u8_eq_of_nat by blast+
  moreover have "0x10000 \<le> h * 262144 + x * 4096 + y * 64 + z" using b by (cases h) auto
  moreover have "h * 262144 + x * 4096 + y * 64 + z < 0x110000" using b by (cases "h = 4") auto
  ultimately show ?thesis
    unfolding Let_def hx [symmetric] utf8_encode_def scalar_def using utf8_digits(6-9) [OF b(4,6,8), of h] b by simp
qed

lemma utf8_chars_valid:
  "utf8_valid bs \<Longrightarrow> list_all scalar (utf8_chars bs) \<and> concat (map utf8_encode (utf8_chars bs)) = bs"
proof (induction bs rule: length_induct)
  case (1 bs)
  then have IH: "utf8_valid r \<Longrightarrow> length r < length bs \<Longrightarrow>
    list_all scalar (utf8_chars r) \<and> concat (map utf8_encode (utf8_chars r)) = r" for r by blast
  show ?case
  proof (cases bs)
    case (Cons b0 r)
    note v = "1.prems" [unfolded Cons utf8_valid.simps]
    show ?thesis
    proof (cases "b0 \<le> 0x7F")
      case True
      then have "utf8_encode (unat b0) = [b0]" "scalar (unat b0)" by (auto simp: utf8_encode_def scalar_def u8_le)
      then show ?thesis using v True IH [of r] by (simp add: Cons utf8_chars.simps(2))
    next
      case F1: False
      show ?thesis
      proof (cases "b0 \<le> 0xDF")
        case True
        then obtain b1 r' where r: "r = b1 # r'" "utf8_cont b1" "utf8_valid r'" "0xC2 \<le> b0"
          using v F1 by (auto simp: u8_le split: if_splits list.splits)
        then show ?thesis
          using IH [of r'] F1 True utf8_seq2 [OF r(4) True r(2)] by (simp add: Cons utf8_chars.simps(2) Let_def)
      next
        case F2: False
        show ?thesis
        proof (cases "b0 \<le> 0xEF")
          case True
          have E0: "0xE0 \<le> b0" using F2 by (simp add: u8_le)
          have "\<not> b0 \<le> 0xDF" by (rule F2)
          then obtain b1 b2 r' where r: "r = b1 # b2 # r'" "utf8_cont b2" "utf8_valid r'"
            "if b0 = 0xE0 then 0xA0 \<le> b1 \<and> b1 \<le> 0xBF else if b0 = 0xED then 0x80 \<le> b1 \<and> b1 \<le> 0x9F else utf8_cont b1"
            using v F1 True E0 by (simp split: list.splits if_splits) 
          then show ?thesis
            using IH [of r'] F1 F2 True utf8_seq3 [OF E0 True r(2,4)] by (simp add: Cons utf8_chars.simps(2) Let_def)
        next
          case F3: False
          have F0: "0xF0 \<le> b0" using F3 by (simp add: u8_le)
          have F4: "b0 \<le> 0xF4" using v F1 F2 F3 by (simp split: if_splits)
          obtain b1 b2 b3 r' where r: "r = b1 # b2 # b3 # r'" "utf8_cont b2" "utf8_cont b3" "utf8_valid r'"
            "if b0 = 0xF0 then 0x90 \<le> b1 \<and> b1 \<le> 0xBF else if b0 = 0xF4 then 0x80 \<le> b1 \<and> b1 \<le> 0x8F else utf8_cont b1"
            using v F1 F2 F3 F0 F4 by (simp split: list.splits if_splits) 
          then show ?thesis
            using IH [of r'] F1 F2 F3 utf8_seq4 [OF F0 F4 r(2,3,5)] by (simp add: Cons utf8_chars.simps(2) Let_def)
        qed
      qed
    qed
  qed simp
qed

text \<open>A unit that is not a surrogate is a whole scalar value, so units determine the values.\<close>

lemma utf16_units_cases:
  assumes "scalar c"
  obtains (bmp) w where "utf16_units c = [w]" "unat w = c" "c < 0x10000" "unat w < 0xD800 \<or> 0xE000 \<le> unat w"
  | (pair) w x where "utf16_units c = [w, x]" "0xD800 \<le> unat w" "unat w < 0xDC00" "0x10000 \<le> c"
      "c = 0x10000 + (unat w - 0xD800) * 1024 + (unat x - 0xDC00)"
proof (cases "c < 0x10000")
  case True
  then show ?thesis using assms bmp [of "of_nat c"] by (auto simp: utf16_units_def scalar_def unat_of_nat_u16_small)
next
  case False
  define d where "d = c - 0x10000"
  have d: "c = 0x10000 + d" "d < 0x100000" using False assms by (auto simp: d_def scalar_def)
  have "d div 1024 < 1024" using d(2) by (simp add: less_mult_imp_div_less)
  then have "unat (of_nat (0xD800 + d div 1024) :: u16) = 0xD800 + d div 1024"
    "unat (of_nat (0xDC00 + d mod 1024) :: u16) = 0xDC00 + d mod 1024" by (auto intro!: unat_of_nat_u16_small simp del: of_nat_add)
  then show ?thesis
    using False \<open>d div 1024 < 1024\<close> d pair [of "of_nat (0xD800 + d div 1024)" "of_nat (0xDC00 + d mod 1024)"]
    by (auto simp: utf16_units_def d_def [symmetric] simp del: of_nat_add)
qed

lemma utf16_units_inj:
  "list_all scalar cs \<Longrightarrow> list_all scalar ds \<Longrightarrow>
     concat (map utf16_units cs) = concat (map utf16_units ds) \<Longrightarrow> cs = ds"
proof (induction cs arbitrary: ds)
  case Nil
  then show ?case by (cases ds) (auto simp: utf16_units_def split: if_splits)
next
  case (Cons c cs)
  then obtain d ds' where ds: "ds = d # ds'" "scalar d" "list_all scalar ds'"
    by (cases ds) (auto simp: utf16_units_def split: if_splits)
  have eq: "utf16_units c @ concat (map utf16_units cs) = utf16_units d @ concat (map utf16_units ds')"
    using Cons.prems(3) ds by simp
  have "c = d \<and> concat (map utf16_units cs) = concat (map utf16_units ds')"
  proof (rule utf16_units_cases [of c])
    show "scalar c" using Cons.prems(1) by simp
  next
    fix w assume c: "utf16_units c = [w]" "unat w = c" "unat w < 0xD800 \<or> 0xE000 \<le> unat w"
    show ?thesis by (rule utf16_units_cases [OF ds(2)]) (use c eq in auto)
  next
    fix w x assume c: "utf16_units c = [w, x]" "0xD800 \<le> unat w" "unat w < 0xDC00"
      "c = 0x10000 + (unat w - 0xD800) * 1024 + (unat x - 0xDC00)"
    show ?thesis by (rule utf16_units_cases [OF ds(2)]) (use c eq in auto)
  qed
  then show ?case using Cons.IH [of ds'] Cons.prems(1) ds by simp
qed

lemma u16_to_le_inj: "u16_to_le a = u16_to_le b \<Longrightarrow> a = b"
proof -
  assume *: "u16_to_le a = u16_to_le b"
  have "unat w < 65536" for w :: u16 using unsigned_less [of w, where ?'a = nat] by simp
  then have q: "unat w div 256 < 256" for w :: u16 by (simp add: less_mult_imp_div_less)
  have h: "(of_nat (unat a) :: u8) = of_nat (unat b)" "(of_nat (unat a div 256) :: u8) = of_nat (unat b div 256)"
    using * by (simp_all add: u16_to_le_def)
  have "unat a mod 256 = unat b mod 256" using arg_cong [OF h(1), of unat] by (simp only: unat_of_nat_u8)
  moreover have "unat a div 256 = unat b div 256"
    using arg_cong [OF h(2), of unat] by (simp only: unat_of_nat_u8_small [OF q])
  ultimately have "unat a = unat b" by (metis div_mult_mod_eq)
  then show "a = b" by (simp only: word_unat_eq_iff)
qed

lemma u16_le_concat_inj:
  "concat (map u16_to_le xs) = concat (map u16_to_le ys) \<Longrightarrow> xs = ys"
proof (induction xs arbitrary: ys)
  case Nil
  then show ?case by (cases ys) (auto simp: u16_to_le_def)
next
  case (Cons x xs)
  then obtain y ys' where ys: "ys = y # ys'" by (cases ys) (auto simp: u16_to_le_def)
  have "length (u16_to_le x) = length (u16_to_le y)" by (simp add: u16_to_le_def)
  then show ?case using Cons ys u16_to_le_inj by auto
qed

lemma utf16_le_inject:
  assumes "utf8_valid p" and "utf8_valid q"
  shows "utf16_le p = utf16_le q \<longleftrightarrow> p = q"
  using utf8_chars_valid [OF assms(1)] utf8_chars_valid [OF assms(2)] utf16_units_inj [of "utf8_chars p" "utf8_chars q"]
    u16_le_concat_inj unfolding utf16_le_def by metis

end
