(* ===== verification/Auth_Methods.thy ===== *)
theory Auth_Methods
  imports Handler Unicode
begin

unbundle bit_operations_syntax

text \<open>
  \<^verbatim>\<open>src/auth\<close>: the verifiers a handler calls on a request. PAP re-encrypts the expected password and
  compares (\<^verbatim>\<open>pap.rs\<close>), CHAP and EAP-MD5 hash identifier, password and challenge (\<^verbatim>\<open>chap.rs\<close>,
  \<^verbatim>\<open>eap_md5.rs\<close>), MS-CHAP v1 and v2 answer an eight byte challenge with three DES blocks keyed by the
  NT hash (\<^verbatim>\<open>mschap.rs\<close>), whose key expansion is in \<^verbatim>\<open>crypto/des.rs\<close>. A Rust \<open>str\<close> is its UTF-8
  bytes. DES, MD4 and SHA-1 are fields of \<open>crypto\<close>; the parity bits that \<open>DES_set_odd_parity\<close> sets
  and the cipher ignores belong to that boundary.
\<close>

section \<open>Outcomes\<close>

datatype verify_outcome = Match | Mismatch | Missing | Malformed

definition is_match :: "verify_outcome \<Rightarrow> bool" where
  "is_match outcome = (case outcome of Match \<Rightarrow> True | _ \<Rightarrow> False)"

section \<open>PAP\<close>

definition USER_NAME :: u8 where [simp]: "USER_NAME = 1"
definition USER_PASSWORD :: u8 where [simp]: "USER_PASSWORD = 2"
definition CHAP_PASSWORD :: u8 where [simp]: "CHAP_PASSWORD = 3"
definition CHAP_CHALLENGE :: u8 where [simp]: "CHAP_CHALLENGE = 60"

definition MAX_EXPECTED_LEN :: nat where [simp]: "MAX_EXPECTED_LEN = 128"

datatype pap_error = PapAttribute attribute_error | PapMalformed

text \<open>The outer \<open>None\<close> is the panic of \<open>user_password_encrypt\<close> on an oversized password.\<close>

definition pap_verify ::
    "crypto \<Rightarrow> server_request \<Rightarrow> bytes \<Rightarrow> (attribute_error, verify_outcome) result option" where
  "pap_verify C request expected_password =
     (if length expected_password > MAX_EXPECTED_LEN then Some (Ok Malformed)
      else case first_raw (req_attributes request) USER_PASSWORD of
        Err e \<Rightarrow> Some (Err e)
      | Ok None \<Rightarrow> Some (Ok Missing)
      | Ok (Some raw) \<Rightarrow>
          let ciphertext = raw_value raw
          in if ciphertext = [] \<or> length ciphertext mod 16 \<noteq> 0 \<or> length ciphertext > MAX_EXPECTED_LEN
             then Some (Ok Malformed)
             else map_option
               (\<lambda>expected_ct.
                  Ok (if length expected_ct \<noteq> length ciphertext then Mismatch
                      else if ct_eq C expected_ct ciphertext then Match else Mismatch))
               (user_password_encrypt C expected_password (client_secret (req_client request))
                  (req_authenticator request)))"

definition decrypt_user_password ::
    "crypto \<Rightarrow> server_request \<Rightarrow> (pap_error, bytes option) result" where
  "decrypt_user_password C request =
     and_then (map_err PapAttribute (first_raw (req_attributes request) USER_PASSWORD)) (\<lambda>raw.
       case raw of
         None \<Rightarrow> Ok None
       | Some raw \<Rightarrow>
           and_then
             (map_err (\<lambda>_. PapMalformed)
               (user_password_decrypt C (raw_value raw) (client_secret (req_client request))
                  (req_authenticator request)))
             (\<lambda>plain. Ok (Some plain)))"

section \<open>CHAP and EAP-MD5\<close>

definition CHAP_PASSWORD_LEN :: nat where [simp]: "CHAP_PASSWORD_LEN = 1 + 16"

definition chap_verify ::
    "crypto \<Rightarrow> server_request \<Rightarrow> bytes \<Rightarrow> (attribute_error, verify_outcome) result" where
  "chap_verify C request expected_password =
     (case first_raw (req_attributes request) CHAP_PASSWORD of
        Err e \<Rightarrow> Err e
      | Ok None \<Rightarrow> Ok Missing
      | Ok (Some raw) \<Rightarrow>
          if length (raw_value raw) \<noteq> CHAP_PASSWORD_LEN then Ok Malformed
          else
            let chap_id = raw_value raw ! 0;
                response = drop 1 (raw_value raw)
            in and_then (first_raw (req_attributes request) CHAP_CHALLENGE) (\<lambda>challenge_attr.
                 let challenge = (case challenge_attr of
                                    Some a \<Rightarrow> raw_value a
                                  | None \<Rightarrow> req_authenticator request);
                     ctx = md5_update challenge (md5_update expected_password (md5_update [chap_id] md5_new));
                     expected = md5_finalize C ctx
                 in Ok (if ct_eq C expected response then Match else Mismatch)))"

definition eap_md5_challenge_response :: "crypto \<Rightarrow> u8 \<Rightarrow> bytes \<Rightarrow> bytes \<Rightarrow> bytes" where
  "eap_md5_challenge_response C eap_id password challenge =
     md5_finalize C (md5_update challenge (md5_update password (md5_update [eap_id] md5_new)))"

definition eap_md5_verify_response :: "crypto \<Rightarrow> u8 \<Rightarrow> bytes \<Rightarrow> bytes \<Rightarrow> bytes \<Rightarrow> bool" where
  "eap_md5_verify_response C eap_id password challenge response =
     ct_eq C (eap_md5_challenge_response C eap_id password challenge) response"

section \<open>DES keys\<close>

text \<open>\<open>expand_56_to_64\<close>: seven key bytes become eight with the parity bit clear.\<close>

definition expand_56_to_64 :: "bytes \<Rightarrow> bytes" where
  "expand_56_to_64 k =
     [k ! 0 AND 0xFE,
      push_bit 7 (k ! 0) OR (drop_bit 1 (k ! 1) AND 0xFE),
      push_bit 6 (k ! 1) OR (drop_bit 2 (k ! 2) AND 0xFE),
      push_bit 5 (k ! 2) OR (drop_bit 3 (k ! 3) AND 0xFE),
      push_bit 4 (k ! 3) OR (drop_bit 4 (k ! 4) AND 0xFE),
      push_bit 3 (k ! 4) OR (drop_bit 5 (k ! 5) AND 0xFE),
      push_bit 2 (k ! 5) OR (drop_bit 6 (k ! 6) AND 0xFE),
      push_bit 1 (k ! 6)]"

record des_key =
  des_schedule :: bytes

definition des_from_56bits :: "bytes \<Rightarrow> des_key" where
  "des_from_56bits key56 = \<lparr>des_schedule = expand_56_to_64 key56\<rparr>"

definition des_ecb_encrypt :: "crypto \<Rightarrow> des_key \<Rightarrow> bytes \<Rightarrow> bytes" where
  "des_ecb_encrypt C k block = des_ecb C (des_schedule k) block"

section \<open>MS-CHAP\<close>

definition MSCHAP_VENDOR_ID :: u32 where [simp]: "MSCHAP_VENDOR_ID = 311"
definition VT_MS_CHAP_RESPONSE :: u8 where [simp]: "VT_MS_CHAP_RESPONSE = 1"
definition VT_MS_CHAP_CHALLENGE :: u8 where [simp]: "VT_MS_CHAP_CHALLENGE = 11"
definition VT_MS_CHAP2_RESPONSE :: u8 where [simp]: "VT_MS_CHAP2_RESPONSE = 25"
definition MS_CHAP_RESPONSE_LEN :: nat where [simp]: "MS_CHAP_RESPONSE_LEN = 50"
definition MS_CHAP_RESPONSE_NT_OFFSET :: nat where [simp]: "MS_CHAP_RESPONSE_NT_OFFSET = 2 + 24"
definition MS_CHAP2_RESPONSE_LEN :: nat where [simp]: "MS_CHAP2_RESPONSE_LEN = 50"
definition MS_CHAP2_RESPONSE_PEER_OFFSET :: nat where [simp]: "MS_CHAP2_RESPONSE_PEER_OFFSET = 2"
definition MS_CHAP2_RESPONSE_NT_OFFSET :: nat where [simp]: "MS_CHAP2_RESPONSE_NT_OFFSET = 2 + 16 + 8"
definition MS_CHAP_V1_CHALLENGE_LEN :: nat where [simp]: "MS_CHAP_V1_CHALLENGE_LEN = 8"
definition MS_CHAP_V2_CHALLENGE_LEN :: nat where [simp]: "MS_CHAP_V2_CHALLENGE_LEN = 16"

definition MAGIC1 :: bytes where
  "MAGIC1 = map of_char ''Magic server to client signing constant''"
definition MAGIC2 :: bytes where
  "MAGIC2 = map of_char ''Pad to make it do more than one iteration''"
definition HEX_UPPER :: bytes where
  "HEX_UPPER = map of_char ''0123456789ABCDEF''"

definition nt_password_hash :: "crypto \<Rightarrow> bytes \<Rightarrow> bytes" where
  "nt_password_hash C password = md4 C (utf16_le password)"

datatype ms_chap_secret = Cleartext bytes | NtHash bytes

fun nt_hash :: "crypto \<Rightarrow> ms_chap_secret \<Rightarrow> bytes" where
  "nt_hash C (NtHash h) = h"
| "nt_hash C (Cleartext p) = nt_password_hash C p"

text \<open>The loop \<open>for i in 0..3\<close> of \<open>challenge_response\<close>, one DES block for each seven key bytes.\<close>

definition ms_challenge_response :: "crypto \<Rightarrow> bytes \<Rightarrow> bytes \<Rightarrow> bytes" where
  "ms_challenge_response C challenge password_hash =
     (let zpad = password_hash @ replicate 5 0
      in concat (map (\<lambda>i. des_ecb_encrypt C (des_from_56bits (take 7 (drop (i * 7) zpad))) challenge) [0..<3]))"

definition challenge_hash :: "crypto \<Rightarrow> bytes \<Rightarrow> bytes \<Rightarrow> bytes \<Rightarrow> bytes" where
  "challenge_hash C peer_challenge auth_challenge username =
     take 8 (sha1 C (peer_challenge @ auth_challenge @ username))"

definition strip_domain :: "bytes \<Rightarrow> bytes" where
  "strip_domain name =
     (case rposition (\<lambda>b. b = 0x5C) name of
        Some i \<Rightarrow> drop (i + 1) name
      | None \<Rightarrow> name)"

text \<open>The body of the loop of \<open>first_ms_vsa\<close>: the vendor data of a slot, or \<open>continue\<close>.\<close>

definition ms_vsa_inner :: "raw_attribute \<Rightarrow> u8 \<Rightarrow> bytes option" where
  "ms_vsa_inner raw vendor_type =
     (if attribute_type raw \<noteq> VENDOR_SPECIFIC then None
      else case split_first_chunk 4 (raw_value raw) of
        None \<Rightarrow> None
      | Some (pen, rest) \<Rightarrow>
          if u32_from_be pen \<noteq> MSCHAP_VENDOR_ID then None
          else (case split_first_chunk 2 rest of
            None \<Rightarrow> None
          | Some (hdr, data) \<Rightarrow>
              if hdr ! 0 \<noteq> vendor_type then None
              else (case checked_sub (unat (hdr ! 1)) 2 of
                None \<Rightarrow> None
              | Some data_len \<Rightarrow> get_to data_len data)))"

fun first_ms_vsa_items :: "item list \<Rightarrow> u8 \<Rightarrow> (attribute_error, bytes option) result" where
  "first_ms_vsa_items [] vendor_type = Ok None"
| "first_ms_vsa_items (Err e # xs) vendor_type = Err e"
| "first_ms_vsa_items (Ok raw # xs) vendor_type =
     (case ms_vsa_inner raw vendor_type of
        Some data \<Rightarrow> Ok (Some data)
      | None \<Rightarrow> first_ms_vsa_items xs vendor_type)"

definition first_ms_vsa :: "server_request \<Rightarrow> u8 \<Rightarrow> (attribute_error, bytes option) result" where
  "first_ms_vsa request vendor_type = first_ms_vsa_items (items (req_attributes request)) vendor_type"

definition verify_v1 ::
    "crypto \<Rightarrow> server_request \<Rightarrow> ms_chap_secret \<Rightarrow> (attribute_error, verify_outcome) result" where
  "verify_v1 C request expected_password =
     (case first_ms_vsa request VT_MS_CHAP_CHALLENGE of
        Err e \<Rightarrow> Err e
      | Ok None \<Rightarrow> Ok Missing
      | Ok (Some challenge) \<Rightarrow>
          (case first_ms_vsa request VT_MS_CHAP_RESPONSE of
             Err e \<Rightarrow> Err e
           | Ok None \<Rightarrow> Ok Missing
           | Ok (Some response) \<Rightarrow>
               if length challenge \<noteq> MS_CHAP_V1_CHALLENGE_LEN \<or> length response \<noteq> MS_CHAP_RESPONSE_LEN
               then Ok Malformed
               else
                 let nt_response = take (MS_CHAP_RESPONSE_LEN - MS_CHAP_RESPONSE_NT_OFFSET)
                                     (drop MS_CHAP_RESPONSE_NT_OFFSET response);
                     expected = ms_challenge_response C challenge (nt_hash C expected_password)
                 in Ok (if ct_eq C expected nt_response then Match else Mismatch)))"

record v2_fields =
  v2_ident :: u8
  v2_auth_challenge :: bytes
  v2_peer_challenge :: bytes
  v2_nt :: bytes
  v2_username :: bytes

definition extract_v2 :: "server_request \<Rightarrow> (attribute_error, v2_fields option) result" where
  "extract_v2 request =
     (case first_ms_vsa request VT_MS_CHAP_CHALLENGE of
        Err e \<Rightarrow> Err e
      | Ok None \<Rightarrow> Ok None
      | Ok (Some challenge) \<Rightarrow>
          (case first_ms_vsa request VT_MS_CHAP2_RESPONSE of
             Err e \<Rightarrow> Err e
           | Ok None \<Rightarrow> Ok None
           | Ok (Some response) \<Rightarrow>
               if length challenge \<noteq> MS_CHAP_V2_CHALLENGE_LEN \<or> length response \<noteq> MS_CHAP2_RESPONSE_LEN
               then Ok None
               else case first_raw (req_attributes request) USER_NAME of
                 Err e \<Rightarrow> Err e
               | Ok None \<Rightarrow> Ok None
               | Ok (Some username_attr) \<Rightarrow>
                   Ok (Some \<lparr>v2_ident = response ! 0, v2_auth_challenge = challenge,
                     v2_peer_challenge = take 16 (drop MS_CHAP2_RESPONSE_PEER_OFFSET response),
                     v2_nt = take (MS_CHAP2_RESPONSE_LEN - MS_CHAP2_RESPONSE_NT_OFFSET)
                                (drop MS_CHAP2_RESPONSE_NT_OFFSET response),
                     v2_username = strip_domain (raw_value username_attr)\<rparr>)))"

definition v2_nt_response :: "crypto \<Rightarrow> bytes \<Rightarrow> bytes \<Rightarrow> bytes \<Rightarrow> ms_chap_secret \<Rightarrow> bytes" where
  "v2_nt_response C auth_challenge peer_challenge username password =
     (let challenge = challenge_hash C peer_challenge auth_challenge (strip_domain username)
      in ms_challenge_response C challenge (nt_hash C password))"

definition verify_v2 ::
    "crypto \<Rightarrow> server_request \<Rightarrow> ms_chap_secret \<Rightarrow> (attribute_error, verify_outcome) result" where
  "verify_v2 C request expected_password =
     (case extract_v2 request of
        Err e \<Rightarrow> Err e
      | Ok None \<Rightarrow> Ok Missing
      | Ok (Some parts) \<Rightarrow>
          let expected = v2_nt_response C (v2_auth_challenge parts) (v2_peer_challenge parts)
                           (v2_username parts) expected_password
          in Ok (if ct_eq C expected (v2_nt parts) then Match else Mismatch))"

text \<open>Two upper-case hexadecimal digits for each byte of the digest.\<close>

definition hex_byte :: "u8 \<Rightarrow> bytes" where
  "hex_byte b = [HEX_UPPER ! unat (drop_bit 4 b), HEX_UPPER ! unat (b AND 0x0F)]"

definition v2_authenticator_response ::
    "crypto \<Rightarrow> bytes \<Rightarrow> bytes \<Rightarrow> bytes \<Rightarrow> bytes \<Rightarrow> ms_chap_secret \<Rightarrow> bytes" where
  "v2_authenticator_response C auth_challenge peer_challenge nt_response username password =
     (let password_hash_hash = md4 C (nt_hash C password);
          digest1 = sha1 C (password_hash_hash @ nt_response @ MAGIC1);
          challenge = challenge_hash C peer_challenge auth_challenge (strip_domain username);
          digest2 = sha1 C (digest1 @ challenge @ MAGIC2)
      in map of_char ''S='' @ concat (map hex_byte digest2))"

definition v2_success_response ::
    "crypto \<Rightarrow> server_request \<Rightarrow> ms_chap_secret \<Rightarrow> (attribute_error, bytes option) result" where
  "v2_success_response C request expected_password =
     (case extract_v2 request of
        Err e \<Rightarrow> Err e
      | Ok None \<Rightarrow> Ok None
      | Ok (Some parts) \<Rightarrow>
          Ok (Some (v2_authenticator_response C (v2_auth_challenge parts) (v2_peer_challenge parts)
                      (v2_nt parts) (v2_username parts) expected_password)))"

section \<open>PAP decides what decryption decides\<close>

lemma pap_verify_decides:
  assumes "wf_crypto C"
  shows "pap_verify C r pw = Some (
    if 128 < length pw then Ok Malformed
    else case decrypt_user_password C r of
      Err (PapAttribute e) \<Rightarrow> Err e
    | Err PapMalformed \<Rightarrow> Ok Malformed
    | Ok None \<Rightarrow> Ok Missing
    | Ok (Some plain) \<Rightarrow>
        Ok (if plain = strip_nuls pw
              \<and> (case first_raw (req_attributes r) USER_PASSWORD of
                     Ok (Some raw) \<Rightarrow> length (raw_value raw) = 16 * user_blocks pw
                   | _ \<Rightarrow> False)
            then Match else Mismatch))"
proof (cases "128 < length pw")
  case True
  then show ?thesis by (simp add: pap_verify_def)
next
  case False
  then have len: "length pw \<le> 128" by simp
  let ?s = "client_secret (req_client r)" and ?a = "req_authenticator r"
  let ?fr = "first_raw (req_attributes r) USER_PASSWORD"
  consider (err) e where "?fr = Err e" | (none) "?fr = Ok None" | (some) raw where "?fr = Ok (Some raw)"
    by (metis result.exhaust option.exhaust)
  then show ?thesis
  proof cases
    case some
    let ?ct = "raw_value raw" and ?e = "enc_chain C ?s (user_blocks pw) ?a (user_padded pw)"
    have e: "user_password_encrypt C pw ?s ?a = Some ?e" by (rule user_password_encrypt_eq [OF len])
    note le = user_password_encrypt_length(1) [OF assms e]
    show ?thesis
    proof (cases "?ct = [] \<or> length ?ct mod 16 \<noteq> 0 \<or> length ?ct > 128")
      case True
      then have "user_password_decrypt C ?ct ?s ?a = Err InvalidLength" by (auto simp: user_password_decrypt_def)
      with True False some show ?thesis
        by (auto simp: pap_verify_def decrypt_user_password_def Let_def)
    next
      case ok: False
      then obtain plain where d: "user_password_decrypt C ?ct ?s ?a = Ok plain"
        using user_password_decrypt_eq [of ?ct C ?s ?a] by auto
      have "?e = ?ct \<longleftrightarrow> plain = strip_nuls pw" if "length ?ct = 16 * user_blocks pw"
        using user_password_encrypt_iff_decrypt [OF assms len that, of ?s ?a] d e by auto
      moreover have "?e \<noteq> ?ct" if "length ?ct \<noteq> 16 * user_blocks pw" using le that by auto
      ultimately show ?thesis
        using ok False some d e le assms
        by (auto simp: pap_verify_def decrypt_user_password_def Let_def)
    qed
  qed (use False in \<open>auto simp: pap_verify_def decrypt_user_password_def\<close>)
qed

text \<open>
  PAP verification never panics, and re-encrypting the expected password and comparing decides
  what decrypting and comparing would. An attribute walk that hits a malformed slot first is its
  error, a request without User-Password is \<open>Missing\<close>, a ciphertext that does not decrypt or an
  oversized expected password is \<open>Malformed\<close>; otherwise the outcome is \<open>Match\<close> exactly when the
  ciphertext has the padded size of the expected password and decrypts to it, up to trailing NULs.
\<close>

theorem pap_verify_exact:
  assumes "wf_crypto C"
  shows "pap_verify C r pw = Some (
    if 128 < length pw then Ok Malformed
    else case decrypt_user_password C r of
      Err (PapAttribute e) \<Rightarrow> Err e
    | Err PapMalformed \<Rightarrow> Ok Malformed
    | Ok None \<Rightarrow> Ok Missing
    | Ok (Some plain) \<Rightarrow>
        Ok (if plain = strip_nuls pw
              \<and> (case first_raw (req_attributes r) USER_PASSWORD of
                     Ok (Some raw) \<Rightarrow> length (raw_value raw) = 16 * user_blocks pw
                   | _ \<Rightarrow> False)
            then Match else Mismatch))"
  by (rule pap_verify_decides [OF assms])

text \<open>A login request used by the witnesses: password \<open>[65, 66]\<close> under the secret \<open>[5]\<close>.\<close>

definition demo_request :: "(u8 \<times> bytes) list \<Rightarrow> server_request" where
  "demo_request as = request_new ACCESS_REQUEST 7 (replicate 16 9) (encode_attrs as) (client_new 1 [5])
     (SocketV4 1 2) (SocketV4 3 4)"

lemma demo_request_sel [simp]:
  "req_attributes (demo_request as) = encode_attrs as" "req_authenticator (demo_request as) = replicate 16 9"
  "client_secret (req_client (demo_request as)) = [5]"
  by (simp_all add: demo_request_def request_new_def client_new_def)

theorem pap_verify_exact_witness:
  "pap_verify toy_crypto
     (demo_request [(1, [97]), (2, the (user_password_encrypt toy_crypto [65, 66] [5] (replicate 16 9)))]) [65, 66]
   = Some (Ok Match)"
proof -
  obtain ct where ct: "user_password_encrypt toy_crypto [65, 66] [5] (replicate 16 9) = Some ct"
    using user_password_encrypt_eq [of "[65, 66]"] by fastforce
  note L = user_password_encrypt_length [OF wf_toy_crypto ct]
  have "good_attrs [(1, [97]), (2, ct)]" using L(3) by simp
  from first_raw_encode_attrs [OF this, of 2]
  have f: "first_raw (encode_attrs [(1, [97]), (2, ct)]) 2 = Ok (Some (raw_of (2, ct)))" by simp
  have "user_password_decrypt toy_crypto ct [5] (replicate 16 9) = Ok (strip_nuls [65, 66])"
    by (rule user_password_round_trip [OF wf_toy_crypto ct])
  then have "decrypt_user_password toy_crypto (demo_request [(1, [97]), (2, ct)]) = Ok (Some (strip_nuls [65, 66]))"
    by (simp only: decrypt_user_password_def demo_request_sel f USER_PASSWORD_def) simp
  then show ?thesis
    unfolding ct option.sel pap_verify_exact [OF wf_toy_crypto]
    using L(1) by (simp only: demo_request_sel f USER_PASSWORD_def) simp
qed

section \<open>CHAP\<close>

lemma eap_md5_verify_iff:
  "wf_crypto C \<Longrightarrow> eap_md5_verify_response C i pw challenge resp \<longleftrightarrow> resp = md5 C (i # pw @ challenge)"
  by (auto simp: eap_md5_verify_response_def eap_md5_challenge_response_def md5_stream)

text \<open>
  CHAP verification of a well-formed request follows RFC 2865: no CHAP-Password is \<open>Missing\<close>, one
  that is not 17 bytes is \<open>Malformed\<close>, and otherwise the outcome is \<open>Match\<close> exactly when the 16 response
  bytes are the MD5 of the identifier byte, the expected password and the challenge, which is the
  first CHAP-Challenge attribute if the request has one and its authenticator if not.
\<close>

theorem chap_verify_exact:
  assumes "wf_crypto C" and "good_attrs as" and "req_attributes r = encode_attrs as"
  shows "chap_verify C r pw = Ok (
    case find (\<lambda>a. fst a = CHAP_PASSWORD) as of
      None \<Rightarrow> Missing
    | Some (_, v) \<Rightarrow>
        if length v \<noteq> 17 then Malformed
        else if tl v = md5 C (hd v # pw @ (case find (\<lambda>a. fst a = CHAP_CHALLENGE) as of
               Some (_, challenge) \<Rightarrow> challenge | None \<Rightarrow> req_authenticator r))
        then Match else Mismatch)"
proof -
  have f: "first_raw (req_attributes r) t = Ok (map_option raw_of (find (\<lambda>a. fst a = t) as))" for t
    unfolding assms(3) by (rule first_raw_encode_attrs [OF assms(2)])
  have h: "v ! 0 = hd v" if "length v = 17" for v :: bytes using that by (cases v) auto
  show ?thesis
    using assms(1)
    by (cases "find (\<lambda>a. fst a = CHAP_PASSWORD) as"; cases "find (\<lambda>a. fst a = CHAP_CHALLENGE) as")
      (auto simp: chap_verify_def f md5_stream Let_def drop_Suc h)
qed

theorem chap_verify_exact_witness:
  "chap_verify toy_crypto (demo_request [(3, 1 # replicate 16 (toy_sum (1 # [65, 66] @ replicate 16 9)))]) [65, 66] = Ok Match"
proof -
  let ?as = "[(3, 1 # replicate 16 (toy_sum (1 # [65, 66] @ replicate 16 9)))]"
  have "good_attrs ?as" by (simp add: good_attrs_def)
  from chap_verify_exact [OF wf_toy_crypto this demo_request_sel(1), of "[65, 66]"] show ?thesis
    by (simp only: demo_request_sel) (simp add: toy_crypto_def)
qed

section \<open>DES keys keep their 56 bits\<close>

lemma nat_or_disjoint:
  assumes "(b :: nat) < 2 ^ n"
  shows "push_bit n a OR b = a * 2 ^ n + b"
proof -
  have "take_bit n b = b" using assms by (simp add: take_bit_nat_eq_self_iff)
  then have "push_bit n a AND b = 0"
    by (metis (no_types, opaque_lifting) and.left_commute and_zero_eq take_bit_eq_mask take_bit_push_bit diff_self_eq_0 take_bit_0 push_bit_of_0 and.commute)
  then have "push_bit n a + b = push_bit n a OR b" by (rule disjunctive_add_eq_or)
  then show ?thesis by (simp add: push_bit_eq_mult)
qed

lemma bit_0xFE: "bit (0xFE :: 8 word) i \<longleftrightarrow> 1 \<le> i \<and> i < 8"
proof -
  have "bit (NOT 1 :: 8 word) i \<longleftrightarrow> 1 \<le> i \<and> i < 8" by (auto simp: bit_simps simp del: not_one_eq)
  moreover have "(NOT 1 :: 8 word) = 0xFE" by simp
  ultimately show ?thesis by metis
qed

lemma des_byte_word:
  fixes x y :: "8 word"
  assumes "1 \<le> j" and "j \<le> 7" and that: "\<And>i. bit m i \<longleftrightarrow> 1 \<le> i \<and> i < 8"
  shows "drop_bit 1 (push_bit j x OR (drop_bit (8 - j) y AND m)) 
    = push_bit (j - 1) (take_bit (8 - j) x) OR drop_bit (9 - j) y"
proof (rule bit_word_eqI)
  fix n assume n: "n < LENGTH(8)"
  have y: "bit y (9 + n - j) \<Longrightarrow> n < 7" using bit_imp_le_length [of y "9 + n - j"] assms(2) by simp
  have "8 - j + (1 + n) = 9 - j + n" "(1 + n) - j = n - (j - 1)" using assms by auto
  then show "bit (drop_bit 1 (push_bit j x OR (drop_bit (8 - j) y AND m))) n
    = bit (push_bit (j - 1) (take_bit (8 - j) x) OR drop_bit (9 - j) y) n"
    using assms n y by (auto simp: bit_simps that)
qed

lemma des_byte_unat:
  fixes x y :: "8 word"
  assumes "1 \<le> j" and "j \<le> 7"
  shows "unat (drop_bit 1 (push_bit j x OR (drop_bit (8 - j) y AND 0xFE)))
    = unat x mod 2 ^ (8 - j) * 2 ^ (j - 1) + unat y div 2 ^ (9 - j)"
proof -
  have "unat x mod 2 ^ (8 - j) * 2 ^ (j - 1) < 2 ^ (8 - j) * 2 ^ (j - 1)" by simp
  also have "\<dots> = 2 ^ 7" using assms by (simp flip: power_add)
  finally have "push_bit (j - 1) (take_bit (8 - j) (unat x)) < 2 ^ 8"
    by (simp add: push_bit_eq_mult take_bit_eq_mod)
  then have x: "unat (push_bit (j - 1) (take_bit (8 - j) x)) = push_bit (j - 1) (take_bit (8 - j) (unat x))"
    using assms by (simp only: unsigned_push_bit_eq unsigned_take_bit_eq) (simp add: take_bit_nat_eq_self)
  have "unat y < 2 ^ (9 - j) * 2 ^ (j - 1)" using assms unsigned_less [of y] by (simp flip: power_add)
  then have y: "unat y div 2 ^ (9 - j) < 2 ^ (j - 1)" by (simp add: less_mult_imp_div_less mult.commute)
  show ?thesis
    unfolding des_byte_word [OF assms bit_0xFE] unsigned_or_eq x
    using nat_or_disjoint [OF y, of "take_bit (8 - j) (unat x)"] unat_u8_less [of y]
    by (simp only: unsigned_drop_bit_eq) (simp add: drop_bit_eq_div take_bit_eq_mod)
qed

lemma des_byte_ends:
  fixes x :: "8 word"
  shows "unat (drop_bit 1 (x AND 0xFE)) = unat x div 2" "unat (drop_bit 1 (push_bit 1 x)) = unat x mod 128"
proof -
  have "drop_bit 1 (x AND m) = drop_bit 1 x" if "\<And>i. bit m i \<longleftrightarrow> 1 \<le> i \<and> i < 8" for m
    by (rule bit_word_eqI) (auto simp: bit_simps that dest: bit_imp_le_length)
  from this [OF bit_0xFE] show "unat (drop_bit 1 (x AND 0xFE)) = unat x div 2"
    using unat_u8_less [of x] by (simp only: unsigned_drop_bit_eq) (simp add: drop_bit_eq_div take_bit_eq_mod)
  have "drop_bit 1 (push_bit 1 x) = take_bit 7 x"
    by (rule bit_word_eqI) (auto simp: bit_simps simp del: push_bit_Suc push_bit_of_Suc_0 One_nat_def)
  then show "unat (drop_bit 1 (push_bit 1 x)) = unat x mod 128"
    by (simp only: unsigned_take_bit_eq) (simp add: take_bit_eq_mod)
qed

lemma seven_bit_groups:
  fixes k0 k1 k2 k3 k4 k5 k6 :: nat
  assumes "a0 * 2 + b0 = k0" and "a1 * 4 + b1 = k1" and "a2 * 8 + b2 = k2" and "a3 * 16 + b3 = k3"
    and "a4 * 32 + b4 = k4" and "a5 * 64 + b5 = k5" and "a6 * 128 + b6 = k6"
  shows "(((((((0 * 128 + a0) * 128 + (b0 * 64 + a1)) * 128 + (b1 * 32 + a2)) * 128 + (b2 * 16 + a3)) * 128
       + (b3 * 8 + a4)) * 128 + (b4 * 4 + a5)) * 128 + (b5 * 2 + a6)) * 128 + b6
    = ((((((0 * 256 + k0) * 256 + k1) * 256 + k2) * 256 + k3) * 256 + k4) * 256 + k5) * 256 + k6"
  using assms [symmetric] by simp

lemma expand_56_to_64_bits:
  assumes "length k = 7"
  shows "foldl (\<lambda>acc b. acc * 128 + unat (drop_bit 1 b)) 0 (expand_56_to_64 k) = from_be k"
proof -
  obtain k0 k1 k2 k3 k4 k5 k6 where k: "k = [k0, k1, k2, k3, k4, k5, k6]"
    using assms by (auto simp: length_Suc_conv eval_nat_numeral)
  have e: "map (\<lambda>b. unat (drop_bit 1 b)) (expand_56_to_64 k) =
    [unat k0 div 2, unat k0 mod 2 * 64 + unat k1 div 4, unat k1 mod 4 * 32 + unat k2 div 8,
     unat k2 mod 8 * 16 + unat k3 div 16, unat k3 mod 16 * 8 + unat k4 div 32, unat k4 mod 32 * 4 + unat k5 div 64,
     unat k5 mod 64 * 2 + unat k6 div 128, unat k6 mod 128]"
    unfolding k expand_56_to_64_def list.map
    using des_byte_unat [of 7 k0 k1] des_byte_unat [of 6 k1 k2] des_byte_unat [of 5 k2 k3] des_byte_unat [of 4 k3 k4]
      des_byte_unat [of 3 k4 k5] des_byte_unat [of 2 k5 k6] des_byte_unat [of 1 k6 0] des_byte_ends(1) [of k0] des_byte_ends(2) [of k6]
      des_byte_unat [of 1 k5 k6] by simp
  have "foldl (\<lambda>acc b. acc * 128 + unat (drop_bit 1 b)) 0 xs = foldl (\<lambda>acc b. acc * 128 + b) 0 (map (\<lambda>b. unat (drop_bit 1 b)) xs)"
    for xs :: "8 word list" by (simp add: foldl_map)
  then have "foldl (\<lambda>acc b. acc * 128 + unat (drop_bit 1 b)) 0 (expand_56_to_64 k) =
    foldl (\<lambda>acc b. acc * 128 + b) 0 (map (\<lambda>b. unat (drop_bit 1 b)) (expand_56_to_64 k))" .
  also have "\<dots> = from_be k"
    unfolding e foldl.simps unfolding k from_be_def foldl.simps
    by (rule seven_bit_groups) (simp_all only: div_mult_mod_eq)
  finally show ?thesis .
qed
section \<open>MS-CHAP\<close>

lemma strip_domain_idem [simp]: "strip_domain (strip_domain name) = strip_domain name"
proof (cases "rposition (\<lambda>b. b = 0x5C) name")
  case None
  then show ?thesis by (simp add: strip_domain_def)
next
  case (Some i)
  then have "\<forall>b\<in>set (drop (Suc i) name). b \<noteq> 0x5C"
    using rposition_Some_split by fastforce
  then have "rposition (\<lambda>b. b = 0x5C) (drop (Suc i) name) = None" by (simp only: rposition_None_iff)
  with Some show ?thesis by (simp add: strip_domain_def)
qed

lemma strip_domain_qualified:
  assumes "0x5C \<notin> set user"
  shows "strip_domain (domain @ 0x5C # user) = user" and "strip_domain user = user"
proof -
  have none: "rposition (\<lambda>b. b = 0x5C) user = None" using assms by (auto simp: rposition_None_iff)
  have "rposition p (xs @ x # ys) = Some (length xs)" if "p x" "rposition p ys = None"
    for p and xs ys :: bytes and x using that by (induction xs) auto
  from this [where p = "\<lambda>b. b = 0x5C" and xs = domain and x = "0x5C" and ys = user, OF refl none] show "strip_domain (domain @ 0x5C # user) = user"
    by (simp add: strip_domain_def)
  show "strip_domain user = user" using none by (simp add: strip_domain_def)
qed

lemma length_ms_challenge_response [simp]: "wf_crypto C \<Longrightarrow> length (ms_challenge_response C ch h) = 24"
  by (simp add: ms_challenge_response_def des_ecb_encrypt_def Let_def upt_rec)

lemma length_v2_nt_response [simp]: "wf_crypto C \<Longrightarrow> length (v2_nt_response C a p u s) = 24"
  by (simp add: v2_nt_response_def Let_def)

lemma length_v2_authenticator_response:
  assumes "wf_crypto C"
  shows "length (v2_authenticator_response C a p nt u s) = 42"
proof -
  have "length (concat (map hex_byte xs)) = 2 * length xs" for xs by (induction xs) (auto simp: hex_byte_def)
  then show ?thesis using assms by (simp add: v2_authenticator_response_def Let_def)
qed

text \<open>The attribute that carries Microsoft vendor data.\<close>

definition ms_attr :: "u8 \<Rightarrow> bytes \<Rightarrow> u8 \<times> bytes" where
  "ms_attr vt data = (26, u32_to_be 311 @ [vt, of_nat (length data + 2)] @ data)"

lemma ms_vsa_inner_ms_attr:
  assumes "length d \<le> 247"
  shows "ms_vsa_inner (raw_of (ms_attr t d)) vt = (if t = vt then Some d else None)"
  using assms unat_of_nat_u8_small [of "length d + 2"]
  by (simp add: ms_vsa_inner_def ms_attr_def slice_defs del: of_nat_add)

text \<open>A Microsoft attribute of a type.\<close>

definition ms_typed :: "u8 \<Rightarrow> u8 \<times> bytes \<Rightarrow> bool" where
  "ms_typed vt a \<longleftrightarrow> fst a = 26 \<and> 6 \<le> length (snd a) \<and> take 4 (snd a) = u32_to_be 311 \<and> snd a ! 4 = vt"

lemma ms_vsa_inner_untyped:
  assumes "\<not> ms_typed vt a"
  shows "ms_vsa_inner (raw_of a) vt = None"
proof (cases "fst a = 26 \<and> 6 \<le> length (snd a) \<and> u32_from_be (take 4 (snd a)) = 311")
  case True
  have "length (take 4 (snd a)) = 4" using True by simp
  from u32_to_from_be [OF this] have "take 4 (snd a) = u32_to_be 311" using True by simp
  then have "snd a ! 4 \<noteq> vt" using assms True by (simp add: ms_typed_def)
  then show ?thesis using True by (simp add: ms_vsa_inner_def slice_defs)
next
  case False
  then show ?thesis by (auto simp: ms_vsa_inner_def slice_defs)
qed

lemma first_ms_vsa_find:
  assumes "good_attrs as" and "req_attributes r = encode_attrs as" and "find (ms_typed vt) as = Some (ms_attr vt d)" and "length d \<le> 247"
  shows "first_ms_vsa r vt = Ok (Some d)"
proof -
  have "items (req_attributes r) = map (\<lambda>a. Ok (raw_of a)) as"
    using items_encode_attrs_append [OF assms(1), of "[]"] assms(2) by simp
  moreover have "first_ms_vsa_items (map (\<lambda>a. Ok (raw_of a)) as) vt = Ok (Some d)"
    using assms(3)
    by (induction as) (auto simp: ms_vsa_inner_untyped ms_vsa_inner_ms_attr [OF assms(4)] simp del: raw_attribute.simps split: if_splits)
  ultimately show ?thesis by (simp add: first_ms_vsa_def)
qed

lemma extract_v2_encode_attrs:
  assumes "good_attrs as" and "req_attributes r = encode_attrs as"
    and "find (ms_typed 11) as = Some (ms_attr 11 ac)" and "find (ms_typed 25) as = Some (ms_attr 25 (ident # flags # pc @ reserved @ nt))"
    and "find (\<lambda>a. fst a = 1) as = Some (1, user)"
    and "length ac = 16" and "length pc = 16" and "length reserved = 8" and "length nt = 24"
  shows "extract_v2 r = Ok (Some \<lparr>v2_ident = ident, v2_auth_challenge = ac, v2_peer_challenge = pc, v2_nt = nt,
    v2_username = strip_domain user\<rparr>)"
proof -
  have "first_ms_vsa r 11 = Ok (Some ac)" "first_ms_vsa r 25 = Ok (Some (ident # flags # pc @ reserved @ nt))"
    using first_ms_vsa_find [OF assms(1,2,3)] first_ms_vsa_find [OF assms(1,2,4)] assms(6-9) by simp_all
  moreover have "first_raw (req_attributes r) 1 = Ok (Some (raw_of (1, user)))"
    unfolding assms(2) first_raw_encode_attrs [OF assms(1)] assms(5) by simp
  ultimately show ?thesis using assms(6-9) by (simp add: extract_v2_def)
qed

subsection \<open>The formulas of RFC 2759\<close>

text \<open>
  Written over numbers, without the code's shifts and tables. Seven octets of a key are eight groups of seven
  bits, most significant first, each with a parity bit of zero behind it.
\<close>

definition rfc_des_key :: "bytes \<Rightarrow> bytes" where
  "rfc_des_key k = map (\<lambda>i. of_nat (2 * (from_be k div 128 ^ (7 - i) mod 128))) [0..<8]"

fun rfc_password_hash :: "crypto \<Rightarrow> ms_chap_secret \<Rightarrow> bytes" where
  "rfc_password_hash C (Cleartext p) = md4 C (utf16_le p)"
| "rfc_password_hash C (NtHash h) = h"

definition rfc_challenge_hash :: "crypto \<Rightarrow> bytes \<Rightarrow> bytes \<Rightarrow> bytes \<Rightarrow> bytes" where
  "rfc_challenge_hash C peer auth name = take 8 (sha1 C (peer @ auth @ name))"

definition rfc_nt_response :: "crypto \<Rightarrow> bytes \<Rightarrow> bytes \<Rightarrow> bytes \<Rightarrow> ms_chap_secret \<Rightarrow> bytes" where
  "rfc_nt_response C auth peer name pw =
     (let ch = rfc_challenge_hash C peer auth name; z = rfc_password_hash C pw @ [0, 0, 0, 0, 0]
      in des_ecb C (rfc_des_key (take 7 z)) ch @ des_ecb C (rfc_des_key (take 7 (drop 7 z))) ch @ des_ecb C (rfc_des_key (drop 14 z)) ch)"

definition rfc_hex :: "bytes \<Rightarrow> bytes" where
  "rfc_hex bs = concat (map (\<lambda>b. map (\<lambda>n. if n < 10 then 48 + of_nat n else 55 + of_nat n) [unat b div 16, unat b mod 16]) bs)"

definition rfc_authenticator_response :: "crypto \<Rightarrow> bytes \<Rightarrow> bytes \<Rightarrow> bytes \<Rightarrow> bytes \<Rightarrow> ms_chap_secret \<Rightarrow> bytes" where
  "rfc_authenticator_response C auth peer nt name pw =
     [83, 61] @ rfc_hex (sha1 C (sha1 C (md4 C (rfc_password_hash C pw) @ nt @ map of_char ''Magic server to client signing constant'')
       @ rfc_challenge_hash C peer auth name @ map of_char ''Pad to make it do more than one iteration''))"

lemma base_128_digit:
  "\<forall>d \<in> set ds. d < 128 \<Longrightarrow> i < length ds \<Longrightarrow>
     foldl (\<lambda>acc d. acc * 128 + d) 0 ds div 128 ^ (length ds - 1 - i) mod 128 = (ds ! i :: nat)"
proof (induction ds rule: rev_induct)
  case (snoc d ds)
  let ?N = "foldl (\<lambda>acc d. acc * 128 + d) 0 ds"
  have d: "d < 128" using snoc.prems(1) by simp
  show ?case
  proof (cases "i = length ds")
    case True
    then show ?thesis using d by simp
  next
    case False
    then have i: "i < length ds" using snoc.prems(2) by simp
    then have e: "length ds - i = Suc (length ds - 1 - i)" by simp
    have "(?N * 128 + d) div 128 = ?N" using d by simp
    then have "(?N * 128 + d) div 128 ^ (length ds - i) = ?N div 128 ^ (length ds - 1 - i)"
      unfolding e power_Suc by (simp only: div_mult2_eq)
    then show ?thesis using snoc.IH snoc.prems(1) i by (simp add: nth_append)
  qed
qed simp

lemma even_byte:
  fixes b :: u8
  assumes "even b"
  shows "b = of_nat (2 * unat (drop_bit 1 b))"
proof -
  have "2 * (b div 2) = b" using assms div_mult_mod_eq [of b 2] by (simp add: even_iff_mod_2_eq_zero mult.commute)
  moreover have "drop_bit 1 b = b div 2" by (simp add: drop_bit_eq_div)
  moreover have "of_nat (2 * unat x) = 2 * x" for x :: u8 by simp
  ultimately show ?thesis by metis
qed

lemma expand_56_to_64_parity: "b \<in> set (expand_56_to_64 k) \<Longrightarrow> even b"
  by (auto simp: expand_56_to_64_def even_or_iff even_and_iff even_push_bit_iff)

lemma expand_56_to_64_rfc:
  assumes "length k = 7"
  shows "expand_56_to_64 k = rfc_des_key k"
proof (rule nth_equalityI)
  show "length (expand_56_to_64 k) = length (rfc_des_key k)" by (simp add: expand_56_to_64_def rfc_des_key_def)
  fix i
  assume i: "i < length (expand_56_to_64 k)"
  let ?ds = "map (\<lambda>b. unat (drop_bit 1 b)) (expand_56_to_64 k)"
  have l: "length ?ds = 8" by (simp add: expand_56_to_64_def)
  have "unat (drop_bit 1 b) < 128" for b :: u8
    using unat_u8_less [of b] by (simp only: unsigned_drop_bit_eq) (simp add: drop_bit_eq_div take_bit_eq_mod)
  then have "foldl (\<lambda>acc d. acc * 128 + d) 0 ?ds div 128 ^ (length ?ds - 1 - i) mod 128 = ?ds ! i"
    using i by (intro base_128_digit) auto
  moreover have "foldl (\<lambda>acc d. acc * 128 + d) 0 ?ds = from_be k" using expand_56_to_64_bits [OF assms] by (simp add: foldl_map)
  ultimately have "from_be k div 128 ^ (7 - i) mod 128 = unat (drop_bit 1 (expand_56_to_64 k ! i))" using l i by simp
  moreover have "expand_56_to_64 k ! i = of_nat (2 * unat (drop_bit 1 (expand_56_to_64 k ! i)))"
    by (rule even_byte) (rule expand_56_to_64_parity [OF nth_mem [OF i]])
  ultimately show "expand_56_to_64 k ! i = rfc_des_key k ! i" using i l by (simp add: rfc_des_key_def)
qed

lemma hex_bytes_rfc: "concat (map hex_byte bs) = rfc_hex bs"
proof -
  have "\<forall>n \<in> set [0..<16]. HEX_UPPER ! n = (if n < 10 then 48 + of_nat n else 55 + of_nat n)" by code_simp
  then have d: "HEX_UPPER ! n = (if n < 10 then 48 + of_nat n else 55 + of_nat n)" if "n < 16" for n using that by auto
  have mask: "0x0F = (mask 4 :: u8)" by (simp add: mask_eq_exp_minus_1)
  have "unat (drop_bit 4 b) = unat b div 16" "unat (b AND 0x0F) = unat b mod 16" "unat b div 16 < 16" "unat b mod 16 < 16" for b :: u8
    using unat_u8_less [of b] unfolding mask
    by (simp_all only: unsigned_drop_bit_eq take_bit_eq_mask [symmetric] unsigned_take_bit_eq) (simp_all add: drop_bit_eq_div take_bit_eq_mod)
  then have "hex_byte b = map (\<lambda>n. if n < 10 then 48 + of_nat n else 55 + of_nat n) [unat b div 16, unat b mod 16]" for b
    using d by (simp add: hex_byte_def)
  then have "map hex_byte bs = map (\<lambda>b. map (\<lambda>n. if n < 10 then 48 + of_nat n else 55 + of_nat n) [unat b div 16, unat b mod 16]) bs"
    by (rule map_cong [OF refl])
  then show ?thesis unfolding rfc_hex_def by (rule arg_cong)
qed

text \<open>A stored NT hash has its 16 bytes.\<close>

fun sixteen_byte_hash :: "ms_chap_secret \<Rightarrow> bool" where
  "sixteen_byte_hash (Cleartext p) = True"
| "sixteen_byte_hash (NtHash h) = (length h = 16)"

lemma v2_formulas_rfc:
  assumes "wf_crypto C" and "sixteen_byte_hash pw" and "strip_domain user = name"
  shows "v2_nt_response C ac pc user pw = rfc_nt_response C ac pc name pw"
    and "v2_authenticator_response C ac pc nt user pw = rfc_authenticator_response C ac pc nt name pw"
proof -
  have h: "nt_hash C pw = rfc_password_hash C pw" by (cases pw) (simp_all add: nt_password_hash_def)
  have l: "length (rfc_password_hash C pw) = 16" using assms(1,2) by (cases pw) simp_all
  let ?z = "rfc_password_hash C pw @ replicate 5 0"
  have k: "length (take 7 ?z) = 7" "length (take 7 (drop 7 ?z)) = 7" "length (take 7 (drop 14 ?z)) = 7" using l by simp_all
  have three: "[0..<3] = [0, 1, 2]" "0 * 7 = (0 :: nat)" "1 * 7 = (7 :: nat)" "2 * 7 = (14 :: nat)" by (simp_all add: upt_rec)
  have z: "[0, 0, 0, 0, 0] = replicate 5 (0 :: u8)" by (simp add: eval_nat_numeral)
  have d: "take 7 (drop 14 ?z) = drop 14 ?z" using l by simp
  show "v2_nt_response C ac pc user pw = rfc_nt_response C ac pc name pw"
    unfolding v2_nt_response_def rfc_nt_response_def ms_challenge_response_def challenge_hash_def rfc_challenge_hash_def h assms(3) Let_def z three
      des_ecb_encrypt_def des_from_56bits_def
    by (simp only: list.map three drop_0 des_key.select_convs expand_56_to_64_rfc [OF k(1)] expand_56_to_64_rfc [OF k(2)]
        expand_56_to_64_rfc [OF k(3)] concat.simps append_Nil2) (simp only: d)
  show "v2_authenticator_response C ac pc nt user pw = rfc_authenticator_response C ac pc nt name pw"
    unfolding v2_authenticator_response_def rfc_authenticator_response_def challenge_hash_def rfc_challenge_hash_def h assms(3) Let_def
      hex_bytes_rfc MAGIC1_def MAGIC2_def by simp
qed

text \<open>
  C28: MS-CHAPv2 is mutual and computes what RFC 2759 says. Take a request whose first Microsoft challenge is of 16
  bytes and whose first MS-CHAP2-Response is of 50, among whatever other attributes and in either order, and
  whose first User-Name is a name with or without a domain before it. Verification is \<open>Match\<close> exactly
  when the NT response is that of RFC 2759 for the two challenges, the name without its domain and the
  password, and otherwise \<open>Mismatch\<close>; the success response is the 42 byte authenticator response of RFC 2759,
  which the peer computes from the same values to authenticate the server.
\<close>

theorem mschap_v2_agreement:
  assumes "wf_crypto C" and "sixteen_byte_hash pw" and "good_attrs as" and "req_attributes r = encode_attrs as"
    and "find (ms_typed 11) as = Some (ms_attr 11 ac)" and "find (ms_typed 25) as = Some (ms_attr 25 (ident # flags # pc @ reserved @ nt))"
    and "find (\<lambda>a. fst a = 1) as = Some (1, user)"
    and "length ac = 16" and "length pc = 16" and "length reserved = 8" and "length nt = 24"
    and "0x5C \<notin> set name" and "user = name \<or> (\<exists>domain. user = domain @ 0x5C # name)"
  shows "verify_v2 C r pw = Ok (if nt = rfc_nt_response C ac pc name pw then Match else Mismatch)
    \<and> v2_success_response C r pw = Ok (Some (rfc_authenticator_response C ac pc nt name pw))
    \<and> length (rfc_authenticator_response C ac pc nt name pw) = 42"
proof -
  note x = extract_v2_encode_attrs [OF assms(3-11)]
  have n: "strip_domain (strip_domain user) = name" using assms(12,13) strip_domain_qualified [OF assms(12)] by auto
  note f = v2_formulas_rfc [OF assms(1,2) n, of ac pc]
  show ?thesis
    using assms(1) length_v2_authenticator_response [OF assms(1), of ac pc nt "strip_domain user" pw]
    by (auto simp: verify_v2_def v2_success_response_def x f)
qed

theorem mschap_v2_agreement_witness:
  "\<exists>nt. length nt = 24 \<and> verify_v2 toy_crypto (demo_request
      [(1, [68, 0x5C, 97]), (26, [0, 0, 0, 9, 1, 2]), ms_attr 25 (7 # 0 # replicate 16 4 @ replicate 8 0 @ nt), ms_attr 11 (replicate 16 3)])
      (Cleartext [65]) = Ok Match"
proof -
  let ?nt = "rfc_nt_response toy_crypto (replicate 16 3) (replicate 16 4) [97] (Cleartext [65])"
  let ?as = "[(1, [68, 0x5C, 97]), (26, [0, 0, 0, 9, 1, 2]), ms_attr 25 (7 # 0 # replicate 16 4 @ replicate 8 0 @ ?nt), ms_attr 11 (replicate 16 3)]"
  have len: "length ?nt = 24" by (simp add: rfc_nt_response_def Let_def)
  have g: "good_attrs ?as" using len by (simp add: good_attrs_def ms_attr_def)
  have t: "ms_typed vt (ms_attr vt' d) \<longleftrightarrow> vt = vt'" for vt vt' d by (auto simp: ms_typed_def ms_attr_def nth_append)
  have pen: "u32_to_be 311 = [0, 0, 1, 55]" by code_simp
  have o: "\<not> ms_typed vt (26, [0, 0, 0, 9, 1, 2])" "\<not> ms_typed vt (1, v)" for vt v by (simp_all add: ms_typed_def pen)
  have f: "find (ms_typed 11) ?as = Some (ms_attr 11 (replicate 16 3))"
    "find (ms_typed 25) ?as = Some (ms_attr 25 (7 # 0 # replicate 16 4 @ replicate 8 0 @ ?nt))" by (simp_all add: t o)
  have u: "find (\<lambda>a. fst a = 1) ?as = Some (1, [68, 0x5C, 97])" by simp
  have n: "0x5C \<notin> set [97 :: u8]" "[68, 0x5C, 97] = [97 :: u8] \<or> (\<exists>domain. [68, 0x5C, 97 :: u8] = domain @ 0x5C # [97])"
    by (simp, rule disjI2, rule exI [of _ "[68]"]) simp
  from mschap_v2_agreement [OF wf_toy_crypto _ g demo_request_sel(1) f u _ _ _ len n, of "Cleartext [65]"] len
  show ?thesis by (intro exI [of _ ?nt]) simp
qed

text \<open>
  Two passwords with the same NT hash are the same password or exhibit a collision of MD4: the
  UTF-16LE form loses nothing, also outside the basic plane.
\<close>

lemma nt_password_hash_collision:
  assumes "utf8_valid p" and "utf8_valid q" and "nt_password_hash C p = nt_password_hash C q"
  shows "p = q \<or> (utf16_le p \<noteq> utf16_le q \<and> md4 C (utf16_le p) = md4 C (utf16_le q))"
  using utf16_le_inject [OF assms(1,2)] assms(3) by (auto simp: nt_password_hash_def)

end
