(* ===== verification/Eap_Md5.thy ===== *)
theory Eap_Md5
  imports Eap_Conversation Auth_Methods
begin

text \<open>
  \<^verbatim>\<open>crates/radius-tokio-eap/src/eap_md5.rs\<close>: the EAP-MD5 method. Credentials are application code, a
  function of the outer attributes and the user name. The theorem composes the method with the
  EAP handler: over every history of rounds, acceptance means that the peer knew the password.
\<close>

section \<open>The method\<close>

type_synonym md5_credentials = "bytes \<Rightarrow> bytes \<Rightarrow> bytes option"

record static_credentials =
  sc_username :: bytes
  sc_password :: bytes

definition static_cleartext :: "bytes \<Rightarrow> bytes \<Rightarrow> static_credentials" where
  "static_cleartext u p = \<lparr>sc_username = u, sc_password = p\<rparr>"

definition static_lookup :: "static_credentials \<Rightarrow> md5_credentials" where
  "static_lookup sc outer u = (if u = sc_username sc then Some (sc_password sc) else None)"

datatype md5_state =
    Md5Init
  | Md5AwaitingResponse (md5_challenge: bytes) (md5_request_id: "u8 option")

record eap_md5 =
  md5_username :: bytes
  md5_state :: md5_state

definition eap_md5_new :: eap_md5 where
  "eap_md5_new = \<lparr>md5_username = [], md5_state = Md5Init\<rparr>"

definition MD5_RESPONSE_LEN :: nat where [simp]: "MD5_RESPONSE_LEN = 16"

definition build_md5_challenge :: "bytes \<Rightarrow> bytes" where
  "build_md5_challenge challenge = of_nat MD5_RESPONSE_LEN # challenge"

definition parse_md5_response :: "bytes \<Rightarrow> bytes option" where
  "parse_md5_response body =
     (if length body < 1 + MD5_RESPONSE_LEN then None
      else if body ! 0 \<noteq> of_nat MD5_RESPONSE_LEN then None
      else Some (take MD5_RESPONSE_LEN (drop 1 body)))"

definition md5_notify_peer_identity :: "bytes \<Rightarrow> eap_md5 \<Rightarrow> eap_md5" where
  "md5_notify_peer_identity identity m = (if md5_username m = [] then m\<lparr>md5_username := identity\<rparr> else m)"

definition md5_notify_request_id :: "u8 \<Rightarrow> eap_md5 \<Rightarrow> eap_md5" where
  "md5_notify_request_id i m =
     (case md5_state m of
        Md5AwaitingResponse ch _ \<Rightarrow> m\<lparr>md5_state := Md5AwaitingResponse ch (Some i)\<rparr>
      | Md5Init \<Rightarrow> m)"

definition md5_start :: "bytes \<Rightarrow> bytes \<Rightarrow> eap_md5 \<Rightarrow> eap_md5 method_call" where
  "md5_start rnd outer m =
     (case md5_state m of
        Md5AwaitingResponse _ _ \<Rightarrow> Some (m, Err (Framing ''EAP-MD5 start called after start''))
      | Md5Init \<Rightarrow>
          let challenge = take MD5_RESPONSE_LEN rnd
          in Some (m\<lparr>md5_state := Md5AwaitingResponse challenge None\<rparr>, Ok (MContinue (build_md5_challenge challenge))))"

definition md5_step :: "crypto \<Rightarrow> md5_credentials \<Rightarrow> bytes \<Rightarrow> bytes \<Rightarrow> bytes \<Rightarrow> eap_md5 \<Rightarrow> eap_md5 method_call" where
  "md5_step C creds rnd peer_type_data outer m =
     Some (m,
       case md5_state m of
         Md5Init \<Rightarrow> Err (Framing ''EAP-MD5 step called before start'')
       | Md5AwaitingResponse challenge request_id \<Rightarrow>
           (case request_id of
              None \<Rightarrow> Err (Framing ''EAP-MD5 missing request id'')
            | Some i \<Rightarrow>
                (case parse_md5_response peer_type_data of
                   None \<Rightarrow> Err (Framing ''EAP-MD5 response malformed'')
                 | Some response \<Rightarrow>
                     (case creds outer (md5_username m) of
                        None \<Rightarrow> Ok MFailure
                      | Some password \<Rightarrow>
                          Ok (if eap_md5_verify_response C i password challenge response then MSuccess [] [] else MFailure)))))"

definition eap_md5_ops :: "crypto \<Rightarrow> md5_credentials \<Rightarrow> eap_md5 method_ops" where
  "eap_md5_ops C creds =
     \<lparr>m_typ = (\<lambda>_. MD5_CHALLENGE), m_start = md5_start, m_notify_peer_identity = md5_notify_peer_identity,
      m_authenticated_identity = (\<lambda>m. Some (md5_username m)), m_notify_request_id = md5_notify_request_id,
      m_step = md5_step C creds\<rparr>"

definition eap_md5_create :: "(eap_error, eap_md5) result" where
  "eap_md5_create = Ok eap_md5_new"

interpretation md5_method: stable_method "eap_md5_ops C creds" for C creds
  by unfold_locales (simp_all add: eap_md5_ops_def)

section \<open>Responses\<close>

lemma prefixed_block_iff:
  "(n < length xs \<and> xs ! 0 = c \<and> ys = take n (drop 1 xs)) \<longleftrightarrow> length ys = n \<and> (\<exists>rest. xs = c # ys @ rest)"
proof (cases xs)
  case (Cons x zs)
  have "(n \<le> length zs \<and> ys = take n zs) \<longleftrightarrow> length ys = n \<and> (\<exists>rest. zs = ys @ rest)"
    by (metis append_eq_conv_conj append_take_drop_id le_add1 length_append length_take min.absorb2)
  then show ?thesis using Cons by auto
qed simp

lemma parse_md5_response_iff:
  "parse_md5_response body = Some resp \<longleftrightarrow> length resp = 16 \<and> (\<exists>rest. body = 16 # resp @ rest)"
proof -
  have sixteen: "of_nat MD5_RESPONSE_LEN = (16 :: u8)" by simp
  have "parse_md5_response body = Some resp \<longleftrightarrow>
      MD5_RESPONSE_LEN < length body \<and> body ! 0 = 16 \<and> resp = take MD5_RESPONSE_LEN (drop 1 body)"
    unfolding parse_md5_response_def sixteen by (auto simp del: MD5_RESPONSE_LEN_def)
  then show ?thesis using prefixed_block_iff [of MD5_RESPONSE_LEN body 16 resp] by (simp only: MD5_RESPONSE_LEN_def)
qed

lemma md5_step_success:
  assumes "wf_crypto C" and "md5_step C creds rnd data outer m = Some (m', Ok (MSuccess k e))"
  shows "\<exists>ch i pw rest. md5_state m = Md5AwaitingResponse ch (Some i) \<and> creds outer (md5_username m) = Some pw
    \<and> data = 16 # md5 C (i # pw @ ch) @ rest \<and> m' = m \<and> k = []"
proof -
  note step = assms(2) [unfolded md5_step_def]
  obtain ch r where st: "md5_state m = Md5AwaitingResponse ch r" using step by (cases "md5_state m") simp_all
  note step = step [unfolded st md5_state.case]
  obtain i where i: "r = Some i" using step by (cases r) simp_all
  note step = step [unfolded i option.case]
  obtain resp where resp: "parse_md5_response data = Some resp" using step by (cases "parse_md5_response data") simp_all
  note step = step [unfolded resp option.case]
  obtain pw where pw: "creds outer (md5_username m) = Some pw"
    using step by (cases "creds outer (md5_username m)") simp_all
  note step = step [unfolded pw option.case]
  have v: "eap_md5_verify_response C i pw ch resp" "m' = m" "k = []" using step by (simp_all split: if_splits)
  from v(1) have "resp = md5 C (i # pw @ ch)" by (simp only: eap_md5_verify_iff [OF assms(1)])
  with resp obtain rest where "data = 16 # md5 C (i # pw @ ch) @ rest" by (simp only: parse_md5_response_iff) blast
  then show ?thesis using st i pw v by blast
qed

section \<open>Conversations\<close>

lemma md5_step_no_continue: "md5_step C creds rnd data outer m \<noteq> Some (m', Ok (MContinue pl))"
  by (auto simp: md5_step_def split: md5_state.splits option.splits)

text \<open>An EAP-MD5 conversation has one request: the challenge.\<close>

lemma md5_conversation:
  assumes "conversation (eap_md5_ops C creds) eap_md5_create es m"
  obtains identity rnd outer i sid where "es = [EapStarted identity rnd outer (16 # take 16 rnd) i sid]"
    "m = \<lparr>md5_username = (case identity of Some u \<Rightarrow> u | None \<Rightarrow> []), md5_state = Md5AwaitingResponse (take 16 rnd) (Some i)\<rparr>"
  using assms
proof (cases rule: conversation.cases)
  case (conv_start m0 rnd outer identity m' pl i sid)
  then show ?thesis
    by (intro that [of identity rnd outer i sid])
      (auto simp: eap_md5_ops_def eap_md5_create_def eap_md5_new_def notified_def md5_start_def md5_notify_peer_identity_def
        md5_notify_request_id_def build_md5_challenge_def Let_def split: option.splits)
next
  case (conv_step es m rnd data outer m' pl i sid)
  then show ?thesis using md5_step_no_continue by (auto simp: eap_md5_ops_def)
qed

text \<open>
  EAP-MD5 cannot be bypassed. Whatever sequence of rounds a fresh EAP-MD5 handler has served, a round
  ends in acceptance only if the request's State is that of a challenge the handler sent earlier for
  this user, and the response carries the MD5 of that request's identifier, the password the
  credentials give for the user, and the random challenge; the identity accepted is the user to whom
  the challenge was sent, no keys are derived, and the State is spent.
\<close>

theorem eap_md5_no_bypass:
  assumes "wf_crypto C" and "store_with_limits timeout capacity = Some st0"
    and "eap_history (eap_md5_ops C creds) eap_md5_create st0 rounds = Some (store, log)"
    and "eap_dispatch_round (eap_md5_ops C creds) eap_md5_create env store existing buf un outer
      = Some (store', Ok (DispAccept i k peer t))"
  shows "\<exists>identity rnd o0 rid sid u pw rest.
    EapStarted identity rnd o0 (16 # take 16 rnd) rid sid \<in> set log \<and> existing = Some sid
    \<and> u = (case identity of Some u \<Rightarrow> u | None \<Rightarrow> []) \<and> creds outer u = Some pw
    \<and> eap_parse buf = Ok \<lparr>eap_code = EAP_RESPONSE, eap_identifier = i,
        eap_payload = 4 # 16 # md5 C (rid # pw @ take 16 rnd) @ rest\<rparr>
    \<and> peer = Some u \<and> k = [] \<and> stored_at store' sid = None"
  using assms(2-4)
proof (cases rule: accepted_cases)
  case (identity pkt m0 m e)
  then show ?thesis by (auto simp: eap_md5_ops_def md5_start_def Let_def split: md5_state.splits)
next
  case (session pkt es m0 m e)
  from session(3) show ?thesis
  proof (cases rule: md5_conversation)
    case (1 identity rnd o0 rid sid)
    from md5_step_success [OF assms(1), of creds "env_rnd env" "eap_type_data pkt" outer m0 m k e] session(7) 1(2)
    obtain pw rest where st: "creds outer (md5_username m0) = Some pw"
      "eap_type_data pkt = 16 # md5 C (rid # pw @ take 16 rnd) @ rest" "m = m0" "k = []" by (auto simp: eap_md5_ops_def)
    have "eap_payload pkt = 4 # eap_type_data pkt"
      using session(6) by (cases "eap_payload pkt") (auto simp: eap_typ_def eap_type_data_def eap_md5_ops_def)
    then have "pkt = \<lparr>eap_code = EAP_RESPONSE, eap_identifier = i, eap_payload = 4 # 16 # md5 C (rid # pw @ take 16 rnd) @ rest\<rparr>"
      using session(2,9) st(2) by (cases pkt) simp
    then have parsed: "eap_parse buf = Ok \<lparr>eap_code = EAP_RESPONSE, eap_identifier = i,
        eap_payload = 4 # 16 # md5 C (rid # pw @ take 16 rnd) @ rest\<rparr>" using session(1) by simp
    have logged: "EapStarted identity rnd o0 (16 # take 16 rnd) rid sid \<in> set log"
      using session(4) 1(1) by (simp only: subseq_singleton_left)
    have state: "existing = Some sid" "stored_at store' sid = None" using session(5,10) 1(1) by simp_all
    have user: "md5_username m0 = (case identity of Some u \<Rightarrow> u | None \<Rightarrow> [])" using 1(2) by simp
    have peer: "peer = Some (md5_username m0)" using session(8) st(3) by (simp add: eap_md5_ops_def)
    show ?thesis using logged state user peer parsed st(1,4) by blast
  qed
qed

section \<open>A login\<close>

definition demo_md5_credentials :: md5_credentials where
  "demo_md5_credentials = static_lookup (static_cleartext [97] [42])"

definition demo_md5_answer :: bytes where
  "demo_md5_answer = [2, 1, 0, 22, 4, 16] @ md5 toy_crypto (1 # [42] @ replicate 16 8)"

lemma demo_md5_answer_parse:
  "eap_parse demo_md5_answer = Ok \<lparr>eap_code = EAP_RESPONSE, eap_identifier = 1,
     eap_payload = 4 # 16 # md5 toy_crypto (1 # [42] @ replicate 16 8)\<rparr>"
proof -
  define d where "d = md5 toy_crypto (1 # [42] @ replicate 16 8)"
  have "length d = 16" by (simp add: d_def toy_crypto_def)
  then show ?thesis unfolding demo_md5_answer_def d_def [symmetric]
    by (simp add: eap_parse_def u16_from_be_eq)
qed

definition demo_md5_session :: "eap_md5 session" where
  "demo_md5_session = (session_new \<lparr>md5_username = [97], md5_state = Md5AwaitingResponse (replicate 16 8) (Some 1)\<rparr>)
     \<lparr>peer_identity := Some [97], next_eap_id := 2\<rparr>"

lemma demo_md5_challenged:
  "eap_dispatch_round (eap_md5_ops toy_crypto demo_md5_credentials) eap_md5_create demo_env demo_store None demo_identity None []
     = Some (session_insert 6 (replicate 16 3) demo_md5_session demo_store,
         Ok (DispChallenge (16 # replicate 16 8) 1 MD5_CHALLENGE (replicate 16 3)))"
  by (simp add: eap_dispatch_round_def demo_identity_parse eap_typ_def eap_type_data_def eap_md5_create_def
      resolve_peer_identity_def start_session_def eap_md5_ops_def md5_notify_peer_identity_def eap_md5_new_def md5_start_def
      commit_outcome_continue issued_id_def session_new_def demo_env_def md5_notify_request_id_def demo_md5_session_def
      build_md5_challenge_def Let_def)

lemma demo_md5_accepted:
  "\<exists>store'. eap_dispatch_round (eap_md5_ops toy_crypto demo_md5_credentials) eap_md5_create demo_env
      (session_insert 6 (replicate 16 3) demo_md5_session demo_store) (Some (replicate 16 3)) demo_md5_answer None []
    = Some (store', Ok (DispAccept 1 [] (Some [97]) MD5_CHALLENGE))"
proof -
  define d where "d = md5 toy_crypto (1 # [42] @ replicate 16 8)"
  define st where "st = session_insert 6 (replicate 16 3) demo_md5_session demo_store"
  have "stored_at st (replicate 16 3) = Some (demo_md5_session, 16)"
    by (simp add: st_def stored_at_insert demo_store_def)
  then obtain st1 where t: "session_take 5 (replicate 16 3) st = (st1, Some demo_md5_session)"
    by (auto simp: stored_at_def session_take_def st_remove_def)
  have p: "eap_parse demo_md5_answer = Ok \<lparr>eap_code = EAP_RESPONSE, eap_identifier = 1, eap_payload = 4 # 16 # d\<rparr>"
    unfolding d_def by (rule demo_md5_answer_parse)
  have d: "parse_md5_response (16 # d) = Some d" by (simp add: parse_md5_response_iff d_def toy_crypto_def)
  have v: "eap_md5_verify_response toy_crypto 1 [42] (replicate 16 8) d"
    by (simp only: eap_md5_verify_iff wf_toy_crypto) (simp add: d_def)
  have m: "md5_step toy_crypto demo_md5_credentials (env_rnd demo_env) (16 # d) [] (session_method demo_md5_session)
      = Some (session_method demo_md5_session, Ok (MSuccess [] []))"
    using d v by (simp add: md5_step_def demo_md5_session_def session_new_def demo_md5_credentials_def
        static_lookup_def static_cleartext_def)
  show ?thesis unfolding st_def [symmetric] using p t m
    by (simp add: eap_dispatch_round_def eap_typ_def eap_type_data_def demo_env_def eap_md5_ops_def continue_session_def
        commit_outcome_def demo_md5_session_def session_new_def)
qed

theorem eap_md5_no_bypass_witness:
  "\<exists>store store' hist. eap_history (eap_md5_ops toy_crypto demo_md5_credentials) eap_md5_create demo_store
      [(demo_env, None, demo_identity, None, [])] = Some (store, hist)
    \<and> eap_dispatch_round (eap_md5_ops toy_crypto demo_md5_credentials) eap_md5_create demo_env store
        (Some (replicate 16 3)) demo_md5_answer None [] = Some (store', Ok (DispAccept 1 [] (Some [97]) MD5_CHALLENGE))
    \<and> stored_at store' (replicate 16 3) = None"
proof -
  define st where "st = session_insert 6 (replicate 16 3) demo_md5_session demo_store"
  have rnd: "env_rnd demo_env = replicate 16 8" by (simp add: demo_env_def)
  have h: "eap_history (eap_md5_ops toy_crypto demo_md5_credentials) eap_md5_create demo_store
      [(demo_env, None, demo_identity, None, [])]
      = Some (st, [EapStarted (Some [97]) (replicate 16 8) [] (16 # replicate 16 8) 1 (replicate 16 3)])"
    using rnd by (simp add: demo_md5_challenged st_def demo_identity_parse eap_typ_def eap_type_data_def resolve_peer_identity_def)
  obtain store' where a: "eap_dispatch_round (eap_md5_ops toy_crypto demo_md5_credentials) eap_md5_create demo_env st
      (Some (replicate 16 3)) demo_md5_answer None [] = Some (store', Ok (DispAccept 1 [] (Some [97]) MD5_CHALLENGE))"
    using demo_md5_accepted unfolding st_def by blast
  have "stored_at store' (replicate 16 3) = None"
    using eap_md5_no_bypass [OF wf_toy_crypto demo_store_new h a] by blast
  then show ?thesis using h a by blast
qed

end
