(* ===== verification/Tls_Tunnel.thy ===== *)
theory Tls_Tunnel
  imports Tls
begin

text \<open>
  \<^verbatim>\<open>crates/radius-tokio-eap/src/tls_tunnel.rs\<close>: TLS records carried in EAP frames. The loops that empty the
  engine are \<open>while_option\<close>, so a loop that does not end has no result; \<open>tls_engine\<close> says what the
  engine promises, and the lemmas show that the loops end and what they deliver.
\<close>

section \<open>The tunnel\<close>

definition DEFAULT_FRAME_MTU :: nat where [simp]: "DEFAULT_FRAME_MTU = 1020"
definition MSK_LEN :: nat where [simp]: "MSK_LEN = 64"
definition EMSK_LEN :: nat where [simp]: "EMSK_LEN = 64"

record ('ctx, 'ssl) tls_tunnel =
  tun_tls :: "('ctx, 'ssl) tls_connection"
  tun_reassembler :: reassembler
  tun_pending_tx :: bytes
  tun_tx_offset :: nat
  tun_frame_mtu :: nat
  tun_handshake_done :: bool

definition tls_err :: "(tls_error, 'a) result \<Rightarrow> (eap_error, 'a) result" where
  "tls_err = map_err (\<lambda>e. TlsError (tls_error_string e))"

definition tunnel_new ::
    "('ctx, 'ssl) libssl \<Rightarrow> 'ctx tls_context \<Rightarrow> nat \<Rightarrow> (eap_error, ('ctx, 'ssl) tls_tunnel) result" where
  "tunnel_new L ctx mtu =
     (case tls_err (tls_accept L ctx) of
        Err e \<Rightarrow> Err e
      | Ok tls \<Rightarrow>
          Ok \<lparr>tun_tls = tls, tun_reassembler = re_new, tun_pending_tx = [], tun_tx_offset = 0, tun_frame_mtu = mtu,
              tun_handshake_done = False\<rparr>)"

text \<open>\<open>None\<close> is the panic of the assertion.\<close>

definition set_frame_mtu :: "nat \<Rightarrow> ('ctx, 'ssl) tls_tunnel \<Rightarrow> ('ctx, 'ssl) tls_tunnel option" where
  "set_frame_mtu mtu t = (if mtu > 0 then Some (t\<lparr>tun_frame_mtu := mtu\<rparr>) else None)"

type_synonym ('ctx, 'ssl, 'a) tunnel_call = "(('ctx, 'ssl) tls_tunnel \<times> (eap_error, 'a) result) option"

definition ingest_peer_frame :: "bytes \<Rightarrow> ('ctx, 'ssl) tls_tunnel \<Rightarrow> ('ctx, 'ssl, bytes option) tunnel_call" where
  "ingest_peer_frame peer_type_data t =
     (if peer_type_data = [] then Some (t, Ok None)
      else case frame_parse peer_type_data of
        Err e \<Rightarrow> Some (t, Err e)
      | Ok fr \<Rightarrow>
          Option.bind (push (tun_reassembler t) fr) (\<lambda>(r, res).
            case res of
              Err e \<Rightarrow> Some (t\<lparr>tun_reassembler := r\<rparr>, Err e)
            | Ok complete \<Rightarrow>
                if complete then
                  (case re_take r of (r, bs) \<Rightarrow> Some (t\<lparr>tun_reassembler := re_reset r\<rparr>, Ok (Some bs)))
                else Some (t\<lparr>tun_reassembler := r\<rparr>, Ok None)))"

definition feed_tls :: "('ctx, 'ssl) libssl \<Rightarrow> bytes \<Rightarrow> ('ctx, 'ssl) tls_tunnel \<Rightarrow> ('ctx, 'ssl) tls_tunnel \<times> (eap_error, unit) result" where
  "feed_tls L bs t =
     (if bs = [] then (t, Ok ())
      else case feed_input L bs (tun_tls t) of
        (tls, r) \<Rightarrow> (t\<lparr>tun_tls := tls\<rparr>, and_then (tls_err r) (\<lambda>_. Ok ())))"

definition drive_handshake :: "('ctx, 'ssl) libssl \<Rightarrow> ('ctx, 'ssl) tls_tunnel \<Rightarrow> ('ctx, 'ssl) tls_tunnel \<times> (eap_error, bool) result" where
  "drive_handshake L t =
     (if tun_handshake_done t then (t, Ok False)
      else case tls_process L (tun_tls t) of
        (tls, r) \<Rightarrow>
          (case tls_err r of
             Err e \<Rightarrow> (t\<lparr>tun_tls := tls\<rparr>, Err e)
           | Ok Established \<Rightarrow> (t\<lparr>tun_tls := tls, tun_handshake_done := True\<rparr>, Ok True)
           | Ok _ \<Rightarrow> (t\<lparr>tun_tls := tls\<rparr>, Ok False)))"

text \<open>The state of a loop: the connection, the bytes collected, and the result once it is known.\<close>

definition drain_decrypted ::
    "('ctx, 'ssl) libssl \<Rightarrow> ('ctx, 'ssl) tls_tunnel \<Rightarrow> bytes
      \<Rightarrow> (('ctx, 'ssl) tls_tunnel \<times> bytes \<times> (eap_error, unit) result) option" where
  "drain_decrypted L t out =
     map_option (\<lambda>(c, out, r). (t\<lparr>tun_tls := c\<rparr>, out, the r))
       (while_option (\<lambda>(c, out, r). r = None)
          (\<lambda>(c, out, r).
             case tls_read L 4096 c of
               (c, Err e) \<Rightarrow> (c, out, Some (Err (TlsError (tls_error_string e))))
             | (c, Ok d) \<Rightarrow> if d = [] then (c, out, Some (Ok ())) else (c, out @ d, None))
          (tun_tls t, out, None))"

function write_app_data ::
    "('ctx, 'ssl) libssl \<Rightarrow> bytes \<Rightarrow> ('ctx, 'ssl) tls_tunnel \<Rightarrow> ('ctx, 'ssl) tls_tunnel \<times> (eap_error, unit) result" where
  "write_app_data L plaintext t =
     (if plaintext = [] then (t, Ok ())
      else case tls_write L plaintext (tun_tls t) of
        (tls, Err e) \<Rightarrow> (t\<lparr>tun_tls := tls\<rparr>, Err (TlsError (tls_error_string e)))
      | (tls, Ok n) \<Rightarrow>
          if n = 0
          then (t\<lparr>tun_tls := tls\<rparr>, Err (TlsError ''SSL_write returned WANT_*; tunnel cannot make progress''))
          else write_app_data L (drop n plaintext) (t\<lparr>tun_tls := tls\<rparr>))"
  by pat_completeness auto
termination
  by (relation "measure (\<lambda>(L, plaintext, t). length plaintext)") auto

declare write_app_data.simps [simp del]

definition write_tls13_commitment ::
    "('ctx, 'ssl) libssl \<Rightarrow> ('ctx, 'ssl) tls_tunnel \<Rightarrow> ('ctx, 'ssl) tls_tunnel \<times> (eap_error, unit) result" where
  "write_tls13_commitment L t =
     (case tls_write L [0] (tun_tls t) of
        (tls, r) \<Rightarrow> (t\<lparr>tun_tls := tls\<rparr>, and_then (tls_err r) (\<lambda>_. Ok ())))"

definition refill_pending_tx :: "('ctx, 'ssl) libssl \<Rightarrow> ('ctx, 'ssl) tls_tunnel \<Rightarrow> ('ctx, 'ssl, unit) tunnel_call" where
  "refill_pending_tx L t =
     map_option (\<lambda>(c, pending, r).
         (case the r of
            Err e \<Rightarrow> (t\<lparr>tun_tls := c, tun_pending_tx := pending\<rparr>, Err e)
          | Ok _ \<Rightarrow> (t\<lparr>tun_tls := c, tun_pending_tx := pending, tun_tx_offset := 0\<rparr>, Ok ())))
       (while_option (\<lambda>(c, pending, r). r = None)
          (\<lambda>(c, pending, r).
             let chunk = pending_output L c
             in if chunk = [] then (c, pending, Some (Ok ()))
                else case consume_output L c of
                  (c, Err e) \<Rightarrow> (c, pending @ chunk, Some (Err (TlsError (tls_error_string e))))
                | (c, Ok _) \<Rightarrow> (c, pending @ chunk, None))
          (tun_tls t, tun_pending_tx t, None))"

definition has_pending_tx :: "('ctx, 'ssl) tls_tunnel \<Rightarrow> bool" where
  "has_pending_tx t \<longleftrightarrow> tun_tx_offset t < length (tun_pending_tx t)"

definition emit_next_outbound_fragment :: "('ctx, 'ssl) tls_tunnel \<Rightarrow> ('ctx, 'ssl) tls_tunnel \<times> bytes" where
  "emit_next_outbound_fragment t =
     (let total_remaining = length (tun_pending_tx t) - tun_tx_offset t;
          tk = min total_remaining (tun_frame_mtu t);
          slice = take tk (drop (tun_tx_offset t) (tun_pending_tx t));
          is_first_fragment = (tun_tx_offset t = 0);
          multi_fragment = (length (tun_pending_tx t) > tun_frame_mtu t);
          more_to_come = (tun_tx_offset t + tk < length (tun_pending_tx t));
          flags_byte = (if more_to_come then 0 OR FLAG_M else 0);
          tot = (if is_first_fragment \<and> multi_fragment then Some (u32_saturating (length (tun_pending_tx t))) else None);
          out = fst (frame_encode [] (Flags flags_byte) tot slice);
          t = t\<lparr>tun_tx_offset := tun_tx_offset t + tk\<rparr>;
          t = (if more_to_come then t else t\<lparr>tun_pending_tx := [], tun_tx_offset := 0\<rparr>)
      in (t, out))"

definition tunnel_export_keying_material ::
    "('ctx, 'ssl) libssl \<Rightarrow> bytes \<Rightarrow> bytes option \<Rightarrow> nat \<Rightarrow> ('ctx, 'ssl) tls_tunnel \<Rightarrow> (eap_error, bytes) result" where
  "tunnel_export_keying_material L label context len t = tls_err (conn_export_keying_material L label context len (tun_tls t))"

definition tunnel_export_msk_emsk ::
    "('ctx, 'ssl) libssl \<Rightarrow> bytes \<Rightarrow> bytes option \<Rightarrow> ('ctx, 'ssl) tls_tunnel \<Rightarrow> (eap_error, bytes \<times> bytes) result" where
  "tunnel_export_msk_emsk L label context t =
     (case tunnel_export_keying_material L label context (MSK_LEN + EMSK_LEN) t of
        Err e \<Rightarrow> Err e
      | Ok keymat \<Rightarrow> Ok (take MSK_LEN keymat, drop MSK_LEN keymat))"

definition start_frame :: bytes where "start_frame = [FLAG_S]"
definition ack_frame :: bytes where "ack_frame = [0]"

section \<open>Sequencing\<close>

text \<open>
  Calls that update a state and may fail: \<open>?\<close> after a call is \<open>call_bind\<close>. The state is kept when a call
  fails, and an outer \<open>None\<close> is a panic or a loop that does not end.
\<close>

type_synonym ('s, 'a) call = "'s \<Rightarrow> ('s \<times> (eap_error, 'a) result) option"

definition call_ok :: "'a \<Rightarrow> ('s, 'a) call" where
  "call_ok x s = Some (s, Ok x)"

definition call_bind :: "('s, 'a) call \<Rightarrow> ('a \<Rightarrow> ('s, 'b) call) \<Rightarrow> ('s, 'b) call" where
  "call_bind f g s =
     (case f s of
        None \<Rightarrow> None
      | Some (s, Err e) \<Rightarrow> Some (s, Err e)
      | Some (s, Ok x) \<Rightarrow> g x s)"

lemma call_bindE:
  assumes "call_bind f g s = Some (s', r)"
  obtains (err) e where "f s = Some (s', Err e)" "r = Err e"
    | (ok) s1 x where "f s = Some (s1, Ok x)" "g x s1 = Some (s', r)"
  using assms by (auto simp: call_bind_def split: option.splits prod.splits result.splits)

lemma call_ok_iff [simp]: "call_ok x s = Some (s', r) \<longleftrightarrow> s' = s \<and> r = Ok x"
  by (auto simp: call_ok_def)

section \<open>What the engine promises\<close>

text \<open>
  \<open>plaintext\<close> is the application data the engine can still deliver, \<open>authenticated\<close> whether its handshake
  is over. \<open>SSL_read\<close> delivers the plaintext from the front; an output BIO that was reset is empty; a
  handshake that succeeded has authenticated the peer as the context asks, and that is not undone.
\<close>

definition tls_engine :: "('ctx, 'ssl) libssl \<Rightarrow> ('ssl \<Rightarrow> bytes) \<Rightarrow> ('ssl \<Rightarrow> bool) \<Rightarrow> bool" where
  "tls_engine L plaintext authenticated \<longleftrightarrow>
     (\<forall>s k s' n d. SSL_read L s k = (s', n, d) \<longrightarrow> 0 < k \<longrightarrow> plaintext s \<noteq> [] \<longrightarrow>
        n = int (length d) \<and> d \<noteq> [] \<and> plaintext s = d @ plaintext s')
     \<and> (\<forall>s k s' n d. SSL_read L s k = (s', n, d) \<longrightarrow> plaintext s = [] \<longrightarrow> n \<le> 0)
     \<and> (\<forall>s s' r. BIO_reset L s = (s', r) \<longrightarrow> snd (BIO_mem_contents L s') \<in> {None, Some []})
     \<and> (\<forall>s s'. SSL_accept L s = (s', 1) \<longrightarrow> authenticated s')
     \<and> (\<forall>s. authenticated s \<longrightarrow>
          (\<forall>k. authenticated (fst (SSL_read L s k))) \<and> (\<forall>bs. authenticated (fst (SSL_write L s bs)))
          \<and> (\<forall>bs. authenticated (fst (BIO_write L s bs))) \<and> authenticated (fst (BIO_reset L s)))"

definition toy_plaintext :: "toy_ssl_state \<Rightarrow> bytes" where
  "toy_plaintext s = toy_in s"

lemma toy_engine [simp]: "tls_engine toy_ssl toy_plaintext toy_done"
  by (auto simp: tls_engine_def toy_plaintext_def)

lemma engine_read_data:
  "tls_engine L plaintext authenticated \<Longrightarrow> SSL_read L s k = (s', n, d) \<Longrightarrow> 0 < k \<Longrightarrow> plaintext s \<noteq> [] \<Longrightarrow>
     n = int (length d) \<and> d \<noteq> [] \<and> plaintext s = d @ plaintext s'"
  unfolding tls_engine_def by blast

lemma engine_read_empty:
  "tls_engine L plaintext authenticated \<Longrightarrow> SSL_read L s k = (s', n, d) \<Longrightarrow> plaintext s = [] \<Longrightarrow> n \<le> 0"
  unfolding tls_engine_def by blast

lemma engine_reset_empty:
  "tls_engine L plaintext authenticated \<Longrightarrow> BIO_reset L s = (s', r) \<Longrightarrow> snd (BIO_mem_contents L s') \<in> {None, Some []}"
  unfolding tls_engine_def by blast

lemma engine_accept: "tls_engine L plaintext authenticated \<Longrightarrow> SSL_accept L s = (s', 1) \<Longrightarrow> authenticated s'"
  unfolding tls_engine_def by blast

lemma engine_kept:
  assumes "tls_engine L plaintext authenticated" and "authenticated s"
  shows "authenticated (fst (SSL_read L s k))" and "authenticated (fst (SSL_write L s bs))"
    and "authenticated (fst (BIO_write L s bs))" and "authenticated (fst (BIO_reset L s))"
  using assms unfolding tls_engine_def by blast+

section \<open>The loops\<close>

lemma drain_step_data:
  assumes "tls_engine L plaintext authenticated" and "conn_handshake_done c" and "plaintext (conn_ssl c) \<noteq> []"
  shows "\<exists>c' d. tls_read L 4096 c = (c', Ok d) \<and> d \<noteq> [] \<and> plaintext (conn_ssl c) = d @ plaintext (conn_ssl c')
    \<and> conn_handshake_done c'"
proof -
  obtain s' n d where r: "SSL_read L (conn_ssl c) (c_int_len 4096) = (s', n, d)" by (cases "SSL_read L (conn_ssl c) (c_int_len 4096)")
  have "0 < c_int_len 4096" by (simp add: c_int_len_def)
  from engine_read_data [OF assms(1) r this assms(3)] show ?thesis using assms(2) r by (simp add: tls_read_def)
qed

lemma drain_step_empty:
  assumes "tls_engine L plaintext authenticated" and "conn_handshake_done c \<Longrightarrow> plaintext (conn_ssl c) = []"
  shows "\<exists>c' r. tls_read L 4096 c = (c', r) \<and> (r = Ok [] \<or> (\<exists>e. r = Err e))"
proof -
  obtain s' n d where r: "SSL_read L (conn_ssl c) (c_int_len 4096) = (s', n, d)" by (cases "SSL_read L (conn_ssl c) (c_int_len 4096)")
  from engine_read_empty [OF assms(1) r] show ?thesis using assms(2) r by (auto simp: tls_read_def split: ssl_error.splits)
qed

text \<open>Draining returns, and without an error it has appended exactly the plaintext the engine had.\<close>

lemma drain_decrypted_returns:
  assumes "tls_engine L plaintext authenticated"
  shows "\<exists>t' out' r. drain_decrypted L t out = Some (t', out', r)
     \<and> (r = Ok () \<longrightarrow> out' = out @ (if conn_handshake_done (tun_tls t) then plaintext (conn_ssl (tun_tls t)) else []))"
proof -
  let ?b = "\<lambda>(c, out, r). r = None"
  let ?f = "\<lambda>(c, out, r :: (eap_error, unit) result option).
      case tls_read L 4096 c of
        (c, Err e) \<Rightarrow> (c, out, Some (Err (TlsError (tls_error_string e))))
      | (c, Ok d) \<Rightarrow> if d = [] then (c, out, Some (Ok ())) else (c, out @ d, None)"
  let ?pt = "\<lambda>c. if conn_handshake_done c then plaintext (conn_ssl c) else []"
  have "\<exists>c' out' r. while_option ?b ?f (c, out, None) = Some (c', out', Some r) \<and> (r = Ok () \<longrightarrow> out' = out @ ?pt c)" for c out
  proof (induction "length (?pt c)" arbitrary: c out rule: less_induct)
    case less
    show ?case
    proof (cases "?pt c = []")
      case True
      then have "conn_handshake_done c \<Longrightarrow> plaintext (conn_ssl c) = []" by simp
      then obtain c' r where r: "tls_read L 4096 c = (c', r)" "r = Ok [] \<or> (\<exists>e. r = Err e)"
        using drain_step_empty [OF assms] by blast
      then show ?thesis
        by (subst while_option_unfold, subst while_option_unfold) (use True in auto)
    next
      case False
      then have h: "conn_handshake_done c" "plaintext (conn_ssl c) \<noteq> []" by (auto split: if_splits)
      then obtain c' d where d: "tls_read L 4096 c = (c', Ok d)" "d \<noteq> []" "plaintext (conn_ssl c) = d @ plaintext (conn_ssl c')"
        "conn_handshake_done c'" using drain_step_data [OF assms] by blast
      have "length (?pt c') < length (?pt c)" using d h by simp
      from less [OF this, of "out @ d"] show ?thesis
        by (subst while_option_unfold) (use d h in auto)
    qed
  qed
  from this [of "tun_tls t" out] show ?thesis unfolding drain_decrypted_def by auto
qed

lemma refill_pending_tx_returns:
  assumes "tls_engine L plaintext authenticated"
  shows "\<exists>t' r. refill_pending_tx L t = Some (t', r)
     \<and> (r = Ok () \<longrightarrow> tun_pending_tx t' = tun_pending_tx t @ pending_output L (tun_tls t))"
proof (cases "pending_output L (tun_tls t) = []")
  case True
  then show ?thesis unfolding refill_pending_tx_def
    by (subst while_option_unfold, subst while_option_unfold) simp
next
  case False
  obtain s' r where s: "BIO_reset L (conn_ssl (tun_tls t)) = (s', r)" by (cases "BIO_reset L (conn_ssl (tun_tls t))")
  let ?c = "(tun_tls t)\<lparr>conn_ssl := s'\<rparr>"
  have "pending_output L ?c = []"
    using engine_reset_empty [OF assms s] by (auto simp: pending_output_def split: prod.splits)
  then show ?thesis unfolding refill_pending_tx_def using False s
    by (subst while_option_unfold, subst while_option_unfold, subst while_option_unfold)
      (simp add: consume_output_def)
qed

section \<open>Invariants\<close>

lemma while_result:
  assumes "while_option (\<lambda>(c, out, r). r = None) f s = Some x"
  obtains c out r where "x = (c, out, Some r)"
  using while_option_stop [OF assms] by (cases x) auto

text \<open>A property of connections that the calls of a loop keep is kept by the loop.\<close>

lemma drain_decrypted_keeps:
  assumes "drain_decrypted L t out = Some (t', out', r)" and "Q (tun_tls t)" and "\<And>c. Q c \<Longrightarrow> Q (fst (tls_read L 4096 c))"
  shows "\<exists>c. t' = t\<lparr>tun_tls := c\<rparr> \<and> Q c"
proof -
  let ?f = "\<lambda>(c, out, r). case tls_read L 4096 c of
          (c, Err e) \<Rightarrow> (c, out, Some (Err (TlsError (tls_error_string e))))
        | (c, Ok d) \<Rightarrow> if d = [] then (c, out, Some (Ok ())) else (c, out @ d, None)"
  from assms(1) [unfolded drain_decrypted_def map_option_eq_Some]
  obtain x where x: "while_option (\<lambda>(c, out, r). r = None) ?f (tun_tls t, out, None) = Some x"
    "(case x of (c, out, r) \<Rightarrow> (t\<lparr>tun_tls := c\<rparr>, out, the r)) = (t', out', r)" by (elim exE conjE) (rule that)
  from while_result [OF x(1)] obtain c o0 r0 where x0: "x = (c, o0, Some r0)" by blast
  then have xc: "x = (c, out', Some r)" "t' = t\<lparr>tun_tls := c\<rparr>" using x(2) by simp_all
  note w = x(1) [unfolded xc] xc(2)
  have "case (c, out', Some r) of (c, _, _) \<Rightarrow> Q c"
  proof (rule while_option_rule [OF _ w(1)])
    fix s :: "('a, 'b) tls_connection \<times> bytes \<times> (eap_error, unit) result option"
    assume q: "case s of (c, _, _) \<Rightarrow> Q c"
    obtain c out r where s: "s = (c, out, r)" by (cases s)
    have "Q (fst (tls_read L 4096 c))" using assms(3) q s by simp
    then show "case (case s of (c, out, r) \<Rightarrow> case tls_read L 4096 c of
          (c, Err e) \<Rightarrow> (c, out, Some (Err (TlsError (tls_error_string e))))
        | (c, Ok d) \<Rightarrow> if d = [] then (c, out, Some (Ok ())) else (c, out @ d, None)) of (c, _, _) \<Rightarrow> Q c"
      unfolding s by (auto split: prod.splits result.splits)
  qed (use assms(2) in simp)
  then show ?thesis using w(2) by (intro exI [of _ c]) simp
qed

lemma refill_pending_tx_keeps:
  assumes "refill_pending_tx L t = Some (t', r)" and "Q (tun_tls t)" and "\<And>c. Q c \<Longrightarrow> Q (fst (consume_output L c))"
  shows "\<exists>c pending off. t' = t\<lparr>tun_tls := c, tun_pending_tx := pending, tun_tx_offset := off\<rparr> \<and> Q c
    \<and> (r = Ok () \<longrightarrow> off = 0)"
proof -
  let ?f = "\<lambda>(c, pending, r). let chunk = pending_output L c
      in if chunk = [] then (c, pending, Some (Ok ()))
         else case consume_output L c of
           (c, Err e) \<Rightarrow> (c, pending @ chunk, Some (Err (TlsError (tls_error_string e))))
         | (c, Ok _) \<Rightarrow> (c, pending @ chunk, None)"
  let ?g = "\<lambda>(c, pending, r). (case the r of
            Err e \<Rightarrow> (t\<lparr>tun_tls := c, tun_pending_tx := pending\<rparr>, Err e)
          | Ok _ \<Rightarrow> (t\<lparr>tun_tls := c, tun_pending_tx := pending, tun_tx_offset := 0\<rparr>, Ok ()))"
  from assms(1) [unfolded refill_pending_tx_def map_option_eq_Some]
  obtain x where x: "while_option (\<lambda>(c, pending, r). r = None) ?f (tun_tls t, tun_pending_tx t, None) = Some x"
    "?g x = (t', r)" by (elim exE conjE) (rule that)
  from while_result [OF x(1)] obtain c pending r0 where xc: "x = (c, pending, Some r0)" by blast
  note w = x(1) [unfolded xc] x(2) [unfolded xc]
  have "case (c, pending, Some r0) of (c, _, _) \<Rightarrow> Q c"
  proof (rule while_option_rule [OF _ w(1)])
    fix s :: "('a, 'b) tls_connection \<times> bytes \<times> (eap_error, unit) result option"
    assume q: "case s of (c, _, _) \<Rightarrow> Q c"
    obtain c out r where s: "s = (c, out, r)" by (cases s)
    have "Q c" "Q (fst (consume_output L c))" using assms(3) q s by simp_all
    then show "case ?f s of (c, _, _) \<Rightarrow> Q c"
      unfolding s by (auto simp: Let_def split: prod.splits result.splits)
  qed (use assms(2) in simp)
  then have "Q c" by simp
  then show ?thesis using w(2)
    by (intro exI [of _ c] exI [of _ pending] exI [of _ "case r0 of Ok _ \<Rightarrow> 0 | Err _ \<Rightarrow> tun_tx_offset t"]) (cases r0; auto)
qed

text \<open>A server connection whose handshake flag implies that libssl authenticated the peer.\<close>

definition conn_inv :: "('ssl \<Rightarrow> bool) \<Rightarrow> bool \<Rightarrow> ('ctx, 'ssl) tls_connection \<Rightarrow> bool" where
  "conn_inv authenticated done c \<longleftrightarrow>
     \<not> ctx_is_client (conn_context c) \<and> conn_expected_server_name c = None
     \<and> conn_handshake_done c = done \<and> (done \<longrightarrow> authenticated (conn_ssl c))"

definition tunnel_inv :: "('ssl \<Rightarrow> bool) \<Rightarrow> ('ctx, 'ssl) tls_tunnel \<Rightarrow> bool" where
  "tunnel_inv authenticated t \<longleftrightarrow> conn_inv authenticated (tun_handshake_done t) (tun_tls t)"

lemma conn_inv_kept:
  assumes "tls_engine L plaintext authenticated" and "conn_inv authenticated done c"
  shows "conn_inv authenticated done (fst (tls_read L n c))" and "conn_inv authenticated done (fst (tls_write L bs c))"
    and "conn_inv authenticated done (fst (feed_input L bs c))" and "conn_inv authenticated done (fst (consume_output L c))"
  using assms(2) engine_kept [OF assms(1), of "conn_ssl c"]
  by (auto simp: conn_inv_def tls_read_def tls_write_def feed_input_def consume_output_def split: prod.splits)
    (metis fst_conv)+

lemma conn_inv_process:
  assumes "tls_engine L plaintext authenticated" and "conn_inv authenticated False c" and "tls_process L c = (c', r)"
  shows "conn_inv authenticated (r = Ok Established) c'"
  using assms(2,3) engine_accept [OF assms(1), of "conn_ssl c"]
  by (auto simp: conn_inv_def tls_process_def Let_def split: prod.splits if_splits ssl_error.splits)

lemma tunnel_inv_new:
  "tunnel_new L ctx mtu = Ok t \<Longrightarrow> tunnel_inv authenticated t \<and> \<not> tun_handshake_done t \<and> tun_pending_tx t = [] \<and> tun_tx_offset t = 0
     \<and> tun_frame_mtu t = mtu"
  by (auto simp: tunnel_new_def tls_accept_def tls_new_def tls_err_def tunnel_inv_def conn_inv_def
      split: if_splits option.splits prod.splits result.splits)

lemma tunnel_inv_mtu: "set_frame_mtu mtu t = Some t' \<Longrightarrow> tunnel_inv authenticated t \<Longrightarrow> tunnel_inv authenticated t'"
  by (auto simp: set_frame_mtu_def tunnel_inv_def split: if_splits)

section \<open>Fragmentation\<close>

text \<open>The frames a flight is sent in, one for each acknowledgement of the peer.\<close>

function emit_all :: "('ctx, 'ssl) tls_tunnel \<Rightarrow> bytes list" where
  "emit_all t =
     (if has_pending_tx t \<and> 0 < tun_frame_mtu t
      then case emit_next_outbound_fragment t of (t', fr) \<Rightarrow> fr # emit_all t'
      else [])"
  by pat_completeness auto
termination
  by (relation "measure (\<lambda>t. length (tun_pending_tx t) - tun_tx_offset t)")
    (auto simp: has_pending_tx_def emit_next_outbound_fragment_def Let_def split: if_splits)

declare emit_all.simps [simp del]

text \<open>The fragmenter at the position of a tunnel.\<close>

definition tunnel_fragmenter :: "('ctx, 'ssl) tls_tunnel \<Rightarrow> fragmenter" where
  "tunnel_fragmenter t =
     \<lparr>fg_bytes = tun_pending_tx t, fg_offset = tun_tx_offset t, frame_mtu = tun_frame_mtu t, extra_flags = 0,
      emitted_first = (tun_tx_offset t \<noteq> 0)\<rparr>"

lemma frame_encode_L: "frame_encode out (Flags 192) (Some n) pl = frame_encode out (Flags 64) (Some n) pl"
  by (simp add: frame_encode_def)

lemma emit_is_next:
  assumes "has_pending_tx t" and "0 < tun_frame_mtu t"
  shows "\<exists>x. fragmenter_next (tunnel_fragmenter t) = ((tunnel_fragmenter t)
        \<lparr>fg_offset := tun_tx_offset t + min (length (tun_pending_tx t) - tun_tx_offset t) (tun_frame_mtu t), emitted_first := True\<rparr>, Some x)
      \<and> snd (emit_next_outbound_fragment t) = wire_fragment x"
  using assms
  by (auto simp: fragmenter_next_def tunnel_fragmenter_def emit_next_outbound_fragment_def has_pending_tx_def wire_fragment_def
      frame_encode_L Let_def)

lemma emit_all_fragments:
  "has_pending_tx t \<Longrightarrow> 0 < tun_frame_mtu t \<Longrightarrow> emit_all t = map wire_fragment (fragments_of (tunnel_fragmenter t))"
proof (induction t rule: emit_all.induct)
  case (1 t)
  let ?tk = "min (length (tun_pending_tx t) - tun_tx_offset t) (tun_frame_mtu t)"
  let ?f = "(tunnel_fragmenter t)\<lparr>fg_offset := tun_tx_offset t + ?tk, emitted_first := True\<rparr>"
  obtain x where x: "fragmenter_next (tunnel_fragmenter t) = (?f, Some x)" "snd (emit_next_outbound_fragment t) = wire_fragment x"
    using emit_is_next [OF 1(2,3)] by blast
  obtain t' where e: "emit_next_outbound_fragment t = (t', wire_fragment x)" using x(2) by (metis prod.collapse)
  have "emit_all t' = map wire_fragment (fragments_of ?f)"
  proof (cases "tun_tx_offset t + ?tk < length (tun_pending_tx t)")
    case True
    have "t' = t\<lparr>tun_tx_offset := tun_tx_offset t + ?tk\<rparr>"
      using e True by (auto simp: emit_next_outbound_fragment_def Let_def)
    moreover have "0 < ?tk" using 1(2,3) by (simp add: has_pending_tx_def)
    ultimately have "tunnel_fragmenter t' = ?f" "has_pending_tx t'" "0 < tun_frame_mtu t'"
      using True 1(3) by (simp_all add: tunnel_fragmenter_def has_pending_tx_def)
    then show ?thesis using 1(1) [of t' "wire_fragment x"] e 1(2,3) by simp
  next
    case False
    then have "t' = t\<lparr>tun_pending_tx := [], tun_tx_offset := 0\<rparr>"
      using e by (auto simp: emit_next_outbound_fragment_def Let_def)
    then have "emit_all t' = []" by (subst emit_all.simps) (simp add: has_pending_tx_def)
    moreover have "fragments_of ?f = []" using False 1(2)
      by (subst fragments_of.simps) (simp add: fragmenter_next_def tunnel_fragmenter_def has_pending_tx_def)
    ultimately show ?thesis by simp
  qed
  then show ?case
    using e x(1) 1(2,3) by (subst emit_all.simps, subst fragments_of.simps) (simp add: tunnel_fragmenter_def)
qed

section \<open>Calls that keep the invariant\<close>

definition call_keeps :: "('s \<Rightarrow> bool) \<Rightarrow> ('s, 'a) call \<Rightarrow> bool" where
  "call_keeps I f \<longleftrightarrow> (\<forall>s s' r. I s \<longrightarrow> f s = Some (s', r) \<longrightarrow> I s')"

named_theorems keeps

lemma call_keepsD: "call_keeps I f \<Longrightarrow> I s \<Longrightarrow> f s = Some (s', r) \<Longrightarrow> I s'"
  unfolding call_keeps_def by blast

lemma call_keepsI: "(\<And>s s' r. I s \<Longrightarrow> f s = Some (s', r) \<Longrightarrow> I s') \<Longrightarrow> call_keeps I f"
  unfolding call_keeps_def by blast

lemma call_keeps_ok [keeps]: "call_keeps I (call_ok x)"
  by (rule call_keepsI) simp

lemma call_keeps_bind [keeps]:
  assumes "call_keeps I f" and "\<And>x. call_keeps I (g x)"
  shows "call_keeps I (call_bind f g)"
  by (rule call_keepsI) (use assms in \<open>auto elim!: call_bindE dest: call_keepsD\<close>)

lemma call_keeps_if [keeps]:
  "(b \<Longrightarrow> call_keeps I f) \<Longrightarrow> (\<not> b \<Longrightarrow> call_keeps I g) \<Longrightarrow> call_keeps I (if b then f else g)"
  by simp

lemma ingest_fields:
  assumes "ingest_peer_frame bs t = Some (t', r)"
  shows "\<exists>re. t' = t\<lparr>tun_reassembler := re\<rparr>"
proof (cases "bs = []")
  case True
  then show ?thesis using assms by (auto simp: ingest_peer_frame_def intro: exI [of _ "tun_reassembler t"])
next
  case False
  show ?thesis
  proof (cases "frame_parse bs")
    case (Ok fr)
    then obtain re res where "push (tun_reassembler t) fr = Some (re, res)"
      using assms False by (auto simp: ingest_peer_frame_def bind_eq_Some_conv)
    then show ?thesis using assms False Ok
      by (cases res) (auto simp: ingest_peer_frame_def split: if_splits prod.splits)
  next
    case (Err e)
    then show ?thesis using assms False by (auto simp: ingest_peer_frame_def intro: exI [of _ "tun_reassembler t"])
  qed
qed

lemma ingest_keeps [keeps]: "call_keeps (tunnel_inv authenticated) (ingest_peer_frame bs)"
  by (rule call_keepsI) (auto simp: tunnel_inv_def dest!: ingest_fields)

lemma feed_keeps [keeps]:
  assumes "tls_engine L plaintext authenticated"
  shows "call_keeps (tunnel_inv authenticated) (\<lambda>t. Some (feed_tls L bs t))"
proof (rule call_keepsI)
  fix t t' r
  assume "tunnel_inv authenticated t" "Some (feed_tls L bs t) = Some (t', r)"
  then show "tunnel_inv authenticated t'"
    using conn_inv_kept(3) [OF assms, of "tun_handshake_done t" "tun_tls t" bs]
    by (auto simp: feed_tls_def tunnel_inv_def split: if_splits prod.splits)
qed

lemma drive_keeps [keeps]:
  assumes "tls_engine L plaintext authenticated"
  shows "call_keeps (tunnel_inv authenticated) (\<lambda>t. Some (drive_handshake L t))"
proof (rule call_keepsI)
  fix t t' r
  assume t: "tunnel_inv authenticated t" "Some (drive_handshake L t) = Some (t', r)"
  show "tunnel_inv authenticated t'"
  proof (cases "tun_handshake_done t")
    case False
    obtain c p where p: "tls_process L (tun_tls t) = (c, p)" by (cases "tls_process L (tun_tls t)")
    have "conn_inv authenticated (p = Ok Established) c"
      using conn_inv_process [OF assms _ p] t(1) False by (simp add: tunnel_inv_def)
    then show ?thesis
      using t(2) False p by (cases p) (auto simp: drive_handshake_def tls_err_def tunnel_inv_def split: handshake_state.splits)
  qed (use t in \<open>auto simp: drive_handshake_def\<close>)
qed

lemma commitment_keeps [keeps]:
  assumes "tls_engine L plaintext authenticated"
  shows "call_keeps (tunnel_inv authenticated) (\<lambda>t. Some (write_tls13_commitment L t))"
proof (rule call_keepsI)
  fix t t' r
  assume "tunnel_inv authenticated t" "Some (write_tls13_commitment L t) = Some (t', r)"
  then show "tunnel_inv authenticated t'"
    using conn_inv_kept(2) [OF assms, of "tun_handshake_done t" "tun_tls t" "[0]"]
    by (auto simp: write_tls13_commitment_def tunnel_inv_def split: prod.splits)
qed

lemma write_app_data_inv:
  assumes "tls_engine L plaintext authenticated"
  shows "tunnel_inv authenticated t \<Longrightarrow> tunnel_inv authenticated (fst (write_app_data L bs t))"
proof (induction "length bs" arbitrary: bs t rule: less_induct)
  case less
  obtain c r where w: "tls_write L bs (tun_tls t) = (c, r)" by (cases "tls_write L bs (tun_tls t)")
  have inv: "tunnel_inv authenticated (t\<lparr>tun_tls := c\<rparr>)"
    using conn_inv_kept(2) [OF assms, of "tun_handshake_done t" "tun_tls t" bs] less(2) w by (simp add: tunnel_inv_def)
  have "tunnel_inv authenticated (fst (write_app_data L (drop n bs) (t\<lparr>tun_tls := c\<rparr>)))" if "bs \<noteq> []" "n \<noteq> 0" for n
    using less(1) [OF _ inv, of "drop n bs"] that by simp
  then show ?case using inv less(2) w by (subst write_app_data.simps) (auto split: result.splits)
qed

lemma write_app_data_keeps [keeps]:
  assumes "tls_engine L plaintext authenticated"
  shows "call_keeps (tunnel_inv authenticated) (\<lambda>t. Some (write_app_data L bs t))"
  by (rule call_keepsI) (metis assms fst_conv option.inject write_app_data_inv)

lemma refill_keeps [keeps]:
  assumes "tls_engine L plaintext authenticated"
  shows "call_keeps (tunnel_inv authenticated) (refill_pending_tx L)"
proof (rule call_keepsI)
  fix t t' and r :: "(eap_error, unit) result"
  assume t: "tunnel_inv authenticated t" "refill_pending_tx L t = Some (t', r)"
  have "\<exists>c pending off. t' = t\<lparr>tun_tls := c, tun_pending_tx := pending, tun_tx_offset := off\<rparr>
      \<and> conn_inv authenticated (tun_handshake_done t) c \<and> (r = Ok () \<longrightarrow> off = 0)"
    by (rule refill_pending_tx_keeps [OF t(2)]) (use t(1) conn_inv_kept(4) [OF assms] in \<open>auto simp: tunnel_inv_def\<close>)
  then show "tunnel_inv authenticated t'" unfolding tunnel_inv_def by auto
qed

lemma drain_inv:
  assumes "tls_engine L plaintext authenticated" and "tunnel_inv authenticated t" and "drain_decrypted L t out = Some (t', out', r)"
  shows "tunnel_inv authenticated t' \<and> (\<exists>c. t' = t\<lparr>tun_tls := c\<rparr>)"
proof -
  have "\<exists>c. t' = t\<lparr>tun_tls := c\<rparr> \<and> conn_inv authenticated (tun_handshake_done t) c"
    by (rule drain_decrypted_keeps [OF assms(3)]) (use assms(2) conn_inv_kept(1) [OF assms(1)] in \<open>auto simp: tunnel_inv_def\<close>)
  then show ?thesis by (auto simp: tunnel_inv_def)
qed

lemma emit_inv:
  "emit_next_outbound_fragment t = (t', fr) \<Longrightarrow>
     tun_tls t' = tun_tls t \<and> tun_handshake_done t' = tun_handshake_done t \<and> tun_frame_mtu t' = tun_frame_mtu t"
  by (auto simp: emit_next_outbound_fragment_def Let_def split: if_splits)

definition call_leads :: "('s \<Rightarrow> bool) \<Rightarrow> ('s, 'a) call \<Rightarrow> ('s \<Rightarrow> bool) \<Rightarrow> bool" where
  "call_leads I f J \<longleftrightarrow> (\<forall>s s' r. I s \<longrightarrow> f s = Some (s', r) \<longrightarrow> J s')"

lemma call_leadsD: "call_leads I f J \<Longrightarrow> I s \<Longrightarrow> f s = Some (s', r) \<Longrightarrow> J s'"
  unfolding call_leads_def by blast

lemma call_leads_bind:
  assumes "call_keeps I f" and "\<And>x. call_leads I (g x) J" and "\<And>s. I s \<Longrightarrow> J s"
  shows "call_leads I (call_bind f g) J"
  unfolding call_leads_def
  by (intro allI impI) (use assms in \<open>auto elim!: call_bindE dest: call_keepsD call_leadsD\<close>)

lemma call_leads_seq:
  assumes "call_leads I f J" and "\<And>x. call_leads J (g x) K" and "\<And>s. J s \<Longrightarrow> K s"
  shows "call_leads I (call_bind f g) K"
  unfolding call_leads_def
  by (intro allI impI) (use assms in \<open>auto elim!: call_bindE dest: call_leadsD\<close>)

lemma call_leads_keeps: "call_keeps I f \<Longrightarrow> call_leads I f I"
  unfolding call_keeps_def call_leads_def by blast

lemma call_bind_Ok:
  "call_bind f g s = Some (s', Ok x) \<longleftrightarrow> (\<exists>s1 y. f s = Some (s1, Ok y) \<and> g y s1 = Some (s', Ok x))"
  by (auto simp: call_bind_def split: option.splits prod.splits result.splits)

section \<open>The loops on the library of the witnesses\<close>

lemma toy_drain:
  assumes "conn_handshake_done (tun_tls t)" and "toy_in (conn_ssl (tun_tls t)) = []"
  shows "drain_decrypted toy_ssl t out = Some (t, out, Ok ())"
proof -
  have "tls_read toy_ssl 4096 (tun_tls t) = (tun_tls t, Ok [])"
    using assms by (cases "tun_tls t"; cases "conn_ssl (tun_tls t)") (simp add: tls_read_def)
  then show ?thesis unfolding drain_decrypted_def
    by (subst while_option_unfold, subst while_option_unfold) simp
qed

lemma toy_refill:
  assumes "toy_out (conn_ssl (tun_tls t)) \<noteq> []"
  shows "refill_pending_tx toy_ssl t =
    Some (t\<lparr>tun_tls := (tun_tls t)\<lparr>conn_ssl := (conn_ssl (tun_tls t))\<lparr>toy_out := []\<rparr>\<rparr>,
            tun_pending_tx := tun_pending_tx t @ toy_out (conn_ssl (tun_tls t)), tun_tx_offset := 0\<rparr>, Ok ())"
  unfolding refill_pending_tx_def using assms
  by (subst while_option_unfold, subst while_option_unfold, subst while_option_unfold)
    (simp add: pending_output_def consume_output_def)

section \<open>A tunnel whose peer acknowledges\<close>

lemma ingest_ack:
  assumes "re_buf (tun_reassembler t) = []" and "re_expected (tun_reassembler t) = None"
  shows "ingest_peer_frame ack_frame t =
    Some (t\<lparr>tun_reassembler := (tun_reassembler t)\<lparr>single_fragment_complete := True\<rparr>\<rparr>, Ok None)"
proof -
  have p: "frame_parse ack_frame = Ok \<lparr>frame_flags = Flags 0, total_length = None, payload = []\<rparr>"
    by (simp add: ack_frame_def frame_parse_def length_included_def)
  have "push (tun_reassembler t) \<lparr>frame_flags = Flags 0, total_length = None, payload = []\<rparr>
      = Some ((tun_reassembler t)\<lparr>single_fragment_complete := True\<rparr>, Ok False)"
    using assms by (simp add: push_def push_header_def push_fits_def length_included_def more_fragments_def is_complete_def Let_def)
  then show ?thesis using p by (simp add: ingest_peer_frame_def ack_frame_def)
qed

lemma refill_quiet:
  "pending_output L (tun_tls t) = [] \<Longrightarrow> refill_pending_tx L t = Some (t\<lparr>tun_tx_offset := 0\<rparr>, Ok ())"
  unfolding refill_pending_tx_def by (subst while_option_unfold, subst while_option_unfold) simp

text \<open>
  A tunnel in the middle of its handshake, with a flight of more than one frame, nothing received
  and no further output of the engine.
\<close>

definition mid_flight :: "('ctx, 'ssl) libssl \<Rightarrow> bytes \<Rightarrow> nat \<Rightarrow> ('ctx, 'ssl) tls_tunnel \<Rightarrow> bool" where
  "mid_flight L flight mtu t \<longleftrightarrow>
     re_buf (tun_reassembler t) = [] \<and> re_expected (tun_reassembler t) = None \<and> \<not> tun_handshake_done t
     \<and> pending_output L (tun_tls t) = [] \<and> tun_pending_tx t = flight \<and> tun_frame_mtu t = mtu \<and> 0 < mtu \<and> mtu < length flight"

definition first_frame :: "bytes \<Rightarrow> nat \<Rightarrow> bytes" where
  "first_frame flight mtu = fst (frame_encode [] (Flags FLAG_M) (Some (u32_saturating (length flight))) (take mtu flight))"

lemma emit_first:
  assumes "mid_flight L flight mtu t" and "tun_tx_offset t = 0"
  shows "emit_next_outbound_fragment t = (t\<lparr>tun_tx_offset := mtu\<rparr>, first_frame flight mtu)"
  using assms by (auto simp: mid_flight_def emit_next_outbound_fragment_def first_frame_def Let_def)

lemma mid_flight_update [simp]:
  "mid_flight L flight mtu (t\<lparr>tun_tx_offset := n\<rparr>) = mid_flight L flight mtu t"
  "mid_flight L flight mtu t \<Longrightarrow> mid_flight L flight mtu (t\<lparr>tun_reassembler := (tun_reassembler t)\<lparr>single_fragment_complete := True\<rparr>\<rparr>)"
  by (auto simp: mid_flight_def)

section \<open>A finished handshake stays finished\<close>

lemma ingest_done [keeps]: "call_keeps tun_handshake_done (ingest_peer_frame bs)"
  by (rule call_keepsI) (auto dest!: ingest_fields)

lemma feed_done [keeps]: "call_keeps tun_handshake_done (\<lambda>t. Some (feed_tls L bs t))"
  by (rule call_keepsI) (auto simp: feed_tls_def split: if_splits prod.splits)

lemma drive_done [keeps]: "call_keeps tun_handshake_done (\<lambda>t. Some (drive_handshake L t))"
  by (rule call_keepsI) (auto simp: drive_handshake_def)

lemma commitment_done [keeps]: "call_keeps tun_handshake_done (\<lambda>t. Some (write_tls13_commitment L t))"
  by (rule call_keepsI) (auto simp: write_tls13_commitment_def split: prod.splits)

lemma write_app_data_done: "tun_handshake_done (fst (write_app_data L bs t)) = tun_handshake_done t"
proof (induction L bs t rule: write_app_data.induct)
  case (1 L bs t)
  obtain c r where w: "tls_write L bs (tun_tls t) = (c, r)" by (cases "tls_write L bs (tun_tls t)")
  show ?case
  proof (cases r)
    case (Ok n)
    have "bs \<noteq> [] \<Longrightarrow> n \<noteq> 0 \<Longrightarrow> tun_handshake_done (fst (write_app_data L (drop n bs) (t\<lparr>tun_tls := c\<rparr>))) = tun_handshake_done t"
      using 1 [OF _ w [symmetric] Ok] by simp
    then show ?thesis using w Ok by (subst write_app_data.simps) auto
  qed (use w in \<open>subst write_app_data.simps, auto\<close>)
qed

lemma write_done [keeps]: "call_keeps tun_handshake_done (\<lambda>t. Some (write_app_data L bs t))"
  by (rule call_keepsI) (metis fst_conv option.inject write_app_data_done)

lemma refill_done [keeps]: "call_keeps tun_handshake_done (refill_pending_tx L)"
  by (rule call_keepsI) (auto dest!: refill_pending_tx_keeps [where Q = "\<lambda>_. True"])

lemma drain_done: "drain_decrypted L t out = Some (t', out', r) \<Longrightarrow> tun_handshake_done t' = tun_handshake_done t"
  using drain_decrypted_keeps [where Q = "\<lambda>_. True"] by fastforce

lemmas tunnel_keeps = ingest_keeps feed_keeps drive_keeps commitment_keeps write_app_data_keeps refill_keeps
  ingest_done feed_done drive_done commitment_done write_done refill_done

end
