(* ===== verification/Eap_Tls.thy ===== *)
theory Eap_Tls
  imports Tls_Tunnel Eap_Conversation
begin

text \<open>
  \<^verbatim>\<open>crates/radius-tokio-eap/src/eap_tls.rs\<close>: EAP-TLS over the tunnel. The theorems compose the method with the
  handler (acceptance means that libssl authenticated the peer's certificate) and with the peer's
  reassembly (every flight of the server arrives, fragment by fragment).
\<close>

section \<open>The method\<close>

definition EAP_TLS_LABEL_TLS12 :: bytes where
  "EAP_TLS_LABEL_TLS12 = map of_char ''client EAP encryption''"
definition EAP_TLS_LABEL_TLS13 :: bytes where
  "EAP_TLS_LABEL_TLS13 = map of_char ''EXPORTER_EAP_TLS_Key_Material''"

datatype eap_tls_state = Handshaking | AwaitingFragmentAck | AwaitingFinalAck | Finished

record ('ctx, 'ssl) eap_tls =
  et_tunnel :: "('ctx, 'ssl) tls_tunnel"
  et_state :: eap_tls_state

definition eap_tls_new :: "('ctx, 'ssl) libssl \<Rightarrow> 'ctx tls_context \<Rightarrow> (eap_error, ('ctx, 'ssl) eap_tls) result" where
  "eap_tls_new L ctx =
     (if \<not> ctx_requires_client_certificate ctx
      then Err (TlsError ''EAP-TLS requires a server context with client certificate authentication'')
      else case tunnel_new L ctx DEFAULT_FRAME_MTU of
        Err e \<Rightarrow> Err e
      | Ok t \<Rightarrow> Ok \<lparr>et_tunnel = t, et_state = Handshaking\<rparr>)"

definition eap_tls_with_frame_mtu :: "nat \<Rightarrow> ('ctx, 'ssl) eap_tls \<Rightarrow> ('ctx, 'ssl) eap_tls option" where
  "eap_tls_with_frame_mtu mtu m = map_option (\<lambda>t. m\<lparr>et_tunnel := t\<rparr>) (set_frame_mtu mtu (et_tunnel m))"

definition eap_tls_export_msk_emsk :: "('ctx, 'ssl) libssl \<Rightarrow> ('ctx, 'ssl) eap_tls \<Rightarrow> (eap_error, bytes \<times> bytes) result" where
  "eap_tls_export_msk_emsk L m =
     (if is_tls13 L (tun_tls (et_tunnel m))
      then tunnel_export_msk_emsk L EAP_TLS_LABEL_TLS13 (Some [0x0d]) (et_tunnel m)
      else tunnel_export_msk_emsk L EAP_TLS_LABEL_TLS12 None (et_tunnel m))"

text \<open>A call on the tunnel, as a call on the method.\<close>

definition et_on_tunnel :: "(('ctx, 'ssl) tls_tunnel, 'a) call \<Rightarrow> (('ctx, 'ssl) eap_tls, 'a) call" where
  "et_on_tunnel f m = map_option (\<lambda>(t, r). (m\<lparr>et_tunnel := t\<rparr>, r)) (f (et_tunnel m))"

definition check_peer_records :: "('ctx, 'ssl) libssl \<Rightarrow> (('ctx, 'ssl) eap_tls, unit) call" where
  "check_peer_records L m =
     (case drain_decrypted L (et_tunnel m) [] of
        None \<Rightarrow> None
      | Some (t, plaintext, Err e) \<Rightarrow> Some (m\<lparr>et_tunnel := t\<rparr>, Err e)
      | Some (t, plaintext, Ok _) \<Rightarrow>
          Some (m\<lparr>et_tunnel := t\<rparr>,
            if plaintext \<noteq> [] \<or> received_close_notify L (tun_tls t)
            then Err (TlsError ''EAP-TLS peer sent application data or closed before completion'')
            else Ok ()))"

definition eap_tls_emit :: "(('ctx, 'ssl) eap_tls, method_outcome) call" where
  "eap_tls_emit m =
     (if has_pending_tx (et_tunnel m) then
        (case emit_next_outbound_fragment (et_tunnel m) of
           (t, fragment) \<Rightarrow>
             Some (m\<lparr>et_tunnel := t,
                     et_state := (if has_pending_tx t then AwaitingFragmentAck
                                  else if tun_handshake_done t then AwaitingFinalAck else Handshaking)\<rparr>,
                   Ok (MContinue fragment)))
      else Some (m, Ok (MContinue ack_frame)))"

definition eap_tls_completed :: "('ctx, 'ssl) libssl \<Rightarrow> (('ctx, 'ssl) eap_tls, unit) call" where
  "eap_tls_completed L =
     call_bind (check_peer_records L) (\<lambda>_ m.
       if is_tls13 L (tun_tls (et_tunnel m))
       then et_on_tunnel (\<lambda>t. Some (write_tls13_commitment L t)) m
       else Some (m, Ok ()))"

definition process_response :: "('ctx, 'ssl) libssl \<Rightarrow> bytes \<Rightarrow> (('ctx, 'ssl) eap_tls, method_outcome) call" where
  "process_response L peer_type_data m =
     (case et_state m of
        Finished \<Rightarrow> Some (m, Ok MFailure)
      | Handshaking \<Rightarrow>
          call_bind (et_on_tunnel (ingest_peer_frame peer_type_data)) (\<lambda>tls_bytes.
            case tls_bytes of
              None \<Rightarrow> eap_tls_emit
            | Some bs \<Rightarrow>
                call_bind (et_on_tunnel (\<lambda>t. Some (feed_tls L bs t))) (\<lambda>_.
                call_bind (et_on_tunnel (\<lambda>t. Some (drive_handshake L t))) (\<lambda>completed.
                call_bind (if completed then eap_tls_completed L else call_ok ()) (\<lambda>_.
                call_bind (et_on_tunnel (refill_pending_tx L)) (\<lambda>_. eap_tls_emit))))) m
      | _ \<Rightarrow>
          (case frame_parse peer_type_data of
             Err e \<Rightarrow> Some (m, Err e)
           | Ok fr \<Rightarrow>
               if length_included (frame_flags fr) \<or> more_fragments (frame_flags fr) \<or> start_flag (frame_flags fr)
                 \<or> payload fr \<noteq> []
               then Some (m, Ok MFailure)
               else if et_state m = AwaitingFinalAck then
                 call_bind (check_peer_records L) (\<lambda>_ m.
                   Some (m, case eap_tls_export_msk_emsk L m of
                              Err e \<Rightarrow> Err e
                            | Ok (k, ek) \<Rightarrow> Ok (MSuccess k ek))) m
               else eap_tls_emit m))"

definition eap_tls_start :: "bytes \<Rightarrow> bytes \<Rightarrow> ('ctx, 'ssl) eap_tls \<Rightarrow> ('ctx, 'ssl) eap_tls method_call" where
  "eap_tls_start rnd outer m = Some (m, Ok (MContinue start_frame))"

definition eap_tls_step :: "('ctx, 'ssl) libssl \<Rightarrow> bytes \<Rightarrow> bytes \<Rightarrow> bytes \<Rightarrow> ('ctx, 'ssl) eap_tls \<Rightarrow> ('ctx, 'ssl) eap_tls method_call" where
  "eap_tls_step L rnd peer_type_data outer m =
     map_option (\<lambda>(m, r). (case r of Ok (MContinue _) \<Rightarrow> m | _ \<Rightarrow> m\<lparr>et_state := Finished\<rparr>, r))
       (process_response L peer_type_data m)"

definition eap_tls_ops :: "('ctx, 'ssl) libssl \<Rightarrow> ('ctx, 'ssl) eap_tls method_ops" where
  "eap_tls_ops L =
     \<lparr>m_typ = (\<lambda>_. EAP_TLS), m_start = eap_tls_start, m_notify_peer_identity = default_notify_peer_identity,
      m_authenticated_identity = default_authenticated_identity, m_notify_request_id = default_notify_request_id,
      m_step = eap_tls_step L\<rparr>"

interpretation eap_tls_method: stable_method "eap_tls_ops L" for L
  by unfold_locales (simp_all add: eap_tls_ops_def)

record 'ctx tls_factory =
  tf_ctx :: "'ctx tls_context"
  tf_frame_mtu :: nat

definition eap_tls_factory_new :: "'ctx tls_context \<Rightarrow> 'ctx tls_factory" where
  "eap_tls_factory_new ctx = \<lparr>tf_ctx = ctx, tf_frame_mtu = DEFAULT_FRAME_MTU\<rparr>"

definition eap_tls_factory_with_frame_mtu :: "nat \<Rightarrow> 'ctx tls_factory \<Rightarrow> 'ctx tls_factory option" where
  "eap_tls_factory_with_frame_mtu mtu f = (if mtu > 0 then Some (f\<lparr>tf_frame_mtu := mtu\<rparr>) else None)"

definition eap_tls_create :: "('ctx, 'ssl) libssl \<Rightarrow> 'ctx tls_factory \<Rightarrow> (eap_error, ('ctx, 'ssl) eap_tls) result option" where
  "eap_tls_create L f =
     (case eap_tls_new L (tf_ctx f) of
        Err e \<Rightarrow> Some (Err e)
      | Ok m \<Rightarrow> map_option Ok (eap_tls_with_frame_mtu (tf_frame_mtu f) m))"

section \<open>Invariant\<close>

definition et_inv :: "('ssl \<Rightarrow> bool) \<Rightarrow> ('ctx, 'ssl) eap_tls \<Rightarrow> bool" where
  "et_inv authenticated m \<longleftrightarrow>
     tunnel_inv authenticated (et_tunnel m) \<and> (et_state m = AwaitingFinalAck \<longrightarrow> tun_handshake_done (et_tunnel m) \<and> \<not> has_pending_tx (et_tunnel m))"

abbreviation et_in :: "('ssl \<Rightarrow> bool) \<Rightarrow> eap_tls_state \<Rightarrow> ('ctx, 'ssl) eap_tls \<Rightarrow> bool" where
  "et_in authenticated st \<equiv> \<lambda>m. tunnel_inv authenticated (et_tunnel m) \<and> et_state m = st"

lemma et_on_tunnel_keeps [keeps]:
  "call_keeps (tunnel_inv authenticated) f \<Longrightarrow> call_keeps (et_in authenticated st) (et_on_tunnel f)"
  unfolding call_keeps_def by (auto simp: et_on_tunnel_def)

lemma check_peer_records_keeps [keeps]:
  assumes "tls_engine L plaintext authenticated"
  shows "call_keeps (et_in authenticated st) (check_peer_records L)"
proof (rule call_keepsI)
  fix m m' :: "('a, 'b) eap_tls" and r
  assume m: "et_in authenticated st m" "check_peer_records L m = Some (m', r)"
  then obtain t out r' where d: "drain_decrypted L (et_tunnel m) [] = Some (t, out, r')" "m' = m\<lparr>et_tunnel := t\<rparr>"
    by (auto simp: check_peer_records_def split: option.splits prod.splits result.splits)
  then show "et_in authenticated st m'" using drain_inv [OF assms _ d(1)] m(1) by simp
qed

lemma eap_tls_completed_keeps [keeps]:
  assumes "tls_engine L plaintext authenticated"
  shows "call_keeps (et_in authenticated st) (eap_tls_completed L)"
  unfolding eap_tls_completed_def
proof (rule call_keeps_bind [OF check_peer_records_keeps [OF assms]], rule call_keepsI)
  fix u m m' and r :: "(eap_error, unit) result"
  assume m: "et_in authenticated st m"
    "(if is_tls13 L (tun_tls (et_tunnel m)) then et_on_tunnel (\<lambda>t. Some (write_tls13_commitment L t)) m else Some (m, Ok ())) = Some (m', r)"
  then show "et_in authenticated st m'"
    using call_keepsD [OF et_on_tunnel_keeps [OF commitment_keeps [OF assms]] m(1)] by (auto split: if_splits)
qed

lemma eap_tls_emit_leads: "call_leads (et_in authenticated st) eap_tls_emit (et_inv authenticated)"
  if "st \<noteq> AwaitingFinalAck"
  unfolding call_leads_def using that
  by (auto simp: eap_tls_emit_def et_inv_def tunnel_inv_def dest!: emit_inv split: if_splits prod.splits)

lemma eap_tls_emit_Ok: "eap_tls_emit m = Some (m', r) \<Longrightarrow> \<exists>fr. r = Ok (MContinue fr)"
  by (auto simp: eap_tls_emit_def split: if_splits prod.splits)

lemma process_response_handshaking:
  assumes "tls_engine L plaintext authenticated" and "et_state m = Handshaking" and "tunnel_inv authenticated (et_tunnel m)"
    and "process_response L data m = Some (m', r)"
  shows "et_inv authenticated m'"
proof -
  note E = eap_tls_emit_leads [of Handshaking authenticated, simplified]
  let ?J = "et_inv authenticated"
  have J: "et_in authenticated Handshaking s \<Longrightarrow> ?J s" for s :: "('a, 'b) eap_tls" by (simp add: et_inv_def)
  have c: "call_keeps (et_in authenticated Handshaking) (if b then eap_tls_completed L else call_ok ())" for b
    using assms(1) by (intro keeps)
  have "call_leads (et_in authenticated Handshaking) (call_bind (et_on_tunnel (ingest_peer_frame data)) (\<lambda>tls_bytes.
            case tls_bytes of
              None \<Rightarrow> eap_tls_emit
            | Some bs \<Rightarrow>
                call_bind (et_on_tunnel (\<lambda>t. Some (feed_tls L bs t))) (\<lambda>_.
                call_bind (et_on_tunnel (\<lambda>t. Some (drive_handshake L t))) (\<lambda>completed.
                call_bind (if completed then eap_tls_completed L else call_ok ()) (\<lambda>_.
                call_bind (et_on_tunnel (refill_pending_tx L)) (\<lambda>_. eap_tls_emit)))))) ?J"
    by (intro call_leads_bind et_on_tunnel_keeps ingest_keeps J)
      (auto split: option.split intro!: E call_leads_bind c et_on_tunnel_keeps feed_keeps [OF assms(1)] drive_keeps [OF assms(1)]
        refill_keeps [OF assms(1)] J)
  from call_leadsD [OF this] show ?thesis using assms(2-4) by (simp add: process_response_def)
qed

definition bare_ack :: "bytes \<Rightarrow> bool" where
  "bare_ack data \<longleftrightarrow>
     (\<exists>fr. frame_parse data = Ok fr \<and> \<not> length_included (frame_flags fr) \<and> \<not> more_fragments (frame_flags fr)
        \<and> \<not> start_flag (frame_flags fr) \<and> payload fr = [])"

lemma process_response_acked:
  assumes "et_state m = AwaitingFragmentAck \<or> et_state m = AwaitingFinalAck"
  shows "process_response L data m =
    (case frame_parse data of
       Err e \<Rightarrow> Some (m, Err e)
     | Ok fr \<Rightarrow>
         if \<not> bare_ack data then Some (m, Ok MFailure)
         else if et_state m = AwaitingFinalAck then
           call_bind (check_peer_records L) (\<lambda>_ m.
             Some (m, case eap_tls_export_msk_emsk L m of Err e \<Rightarrow> Err e | Ok (k, ek) \<Rightarrow> Ok (MSuccess k ek))) m
         else eap_tls_emit m)"
  using assms by (auto simp: process_response_def bare_ack_def split: result.split)

lemma process_response_success:
  assumes "process_response L data m = Some (m', Ok (MSuccess k e))"
  shows "et_state m = AwaitingFinalAck \<and> bare_ack data
    \<and> (\<exists>t. drain_decrypted L (et_tunnel m) [] = Some (t, [], Ok ()) \<and> \<not> received_close_notify L (tun_tls t)
        \<and> m' = m\<lparr>et_tunnel := t\<rparr> \<and> eap_tls_export_msk_emsk L m' = Ok (k, e))"
proof (cases "et_state m")
  case Handshaking
  then show ?thesis using assms
    by (auto simp: process_response_def call_bind_Ok dest!: eap_tls_emit_Ok split: option.splits)
next
  case AwaitingFragmentAck
  then show ?thesis using assms
    by (auto simp: process_response_acked dest!: eap_tls_emit_Ok split: result.splits if_splits)
next
  case AwaitingFinalAck
  then have a: "bare_ack data" "call_bind (check_peer_records L) (\<lambda>_ m.
      Some (m, case eap_tls_export_msk_emsk L m of Err e \<Rightarrow> Err e | Ok (k, ek) \<Rightarrow> Ok (MSuccess k ek))) m = Some (m', Ok (MSuccess k e))"
    using assms by (auto simp: process_response_acked split: result.splits if_splits)
  from a(2) obtain m1 where m1: "check_peer_records L m = Some (m1, Ok ())" "m' = m1" "eap_tls_export_msk_emsk L m1 = Ok (k, e)"
    by (auto simp: call_bind_Ok split: result.splits prod.splits)
  from m1(1) obtain t where "drain_decrypted L (et_tunnel m) [] = Some (t, [], Ok ())" "\<not> received_close_notify L (tun_tls t)"
    "m1 = m\<lparr>et_tunnel := t\<rparr>"
    by (auto simp: check_peer_records_def split: option.splits prod.splits result.splits if_splits)
  then show ?thesis using AwaitingFinalAck a(1) m1(2,3) by blast
qed (use assms in \<open>simp add: process_response_def\<close>)

lemma eap_tls_step_inv:
  assumes "tls_engine L plaintext authenticated" and "et_inv authenticated m"
    and "eap_tls_step L rnd data outer m = Some (m', Ok (MContinue pl))"
  shows "et_inv authenticated m'"
proof -
  have p: "process_response L data m = Some (m', Ok (MContinue pl))"
    using assms(3) by (auto simp: eap_tls_step_def split: result.splits method_outcome.splits)
  show ?thesis
  proof (cases "et_state m")
    case Handshaking
    then show ?thesis using process_response_handshaking [OF assms(1) _ _ p] assms(2) by (simp add: et_inv_def)
  next
    case AwaitingFragmentAck
    then have "eap_tls_emit m = Some (m', Ok (MContinue pl))"
      using p by (auto simp: process_response_acked split: result.splits if_splits)
    moreover have "et_in authenticated AwaitingFragmentAck m" using assms(2) AwaitingFragmentAck by (simp add: et_inv_def)
    ultimately show ?thesis using call_leadsD [OF eap_tls_emit_leads [of AwaitingFragmentAck authenticated]] by blast
  next
    case AwaitingFinalAck
    then show ?thesis using p by (auto simp: process_response_acked call_bind_Ok split: result.splits if_splits prod.splits)
  qed (use p in \<open>simp add: process_response_def\<close>)
qed

lemma eap_tls_conversation_inv:
  assumes "tls_engine L plaintext authenticated" and "eap_tls_create L f = Some create"
    and "conversation (eap_tls_ops L) create es m"
  shows "et_inv authenticated m"
  using assms(3)
proof (induction rule: conversation.induct)
  case (conv_start m rnd outer identity m' pl i sid)
  have "et_inv authenticated m"
    using assms(2) conv_start(1)
    by (auto simp: eap_tls_create_def eap_tls_new_def eap_tls_with_frame_mtu_def et_inv_def
        dest!: tunnel_inv_new [of _ _ _ _ authenticated] dest: tunnel_inv_mtu split: if_splits result.splits option.splits)
  then show ?case using conv_start(2)
    by (auto simp: eap_tls_ops_def notified_def default_notify_peer_identity_def default_notify_request_id_def eap_tls_start_def
        split: option.splits)
next
  case (conv_step es m rnd data outer m' pl i sid)
  then show ?case using eap_tls_step_inv [OF assms(1)]
    by (auto simp: eap_tls_ops_def default_notify_request_id_def)
qed

lemma eap_tls_create_requires: "eap_tls_create L f = Some (Ok m) \<Longrightarrow> ctx_requires_client_certificate (tf_ctx f)"
  by (auto simp: eap_tls_create_def eap_tls_new_def split: if_splits result.splits)

lemma conversation_created: "conversation ops create es m \<Longrightarrow> \<exists>m0. create = Ok m0"
  by (induction rule: conversation.induct) auto

text \<open>
  C8: EAP-TLS acceptance is certificate authentication. Whatever rounds an EAP-TLS handler has served, a
  round is accepted only if the server demands client certificates and the round answers, under the State
  of a logged conversation and with a bare acknowledgement, a session whose handshake libssl completed
  (\<open>authenticated\<close>) and of whose last flight no fragment is left to send; draining the tunnel in that round
  yields no application data and the peer has not closed it. The keys are the first half of the 128 bytes
  exported under the label of the protocol version.
\<close>

theorem eap_tls_accept_authenticated:
  assumes "tls_engine L plaintext authenticated" and "eap_tls_create L f = Some create"
    and "store_with_limits timeout capacity = Some st0"
    and "eap_history (eap_tls_ops L) create st0 rounds = Some (store, log)"
    and "eap_dispatch_round (eap_tls_ops L) create env store existing buf un outer = Some (store', Ok (DispAccept i k peer t))"
  shows "ctx_requires_client_certificate (tf_ctx f) \<and>
    (\<exists>pkt es m0 tun ssl out. eap_parse buf = Ok pkt \<and> eap_code pkt = EAP_RESPONSE \<and> eap_typ pkt = Some EAP_TLS
      \<and> conversation (eap_tls_ops L) create es m0 \<and> subseq es log
      \<and> existing = Some (ev_state (last es)) \<and> et_state m0 = AwaitingFinalAck \<and> bare_ack (eap_type_data pkt)
      \<and> tun_handshake_done (et_tunnel m0) \<and> \<not> has_pending_tx (et_tunnel m0)
      \<and> drain_decrypted L (et_tunnel m0) [] = Some (tun, [], Ok ()) \<and> ssl = conn_ssl (tun_tls tun)
      \<and> authenticated ssl \<and> \<not> SSL_received_shutdown L ssl \<and> k = take 64 out
      \<and> SSL_export_keying_material L ssl 128
          (if TLS1_3_VERSION L \<le> SSL_version L ssl then EAP_TLS_LABEL_TLS13 else EAP_TLS_LABEL_TLS12)
          (if TLS1_3_VERSION L \<le> SSL_version L ssl then Some [0x0d] else None) = (1, out))"
  using assms(3-5)
proof (cases rule: accepted_cases)
  case (identity pkt m0 m e)
  then show ?thesis by (auto simp: eap_tls_ops_def eap_tls_start_def)
next
  case (session pkt es m0 m e)
  obtain m1 where "process_response L (eap_type_data pkt) m0 = Some (m1, Ok (MSuccess k e))"
    using session(7) by (auto simp: eap_tls_ops_def eap_tls_step_def)
  from process_response_success [OF this] obtain t where s: "et_state m0 = AwaitingFinalAck" "bare_ack (eap_type_data pkt)"
    "drain_decrypted L (et_tunnel m0) [] = Some (t, [], Ok ())" "\<not> received_close_notify L (tun_tls t)"
    "eap_tls_export_msk_emsk L (m0\<lparr>et_tunnel := t\<rparr>) = Ok (k, e)" by auto
  have inv: "et_inv authenticated m0" by (rule eap_tls_conversation_inv [OF assms(1,2) session(3)])
  then have t: "tunnel_inv authenticated t" "tun_handshake_done t"
    using drain_inv [OF assms(1) _ s(3)] s(1) by (auto simp: et_inv_def)
  let ?ssl = "conn_ssl (tun_tls t)"
  have au: "authenticated ?ssl" using t by (simp add: tunnel_inv_def conn_inv_def)
  have "\<exists>out. SSL_export_keying_material L ?ssl 128
          (if TLS1_3_VERSION L \<le> SSL_version L ?ssl then EAP_TLS_LABEL_TLS13 else EAP_TLS_LABEL_TLS12)
          (if TLS1_3_VERSION L \<le> SSL_version L ?ssl then Some [0x0d] else None) = (1, out) \<and> k = take 64 out"
    using s(5) by (auto simp: eap_tls_export_msk_emsk_def tunnel_export_msk_emsk_def tunnel_export_keying_material_def
        conn_export_keying_material_def is_tls13_def tls_err_def split: if_splits result.splits prod.splits)
  then obtain out where out: "SSL_export_keying_material L ?ssl 128
          (if TLS1_3_VERSION L \<le> SSL_version L ?ssl then EAP_TLS_LABEL_TLS13 else EAP_TLS_LABEL_TLS12)
          (if TLS1_3_VERSION L \<le> SSL_version L ?ssl then Some [0x0d] else None) = (1, out)" "k = take 64 out" by blast
  obtain m2 where "create = Ok m2" using conversation_created [OF session(3)] by blast
  then have "ctx_requires_client_certificate (tf_ctx f)" using eap_tls_create_requires assms(2) by simp
  moreover have "eap_typ pkt = Some EAP_TLS" using session(6) by (simp add: eap_tls_ops_def)
  moreover have "tun_handshake_done (et_tunnel m0)" "\<not> has_pending_tx (et_tunnel m0)" using inv s(1) by (simp_all add: et_inv_def)
  ultimately show ?thesis using session(1-5) s(1-4) au out unfolding received_close_notify_def by blast
qed

section \<open>A login\<close>

definition demo_tls_ctx :: "toy_ssl_state tls_context" where
  "demo_tls_ctx = \<lparr>ctx_inner = toy_ssl_new, ctx_is_client = False, ctx_requires_client_certificate = True\<rparr>"

definition demo_tunnel :: "toy_ssl_state \<Rightarrow> bool \<Rightarrow> (toy_ssl_state, toy_ssl_state) tls_tunnel" where
  "demo_tunnel ssl done = \<lparr>tun_tls = \<lparr>conn_ssl = ssl, conn_handshake_done = done, conn_expected_server_name = None, conn_context = demo_tls_ctx\<rparr>,
     tun_reassembler = re_new, tun_pending_tx = [], tun_tx_offset = 0, tun_frame_mtu = 1020, tun_handshake_done = done\<rparr>"

lemma demo_tls_create:
  "eap_tls_create toy_ssl (eap_tls_factory_new demo_tls_ctx) = Some (Ok \<lparr>et_tunnel = demo_tunnel toy_ssl_new False, et_state = Handshaking\<rparr>)"
  by (simp add: eap_tls_create_def eap_tls_new_def tunnel_new_def tls_accept_def tls_new_def tls_err_def eap_tls_with_frame_mtu_def
      set_frame_mtu_def eap_tls_factory_new_def demo_tls_ctx_def demo_tunnel_def)

lemma demo_ingest:
  "ingest_peer_frame [0, 1] (demo_tunnel ssl done) = Some (demo_tunnel ssl done, Ok (Some [1]))"
proof -
  have "frame_parse [0, 1] = Ok \<lparr>frame_flags = Flags 0, total_length = None, payload = [1]\<rparr>"
    by (simp add: frame_parse_def length_included_def)
  then show ?thesis
    by (simp add: ingest_peer_frame_def push_def push_header_def push_fits_def length_included_def more_fragments_def is_complete_def
        re_take_def re_reset_def re_new_def re_with_max_total_length_def demo_tunnel_def Let_def)
qed

lemma demo_tls_finished:
  "eap_tls_step toy_ssl rnd [0, 1] outer \<lparr>et_tunnel = demo_tunnel toy_ssl_new False, et_state = Handshaking\<rparr>
     = Some (\<lparr>et_tunnel = demo_tunnel (toy_ssl_new\<lparr>toy_done := True\<rparr>) True, et_state = AwaitingFinalAck\<rparr>, Ok (MContinue [0, 7]))"
proof -
  let ?s = "toy_ssl_new\<lparr>toy_done := True\<rparr>"
  have feed: "feed_tls toy_ssl [1] (demo_tunnel toy_ssl_new False) = (demo_tunnel (toy_ssl_new\<lparr>toy_in := [1]\<rparr>) False, Ok ())"
    by (simp add: feed_tls_def feed_input_def demo_tunnel_def tls_err_def c_int_len_def toy_ssl_new_def)
  have drive: "drive_handshake toy_ssl (demo_tunnel (toy_ssl_new\<lparr>toy_in := [1]\<rparr>) False) = (demo_tunnel (?s\<lparr>toy_out := [7]\<rparr>) True, Ok True)"
    by (simp add: drive_handshake_def tls_process_def demo_tunnel_def tls_err_def toy_ssl_new_def demo_tls_ctx_def)
  have drain: "drain_decrypted toy_ssl (demo_tunnel (?s\<lparr>toy_out := [7]\<rparr>) True) [] = Some (demo_tunnel (?s\<lparr>toy_out := [7]\<rparr>) True, [], Ok ())"
    by (rule toy_drain) (simp_all add: demo_tunnel_def toy_ssl_new_def)
  have refill: "refill_pending_tx toy_ssl (demo_tunnel (?s\<lparr>toy_out := [7]\<rparr>) True) = Some ((demo_tunnel ?s True)\<lparr>tun_pending_tx := [7]\<rparr>, Ok ())"
    by (subst toy_refill) (simp_all add: demo_tunnel_def toy_ssl_new_def)
  have emit: "emit_next_outbound_fragment ((demo_tunnel ?s True)\<lparr>tun_pending_tx := [7]\<rparr>) = (demo_tunnel ?s True, [0, 7])"
    by (simp add: emit_next_outbound_fragment_def demo_tunnel_def frame_encode_def)
  have sel: "tun_tls (demo_tunnel s d) = \<lparr>conn_ssl = s, conn_handshake_done = d, conn_expected_server_name = None, conn_context = demo_tls_ctx\<rparr>"
    "tun_handshake_done (demo_tunnel s d) = d" "tun_pending_tx (demo_tunnel s d) = []" "tun_tx_offset (demo_tunnel s d) = 0" for s d
    by (simp_all add: demo_tunnel_def)
  have "process_response toy_ssl [0, 1] \<lparr>et_tunnel = demo_tunnel toy_ssl_new False, et_state = Handshaking\<rparr>
      = Some (\<lparr>et_tunnel = demo_tunnel ?s True, et_state = AwaitingFinalAck\<rparr>, Ok (MContinue [0, 7]))"
    by (simp add: process_response_def call_bind_def et_on_tunnel_def demo_ingest feed drive eap_tls_completed_def check_peer_records_def
        drain refill eap_tls_emit_def emit received_close_notify_def is_tls13_def has_pending_tx_def sel)
  then show ?thesis by (simp add: eap_tls_step_def)
qed

lemma demo_tls_success:
  "eap_tls_step toy_ssl rnd [0] outer \<lparr>et_tunnel = demo_tunnel (toy_ssl_new\<lparr>toy_done := True\<rparr>) True, et_state = AwaitingFinalAck\<rparr>
     = Some (\<lparr>et_tunnel = demo_tunnel (toy_ssl_new\<lparr>toy_done := True\<rparr>) True, et_state = Finished\<rparr>,
         Ok (MSuccess (replicate 64 21) (replicate 64 21)))"
proof -
  let ?t = "demo_tunnel (toy_ssl_new\<lparr>toy_done := True\<rparr>) True"
  have drain: "drain_decrypted toy_ssl ?t [] = Some (?t, [], Ok ())"
    by (rule toy_drain) (simp_all add: demo_tunnel_def toy_ssl_new_def)
  have p: "frame_parse [0] = Ok \<lparr>frame_flags = Flags 0, total_length = None, payload = []\<rparr>"
    by (simp add: frame_parse_def length_included_def)
  have len: "length EAP_TLS_LABEL_TLS12 = 21" by (simp add: EAP_TLS_LABEL_TLS12_def)
  have "eap_tls_export_msk_emsk toy_ssl \<lparr>et_tunnel = ?t, et_state = AwaitingFinalAck\<rparr> = Ok (replicate 64 21, replicate 64 21)"
    by (simp add: eap_tls_export_msk_emsk_def tunnel_export_msk_emsk_def tunnel_export_keying_material_def
        conn_export_keying_material_def is_tls13_def tls_err_def demo_tunnel_def len)
  then show ?thesis using p drain
    by (simp add: eap_tls_step_def process_response_def length_included_def more_fragments_def start_flag_def call_bind_def
        check_peer_records_def received_close_notify_def)
qed

theorem eap_tls_accept_authenticated_witness:
  "\<exists>create store log store'. eap_tls_create toy_ssl (eap_tls_factory_new demo_tls_ctx) = Some create
    \<and> eap_history (eap_tls_ops toy_ssl) create demo_store [(demo_env, None, demo_identity, None, []),
        (demo_env, Some (replicate 16 3), [2, 1, 0, 7, 13, 0, 1], None, [])] = Some (store, log)
    \<and> eap_dispatch_round (eap_tls_ops toy_ssl) create demo_env store (Some (replicate 16 3)) [2, 2, 0, 6, 13, 0] None []
        = Some (store', Ok (DispAccept 2 (replicate 64 21) None EAP_TLS))
    \<and> ctx_requires_client_certificate demo_tls_ctx \<and> length log = 2"
proof -
  let ?m0 = "\<lparr>et_tunnel = demo_tunnel toy_ssl_new False, et_state = Handshaking\<rparr>"
  let ?m1 = "\<lparr>et_tunnel = demo_tunnel (toy_ssl_new\<lparr>toy_done := True\<rparr>) True, et_state = AwaitingFinalAck\<rparr>"
  let ?ops = "eap_tls_ops toy_ssl"
  have env: "env_take demo_env = 5" "env_insert demo_env = 6" "env_session_id demo_env = replicate 16 3" by (simp_all add: demo_env_def)
  have ops: "m_step ?ops = eap_tls_step toy_ssl" "m_typ ?ops x = EAP_TLS" "m_notify_request_id ?ops i x = x"
    "m_start ?ops = eap_tls_start" "notified ?ops u x = x" "m_authenticated_identity ?ops x = None" for x i u
    by (simp_all add: eap_tls_ops_def default_notify_request_id_def notified_def default_notify_peer_identity_def
        default_authenticated_identity_def split: option.splits)
  have p1: "eap_parse [2, 1, 0, 7, 13, 0, 1] = Ok \<lparr>eap_code = EAP_RESPONSE, eap_identifier = 1, eap_payload = [13, 0, 1]\<rparr>"
    by (simp add: eap_parse_def u16_from_be_eq)
  have p2: "eap_parse [2, 2, 0, 6, 13, 0] = Ok \<lparr>eap_code = EAP_RESPONSE, eap_identifier = 2, eap_payload = [13, 0]\<rparr>"
    by (simp add: eap_parse_def u16_from_be_eq)
  obtain st1 s1 i1 where r1: "eap_dispatch_round ?ops (Ok ?m0) demo_env demo_store None demo_identity None []
      = Some (st1, Ok (DispChallenge start_frame i1 EAP_TLS (replicate 16 3)))"
    "stored_at st1 (replicate 16 3) = Some (s1, 16)" "session_method s1 = ?m0" "idle_timeout st1 = 10"
    by (rule start_round [OF demo_identity_parse, of "Ok ?m0" ?m0 ?ops demo_env "[]" None ?m0 start_frame demo_store None])
      (simp_all add: eap_typ_def ops eap_tls_start_def env demo_store_def)
  obtain st2 s2 i2 where r2: "eap_dispatch_round ?ops (Ok ?m0) demo_env st1 (Some (replicate 16 3)) [2, 1, 0, 7, 13, 0, 1] None []
      = Some (st2, Ok (DispChallenge [0, 7] i2 EAP_TLS (replicate 16 3)))"
    "stored_at st2 (replicate 16 3) = Some (s2, 16)" "session_method s2 = ?m1"
    by (rule step_round [OF r1(2) _ p1, of demo_env ?ops "[]" ?m1 "[0, 7]" "Ok ?m0" None])
      (simp_all add: env ops eap_typ_def eap_type_data_def r1(3,4) demo_tls_finished)
  obtain st3 where r3: "eap_dispatch_round ?ops (Ok ?m0) demo_env st2 (Some (replicate 16 3)) [2, 2, 0, 6, 13, 0] None []
      = Some (st3, Ok (DispAccept 2 (replicate 64 21) None EAP_TLS))"
    by (rule success_round [OF r2(2) _ p2, of demo_env ?ops "[]" _ "replicate 64 21" _ "Ok ?m0" None])
      (simp_all add: env ops eap_typ_def eap_type_data_def r2(3) demo_tls_success)
  obtain log where h: "eap_history ?ops (Ok ?m0) demo_store [(demo_env, None, demo_identity, None, []),
        (demo_env, Some (replicate 16 3), [2, 1, 0, 7, 13, 0, 1], None, [])] = Some (st2, log)" "length log = 2"
    using r1(1) r2(1) by (simp add: demo_identity_parse p1 eap_typ_def)
  have "ctx_requires_client_certificate demo_tls_ctx"
    using eap_tls_accept_authenticated [OF toy_engine demo_tls_create demo_store_new h(1) r3] by (simp add: eap_tls_factory_new_def)
  then show ?thesis using demo_tls_create h r3 by blast
qed

section \<open>Delivery of a flight\<close>

text \<open>The peer acknowledges \<open>n\<close> frames in a row; the frames it gets in return.\<close>

fun acks :: "('m \<Rightarrow> 'm method_call) \<Rightarrow> nat \<Rightarrow> 'm \<Rightarrow> ('m \<times> bytes list) option" where
  "acks on_ack 0 m = Some (m, [])"
| "acks on_ack (Suc n) m =
     (case on_ack m of
        Some (m', Ok (MContinue fr)) \<Rightarrow> map_option (apsnd (Cons fr)) (acks on_ack n m')
      | _ \<Rightarrow> None)"

abbreviation eap_tls_acks :: "('ctx, 'ssl) libssl \<Rightarrow> nat \<Rightarrow> ('ctx, 'ssl) eap_tls \<Rightarrow> (('ctx, 'ssl) eap_tls \<times> bytes list) option" where
  "eap_tls_acks L \<equiv> acks (eap_tls_step L [] ack_frame [])"

lemma bare_ack_ack_frame: "bare_ack ack_frame" "frame_parse ack_frame = Ok \<lparr>frame_flags = Flags 0, total_length = None, payload = []\<rparr>"
  by (simp_all add: bare_ack_def ack_frame_def frame_parse_def length_included_def more_fragments_def start_flag_def)

lemma eap_tls_ack_step:
  assumes "et_state m = AwaitingFragmentAck"
  shows "eap_tls_step L rnd ack_frame outer m = eap_tls_emit m"
proof -
  obtain m' fr where e: "eap_tls_emit m = Some (m', Ok (MContinue fr))"
    by (cases "has_pending_tx (et_tunnel m)"; cases "emit_next_outbound_fragment (et_tunnel m)") (simp_all add: eap_tls_emit_def)
  have "process_response L ack_frame m = eap_tls_emit m"
    using assms by (simp add: process_response_acked bare_ack_ack_frame)
  then show ?thesis by (simp add: eap_tls_step_def e)
qed

definition flight_sent :: "('ctx, 'ssl) eap_tls \<Rightarrow> bool \<Rightarrow> bool" where
  "flight_sent m done \<longleftrightarrow> \<not> has_pending_tx (et_tunnel m) \<and> et_state m = (if done then AwaitingFinalAck else Handshaking)"

lemma eap_tls_acks_emit_all:
  "has_pending_tx (et_tunnel m) \<Longrightarrow> 0 < tun_frame_mtu (et_tunnel m) \<Longrightarrow> et_state m = AwaitingFragmentAck \<Longrightarrow>
     \<exists>m'. eap_tls_acks L (length (emit_all (et_tunnel m))) m = Some (m', emit_all (et_tunnel m))
       \<and> flight_sent m' (tun_handshake_done (et_tunnel m))"
proof (induction "et_tunnel m" arbitrary: m rule: emit_all.induct)
  case 1
  obtain t fr where e: "emit_next_outbound_fragment (et_tunnel m) = (t, fr)" by (cases "emit_next_outbound_fragment (et_tunnel m)")
  have all: "emit_all (et_tunnel m) = fr # emit_all t" using 1(2,3) e by (subst emit_all.simps) simp
  let ?m = "m\<lparr>et_tunnel := t, et_state := (if has_pending_tx t then AwaitingFragmentAck
                                  else if tun_handshake_done t then AwaitingFinalAck else Handshaking)\<rparr>"
  have step: "eap_tls_step L [] ack_frame [] m = Some (?m, Ok (MContinue fr))"
    using 1(2,4) e by (simp add: eap_tls_ack_step eap_tls_emit_def)
  note same = emit_inv [OF e]
  show ?case
  proof (cases "has_pending_tx t")
    case True
    then show ?thesis
      using 1(1) [of ?m fr] 1(2,3) e step all same by simp
  next
    case False
    then have "emit_all t = []" by (subst emit_all.simps) simp
    then show ?thesis using all step False same by (simp add: flight_sent_def)
  qed
qed

lemma eap_tls_emits_flight:
  assumes "has_pending_tx (et_tunnel m)" and "0 < tun_frame_mtu (et_tunnel m)"
  shows "\<exists>m1 f1 m2 frames. eap_tls_emit m = Some (m1, Ok (MContinue f1)) \<and> eap_tls_acks L (length frames) m1 = Some (m2, frames)
    \<and> f1 # frames = emit_all (et_tunnel m) \<and> flight_sent m2 (tun_handshake_done (et_tunnel m))"
proof -
  obtain t fr where e: "emit_next_outbound_fragment (et_tunnel m) = (t, fr)" by (cases "emit_next_outbound_fragment (et_tunnel m)")
  have all: "emit_all (et_tunnel m) = fr # emit_all t" using assms e by (subst emit_all.simps) simp
  let ?m = "m\<lparr>et_tunnel := t, et_state := (if has_pending_tx t then AwaitingFragmentAck
                                  else if tun_handshake_done t then AwaitingFinalAck else Handshaking)\<rparr>"
  have step: "eap_tls_emit m = Some (?m, Ok (MContinue fr))" using assms(1) e by (simp add: eap_tls_emit_def)
  note same = emit_inv [OF e]
  show ?thesis
  proof (cases "has_pending_tx t")
    case True
    then show ?thesis using eap_tls_acks_emit_all [of ?m L] step all same assms(2) by auto
  next
    case False
    then have "emit_all t = []" by (subst emit_all.simps) simp
    then show ?thesis using all step False same
      by (intro exI [of _ ?m] exI [of _ fr] exI [of _ ?m] exI [of _ "[]"]) (simp add: flight_sent_def)
  qed
qed

text \<open>
  C9: EAP-TLS delivers every flight of the server. Let \<open>refill_pending_tx\<close> have collected a flight the engine
  produced. The method sends a first frame; the peer acknowledges each frame with an empty one and
  gets the next, and after finitely many acknowledgements the method has nothing left and waits for
  the next message, or for the final acknowledgement if the handshake is over. The peer's
  reassembler accepts all the frames, reports completion exactly at the last one, and yields the
  flight, byte for byte.
\<close>

theorem eap_tls_flight_delivered:
  assumes "refill_pending_tx L t0 = Some (et_tunnel m, Ok ())" and "tun_pending_tx (et_tunnel m) = flight"
    and "flight \<noteq> []" and "0 < tun_frame_mtu (et_tunnel m)" and "length flight \<le> unat mx"
  shows "\<exists>m1 f1 m2 frames r k. eap_tls_emit m = Some (m1, Ok (MContinue f1))
    \<and> eap_tls_acks L (length frames) m1 = Some (m2, frames)
    \<and> feed (re_with_max_total_length mx) (f1 # frames) = Some (r, replicate k False @ [True])
    \<and> re_take r = (re_with_max_total_length mx, flight)
    \<and> \<not> has_pending_tx (et_tunnel m2)
    \<and> et_state m2 = (if tun_handshake_done (et_tunnel m) then AwaitingFinalAck else Handshaking)"
proof -
  let ?t = "et_tunnel m"
  have off: "tun_tx_offset ?t = 0" using refill_pending_tx_keeps [OF assms(1), of "\<lambda>_. True"] by auto
  then have pend: "has_pending_tx ?t" using assms(2,3) by (simp add: has_pending_tx_def)
  have "fragmenter_new flight (tun_frame_mtu ?t) 0 = Some (tunnel_fragmenter ?t)"
    using off assms(2,4) by (simp add: fragmenter_new_def tunnel_fragmenter_def)
  from fragments_reassembled [OF this assms(3,5)] obtain r k where
    "feed (re_with_max_total_length mx) (map wire_fragment (fragments_of (tunnel_fragmenter ?t))) = Some (r, replicate k False @ [True])"
    "re_take r = (re_with_max_total_length mx, flight)" by auto
  then show ?thesis
    using eap_tls_emits_flight [OF pend assms(4), of L] emit_all_fragments [OF pend assms(4)] unfolding flight_sent_def by metis
qed

theorem eap_tls_flight_delivered_witness:
  "\<exists>m1 f1 m2 frames. eap_tls_emit \<lparr>et_tunnel = (demo_tunnel toy_ssl_new False)\<lparr>tun_frame_mtu := 2, tun_pending_tx := [1, 2, 3, 4, 5]\<rparr>,
      et_state = Handshaking\<rparr> = Some (m1, Ok (MContinue f1)) \<and> eap_tls_acks toy_ssl (length frames) m1 = Some (m2, frames)"
proof -
  let ?t = "(demo_tunnel (toy_ssl_new\<lparr>toy_out := [1, 2, 3, 4, 5]\<rparr>) False)\<lparr>tun_frame_mtu := 2\<rparr>"
  let ?m = "\<lparr>et_tunnel = (demo_tunnel toy_ssl_new False)\<lparr>tun_frame_mtu := 2, tun_pending_tx := [1, 2, 3, 4, 5]\<rparr>, et_state = Handshaking\<rparr>"
  have "refill_pending_tx toy_ssl ?t = Some (et_tunnel ?m, Ok ())"
    by (subst toy_refill) (simp_all add: demo_tunnel_def toy_ssl_new_def)
  from eap_tls_flight_delivered [OF this, of "[1, 2, 3, 4, 5]" 65536] show ?thesis by auto
qed

end
