(* ===== verification/Eap_Ttls.thy ===== *)
theory Eap_Ttls
  imports Eap_Tls Auth_Methods
begin

text \<open>
  \<^verbatim>\<open>crates/radius-tokio-eap/src/eap_ttls.rs\<close>: EAP-TTLS with the PAP inner method. The inner method is a record of
  operations; the credentials are application code.
\<close>

section \<open>Attribute-value pairs\<close>

definition TTLS_EXPORTER_LABEL :: bytes where
  "TTLS_EXPORTER_LABEL = map of_char ''ttls keying material''"

definition AVP_USER_NAME :: u32 where [simp]: "AVP_USER_NAME = 1"
definition AVP_USER_PASSWORD :: u32 where [simp]: "AVP_USER_PASSWORD = 2"
definition AVP_CHAP_PASSWORD :: u32 where [simp]: "AVP_CHAP_PASSWORD = 3"
definition AVP_CHAP_CHALLENGE :: u32 where [simp]: "AVP_CHAP_CHALLENGE = 60"
definition AVP_EAP_MESSAGE :: u32 where [simp]: "AVP_EAP_MESSAGE = 79"
definition AVP_FLAG_V :: u8 where [simp]: "AVP_FLAG_V = 0x80"
definition AVP_FLAG_M :: u8 where [simp]: "AVP_FLAG_M = 0x40"

record avp =
  avp_code :: u32
  avp_vendor :: "u32 option"
  avp_mandatory :: bool
  avp_data :: bytes

text \<open>The length rounded up to a multiple of four, \<open>(length + 3) & !3\<close>.\<close>

definition avp_padded :: "nat \<Rightarrow> nat" where
  "avp_padded n = (n + 3) div 4 * 4"

function parse_avps_loop :: "bytes \<Rightarrow> avp list \<Rightarrow> (eap_error, avp list) result" where
  "parse_avps_loop bs out =
     (if bs = [] then Ok out
      else if length bs < 8 then Err (Framing ''AVP header truncated'')
      else
        let code = u32_from_be (take 4 bs);
            flags = bs ! 4;
            len = from_be (take 3 (drop 5 bs));
            has_vendor = (flags AND AVP_FLAG_V \<noteq> 0);
            header_len = (if has_vendor then 12 else 8)
        in if len < header_len then Err (Framing ''AVP length smaller than header'')
           else if length bs < len then Err (Framing ''AVP length exceeds buffer'')
           else
             let vendor = (if has_vendor then Some (u32_from_be (take 4 (drop 8 bs))) else None);
                 out = out @ [\<lparr>avp_code = code, avp_vendor = vendor, avp_mandatory = (flags AND AVP_FLAG_M \<noteq> 0),
                                avp_data = take (len - header_len) (drop header_len bs)\<rparr>];
                 padded = avp_padded len
             in if length bs < padded then parse_avps_loop (drop len bs) out
                else parse_avps_loop (drop padded bs) out)"
  by pat_completeness auto
termination
  by (relation "measure (\<lambda>(bs, out). length bs)") (auto simp: avp_padded_def split: if_splits)

declare parse_avps_loop.simps [simp del]

definition parse_avps :: "bytes \<Rightarrow> (eap_error, avp list) result" where
  "parse_avps bs = parse_avps_loop bs []"

section \<open>The inner method\<close>

datatype ttls_inner_outcome =
    TtlsContinue bytes
  | TtlsSuccess
  | TtlsFailure

record 'i ttls_inner_ops =
  ti_authenticated_identity :: "'i \<Rightarrow> bytes option"
  ti_process :: "avp list \<Rightarrow> bytes \<Rightarrow> 'i \<Rightarrow> ('i \<times> (eap_error, ttls_inner_outcome) result) option"

type_synonym pap_credentials = "bytes \<Rightarrow> bytes \<Rightarrow> bytes \<Rightarrow> bool"

record static_pap_credentials =
  spc_username :: bytes
  spc_password :: bytes

definition static_pap_cleartext :: "bytes \<Rightarrow> bytes \<Rightarrow> static_pap_credentials" where
  "static_pap_cleartext u p = \<lparr>spc_username = u, spc_password = p\<rparr>"

definition static_pap_verify :: "crypto \<Rightarrow> static_pap_credentials \<Rightarrow> pap_credentials" where
  "static_pap_verify C sc outer u p = (if u \<noteq> spc_username sc then False else ct_eq C p (spc_password sc))"

record pap_inner =
  pi_authenticated_username :: "bytes option"

definition pap_inner_new :: pap_inner where
  "pap_inner_new = \<lparr>pi_authenticated_username = None\<rparr>"

text \<open>The loop over the AVPs; \<open>None\<close> is its early return of \<open>Failure\<close>.\<close>

fun pap_scan :: "avp list \<Rightarrow> bytes option \<Rightarrow> bytes option \<Rightarrow> (bytes option \<times> bytes option) option" where
  "pap_scan [] user pass = Some (user, pass)"
| "pap_scan (a # as) user pass =
     (if avp_vendor a = None \<and> avp_code a = AVP_USER_NAME then
        (if user \<noteq> None then None else pap_scan as (Some (avp_data a)) pass)
      else if avp_vendor a = None \<and> avp_code a = AVP_USER_PASSWORD then
        (if pass \<noteq> None then None else pap_scan as user (Some (avp_data a)))
      else if avp_mandatory a then None
      else pap_scan as user pass)"

definition trim_nuls :: "bytes \<Rightarrow> bytes" where
  "trim_nuls pass = (case rposition (\<lambda>b. b \<noteq> 0) pass of Some idx \<Rightarrow> take (idx + 1) pass | None \<Rightarrow> [])"

definition pap_process ::
    "pap_credentials \<Rightarrow> avp list \<Rightarrow> bytes \<Rightarrow> pap_inner \<Rightarrow> (pap_inner \<times> (eap_error, ttls_inner_outcome) result) option" where
  "pap_process creds avps outer p =
     (let p = p\<lparr>pi_authenticated_username := None\<rparr>
      in case pap_scan avps None None of
           None \<Rightarrow> Some (p, Ok TtlsFailure)
         | Some (Some user, Some pass) \<Rightarrow>
             if creds outer user (trim_nuls pass)
             then Some (p\<lparr>pi_authenticated_username := Some user\<rparr>, Ok TtlsSuccess)
             else Some (p, Ok TtlsFailure)
         | Some _ \<Rightarrow> Some (p, Ok TtlsFailure))"

definition pap_inner_ops :: "pap_credentials \<Rightarrow> pap_inner ttls_inner_ops" where
  "pap_inner_ops creds = \<lparr>ti_authenticated_identity = pi_authenticated_username, ti_process = pap_process creds\<rparr>"

definition pap_inner_create :: "(eap_error, pap_inner) result" where
  "pap_inner_create = Ok pap_inner_new"

section \<open>The method\<close>

datatype inner_result = ResSuccess | ResFailure

record ('ctx, 'ssl, 'i) eap_ttls =
  tt_tunnel :: "('ctx, 'ssl) tls_tunnel"
  tt_inner :: 'i
  tt_inner_rx_buf :: bytes
  tt_inner_terminator :: "inner_result option"

definition eap_ttls_new :: "('ctx, 'ssl) libssl \<Rightarrow> 'ctx tls_context \<Rightarrow> 'i \<Rightarrow> (eap_error, ('ctx, 'ssl, 'i) eap_ttls) result" where
  "eap_ttls_new L ctx i =
     (case tunnel_new L ctx DEFAULT_FRAME_MTU of
        Err e \<Rightarrow> Err e
      | Ok t \<Rightarrow> Ok \<lparr>tt_tunnel = t, tt_inner = i, tt_inner_rx_buf = [], tt_inner_terminator = None\<rparr>)"

definition eap_ttls_with_frame_mtu :: "nat \<Rightarrow> ('ctx, 'ssl, 'i) eap_ttls \<Rightarrow> ('ctx, 'ssl, 'i) eap_ttls option" where
  "eap_ttls_with_frame_mtu mtu m = map_option (\<lambda>t. m\<lparr>tt_tunnel := t\<rparr>) (set_frame_mtu mtu (tt_tunnel m))"

definition tt_on_tunnel :: "(('ctx, 'ssl) tls_tunnel, 'a) call \<Rightarrow> (('ctx, 'ssl, 'i) eap_ttls, 'a) call" where
  "tt_on_tunnel f m = map_option (\<lambda>(t, r). (m\<lparr>tt_tunnel := t\<rparr>, r)) (f (tt_tunnel m))"

definition ttls_ingest :: "('ctx, 'ssl) libssl \<Rightarrow> bytes \<Rightarrow> (('ctx, 'ssl) tls_tunnel, unit) call" where
  "ttls_ingest L peer_type_data =
     call_bind (ingest_peer_frame peer_type_data) (\<lambda>tls_bytes.
       case tls_bytes of
         None \<Rightarrow> call_ok ()
       | Some bs \<Rightarrow>
           call_bind (\<lambda>t. Some (feed_tls L bs t)) (\<lambda>_.
           call_bind (\<lambda>t. Some (drive_handshake L t)) (\<lambda>_. call_ok ())))"

definition ttls_drain :: "('ctx, 'ssl) libssl \<Rightarrow> (('ctx, 'ssl, 'i) eap_ttls, unit) call" where
  "ttls_drain L m =
     (if tun_handshake_done (tt_tunnel m) then
        map_option (\<lambda>(t, buf, r). (m\<lparr>tt_tunnel := t, tt_inner_rx_buf := buf\<rparr>, r))
          (drain_decrypted L (tt_tunnel m) (tt_inner_rx_buf m))
      else Some (m, Ok ()))"

definition ttls_dispatch ::
    "('ctx, 'ssl) libssl \<Rightarrow> 'i ttls_inner_ops \<Rightarrow> bytes \<Rightarrow> (('ctx, 'ssl, 'i) eap_ttls, unit) call" where
  "ttls_dispatch L iops outer m =
     (if tun_handshake_done (tt_tunnel m) \<and> tt_inner_terminator m = None \<and> tt_inner_rx_buf m \<noteq> [] then
        let avp_bytes = tt_inner_rx_buf m; m = m\<lparr>tt_inner_rx_buf := []\<rparr>
        in (case parse_avps avp_bytes of
              Err e \<Rightarrow> Some (m, Err e)
            | Ok avps \<Rightarrow>
                Option.bind (ti_process iops avps outer (tt_inner m)) (\<lambda>(i, r).
                  let m = m\<lparr>tt_inner := i\<rparr>
                  in case r of
                       Err e \<Rightarrow> Some (m, Err e)
                     | Ok (TtlsContinue reply) \<Rightarrow>
                         if reply \<noteq> [] then tt_on_tunnel (\<lambda>t. Some (write_app_data L reply t)) m else Some (m, Ok ())
                     | Ok TtlsSuccess \<Rightarrow> Some (m\<lparr>tt_inner_terminator := Some ResSuccess\<rparr>, Ok ())
                     | Ok TtlsFailure \<Rightarrow> Some (m\<lparr>tt_inner_terminator := Some ResFailure\<rparr>, Ok ())))
      else Some (m, Ok ()))"

definition ttls_emit_or :: "(('ctx, 'ssl, 'i) eap_ttls, method_outcome) call \<Rightarrow> (('ctx, 'ssl, 'i) eap_ttls, method_outcome) call" where
  "ttls_emit_or rest m =
     (if has_pending_tx (tt_tunnel m) then
        (case emit_next_outbound_fragment (tt_tunnel m) of
           (t, fragment) \<Rightarrow> Some (m\<lparr>tt_tunnel := t\<rparr>, Ok (MContinue fragment)))
      else rest m)"

definition ttls_conclude :: "('ctx, 'ssl) libssl \<Rightarrow> (('ctx, 'ssl, 'i) eap_ttls, method_outcome) call" where
  "ttls_conclude L m =
     (case tt_inner_terminator m of
        Some ResSuccess \<Rightarrow>
          Some (m, case tunnel_export_msk_emsk L TTLS_EXPORTER_LABEL None (tt_tunnel m) of
                     Err e \<Rightarrow> Err e
                   | Ok (k, ek) \<Rightarrow> Ok (MSuccess k ek))
      | Some ResFailure \<Rightarrow> Some (m, Ok MFailure)
      | None \<Rightarrow> Some (m, Ok (MContinue ack_frame)))"

definition eap_ttls_start :: "bytes \<Rightarrow> bytes \<Rightarrow> ('ctx, 'ssl, 'i) eap_ttls \<Rightarrow> ('ctx, 'ssl, 'i) eap_ttls method_call" where
  "eap_ttls_start rnd outer m = Some (m, Ok (MContinue start_frame))"

definition eap_ttls_step ::
    "('ctx, 'ssl) libssl \<Rightarrow> 'i ttls_inner_ops \<Rightarrow> bytes \<Rightarrow> bytes \<Rightarrow> bytes \<Rightarrow> ('ctx, 'ssl, 'i) eap_ttls
      \<Rightarrow> ('ctx, 'ssl, 'i) eap_ttls method_call" where
  "eap_ttls_step L iops rnd peer_type_data outer =
     call_bind (tt_on_tunnel (ttls_ingest L peer_type_data)) (\<lambda>_.
     call_bind (ttls_drain L) (\<lambda>_.
     call_bind (tt_on_tunnel (refill_pending_tx L)) (\<lambda>_.
     ttls_emit_or
       (call_bind (ttls_dispatch L iops outer) (\<lambda>_.
        call_bind (tt_on_tunnel (refill_pending_tx L)) (\<lambda>_.
        ttls_emit_or (ttls_conclude L)))))))"

definition eap_ttls_ops :: "('ctx, 'ssl) libssl \<Rightarrow> 'i ttls_inner_ops \<Rightarrow> ('ctx, 'ssl, 'i) eap_ttls method_ops" where
  "eap_ttls_ops L iops =
     \<lparr>m_typ = (\<lambda>_. TTLS), m_start = eap_ttls_start, m_notify_peer_identity = default_notify_peer_identity,
      m_authenticated_identity = (\<lambda>m. ti_authenticated_identity iops (tt_inner m)),
      m_notify_request_id = default_notify_request_id, m_step = eap_ttls_step L iops\<rparr>"

interpretation eap_ttls_method: stable_method "eap_ttls_ops L iops" for L iops
  by unfold_locales (simp_all add: eap_ttls_ops_def)

record ('ctx, 'i) ttls_factory =
  ttf_ctx :: "'ctx tls_context"
  ttf_inner :: "(eap_error, 'i) result"
  ttf_frame_mtu :: nat

definition ttls_factory_new :: "'ctx tls_context \<Rightarrow> (eap_error, 'i) result \<Rightarrow> ('ctx, 'i) ttls_factory" where
  "ttls_factory_new ctx i = \<lparr>ttf_ctx = ctx, ttf_inner = i, ttf_frame_mtu = DEFAULT_FRAME_MTU\<rparr>"

definition ttls_factory_with_frame_mtu :: "nat \<Rightarrow> ('ctx, 'i) ttls_factory \<Rightarrow> ('ctx, 'i) ttls_factory option" where
  "ttls_factory_with_frame_mtu mtu f = (if mtu > 0 then Some (f\<lparr>ttf_frame_mtu := mtu\<rparr>) else None)"

definition ttls_create ::
    "('ctx, 'ssl) libssl \<Rightarrow> ('ctx, 'i) ttls_factory \<Rightarrow> (eap_error, ('ctx, 'ssl, 'i) eap_ttls) result option" where
  "ttls_create L f =
     (case ttf_inner f of
        Err e \<Rightarrow> Some (Err e)
      | Ok i \<Rightarrow>
          (case eap_ttls_new L (ttf_ctx f) i of
             Err e \<Rightarrow> Some (Err e)
           | Ok m \<Rightarrow> map_option Ok (eap_ttls_with_frame_mtu (ttf_frame_mtu f) m)))"

section \<open>Flights of more than one frame\<close>

lemma ttls_ack_repeats:
  assumes "mid_flight L flight mtu (tt_tunnel m)"
  obtains m' where "eap_ttls_step L iops rnd ack_frame outer m = Some (m', Ok (MContinue (first_frame flight mtu)))"
    "mid_flight L flight mtu (tt_tunnel m')"
proof -
  let ?t = "(tt_tunnel m)\<lparr>tun_reassembler := (tun_reassembler (tt_tunnel m))\<lparr>single_fragment_complete := True\<rparr>\<rparr>"
  have i: "ttls_ingest L ack_frame (tt_tunnel m) = Some (?t, Ok ())"
    using assms by (simp add: ttls_ingest_def call_bind_def ingest_ack mid_flight_def)
  have M: "mid_flight L flight mtu ?t" using assms by simp
  then have r: "refill_pending_tx L ?t = Some (?t\<lparr>tun_tx_offset := 0\<rparr>, Ok ())" by (intro refill_quiet) (simp add: mid_flight_def)
  have e: "emit_next_outbound_fragment (?t\<lparr>tun_tx_offset := 0\<rparr>) = (?t\<lparr>tun_tx_offset := mtu\<rparr>, first_frame flight mtu)"
    using emit_first [of L flight mtu "?t\<lparr>tun_tx_offset := 0\<rparr>"] M by simp
  have p: "has_pending_tx (?t\<lparr>tun_tx_offset := 0\<rparr>)" "\<not> tun_handshake_done ?t"
    using M by (auto simp: mid_flight_def has_pending_tx_def)
  show ?thesis
    by (rule that [of "m\<lparr>tt_tunnel := ?t\<lparr>tun_tx_offset := mtu\<rparr>\<rparr>"])
      (use i r e p M in \<open>simp_all add: eap_ttls_step_def call_bind_def tt_on_tunnel_def ttls_drain_def ttls_emit_or_def\<close>)
qed

lemma ttls_acks_repeat:
  "mid_flight L flight mtu (tt_tunnel m) \<Longrightarrow>
     \<exists>m'. acks (eap_ttls_step L iops rnd ack_frame outer) n m = Some (m', replicate n (first_frame flight mtu))
       \<and> mid_flight L flight mtu (tt_tunnel m')"
proof (induction n arbitrary: m)
  case (Suc n)
  obtain m1 where "eap_ttls_step L iops rnd ack_frame outer m = Some (m1, Ok (MContinue (first_frame flight mtu)))"
    "mid_flight L flight mtu (tt_tunnel m1)" by (rule ttls_ack_repeats [OF Suc.prems])
  then show ?case using Suc.IH [of m1] by auto
qed simp

text \<open>
  C37: EAP-TTLS never gets past the first frame of a long flight. When the server's handshake flight does
  not fit one frame, each acknowledgement of the peer is answered with the first frame again,
  however often the peer acknowledges: \<open>step\<close> calls \<open>refill_pending_tx\<close> in every round, which sets the
  offset of the next frame back to zero. The second frame is never sent, so the handshake cannot
  finish.
\<close>

theorem ttls_flight_repeats:
  assumes "mid_flight L flight mtu (tt_tunnel m)"
  shows "\<exists>m'. acks (eap_ttls_step L iops rnd ack_frame outer) n m = Some (m', replicate n (first_frame flight mtu))
    \<and> tun_pending_tx (tt_tunnel m') = flight \<and> \<not> tun_handshake_done (tt_tunnel m')"
  using ttls_acks_repeat [OF assms] unfolding mid_flight_def by blast

theorem ttls_flight_repeats_witness:
  "\<exists>m'. acks (eap_ttls_step toy_ssl (pap_inner_ops (\<lambda>_ _ _. True)) [] ack_frame []) 1000
      \<lparr>tt_tunnel = (demo_tunnel toy_ssl_new False)\<lparr>tun_frame_mtu := 2, tun_pending_tx := [1, 2, 3]\<rparr>, tt_inner = pap_inner_new,
       tt_inner_rx_buf = [], tt_inner_terminator = None\<rparr>
    = Some (m', replicate 1000 (first_frame [1, 2, 3] 2))"
proof -
  have "mid_flight toy_ssl [1, 2, 3] 2 ((demo_tunnel toy_ssl_new False)\<lparr>tun_frame_mtu := 2, tun_pending_tx := [1, 2, 3]\<rparr>)"
    by (simp add: mid_flight_def demo_tunnel_def re_new_def re_with_max_total_length_def pending_output_def toy_ssl_new_def)
  then have "mid_flight toy_ssl [1, 2, 3] 2 (tt_tunnel \<lparr>tt_tunnel = (demo_tunnel toy_ssl_new False)\<lparr>tun_frame_mtu := 2,
      tun_pending_tx := [1, 2, 3]\<rparr>, tt_inner = pap_inner_new, tt_inner_rx_buf = [], tt_inner_terminator = None\<rparr>)" by simp
  from ttls_flight_repeats [OF this] show ?thesis by blast
qed

section \<open>Acceptance\<close>

text \<open>
  A tunnelled password counts only once the handshake is over: until then nothing is decrypted and
  the inner method is not called.
\<close>

definition ttls_verified :: "'i ttls_inner_ops \<Rightarrow> 'i \<Rightarrow> bool" where
  "ttls_verified iops i \<longleftrightarrow> (\<exists>avps outer i0. ti_process iops avps outer i0 = Some (i, Ok TtlsSuccess))"

definition ttls_inv :: "('ssl \<Rightarrow> bool) \<Rightarrow> 'i ttls_inner_ops \<Rightarrow> ('ctx, 'ssl, 'i) eap_ttls \<Rightarrow> bool" where
  "ttls_inv authenticated iops m \<longleftrightarrow>
     tunnel_inv authenticated (tt_tunnel m)
     \<and> (tt_inner_terminator m = Some ResSuccess \<longrightarrow> tun_handshake_done (tt_tunnel m) \<and> ttls_verified iops (tt_inner m))"

lemma tt_on_tunnel_keeps:
  assumes "call_keeps (tunnel_inv authenticated) f" and "call_keeps tun_handshake_done f"
  shows "call_keeps (ttls_inv authenticated iops) (tt_on_tunnel f)"
proof (rule call_keepsI)
  fix m m' r
  assume m: "ttls_inv authenticated iops m" "tt_on_tunnel f m = Some (m', r)"
  then obtain t where t: "f (tt_tunnel m) = Some (t, r)" "m' = m\<lparr>tt_tunnel := t\<rparr>" by (auto simp: tt_on_tunnel_def)
  then show "ttls_inv authenticated iops m'"
    using call_keepsD [OF assms(1) _ t(1)] call_keepsD [OF assms(2) _ t(1)] m(1) by (auto simp: ttls_inv_def)
qed

lemma ttls_ingest_keeps:
  assumes "tls_engine L plaintext authenticated"
  shows "call_keeps (tunnel_inv authenticated) (ttls_ingest L bs)" and "call_keeps tun_handshake_done (ttls_ingest L bs)"
  unfolding ttls_ingest_def
  by (intro call_keeps_bind ingest_keeps ingest_done; auto split: option.split intro!: call_keeps_ok call_keeps_bind tunnel_keeps assms)+

lemma ttls_drain_keeps:
  assumes "tls_engine L plaintext authenticated"
  shows "call_keeps (ttls_inv authenticated iops) (ttls_drain L)"
proof (rule call_keepsI)
  fix m m' r
  assume m: "ttls_inv authenticated iops m" "ttls_drain L m = Some (m', r)"
  show "ttls_inv authenticated iops m'"
  proof (cases "tun_handshake_done (tt_tunnel m)")
    case True
    then obtain t buf where t: "drain_decrypted L (tt_tunnel m) (tt_inner_rx_buf m) = Some (t, buf, r)"
      "m' = m\<lparr>tt_tunnel := t, tt_inner_rx_buf := buf\<rparr>" using m(2) by (auto simp: ttls_drain_def)
    have "tunnel_inv authenticated t" "tun_handshake_done t"
      using drain_inv [OF assms _ t(1)] drain_done [OF t(1)] m(1) True by (simp_all add: ttls_inv_def)
    then show ?thesis using m(1) t(2) by (auto simp: ttls_inv_def)
  qed (use m in \<open>simp add: ttls_drain_def\<close>)
qed

lemma ttls_dispatch_keeps:
  assumes "tls_engine L plaintext authenticated"
  shows "call_keeps (ttls_inv authenticated iops) (ttls_dispatch L iops outer)"
proof (rule call_keepsI)
  fix m m' and r :: "(eap_error, unit) result"
  assume m: "ttls_inv authenticated iops m" "ttls_dispatch L iops outer m = Some (m', r)"
  let ?m = "m\<lparr>tt_inner_rx_buf := []\<rparr>"
  show "ttls_inv authenticated iops m'"
  proof (cases "tun_handshake_done (tt_tunnel m) \<and> tt_inner_terminator m = None \<and> tt_inner_rx_buf m \<noteq> []")
    case True
    note step = m(2) [unfolded ttls_dispatch_def if_P [OF True] Let_def]
    show ?thesis
    proof (cases "parse_avps (tt_inner_rx_buf m)")
      case (Err e)
      then show ?thesis using step m(1) by (auto simp: ttls_inv_def)
    next
      case (Ok avps)
      then obtain i res where i: "ti_process iops avps outer (tt_inner m) = Some (i, res)" using step by (auto simp: bind_eq_Some_conv)
      have w: "ttls_inv authenticated iops m1" if "tt_on_tunnel (\<lambda>t. Some (write_app_data L bs t)) (?m\<lparr>tt_inner := i\<rparr>) = Some (m1, r1)"
        for bs m1 r1
      proof -
        have "call_keeps (ttls_inv authenticated iops) (tt_on_tunnel (\<lambda>t. Some (write_app_data L bs t)))"
          by (intro tt_on_tunnel_keeps write_app_data_keeps [OF assms] write_done)
        moreover have "ttls_inv authenticated iops (?m\<lparr>tt_inner := i\<rparr>)" using m(1) True by (simp add: ttls_inv_def)
        ultimately show ?thesis using that by (rule call_keepsD)
      qed
      have s: "ttls_inv authenticated iops (?m\<lparr>tt_inner := i, tt_inner_terminator := Some ResSuccess\<rparr>)" if "res = Ok TtlsSuccess"
        using m(1) True i that by (auto simp: ttls_inv_def ttls_verified_def)
      show ?thesis using step Ok i w s m(1) True
        by (auto simp: ttls_inv_def split: result.splits ttls_inner_outcome.splits if_splits)
    qed
  qed (use m in \<open>auto simp: ttls_dispatch_def\<close>)
qed

lemma ttls_emit_or_leads:
  assumes "call_keeps (ttls_inv authenticated iops) rest"
  shows "call_keeps (ttls_inv authenticated iops) (ttls_emit_or rest)"
proof (rule call_keepsI)
  fix m m' r
  assume m: "ttls_inv authenticated iops m" "ttls_emit_or rest m = Some (m', r)"
  show "ttls_inv authenticated iops m'"
  proof (cases "has_pending_tx (tt_tunnel m)")
    case True
    obtain t fr where e: "emit_next_outbound_fragment (tt_tunnel m) = (t, fr)" by (cases "emit_next_outbound_fragment (tt_tunnel m)")
    then have "m' = m\<lparr>tt_tunnel := t\<rparr>" using m(2) True by (simp add: ttls_emit_or_def)
    then show ?thesis using m(1) emit_inv [OF e] by (auto simp: ttls_inv_def tunnel_inv_def)
  qed (use m call_keepsD [OF assms m(1)] in \<open>simp add: ttls_emit_or_def\<close>)
qed

lemma ttls_conclude_state: "ttls_conclude L m = Some (m', r) \<Longrightarrow> m' = m"
  by (auto simp: ttls_conclude_def split: option.splits inner_result.splits)

lemma ttls_step_keeps:
  assumes "tls_engine L plaintext authenticated"
  shows "call_keeps (ttls_inv authenticated iops) (eap_ttls_step L iops rnd data outer)"
  unfolding eap_ttls_step_def
  by (intro call_keeps_bind ttls_emit_or_leads tt_on_tunnel_keeps ttls_ingest_keeps [OF assms] ttls_drain_keeps [OF assms]
      ttls_dispatch_keeps [OF assms] refill_keeps [OF assms] refill_done)
    (auto simp: call_keeps_def dest!: ttls_conclude_state)

lemma ttls_step_success:
  assumes "eap_ttls_step L iops rnd data outer m = Some (m', Ok (MSuccess k e))"
  shows "tt_inner_terminator m' = Some ResSuccess \<and> tunnel_export_msk_emsk L TTLS_EXPORTER_LABEL None (tt_tunnel m') = Ok (k, e)"
proof -
  have e: "\<exists>m1. rest m1 = Some (m', Ok (MSuccess k e))" if "ttls_emit_or rest m0 = Some (m', Ok (MSuccess k e))"
    for m0 and rest :: "(('a, 'b, 'c) eap_ttls, method_outcome) call"
    using that by (auto simp: ttls_emit_or_def split: if_splits prod.splits)
  from assms obtain m1 where "ttls_conclude L m1 = Some (m', Ok (MSuccess k e))"
    unfolding eap_ttls_step_def call_bind_Ok by (auto dest!: e simp: call_bind_Ok)
  then show ?thesis by (auto simp: ttls_conclude_def split: option.splits inner_result.splits result.splits)
qed

lemma ttls_create_inv: "ttls_create L f = Some (Ok m) \<Longrightarrow> ttls_inv authenticated iops m"
  by (auto simp: ttls_create_def eap_ttls_new_def eap_ttls_with_frame_mtu_def ttls_inv_def
      dest!: tunnel_inv_new [of _ _ _ _ authenticated] dest: tunnel_inv_mtu split: result.splits)

lemma ttls_conversation_inv:
  assumes "tls_engine L plaintext authenticated" and "ttls_create L f = Some create"
    and "conversation (eap_ttls_ops L iops) create es m"
  shows "ttls_inv authenticated iops m"
  using assms(3)
proof (induction rule: conversation.induct)
  case (conv_start m rnd outer identity m' pl i sid)
  then show ?case using ttls_create_inv assms(2)
    by (auto simp: eap_ttls_ops_def notified_def default_notify_peer_identity_def default_notify_request_id_def eap_ttls_start_def
        split: option.splits)
next
  case (conv_step es m rnd data outer m' pl i sid)
  then show ?case using call_keepsD [OF ttls_step_keeps [OF assms(1), of iops rnd data outer]]
    by (auto simp: eap_ttls_ops_def default_notify_request_id_def)
qed

lemma pap_verified:
  assumes "ttls_verified (pap_inner_ops creds) i"
  shows "\<exists>avps outer user pass. pap_scan avps None None = Some (Some user, Some pass) \<and> creds outer user (trim_nuls pass)
    \<and> pi_authenticated_username i = Some user"
proof -
  obtain avps outer i0 where p: "pap_process creds avps outer i0 = Some (i, Ok TtlsSuccess)"
    using assms by (auto simp: ttls_verified_def pap_inner_ops_def)
  then obtain u p' where s: "pap_scan avps None None = Some (u, p')"
    by (cases "pap_scan avps None None") (auto simp: pap_process_def Let_def)
  then obtain user pass where "u = Some user" "p' = Some pass" "creds outer user (trim_nuls pass)" "pi_authenticated_username i = Some user"
    using p by (cases u; cases p') (auto simp: pap_process_def Let_def split: if_splits)
  then show ?thesis using s by blast
qed

text \<open>
  EAP-TTLS with PAP accepts only a user whose credentials were checked inside the finished tunnel: the
  round belongs to a logged conversation, its handshake is over, and the name it reports was in the
  AVPs of the peer together with a password that the credentials accept; the keys come from the
  tunnel.
\<close>

lemma ttls_pap_accept_verified:
  assumes "tls_engine L plaintext authenticated" and "ttls_create L f = Some create"
    and "store_with_limits timeout capacity = Some st0"
    and "eap_history (eap_ttls_ops L (pap_inner_ops creds)) create st0 rounds = Some (store, log)"
    and "eap_dispatch_round (eap_ttls_ops L (pap_inner_ops creds)) create env store existing buf un outer
      = Some (store', Ok (DispAccept i k peer t))"
  shows "\<exists>rs m0 m data e avps o1 user pass.
    conversation (eap_ttls_ops L (pap_inner_ops creds)) create rs m0 \<and> subseq rs log \<and> existing = Some (ev_state (last rs))
    \<and> eap_ttls_step L (pap_inner_ops creds) (env_rnd env) data outer m0 = Some (m, Ok (MSuccess k e))
    \<and> authenticated (conn_ssl (tun_tls (tt_tunnel m))) \<and> peer = Some user
    \<and> pap_scan avps None None = Some (Some user, Some pass) \<and> creds o1 user (trim_nuls pass)"
  using assms(3-5)
proof (cases rule: accepted_cases)
  case (identity pkt m0 m e)
  then show ?thesis by (auto simp: eap_ttls_ops_def eap_ttls_start_def)
next
  case (session pkt es m0 m e)
  let ?iops = "pap_inner_ops creds"
  have step: "eap_ttls_step L ?iops (env_rnd env) (eap_type_data pkt) outer m0 = Some (m, Ok (MSuccess k e))"
    using session(7) by (simp add: eap_ttls_ops_def)
  have inv: "ttls_inv authenticated ?iops m"
    by (rule call_keepsD [OF ttls_step_keeps [OF assms(1)] ttls_conversation_inv [OF assms(1,2) session(3)] step])
  have v: "ttls_verified ?iops (tt_inner m)" and au: "authenticated (conn_ssl (tun_tls (tt_tunnel m)))"
    using inv ttls_step_success [OF step] by (auto simp: ttls_inv_def tunnel_inv_def conn_inv_def)
  from pap_verified [OF v] obtain avps o1 user pass where "pap_scan avps None None = Some (Some user, Some pass)"
    "creds o1 user (trim_nuls pass)" "pi_authenticated_username (tt_inner m) = Some user" by blast
  moreover from this session(8) have "peer = Some user" by (simp add: eap_ttls_ops_def pap_inner_ops_def)
  ultimately show ?thesis using session(3-5) step au by blast
qed

end
