(* ===== verification/Eap_Mschapv2.thy ===== *)
theory Eap_Mschapv2
  imports Eap_Conversation Auth_Methods
begin

text \<open>
  \<^verbatim>\<open>crates/radius-tokio-eap/src/{inner,mschapv2}.rs\<close>: EAP-MSCHAPv2, once as the inner method of a tunnel
  (\<open>MsChapV2Server\<close>, which speaks whole EAP packets) and once as a method of its own (\<open>EapMsChapV2\<close>, which
  speaks type data). Credentials are application code, a function of the outer attributes and the user
  name. The interface \<open>InnerEap\<close> is a record of operations like that of the outer methods.
\<close>

section \<open>The interface of inner methods\<close>

datatype inner_outcome =
    InnerContinue bytes
  | InnerSuccess
  | InnerFailure

record 'i inner_ops =
  i_authenticated_identity :: "'i \<Rightarrow> bytes option"
  i_start :: "bytes \<Rightarrow> bytes \<Rightarrow> 'i \<Rightarrow> ('i \<times> (eap_error, bytes) result) option"
  i_step :: "bytes \<Rightarrow> bytes \<Rightarrow> bytes \<Rightarrow> 'i \<Rightarrow> ('i \<times> (eap_error, inner_outcome) result) option"

section \<open>Frames\<close>

definition OP_CHALLENGE :: u8 where [simp]: "OP_CHALLENGE = 1"
definition OP_RESPONSE :: u8 where [simp]: "OP_RESPONSE = 2"
definition OP_SUCCESS :: u8 where [simp]: "OP_SUCCESS = 3"
definition OP_FAILURE :: u8 where [simp]: "OP_FAILURE = 4"

definition DEFAULT_SERVER_NAME :: bytes where
  "DEFAULT_SERVER_NAME = map of_char ''radius-tokio''"

definition u16_saturating :: "nat \<Rightarrow> u16" where
  "u16_saturating n = (if n < 2 ^ 16 then of_nat n else -1)"

definition build_envelope_type_data :: "u8 \<Rightarrow> u8 \<Rightarrow> bytes \<Rightarrow> bytes" where
  "build_envelope_type_data ms_id opcode body =
     (let ms_len = 4 + length body
      in [opcode] @ [ms_id] @ u16_to_be (u16_saturating ms_len) @ body)"

definition build_challenge_type_data :: "u8 \<Rightarrow> bytes \<Rightarrow> bytes \<Rightarrow> bytes" where
  "build_challenge_type_data ms_id challenge name = build_envelope_type_data ms_id OP_CHALLENGE ([16] @ challenge @ name)"

definition build_success_type_data :: "u8 \<Rightarrow> bytes \<Rightarrow> bytes" where
  "build_success_type_data ms_id auth_resp = build_envelope_type_data ms_id OP_SUCCESS auth_resp"

definition build_failure_type_data :: "u8 \<Rightarrow> bytes" where
  "build_failure_type_data ms_id = build_envelope_type_data ms_id OP_FAILURE []"

text \<open>\<open>None\<close> is the panic of \<open>expect\<close> on a frame that does not fit an EAP packet.\<close>

definition wrap_in_eap_request :: "u8 \<Rightarrow> bytes \<Rightarrow> bytes option" where
  "wrap_in_eap_request eap_id type_data =
     (case eap_write_request [] eap_id MSCHAPV2 type_data of (out, Ok _) \<Rightarrow> Some out | (out, Err _) \<Rightarrow> None)"

definition build_challenge :: "u8 \<Rightarrow> u8 \<Rightarrow> bytes \<Rightarrow> bytes \<Rightarrow> bytes option" where
  "build_challenge eap_id ms_id challenge name = wrap_in_eap_request eap_id (build_challenge_type_data ms_id challenge name)"

definition build_success :: "u8 \<Rightarrow> u8 \<Rightarrow> bytes \<Rightarrow> bytes option" where
  "build_success eap_id ms_id auth_resp = wrap_in_eap_request eap_id (build_success_type_data ms_id auth_resp)"

definition build_failure :: "u8 \<Rightarrow> u8 \<Rightarrow> bytes option" where
  "build_failure eap_id ms_id = wrap_in_eap_request eap_id (build_failure_type_data ms_id)"

record response_fields =
  rf_peer_challenge :: bytes
  rf_nt_response :: bytes

definition parse_response_body :: "bytes \<Rightarrow> response_fields option" where
  "parse_response_body body =
     (if length body < 1 + 49 then None
      else if body ! 0 \<noteq> 49 then None
      else Some \<lparr>rf_peer_challenge = take 16 (drop 1 body), rf_nt_response = take 24 (drop 25 body)\<rparr>)"

section \<open>Credentials\<close>

datatype credential_secret = CredCleartext bytes | CredNtHash bytes

fun as_mschap :: "credential_secret \<Rightarrow> ms_chap_secret" where
  "as_mschap (CredCleartext s) = Cleartext s"
| "as_mschap (CredNtHash h) = NtHash h"

type_synonym mschap_credentials = "bytes \<Rightarrow> bytes \<Rightarrow> credential_secret option"

record mschap_static =
  ms_static_username :: bytes
  ms_static_secret :: credential_secret

definition mschap_cleartext :: "bytes \<Rightarrow> bytes \<Rightarrow> mschap_static" where
  "mschap_cleartext u p = \<lparr>ms_static_username = u, ms_static_secret = CredCleartext p\<rparr>"

definition mschap_nt_hash :: "bytes \<Rightarrow> bytes \<Rightarrow> mschap_static" where
  "mschap_nt_hash u h = \<lparr>ms_static_username = u, ms_static_secret = CredNtHash h\<rparr>"

definition mschap_static_lookup :: "mschap_static \<Rightarrow> mschap_credentials" where
  "mschap_static_lookup sc outer u = (if u = ms_static_username sc then Some (ms_static_secret sc) else None)"

text \<open>
  The check both drivers make of a response: \<open>Some\<close> authenticator response for the success frame, or
  \<open>None\<close> for the failure frame, when the user is unknown or the NT response differs.
\<close>

definition mschap_answer ::
    "crypto \<Rightarrow> mschap_credentials \<Rightarrow> bytes \<Rightarrow> bytes \<Rightarrow> bytes \<Rightarrow> response_fields \<Rightarrow> bytes option" where
  "mschap_answer C creds outer username auth_challenge resp =
     (case creds outer username of
        None \<Rightarrow> None
      | Some secret \<Rightarrow>
          if v2_nt_response C auth_challenge (rf_peer_challenge resp) username (as_mschap secret) \<noteq> rf_nt_response resp
          then None
          else Some (v2_authenticator_response C auth_challenge (rf_peer_challenge resp) (rf_nt_response resp) username
                       (as_mschap secret)))"

section \<open>The inner server\<close>

datatype mschap_state =
    AwaitingIdentity
  | AwaitingChallengeResponse bytes bytes
  | AwaitingSuccessAck
  | AwaitingFailureAck

record mschapv2_server =
  ms_server_name :: bytes
  ms_state :: mschap_state
  ms_eap_id :: u8
  ms_authenticated_username :: "bytes option"

definition mschapv2_with_server_name :: "bytes \<Rightarrow> mschapv2_server" where
  "mschapv2_with_server_name name =
     \<lparr>ms_server_name = name, ms_state = AwaitingIdentity, ms_eap_id = 1, ms_authenticated_username = None\<rparr>"

definition mschapv2_new :: mschapv2_server where
  "mschapv2_new = mschapv2_with_server_name DEFAULT_SERVER_NAME"

definition ms_next_id :: "mschapv2_server \<Rightarrow> mschapv2_server \<times> u8" where
  "ms_next_id m = (m\<lparr>ms_eap_id := ms_eap_id m + 1\<rparr>, ms_eap_id m)"

definition mschapv2_start :: "bytes \<Rightarrow> bytes \<Rightarrow> mschapv2_server \<Rightarrow> (mschapv2_server \<times> (eap_error, bytes) result) option" where
  "mschapv2_start rnd outer m =
     (case ms_next_id m of
        (m, i) \<Rightarrow>
          (case eap_write_request [] i IDENTITY [] of
             (out, Ok _) \<Rightarrow> Some (m, Ok out)
           | (out, Err e) \<Rightarrow> Some (m, Err (EapPacketError e))))"

definition mschapv2_step ::
    "crypto \<Rightarrow> mschap_credentials \<Rightarrow> bytes \<Rightarrow> bytes \<Rightarrow> bytes \<Rightarrow> mschapv2_server
      \<Rightarrow> (mschapv2_server \<times> (eap_error, inner_outcome) result) option" where
  "mschapv2_step C creds rnd peer_packet outer m =
     (case eap_parse peer_packet of
        Err e \<Rightarrow> Some (m, Err (EapPacketError e))
      | Ok pkt \<Rightarrow>
          if eap_code pkt \<noteq> EAP_RESPONSE then Some (m, Err (Framing ''inner EAP packet was not a Response''))
          else
            (case ms_state m of
               AwaitingIdentity \<Rightarrow>
                 if eap_typ pkt = Some IDENTITY then
                   let username = eap_type_data pkt;
                       auth_challenge = take 16 rnd;
                       ms_id = ms_eap_id m;
                       (m, eap_id) = ms_next_id m
                   in Option.bind (build_challenge eap_id ms_id auth_challenge (ms_server_name m)) (\<lambda>frame.
                      Some (m\<lparr>ms_state := AwaitingChallengeResponse username auth_challenge\<rparr>, Ok (InnerContinue frame)))
                 else Some (m, Err (Framing ''unexpected inner EAP type for MSCHAPv2 state''))
             | AwaitingChallengeResponse username auth_challenge \<Rightarrow>
                 if eap_typ pkt = Some MSCHAPV2 then
                   (case eap_type_data pkt of
                      [] \<Rightarrow> Some (m, Err (Framing ''MSCHAPv2 Response missing opcode byte''))
                    | op # rest \<Rightarrow>
                        if op \<noteq> OP_RESPONSE then Some (m, Err (Framing ''expected MSCHAPv2 opcode 2 (Response)''))
                        else if length (eap_type_data pkt) < 4 then Some (m, Err (Framing ''MSCHAPv2 Response truncated''))
                        else
                          (case parse_response_body (drop 4 (eap_type_data pkt)) of
                             None \<Rightarrow> Some (m, Err (Framing ''MSCHAPv2 Response body malformed''))
                           | Some resp \<Rightarrow>
                               (case mschap_answer C creds outer username auth_challenge resp of
                                  None \<Rightarrow>
                                    let ms_id = ms_eap_id m; (m, eap_id) = ms_next_id m
                                    in Option.bind (build_failure eap_id ms_id) (\<lambda>frame.
                                       Some (m\<lparr>ms_state := AwaitingFailureAck\<rparr>, Ok (InnerContinue frame)))
                                | Some auth_resp \<Rightarrow>
                                    let m = m\<lparr>ms_authenticated_username := Some username\<rparr>;
                                        ms_id = ms_eap_id m; (m, eap_id) = ms_next_id m
                                    in Option.bind (build_success eap_id ms_id auth_resp) (\<lambda>frame.
                                       Some (m\<lparr>ms_state := AwaitingSuccessAck\<rparr>, Ok (InnerContinue frame))))))
                 else Some (m, Err (Framing ''unexpected inner EAP type for MSCHAPv2 state''))
             | AwaitingSuccessAck \<Rightarrow>
                 if eap_typ pkt = Some MSCHAPV2 then
                   (case eap_type_data pkt of
                      [] \<Rightarrow> Some (m, Err (Framing ''MSCHAPv2 ack missing opcode byte''))
                    | op # rest \<Rightarrow> Some (m, Ok (if op = OP_SUCCESS then InnerSuccess else InnerFailure)))
                 else Some (m, Err (Framing ''unexpected inner EAP type for MSCHAPv2 state''))
             | AwaitingFailureAck \<Rightarrow>
                 if eap_typ pkt = Some MSCHAPV2 then Some (m, Ok InnerFailure)
                 else Some (m, Err (Framing ''unexpected inner EAP type for MSCHAPv2 state''))))"

definition mschapv2_ops :: "crypto \<Rightarrow> mschap_credentials \<Rightarrow> mschapv2_server inner_ops" where
  "mschapv2_ops C creds =
     \<lparr>i_authenticated_identity = ms_authenticated_username, i_start = mschapv2_start, i_step = mschapv2_step C creds\<rparr>"

text \<open>The factory keeps the server name; its credentials are those of the operations.\<close>

definition mschapv2_factory_new :: bytes where
  "mschapv2_factory_new = DEFAULT_SERVER_NAME"

definition mschapv2_factory_with_server_name :: "bytes \<Rightarrow> bytes \<Rightarrow> bytes" where
  "mschapv2_factory_with_server_name fac name = name"

definition mschapv2_factory_create :: "bytes \<Rightarrow> (eap_error, mschapv2_server) result" where
  "mschapv2_factory_create fac = Ok (mschapv2_with_server_name fac)"

section \<open>The native method\<close>

datatype native_state =
    NativeInit
  | NativeAwaitingResponse bytes u8
  | NativeAwaitingSuccessAck
  | NativeAwaitingFailureAck

record eap_mschapv2 =
  nat_server_name :: bytes
  nat_username :: bytes
  nat_state :: native_state

definition eap_mschapv2_with_server_name :: "bytes \<Rightarrow> eap_mschapv2" where
  "eap_mschapv2_with_server_name name = \<lparr>nat_server_name = name, nat_username = [], nat_state = NativeInit\<rparr>"

definition eap_mschapv2_new :: eap_mschapv2 where
  "eap_mschapv2_new = eap_mschapv2_with_server_name DEFAULT_SERVER_NAME"

definition native_notify_peer_identity :: "bytes \<Rightarrow> eap_mschapv2 \<Rightarrow> eap_mschapv2" where
  "native_notify_peer_identity identity m = (if nat_username m = [] then m\<lparr>nat_username := identity\<rparr> else m)"

text \<open>The two draws of \<open>start\<close>: sixteen bytes for the challenge, one for the identifier.\<close>

definition native_start :: "bytes \<Rightarrow> bytes \<Rightarrow> eap_mschapv2 \<Rightarrow> eap_mschapv2 method_call" where
  "native_start rnd outer m =
     (if nat_state m \<noteq> NativeInit then Some (m, Err (Framing ''EAP-MSCHAPv2 start called after start''))
      else
        let auth_challenge = take 16 rnd;
            ms_id = rnd ! 16;
            frame = build_challenge_type_data ms_id auth_challenge (nat_server_name m)
        in Some (m\<lparr>nat_state := NativeAwaitingResponse auth_challenge ms_id\<rparr>, Ok (MContinue frame)))"

definition native_step :: "crypto \<Rightarrow> mschap_credentials \<Rightarrow> bytes \<Rightarrow> bytes \<Rightarrow> bytes \<Rightarrow> eap_mschapv2 \<Rightarrow> eap_mschapv2 method_call" where
  "native_step C creds rnd peer_type_data outer m =
     (case peer_type_data of
        [] \<Rightarrow> Some (m, Err (Framing ''MSCHAPv2 packet missing opcode byte''))
      | op # rest \<Rightarrow>
          (case nat_state m of
             NativeInit \<Rightarrow> Some (m, Err (Framing ''EAP-MSCHAPv2 step called before start''))
           | NativeAwaitingResponse auth_challenge ms_id \<Rightarrow>
               if op \<noteq> OP_RESPONSE then Some (m, Err (Framing ''expected MSCHAPv2 opcode 2 (Response)''))
               else if length peer_type_data < 4 then Some (m, Err (Framing ''MSCHAPv2 Response truncated''))
               else
                 (case parse_response_body (drop 4 peer_type_data) of
                    None \<Rightarrow> Some (m, Err (Framing ''MSCHAPv2 Response body malformed''))
                  | Some resp \<Rightarrow>
                      let next_ms_id = ms_id + 1
                      in (case mschap_answer C creds outer (nat_username m) auth_challenge resp of
                            None \<Rightarrow>
                              Some (m\<lparr>nat_state := NativeAwaitingFailureAck\<rparr>, Ok (MContinue (build_failure_type_data next_ms_id)))
                          | Some auth_resp \<Rightarrow>
                              Some (m\<lparr>nat_state := NativeAwaitingSuccessAck\<rparr>,
                                    Ok (MContinue (build_success_type_data next_ms_id auth_resp)))))
           | NativeAwaitingSuccessAck \<Rightarrow> Some (m, Ok (if op = OP_SUCCESS then MSuccess [] [] else MFailure))
           | NativeAwaitingFailureAck \<Rightarrow> Some (m, Ok MFailure)))"

definition eap_mschapv2_ops :: "crypto \<Rightarrow> mschap_credentials \<Rightarrow> eap_mschapv2 method_ops" where
  "eap_mschapv2_ops C creds =
     \<lparr>m_typ = (\<lambda>_. MSCHAPV2), m_start = native_start, m_notify_peer_identity = native_notify_peer_identity,
      m_authenticated_identity = (\<lambda>m. Some (nat_username m)), m_notify_request_id = default_notify_request_id,
      m_step = native_step C creds\<rparr>"

definition eap_mschapv2_factory_new :: bytes where
  "eap_mschapv2_factory_new = DEFAULT_SERVER_NAME"

definition eap_mschapv2_factory_with_server_name :: "bytes \<Rightarrow> bytes \<Rightarrow> bytes" where
  "eap_mschapv2_factory_with_server_name fac name = name"

definition eap_mschapv2_create :: "bytes \<Rightarrow> (eap_error, eap_mschapv2) result" where
  "eap_mschapv2_create fac = Ok (eap_mschapv2_with_server_name fac)"

interpretation mschapv2_method: stable_method "eap_mschapv2_ops C creds" for C creds
  by unfold_locales (simp_all add: eap_mschapv2_ops_def)

section \<open>Responses\<close>

text \<open>A list cut after \<open>a\<close>, \<open>b\<close> more and \<open>c\<close> more elements.\<close>

lemma cut3:
  assumes "a + b + c \<le> length xs"
  obtains p r n rest where "xs = p @ r @ n @ rest" "length p = a" "length r = b" "length n = c"
    "p = take a xs" "n = take c (drop (a + b) xs)"
proof
  show "xs = take a xs @ take b (drop a xs) @ take c (drop (a + b) xs) @ drop (a + b + c) xs"
    by (metis add.commute append_take_drop_id drop_drop)
qed (use assms in simp_all)

lemma parse_response_bodyE:
  assumes "parse_response_body body = Some resp"
  obtains reserved fl rest where "body = 49 # rf_peer_challenge resp @ reserved @ rf_nt_response resp @ fl # rest"
    "length (rf_peer_challenge resp) = 16" "length reserved = 8" "length (rf_nt_response resp) = 24"
proof -
  have b: "50 \<le> length body" "body ! 0 = 49" "resp = \<lparr>rf_peer_challenge = take 16 (drop 1 body), rf_nt_response = take 24 (drop 25 body)\<rparr>"
    using assms unfolding parse_response_body_def by (simp_all split: if_splits)
  then obtain c xs where body: "body = c # xs" by (cases body) simp_all
  have "16 + 8 + 24 \<le> length xs" using b(1) body by simp
  then obtain p r n rest where x: "xs = p @ r @ n @ rest" "length p = 16" "length r = 8" "length n = 24"
    "p = take 16 xs" "n = take 24 (drop (16 + 8) xs)" by (rule cut3)
  have "49 \<le> length xs" using b(1) body by simp
  then have "rest \<noteq> []" using x(1-4) by auto
  then obtain fl rest' where rest: "rest = fl # rest'" by (cases rest) simp_all
  have "rf_peer_challenge resp = p" using b(3) body x(5) by simp
  moreover have "rf_nt_response resp = n"
  proof -
    have "drop 25 body = drop (16 + 8) xs" unfolding body by simp
    then show ?thesis using b(3) x(6) by simp
  qed
  ultimately show ?thesis using that [of r fl rest'] body b(2) x(1-4) rest by simp
qed

lemma parse_response_body_mk:
  assumes "length pc = 16" and "length reserved = 8" and "length nt = 24"
  shows "parse_response_body (49 # pc @ reserved @ nt @ fl # rest) = Some \<lparr>rf_peer_challenge = pc, rf_nt_response = nt\<rparr>"
proof -
  let ?xs = "pc @ reserved @ nt @ fl # rest"
  have "take 24 (drop 25 (49 # ?xs)) = nt" using assms by simp
  moreover have "take 16 (drop 1 (49 # ?xs)) = pc" using assms(1) by simp
  moreover have "\<not> length (49 # ?xs) < 1 + 49" using assms by simp
  ultimately show ?thesis unfolding parse_response_body_def by (simp only: nth_Cons_0 if_False if_True) simp
qed

lemma mschap_answer_Some:
  "mschap_answer C creds outer u ac resp = Some ar \<longleftrightarrow>
     (\<exists>secret. creds outer u = Some secret \<and> rf_nt_response resp = v2_nt_response C ac (rf_peer_challenge resp) u (as_mschap secret)
        \<and> ar = v2_authenticator_response C ac (rf_peer_challenge resp) (rf_nt_response resp) u (as_mschap secret))"
  by (auto simp: mschap_answer_def split: option.splits)

section \<open>Conversations of the native method\<close>

lemma native_answer_continue:
  assumes "native_step C creds rnd data outer m = Some (m', Ok (MContinue pl))"
  obtains ac ms_id resp where "nat_state m = NativeAwaitingResponse ac ms_id" "data \<noteq> []" "hd data = 2" "4 \<le> length data"
    "parse_response_body (drop 4 data) = Some resp"
    "case mschap_answer C creds outer (nat_username m) ac resp of
       None \<Rightarrow> m' = m\<lparr>nat_state := NativeAwaitingFailureAck\<rparr> \<and> pl = build_failure_type_data (ms_id + 1)
     | Some ar \<Rightarrow> m' = m\<lparr>nat_state := NativeAwaitingSuccessAck\<rparr> \<and> pl = build_success_type_data (ms_id + 1) ar"
proof (cases data)
  case Nil
  then show ?thesis using assms by (simp add: native_step_def)
next
  case (Cons op rest)
  note step = assms [unfolded native_step_def Cons list.case]
  obtain ac ms_id where st: "nat_state m = NativeAwaitingResponse ac ms_id"
    using step by (cases "nat_state m") (simp_all split: if_splits)
  note step = step [unfolded st native_state.case]
  have op: "op = 2" "4 \<le> length data" using step Cons by (simp_all split: if_splits)
  note step = step [unfolded op OP_RESPONSE_def]
  obtain resp where resp: "parse_response_body (drop 4 data) = Some resp"
    using step op(2) Cons by (cases "parse_response_body (drop 4 data)") (simp_all add: op(1))
  show ?thesis
    by (rule that [OF st _ _ op(2) resp]) (use Cons op step resp in \<open>auto simp: Let_def split: option.splits\<close>)
qed

text \<open>The user to whom a conversation was started.\<close>

definition started_user :: "bytes option \<Rightarrow> bytes" where
  "started_user identity = (case identity of Some u \<Rightarrow> u | None \<Rightarrow> [])"

definition native_challenge :: "bytes \<Rightarrow> bytes option \<Rightarrow> bytes \<Rightarrow> bytes \<Rightarrow> u8 \<Rightarrow> session_id \<Rightarrow> eap_event" where
  "native_challenge name identity rnd o0 i0 s0 =
     EapStarted identity rnd o0 (build_challenge_type_data (rnd ! 16) (take 16 rnd) name) i0 s0"

text \<open>A conversation is a challenge, or a challenge and a verdict.\<close>

lemma native_conversation:
  assumes "conversation (eap_mschapv2_ops C creds) (eap_mschapv2_create name) es m"
  shows "\<exists>identity rnd o0 i0 s0. nat_username m = started_user identity \<and> nat_server_name m = name \<and>
    (es = [native_challenge name identity rnd o0 i0 s0] \<and> nat_state m = NativeAwaitingResponse (take 16 rnd) (rnd ! 16)
     \<or> (\<exists>data r1 o1 pl i1 s1 resp. es = [native_challenge name identity rnd o0 i0 s0, EapStepped s0 data r1 o1 pl i1 s1]
        \<and> data \<noteq> [] \<and> hd data = 2 \<and> 4 \<le> length data \<and> parse_response_body (drop 4 data) = Some resp
        \<and> (case mschap_answer C creds o1 (started_user identity) (take 16 rnd) resp of
             None \<Rightarrow> nat_state m = NativeAwaitingFailureAck
           | Some ar \<Rightarrow> nat_state m = NativeAwaitingSuccessAck \<and> pl = build_success_type_data (rnd ! 16 + 1) ar)))"
  using assms
proof (induction rule: conversation.induct)
  case (conv_start m0 rnd outer identity m' pl i sid)
  then have "m' = \<lparr>nat_server_name = name, nat_username = started_user identity,
      nat_state = NativeAwaitingResponse (take 16 rnd) (rnd ! 16)\<rparr>" "pl = build_challenge_type_data (rnd ! 16) (take 16 rnd) name"
    by (auto simp: eap_mschapv2_ops_def eap_mschapv2_create_def eap_mschapv2_with_server_name_def notified_def native_start_def
        native_notify_peer_identity_def started_user_def Let_def split: option.splits)
  then show ?case
    by (intro exI [of _ identity] exI [of _ rnd] exI [of _ outer] exI [of _ i] exI [of _ sid])
      (simp add: native_challenge_def eap_mschapv2_ops_def default_notify_request_id_def)
next
  case (conv_step es m rnd1 data outer m' pl i sid)
  have n: "m_notify_request_id (eap_mschapv2_ops C creds) i m' = m'"
    by (simp add: eap_mschapv2_ops_def default_notify_request_id_def)
  from conv_step(2) have "native_step C creds rnd1 data outer m = Some (m', Ok (MContinue pl))" by (simp add: eap_mschapv2_ops_def)
  then show ?case
  proof (cases rule: native_answer_continue)
    case (1 ac ms_id resp)
    from conv_step.IH 1(1) obtain identity rnd o0 i0 s0 where
      es: "es = [native_challenge name identity rnd o0 i0 s0]" "nat_username m = started_user identity"
        "nat_server_name m = name" "ac = take 16 rnd" "ms_id = rnd ! 16"
      by (auto split: option.splits)
    have "ev_state (last es) = s0" using es(1) by (simp add: native_challenge_def)
    then show ?thesis unfolding n using 1(2-6) es
      by (intro exI [of _ identity] exI [of _ rnd] exI [of _ o0] exI [of _ i0] exI [of _ s0])
        (auto split: option.splits)
  qed
qed

lemma native_step_success:
  assumes "native_step C creds rnd data outer m = Some (m', Ok (MSuccess k e))"
  shows "nat_state m = NativeAwaitingSuccessAck \<and> m' = m \<and> k = [] \<and> data \<noteq> [] \<and> hd data = 3"
proof (cases data)
  case Nil
  then show ?thesis using assms by (simp add: native_step_def)
next
  case (Cons op rest)
  note step = assms [unfolded native_step_def Cons list.case]
  show ?thesis using step Cons
    by (cases "nat_state m") (auto simp: Let_def split: if_splits option.splits)
qed

text \<open>
  C11: EAP-MSCHAPv2 cannot be bypassed. Whatever sequence of rounds a fresh handler for this method has
  served, a round ends in acceptance only if the request's State is that of a success frame the
  handler sent, which answered, under the State of a challenge the handler had sent to this user, a
  response whose NT response is the one computed from that random challenge, the peer's challenge and
  the user's secret; the success frame carried the authenticator response that proves the secret to
  the peer, and the packet of the accepted round is an MSCHAPv2 response whose opcode is Success, which
  acknowledges that frame.
\<close>

theorem eap_mschapv2_no_bypass:
  assumes "store_with_limits timeout capacity = Some st0"
    and "eap_history (eap_mschapv2_ops C creds) (eap_mschapv2_create name) st0 rounds = Some (store, log)"
    and "eap_dispatch_round (eap_mschapv2_ops C creds) (eap_mschapv2_create name) env store existing buf un outer
      = Some (store', Ok (DispAccept i k peer t))"
  shows "(\<exists>pkt tail. eap_parse buf = Ok pkt \<and> eap_code pkt = EAP_RESPONSE \<and> eap_identifier pkt = i
      \<and> eap_typ pkt = Some MSCHAPV2 \<and> eap_type_data pkt = OP_SUCCESS # tail)
   \<and> (\<exists>identity rnd o0 i0 s0 a b c pc reserved fl rest r1 o1 i1 s1 u secret nt.
    subseq [EapStarted identity rnd o0 (build_challenge_type_data (rnd ! 16) (take 16 rnd) name) i0 s0,
            EapStepped s0 (2 # a # b # c # 49 # pc @ reserved @ nt @ fl # rest) r1 o1
              (build_success_type_data (rnd ! 16 + 1) (v2_authenticator_response C (take 16 rnd) pc nt u (as_mschap secret))) i1 s1] log
    \<and> existing = Some s1 \<and> u = started_user identity \<and> creds o1 u = Some secret
    \<and> nt = v2_nt_response C (take 16 rnd) pc u (as_mschap secret) \<and> length pc = 16 \<and> length reserved = 8
    \<and> peer = Some u \<and> k = [] \<and> stored_at store' s1 = None)"
    (is "?ack \<and> ?exchange")
  using assms
proof (cases rule: accepted_cases)
  case (identity pkt m0 m e)
  then show ?thesis by (auto simp: eap_mschapv2_ops_def native_start_def Let_def split: if_splits)
next
  case (session pkt es m0 m e)
  from session(7) have "native_step C creds (env_rnd env) (eap_type_data pkt) outer m0 = Some (m, Ok (MSuccess k e))"
    by (simp add: eap_mschapv2_ops_def)
  note s = native_step_success [OF this]
  from native_conversation [OF session(3)] s
  obtain identity rnd o0 i0 s0 data r1 o1 pl i1 s1 resp ar where
    es: "es = [native_challenge name identity rnd o0 i0 s0, EapStepped s0 data r1 o1 pl i1 s1]"
    and d: "data \<noteq> []" "hd data = 2" "4 \<le> length data" "parse_response_body (drop 4 data) = Some resp"
    and u: "nat_username m0 = started_user identity"
    and ar: "mschap_answer C creds o1 (started_user identity) (take 16 rnd) resp = Some ar" "pl = build_success_type_data (rnd ! 16 + 1) ar"
    by (auto split: option.splits)
  from ar(1) obtain secret where sec: "creds o1 (started_user identity) = Some secret"
    "rf_nt_response resp = v2_nt_response C (take 16 rnd) (rf_peer_challenge resp) (started_user identity) (as_mschap secret)"
    "ar = v2_authenticator_response C (take 16 rnd) (rf_peer_challenge resp) (rf_nt_response resp) (started_user identity) (as_mschap secret)"
    unfolding mschap_answer_Some by blast
  obtain reserved fl rest where body: "drop 4 data = 49 # rf_peer_challenge resp @ reserved @ rf_nt_response resp @ fl # rest"
    "length (rf_peer_challenge resp) = 16" "length reserved = 8" by (rule parse_response_bodyE [OF d(4)])
  obtain a b c where "data = 2 # a # b # c # drop 4 data"
    using Cons4_nth_drop [of data] d(1-3) by (cases data) auto
  then have data: "data = 2 # a # b # c # 49 # rf_peer_challenge resp @ reserved @ rf_nt_response resp @ fl # rest"
    using body(1) by simp
  have "peer = Some (started_user identity)" using session(8) s u by (simp add: eap_mschapv2_ops_def)
  moreover have "existing = Some s1" "stored_at store' s1 = None" using session(5,10) es by simp_all
  ultimately have ?exchange
    using session(4) es data ar(2) sec body(2,3) s unfolding native_challenge_def by blast
  moreover have ?ack
    using session(1,2,6,9) s by (cases "eap_type_data pkt") (simp_all add: eap_mschapv2_ops_def)
  ultimately show ?thesis by blast
qed

section \<open>A login\<close>

definition demo_mschap_credentials :: mschap_credentials where
  "demo_mschap_credentials = mschap_static_lookup (mschap_cleartext [97] [65])"

definition demo_mschap_env :: eap_env where
  "demo_mschap_env = demo_env\<lparr>env_rnd := replicate 17 8\<rparr>"

definition demo_nt_response :: bytes where
  "demo_nt_response = v2_nt_response toy_crypto (replicate 16 8) (replicate 16 4) [97] (Cleartext [65])"

definition demo_mschap_type_data :: bytes where
  "demo_mschap_type_data = [2, 8, 0, 54] @ 49 # replicate 16 4 @ replicate 8 0 @ demo_nt_response @ 0 # []"

definition demo_mschap_response :: bytes where
  "demo_mschap_response = [2, 1, 0, 59, 26] @ demo_mschap_type_data"

definition demo_mschap_ack :: bytes where
  "demo_mschap_ack = [2, 2, 0, 6, 26, 3]"

definition demo_mschap_session :: "native_state \<Rightarrow> u8 \<Rightarrow> eap_mschapv2 session" where
  "demo_mschap_session st i = (session_new \<lparr>nat_server_name = [114], nat_username = [97], nat_state = st\<rparr>)
     \<lparr>peer_identity := Some [97], next_eap_id := i\<rparr>"

abbreviation demo_mschap_round where
  "demo_mschap_round \<equiv> eap_dispatch_round (eap_mschapv2_ops toy_crypto demo_mschap_credentials) (eap_mschapv2_create [114]) demo_mschap_env"

lemma demo_mschap_env_sel [simp]:
  "env_take demo_mschap_env = 5" "env_insert demo_mschap_env = 6" "env_session_id demo_mschap_env = replicate 16 3"
  "env_rnd demo_mschap_env = replicate 17 8"
  by (simp_all add: demo_mschap_env_def demo_env_def)

lemma demo_mschap_response_parse:
  "eap_parse demo_mschap_response
     = Ok \<lparr>eap_code = EAP_RESPONSE, eap_identifier = 1, eap_payload = 26 # demo_mschap_type_data\<rparr>"
proof -
  have "length demo_mschap_type_data = 54"
    using length_v2_nt_response [OF wf_toy_crypto] by (simp add: demo_mschap_type_data_def demo_nt_response_def)
  then show ?thesis unfolding demo_mschap_response_def by (simp add: eap_parse_def u16_from_be_eq)
qed

lemma demo_mschap_ack_parse:
  "eap_parse demo_mschap_ack = Ok \<lparr>eap_code = EAP_RESPONSE, eap_identifier = 2, eap_payload = [26, 3]\<rparr>"
  by (simp add: demo_mschap_ack_def eap_parse_def u16_from_be_eq)

lemma demo_mschap_challenged:
  "demo_mschap_round demo_store None demo_identity None []
     = Some (session_insert 6 (replicate 16 3) (demo_mschap_session (NativeAwaitingResponse (replicate 16 8) 8) 2) demo_store,
         Ok (DispChallenge (build_challenge_type_data 8 (replicate 16 8) [114]) 1 MSCHAPV2 (replicate 16 3)))"
proof -
  have r: "take 16 (replicate 17 (8 :: u8)) = replicate 16 8" "replicate 17 (8 :: u8) ! 16 = 8" by simp_all
  show ?thesis
    by (simp only: eap_dispatch_round_def demo_identity_parse result.case)
      (simp add: r eap_typ_def eap_type_data_def eap_mschapv2_create_def resolve_peer_identity_def start_session_def
        eap_mschapv2_ops_def native_notify_peer_identity_def eap_mschapv2_with_server_name_def native_start_def
        commit_outcome_continue issued_id_def session_new_def default_notify_request_id_def demo_mschap_session_def Let_def
        del: take_replicate nth_replicate)
qed

lemma demo_nt_response_step:
  "native_step toy_crypto demo_mschap_credentials rnd demo_mschap_type_data []
      (session_method (demo_mschap_session (NativeAwaitingResponse (replicate 16 8) 8) 2))
     = Some (session_method (demo_mschap_session NativeAwaitingSuccessAck 2),
         Ok (MContinue (build_success_type_data 9
           (v2_authenticator_response toy_crypto (replicate 16 8) (replicate 16 4) demo_nt_response [97] (Cleartext [65])))))"
proof -
  have nt: "length demo_nt_response = 24" unfolding demo_nt_response_def by (rule length_v2_nt_response [OF wf_toy_crypto])
  have p: "parse_response_body (49 # replicate 16 4 @ replicate 8 0 @ demo_nt_response @ 0 # [])
      = Some \<lparr>rf_peer_challenge = replicate 16 4, rf_nt_response = demo_nt_response\<rparr>"
    by (rule parse_response_body_mk) (simp_all add: nt)
  have a: "mschap_answer toy_crypto demo_mschap_credentials [] [97] (replicate 16 8)
      \<lparr>rf_peer_challenge = replicate 16 4, rf_nt_response = demo_nt_response\<rparr>
      = Some (v2_authenticator_response toy_crypto (replicate 16 8) (replicate 16 4) demo_nt_response [97] (Cleartext [65]))"
    by (simp add: mschap_answer_def demo_mschap_credentials_def mschap_static_lookup_def mschap_cleartext_def demo_nt_response_def)
  show ?thesis
    using p a by (simp add: native_step_def demo_mschap_type_data_def demo_mschap_session_def session_new_def)
qed

lemma demo_mschap_answered:
  assumes "stored_at st (replicate 16 3) = Some (demo_mschap_session (NativeAwaitingResponse (replicate 16 8) 8) 2, 16)"
    and "idle_timeout st = 10"
  obtains st' pl where "demo_mschap_round st (Some (replicate 16 3)) demo_mschap_response None []
     = Some (st', Ok (DispChallenge pl 2 MSCHAPV2 (replicate 16 3)))"
    "stored_at st' (replicate 16 3) = Some (demo_mschap_session NativeAwaitingSuccessAck 3, 16)"
proof -
  obtain st1 where t: "session_take 5 (replicate 16 3) st = (st1, Some (demo_mschap_session (NativeAwaitingResponse (replicate 16 8) 8) 2))"
    using stored_session_taken [OF assms(1), of 5] by auto
  have idle: "idle_timeout st1 = 10" using session_take_fields(2) [of 5 "replicate 16 3" st] t assms(2) by simp
  have c: "commit_outcome (eap_mschapv2_ops toy_crypto demo_mschap_credentials) demo_mschap_env st1 (MContinue pl)
      ((demo_mschap_session (NativeAwaitingResponse (replicate 16 8) 8) 2)
        \<lparr>session_method := session_method (demo_mschap_session NativeAwaitingSuccessAck 2)\<rparr>) 1 MSCHAPV2
      = (session_insert 6 (replicate 16 3) (demo_mschap_session NativeAwaitingSuccessAck 3) st1,
         Ok (DispChallenge pl 2 MSCHAPV2 (replicate 16 3)))" for pl
    by (simp add: commit_outcome_continue issued_id_def demo_mschap_session_def session_new_def eap_mschapv2_ops_def
        default_notify_request_id_def)
  have m: "m_step (eap_mschapv2_ops toy_crypto demo_mschap_credentials) = native_step toy_crypto demo_mschap_credentials"
    "m_typ (eap_mschapv2_ops toy_crypto demo_mschap_credentials) x = MSCHAPV2" for x by (simp_all add: eap_mschapv2_ops_def)
  show ?thesis
    by (rule that [OF _ stored_at_insert [of 6 "replicate 16 3" _ st1, unfolded idle, simplified]])
      (use t in \<open>simp add: eap_dispatch_round_def demo_mschap_response_parse eap_typ_def eap_type_data_def m continue_session_def
        demo_nt_response_step c [simplified] Let_def\<close>)
qed

lemma demo_mschap_accepted:
  assumes "stored_at st (replicate 16 3) = Some (demo_mschap_session NativeAwaitingSuccessAck 3, 16)"
  obtains st' where "demo_mschap_round st (Some (replicate 16 3)) demo_mschap_ack None []
     = Some (st', Ok (DispAccept 2 [] (Some [97]) MSCHAPV2))"
proof -
  obtain st1 where t: "session_take 5 (replicate 16 3) st = (st1, Some (demo_mschap_session NativeAwaitingSuccessAck 3))"
    using stored_session_taken [OF assms, of 5] by auto
  show ?thesis
    by (rule that [of st1])
      (use t in \<open>simp add: eap_dispatch_round_def demo_mschap_ack_parse eap_typ_def eap_type_data_def eap_mschapv2_ops_def
        continue_session_def native_step_def demo_mschap_session_def session_new_def commit_outcome_def\<close>)
qed

theorem eap_mschapv2_no_bypass_witness:
  "\<exists>store log store'. eap_history (eap_mschapv2_ops toy_crypto demo_mschap_credentials) (eap_mschapv2_create [114]) demo_store
      [(demo_mschap_env, None, demo_identity, None, []),
       (demo_mschap_env, Some (replicate 16 3), demo_mschap_response, None, [])] = Some (store, log)
    \<and> demo_mschap_round store (Some (replicate 16 3)) demo_mschap_ack None []
      = Some (store', Ok (DispAccept 2 [] (Some [97]) MSCHAPV2))
    \<and> length log = 2 \<and> stored_at store' (replicate 16 3) = None"
proof -
  let ?st = "session_insert 6 (replicate 16 3) (demo_mschap_session (NativeAwaitingResponse (replicate 16 8) 8) 2) demo_store"
  have "stored_at ?st (replicate 16 3) = Some (demo_mschap_session (NativeAwaitingResponse (replicate 16 8) 8) 2, 16)"
    "idle_timeout ?st = 10" by (simp_all add: stored_at_insert demo_store_def)
  then obtain st1 pl where a: "demo_mschap_round ?st (Some (replicate 16 3)) demo_mschap_response None []
      = Some (st1, Ok (DispChallenge pl 2 MSCHAPV2 (replicate 16 3)))"
    "stored_at st1 (replicate 16 3) = Some (demo_mschap_session NativeAwaitingSuccessAck 3, 16)"
    by (rule demo_mschap_answered)
  obtain log where h: "eap_history (eap_mschapv2_ops toy_crypto demo_mschap_credentials) (eap_mschapv2_create [114]) demo_store
      [(demo_mschap_env, None, demo_identity, None, []),
       (demo_mschap_env, Some (replicate 16 3), demo_mschap_response, None, [])] = Some (st1, log)" "length log = 2"
    using a(1) by (simp add: demo_mschap_challenged demo_identity_parse demo_mschap_response_parse eap_typ_def)
  obtain st2 where acc: "demo_mschap_round st1 (Some (replicate 16 3)) demo_mschap_ack None []
      = Some (st2, Ok (DispAccept 2 [] (Some [97]) MSCHAPV2))" by (rule demo_mschap_accepted [OF a(2)])
  have "stored_at st2 (replicate 16 3) = None"
    using eap_mschapv2_no_bypass [OF demo_store_new h(1) acc] by auto
  then show ?thesis using h acc by blast
qed

end
