(* ===== verification/Peap.thy ===== *)
theory Peap
  imports Eap_Ttls Eap_Mschapv2
begin

text \<open>
  \<^verbatim>\<open>crates/radius-tokio-eap/src/peap.rs\<close>: PEAP version 0. The inner method is a record of operations, as in
  \<open>Eap_Mschapv2\<close>. One round may step the inner method several times; the random bytes of the round are
  handed out sixteen at a time, the most that one call of an inner method draws.
\<close>

section \<open>The method\<close>

definition PEAP_LABEL_TLS12 :: bytes where
  "PEAP_LABEL_TLS12 = map of_char ''client EAP encryption''"

definition PEAP_LABEL_TLS13 :: bytes where
  "PEAP_LABEL_TLS13 = map of_char ''EXPORTER_EAP_TLS_Key_Material''"

record ('ctx, 'ssl, 'i) peap =
  pe_tunnel :: "('ctx, 'ssl) tls_tunnel"
  pe_inner :: 'i
  pe_inner_started :: bool
  pe_inner_rx_buf :: bytes
  pe_last_inner_peer_id :: u8
  pe_last_inner_request_id :: u8
  pe_inner_terminator :: "inner_result option"
  pe_awaiting_result_ack :: bool
  pe_result_tlv_id :: u8



definition pe_on_tunnel :: "(('ctx, 'ssl) tls_tunnel, 'a) call \<Rightarrow> (('ctx, 'ssl, 'i) peap, 'a) call" where
  "pe_on_tunnel f m = map_option (\<lambda>(t, r). (m\<lparr>pe_tunnel := t\<rparr>, r)) (f (pe_tunnel m))"

definition is_full_identity_request :: "bytes \<Rightarrow> bool" where
  "is_full_identity_request pkt \<longleftrightarrow> length pkt = 5 \<and> pkt ! 0 = 1 \<and> pkt ! 2 = 0 \<and> pkt ! 3 = 5 \<and> pkt ! 4 = 1"

definition is_tlv_request :: "bytes \<Rightarrow> bool" where
  "is_tlv_request pkt \<longleftrightarrow> length pkt \<ge> 5 \<and> pkt ! 0 = 1 \<and> pkt ! 4 = 0x21"

definition is_result_tlv_response :: "bytes \<Rightarrow> u8 \<Rightarrow> bool" where
  "is_result_tlv_response pkt i \<longleftrightarrow>
     length pkt \<ge> 11 \<and> pkt ! 0 = 2 \<and> pkt ! 1 = i \<and> pkt ! 4 = 0x21
     \<and> u16_from_be [pkt ! 5, pkt ! 6] AND 0x3fff = 3"

definition write_inner :: "('ctx, 'ssl) libssl \<Rightarrow> bytes \<Rightarrow> (('ctx, 'ssl, 'i) peap, unit) call" where
  "write_inner L pkt m =
     (let m = (if length pkt \<ge> 2 then m\<lparr>pe_last_inner_request_id := pkt ! 1\<rparr> else m)
      in if is_full_identity_request pkt \<or> is_tlv_request pkt
         then pe_on_tunnel (\<lambda>t. Some (write_app_data L pkt t)) m
         else if length pkt \<ge> 5 then pe_on_tunnel (\<lambda>t. Some (write_app_data L (drop 4 pkt) t)) m
         else Some (m, Ok ()))"

definition try_extract_inner_packet :: "('ctx, 'ssl, 'i) peap \<Rightarrow> ('ctx, 'ssl, 'i) peap \<times> bytes option" where
  "try_extract_inner_packet m =
     (let buf = pe_inner_rx_buf m;
          len = unat (u16_from_be [buf ! 2, buf ! 3])
      in if buf = [] then (m, None)
         else if length buf \<ge> 4 \<and> 1 \<le> buf ! 0 \<and> buf ! 0 \<le> 4 \<and> 4 \<le> len \<and> len \<le> 4096 \<and> length buf \<ge> len
         then (m\<lparr>pe_inner_rx_buf := drop len buf\<rparr>, Some (take len buf))
         else
           let total = u16_saturating (4 + length buf)
           in (m\<lparr>pe_inner_rx_buf := []\<rparr>, Some ([2] @ [pe_last_inner_request_id m] @ u16_to_be total @ buf)))"

definition peap_export_msk_emsk :: "('ctx, 'ssl) libssl \<Rightarrow> ('ctx, 'ssl, 'i) peap \<Rightarrow> (eap_error, bytes \<times> bytes) result" where
  "peap_export_msk_emsk L m =
     tunnel_export_msk_emsk L (if is_tls13 L (tun_tls (pe_tunnel m)) then PEAP_LABEL_TLS13 else PEAP_LABEL_TLS12) None
       (pe_tunnel m)"

fun result_tlv_status :: "inner_result \<Rightarrow> u16" where
  "result_tlv_status ResSuccess = 1"
| "result_tlv_status ResFailure = 2"

definition send_result_tlv :: "('ctx, 'ssl) libssl \<Rightarrow> inner_result \<Rightarrow> (('ctx, 'ssl, 'i) peap, unit) call" where
  "send_result_tlv L status m =
     (let i = pe_last_inner_peer_id m + 1;
          m = m\<lparr>pe_result_tlv_id := i, pe_awaiting_result_ack := True\<rparr>;
          pkt = [1] @ [i] @ u16_to_be 11 @ [0x21] @ u16_to_be 0x8003 @ u16_to_be 2 @ u16_to_be (result_tlv_status status)
      in write_inner L pkt m)"

definition peap_ingest :: "('ctx, 'ssl) libssl \<Rightarrow> bytes \<Rightarrow> (('ctx, 'ssl) tls_tunnel, unit) call" where
  "peap_ingest L peer_type_data =
     call_bind (ingest_peer_frame peer_type_data) (\<lambda>tls_bytes.
       case tls_bytes of
         None \<Rightarrow> call_ok ()
       | Some bs \<Rightarrow>
           call_bind (\<lambda>t. Some (feed_tls L bs t)) (\<lambda>_.
           call_bind (\<lambda>t. Some (drive_handshake L t)) (\<lambda>just_completed t.
             if just_completed \<and> is_tls13 L (tun_tls t) then Some (write_tls13_commitment L t) else Some (t, Ok ()))))"

definition peap_drain :: "('ctx, 'ssl) libssl \<Rightarrow> (('ctx, 'ssl, 'i) peap, unit) call" where
  "peap_drain L m =
     (if tun_handshake_done (pe_tunnel m) then
        map_option (\<lambda>(t, buf, r). (m\<lparr>pe_tunnel := t, pe_inner_rx_buf := buf\<rparr>, r))
          (drain_decrypted L (pe_tunnel m) (pe_inner_rx_buf m))
      else Some (m, Ok ()))"

definition peap_start_inner :: "('ctx, 'ssl) libssl \<Rightarrow> 'i inner_ops \<Rightarrow> bytes \<Rightarrow> bytes \<Rightarrow> (('ctx, 'ssl, 'i) peap, unit) call" where
  "peap_start_inner L iops rnd outer m =
     (if tun_handshake_done (pe_tunnel m) \<and> \<not> pe_inner_started m then
        let m = m\<lparr>pe_inner_started := True\<rparr>
        in Option.bind (i_start iops (take 16 rnd) outer (pe_inner m)) (\<lambda>(i, r).
             case r of
               Err e \<Rightarrow> Some (m\<lparr>pe_inner := i\<rparr>, Err e)
             | Ok msg \<Rightarrow> write_inner L msg (m\<lparr>pe_inner := i\<rparr>))
      else Some (m, Ok ()))"

text \<open>The body of the loop over inner packets; \<open>Ok False\<close> is its \<open>break\<close>.\<close>

definition peap_packet ::
    "('ctx, 'ssl) libssl \<Rightarrow> 'i inner_ops \<Rightarrow> bytes \<Rightarrow> bytes \<Rightarrow> bytes \<Rightarrow> (('ctx, 'ssl, 'i) peap, bool) call" where
  "peap_packet L iops rnd outer pkt m =
     (let m = (if length pkt \<ge> 2 then m\<lparr>pe_last_inner_peer_id := pkt ! 1\<rparr> else m)
      in if pe_awaiting_result_ack m then
           Some (if is_result_tlv_response pkt (pe_result_tlv_id m) then m\<lparr>pe_awaiting_result_ack := False\<rparr> else m, Ok False)
         else if pe_inner_terminator m \<noteq> None then Some (m, Ok False)
         else
           Option.bind (i_step iops (take 16 rnd) pkt outer (pe_inner m)) (\<lambda>(i, r).
             let m = m\<lparr>pe_inner := i\<rparr>
             in case r of
                  Err e \<Rightarrow> Some (m, Err e)
                | Ok (InnerContinue msg) \<Rightarrow> call_bind (write_inner L msg) (\<lambda>_. call_ok True) m
                | Ok InnerSuccess \<Rightarrow>
                    call_bind (send_result_tlv L ResSuccess) (\<lambda>_. call_ok True) (m\<lparr>pe_inner_terminator := Some ResSuccess\<rparr>)
                | Ok InnerFailure \<Rightarrow>
                    call_bind (send_result_tlv L ResFailure) (\<lambda>_. call_ok True) (m\<lparr>pe_inner_terminator := Some ResFailure\<rparr>)))"

text \<open>What writing an inner message can change; \<open>bs\<close> are the bytes that went into the tunnel.\<close>

lemma write_innerE:
  assumes "write_inner L pkt m = Some (m', r)"
  obtains bs i where "m' = m\<lparr>pe_tunnel := fst (write_app_data L bs (pe_tunnel m)), pe_last_inner_request_id := i\<rparr>"
proof -
  let ?bs = "if is_full_identity_request pkt \<or> is_tlv_request pkt then pkt else if length pkt \<ge> 5 then drop 4 pkt else []"
  let ?i = "if length pkt \<ge> 2 then pkt ! 1 else pe_last_inner_request_id m"
  have "m' = m\<lparr>pe_tunnel := fst (write_app_data L ?bs (pe_tunnel m)), pe_last_inner_request_id := ?i\<rparr>"
    using assms by (cases "write_app_data L ?bs (pe_tunnel m)")
      (auto simp: write_inner_def pe_on_tunnel_def Let_def write_app_data.simps [of L "[]"] split: if_splits)
  then show ?thesis by (rule that)
qed

lemma write_inner_rx_buf: "write_inner L pkt m = Some (m', r) \<Longrightarrow> pe_inner_rx_buf m' = pe_inner_rx_buf m"
  by (erule write_innerE) simp

lemma send_result_tlvE:
  assumes "send_result_tlv L status m = Some (m', r)"
  obtains bs i where "m' = m\<lparr>pe_result_tlv_id := pe_last_inner_peer_id m + 1, pe_awaiting_result_ack := True,
     pe_tunnel := fst (write_app_data L bs (pe_tunnel m)), pe_last_inner_request_id := i\<rparr>"
  using assms unfolding send_result_tlv_def Let_def by (elim write_innerE) simp

fun terminator_of :: "(eap_error, inner_outcome) result \<Rightarrow> inner_result option" where
  "terminator_of (Ok InnerSuccess) = Some ResSuccess"
| "terminator_of (Ok InnerFailure) = Some ResFailure"
| "terminator_of _ = None"

lemma peap_packetE:
  assumes "peap_packet L iops rnd outer pkt m = Some (m', r)"
  obtains (waiting) p a where "m' = m\<lparr>pe_last_inner_peer_id := p, pe_awaiting_result_ack := a\<rparr>"
      "pe_awaiting_result_ack m \<or> pe_inner_terminator m \<noteq> None"
      "pe_awaiting_result_ack m \<Longrightarrow> a \<longleftrightarrow> \<not> is_result_tlv_response pkt (pe_result_tlv_id m)" "\<not> pe_awaiting_result_ack m \<Longrightarrow> \<not> a"
  | (stepped) i res bs where "\<not> pe_awaiting_result_ack m" "pe_inner_terminator m = None"
      "i_step iops (take 16 rnd) pkt outer (pe_inner m) = Some (i, res)"
      "pe_inner m' = i" "pe_inner_terminator m' = terminator_of res" "pe_inner_started m' = pe_inner_started m"
      "pe_inner_rx_buf m' = pe_inner_rx_buf m" "pe_tunnel m' = fst (write_app_data L bs (pe_tunnel m))"
      "pe_awaiting_result_ack m' \<longleftrightarrow> terminator_of res \<noteq> None"
      "terminator_of res \<noteq> None \<Longrightarrow> 2 \<le> length pkt \<Longrightarrow> pe_result_tlv_id m' = pkt ! 1 + 1"
proof -
  let ?p = "if length pkt \<ge> 2 then pkt ! 1 else pe_last_inner_peer_id m"
  let ?m = "m\<lparr>pe_last_inner_peer_id := ?p\<rparr>"
  have m: "(if length pkt \<ge> 2 then m\<lparr>pe_last_inner_peer_id := pkt ! 1\<rparr> else m) = ?m" by simp
  note step = assms [unfolded peap_packet_def m Let_def]
  show ?thesis
  proof (cases "pe_awaiting_result_ack m \<or> pe_inner_terminator m \<noteq> None")
    case True
    have "m' = m\<lparr>pe_last_inner_peer_id := ?p, pe_awaiting_result_ack := pe_awaiting_result_ack m'\<rparr>"
      "pe_awaiting_result_ack m \<Longrightarrow> pe_awaiting_result_ack m' \<longleftrightarrow> \<not> is_result_tlv_response pkt (pe_result_tlv_id m)"
      "\<not> pe_awaiting_result_ack m \<Longrightarrow> \<not> pe_awaiting_result_ack m'"
      using step True by (auto split: if_splits)
    then show ?thesis using True waiting by blast
  next
    case False
    then obtain i res where i: "i_step iops (take 16 rnd) pkt outer (pe_inner m) = Some (i, res)"
      using step by (auto simp: bind_eq_Some_conv)
    have w0: "fst (write_app_data L [] t) = t" for t by (subst write_app_data.simps) simp
    note step = step [unfolded i]
    show ?thesis
    proof (cases res)
      case (Err e)
      then show ?thesis using stepped [OF _ _ i, of "[]"] step False i by (auto simp: w0)
    next
      case (Ok o1)
      show ?thesis
      proof (cases o1)
        case (InnerContinue msg)
        have "call_bind (write_inner L msg) (\<lambda>_. call_ok True) (?m\<lparr>pe_inner := i\<rparr>) = Some (m', r)"
          using step False i Ok InnerContinue by simp
        then show ?thesis using stepped [OF _ _ i] False Ok InnerContinue
          by (elim call_bindE write_innerE) auto
      next
        case InnerSuccess
        have "call_bind (send_result_tlv L ResSuccess) (\<lambda>_. call_ok True)
            (?m\<lparr>pe_inner := i, pe_inner_terminator := Some ResSuccess\<rparr>) = Some (m', r)"
          using step False i Ok InnerSuccess by simp
        then show ?thesis using stepped [OF _ _ i] False Ok InnerSuccess
          by (elim call_bindE send_result_tlvE) auto
      next
        case InnerFailure
        have "call_bind (send_result_tlv L ResFailure) (\<lambda>_. call_ok True)
            (?m\<lparr>pe_inner := i, pe_inner_terminator := Some ResFailure\<rparr>) = Some (m', r)"
          using step False i Ok InnerFailure by simp
        then show ?thesis using stepped [OF _ _ i] False Ok InnerFailure
          by (elim call_bindE send_result_tlvE) auto
      qed
    qed
  qed
qed

lemma peap_packet_rx_buf: "peap_packet L iops rnd outer pkt m = Some (m', r) \<Longrightarrow> pe_inner_rx_buf m' = pe_inner_rx_buf m"
  by (erule peap_packetE) simp_all

lemma extract_shrinks: "try_extract_inner_packet m = (m', Some pkt) \<Longrightarrow> length (pe_inner_rx_buf m') < length (pe_inner_rx_buf m)"
  by (auto simp: try_extract_inner_packet_def Let_def split: if_splits)

function peap_packets ::
    "('ctx, 'ssl) libssl \<Rightarrow> 'i inner_ops \<Rightarrow> bytes \<Rightarrow> bytes \<Rightarrow> (('ctx, 'ssl, 'i) peap, unit) call" where
  "peap_packets L iops rnd outer m =
     (case try_extract_inner_packet m of
        (m, None) \<Rightarrow> Some (m, Ok ())
      | (m, Some pkt) \<Rightarrow>
          (case peap_packet L iops rnd outer pkt m of
             None \<Rightarrow> None
           | Some (m, Err e) \<Rightarrow> Some (m, Err e)
           | Some (m, Ok again) \<Rightarrow> if again then peap_packets L iops (drop 16 rnd) outer m else Some (m, Ok ())))"
  by pat_completeness auto
termination
  by (relation "measure (\<lambda>(L, iops, rnd, outer, m). length (pe_inner_rx_buf m))")
    (simp_all, metis extract_shrinks peap_packet_rx_buf)

declare peap_packets.simps [simp del]

definition peap_emit_or :: "(('ctx, 'ssl, 'i) peap, method_outcome) call \<Rightarrow> (('ctx, 'ssl, 'i) peap, method_outcome) call" where
  "peap_emit_or rest m =
     (if has_pending_tx (pe_tunnel m) then
        (case emit_next_outbound_fragment (pe_tunnel m) of
           (t, fragment) \<Rightarrow> Some (m\<lparr>pe_tunnel := t\<rparr>, Ok (MContinue fragment)))
      else rest m)"

definition peap_conclude :: "('ctx, 'ssl) libssl \<Rightarrow> (('ctx, 'ssl, 'i) peap, method_outcome) call" where
  "peap_conclude L m =
     (if pe_inner_terminator m \<noteq> None \<and> \<not> pe_awaiting_result_ack m then
        (case the (pe_inner_terminator m) of
           ResSuccess \<Rightarrow>
             Some (m, case peap_export_msk_emsk L m of Err e \<Rightarrow> Err e | Ok (k, ek) \<Rightarrow> Ok (MSuccess k ek))
         | ResFailure \<Rightarrow> Some (m, Ok MFailure))
      else Some (m, Ok (MContinue ack_frame)))"

definition peap_start :: "bytes \<Rightarrow> bytes \<Rightarrow> ('ctx, 'ssl, 'i) peap \<Rightarrow> ('ctx, 'ssl, 'i) peap method_call" where
  "peap_start rnd outer m = Some (m, Ok (MContinue start_frame))"

definition peap_step ::
    "('ctx, 'ssl) libssl \<Rightarrow> 'i inner_ops \<Rightarrow> bytes \<Rightarrow> bytes \<Rightarrow> bytes \<Rightarrow> ('ctx, 'ssl, 'i) peap \<Rightarrow> ('ctx, 'ssl, 'i) peap method_call" where
  "peap_step L iops rnd peer_type_data outer =
     call_bind (pe_on_tunnel (peap_ingest L peer_type_data)) (\<lambda>_.
     call_bind (peap_drain L) (\<lambda>_.
     call_bind (pe_on_tunnel (refill_pending_tx L)) (\<lambda>_.
     peap_emit_or
       (call_bind (peap_start_inner L iops rnd outer) (\<lambda>_.
        call_bind (peap_packets L iops (drop 16 rnd) outer) (\<lambda>_.
        call_bind (pe_on_tunnel (refill_pending_tx L)) (\<lambda>_.
        peap_emit_or (peap_conclude L))))))))"

definition peap_ops :: "('ctx, 'ssl) libssl \<Rightarrow> 'i inner_ops \<Rightarrow> ('ctx, 'ssl, 'i) peap method_ops" where
  "peap_ops L iops =
     \<lparr>m_typ = (\<lambda>_. PEAP), m_start = peap_start, m_notify_peer_identity = default_notify_peer_identity,
      m_authenticated_identity = (\<lambda>m. i_authenticated_identity iops (pe_inner m)),
      m_notify_request_id = default_notify_request_id, m_step = peap_step L iops\<rparr>"

interpretation peap_method: stable_method "peap_ops L iops" for L iops
  by unfold_locales (simp_all add: peap_ops_def)

record ('ctx, 'i) peap_factory =
  pf_ctx :: "'ctx tls_context"
  pf_inner :: "(eap_error, 'i) result"
  pf_frame_mtu :: nat


definition peap_factory_with_frame_mtu :: "nat \<Rightarrow> ('ctx, 'i) peap_factory \<Rightarrow> ('ctx, 'i) peap_factory option" where
  "peap_factory_with_frame_mtu mtu f = (if mtu > 0 then Some (f\<lparr>pf_frame_mtu := mtu\<rparr>) else None)"


section \<open>Runs of the inner method\<close>

text \<open>
  The calls that served the packets of the tunnel: starts and steps of the inner method with their results,
  and the packets that arrived while the answer to the Result-TLV was due. A run leads from a created
  method to a state; between the calls only the tunnel, its buffer and the bookkeeping of identifiers move.
\<close>

datatype inner_event =
    InnerStarted bytes bytes "(eap_error, bytes) result"
  | InnerStepped bytes bytes bytes "(eap_error, inner_outcome) result"
  | ResultPacket bytes

definition same_phase :: "('ctx, 'ssl, 'i) peap \<Rightarrow> ('ctx, 'ssl, 'i) peap \<Rightarrow> bool" where
  "same_phase m' m \<longleftrightarrow>
     pe_inner m' = pe_inner m \<and> pe_inner_terminator m' = pe_inner_terminator m
     \<and> pe_awaiting_result_ack m' = pe_awaiting_result_ack m \<and> pe_result_tlv_id m' = pe_result_tlv_id m"

inductive peap_run :: "('ctx, 'ssl) libssl \<Rightarrow> 'i inner_ops \<Rightarrow> 'i \<Rightarrow> inner_event list \<Rightarrow> ('ctx, 'ssl, 'i) peap \<Rightarrow> bool"
  for L iops i0 where
  run_new: "pe_inner m = i0 \<Longrightarrow> pe_inner_terminator m = None \<Longrightarrow> \<not> pe_awaiting_result_ack m \<Longrightarrow> peap_run L iops i0 [] m"
| run_start: "peap_run L iops i0 es m \<Longrightarrow> i_start iops rnd outer (pe_inner m) = Some (i, r) \<Longrightarrow>
    peap_run L iops i0 (es @ [InnerStarted rnd outer r]) (m\<lparr>pe_inner := i\<rparr>)"
| run_step: "peap_run L iops i0 es m \<Longrightarrow> \<not> pe_awaiting_result_ack m \<Longrightarrow> pe_inner_terminator m = None \<Longrightarrow>
    i_step iops (take 16 rnd) pkt outer (pe_inner m) = Some (i, r) \<Longrightarrow>
    peap_packet L iops rnd outer pkt m = Some (m', r') \<Longrightarrow>
    peap_run L iops i0 (es @ [InnerStepped pkt (take 16 rnd) outer r]) m'"
| run_result: "peap_run L iops i0 es m \<Longrightarrow> pe_awaiting_result_ack m \<Longrightarrow>
    peap_packet L iops rnd outer pkt m = Some (m', r') \<Longrightarrow> peap_run L iops i0 (es @ [ResultPacket pkt]) m'"
| run_idle: "peap_run L iops i0 es m \<Longrightarrow> same_phase m' m \<Longrightarrow> peap_run L iops i0 es m'"

definition served :: "('ctx, 'ssl) libssl \<Rightarrow> 'i inner_ops \<Rightarrow> 'i \<Rightarrow> ('ctx, 'ssl, 'i) peap \<Rightarrow> bool" where
  "served L iops i0 m \<longleftrightarrow> (\<exists>es. peap_run L iops i0 es m)"

lemma served_same_phase: "same_phase m' m \<Longrightarrow> served L iops i0 m' \<longleftrightarrow> served L iops i0 m"
proof -
  assume p: "same_phase m' m"
  then have q: "same_phase m m'" by (simp add: same_phase_def)
  show ?thesis unfolding served_def using run_idle [OF _ p] run_idle [OF _ q] by blast
qed

lemma served_updates [simp]:
  "served L iops i0 (m\<lparr>pe_tunnel := t\<rparr>) = served L iops i0 m"
  "served L iops i0 (m\<lparr>pe_inner_rx_buf := b\<rparr>) = served L iops i0 m"
  "served L iops i0 (m\<lparr>pe_inner_started := st\<rparr>) = served L iops i0 m"
  "served L iops i0 (m\<lparr>pe_last_inner_peer_id := p\<rparr>) = served L iops i0 m"
  "served L iops i0 (m\<lparr>pe_last_inner_request_id := q\<rparr>) = served L iops i0 m"
  by (rule served_same_phase, simp add: same_phase_def)+















section \<open>EAP-MSCHAPv2 inside the tunnel\<close>




















section \<open>Flights of more than one frame\<close>

text \<open>As in EAP-TTLS, an acknowledged first frame of a long handshake flight is sent again.\<close>

lemma peap_ack_repeats:
  assumes "mid_flight L flight mtu (pe_tunnel m)"
  shows "\<exists>m'. peap_step L iops rnd ack_frame outer m = Some (m', Ok (MContinue (first_frame flight mtu)))
    \<and> mid_flight L flight mtu (pe_tunnel m')"
proof -
  let ?t = "(pe_tunnel m)\<lparr>tun_reassembler := (tun_reassembler (pe_tunnel m))\<lparr>single_fragment_complete := True\<rparr>\<rparr>"
  have i: "peap_ingest L ack_frame (pe_tunnel m) = Some (?t, Ok ())"
    using assms by (simp add: peap_ingest_def call_bind_def ingest_ack mid_flight_def)
  have M: "mid_flight L flight mtu ?t" using assms by simp
  then have r: "refill_pending_tx L ?t = Some (?t\<lparr>tun_tx_offset := 0\<rparr>, Ok ())" by (intro refill_quiet) (simp add: mid_flight_def)
  have e: "emit_next_outbound_fragment (?t\<lparr>tun_tx_offset := 0\<rparr>) = (?t\<lparr>tun_tx_offset := mtu\<rparr>, first_frame flight mtu)"
    using emit_first [of L flight mtu "?t\<lparr>tun_tx_offset := 0\<rparr>"] M by simp
  have "has_pending_tx (?t\<lparr>tun_tx_offset := 0\<rparr>)" "\<not> tun_handshake_done ?t"
    using M by (auto simp: mid_flight_def has_pending_tx_def)
  then show ?thesis using i r e M
    by (simp add: peap_step_def call_bind_def pe_on_tunnel_def peap_drain_def peap_emit_or_def)
qed

lemma peap_acks_repeat:
  "mid_flight L flight mtu (pe_tunnel m) \<Longrightarrow>
     \<exists>m'. acks (peap_step L iops rnd ack_frame outer) n m = Some (m', replicate n (first_frame flight mtu))
       \<and> mid_flight L flight mtu (pe_tunnel m')"
proof (induction n arbitrary: m)
  case (Suc n)
  obtain m1 where "peap_step L iops rnd ack_frame outer m = Some (m1, Ok (MContinue (first_frame flight mtu)))"
    "mid_flight L flight mtu (pe_tunnel m1)" using peap_ack_repeats [OF Suc.prems] by blast
  then show ?case using Suc.IH [of m1] by auto
qed simp

section \<open>A login through the tunnel\<close>

definition up_ssl :: toy_ssl_state where
  "up_ssl = toy_ssl_new\<lparr>toy_done := True\<rparr>"

definition up_tunnel :: "bytes \<Rightarrow> bytes \<Rightarrow> (toy_ssl_state, toy_ssl_state) tls_tunnel" where
  "up_tunnel i out = demo_tunnel (up_ssl\<lparr>toy_in := i, toy_out := out\<rparr>) True"

lemma up_ssl_sel [simp]: "toy_in up_ssl = []" "toy_out up_ssl = []"
  by (simp_all add: up_ssl_def toy_ssl_new_def)

lemma demo_tunnel_sel [simp]:
  "tun_tls (demo_tunnel s d) = \<lparr>conn_ssl = s, conn_handshake_done = d, conn_expected_server_name = None, conn_context = demo_tls_ctx\<rparr>"
  "tun_handshake_done (demo_tunnel s d) = d" "tun_pending_tx (demo_tunnel s d) = []" "tun_tx_offset (demo_tunnel s d) = 0"
  by (simp_all add: demo_tunnel_def)











definition demo_peap ::
    "mschapv2_server \<Rightarrow> u8 \<Rightarrow> u8 \<Rightarrow> inner_result option \<Rightarrow> u8 \<Rightarrow> (toy_ssl_state, toy_ssl_state, mschapv2_server) peap" where
  "demo_peap i req peer term tid =
     \<lparr>pe_tunnel = up_tunnel [] [], pe_inner = i, pe_inner_started = True, pe_inner_rx_buf = [], pe_last_inner_peer_id = peer,
      pe_last_inner_request_id = req, pe_inner_terminator = term, pe_awaiting_result_ack = (term \<noteq> None), pe_result_tlv_id = tid\<rparr>"

lemma demo_peap_sel [simp]:
  "pe_tunnel (demo_peap i req peer term tid) = up_tunnel [] []" "pe_inner (demo_peap i req peer term tid) = i"
  "pe_inner_started (demo_peap i req peer term tid)" "pe_inner_rx_buf (demo_peap i req peer term tid) = []"
  "pe_last_inner_peer_id (demo_peap i req peer term tid) = peer"
  "pe_inner_terminator (demo_peap i req peer term tid) = term" "pe_awaiting_result_ack (demo_peap i req peer term tid) = (term \<noteq> None)"
  "pe_result_tlv_id (demo_peap i req peer term tid) = tid"
  by (simp_all add: demo_peap_def)




















end
