(* ===== verification/Dict_Text.thy ===== *)
theory Dict_Text
  imports Prelude
begin

text \<open>
  What the dictionary tools use of Rust's strings, paths and integer parsing. A \<open>str\<close> is the list of its
  code points, \<open>lit\<close> a literal of the source. \<open>white_space\<close> is the Unicode property \<open>White_Space\<close>, on which
  \<open>trim\<close> and \<open>split_whitespace\<close> depend. A path is what \<open>Path\<close> compares: whether it is absolute, and its
  components.
\<close>

section \<open>Strings\<close>

type_synonym ustring = "nat list"

definition lit :: "string \<Rightarrow> ustring" where
  "lit s = map of_char s"

definition white_space :: "nat \<Rightarrow> bool" where
  "white_space c \<longleftrightarrow>
     9 \<le> c \<and> c \<le> 13 \<or> c = 32 \<or> c = 0x85 \<or> c = 0xA0 \<or> c = 0x1680 \<or> 0x2000 \<le> c \<and> c \<le> 0x200A
     \<or> c = 0x2028 \<or> c = 0x2029 \<or> c = 0x202F \<or> c = 0x205F \<or> c = 0x3000"

text \<open>\<open>split\<close> with a character predicate: the pieces between the separators, empty ones included.\<close>

fun ustr_split :: "('a \<Rightarrow> bool) \<Rightarrow> 'a list \<Rightarrow> 'a list list" where
  "ustr_split p [] = [[]]"
| "ustr_split p (c # cs) =
     (if p c then [] # ustr_split p cs
      else case ustr_split p cs of x # xs \<Rightarrow> (c # x) # xs | [] \<Rightarrow> [[c]])"

definition str_trim :: "ustring \<Rightarrow> ustring" where
  "str_trim s = rev (dropWhile white_space (rev (dropWhile white_space s)))"

definition split_whitespace :: "ustring \<Rightarrow> ustring list" where
  "split_whitespace s = filter (\<lambda>x. x \<noteq> []) (ustr_split white_space s)"

definition strip_cr :: "ustring \<Rightarrow> ustring" where
  "strip_cr s = (if s \<noteq> [] \<and> last s = 13 then butlast s else s)"

definition str_lines :: "ustring \<Rightarrow> ustring list" where
  "str_lines s =
     (let ps = ustr_split (\<lambda>c. c = 10) s
      in map strip_cr (butlast ps) @ (if last ps = [] then [] else [last ps]))"

definition str_strip_prefix :: "ustring \<Rightarrow> ustring \<Rightarrow> ustring option" where
  "str_strip_prefix p s = (if take (length p) s = p then Some (drop (length p) s) else None)"

definition str_strip_suffix :: "ustring \<Rightarrow> ustring \<Rightarrow> ustring option" where
  "str_strip_suffix p s = map_option rev (str_strip_prefix (rev p) (rev s))"

section \<open>Integers\<close>

definition to_digit :: "nat \<Rightarrow> nat \<Rightarrow> nat option" where
  "to_digit radix c =
     (let d = (if 48 \<le> c \<and> c \<le> 57 then Some (c - 48)
               else if 97 \<le> c \<and> c \<le> 122 then Some (c - 87)
               else if 65 \<le> c \<and> c \<le> 90 then Some (c - 55)
               else None)
      in case d of Some n \<Rightarrow> if n < radix then Some n else None | None \<Rightarrow> None)"

fun digits_value :: "nat \<Rightarrow> nat \<Rightarrow> ustring \<Rightarrow> nat option" where
  "digits_value radix acc [] = Some acc"
| "digits_value radix acc (c # cs) =
     (case to_digit radix c of None \<Rightarrow> None | Some d \<Rightarrow> digits_value radix (acc * radix + d) cs)"

definition unsigned_digits :: "nat \<Rightarrow> ustring \<Rightarrow> nat option" where
  "unsigned_digits radix s = (if s = [] then None else digits_value radix 0 s)"

text \<open>\<open>from_str_radix\<close> of an unsigned type of \<open>bits\<close> bits: an optional plus sign, then digits that do not overflow.\<close>

definition parse_uint :: "nat \<Rightarrow> nat \<Rightarrow> ustring \<Rightarrow> nat option" where
  "parse_uint bits radix s =
     (case unsigned_digits radix (if s \<noteq> [] \<and> hd s = 43 then tl s else s) of
        Some n \<Rightarrow> if n < 2 ^ bits then Some n else None
      | None \<Rightarrow> None)"

definition parse_i64 :: "ustring \<Rightarrow> int option" where
  "parse_i64 s =
     (if s \<noteq> [] \<and> hd s = 45 then
        (case unsigned_digits 10 (tl s) of Some n \<Rightarrow> if n \<le> 2 ^ 63 then Some (- int n) else None | None \<Rightarrow> None)
      else map_option int (parse_uint 63 10 s))"

section \<open>Paths\<close>

datatype path_component = CurDir | ParentDir | Normal ustring

record path =
  path_root :: bool
  path_components :: "path_component list"

definition path_component_of :: "ustring \<Rightarrow> path_component" where
  "path_component_of s = (if s = lit ''.'' then CurDir else if s = lit ''..'' then ParentDir else Normal s)"

text \<open>\<open>Path::new\<close>, up to the equality of paths: empty components and inner current directories do not count.\<close>

definition path_new :: "ustring \<Rightarrow> path" where
  "path_new s =
     (let root = (s \<noteq> [] \<and> hd s = 47);
          ps = map path_component_of (filter (\<lambda>x. x \<noteq> []) (ustr_split (\<lambda>c. c = 47) s))
      in \<lparr>path_root = root,
          path_components =
            (if \<not> root \<and> ps \<noteq> [] \<and> hd ps = CurDir then CurDir # filter (\<lambda>c. c \<noteq> CurDir) ps else filter (\<lambda>c. c \<noteq> CurDir) ps)\<rparr>)"

definition path_parent :: "path \<Rightarrow> path option" where
  "path_parent p = (if path_components p = [] then None else Some (p\<lparr>path_components := butlast (path_components p)\<rparr>))"

definition path_is_relative :: "path \<Rightarrow> bool" where
  "path_is_relative p \<longleftrightarrow> \<not> path_root p"

definition path_join :: "path \<Rightarrow> path \<Rightarrow> path" where
  "path_join p q =
     (if path_root q then q
      else if \<not> path_root p \<and> path_components p = [] then q
      else p\<lparr>path_components := path_components p @ filter (\<lambda>c. c \<noteq> CurDir) (path_components q)\<rparr>)"

section \<open>Splitting and joining\<close>

lemma ustr_split_nonempty [simp]: "ustr_split p s \<noteq> []"
  by (induction s) (auto split: list.splits)

lemma ustr_split_none: "list_all (\<lambda>c. \<not> p c) s \<Longrightarrow> ustr_split p s = [s]"
  by (induction s) auto

lemma ustr_split_append:
  assumes "list_all (\<lambda>c. \<not> p c) x" and "p c"
  shows "ustr_split p (x @ c # s) = x # ustr_split p s"
  using assms by (induction x) (auto split: list.splits)

fun joined_by :: "nat \<Rightarrow> ustring list \<Rightarrow> ustring" where
  "joined_by c [] = []"
| "joined_by c [x] = x"
| "joined_by c (x # y # zs) = x @ c # joined_by c (y # zs)"

text \<open>Splitting inverts joining when no piece contains the separator.\<close>

lemma split_joined:
  "xs \<noteq> [] \<Longrightarrow> list_all (list_all (\<lambda>d. \<not> p d)) xs \<Longrightarrow> p c \<Longrightarrow> ustr_split p (joined_by c xs) = xs"
  by (induction c xs rule: joined_by.induct) (simp_all add: ustr_split_none ustr_split_append)

lemma split_whitespace_joined:
  assumes "list_all (\<lambda>x. x \<noteq> [] \<and> list_all (\<lambda>d. \<not> white_space d) x) xs" and "xs \<noteq> []"
  shows "split_whitespace (joined_by 32 xs) = xs"
proof -
  have "ustr_split white_space (joined_by 32 xs) = xs"
    using assms by (intro split_joined) (auto simp: white_space_def list_all_iff)
  then show ?thesis using assms(1) by (simp add: split_whitespace_def list_all_iff)
qed

lemma lines_of_lines:
  assumes "list_all (\<lambda>l. list_all (\<lambda>c. c \<noteq> 10 \<and> c \<noteq> 13) l) ls"
  shows "str_lines (concat (map (\<lambda>l. l @ [10]) ls)) = ls"
proof -
  have s: "ustr_split (\<lambda>c. c = 10) (concat (map (\<lambda>l. l @ [10]) ls)) = ls @ [[]]"
    using assms by (induction ls) (auto simp: ustr_split_append list_all_iff)
  have "map strip_cr ls = ls"
    using assms by (intro map_idI) (auto simp: strip_cr_def list_all_iff)
  then show ?thesis using s by (simp add: str_lines_def)
qed

lemma set_joined: "set (joined_by c xs) \<subseteq> insert c (\<Union> (set ` set xs))"
  by (induction c xs rule: joined_by.induct) auto

lemma trim_id:
  assumes "s \<noteq> []" and "\<not> white_space (hd s)" and "\<not> white_space (last s)"
  shows "str_trim s = s"
proof -
  have "dropWhile white_space s = s" using assms(1,2) by (cases s) simp_all
  moreover have "dropWhile white_space (rev s) = rev s" using assms(1,3) by (cases "rev s") (auto simp: hd_rev [symmetric])
  ultimately show ?thesis by (simp add: str_trim_def)
qed

lemma hd_joined: "xs \<noteq> [] \<Longrightarrow> hd xs \<noteq> [] \<Longrightarrow> joined_by c xs \<noteq> [] \<and> hd (joined_by c xs) = hd (hd xs)"
  by (induction c xs rule: joined_by.induct) auto

lemma last_joined: "xs \<noteq> [] \<Longrightarrow> last xs \<noteq> [] \<Longrightarrow> joined_by c xs \<noteq> [] \<and> last (joined_by c xs) = last (last xs)"
  by (induction c xs rule: joined_by.induct) auto

lemma trim_joined:
  assumes "list_all (\<lambda>x. x \<noteq> [] \<and> list_all (\<lambda>d. \<not> white_space d) x) xs" and "xs \<noteq> []"
  shows "str_trim (joined_by 32 xs) = joined_by 32 xs"
proof -
  have e: "x \<noteq> [] \<and> \<not> white_space (hd x) \<and> \<not> white_space (last x)" if "x \<in> set xs" for x
    using assms(1) that by (auto simp: list_all_iff)
  then show ?thesis
    using hd_joined [OF assms(2), of 32] last_joined [OF assms(2), of 32] assms(2) by (intro trim_id) simp_all
qed

section \<open>Decimal numbers\<close>

fun show_nat :: "nat \<Rightarrow> ustring" where
  "show_nat n = (if n < 10 then [48 + n] else show_nat (n div 10) @ [48 + n mod 10])"

declare show_nat.simps [simp del]

lemma show_nat_nonempty [simp]: "show_nat n \<noteq> []"
  by (subst show_nat.simps) simp

lemma show_nat_digits: "list_all (\<lambda>c. 48 \<le> c \<and> c \<le> 57) (show_nat n)"
proof (induction n rule: show_nat.induct)
  case (1 n)
  then show ?case by (subst show_nat.simps) auto
qed

lemma digits_value_snoc:
  "digits_value r acc (xs @ [c]) =
     (case digits_value r acc xs of None \<Rightarrow> None | Some v \<Rightarrow> (case to_digit r c of None \<Rightarrow> None | Some d \<Rightarrow> Some (v * r + d)))"
  by (induction r acc xs rule: digits_value.induct) (auto split: option.splits)

lemma digits_value_show: "digits_value 10 0 (show_nat n) = Some n"
proof (induction n rule: show_nat.induct)
  case (1 n)
  have d: "to_digit 10 (48 + k) = Some k" if "k < 10" for k using that by (simp add: to_digit_def)
  show ?case
  proof (cases "n < 10")
    case True
    then show ?thesis by (subst show_nat.simps) (simp add: d)
  next
    case False
    then show ?thesis using 1 by (subst show_nat.simps) (simp add: digits_value_snoc d)
  qed
qed

lemma show_nat_hd: "48 \<le> hd (show_nat n) \<and> hd (show_nat n) \<le> 57"
  using show_nat_digits [of n] by (cases "show_nat n") simp_all

lemma parse_uint_show: "n < 2 ^ bits \<Longrightarrow> parse_uint bits 10 (show_nat n) = Some n"
  using show_nat_hd [of n] by (simp add: parse_uint_def unsigned_digits_def digits_value_show)

definition show_int :: "int \<Rightarrow> ustring" where
  "show_int i = (if i < 0 then 45 # show_nat (nat (- i)) else show_nat (nat i))"

lemma parse_i64_show:
  assumes "- (2 ^ 63) \<le> i" and "i < 2 ^ 63"
  shows "parse_i64 (show_int i) = Some i"
  using assms show_nat_hd [of "nat i"]
  by (auto simp: parse_i64_def show_int_def unsigned_digits_def digits_value_show parse_uint_show)

end
