(* ===== verification/Dict_Parser.thy ===== *)
theory Dict_Parser
  imports Dict_Text
begin

text \<open>
  \<^verbatim>\<open>crates/radius-tokio-dict-codegen/src/{model,parser}.rs\<close>: FreeRADIUS dictionary files. The loader is an
  argument of the parser, as the trait object is in the code; \<open>fs_load\<close> takes the file system as an argument
  and \<open>map_load\<close> reads a table of files. Numbers that the code keeps in machine integers are words, except
  the \<open>i64\<close> of an enumerator, which is an \<open>int\<close> in its range.
\<close>

section \<open>Dictionaries\<close>

datatype 'io dict_error_kind =
    DictIo 'io
  | UnknownDirective ustring
  | BadArity string nat nat
  | BadInteger ustring
  | BadOid ustring
  | UnknownType ustring
  | UnknownFlag ustring
  | VendorMismatch ustring ustring
  | UnmatchedEndVendor
  | UnknownVendor ustring
  | IncludeTooDeep

record 'io dict_error =
  de_file :: "path option"
  de_line :: u32
  de_kind :: "'io dict_error_kind"

datatype dict_type =
    TString | TOctets | TFixedOctets u16 | TIpaddr | TIpv6addr | TIpv4prefix | TIpv6prefix | TByte | TShort | TInteger
  | TInteger64 | TSigned | TDate | TIfid | TEther | TAbinary | TTlv | TVsa | TEvs | TExtended | TLongExtended | TStruct | TUint32

definition type_keywords :: "(ustring \<times> dict_type) list" where
  "type_keywords =
     [(lit ''string'', TString), (lit ''octets'', TOctets), (lit ''ipaddr'', TIpaddr), (lit ''ipv6addr'', TIpv6addr),
      (lit ''ipv4prefix'', TIpv4prefix), (lit ''ipv6prefix'', TIpv6prefix), (lit ''byte'', TByte), (lit ''short'', TShort),
      (lit ''integer'', TInteger), (lit ''integer64'', TInteger64), (lit ''signed'', TSigned), (lit ''date'', TDate),
      (lit ''ifid'', TIfid), (lit ''ether'', TEther), (lit ''abinary'', TAbinary), (lit ''tlv'', TTlv), (lit ''vsa'', TVsa),
      (lit ''evs'', TEvs), (lit ''extended'', TExtended), (lit ''long-extended'', TLongExtended), (lit ''struct'', TStruct),
      (lit ''uint32'', TUint32)]"

definition type_parse :: "ustring \<Rightarrow> ('io dict_error_kind, dict_type) result" where
  "type_parse token =
     (case str_strip_prefix (lit ''octets['') token of
        Some rest \<Rightarrow>
          (case str_strip_suffix (lit '']'') rest of
             None \<Rightarrow> Err (UnknownType token)
           | Some n \<Rightarrow> (case parse_uint 16 10 n of None \<Rightarrow> Err (BadInteger n) | Some k \<Rightarrow> Ok (TFixedOctets (of_nat k))))
      | None \<Rightarrow> (case map_of type_keywords token of Some t \<Rightarrow> Ok t | None \<Rightarrow> Err (UnknownType token)))"

record dict_flags =
  fl_encrypt :: "u8 option"
  fl_has_tag :: bool
  fl_concat :: bool
  fl_array :: bool
  fl_virtual :: bool
  fl_internal :: bool
  fl_secret :: bool

definition flags_default :: dict_flags where
  "flags_default = \<lparr>fl_encrypt = None, fl_has_tag = False, fl_concat = False, fl_array = False, fl_virtual = False,
     fl_internal = False, fl_secret = False\<rparr>"

datatype oid = Oid "u32 list"

fun oid_parts :: "oid \<Rightarrow> u32 list" where
  "oid_parts (Oid ps) = ps"

text \<open>\<open>None\<close> is the panic of the index.\<close>

definition oid_root :: "oid \<Rightarrow> u32 option" where
  "oid_root x = (case oid_parts x of [] \<Rightarrow> None | p # _ \<Rightarrow> Some p)"

definition oid_is_child :: "oid \<Rightarrow> bool" where
  "oid_is_child x \<longleftrightarrow> length (oid_parts x) > 1"

definition oid_display :: "oid \<Rightarrow> ustring" where
  "oid_display x = joined_by 46 (map (\<lambda>c. show_nat (unat c)) (oid_parts x))"

record dict_attribute =
  da_name :: ustring
  da_oid :: oid
  da_vendor :: "u32 option"
  da_typ :: dict_type
  da_flags :: dict_flags

record dict_value =
  dv_attribute :: ustring
  dv_name :: ustring
  dv_number :: int

record dict_vendor =
  vn_name :: ustring
  vn_id :: u32
  vn_type_len :: u8
  vn_length_len :: u8
  vn_has_continuation :: bool

record dictionary =
  dict_attributes :: "dict_attribute list"
  dict_values :: "dict_value list"
  dict_vendors :: "dict_vendor list"

definition dict_default :: dictionary where
  "dict_default = \<lparr>dict_attributes = [], dict_values = [], dict_vendors = []\<rparr>"

text \<open>Collecting into a map keeps the last entry of a key.\<close>

definition vendors_by_name :: "dictionary \<Rightarrow> ustring \<rightharpoonup> dict_vendor" where
  "vendors_by_name d = map_of (rev (map (\<lambda>v. (vn_name v, v)) (dict_vendors d)))"

definition vendors_by_id :: "dictionary \<Rightarrow> u32 \<rightharpoonup> dict_vendor" where
  "vendors_by_id d = map_of (rev (map (\<lambda>v. (vn_id v, v)) (dict_vendors d)))"

section \<open>Fields\<close>

definition parse_unsigned :: "ustring \<Rightarrow> ('io dict_error_kind, nat) result" where
  "parse_unsigned s =
     (case (case (case str_strip_prefix (lit ''0x'') s of Some h \<Rightarrow> Some h | None \<Rightarrow> str_strip_prefix (lit ''0X'') s) of
              Some hex \<Rightarrow> parse_uint 64 16 hex
            | None \<Rightarrow> parse_uint 64 10 s) of
        Some n \<Rightarrow> Ok n
      | None \<Rightarrow> Err (BadInteger s))"

definition parse_signed :: "ustring \<Rightarrow> ('io dict_error_kind, int) result" where
  "parse_signed s =
     (case (case str_strip_prefix (lit ''0x'') s of Some h \<Rightarrow> Some h | None \<Rightarrow> str_strip_prefix (lit ''0X'') s) of
        Some hex \<Rightarrow>
          (case parse_uint 64 16 hex of
             None \<Rightarrow> Err (BadInteger s)
           | Some n \<Rightarrow> if n < 2 ^ 63 then Ok (int n) else Err (BadInteger s))
      | None \<Rightarrow> (case parse_i64 s of Some i \<Rightarrow> Ok i | None \<Rightarrow> Err (BadInteger s)))"

definition parse_small_u8 :: "ustring \<Rightarrow> ('io dict_error_kind, u8) result" where
  "parse_small_u8 s = (case parse_uint 8 10 s of Some n \<Rightarrow> Ok (of_nat n) | None \<Rightarrow> Err (BadInteger s))"

fun oid_components :: "ustring \<Rightarrow> ustring list \<Rightarrow> u32 list \<Rightarrow> ('io dict_error_kind, u32 list) result" where
  "oid_components s [] parts = Ok parts"
| "oid_components s (c # cs) parts =
     (if c = [] then Err (BadOid s)
      else case parse_uint 32 10 c of
        None \<Rightarrow> Err (BadOid s)
      | Some n \<Rightarrow> oid_components s cs (parts @ [of_nat n]))"

definition parse_oid :: "ustring \<Rightarrow> ('io dict_error_kind, oid) result" where
  "parse_oid s =
     (case oid_components s (ustr_split (\<lambda>c. c = 46) s) [] of
        Err e \<Rightarrow> Err e
      | Ok parts \<Rightarrow> if parts = [] then Err (BadOid s) else Ok (Oid parts))"

definition apply_flag :: "ustring \<Rightarrow> dict_flags \<Rightarrow> ('io dict_error_kind, dict_flags) result" where
  "apply_flag piece flags =
     (case str_strip_prefix (lit ''encrypt='') piece of
        Some n \<Rightarrow> (case parse_uint 8 10 n of None \<Rightarrow> Err (BadInteger n) | Some k \<Rightarrow> Ok (flags\<lparr>fl_encrypt := Some (of_nat k)\<rparr>))
      | None \<Rightarrow>
          if piece = lit ''has_tag'' then Ok (flags\<lparr>fl_has_tag := True\<rparr>)
          else if piece = lit ''concat'' then Ok (flags\<lparr>fl_concat := True\<rparr>)
          else if piece = lit ''array'' then Ok (flags\<lparr>fl_array := True\<rparr>)
          else if piece = lit ''virtual'' then Ok (flags\<lparr>fl_virtual := True\<rparr>)
          else if piece = lit ''internal'' then Ok (flags\<lparr>fl_internal := True\<rparr>)
          else if piece = lit ''secret'' then Ok (flags\<lparr>fl_secret := True\<rparr>)
          else Err (UnknownFlag piece))"

fun apply_pieces :: "ustring list \<Rightarrow> dict_flags \<Rightarrow> ('io dict_error_kind, dict_flags) result" where
  "apply_pieces [] flags = Ok flags"
| "apply_pieces (p # ps) flags =
     (let piece = str_trim p
      in if piece = [] then apply_pieces ps flags
         else case apply_flag piece flags of Err e \<Rightarrow> Err e | Ok flags \<Rightarrow> apply_pieces ps flags)"

definition parse_flags :: "ustring list \<Rightarrow> ('io dict_error_kind, dict_flags) result" where
  "parse_flags tokens = apply_pieces (concat (map (ustr_split (\<lambda>c. c = 44)) tokens)) flags_default"

section \<open>Directives\<close>

record parse_state =
  ps_dict :: dictionary
  ps_vendor_stack :: "(ustring \<times> u32) list"

text \<open>The head of the list is the top of the stack.\<close>

definition state_default :: parse_state where
  "state_default = \<lparr>ps_dict = dict_default, ps_vendor_stack = []\<rparr>"

definition current_vendor :: "parse_state \<Rightarrow> u32 option" where
  "current_vendor st = (case ps_vendor_stack st of [] \<Rightarrow> None | (_, i) # _ \<Rightarrow> Some i)"

definition strip_comment :: "ustring \<Rightarrow> ustring" where
  "strip_comment line = takeWhile (\<lambda>c. c \<noteq> 35) line"

definition parse_attribute :: "ustring list \<Rightarrow> parse_state \<Rightarrow> ('io dict_error_kind, parse_state) result" where
  "parse_attribute fs st =
     (if length fs < 3 then Err (BadArity ''ATTRIBUTE'' 3 (length fs))
      else
        and_then (parse_oid (fs ! 1)) (\<lambda>x.
        and_then (type_parse (fs ! 2)) (\<lambda>t.
        and_then (if length fs > 3 then parse_flags (drop 3 fs) else Ok flags_default) (\<lambda>flags.
          Ok (st\<lparr>ps_dict := (ps_dict st)\<lparr>dict_attributes := dict_attributes (ps_dict st) @
                [\<lparr>da_name = fs ! 0, da_oid = x, da_vendor = current_vendor st, da_typ = t, da_flags = flags\<rparr>]\<rparr>\<rparr>)))))"

definition parse_value :: "ustring list \<Rightarrow> parse_state \<Rightarrow> ('io dict_error_kind, parse_state) result" where
  "parse_value fs st =
     (if length fs < 3 then Err (BadArity ''VALUE'' 3 (length fs))
      else
        and_then (parse_signed (fs ! 2)) (\<lambda>n.
          Ok (st\<lparr>ps_dict := (ps_dict st)\<lparr>dict_values := dict_values (ps_dict st) @
                [\<lparr>dv_attribute = fs ! 0, dv_name = fs ! 1, dv_number = n\<rparr>]\<rparr>\<rparr>)))"

definition vendor_format :: "ustring \<Rightarrow> ('io dict_error_kind, u8 \<times> u8 \<times> bool) result" where
  "vendor_format fmt =
     (case str_strip_prefix (lit ''format='') fmt of
        None \<Rightarrow> Err (UnknownFlag fmt)
      | Some payload \<Rightarrow>
          (let parts = ustr_split (\<lambda>c. c = 44) payload;
               part = (\<lambda>i. if i < length parts then parts ! i else [])
           in and_then (parse_small_u8 (part 0)) (\<lambda>type_len.
              and_then (parse_small_u8 (part 1)) (\<lambda>length_len.
                if 2 < length parts
                then if parts ! 2 \<noteq> lit ''c'' then Err (UnknownFlag (parts ! 2)) else Ok (type_len, length_len, True)
                else Ok (type_len, length_len, False)))))"

definition parse_vendor :: "ustring list \<Rightarrow> parse_state \<Rightarrow> ('io dict_error_kind, parse_state) result" where
  "parse_vendor fs st =
     (if length fs < 2 then Err (BadArity ''VENDOR'' 2 (length fs))
      else
        and_then (parse_unsigned (fs ! 1)) (\<lambda>i.
          if \<not> i < 2 ^ 32 then Err (BadInteger (fs ! 1))
          else
            and_then (if 2 < length fs then vendor_format (fs ! 2) else Ok (1, 1, False)) (\<lambda>(type_len, length_len, c).
              Ok (st\<lparr>ps_dict := (ps_dict st)\<lparr>dict_vendors := dict_vendors (ps_dict st) @
                    [\<lparr>vn_name = fs ! 0, vn_id = of_nat i, vn_type_len = type_len, vn_length_len = length_len,
                      vn_has_continuation = c\<rparr>]\<rparr>\<rparr>))))"

definition parse_begin_vendor :: "ustring list \<Rightarrow> parse_state \<Rightarrow> ('io dict_error_kind, parse_state) result" where
  "parse_begin_vendor fs st =
     (if length fs \<noteq> 1 then Err (BadArity ''BEGIN-VENDOR'' 1 (length fs))
      else
        let name = fs ! 0
        in case find (\<lambda>v. vn_name v = name) (dict_vendors (ps_dict st)) of
             None \<Rightarrow> Err (UnknownVendor name)
           | Some v \<Rightarrow> Ok (st\<lparr>ps_vendor_stack := (name, vn_id v) # ps_vendor_stack st\<rparr>))"

definition parse_end_vendor :: "ustring list \<Rightarrow> parse_state \<Rightarrow> ('io dict_error_kind, parse_state) result" where
  "parse_end_vendor fs st =
     (if length fs \<noteq> 1 then Err (BadArity ''END-VENDOR'' 1 (length fs))
      else
        case ps_vendor_stack st of
          [] \<Rightarrow> Err UnmatchedEndVendor
        | (open_name, _) # rest \<Rightarrow>
            if open_name \<noteq> fs ! 0 then Err (VendorMismatch open_name (fs ! 0))
            else Ok (st\<lparr>ps_vendor_stack := rest\<rparr>))"

section \<open>Files\<close>

type_synonym 'io loader = "path option \<Rightarrow> path \<Rightarrow> ('io, path \<times> ustring) result"

definition resolve_include :: "path option \<Rightarrow> path \<Rightarrow> path" where
  "resolve_include current target =
     (case Option.bind current path_parent of
        Some dir \<Rightarrow> if path_is_relative target then path_join dir target else target
      | None \<Rightarrow> target)"

definition fs_load :: "(path \<Rightarrow> ('io, ustring) result) \<Rightarrow> 'io loader" where
  "fs_load read_to_string current target =
     (let resolved = resolve_include current target
      in case read_to_string resolved of Err e \<Rightarrow> Err e | Ok contents \<Rightarrow> Ok (resolved, contents))"

datatype map_io_error = NoSuchDictionary path

definition map_load :: "(path \<times> ustring) list \<Rightarrow> map_io_error loader" where
  "map_load files current target =
     (let resolved = resolve_include current target
      in case map_of files resolved of Some s \<Rightarrow> Ok (resolved, s) | None \<Rightarrow> Err (NoSuchDictionary resolved))"

definition MAX_INCLUDE_DEPTH :: nat where [simp]: "MAX_INCLUDE_DEPTH = 16"

definition line_number :: "nat \<Rightarrow> u32" where
  "line_number n = (if n < 2 ^ 32 then of_nat n else -1)"

text \<open>
  \<open>parse_lines\<close> is the loop of \<open>parse_one\<close> with \<open>handle_line\<close> inlined, since an include calls back
  into \<open>parse_one\<close>; \<open>plain_line\<close> is \<open>handle_line\<close> on the other directives. An empty line has no first
  field, which the loop excludes before it gets there.
\<close>

definition plain_line :: "ustring \<Rightarrow> ustring list \<Rightarrow> parse_state \<Rightarrow> ('io dict_error_kind, parse_state) result" where
  "plain_line directive rest st =
     (if directive = lit ''ATTRIBUTE'' then parse_attribute rest st
      else if directive = lit ''VALUE'' then parse_value rest st
      else if directive = lit ''VENDOR'' then parse_vendor rest st
      else if directive = lit ''BEGIN-VENDOR'' then parse_begin_vendor rest st
      else if directive = lit ''END-VENDOR'' then parse_end_vendor rest st
      else Err (UnknownDirective directive))"

function parse_one :: "'io loader \<Rightarrow> path option \<Rightarrow> path \<Rightarrow> parse_state \<Rightarrow> nat \<Rightarrow> ('io dict_error, parse_state) result"
  and parse_lines :: "'io loader \<Rightarrow> path \<Rightarrow> nat \<Rightarrow> ustring list \<Rightarrow> parse_state \<Rightarrow> nat \<Rightarrow> ('io dict_error, parse_state) result" where
  "parse_one load from target st depth =
     (if depth > MAX_INCLUDE_DEPTH then Err \<lparr>de_file = from, de_line = 0, de_kind = IncludeTooDeep\<rparr>
      else case load from target of
        Err e \<Rightarrow> Err \<lparr>de_file = from, de_line = 0, de_kind = DictIo e\<rparr>
      | Ok (path, contents) \<Rightarrow> parse_lines load path 0 (str_lines contents) st depth)"
| "parse_lines load path n [] st depth = Ok st"
| "parse_lines load path n (raw # ls) st depth =
     (let line = str_trim (strip_comment raw)
      in if line = [] then parse_lines load path (n + 1) ls st depth
         else
           let fs = split_whitespace line; directive = hd fs; rest = tl fs
           in case (if directive = lit ''$INCLUDE''
                    then if length rest \<noteq> 1 then Err (BadArity ''$INCLUDE'' 1 (length rest))
                         else map_err de_kind (parse_one load (Some path) (path_new (rest ! 0)) st (depth + 1))
                    else plain_line directive rest st) of
                Err kind \<Rightarrow> Err \<lparr>de_file = Some path, de_line = line_number (n + 1), de_kind = kind\<rparr>
              | Ok st \<Rightarrow> parse_lines load path (n + 1) ls st depth)"
  by pat_completeness auto
termination
  by (relation "measures [\<lambda>x. case x of Inl (load, from, target, st, depth) \<Rightarrow> if depth \<le> 16 then 2 * (17 - depth) + 2 else 0
        | Inr (load, path, n, ls, st, depth) \<Rightarrow> 2 * (17 - depth) + 1,
      \<lambda>x. case x of Inl _ \<Rightarrow> 0 | Inr (load, path, n, ls, st, depth) \<Rightarrow> length ls]")
    auto

declare parse_one.simps [simp del]

definition dict_parse :: "'io loader \<Rightarrow> path \<Rightarrow> ('io dict_error, dictionary) result" where
  "dict_parse load entry =
     (case parse_one load None entry state_default 0 of Err e \<Rightarrow> Err e | Ok st \<Rightarrow> Ok (ps_dict st))"

section \<open>Tokens\<close>

definition token :: "ustring \<Rightarrow> bool" where
  "token x \<longleftrightarrow> x \<noteq> [] \<and> list_all (\<lambda>c. \<not> white_space c \<and> c \<noteq> 35) x"

lemma ustr_split_pieces: "x \<in> set (ustr_split p s) \<Longrightarrow> list_all (\<lambda>c. \<not> p c \<and> c \<in> set s) x"
proof (induction s arbitrary: x)
  case (Cons c cs)
  obtain y ys where s: "ustr_split p cs = y # ys" using ustr_split_nonempty by (cases "ustr_split p cs") auto
  have "list_all (\<lambda>d. \<not> p d \<and> d \<in> set cs) y" using Cons.IH [of y] s by simp
  moreover have "list_all (\<lambda>d. \<not> p d \<and> d \<in> set cs) x" if "x \<in> set ys" using Cons.IH [of x] s that by simp
  ultimately show ?case using Cons.prems s by (auto simp: list_all_iff split: if_splits)
qed simp

lemma set_trim: "set (str_trim s) \<subseteq> set s"
  by (auto simp: str_trim_def dest!: set_dropWhileD)

text \<open>Every field of a line is a token.\<close>

lemma line_fields_tokens:
  assumes "x \<in> set (split_whitespace (str_trim (strip_comment raw)))"
  shows "token x"
proof -
  have "x \<noteq> []" "list_all (\<lambda>c. \<not> white_space c \<and> c \<in> set (str_trim (strip_comment raw))) x"
    using assms ustr_split_pieces [of x white_space] by (auto simp: split_whitespace_def)
  moreover have "c \<noteq> 35" if "c \<in> set (str_trim (strip_comment raw))" for c
    using that set_trim [of "strip_comment raw"] set_takeWhileD by (fastforce simp: strip_comment_def)
  ultimately show ?thesis by (auto simp: token_def list_all_iff)
qed

text \<open>A line that is not blank has a first field, so the \<open>expect\<close> of \<open>handle_line\<close> cannot fail.\<close>

lemma split_whitespace_nonempty:
  assumes "c \<in> set s" and "\<not> white_space c"
  shows "split_whitespace s \<noteq> []"
  using assms
proof (induction s)
  case (Cons d s)
  obtain y ys where y: "ustr_split white_space s = y # ys" using ustr_split_nonempty by (cases "ustr_split white_space s") auto
  show ?case using Cons y by (auto simp: split_whitespace_def)
qed simp

lemma trimmed_has_field: "str_trim s \<noteq> [] \<Longrightarrow> split_whitespace (str_trim s) \<noteq> []"
proof -
  assume s: "str_trim s \<noteq> []"
  let ?t = "dropWhile white_space (rev (dropWhile white_space s))"
  have "?t \<noteq> []" using s by (simp add: str_trim_def)
  then have "\<not> white_space (hd ?t)" by (rule hd_dropWhile)
  moreover have "hd ?t \<in> set (str_trim s)" using \<open>?t \<noteq> []\<close> by (simp add: str_trim_def)
  ultimately show ?thesis using split_whitespace_nonempty by blast
qed

section \<open>Parsed dictionaries are well formed\<close>

text \<open>
  What every parsed dictionary satisfies: names are tokens, no object identifier is empty, every
  attribute of a vendor belongs to the vendor of some declared name, and numbers fit an \<open>i64\<close>.
\<close>

definition vendor_named :: "dict_vendor list \<Rightarrow> ustring \<Rightarrow> u32 \<Rightarrow> bool" where
  "vendor_named vs n i \<longleftrightarrow> (\<exists>v. find (\<lambda>v. vn_name v = n) vs = Some v \<and> vn_id v = i)"

definition wf_dict :: "dictionary \<Rightarrow> bool" where
  "wf_dict d \<longleftrightarrow>
     (\<forall>a \<in> set (dict_attributes d). token (da_name a) \<and> oid_parts (da_oid a) \<noteq> []
        \<and> (\<forall>i. da_vendor a = Some i \<longrightarrow> (\<exists>n. vendor_named (dict_vendors d) n i)))
     \<and> (\<forall>v \<in> set (dict_vendors d). token (vn_name v))
     \<and> (\<forall>x \<in> set (dict_values d). token (dv_attribute x) \<and> token (dv_name x) \<and> - (2 ^ 63) \<le> dv_number x \<and> dv_number x < 2 ^ 63)"

definition wf_state :: "parse_state \<Rightarrow> bool" where
  "wf_state st \<longleftrightarrow> wf_dict (ps_dict st)
     \<and> list_all (\<lambda>(n, i). vendor_named (dict_vendors (ps_dict st)) n i) (ps_vendor_stack st)"

lemma vendor_named_append: "vendor_named vs n i \<Longrightarrow> vendor_named (vs @ ws) n i"
  unfolding vendor_named_def by (induction vs) auto

lemma vendor_named_token: "vendor_named (dict_vendors d) n i \<Longrightarrow> wf_dict d \<Longrightarrow> token n"
  by (auto simp: vendor_named_def wf_dict_def find_Some_iff)

lemma parse_oid_nonempty: "parse_oid s = Ok x \<Longrightarrow> oid_parts x \<noteq> []"
  by (auto simp: parse_oid_def split: result.splits if_splits)

lemma parse_i64_range: "parse_i64 s = Some i \<Longrightarrow> - (2 ^ 63) \<le> i \<and> i < 2 ^ 63"
  by (auto simp: parse_i64_def parse_uint_def split: if_splits option.splits)

lemma parse_signed_range: "parse_signed s = Ok i \<Longrightarrow> - (2 ^ 63) \<le> i \<and> i < 2 ^ 63"
  by (auto simp: parse_signed_def split: option.splits if_splits dest: parse_i64_range)

lemma current_vendor_named:
  assumes "wf_state st" and "current_vendor st = Some i"
  shows "\<exists>n. vendor_named (dict_vendors (ps_dict st)) n i"
  using assms by (cases "ps_vendor_stack st") (auto simp: current_vendor_def wf_state_def)

lemma token_nth: "list_all token fs \<Longrightarrow> k < length fs \<Longrightarrow> token (fs ! k)"
  by (simp add: list_all_length)

lemma token_fields: "list_all token fs \<Longrightarrow> \<not> length fs < 3 \<Longrightarrow> token (fs ! 0) \<and> token (fs ! Suc 0)"
  by (auto intro!: token_nth)

lemma parse_attribute_wf: "parse_attribute fs st = Ok st' \<Longrightarrow> list_all token fs \<Longrightarrow> wf_state st \<Longrightarrow> wf_state st'"
  using current_vendor_named [of st] token_fields [of fs]
  by (auto simp: parse_attribute_def and_then_Ok wf_state_def wf_dict_def parse_oid_nonempty split: if_splits)

lemma parse_value_wf: "parse_value fs st = Ok st' \<Longrightarrow> list_all token fs \<Longrightarrow> wf_state st \<Longrightarrow> wf_state st'"
  using token_fields [of fs]
  by (auto simp: parse_value_def and_then_Ok wf_state_def wf_dict_def dest!: parse_signed_range split: if_splits)

lemma parse_vendor_wf:
  assumes "parse_vendor fs st = Ok st'" and "list_all token fs" and "wf_state st"
  shows "wf_state st'"
proof -
  obtain i t l c where "st' = st\<lparr>ps_dict := (ps_dict st)\<lparr>dict_vendors := dict_vendors (ps_dict st) @
      [\<lparr>vn_name = fs ! 0, vn_id = i, vn_type_len = t, vn_length_len = l, vn_has_continuation = c\<rparr>]\<rparr>\<rparr>" "2 \<le> length fs"
    using assms(1) by (auto simp: parse_vendor_def and_then_Ok split: if_splits prod.splits)
  moreover from this have "token (fs ! 0)" using assms(2) by (intro token_nth) auto
  ultimately obtain v where v: "st' = st\<lparr>ps_dict := (ps_dict st)\<lparr>dict_vendors := dict_vendors (ps_dict st) @ [v]\<rparr>\<rparr>" "token (vn_name v)"
    by (metis dict_vendor.select_convs(1))
  then show ?thesis using assms(3) vendor_named_append [of "dict_vendors (ps_dict st)" _ _ "[v]"]
    unfolding wf_state_def wf_dict_def by (auto simp: list_all_iff) blast
qed

lemma parse_begin_vendor_wf: "parse_begin_vendor fs st = Ok st' \<Longrightarrow> wf_state st \<Longrightarrow> wf_state st'"
  by (auto simp: parse_begin_vendor_def wf_state_def vendor_named_def Let_def split: if_splits option.splits)

lemma parse_end_vendor_wf: "parse_end_vendor fs st = Ok st' \<Longrightarrow> wf_state st \<Longrightarrow> wf_state st'"
  by (auto simp: parse_end_vendor_def wf_state_def split: if_splits list.splits)

lemma plain_line_wf:
  assumes "plain_line directive fs st = Ok st'" and "list_all token fs" and "wf_state st"
  shows "wf_state st'"
  using assms
  by (auto simp: plain_line_def split: if_splits
      intro: parse_attribute_wf parse_value_wf parse_vendor_wf parse_begin_vendor_wf parse_end_vendor_wf)

lemma parse_wf:
  "parse_one load from target st depth = Ok st' \<Longrightarrow> wf_state st \<Longrightarrow> wf_state st'"
  "parse_lines load path n ls st depth = Ok st' \<Longrightarrow> wf_state st \<Longrightarrow> wf_state st'"
proof (induction load "from" target st depth and load path n ls st depth arbitrary: st' and st' rule: parse_one_parse_lines.induct)
  case (1 load src target st depth)
  then show ?case by (subst (asm) parse_one.simps) (auto split: if_splits result.splits)
next
  case (2 load path n st depth)
  then show ?case by simp
next
  case (3 load path n raw ls st depth)
  let ?line = "str_trim (strip_comment raw)" let ?fs = "split_whitespace ?line"
  show ?case
  proof (cases "?line = []")
    case True
    then show ?thesis using 3 by simp
  next
    case False
    have "list_all token (tl ?fs)"
      using line_fields_tokens [of _ raw] by (cases ?fs) (auto simp: list_all_iff)
    note tokens = this
    let ?r = "if hd ?fs = lit ''$INCLUDE''
        then if length (tl ?fs) \<noteq> 1 then Err (BadArity ''$INCLUDE'' 1 (length (tl ?fs)))
             else map_err de_kind (parse_one load (Some path) (path_new (tl ?fs ! 0)) st (depth + 1))
        else plain_line (hd ?fs) (tl ?fs) st"
    obtain st1 where st1: "?r = Ok st1" "parse_lines load path (n + 1) ls st1 depth = Ok st'"
      using 3(4) False by (auto simp: Let_def split: result.splits)
    have "wf_state st1"
    proof (cases "hd ?fs = lit ''$INCLUDE''")
      case True
      then have one: "length (tl ?fs) = 1" "map_err de_kind (parse_one load (Some path) (path_new (tl ?fs ! 0)) st (depth + 1)) = Ok st1"
        using st1(1) by (auto split: if_splits)
      then have "parse_one load (Some path) (path_new (tl ?fs ! 0)) st (depth + 1) = Ok st1"
        by (cases "parse_one load (Some path) (path_new (tl ?fs ! 0)) st (depth + 1)") simp_all
      then show ?thesis using 3(2) False True one(1) 3(5) by simp
    next
      case False
      show ?thesis by (rule plain_line_wf [OF st1(1) [unfolded if_not_P [OF False]] tokens 3(5)])
    qed
    then show ?thesis using 3(3) False st1 by auto
  qed
qed

section \<open>Printing\<close>

text \<open>A canonical text for every well-formed dictionary.\<close>

fun type_text :: "dict_type \<Rightarrow> ustring" where
  "type_text (TFixedOctets n) = lit ''octets['' @ show_nat (unat n) @ lit '']''"
| "type_text t = (case find (\<lambda>(k, u). u = t) type_keywords of Some (k, _) \<Rightarrow> k | None \<Rightarrow> [])"

definition flag_pieces :: "dict_flags \<Rightarrow> ustring list" where
  "flag_pieces f =
     (case fl_encrypt f of Some n \<Rightarrow> [lit ''encrypt='' @ show_nat (unat n)] | None \<Rightarrow> [])
     @ (if fl_has_tag f then [lit ''has_tag''] else []) @ (if fl_concat f then [lit ''concat''] else [])
     @ (if fl_array f then [lit ''array''] else []) @ (if fl_virtual f then [lit ''virtual''] else [])
     @ (if fl_internal f then [lit ''internal''] else []) @ (if fl_secret f then [lit ''secret''] else [])"

definition attribute_tokens :: "dict_attribute \<Rightarrow> ustring list" where
  "attribute_tokens a = [lit ''ATTRIBUTE'', da_name a, oid_display (da_oid a), type_text (da_typ a)] @ flag_pieces (da_flags a)"

definition vendor_tokens :: "dict_vendor \<Rightarrow> ustring list" where
  "vendor_tokens v =
     [lit ''VENDOR'', vn_name v, show_nat (unat (vn_id v)),
      lit ''format='' @ joined_by 44 ([show_nat (unat (vn_type_len v)), show_nat (unat (vn_length_len v))]
        @ (if vn_has_continuation v then [lit ''c''] else []))]"

definition value_tokens :: "dict_value \<Rightarrow> ustring list" where
  "value_tokens x = [lit ''VALUE'', dv_attribute x, dv_name x, show_int (dv_number x)]"

definition vendor_label :: "dict_vendor list \<Rightarrow> u32 \<Rightarrow> ustring" where
  "vendor_label vs i = (case find (\<lambda>v. vendor_named vs (vn_name v) i) vs of Some v \<Rightarrow> vn_name v | None \<Rightarrow> [])"

definition attribute_lines :: "dict_vendor list \<Rightarrow> dict_attribute \<Rightarrow> ustring list list" where
  "attribute_lines vs a =
     (case da_vendor a of
        None \<Rightarrow> [attribute_tokens a]
      | Some i \<Rightarrow> [[lit ''BEGIN-VENDOR'', vendor_label vs i], attribute_tokens a, [lit ''END-VENDOR'', vendor_label vs i]])"

definition dict_lines :: "dictionary \<Rightarrow> ustring list list" where
  "dict_lines d =
     map vendor_tokens (dict_vendors d) @ concat (map (attribute_lines (dict_vendors d)) (dict_attributes d))
     @ map value_tokens (dict_values d)"

definition dict_text :: "dictionary \<Rightarrow> ustring" where
  "dict_text d = concat (map (\<lambda>ts. joined_by 32 ts @ [10]) (dict_lines d))"

subsection \<open>Fields of the text\<close>

lemma strip_prefix_append [simp]: "str_strip_prefix p (p @ s) = Some s"
  by (simp add: str_strip_prefix_def)

lemma strip_suffix_append [simp]: "str_strip_suffix p (s @ p) = Some s"
  by (simp add: str_strip_suffix_def)

lemma parse_uint_show_word: "parse_uint LENGTH('a) 10 (show_nat (unat (w :: 'a :: len word))) = Some (unat w)"
  by (rule parse_uint_show) (rule unsigned_less)

lemma digits_not: "c < 48 \<or> 57 < c \<Longrightarrow> c \<notin> set (show_nat n)"
  using show_nat_digits [of n] by (auto simp: list_all_iff)

lemma oid_components_show:
  "oid_components s (map (\<lambda>c. show_nat (unat c)) ps) acc = Ok (acc @ ps)"
proof (induction ps arbitrary: acc)
  case (Cons p ps)
  show ?case using Cons parse_uint_show_word [of p] by simp
qed simp

lemma parse_oid_display: "oid_parts x \<noteq> [] \<Longrightarrow> parse_oid (oid_display x) = Ok x"
proof -
  assume x: "oid_parts x \<noteq> []"
  have "ustr_split (\<lambda>c. c = 46) (oid_display x) = map (\<lambda>c. show_nat (unat c)) (oid_parts x)"
    unfolding oid_display_def using x by (intro split_joined) (auto simp: list_all_iff digits_not)
  then show ?thesis using x by (cases x) (simp add: parse_oid_def oid_components_show)
qed

lemma type_parse_text: "type_parse (type_text t) = Ok t"
proof (cases t)
  case (TFixedOctets n)
  then show ?thesis using parse_uint_show_word [of n] by (simp add: type_parse_def)
qed (simp_all add: type_parse_def type_keywords_def lit_def str_strip_prefix_def)

definition flag_literals :: "ustring list" where
  "flag_literals = map lit [''has_tag'', ''concat'', ''array'', ''virtual'', ''internal'', ''secret'']"

lemma apply_flag_encrypt: "apply_flag (lit ''encrypt='' @ show_nat (unat n)) f = Ok (f\<lparr>fl_encrypt := Some n\<rparr>)"
  using parse_uint_show_word [of n] by (simp add: apply_flag_def)

lemma apply_flag_literals:
  "apply_flag (lit ''has_tag'') f = Ok (f\<lparr>fl_has_tag := True\<rparr>)" "apply_flag (lit ''concat'') f = Ok (f\<lparr>fl_concat := True\<rparr>)"
  "apply_flag (lit ''array'') f = Ok (f\<lparr>fl_array := True\<rparr>)" "apply_flag (lit ''virtual'') f = Ok (f\<lparr>fl_virtual := True\<rparr>)"
  "apply_flag (lit ''internal'') f = Ok (f\<lparr>fl_internal := True\<rparr>)" "apply_flag (lit ''secret'') f = Ok (f\<lparr>fl_secret := True\<rparr>)"
  by (simp_all add: apply_flag_def lit_def str_strip_prefix_def)

lemma token_digits: "token (show_nat n)"
  using show_nat_digits [of n] by (auto simp: token_def list_all_iff white_space_def)

lemma token_show_int: "token (show_int i)"
  using token_digits by (auto simp: token_def show_int_def white_space_def)

lemma token_append: "token x \<Longrightarrow> list_all (\<lambda>c. \<not> white_space c \<and> c \<noteq> 35) y \<Longrightarrow> token (x @ y)"
  by (simp add: token_def)

lemma token_literals:
  "token (lit ''ATTRIBUTE'')" "token (lit ''VALUE'')" "token (lit ''VENDOR'')" "token (lit ''BEGIN-VENDOR'')" "token (lit ''END-VENDOR'')"
  "token (lit ''encrypt='')" "token (lit ''format='')" "token (lit ''octets['')" "token (lit '']'')" "token (lit ''c'')" "token (lit ''has_tag'')"
  "token (lit ''concat'')" "token (lit ''array'')" "token (lit ''virtual'')" "token (lit ''internal'')" "token (lit ''secret'')"
  by (simp_all add: token_def lit_def white_space_def)

lemma token_trim: "token x \<Longrightarrow> str_trim x = x"
  by (rule trim_id) (auto simp: token_def list_all_iff)

lemma token_type: "token (type_text t)"
proof (cases t)
  case (TFixedOctets n)
  have "token (lit ''octets['' @ show_nat (unat n) @ lit '']'')"
    using token_digits [of "unat n"] token_literals(8,9) by (auto simp: token_def)
  then show ?thesis using TFixedOctets by simp
qed (simp_all add: token_def type_keywords_def lit_def white_space_def)

lemma joined_list_all: "list_all (list_all p) xs \<Longrightarrow> p c \<Longrightarrow> list_all p (joined_by c xs)"
  using set_joined [of c xs] by (fastforce simp: list_all_iff)

lemma token_oid:
  assumes "oid_parts x \<noteq> []"
  shows "token (oid_display x)"
proof -
  let ?xs = "map (\<lambda>c. show_nat (unat c)) (oid_parts x)"
  have "joined_by 46 ?xs \<noteq> []" using hd_joined [of ?xs 46] assms by (simp add: hd_map)
  moreover have "list_all (list_all (\<lambda>c. \<not> white_space c \<and> c \<noteq> 35)) ?xs"
    using token_digits by (simp add: token_def list_all_iff)
  then have "list_all (\<lambda>c. \<not> white_space c \<and> c \<noteq> 35) (joined_by 46 ?xs)"
    by (rule joined_list_all) (simp add: white_space_def)
  ultimately show ?thesis by (simp add: token_def oid_display_def)
qed

definition flag_piece :: "ustring \<Rightarrow> bool" where
  "flag_piece x \<longleftrightarrow> token x \<and> 44 \<notin> set x"

lemma flag_pieces_ok: "list_all flag_piece (flag_pieces f)"
proof -
  have "list_all flag_piece (map lit [''has_tag'', ''concat'', ''array'', ''virtual'', ''internal'', ''secret''])"
    by (simp add: flag_piece_def token_def lit_def white_space_def)
  moreover have "flag_piece (lit ''encrypt='' @ show_nat n)" for n
    using token_digits [of n] token_literals(6) digits_not [of 44 n] by (auto simp: flag_piece_def token_def lit_def)
  ultimately show ?thesis by (simp add: flag_pieces_def split: option.split)
qed

lemma parse_flags_pieces: "list_all flag_piece ps \<Longrightarrow> parse_flags ps = apply_pieces ps flags_default"
proof -
  assume "list_all flag_piece ps"
  then have "concat (map (ustr_split (\<lambda>c. c = 44)) ps) = ps"
  proof (induction ps)
    case (Cons p ps)
    then have "ustr_split (\<lambda>c. c = 44) p = [p]" by (intro ustr_split_none) (auto simp: flag_piece_def list_all_iff)
    then show ?case using Cons by simp
  qed simp
  then show ?thesis by (simp add: parse_flags_def)
qed

lemma apply_pieces_append: "apply_pieces (xs @ ys) f = and_then (apply_pieces xs f) (apply_pieces ys)"
  by (induction xs f rule: apply_pieces.induct) (auto simp: Let_def split: result.splits)

lemma apply_pieces_one: "token p \<Longrightarrow> apply_pieces [p] f = apply_flag p f"
  by (simp add: token_trim) (auto simp: token_def split: result.splits)

lemma parse_flags_text: "parse_flags (flag_pieces f) = Ok f"
proof -
  have o: "apply_pieces (if b then [p] else []) g = (if b then apply_flag p g else Ok g)" if "token p" for b p and g :: dict_flags
    by (cases b) (simp_all only: apply_pieces_one [OF that] if_True if_False apply_pieces.simps(1))
  have e: "apply_pieces (case x of Some n \<Rightarrow> [lit ''encrypt='' @ show_nat (unat n)] | None \<Rightarrow> []) g
      = Ok (case x of Some n \<Rightarrow> g\<lparr>fl_encrypt := x\<rparr> | None \<Rightarrow> g)" for x :: "u8 option" and g
  proof (cases x)
    case (Some n)
    have "token (lit ''encrypt='' @ show_nat (unat n))"
      using token_digits [of "unat n"] by (intro token_append token_literals) (simp add: token_def)
    then show ?thesis using Some by (simp only: option.case apply_pieces_one apply_flag_encrypt)
  qed simp
  have l: "apply_pieces (if b then [lit ''has_tag''] else []) g = Ok (g\<lparr>fl_has_tag := fl_has_tag g \<or> b\<rparr>)"
    "apply_pieces (if b then [lit ''concat''] else []) g = Ok (g\<lparr>fl_concat := fl_concat g \<or> b\<rparr>)"
    "apply_pieces (if b then [lit ''array''] else []) g = Ok (g\<lparr>fl_array := fl_array g \<or> b\<rparr>)"
    "apply_pieces (if b then [lit ''virtual''] else []) g = Ok (g\<lparr>fl_virtual := fl_virtual g \<or> b\<rparr>)"
    "apply_pieces (if b then [lit ''internal''] else []) g = Ok (g\<lparr>fl_internal := fl_internal g \<or> b\<rparr>)"
    "apply_pieces (if b then [lit ''secret''] else []) g = Ok (g\<lparr>fl_secret := fl_secret g \<or> b\<rparr>)" for b g
    by (simp_all only: o token_literals apply_flag_literals) simp_all
  have "parse_flags (flag_pieces f) = apply_pieces (flag_pieces f) flags_default" by (rule parse_flags_pieces [OF flag_pieces_ok])
  also have "\<dots> = Ok f"
    by (cases f) (simp add: flag_pieces_def apply_pieces_append e l flags_default_def del: apply_pieces.simps split: option.split)
  finally show ?thesis .
qed

subsection \<open>Lines of the text\<close>

fun plain_lines :: "ustring list list \<Rightarrow> parse_state \<Rightarrow> ('io dict_error_kind, parse_state) result" where
  "plain_lines [] st = Ok st"
| "plain_lines (ts # tss) st = and_then (plain_line (hd ts) (tl ts) st) (plain_lines tss)"

lemma plain_lines_append: "plain_lines (xs @ ys) st = and_then (plain_lines xs st) (plain_lines ys)"
proof (induction xs arbitrary: st)
  case (Cons x xs)
  then show ?case by (cases "plain_line (hd x) (tl x) st :: ('a dict_error_kind, parse_state) result") simp_all
qed simp

definition plain_tokens :: "ustring list \<Rightarrow> bool" where
  "plain_tokens ts \<longleftrightarrow> ts \<noteq> [] \<and> list_all token ts \<and> hd ts \<noteq> lit ''$INCLUDE''"

lemma token_line:
  assumes "ts \<noteq> []" and "list_all token ts"
  shows "str_trim (strip_comment (joined_by 32 ts)) = joined_by 32 ts" "split_whitespace (joined_by 32 ts) = ts" "joined_by 32 ts \<noteq> []"
    "list_all (\<lambda>c. c \<noteq> 10 \<and> c \<noteq> 13) (joined_by 32 ts)"
proof -
  have t: "list_all (\<lambda>x. x \<noteq> [] \<and> list_all (\<lambda>d. \<not> white_space d) x) ts" using assms(2) by (auto simp: token_def list_all_iff)
  have ws: "white_space 10" "white_space 13" by (simp_all add: white_space_def)
  have "list_all (\<lambda>c. c \<noteq> 35 \<and> c \<noteq> 10 \<and> c \<noteq> 13) (joined_by 32 ts)"
    using assms(2) ws by (intro joined_list_all) (auto simp: token_def list_all_iff)
  then show "list_all (\<lambda>c. c \<noteq> 10 \<and> c \<noteq> 13) (joined_by 32 ts)" "str_trim (strip_comment (joined_by 32 ts)) = joined_by 32 ts"
    using trim_joined [OF t assms(1)] by (auto simp: strip_comment_def list_all_iff takeWhile_eq_all_conv [THEN iffD2])
  show "split_whitespace (joined_by 32 ts) = ts" by (rule split_whitespace_joined [OF t assms(1)])
  show "joined_by 32 ts \<noteq> []" using hd_joined [OF assms(1), of 32] assms by (cases ts) (auto simp: token_def)
qed

lemma parse_plain_lines:
  "list_all plain_tokens tss \<Longrightarrow> plain_lines tss st = (Ok st' :: ('io dict_error_kind, parse_state) result) \<Longrightarrow>
     parse_lines (load :: 'io loader) path n (map (joined_by 32) tss) st depth = Ok st'"
proof (induction tss arbitrary: n st)
  case (Cons ts tss)
  have ts: "ts \<noteq> []" "list_all token ts" "hd ts \<noteq> lit ''$INCLUDE''" using Cons.prems(1) by (auto simp: plain_tokens_def)
  obtain st1 where st1: "plain_line (hd ts) (tl ts) st = (Ok st1 :: ('io dict_error_kind, parse_state) result)"
    "plain_lines tss st1 = (Ok st' :: ('io dict_error_kind, parse_state) result)"
    using Cons.prems(2) by (auto simp: and_then_Ok)
  show ?case using Cons.IH [OF _ st1(2)] Cons.prems(1) ts(3) st1(1) by (simp add: token_line [OF ts(1,2)] Let_def)
qed simp

lemma small_u8_show: "parse_small_u8 (show_nat (unat w)) = Ok w"
  using parse_uint_show_word [of w] by (simp add: parse_small_u8_def)

lemma not_hex: "str_strip_prefix (lit ''0x'') (show_nat n) = None" "str_strip_prefix (lit ''0X'') (show_nat n) = None"
  "str_strip_prefix (lit ''0x'') (45 # show_nat n) = None" "str_strip_prefix (lit ''0X'') (45 # show_nat n) = None"
proof -
  have "c \<in> set (take k (show_nat n)) \<Longrightarrow> 48 \<le> c \<and> c \<le> 57" for c k
    using show_nat_digits [of n] by (auto simp: list_all_iff dest: in_set_takeD)
  from this [of 120 "Suc (Suc 0)"] this [of 88 "Suc (Suc 0)"]
  show "str_strip_prefix (lit ''0x'') (show_nat n) = None" "str_strip_prefix (lit ''0X'') (show_nat n) = None"
    by (auto simp: str_strip_prefix_def lit_def)
qed (simp_all add: str_strip_prefix_def lit_def)

lemma parse_signed_show: "- (2 ^ 63) \<le> i \<Longrightarrow> i < 2 ^ 63 \<Longrightarrow> parse_signed (show_int i) = Ok i"
proof -
  assume i: "- (2 ^ 63) \<le> i" "i < 2 ^ 63"
  have "str_strip_prefix (lit ''0x'') (show_int i) = None" "str_strip_prefix (lit ''0X'') (show_int i) = None"
    by (simp_all add: show_int_def not_hex)
  then show ?thesis using parse_i64_show [OF i] by (simp add: parse_signed_def)
qed

lemma vendor_format_text:
  "vendor_format (lit ''format='' @ joined_by 44 ([show_nat (unat t), show_nat (unat l)] @ (if c then [lit ''c''] else []))) = Ok (t, l, c)"
proof -
  let ?xs = "[show_nat (unat t), show_nat (unat l)] @ (if c then [lit ''c''] else [])"
  have "ustr_split (\<lambda>c. c = 44) (joined_by 44 ?xs) = ?xs"
    by (rule split_joined) (auto simp: list_all_iff digits_not lit_def)
  then show ?thesis by (simp add: vendor_format_def small_u8_show Let_def)
qed

lemma parse_unsigned_show: "parse_unsigned (show_nat (unat (w :: u32))) = Ok (unat w)"
  using parse_uint_show [of "unat w" 64] unsigned_less [of w, where ?'a = nat] by (simp add: parse_unsigned_def not_hex)

lemma vendor_line:
  "plain_line (hd (vendor_tokens v)) (tl (vendor_tokens v)) st
     = (Ok (st\<lparr>ps_dict := (ps_dict st)\<lparr>dict_vendors := dict_vendors (ps_dict st) @ [v]\<rparr>\<rparr>) :: ('io dict_error_kind, parse_state) result)"
proof -
  obtain fmt where fmt: "vendor_tokens v = [lit ''VENDOR'', vn_name v, show_nat (unat (vn_id v)), fmt]"
    "vendor_format fmt = (Ok (vn_type_len v, vn_length_len v, vn_has_continuation v) :: ('io dict_error_kind, _) result)"
    using vendor_format_text unfolding vendor_tokens_def by blast
  have "unat (vn_id v) < 2 ^ 32" using unsigned_less [of "vn_id v", where ?'a = nat] by simp
  then show ?thesis using fmt(2) unfolding fmt(1)
    by (simp add: plain_line_def parse_vendor_def parse_unsigned_show lit_def)
qed

lemma value_line:
  "- (2 ^ 63) \<le> dv_number x \<Longrightarrow> dv_number x < 2 ^ 63 \<Longrightarrow>
   plain_line (hd (value_tokens x)) (tl (value_tokens x)) st
     = Ok (st\<lparr>ps_dict := (ps_dict st)\<lparr>dict_values := dict_values (ps_dict st) @ [x]\<rparr>\<rparr>)"
  by (simp add: value_tokens_def plain_line_def parse_value_def parse_signed_show lit_def)

lemma attribute_line:
  assumes "oid_parts (da_oid a) \<noteq> []" and "current_vendor st = da_vendor a"
  shows "plain_line (hd (attribute_tokens a)) (tl (attribute_tokens a)) st
     = (Ok (st\<lparr>ps_dict := (ps_dict st)\<lparr>dict_attributes := dict_attributes (ps_dict st) @ [a]\<rparr>\<rparr>) :: ('io dict_error_kind, parse_state) result)"
proof -
  have "fl = flags_default" if "flag_pieces fl = []" for fl
    using parse_flags_text [of fl] that by (simp add: parse_flags_def)
  then show ?thesis using assms
    by (cases a) (auto simp: attribute_tokens_def plain_line_def parse_attribute_def parse_oid_display type_parse_text parse_flags_text
      numeral_3_eq_3)
qed

lemma vendor_label_named:
  assumes "vendor_named vs n i"
  shows "vendor_named vs (vendor_label vs i) i"
proof -
  obtain v where v: "find (\<lambda>v. vn_name v = n) vs = Some v" using assms by (auto simp: vendor_named_def)
  then have "v \<in> set vs" "vendor_named vs (vn_name v) i" using assms by (auto simp: find_Some_iff)
  then obtain w where w: "find (\<lambda>v. vendor_named vs (vn_name v) i) vs = Some w"
    by (metis find_None_iff option.exhaust)
  then have "vendor_named vs (vn_name w) i" by (auto simp: find_Some_iff)
  then show ?thesis using w by (simp add: vendor_label_def)
qed

lemma begin_line:
  "vendor_named (dict_vendors (ps_dict st)) n i \<Longrightarrow>
   plain_line (lit ''BEGIN-VENDOR'') [n] st = Ok (st\<lparr>ps_vendor_stack := (n, i) # ps_vendor_stack st\<rparr>)"
  by (auto simp: plain_line_def parse_begin_vendor_def vendor_named_def lit_def Let_def)

lemma end_line:
  "ps_vendor_stack st = (n, i) # rest \<Longrightarrow> plain_line (lit ''END-VENDOR'') [n] st = Ok (st\<lparr>ps_vendor_stack := rest\<rparr>)"
  by (simp add: plain_line_def parse_end_vendor_def lit_def)

lemma attribute_lines_run:
  assumes "oid_parts (da_oid a) \<noteq> []" and "ps_vendor_stack st = []"
    and "\<And>i. da_vendor a = Some i \<Longrightarrow> \<exists>n. vendor_named (dict_vendors (ps_dict st)) n i"
  shows "plain_lines (attribute_lines (dict_vendors (ps_dict st)) a) st
    = (Ok (st\<lparr>ps_dict := (ps_dict st)\<lparr>dict_attributes := dict_attributes (ps_dict st) @ [a]\<rparr>\<rparr>) :: ('io dict_error_kind, parse_state) result)"
proof (cases "da_vendor a")
  case None
  then have "current_vendor st = da_vendor a" using assms(2) by (simp add: current_vendor_def)
  then show ?thesis using None by (simp add: attribute_lines_def attribute_line [OF assms(1)])
next
  case (Some i)
  let ?n = "vendor_label (dict_vendors (ps_dict st)) i"
  let ?st1 = "st\<lparr>ps_vendor_stack := [(?n, i)]\<rparr>"
  let ?st2 = "?st1\<lparr>ps_dict := (ps_dict st)\<lparr>dict_attributes := dict_attributes (ps_dict st) @ [a]\<rparr>\<rparr>"
  have n: "vendor_named (dict_vendors (ps_dict st)) ?n i" using assms(3) [OF Some] vendor_label_named by blast
  have 1: "plain_line (lit ''BEGIN-VENDOR'') [?n] st = (Ok ?st1 :: ('io dict_error_kind, parse_state) result)"
    using begin_line [OF n] assms(2) by simp
  have 2: "plain_line (hd (attribute_tokens a)) (tl (attribute_tokens a)) ?st1 = (Ok ?st2 :: ('io dict_error_kind, parse_state) result)"
    using attribute_line [OF assms(1), of ?st1] Some by (simp add: current_vendor_def)
  have 3: "plain_line (lit ''END-VENDOR'') [?n] ?st2 = (Ok (?st2\<lparr>ps_vendor_stack := []\<rparr>) :: ('io dict_error_kind, parse_state) result)"
    by (rule end_line) simp
  show ?thesis using 1 2 3 Some assms(2) by (simp add: attribute_lines_def)
qed

lemma map_lines_run:
  assumes "\<And>x st. x \<in> set xs \<Longrightarrow> plain_line (hd (f x)) (tl (f x)) st = (Ok (g x st) :: ('io dict_error_kind, parse_state) result)"
  shows "plain_lines (map f xs) st = (Ok (fold g xs st) :: ('io dict_error_kind, parse_state) result)"
  using assms by (induction xs arbitrary: st) simp_all

lemma fold_vendors:
  "fold (\<lambda>v st. st\<lparr>ps_dict := (ps_dict st)\<lparr>dict_vendors := dict_vendors (ps_dict st) @ [v]\<rparr>\<rparr>) vs st
     = st\<lparr>ps_dict := (ps_dict st)\<lparr>dict_vendors := dict_vendors (ps_dict st) @ vs\<rparr>\<rparr>"
  by (induction vs arbitrary: st) simp_all

lemma fold_values:
  "fold (\<lambda>v st. st\<lparr>ps_dict := (ps_dict st)\<lparr>dict_values := dict_values (ps_dict st) @ [v]\<rparr>\<rparr>) vs st
     = st\<lparr>ps_dict := (ps_dict st)\<lparr>dict_values := dict_values (ps_dict st) @ vs\<rparr>\<rparr>"
  by (induction vs arbitrary: st) simp_all

lemma all_attribute_lines_run:
  assumes "\<forall>a \<in> set as. oid_parts (da_oid a) \<noteq> [] \<and> (\<forall>i. da_vendor a = Some i \<longrightarrow> (\<exists>n. vendor_named (dict_vendors (ps_dict st)) n i))"
    and "ps_vendor_stack st = []"
  shows "plain_lines (concat (map (attribute_lines (dict_vendors (ps_dict st))) as)) st
    = (Ok (st\<lparr>ps_dict := (ps_dict st)\<lparr>dict_attributes := dict_attributes (ps_dict st) @ as\<rparr>\<rparr>) :: ('io dict_error_kind, parse_state) result)"
  using assms
proof (induction as arbitrary: st)
  case (Cons a as)
  let ?st = "st\<lparr>ps_dict := (ps_dict st)\<lparr>dict_attributes := dict_attributes (ps_dict st) @ [a]\<rparr>\<rparr>"
  have "plain_lines (attribute_lines (dict_vendors (ps_dict st)) a) st = (Ok ?st :: ('io dict_error_kind, parse_state) result)"
    by (rule attribute_lines_run) (use Cons.prems in auto)
  then show ?case using Cons.IH [of ?st] Cons.prems by (simp add: plain_lines_append)
qed simp

lemma dict_lines_run:
  assumes "wf_dict d"
  shows "plain_lines (dict_lines d) state_default = (Ok \<lparr>ps_dict = d, ps_vendor_stack = []\<rparr> :: ('io dict_error_kind, parse_state) result)"
proof -
  let ?st1 = "\<lparr>ps_dict = dict_default\<lparr>dict_vendors := dict_vendors d\<rparr>, ps_vendor_stack = []\<rparr>"
  let ?st2 = "\<lparr>ps_dict = dict_default\<lparr>dict_vendors := dict_vendors d, dict_attributes := dict_attributes d\<rparr>, ps_vendor_stack = []\<rparr>"
  have 1: "plain_lines (map vendor_tokens (dict_vendors d)) state_default = (Ok ?st1 :: ('io dict_error_kind, parse_state) result)"
    by (subst map_lines_run [OF vendor_line]) (simp add: fold_vendors state_default_def dict_default_def)
  have 2: "plain_lines (concat (map (attribute_lines (dict_vendors d)) (dict_attributes d))) ?st1 = (Ok ?st2 :: ('io dict_error_kind, parse_state) result)"
    using all_attribute_lines_run [of "dict_attributes d" ?st1, where ?'io = 'io] assms by (simp add: wf_dict_def dict_default_def)
  have 3: "plain_lines (map value_tokens (dict_values d)) ?st2 = (Ok \<lparr>ps_dict = d, ps_vendor_stack = []\<rparr> :: ('io dict_error_kind, parse_state) result)"
    by (subst map_lines_run [OF value_line]) (use assms in \<open>auto simp: wf_dict_def fold_values dict_default_def\<close>)
  show ?thesis using 1 2 3 by (simp add: dict_lines_def plain_lines_append)
qed

lemma directive_names:
  "lit ''ATTRIBUTE'' \<noteq> lit ''$INCLUDE''" "lit ''VALUE'' \<noteq> lit ''$INCLUDE''" "lit ''VENDOR'' \<noteq> lit ''$INCLUDE''"
  "lit ''BEGIN-VENDOR'' \<noteq> lit ''$INCLUDE''" "lit ''END-VENDOR'' \<noteq> lit ''$INCLUDE''"
  by (simp_all add: lit_def)

lemma dict_lines_plain:
  assumes "wf_dict d"
  shows "list_all plain_tokens (dict_lines d)"
proof -
  have v: "plain_tokens (vendor_tokens v)" if "v \<in> set (dict_vendors d)" for v
  proof -
    let ?xs = "[show_nat (unat (vn_type_len v)), show_nat (unat (vn_length_len v))] @ (if vn_has_continuation v then [lit ''c''] else [])"
    have "list_all (\<lambda>c. \<not> white_space c \<and> c \<noteq> 35) (joined_by 44 ?xs)"
      using token_digits token_literals(10) by (intro joined_list_all) (auto simp: token_def white_space_def)
    then have "token (lit ''format='' @ joined_by 44 ?xs)" by (rule token_append [OF token_literals(7)])
    moreover have "token (vn_name v)" using assms that by (simp add: wf_dict_def)
    ultimately show ?thesis
      by (simp add: plain_tokens_def vendor_tokens_def token_digits token_literals directive_names del: joined_by.simps)
  qed
  have a: "list_all plain_tokens (attribute_lines (dict_vendors d) a)" if "a \<in> set (dict_attributes d)" for a
  proof -
    have "list_all token (flag_pieces f)" for f using flag_pieces_ok [of f] by (auto simp: flag_piece_def list_all_iff)
    moreover have "token (da_name a)" "oid_parts (da_oid a) \<noteq> []" using assms that by (simp_all add: wf_dict_def)
    ultimately have "plain_tokens (attribute_tokens a)"
      by (simp add: plain_tokens_def attribute_tokens_def token_type token_oid token_literals directive_names)
    moreover have "token (vendor_label (dict_vendors d) i)" if some: "da_vendor a = Some i" for i
    proof -
      obtain n where "vendor_named (dict_vendors d) n i" using assms \<open>a \<in> set (dict_attributes d)\<close> some unfolding wf_dict_def by blast
      then show ?thesis using vendor_label_named vendor_named_token assms by blast
    qed
    ultimately show ?thesis
      by (simp add: attribute_lines_def plain_tokens_def token_literals directive_names split: option.split)
  qed
  have "plain_tokens (value_tokens x)" if "x \<in> set (dict_values d)" for x
    using assms that by (simp add: plain_tokens_def value_tokens_def wf_dict_def token_show_int token_literals directive_names)
  then show ?thesis using v a by (auto simp: dict_lines_def list_all_iff)
qed

lemma parse_printed:
  assumes "wf_dict d" and "load None entry = Ok (path, dict_text d)"
  shows "dict_parse load entry = Ok d"
proof -
  let ?ls = "map (joined_by 32) (dict_lines d)"
  have "list_all (\<lambda>l. list_all (\<lambda>c. c \<noteq> 10 \<and> c \<noteq> 13) l) ?ls"
    using dict_lines_plain [OF assms(1)] token_line(4) by (auto simp: list_all_iff plain_tokens_def)
  moreover have "dict_text d = concat (map (\<lambda>l. l @ [10]) ?ls)" by (simp add: dict_text_def comp_def)
  ultimately have "str_lines (dict_text d) = ?ls" by (simp only: lines_of_lines)
  then show ?thesis using assms(2)
    by (simp add: dict_parse_def parse_one.simps parse_plain_lines [OF dict_lines_plain [OF assms(1)] dict_lines_run [OF assms(1)]])
qed

section \<open>What the parser promises\<close>

lemma dict_parse_wf:
  assumes "dict_parse load entry = Ok d"
  shows "wf_dict d"
proof -
  obtain st where st: "parse_one load None entry state_default 0 = Ok st" "d = ps_dict st"
    using assms by (auto simp: dict_parse_def split: result.splits)
  have "wf_state state_default" by (simp add: state_default_def dict_default_def wf_state_def wf_dict_def)
  then have "wf_dict d" using parse_wf(1) [OF st(1)] st(2) by (simp add: wf_state_def)
  then show ?thesis .
qed

text \<open>
  C31: a parsed dictionary is well typed. Whatever the loader returns, in any nesting of includes, a
  dictionary the parser accepts has only names that are tokens, no attribute with an empty
  object identifier (whose \<open>root()\<close> would panic), no attribute of a vendor that no
  \<open>VENDOR\<close> line declared, and only numbers of an \<open>i64\<close>.
\<close>

theorem dict_parse_typed:
  assumes "dict_parse load entry = Ok d"
  shows "wf_dict d \<and> (\<forall>a \<in> set (dict_attributes d). \<exists>p. oid_root (da_oid a) = Some p)"
proof -
  have "wf_dict d" using assms(1) by (rule dict_parse_wf)
  moreover from this have "\<exists>p. oid_root (da_oid a) = Some p" if "a \<in> set (dict_attributes d)" for a
    using that by (auto simp: wf_dict_def oid_root_def split: list.split)
  ultimately show ?thesis by blast
qed

definition demo_dict :: dictionary where
  "demo_dict =
     \<lparr>dict_attributes = [\<lparr>da_name = lit ''Acme-Key'', da_oid = Oid [1, 2], da_vendor = Some 42, da_typ = TOctets,
         da_flags = flags_default\<lparr>fl_encrypt := Some 2, fl_has_tag := True\<rparr>\<rparr>],
      dict_values = [\<lparr>dv_attribute = lit ''Acme-Key'', dv_name = lit ''None'', dv_number = -1\<rparr>],
      dict_vendors = [\<lparr>vn_name = lit ''Acme'', vn_id = 42, vn_type_len = 1, vn_length_len = 1, vn_has_continuation = False\<rparr>]\<rparr>"

definition demo_files :: "map_io_error loader" where
  "demo_files = map_load [(path_new (lit ''acme''), dict_text demo_dict)]"

lemma demo_dict_wf: "wf_dict demo_dict"
  by (simp add: wf_dict_def demo_dict_def vendor_named_def token_def lit_def white_space_def)

lemma demo_dict_load: "demo_files None (path_new (lit ''acme'')) = Ok (path_new (lit ''acme''), dict_text demo_dict)"
  by (simp add: demo_files_def map_load_def resolve_include_def)

lemma demo_dict_parse: "dict_parse demo_files (path_new (lit ''acme'')) = Ok demo_dict"
  using demo_dict_wf demo_dict_load by (rule parse_printed)

theorem dict_parse_typed_witness:
  "dict_parse demo_files (path_new (lit ''acme'')) = Ok demo_dict
    \<and> wf_dict demo_dict"
  using dict_parse_typed [OF demo_dict_parse] demo_dict_parse by blast

text \<open>
  C30: parsing inverts printing on exactly the well-formed dictionaries. Print a dictionary as the lines of
  its vendors, then its attributes, each in a block of its vendor, then its values. The parser reads the
  text back as this dictionary, with every name, object identifier, type, flag, vendor format and number
  of it, if and only if the dictionary is well formed: names are tokens, object identifiers are not
  empty, vendors are declared and numbers are those of an \<open>i64\<close>.
\<close>

theorem dict_print_parse:
  assumes "load None entry = Ok (path, dict_text d)"
  shows "dict_parse load entry = Ok d \<longleftrightarrow> wf_dict d"
  using dict_parse_wf [of load entry d] parse_printed [of d load entry path] assms by blast

theorem dict_print_parse_witness:
  "dict_parse (\<lambda>_ p. Ok (p, dict_text demo_dict) :: (map_io_error, path \<times> ustring) result) (path_new (lit ''copy'')) = Ok demo_dict"
  using dict_print_parse [of "\<lambda>_ p. Ok (p, dict_text demo_dict)" "path_new (lit ''copy'')" "path_new (lit ''copy'')" demo_dict]
    demo_dict_wf by blast

definition include_line :: "ustring \<Rightarrow> bool" where
  "include_line l \<longleftrightarrow> (\<exists>f. split_whitespace (str_trim (strip_comment l)) = [lit ''$INCLUDE'', f])"

lemma include_chain:
  assumes "\<And>src target. \<exists>p c l ls. load src target = Ok (p, c) \<and> str_lines c = l # ls \<and> include_line l"
  shows "\<exists>e. parse_one load src target st depth = Err e \<and> de_kind e = IncludeTooDeep"
proof (induction "17 - depth" arbitrary: depth src target st)
  case 0
  then show ?case by (simp add: parse_one.simps)
next
  case (Suc k)
  obtain p c l ls f where l: "load src target = Ok (p, c)" "str_lines c = l # ls"
    "split_whitespace (str_trim (strip_comment l)) = [lit ''$INCLUDE'', f]" using assms unfolding include_line_def by blast
  have "k = 17 - (depth + 1)" using Suc.hyps(2) by simp
  then obtain e where e: "parse_one load (Some p) (path_new f) st (depth + 1) = Err e" "de_kind e = IncludeTooDeep"
    using Suc.hyps(1) by blast
  have "str_trim (strip_comment l) \<noteq> []" using l(3) by (auto simp: split_whitespace_def)
  moreover have "\<not> 16 < depth" using Suc.hyps(2) by simp
  ultimately show ?case using l e by (subst parse_one.simps) (simp add: Let_def)
qed

text \<open>
  Circular includes are reported. If every file the loader can return opens with an \<open>$INCLUDE\<close>, as
  in a cycle of dictionaries, the parser does not run forever: it stops with \<open>IncludeTooDeep\<close>.
\<close>

theorem dict_include_cycle:
  assumes "\<And>src target. \<exists>p c l ls. load src target = Ok (p, c) \<and> str_lines c = l # ls \<and> include_line l"
  shows "\<exists>e. dict_parse load entry = Err e \<and> de_kind e = IncludeTooDeep"
  using include_chain [of load None entry state_default 0, OF assms] by (auto simp: dict_parse_def)

theorem dict_include_cycle_witness:
  "\<exists>e. dict_parse (\<lambda>_ p. Ok (p, lit ''$INCLUDE x'') :: (map_io_error, path \<times> ustring) result) (path_new (lit ''x'')) = Err e
    \<and> de_kind e = IncludeTooDeep"
proof (rule dict_include_cycle)
  fix src target
  have "str_lines (lit ''$INCLUDE x'') = [lit ''$INCLUDE x'']" "include_line (lit ''$INCLUDE x'')"
    by (simp_all add: str_lines_def include_line_def strip_comment_def str_trim_def split_whitespace_def white_space_def lit_def)
  then show "\<exists>p c l ls. (Ok (target, lit ''$INCLUDE x'') :: (map_io_error, path \<times> ustring) result) = Ok (p, c)
      \<and> str_lines c = l # ls \<and> include_line l" by auto
qed

end
