(* ===== verification/Dict_Codegen.thy ===== *)
theory Dict_Codegen
  imports Dict_Parser "HOL-Library.Product_Lexorder"
begin

text \<open>
  \<^verbatim>\<open>crates/radius-tokio-dict-codegen/src/codegen.rs\<close>: the Rust source generated for a dictionary. The generated text is
  modelled byte for byte; the tables it is generated from (\<open>by_code\<close>, \<open>by_pen_vt\<close>, \<open>by_parent_child\<close>, \<open>by_pen\<close>) are definitions of their
  own. \<open>plain\<close> tells which characters beyond ASCII Rust's debug format prints as they are.
\<close>

section \<open>Formatting\<close>

definition ln :: "ustring \<Rightarrow> ustring" where
  "ln s = s @ [10]"

definition show_bool :: "bool \<Rightarrow> ustring" where
  "show_bool b = (if b then lit ''true'' else lit ''false'')"

fun show_hex :: "nat \<Rightarrow> ustring" where
  "show_hex n = (if n < 16 then [] else show_hex (n div 16)) @ [if n mod 16 < 10 then 48 + n mod 16 else 87 + n mod 16]"

declare show_hex.simps [simp del]

definition debug_char :: "(nat \<Rightarrow> bool) \<Rightarrow> nat \<Rightarrow> ustring" where
  "debug_char plain c =
     (if c = 0 then [92, 48]
      else if c = 9 then [92, 116]
      else if c = 13 then [92, 114]
      else if c = 10 then [92, 110]
      else if c = 34 \<or> c = 92 then [92, c]
      else if 32 \<le> c \<and> c \<le> 126 \<or> 126 < c \<and> plain c then [c]
      else [92, 117, 123] @ show_hex c @ [125])"

definition debug_str :: "(nat \<Rightarrow> bool) \<Rightarrow> ustring \<Rightarrow> ustring" where
  "debug_str plain s = [34] @ concat (map (debug_char plain) s) @ [34]"

definition ascii_digit :: "nat \<Rightarrow> bool" where
  "ascii_digit c \<longleftrightarrow> 48 \<le> c \<and> c \<le> 57"

definition ascii_lowercase :: "nat \<Rightarrow> bool" where
  "ascii_lowercase c \<longleftrightarrow> 97 \<le> c \<and> c \<le> 122"

definition ascii_uppercase :: "nat \<Rightarrow> bool" where
  "ascii_uppercase c \<longleftrightarrow> 65 \<le> c \<and> c \<le> 90"

section \<open>Identifiers\<close>

definition upcase :: "nat \<Rightarrow> nat" where
  "upcase c = (if ascii_lowercase c then c - 32 else c)"

definition downcase :: "nat \<Rightarrow> nat" where
  "downcase c = (if ascii_uppercase c then c + 32 else c)"

text \<open>The loop over the segments; \<open>first\<close> is true until a segment has been written.\<close>

fun pascal_segments :: "bool \<Rightarrow> ustring list \<Rightarrow> ustring" where
  "pascal_segments first [] = []"
| "pascal_segments first ([] # segs) = pascal_segments first segs"
| "pascal_segments first ((c # cs) # segs) =
     (if first \<and> ascii_digit c then [95] else []) @ [upcase c] @ map downcase cs @ pascal_segments False segs"

definition pascal_ident :: "ustring \<Rightarrow> ustring" where
  "pascal_ident name = pascal_segments True (ustr_split (\<lambda>c. c = 45 \<or> c = 46) name)"

definition value_const_char :: "nat \<Rightarrow> nat" where
  "value_const_char c = (if c \<in> {45, 46, 47, 32} then 95 else upcase c)"

definition value_const_ident :: "ustring \<Rightarrow> ustring" where
  "value_const_ident name = (if name \<noteq> [] \<and> ascii_digit (hd name) then [95] else []) @ map value_const_char name"

definition const_ident :: "ustring \<Rightarrow> ustring" where
  "const_ident name = map (\<lambda>c. if c = 45 then 95 else upcase c) name"

section \<open>Shapes\<close>

fun attr_kind_literal :: "dict_type \<Rightarrow> ustring" where
  "attr_kind_literal TString = lit ''super::AttrKind::String''"
| "attr_kind_literal TOctets = lit ''super::AttrKind::Octets''"
| "attr_kind_literal (TFixedOctets _) = lit ''super::AttrKind::Octets''"
| "attr_kind_literal TAbinary = lit ''super::AttrKind::Octets''"
| "attr_kind_literal TIpaddr = lit ''super::AttrKind::Ipaddr''"
| "attr_kind_literal TIpv6addr = lit ''super::AttrKind::Ipv6addr''"
| "attr_kind_literal TIpv4prefix = lit ''super::AttrKind::Ipv4prefix''"
| "attr_kind_literal TIpv6prefix = lit ''super::AttrKind::Ipv6prefix''"
| "attr_kind_literal TByte = lit ''super::AttrKind::Byte''"
| "attr_kind_literal TShort = lit ''super::AttrKind::Short''"
| "attr_kind_literal TInteger = lit ''super::AttrKind::Integer''"
| "attr_kind_literal TUint32 = lit ''super::AttrKind::Integer''"
| "attr_kind_literal TInteger64 = lit ''super::AttrKind::Integer64''"
| "attr_kind_literal TSigned = lit ''super::AttrKind::Signed''"
| "attr_kind_literal TDate = lit ''super::AttrKind::Date''"
| "attr_kind_literal TIfid = lit ''super::AttrKind::Ifid''"
| "attr_kind_literal TEther = lit ''super::AttrKind::Ether''"
| "attr_kind_literal TTlv = lit ''super::AttrKind::Tlv''"
| "attr_kind_literal TVsa = lit ''super::AttrKind::Vsa''"
| "attr_kind_literal TEvs = lit ''super::AttrKind::Evs''"
| "attr_kind_literal TExtended = lit ''super::AttrKind::Extended''"
| "attr_kind_literal TLongExtended = lit ''super::AttrKind::LongExtended''"
| "attr_kind_literal TStruct = lit ''super::AttrKind::Struct''"

definition wire_marker :: "dict_type \<Rightarrow> dict_flags \<Rightarrow> ustring" where
  "wire_marker t flags =
     (if fl_encrypt flags \<noteq> None then lit ''WBytes''
      else if fl_has_tag flags then
        (case t of
           TString \<Rightarrow> lit ''WTaggedText''
         | TInteger \<Rightarrow> lit ''WTaggedInteger'' | TUint32 \<Rightarrow> lit ''WTaggedInteger'' | TDate \<Rightarrow> lit ''WTaggedInteger''
         | _ \<Rightarrow> lit ''WBytes'')
      else
        (case t of
           TString \<Rightarrow> lit ''WText'' | TByte \<Rightarrow> lit ''WByte'' | TShort \<Rightarrow> lit ''WShort''
         | TInteger \<Rightarrow> lit ''WInteger'' | TUint32 \<Rightarrow> lit ''WInteger'' | TDate \<Rightarrow> lit ''WInteger''
         | TInteger64 \<Rightarrow> lit ''WInteger64'' | TSigned \<Rightarrow> lit ''WSigned'' | TIpaddr \<Rightarrow> lit ''WIpv4'' | TIpv6addr \<Rightarrow> lit ''WIpv6''
         | TEther \<Rightarrow> lit ''WEther'' | TIfid \<Rightarrow> lit ''WIfid'' | _ \<Rightarrow> lit ''WBytes''))"

datatype scalar_type = ScU8 | ScU16 | ScU32 | ScU64 | ScI32

fun scalar_name :: "scalar_type \<Rightarrow> ustring" where
  "scalar_name ScU8 = lit ''u8''"
| "scalar_name ScU16 = lit ''u16''"
| "scalar_name ScU32 = lit ''u32''"
| "scalar_name ScU64 = lit ''u64''"
| "scalar_name ScI32 = lit ''i32''"

record value_shape =
  vs_inner :: scalar_type
  vs_marker :: ustring
  vs_tagged :: bool
  vs_as_fn :: ustring

definition value_shape_of :: "dict_type \<Rightarrow> dict_flags \<Rightarrow> value_shape option" where
  "value_shape_of t flags =
     (if fl_encrypt flags \<noteq> None then None
      else if fl_has_tag flags then
        (if t \<in> {TInteger, TUint32, TDate}
         then Some \<lparr>vs_inner = ScU32, vs_marker = lit ''WTaggedInteger'', vs_tagged = True, vs_as_fn = lit ''as_u32''\<rparr>
         else None)
      else
        (case t of
           TByte \<Rightarrow> Some \<lparr>vs_inner = ScU8, vs_marker = lit ''WByte'', vs_tagged = False, vs_as_fn = lit ''as_u8''\<rparr>
         | TShort \<Rightarrow> Some \<lparr>vs_inner = ScU16, vs_marker = lit ''WShort'', vs_tagged = False, vs_as_fn = lit ''as_u16''\<rparr>
         | TInteger \<Rightarrow> Some \<lparr>vs_inner = ScU32, vs_marker = lit ''WInteger'', vs_tagged = False, vs_as_fn = lit ''as_u32''\<rparr>
         | TUint32 \<Rightarrow> Some \<lparr>vs_inner = ScU32, vs_marker = lit ''WInteger'', vs_tagged = False, vs_as_fn = lit ''as_u32''\<rparr>
         | TDate \<Rightarrow> Some \<lparr>vs_inner = ScU32, vs_marker = lit ''WInteger'', vs_tagged = False, vs_as_fn = lit ''as_u32''\<rparr>
         | TInteger64 \<Rightarrow> Some \<lparr>vs_inner = ScU64, vs_marker = lit ''WInteger64'', vs_tagged = False, vs_as_fn = lit ''as_u64''\<rparr>
         | TSigned \<Rightarrow> Some \<lparr>vs_inner = ScI32, vs_marker = lit ''WSigned'', vs_tagged = False, vs_as_fn = lit ''as_i32''\<rparr>
         | _ \<Rightarrow> None))"

text \<open>The casts \<open>n as u8\<close> and so on: the low bits, read as the type reads them.\<close>

fun scalar_cast :: "scalar_type \<Rightarrow> int \<Rightarrow> int" where
  "scalar_cast ScU8 n = uint (word_of_int n :: u8)"
| "scalar_cast ScU16 n = uint (word_of_int n :: u16)"
| "scalar_cast ScU32 n = uint (word_of_int n :: u32)"
| "scalar_cast ScU64 n = uint (word_of_int n :: u64)"
| "scalar_cast ScI32 n = sint (word_of_int n :: u32)"

definition scalar_literal :: "scalar_type \<Rightarrow> int \<Rightarrow> ustring" where
  "scalar_literal t n = show_int (scalar_cast t n) @ scalar_name t"

section \<open>Tables\<close>

text \<open>\<open>entry(k).or_insert(v)\<close> of a \<open>BTreeMap\<close>, as a list with ascending keys.\<close>

fun or_insert :: "'k :: linorder \<Rightarrow> 'v \<Rightarrow> ('k \<times> 'v) list \<Rightarrow> ('k \<times> 'v) list" where
  "or_insert k v [] = [(k, v)]"
| "or_insert k v ((k', v') # m) =
     (if k < k' then (k, v) # (k', v') # m else if k = k' then (k', v') # m else (k', v') # or_insert k v m)"

definition first_by :: "('a \<Rightarrow> ('k :: linorder) option) \<Rightarrow> 'a list \<Rightarrow> ('k \<times> 'a) list" where
  "first_by key xs = fold (\<lambda>a m. case key a of None \<Rightarrow> m | Some k \<Rightarrow> or_insert k a m) xs []"

definition u8_of :: "u32 \<Rightarrow> u8 option" where
  "u8_of w = (if unat w < 256 then Some (of_nat (unat w)) else None)"

definition code_key :: "dict_attribute \<Rightarrow> u8 option" where
  "code_key a = (case (da_vendor a, oid_parts (da_oid a)) of (None, [c]) \<Rightarrow> u8_of c | _ \<Rightarrow> None)"

definition by_code :: "dictionary \<Rightarrow> (u8 \<times> dict_attribute) list" where
  "by_code d = first_by code_key (dict_attributes d)"

definition pen_vt_key :: "dict_attribute \<Rightarrow> (u32 \<times> u8) option" where
  "pen_vt_key a = (case (da_vendor a, oid_parts (da_oid a)) of (Some pen, [c]) \<Rightarrow> map_option (Pair pen) (u8_of c) | _ \<Rightarrow> None)"

definition by_pen_vt :: "dictionary \<Rightarrow> ((u32 \<times> u8) \<times> dict_attribute) list" where
  "by_pen_vt d = first_by pen_vt_key (dict_attributes d)"

definition parent_child_key :: "dict_attribute \<Rightarrow> (u8 \<times> u8) option" where
  "parent_child_key a =
     (case (da_vendor a, oid_parts (da_oid a)) of
        (None, [p, c]) \<Rightarrow> (case (u8_of p, u8_of c) of (Some x, Some y) \<Rightarrow> Some (x, y) | _ \<Rightarrow> None)
      | _ \<Rightarrow> None)"

definition by_parent_child :: "dictionary \<Rightarrow> ((u8 \<times> u8) \<times> dict_attribute) list" where
  "by_parent_child d = first_by parent_child_key (dict_attributes d)"

definition by_pen :: "dictionary \<Rightarrow> (u32 \<times> dict_vendor) list" where
  "by_pen d = first_by (\<lambda>v. Some (vn_id v)) (dict_vendors d)"

section \<open>The attribute module\<close>

definition write_attr_lookups :: "(nat \<Rightarrow> bool) \<Rightarrow> dictionary \<Rightarrow> ustring" where
  \<open>write_attr_lookups plain d =
    ln ([]) @
    ln (lit ''    /// Resolve a top-level attribute code (RFC namespace) to its diagnostic record.'') @
    ln (lit ''    #[must_use]'') @
    ln (lit ''    pub const fn lookup(code: u8) -> Option<super::AttrInfo> {'') @
    ln (lit ''        match code {'') @
    concat (map (\<lambda>(code, a).
      ln (lit ''            '' @ show_nat (unat code) @ lit ''u8 => Some(super::AttrInfo { name: '' @ debug_str plain (da_name a) @ lit '', kind: '' @ attr_kind_literal (da_typ a) @ lit '', encrypted: '' @ show_bool (fl_encrypt (da_flags a) \<noteq> None) @ lit '' }),'')) (by_code d)) @
    ln (lit ''            _ => None,'') @
    ln (lit ''        }'') @
    ln (lit ''    }'') @
    ln ([]) @
    ln (lit ''    /// Resolve a Vendor-Specific attribute (`pen`, `vendor-type`) to its diagnostic record.'') @
    ln (lit ''    #[must_use]'') @
    ln (lit ''    pub const fn lookup_vsa(pen: u32, vt: u8) -> Option<super::AttrInfo> {'') @
    ln (lit ''        match (pen, vt) {'') @
    concat (map (\<lambda>((pen, vt), a).
      ln (lit ''            ('' @ show_nat (unat pen) @ lit ''u32, '' @ show_nat (unat vt) @ lit ''u8) => Some(super::AttrInfo { name: '' @ debug_str plain (da_name a) @ lit '', kind: '' @ attr_kind_literal (da_typ a) @ lit '', encrypted: '' @ show_bool (fl_encrypt (da_flags a) \<noteq> None) @ lit '' }),'')) (by_pen_vt d)) @
    ln (lit ''            _ => None,'') @
    ln (lit ''        }'') @
    ln (lit ''    }'') @
    ln ([]) @
    ln (lit ''    /// Resolve a TLV child (`parent`, `child`) in the RFC namespace to its diagnostic record.'') @
    ln (lit ''    #[must_use]'') @
    ln (lit ''    pub const fn lookup_tlv(parent: u8, child: u8) -> Option<super::AttrInfo> {'') @
    ln (lit ''        match (parent, child) {'') @
    concat (map (\<lambda>((parent, child), a).
      ln (lit ''            ('' @ show_nat (unat parent) @ lit ''u8, '' @ show_nat (unat child) @ lit ''u8) => Some(super::AttrInfo { name: '' @ debug_str plain (da_name a) @ lit '', kind: '' @ attr_kind_literal (da_typ a) @ lit '', encrypted: '' @ show_bool (fl_encrypt (da_flags a) \<noteq> None) @ lit '' }),'')) (by_parent_child d)) @
    ln (lit ''            _ => None,'') @
    ln (lit ''        }'') @
    ln (lit ''    }'')\<close>

definition write_vendor_lookup :: "(nat \<Rightarrow> bool) \<Rightarrow> dictionary \<Rightarrow> ustring" where
  \<open>write_vendor_lookup plain d =
    ln ([]) @
    ln (lit ''    /// Resolve an IANA Private Enterprise Number to its vendor record.'') @
    ln (lit ''    #[must_use]'') @
    ln (lit ''    pub const fn lookup_vendor(pen: u32) -> Option<super::VendorInfo> {'') @
    ln (lit ''        match pen {'') @
    concat (map (\<lambda>(i, v).
      ln (lit ''            '' @ show_nat (unat i) @ lit ''u32 => Some(super::VendorInfo { name: '' @ debug_str plain (vn_name v) @ lit '', id: '' @ show_nat (unat i) @ lit ''u32 }),'')) (by_pen d)) @
    ln (lit ''            _ => None,'') @
    ln (lit ''        }'') @
    ln (lit ''    }'')\<close>

text \<open>Inserting into the map of parents keeps the last attribute of a key.\<close>

definition parent_types :: "dictionary \<Rightarrow> (u32 option \<times> u32) \<rightharpoonup> dict_type" where
  "parent_types d =
     map_of (rev (concat (map (\<lambda>a. case oid_parts (da_oid a) of [r] \<Rightarrow> [((da_vendor a, r), da_typ a)] | _ \<Rightarrow> []) (dict_attributes d))))"

definition write_handle :: "dictionary \<Rightarrow> dict_attribute \<Rightarrow> ustring" where
  \<open>write_handle d a =
     (case oid_parts (da_oid a) of
        [root] \<Rightarrow>
          (case u8_of root of
             None \<Rightarrow> []
           | Some code \<Rightarrow>
               (case da_vendor a of
                  None \<Rightarrow>
                    ln (lit ''    pub const '' @ const_ident (da_name a) @ lit '': Attr<'' @ wire_marker (da_typ a) (da_flags a) @ lit ''> = Attr::new('' @ show_nat (unat code) @ lit '');'')
                | Some pen \<Rightarrow>
                    ln (lit ''    pub const '' @ const_ident (da_name a) @ lit '': VsaAttr<'' @ wire_marker (da_typ a) (da_flags a) @ lit ''> = VsaAttr::new('' @ show_nat (unat pen) @ lit '', '' @ show_nat (unat code) @ lit '');'')))
      | [parent_root, child_sub] \<Rightarrow>
          (case (u8_of parent_root, u8_of child_sub) of
             (Some parent_code, Some child_code) \<Rightarrow>
               if parent_types d (da_vendor a, parent_root) \<noteq> Some TTlv then []
               else
                 (case da_vendor a of
                    None \<Rightarrow>
                      ln (lit ''    pub const '' @ const_ident (da_name a) @ lit '': TlvAttr<'' @ wire_marker (da_typ a) (da_flags a) @ lit ''> = TlvAttr::new('' @ show_nat (unat parent_code) @ lit '', '' @ show_nat (unat child_code) @ lit '');'')
                  | Some pen \<Rightarrow>
                      ln (lit ''    pub const '' @ const_ident (da_name a) @ lit '': VsaTlvAttr<'' @ wire_marker (da_typ a) (da_flags a) @ lit ''> = VsaTlvAttr::new('' @ show_nat (unat pen) @ lit '', '' @ show_nat (unat parent_code) @ lit '', '' @ show_nat (unat child_code) @ lit '');''))
           | _ \<Rightarrow> [])
      | _ \<Rightarrow> [])\<close>

definition write_attrs_module :: "(nat \<Rightarrow> bool) \<Rightarrow> dictionary \<Rightarrow> ustring" where
  \<open>write_attrs_module plain d =
    ln (lit ''/// Typed handles for every attribute in this dictionary group.'') @
    ln (lit ''///'') @
    ln (lit ''/// Top-level attributes are exposed as `Attr<T>`; attributes inside a'') @
    ln (lit ''/// `BEGIN-VENDOR` block are exposed as `VsaAttr<T>`. TLV sub-attributes'') @
    ln (lit ''/// (children of a `tlv`-typed parent) are exposed as `TlvAttr<T>` or'') @
    ln (lit ''/// `VsaTlvAttr<T>`. Use them with `RawAttribute::get` / `get_vsa` /'') @
    ln (lit ''/// `get_tlv` / `get_vsa_tlv` (in `radius_tokio::attributes`).'') @
    ln (lit ''#[allow(unused_imports, clippy::wildcard_imports, clippy::match_single_binding, clippy::too_many_lines)]'') @
    ln (lit ''pub mod attrs {'') @
    ln (lit ''    use crate::typed::*;'') @
    ln ([]) @
    concat (map (write_handle d) (dict_attributes d)) @
    write_attr_lookups plain d @ write_vendor_lookup plain d @
    ln (lit ''}'')\<close>

section \<open>The value module\<close>

text \<open>Inserting into the map of names keeps the last attribute of a name.\<close>

definition attrs_by_name :: "dictionary \<Rightarrow> ustring \<rightharpoonup> dict_attribute" where
  "attrs_by_name d = map_of (rev (map (\<lambda>a. (da_name a, a)) (dict_attributes d)))"

text \<open>The state of the grouping loop: the order of the attributes, the groups, and the names seen.\<close>

record value_groups =
  vg_order :: "ustring list"
  vg_groups :: "ustring \<Rightarrow> dict_value list"
  vg_seen :: "(ustring \<times> ustring) list"

definition group_value :: "dict_value \<Rightarrow> value_groups \<Rightarrow> value_groups" where
  "group_value v g =
     (let key = dv_attribute v
      in if (key, dv_name v) \<in> set (vg_seen g) then g
         else
           let g = g\<lparr>vg_seen := (key, dv_name v) # vg_seen g\<rparr>;
               g = (if vg_groups g key = [] then g\<lparr>vg_order := vg_order g @ [key]\<rparr> else g)
           in g\<lparr>vg_groups := (vg_groups g)(key := vg_groups g key @ [v])\<rparr>)"

definition grouped :: "dictionary \<Rightarrow> value_groups" where
  "grouped d = fold group_value (dict_values d) \<lparr>vg_order = [], vg_groups = (\<lambda>_. []), vg_seen = []\<rparr>"

definition write_into_wire :: "ustring \<Rightarrow> value_shape \<Rightarrow> ustring" where
  \<open>write_into_wire attr_name shape =
     (if vs_tagged shape then
        ln (lit ''    impl IntoWire<'' @ vs_marker shape @ lit ''> for (u8, '' @ pascal_ident attr_name @ lit '') {'') @
        ln (lit ''        #[inline]'') @
        ln (lit ''        fn write_value(self, out: &mut ::std::vec::Vec<u8>) {'') @
        ln (lit ''            <(u8, '' @ scalar_name (vs_inner shape) @ lit '') as IntoWire<'' @ vs_marker shape @ lit ''>>::write_value((self.0, self.1.0), out);'') @
        ln (lit ''        }'') @
        ln (lit ''    }'') @
        ln (lit ''    impl IntoWire<'' @ vs_marker shape @ lit ''> for Tagged<'' @ pascal_ident attr_name @ lit ''> {'') @
        ln (lit ''        #[inline]'') @
        ln (lit ''        fn write_value(self, out: &mut ::std::vec::Vec<u8>) {'') @
        ln (lit ''            Tagged { tag: self.tag, value: self.value.0 }.write_value(out);'') @
        ln (lit ''        }'') @
        ln (lit ''    }'')
      else
        ln (lit ''    impl IntoWire<'' @ vs_marker shape @ lit ''> for '' @ pascal_ident attr_name @ lit '' {'') @
        ln (lit ''        #[inline]'') @
        ln (lit ''        fn write_value(self, out: &mut ::std::vec::Vec<u8>) {'') @
        ln (lit ''            <'' @ scalar_name (vs_inner shape) @ lit '' as IntoWire<'' @ vs_marker shape @ lit ''>>::write_value(self.0, out);'') @
        ln (lit ''        }'') @
        ln (lit ''    }''))\<close>

definition write_value_newtype :: "(nat \<Rightarrow> bool) \<Rightarrow> ustring \<Rightarrow> value_shape \<Rightarrow> dict_value list \<Rightarrow> ustring" where
  \<open>write_value_newtype plain attr_name shape vals =
    ln ([]) @
    ln (lit ''    /// Typed enumerator for the `'' @ attr_name @ lit ''` attribute.'') @
    ln (lit ''    #[derive(Debug, Clone, Copy, PartialEq, Eq, Hash)]'') @
    ln (lit ''    #[repr(transparent)]'') @
    ln (lit ''    pub struct '' @ pascal_ident attr_name @ lit ''(pub '' @ scalar_name (vs_inner shape) @ lit '');'') @
    ln ([]) @
    ln (lit ''    impl '' @ pascal_ident attr_name @ lit '' {'') @
    concat (map (\<lambda>v.
      ln (lit ''        /// `'' @ dv_name v @ lit ''` (= `'' @ show_int (dv_number v) @ lit ''`).'') @
      ln (lit ''        pub const '' @ value_const_ident (dv_name v) @ lit '': Self = Self('' @ scalar_literal (vs_inner shape) (dv_number v) @ lit '');'')) vals) @
    ln ([]) @
    ln (lit ''        /// Underlying scalar (`'' @ scalar_name (vs_inner shape) @ lit ''`) as written on the wire.'') @
    ln (lit ''        #[must_use]'') @
    ln (lit ''        pub const fn '' @ vs_as_fn shape @ lit ''(self) -> '' @ scalar_name (vs_inner shape) @ lit '' { self.0 }'') @
    ln ([]) @
    ln (lit ''        /// Dictionary name for this value, if it matches a known enumerator.'') @
    ln (lit ''        #[must_use]'') @
    ln (lit ''        pub fn name(self) -> Option<&'static str> {'') @
    ln (lit ''            const TABLE: &[('' @ scalar_name (vs_inner shape) @ lit '', &str)] = &['') @
    concat (map (\<lambda>v.
      ln (lit ''                ('' @ scalar_literal (vs_inner shape) (dv_number v) @ lit '', '' @ debug_str plain (dv_name v) @ lit ''),'')) vals) @
    ln (lit ''            ];'') @
    ln (lit ''            TABLE.iter().find_map(|(n, s)| (*n == self.0).then_some(*s))'') @
    ln (lit ''        }'') @
    ln (lit ''    }'') @
    ln ([]) @
    ln (lit ''    impl PartialEq<'' @ scalar_name (vs_inner shape) @ lit ''> for '' @ pascal_ident attr_name @ lit '' {'') @
    ln (lit ''        #[inline]'') @
    ln (lit ''        fn eq(&self, other: &'' @ scalar_name (vs_inner shape) @ lit '') -> bool { self.0 == *other }'') @
    ln (lit ''    }'') @
    ln (lit ''    impl PartialEq<'' @ pascal_ident attr_name @ lit ''> for '' @ scalar_name (vs_inner shape) @ lit '' {'') @
    ln (lit ''        #[inline]'') @
    ln (lit ''        fn eq(&self, other: &'' @ pascal_ident attr_name @ lit '') -> bool { *self == other.0 }'') @
    ln (lit ''    }'') @
    ln (lit ''    impl From<'' @ scalar_name (vs_inner shape) @ lit ''> for '' @ pascal_ident attr_name @ lit '' {'') @
    ln (lit ''        #[inline]'') @
    ln (lit ''        fn from(value: '' @ scalar_name (vs_inner shape) @ lit '') -> Self { Self(value) }'') @
    ln (lit ''    }'') @
    ln (lit ''    impl From<'' @ pascal_ident attr_name @ lit ''> for '' @ scalar_name (vs_inner shape) @ lit '' {'') @
    ln (lit ''        #[inline]'') @
    ln (lit ''        fn from(value: '' @ pascal_ident attr_name @ lit '') -> Self { value.0 }'') @
    ln (lit ''    }'') @
    ln ([]) @
    write_into_wire attr_name shape\<close>

text \<open>The attributes a newtype is emitted for, in order.\<close>

definition emitted :: "dictionary \<Rightarrow> (ustring \<times> dict_attribute \<times> value_shape) list" where
  "emitted d =
     concat (map (\<lambda>attr_name.
       case attrs_by_name d attr_name of
         None \<Rightarrow> []
       | Some a \<Rightarrow> (case value_shape_of (da_typ a) (da_flags a) of None \<Rightarrow> [] | Some shape \<Rightarrow> [(attr_name, a, shape)]))
       (vg_order (grouped d)))"

definition write_values_module :: "(nat \<Rightarrow> bool) \<Rightarrow> dictionary \<Rightarrow> ustring" where
  \<open>write_values_module plain d =
    ln (lit ''/// Typed enumerators for every attribute in this dictionary group'') @
    ln (lit ''/// that carries one or more `VALUE` directives.'') @
    ln (lit ''///'') @
    ln (lit ''/// Each attribute becomes a `#[repr(transparent)]` newtype with one'') @
    ln (lit ''/// associated `pub const` per dictionary enumerator. The universe is'') @
    ln (lit ''/// open '' @ [8212] @ lit '' peers may send unknown values, so the type wraps its scalar'') @
    ln (lit ''/// rather than being a closed Rust `enum`. Pattern matching against'') @
    ln (lit ''/// the associated consts works the same way as with `bitflags`-style'') @
    ln (lit ''/// types.'') @
    ln (lit ''#[allow(unused_imports, clippy::wildcard_imports, clippy::cast_possible_truncation, clippy::cast_sign_loss, clippy::match_single_binding, clippy::too_many_lines)]'') @
    ln (lit ''pub mod values {'') @
    ln (lit ''    use crate::typed::*;'') @
    concat (map (\<lambda>(attr_name, a, shape). write_value_newtype plain (da_name a) shape (vg_groups (grouped d) attr_name)) (emitted d)) @
    ln ([]) @
    ln (lit ''    /// Resolve `attr`'s enumerator number to its dictionary name.'') @
    ln (lit ''    ///'') @
    ln (lit ''    /// Returns `None` for unknown attributes / values. Generated'') @
    ln (lit ''    /// dispatcher used by `crate::registry::value_name`.'') @
    ln (lit ''    #[must_use]'') @
    ln (lit ''    pub fn value_name(attr: &str, number: i64) -> Option<&'static str> {'') @
    (if emitted d = [] then
      ln (lit ''        let _ = (attr, number);'') @
      ln (lit ''        None'')
     else
      ln (lit ''        match attr {'') @
      concat (map (\<lambda>(attr_name, a, shape).
        ln (lit ''            '' @ debug_str plain attr_name @ lit '' => '' @ pascal_ident (da_name a) @ lit ''(number as '' @ scalar_name (vs_inner shape) @ lit '').name(),'')) (emitted d)) @
      ln (lit ''            _ => None,'') @
      ln (lit ''        }'')) @
    ln (lit ''    }'') @
    ln (lit ''}'')\<close>

definition render :: "(nat \<Rightarrow> bool) \<Rightarrow> ustring \<Rightarrow> dictionary \<Rightarrow> ustring" where
  \<open>render plain module_label d =
    ln (lit ''// @generated by build.rs from FreeRADIUS dictionary group `'' @ module_label @ lit ''`.'') @
    ln (lit ''// Do not edit by hand; rerun `cargo build` to refresh.'') @
    ln ([]) @
    write_attrs_module plain d @
    ln [] @
    write_values_module plain d\<close>

end
