(* ===== verification/Dict_Registry.thy ===== *)
theory Dict_Registry
  imports Dict_Codegen
begin

text \<open>
  \<^verbatim>\<open>crates/radius-tokio-dict/src/{lib,registry}.rs\<close>: name resolution over the generated dispatchers. A dispatcher is a
  \<open>match\<close> over the arms that the generator wrote for a dictionary, so its meaning is a lookup in the
  table the arms were written from. The dictionary groups that are compiled in, in the order of the
  cascade, are an argument.
\<close>

section \<open>Records\<close>

datatype attr_kind =
    KString | KOctets | KIpaddr | KIpv6addr | KIpv4prefix | KIpv6prefix | KByte | KShort | KInteger | KInteger64 | KSigned
  | KDate | KIfid | KEther | KTlv | KVsa | KEvs | KExtended | KLongExtended | KStruct

record attr_info =
  ai_name :: ustring
  ai_kind :: attr_kind
  ai_encrypted :: bool

record vendor_info =
  vi_name :: ustring
  vi_id :: u32

text \<open>The kind that the literal of the generated arm denotes.\<close>

fun attr_kind_of :: "dict_type \<Rightarrow> attr_kind" where
  "attr_kind_of TString = KString"
| "attr_kind_of TOctets = KOctets"
| "attr_kind_of (TFixedOctets _) = KOctets"
| "attr_kind_of TAbinary = KOctets"
| "attr_kind_of TIpaddr = KIpaddr"
| "attr_kind_of TIpv6addr = KIpv6addr"
| "attr_kind_of TIpv4prefix = KIpv4prefix"
| "attr_kind_of TIpv6prefix = KIpv6prefix"
| "attr_kind_of TByte = KByte"
| "attr_kind_of TShort = KShort"
| "attr_kind_of TInteger = KInteger"
| "attr_kind_of TUint32 = KInteger"
| "attr_kind_of TInteger64 = KInteger64"
| "attr_kind_of TSigned = KSigned"
| "attr_kind_of TDate = KDate"
| "attr_kind_of TIfid = KIfid"
| "attr_kind_of TEther = KEther"
| "attr_kind_of TTlv = KTlv"
| "attr_kind_of TVsa = KVsa"
| "attr_kind_of TEvs = KEvs"
| "attr_kind_of TExtended = KExtended"
| "attr_kind_of TLongExtended = KLongExtended"
| "attr_kind_of TStruct = KStruct"

definition info_of :: "dict_attribute \<Rightarrow> attr_info" where
  "info_of a = \<lparr>ai_name = da_name a, ai_kind = attr_kind_of (da_typ a), ai_encrypted = (fl_encrypt (da_flags a) \<noteq> None)\<rparr>"

definition vendor_info_of :: "dict_vendor \<Rightarrow> vendor_info" where
  "vendor_info_of v = \<lparr>vi_name = vn_name v, vi_id = vn_id v\<rparr>"

section \<open>The dispatchers of a group\<close>

definition gen_lookup :: "dictionary \<Rightarrow> u8 \<Rightarrow> attr_info option" where
  "gen_lookup d c = map_option info_of (map_of (by_code d) c)"

definition gen_lookup_vsa :: "dictionary \<Rightarrow> u32 \<Rightarrow> u8 \<Rightarrow> attr_info option" where
  "gen_lookup_vsa d pen vt = map_option info_of (map_of (by_pen_vt d) (pen, vt))"

definition gen_lookup_tlv :: "dictionary \<Rightarrow> u8 \<Rightarrow> u8 \<Rightarrow> attr_info option" where
  "gen_lookup_tlv d parent child = map_option info_of (map_of (by_parent_child d) (parent, child))"

definition gen_lookup_vendor :: "dictionary \<Rightarrow> u32 \<Rightarrow> vendor_info option" where
  "gen_lookup_vendor d pen = map_option vendor_info_of (map_of (by_pen d) pen)"

text \<open>\<open>T(number as inner).name()\<close>: the first enumerator with that scalar.\<close>

definition newtype_name :: "value_shape \<Rightarrow> dict_value list \<Rightarrow> int \<Rightarrow> ustring option" where
  "newtype_name shape vals number =
     map_option dv_name (find (\<lambda>v. scalar_cast (vs_inner shape) (dv_number v) = scalar_cast (vs_inner shape) number) vals)"

definition gen_value_name :: "dictionary \<Rightarrow> ustring \<Rightarrow> int \<Rightarrow> ustring option" where
  "gen_value_name d attr number =
     (case find (\<lambda>(n, a, shape). n = attr) (emitted d) of
        None \<Rightarrow> None
      | Some (n, a, shape) \<Rightarrow> newtype_name shape (vg_groups (grouped d) n) number)"

section \<open>The registry\<close>

fun cascade :: "('g \<Rightarrow> 'a option) \<Rightarrow> 'g list \<Rightarrow> 'a option" where
  "cascade f [] = None"
| "cascade f (g # gs) = (case f g of Some x \<Rightarrow> Some x | None \<Rightarrow> cascade f gs)"

definition reg_attribute :: "dictionary list \<Rightarrow> u8 \<Rightarrow> attr_info option" where
  "reg_attribute groups c = cascade (\<lambda>d. gen_lookup d c) groups"

definition reg_vsa :: "dictionary list \<Rightarrow> u32 \<Rightarrow> u8 \<Rightarrow> attr_info option" where
  "reg_vsa groups vendor_id vendor_type = cascade (\<lambda>d. gen_lookup_vsa d vendor_id vendor_type) groups"

definition reg_vendor :: "dictionary list \<Rightarrow> u32 \<Rightarrow> vendor_info option" where
  "reg_vendor groups i = cascade (\<lambda>d. gen_lookup_vendor d i) groups"

definition reg_tlv_child :: "dictionary list \<Rightarrow> u8 \<Rightarrow> u8 \<Rightarrow> attr_info option" where
  "reg_tlv_child groups parent child = cascade (\<lambda>d. gen_lookup_tlv d parent child) groups"

definition reg_value_name :: "dictionary list \<Rightarrow> ustring \<Rightarrow> int \<Rightarrow> ustring option" where
  "reg_value_name groups attr number = cascade (\<lambda>d. gen_value_name d attr number) groups"

section \<open>Tables and linear scans\<close>

lemma or_insert_keys: "set (map fst (or_insert k v m)) = insert k (set (map fst m))"
  by (induction k v m rule: or_insert.induct) auto

lemma or_insert_sorted: "sorted_wrt (<) (map fst m) \<Longrightarrow> sorted_wrt (<) (map fst (or_insert k v m))"
proof (induction k v m rule: or_insert.induct)
  case (2 k v k' v' m)
  have "set (map fst (or_insert k v m)) = insert k (set (map fst m))" by (rule or_insert_keys)
  then show ?case using 2 by auto
qed simp

lemma map_of_or_insert:
  "sorted_wrt (<) (map fst m) \<Longrightarrow>
     map_of (or_insert k v m) = (if map_of m k = None then (map_of m)(k \<mapsto> v) else map_of m)"
proof (induction k v m rule: or_insert.induct)
  case (2 k v k' v' m)
  have "k \<notin> fst ` set m" if "k < k'" using 2(2) that by (auto dest: less_trans)
  then have "map_of m k = None" if "k < k'" using that by (simp add: map_of_eq_None_iff)
  then show ?case using 2 by (auto simp: fun_upd_twist)
qed (simp add: fun_eq_iff)

lemma first_by_fold:
  "sorted_wrt (<) (map fst m) \<Longrightarrow>
     (let t = fold (\<lambda>a m. case key a of None \<Rightarrow> m | Some k \<Rightarrow> or_insert k a m) xs m
      in sorted_wrt (<) (map fst t)
         \<and> (\<forall>k. map_of t k = (case map_of m k of Some v \<Rightarrow> Some v | None \<Rightarrow> find (\<lambda>a. key a = Some k) xs)))"
proof (induction xs arbitrary: m)
  case Nil
  then show ?case by (simp split: option.split)
next
  case (Cons a xs)
  show ?case
  proof (cases "key a")
    case None
    then show ?thesis using Cons.IH [OF Cons.prems] by (simp add: Let_def split: option.split)
  next
    case (Some k)
    then show ?thesis using Cons.IH [OF or_insert_sorted [OF Cons.prems, of k a]] Cons.prems
      by (auto simp: Let_def map_of_or_insert split: option.splits if_splits)
  qed
qed

text \<open>The table of a key keeps the first entry of each key, in ascending order.\<close>

lemma first_by_sorted: "sorted_wrt (<) (map fst (first_by key xs))"
  using first_by_fold [of "[]" key xs] by (simp add: first_by_def Let_def)

lemma map_of_first_by: "map_of (first_by key xs) k = find (\<lambda>a. key a = Some k) xs"
  using first_by_fold [of "[]" key xs] by (simp add: first_by_def Let_def)

lemma cascade_find:
  "cascade (\<lambda>d. map_option f (find p (g d))) ds = map_option f (find p (concat (map g ds)))"
  by (induction ds) (auto simp: find_append split: option.splits)

lemma registry_scan:
  "reg_attribute groups c = map_option info_of (find (\<lambda>a. code_key a = Some c) (concat (map dict_attributes groups)))"
  "reg_vsa groups pen vt = map_option info_of (find (\<lambda>a. pen_vt_key a = Some (pen, vt)) (concat (map dict_attributes groups)))"
  "reg_tlv_child groups p ch = map_option info_of (find (\<lambda>a. parent_child_key a = Some (p, ch)) (concat (map dict_attributes groups)))"
  "reg_vendor groups i = map_option vendor_info_of (find (\<lambda>v. vn_id v = i) (concat (map dict_vendors groups)))"
  by (simp_all add: reg_attribute_def gen_lookup_def by_code_def reg_vsa_def gen_lookup_vsa_def by_pen_vt_def reg_tlv_child_def
      gen_lookup_tlv_def by_parent_child_def reg_vendor_def gen_lookup_vendor_def by_pen_def map_of_first_by cascade_find)

section \<open>What the registry promises\<close>

text \<open>
  C32: the generated dispatchers are the linear scan they replace. In any selection of dictionary groups,
  resolving a code, a vendor attribute, a sub-attribute or a vendor gives the record of the first
  matching line in the concatenated dictionaries: a code matches a line without vendor whose object
  identifier has one component, equal to it, and so on; components that do not fit a byte match
  nothing. The arms of each generated \<open>match\<close> have strictly ascending keys, so no arm is unreachable.
\<close>

theorem registry_is_scan:
  "reg_attribute groups c = map_option info_of
      (find (\<lambda>a. da_vendor a = None \<and> map unat (oid_parts (da_oid a)) = [unat c]) (concat (map dict_attributes groups)))
   \<and> reg_vsa groups pen c = map_option info_of
      (find (\<lambda>a. da_vendor a = Some pen \<and> map unat (oid_parts (da_oid a)) = [unat c]) (concat (map dict_attributes groups)))
   \<and> reg_tlv_child groups c c' = map_option info_of
      (find (\<lambda>a. da_vendor a = None \<and> map unat (oid_parts (da_oid a)) = [unat c, unat c']) (concat (map dict_attributes groups)))
   \<and> reg_vendor groups pen = map_option vendor_info_of (find (\<lambda>v. vn_id v = pen) (concat (map dict_vendors groups)))
   \<and> sorted_wrt (<) (map fst (by_code d)) \<and> sorted_wrt (<) (map fst (by_pen_vt d))
   \<and> sorted_wrt (<) (map fst (by_parent_child d)) \<and> sorted_wrt (<) (map fst (by_pen d))"
proof -
  have u: "u8_of w = Some b \<longleftrightarrow> unat w = unat b" for w b
  proof -
    have "unat (ucast w :: u8) = unat w mod 256" using unat_of_nat_u8 [of "unat w"] by simp
    then show ?thesis using unat_u8_less [of b] by (auto simp: u8_of_def word_unat_eq_iff)
  qed
  have 1: "code_key a = Some c \<longleftrightarrow> da_vendor a = None \<and> map unat (oid_parts (da_oid a)) = [unat c]" for a
    by (auto simp: code_key_def u split: option.splits list.splits)
  have 2: "pen_vt_key a = Some (pen, c) \<longleftrightarrow> da_vendor a = Some pen \<and> map unat (oid_parts (da_oid a)) = [unat c]" for a
    by (auto simp: pen_vt_key_def u split: option.splits list.splits)
  have 3: "parent_child_key a = Some (c, c') \<longleftrightarrow> da_vendor a = None \<and> map unat (oid_parts (da_oid a)) = [unat c, unat c']" for a
  proof -
    have "parent_child_key a = Some (c, c') \<longleftrightarrow>
        da_vendor a = None \<and> (\<exists>p q. oid_parts (da_oid a) = [p, q] \<and> u8_of p = Some c \<and> u8_of q = Some c')"
      by (auto simp: parent_child_key_def split: option.splits list.splits)
    then show ?thesis unfolding u by (auto simp: map_eq_Cons_conv)
  qed
  show ?thesis
    by (simp only: registry_scan 1 2 3 by_code_def by_pen_vt_def by_parent_child_def by_pen_def first_by_sorted simp_thms)
qed

section \<open>Enumerators\<close>

text \<open>
  An enumerator of an attribute that is defined in another group is not resolved, whatever its own
  group says.
\<close>

lemma cross_group_value:
  assumes "attr \<notin> da_name ` set (dict_attributes d)"
  shows "gen_value_name d attr number = None"
proof -
  have "attrs_by_name d attr = None"
    using assms by (auto simp: attrs_by_name_def map_of_eq_None_iff)
  then have "find (\<lambda>(n, a, shape). n = attr) (emitted d) = None"
    by (auto simp: emitted_def find_None_iff split: option.splits)
  then show ?thesis by (simp add: gen_value_name_def)
qed

text \<open>The identifier made of an enumerator's name can contain a character that no Rust identifier has.\<close>

lemma value_const_ident_not_identifier: "43 \<in> set (value_const_ident (lit ''a+b''))"
  by (simp add: value_const_ident_def value_const_char_def upcase_def ascii_lowercase_def ascii_digit_def lit_def)

text \<open>The groups of the enumerators: in order, without repeated names, the first of a name kept.\<close>

definition groups_inv :: "dict_value list \<Rightarrow> value_groups \<Rightarrow> bool" where
  "groups_inv vs g \<longleftrightarrow>
     set (vg_seen g) = (\<lambda>v. (dv_attribute v, dv_name v)) ` set vs
     \<and> distinct (vg_order g) \<and> set (vg_order g) = dv_attribute ` set vs
     \<and> (\<forall>k. vg_groups g k \<noteq> [] \<longleftrightarrow> k \<in> set (vg_order g))
     \<and> (\<forall>k. distinct (map dv_name (vg_groups g k)))
     \<and> (\<forall>k n. find (\<lambda>v. dv_name v = n) (vg_groups g k) = find (\<lambda>v. dv_attribute v = k \<and> dv_name v = n) vs)"

lemma group_value_inv:
  assumes "groups_inv vs g"
  shows "groups_inv (vs @ [v]) (group_value v g)"
proof (cases "(dv_attribute v, dv_name v) \<in> set (vg_seen g)")
  case True
  then have "(dv_attribute v, dv_name v) \<in> (\<lambda>v. (dv_attribute v, dv_name v)) ` set vs" using assms by (simp add: groups_inv_def)
  then obtain w where w: "w \<in> set vs" "dv_attribute w = dv_attribute v" "dv_name w = dv_name v" by auto
  have f: "find (\<lambda>x. dv_attribute x = k \<and> dv_name x = n) (vs @ [v]) = find (\<lambda>x. dv_attribute x = k \<and> dv_name x = n) vs" for k n
    using w by (auto simp: find_append find_None_iff find_None_iff2 split: option.splits)
  have "(dv_attribute v, dv_name v) \<in> (\<lambda>v. (dv_attribute v, dv_name v)) ` set vs" "dv_attribute v \<in> dv_attribute ` set vs"
    using w by (metis (no_types, lifting) image_eqI)+
  then have "groups_inv (vs @ [v]) g" using assms unfolding groups_inv_def f by (simp add: insert_absorb)
  then show ?thesis using True by (simp add: group_value_def)
next
  case False
  then have "(dv_attribute v, dv_name v) \<notin> (\<lambda>v. (dv_attribute v, dv_name v)) ` set vs"
    using assms by (simp add: groups_inv_def)
  then have new: "find (\<lambda>x. dv_attribute x = dv_attribute v \<and> dv_name x = dv_name v) vs = None"
    unfolding find_None_iff image_iff by auto
  then have "find (\<lambda>x. dv_name x = dv_name v) (vg_groups g (dv_attribute v)) = None" using assms by (simp add: groups_inv_def)
  then have "dv_name v \<notin> dv_name ` set (vg_groups g (dv_attribute v))" by (auto simp: find_None_iff)
  note fresh = this
  let ?k = "dv_attribute v"
  let ?ord = "if vg_groups g ?k = [] then vg_order g @ [?k] else vg_order g"
  have g: "group_value v g = \<lparr>vg_order = ?ord, vg_groups = (vg_groups g)(?k := vg_groups g ?k @ [v]),
      vg_seen = (?k, dv_name v) # vg_seen g\<rparr>"
    using False by (simp add: group_value_def Let_def)
  note I = assms [unfolded groups_inv_def]
  have ord: "distinct ?ord" "set ?ord = insert ?k (dv_attribute ` set vs)" using I by auto
  have f: "find (\<lambda>w. dv_name w = n) (((vg_groups g)(?k := vg_groups g ?k @ [v])) k)
      = find (\<lambda>w. dv_attribute w = k \<and> dv_name w = n) (vs @ [v])" for k n
    using I new by (auto simp: find_append split: option.splits)
  have seen: "set ((?k, dv_name v) # vg_seen g) = (\<lambda>v. (dv_attribute v, dv_name v)) ` set (vs @ [v])" using I by simp
  have ne: "((vg_groups g)(?k := vg_groups g ?k @ [v])) k \<noteq> [] \<longleftrightarrow> k \<in> set ?ord" for k
    using I by simp
  have dist: "distinct (map dv_name (((vg_groups g)(?k := vg_groups g ?k @ [v])) k))" for k
    using I fresh by simp
  show ?thesis unfolding groups_inv_def g value_groups.simps
    by (intro conjI allI seen ord(1) ne dist f) (simp only: ord(2), simp)
qed

lemma groups_inv_grouped: "groups_inv (dict_values d) (grouped d)"
proof -
  have "groups_inv (us @ vs) (fold group_value vs g)" if "groups_inv us g" for us vs g
    using that
  proof (induction vs arbitrary: us g)
    case (Cons v vs)
    from Cons.IH [OF group_value_inv [OF Cons.prems]] show ?case by simp
  qed simp
  from this [of "[]"] show ?thesis by (simp add: grouped_def groups_inv_def)
qed

end
