(* ===== verification/Dissect.thy ===== *)
theory Dissect
  imports Packet_Buffer Unicode Dict_Registry "HOL-Library.Sublist"
begin

text \<open>
  \<^verbatim>\<open>src/codec/dissect.rs\<close>: the readable rendering of a packet. What the code writes to its formatter is the
  resulting text; the wrappers that only borrow a packet until it is formatted are the arguments of
  the functions here. \<open>ds\<close> are the dictionary groups compiled in and \<open>plain\<close> tells which characters
  beyond ASCII Rust's debug format prints as they are. Also here is how the library displays
  addresses and the codec its errors.
\<close>

section \<open>Display of numbers, addresses and errors\<close>

definition hex_digit :: "nat \<Rightarrow> nat" where
  "hex_digit n = (if n < 10 then 48 + n else 87 + n)"

definition hex02 :: "u8 \<Rightarrow> ustring" where
  "hex02 b = [hex_digit (unat b div 16), hex_digit (unat b mod 16)]"

definition ipv4_display :: "bytes \<Rightarrow> ustring" where
  "ipv4_display octets = joined_by 46 (map (\<lambda>b. show_nat (unat b)) octets)"

text \<open>The first of the longest runs of zero segments, as its start and its length.\<close>

fun longest_zeros :: "nat \<Rightarrow> nat \<times> nat \<Rightarrow> nat \<times> nat \<Rightarrow> u16 list \<Rightarrow> nat \<times> nat" where
  "longest_zeros i longest current [] = longest"
| "longest_zeros i longest current (s # ss) =
     (if s = 0 then
        let current = (if snd current = 0 then (i, 1) else (fst current, snd current + 1))
        in longest_zeros (i + 1) (if snd current > snd longest then current else longest) current ss
      else longest_zeros (i + 1) longest (0, 0) ss)"

definition segments_display :: "u16 list \<Rightarrow> ustring" where
  "segments_display ss = joined_by 58 (map (\<lambda>s. show_hex (unat s)) ss)"

definition ipv6_display :: "bytes \<Rightarrow> ustring" where
  "ipv6_display octets =
     (if take 12 octets = replicate 10 0 @ [0xFF, 0xFF] then lit ''::ffff:'' @ ipv4_display (drop 12 octets)
      else
        let ss = map u16_from_be (chunks 2 octets); (start, len) = longest_zeros 0 (0, 0) (0, 0) ss
        in if len > 1 then segments_display (take start ss) @ lit ''::'' @ segments_display (drop (start + len) ss)
           else segments_display ss)"

definition code_display :: "code \<Rightarrow> ustring" where
  "code_display c =
     (if code_name c = ''Unknown'' then lit ''Code('' @ show_nat (unat (code_byte c)) @ lit '')'' else lit (code_name c))"

fun header_error_display :: "header_error \<Rightarrow> ustring" where
  "header_error_display (TooShort got) =
     lit ''packet shorter than the '' @ show_nat MIN_PACKET_LEN @ lit ''-byte RADIUS header (got '' @ show_nat got @ lit '')''"
| "header_error_display (LengthUnderflow len) =
     lit ''header length field '' @ show_nat (unat len) @ lit '' is below the '' @ show_nat MIN_PACKET_LEN @ lit ''-byte minimum''"
| "header_error_display (LengthOverflow len) =
     lit ''header length field '' @ show_nat (unat len) @ lit '' exceeds the '' @ show_nat MAX_PACKET_LEN @ lit ''-byte maximum''"
| "header_error_display (LengthExceedsBuffer len got) =
     lit ''header length field '' @ show_nat (unat len) @ lit '' exceeds received bytes ('' @ show_nat got @ lit '')''"

fun attribute_error_display :: "attribute_error \<Rightarrow> ustring" where
  "attribute_error_display (TruncatedHeader remaining) =
     lit ''attribute region has '' @ show_nat remaining @ lit '' trailing bytes, fewer than the 2-byte TLV header''"
| "attribute_error_display (AttrLengthUnderflow len) =
     lit ''attribute length byte '' @ show_nat (unat len) @ lit '' is below the 2-byte minimum''"
| "attribute_error_display (LengthExceedsRemaining len remaining) =
     lit ''attribute length byte '' @ show_nat (unat len) @ lit '' exceeds the '' @ show_nat remaining @ lit '' bytes remaining''"

section \<open>Hexadecimal dumps\<close>

definition INDENT :: ustring where
  "INDENT = lit ''    ''"

definition MAX_HEX_BYTES :: nat where
  "MAX_HEX_BYTES = 64"

definition write_hex_inline :: "bytes \<Rightarrow> ustring" where
  "write_hex_inline val =
     (let cap = min (length val) MAX_HEX_BYTES
      in lit ''0x'' @ concat (map hex02 (take cap val))
         @ (if length val > cap then 0x2026 # lit ''('' @ show_nat (length val - cap) @ lit '' more)'' else []))"

definition write_raw_hex :: "ustring \<Rightarrow> bytes \<Rightarrow> ustring" where
  "write_raw_hex indent val = (if val = [] then [] else ln (indent @ write_hex_inline val))"

definition concat_indent :: "nat \<Rightarrow> ustring" where
  "concat_indent levels = concat (replicate levels INDENT)"

definition dissect_code_name :: "code \<Rightarrow> string option" where
  "dissect_code_name c =
     (if c = ACCESS_REQUEST then Some ''Access-Request''
      else if c = ACCESS_ACCEPT then Some ''Access-Accept''
      else if c = ACCESS_REJECT then Some ''Access-Reject''
      else if c = ACCOUNTING_REQUEST then Some ''Accounting-Request''
      else if c = ACCOUNTING_RESPONSE then Some ''Accounting-Response''
      else if c = ACCESS_CHALLENGE then Some ''Access-Challenge''
      else if c = STATUS_SERVER then Some ''Status-Server''
      else if c = STATUS_CLIENT then Some ''Status-Client''
      else if c = DISCONNECT_REQUEST then Some ''Disconnect-Request''
      else if c = DISCONNECT_ACK then Some ''Disconnect-ACK''
      else if c = DISCONNECT_NAK then Some ''Disconnect-NAK''
      else if c = COA_REQUEST then Some ''CoA-Request''
      else if c = COA_ACK then Some ''CoA-ACK''
      else if c = COA_NAK then Some ''CoA-NAK''
      else None)"

section \<open>Values\<close>

definition write_integer :: "dictionary list \<Rightarrow> attr_info \<Rightarrow> int \<Rightarrow> ustring" where
  "write_integer ds entry n =
     (case reg_value_name ds (ai_name entry) n of
        Some name \<Rightarrow> ln (lit '' val='' @ name @ lit ''('' @ show_int n @ lit '')'')
      | None \<Rightarrow> ln (lit '' val='' @ show_int n))"

definition bad_len :: "string \<Rightarrow> bytes \<Rightarrow> ustring" where
  "bad_len what val = ln (lit '' val=<bad '' @ lit what @ lit '' len='' @ show_nat (length val) @ lit ''>'')"

definition write_ip_prefix :: "bytes \<Rightarrow> nat \<Rightarrow> ustring" where
  "write_ip_prefix val addr_len =
     (if length val < 2 \<or> length val > 2 + addr_len then bad_len ''prefix'' val
      else
        let prefix_len = val ! 1; buf = drop 2 val @ replicate (addr_len - (length val - 2)) 0
        in ln (lit '' val='' @ (if addr_len = 4 then ipv4_display buf else ipv6_display buf) @ lit ''/'' @ show_nat (unat prefix_len)))"

definition vendor_display :: "dictionary list \<Rightarrow> u32 \<Rightarrow> ustring" where
  "vendor_display ds pen =
     (case reg_vendor ds pen of Some v \<Rightarrow> vi_name v | None \<Rightarrow> lit ''Unknown'') @ lit ''('' @ show_nat (unat pen) @ lit '')''"

definition entry_name :: "attr_info option \<Rightarrow> ustring" where
  "entry_name entry = (case entry of Some e \<Rightarrow> ai_name e | None \<Rightarrow> lit ''Unknown'')"

definition write_evs :: "dictionary list \<Rightarrow> ustring \<Rightarrow> bytes \<Rightarrow> ustring" where
  "write_evs ds indent val =
     (if length val < 5 then ln (indent @ lit ''<EVS: truncated header, need >=5 bytes>'') @ write_raw_hex indent val
      else
        ln (indent @ lit ''EVS: vnd='' @ vendor_display ds (u32_from_be (take 4 val)) @ lit '' v-type='' @ show_nat (unat (val ! 4)))
        @ write_raw_hex (indent @ INDENT) (drop 5 val))"

definition write_extended :: "dictionary list \<Rightarrow> ustring \<Rightarrow> bytes \<Rightarrow> bool \<Rightarrow> ustring" where
  "write_extended ds indent val long =
     (let header_len = (if long then 2 else 1); cont = indent @ INDENT
      in if length val < header_len then ln (lit '' <truncated Extended header>'') @ write_raw_hex cont val
         else
           let ext_type = val ! 0;
               (line, rest) =
                 (if long then
                    let flags = val ! 1; m_bit = flags AND 0x80 \<noteq> 0; reserved = flags AND 0x7F
                    in (lit '' ext-type='' @ show_nat (unat ext_type) @ lit '' flags=0x'' @ hex02 flags @ lit '' M=''
                          @ show_nat (if m_bit then 1 else 0)
                          @ (if reserved = 0 then [] else lit '' reserved=0x'' @ hex02 reserved),
                        drop 2 val)
                  else (lit '' ext-type='' @ show_nat (unat ext_type), drop 1 val))
           in ln line @ (if ext_type = 26 then write_evs ds cont rest else write_raw_hex cont rest))"

text \<open>
  \<open>write_leaf\<close> is \<open>write_value\<close> on every kind but \<open>Tlv\<close>; \<open>write_tlvs\<close> is the loop of that arm and
  gives what it wrote, whether a child was known, and the bytes it left.
\<close>

definition write_leaf :: "(nat \<Rightarrow> bool) \<Rightarrow> dictionary list \<Rightarrow> ustring \<Rightarrow> attr_info \<Rightarrow> bytes \<Rightarrow> ustring" where
  "write_leaf plain ds indent entry val =
     (case ai_kind entry of
        KString \<Rightarrow>
          if utf8_valid val then ln (lit '' val='' @ debug_str plain (utf8_chars val))
          else ln (lit '' val=<non-utf8 '' @ write_hex_inline val @ lit ''>'')
      | KOctets \<Rightarrow> ln (lit '' val='' @ write_hex_inline val)
      | KIpaddr \<Rightarrow> if length val = 4 then ln (lit '' val='' @ ipv4_display val) else bad_len ''ipv4'' val
      | KIpv6addr \<Rightarrow> if length val = 16 then ln (lit '' val='' @ ipv6_display val) else bad_len ''ipv6'' val
      | KIpv4prefix \<Rightarrow> write_ip_prefix val 4
      | KIpv6prefix \<Rightarrow> write_ip_prefix val 16
      | KByte \<Rightarrow> (case val of [b] \<Rightarrow> write_integer ds entry (uint b) | _ \<Rightarrow> bad_len ''byte'' val)
      | KShort \<Rightarrow> if length val = 2 then write_integer ds entry (uint (u16_from_be val)) else bad_len ''short'' val
      | KInteger \<Rightarrow> if length val = 4 then write_integer ds entry (uint (u32_from_be val)) else bad_len ''integer'' val
      | KInteger64 \<Rightarrow> if length val = 8 then ln (lit '' val='' @ show_nat (unat (u64_from_be val))) else bad_len ''integer64'' val
      | KSigned \<Rightarrow> if length val = 4 then write_integer ds entry (sint (u32_from_be val)) else bad_len ''signed'' val
      | KDate \<Rightarrow>
          if length val = 4 then ln (lit '' val='' @ show_nat (unat (u32_from_be val)) @ lit '' (epoch seconds)'') else bad_len ''date'' val
      | KEther \<Rightarrow> if length val = 6 then ln (lit '' val='' @ joined_by 58 (map hex02 val)) else bad_len ''ether'' val
      | KIfid \<Rightarrow>
          if length val = 8 then ln (lit '' val='' @ joined_by 58 (map (\<lambda>c. concat (map hex02 c)) (chunks 2 val))) else bad_len ''ifid'' val
      | KExtended \<Rightarrow> write_extended ds indent val False
      | KLongExtended \<Rightarrow> write_extended ds indent val True
      | KEvs \<Rightarrow> ln [] @ write_evs ds (indent @ INDENT) val
      | KVsa \<Rightarrow> ln (lit '' <Vsa>'') @ write_raw_hex (indent @ INDENT) val
      | KStruct \<Rightarrow> ln (lit '' <Struct>'') @ write_raw_hex (indent @ INDENT) val
      | KTlv \<Rightarrow> [])"

function write_value :: "(nat \<Rightarrow> bool) \<Rightarrow> dictionary list \<Rightarrow> ustring \<Rightarrow> u8 \<Rightarrow> attr_info option \<Rightarrow> bytes \<Rightarrow> ustring"
  and write_tlvs :: "(nat \<Rightarrow> bool) \<Rightarrow> dictionary list \<Rightarrow> ustring \<Rightarrow> u8 \<Rightarrow> bytes \<Rightarrow> ustring \<times> bool \<times> bytes" where
  "write_value plain ds indent parent_code entry val =
     (case entry of
        None \<Rightarrow> ln (lit '' val='' @ write_hex_inline val)
      | Some e \<Rightarrow>
          if ai_encrypted e then ln (lit '' val=<encrypted '' @ write_hex_inline val @ lit ''>'')
          else if ai_kind e = KTlv then
            let cont = indent @ INDENT; (out, any_dissected, cursor) = write_tlvs plain ds cont parent_code val
            in ln [] @ out
               @ (if \<not> any_dissected \<and> length cursor = length val then write_raw_hex cont val
                  else if cursor \<noteq> [] then
                    ln (cont @ lit ''<trailing '' @ show_nat (length cursor) @ lit '' byte(s) in TLV>'') @ write_raw_hex cont cursor
                  else [])
          else write_leaf plain ds indent e val)"
| "write_tlvs plain ds cont parent_code cursor =
     (if length cursor < 2 then ([], False, cursor)
      else
        let t = cursor ! 0; l = unat (cursor ! 1)
        in if l < 2 \<or> l > length cursor then
             (ln (cont @ lit ''<malformed TLV: type='' @ show_nat (unat t) @ lit '' len='' @ show_nat l @ lit ''>''), False, cursor)
           else
             let child = reg_tlv_child ds parent_code t;
                 line = cont @ lit ''TLV: t='' @ entry_name child @ lit ''('' @ show_nat (unat t) @ lit '') l='' @ show_nat l;
                 text = write_value plain ds cont t child (drop 2 (take l cursor));
                 (out, any_dissected, rest) = write_tlvs plain ds cont parent_code (drop l cursor)
             in (line @ text @ out, child \<noteq> None \<or> any_dissected, rest))"
  by pat_completeness auto
termination
  by (relation "measure (\<lambda>x. case x of Inl (plain, ds, indent, c, entry, val) \<Rightarrow> 2 * length val + 1
      | Inr (plain, ds, cont, c, cursor) \<Rightarrow> 2 * length cursor)")
    auto

declare write_value.simps [simp del] write_tlvs.simps [simp del]

section \<open>Attributes and packets\<close>

function write_vsa_tlvs :: "(nat \<Rightarrow> bool) \<Rightarrow> dictionary list \<Rightarrow> ustring \<Rightarrow> u32 \<Rightarrow> bytes \<Rightarrow> ustring" where
  "write_vsa_tlvs plain ds inner_indent pen cursor =
     (if cursor = [] then []
      else if length cursor < 2 then
        ln (inner_indent @ lit ''<trailing '' @ show_nat (length cursor) @ lit '' byte(s) in VSA slot>'') @ write_raw_hex inner_indent cursor
      else
        let v_type = cursor ! 0; v_len = unat (cursor ! 1)
        in if v_len < 2 \<or> v_len > length cursor then
             ln (inner_indent @ lit ''<malformed vendor TLV: type='' @ show_nat (unat v_type) @ lit '' len='' @ show_nat v_len @ lit ''>'')
             @ write_raw_hex inner_indent cursor
           else
             let entry = reg_vsa ds pen v_type
             in inner_indent @ lit ''VSA: t='' @ entry_name entry @ lit ''('' @ show_nat (unat v_type) @ lit '') l='' @ show_nat v_len
                @ write_value plain ds inner_indent v_type entry (drop 2 (take v_len cursor))
                @ write_vsa_tlvs plain ds inner_indent pen (drop v_len cursor))"
  by pat_completeness auto
termination
  by (relation "measure (\<lambda>(plain, ds, inner_indent, pen, cursor). length cursor)") auto

declare write_vsa_tlvs.simps [simp del]

definition write_vsa :: "(nat \<Rightarrow> bool) \<Rightarrow> dictionary list \<Rightarrow> ustring \<Rightarrow> u8 \<Rightarrow> bytes \<Rightarrow> ustring" where
  "write_vsa plain ds indent len val =
     (if length val < 4 then
        ln (indent @ lit ''AVP: t=Vendor-Specific(26) l='' @ show_nat (unat len) @ lit '' <truncated VSA>'') @ write_raw_hex indent val
      else
        let pen = u32_from_be (take 4 val)
        in ln (indent @ lit ''AVP: t=Vendor-Specific(26) l='' @ show_nat (unat len) @ lit '' vnd='' @ vendor_display ds pen)
           @ write_vsa_tlvs plain ds (indent @ INDENT) pen (drop 4 val))"

definition write_attribute :: "(nat \<Rightarrow> bool) \<Rightarrow> dictionary list \<Rightarrow> ustring \<Rightarrow> raw_attribute \<Rightarrow> ustring" where
  "write_attribute plain ds indent raw =
     (let typ = attribute_type raw; len = wire_len raw; val = raw_value raw
      in if typ = 26 then write_vsa plain ds indent len val
         else
           let entry = reg_attribute ds typ
           in indent @ lit ''AVP: t='' @ entry_name entry @ lit ''('' @ show_nat (unat typ) @ lit '') l='' @ show_nat (unat len)
              @ write_value plain ds indent typ entry val)"

fun write_attributes :: "(nat \<Rightarrow> bool) \<Rightarrow> dictionary list \<Rightarrow> ustring \<Rightarrow> item list \<Rightarrow> ustring" where
  "write_attributes plain ds indent [] = []"
| "write_attributes plain ds indent (Ok raw # slots) = write_attribute plain ds indent raw @ write_attributes plain ds indent slots"
| "write_attributes plain ds indent (Err e # slots) = ln (indent @ lit ''<malformed attribute: '' @ attribute_error_display e @ lit ''>'')"

definition write_header_lines :: "ustring \<Rightarrow> header \<Rightarrow> ustring" where
  "write_header_lines indent h =
     (case dissect_code_name (hdr_code h) of
        Some name \<Rightarrow> ln (indent @ lit ''Code: '' @ lit name @ lit '' ('' @ show_nat (unat (code_byte (hdr_code h))) @ lit '')'')
      | None \<Rightarrow> ln (indent @ lit ''Code: Unknown ('' @ show_nat (unat (code_byte (hdr_code h))) @ lit '')''))
     @ ln (indent @ lit ''Packet identifier: 0x'' @ hex02 (hdr_identifier h) @ lit '' ('' @ show_nat (unat (hdr_identifier h)) @ lit '')'')
     @ ln (indent @ lit ''Length: '' @ show_nat (unat (hdr_length h)))
     @ ln (indent @ lit ''Authenticator: '' @ concat (map hex02 (hdr_authenticator h)))"

definition header_dissect :: "header \<Rightarrow> ustring" where
  "header_dissect h = ln (lit ''RADIUS Protocol'') @ write_header_lines INDENT h"

definition attr_dissect :: "(nat \<Rightarrow> bool) \<Rightarrow> dictionary list \<Rightarrow> raw_attribute \<Rightarrow> ustring" where
  "attr_dissect plain ds raw = write_attribute plain ds [] raw"

definition attributes_dissect :: "(nat \<Rightarrow> bool) \<Rightarrow> dictionary list \<Rightarrow> attributes_iter \<Rightarrow> ustring" where
  "attributes_dissect plain ds it = write_attributes plain ds [] (drain it)"

definition dissect_parsed :: "(nat \<Rightarrow> bool) \<Rightarrow> dictionary list \<Rightarrow> header \<Rightarrow> bytes \<Rightarrow> ustring" where
  "dissect_parsed plain ds h attrs =
     ln (lit ''RADIUS Protocol'') @ write_header_lines INDENT h @ ln (INDENT @ lit ''Attribute Value Pairs'')
     @ write_attributes plain ds (concat_indent 2) (items attrs)"

text \<open>The two sources of a packet; reading the header of a buffer that has none is a panic.\<close>

definition packet_dissect :: "(nat \<Rightarrow> bool) \<Rightarrow> dictionary list \<Rightarrow> packet_buffer \<Rightarrow> ustring option" where
  "packet_dissect plain ds pkt =
     (case pb_header pkt of None \<Rightarrow> None | Some h \<Rightarrow> Some (dissect_parsed plain ds h (attributes pkt)))"

definition packet_dissect_bytes :: "(nat \<Rightarrow> bool) \<Rightarrow> dictionary list \<Rightarrow> bytes \<Rightarrow> ustring" where
  "packet_dissect_bytes plain ds bs =
     (case header_parse bs of
        Ok (h, attrs) \<Rightarrow> dissect_parsed plain ds h attrs
      | Err e \<Rightarrow>
          ln (lit ''RADIUS Protocol'') @ ln (INDENT @ lit ''<malformed header: '' @ header_error_display e @ lit ''>'')
          @ write_raw_hex INDENT bs)"

section \<open>The lines of a dissection\<close>

text \<open>
  A rendered piece is a sequence of whole lines, \<open>whole_lines P\<close>, or ends the line it is written
  to and continues with whole lines, \<open>rest_lines P\<close>; \<open>P\<close> holds for the lines after the first.
\<close>

definition clean :: "ustring \<Rightarrow> bool" where
  "clean s \<longleftrightarrow> list_all (\<lambda>c. c \<noteq> 10 \<and> c \<noteq> 13) s"

definition whole_lines :: "(ustring \<Rightarrow> bool) \<Rightarrow> ustring \<Rightarrow> bool" where
  "whole_lines P s \<longleftrightarrow> (\<exists>ls. s = concat (map ln ls) \<and> list_all (\<lambda>l. clean l \<and> P l) ls)"

definition rest_lines :: "(ustring \<Rightarrow> bool) \<Rightarrow> ustring \<Rightarrow> bool" where
  "rest_lines P s \<longleftrightarrow> (\<exists>l r. s = ln l @ r \<and> clean l \<and> whole_lines P r)"

lemma clean_simps [simp]:
  "clean []" "clean (c # s) \<longleftrightarrow> c \<noteq> 10 \<and> c \<noteq> 13 \<and> clean s" "clean (s @ t) \<longleftrightarrow> clean s \<and> clean t"
  by (simp_all add: clean_def)

lemma whole_lines_Nil [intro, simp]: "whole_lines P []"
  by (auto simp: whole_lines_def intro: exI [of _ "[]"])

lemma whole_lines_append [intro]: "whole_lines P s \<Longrightarrow> whole_lines P t \<Longrightarrow> whole_lines P (s @ t)"
proof -
  assume "whole_lines P s" "whole_lines P t"
  then obtain ls ms where "s = concat (map ln ls)" "t = concat (map ln ms)"
    "list_all (\<lambda>l. clean l \<and> P l) ls" "list_all (\<lambda>l. clean l \<and> P l) ms" by (auto simp: whole_lines_def)
  then show ?thesis unfolding whole_lines_def by (intro exI [of _ "ls @ ms"]) simp
qed

lemma whole_lines_ln [intro]: "clean l \<Longrightarrow> P l \<Longrightarrow> whole_lines P (ln l)"
  unfolding whole_lines_def by (rule exI [of _ "[l]"]) simp

lemma whole_lines_mono: "whole_lines P s \<Longrightarrow> (\<And>l. P l \<Longrightarrow> Q l) \<Longrightarrow> whole_lines Q s"
  unfolding whole_lines_def by (metis (mono_tags, lifting) list.pred_mono_strong)

lemma rest_lines_mono: "rest_lines P s \<Longrightarrow> (\<And>l. P l \<Longrightarrow> Q l) \<Longrightarrow> rest_lines Q s"
  unfolding rest_lines_def by (metis (no_types, lifting) whole_lines_mono)

lemma rest_lines_ln [intro]: "clean l \<Longrightarrow> whole_lines P r \<Longrightarrow> rest_lines P (ln l @ r)"
  by (auto simp: rest_lines_def)

lemma rest_lines_single [intro]: "clean l \<Longrightarrow> rest_lines P (ln l)"
  using rest_lines_ln [of l P "[]"] by simp

lemma rest_lines_before: "clean a \<Longrightarrow> rest_lines P s \<Longrightarrow> rest_lines P (a @ s)"
  unfolding rest_lines_def ln_def by (metis append.assoc clean_simps(3))

lemma rest_lines_append: "rest_lines P s \<Longrightarrow> whole_lines P t \<Longrightarrow> rest_lines P (s @ t)"
  by (fastforce simp: rest_lines_def)

text \<open>A line that is begun and then ended is a whole line.\<close>

lemma rest_lines_begun:
  assumes "rest_lines P s" and "clean a" and "\<And>l. P (a @ l)"
  shows "whole_lines P (a @ s)"
proof -
  obtain l r where "s = ln l @ r" "clean l" "whole_lines P r" using assms(1) by (auto simp: rest_lines_def)
  then have "whole_lines P (ln (a @ l) @ r)" using assms(2,3) by (intro whole_lines_append whole_lines_ln) auto
  then show ?thesis using \<open>s = ln l @ r\<close> by (simp add: ln_def)
qed

named_theorems clean_text

lemma clean_lit [clean_text]: "clean (lit s) \<longleftrightarrow> list_all (\<lambda>c. c \<noteq> 10 \<and> c \<noteq> 13) (map (of_char :: char \<Rightarrow> nat) s)"
  by (simp add: clean_def lit_def)

lemma clean_show_nat [clean_text]: "clean (show_nat n)"
  unfolding clean_def using show_nat_digits [of n] by (rule list.pred_mono_strong) auto

lemma clean_show_int [clean_text]: "clean (show_int n)"
  by (simp add: show_int_def clean_text)

lemma clean_show_hex [clean_text]: "clean (show_hex n)"
proof (induction n rule: show_hex.induct)
  case (1 n)
  then show ?case by (subst show_hex.simps) (simp add: clean_def)
qed

lemma clean_hex02 [clean_text]: "clean (hex02 b)"
  by (auto simp: hex02_def hex_digit_def)

lemma clean_concat: "list_all clean xs \<Longrightarrow> clean (concat xs)"
  by (induction xs) auto

lemma clean_joined: "c \<noteq> 10 \<Longrightarrow> c \<noteq> 13 \<Longrightarrow> list_all clean xs \<Longrightarrow> clean (joined_by c xs)"
  by (induction c xs rule: joined_by.induct) auto

lemma clean_hex_dump [clean_text]: "clean (concat (map hex02 bs))"
  by (rule clean_concat) (simp add: list_all_iff clean_text)

lemma clean_write_hex_inline [clean_text]: "clean (write_hex_inline val)"
  by (simp add: write_hex_inline_def Let_def clean_text)

lemma clean_ipv4 [clean_text]: "clean (ipv4_display octets)"
  unfolding ipv4_display_def by (rule clean_joined) (simp_all add: list_all_iff clean_text)

lemma clean_segments [clean_text]: "clean (segments_display ss)"
  unfolding segments_display_def by (rule clean_joined) (simp_all add: list_all_iff clean_text)

lemma clean_ipv6 [clean_text]: "clean (ipv6_display octets)"
  by (simp add: ipv6_display_def Let_def clean_text split: prod.split)

lemma clean_debug_str [clean_text]: "clean (debug_str plain s)"
proof -
  have "clean (debug_char plain c)" for c by (simp add: debug_char_def clean_text)
  then show ?thesis by (simp add: debug_str_def clean_concat list_all_iff)
qed

lemma clean_header_error [clean_text]: "clean (header_error_display e)"
  by (cases e) (simp_all add: clean_text)

lemma clean_attribute_error [clean_text]: "clean (attribute_error_display e)"
  by (cases e) (simp_all add: clean_text)

lemma clean_INDENT [clean_text]: "clean INDENT"
  by (simp add: INDENT_def clean_text)

lemma clean_token: "token x \<Longrightarrow> clean x"
proof -
  have "white_space 10" "white_space 13" by (simp_all add: white_space_def)
  then show "token x \<Longrightarrow> clean x" unfolding token_def clean_def list_all_iff by metis
qed

text \<open>The names that the registry of well-formed dictionaries gives have no line breaks.\<close>

lemma cascade_Some: "cascade f gs = Some x \<Longrightarrow> \<exists>g \<in> set gs. f g = Some x"
  by (induction gs) (auto split: option.splits)

lemma find_member: "find p xs = Some x \<Longrightarrow> x \<in> set xs"
  by (auto simp: find_Some_iff)

lemma vg_groups_subset:
  "set (vg_groups (fold group_value vs g) k) \<subseteq> set vs \<union> set (vg_groups g k)"
proof (induction vs arbitrary: g)
  case (Cons v vs)
  have "set (vg_groups (group_value v g) k) \<subseteq> insert v (set (vg_groups g k))" by (auto simp: group_value_def Let_def split: if_splits)
  with Cons [of "group_value v g"] show ?case by auto
qed simp

definition clean_names :: "dictionary list \<Rightarrow> bool" where
  "clean_names ds \<longleftrightarrow>
     (\<forall>c. clean (entry_name (reg_attribute ds c))) \<and> (\<forall>p c. clean (entry_name (reg_vsa ds p c)))
     \<and> (\<forall>p c. clean (entry_name (reg_tlv_child ds p c))) \<and> (\<forall>p. clean (vendor_display ds p))
     \<and> (\<forall>a n m. reg_value_name ds a n = Some m \<longrightarrow> clean m)"

lemma clean_entry_name:
  assumes "\<And>e. entry = Some e \<Longrightarrow> clean (ai_name e)"
  shows "clean (entry_name entry)"
  using assms by (auto simp: entry_name_def clean_text split: option.split)

lemma table_name_clean:
  assumes "\<forall>d \<in> set ds. wf_dict d" and "cascade (\<lambda>d. map_option info_of (map_of (first_by key (dict_attributes d)) k)) ds = Some e"
  shows "clean (ai_name e)"
proof -
  obtain d a where "d \<in> set ds" "find (\<lambda>a. key a = Some k) (dict_attributes d) = Some a" "e = info_of a"
    using cascade_Some [OF assms(2)] by (auto simp: map_of_first_by)
  then show ?thesis using assms(1) by (auto simp: wf_dict_def info_of_def intro: clean_token dest!: find_member)
qed

lemma wf_clean_names:
  assumes "\<forall>d \<in> set ds. wf_dict d"
  shows "clean_names ds"
proof -
  have "clean (entry_name (reg_attribute ds c))" for c
    using table_name_clean [OF assms] by (intro clean_entry_name) (auto simp: reg_attribute_def gen_lookup_def by_code_def)
  moreover have "clean (entry_name (reg_vsa ds p c))" for p c
    using table_name_clean [OF assms] by (intro clean_entry_name) (auto simp: reg_vsa_def gen_lookup_vsa_def by_pen_vt_def)
  moreover have "clean (entry_name (reg_tlv_child ds p c))" for p c
    using table_name_clean [OF assms] by (intro clean_entry_name) (auto simp: reg_tlv_child_def gen_lookup_tlv_def by_parent_child_def)
  moreover have "clean (vi_name v)" if v: "reg_vendor ds p = Some v" for p v
  proof -
    obtain d w where "d \<in> set ds" "find (\<lambda>w. Some (vn_id w) = Some p) (dict_vendors d) = Some w" "v = vendor_info_of w"
      using cascade_Some [OF v [unfolded reg_vendor_def]] by (auto simp: gen_lookup_vendor_def by_pen_def map_of_first_by)
    then show ?thesis using assms by (auto simp: wf_dict_def vendor_info_of_def intro: clean_token dest!: find_member)
  qed
  moreover have "clean m" if m: "reg_value_name ds a n = Some m" for a n m
  proof -
    obtain d k v where "d \<in> set ds" "v \<in> set (vg_groups (grouped d) k)" "m = dv_name v"
      using cascade_Some [OF m [unfolded reg_value_name_def]]
      by (auto simp: gen_value_name_def newtype_name_def split: option.split_asm) (metis find_member)
    moreover from this have "v \<in> set (dict_values d)"
      using vg_groups_subset [of "dict_values d" _ k] by (force simp: grouped_def)
    ultimately show ?thesis using assms by (auto simp: wf_dict_def intro: clean_token)
  qed
  ultimately show ?thesis by (auto simp: clean_names_def vendor_display_def clean_text split: option.split)
qed

lemma clean_namesD:
  assumes "clean_names ds"
  shows "clean (entry_name (reg_attribute ds c))" "clean (entry_name (reg_vsa ds i c))"
    "clean (entry_name (reg_tlv_child ds p c))" "clean (vendor_display ds i)" "reg_value_name ds a n = Some m \<Longrightarrow> clean m"
  using assms unfolding clean_names_def by blast+

text \<open>Everything after the line of a value is indented further.\<close>

lemma raw_hex_lines: "clean indent \<Longrightarrow> whole_lines (prefix indent) (write_raw_hex indent val)"
  by (auto simp: write_raw_hex_def clean_text)

lemma deeper_lines: "whole_lines (prefix (indent @ INDENT)) s \<Longrightarrow> whole_lines (prefix indent) s"
  by (erule whole_lines_mono) (rule append_prefixD)

lemma evs_lines:
  assumes "clean_names ds" and "clean indent"
  shows "whole_lines (prefix indent) (write_evs ds indent val)"
proof (cases "length val < 5")
  case True
  then show ?thesis unfolding write_evs_def using assms(2)
    by (simp add: whole_lines_append whole_lines_ln raw_hex_lines clean_text)
next
  case False
  have "whole_lines (prefix indent) (write_raw_hex (indent @ INDENT) (drop 5 val))"
    using raw_hex_lines [of "indent @ INDENT"] assms(2) by (auto simp: clean_text intro: deeper_lines)
  moreover note clean_namesD(4) [OF assms(1)]
  ultimately show ?thesis unfolding write_evs_def using False assms(2)
    by (simp only: if_False) (intro whole_lines_append whole_lines_ln, simp_all add: clean_text)
qed

lemma extended_lines:
  assumes "clean_names ds" and "clean indent"
  shows "rest_lines (prefix (indent @ INDENT)) (write_extended ds indent val long)"
proof -
  have "clean (indent @ INDENT)" using assms(2) by (simp add: clean_text)
  then show ?thesis unfolding write_extended_def
    by (auto simp: Let_def clean_text intro!: rest_lines_ln raw_hex_lines evs_lines assms(1))
qed

lemma integer_lines: "clean_names ds \<Longrightarrow> rest_lines P (write_integer ds entry n)"
  unfolding write_integer_def
  by (cases "reg_value_name ds (ai_name entry) n") (auto simp: clean_text intro!: rest_lines_single dest: clean_namesD(5))

lemma bad_len_lines: "clean (lit what) \<Longrightarrow> rest_lines P (bad_len what val)"
  by (auto simp: bad_len_def clean_text)

lemma ip_prefix_lines: "rest_lines P (write_ip_prefix val n)"
  by (auto simp: write_ip_prefix_def Let_def clean_text intro!: rest_lines_single bad_len_lines)

lemma leaf_lines:
  assumes "clean_names ds" and "clean indent" and "ai_kind entry \<noteq> KTlv"
  shows "rest_lines (prefix (indent @ INDENT)) (write_leaf plain ds indent entry val)"
proof -
  have c: "clean (indent @ INDENT)" using assms(2) by (simp add: clean_text)
  have j: "clean (joined_by 58 (map hex02 bs))" "clean (joined_by 58 (map (\<lambda>c. concat (map hex02 c)) cs))" for bs cs
    by (auto intro!: clean_joined simp: list_all_iff clean_text)
  show ?thesis
    using assms(3) unfolding write_leaf_def
    by (cases "ai_kind entry")
      (auto simp: clean_text j c split: list.split
        intro!: rest_lines_single rest_lines_ln integer_lines bad_len_lines ip_prefix_lines extended_lines evs_lines raw_hex_lines assms(1,2))
qed

lemma value_lines:
  assumes "clean_names ds"
  shows "clean indent \<Longrightarrow> rest_lines (prefix (indent @ INDENT)) (write_value plain ds indent c entry val)"
    and "clean cont \<Longrightarrow> whole_lines (prefix cont) (fst (write_tlvs plain ds cont c cursor))"
  using assms
proof (induction plain ds indent c entry val and plain ds cont c cursor rule: write_value_write_tlvs.induct)
  case (1 plain ds indent c entry val)
  then have c: "clean (indent @ INDENT)" by (simp add: clean_text)
  show ?case
  proof (cases entry)
    case None
    then show ?thesis by (subst write_value.simps) (auto simp: clean_text)
  next
    case (Some e)
    obtain out any_dissected cursor where t: "write_tlvs plain ds (indent @ INDENT) c val = (out, any_dissected, cursor)"
      by (cases "write_tlvs plain ds (indent @ INDENT) c val")
    consider (enc) "ai_encrypted e" | (tlv) "\<not> ai_encrypted e" "ai_kind e = KTlv" | (leaf) "\<not> ai_encrypted e" "ai_kind e \<noteq> KTlv" by blast
    then show ?thesis
    proof cases
      case enc
      then show ?thesis by (subst write_value.simps) (auto simp: Some clean_text)
    next
      case tlv
      have out: "whole_lines (prefix (indent @ INDENT)) out"
        using "1.IH" [OF Some tlv refl c "1.prems"(2)] t by simp
      have "whole_lines (prefix (indent @ INDENT))
          (ln ((indent @ INDENT) @ lit ''<trailing '' @ show_nat (length cursor) @ lit '' byte(s) in TLV>''))"
        using c by (intro whole_lines_ln) (simp_all add: clean_text)
      then show ?thesis
        by (subst write_value.simps) (auto simp: Some tlv t Let_def intro!: rest_lines_ln whole_lines_append raw_hex_lines out c)
    next
      case leaf
      then show ?thesis using leaf_lines [OF "1.prems"(2,1)] by (subst write_value.simps) (simp add: Some)
    qed
  qed
next
  case (2 plain ds cont c cursor)
  let ?t = "cursor ! 0" and ?l = "unat (cursor ! 1)"
  consider (short) "length cursor < 2" | (bad) "\<not> length cursor < 2" "?l < 2 \<or> ?l > length cursor"
    | (child) "\<not> length cursor < 2" "\<not> (?l < 2 \<or> ?l > length cursor)" by blast
  then show ?case
  proof cases
    case short
    then show ?thesis by (subst write_tlvs.simps) simp
  next
    case bad
    then show ?thesis using "2.prems"(1) by (subst write_tlvs.simps) (auto simp: Let_def clean_text)
  next
    case child
    let ?line = "cont @ lit ''TLV: t='' @ entry_name (reg_tlv_child ds c ?t) @ lit ''('' @ show_nat (unat ?t) @ lit '') l='' @ show_nat ?l"
    have "rest_lines (prefix (cont @ INDENT)) (write_value plain ds cont ?t (reg_tlv_child ds c ?t) (drop 2 (take ?l cursor)))"
      using "2.IH"(1) [OF child(1) refl refl child(2) refl refl "2.prems"] .
    then have "rest_lines (prefix cont) (write_value plain ds cont ?t (reg_tlv_child ds c ?t) (drop 2 (take ?l cursor)))"
      by (rule rest_lines_mono) (rule append_prefixD)
    then have "whole_lines (prefix cont) (?line @ write_value plain ds cont ?t (reg_tlv_child ds c ?t) (drop 2 (take ?l cursor)))"
      using "2.prems"(1) clean_namesD(3) [OF "2.prems"(2)]
      by (intro rest_lines_begun) (simp_all add: clean_text)
    moreover have "whole_lines (prefix cont) (fst (write_tlvs plain ds cont c (drop ?l cursor)))"
      using "2.IH"(2) [OF child(1) refl refl child(2) refl refl refl "2.prems"] .
    moreover have "fst (write_tlvs plain ds cont c cursor) =
        (?line @ write_value plain ds cont ?t (reg_tlv_child ds c ?t) (drop 2 (take ?l cursor)))
        @ fst (write_tlvs plain ds cont c (drop ?l cursor))"
      using child by (subst write_tlvs.simps) (simp add: Let_def split_beta)
    ultimately show ?thesis by (simp only: whole_lines_append)
  qed
qed

lemma vsa_tlvs_lines:
  assumes "clean_names ds" and "clean indent"
  shows "whole_lines (prefix indent) (write_vsa_tlvs plain ds indent pen cursor)"
proof (induction cursor rule: length_induct)
  case (1 cursor)
  let ?t = "cursor ! 0" and ?l = "unat (cursor ! 1)"
  consider (empty) "cursor = []" | (short) "cursor \<noteq> []" "length cursor < 2"
    | (bad) "cursor \<noteq> []" "\<not> length cursor < 2" "?l < 2 \<or> ?l > length cursor"
    | (child) "cursor \<noteq> []" "\<not> length cursor < 2" "\<not> (?l < 2 \<or> ?l > length cursor)" by blast
  then show ?case
  proof cases
    case empty
    then show ?thesis by (subst write_vsa_tlvs.simps) simp
  next
    case short
    then show ?thesis using assms(2) by (subst write_vsa_tlvs.simps) (auto simp: clean_text intro!: whole_lines_append whole_lines_ln raw_hex_lines)
  next
    case bad
    then show ?thesis using assms(2) by (subst write_vsa_tlvs.simps) (auto simp: Let_def clean_text intro!: whole_lines_append whole_lines_ln raw_hex_lines)
  next
    case child
    let ?e = "reg_vsa ds pen ?t"
    let ?line = "indent @ lit ''VSA: t='' @ entry_name ?e @ lit ''('' @ show_nat (unat ?t) @ lit '') l='' @ show_nat ?l"
    have "rest_lines (prefix indent) (write_value plain ds indent ?t ?e (drop 2 (take ?l cursor)))"
      using value_lines(1) [OF assms] by (rule rest_lines_mono) (rule append_prefixD)
    then have "whole_lines (prefix indent) (?line @ write_value plain ds indent ?t ?e (drop 2 (take ?l cursor)))"
      using assms(2) clean_namesD(2) [OF assms(1)] by (intro rest_lines_begun) (simp_all add: clean_text)
    moreover have "whole_lines (prefix indent) (write_vsa_tlvs plain ds indent pen (drop ?l cursor))"
      using 1 child by simp
    moreover have "write_vsa_tlvs plain ds indent pen cursor =
        (?line @ write_value plain ds indent ?t ?e (drop 2 (take ?l cursor))) @ write_vsa_tlvs plain ds indent pen (drop ?l cursor)"
      using child by (subst write_vsa_tlvs.simps) (simp add: Let_def)
    ultimately show ?thesis by (simp only: whole_lines_append)
  qed
qed

text \<open>The line of an attribute, and the lines below it.\<close>

definition avp_head :: "dictionary list \<Rightarrow> ustring \<Rightarrow> raw_attribute \<Rightarrow> ustring" where
  "avp_head ds indent raw =
     indent @ lit ''AVP: t='' @ (if attribute_type raw = 26 then lit ''Vendor-Specific'' else entry_name (reg_attribute ds (attribute_type raw)))
     @ lit ''('' @ show_nat (unat (attribute_type raw)) @ lit '') l='' @ show_nat (unat (wire_len raw))"

definition avp_line :: "ustring \<Rightarrow> ustring \<Rightarrow> bool" where
  "avp_line indent l \<longleftrightarrow> prefix (indent @ lit ''AVP: '') l"

lemma not_avp_line: "c \<noteq> 65 \<Longrightarrow> prefix (indent @ c # s) l \<Longrightarrow> \<not> avp_line indent l"
  by (auto simp: avp_line_def lit_def prefix_def)

lemma below_not_avp: "prefix (indent @ INDENT) l \<Longrightarrow> \<not> avp_line indent l"
  using not_avp_line [of 32 indent "lit ''   ''" l] by (simp add: INDENT_def lit_def)

lemma raw_hex_not_avp:
  assumes "clean indent"
  shows "whole_lines (\<lambda>l. \<not> avp_line indent l) (write_raw_hex indent val)"
proof -
  have "\<not> avp_line indent (indent @ write_hex_inline val)"
    using not_avp_line [of 48 indent "[]"] by (simp add: write_hex_inline_def Let_def lit_def)
  then show ?thesis using assms by (auto simp: write_raw_hex_def clean_text)
qed

lemma attribute_block:
  assumes "clean_names ds" and "clean indent"
  shows "\<exists>l r. write_attribute plain ds indent raw = ln l @ r \<and> clean l \<and> prefix (avp_head ds indent raw) l
    \<and> whole_lines (\<lambda>l. \<not> avp_line indent l) r"
proof (cases "attribute_type raw = 26")
  case True
  let ?len = "show_nat (unat (wire_len raw))" and ?v = "raw_value raw"
  have n: "lit ''AVP: t=Vendor-Specific(26) l='' = lit ''AVP: t='' @ lit ''Vendor-Specific'' @ lit ''('' @ show_nat 26 @ lit '') l=''"
    by (simp add: lit_def show_nat.simps)
  have c: "clean (indent @ INDENT)" using assms(2) by (simp add: clean_text)
  have head: "prefix (avp_head ds indent raw) (indent @ lit ''AVP: t=Vendor-Specific(26) l='' @ ?len @ s)" for s
    using True unfolding n by (simp add: avp_head_def)
  show ?thesis
  proof (cases "length ?v < 4")
    case short: True
    have "write_attribute plain ds indent raw =
        ln (indent @ lit ''AVP: t=Vendor-Specific(26) l='' @ ?len @ lit '' <truncated VSA>'') @ write_raw_hex indent ?v"
      using short True by (simp add: write_attribute_def write_vsa_def)
    moreover have "clean (indent @ lit ''AVP: t=Vendor-Specific(26) l='' @ ?len @ lit '' <truncated VSA>'')"
      using assms(2) by (simp add: clean_text)
    ultimately show ?thesis using head raw_hex_not_avp [OF assms(2)] by blast
  next
    case False
    let ?p = "u32_from_be (take 4 ?v)"
    have "write_attribute plain ds indent raw =
        ln (indent @ lit ''AVP: t=Vendor-Specific(26) l='' @ ?len @ lit '' vnd='' @ vendor_display ds ?p)
        @ write_vsa_tlvs plain ds (indent @ INDENT) ?p (drop 4 ?v)"
      using False True by (simp add: write_attribute_def write_vsa_def Let_def)
    moreover have "clean (indent @ lit ''AVP: t=Vendor-Specific(26) l='' @ ?len @ lit '' vnd='' @ vendor_display ds ?p)"
      using assms(2) clean_namesD(4) [OF assms(1)] by (simp add: clean_text)
    moreover have "whole_lines (\<lambda>l. \<not> avp_line indent l) (write_vsa_tlvs plain ds (indent @ INDENT) ?p (drop 4 ?v))"
      using vsa_tlvs_lines [OF assms(1) c] below_not_avp by (rule whole_lines_mono)
    ultimately show ?thesis using head by blast
  qed
next
  case False
  let ?e = "reg_attribute ds (attribute_type raw)"
  obtain l r where lr: "write_value plain ds indent (attribute_type raw) ?e (raw_value raw) = ln l @ r" "clean l"
    "whole_lines (prefix (indent @ INDENT)) r"
    using value_lines(1) [OF assms] unfolding rest_lines_def by blast
  then have "write_attribute plain ds indent raw = ln (avp_head ds indent raw @ l) @ r"
    using False by (simp add: write_attribute_def avp_head_def Let_def ln_def)
  moreover have "clean (avp_head ds indent raw @ l)"
    using False lr(2) assms(2) clean_namesD(1) [OF assms(1)] by (simp add: avp_head_def clean_text)
  moreover have "whole_lines (\<lambda>l. \<not> avp_line indent l) r" using lr(3) below_not_avp by (rule whole_lines_mono)
  ultimately show ?thesis by (meson prefixI)
qed

lemma avp_head_line: "prefix (avp_head ds indent raw) l \<Longrightarrow> avp_line indent l"
  by (auto simp: avp_head_def avp_line_def lit_def prefix_def)

text \<open>One line for each attribute of a region, in order.\<close>

definition avp_lines :: "dictionary list \<Rightarrow> ustring \<Rightarrow> item list \<Rightarrow> ustring list \<Rightarrow> bool" where
  "avp_lines ds indent slots ls \<longleftrightarrow>
     list_all clean ls \<and> list_all2 (\<lambda>raw l. prefix (avp_head ds indent raw) l) [r. Ok r \<leftarrow> slots] (filter (avp_line indent) ls)"

lemma malformed_slot_lines:
  assumes "clean indent"
  shows "\<exists>ls. write_attributes plain ds indent [Err e] = concat (map ln ls) \<and> avp_lines ds indent [Err e] ls"
proof -
  let ?l = "indent @ lit ''<malformed attribute: '' @ attribute_error_display e @ lit ''>''"
  have "\<not> avp_line indent ?l" using not_avp_line [of 60 indent "[]"] by (simp add: lit_def)
  moreover have "clean ?l" using assms by (simp add: clean_text)
  ultimately show ?thesis by (intro exI [of _ "[?l]"]) (simp add: avp_lines_def)
qed

lemma attributes_block:
  assumes "clean_names ds" and "clean indent"
  shows "\<exists>ls. write_attributes plain ds indent (items attrs) = concat (map ln ls) \<and> avp_lines ds indent (items attrs) ls"
proof (induction attrs rule: items_induct)
  case Nil
  then show ?case by (intro exI [of _ "[]"]) (simp add: avp_lines_def)
next
  case (Slot bs)
  then obtain ls where ls: "write_attributes plain ds indent (items (drop (unat (bs ! 1)) bs)) = concat (map ln ls)"
    "avp_lines ds indent (items (drop (unat (bs ! 1)) bs)) ls" by blast
  let ?raw = "\<lparr>tlv = take (unat (bs ! 1)) bs\<rparr>"
  obtain l r where b: "write_attribute plain ds indent ?raw = ln l @ r" "clean l" "prefix (avp_head ds indent ?raw) l"
    "whole_lines (\<lambda>l. \<not> avp_line indent l) r" using attribute_block [OF assms] by blast
  then obtain ms where ms: "r = concat (map ln ms)" "list_all (\<lambda>l. clean l \<and> \<not> avp_line indent l) ms" by (auto simp: whole_lines_def)
  then have "filter (avp_line indent) ms = []" "list_all clean ms" by (auto simp: list_all_iff filter_empty_conv)
  with ls b ms(1) show ?case
    by (intro exI [of _ "l # ms @ ls"]) (simp add: Slot(4) avp_lines_def avp_head_line)
qed (simp_all only: malformed_slot_lines [OF assms(2)])

lemma header_line_not_avp: "c \<noteq> 32 \<Longrightarrow> \<not> avp_line (concat_indent 2) (INDENT @ c # s)"
  by (simp add: avp_line_def concat_indent_def INDENT_def lit_def numeral_2_eq_2)

lemma header_lines: "whole_lines (\<lambda>l. \<not> avp_line (concat_indent 2) l) (write_header_lines INDENT h)"
proof -
  have "clean (lit name)" if "dissect_code_name c = Some name" for c name
    using that by (auto simp: dissect_code_name_def clean_text split: if_splits)
  moreover have "\<not> avp_line (concat_indent 2) (INDENT @ lit ''Code: '' @ s)" "\<not> avp_line (concat_indent 2) (INDENT @ lit ''Code: Unknown ('' @ s)"
    "\<not> avp_line (concat_indent 2) (INDENT @ lit ''Packet identifier: 0x'' @ s)" "\<not> avp_line (concat_indent 2) (INDENT @ lit ''Length: '' @ s)"
    "\<not> avp_line (concat_indent 2) (INDENT @ lit ''Authenticator: '' @ s)" for s
    using header_line_not_avp by (simp_all add: lit_def)
  ultimately show ?thesis unfolding write_header_lines_def
    by (cases "dissect_code_name (hdr_code h)")
      (auto simp: clean_text intro!: whole_lines_append whole_lines_ln)
qed

lemma title_not_avp: "\<not> avp_line (concat_indent 2) (lit ''RADIUS Protocol'')"
  by (simp add: avp_line_def concat_indent_def INDENT_def lit_def numeral_2_eq_2)

lemma lines_of_pieces:
  assumes "whole_lines (\<lambda>l. \<not> P l) s" and "list_all clean ls"
  shows "filter P (str_lines (s @ concat (map ln ls))) = filter P ls"
proof -
  obtain ms where ms: "s = concat (map ln ms)" "list_all (\<lambda>l. clean l \<and> \<not> P l) ms" using assms(1) by (auto simp: whole_lines_def)
  have "str_lines (concat (map (\<lambda>l. l @ [10]) (ms @ ls))) = ms @ ls"
    using ms(2) assms(2) by (intro lines_of_lines) (auto simp: list_all_iff clean_def)
  moreover have "ln = (\<lambda>l. l @ [10])" by (simp add: ln_def fun_eq_iff)
  moreover have "filter P ms = []" using ms(2) by (auto simp: list_all_iff filter_empty_conv)
  ultimately show ?thesis using ms(1) by simp
qed

text \<open>
  C34: a dissection cannot be forged. Whatever bytes arrive, with dictionaries as well formed as the
  dictionary parser makes them, the lines at the level of the attributes are exactly one for each attribute of
  the packet, in order, and each shows the name, the type and the length of its attribute: no value,
  however chosen, breaks a line or imitates another attribute. A packet whose header is malformed
  has no such line.
\<close>

theorem dissect_not_forged:
  assumes "\<forall>d \<in> set ds. wf_dict d"
  shows "list_all2 (\<lambda>raw l. prefix (avp_head ds (concat_indent 2) raw) l)
      [r. Ok r \<leftarrow> (case header_parse bs of Ok (h, attrs) \<Rightarrow> items attrs | Err e \<Rightarrow> [])]
      (filter (avp_line (concat_indent 2)) (str_lines (packet_dissect_bytes plain ds bs)))"
proof -
  have ds: "clean_names ds" using assms by (rule wf_clean_names)
  have ci: "clean (concat_indent 2)" by (simp add: concat_indent_def numeral_2_eq_2 clean_text)
  have t: "whole_lines (\<lambda>l. \<not> avp_line (concat_indent 2) l) (ln (lit ''RADIUS Protocol''))"
    using title_not_avp by (intro whole_lines_ln) (simp_all add: clean_text)
  show ?thesis
  proof (cases "header_parse bs")
    case (Ok p)
    obtain h attrs where p: "p = (h, attrs)" by (cases p)
    obtain ls where ls: "write_attributes plain ds (concat_indent 2) (items attrs) = concat (map ln ls)"
      "avp_lines ds (concat_indent 2) (items attrs) ls" using attributes_block [OF ds ci] by blast
    have "whole_lines (\<lambda>l. \<not> avp_line (concat_indent 2) l) (ln (INDENT @ lit ''Attribute Value Pairs''))"
      using header_line_not_avp [of 65 "lit ''ttribute Value Pairs''"] by (intro whole_lines_ln) (simp_all add: clean_text, simp add: lit_def)
    with t header_lines have "whole_lines (\<lambda>l. \<not> avp_line (concat_indent 2) l)
        (ln (lit ''RADIUS Protocol'') @ write_header_lines INDENT h @ ln (INDENT @ lit ''Attribute Value Pairs''))"
      by (intro whole_lines_append)
    from lines_of_pieces [OF this, of ls] ls show ?thesis
      by (simp add: packet_dissect_bytes_def dissect_parsed_def Ok p avp_lines_def)
  next
    case (Err e)
    let ?m = "INDENT @ lit ''<malformed header: '' @ header_error_display e @ lit ''>''"
    have "whole_lines (\<lambda>l. \<not> avp_line (concat_indent 2) l) (ln ?m)"
      using header_line_not_avp [of 60] by (intro whole_lines_ln) (simp_all add: clean_text, simp add: lit_def)
    moreover have "whole_lines (\<lambda>l. \<not> avp_line (concat_indent 2) l) (write_raw_hex INDENT bs)"
      using header_line_not_avp [of 48] unfolding write_raw_hex_def
      by (auto simp: clean_text intro!: whole_lines_ln) (simp add: write_hex_inline_def Let_def lit_def)
    ultimately have "whole_lines (\<lambda>l. \<not> avp_line (concat_indent 2) l)
        (ln (lit ''RADIUS Protocol'') @ ln ?m @ write_raw_hex INDENT bs)"
      using t by (intro whole_lines_append)
    from lines_of_pieces [OF this, of "[]"] show ?thesis by (simp add: packet_dissect_bytes_def Err)
  qed
qed

text \<open>A User-Name with a line break that imitates another attribute.\<close>

definition demo_attack :: bytes where
  "demo_attack = [1, 7, 0, 31, 0, 0, 0, 0, 0, 0, 0, 0, 0, 0, 0, 0, 0, 0, 0, 0, 1, 11, 65, 10, 65, 86, 80, 58, 32, 116, 61]"

lemma demo_attack_items:
  "\<exists>h attrs. header_parse demo_attack = Ok (h, attrs) \<and> items attrs = [Ok \<lparr>tlv = [1, 11, 65, 10, 65, 86, 80, 58, 32, 116, 61]\<rparr>]"
proof -
  have "items [1, 11, 65, 10, 65, 86, 80, 58, 32, 116, 61] = [Ok \<lparr>tlv = [1, 11, 65, 10, 65, 86, 80, 58, 32, 116, 61]\<rparr>]"
    by (subst items_eq) simp
  moreover have "\<exists>h. header_parse demo_attack = Ok (h, [1, 11, 65, 10, 65, 86, 80, 58, 32, 116, 61])"
    by (simp add: demo_attack_def header_parse_def Let_def u16_from_be_def from_be_def)
  ultimately show ?thesis by auto
qed

theorem dissect_not_forged_witness:
  "wf_dict demo_dict \<and> (\<exists>l. filter (avp_line (concat_indent 2)) (str_lines (packet_dissect_bytes (\<lambda>_. True) [demo_dict] demo_attack)) = [l]
    \<and> prefix (avp_head [demo_dict] (concat_indent 2) \<lparr>tlv = [1, 11, 65, 10, 65, 86, 80, 58, 32, 116, 61]\<rparr>) l)"
proof -
  obtain h attrs where i: "header_parse demo_attack = Ok (h, attrs)"
    "items attrs = [Ok \<lparr>tlv = [1, 11, 65, 10, 65, 86, 80, 58, 32, 116, 61]\<rparr>]" using demo_attack_items by blast
  have "list_all2 (\<lambda>raw l. prefix (avp_head [demo_dict] (concat_indent 2) raw) l) [\<lparr>tlv = [1, 11, 65, 10, 65, 86, 80, 58, 32, 116, 61]\<rparr>]
      (filter (avp_line (concat_indent 2)) (str_lines (packet_dissect_bytes (\<lambda>_. True) [demo_dict] demo_attack)))"
    using dissect_not_forged [of "[demo_dict]" demo_attack "\<lambda>_. True"] demo_dict_wf i by simp
  then show ?thesis using demo_dict_wf by (auto simp: list_all2_Cons1)
qed

end
