(* ===== verification/Dict_Build.thy ===== *)
theory Dict_Build
  imports Dict_Codegen "HOL-Library.List_Lexorder" "HOL-Library.Multiset"
begin

text \<open>
  The build script of the dictionary crate, \<open>crates/radius-tokio-dict/build.rs\<close>: discovery of the vendor
  dictionaries, the comparison of the two manifests with them, and the generated files. The environment of
  the script is a record: the directories Cargo passes, whether a variable is set, the source tree as a
  function from paths to texts or errors, directory listings, and whether a write into the output directory
  fails (a failed write is taken to leave the file as it was). The output directory is the state, a map from file names to texts, with the list of the files that
  were written and of the paths Cargo was told to watch. Cargo's output directory is apart from the source
  tree, so what is written there is not read back as a source.
\<close>

section \<open>Environment and state\<close>

text \<open>
  The name of a directory entry has a type of its own, since it need not be Unicode; an entry that could not
  be read is \<open>None\<close>.
\<close>

record ('os, 'io) build_env =
  manifest_dir_var :: "path option"
  out_dir_var :: "path option"
  env_set :: "ustring \<Rightarrow> bool"
  read_source :: "path \<Rightarrow> ('io, ustring) result"
  read_dir :: "path \<Rightarrow> ('io, 'os option list) result"
  into_string :: "'os \<Rightarrow> ustring option"
  write_error :: "ustring \<Rightarrow> 'io option"
  debug_plain :: "nat \<Rightarrow> bool"

datatype 'os watched = WatchBuildScript | WatchPath path | WatchEntry path 'os

record 'os build_state =
  out_files :: "ustring \<rightharpoonup> ustring"
  out_writes :: "ustring list"
  watched :: "'os watched list"

datatype 'io build_panic =
    ManifestDirUnset
  | OutDirUnset
  | VendorDirUnreadable path 'io
  | BadVendorName ustring
  | ManifestUnreadable path 'io
  | FeaturesMissing ustring
  | DictionaryFailed path "'io dict_error"
  | WriteFailed 'io

record dict_group =
  group_feature :: ustring
  group_module :: ustring
  group_entry :: path
  group_doc :: ustring

definition RFC :: ustring where
  "RFC = lit ''dict-rfc''"

definition watch :: "'os watched \<Rightarrow> 'os build_state \<Rightarrow> 'os build_state" where
  "watch w s = s\<lparr>watched := watched s @ [w]\<rparr>"

section \<open>Discovery\<close>

definition is_valid_module_name :: "ustring \<Rightarrow> bool" where
  "is_valid_module_name s =
     (case s of
        [] \<Rightarrow> False
      | first # chars \<Rightarrow> ascii_lowercase first \<and> list_all (\<lambda>c. ascii_lowercase c \<or> ascii_digit c \<or> c = 95) chars)"

definition rfc_group :: "path \<Rightarrow> dict_group" where
  "rfc_group manifest_dir =
     \<lparr>group_feature = RFC, group_module = lit ''rfc'',
      group_entry = path_join manifest_dir (path_new (lit ''dictionaries/rfc/dictionary'')),
      group_doc = lit ''IETF / RFC attributes vendored under `dictionaries/rfc/`.''\<rparr>"

definition vendor_suffix :: "('os, 'io) build_env \<Rightarrow> 'os option \<Rightarrow> ustring option" where
  "vendor_suffix E ent =
     Option.bind ent (\<lambda>file_name.
     Option.bind (into_string E file_name) (\<lambda>name.
     Option.bind (str_strip_prefix (lit ''dictionary.'') name) (\<lambda>suffix.
     if suffix \<noteq> [] then Some suffix else None)))"

definition vendor_names :: "('os, 'io) build_env \<Rightarrow> 'os option list \<Rightarrow> ustring list" where
  "vendor_names E ents = sort (List.map_filter (vendor_suffix E) ents)"

definition vendor_group :: "path \<Rightarrow> ustring \<Rightarrow> dict_group" where
  "vendor_group vendor_dir name =
     \<lparr>group_feature = lit ''dict-'' @ name, group_module = name,
      group_entry = path_join vendor_dir (path_new (lit ''dictionary.'' @ name)),
      group_doc = lit ''Vendor `'' @ name @ lit ''` (auto-discovered from `dictionaries/vendor/dictionary.'' @ name @ lit ''`).''\<rparr>"

fun push_vendors :: "path \<Rightarrow> ustring list \<Rightarrow> dict_group list \<Rightarrow> ('io build_panic, dict_group list) result" where
  "push_vendors vendor_dir [] groups = Ok groups"
| "push_vendors vendor_dir (name # names) groups =
     (if \<not> is_valid_module_name name then Err (BadVendorName name)
      else push_vendors vendor_dir names (groups @ [vendor_group vendor_dir name]))"

section \<open>Manifests\<close>

text \<open>The keys of the table \<open>[features]\<close>: one step of the scan over the lines, and the scan.\<close>

definition trim_quotes :: "ustring \<Rightarrow> ustring" where
  "trim_quotes s = rev (dropWhile (\<lambda>c. c = 34) (rev (dropWhile (\<lambda>c. c = 34) s)))"

definition split_eq :: "ustring \<Rightarrow> ustring option" where
  "split_eq s = (if 61 \<in> set s then Some (takeWhile (\<lambda>c. c \<noteq> 61) s) else None)"

definition feature_line :: "ustring \<Rightarrow> ustring list \<times> bool \<Rightarrow> ustring list \<times> bool" where
  "feature_line raw_line = (\<lambda>(keys, in_features).
     let line = str_trim raw_line
     in if line = [] \<or> hd line = 35 then (keys, in_features)
        else case str_strip_prefix (lit ''['') line of
          Some rest \<Rightarrow> (keys, str_strip_prefix (lit ''features]'') (dropWhile (\<lambda>c. c = 91) rest) \<noteq> None)
        | None \<Rightarrow>
            if \<not> in_features then (keys, in_features)
            else case split_eq line of
              None \<Rightarrow> (keys, in_features)
            | Some key \<Rightarrow>
                let key = trim_quotes (str_trim key)
                in (if key \<noteq> [] then keys @ [key] else keys, in_features))"

definition extract_features_section :: "ustring \<Rightarrow> ustring list" where
  "extract_features_section manifest = fst (fold feature_line (str_lines manifest) ([], False))"

definition missing_line :: "ustring list \<Rightarrow> ustring list \<Rightarrow> ustring \<Rightarrow> ustring option" where
  "missing_line pkg_features root_features v =
     (let feat = lit ''dict-'' @ v; in_pkg = feat \<in> set pkg_features; in_root = feat \<in> set root_features
      in if in_pkg \<and> in_root then None
         else Some (lit ''  '' @ [8226] @ lit '' '' @ feat
                    @ (if \<not> in_pkg then lit ''  [missing in crates/radius-tokio-dict/Cargo.toml]'' else [])
                    @ (if \<not> in_root then lit ''  [missing in workspace-root Cargo.toml]'' else [])))"

definition missing_message :: "ustring list \<Rightarrow> ustring" where
  "missing_message missing =
     [10] @ ln (lit ''vendor dictionaries on disk without matching `dict-*` Cargo features:'')
     @ concat (map ln missing)
     @ [10] @ ln (lit ''Add the feature(s), mirroring an existing vendor. Both manifests must'')
     @ ln (lit ''declare each `dict-<vendor>` feature; the root one forwards it to'')
     @ ln (lit ''`radius-tokio-dict/dict-<vendor>` and appends it to the `dict-vendor-all`'')
     @ ln (lit ''umbrella.'')"

definition pkg_manifest_path :: "path \<Rightarrow> path" where
  "pkg_manifest_path manifest_dir = path_join manifest_dir (path_new (lit ''Cargo.toml''))"

definition root_manifest_path :: "path \<Rightarrow> path" where
  "root_manifest_path manifest_dir =
     path_join (path_join (path_join manifest_dir (path_new (lit ''..''))) (path_new (lit ''..''))) (path_new (lit ''Cargo.toml''))"

definition validate_feature_coverage ::
    "('os, 'io) build_env \<Rightarrow> path \<Rightarrow> ustring list \<Rightarrow> 'os build_state \<Rightarrow> 'os build_state \<times> ('io build_panic, unit) result" where
  "validate_feature_coverage E manifest_dir vendors s =
     (let s = watch (WatchPath (root_manifest_path manifest_dir)) (watch (WatchPath (pkg_manifest_path manifest_dir)) s)
      in (s,
          case read_source E (pkg_manifest_path manifest_dir) of
            Err e \<Rightarrow> Err (ManifestUnreadable (pkg_manifest_path manifest_dir) e)
          | Ok pkg_manifest \<Rightarrow>
              (case read_source E (root_manifest_path manifest_dir) of
                 Err _ \<Rightarrow> Ok ()
               | Ok root_manifest \<Rightarrow>
                   let missing = List.map_filter (missing_line (extract_features_section pkg_manifest)
                                                                (extract_features_section root_manifest)) vendors
                   in if missing \<noteq> [] then Err (FeaturesMissing (missing_message missing)) else Ok ())))"

section \<open>Generated files\<close>

text \<open>The features are ASCII, on which \<open>to_uppercase\<close> is \<open>upcase\<close>.\<close>

definition cargo_feature_enabled :: "('os, 'io) build_env \<Rightarrow> ustring \<Rightarrow> bool" where
  "cargo_feature_enabled E feature \<longleftrightarrow>
     env_set E (lit ''CARGO_FEATURE_'' @ map upcase (map (\<lambda>c. if c = 45 then 95 else c) feature))"

definition rerun_for_dictionary_dir :: "('os, 'io) build_env \<Rightarrow> path \<Rightarrow> 'os build_state \<Rightarrow> 'os build_state" where
  "rerun_for_dictionary_dir E entry s =
     (let s = watch (WatchPath entry) s
      in case path_parent entry of
           None \<Rightarrow> s
         | Some dir \<Rightarrow>
             (case read_dir E dir of
                Err _ \<Rightarrow> s
              | Ok rd \<Rightarrow> fold (\<lambda>ent. watch (WatchEntry dir ent)) (List.map_filter id rd) s))"

definition write_if_changed ::
    "('os, 'io) build_env \<Rightarrow> ustring \<Rightarrow> ustring \<Rightarrow> 'os build_state \<Rightarrow> 'os build_state \<times> ('io build_panic, unit) result" where
  "write_if_changed E name content s =
     (if out_files s name = Some content then (s, Ok ())
      else case write_error E name of
        Some e \<Rightarrow> (s, Err (WriteFailed e))
      | None \<Rightarrow> (s\<lparr>out_files := (out_files s)(name \<mapsto> content), out_writes := out_writes s @ [name]\<rparr>, Ok ()))"

definition dict_file :: "ustring \<Rightarrow> ustring" where
  "dict_file m = lit ''dict_'' @ m @ lit ''.rs''"

fun render_groups ::
    "('os, 'io) build_env \<Rightarrow> dict_group list \<Rightarrow> 'os build_state \<Rightarrow> 'os build_state \<times> ('io build_panic, unit) result" where
  "render_groups E [] s = (s, Ok ())"
| "render_groups E (g # gs) s =
     (if \<not> cargo_feature_enabled E (group_feature g) then render_groups E gs s
      else
        let s = rerun_for_dictionary_dir E (group_entry g) s
        in case dict_parse (fs_load (read_source E)) (group_entry g) of
             Err e \<Rightarrow> (s, Err (DictionaryFailed (group_entry g) e))
           | Ok parsed \<Rightarrow>
               (case write_if_changed E (dict_file (group_module g)) (render (debug_plain E) (group_module g) parsed) s of
                  (s, Err e) \<Rightarrow> (s, Err e)
                | (s, Ok _) \<Rightarrow> render_groups E gs s))"

definition vendor_block :: "dict_group \<Rightarrow> ustring" where
  \<open>vendor_block g =
     ln (lit ''#[cfg(feature = "'' @ group_feature g @ lit ''")]'') @
     ln (lit ''#[allow(missing_docs)]'') @
     ln (lit ''pub mod '' @ group_module g @ lit '' {'') @
     ln (lit ''    //! '' @ group_doc g) @
     ln (lit ''    use super::{AttrInfo, AttrKind, VendorInfo};'') @
     ln (lit ''    include!(concat!(env!("OUT_DIR"), "/dict_'' @ group_module g @ lit ''.rs"));'') @
     ln (lit ''}'') @ [10]\<close>

definition vendor_mods :: "dict_group list \<Rightarrow> ustring" where
  \<open>vendor_mods groups =
     ln (lit ''// Auto-generated by `build.rs` from `dictionaries/vendor/dictionary.*`.'') @
     ln (lit ''// Do not edit by hand '' @ [8212] @ lit '' the file is overwritten on every build.'') @
     ln (lit ''//'') @
     ln (lit ''// Each block is cfg-gated by its `dict-<vendor>` feature, so a'') @
     ln (lit ''// disabled vendor compiles away to nothing.'') @ [10] @
     concat (map vendor_block (filter (\<lambda>g. group_feature g \<noteq> RFC) groups))\<close>

definition vendor_mods_file :: ustring where
  "vendor_mods_file = lit ''vendor_mods.rs''"

definition vendor_dir_of :: "path \<Rightarrow> path" where
  "vendor_dir_of manifest_dir = path_join (path_join manifest_dir (path_new (lit ''dictionaries''))) (path_new (lit ''vendor''))"

definition dict_build :: "('os, 'io) build_env \<Rightarrow> 'os build_state \<Rightarrow> 'os build_state \<times> ('io build_panic, unit) result" where
  "dict_build E s =
     (let s = watch WatchBuildScript s
      in case manifest_dir_var E of
        None \<Rightarrow> (s, Err ManifestDirUnset)
      | Some manifest_dir \<Rightarrow>
        (case out_dir_var E of
          None \<Rightarrow> (s, Err OutDirUnset)
        | Some out_dir \<Rightarrow>
          (let s = watch (WatchPath (vendor_dir_of manifest_dir)) s
           in case read_dir E (vendor_dir_of manifest_dir) of
             Err e \<Rightarrow> (s, Err (VendorDirUnreadable (vendor_dir_of manifest_dir) e))
           | Ok ents \<Rightarrow>
             (case push_vendors (vendor_dir_of manifest_dir) (vendor_names E ents) [rfc_group manifest_dir] of
               Err e \<Rightarrow> (s, Err e)
             | Ok groups \<Rightarrow>
               (case validate_feature_coverage E manifest_dir (vendor_names E ents) s of
                 (s, Err e) \<Rightarrow> (s, Err e)
               | (s, Ok _) \<Rightarrow>
                 (case render_groups E groups s of
                   (s, Err e) \<Rightarrow> (s, Err e)
                 | (s, Ok _) \<Rightarrow> write_if_changed E vendor_mods_file (vendor_mods groups) s))))))"

section \<open>The steps of the script\<close>

lemma watch_keeps [simp]: "out_files (watch w s) = out_files s" "out_writes (watch w s) = out_writes s"
  by (simp_all add: watch_def)

lemma watch_all_keeps [simp]:
  "out_files (fold (\<lambda>ent. watch (WatchEntry dir ent)) es s) = out_files s"
  "out_writes (fold (\<lambda>ent. watch (WatchEntry dir ent)) es s) = out_writes s"
  by (induction es arbitrary: s) simp_all

lemma rerun_keeps [simp]:
  "out_files (rerun_for_dictionary_dir E entry s) = out_files s"
  "out_writes (rerun_for_dictionary_dir E entry s) = out_writes s"
  by (simp_all add: rerun_for_dictionary_dir_def Let_def split: option.split result.split)

lemma push_vendors_Ok:
  "push_vendors dir vs groups = Ok r \<longleftrightarrow> list_all is_valid_module_name vs \<and> r = groups @ map (vendor_group dir) vs"
  by (induction vs arbitrary: groups) auto

lemma write_if_changed_Ok:
  "write_if_changed E name content s = (s', Ok u) \<Longrightarrow> out_files s' = (out_files s)(name \<mapsto> content)"
  by (auto simp: write_if_changed_def split: if_splits option.splits)


lemma dict_file_inject [simp]: "dict_file m = dict_file n \<longleftrightarrow> m = n"
  by (simp add: dict_file_def)

lemma vendor_mods_file_apart [simp]: "dict_file m \<noteq> vendor_mods_file"
  by (simp add: dict_file_def vendor_mods_file_def lit_def)

text \<open>An enabled group is done when its file in the output directory is the rendering of its dictionary.\<close>

definition group_done :: "('os, 'io) build_env \<Rightarrow> 'os build_state \<Rightarrow> dict_group \<Rightarrow> bool" where
  "group_done E s g \<longleftrightarrow>
     (cargo_feature_enabled E (group_feature g) \<longrightarrow>
      (case dict_parse (fs_load (read_source E)) (group_entry g) of
         Err _ \<Rightarrow> False
       | Ok parsed \<Rightarrow>
           out_files s (dict_file (group_module g)) = Some (render (debug_plain E) (group_module g) parsed)))"

lemma group_done_cong: "(\<And>m. out_files t (dict_file m) = out_files s (dict_file m)) \<Longrightarrow> group_done E t g = group_done E s g"
  by (simp add: group_done_def split: result.split)

lemma render_groups_other:
  assumes "render_groups E gs s = (s', r)" and "list_all (\<lambda>g. cargo_feature_enabled E (group_feature g) \<longrightarrow> f \<noteq> dict_file (group_module g)) gs"
  shows "out_files s' f = out_files s f"
  using assms
  by (induction E gs s rule: render_groups.induct)
    (auto simp: Let_def write_if_changed_def split: if_splits result.splits option.splits)

lemma render_groups_append:
  "render_groups E (gs @ hs) s =
     (case render_groups E gs s of (s, Err e) \<Rightarrow> (s, Err e) | (s, Ok _) \<Rightarrow> render_groups E hs s)"
  by (induction E gs s rule: render_groups.induct) (auto simp: Let_def split: result.split prod.split)

text \<open>The file of a group is written last by the last group of its module.\<close>

lemma render_groups_last:
  assumes "render_groups E (gs @ g # hs) s = (s', Ok u)" and "group_module g \<notin> group_module ` set hs"
  shows "group_done E s' g"
proof -
  obtain s1 u1 where "render_groups E gs s = (s1, Ok u1)" and 1: "render_groups E (g # hs) s1 = (s', Ok u)"
    using assms(1) by (auto simp: render_groups_append split: prod.splits result.splits)
  show ?thesis
  proof (cases "cargo_feature_enabled E (group_feature g)")
    case True
    let ?s = "rerun_for_dictionary_dir E (group_entry g) s1"
    obtain d s2 u2 where d: "dict_parse (fs_load (read_source E)) (group_entry g) = Ok d"
      and w: "write_if_changed E (dict_file (group_module g)) (render (debug_plain E) (group_module g) d) ?s = (s2, Ok u2)"
      and 2: "render_groups E hs s2 = (s', Ok u)"
      using 1 True by (auto simp: Let_def split: result.splits prod.splits)
    have "out_files s' (dict_file (group_module g)) = out_files s2 (dict_file (group_module g))"
      using assms(2) by (intro render_groups_other [OF 2]) (auto simp: list_all_iff)
    then show ?thesis using d write_if_changed_Ok [OF w] by (simp add: group_done_def)
  qed (simp add: group_done_def)
qed



section \<open>What a build leaves behind\<close>

definition build_groups :: "path \<Rightarrow> ustring list \<Rightarrow> dict_group list" where
  "build_groups m vs = rfc_group m # map (vendor_group (vendor_dir_of m)) vs"

text \<open>The files a build may write: the module file, and those of the enabled groups.\<close>

definition generated :: "('os, 'io) build_env \<Rightarrow> dict_group list \<Rightarrow> ustring list" where
  "generated E groups =
     vendor_mods_file # map (dict_file \<circ> group_module) (filter (\<lambda>g. cargo_feature_enabled E (group_feature g)) groups)"

definition in_sync :: "('os, 'io) build_env \<Rightarrow> path \<Rightarrow> ustring list \<Rightarrow> bool" where
  "in_sync E m vs =
     (case read_source E (root_manifest_path m) of
        Err _ \<Rightarrow> True
      | Ok root \<Rightarrow>
          (case read_source E (pkg_manifest_path m) of
             Err _ \<Rightarrow> False
           | Ok pkg \<Rightarrow>
               list_all (\<lambda>v. lit ''dict-'' @ v \<in> set (extract_features_section pkg)
                           \<and> lit ''dict-'' @ v \<in> set (extract_features_section root)) vs))"

lemma missing_none: "List.map_filter f xs = [] \<longleftrightarrow> list_all (\<lambda>x. f x = None) xs"
  by (induction xs) (auto simp: map_filter_simps split: option.split)

lemma validate_keeps:
  "out_files (fst (validate_feature_coverage E m vs s)) = out_files s"
  "out_writes (fst (validate_feature_coverage E m vs s)) = out_writes s"
  by (simp_all add: validate_feature_coverage_def Let_def)

lemma validate_Ok:
  "snd (validate_feature_coverage E m vs s) = Ok u \<longleftrightarrow>
     is_ok (read_source E (pkg_manifest_path m)) \<and> in_sync E m vs"
  by (auto simp: validate_feature_coverage_def in_sync_def Let_def missing_none missing_line_def list_all_iff
      split: result.splits)

text \<open>The script, once the directories are known, the vendors are listed and their names are good.\<close>

lemma dict_build_run:
  fixes E :: "('os, 'io) build_env"
  assumes "manifest_dir_var E = Some m" and "out_dir_var E = Some out"
    and "read_dir E (vendor_dir_of m) = Ok ents" and "list_all is_valid_module_name (vendor_names E ents)"
  shows "dict_build E s =
    (case validate_feature_coverage E m (vendor_names E ents)
            (watch (WatchPath (vendor_dir_of m)) (watch WatchBuildScript s)) of
       (s, Err e) \<Rightarrow> (s, Err e)
     | (s, Ok _) \<Rightarrow>
         (case render_groups E (build_groups m (vendor_names E ents)) s of
            (s, Err e) \<Rightarrow> (s, Err e)
          | (s, Ok _) \<Rightarrow> write_if_changed E vendor_mods_file (vendor_mods (build_groups m (vendor_names E ents))) s))"
proof -
  have "push_vendors (vendor_dir_of m) (vendor_names E ents) [rfc_group m] =
          (Ok (build_groups m (vendor_names E ents)) :: ('io build_panic, dict_group list) result)"
    using assms(4) by (simp add: push_vendors_Ok build_groups_def)
  then show ?thesis using assms by (simp add: dict_build_def Let_def)
qed

lemma dict_build_reaches:
  assumes "dict_build E s = (s', Ok u)" and "manifest_dir_var E = Some m"
    and "read_dir E (vendor_dir_of m) = Ok ents"
  shows "list_all is_valid_module_name (vendor_names E ents)" and "\<exists>out. out_dir_var E = Some out"
  using assms by (auto simp: dict_build_def Let_def push_vendors_Ok split: option.splits result.splits)

lemma dict_build_Ok:
  assumes "dict_build E s = (s', Ok u)" and "manifest_dir_var E = Some m"
    and "read_dir E (vendor_dir_of m) = Ok ents"
  obtains s1 s2 u1 where "out_files s1 = out_files s"
    and "is_ok (read_source E (pkg_manifest_path m))" and "in_sync E m (vendor_names E ents)"
    and "render_groups E (build_groups m (vendor_names E ents)) s1 = (s2, Ok u1)"
    and "write_if_changed E vendor_mods_file (vendor_mods (build_groups m (vendor_names E ents))) s2 = (s', Ok u)"
proof -
  let ?vs = "vendor_names E ents"
  let ?s = "watch (WatchPath (vendor_dir_of m)) (watch WatchBuildScript s)"
  obtain out where out: "out_dir_var E = Some out" using dict_build_reaches(2) [OF assms] by blast
  obtain s1 u0 s2 u1 where v: "validate_feature_coverage E m ?vs ?s = (s1, Ok u0)"
    and r: "render_groups E (build_groups m ?vs) s1 = (s2, Ok u1)"
    and w: "write_if_changed E vendor_mods_file (vendor_mods (build_groups m ?vs)) s2 = (s', Ok u)"
    using assms(1) dict_build_run [OF assms(2) out assms(3) dict_build_reaches(1) [OF assms], of s]
    by (simp split: prod.splits result.splits)
  have "out_files s1 = out_files s" using validate_keeps(1) [of E m ?vs ?s] by (simp add: v)
  moreover have "is_ok (read_source E (pkg_manifest_path m)) \<and> in_sync E m ?vs"
    using validate_Ok [of E m ?vs ?s u0] by (simp add: v)
  ultimately show thesis using that r w by blast
qed





text \<open>
  A vendor dictionary called \<open>rfc\<close> has the module and the feature of the RFC group: what it defines replaces
  the RFC dictionary, and it gets no module of its own.
\<close>

lemma rfc_vendor_shadows:
  assumes "dict_build E s = (s', Ok u)" and "manifest_dir_var E = Some m"
    and "read_dir E (vendor_dir_of m) = Ok ents" and "distinct (vendor_names E ents)"
    and "lit ''rfc'' \<in> set (vendor_names E ents)"
  shows "group_done E s' (vendor_group (vendor_dir_of m) (lit ''rfc''))"
    and "group_feature (vendor_group (vendor_dir_of m) (lit ''rfc'')) = RFC"
proof -
  let ?g = "vendor_group (vendor_dir_of m) (lit ''rfc'')"
  obtain as bs where vs: "vendor_names E ents = as @ lit ''rfc'' # bs"
    using assms(5) by (auto simp: in_set_conv_decomp)
  obtain s1 s2 u1 where r: "render_groups E (build_groups m (vendor_names E ents)) s1 = (s2, Ok u1)"
    and w: "write_if_changed E vendor_mods_file (vendor_mods (build_groups m (vendor_names E ents))) s2 = (s', Ok u)"
    using assms(1-3) by (rule dict_build_Ok)
  have "build_groups m (vendor_names E ents) =
      (rfc_group m # map (vendor_group (vendor_dir_of m)) as) @ ?g # map (vendor_group (vendor_dir_of m)) bs"
    by (simp add: build_groups_def vs)
  moreover have "group_module ?g \<notin> group_module ` set (map (vendor_group (vendor_dir_of m)) bs)"
    using assms(4) by (auto simp: vs vendor_group_def)
  ultimately have "group_done E s2 ?g" using r by (metis render_groups_last)
  then show "group_done E s' ?g"
    using group_done_cong [of s' s2 E ?g] by (simp add: write_if_changed_Ok [OF w])
  show "group_feature ?g = RFC" by (simp add: vendor_group_def RFC_def lit_def)
qed



















end
