(* ===== verification/Spec2Isabelle.thy ===== *)
theory Spec2Isabelle
  imports Tls_Context Radsec_Client Runtime Dispatch Client_Cache Eap_Negotiation Eap_Md5 Peap Dissect Dict_Build
begin

text \<open>
  This library verifies the core of \<^verbatim>\<open>radius-tokio\<close>, a RADIUS server and client for tokio written in
  Rust: the packet codec, the attribute encryptions, the client's exchange registry, the server's
  validation, dispatch and caches, the authentication methods, and its EAP crate. Paths below are
  relative to \<^verbatim>\<open>src/\<close>.

  \<^bold>\<open>How the parts interact.\<close> A client builds a \<open>Request\<close>, registers it with the \<open>Registry\<close>, which picks
  a free identifier, seals it and sends it. The server resolves the client (static table or cached
  store), parses and authenticates the datagram (\<open>validate\<close>), replays a cached reply or reserves the
  request, runs the application's handler, seals its \<open>Reply\<close> and stores it in the reply cache
  (\<open>dispatch_validated\<close>). The client's registry matches the response to the pending request, verifies it
  and wakes the caller. EAP conversations ride on this: an EAP packet is split over EAP-Message
  attributes, TLS messages are split over EAP packets, and the method state lives in a session store
  between rounds.

  \<^bold>\<open>Theories and what they model.\<close>
  \<^item> \<open>Prelude\<close>: machine integers as words, \<open>result\<close>, big-endian conversions, slices, \<open>chunks\<close>, UTF-8
    validation, and the lemmas about them.
  \<^item> \<open>Crypto\<close> (\<^verbatim>\<open>src/crypto/{mod,md5,hmac_md5}.rs\<close>): the external digests are the fields of a record that
    every definition using them takes as an argument; \<open>wf_crypto\<close> states their output sizes and that the
    constant-time comparison decides equality. \<open>toy_crypto\<close> shows that these can hold.
  \<^item> \<open>Header\<close> (\<^verbatim>\<open>src/codec/header.rs\<close>), \<open>Wire_Types\<close> (\<^verbatim>\<open>crates/radius-tokio-dict/src/typed.rs\<close>), \<open>Attributes\<close>
    (\<^verbatim>\<open>src/codec/attributes.rs\<close>), \<open>Packet_Buffer\<close> (\<^verbatim>\<open>src/codec/mod.rs\<close>), \<open>Message_Authenticator\<close>
    (\<^verbatim>\<open>src/codec/{authenticator,message_authenticator}.rs\<close>), \<open>Eap_Codec\<close> (\<^verbatim>\<open>src/codec/eap.rs\<close>), \<open>Reply\<close>
    (\<^verbatim>\<open>src/codec/encode.rs\<close>), \<open>Client_Request\<close> (\<^verbatim>\<open>src/codec/{request,response}.rs\<close>): the codec. Buffers are byte
    lists; a Rust \<open>Result\<close> is \<open>result\<close>; an \<open>expect\<close> or assertion that can fail is the value \<open>None\<close> of an
    outer option; closures that write into a buffer are functions on byte lists, assumed to append.
    The locale \<open>wire_codec\<close> is the contract of an encoder and its decoder and is interpreted for all
    thirteen wire types; \<open>attr_appender\<close> is the contract of an operation that adds an attribute and is
    interpreted for all six of the packet buffer and for their union.
  \<^item> \<open>Password\<close> (\<^verbatim>\<open>src/crypto/{password,mppe}.rs\<close>): the User-Password, Tunnel-Password and MPPE ciphers.
  \<^item> \<open>Net\<close>, \<open>Expiring\<close>: addresses and their order; tables with an expiration index. The locale
    \<open>expiring_table\<close> states what bounded eviction promises and is interpreted for the reply cache, the
    client cache and the session store.
  \<^item> \<open>Exchange\<close> (\<^verbatim>\<open>src/exchange.rs\<close>): the registry of pending requests. One-shot channels are an explicit
    store of cells, leases are dropped explicitly, and \<open>ex_step\<close> interleaves all calls.
  \<^item> \<open>Udp_Client\<close> (\<^verbatim>\<open>src/transport/udp.rs\<close>, the originator of \<^verbatim>\<open>src/server/coa.rs\<close>): one call of the UDP
    client as a task with await points, its step relation, and the CoA and Disconnect requests over it.
  \<^item> \<open>Dissect\<close> (\<^verbatim>\<open>src/codec/dissect.rs\<close>): the readable dump of a packet, over the registry below.
  \<^item> \<open>Server_Types\<close>, \<open>Handler\<close> (\<^verbatim>\<open>src/server/{role,client,store,accounting,coa,handler,status,router}.rs\<close>).
  \<^item> \<open>Dedup\<close>, \<open>Dispatch\<close> (\<^verbatim>\<open>src/server/dedup.rs\<close>), \<open>Pipeline\<close> (\<^verbatim>\<open>src/server/pipeline.rs\<close>): the sharded reply cache,
    the pipeline, and the gates of \<open>lock_request\<close> as a step relation over tasks that may be cancelled at
    every await point.
  \<^item> \<open>Udp_Server\<close>, \<open>Radsec_Server\<close>, \<open>Runtime\<close> (\<^verbatim>\<open>src/server/{udp,radsec,runtime}.rs\<close>): the listeners. A UDP listener is a
    step relation over its tasks, cut at their await points. The frame loop of a RadSec connection takes the
    operations of its connection as an argument, \<open>tls_ops\<close> are those of the TLS connection; the registry of connections is a step relation with revocations.
    \<open>Runtime\<close> has the builder and the loop that joins the listeners.
  \<^item> \<open>Radsec_Client\<close> (\<^verbatim>\<open>src/client/radsec.rs\<close>): connecting, and the driver task, whose reads may be cancelled.
  \<^item> \<open>Client_Cache\<close> (\<^verbatim>\<open>src/server/cache.rs\<close>): the caching client store, with runs of concurrent lookups.
  \<^item> \<open>Unicode\<close>, \<open>Auth_Methods\<close> (\<^verbatim>\<open>src/auth/*.rs\<close>, \<^verbatim>\<open>src/crypto/des.rs\<close>): PAP, CHAP, EAP-MD5 and MS-CHAP v1/v2.
  \<^item> \<open>Eap_Framing\<close>, \<open>Eap_Session\<close> (\<^verbatim>\<open>crates/radius-tokio-eap/src/{framing,error,session}.rs\<close>): fragments of TLS
    messages, and the session store with its contract \<open>session_provider\<close>.
  \<^item> \<open>Eap_Method\<close>, \<open>Eap_Handler\<close> (\<^verbatim>\<open>crates/radius-tokio-eap/src/{method,identity,handler,router}.rs\<close>): the method
    interface is a record of operations, \<open>method_ops\<close>; the handlers take it as an argument, as the code
    takes a trait object. The locale \<open>stable_method\<close> is the contract that a method does not change its
    type; it is interpreted for every method.
  \<^item> \<open>Eap_Conversation\<close>: the abstract conversation of one method instance, and the proof that the handler
    with its session store refines it. \<open>Eap_Negotiation\<close>: what the router of methods has offered in the rounds
    of a negotiation, and that it ends.
  \<^item> \<open>Eap_Md5\<close>, \<open>Eap_Mschapv2\<close> (\<^verbatim>\<open>crates/radius-tokio-eap/src/{eap_md5,mschapv2}.rs\<close>): the password methods, composed
    with the handler.
  \<^item> \<open>Tls_Names\<close>, \<open>Tls\<close> (\<^verbatim>\<open>src/crypto/tls.rs\<close>): host name matching, certificate identities, and the connection
    wrapper over libssl. The library is a record of the calls the code makes, an argument of every
    definition that uses it; \<open>toy_ssl\<close> is one concrete instance. \<open>Tls_Context\<close> has the building of contexts, where
    a context is the list of calls that configured it.
  \<^item> \<open>Tls_Stream\<close> (\<^verbatim>\<open>src/transport/tls.rs\<close>): TLS over a socket, whose reads and writes are scripts in the
    state, and the reader of RADIUS frames. Waiting for ever is the value \<open>None\<close>. \<open>talked\<close> is the
    plaintext that a run of calls has read and written; \<open>read_cancelled\<close> is what a read leaves that is dropped
    at one of its await points. All that is assumed of libssl there is that \<open>SSL_read\<close> stays within its buffer.
  \<^item> \<open>Tls_Tunnel\<close>, \<open>Eap_Tls\<close>, \<open>Eap_Ttls\<close>, \<open>Peap\<close> (\<^verbatim>\<open>crates/radius-tokio-eap/src/{tls_tunnel,eap_tls,eap_ttls,peap}.rs\<close>): the
    tunnel engine shared by the TLS methods and these methods. \<open>tls_engine\<close> names what the engine
    relies on: the handshake reports completion only with an authenticated peer, and its calls keep that.
    The pump loops are \<open>while_option\<close>, so not returning is the value \<open>None\<close>.
  \<^item> \<open>Dict_Text\<close>, \<open>Dict_Parser\<close>, \<open>Dict_Codegen\<close> (\<^verbatim>\<open>crates/radius-tokio-dict-codegen/src/{model,parser,codegen}.rs\<close>) and
    \<open>Dict_Registry\<close> (\<^verbatim>\<open>crates/radius-tokio-dict/src/{lib,registry}.rs\<close>): the string operations used, the
    dictionary parser over a loader that is an argument, the generator with the text it writes, and
    the registry. Text is a list of code points. The meaning of a generated dispatcher is a lookup in
    the table its arms were written from; compiling the generated text is outside the model.
    \<open>Dict_Build\<close> (\<^verbatim>\<open>crates/radius-tokio-dict/build.rs\<close>) is the build script around them, with the output
    directory as its state.

  \<^bold>\<open>What is shown.\<close> Parsing and printing are inverse for headers, attributes, EAP packets and typed
  values. Every way of building a packet keeps it well formed and either adds exactly one attribute or
  changes nothing. Validation of requests and responses is characterised exactly. What one side seals
  the other accepts, and this theory puts the halves together in \<open>exchange_round_trip\<close>. Encrypted
  attributes decrypt, salts are fresh and the search for one ends. Identifiers of pending requests are
  exclusive and each request is answered at most once. A call of the UDP client sends the same datagram
  a bounded number of times and returns only verified responses. A dissection cannot be forged by the text of an
  attribute. A UDP listener answers only authentic requests of known clients, with authentic replies and
  never more of them than datagrams, and it drains on shutdown. A RadSec connection cuts the plaintext it reads into
  frames and answers them in order up to the first bad one, whatever the TLS library and the socket do; revocation reaches exactly the registered connections of the client, and
  misses one that is about to register, which \<open>revocation_race\<close> shows. A RadSec client connects only to the
  server it names, loses and repeats no byte in spite of cancelled reads, and refuses every dynamic request. TLS contexts have
  exactly the configuration their inputs ask for, where a damaged trust bundle is cut short, which
  \<open>ca_bundle_truncated\<close> shows. Host names are matched by a rule stated over the raw entries of the certificate; a name
  that does not decode counts as absent.
  Under every interleaving the handler runs for a
  request in at most one task, and not while its reply is cached; retransmissions get the same bytes.
  The caches and session stores are bounded, hand out only what was stored and nothing expired; lookups
  are single flight. Fragmentation is lossless and reassembly bounded. Password checks accept exactly
  what the other side computes from the same secret, for MS-CHAPv2 by the formulas of RFC 2759; an EAP conversation is accepted only on the
  method's success, negotiation of the method ends, and neither EAP-MD5 nor EAP-MSCHAPv2 can be
  bypassed. The handler refines an abstract conversation. EAP-TLS accepts only an authenticated peer and
  delivers every fragment of a flight; EAP-TTLS and PEAP do not, which \<open>ttls_flight_repeats\<close> and
  \<open>peap_acks_repeat\<close> show. PEAP and EAP-TTLS accept only what the inner method verified inside the
  finished tunnel. The dictionary parser reads what a printer writes of a dictionary back exactly
  when it is well formed, gives only well-formed dictionaries and stops on include cycles; the registry's sorted tables answer as a scan
  of the dictionaries in source order would. A build that succeeds leaves exactly the renderings of the
  enabled dictionaries, and a second one writes nothing.

  \<^bold>\<open>Time, randomness and fuel.\<close> Instants are natural numbers, arguments of the operations that call
  \<open>Instant::now()\<close>; random bytes are arguments, and the salt search takes a list of draws: more than 2038
  distinct salts always suffice because a packet holds fewer salted attributes. The eviction loops run
  at most 64 rounds, as in the code. All other loops are total functions.

  \<^bold>\<open>What is not modelled.\<close> Socket options and the system calls behind sockets, the PKI helpers
  (\<^verbatim>\<open>src/crypto/pki.rs\<close>), the bindings of AES, SHA-1, HMAC-SHA and PBKDF2, which only call the C library, the
  release of its objects, logging and metrics, memory wiping, the
  \<open>debug_assert\<close> of the TLS 1.3 commitment, and the wrapping of the 64-bit clock. The number of references to a
  lease or a connection is not counted: the last owner drops it explicitly.
\<close>

section \<open>A request and its reply, end to end\<close>

lemma validate_header_parse:
  "validate C packet cl = VOk h attrs \<Longrightarrow> header_parse packet = Ok (h, attrs)"
  by (auto simp: validate_def Let_def split: result.splits prod.splits verification.splits if_splits)

lemma response_header_parse:
  "response_verify C packet rc i auth secret = Some resp \<Longrightarrow>
     \<exists>attrs. header_parse packet = Ok (resp_header resp, attrs) \<and> hdr_identifier (resp_header resp) = i"
  by (auto simp: response_verify_def Let_def split: result.splits prod.splits verification.splits if_splits)

lemma deliver_accepts:
  assumes "response_verify C packet (pend_code p) i (pend_authenticator p) (pend_secret p) = Some resp"
    and "get_pending s peer i = Some p" and "pend_sender p = Some ch"
    and "ch < length (channels s)" and "rx_alive (channels s ! ch)"
  shows "\<exists>s'. deliver C s peer packet = (s', True) \<and> sent (channels s' ! ch) = Some (Ok resp)"
proof -
  obtain attrs where "header_parse packet = Ok (resp_header resp, attrs)" "hdr_identifier (resp_header resp) = i"
    using response_header_parse [OF assms(1)] by blast
  moreover have "channels (set_pending s peer i q) = channels s" for q by (simp add: set_pending_def split: option.splits)
  ultimately show ?thesis using assms by (simp add: deliver_def send_def)
qed

text \<open>A handler that answers every request of a code with a reply built for it.\<close>

definition answers :: "handler \<Rightarrow> code \<Rightarrow> bool" where
  "answers handle c \<longleftrightarrow>
     (\<forall>req. req_code req = c \<longrightarrow>
        (\<exists>r h as. handle req = HReply r \<and> reply_shape r h as \<and> ma_value_offset r \<noteq> None
           \<and> h ! 1 = req_identifier req \<and> matches_reply c (Code (h ! 0))))"

text \<open>
  C1: the two halves of the library fit together. A client registers a request and sends what
  \<open>seal\<close> produced; a server that shares the secret validates it, finds nothing in its reply cache,
  runs the handler on exactly the attributes the client put in, and seals the handler's reply; the
  client's registry then accepts that datagram from the server and wakes the caller of this
  request with a response that has the code, the identifier and, apart from the
  Message-Authenticator, the attributes of the handler's reply.
\<close>

theorem exchange_round_trip:
  assumes "wf_crypto C" and "creq_shape q hq as" and "seal_fits q" and "16 \<le> length rnd"
    and "client_code (Code (hq ! 0))" and "\<forall>i. creq_seal C q i (client_secret cl) rnd = Some (build i)"
    and "register s server (client_secret cl) limit build = Some (s1, Ok reg)"
    and "dedup_ok cache" and "\<forall>h. dedup_map hash cache (dedup_key_of src h) = None"
    and "answers handle (Code (hq ! 0))" and "hq ! 0 \<noteq> 12 \<or> status = None"
  shows "\<exists>hdr tg r hr asr cache' sealed s2 resp as'.
      validate C (inner (reg_packet reg)) cl = VOk hdr (encode_attrs
        ((80, tg) # as @ password_attrs C q (client_secret cl) (seal_auth (Code (hq ! 0)) rnd)))
    \<and> handle (request_new (hdr_code hdr) (hdr_identifier hdr) (hdr_authenticator hdr)
        (encode_attrs ((80, tg) # as @ password_attrs C q (client_secret cl) (seal_auth (Code (hq ! 0)) rnd)))
        cl src dst) = HReply r \<and> reply_shape r hr asr
    \<and> dispatch_validated C hash t1 t2 t3 hdr (encode_attrs
        ((80, tg) # as @ password_attrs C q (client_secret cl) (seal_auth (Code (hq ! 0)) rnd)))
        src dst cl handle cache status = Some (cache', DReply sealed (hdr_code hdr) (hdr_identifier hdr))
    \<and> deliver C s1 server (as_bytes sealed) = (s2, True)
    \<and> sent (channels s2 ! reg_receiver reg) = Some (Ok resp)
    \<and> resp_code resp = Code (hr ! 0) \<and> resp_identifier resp = lease_identifier (reg_lease reg)
    \<and> resp_attributes resp = encode_attrs as' \<and> filter (Not \<circ> is_ma) as' = filter (Not \<circ> is_ma) asr"
proof -
  let ?c = "Code (hq ! 0)" and ?sec = "client_secret cl"
  obtain i and h :: header where reg: "build i = Ok (reg_packet reg)" "pb_header (reg_packet reg) = Some h"
    "reg_lease reg = \<lparr>lease_peer = server, lease_identifier = i\<rparr>" "reg_receiver reg = length (channels s)"
    "channels s1 = channels s @ [\<lparr>rx_alive = True, sent = None\<rparr>]"
    "get_pending s1 server i = Some \<lparr>pend_sender = Some (length (channels s)), pend_code = hdr_code h,
       pend_authenticator = hdr_authenticator h, pend_secret = ?sec\<rparr>"
    using register_Ok [OF assms(7) refl] by (auto simp: get_pending_def)
  obtain pb hdr tg where v: "creq_seal C q i ?sec rnd = Some (Ok pb)"
    "validate C (inner pb @ []) cl = VOk hdr (encode_attrs ((80, tg) # as @ password_attrs C q ?sec (seal_auth ?c rnd)))"
    "hdr_code hdr = ?c" "hdr_identifier hdr = i"
    using sealed_request_validates [OF assms(1-5), of i cl "[]"] by blast
  let ?attrs = "encode_attrs ((80, tg) # as @ password_attrs C q ?sec (seal_auth ?c rnd))"
  have pb: "pb = reg_packet reg" using v(1) assms(6) reg(1) by simp
  then have val: "validate C (inner (reg_packet reg)) cl = VOk hdr ?attrs" using v(2) by simp
  have h: "h = hdr" using validate_header_parse [OF val] reg(2) by (simp add: pb_header_def)
  let ?req = "request_new (hdr_code hdr) (hdr_identifier hdr) (hdr_authenticator hdr) ?attrs cl src dst"
  obtain r hr asr where r: "handle ?req = HReply r" "reply_shape r hr asr" "ma_value_offset r \<noteq> None"
    "hr ! 1 = i" "matches_reply ?c (Code (hr ! 0))"
    using assms(10) v(3,4) unfolding answers_def by (force simp: request_new_def)
  obtain sealed resp as' where a: "seal_for C r (hdr_authenticator hdr) ?sec = Some sealed"
    "response_verify C (inner sealed @ []) ?c (hr ! 1) (hdr_authenticator hdr) ?sec = Some resp"
    "resp_code resp = Code (hr ! 0)" "resp_identifier resp = hr ! 1"
    "resp_attributes resp = encode_attrs as'" "filter (Not \<circ> is_ma) as' = filter (Not \<circ> is_ma) asr"
    using sealed_reply_verifies [OF assms(1) r(2,5), of "hdr_authenticator hdr" ?sec "[]"] r(3) by blast
  have "hdr_code hdr \<noteq> STATUS_SERVER \<or> status = None" using assms(11) v(3) by simp
  from dispatch_validated_handled [where handle = handle and hash = hash and cache = cache and peer = src and h = hdr
      and attrs = ?attrs and cl = cl and local = dst, OF assms(8) _ this r(1) a(1)] assms(9)
  obtain cache' where d: "dispatch_validated C hash t1 t2 t3 hdr ?attrs src dst cl handle cache status =
      Some (cache', DReply sealed (hdr_code hdr) (hdr_identifier hdr))" by blast
  obtain s2 where "deliver C s1 server (inner sealed) = (s2, True)" "sent (channels s2 ! length (channels s)) = Some (Ok resp)"
    using deliver_accepts [of C "inner sealed" _ i resp s1 server "length (channels s)", OF _ reg(6)] a(2) r(4) v(3) reg(5)
    by (auto simp: h)
  then show ?thesis
    using val r(1,2) d a(3-6) r(4) reg(3,4)
    by (intro exI [of _ hdr] exI [of _ tg] exI [of _ r] exI [of _ hr] exI [of _ asr] exI [of _ cache'] exI [of _ sealed]
        exI [of _ s2] exI [of _ resp] exI [of _ as']) simp
qed

theorem exchange_round_trip_witness:
  "\<exists>q reg s1 hdr tg r hr asr cache' sealed s2 resp as'.
      creq_new ACCESS_REQUEST = Some q
    \<and> register registry_default demo_peer [5] 4 (\<lambda>i. the (creq_seal toy_crypto q i [5] (replicate 16 9))) = Some (s1, Ok reg)
    \<and> validate toy_crypto (inner (reg_packet reg)) (client_new 1 [5]) = VOk hdr (encode_attrs
        ((80, tg) # [] @ password_attrs toy_crypto q [5] (seal_auth ACCESS_REQUEST (replicate 16 9))))
    \<and> demo_accept (request_new (hdr_code hdr) (hdr_identifier hdr) (hdr_authenticator hdr)
        (encode_attrs ((80, tg) # [] @ password_attrs toy_crypto q [5] (seal_auth ACCESS_REQUEST (replicate 16 9))))
        (client_new 1 [5]) (SocketV4 1 2) (SocketV4 3 4)) = HReply r \<and> reply_shape r hr asr
    \<and> dispatch_validated toy_crypto (\<lambda>_. 3) 1 2 3 hdr (encode_attrs
        ((80, tg) # [] @ password_attrs toy_crypto q [5] (seal_auth ACCESS_REQUEST (replicate 16 9))))
        (SocketV4 1 2) (SocketV4 3 4) (client_new 1 [5]) demo_accept (dedup_new 30) None
      = Some (cache', DReply sealed (hdr_code hdr) (hdr_identifier hdr))
    \<and> deliver toy_crypto s1 demo_peer (as_bytes sealed) = (s2, True)
    \<and> sent (channels s2 ! reg_receiver reg) = Some (Ok resp)
    \<and> resp_code resp = Code (hr ! 0) \<and> resp_identifier resp = lease_identifier (reg_lease reg)
    \<and> resp_attributes resp = encode_attrs as' \<and> filter (Not \<circ> is_ma) as' = filter (Not \<circ> is_ma) asr"
proof -
  let ?hq = "inner (pb_new ACCESS_REQUEST 0)" and ?cl = "client_new 1 [5]" and ?rnd = "replicate 16 9 :: bytes"
  obtain q where q: "creq_new ACCESS_REQUEST = Some q" "creq_shape q ?hq []" "creq_password q = None"
    using creq_new_shape by blast
  let ?build = "\<lambda>i. the (creq_seal toy_crypto q i [5] ?rnd)"
  have sec: "client_secret ?cl = [5]" by (simp add: client_new_def)
  have c: "Code (?hq ! 0) = ACCESS_REQUEST" "?hq ! 0 = 1" by (simp_all add: pb_new_def with_capacity_def)
  have cc: "client_code (Code (?hq ! 0))" by (simp only: c) (simp add: client_code_def random_auth_code_def)
  have fits: "seal_fits q" using q(3) by (simp add: seal_fits_def)
  have rnd: "16 \<le> length ?rnd" by simp
  have build: "\<exists>pb h. creq_seal toy_crypto q i [5] ?rnd = Some (Ok pb) \<and> pb_header pb = Some h" for i
    using creq_seal_sealed [OF wf_toy_crypto q(2) fits rnd refl refl, of i "[5]"] wf_pb_header by blast
  then have B: "\<forall>i. creq_seal toy_crypto q i (client_secret ?cl) ?rnd = Some (?build i)"
    using sec by (metis option.sel)
  have "[0..<256] = 0 # [1..<256]" by (simp add: upt_conv_Cons)
  then have f: "free_identifier empty_peer = Some 0" by (simp add: free_identifier_def empty_peer_def)
  obtain pb h where b: "?build 0 = Ok pb" "pb_header pb = Some h" using build [of 0] by auto
  obtain s1 reg where R: "register registry_default demo_peer (client_secret ?cl) 4 ?build = Some (s1, Ok reg)"
    using f b by (simp add: register_def registry_default_def Let_def fcard.rep_eq empty_peer_def)
  have A: "answers demo_accept (Code (?hq ! 0))"
    unfolding answers_def c(1)
  proof (intro allI impI)
    fix req :: server_request
    obtain r h where r: "reply_new ACCESS_ACCEPT (req_identifier req) = Some r" "reply_shape r h [(80, replicate 16 0)]"
      "take 2 h = [2, req_identifier req]" "ma_value_offset r = Some 22"
      using reply_new_shape [of ACCESS_ACCEPT "req_identifier req"] by auto
    have "take 2 h ! 0 = 2" "take 2 h ! 1 = req_identifier req" by (simp_all add: r(3))
    then have "h ! 0 = 2" "h ! 1 = req_identifier req" by simp_all
    with r show "\<exists>r h as. demo_accept req = HReply r \<and> reply_shape r h as \<and> ma_value_offset r \<noteq> None
        \<and> h ! 1 = req_identifier req \<and> matches_reply ACCESS_REQUEST (Code (h ! 0))"
      by (intro exI [of _ r] exI [of _ h] exI [of _ "[(80, replicate 16 0)]"])
        (simp add: demo_accept_def request_reply_def matches_reply_def)
  qed
  have M: "\<forall>h. dedup_map (\<lambda>_. 3) (dedup_new 30) (dedup_key_of (SocketV4 1 2) h) = None"
    using shard_for_less by (simp add: dedup_map_def dedup_new_def reply_shard_default_def)
  have S: "?hq ! 0 \<noteq> 12 \<or> (None :: status_server_context option) = None" by simp
  show ?thesis
    using exchange_round_trip [OF wf_toy_crypto q(2) fits rnd cc B R dedup_ok_new M A S, of "SocketV4 3 4" 1 2 3] q(1) R
    unfolding c(1) sec by blast
qed

section \<open>A PAP login, end to end\<close>

text \<open>
  C2: a PAP login works, and only with the right password. When a client puts a password into an
  Access-Request and seals it, the server that shares the secret accepts the datagram and PAP
  verification of the request the handler sees answers \<open>Match\<close> for an expected password exactly when it is
  the client's, up to trailing NUL bytes within the same number of 16 byte blocks; every other
  expected password of at most 128 bytes is a \<open>Mismatch\<close>, never an error.
\<close>

theorem pap_login:
  assumes "wf_crypto C" and "creq_shape q h as" and "seal_fits q" and "16 \<le> length rnd"
    and "h ! 0 = 1" and "creq_password q = Some pw" and "length expected \<le> 128"
  shows "\<exists>pb hdr attrs. creq_seal C q i (client_secret cl) rnd = Some (Ok pb)
    \<and> validate C (inner pb @ trailing) cl = VOk hdr attrs
    \<and> pap_verify C (request_new (hdr_code hdr) (hdr_identifier hdr) (hdr_authenticator hdr) attrs cl src dst) expected
      = Some (Ok (if strip_nuls expected = strip_nuls pw \<and> user_blocks expected = user_blocks pw then Match else Mismatch))"
proof -
  let ?c = "Code (h ! 0)" and ?sec = "client_secret cl" and ?a = "seal_auth (Code (h ! 0)) rnd"
  have c: "client_code ?c" "random_auth_code ?c" using assms(5) by (simp_all add: client_code_def random_auth_code_def)
  have pw: "length pw \<le> 128" using assms(2,6) by (simp add: creq_shape_def)
  obtain ct where ct: "user_password_encrypt C pw ?sec ?a = Some ct" using pw user_password_encrypt_eq by blast
  let ?as = "\<lambda>tg. (80, tg) # as @ [(2, ct)]"
  obtain pb hdr tg where v: "creq_seal C q i ?sec rnd = Some (Ok pb)"
    "validate C (inner pb @ trailing) cl = VOk hdr (encode_attrs (?as tg))"
    "hdr_authenticator hdr = ?a" "good_attrs (?as tg)"
    using sealed_request_validates [OF assms(1-4) c(1), of i cl trailing] c(2) ct assms(6)
    by (auto simp: password_attrs_def)
  let ?r = "request_new (hdr_code hdr) (hdr_identifier hdr) (hdr_authenticator hdr) (encode_attrs (?as tg)) cl src dst"
  have "find (\<lambda>a. fst a = 2) as = None"
    using assms(2) by (auto simp: creq_shape_def find_None_iff filter_empty_conv)
  then have "find (\<lambda>a. fst a = 2) (?as tg) = Some (2, ct)" by (simp add: find_append)
  then have f: "first_raw (encode_attrs (?as tg)) 2 = Ok (Some (raw_of (2, ct)))"
    using first_raw_encode_attrs [OF v(4), of 2] by simp
  have d: "decrypt_user_password C ?r = Ok (Some (strip_nuls pw))"
    using user_password_round_trip [OF assms(1) ct] f v(3) by (simp add: decrypt_user_password_def request_new_def)
  have "pap_verify C ?r expected = Some (Ok (if strip_nuls expected = strip_nuls pw \<and> user_blocks expected = user_blocks pw
      then Match else Mismatch))"
    using pap_verify_decides [OF assms(1), of ?r expected] user_password_encrypt_length(1) [OF assms(1) ct] assms(7) d f
    by (auto simp: request_new_def)
  then show ?thesis using v(1,2) by blast
qed

theorem pap_login_witness:
  "\<exists>q q' pb hdr attrs. creq_new ACCESS_REQUEST = Some q \<and> creq_user_password q [65, 66] = Some (q', Ok ())
    \<and> creq_seal toy_crypto q' 7 (client_secret (client_new 1 [5])) (replicate 16 9) = Some (Ok pb)
    \<and> validate toy_crypto (inner pb @ [0]) (client_new 1 [5]) = VOk hdr attrs
    \<and> pap_verify toy_crypto (request_new (hdr_code hdr) (hdr_identifier hdr) (hdr_authenticator hdr) attrs
        (client_new 1 [5]) (SocketV4 1 2) (SocketV4 3 4)) [65, 66] = Some (Ok Match)"
proof -
  let ?h = "inner (pb_new ACCESS_REQUEST 0)"
  obtain q where q: "creq_new ACCESS_REQUEST = Some q" "creq_shape q ?h []" "creq_password q = None"
    using creq_new_shape by blast
  define q' where "q' = q\<lparr>creq_password := Some [65, 66]\<rparr>"
  have h: "?h ! 0 = 1" by (simp add: pb_new_def with_capacity_def)
  have lo: "laid_out (creq_buf q) ?h [(80, replicate 16 0)]" "wf_pb (creq_buf q)" using q(2) by (auto simp: creq_shape_def)
  have "creq_code q = Some ACCESS_REQUEST" using creq_code_eq [OF lo, of q] h by simp
  then have u: "creq_user_password q [65, 66] = Some (q', Ok ())" by (simp add: creq_user_password_def q'_def)
  have s: "creq_shape q' ?h []" "creq_password q' = Some [65, 66]" using q(2) by (auto simp: creq_shape_def q'_def)
  have "length (inner (creq_buf q)) = 38"
    using laid_outD(1,2) [OF lo(1)] by (simp add: encode_attr_def)
  then have f: "seal_fits q'" by (simp add: seal_fits_def q'_def user_blocks_def div_ceil_def)
  have r: "16 \<le> length (replicate 16 9 :: bytes)" and e: "length [65, 66 :: u8] \<le> 128" by simp_all
  obtain pb hdr attrs where "creq_seal toy_crypto q' 7 (client_secret (client_new 1 [5])) (replicate 16 9) = Some (Ok pb)"
    "validate toy_crypto (inner pb @ [0]) (client_new 1 [5]) = VOk hdr attrs"
    "pap_verify toy_crypto (request_new (hdr_code hdr) (hdr_identifier hdr) (hdr_authenticator hdr) attrs
        (client_new 1 [5]) (SocketV4 1 2) (SocketV4 3 4)) [65, 66] = Some (Ok Match)"
    using pap_login [OF wf_toy_crypto s(1) f r h s(2) e, of 7 "client_new 1 [5]" "[0]" "SocketV4 1 2" "SocketV4 3 4"]
    by auto
  then show ?thesis using q(1) u by blast
qed

end
